(* ===== verification/GoBase.thy ===== *)
theory GoBase
  imports Main "HOL-Library.Multiset" "HOL-Library.List_Lexorder" "HOL-Library.Char_ord"
begin

text \<open>
  Prelude of the development: the parts of the Go language and of its standard library that every
  component uses.  It holds 64-bit integers (as int-valued numbers with the wrap-around
  written out), byte strings with \<open>strings.TrimSpace\<close> and \<open>strings.ToLower\<close>, Go maps as
  association lists with distinct keys, the iteration order of a Go map (which the language leaves
  unspecified) and sorting with a comparison function (\<open>sort.Slice\<close>).
\<close>

named_theorems go_int "facts on wrapping and saturating 64-bit arithmetic"
named_theorems go_map "facts on association lists that model Go maps"

section \<open>64-bit integers\<close>

abbreviation MaxInt64 :: int where "MaxInt64 \<equiv> 9223372036854775807"
abbreviation MinInt64 :: int where "MinInt64 \<equiv> - 9223372036854775808"
abbreviation MaxUint64 :: int where "MaxUint64 \<equiv> 18446744073709551615"

text \<open>The values of Go's \<open>int64\<close>, and the wrap-around of its arithmetic.\<close>

definition i64 :: "int \<Rightarrow> bool" where
  "i64 x \<longleftrightarrow> MinInt64 \<le> x \<and> x \<le> MaxInt64"

definition wrap64 :: "int \<Rightarrow> int" where
  "wrap64 x = (x + 9223372036854775808) mod 18446744073709551616 - 9223372036854775808"

definition sat64 :: "int \<Rightarrow> int" where
  "sat64 x = (if x > MaxInt64 then MaxInt64 else if x < MinInt64 then MinInt64 else x)"

lemma i64_wrap64 [go_int, simp]: "i64 (wrap64 x)"
proof -
  have "0 \<le> (x + 9223372036854775808) mod 18446744073709551616"
    and "(x + 9223372036854775808) mod 18446744073709551616 < 18446744073709551616"
    by simp_all
  then show ?thesis unfolding i64_def wrap64_def by linarith
qed

lemma wrap64_id [go_int]: "i64 x \<Longrightarrow> wrap64 x = x"
  by (simp add: i64_def wrap64_def)

lemma wrap64_add_left [go_int]: "wrap64 (wrap64 a + b) = wrap64 (a + b)"
proof -
  let ?m = "18446744073709551616 :: int" and ?h = "9223372036854775808 :: int"
  have "(wrap64 a + b + ?h) mod ?m = ((a + ?h) mod ?m + b) mod ?m"
    by (simp add: wrap64_def)
  also have "\<dots> = (a + ?h + b) mod ?m" by (rule mod_add_left_eq)
  also have "\<dots> = (a + b + ?h) mod ?m" by (simp only: add.commute add.left_commute add.assoc)
  finally show ?thesis by (simp only: wrap64_def [of "wrap64 a + b"] wrap64_def [of "a + b"])
qed

lemma wrap64_add_right [go_int]: "wrap64 (a + wrap64 b) = wrap64 (a + b)"
  by (metis wrap64_add_left add.commute)

lemma wrap64_wrap64 [go_int, simp]: "wrap64 (wrap64 a) = wrap64 a"
  by (rule wrap64_id) simp

text \<open>Comparing a saturated difference with a value of the type loses nothing.\<close>

lemma sat64_ge_iff [go_int]: "i64 w \<Longrightarrow> w > MinInt64 \<Longrightarrow> sat64 x \<ge> w \<longleftrightarrow> x \<ge> w"
  by (auto simp: sat64_def i64_def)

lemma sat64_id [go_int]: "i64 x \<Longrightarrow> sat64 x = x"
  by (simp add: sat64_def i64_def)

section \<open>Byte strings\<close>

text \<open>
  A Go string is a sequence of bytes, a HOL string a list of 8-bit characters.  The encodings
  below are the UTF-8 forms of the runes for which \<open>unicode.IsSpace\<close> holds.
\<close>

definition space_encodings :: "string list" where
  "space_encodings =
     map (\<lambda>bs. map char_of bs)
       [[9], [10], [11], [12], [13], [32], [194, 133], [194, 160], [225, 154, 128],
        [226, 128, 128], [226, 128, 129], [226, 128, 130], [226, 128, 131], [226, 128, 132],
        [226, 128, 133], [226, 128, 134], [226, 128, 135], [226, 128, 136], [226, 128, 137],
        [226, 128, 138], [226, 128, 168], [226, 128, 169], [226, 128, 175], [226, 129, 159],
        [227, 128, 128 :: nat]]"

fun has_prefix :: "string \<Rightarrow> string \<Rightarrow> bool" where
  "has_prefix s [] = True"
| "has_prefix [] (p # ps) = False"
| "has_prefix (c # cs) (p # ps) = (c = p \<and> has_prefix cs ps)"

lemma has_prefix_append: "has_prefix s p \<longleftrightarrow> (\<exists>r. s = p @ r)"
  by (induction s p rule: has_prefix.induct) auto

lemma has_prefix_length: "has_prefix s p \<Longrightarrow> length p \<le> length s"
  by (auto simp: has_prefix_append)

text \<open>Strip the given encodings from the front as long as one of them is there.\<close>

function strip_left :: "string list \<Rightarrow> string \<Rightarrow> string" where
  "strip_left encs s =
     (case find (\<lambda>e. e \<noteq> [] \<and> has_prefix s e) encs of
        None \<Rightarrow> s
      | Some e \<Rightarrow> strip_left encs (drop (length e) s))"
  by pat_completeness auto
termination
proof (relation "measure (\<lambda>(encs, s). length s)")
  show "((encs, drop (length e) s), encs, s) \<in> measure (\<lambda>(encs, s). length s)"
    if "find (\<lambda>e. e \<noteq> [] \<and> has_prefix s e) encs = Some e" for encs s e
  proof -
    from that have "e \<noteq> []" "has_prefix s e" by (auto simp: find_Some_iff)
    then show ?thesis by (auto dest: has_prefix_length simp: has_prefix_append)
  qed
qed simp

declare strip_left.simps [simp del]

definition go_trim_left :: "string \<Rightarrow> string" where
  "go_trim_left s = strip_left space_encodings s"

definition go_trim_right :: "string \<Rightarrow> string" where
  "go_trim_right s = rev (strip_left (map rev space_encodings) (rev s))"

text \<open>\<open>strings.TrimSpace\<close>.\<close>

definition go_trim_space :: "string \<Rightarrow> string" where
  "go_trim_space s = go_trim_right (go_trim_left s)"

lemma strip_left_suffix: "\<exists>p. s = p @ strip_left encs s"
proof (induction encs s rule: strip_left.induct)
  case (1 encs s)
  show ?case
  proof (cases "find (\<lambda>e. e \<noteq> [] \<and> has_prefix s e) encs")
    case None
    then show ?thesis by (simp add: strip_left.simps [of encs s])
  next
    case (Some e)
    then obtain r where r: "s = e @ r" by (auto simp: find_Some_iff has_prefix_append)
    from "1.IH" [OF Some] obtain p where "drop (length e) s = p @ strip_left encs (drop (length e) s)"
      by blast
    then have "r = p @ strip_left encs r" by (simp add: r)
    then have "s = (e @ p) @ strip_left encs r" by (simp add: r)
    moreover have "strip_left encs s = strip_left encs (drop (length e) s)"
      using Some by (simp add: strip_left.simps [of encs s])
    moreover have "drop (length e) s = r" by (simp add: r)
    ultimately show ?thesis by metis
  qed
qed

lemma strip_left_idem: "strip_left encs (strip_left encs s) = strip_left encs s"
proof (induction encs s rule: strip_left.induct)
  case (1 encs s)
  then show ?case
    by (cases "find (\<lambda>e. e \<noteq> [] \<and> has_prefix s e) encs")
       (simp_all add: strip_left.simps [of encs s])
qed

lemma length_strip_left: "length (strip_left encs s) \<le> length s"
  using strip_left_suffix [of s encs] by (metis length_append le_add2)

lemma length_go_trim_space: "length (go_trim_space s) \<le> length s"
  unfolding go_trim_space_def go_trim_right_def go_trim_left_def
  by (metis length_rev length_strip_left le_trans)

text \<open>A string of visible ASCII characters has nothing to strip.\<close>

definition visible :: "char \<Rightarrow> bool" where
  "visible c \<longleftrightarrow> 32 < (of_char c :: nat) \<and> (of_char c :: nat) < 128"

lemma strip_left_visible:
  assumes "s = [] \<or> visible (hd s)" and "\<forall>e \<in> set encs. e \<noteq> [] \<longrightarrow> \<not> visible (hd e)"
  shows "strip_left encs s = s"
proof -
  have "find (\<lambda>e. e \<noteq> [] \<and> has_prefix s e) encs = None"
    using assms by (cases s) (auto simp: find_None_iff has_prefix_append Cons_eq_append_conv)
  then show ?thesis by (simp add: strip_left.simps)
qed

lemma go_trim_space_visible: "list_all visible s \<Longrightarrow> go_trim_space s = s"
proof -
  assume s: "list_all visible s"
  have l: "\<forall>e \<in> set space_encodings. e \<noteq> [] \<longrightarrow> \<not> visible (hd e)"
    by (simp add: space_encodings_def visible_def)
  have r: "\<forall>e \<in> set (map rev space_encodings). e \<noteq> [] \<longrightarrow> \<not> visible (hd e)"
    by (simp add: space_encodings_def visible_def)
  have "s = [] \<or> visible (hd s)"
    using s by (cases s) simp_all
  moreover have "rev s = [] \<or> visible (hd (rev s))"
    using s by (cases s rule: rev_cases) simp_all
  ultimately show ?thesis
    using l r by (simp add: go_trim_space_def go_trim_left_def go_trim_right_def strip_left_visible)
qed

text \<open>
  \<open>strings.ToLower\<close>: bytes below 128 are mapped directly when the whole string is ASCII; any
  other string goes through the Unicode case tables, the parameter \<open>uni\<close>.
\<close>

definition ascii_lower :: "char \<Rightarrow> char" where
  "ascii_lower c = (let n = (of_char c :: nat) in if 65 \<le> n \<and> n \<le> 90 then char_of (n + 32) else c)"

definition is_ascii :: "string \<Rightarrow> bool" where
  "is_ascii s = list_all (\<lambda>c. (of_char c :: nat) < 128) s"

definition go_to_lower :: "(string \<Rightarrow> string) \<Rightarrow> string \<Rightarrow> string" where
  "go_to_lower uni s = (if is_ascii s then map ascii_lower s else uni s)"

section \<open>Go maps\<close>

text \<open>
  A Go map is an association list whose keys are distinct; \<open>mget\<close>, \<open>mput\<close> and \<open>mdel\<close> are
  \<open>m[k]\<close>, \<open>m[k] = v\<close> and \<open>delete(m, k)\<close>.
\<close>

type_synonym ('k, 'v) gomap = "('k \<times> 'v) list"

definition mkeys :: "('k, 'v) gomap \<Rightarrow> 'k list" where
  "mkeys m = map fst m"

definition wf_map :: "('k, 'v) gomap \<Rightarrow> bool" where
  "wf_map m \<longleftrightarrow> distinct (mkeys m)"

abbreviation mget :: "('k, 'v) gomap \<Rightarrow> 'k \<Rightarrow> 'v option" where
  "mget m k \<equiv> map_of m k"

fun mput :: "('k, 'v) gomap \<Rightarrow> 'k \<Rightarrow> 'v \<Rightarrow> ('k, 'v) gomap" where
  "mput [] k v = [(k, v)]"
| "mput ((k', v') # m) k v = (if k' = k then (k, v) # m else (k', v') # mput m k v)"

definition mdel :: "('k, 'v) gomap \<Rightarrow> 'k \<Rightarrow> ('k, 'v) gomap" where
  "mdel m k = filter (\<lambda>kv. fst kv \<noteq> k) m"

lemma mget_mput [go_map, simp]: "mget (mput m k v) = (mget m)(k \<mapsto> v)"
  by (induction m k v rule: mput.induct) auto

lemma mget_mdel [go_map, simp]: "mget (mdel m k) = (mget m)(k := None)"
  by (induction m) (auto simp: mdel_def)

lemma set_mkeys_mput [go_map, simp]: "set (mkeys (mput m k v)) = insert k (set (mkeys m))"
  by (induction m k v rule: mput.induct) (auto simp: mkeys_def)

lemma set_mkeys_mdel [go_map, simp]: "set (mkeys (mdel m k)) = set (mkeys m) - {k}"
  by (auto simp: mkeys_def mdel_def)

lemma wf_map_nil [go_map, simp]: "wf_map []"
  by (simp add: wf_map_def mkeys_def)

lemma wf_map_filter [go_map, intro]: "wf_map m \<Longrightarrow> wf_map (filter P m)"
  by (auto simp: wf_map_def mkeys_def distinct_map intro: inj_on_subset)

lemma wf_map_mdel [go_map, intro]: "wf_map m \<Longrightarrow> wf_map (mdel m k)"
  by (auto simp: mdel_def)

lemma wf_map_Cons: "wf_map ((k, v) # m) \<longleftrightarrow> k \<notin> set (mkeys m) \<and> wf_map m"
  by (simp add: wf_map_def mkeys_def)

lemma wf_map_mput [go_map, intro]: "wf_map m \<Longrightarrow> wf_map (mput m k v)"
  by (induction m k v rule: mput.induct) (auto simp: wf_map_Cons, simp add: mkeys_def)

lemma mget_iff [go_map]: "wf_map m \<Longrightarrow> mget m k = Some v \<longleftrightarrow> (k, v) \<in> set m"
  by (simp add: wf_map_def mkeys_def)

lemma mget_None_iff [go_map]: "mget m k = None \<longleftrightarrow> k \<notin> set (mkeys m)"
  by (simp add: mkeys_def map_of_eq_None_iff)

lemma mget_filter:
  "wf_map m \<Longrightarrow> mget (filter P m) k =
     (case mget m k of None \<Rightarrow> None | Some v \<Rightarrow> if P (k, v) then Some v else None)"
proof (induction m)
  case (Cons kv m)
  obtain k' v' where kv: "kv = (k', v')" by (cases kv)
  with Cons.prems have wf: "wf_map m" and k': "mget m k' = None"
    by (auto simp: wf_map_def mkeys_def map_of_eq_None_iff)
  show ?case using Cons.IH [OF wf] k' by (auto simp: kv)
qed simp

lemma mput_new: "k \<notin> set (mkeys m) \<Longrightarrow> mput m k v = m @ [(k, v)]"
  by (induction m k v rule: mput.induct) (auto simp: mkeys_def)

lemma length_mput: "length (mput m k v) = (if k \<in> set (mkeys m) then length m else Suc (length m))"
  by (induction m k v rule: mput.induct) (auto simp: mkeys_def)

lemma length_mdel:
  assumes "wf_map m" and "k \<in> set (mkeys m)"
  shows "length (mdel m k) = length m - 1"
  using assms
proof (induction m)
  case (Cons kv m)
  show ?case
  proof (cases "fst kv = k")
    case True
    with Cons.prems have "k \<notin> fst ` set m"
      by (auto simp: wf_map_def mkeys_def)
    then have "filter (\<lambda>kv. fst kv \<noteq> k) m = m"
      by (auto simp: filter_id_conv)
    with True show ?thesis by (simp add: mdel_def)
  next
    case False
    with Cons.prems have wf: "wf_map m" and k: "k \<in> set (mkeys m)"
      by (auto simp: wf_map_def mkeys_def)
    have "length (mdel m k) = length m - 1" by (rule Cons.IH [OF wf k])
    moreover from k have "length m \<noteq> 0" by (auto simp: mkeys_def)
    moreover have "mdel (kv # m) k = kv # mdel m k" using False by (simp add: mdel_def)
    ultimately show ?thesis by simp
  qed
qed (simp add: mkeys_def)

lemma length_mdel_le: "length (mdel m k) \<le> length m"
  by (simp add: mdel_def)

text \<open>
  The order in which \<open>for k, v := range m\<close> visits a map is chosen by the runtime: a function that
  permutes the entries, a parameter of every definition whose result could depend on it.
\<close>

definition iteration_order :: "(('k, 'v) gomap \<Rightarrow> ('k, 'v) gomap) \<Rightarrow> bool" where
  "iteration_order ord \<longleftrightarrow> (\<forall>m. mset (ord m) = mset m)"

lemma iteration_order_set: "iteration_order ord \<Longrightarrow> set (ord m) = set m"
  by (metis iteration_order_def set_mset_mset)

lemma iteration_order_length: "iteration_order ord \<Longrightarrow> length (ord m) = length m"
  by (metis iteration_order_def size_mset)

lemma iteration_order_id: "iteration_order (\<lambda>m. m)" and iteration_order_rev: "iteration_order rev"
  by (simp_all add: iteration_order_def)

section \<open>Errors and loops that stop at the first error\<close>

text \<open>A Go function that returns a value and an error returns \<open>Inl\<close> of the error or \<open>Inr\<close> of the value.\<close>

definition bindE :: "'e + 'a \<Rightarrow> ('a \<Rightarrow> 'e + 'b) \<Rightarrow> 'e + 'b" where
  "bindE r f = (case r of Inl e \<Rightarrow> Inl e | Inr x \<Rightarrow> f x)"

fun foldE :: "('a \<Rightarrow> 's \<Rightarrow> 'e + 's) \<Rightarrow> 'a list \<Rightarrow> 's \<Rightarrow> 'e + 's" where
  "foldE f [] s = Inr s"
| "foldE f (x # xs) s = bindE (f x s) (foldE f xs)"

lemma bindE_simps [simp]: "bindE (Inl e) f = Inl e" "bindE (Inr x) f = f x"
  by (simp_all add: bindE_def)

lemma bindE_Inr: "bindE r f = Inr y \<longleftrightarrow> (\<exists>x. r = Inr x \<and> f x = Inr y)"
  by (cases r) auto

lemma foldE_Inr: "(\<And>x s. x \<in> set xs \<Longrightarrow> f x s = Inr (g x s)) \<Longrightarrow> foldE f xs s = Inr (fold g xs s)"
  by (induction xs arbitrary: s) auto

lemma foldE_invariant:
  assumes "foldE f xs s = Inr t" and "P s" and "\<And>x s t. x \<in> set xs \<Longrightarrow> P s \<Longrightarrow> f x s = Inr t \<Longrightarrow> P t"
  shows "P t"
  using assms by (induction xs arbitrary: s) (auto simp: bindE_Inr)

section \<open>State machines\<close>

text \<open>
  A component with state is a step function that returns an output and the next state.  A locale
  collects what an invariant of such a component gives: once every step on an admissible event keeps
  it, every run does, and every output of a run is an output of a step from a good state.
\<close>

fun run :: "('s \<Rightarrow> 'e \<Rightarrow> 'o \<times> 's) \<Rightarrow> 's \<Rightarrow> 'e list \<Rightarrow> 'o list \<times> 's" where
  "run step s [] = ([], s)"
| "run step s (e # es) =
     (let (out, s') = step s e; (outs, t) = run step s' es in (out # outs, t))"

locale machine =
  fixes step :: "'s \<Rightarrow> 'e \<Rightarrow> 'o \<times> 's" and inv :: "'s \<Rightarrow> bool" and ok :: "'e \<Rightarrow> bool"
  assumes step_inv: "inv s \<Longrightarrow> ok e \<Longrightarrow> inv (snd (step s e))"
begin

lemma run_inv: "inv s \<Longrightarrow> list_all ok es \<Longrightarrow> inv (snd (run step s es))"
proof (induction es arbitrary: s)
  case (Cons e es)
  then have "inv (snd (step s e))" by (simp add: step_inv)
  with Cons show ?case by (simp add: Let_def split_beta)
qed simp

lemma run_outputs:
  assumes "inv s" and "list_all ok es"
    and "\<And>s e. inv s \<Longrightarrow> ok e \<Longrightarrow> P (fst (step s e))"
  shows "list_all P (fst (run step s es))"
  using assms(1,2)
proof (induction es arbitrary: s)
  case (Cons e es)
  then have "inv (snd (step s e))" by (simp add: step_inv)
  with Cons assms(3) show ?case by (simp add: Let_def split_beta)
qed simp

end

section \<open>Sorting with a comparison function\<close>

text \<open>
  \<open>sort.Slice\<close> leaves the slice in some order that is sorted for the comparison.  The model sorts
  by insertion; a comparison that is a strict total order on the elements leaves no choice, which
  the locale below shows once for every comparison of the program.
\<close>

fun insert_by :: "('a \<Rightarrow> 'a \<Rightarrow> bool) \<Rightarrow> 'a \<Rightarrow> 'a list \<Rightarrow> 'a list" where
  "insert_by lt x [] = [x]"
| "insert_by lt x (y # ys) = (if lt y x then y # insert_by lt x ys else x # y # ys)"

definition sort_slice :: "('a \<Rightarrow> 'a \<Rightarrow> bool) \<Rightarrow> 'a list \<Rightarrow> 'a list" where
  "sort_slice lt xs = foldr (insert_by lt) xs []"

lemma mset_insert_by [simp]: "mset (insert_by lt x ys) = add_mset x (mset ys)"
  by (induction lt x ys rule: insert_by.induct) auto

lemma mset_sort_slice [simp]: "mset (sort_slice lt xs) = mset xs"
  by (induction xs) (auto simp: sort_slice_def)

lemma set_sort_slice [simp]: "set (sort_slice lt xs) = set xs"
  by (metis mset_sort_slice set_mset_mset)

lemma length_sort_slice [simp]: "length (sort_slice lt xs) = length xs"
  by (metis mset_sort_slice size_mset)

locale row_order =
  fixes lt :: "'r \<Rightarrow> 'r \<Rightarrow> bool" and key :: "'r \<Rightarrow> 'k"
  assumes less_irrefl: "\<not> lt x x"
    and less_trans: "lt x y \<Longrightarrow> lt y z \<Longrightarrow> lt x z"
    and less_total: "key x \<noteq> key y \<Longrightarrow> lt x y \<or> lt y x"
begin

lemma less_asym: "lt x y \<Longrightarrow> \<not> lt y x"
  using less_irrefl less_trans by blast

lemma sorted_insert_by:
  assumes "sorted_wrt lt ys" and "key x \<notin> key ` set ys"
  shows "sorted_wrt lt (insert_by lt x ys)"
  using assms
proof (induction ys)
  case (Cons y ys)
  show ?case
  proof (cases "lt y x")
    case True
    have "set (insert_by lt x ys) = insert x (set ys)"
      by (metis mset_insert_by set_mset_mset set_mset_add_mset_insert)
    with True Cons show ?thesis by auto
  next
    case False
    with Cons.prems have "lt x y" using less_total [of x y] by auto
    with False Cons.prems show ?thesis by (auto intro: less_trans)
  qed
qed simp

lemma sorted_sort_slice:
  assumes "distinct (map key xs)"
  shows "sorted_wrt lt (sort_slice lt xs)"
  using assms
proof (induction xs)
  case (Cons x xs)
  have "set (foldr (insert_by lt) xs []) = set xs"
    using set_sort_slice [of lt xs] by (simp add: sort_slice_def)
  with Cons show ?case by (auto simp: sort_slice_def intro!: sorted_insert_by)
qed (simp add: sort_slice_def)

text \<open>Two sorted arrangements of the same rows are equal.\<close>

lemma sorted_unique:
  assumes "sorted_wrt lt xs" and "sorted_wrt lt ys" and "mset xs = mset ys"
  shows "xs = ys"
  using assms
proof (induction xs arbitrary: ys)
  case (Cons x xs)
  then obtain y ys' where ys: "ys = y # ys'" by (cases ys) auto
  have "x \<in> set ys" using Cons.prems(3) by (metis list.set_intros(1) set_mset_mset)
  moreover have "y \<in> set (x # xs)"
    using Cons.prems(3) ys by (metis list.set_intros(1) set_mset_mset)
  ultimately have "x = y"
    using Cons.prems(1,2) ys less_asym by auto
  with Cons.prems ys have "xs = ys'" by (auto intro: Cons.IH)
  with \<open>x = y\<close> ys show ?case by simp
qed simp

text \<open>So the result of a sort does not depend on the order the rows came in.\<close>

lemma sort_slice_perm:
  assumes "mset xs = mset ys" and "distinct (map key xs)"
  shows "sort_slice lt xs = sort_slice lt ys"
proof (rule sorted_unique)
  have "distinct (map key ys)"
    using assms by (metis mset_map mset_eq_imp_distinct_iff)
  then show "sorted_wrt lt (sort_slice lt ys)" by (rule sorted_sort_slice)
  show "sorted_wrt lt (sort_slice lt xs)" using assms(2) by (rule sorted_sort_slice)
  show "mset (sort_slice lt xs) = mset (sort_slice lt ys)" using assms(1) by simp
qed

end

end
