(* ===== verification/GoTime.thy ===== *)
theory GoTime
  imports GoBase
begin

text \<open>
  Go's \<open>time\<close> package as the program uses it.  An instant is the number of nanoseconds since the
  Unix epoch, a \<open>time.Duration\<close> an int of nanoseconds.  A \<open>*time.Location\<close> is a parameter
  (time-zone data is not part of the repository): the function \<open>Location.lookup\<close>, which gives for a
  Unix second the UTC offset in force and the half-open range of seconds it is in force for.
\<close>

type_synonym gtime = int
type_synonym duration = int
type_synonym zone = "int \<Rightarrow> int \<times> int \<times> int"

abbreviation Second :: duration where "Second \<equiv> 1000000000"
abbreviation Minute :: duration where "Minute \<equiv> 60000000000"
abbreviation Hour :: duration where "Hour \<equiv> 3600000000000"

text \<open>The zero \<open>time.Time\<close> is January 1 of year 1, UTC.\<close>

definition zero_time :: gtime where
  "zero_time = - 62135596800 * Second"

definition is_zero :: "gtime \<Rightarrow> bool" where
  "is_zero t \<longleftrightarrow> t = zero_time"

text \<open>\<open>t.Add(d)\<close>; \<open>t.Sub(u)\<close>, which saturates at the limits of \<open>time.Duration\<close>; \<open>t.Unix()\<close>.\<close>

definition t_add :: "gtime \<Rightarrow> duration \<Rightarrow> gtime" where
  "t_add t d = t + d"

definition t_sub :: "gtime \<Rightarrow> gtime \<Rightarrow> duration" where
  "t_sub t u = sat64 (t - u)"

definition unix :: "gtime \<Rightarrow> int" where
  "unix t = t div Second"

definition time_unix :: "int \<Rightarrow> gtime" where
  "time_unix s = s * Second"

lemma unix_time_unix [simp]: "unix (time_unix s) = s"
  by (simp add: unix_def time_unix_def)

lemma time_unix_le_iff: "time_unix s \<le> t \<longleftrightarrow> s \<le> unix t"
  unfolding time_unix_def unix_def by linarith

lemma less_time_unix_iff: "t < time_unix s \<longleftrightarrow> unix t < s"
  unfolding time_unix_def unix_def by linarith

lemma time_unix_less [simp]: "time_unix a < time_unix b \<longleftrightarrow> a < b"
  by (simp add: time_unix_def)

lemma time_unix_inject [simp]: "time_unix a = time_unix b \<longleftrightarrow> a = b"
  by (simp add: time_unix_def)

section \<open>Local calendar\<close>

definition zone_offset :: "zone \<Rightarrow> int \<Rightarrow> int" where
  "zone_offset z s = fst (z s)"

text \<open>Seconds of local wall-clock time, the local civil day and the second of that day.\<close>

definition local_secs :: "zone \<Rightarrow> gtime \<Rightarrow> int" where
  "local_secs z t = unix t + zone_offset z (unix t)"

definition local_day :: "zone \<Rightarrow> gtime \<Rightarrow> int" where
  "local_day z t = local_secs z t div 86400"

text \<open>
  \<open>time.Date\<close> for the civil day number \<open>d\<close> and the second \<open>sod\<close> of that day: look the offset up
  as if the wall clock were UTC, subtract it, and look again when that left the range of the offset.
\<close>

definition date_at :: "zone \<Rightarrow> int \<Rightarrow> int \<Rightarrow> gtime" where
  "date_at z d sod =
     (let u = d * 86400 + sod; (offset, start, stop) = z u in
      if offset \<noteq> 0
      then let utc = u - offset;
               offset' = (if utc < start \<or> utc \<ge> stop then zone_offset z utc else offset)
           in time_unix (u - offset')
      else time_unix u)"

text \<open>\<open>time.Date(y, m, d, 0, 0, 0, 0, loc)\<close>; \<open>AddDate(0, 0, n)\<close> of such a midnight is a midnight.\<close>

definition midnight :: "zone \<Rightarrow> int \<Rightarrow> gtime" where
  "midnight z d = date_at z d 0"

text \<open>\<open>t.AddDate(0, 0, n)\<close>: the same wall clock and fraction on the \<open>n\<close>-th next civil day.\<close>

definition add_days :: "zone \<Rightarrow> gtime \<Rightarrow> int \<Rightarrow> gtime" where
  "add_days z t n =
     date_at z (local_day z t + n) (local_secs z t mod 86400) + t mod Second"

text \<open>
  What a well-behaved zone promises: every civil day is a non-empty half-open range of instants that
  starts at its midnight, and is what the clock shows exactly inside that range.
\<close>

definition zone_days :: "zone \<Rightarrow> bool" where
  "zone_days z \<longleftrightarrow> (\<forall>d. midnight z d < midnight z (d + 1)) \<and>
     (\<forall>t d. local_day z t = d \<longleftrightarrow> midnight z d \<le> t \<and> t < midnight z (d + 1)) \<and>
     (\<forall>d. local_secs z (midnight z d) = d * 86400)"

definition fixed_zone :: "int \<Rightarrow> zone" where
  "fixed_zone off = (\<lambda>s. (off, MinInt64, MaxInt64))"

lemma midnight_unix: "\<exists>s. midnight z d = time_unix s"
  by (auto simp: midnight_def date_at_def Let_def split: prod.split)

lemma midnight_Suc_unix:
  "zone_days z \<Longrightarrow> unix (midnight z d) < unix (midnight z (d + 1))"
proof -
  assume "zone_days z"
  then have "midnight z d < midnight z (d + 1)" by (simp add: zone_days_def)
  moreover obtain a b where "midnight z d = time_unix a" "midnight z (d + 1) = time_unix b"
    using midnight_unix by blast
  ultimately show ?thesis by simp
qed

lemma midnight_of_day: "zone_days z \<Longrightarrow> local_day z (midnight z d) = d"
  by (simp add: zone_days_def)

lemma midnight_le_day: "zone_days z \<Longrightarrow> midnight z (local_day z t) \<le> t"
  unfolding zone_days_def by blast

lemma day_less_midnight: "zone_days z \<Longrightarrow> t < midnight z (local_day z t + 1)"
  unfolding zone_days_def by blast

lemma local_dayI: "zone_days z \<Longrightarrow> midnight z d \<le> t \<Longrightarrow> t < midnight z (d + 1) \<Longrightarrow> local_day z t = d"
  by (simp add: zone_days_def)

lemma midnight_mono: "zone_days z \<Longrightarrow> a \<le> b \<Longrightarrow> midnight z a \<le> midnight z b"
proof (induction "nat (b - a)" arbitrary: b)
  case (Suc n)
  then have "midnight z a \<le> midnight z (b - 1)" by auto
  also have "\<dots> < midnight z (b - 1 + 1)" using Suc.prems(1) by (simp only: zone_days_def)
  finally show ?case by simp
qed simp

lemma midnight_strict_mono:
  assumes "zone_days z" and "a < b"
  shows "midnight z a < midnight z b"
proof -
  have "midnight z a < midnight z (a + 1)" using assms(1) by (simp only: zone_days_def)
  also have "\<dots> \<le> midnight z b" using assms by (simp add: midnight_mono)
  finally show ?thesis .
qed

lemma add_days_midnight: "zone_days z \<Longrightarrow> add_days z (midnight z d) n = midnight z (d + n)"
proof -
  assume z: "zone_days z"
  obtain s where "midnight z d = time_unix s" using midnight_unix by blast
  then have "midnight z d mod Second = 0" by (simp add: time_unix_def)
  moreover have "local_secs z (midnight z d) = d * 86400" using z by (simp add: zone_days_def)
  moreover have "local_day z (midnight z d) = d" using z by (rule midnight_of_day)
  ultimately show ?thesis by (simp add: add_days_def midnight_def)
qed

lemma midnight_fixed_zone: "midnight (fixed_zone off) d = time_unix (d * 86400 - off)"
  by (simp add: midnight_def date_at_def fixed_zone_def zone_offset_def Let_def)

lemma div_day_iff: "(x::int) div 86400 = d \<longleftrightarrow> d * 86400 \<le> x \<and> x < (d + 1) * 86400"
proof -
  have "x = 86400 * (x div 86400) + x mod 86400" "0 \<le> x mod 86400" "x mod 86400 < 86400"
    by simp_all
  then show ?thesis by auto
qed

lemma zone_days_fixed_zone: "zone_days (fixed_zone off)"
proof -
  have sec: "local_day (fixed_zone off) t = d \<longleftrightarrow> time_unix (d * 86400 - off) \<le> t \<and>
      t < time_unix ((d + 1) * 86400 - off)" for t d
    unfolding time_unix_le_iff less_time_unix_iff local_day_def local_secs_def zone_offset_def
      fixed_zone_def fst_conv div_day_iff by linarith
  show ?thesis
    unfolding zone_days_def midnight_fixed_zone
    using sec by (auto simp: local_secs_def zone_offset_def fixed_zone_def)
qed

end
