(* ===== verification/LoginLimiter.thy ===== *)
theory LoginLimiter
  imports GoTime
begin

text \<open>
  \<open>internal/auth/login_limiter.go\<close>: the fixed-window limiter of login attempts, with one window per
  source, one global window, and a hard limit on the number of sources it remembers.
\<close>

section \<open>State\<close>

record loginAttemptWindow =
  StartedAt :: gtime
  LastSeen :: gtime
  Attempts :: int

record LoginAttemptLimiterOptions =
  opt_Window :: duration
  opt_PerSourceLimit :: int
  opt_GlobalLimit :: int
  opt_MaxSources :: int

record LoginAttemptLimiter =
  window :: duration
  perSourceLimit :: int
  globalLimit :: int
  maxSources :: int
  sources :: "(string, loginAttemptWindow) gomap"
  global :: loginAttemptWindow

definition zero_window :: loginAttemptWindow where
  "zero_window = \<lparr>StartedAt = zero_time, LastSeen = zero_time, Attempts = 0\<rparr>"

definition NewLoginAttemptLimiter :: "LoginAttemptLimiterOptions \<Rightarrow> LoginAttemptLimiter" where
  "NewLoginAttemptLimiter options =
     \<lparr>window = (if opt_Window options \<le> 0 then Minute else opt_Window options),
      perSourceLimit = (if opt_PerSourceLimit options \<le> 0 then 5 else opt_PerSourceLimit options),
      globalLimit = (if opt_GlobalLimit options \<le> 0 then 60 else opt_GlobalLimit options),
      maxSources = (if opt_MaxSources options \<le> 0 then 4096 else opt_MaxSources options),
      sources = [], global = zero_window\<rparr>"

section \<open>Operations\<close>

definition retryAfter :: "gtime \<Rightarrow> gtime \<Rightarrow> duration \<Rightarrow> duration" where
  "retryAfter now startedAt win =
     (let retry = t_sub (t_add startedAt win) now in if retry \<le> 0 then Second else retry)"

definition resetGlobalWindowLocked :: "LoginAttemptLimiter \<Rightarrow> gtime \<Rightarrow> LoginAttemptLimiter" where
  "resetGlobalWindowLocked l now =
     (if is_zero (StartedAt (global l)) \<or> t_sub now (StartedAt (global l)) \<ge> window l
      then l\<lparr>global := \<lparr>StartedAt = now, LastSeen = now, Attempts = 0\<rparr>\<rparr>
      else l)"

definition removeExpiredSourcesLocked :: "LoginAttemptLimiter \<Rightarrow> gtime \<Rightarrow> LoginAttemptLimiter" where
  "removeExpiredSourcesLocked l now =
     l\<lparr>sources := filter (\<lambda>(source, state). \<not> t_sub now (StartedAt state) \<ge> window l) (sources l)\<rparr>"

text \<open>
  The scan for the source seen longest ago; ties go to the source the runtime visits first, so the
  iteration order \<open>ord\<close> is a parameter.
\<close>

fun oldest_scan :: "(string \<times> loginAttemptWindow) list \<Rightarrow> string \<Rightarrow> gtime \<Rightarrow> string" where
  "oldest_scan [] oldestSource oldestSeen = oldestSource"
| "oldest_scan ((source, state) # rest) oldestSource oldestSeen =
     (if oldestSource = [] \<or> LastSeen state < oldestSeen
      then oldest_scan rest source (LastSeen state)
      else oldest_scan rest oldestSource oldestSeen)"

type_synonym source_order =
  "(string, loginAttemptWindow) gomap \<Rightarrow> (string, loginAttemptWindow) gomap"

definition makeSourceCapacityLocked :: "source_order \<Rightarrow> LoginAttemptLimiter \<Rightarrow> LoginAttemptLimiter" where
  "makeSourceCapacityLocked ord l =
     (if int (length (sources l)) < maxSources l then l
      else l\<lparr>sources := mdel (sources l) (oldest_scan (ord (sources l)) [] zero_time)\<rparr>)"

text \<open>\<open>Allow\<close> on a limiter that is not nil, after the two housekeeping steps.\<close>

definition allow_locked ::
  "source_order \<Rightarrow> LoginAttemptLimiter \<Rightarrow> string \<Rightarrow> gtime \<Rightarrow> (bool \<times> duration) \<times> LoginAttemptLimiter" where
  "allow_locked ord l source now =
     (if Attempts (global l) \<ge> globalLimit l
      then ((False, retryAfter now (StartedAt (global l)) (window l)), l)
      else
        let (l, state) =
              (case mget (sources l) source of
                 Some state \<Rightarrow> (l, state)
               | None \<Rightarrow> (makeSourceCapacityLocked ord l,
                           \<lparr>StartedAt = now, LastSeen = zero_time, Attempts = 0\<rparr>))
        in if Attempts state \<ge> perSourceLimit l
           then let state = state\<lparr>LastSeen := now\<rparr> in
                ((False, retryAfter now (StartedAt state) (window l)),
                 l\<lparr>sources := mput (sources l) source state\<rparr>)
           else let state = state\<lparr>Attempts := Attempts state + 1, LastSeen := now\<rparr> in
                ((True, 0),
                 l\<lparr>sources := mput (sources l) source state,
                   global := (global l)\<lparr>Attempts := Attempts (global l) + 1, LastSeen := now\<rparr>\<rparr>))"

definition allow_limiter ::
  "source_order \<Rightarrow> LoginAttemptLimiter \<Rightarrow> string \<Rightarrow> gtime \<Rightarrow> (bool \<times> duration) \<times> LoginAttemptLimiter" where
  "allow_limiter ord l source now =
     allow_locked ord (removeExpiredSourcesLocked (resetGlobalWindowLocked l now) now)
       (if source = [] then ''unknown'' else source) now"

text \<open>\<open>Allow\<close>: a nil limiter lets everything through; an empty source counts as \<open>unknown\<close>.\<close>

definition Allow ::
  "source_order \<Rightarrow> LoginAttemptLimiter option \<Rightarrow> string \<Rightarrow> gtime \<Rightarrow>
     (bool \<times> duration) \<times> LoginAttemptLimiter option" where
  "Allow ord lim source now =
     (case lim of
        None \<Rightarrow> ((True, 0), None)
      | Some l \<Rightarrow> (let (res, l') = allow_limiter ord l source now in (res, Some l')))"

definition Reset :: "LoginAttemptLimiter option \<Rightarrow> string \<Rightarrow> LoginAttemptLimiter option" where
  "Reset lim source =
     (case lim of
        None \<Rightarrow> None
      | Some l \<Rightarrow> if source = [] then Some l else Some (l\<lparr>sources := mdel (sources l) source\<rparr>))"

section \<open>Invariant\<close>

definition limiter_inv :: "LoginAttemptLimiter \<Rightarrow> bool" where
  "limiter_inv l \<longleftrightarrow>
     0 < window l \<and> i64 (window l) \<and> 0 < perSourceLimit l \<and> 0 < globalLimit l \<and> 0 < maxSources l \<and>
     wf_map (sources l) \<and> int (length (sources l)) \<le> maxSources l \<and> [] \<notin> set (mkeys (sources l)) \<and>
     (\<forall>(source, state) \<in> set (sources l). 0 \<le> Attempts state \<and> Attempts state \<le> perSourceLimit l) \<and>
     0 \<le> Attempts (global l) \<and> Attempts (global l) \<le> globalLimit l"

lemma limiter_inv_new: "i64 (opt_Window options) \<Longrightarrow> limiter_inv (NewLoginAttemptLimiter options)"
  by (auto simp: limiter_inv_def NewLoginAttemptLimiter_def zero_window_def mkeys_def i64_def)

lemma limiter_inv_resetGlobal: "limiter_inv l \<Longrightarrow> limiter_inv (resetGlobalWindowLocked l now)"
  by (simp add: limiter_inv_def resetGlobalWindowLocked_def)

lemma limiter_inv_removeExpired: "limiter_inv l \<Longrightarrow> limiter_inv (removeExpiredSourcesLocked l now)"
  by (auto simp: limiter_inv_def removeExpiredSourcesLocked_def mkeys_def
      intro: order.trans [OF of_nat_mono [OF length_filter_le]])

text \<open>The scan finds a source of the table, so a full table loses exactly one entry.\<close>

lemma oldest_scan_mem:
  "[] \<notin> fst ` set kvs \<Longrightarrow> kvs \<noteq> [] \<or> os \<noteq> [] \<Longrightarrow> oldest_scan kvs os t \<in> fst ` set kvs \<union> ({os} - {[]})"
proof (induction kvs os t rule: oldest_scan.induct)
  case (2 source state rest os t)
  then show ?case by (cases "os = [] \<or> LastSeen state < t") auto
qed simp

lemma makeSourceCapacityLocked_room:
  assumes "limiter_inv l" and "iteration_order ord"
  shows "int (length (sources (makeSourceCapacityLocked ord l))) < maxSources l"
proof (cases "int (length (sources l)) < maxSources l")
  case True
  then show ?thesis by (simp add: makeSourceCapacityLocked_def)
next
  case False
  let ?k = "oldest_scan (ord (sources l)) [] zero_time"
  from False assms(1) have ne: "sources l \<noteq> []" by (auto simp: limiter_inv_def)
  then have "ord (sources l) \<noteq> []" using iteration_order_length [OF assms(2)] by (metis length_0_conv)
  moreover have "[] \<notin> fst ` set (ord (sources l))"
    using assms by (simp add: iteration_order_set limiter_inv_def mkeys_def)
  ultimately have "?k \<in> fst ` set (ord (sources l))" using oldest_scan_mem by blast
  then have "?k \<in> set (mkeys (sources l))"
    by (simp add: iteration_order_set [OF assms(2)] mkeys_def)
  then have "length (mdel (sources l) ?k) = length (sources l) - 1"
    using assms(1) by (simp add: length_mdel limiter_inv_def)
  with False ne assms(1) show ?thesis
    by (cases "sources l") (auto simp: makeSourceCapacityLocked_def limiter_inv_def)
qed

lemma limiter_inv_makeCapacity:
  "limiter_inv l \<Longrightarrow> limiter_inv (makeSourceCapacityLocked ord l)"
  by (auto simp: limiter_inv_def makeSourceCapacityLocked_def mdel_def mkeys_def
      intro: order.trans [OF of_nat_mono [OF length_filter_le]])

lemma makeSourceCapacityLocked_same [simp]:
  "window (makeSourceCapacityLocked ord l) = window l"
  "perSourceLimit (makeSourceCapacityLocked ord l) = perSourceLimit l"
  "globalLimit (makeSourceCapacityLocked ord l) = globalLimit l"
  "maxSources (makeSourceCapacityLocked ord l) = maxSources l"
  "global (makeSourceCapacityLocked ord l) = global l"
  by (simp_all add: makeSourceCapacityLocked_def)

lemma mput_entries: "(k', v') \<in> set (mput m k v) \<Longrightarrow> (k', v') \<in> set m \<or> (k', v') = (k, v)"
  by (induction m k v rule: mput.induct) (auto split: if_splits)

text \<open>Storing a source whose attempts respect the limit keeps the table good.\<close>

lemma limiter_inv_put:
  assumes "limiter_inv l" and "k \<noteq> []" and "0 \<le> Attempts st" and "Attempts st \<le> perSourceLimit l"
    and "k \<in> set (mkeys (sources l)) \<or> int (length (sources l)) < maxSources l"
  shows "limiter_inv (l\<lparr>sources := mput (sources l) k st\<rparr>)"
  using assms by (auto simp: limiter_inv_def length_mput wf_map_mput dest!: mput_entries)

lemma limiter_inv_global:
  "limiter_inv l \<Longrightarrow> 0 \<le> Attempts g \<Longrightarrow> Attempts g \<le> globalLimit l \<Longrightarrow> limiter_inv (l\<lparr>global := g\<rparr>)"
  by (simp add: limiter_inv_def)

lemma limiter_inv_limits:
  "limiter_inv l \<Longrightarrow> 0 < perSourceLimit l" "limiter_inv l \<Longrightarrow> 0 < globalLimit l"
  "limiter_inv l \<Longrightarrow> 0 \<le> Attempts (global l)"
  by (simp_all add: limiter_inv_def)

text \<open>The three ways a call ends, each keeping the invariant.\<close>

lemma limiter_inv_admit:
  assumes "limiter_inv (l\<lparr>sources := mput (sources l) k st\<rparr>)" and "Attempts (global l) < globalLimit l"
  shows "limiter_inv (l\<lparr>sources := mput (sources l) k st,
           global := (global l)\<lparr>Attempts := Attempts (global l) + 1, LastSeen := now\<rparr>\<rparr>)"
proof -
  have "limiter_inv ((l\<lparr>sources := mput (sources l) k st\<rparr>)
           \<lparr>global := (global l)\<lparr>Attempts := Attempts (global l) + 1, LastSeen := now\<rparr>\<rparr>)"
    using assms limiter_inv_limits(3) [OF assms(1)] by (intro limiter_inv_global) simp_all
  then show ?thesis by simp
qed

lemma allow_locked_inv:
  assumes "limiter_inv l" and "k \<noteq> []" and "iteration_order ord"
  shows "limiter_inv (snd (allow_locked ord l k now))"
proof (cases "Attempts (global l) \<ge> globalLimit l")
  case True
  with assms show ?thesis by (simp add: allow_locked_def)
next
  case False
  show ?thesis
  proof (cases "mget (sources l) k")
    case None
    let ?l = "makeSourceCapacityLocked ord l"
    let ?st = "\<lparr>StartedAt = now, LastSeen = now, Attempts = 1\<rparr>"
    have "limiter_inv (?l\<lparr>sources := mput (sources ?l) k ?st\<rparr>)"
      using assms(2) limiter_inv_makeCapacity [OF assms(1)] makeSourceCapacityLocked_room [OF assms(1,3)]
        limiter_inv_limits(1) [OF assms(1)]
      by (intro limiter_inv_put) simp_all
    from limiter_inv_admit [OF this, of now] show ?thesis
      using False None limiter_inv_limits [OF assms(1)] by (simp add: allow_locked_def Let_def)
  next
    case (Some st)
    then have mem: "(k, st) \<in> set (sources l)" by (rule map_of_SomeD)
    then have key: "k \<in> set (mkeys (sources l))" by (force simp: mkeys_def)
    from mem assms(1) have att: "0 \<le> Attempts st" "Attempts st \<le> perSourceLimit l"
      by (auto simp: limiter_inv_def)
    have put: "limiter_inv (l\<lparr>sources := mput (sources l) k st'\<rparr>)"
      if "0 \<le> Attempts st'" "Attempts st' \<le> perSourceLimit l" for st'
      using that assms(1,2) key by (intro limiter_inv_put) simp_all
    show ?thesis
    proof (cases "Attempts st \<ge> perSourceLimit l")
      case True
      with put [of "st\<lparr>LastSeen := now\<rparr>"] att False Some show ?thesis
        by (simp add: allow_locked_def Let_def)
    next
      case below: False
      then have "limiter_inv (l\<lparr>sources := mput (sources l) k (st\<lparr>Attempts := Attempts st + 1, LastSeen := now\<rparr>)\<rparr>)"
        using att by (intro put) simp_all
      from limiter_inv_admit [OF this, of now] below False Some show ?thesis
        by (simp add: allow_locked_def Let_def)
    qed
  qed
qed

lemma allow_limiter_inv:
  "limiter_inv l \<Longrightarrow> iteration_order ord \<Longrightarrow> limiter_inv (snd (allow_limiter ord l source now))"
  unfolding allow_limiter_def
  by (intro allow_locked_inv limiter_inv_removeExpired limiter_inv_resetGlobal) auto

lemma reset_inv: "limiter_inv l \<Longrightarrow> limiter_inv (l\<lparr>sources := mdel (sources l) k\<rparr>)"
  by (auto simp: limiter_inv_def mdel_def mkeys_def
      intro: order.trans [OF of_nat_mono [OF length_filter_le]])

section \<open>Runs of the limiter\<close>

datatype limiter_op = OpAllow source_order string gtime | OpReset string

fun limiter_step :: "LoginAttemptLimiter \<Rightarrow> limiter_op \<Rightarrow> (bool \<times> duration) \<times> LoginAttemptLimiter" where
  "limiter_step l (OpAllow ord source now) = allow_limiter ord l source now"
| "limiter_step l (OpReset source) = ((False, 0), the (Reset (Some l) source))"

fun limiter_op_ok :: "limiter_op \<Rightarrow> bool" where
  "limiter_op_ok (OpAllow ord source now) = iteration_order ord"
| "limiter_op_ok (OpReset source) = True"

definition same_limits :: "LoginAttemptLimiter \<Rightarrow> LoginAttemptLimiter \<Rightarrow> bool" where
  "same_limits l l' \<longleftrightarrow> window l' = window l \<and> perSourceLimit l' = perSourceLimit l \<and>
     globalLimit l' = globalLimit l \<and> maxSources l' = maxSources l"

lemma limiter_step_inv:
  "limiter_inv l \<Longrightarrow> limiter_op_ok e \<Longrightarrow> limiter_inv (snd (limiter_step l e))"
  by (cases e) (auto simp: allow_limiter_inv Reset_def reset_inv)

lemma limiter_step_limits: "same_limits l (snd (limiter_step l e))"
proof (cases e)
  case (OpAllow ord source now)
  have "same_limits l' (snd (allow_locked ord l' k now))" for l' k
    by (simp add: same_limits_def allow_locked_def Let_def split: option.split)
  then show ?thesis
    unfolding OpAllow limiter_step.simps allow_limiter_def
    by (simp add: same_limits_def removeExpiredSourcesLocked_def resetGlobalWindowLocked_def)
qed (simp add: same_limits_def Reset_def)

interpretation limiter: machine limiter_step "\<lambda>l. limiter_inv l \<and> same_limits l0 l" limiter_op_ok for l0
proof
  fix l e assume "limiter_inv l \<and> same_limits l0 l" "limiter_op_ok e"
  then show "limiter_inv (snd (limiter_step l e)) \<and> same_limits l0 (snd (limiter_step l e))"
    using limiter_step_inv limiter_step_limits [of l e] by (simp add: same_limits_def)
qed

section \<open>Properties\<close>

lemma allow_locked_fresh:
  "mget (sources l) k = None \<Longrightarrow> Attempts (global l) < globalLimit l \<Longrightarrow> 0 < perSourceLimit l \<Longrightarrow>
   fst (fst (allow_locked ord l k now))"
  by (simp add: allow_locked_def Let_def)

lemma housekeeping_limits [simp]:
  "globalLimit (removeExpiredSourcesLocked l now) = globalLimit l"
  "perSourceLimit (removeExpiredSourcesLocked l now) = perSourceLimit l"
  "globalLimit (resetGlobalWindowLocked l now) = globalLimit l"
  "perSourceLimit (resetGlobalWindowLocked l now) = perSourceLimit l"
  by (simp_all add: removeExpiredSourcesLocked_def resetGlobalWindowLocked_def)

text \<open>Inside one global window the clock does not restart the count.\<close>

definition in_window :: "LoginAttemptLimiter \<Rightarrow> gtime \<Rightarrow> bool" where
  "in_window l now \<longleftrightarrow> now < t_add (StartedAt (global l)) (window l)"

lemma resetGlobal_in_window:
  assumes "limiter_inv l" and "\<not> is_zero (StartedAt (global l))" and "in_window l now"
  shows "resetGlobalWindowLocked l now = l"
proof -
  have "\<not> t_sub now (StartedAt (global l)) \<ge> window l"
    using assms by (simp add: t_sub_def sat64_ge_iff limiter_inv_def in_window_def t_add_def)
  with assms(2) show ?thesis by (simp add: resetGlobalWindowLocked_def)
qed

lemma allow_locked_counts:
  "Attempts (global (snd (allow_locked ord l k now))) =
     Attempts (global l) + of_bool (fst (fst (allow_locked ord l k now)))"
  "StartedAt (global (snd (allow_locked ord l k now))) = StartedAt (global l)"
  by (simp_all add: allow_locked_def Let_def split: option.split)

lemma removeExpired_global [simp]:
  "global (removeExpiredSourcesLocked l now) = global l"
  "window (removeExpiredSourcesLocked l now) = window l"
  by (simp_all add: removeExpiredSourcesLocked_def)

fun admitted :: "limiter_op \<Rightarrow> bool \<times> duration \<Rightarrow> bool" where
  "admitted (OpAllow ord source now) res = fst res"
| "admitted (OpReset source) res = False"

fun admissions :: "limiter_op list \<Rightarrow> (bool \<times> duration) list \<Rightarrow> int" where
  "admissions (e # es) (res # ress) = of_bool (admitted e res) + admissions es ress"
| "admissions _ _ = 0"

lemma limiter_step_counts:
  assumes "limiter_inv l" and "\<not> is_zero (StartedAt (global l))"
    and "case e of OpAllow ord source now \<Rightarrow> in_window l now | OpReset source \<Rightarrow> True"
  shows "Attempts (global (snd (limiter_step l e))) =
           Attempts (global l) + of_bool (admitted e (fst (limiter_step l e)))"
    and "StartedAt (global (snd (limiter_step l e))) = StartedAt (global l)"
  using assms
  by (cases e; simp add: allow_limiter_def resetGlobal_in_window allow_locked_counts Reset_def)+

text \<open>
  C21: Whatever calls arrive in whatever order, and whatever order the runtime visits the table in, the
  limiter never remembers more than \<open>MaxSources\<close> sources, and neither the global window nor any
  source window counts more attempts than its limit.
\<close>

theorem limiter_run_bounded:
  assumes "i64 (opt_Window options)" and "list_all limiter_op_ok ops"
  defines "l0 \<equiv> NewLoginAttemptLimiter options"
  defines "l \<equiv> snd (run limiter_step (NewLoginAttemptLimiter options) ops)"
  shows "wf_map (sources l) \<and> int (length (sources l)) \<le> maxSources l0 \<and>
    Attempts (global l) \<le> globalLimit l0 \<and>
    (\<forall>source state. mget (sources l) source = Some state \<longrightarrow> Attempts state \<le> perSourceLimit l0)"
proof -
  have "limiter_inv l \<and> same_limits l0 l"
    unfolding l_def l0_def
    using limiter_inv_new [OF assms(1)] assms(2)
    by (intro limiter.run_inv) (auto simp: same_limits_def)
  then show ?thesis
    by (auto simp: limiter_inv_def same_limits_def dest!: map_of_SomeD)
qed

theorem limiter_run_bounded_witness:
  "let options = \<lparr>opt_Window = 0, opt_PerSourceLimit = 2, opt_GlobalLimit = 3, opt_MaxSources = 1\<rparr>;
       ops = [OpAllow (\<lambda>m. m) ''a'' 10, OpAllow rev ''b'' 20, OpReset ''b''];
       l = snd (run limiter_step (NewLoginAttemptLimiter options) ops)
   in Attempts (global l) \<le> 3 \<and> length (sources l) \<le> 1"
  using limiter_run_bounded
    [of "\<lparr>opt_Window = 0, opt_PerSourceLimit = 2, opt_GlobalLimit = 3, opt_MaxSources = 1\<rparr>"
        "[OpAllow (\<lambda>m. m) ''a'' 10, OpAllow rev ''b'' 20, OpReset ''b'']"]
  by (simp add: i64_def iteration_order_def NewLoginAttemptLimiter_def Let_def)

lemma limiter_run_admissions:
  "limiter_inv l \<Longrightarrow> \<not> is_zero (StartedAt (global l)) \<Longrightarrow>
   list_all (\<lambda>e. limiter_op_ok e \<and> (case e of OpAllow ord source now \<Rightarrow> in_window l now | _ \<Rightarrow> True)) ops \<Longrightarrow>
   Attempts (global (snd (run limiter_step l ops))) =
     Attempts (global l) + admissions ops (fst (run limiter_step l ops))"
proof (induction ops arbitrary: l)
  case (Cons e es)
  let ?l = "snd (limiter_step l e)"
  have e: "limiter_op_ok e" "case e of OpAllow ord source now \<Rightarrow> in_window l now | _ \<Rightarrow> True"
    using Cons.prems(3) by simp_all
  note step = limiter_step_counts [OF Cons.prems(1,2) e(2)]
  have inv: "limiter_inv ?l" using Cons.prems(1) e(1) by (rule limiter_step_inv)
  have win: "in_window ?l now = in_window l now" for now
    using step(2) limiter_step_limits [of l e] by (simp add: in_window_def same_limits_def)
  have "Attempts (global (snd (run limiter_step ?l es))) = Attempts (global ?l) +
    admissions es (fst (run limiter_step ?l es))"
    using Cons.prems inv step(2) by (intro Cons.IH) (simp_all add: win cong: limiter_op.case_cong)
  with step(1) show ?case by (simp add: Let_def split_beta)
qed simp

text \<open>
  C20: The global limit holds for whole runs, not only for the counter: however many sources take part
  and whatever is reset or evicted in between, the calls that are let through while one global window
  is open never outnumber what that window had left.
\<close>

theorem limiter_window_admissions:
  assumes "limiter_inv l" and "\<not> is_zero (StartedAt (global l))"
    and "list_all (\<lambda>e. limiter_op_ok e \<and> (case e of OpAllow ord source now \<Rightarrow> in_window l now | _ \<Rightarrow> True)) ops"
  shows "admissions ops (fst (run limiter_step l ops)) \<le> globalLimit l - Attempts (global l)"
proof -
  have "list_all limiter_op_ok ops" using assms(3) by (auto simp: list_all_iff)
  then have "limiter_inv (snd (run limiter_step l ops)) \<and> same_limits l (snd (run limiter_step l ops))"
    using assms(1) by (intro limiter.run_inv) (auto simp: same_limits_def)
  then have "Attempts (global (snd (run limiter_step l ops))) \<le> globalLimit l"
    by (simp add: limiter_inv_def same_limits_def)
  with limiter_run_admissions [OF assms] show ?thesis by simp
qed

theorem limiter_window_admissions_witness:
  "let l = \<lparr>window = Minute, perSourceLimit = 5, globalLimit = 2, maxSources = 10, sources = [],
            global = \<lparr>StartedAt = 0, LastSeen = 0, Attempts = 1\<rparr>\<rparr>;
       ops = [OpAllow rev ''a'' 5, OpAllow rev ''b'' 6]
   in admissions ops (fst (run limiter_step l ops)) \<le> 1"
  using limiter_window_admissions
    [of "\<lparr>window = Minute, perSourceLimit = 5, globalLimit = 2, maxSources = 10, sources = [],
           global = \<lparr>StartedAt = 0, LastSeen = 0, Attempts = 1\<rparr>\<rparr>"
        "[OpAllow rev ''a'' 5, OpAllow rev ''b'' 6]"]
  by (simp add: limiter_inv_def i64_def mkeys_def is_zero_def zero_time_def iteration_order_def
      in_window_def t_add_def)

text \<open>
  A refusal by the source's own limit is honest about the wait: the answer is positive, no longer
  than the window, and a call by the same source that long after, with no calls in between, is let
  through (as far as the global window allows at all).
\<close>

lemma limiter_retry_after_honest:
  assumes inv: "limiter_inv l" and ord: "iteration_order ord" "iteration_order ord'"
    and src: "source \<noteq> []" and st: "mget (sources l) source = Some st"
    and past: "StartedAt st \<le> now" "\<not> is_zero (StartedAt (global l))" "in_window l now"
    and room: "Attempts (global l) < globalLimit l"
    and refused: "allow_limiter ord l source now = ((False, wait), l')"
  shows "0 < wait \<and> wait \<le> window l \<and> fst (fst (allow_limiter ord' l' source (t_add now wait)))"
proof -
  let ?le = "removeExpiredSourcesLocked l now"
  have w: "0 < window l" "i64 (window l)" and wf: "wf_map (sources l)" using inv by (simp_all add: limiter_inv_def)
  have eq: "allow_limiter ord l source now = allow_locked ord ?le source now"
    using src by (simp add: allow_limiter_def resetGlobal_in_window [OF inv past(2,3)])
  have get: "mget (sources ?le) source = (if t_sub now (StartedAt st) \<ge> window l then None else Some st)"
    using wf st by (simp add: removeExpiredSourcesLocked_def mget_filter)
  have pos: "0 < perSourceLimit ?le" using inv by (simp add: limiter_inv_def removeExpiredSourcesLocked_def)
  have "globalLimit ?le = globalLimit l" by (simp add: removeExpiredSourcesLocked_def)
  with refused eq get room pos have live: "\<not> t_sub now (StartedAt st) \<ge> window l"
    and full: "Attempts st \<ge> perSourceLimit ?le"
    and wait: "wait = retryAfter now (StartedAt st) (window l)"
    and l': "l' = ?le\<lparr>sources := mput (sources ?le) source (st\<lparr>LastSeen := now\<rparr>)\<rparr>"
    by (auto simp: allow_locked_def Let_def split: if_splits)
  have young: "now - StartedAt st < window l"
    using live w by (simp add: t_sub_def sat64_ge_iff i64_def)
  then have waitval: "wait = StartedAt st + window l - now"
    using past(1) w by (simp add: wait retryAfter_def t_sub_def t_add_def sat64_def i64_def)
  let ?now = "t_add now wait"
  have gone: "mget (sources (removeExpiredSourcesLocked (resetGlobalWindowLocked l' ?now) ?now)) source = None"
  proof -
    have wf': "wf_map (sources l')" unfolding l' using wf
      by (auto simp: removeExpiredSourcesLocked_def intro!: wf_map_mput wf_map_filter)
    have "window l' = window l" by (simp add: l')
    moreover have "t_sub ?now (StartedAt st) \<ge> window l"
      using w by (simp add: t_sub_def sat64_ge_iff i64_def waitval t_add_def)
    moreover have "mget (sources l') source = Some (st\<lparr>LastSeen := now\<rparr>)" by (simp add: l')
    ultimately show ?thesis
      using wf' by (simp add: removeExpiredSourcesLocked_def resetGlobalWindowLocked_def mget_filter)
  qed
  have "limiter_inv l'" using allow_limiter_inv [OF inv ord(1), of source now] refused by simp
  then have lim: "0 < perSourceLimit l'" "0 < globalLimit l'" by (simp_all add: limiter_inv_limits)
  have "Attempts (global (resetGlobalWindowLocked l' ?now)) < globalLimit l'"
    using room lim by (simp add: resetGlobalWindowLocked_def l' removeExpiredSourcesLocked_def)
  then have "fst (fst (allow_limiter ord' l' source ?now))"
    unfolding allow_limiter_def using gone src lim by (simp add: allow_locked_fresh)
  with young past(1) show ?thesis by (simp add: waitval)
qed

end
