(* ===== verification/TokenTypes.thy ===== *)
theory TokenTypes
  imports GoBase
begin

text \<open>
  \<open>internal/service/tokenprocessor\<close>, part 1: the data of the token processor (\<open>types.go\<close>,
  \<open>handler.go\<close>), its checked addition (\<open>arithmetic.go\<close>) and the clamping of negative counts at the
  entrance (\<open>processor.go\<close>).  The string-typed enumerations of the source are datatypes; where the
  code distinguishes the declared constants from any other string there is one more constructor.
\<close>

section \<open>Data\<close>

datatype HandlerID = HandlerClaude | HandlerGemini | HandlerResponsesInclusive
  | HandlerStrictPassThrough | HandlerOpenAICompatibility | HandlerUnregistered string

datatype EvidenceSource = EvidenceExecutor | EvidenceIdentity | EvidenceDefault

datatype EvidenceStrength = EvidenceParserContract | EvidenceIdentityHint | EvidenceUnknown

datatype TokenOutcome = TokenOutcomeValid | TokenOutcomeNormalized | TokenOutcomeCompatibility
  | TokenOutcomeCorrected | TokenOutcomeAmbiguous | TokenOutcomeOverflow

record TokenValues =
  InputTokens :: int
  OutputTokens :: int
  ReasoningTokens :: int
  CachedTokens :: int
  CacheReadTokens :: int
  CacheReadPresent :: bool
  CacheCreationTokens :: int
  TotalTokens :: int

datatype ActionCode = ActionClampNegativeToken | ActionBackfillCacheReadAlias
  | ActionNormalizeClaudeInput | ActionNormalizeClaudeCachedAlias | ActionNormalizeGeminiOutput
  | ActionBackfillZeroTotal | ActionCorrectNonzeroTotal | ActionApplyIssue272ReasoningFold

text \<open>The token fields by the name the code logs them under.\<close>

datatype token_field = F_input | F_output | F_reasoning | F_cached | F_cache_read
  | F_cache_creation | F_total

record Action =
  act_Code :: ActionCode
  act_Field :: token_field
  act_Before :: int
  act_After :: int
  act_Evidence :: EvidenceSource
  act_Rule :: string
  act_outcome :: TokenOutcome

datatype ViolationCode = ViolationTokenArithmeticOverflow | ViolationAmbiguousTotalMismatch
  | ViolationCacheReadAliasConflict | ViolationInputBelowCache | ViolationOutputBelowReasoning

record Violation =
  vio_Code :: ViolationCode
  vio_Fields :: "token_field list"
  vio_Reason :: string

record ProcessResult =
  res_Tokens :: TokenValues
  res_Actions :: "Action list"
  res_Violations :: "Violation list"
  res_Outcome :: TokenOutcome

record handlerResolution =
  handlerID :: HandlerID
  evidenceSource :: EvidenceSource
  evidenceStrength :: EvidenceStrength
  executorType :: string
  identityType :: string
  needsIdentity :: bool
  unknownExecutor :: bool

text \<open>What a handler may prove about the final total; \<open>totalAuthorityOther\<close> is any other string.\<close>

datatype totalAuthority = totalAuthorityCanonical | totalAuthorityZeroOnly | totalAuthorityPreserve
  | totalAuthorityOther string

type_synonym tokenFieldSet = "token_field list"

record normalizationContext =
  nonNegative :: TokenValues
  ctx_clamped :: tokenFieldSet
  resolution :: handlerResolution

record handlerResult =
  hr_tokens :: TokenValues
  hr_authority :: totalAuthority
  hr_actions :: "Action list"
  hr_violations :: "Violation list"

definition has :: "tokenFieldSet \<Rightarrow> token_field \<Rightarrow> bool" where
  "has clamped field \<longleftrightarrow> field \<in> set clamped"

definition hasAny :: "tokenFieldSet \<Rightarrow> token_field list \<Rightarrow> bool" where
  "hasAny clamped names \<longleftrightarrow> list_ex (has clamped) names"

lemma hasAny_Nil [simp]: "\<not> hasAny [] names"
  by (simp add: hasAny_def has_def list_ex_iff)

lemma not_hasAny: "\<not> hasAny clamped names \<longleftrightarrow> (\<forall>f \<in> set names. f \<notin> set clamped)"
  by (auto simp: hasAny_def has_def list_ex_iff)

section \<open>Checked addition\<close>

fun safe_add_loop :: "int \<Rightarrow> int list \<Rightarrow> int option" where
  "safe_add_loop acc [] = Some acc"
| "safe_add_loop acc (value # values) =
     (if value > 0 \<and> acc > MaxInt64 - value then None
      else if value < 0 \<and> acc < MinInt64 - value then None
      else safe_add_loop (wrap64 (acc + value)) values)"

text \<open>\<open>None\<close> is the result \<open>(0, false)\<close> of the source.\<close>

definition safeAddTokenCounts :: "int list \<Rightarrow> int option" where
  "safeAddTokenCounts values = safe_add_loop 0 values"

lemma safe_add_loop_Some:
  "i64 acc \<Longrightarrow> list_all i64 vs \<Longrightarrow> safe_add_loop acc vs = Some r \<Longrightarrow> r = acc + sum_list vs \<and> i64 r"
proof (induction acc vs rule: safe_add_loop.induct)
  case (2 acc v vs)
  from "2.prems" have ok: "\<not> (v > 0 \<and> acc > MaxInt64 - v)" "\<not> (v < 0 \<and> acc < MinInt64 - v)"
    by (auto split: if_splits)
  with "2.prems" have "i64 (acc + v)" by (auto simp: i64_def)
  with "2.IH" [OF ok] "2.prems" ok show ?case by (auto simp: wrap64_id)
qed simp

lemma safe_add_loop_nonneg:
  "0 \<le> acc \<Longrightarrow> i64 acc \<Longrightarrow> list_all (\<lambda>v. 0 \<le> v \<and> i64 v) vs \<Longrightarrow>
   safe_add_loop acc vs = (if acc + sum_list vs \<le> MaxInt64 then Some (acc + sum_list vs) else None)"
proof (induction acc vs rule: safe_add_loop.induct)
  case (1 acc)
  then show ?case by (simp add: i64_def)
next
  case (2 acc v vs)
  have pos: "0 \<le> sum_list vs" using "2.prems" by (intro sum_list_nonneg) (auto simp: list_all_iff)
  show ?case
  proof (cases "acc + v \<le> MaxInt64")
    case True
    with "2.prems" have i: "i64 (acc + v)" by (simp add: i64_def)
    have "safe_add_loop (wrap64 (acc + v)) vs =
        (if wrap64 (acc + v) + sum_list vs \<le> MaxInt64 then Some (wrap64 (acc + v) + sum_list vs) else None)"
      using True "2.prems" i by (intro "2.IH") (auto simp: wrap64_id)
    with True "2.prems" i show ?thesis by (auto simp: wrap64_id add.assoc)
  next
    case False
    with "2.prems" pos show ?thesis by (auto simp: i64_def)
  qed
qed

lemmas safeAdd_Some = safe_add_loop_Some [of 0, folded safeAddTokenCounts_def, unfolded add_0_left]

lemma safeAdd_nonneg:
  "list_all (\<lambda>v. 0 \<le> v \<and> i64 v) vs \<Longrightarrow>
   safeAddTokenCounts vs = (if sum_list vs \<le> MaxInt64 then Some (sum_list vs) else None)"
  using safe_add_loop_nonneg [of 0 vs] by (simp add: safeAddTokenCounts_def i64_def)

section \<open>Clamping negative counts\<close>

fun get_field :: "TokenValues \<Rightarrow> token_field \<Rightarrow> int" where
  "get_field v F_input = InputTokens v"
| "get_field v F_output = OutputTokens v"
| "get_field v F_reasoning = ReasoningTokens v"
| "get_field v F_cached = CachedTokens v"
| "get_field v F_cache_read = CacheReadTokens v"
| "get_field v F_cache_creation = CacheCreationTokens v"
| "get_field v F_total = TotalTokens v"

fun set_field :: "TokenValues \<Rightarrow> token_field \<Rightarrow> int \<Rightarrow> TokenValues" where
  "set_field v F_input x = v\<lparr>InputTokens := x\<rparr>"
| "set_field v F_output x = v\<lparr>OutputTokens := x\<rparr>"
| "set_field v F_reasoning x = v\<lparr>ReasoningTokens := x\<rparr>"
| "set_field v F_cached x = v\<lparr>CachedTokens := x\<rparr>"
| "set_field v F_cache_read x = v\<lparr>CacheReadTokens := x\<rparr>"
| "set_field v F_cache_creation x = v\<lparr>CacheCreationTokens := x\<rparr>"
| "set_field v F_total x = v\<lparr>TotalTokens := x\<rparr>"

text \<open>The closure \<open>clamp\<close> of \<open>clampTokenValues\<close>, which updates three variables.\<close>

type_synonym clamp_state = "TokenValues \<times> Action list \<times> tokenFieldSet"

definition clamp :: "token_field \<Rightarrow> clamp_state \<Rightarrow> clamp_state" where
  "clamp field s =
     (let (values, actions, clamped) = s; before = get_field values field
      in if before \<ge> 0 then s
         else (set_field values field 0,
               actions @ [\<lparr>act_Code = ActionClampNegativeToken, act_Field = field, act_Before = before,
                          act_After = 0, act_Evidence = EvidenceDefault,
                          act_Rule = ''non_negative_ingress'', act_outcome = TokenOutcomeCorrected\<rparr>],
               clamped @ [field]))"

definition token_fields :: "token_field list" where
  "token_fields = [F_input, F_output, F_reasoning, F_cached, F_cache_read, F_cache_creation, F_total]"

definition clampTokenValues :: "TokenValues \<Rightarrow> clamp_state" where
  "clampTokenValues values = fold clamp token_fields (values, [], [])"

lemma get_set_field: "get_field (set_field v f x) g = (if g = f then x else get_field v g)"
  by (cases f; cases g) simp_all

lemma set_field_present [simp]: "CacheReadPresent (set_field v f x) = CacheReadPresent v"
  by (cases f) simp_all

lemma token_fields_all: "f \<in> set token_fields"
  by (cases f) (simp_all add: token_fields_def)

lemma token_values_eqI:
  assumes "\<And>f. get_field v f = get_field w f" and "CacheReadPresent v = CacheReadPresent w"
  shows "(v :: TokenValues) = w"
  using assms(2) assms(1) [of F_input] assms(1) [of F_output] assms(1) [of F_reasoning]
    assms(1) [of F_cached] assms(1) [of F_cache_read] assms(1) [of F_cache_creation] assms(1) [of F_total]
  by simp

text \<open>Token values that fit the type and are not negative.\<close>

definition token_ok :: "TokenValues \<Rightarrow> bool" where
  "token_ok v \<longleftrightarrow> (\<forall>f. 0 \<le> get_field v f \<and> i64 (get_field v f))"

definition token_i64 :: "TokenValues \<Rightarrow> bool" where
  "token_i64 v \<longleftrightarrow> (\<forall>f. i64 (get_field v f))"

text \<open>Replaying a list of actions: each writes its new value to its field.\<close>

definition replay :: "Action list \<Rightarrow> TokenValues \<Rightarrow> TokenValues" where
  "replay actions v = fold (\<lambda>a v. set_field v (act_Field a) (act_After a)) actions v"

text \<open>Each action's recorded old value is the one the field had when it was applied.\<close>

fun honest :: "Action list \<Rightarrow> TokenValues \<Rightarrow> bool" where
  "honest [] v = True"
| "honest (a # as) v =
     (get_field v (act_Field a) = act_Before a \<and> act_Before a \<noteq> act_After a \<and>
      honest as (set_field v (act_Field a) (act_After a)))"

lemma replay_Nil [simp]: "replay [] v = v"
  by (simp add: replay_def)

lemma replay_Cons [simp]: "replay (a # as) v = replay as (set_field v (act_Field a) (act_After a))"
  by (simp add: replay_def)

lemma replay_append [simp]: "replay (as @ bs) v = replay bs (replay as v)"
  by (simp add: replay_def)

lemma honest_append [simp]: "honest (as @ bs) v \<longleftrightarrow> honest as v \<and> honest bs (replay as v)"
  by (induction as arbitrary: v) auto

definition clamped_by :: "Action list \<Rightarrow> tokenFieldSet \<Rightarrow> token_field list \<Rightarrow> TokenValues \<Rightarrow> bool" where
  "clamped_by as cs fs v \<longleftrightarrow> honest as v \<and> set cs = {f \<in> set fs. get_field v f < 0} \<and>
     (\<forall>f. get_field (replay as v) f = (if f \<in> set cs then 0 else get_field v f)) \<and>
     CacheReadPresent (replay as v) = CacheReadPresent v \<and>
     (\<forall>a \<in> set as. act_outcome a = TokenOutcomeCorrected)"

lemma fold_clamp:
  assumes "distinct fs"
  shows "\<exists>as cs. fold clamp fs (v, as0, cs0) = (replay as v, as0 @ as, cs0 @ cs) \<and> clamped_by as cs fs v"
  using assms
proof (induction fs arbitrary: v as0 cs0)
  case Nil
  show ?case by (intro exI [of _ "[]"]) (simp add: clamped_by_def)
next
  case (Cons f fs)
  then have f: "f \<notin> set fs" and d: "distinct fs" by simp_all
  show ?case
  proof (cases "get_field v f \<ge> 0")
    case True
    then have "clamp f (v, as0, cs0) = (v, as0, cs0)" by (simp add: clamp_def)
    moreover have "clamped_by as cs (f # fs) v = clamped_by as cs fs v" for as cs
      using True by (auto simp: clamped_by_def)
    ultimately show ?thesis using Cons.IH [OF d] by (simp only: fold_simps)
  next
    case False
    let ?a = "\<lparr>act_Code = ActionClampNegativeToken, act_Field = f, act_Before = get_field v f,
       act_After = 0, act_Evidence = EvidenceDefault, act_Rule = ''non_negative_ingress'',
       act_outcome = TokenOutcomeCorrected\<rparr>"
    let ?v = "set_field v f 0"
    from False have step: "clamp f (v, as0, cs0) = (?v, as0 @ [?a], cs0 @ [f])"
      by (simp add: clamp_def)
    from Cons.IH [OF d, of ?v "as0 @ [?a]" "cs0 @ [f]"] obtain as cs where
      IH: "fold clamp fs (?v, as0 @ [?a], cs0 @ [f]) = (replay as ?v, (as0 @ [?a]) @ as, (cs0 @ [f]) @ cs)"
      and r: "clamped_by as cs fs ?v" by blast
    have "clamped_by (?a # as) (f # cs) (f # fs) v"
      using r False f by (auto simp: clamped_by_def get_set_field split: if_splits)
    moreover have "fold clamp (f # fs) (v, as0, cs0) = (replay (?a # as) v, as0 @ ?a # as, cs0 @ f # cs)"
      using IH step by simp
    ultimately show ?thesis by blast
  qed
qed

lemma distinct_token_fields: "distinct token_fields"
  by (simp add: token_fields_def)

text \<open>What clamping does: exactly the negative fields become 0, and the actions say so.\<close>

lemma clampTokenValues_spec:
  obtains as cs where "clampTokenValues v = (replay as v, as, cs)" "honest as v"
    "set cs = {f. get_field v f < 0}"
    "\<And>f. get_field (replay as v) f = max 0 (get_field v f)"
    "CacheReadPresent (replay as v) = CacheReadPresent v"
    "\<And>a. a \<in> set as \<Longrightarrow> act_outcome a = TokenOutcomeCorrected"
proof -
  obtain as cs where eq: "fold clamp token_fields (v, [], []) = (replay as v, [] @ as, [] @ cs)"
    and c: "clamped_by as cs token_fields v"
    using fold_clamp [OF distinct_token_fields, of v "[]" "[]"] by blast
  show ?thesis
  proof (rule that)
    show "clampTokenValues v = (replay as v, as, cs)" using eq by (simp add: clampTokenValues_def)
    show cs: "set cs = {f. get_field v f < 0}" using c token_fields_all by (simp add: clamped_by_def)
    show "get_field (replay as v) f = max 0 (get_field v f)" for f
      using c cs by (simp add: clamped_by_def max_def)
  qed (use c in \<open>simp_all add: clamped_by_def\<close>)
qed

lemma clampTokenValues_facts:
  assumes "clampTokenValues v = (nn, as, cs)"
  shows "nn = replay as v" "honest as v" "set cs = {f. get_field v f < 0}"
    "get_field nn f = max 0 (get_field v f)" "CacheReadPresent nn = CacheReadPresent v"
  using assms by (auto intro: clampTokenValues_spec [of v])

end
