(* ===== verification/TokenHandlers.thy ===== *)
theory TokenHandlers
  imports TokenTypes
begin

text \<open>
  \<open>internal/service/tokenprocessor\<close>, part 2: the five protocol handlers (\<open>claude_executor.go\<close>,
  \<open>gemini_executor.go\<close>, \<open>codex_executor.go\<close>, \<open>kimi_executor.go\<close>, \<open>openai_compat_executor.go\<close>)
  and the contract of the interface \<open>tokenHandler\<close>, a locale that each of them interprets.
  The parameter \<open>uni\<close> is the Unicode part of \<open>strings.ToLower\<close>.
\<close>

section \<open>Shared by the non-Claude handlers\<close>

definition normalizeRegistryAlias :: "(string \<Rightarrow> string) \<Rightarrow> string \<Rightarrow> string" where
  "normalizeRegistryAlias uni value = go_to_lower uni (go_trim_space value)"

abbreviation mismatch :: "token_field list \<Rightarrow> string \<Rightarrow> Violation" where
  "mismatch fs reason \<equiv>
     \<lparr>vio_Code = ViolationAmbiguousTotalMismatch, vio_Fields = fs, vio_Reason = reason\<rparr>"

abbreviation arithmetic_overflow :: "token_field list \<Rightarrow> string \<Rightarrow> Violation" where
  "arithmetic_overflow fs reason \<equiv>
     \<lparr>vio_Code = ViolationTokenArithmeticOverflow, vio_Fields = fs, vio_Reason = reason\<rparr>"

definition normalizeNonClaudeCacheRead ::
  "normalizationContext \<Rightarrow> TokenValues \<times> Action list \<times> Violation list" where
  "normalizeNonClaudeCacheRead ctx =
     (let tokens = nonNegative ctx in
      if has (ctx_clamped ctx) F_cache_read then
        if CachedTokens tokens \<le> 0 then (tokens, [], [])
        else (tokens, [], [mismatch [F_cached, F_cache_read] ''cache read alias depends on a clamped read field''])
      else if CacheReadPresent tokens \<and> evidenceStrength (resolution ctx) = EvidenceParserContract then
        (tokens, [], [])
      else if CacheReadTokens tokens \<noteq> 0 \<or> CachedTokens tokens \<le> 0 then (tokens, [], [])
      else
        (tokens\<lparr>CacheReadTokens := CachedTokens tokens\<rparr>,
         [\<lparr>act_Code = ActionBackfillCacheReadAlias, act_Field = F_cache_read,
           act_Before = CacheReadTokens tokens, act_After = CachedTokens tokens,
           act_Evidence = evidenceSource (resolution ctx), act_Rule = ''non_claude_cached_to_read_alias'',
           act_outcome = TokenOutcomeCompatibility\<rparr>], []))"

section \<open>Claude\<close>

definition claudeIdentityProvesLegacyMissingCache :: "normalizationContext \<Rightarrow> int \<Rightarrow> bool" where
  "claudeIdentityProvesLegacyMissingCache ctx canonicalInput =
     (let tokens = nonNegative ctx in
      if hasAny (ctx_clamped ctx) [F_input, F_output, F_cache_read, F_cache_creation, F_total] then False
      else case safeAddTokenCounts [CacheReadTokens tokens, CacheCreationTokens tokens] of
        None \<Rightarrow> False
      | Some cacheTotal \<Rightarrow>
          if cacheTotal \<le> 0 then False
          else case safeAddTokenCounts [InputTokens tokens, OutputTokens tokens] of
            None \<Rightarrow> False
          | Some rawTotal \<Rightarrow>
              if rawTotal \<noteq> TotalTokens tokens then False
              else case safeAddTokenCounts [canonicalInput, OutputTokens tokens] of
                None \<Rightarrow> False
              | Some canonicalTotal \<Rightarrow> canonicalTotal \<noteq> TotalTokens tokens)"

definition claude_fold_input :: "normalizationContext \<Rightarrow> handlerResult" where
  "claude_fold_input ctx =
     (let tokens = nonNegative ctx;
          sum = safeAddTokenCounts [InputTokens tokens, CacheReadTokens tokens, CacheCreationTokens tokens]
      in if hasAny (ctx_clamped ctx) [F_input, F_cache_read, F_cache_creation] then
           \<lparr>hr_tokens = tokens, hr_authority = totalAuthorityZeroOnly, hr_actions = [],
            hr_violations = [mismatch [F_input, F_cache_read, F_cache_creation]
                               ''Claude input fold depends on clamped fields'']\<rparr>
         else case sum of
           None \<Rightarrow>
             \<lparr>hr_tokens = tokens, hr_authority = totalAuthorityPreserve, hr_actions = [],
              hr_violations = [arithmetic_overflow [F_input, F_cache_read, F_cache_creation]
                                 ''Claude canonical input exceeds int64'']\<rparr>
         | Some canonicalInput \<Rightarrow>
             \<lparr>hr_tokens = tokens\<lparr>InputTokens := canonicalInput\<rparr>,
              hr_authority =
                (if evidenceStrength (resolution ctx) = EvidenceParserContract then totalAuthorityCanonical
                 else if claudeIdentityProvesLegacyMissingCache ctx canonicalInput then totalAuthorityCanonical
                 else totalAuthorityZeroOnly),
              hr_actions =
                (if canonicalInput \<noteq> InputTokens tokens
                 then [\<lparr>act_Code = ActionNormalizeClaudeInput, act_Field = F_input,
                        act_Before = InputTokens tokens, act_After = canonicalInput,
                        act_Evidence = evidenceSource (resolution ctx),
                        act_Rule = ''claude_input_excludes_cache'', act_outcome = TokenOutcomeNormalized\<rparr>]
                 else []),
              hr_violations = []\<rparr>)"

definition claude_Normalize :: "normalizationContext \<Rightarrow> handlerResult" where
  "claude_Normalize ctx =
     (let r = claude_fold_input ctx; tokens = hr_tokens r;
          violations = hr_violations r @
            (if evidenceStrength (resolution ctx) = EvidenceParserContract \<and> CachedTokens tokens > 0 \<and>
                CacheReadTokens tokens > 0 \<and> CachedTokens tokens \<noteq> CacheReadTokens tokens
             then [\<lparr>vio_Code = ViolationCacheReadAliasConflict, vio_Fields = [F_cached, F_cache_read],
                    vio_Reason = ''Claude cached/read aliases disagree under parser contract''\<rparr>]
             else []);
          actions = hr_actions r @
            (if CachedTokens tokens \<noteq> CacheReadTokens tokens
             then [\<lparr>act_Code = ActionNormalizeClaudeCachedAlias, act_Field = F_cached,
                    act_Before = CachedTokens tokens, act_After = CacheReadTokens tokens,
                    act_Evidence = evidenceSource (resolution ctx),
                    act_Rule = ''claude_cached_equals_explicit_read'', act_outcome = TokenOutcomeNormalized\<rparr>]
             else [])
      in \<lparr>hr_tokens = tokens\<lparr>CachedTokens := CacheReadTokens tokens\<rparr>, hr_authority = hr_authority r,
          hr_actions = actions, hr_violations = violations\<rparr>)"

section \<open>Gemini\<close>

definition shouldFoldGeminiIdentityReasoning :: "normalizationContext \<Rightarrow> bool \<times> Violation list" where
  "shouldFoldGeminiIdentityReasoning ctx =
     (let tokens = nonNegative ctx in
      if hasAny (ctx_clamped ctx) [F_input, F_output, F_reasoning, F_total] then
        (False, [mismatch [F_input, F_output, F_reasoning, F_total] ''Gemini identity decision depends on clamped fields''])
      else if ReasoningTokens tokens \<le> 0 then (False, [])
      else if TotalTokens tokens = 0 then (True, [])
      else case safeAddTokenCounts [InputTokens tokens, OutputTokens tokens] of
        None \<Rightarrow> (False, [arithmetic_overflow [F_input, F_output] ''Gemini identity inclusive total exceeds int64''])
      | Some inclusiveTotal \<Rightarrow>
          if inclusiveTotal = TotalTokens tokens then (False, [])
          else case safeAddTokenCounts [InputTokens tokens, OutputTokens tokens, ReasoningTokens tokens] of
            None \<Rightarrow> (False, [arithmetic_overflow [F_input, F_output, F_reasoning]
                               ''Gemini identity separated total exceeds int64''])
          | Some separatedTotal \<Rightarrow> (separatedTotal = TotalTokens tokens, []))"

definition gemini_decide ::
  "normalizationContext \<Rightarrow> TokenValues \<Rightarrow> Violation list \<Rightarrow> bool \<times> totalAuthority \<times> Violation list" where
  "gemini_decide ctx tokens violations =
     (if hasAny (ctx_clamped ctx) [F_output, F_reasoning] then
        (False, totalAuthorityZeroOnly,
         violations @ [mismatch [F_output, F_reasoning] ''Gemini output fold depends on clamped fields''])
      else if evidenceStrength (resolution ctx) = EvidenceParserContract then
        (ReasoningTokens tokens > 0,
         (if violations = [] \<and>
             \<not> hasAny (ctx_clamped ctx) [F_input, F_output, F_reasoning, F_cache_read, F_cache_creation]
          then totalAuthorityCanonical else totalAuthorityZeroOnly),
         violations)
      else
        let (shouldFold, foldViolations) = shouldFoldGeminiIdentityReasoning ctx
        in (shouldFold, totalAuthorityZeroOnly, violations @ foldViolations))"

definition gemini_Normalize :: "normalizationContext \<Rightarrow> handlerResult" where
  "gemini_Normalize ctx =
     (let (tokens, actions, cacheViolations) = normalizeNonClaudeCacheRead ctx;
          (shouldFold, authority, violations) = gemini_decide ctx tokens cacheViolations
      in if shouldFold then
           case safeAddTokenCounts [OutputTokens tokens, ReasoningTokens tokens] of
             None \<Rightarrow>
               \<lparr>hr_tokens = tokens, hr_authority = totalAuthorityPreserve, hr_actions = actions,
                hr_violations = violations @ [arithmetic_overflow [F_output, F_reasoning]
                                                ''Gemini canonical output exceeds int64'']\<rparr>
           | Some canonicalOutput \<Rightarrow>
               \<lparr>hr_tokens = tokens\<lparr>OutputTokens := canonicalOutput\<rparr>, hr_authority = authority,
                hr_actions = actions @
                  [\<lparr>act_Code = ActionNormalizeGeminiOutput, act_Field = F_output,
                    act_Before = OutputTokens tokens, act_After = canonicalOutput,
                    act_Evidence = evidenceSource (resolution ctx),
                    act_Rule = ''gemini_output_excludes_reasoning'', act_outcome = TokenOutcomeNormalized\<rparr>],
                hr_violations = violations\<rparr>
         else \<lparr>hr_tokens = tokens, hr_authority = authority, hr_actions = actions, hr_violations = violations\<rparr>)"

section \<open>Responses (Codex, xAI)\<close>

definition matchesLegacyCodexCachedOnlyShape :: "(string \<Rightarrow> string) \<Rightarrow> normalizationContext \<Rightarrow> bool" where
  "matchesLegacyCodexCachedOnlyShape uni ctx =
     (let tokens = nonNegative ctx in
      if evidenceStrength (resolution ctx) \<noteq> EvidenceParserContract \<or>
         normalizeRegistryAlias uni (executorType (resolution ctx)) \<noteq> ''codexexecutor'' then False
      else if hasAny (ctx_clamped ctx)
                [F_input, F_output, F_reasoning, F_cached, F_cache_read, F_cache_creation, F_total] then False
      else if InputTokens tokens \<noteq> 0 \<or> OutputTokens tokens \<noteq> 0 \<or> ReasoningTokens tokens \<noteq> 0 then False
      else if CachedTokens tokens \<le> 0 \<or> CacheReadTokens tokens \<noteq> 0 \<or> CacheCreationTokens tokens \<noteq> 0 then False
      else TotalTokens tokens = CachedTokens tokens)"

definition responses_Normalize :: "(string \<Rightarrow> string) \<Rightarrow> normalizationContext \<Rightarrow> handlerResult" where
  "responses_Normalize uni ctx =
     (let (tokens, actions, violations) = normalizeNonClaudeCacheRead ctx in
      if matchesLegacyCodexCachedOnlyShape uni ctx then
        \<lparr>hr_tokens = tokens, hr_authority = totalAuthorityPreserve, hr_actions = actions, hr_violations = violations\<rparr>
      else
        \<lparr>hr_tokens = tokens,
         hr_authority =
           (if violations = [] \<and> evidenceStrength (resolution ctx) = EvidenceParserContract \<and>
               \<not> hasAny (ctx_clamped ctx) [F_input, F_output, F_reasoning, F_cache_read, F_cache_creation]
            then totalAuthorityCanonical else totalAuthorityZeroOnly),
         hr_actions = actions, hr_violations = violations\<rparr>)"

section \<open>Strict pass-through (Kimi, unknown)\<close>

definition strict_Normalize :: "normalizationContext \<Rightarrow> handlerResult" where
  "strict_Normalize ctx =
     (let (tokens, actions, violations) = normalizeNonClaudeCacheRead ctx in
      \<lparr>hr_tokens = tokens, hr_authority = totalAuthorityZeroOnly, hr_actions = actions, hr_violations = violations\<rparr>)"

section \<open>OpenAI compatibility\<close>

text \<open>A compatibility rule is a name, a test on the context and an edit of the tokens.\<close>

record compatibilityRule =
  rule_Name :: string
  rule_Match :: "normalizationContext \<Rightarrow> bool \<times> Violation list"
  rule_Apply :: "TokenValues \<Rightarrow> normalizationContext \<Rightarrow> TokenValues \<times> Action list \<times> Violation list"

definition issue272_Match :: "normalizationContext \<Rightarrow> bool \<times> Violation list" where
  "issue272_Match ctx =
     (let tokens = nonNegative ctx in
      if hasAny (ctx_clamped ctx) [F_input, F_output, F_reasoning, F_total] then
        (False, [mismatch [F_input, F_output, F_reasoning, F_total] ''#272 decision depends on clamped fields''])
      else if ReasoningTokens tokens \<le> 0 \<or> TotalTokens tokens \<le> 0 then (False, [])
      else case safeAddTokenCounts [InputTokens tokens, OutputTokens tokens] of
        None \<Rightarrow> (False, [arithmetic_overflow [F_input, F_output] ''#272 inclusive total exceeds int64''])
      | Some inclusiveTotal \<Rightarrow>
          if inclusiveTotal = TotalTokens tokens then (False, [])
          else case safeAddTokenCounts [InputTokens tokens, OutputTokens tokens, ReasoningTokens tokens] of
            None \<Rightarrow> (False, [arithmetic_overflow [F_input, F_output, F_reasoning]
                               ''#272 separated total exceeds int64''])
          | Some separatedTotal \<Rightarrow> (separatedTotal = TotalTokens tokens, []))"

definition issue272_Apply ::
  "TokenValues \<Rightarrow> normalizationContext \<Rightarrow> TokenValues \<times> Action list \<times> Violation list" where
  "issue272_Apply tokens ctx =
     (case safeAddTokenCounts [OutputTokens tokens, ReasoningTokens tokens] of
        None \<Rightarrow> (tokens, [], [arithmetic_overflow [F_output, F_reasoning] ''#272 canonical output exceeds int64''])
      | Some canonicalOutput \<Rightarrow>
          (tokens\<lparr>OutputTokens := canonicalOutput\<rparr>,
           [\<lparr>act_Code = ActionApplyIssue272ReasoningFold, act_Field = F_output,
             act_Before = OutputTokens tokens, act_After = canonicalOutput,
             act_Evidence = evidenceSource (resolution ctx), act_Rule = ''issue_272_separated_reasoning'',
             act_outcome = TokenOutcomeCompatibility\<rparr>], []))"

definition openAICompatibilityRules :: "compatibilityRule list" where
  "openAICompatibilityRules =
     [\<lparr>rule_Name = ''issue_272_separated_reasoning'', rule_Match = issue272_Match, rule_Apply = issue272_Apply\<rparr>]"

text \<open>The rule loop of \<open>Normalize\<close>: the first rule that matches is applied, the rest are not tried.\<close>

fun apply_rules ::
  "compatibilityRule list \<Rightarrow> normalizationContext \<Rightarrow> TokenValues \<times> Action list \<times> Violation list \<Rightarrow>
     TokenValues \<times> Action list \<times> Violation list" where
  "apply_rules [] ctx s = s"
| "apply_rules (rule # rules) ctx (tokens, actions, violations) =
     (let (matched, matchViolations) = rule_Match rule ctx in
      if \<not> matched then apply_rules rules ctx (tokens, actions, violations @ matchViolations)
      else let (updated, ruleActions, applyViolations) = rule_Apply rule tokens ctx
           in (updated, actions @ ruleActions, (violations @ matchViolations) @ applyViolations))"

definition openai_Normalize :: "normalizationContext \<Rightarrow> handlerResult" where
  "openai_Normalize ctx =
     (let (tokens, actions, violations) =
            apply_rules openAICompatibilityRules ctx (normalizeNonClaudeCacheRead ctx)
      in \<lparr>hr_tokens = tokens, hr_authority = totalAuthorityZeroOnly, hr_actions = actions, hr_violations = violations\<rparr>)"

section \<open>The registry of handlers\<close>

record tokenHandler =
  th_ID :: HandlerID
  th_Normalize :: "normalizationContext \<Rightarrow> handlerResult"

definition tokenHandlers :: "(string \<Rightarrow> string) \<Rightarrow> (HandlerID, tokenHandler) gomap" where
  "tokenHandlers uni =
     [(HandlerClaude, \<lparr>th_ID = HandlerClaude, th_Normalize = claude_Normalize\<rparr>),
      (HandlerGemini, \<lparr>th_ID = HandlerGemini, th_Normalize = gemini_Normalize\<rparr>),
      (HandlerResponsesInclusive, \<lparr>th_ID = HandlerResponsesInclusive, th_Normalize = responses_Normalize uni\<rparr>),
      (HandlerStrictPassThrough, \<lparr>th_ID = HandlerStrictPassThrough, th_Normalize = strict_Normalize\<rparr>),
      (HandlerOpenAICompatibility, \<lparr>th_ID = HandlerOpenAICompatibility, th_Normalize = openai_Normalize\<rparr>)]"

lemma tokenHandlers_simps [simp]:
  "mget (tokenHandlers uni) HandlerClaude = Some \<lparr>th_ID = HandlerClaude, th_Normalize = claude_Normalize\<rparr>"
  "mget (tokenHandlers uni) HandlerGemini = Some \<lparr>th_ID = HandlerGemini, th_Normalize = gemini_Normalize\<rparr>"
  "mget (tokenHandlers uni) HandlerResponsesInclusive =
     Some \<lparr>th_ID = HandlerResponsesInclusive, th_Normalize = responses_Normalize uni\<rparr>"
  "mget (tokenHandlers uni) HandlerStrictPassThrough =
     Some \<lparr>th_ID = HandlerStrictPassThrough, th_Normalize = strict_Normalize\<rparr>"
  "mget (tokenHandlers uni) HandlerOpenAICompatibility =
     Some \<lparr>th_ID = HandlerOpenAICompatibility, th_Normalize = openai_Normalize\<rparr>"
  "mget (tokenHandlers uni) (HandlerUnregistered s) = None"
  by (simp_all add: tokenHandlers_def)

section \<open>The contract of a handler\<close>

text \<open>
  \<open>tracked v t as\<close>: \<open>t\<close> comes from \<open>v\<close> by exactly the logged actions, every action records the true
  old value, the counts stay non-negative \<open>int64\<close> values, and the total was not touched.
\<close>

definition tracked :: "TokenValues \<Rightarrow> TokenValues \<Rightarrow> Action list \<Rightarrow> bool" where
  "tracked v t as \<longleftrightarrow> honest as v \<and> t = replay as v \<and> token_ok t \<and> TotalTokens t = TotalTokens v"

lemma token_okD: "token_ok v \<Longrightarrow> 0 \<le> get_field v f \<and> i64 (get_field v f)"
  by (simp add: token_ok_def)

lemma token_ok_fields:
  assumes "token_ok v"
  shows "0 \<le> InputTokens v" "0 \<le> OutputTokens v" "0 \<le> ReasoningTokens v" "0 \<le> CachedTokens v"
    "0 \<le> CacheReadTokens v" "0 \<le> CacheCreationTokens v" "0 \<le> TotalTokens v"
    "i64 (InputTokens v)" "i64 (OutputTokens v)" "i64 (ReasoningTokens v)" "i64 (CachedTokens v)"
    "i64 (CacheReadTokens v)" "i64 (CacheCreationTokens v)" "i64 (TotalTokens v)"
  using assms token_okD [of v F_input] token_okD [of v F_output] token_okD [of v F_reasoning]
    token_okD [of v F_cached] token_okD [of v F_cache_read] token_okD [of v F_cache_creation]
    token_okD [of v F_total]
  by simp_all

lemma token_ok_set_field: "token_ok v \<Longrightarrow> 0 \<le> x \<Longrightarrow> i64 x \<Longrightarrow> token_ok (set_field v f x)"
  by (simp add: token_ok_def get_set_field)

lemma tracked_refl: "token_ok v \<Longrightarrow> tracked v v []"
  by (simp add: tracked_def)

lemma tracked_snoc:
  assumes "tracked v t as" and "act_Field a = f" and "act_Before a = get_field t f" and "act_After a = x"
    and "x \<noteq> get_field t f" and "0 \<le> x" and "i64 x" and "f \<noteq> F_total" and "t' = set_field t f x"
  shows "tracked v t' (as @ [a])"
proof -
  have "TotalTokens (set_field t f x) = TotalTokens t" using assms(8) by (cases f) simp_all
  with assms show ?thesis by (auto simp: tracked_def token_ok_set_field)
qed

text \<open>A sum of three non-negative counts that was accepted is at least each part.\<close>

lemma safeAdd2:
  assumes "0 \<le> a" "0 \<le> b" "i64 a" "i64 b"
  shows "safeAddTokenCounts [a, b] = (if a + b \<le> MaxInt64 then Some (a + b) else None)"
  using assms by (subst safeAdd_nonneg) simp_all

lemma safeAdd3:
  assumes "0 \<le> a" "0 \<le> b" "0 \<le> c" "i64 a" "i64 b" "i64 c"
  shows "safeAddTokenCounts [a, b, c] = (if a + b + c \<le> MaxInt64 then Some (a + b + c) else None)"
  using assms by (subst safeAdd_nonneg) (simp_all add: add.assoc)

locale token_handler =
  fixes normalize :: "normalizationContext \<Rightarrow> handlerResult"
    and proves_total :: "normalizationContext \<Rightarrow> bool"
  assumes handler_tracked: "token_ok (nonNegative ctx) \<Longrightarrow>
      tracked (nonNegative ctx) (hr_tokens (normalize ctx)) (hr_actions (normalize ctx))"
    and handler_authority: "hr_authority (normalize ctx) = totalAuthorityCanonical \<Longrightarrow> proves_total ctx"
    and handler_known: "hr_authority (normalize ctx) \<noteq> totalAuthorityOther s"

definition parser_contract :: "normalizationContext \<Rightarrow> bool" where
  "parser_contract ctx \<longleftrightarrow> evidenceStrength (resolution ctx) = EvidenceParserContract"

section \<open>Every handler keeps it\<close>

lemma cacheRead_tracked:
  assumes "token_ok (nonNegative ctx)" and "normalizeNonClaudeCacheRead ctx = (t, as, vs)"
  shows "tracked (nonNegative ctx) t as"
proof (cases "as")
  case Nil
  with assms show ?thesis
    by (auto simp: normalizeNonClaudeCacheRead_def Let_def tracked_refl split: if_splits)
next
  case (Cons a as')
  with assms(2) have h: "CacheReadTokens (nonNegative ctx) = 0" "CachedTokens (nonNegative ctx) > 0"
    "t = set_field (nonNegative ctx) F_cache_read (CachedTokens (nonNegative ctx))" "as' = []"
    "act_Field a = F_cache_read" "act_Before a = 0" "act_After a = CachedTokens (nonNegative ctx)"
    by (auto simp: normalizeNonClaudeCacheRead_def Let_def split: if_splits)
  have "tracked (nonNegative ctx) t ([] @ [a])"
    by (rule tracked_snoc [OF tracked_refl [OF assms(1)], of a F_cache_read "CachedTokens (nonNegative ctx)"])
       (use h token_ok_fields [OF assms(1)] in simp_all)
  with Cons h show ?thesis by simp
qed

lemma cacheRead_fields:
  assumes "normalizeNonClaudeCacheRead ctx = (t, as, vs)"
  shows "InputTokens t = InputTokens (nonNegative ctx)" "OutputTokens t = OutputTokens (nonNegative ctx)"
    "ReasoningTokens t = ReasoningTokens (nonNegative ctx)"
    "CacheCreationTokens t = CacheCreationTokens (nonNegative ctx)"
    "TotalTokens t = TotalTokens (nonNegative ctx)"
  using assms by (auto simp: normalizeNonClaudeCacheRead_def Let_def split: if_splits)

lemma tracked_token_ok: "tracked v t as \<Longrightarrow> token_ok t"
  unfolding tracked_def by blast

lemma claude_fold_tracked:
  assumes ok: "token_ok (nonNegative ctx)"
  shows "tracked (nonNegative ctx) (hr_tokens (claude_fold_input ctx)) (hr_actions (claude_fold_input ctx))"
proof (cases "hasAny (ctx_clamped ctx) [F_input, F_cache_read, F_cache_creation]")
  case True
  then show ?thesis using ok by (simp add: claude_fold_input_def tracked_refl)
next
  case False
  let ?t = "nonNegative ctx"
  show ?thesis
  proof (cases "safeAddTokenCounts [InputTokens ?t, CacheReadTokens ?t, CacheCreationTokens ?t]")
    case None
    with False ok show ?thesis by (simp add: claude_fold_input_def tracked_refl)
  next
    case (Some c)
    then have c: "c = InputTokens ?t + CacheReadTokens ?t + CacheCreationTokens ?t" "i64 c"
      using safeAdd_Some [OF _ _ Some] token_ok_fields [OF ok] by (simp_all add: i64_def)
    have t: "hr_tokens (claude_fold_input ctx) = set_field ?t F_input c"
      using False Some by (simp add: claude_fold_input_def Let_def)
    show ?thesis
    proof (cases "c = InputTokens ?t")
      case True
      then have "hr_tokens (claude_fold_input ctx) = ?t" "hr_actions (claude_fold_input ctx) = []"
        using t False Some by (simp_all add: claude_fold_input_def Let_def)
      then show ?thesis using ok by (simp add: tracked_refl)
    next
      case ne: False
      then obtain a where a: "hr_actions (claude_fold_input ctx) = [a]" "act_Field a = F_input"
        "act_Before a = InputTokens ?t" "act_After a = c"
        using False Some by (simp add: claude_fold_input_def Let_def)
      have "tracked ?t (hr_tokens (claude_fold_input ctx)) ([] @ [a])"
        by (rule tracked_snoc [OF tracked_refl [OF ok], of a F_input c])
           (use a ne c t token_ok_fields [OF ok] in simp_all)
      then show ?thesis using a by simp
    qed
  qed
qed

interpretation claude: token_handler claude_Normalize
  "\<lambda>ctx. parser_contract ctx \<or>
     (\<exists>c. safeAddTokenCounts [InputTokens (nonNegative ctx), CacheReadTokens (nonNegative ctx),
             CacheCreationTokens (nonNegative ctx)] = Some c \<and> claudeIdentityProvesLegacyMissingCache ctx c)"
proof
  fix ctx s
  show "tracked (nonNegative ctx) (hr_tokens (claude_Normalize ctx)) (hr_actions (claude_Normalize ctx))"
    if "token_ok (nonNegative ctx)"
  proof -
    note fold = claude_fold_tracked [OF that]
    let ?t = "hr_tokens (claude_fold_input ctx)"
    show ?thesis
    proof (cases "CachedTokens ?t = CacheReadTokens ?t")
      case True
      then have "?t\<lparr>CachedTokens := CacheReadTokens ?t\<rparr> = ?t" by (intro TokenValues.equality) simp_all
      then have "hr_tokens (claude_Normalize ctx) = ?t"
        "hr_actions (claude_Normalize ctx) = hr_actions (claude_fold_input ctx)"
        using True by (simp_all add: claude_Normalize_def Let_def)
      with fold show ?thesis by simp
    next
      case False
      then obtain a where a: "hr_actions (claude_Normalize ctx) = hr_actions (claude_fold_input ctx) @ [a]"
        "act_Field a = F_cached" "act_Before a = CachedTokens ?t" "act_After a = CacheReadTokens ?t"
        by (simp add: claude_Normalize_def Let_def)
      have "tracked (nonNegative ctx) (hr_tokens (claude_Normalize ctx)) (hr_actions (claude_fold_input ctx) @ [a])"
        by (rule tracked_snoc [OF fold, of a F_cached "CacheReadTokens ?t"])
           (use a False token_ok_fields [OF tracked_token_ok [OF fold]] in
             \<open>simp_all add: claude_Normalize_def Let_def\<close>)
      with a show ?thesis by simp
    qed
  qed
  show "parser_contract ctx \<or>
     (\<exists>c. safeAddTokenCounts [InputTokens (nonNegative ctx), CacheReadTokens (nonNegative ctx),
             CacheCreationTokens (nonNegative ctx)] = Some c \<and> claudeIdentityProvesLegacyMissingCache ctx c)"
    if "hr_authority (claude_Normalize ctx) = totalAuthorityCanonical"
    using that by (auto simp: claude_Normalize_def claude_fold_input_def Let_def parser_contract_def
        split: if_splits option.splits)
  show "hr_authority (claude_Normalize ctx) \<noteq> totalAuthorityOther s"
    by (auto simp: claude_Normalize_def claude_fold_input_def Let_def split: option.splits)
qed

lemma shouldFold_reasoning:
  "shouldFoldGeminiIdentityReasoning ctx = (True, vs) \<Longrightarrow> 0 < ReasoningTokens (nonNegative ctx)"
  by (auto simp: shouldFoldGeminiIdentityReasoning_def Let_def split: if_splits)

lemma gemini_decide_fold:
  "gemini_decide ctx t vs = (True, auth, vs') \<Longrightarrow> ReasoningTokens t = ReasoningTokens (nonNegative ctx) \<Longrightarrow>
   0 < ReasoningTokens t"
  by (auto simp: gemini_decide_def dest: shouldFold_reasoning split: if_splits prod.splits)

lemma gemini_decide_authority:
  "gemini_decide ctx t vs = (b, auth, vs') \<Longrightarrow>
   auth = totalAuthorityZeroOnly \<or> auth = totalAuthorityCanonical \<and> parser_contract ctx"
  by (auto simp: gemini_decide_def parser_contract_def split: if_splits prod.splits)

text \<open>The fold of reasoning into output, shared by Gemini and the OpenAI rule.\<close>

lemma fold_output_tracked:
  assumes "tracked v t as" and "0 < ReasoningTokens t"
    and "safeAddTokenCounts [OutputTokens t, ReasoningTokens t] = Some c"
    and "act_Field a = F_output" "act_Before a = OutputTokens t" "act_After a = c"
  shows "tracked v (t\<lparr>OutputTokens := c\<rparr>) (as @ [a])"
proof -
  note ok = token_ok_fields [OF tracked_token_ok [OF assms(1)]]
  have "c = OutputTokens t + ReasoningTokens t" "i64 c"
    using safeAdd_Some [OF _ _ assms(3)] ok by (simp_all add: i64_def)
  then show ?thesis
    by (intro tracked_snoc [OF assms(1), of a F_output c]) (use assms ok in simp_all)
qed

interpretation gemini: token_handler gemini_Normalize parser_contract
proof
  fix ctx s
  obtain t as vs where cr: "normalizeNonClaudeCacheRead ctx = (t, as, vs)" by (metis prod_cases3)
  obtain b auth vs' where d: "gemini_decide ctx t vs = (b, auth, vs')" by (metis prod_cases3)
  show "tracked (nonNegative ctx) (hr_tokens (gemini_Normalize ctx)) (hr_actions (gemini_Normalize ctx))"
    if ok: "token_ok (nonNegative ctx)"
  proof -
    note tr = cacheRead_tracked [OF ok cr]
    show ?thesis
    proof (cases "b \<and> safeAddTokenCounts [OutputTokens t, ReasoningTokens t] \<noteq> None")
      case False
      then show ?thesis using tr by (auto simp: gemini_Normalize_def cr d split: option.split)
    next
      case True
      then obtain c where c: "safeAddTokenCounts [OutputTokens t, ReasoningTokens t] = Some c" by blast
      have "gemini_decide ctx t vs = (True, auth, vs')" using True d by simp
      then have "0 < ReasoningTokens t" using cacheRead_fields(3) [OF cr] by (rule gemini_decide_fold)
      then show ?thesis
        using True c by (simp add: gemini_Normalize_def cr d fold_output_tracked [OF tr])
    qed
  qed
  show "parser_contract ctx" if "hr_authority (gemini_Normalize ctx) = totalAuthorityCanonical"
    using that gemini_decide_authority [OF d]
    by (auto simp: gemini_Normalize_def cr d split: if_splits option.splits)
  show "hr_authority (gemini_Normalize ctx) \<noteq> totalAuthorityOther s"
    using gemini_decide_authority [OF d] by (auto simp: gemini_Normalize_def cr d split: option.split)
qed

interpretation responses: token_handler "responses_Normalize uni" parser_contract for uni
proof
  fix ctx s
  obtain t as vs where cr: "normalizeNonClaudeCacheRead ctx = (t, as, vs)" by (metis prod_cases3)
  show "tracked (nonNegative ctx) (hr_tokens (responses_Normalize uni ctx)) (hr_actions (responses_Normalize uni ctx))"
    if "token_ok (nonNegative ctx)"
    using cacheRead_tracked [OF that cr] by (simp add: responses_Normalize_def cr)
  show "parser_contract ctx" if "hr_authority (responses_Normalize uni ctx) = totalAuthorityCanonical"
    using that by (auto simp: responses_Normalize_def cr parser_contract_def split: if_splits)
  show "hr_authority (responses_Normalize uni ctx) \<noteq> totalAuthorityOther s"
    by (auto simp: responses_Normalize_def cr)
qed

interpretation strict: token_handler strict_Normalize "\<lambda>_. False"
proof
  fix ctx s
  obtain t as vs where cr: "normalizeNonClaudeCacheRead ctx = (t, as, vs)" by (metis prod_cases3)
  show "tracked (nonNegative ctx) (hr_tokens (strict_Normalize ctx)) (hr_actions (strict_Normalize ctx))"
    if "token_ok (nonNegative ctx)"
    using cacheRead_tracked [OF that cr] by (simp add: strict_Normalize_def cr)
  show False if "hr_authority (strict_Normalize ctx) = totalAuthorityCanonical"
    using that by (simp add: strict_Normalize_def cr)
  show "hr_authority (strict_Normalize ctx) \<noteq> totalAuthorityOther s"
    by (simp add: strict_Normalize_def cr)
qed

lemma issue272_Match_reasoning:
  "issue272_Match ctx = (True, vs) \<Longrightarrow> 0 < ReasoningTokens (nonNegative ctx)"
  by (auto simp: issue272_Match_def Let_def split: if_splits)

interpretation openai: token_handler openai_Normalize "\<lambda>_. False"
proof
  fix ctx s
  obtain t as vs where cr: "normalizeNonClaudeCacheRead ctx = (t, as, vs)" by (metis prod_cases3)
  obtain b mvs where m: "issue272_Match ctx = (b, mvs)" by fastforce
  show "tracked (nonNegative ctx) (hr_tokens (openai_Normalize ctx)) (hr_actions (openai_Normalize ctx))"
    if ok: "token_ok (nonNegative ctx)"
  proof -
    note tr = cacheRead_tracked [OF ok cr]
    show ?thesis
    proof (cases "b \<and> safeAddTokenCounts [OutputTokens t, ReasoningTokens t] \<noteq> None")
      case False
      then show ?thesis using tr
        by (auto simp: openai_Normalize_def openAICompatibilityRules_def issue272_Apply_def cr m split: option.split)
    next
      case True
      then obtain c where c: "safeAddTokenCounts [OutputTokens t, ReasoningTokens t] = Some c" by blast
      have "0 < ReasoningTokens t"
        using True m cacheRead_fields(3) [OF cr] by (auto dest: issue272_Match_reasoning)
      then show ?thesis
        using True c by (simp add: openai_Normalize_def openAICompatibilityRules_def issue272_Apply_def
            cr m fold_output_tracked [OF tr])
    qed
  qed
  show False if "hr_authority (openai_Normalize ctx) = totalAuthorityCanonical"
    using that by (simp add: openai_Normalize_def split: prod.splits)
  show "hr_authority (openai_Normalize ctx) \<noteq> totalAuthorityOther s"
    by (simp add: openai_Normalize_def split: prod.splits)
qed

end
