(* ===== verification/TokenProcess.thy ===== *)
theory TokenProcess
  imports TokenHandlers
begin

text \<open>
  \<open>internal/service/tokenprocessor\<close>, part 3: the final reconciliation of the total
  (\<open>final_total.go\<close>), the single entry point \<open>Process\<close> with the summary of its outcome
  (\<open>processor.go\<close>), and what they guarantee whichever handler is chosen.
\<close>

section \<open>Reconciling the total\<close>

abbreviation backfill_total :: "handlerResolution \<Rightarrow> int \<Rightarrow> int \<Rightarrow> string \<Rightarrow> Action" where
  "backfill_total res before after rule \<equiv>
     \<lparr>act_Code = ActionBackfillZeroTotal, act_Field = F_total, act_Before = before, act_After = after,
      act_Evidence = evidenceSource res, act_Rule = rule, act_outcome = TokenOutcomeCompatibility\<rparr>"

definition reconcileZeroOnlyTotal ::
  "TokenValues \<Rightarrow> tokenFieldSet \<Rightarrow> handlerResolution \<Rightarrow> TokenValues \<times> Action list \<times> Violation list" where
  "reconcileZeroOnlyTotal tokens clamped res =
     (if TotalTokens tokens \<noteq> 0 then
        if handlerID res = HandlerStrictPassThrough then (tokens, [], [])
        else case safeAddTokenCounts [InputTokens tokens, OutputTokens tokens] of
          None \<Rightarrow> (tokens, [], [arithmetic_overflow [F_input, F_output, F_total] ''zero-only comparison exceeds int64''])
        | Some expectedTotal \<Rightarrow>
            if expectedTotal \<noteq> TotalTokens tokens
            then (tokens, [], [mismatch [F_input, F_output, F_total]
                                 ''nonzero total differs from canonical fields without correction authority''])
            else (tokens, [], [])
      else if hasAny clamped [F_input, F_output, F_total] then
        (tokens, [], [mismatch [F_input, F_output, F_total] ''zero total fallback depends on clamped fields''])
      else case safeAddTokenCounts [InputTokens tokens, OutputTokens tokens] of
        None \<Rightarrow> (tokens, [], [arithmetic_overflow [F_input, F_output, F_total] ''zero-only input plus output exceeds int64''])
      | Some expectedTotal \<Rightarrow>
          if expectedTotal > 0 then
            (tokens\<lparr>TotalTokens := expectedTotal\<rparr>,
             [backfill_total res (TotalTokens tokens) expectedTotal ''existing_zero_total_input_output''], [])
          else if CacheReadTokens tokens > 0 then
            (tokens\<lparr>TotalTokens := CacheReadTokens tokens\<rparr>,
             [backfill_total res (TotalTokens tokens) (CacheReadTokens tokens) ''existing_zero_total_cache_read''], [])
          else (tokens, [], []))"

definition reconcileCanonicalConflictWithZeroFallback ::
  "TokenValues \<Rightarrow> tokenFieldSet \<Rightarrow> handlerResolution \<Rightarrow> Violation \<Rightarrow> TokenValues \<times> Action list \<times> Violation list" where
  "reconcileCanonicalConflictWithZeroFallback tokens clamped res conflict =
     (if TotalTokens tokens \<noteq> 0 then (tokens, [], [conflict])
      else let (fallbackTokens, fallbackActions, fallbackViolations) = reconcileZeroOnlyTotal tokens clamped res
           in (fallbackTokens, fallbackActions, [conflict] @ fallbackViolations))"

definition reconcileCanonicalTotal ::
  "TokenValues \<Rightarrow> tokenFieldSet \<Rightarrow> handlerResolution \<Rightarrow> TokenValues \<times> Action list \<times> Violation list" where
  "reconcileCanonicalTotal tokens clamped res =
     (if hasAny clamped [F_input, F_output, F_reasoning, F_cache_read, F_cache_creation, F_total] then
        (tokens, [], [mismatch [F_input, F_output, F_reasoning, F_cache_read, F_cache_creation, F_total]
                        ''canonical total depends on clamped token fields''])
      else case safeAddTokenCounts [CacheReadTokens tokens, CacheCreationTokens tokens] of
        None \<Rightarrow> reconcileCanonicalConflictWithZeroFallback tokens clamped res
                  (arithmetic_overflow [F_cache_read, F_cache_creation] ''cache token components exceed int64'')
      | Some cacheComponents \<Rightarrow>
          if InputTokens tokens < cacheComponents then
            reconcileCanonicalConflictWithZeroFallback tokens clamped res
              \<lparr>vio_Code = ViolationInputBelowCache, vio_Fields = [F_input, F_cache_read, F_cache_creation],
               vio_Reason = ''canonical input is smaller than cache read plus creation''\<rparr>
          else if OutputTokens tokens < ReasoningTokens tokens then
            reconcileCanonicalConflictWithZeroFallback tokens clamped res
              \<lparr>vio_Code = ViolationOutputBelowReasoning, vio_Fields = [F_output, F_reasoning],
               vio_Reason = ''canonical output is smaller than reasoning''\<rparr>
          else case safeAddTokenCounts [InputTokens tokens, OutputTokens tokens] of
            None \<Rightarrow> (tokens, [], [arithmetic_overflow [F_input, F_output, F_total]
                                    ''canonical input plus output exceeds int64''])
          | Some expectedTotal \<Rightarrow>
              if TotalTokens tokens = expectedTotal then (tokens, [], [])
              else if TotalTokens tokens = 0 then
                (tokens\<lparr>TotalTokens := expectedTotal\<rparr>,
                 [backfill_total res (TotalTokens tokens) expectedTotal ''canonical_zero_total''], [])
              else
                (tokens\<lparr>TotalTokens := expectedTotal\<rparr>,
                 [\<lparr>act_Code = ActionCorrectNonzeroTotal, act_Field = F_total, act_Before = TotalTokens tokens,
                   act_After = expectedTotal, act_Evidence = evidenceSource res,
                   act_Rule = ''canonical_input_plus_output'', act_outcome = TokenOutcomeCorrected\<rparr>], []))"

definition reconcileFinalTotal ::
  "TokenValues \<Rightarrow> totalAuthority \<Rightarrow> tokenFieldSet \<Rightarrow> handlerResolution \<Rightarrow>
     TokenValues \<times> Action list \<times> Violation list" where
  "reconcileFinalTotal tokens authority clamped res =
     (case authority of
        totalAuthorityCanonical \<Rightarrow> reconcileCanonicalTotal tokens clamped res
      | totalAuthorityZeroOnly \<Rightarrow> reconcileZeroOnlyTotal tokens clamped res
      | totalAuthorityPreserve \<Rightarrow> (tokens, [], [])
      | totalAuthorityOther s \<Rightarrow>
          (tokens, [], [mismatch [F_total] ''token handler returned unknown total authority'']))"

section \<open>The entry point\<close>

fun action_outcome :: "TokenOutcome \<Rightarrow> Action list \<Rightarrow> TokenOutcome" where
  "action_outcome cur [] = cur"
| "action_outcome cur (action # actions) =
     (if act_outcome action = TokenOutcomeCorrected then action_outcome TokenOutcomeCorrected actions
      else if act_outcome action = TokenOutcomeCompatibility \<and> cur \<noteq> TokenOutcomeCorrected
      then action_outcome TokenOutcomeCompatibility actions
      else if act_outcome action = TokenOutcomeNormalized \<and> cur = TokenOutcomeValid
      then action_outcome TokenOutcomeNormalized actions
      else action_outcome cur actions)"

definition summarizeTokenOutcome :: "Action list \<Rightarrow> Violation list \<Rightarrow> TokenOutcome" where
  "summarizeTokenOutcome actions violations =
     (if \<exists>v \<in> set violations. vio_Code v = ViolationTokenArithmeticOverflow then TokenOutcomeOverflow
      else if violations \<noteq> [] then TokenOutcomeAmbiguous
      else let actionOutcome = action_outcome TokenOutcomeValid actions in
           if actionOutcome \<noteq> TokenOutcomeValid then actionOutcome
           else if actions \<noteq> [] then TokenOutcomeNormalized
           else TokenOutcomeValid)"

definition strict_default :: handlerResolution where
  "strict_default =
     \<lparr>handlerID = HandlerStrictPassThrough, evidenceSource = EvidenceDefault,
      evidenceStrength = EvidenceUnknown, executorType = [], identityType = [],
      needsIdentity = False, unknownExecutor = False\<rparr>"

text \<open>\<open>Process\<close> after the handler has been picked.\<close>

definition process_with ::
  "(normalizationContext \<Rightarrow> handlerResult) \<Rightarrow> TokenValues \<Rightarrow> handlerResolution \<Rightarrow> ProcessResult" where
  "process_with handler values resolved =
     (let (nonNeg, clampActions, clamped) = clampTokenValues values;
          handled = handler \<lparr>nonNegative = nonNeg, ctx_clamped = clamped, resolution = resolved\<rparr>;
          (tokens, totalActions, totalViolations) =
            reconcileFinalTotal (hr_tokens handled) (hr_authority handled) clamped resolved;
          actions = (clampActions @ hr_actions handled) @ totalActions;
          violations = hr_violations handled @ totalViolations
      in \<lparr>res_Tokens = tokens, res_Actions = actions, res_Violations = violations,
          res_Outcome = summarizeTokenOutcome actions violations\<rparr>)"

text \<open>\<open>None\<close> is an interface value that is nil or not of the package's own type.\<close>

definition Process :: "(string \<Rightarrow> string) \<Rightarrow> TokenValues \<Rightarrow> handlerResolution option \<Rightarrow> ProcessResult" where
  "Process uni values res =
     (let resolved = (case res of Some r \<Rightarrow> r | None \<Rightarrow> strict_default)
      in case mget (tokenHandlers uni) (handlerID resolved) of
           Some handler \<Rightarrow> process_with (th_Normalize handler) values resolved
         | None \<Rightarrow> process_with strict_Normalize values
             (resolved\<lparr>handlerID := HandlerStrictPassThrough, evidenceSource := EvidenceDefault,
                       evidenceStrength := EvidenceUnknown\<rparr>))"

section \<open>What the reconciliation does\<close>

text \<open>It only ever writes the total, logs that it did, and keeps the counts in range.\<close>

definition total_step :: "TokenValues \<Rightarrow> TokenValues \<Rightarrow> Action list \<Rightarrow> bool" where
  "total_step v t as \<longleftrightarrow> token_ok t \<and> honest as v \<and> t = replay as v \<and> (\<forall>a \<in> set as. act_Field a = F_total)"

lemma total_step_refl: "token_ok v \<Longrightarrow> total_step v v []"
  by (simp add: total_step_def)

lemma total_step_single:
  "token_ok v \<Longrightarrow> act_Field a = F_total \<Longrightarrow> act_Before a = TotalTokens v \<Longrightarrow> act_After a = x \<Longrightarrow>
   x \<noteq> TotalTokens v \<Longrightarrow> 0 \<le> x \<Longrightarrow> i64 x \<Longrightarrow> total_step v (v\<lparr>TotalTokens := x\<rparr>) [a]"
  using token_ok_set_field [of v x F_total] by (auto simp: total_step_def)

lemma zero_only_step:
  assumes ok: "token_ok v" and r: "reconcileZeroOnlyTotal v clamped res = (t, as, vs)"
  shows "total_step v t as" and "TotalTokens v \<noteq> 0 \<Longrightarrow> t = v \<and> as = []"
proof -
  note f = token_ok_fields [OF ok]
  show "TotalTokens v \<noteq> 0 \<Longrightarrow> t = v \<and> as = []"
    using r by (auto simp: reconcileZeroOnlyTotal_def split: if_splits option.splits)
  show "total_step v t as"
    using ok r f safeAdd2 [of "InputTokens v" "OutputTokens v"]
    by (auto simp: reconcileZeroOnlyTotal_def i64_def intro!: total_step_refl total_step_single
        split: if_splits option.splits)
qed

lemma conflict_step:
  assumes ok: "token_ok v" and r: "reconcileCanonicalConflictWithZeroFallback v clamped res c = (t, as, vs)"
  shows "total_step v t as"
  using ok r zero_only_step(1) [OF ok]
  by (auto simp: reconcileCanonicalConflictWithZeroFallback_def intro!: total_step_refl
      split: if_splits prod.splits)

lemma conflict_not_clean: "reconcileCanonicalConflictWithZeroFallback v clamped res c \<noteq> (t, as, [])"
  by (simp add: reconcileCanonicalConflictWithZeroFallback_def split: prod.split)

lemma canonical_step:
  assumes ok: "token_ok v" and r: "reconcileCanonicalTotal v clamped res = (t, as, vs)"
  shows "total_step v t as"
    and "vs = [] \<Longrightarrow> TotalTokens t = InputTokens t + OutputTokens t \<and>
      CacheReadTokens t + CacheCreationTokens t \<le> InputTokens t \<and> ReasoningTokens t \<le> OutputTokens t"
proof -
  note f = token_ok_fields [OF ok]
  note add = safeAdd2 [of "InputTokens v" "OutputTokens v"]
    safeAdd2 [of "CacheReadTokens v" "CacheCreationTokens v"]
  show "total_step v t as"
    using ok r f add conflict_step [OF ok]
    by (auto simp: reconcileCanonicalTotal_def i64_def intro!: total_step_refl total_step_single
        split: if_splits)
  show "TotalTokens t = InputTokens t + OutputTokens t \<and>
      CacheReadTokens t + CacheCreationTokens t \<le> InputTokens t \<and> ReasoningTokens t \<le> OutputTokens t"
    if "vs = []"
    using r f add that
    by (auto simp: reconcileCanonicalTotal_def conflict_not_clean split: if_splits)
qed

lemma reconcile_step:
  assumes ok: "token_ok v" and r: "reconcileFinalTotal v auth clamped res = (t, as, vs)"
  shows "total_step v t as"
    and "TotalTokens v \<noteq> 0 \<Longrightarrow> auth \<noteq> totalAuthorityCanonical \<Longrightarrow> t = v \<and> as = []"
  using ok r canonical_step(1) [OF ok] zero_only_step [OF ok]
  by (auto simp: reconcileFinalTotal_def intro!: total_step_refl split: totalAuthority.splits)

section \<open>What every handler gets from the entry point\<close>

definition clamped_values :: "TokenValues \<Rightarrow> TokenValues" where
  "clamped_values values = fst (clampTokenValues values)"

definition context_of :: "TokenValues \<Rightarrow> handlerResolution \<Rightarrow> normalizationContext" where
  "context_of values res =
     \<lparr>nonNegative = clamped_values values, ctx_clamped = snd (snd (clampTokenValues values)), resolution = res\<rparr>"

lemma clamped_values_get: "get_field (clamped_values values) f = max 0 (get_field values f)"
  using clampTokenValues_facts(4) [of "values"]
  by (cases "clampTokenValues values") (simp add: clamped_values_def)

lemma clamped_values_ok: "token_i64 values \<Longrightarrow> token_ok (clamped_values values)"
  by (auto simp: token_ok_def token_i64_def clamped_values_get i64_def max_def)

lemma clampTokenValues_ok: "token_ok values \<Longrightarrow> clampTokenValues values = (values, [], [])"
  by (auto simp: clampTokenValues_def token_fields_def clamp_def token_ok_fields Let_def)

context token_handler begin

lemma process_with_audit:
  assumes "token_i64 values"
  shows "let r = process_with normalize values res in
    token_ok (res_Tokens r) \<and> honest (res_Actions r) values \<and> res_Tokens r = replay (res_Actions r) values"
proof -
  obtain nn as cs where c: "clampTokenValues values = (nn, as, cs)" by (metis prod_cases3)
  let ?ctx = "\<lparr>nonNegative = nn, ctx_clamped = cs, resolution = res\<rparr>"
  obtain h where h: "normalize ?ctx = h" by blast
  obtain t bs vs where t: "reconcileFinalTotal (hr_tokens h) (hr_authority h) cs res = (t, bs, vs)"
    by (metis prod_cases3)
  have "token_ok nn" using clamped_values_ok [OF assms] by (simp add: clamped_values_def c)
  then have tr: "tracked nn (hr_tokens h) (hr_actions h)" using handler_tracked [of ?ctx] h by simp
  have "total_step (hr_tokens h) t bs" by (rule reconcile_step(1) [OF tracked_token_ok [OF tr] t])
  with tr have "token_ok t" "honest (hr_actions h @ bs) nn" "t = replay (hr_actions h @ bs) nn"
    by (auto simp: total_step_def tracked_def)
  moreover have "process_with normalize values res =
     \<lparr>res_Tokens = t, res_Actions = (as @ hr_actions h) @ bs, res_Violations = hr_violations h @ vs,
      res_Outcome = summarizeTokenOutcome ((as @ hr_actions h) @ bs) (hr_violations h @ vs)\<rparr>"
    by (simp add: process_with_def c h t Let_def)
  ultimately show ?thesis
    using clampTokenValues_facts(1,2) [OF c] by (simp add: Let_def)
qed

lemma process_with_keeps_total:
  assumes "token_i64 values" and "0 < TotalTokens values" and "\<not> proves_total (context_of values res)"
  shows "TotalTokens (res_Tokens (process_with normalize values res)) = TotalTokens values"
proof -
  obtain nn as cs where c: "clampTokenValues values = (nn, as, cs)" by (metis prod_cases3)
  let ?ctx = "\<lparr>nonNegative = nn, ctx_clamped = cs, resolution = res\<rparr>"
  let ?h = "normalize ?ctx"
  have ctx: "context_of values res = ?ctx" by (simp add: context_of_def clamped_values_def c)
  have ok: "token_ok nn" using clamped_values_ok [OF assms(1)] by (simp add: clamped_values_def c)
  then have tr: "tracked nn (hr_tokens ?h) (hr_actions ?h)" using handler_tracked [of ?ctx] by simp
  have "TotalTokens nn = TotalTokens values"
    using clamped_values_get [of "values" F_total] assms(2) by (simp add: clamped_values_def c)
  with tr have same: "TotalTokens (hr_tokens ?h) = TotalTokens values" unfolding tracked_def by metis
  obtain t bs vs where t: "reconcileFinalTotal (hr_tokens ?h) (hr_authority ?h) cs res = (t, bs, vs)"
    by (metis prod_cases3)
  have "hr_authority ?h \<noteq> totalAuthorityCanonical" using handler_authority [of ?ctx] assms(3) ctx by auto
  then have "t = hr_tokens ?h"
    using reconcile_step(2) [OF tracked_token_ok [OF tr] t] same assms(2) by simp
  with same show ?thesis unfolding process_with_def c Let_def by (simp add: t)
qed

text \<open>On counts that are not negative, canonical authority and a clean result give the identities.\<close>

lemma process_with_canonical:
  assumes ok: "token_ok values"
    and auth: "hr_authority (normalize \<lparr>nonNegative = values, ctx_clamped = [], resolution = res\<rparr>) = totalAuthorityCanonical"
    and clean: "res_Violations (process_with normalize values res) = []"
  shows "let t = res_Tokens (process_with normalize values res) in
    TotalTokens t = InputTokens t + OutputTokens t \<and>
    CacheReadTokens t + CacheCreationTokens t \<le> InputTokens t \<and> ReasoningTokens t \<le> OutputTokens t"
proof -
  let ?ctx = "\<lparr>nonNegative = values, ctx_clamped = [], resolution = res\<rparr>"
  let ?h = "normalize ?ctx"
  have tr: "tracked values (hr_tokens ?h) (hr_actions ?h)" using handler_tracked [of ?ctx] ok by simp
  obtain t bs vs where t: "reconcileCanonicalTotal (hr_tokens ?h) [] res = (t, bs, vs)"
    by (metis prod_cases3)
  have p: "process_with normalize values res =
     \<lparr>res_Tokens = t, res_Actions = hr_actions ?h @ bs, res_Violations = hr_violations ?h @ vs,
      res_Outcome = summarizeTokenOutcome (hr_actions ?h @ bs) (hr_violations ?h @ vs)\<rparr>"
    by (simp add: process_with_def clampTokenValues_ok [OF ok] auth reconcileFinalTotal_def t Let_def)
  with clean have "vs = []" by simp
  from canonical_step(2) [OF tracked_token_ok [OF tr] t this] p show ?thesis by (simp add: Let_def)
qed

end

lemma process_audit:
  assumes "token_i64 values"
  shows "let r = Process uni values res in
    token_ok (res_Tokens r) \<and> honest (res_Actions r) values \<and> res_Tokens r = replay (res_Actions r) values"
proof -
  define resolved where "resolved = (case res of Some r \<Rightarrow> r | None \<Rightarrow> strict_default)"
  show ?thesis
    using claude.process_with_audit [OF assms] gemini.process_with_audit [OF assms]
      responses.process_with_audit [OF assms] strict.process_with_audit [OF assms]
      openai.process_with_audit [OF assms]
    by (cases "handlerID resolved") (simp_all add: Process_def resolved_def [symmetric])
qed

section \<open>Properties\<close>

text \<open>
  C15: The log of \<open>Process\<close> is complete and true.  For every event whose counts fit \<open>int64\<close>, with any
  resolution: the returned counts are non-negative \<open>int64\<close> values, every logged action records the
  value its field really had and a different new one, and replaying the log on the original counts
  gives the returned counts, so nothing is changed silently.
\<close>

theorem process_audit_complete:
  assumes "token_i64 values"
  shows "let r = Process uni values res in
    token_ok (res_Tokens r) \<and> honest (res_Actions r) values \<and> res_Tokens r = replay (res_Actions r) values"
  using assms by (rule process_audit)

definition sample_values :: TokenValues where
  "sample_values = \<lparr>InputTokens = 10, OutputTokens = 4, ReasoningTokens = 3, CachedTokens = 2,
     CacheReadTokens = 0, CacheReadPresent = False, CacheCreationTokens = 0, TotalTokens = 17\<rparr>"

definition sample_resolution :: "HandlerID \<Rightarrow> EvidenceStrength \<Rightarrow> handlerResolution" where
  "sample_resolution h s = \<lparr>handlerID = h, evidenceSource = EvidenceExecutor, evidenceStrength = s,
     executorType = [], identityType = [], needsIdentity = False, unknownExecutor = False\<rparr>"

lemma token_okI:
  "(\<And>f. f \<in> set token_fields \<Longrightarrow> 0 \<le> get_field v f \<and> i64 (get_field v f)) \<Longrightarrow> token_ok v"
  by (simp add: token_ok_def token_fields_all)

lemma sample_ok: "token_ok sample_values"
  by (rule token_okI) (auto simp: token_fields_def sample_values_def i64_def)

lemma token_ok_i64: "token_ok v \<Longrightarrow> token_i64 v"
  by (simp add: token_ok_def token_i64_def)

theorem process_audit_complete_witness:
  "let r = Process (\<lambda>s. s) sample_values (Some (sample_resolution HandlerGemini EvidenceParserContract)) in
     res_Tokens r = replay (res_Actions r) sample_values"
  using process_audit_complete [OF token_ok_i64 [OF sample_ok]] by (simp add: Let_def)

lemma process_keeps_total:
  assumes "token_i64 values" and "0 < TotalTokens values"
    and "evidenceStrength r \<noteq> EvidenceParserContract"
    and "handlerID r = HandlerClaude \<longrightarrow>
      TotalTokens values \<noteq> max 0 (InputTokens values) + max 0 (OutputTokens values)"
  shows "TotalTokens (res_Tokens (Process uni values (Some r))) = TotalTokens values"
proof (cases "handlerID r")
  case HandlerClaude
  have "\<not> claudeIdentityProvesLegacyMissingCache (context_of values r) c" for c
  proof
    assume "claudeIdentityProvesLegacyMissingCache (context_of values r) c"
    then obtain raw where raw: "safeAddTokenCounts [InputTokens (clamped_values values), OutputTokens (clamped_values values)] = Some raw"
      "raw = TotalTokens (clamped_values values)"
      by (auto simp: claudeIdentityProvesLegacyMissingCache_def Let_def context_of_def split: if_splits option.splits)
    note ok = token_ok_fields [OF clamped_values_ok [OF assms(1)]]
    have "raw = InputTokens (clamped_values values) + OutputTokens (clamped_values values)"
      using safeAdd_Some [OF _ _ raw(1)] ok by (simp add: i64_def)
    with raw(2) show False
      using assms(2,4) HandlerClaude clamped_values_get [of "values" F_input]
        clamped_values_get [of "values" F_output] clamped_values_get [of "values" F_total] by simp
  qed
  then have "\<not> (parser_contract (context_of values r) \<or>
     (\<exists>c. safeAddTokenCounts [InputTokens (nonNegative (context_of values r)),
             CacheReadTokens (nonNegative (context_of values r)),
             CacheCreationTokens (nonNegative (context_of values r))] = Some c \<and>
          claudeIdentityProvesLegacyMissingCache (context_of values r) c))"
    using assms(3) by (simp add: parser_contract_def context_of_def)
  then show ?thesis
    using claude.process_with_keeps_total [OF assms(1,2)] HandlerClaude by (simp add: Process_def)
qed (use assms(3) in \<open>simp_all add: Process_def parser_contract_def context_of_def
       gemini.process_with_keeps_total [OF assms(1,2)] responses.process_with_keeps_total [OF assms(1,2)]
       strict.process_with_keeps_total [OF assms(1,2)] openai.process_with_keeps_total [OF assms(1,2)]\<close>)

text \<open>
  C16: A positive total reported upstream is only ever overwritten on proof: unless the event came from
  a registered executor or is a Claude identity event with the exact legacy fingerprint, the total
  leaves \<open>Process\<close> as it came.
\<close>

theorem process_keeps_reported_total:
  assumes "token_i64 values" and "0 < TotalTokens values"
    and "evidenceStrength r \<noteq> EvidenceParserContract"
    and "handlerID r = HandlerClaude \<longrightarrow>
      TotalTokens values \<noteq> max 0 (InputTokens values) + max 0 (OutputTokens values)"
  shows "TotalTokens (res_Tokens (Process uni values (Some r))) = TotalTokens values"
  using assms by (rule process_keeps_total)

theorem process_keeps_reported_total_witness:
  "TotalTokens (res_Tokens (Process (\<lambda>s. s) sample_values
     (Some (sample_resolution HandlerClaude EvidenceIdentityHint)))) = 17"
  using process_keeps_reported_total [OF token_ok_i64 [OF sample_ok], of "sample_resolution HandlerClaude EvidenceIdentityHint"]
  by (simp add: sample_values_def sample_resolution_def)

text \<open>
  C17: The canonical total.  Take an event whose counts are all non-negative and fit \<open>int64\<close>, resolved by its executor
  (a parser contract) to the Claude, the Gemini or the Responses handler, whose result reports no violation.  Then Total =
  Input + Output, the cache parts fit in Input and the reasoning in Output; except that the cached-only shape of the
  Codex executor, where every count but the cached one and the equal total is zero, keeps its total over an empty input and
  output.  Of the other two handlers, to which the Kimi and OpenAI-compatible executors resolve, it is not true.
\<close>

theorem process_canonical_total:
  assumes ok: "token_ok values" and contract: "evidenceStrength r = EvidenceParserContract"
    and handler: "handlerID r \<in> {HandlerClaude, HandlerGemini, HandlerResponsesInclusive}"
    and clean: "res_Violations (Process uni values (Some r)) = []"
  shows "let t = res_Tokens (Process uni values (Some r)) in
    if handlerID r = HandlerResponsesInclusive \<and>
       matchesLegacyCodexCachedOnlyShape uni \<lparr>nonNegative = values, ctx_clamped = [], resolution = r\<rparr>
    then TotalTokens t = TotalTokens values \<and> TotalTokens t = CachedTokens values \<and> InputTokens t = 0 \<and> OutputTokens t = 0
    else TotalTokens t = InputTokens t + OutputTokens t \<and>
      CacheReadTokens t + CacheCreationTokens t \<le> InputTokens t \<and> ReasoningTokens t \<le> OutputTokens t"
proof -
  let ?ctx = "\<lparr>nonNegative = values, ctx_clamped = [], resolution = r\<rparr>"
  obtain t as vs where cr: "normalizeNonClaudeCacheRead ?ctx = (t, as, vs)" by (metis prod_cases3)
  have vs: "vs = []" using cr by (auto simp: normalizeNonClaudeCacheRead_def has_def Let_def split: if_splits)
  have viol: "hr_violations (h ?ctx) = []" if "res_Violations (process_with h values r) = []" for h
    using that by (simp add: process_with_def clampTokenValues_ok [OF ok] split_beta Let_def)
  consider (claude) "handlerID r = HandlerClaude" | (gemini) "handlerID r = HandlerGemini"
    | (responses) "handlerID r = HandlerResponsesInclusive" using handler by blast
  then show ?thesis
  proof cases
    case claude
    then have p: "Process uni values (Some r) = process_with claude_Normalize values r" by (simp add: Process_def)
    from clean have "hr_violations (claude_Normalize ?ctx) = []" by (simp add: p viol)
    then have "hr_authority (claude_Normalize ?ctx) = totalAuthorityCanonical"
      using contract by (auto simp: claude_Normalize_def claude_fold_input_def Let_def split: option.splits)
    with claude.process_with_canonical [OF ok] clean claude show ?thesis by (simp add: p Let_def)
  next
    case gemini
    then have p: "Process uni values (Some r) = process_with gemini_Normalize values r" by (simp add: Process_def)
    from clean have "hr_violations (gemini_Normalize ?ctx) = []" by (simp add: p viol)
    then have "hr_authority (gemini_Normalize ?ctx) = totalAuthorityCanonical"
      using contract by (auto simp: gemini_Normalize_def gemini_decide_def cr vs split: option.splits if_splits)
    with gemini.process_with_canonical [OF ok] clean gemini show ?thesis by (simp add: p Let_def)
  next
    case responses
    then have p: "Process uni values (Some r) = process_with (responses_Normalize uni) values r"
      by (simp add: Process_def)
    show ?thesis
    proof (cases "matchesLegacyCodexCachedOnlyShape uni ?ctx")
      case True
      then have "res_Tokens (Process uni values (Some r)) = t"
        by (simp add: p process_with_def clampTokenValues_ok [OF ok] responses_Normalize_def cr reconcileFinalTotal_def)
      then show ?thesis using True responses cacheRead_fields [OF cr, simplified]
        by (simp add: matchesLegacyCodexCachedOnlyShape_def Let_def split: if_splits)
    next
      case False
      then have "hr_authority (responses_Normalize uni ?ctx) = totalAuthorityCanonical"
        using contract by (simp add: responses_Normalize_def cr vs)
      with responses.process_with_canonical [OF ok] clean False show ?thesis by (simp add: p Let_def)
    qed
  qed
qed

definition gemini_sample :: TokenValues where
  "gemini_sample = \<lparr>InputTokens = 10, OutputTokens = 4, ReasoningTokens = 3, CachedTokens = 2,
     CacheReadTokens = 2, CacheReadPresent = True, CacheCreationTokens = 0, TotalTokens = 99\<rparr>"

lemma gemini_sample_ok: "token_ok gemini_sample"
  by (rule token_okI) (auto simp: token_fields_def gemini_sample_def i64_def)

lemmas process_eval = Process_def process_with_def clampTokenValues_def token_fields_def clamp_def
  gemini_Normalize_def gemini_decide_def normalizeNonClaudeCacheRead_def has_def
  safeAddTokenCounts_def reconcileFinalTotal_def reconcileCanonicalTotal_def reconcileZeroOnlyTotal_def
  wrap64_def Let_def sample_resolution_def

theorem process_canonical_total_witness:
  "let t = res_Tokens (Process (\<lambda>s. s) gemini_sample (Some (sample_resolution HandlerGemini EvidenceParserContract)))
   in TotalTokens t = InputTokens t + OutputTokens t"
proof -
  let ?r = "sample_resolution HandlerGemini EvidenceParserContract"
  have c: "res_Violations (Process (\<lambda>s. s) gemini_sample (Some ?r)) = []"
    by (simp add: process_eval gemini_sample_def)
  show ?thesis
    using process_canonical_total [OF gemini_sample_ok _ _ c]
    by (simp add: sample_resolution_def matchesLegacyCodexCachedOnlyShape_def gemini_sample_def Let_def)
qed

text \<open>
  Gemini-style reasoning is counted exactly once by the OpenAI-compatible handler.  On counts that
  are not negative, output grows by the reasoning exactly when the reported total is input plus output
  plus reasoning; then the total stays as reported and equals input plus the new output.  Otherwise the
  output is left alone.
\<close>

lemma openai_reasoning_counted_once:
  assumes ok: "token_ok values" and h: "handlerID r = HandlerOpenAICompatibility"
  shows "let t = res_Tokens (Process uni values (Some r));
             separated = 0 < ReasoningTokens values \<and> 0 < TotalTokens values \<and>
               TotalTokens values = InputTokens values + OutputTokens values + ReasoningTokens values
         in InputTokens t = InputTokens values \<and>
            OutputTokens t = OutputTokens values + (if separated then ReasoningTokens values else 0) \<and>
            (separated \<longrightarrow> TotalTokens t = TotalTokens values \<and> TotalTokens t = InputTokens t + OutputTokens t)"
proof -
  let ?ctx = "\<lparr>nonNegative = values, ctx_clamped = [], resolution = r\<rparr>"
  let ?sep = "0 < ReasoningTokens values \<and> 0 < TotalTokens values \<and>
    TotalTokens values = InputTokens values + OutputTokens values + ReasoningTokens values"
  obtain t as vs where cr: "normalizeNonClaudeCacheRead ?ctx = (t, as, vs)" by (metis prod_cases3)
  note cf = cacheRead_fields [OF cr, simplified]
  note f = token_ok_fields [OF ok]
  obtain b mvs where m: "issue272_Match ?ctx = (b, mvs)" by fastforce
  have b: "b = ?sep"
    using m f safeAdd2 [of "InputTokens values" "OutputTokens values"]
      safeAdd3 [of "InputTokens values" "OutputTokens values" "ReasoningTokens values"]
    by (auto simp: issue272_Match_def Let_def i64_def split: if_splits)
  obtain as' vs' where n: "openai_Normalize ?ctx =
     \<lparr>hr_tokens = (if ?sep then t\<lparr>OutputTokens := OutputTokens values + ReasoningTokens values\<rparr> else t),
      hr_authority = totalAuthorityZeroOnly, hr_actions = as', hr_violations = vs'\<rparr>"
    using f safeAdd2 [of "OutputTokens values" "ReasoningTokens values"]
    by (cases ?sep) (auto simp: openai_Normalize_def openAICompatibilityRules_def issue272_Apply_def cr m b cf i64_def)
  let ?t = "if ?sep then t\<lparr>OutputTokens := OutputTokens values + ReasoningTokens values\<rparr> else t"
  obtain t' as'' vs'' where z: "reconcileZeroOnlyTotal ?t [] r = (t', as'', vs'')" by (metis prod_cases3)
  have "res_Tokens (Process uni values (Some r)) = t'"
    by (simp add: Process_def h process_with_def clampTokenValues_ok [OF ok] n reconcileFinalTotal_def z Let_def)
  moreover have "InputTokens t' = InputTokens ?t" "OutputTokens t' = OutputTokens ?t"
    using z by (auto simp: reconcileZeroOnlyTotal_def split: if_splits option.splits)
  moreover have "TotalTokens ?t \<noteq> 0 \<Longrightarrow> t' = ?t"
    using z by (auto simp: reconcileZeroOnlyTotal_def split: if_splits option.splits)
  ultimately show ?thesis using cf by (auto simp: Let_def)
qed

text \<open>
  The outcome is truthful: an event is reported as valid exactly when nothing was done to it and
  nothing was found wrong with it, and then its counts are returned unchanged.
\<close>

lemma process_valid_iff_untouched:
  assumes "token_i64 values"
  shows "let r = Process uni values res in
    (res_Outcome r = TokenOutcomeValid \<longleftrightarrow> res_Actions r = [] \<and> res_Violations r = []) \<and>
    (res_Outcome r = TokenOutcomeValid \<longrightarrow> res_Tokens r = values)"
proof -
  have iff: "summarizeTokenOutcome as vs = TokenOutcomeValid \<longleftrightarrow> as = [] \<and> vs = []" for as vs
    by (auto simp: summarizeTokenOutcome_def Let_def)
  have "res_Outcome (process_with h values r) =
      summarizeTokenOutcome (res_Actions (process_with h values r)) (res_Violations (process_with h values r))" for h r
    by (simp add: process_with_def split_beta Let_def)
  then have out: "res_Outcome (Process uni values res) = TokenOutcomeValid \<longleftrightarrow>
      res_Actions (Process uni values res) = [] \<and> res_Violations (Process uni values res) = []"
    by (simp add: Process_def iff Let_def split: option.split)
  have "res_Tokens (Process uni values res) = replay (res_Actions (Process uni values res)) values"
    using process_audit [OF assms] by (simp add: Let_def)
  with out show ?thesis by (simp add: Let_def)
qed

end
