(* ===== verification/TokenRegistry.thy ===== *)
theory TokenRegistry
  imports TokenProcess
begin

text \<open>
  \<open>internal/service/tokenprocessor\<close>, part 4: the static tables that bind CPA executors and identities
  to handlers (\<open>registry.go\<close> and the executor files), their validation, and the resolver
  (\<open>resolver.go\<close>).  The last part composes the resolver with \<open>Process\<close>.
\<close>

section \<open>Static tables\<close>

record executorDefinition =
  ex_alias :: string
  ex_handlerID :: HandlerID

record identityAliasDefinition =
  id_alias :: string
  id_handlerID :: HandlerID

record identityPrefixDefinition =
  pre_prefix :: string
  pre_handlerID :: HandlerID

record registryIndexes =
  executors :: "(string, executorDefinition) gomap"
  identities :: "(string, identityAliasDefinition) gomap"
  identityPrefixes :: "identityPrefixDefinition list"

definition handlerDefinitions :: "HandlerID list" where
  "handlerDefinitions = [HandlerClaude, HandlerGemini, HandlerResponsesInclusive,
     HandlerStrictPassThrough, HandlerOpenAICompatibility]"

definition claudeExecutorDefinition :: executorDefinition where
  "claudeExecutorDefinition = \<lparr>ex_alias = ''ClaudeExecutor'', ex_handlerID = HandlerClaude\<rparr>"
definition geminiExecutorDefinition :: executorDefinition where
  "geminiExecutorDefinition = \<lparr>ex_alias = ''GeminiExecutor'', ex_handlerID = HandlerGemini\<rparr>"
definition geminiVertexExecutorDefinition :: executorDefinition where
  "geminiVertexExecutorDefinition = \<lparr>ex_alias = ''GeminiVertexExecutor'', ex_handlerID = HandlerGemini\<rparr>"
definition geminiCLIExecutorDefinition :: executorDefinition where
  "geminiCLIExecutorDefinition = \<lparr>ex_alias = ''GeminiCLIExecutor'', ex_handlerID = HandlerGemini\<rparr>"
definition aiStudioExecutorDefinition :: executorDefinition where
  "aiStudioExecutorDefinition = \<lparr>ex_alias = ''AIStudioExecutor'', ex_handlerID = HandlerGemini\<rparr>"
definition antigravityExecutorDefinition :: executorDefinition where
  "antigravityExecutorDefinition = \<lparr>ex_alias = ''AntigravityExecutor'', ex_handlerID = HandlerGemini\<rparr>"
definition codexExecutorDefinition :: executorDefinition where
  "codexExecutorDefinition = \<lparr>ex_alias = ''CodexExecutor'', ex_handlerID = HandlerResponsesInclusive\<rparr>"
definition codexWebsocketsExecutorDefinition :: executorDefinition where
  "codexWebsocketsExecutorDefinition =
     \<lparr>ex_alias = ''CodexWebsocketsExecutor'', ex_handlerID = HandlerResponsesInclusive\<rparr>"
definition codexAutoExecutorDefinition :: executorDefinition where
  "codexAutoExecutorDefinition = \<lparr>ex_alias = ''CodexAutoExecutor'', ex_handlerID = HandlerResponsesInclusive\<rparr>"
definition xaiExecutorDefinition :: executorDefinition where
  "xaiExecutorDefinition = \<lparr>ex_alias = ''XAIExecutor'', ex_handlerID = HandlerResponsesInclusive\<rparr>"
definition xaiWebsocketsExecutorDefinition :: executorDefinition where
  "xaiWebsocketsExecutorDefinition = \<lparr>ex_alias = ''XAIWebsocketsExecutor'', ex_handlerID = HandlerResponsesInclusive\<rparr>"
definition xaiAutoExecutorDefinition :: executorDefinition where
  "xaiAutoExecutorDefinition = \<lparr>ex_alias = ''XAIAutoExecutor'', ex_handlerID = HandlerResponsesInclusive\<rparr>"
definition kimiExecutorDefinition :: executorDefinition where
  "kimiExecutorDefinition = \<lparr>ex_alias = ''KimiExecutor'', ex_handlerID = HandlerStrictPassThrough\<rparr>"
definition openAICompatExecutorDefinition :: executorDefinition where
  "openAICompatExecutorDefinition =
     \<lparr>ex_alias = ''OpenAICompatExecutor'', ex_handlerID = HandlerOpenAICompatibility\<rparr>"

definition executorDefinitions :: "executorDefinition list" where
  "executorDefinitions =
     [claudeExecutorDefinition, geminiExecutorDefinition, geminiVertexExecutorDefinition,
      geminiCLIExecutorDefinition, aiStudioExecutorDefinition, antigravityExecutorDefinition,
      codexExecutorDefinition, codexWebsocketsExecutorDefinition, codexAutoExecutorDefinition,
      xaiExecutorDefinition, xaiWebsocketsExecutorDefinition, xaiAutoExecutorDefinition,
      kimiExecutorDefinition, openAICompatExecutorDefinition]"

definition identityAliasDefinitions :: "identityAliasDefinition list" where
  "identityAliasDefinitions =
     [\<lparr>id_alias = ''claude'', id_handlerID = HandlerClaude\<rparr>,
      \<lparr>id_alias = ''anthropic'', id_handlerID = HandlerClaude\<rparr>,
      \<lparr>id_alias = ''gemini'', id_handlerID = HandlerGemini\<rparr>,
      \<lparr>id_alias = ''vertex'', id_handlerID = HandlerGemini\<rparr>,
      \<lparr>id_alias = ''gemini-cli'', id_handlerID = HandlerGemini\<rparr>,
      \<lparr>id_alias = ''gemini-cli-code-assist'', id_handlerID = HandlerGemini\<rparr>,
      \<lparr>id_alias = ''gemini-interactions'', id_handlerID = HandlerGemini\<rparr>,
      \<lparr>id_alias = ''aistudio'', id_handlerID = HandlerGemini\<rparr>,
      \<lparr>id_alias = ''ai-studio'', id_handlerID = HandlerGemini\<rparr>,
      \<lparr>id_alias = ''antigravity'', id_handlerID = HandlerGemini\<rparr>,
      \<lparr>id_alias = ''codex'', id_handlerID = HandlerResponsesInclusive\<rparr>,
      \<lparr>id_alias = ''xai'', id_handlerID = HandlerResponsesInclusive\<rparr>,
      \<lparr>id_alias = ''kimi'', id_handlerID = HandlerStrictPassThrough\<rparr>,
      \<lparr>id_alias = ''moonshot'', id_handlerID = HandlerStrictPassThrough\<rparr>,
      \<lparr>id_alias = ''openai'', id_handlerID = HandlerOpenAICompatibility\<rparr>,
      \<lparr>id_alias = ''openai-compatible'', id_handlerID = HandlerOpenAICompatibility\<rparr>,
      \<lparr>id_alias = ''openai_compatibility'', id_handlerID = HandlerOpenAICompatibility\<rparr>,
      \<lparr>id_alias = ''openai-compatibility'', id_handlerID = HandlerOpenAICompatibility\<rparr>]"

definition identityPrefixDefinitions :: "identityPrefixDefinition list" where
  "identityPrefixDefinitions = [\<lparr>pre_prefix = ''openai-compatible-'', pre_handlerID = HandlerOpenAICompatibility\<rparr>]"

section \<open>Validation\<close>

datatype registry_error =
    DuplicateHandler HandlerID | HandlerCount nat nat | UndeclaredHandler HandlerID
  | MismatchedHandler HandlerID | EmptyRule | DuplicateRule string
  | EmptyExecutorAlias | UnknownExecutorHandler string HandlerID | DuplicateExecutorAlias string
  | EmptyIdentityAlias | UnknownIdentityHandler string HandlerID | DuplicateIdentityAlias string
  | EmptyIdentityPrefix | UnknownPrefixHandler string HandlerID | DuplicateIdentityPrefix string

definition check_handler_id :: "HandlerID \<Rightarrow> HandlerID list \<Rightarrow> registry_error + HandlerID list" where
  "check_handler_id h seen = (if h \<in> set seen then Inl (DuplicateHandler h) else Inr (seen @ [h]))"

definition check_handler :: "HandlerID list \<Rightarrow> HandlerID \<times> tokenHandler \<Rightarrow> unit \<Rightarrow> registry_error + unit" where
  "check_handler handlers kv u =
     (if fst kv \<notin> set handlers then Inl (UndeclaredHandler (fst kv))
      else if th_ID (snd kv) \<noteq> fst kv then Inl (MismatchedHandler (fst kv))
      else Inr ())"

definition check_rule :: "compatibilityRule \<Rightarrow> string list \<Rightarrow> registry_error + string list" where
  "check_rule rule seen =
     (if rule_Name rule = [] then Inl EmptyRule
      else if rule_Name rule \<in> set seen then Inl (DuplicateRule (rule_Name rule))
      else Inr (seen @ [rule_Name rule]))"

definition validateOpenAICompatibilityRules :: "compatibilityRule list \<Rightarrow> registry_error + unit" where
  "validateOpenAICompatibilityRules rules = bindE (foldE check_rule rules []) (\<lambda>_. Inr ())"

definition add_executor ::
  "(string \<Rightarrow> string) \<Rightarrow> HandlerID list \<Rightarrow> executorDefinition \<Rightarrow> (string, executorDefinition) gomap \<Rightarrow>
     registry_error + (string, executorDefinition) gomap" where
  "add_executor uni handlers def m =
     (let alias = normalizeRegistryAlias uni (ex_alias def) in
      if alias = [] then Inl EmptyExecutorAlias
      else if ex_handlerID def \<notin> set handlers then Inl (UnknownExecutorHandler (ex_alias def) (ex_handlerID def))
      else if mget m alias \<noteq> None then Inl (DuplicateExecutorAlias (ex_alias def))
      else Inr (mput m alias def))"

definition add_identity ::
  "(string \<Rightarrow> string) \<Rightarrow> HandlerID list \<Rightarrow> identityAliasDefinition \<Rightarrow> (string, identityAliasDefinition) gomap \<Rightarrow>
     registry_error + (string, identityAliasDefinition) gomap" where
  "add_identity uni handlers def m =
     (let alias = normalizeRegistryAlias uni (id_alias def) in
      if alias = [] then Inl EmptyIdentityAlias
      else if id_handlerID def \<notin> set handlers then Inl (UnknownIdentityHandler (id_alias def) (id_handlerID def))
      else if mget m alias \<noteq> None then Inl (DuplicateIdentityAlias (id_alias def))
      else Inr (mput m alias def))"

definition add_prefix ::
  "(string \<Rightarrow> string) \<Rightarrow> HandlerID list \<Rightarrow> identityPrefixDefinition \<Rightarrow>
     identityPrefixDefinition list \<times> string list \<Rightarrow>
     registry_error + identityPrefixDefinition list \<times> string list" where
  "add_prefix uni handlers def s =
     (let (prefixes, seenPrefixes) = s; pfx = normalizeRegistryAlias uni (pre_prefix def) in
      if pfx = [] then Inl EmptyIdentityPrefix
      else if pre_handlerID def \<notin> set handlers then Inl (UnknownPrefixHandler (pre_prefix def) (pre_handlerID def))
      else if pfx \<in> set seenPrefixes then Inl (DuplicateIdentityPrefix (pre_prefix def))
      else Inr (prefixes @ [def\<lparr>pre_prefix := pfx\<rparr>], seenPrefixes @ [pfx]))"

text \<open>The package's tables, which \<open>buildRegistryIndexes\<close> reads as global variables.\<close>

record registry_tables =
  tab_handlerDefinitions :: "HandlerID list"
  tab_tokenHandlers :: "(HandlerID, tokenHandler) gomap"
  tab_rules :: "compatibilityRule list"
  tab_executors :: "executorDefinition list"
  tab_identities :: "identityAliasDefinition list"
  tab_prefixes :: "identityPrefixDefinition list"

definition package_tables :: "(string \<Rightarrow> string) \<Rightarrow> registry_tables" where
  "package_tables uni =
     \<lparr>tab_handlerDefinitions = handlerDefinitions, tab_tokenHandlers = tokenHandlers uni, tab_rules = openAICompatibilityRules,
      tab_executors = executorDefinitions, tab_identities = identityAliasDefinitions, tab_prefixes = identityPrefixDefinitions\<rparr>"

definition build_indexes :: "(string \<Rightarrow> string) \<Rightarrow> registry_tables \<Rightarrow> registry_error + registryIndexes" where
  "build_indexes uni tab =
     bindE (foldE check_handler_id (tab_handlerDefinitions tab) []) (\<lambda>handlers.
     bindE (if length (tab_tokenHandlers tab) \<noteq> length handlers
            then Inl (HandlerCount (length (tab_tokenHandlers tab)) (length handlers)) else Inr ()) (\<lambda>_.
     bindE (foldE (check_handler handlers) (tab_tokenHandlers tab) ()) (\<lambda>_.
     bindE (validateOpenAICompatibilityRules (tab_rules tab)) (\<lambda>_.
     bindE (foldE (add_executor uni handlers) (tab_executors tab) []) (\<lambda>execs.
     bindE (foldE (add_identity uni handlers) (tab_identities tab) []) (\<lambda>idents.
     bindE (foldE (add_prefix uni handlers) (tab_prefixes tab) ([], [])) (\<lambda>(prefixes, _).
     Inr \<lparr>executors = execs, identities = idents, identityPrefixes = prefixes\<rparr>)))))))"

definition buildRegistryIndexes :: "(string \<Rightarrow> string) \<Rightarrow> registry_error + registryIndexes" where
  "buildRegistryIndexes uni = build_indexes uni (package_tables uni)"

section \<open>Resolver\<close>

definition resolveExecutor :: "(string \<Rightarrow> string) \<Rightarrow> registryIndexes \<Rightarrow> string \<Rightarrow> handlerResolution" where
  "resolveExecutor uni registry execType =
     (let normalizedExecutor = normalizeRegistryAlias uni execType in
      case mget (executors registry) normalizedExecutor of
        Some def \<Rightarrow>
          \<lparr>handlerID = ex_handlerID def, evidenceSource = EvidenceExecutor,
           evidenceStrength = EvidenceParserContract, executorType = go_trim_space execType,
           identityType = [], needsIdentity = False, unknownExecutor = False\<rparr>
      | None \<Rightarrow>
          \<lparr>handlerID = HandlerStrictPassThrough, evidenceSource = EvidenceDefault,
           evidenceStrength = EvidenceUnknown, executorType = go_trim_space execType,
           identityType = [], needsIdentity = True,
           unknownExecutor = (normalizedExecutor \<noteq> [] \<and> normalizedExecutor \<noteq> ''unknown'')\<rparr>)"

definition ResolveExecutor :: "(string \<Rightarrow> string) \<Rightarrow> string \<Rightarrow> registry_error + handlerResolution" where
  "ResolveExecutor uni execType =
     bindE (buildRegistryIndexes uni) (\<lambda>registry. Inr (resolveExecutor uni registry execType))"

definition resolve_identity_with ::
  "(string \<Rightarrow> string) \<Rightarrow> registryIndexes \<Rightarrow> string \<Rightarrow> string \<Rightarrow> handlerResolution" where
  "resolve_identity_with uni registry execType identType =
     (let res = resolveExecutor uni registry execType in
      if \<not> needsIdentity res then res\<lparr>identityType := go_trim_space identType\<rparr>
      else
        let normalizedIdentity = normalizeRegistryAlias uni identType;
            hint = (\<lambda>h. res\<lparr>handlerID := h, evidenceSource := EvidenceIdentity,
                           evidenceStrength := EvidenceIdentityHint,
                           identityType := go_trim_space identType, needsIdentity := False\<rparr>)
        in case mget (identities registry) normalizedIdentity of
             Some def \<Rightarrow> hint (id_handlerID def)
           | None \<Rightarrow>
               (case find (\<lambda>def. has_prefix normalizedIdentity (pre_prefix def)) (identityPrefixes registry) of
                  Some def \<Rightarrow> hint (pre_handlerID def)
                | None \<Rightarrow> res\<lparr>handlerID := HandlerStrictPassThrough, evidenceSource := EvidenceDefault,
                               evidenceStrength := EvidenceUnknown,
                               identityType := go_trim_space identType, needsIdentity := False\<rparr>))"

definition ResolveIdentity :: "(string \<Rightarrow> string) \<Rightarrow> string \<Rightarrow> string \<Rightarrow> registry_error + handlerResolution" where
  "ResolveIdentity uni execType identType =
     bindE (buildRegistryIndexes uni) (\<lambda>registry. Inr (resolve_identity_with uni registry execType identType))"

section \<open>The static tables are valid\<close>

text \<open>Every alias is ASCII without blanks, so normalising it is a plain case fold.\<close>

definition registry :: registryIndexes where
  "registry =
     \<lparr>executors = map (\<lambda>d. (map ascii_lower (ex_alias d), d)) executorDefinitions,
      identities = map (\<lambda>d. (id_alias d, d)) identityAliasDefinitions,
      identityPrefixes = identityPrefixDefinitions\<rparr>"

definition plain_alias :: "string \<Rightarrow> bool" where
  "plain_alias s \<longleftrightarrow> s \<noteq> [] \<and> list_all visible s"

lemma normalize_plain: "plain_alias s \<Longrightarrow> normalizeRegistryAlias uni s = map ascii_lower s"
  by (auto simp: plain_alias_def normalizeRegistryAlias_def go_to_lower_def go_trim_space_visible
      is_ascii_def list_all_iff visible_def)

lemmas executor_tables = executorDefinitions_def claudeExecutorDefinition_def geminiExecutorDefinition_def
  geminiVertexExecutorDefinition_def geminiCLIExecutorDefinition_def aiStudioExecutorDefinition_def
  antigravityExecutorDefinition_def codexExecutorDefinition_def codexWebsocketsExecutorDefinition_def
  codexAutoExecutorDefinition_def xaiExecutorDefinition_def xaiWebsocketsExecutorDefinition_def
  xaiAutoExecutorDefinition_def kimiExecutorDefinition_def openAICompatExecutorDefinition_def

lemma executors_plain: "list_all (\<lambda>d. plain_alias (ex_alias d)) executorDefinitions"
  by (simp add: executor_tables plain_alias_def visible_def)

lemma identities_plain:
  "list_all (\<lambda>d. plain_alias (id_alias d) \<and> map ascii_lower (id_alias d) = id_alias d) identityAliasDefinitions"
  by (simp add: identityAliasDefinitions_def plain_alias_def visible_def ascii_lower_def)

lemma prefixes_plain:
  "list_all (\<lambda>d. plain_alias (pre_prefix d) \<and> map ascii_lower (pre_prefix d) = pre_prefix d) identityPrefixDefinitions"
  by (simp add: identityPrefixDefinitions_def plain_alias_def visible_def ascii_lower_def)

lemma executor_keys:
  "map (\<lambda>d. map ascii_lower (ex_alias d)) executorDefinitions =
     [''claudeexecutor'', ''geminiexecutor'', ''geminivertexexecutor'', ''geminicliexecutor'',
      ''aistudioexecutor'', ''antigravityexecutor'', ''codexexecutor'', ''codexwebsocketsexecutor'',
      ''codexautoexecutor'', ''xaiexecutor'', ''xaiwebsocketsexecutor'', ''xaiautoexecutor'',
      ''kimiexecutor'', ''openaicompatexecutor'']"
  by code_simp

lemma executor_keys_distinct: "distinct (map (\<lambda>d. map ascii_lower (ex_alias d)) executorDefinitions)"
  unfolding executor_keys by simp

lemma identity_keys_distinct: "distinct (map id_alias identityAliasDefinitions)"
  by (simp add: identityAliasDefinitions_def)

text \<open>
  Every loop of the validation has one shape: an entry must pass a check of its own and have a key that no entry before it
  has, and is then added.
\<close>

lemma foldE_keyed:
  assumes step: "\<And>x s t. step x s = Inr t \<longleftrightarrow> good x \<and> key x \<notin> set (keys s) \<and> t = add x s"
    and keys: "\<And>x s. key x \<notin> set (keys s) \<Longrightarrow> keys (add x s) = keys s @ [key x]"
  shows "distinct (keys s) \<Longrightarrow> foldE step xs s = Inr t \<longleftrightarrow> list_all good xs \<and> distinct (keys s @ map key xs) \<and> t = fold add xs s"
proof (induction xs arbitrary: s)
  case (Cons x xs)
  show ?case
  proof (cases "good x \<and> key x \<notin> set (keys s)")
    case True
    then have "step x s = Inr (add x s)" "keys (add x s) = keys s @ [key x]" using step keys by blast+
    with Cons.IH [of "add x s"] Cons.prems True show ?thesis by (auto simp: bindE_def)
  next
    case False
    then obtain err where "step x s = Inl err" using step by (cases "step x s") auto
    with False show ?thesis by (auto simp: bindE_def)
  qed
qed (auto simp: eq_commute)

definition normal_alias :: "(string \<Rightarrow> string) \<Rightarrow> HandlerID list \<Rightarrow> string \<Rightarrow> HandlerID \<Rightarrow> bool" where
  "normal_alias uni handlers alias h \<longleftrightarrow> normalizeRegistryAlias uni alias \<noteq> [] \<and> h \<in> set handlers"

lemma check_handler_ids: "foldE check_handler_id hs [] = Inr t \<longleftrightarrow> distinct hs \<and> t = hs"
proof -
  have "fold (\<lambda>h seen. seen @ [h]) hs seen = seen @ hs" for seen by (induction hs arbitrary: seen) auto
  then show ?thesis
    by (subst foldE_keyed [where good = "\<lambda>_. True" and key = "\<lambda>h. h" and keys = "\<lambda>seen. seen" and add = "\<lambda>h seen. seen @ [h]"])
      (auto simp: check_handler_id_def list_all_iff split: if_splits)
qed

lemma check_handlers:
  "foldE (check_handler hs) impls () = Inr () \<longleftrightarrow> list_all (\<lambda>(h, impl). h \<in> set hs \<and> th_ID impl = h) impls"
  by (induction impls) (auto simp: check_handler_def bindE_def)

lemma check_rules:
  "validateOpenAICompatibilityRules rules = Inr () \<longleftrightarrow> list_all (\<lambda>r. rule_Name r \<noteq> []) rules \<and> distinct (map rule_Name rules)"
proof -
  have "foldE check_rule rules [] = Inr t \<longleftrightarrow>
      list_all (\<lambda>r. rule_Name r \<noteq> []) rules \<and> distinct (map rule_Name rules) \<and> t = fold (\<lambda>r seen. seen @ [rule_Name r]) rules []" for t
    by (subst foldE_keyed [where good = "\<lambda>r. rule_Name r \<noteq> []" and key = rule_Name and keys = "\<lambda>seen. seen"
          and add = "\<lambda>r seen. seen @ [rule_Name r]"])
      (auto simp: check_rule_def split: if_splits)
  then show ?thesis
    by (cases "foldE check_rule rules []") (auto simp: validateOpenAICompatibilityRules_def bindE_def)
qed

lemma mkeys_nil: "mkeys [] = []" and mkeys_snoc: "mkeys (m @ [(k, v)]) = mkeys m @ [k]"
  by (simp_all add: mkeys_def)

lemma fold_mput:
  "distinct (mkeys m @ map key ds) \<Longrightarrow> fold (\<lambda>d m. mput m (key d) d) ds m = m @ map (\<lambda>d. (key d, d)) ds"
  by (induction ds arbitrary: m) (auto simp: mput_new mkeys_def)

lemma add_executors:
  "foldE (add_executor uni hs) ds [] = Inr m \<longleftrightarrow>
     list_all (\<lambda>d. normal_alias uni hs (ex_alias d) (ex_handlerID d)) ds \<and>
     distinct (map (\<lambda>d. normalizeRegistryAlias uni (ex_alias d)) ds) \<and>
     m = map (\<lambda>d. (normalizeRegistryAlias uni (ex_alias d), d)) ds"
  using fold_mput [of "[]" "\<lambda>d. normalizeRegistryAlias uni (ex_alias d)" ds]
  by (subst foldE_keyed [where good = "\<lambda>d. normal_alias uni hs (ex_alias d) (ex_handlerID d)"
        and key = "\<lambda>d. normalizeRegistryAlias uni (ex_alias d)" and keys = mkeys
        and add = "\<lambda>d m. mput m (normalizeRegistryAlias uni (ex_alias d)) d"])
    (auto simp: add_executor_def normal_alias_def mget_None_iff Let_def mput_new mkeys_nil mkeys_snoc split: if_splits)

lemma add_identities:
  "foldE (add_identity uni hs) ds [] = Inr m \<longleftrightarrow>
     list_all (\<lambda>d. normal_alias uni hs (id_alias d) (id_handlerID d)) ds \<and>
     distinct (map (\<lambda>d. normalizeRegistryAlias uni (id_alias d)) ds) \<and>
     m = map (\<lambda>d. (normalizeRegistryAlias uni (id_alias d), d)) ds"
  using fold_mput [of "[]" "\<lambda>d. normalizeRegistryAlias uni (id_alias d)" ds]
  by (subst foldE_keyed [where good = "\<lambda>d. normal_alias uni hs (id_alias d) (id_handlerID d)"
        and key = "\<lambda>d. normalizeRegistryAlias uni (id_alias d)" and keys = mkeys
        and add = "\<lambda>d m. mput m (normalizeRegistryAlias uni (id_alias d)) d"])
    (auto simp: add_identity_def normal_alias_def mget_None_iff Let_def mput_new mkeys_nil mkeys_snoc split: if_splits)

definition normal_prefix :: "(string \<Rightarrow> string) \<Rightarrow> identityPrefixDefinition \<Rightarrow> identityPrefixDefinition" where
  "normal_prefix uni d = d\<lparr>pre_prefix := normalizeRegistryAlias uni (pre_prefix d)\<rparr>"

lemma add_prefixes:
  "(\<exists>seen. foldE (add_prefix uni hs) ds ([], []) = Inr (ps, seen)) \<longleftrightarrow>
     list_all (\<lambda>d. normal_alias uni hs (pre_prefix d) (pre_handlerID d)) ds \<and>
     distinct (map (\<lambda>d. normalizeRegistryAlias uni (pre_prefix d)) ds) \<and> ps = map (normal_prefix uni) ds"
proof -
  have "fold (\<lambda>d s. (fst s @ [normal_prefix uni d], snd s @ [normalizeRegistryAlias uni (pre_prefix d)])) ds s =
      (fst s @ map (normal_prefix uni) ds, snd s @ map (\<lambda>d. normalizeRegistryAlias uni (pre_prefix d)) ds)" for s
    by (induction ds arbitrary: s) auto
  then show ?thesis
    by (subst foldE_keyed [where good = "\<lambda>d. normal_alias uni hs (pre_prefix d) (pre_handlerID d)"
          and key = "\<lambda>d. normalizeRegistryAlias uni (pre_prefix d)" and keys = snd
          and add = "\<lambda>d s. (fst s @ [normal_prefix uni d], snd s @ [normalizeRegistryAlias uni (pre_prefix d)])"])
      (auto simp: add_prefix_def normal_alias_def normal_prefix_def Let_def split: prod.splits if_splits)
qed

text \<open>The tables a registry can be built of, and the one that is built.\<close>

definition tables_valid :: "(string \<Rightarrow> string) \<Rightarrow> registry_tables \<Rightarrow> bool" where
  "tables_valid uni tab \<longleftrightarrow>
     distinct (tab_handlerDefinitions tab) \<and>
     length (tab_tokenHandlers tab) = length (tab_handlerDefinitions tab) \<and>
     (\<forall>(h, impl) \<in> set (tab_tokenHandlers tab). h \<in> set (tab_handlerDefinitions tab) \<and> th_ID impl = h) \<and>
     (\<forall>r \<in> set (tab_rules tab). rule_Name r \<noteq> []) \<and> distinct (map rule_Name (tab_rules tab)) \<and>
     (let ks = map (\<lambda>d. normalizeRegistryAlias uni (ex_alias d)) (tab_executors tab) in (\<forall>k \<in> set ks. k \<noteq> []) \<and> distinct ks) \<and>
     (let ks = map (\<lambda>d. normalizeRegistryAlias uni (id_alias d)) (tab_identities tab) in (\<forall>k \<in> set ks. k \<noteq> []) \<and> distinct ks) \<and>
     (let ks = map (\<lambda>d. normalizeRegistryAlias uni (pre_prefix d)) (tab_prefixes tab) in (\<forall>k \<in> set ks. k \<noteq> []) \<and> distinct ks) \<and>
     ex_handlerID ` set (tab_executors tab) \<union> id_handlerID ` set (tab_identities tab) \<union> pre_handlerID ` set (tab_prefixes tab) \<subseteq>
       set (tab_handlerDefinitions tab)"

definition tables_index :: "(string \<Rightarrow> string) \<Rightarrow> registry_tables \<Rightarrow> registryIndexes" where
  "tables_index uni tab =
     \<lparr>executors = map (\<lambda>d. (normalizeRegistryAlias uni (ex_alias d), d)) (tab_executors tab),
      identities = map (\<lambda>d. (normalizeRegistryAlias uni (id_alias d), d)) (tab_identities tab),
      identityPrefixes = map (normal_prefix uni) (tab_prefixes tab)\<rparr>"

lemma bindE_Inr_iff: "bindE m f = Inr y \<longleftrightarrow> (\<exists>x. m = Inr x \<and> f x = Inr y)"
  by (cases m) (auto simp: bindE_def)

lemma build_indexes_iff: "build_indexes uni tab = Inr r \<longleftrightarrow> tables_valid uni tab \<and> r = tables_index uni tab"
proof -
  let ?hs = "tab_handlerDefinitions tab"
  have "build_indexes uni tab = Inr r \<longleftrightarrow> distinct ?hs \<and> length (tab_tokenHandlers tab) = length ?hs \<and>
      list_all (\<lambda>(h, impl). h \<in> set ?hs \<and> th_ID impl = h) (tab_tokenHandlers tab) \<and>
      validateOpenAICompatibilityRules (tab_rules tab) = Inr () \<and>
      (\<exists>execs idents prefixes. foldE (add_executor uni ?hs) (tab_executors tab) [] = Inr execs \<and>
         foldE (add_identity uni ?hs) (tab_identities tab) [] = Inr idents \<and>
         (\<exists>seen. foldE (add_prefix uni ?hs) (tab_prefixes tab) ([], []) = Inr (prefixes, seen)) \<and>
         r = \<lparr>executors = execs, identities = idents, identityPrefixes = prefixes\<rparr>)"
    by (auto simp: build_indexes_def bindE_Inr_iff check_handler_ids check_handlers split: if_splits)
  also have "\<dots> \<longleftrightarrow> tables_valid uni tab \<and> r = tables_index uni tab"
    unfolding check_rules add_executors add_identities add_prefixes
    by (auto simp: tables_valid_def tables_index_def normal_alias_def list_all_iff image_subset_iff)
  finally show ?thesis .
qed

lemma implemented:
  assumes "tables_valid uni tab" and "wf_map (tab_tokenHandlers tab)" and "h \<in> set (tab_handlerDefinitions tab)"
  shows "\<exists>impl. mget (tab_tokenHandlers tab) h = Some impl \<and> th_ID impl = h"
proof -
  let ?hs = "tab_handlerDefinitions tab" and ?m = "tab_tokenHandlers tab"
  have "set (mkeys ?m) \<subseteq> set ?hs" using assms(1) by (auto simp: tables_valid_def mkeys_def)
  moreover have "card (set (mkeys ?m)) = card (set ?hs)"
  proof -
    have "distinct (mkeys ?m)" "distinct ?hs" "length (mkeys ?m) = length ?hs"
      using assms(1, 2) by (simp_all add: tables_valid_def wf_map_def mkeys_def)
    then show ?thesis by (simp only: distinct_card)
  qed
  ultimately have "h \<in> set (mkeys ?m)" using assms(3) by (metis card_subset_eq List.finite_set)
  then obtain impl where impl: "mget ?m h = Some impl" using mget_None_iff [of ?m h] by auto
  then have "(h, impl) \<in> set ?m" by (rule map_of_SomeD)
  with impl show ?thesis using assms(1) by (auto simp: tables_valid_def)
qed

lemma package_valid: "tables_valid uni (package_tables uni)" "tables_index uni (package_tables uni) = registry"
proof -
  have keys: "map (\<lambda>d. normalizeRegistryAlias uni (ex_alias d)) executorDefinitions = map (\<lambda>d. map ascii_lower (ex_alias d)) executorDefinitions"
    "map (\<lambda>d. normalizeRegistryAlias uni (id_alias d)) identityAliasDefinitions = map id_alias identityAliasDefinitions"
    "map (\<lambda>d. normalizeRegistryAlias uni (pre_prefix d)) identityPrefixDefinitions = map pre_prefix identityPrefixDefinitions"
    using executors_plain identities_plain prefixes_plain by (auto simp: normalize_plain list_all_iff)
  have "ex_handlerID ` set executorDefinitions \<union> id_handlerID ` set identityAliasDefinitions \<union> pre_handlerID ` set identityPrefixDefinitions \<subseteq>
      set handlerDefinitions"
    by (simp add: executor_tables identityAliasDefinitions_def identityPrefixDefinitions_def handlerDefinitions_def)
  moreover have "distinct handlerDefinitions" "length (tokenHandlers uni) = length handlerDefinitions"
    "\<forall>(h, impl) \<in> set (tokenHandlers uni). h \<in> set handlerDefinitions \<and> th_ID impl = h"
    by (simp_all add: handlerDefinitions_def tokenHandlers_def)
  moreover have "\<forall>r \<in> set openAICompatibilityRules. rule_Name r \<noteq> []" "distinct (map rule_Name openAICompatibilityRules)"
    by (simp_all add: openAICompatibilityRules_def)
  moreover have "(\<forall>k \<in> set (map (\<lambda>d. map ascii_lower (ex_alias d)) executorDefinitions). k \<noteq> [])"
    by (simp only: executor_keys) simp
  moreover have "(\<forall>k \<in> set (map id_alias identityAliasDefinitions). k \<noteq> [])" "distinct (map pre_prefix identityPrefixDefinitions)"
    "(\<forall>k \<in> set (map pre_prefix identityPrefixDefinitions). k \<noteq> [])"
    by (simp_all add: identityAliasDefinitions_def identityPrefixDefinitions_def)
  ultimately show "tables_valid uni (package_tables uni)"
    using executor_keys_distinct identity_keys_distinct
    unfolding tables_valid_def package_tables_def registry_tables.select_convs keys Let_def by blast
  show "tables_index uni (package_tables uni) = registry"
    using executors_plain identities_plain prefixes_plain
    by (auto simp: tables_index_def package_tables_def registry_def normal_prefix_def normalize_plain list_all_iff intro!: map_idI)
qed

lemma registry_built: "buildRegistryIndexes uni = Inr registry"
  by (simp add: buildRegistryIndexes_def build_indexes_iff package_valid)

text \<open>What the resolvers return, given that the registry is valid.\<close>

lemma resolvers:
  "ResolveExecutor uni e = Inr (resolveExecutor uni registry e)"
  "ResolveIdentity uni e i = Inr (resolve_identity_with uni registry e i)"
  by (simp_all add: ResolveExecutor_def ResolveIdentity_def registry_built)

lemma registered_handler:
  assumes "mget (executors registry) k = Some d"
  shows "ex_handlerID d \<in> set handlerDefinitions"
proof -
  have "list_all (\<lambda>d. ex_handlerID d \<in> set handlerDefinitions) executorDefinitions"
    by (simp add: executor_tables handlerDefinitions_def)
  moreover have "d \<in> set executorDefinitions"
    using map_of_SomeD [OF assms] by (auto simp: registry_def)
  ultimately show ?thesis by (simp add: list_all_iff)
qed

lemma identity_handler:
  assumes "mget (identities registry) k = Some d"
  shows "id_handlerID d \<in> set handlerDefinitions"
    and "id_handlerID d = HandlerClaude \<Longrightarrow> k \<in> {''claude'', ''anthropic''}"
proof -
  have "list_all (\<lambda>d. id_handlerID d \<in> set handlerDefinitions \<and>
      (id_handlerID d = HandlerClaude \<longrightarrow> id_alias d \<in> {''claude'', ''anthropic''})) identityAliasDefinitions"
    by (simp add: identityAliasDefinitions_def handlerDefinitions_def)
  moreover have "d \<in> set identityAliasDefinitions" "k = id_alias d"
    using map_of_SomeD [OF assms] by (auto simp: registry_def)
  ultimately show "id_handlerID d \<in> set handlerDefinitions"
    and "id_handlerID d = HandlerClaude \<Longrightarrow> k \<in> {''claude'', ''anthropic''}"
    by (simp_all add: list_all_iff)
qed

lemma prefix_handler: "find P (identityPrefixes registry) = Some d \<Longrightarrow> pre_handlerID d = HandlerOpenAICompatibility"
  by (auto simp: registry_def identityPrefixDefinitions_def split: if_splits)

text \<open>
  C18: Building the indexes validates the tables it is given, whatever they hold.  It succeeds exactly if the declared
  handlers are distinct and as many as the implementations, each of which is declared and reports the identifier it is
  registered under; the names of the rules, the executor aliases, the identity aliases and the prefixes, normalised, are
  each neither empty nor duplicate; and every entry refers to a declared handler.  The indexes are then exactly the
  entries under their normalised names, and every handler that is referred to has an implementation of that identifier.
  The tables of the program are such, so neither resolver ever returns the registry error.
\<close>

theorem registry_valid:
  assumes "wf_map (tab_tokenHandlers tab)"
  shows "(build_indexes uni tab = Inr r \<longleftrightarrow> tables_valid uni tab \<and> r = tables_index uni tab) \<and>
    (build_indexes uni tab = Inr r \<longrightarrow>
       (\<forall>h \<in> ex_handlerID ` set (map snd (executors r)) \<union> id_handlerID ` set (map snd (identities r)) \<union> pre_handlerID ` set (identityPrefixes r).
          \<exists>impl. mget (tab_tokenHandlers tab) h = Some impl \<and> th_ID impl = h)) \<and>
    buildRegistryIndexes uni = Inr registry"
proof -
  have "\<exists>impl. mget (tab_tokenHandlers tab) h = Some impl \<and> th_ID impl = h"
    if "tables_valid uni tab" "h \<in> ex_handlerID ` set (tab_executors tab) \<union> id_handlerID ` set (tab_identities tab) \<union> pre_handlerID ` set (tab_prefixes tab)"
    for h
    using implemented [OF that(1) assms] that by (auto simp: tables_valid_def)
  then show ?thesis
    by (auto simp: build_indexes_iff registry_built tables_index_def normal_prefix_def image_image)
qed

lemma registry_valid_witness:
  "\<exists>impl. mget (tokenHandlers (\<lambda>s. s)) (ex_handlerID kimiExecutorDefinition) = Some impl \<and> th_ID impl = HandlerStrictPassThrough"
proof -
  have "wf_map (tab_tokenHandlers (package_tables (\<lambda>s. s)))"
    by (simp add: package_tables_def wf_map_def mkeys_def tokenHandlers_def)
  from registry_valid [OF this, of "\<lambda>s. s" registry]
  have "\<forall>h \<in> ex_handlerID ` set (map snd (executors registry)). \<exists>impl. mget (tokenHandlers (\<lambda>s. s)) h = Some impl \<and> th_ID impl = h"
    using package_valid [of "\<lambda>s. s"] by (simp add: package_tables_def)
  moreover have "kimiExecutorDefinition \<in> set (map snd (executors registry))" "ex_handlerID kimiExecutorDefinition = HandlerStrictPassThrough"
    by (simp_all add: registry_def executorDefinitions_def comp_def kimiExecutorDefinition_def)
  ultimately show ?thesis by (metis imageI)
qed

text \<open>
  C19: Both resolvers always return a resolution, for any two strings, and only one that needs no further
  lookup after the identity; its handler is one of the five that are implemented; and the strength
  \<open>parser contract\<close>, which alone authorises corrections of the reported numbers, is given exactly
  to the fourteen executors of the table, compared after trimming and case folding.
\<close>

theorem resolver_total:
  "\<exists>r. ResolveIdentity uni e i = Inr r \<and> \<not> needsIdentity r \<and>
     mget (tokenHandlers uni) (handlerID r) \<noteq> None \<and>
     (evidenceStrength r = EvidenceParserContract \<longleftrightarrow>
        normalizeRegistryAlias uni e \<in> set (mkeys (executors registry)))"
proof -
  have impl: "mget (tokenHandlers uni) h \<noteq> None" if "h \<in> set handlerDefinitions" for h
    using that by (auto simp: handlerDefinitions_def)
  have known: "h \<in> set handlerDefinitions" if "h \<in> {HandlerStrictPassThrough, HandlerOpenAICompatibility}" for h
    using that by (auto simp: handlerDefinitions_def)
  let ?r = "resolve_identity_with uni registry e i"
  have "\<not> needsIdentity ?r \<and> handlerID ?r \<in> set handlerDefinitions \<and>
     (evidenceStrength ?r = EvidenceParserContract \<longleftrightarrow>
        mget (executors registry) (normalizeRegistryAlias uni e) \<noteq> None)"
    by (auto simp: resolve_identity_with_def resolveExecutor_def Let_def known
        dest: registered_handler identity_handler prefix_handler split: option.splits)
  then show ?thesis using impl by (auto simp: resolvers mget_None_iff)
qed

text \<open>The identity type of a resolution is kept for the logs only.\<close>

lemmas resolution_convs = handlerResolution.select_convs handlerResolution.update_convs
  normalizationContext.select_convs

lemma normalize_identityType:
  assumes "mget (tokenHandlers uni) h = Some handler"
  shows "th_Normalize handler \<lparr>nonNegative = nn, ctx_clamped = cs, resolution = r\<lparr>identityType := x\<rparr>\<rparr> =
         th_Normalize handler \<lparr>nonNegative = nn, ctx_clamped = cs, resolution = r\<rparr>"
proof -
  note cache = normalizeNonClaudeCacheRead_def
  have "th_Normalize handler \<in> {claude_Normalize, gemini_Normalize, responses_Normalize uni, strict_Normalize,
      openai_Normalize}"
    using assms by (cases h) auto
  moreover have "claude_Normalize \<lparr>nonNegative = nn, ctx_clamped = cs, resolution = r\<lparr>identityType := x\<rparr>\<rparr> =
      claude_Normalize \<lparr>nonNegative = nn, ctx_clamped = cs, resolution = r\<rparr>"
    by (cases r) (simp only: claude_Normalize_def claude_fold_input_def
        claudeIdentityProvesLegacyMissingCache_def resolution_convs)
  moreover have "gemini_Normalize \<lparr>nonNegative = nn, ctx_clamped = cs, resolution = r\<lparr>identityType := x\<rparr>\<rparr> =
      gemini_Normalize \<lparr>nonNegative = nn, ctx_clamped = cs, resolution = r\<rparr>"
    by (cases r) (simp only: gemini_Normalize_def gemini_decide_def
        shouldFoldGeminiIdentityReasoning_def cache resolution_convs)
  moreover have "responses_Normalize uni \<lparr>nonNegative = nn, ctx_clamped = cs, resolution = r\<lparr>identityType := x\<rparr>\<rparr> =
      responses_Normalize uni \<lparr>nonNegative = nn, ctx_clamped = cs, resolution = r\<rparr>"
    by (cases r) (simp only: responses_Normalize_def matchesLegacyCodexCachedOnlyShape_def cache resolution_convs)
  moreover have "strict_Normalize \<lparr>nonNegative = nn, ctx_clamped = cs, resolution = r\<lparr>identityType := x\<rparr>\<rparr> =
      strict_Normalize \<lparr>nonNegative = nn, ctx_clamped = cs, resolution = r\<rparr>"
    by (cases r) (simp only: strict_Normalize_def cache resolution_convs)
  moreover have "openai_Normalize \<lparr>nonNegative = nn, ctx_clamped = cs, resolution = r\<lparr>identityType := x\<rparr>\<rparr> =
      openai_Normalize \<lparr>nonNegative = nn, ctx_clamped = cs, resolution = r\<rparr>"
  proof -
    let ?c = "\<lambda>r. \<lparr>nonNegative = nn, ctx_clamped = cs, resolution = r\<rparr>"
    have "normalizeNonClaudeCacheRead (?c (r\<lparr>identityType := x\<rparr>)) = normalizeNonClaudeCacheRead (?c r)"
      by (cases r) (simp only: cache resolution_convs)
    moreover have "apply_rules openAICompatibilityRules (?c (r\<lparr>identityType := x\<rparr>)) s =
        apply_rules openAICompatibilityRules (?c r) s" for s
      by (cases s, cases r) (simp only: openAICompatibilityRules_def apply_rules.simps
          compatibilityRule.select_convs issue272_Match_def issue272_Apply_def resolution_convs)
    ultimately show ?thesis by (simp only: openai_Normalize_def)
  qed
  ultimately show ?thesis by auto
qed

lemma reconcile_identityType:
  "reconcileFinalTotal tokens auth cs (r\<lparr>identityType := x\<rparr>) = reconcileFinalTotal tokens auth cs r"
  by (cases r) (simp only: reconcileFinalTotal_def reconcileCanonicalTotal_def
      reconcileCanonicalConflictWithZeroFallback_def reconcileZeroOnlyTotal_def resolution_convs)

lemma process_identityType:
  assumes "mget (tokenHandlers uni) (handlerID r) \<noteq> None"
  shows "Process uni values (Some (r\<lparr>identityType := x\<rparr>)) = Process uni values (Some r)"
  using assms
  by (auto simp: Process_def process_with_def normalize_identityType reconcile_identityType split: option.split prod.split)

text \<open>
  A registered executor settles the protocol: whatever identity is stored with the event, the tokens,
  the audit trail and the outcome are those of the executor alone.
\<close>

lemma executor_beats_identity:
  assumes "normalizeRegistryAlias uni e \<in> set (mkeys (executors registry))"
    and "ResolveExecutor uni e = Inr r" and "ResolveIdentity uni e i = Inr r'"
  shows "Process uni values (Some r') = Process uni values (Some r)"
proof -
  obtain d where d: "mget (executors registry) (normalizeRegistryAlias uni e) = Some d"
    using assms(1) mget_None_iff [of "executors registry" "normalizeRegistryAlias uni e"] by auto
  with assms have r': "r' = r\<lparr>identityType := go_trim_space i\<rparr>" and "handlerID r = ex_handlerID d"
    by (auto simp: resolvers resolve_identity_with_def resolveExecutor_def Let_def)
  moreover from this registered_handler [OF d] have "mget (tokenHandlers uni) (handlerID r) \<noteq> None"
    by (auto simp: handlerDefinitions_def)
  ultimately show ?thesis by (simp add: process_identityType)
qed

text \<open>
  An event whose executor is not registered keeps the positive total it reported, unless the stored
  identity is one of the two Claude names and the total is exactly the sum without the cache, the only shape in
  which an identity is evidence enough.
\<close>

lemma unregistered_executor_keeps_total:
  assumes "token_i64 values" and "0 < TotalTokens values"
    and "normalizeRegistryAlias uni e \<notin> set (mkeys (executors registry))"
    and "normalizeRegistryAlias uni i \<in> {''claude'', ''anthropic''} \<longrightarrow>
      TotalTokens values \<noteq> max 0 (InputTokens values) + max 0 (OutputTokens values)"
    and "ResolveIdentity uni e i = Inr r"
  shows "TotalTokens (res_Tokens (Process uni values (Some r))) = TotalTokens values"
proof (rule process_keeps_total [OF assms(1,2)])
  have "mget (executors registry) (normalizeRegistryAlias uni e) = None"
    using assms(3) by (simp add: mget_None_iff)
  then have r: "evidenceStrength r \<noteq> EvidenceParserContract"
    "handlerID r = HandlerClaude \<longrightarrow> normalizeRegistryAlias uni i \<in> {''claude'', ''anthropic''}"
    using assms(5) by (auto simp: resolvers resolve_identity_with_def resolveExecutor_def Let_def
        dest: identity_handler prefix_handler split: option.splits)
  then show "evidenceStrength r \<noteq> EvidenceParserContract" by simp
  show "handlerID r = HandlerClaude \<longrightarrow>
      TotalTokens values \<noteq> max 0 (InputTokens values) + max 0 (OutputTokens values)"
    using r assms(4) by blast
qed

end
