(* ===== verification/ActivityGrain.thy ===== *)
theory ActivityGrain
  imports GoTime "HOL-Library.Signed_Division"
begin

text \<open>
  \<open>internal/activity/grain.go\<close>: the four families of half-open time buckets behind the activity
  heat maps.  Every number is an \<open>int64\<close>, so products and sums wrap around; the correction loops of
  the source are \<open>partial_function\<close>s, so that a loop that does not end would be \<open>None\<close>.
\<close>

section \<open>Grains and buckets\<close>

datatype UsageActivityGrain =
    UsageActivityGrainShort | UsageActivityGrainMedium | UsageActivityGrainLong | UsageActivityGrainDaily
  | UsageActivityGrainOther string

record Bucket =
  bk_Start :: gtime
  bk_End :: gtime

text \<open>Besides the error value of the source, an integer division by zero is a panic.\<close>

datatype grain_error = UnsupportedGrain UsageActivityGrain | DivideByZeroPanic

abbreviation HeatmapBlocks :: int where "HeatmapBlocks \<equiv> 364"
abbreviation mediumWindowSeconds :: int where "mediumWindowSeconds \<equiv> 604800"
abbreviation longWindowSeconds :: int where "longWindowSeconds \<equiv> 2592000"

definition fixedWindowSeconds :: "UsageActivityGrain \<Rightarrow> grain_error + int" where
  "fixedWindowSeconds grain =
     (case grain of
        UsageActivityGrainMedium \<Rightarrow> Inr mediumWindowSeconds
      | UsageActivityGrainLong \<Rightarrow> Inr longWindowSeconds
      | _ \<Rightarrow> Inl (UnsupportedGrain grain))"

text \<open>Go's integer division truncates; the divisors the program uses are positive.\<close>

definition floorDiv :: "int \<Rightarrow> int \<Rightarrow> int" where
  "floorDiv v divisor =
     (let quotient = wrap64 (v sdiv divisor); remainder = v smod divisor in
      if remainder < 0 then wrap64 (quotient - 1) else quotient)"

definition fixedBoundary :: "int \<Rightarrow> int \<Rightarrow> gtime" where
  "fixedBoundary windowSeconds index = time_unix (floorDiv (wrap64 (index * windowSeconds)) HeatmapBlocks)"

definition fixedBucket :: "int \<Rightarrow> int \<Rightarrow> Bucket" where
  "fixedBucket windowSeconds index =
     \<lparr>bk_Start = fixedBoundary windowSeconds index, bk_End = fixedBoundary windowSeconds (wrap64 (index + 1))\<rparr>"

text \<open>The two correction loops, shared by the fixed and the calendar boundaries.\<close>

partial_function (option) index_up :: "(int \<Rightarrow> bool) \<Rightarrow> (int \<Rightarrow> gtime) \<Rightarrow> gtime \<Rightarrow> int \<Rightarrow> int option" where
  "index_up cond boundary t index =
     (if cond index \<and> \<not> t < boundary (wrap64 (index + 1))
      then index_up cond boundary t (wrap64 (index + 1)) else Some index)"

partial_function (option) index_down :: "(int \<Rightarrow> bool) \<Rightarrow> (int \<Rightarrow> gtime) \<Rightarrow> gtime \<Rightarrow> int \<Rightarrow> int option" where
  "index_down cond boundary t index =
     (if cond index \<and> t < boundary index
      then index_down cond boundary t (wrap64 (index - 1)) else Some index)"

declare index_up.simps [code] index_down.simps [code]

definition fixedBucketIndex :: "gtime \<Rightarrow> int \<Rightarrow> int option" where
  "fixedBucketIndex timestamp windowSeconds =
     (let index = floorDiv (wrap64 (unix timestamp * HeatmapBlocks)) windowSeconds in
      Option.bind (index_up (\<lambda>_. True) (fixedBoundary windowSeconds) timestamp index)
        (\<lambda>index. index_down (\<lambda>_. True) (fixedBoundary windowSeconds) timestamp index))"

definition calendarBoundary :: "gtime \<Rightarrow> int \<Rightarrow> int \<Rightarrow> gtime" where
  "calendarBoundary dayStart windowSeconds index =
     (let seconds = floorDiv (wrap64 (index * windowSeconds)) HeatmapBlocks
      in time_unix (wrap64 (unix dayStart + seconds)))"

definition calendarBucket :: "gtime \<Rightarrow> int \<Rightarrow> int \<Rightarrow> Bucket" where
  "calendarBucket dayStart windowSeconds index =
     \<lparr>bk_Start = calendarBoundary dayStart windowSeconds index,
      bk_End = calendarBoundary dayStart windowSeconds (wrap64 (index + 1))\<rparr>"

text \<open>
  \<open>timeutil.NormalizeStorageTime\<close> moves an instant to the process's time zone, the argument \<open>z\<close>;
  the instant stays what it is, so in the model it only decides which calendar is meant.
\<close>

definition shortBucketForTimestamp :: "zone \<Rightarrow> gtime \<Rightarrow> (grain_error + Bucket) option" where
  "shortBucketForTimestamp z timestamp =
     (let dayStart = midnight z (local_day z timestamp);
          dayEnd = add_days z dayStart 1;
          windowSeconds = wrap64 (unix dayEnd - unix dayStart)
      in if windowSeconds = 0 then Some (Inl DivideByZeroPanic)
         else
           let index = floorDiv (wrap64 (wrap64 (unix timestamp - unix dayStart) * HeatmapBlocks)) windowSeconds
           in Option.bind (index_up (\<lambda>i. wrap64 (i + 1) < HeatmapBlocks) (calendarBoundary dayStart windowSeconds)
                    timestamp index) (\<lambda>index.
              Option.bind (index_down (\<lambda>i. i > 0) (calendarBoundary dayStart windowSeconds)
                    timestamp index) (\<lambda>index.
              Some (Inr (calendarBucket dayStart windowSeconds index)))))"

definition dailyBucket :: "zone \<Rightarrow> gtime \<Rightarrow> Bucket" where
  "dailyBucket z timestamp =
     (let start = midnight z (local_day z timestamp) in \<lparr>bk_Start = start, bk_End = add_days z start 1\<rparr>)"

definition BucketForTimestamp :: "zone \<Rightarrow> UsageActivityGrain \<Rightarrow> gtime \<Rightarrow> (grain_error + Bucket) option" where
  "BucketForTimestamp z grain timestamp =
     (if grain = UsageActivityGrainShort then shortBucketForTimestamp z timestamp
      else if grain = UsageActivityGrainDaily then Some (Inr (dailyBucket z timestamp))
      else case fixedWindowSeconds grain of
             Inl e \<Rightarrow> Some (Inl e)
           | Inr windowSeconds \<Rightarrow>
               map_option (\<lambda>index. Inr (fixedBucket windowSeconds index))
                 (fixedBucketIndex timestamp windowSeconds))"

section \<open>Windows of 364 buckets\<close>

text \<open>The loop of the short window fills the slice from its last slot to its first.\<close>

fun short_window_loop :: "zone \<Rightarrow> nat \<Rightarrow> gtime \<Rightarrow> Bucket list \<Rightarrow> (grain_error + Bucket list) option" where
  "short_window_loop z 0 cursor acc = Some (Inr acc)"
| "short_window_loop z (Suc n) cursor acc =
     (case shortBucketForTimestamp z (t_add cursor (- 1)) of
        None \<Rightarrow> None
      | Some (Inl e) \<Rightarrow> Some (Inl e)
      | Some (Inr bucket) \<Rightarrow> short_window_loop z n (bk_Start bucket) (bucket # acc))"

definition shortWindowEndingAt :: "zone \<Rightarrow> gtime \<Rightarrow> (grain_error + Bucket list) option" where
  "shortWindowEndingAt z referenceEnd =
     (case shortBucketForTimestamp z referenceEnd of
        None \<Rightarrow> None
      | Some (Inl e) \<Rightarrow> Some (Inl e)
      | Some (Inr containing) \<Rightarrow>
          (let cursor = (if referenceEnd \<noteq> bk_Start containing then bk_End containing else bk_Start containing)
           in short_window_loop z (nat HeatmapBlocks) cursor []))"

definition dailyWindow :: "zone \<Rightarrow> gtime \<Rightarrow> Bucket list" where
  "dailyWindow z referenceEnd =
     (let end0 = midnight z (local_day z referenceEnd);
          stop = (if referenceEnd \<noteq> end0 then add_days z end0 1 else end0);
          start = add_days z stop (- HeatmapBlocks)
      in map (\<lambda>index. let bucketStart = add_days z start index
                      in \<lparr>bk_Start = bucketStart, bk_End = add_days z bucketStart 1\<rparr>) [0..HeatmapBlocks - 1])"

definition WindowEndingAt :: "zone \<Rightarrow> UsageActivityGrain \<Rightarrow> gtime \<Rightarrow> (grain_error + Bucket list) option" where
  "WindowEndingAt z grain referenceEnd =
     (if grain = UsageActivityGrainShort then shortWindowEndingAt z referenceEnd
      else if grain = UsageActivityGrainDaily then Some (Inr (dailyWindow z referenceEnd))
      else case fixedWindowSeconds grain of
             Inl e \<Rightarrow> Some (Inl e)
           | Inr windowSeconds \<Rightarrow>
               map_option (\<lambda>index.
                   let containing = fixedBucket windowSeconds index;
                       endIndex = (if referenceEnd \<noteq> bk_Start containing then wrap64 (index + 1) else index);
                       startIndex = wrap64 (endIndex - HeatmapBlocks)
                   in Inr (map (\<lambda>offset. fixedBucket windowSeconds (wrap64 (startIndex + offset)))
                                [0..HeatmapBlocks - 1]))
                 (fixedBucketIndex referenceEnd windowSeconds))"

section \<open>Arithmetic of the boundaries\<close>

lemma div_between:
  fixes v d :: int
  assumes "0 < d"
  shows "0 \<le> v \<Longrightarrow> 0 \<le> v div d \<and> v div d \<le> v" and "v < 0 \<Longrightarrow> v \<le> v div d \<and> v div d < 0"
proof -
  have e: "v = d * (v div d) + v mod d" "0 \<le> v mod d" "v mod d < d" using assms by simp_all
  show "0 \<le> v div d \<and> v div d \<le> v" if "0 \<le> v"
    using that assms by (simp add: pos_imp_zdiv_nonneg_iff int_div_less_self div_le_dividend zdiv_mono2 [of v 1 d, simplified])
  show "v \<le> v div d \<and> v div d < 0" if "v < 0"
  proof
    show neg: "v div d < 0" using that assms by (simp add: neg_imp_zdiv_neg_iff pos_imp_zdiv_neg_iff)
    show "v \<le> v div d" using zdiv_mono2_neg [of v 1 d] that assms by simp
  qed
qed

lemma floorDiv_div:
  assumes "i64 v" and "0 < d"
  shows "floorDiv v d = v div d"
proof -
  let ?b = "of_bool (sgn v \<noteq> 1 \<and> \<not> d dvd v) :: int"
  have q: "v sdiv d = v div d + ?b" using assms(2) by (simp add: signed_divide_int_eq_divide_int)
  have neg: "v smod d < 0 \<longleftrightarrow> sgn v \<noteq> 1 \<and> \<not> d dvd v"
  proof -
    have "v smod d = sgn v * (\<bar>v\<bar> mod d)" using assms(2) by (simp add: signed_modulo_int_def)
    moreover have "\<bar>v\<bar> mod d = 0 \<longleftrightarrow> d dvd v" by (simp add: dvd_eq_mod_eq_0 [symmetric])
    moreover have "0 \<le> \<bar>v\<bar> mod d" using assms(2) by simp
    ultimately show ?thesis by (cases "v > 0"; cases "v = 0") (auto simp: less_le)
  qed
  have "?b = 1 \<Longrightarrow> v < 0" by (auto simp: sgn_if of_bool_def split: if_splits)
  moreover have "?b = 0 \<or> ?b = 1" by auto
  ultimately have r: "i64 (v sdiv d)" "i64 (v div d)"
    unfolding q using assms(1) div_between [OF assms(2), of v] unfolding i64_def by linarith+
  show ?thesis
    unfolding floorDiv_def Let_def wrap64_id [OF r(1)] using q neg r by (auto simp: wrap64_id)
qed

text \<open>The boundary of index \<open>i\<close> in seconds, and the estimate of the index of a second \<open>x\<close>.\<close>

definition bound :: "int \<Rightarrow> int \<Rightarrow> int" where
  "bound w i = (i * w) div 364"

lemma bound_le_iff: "bound w i \<le> x \<longleftrightarrow> i * w < (x + 1) * 364"
proof -
  have "i * w = 364 * bound w i + (i * w) mod 364" "0 \<le> (i * w) mod 364" "(i * w) mod 364 < 364"
    by (simp_all add: bound_def)
  note e = this
  show ?thesis unfolding distrib_right mult_1_left
  proof
    show "i * w < x * 364 + 364" if "bound w i \<le> x" using that e by linarith
    show "bound w i \<le> x" if "i * w < x * 364 + 364" using that e by linarith
  qed
qed

lemma bound_mono: "0 < w \<Longrightarrow> i \<le> j \<Longrightarrow> bound w i \<le> bound w j"
  by (simp add: bound_def zdiv_mono1)

lemma bound_364 [simp]: "bound w 364 = w" and bound_0 [simp]: "bound w 0 = 0"
  by (simp_all add: bound_def)

lemma bound_step:
  assumes "364 \<le> w"
  shows "bound w i < bound w (i + 1)"
proof -
  have "bound w i + 1 = (i * w + 364) div 364" by (simp add: bound_def)
  also have "\<dots> \<le> bound w (i + 1)" unfolding bound_def using assms
    by (intro zdiv_mono1) (simp_all add: algebra_simps)
  finally show ?thesis by simp
qed

lemma bound_unique:
  assumes "0 < w" and "bound w i \<le> x" "x < bound w (i + 1)" and "bound w j \<le> x" "x < bound w (j + 1)"
  shows "i = j"
proof (rule ccontr)
  assume "i \<noteq> j"
  then consider "i + 1 \<le> j" | "j + 1 \<le> i" by linarith
  then show False using assms bound_mono [OF assms(1)] by cases (meson leD le_less_trans less_le_trans)+
qed

lemma estimate:
  assumes "0 < w"
  shows "bound w ((x * 364) div w) \<le> x" and "x \<le> bound w ((x * 364) div w + 1)"
proof -
  let ?i = "(x * 364) div w"
  have e: "x * 364 = w * ?i + (x * 364) mod w" "0 \<le> (x * 364) mod w" "(x * 364) mod w < w"
    using assms by simp_all
  have c: "?i * w = w * ?i" "(?i + 1) * w = w * ?i + w" "(x + 1) * 364 = x * 364 + 364"
    by (simp_all add: algebra_simps)
  show "bound w ?i \<le> x" unfolding bound_le_iff c using e by linarith
  have "bound w (?i + 1) \<le> x - 1 \<longleftrightarrow> w * ?i + w < x * 364"
    unfolding bound_le_iff c by simp
  moreover have "\<not> w * ?i + w < x * 364" using e by linarith
  ultimately show "x \<le> bound w (?i + 1)" by linarith
qed

text \<open>How \<open>index_up\<close> and \<open>index_down\<close> run when no sum wraps around.\<close>

lemma index_up_stop: "\<not> (cond i \<and> \<not> t < boundary (wrap64 (i + 1))) \<Longrightarrow> index_up cond boundary t i = Some i"
  by (subst index_up.simps) metis

lemma index_up_go: "cond i \<Longrightarrow> \<not> t < boundary (wrap64 (i + 1)) \<Longrightarrow>
   index_up cond boundary t i = index_up cond boundary t (wrap64 (i + 1))"
  by (subst index_up.simps) simp

lemma index_down_stop: "\<not> t < boundary i \<Longrightarrow> index_down cond boundary t i = Some i"
  by (subst index_down.simps) simp

section \<open>Fixed windows\<close>

text \<open>Instants within about 300 million years of the epoch, for which no product overflows.\<close>

definition time_ok :: "gtime \<Rightarrow> bool" where
  "time_ok t \<longleftrightarrow> - 10000000000000000 \<le> unix t \<and> unix t \<le> 10000000000000000"

definition index_ok :: "int \<Rightarrow> int \<Rightarrow> bool" where
  "index_ok w i \<longleftrightarrow> - 4000000000000000000 \<le> i * w \<and> i * w \<le> 4000000000000000000"

definition fixed_window :: "int \<Rightarrow> bool" where
  "fixed_window w \<longleftrightarrow> w = mediumWindowSeconds \<or> w = longWindowSeconds"

lemma index_ok_i64:
  assumes "fixed_window w" and "index_ok w i"
  shows "i64 (i * w)" "wrap64 (i + 1) = i + 1" "wrap64 i = i" "wrap64 (i - 364) = i - 364"
  using assms by (auto simp: fixed_window_def index_ok_def i64_def intro!: wrap64_id)

lemma fixedBoundary_bound: "fixed_window w \<Longrightarrow> index_ok w i \<Longrightarrow> fixedBoundary w i = time_unix (bound w i)"
  using index_ok_i64(1) [of w i] by (simp add: fixedBoundary_def wrap64_id floorDiv_div bound_def)

lemma fixedBucketIndex_spec:
  assumes w: "fixed_window w" and t: "time_ok t"
  shows "\<exists>i. fixedBucketIndex t w = Some i \<and> index_ok w i \<and> index_ok w (i + 1) \<and>
    bound w i \<le> unix t \<and> unix t < bound w (i + 1)"
proof -
  let ?x = "unix t" and ?fb = "fixedBoundary w"
  define i where "i = (?x * 364) div w"
  have x: "-10000000000000000 \<le> ?x" "?x \<le> 10000000000000000" using t by (simp_all add: time_ok_def)
  have wc: "604800 \<le> w" "w \<le> 2592000" using w by (auto simp: fixed_window_def)
  have "i64 (?x * 364)" using x by (simp add: i64_def)
  then have fd: "floorDiv (wrap64 (?x * HeatmapBlocks)) w = i"
    using wc by (simp add: wrap64_id floorDiv_div i_def)
  have e: "?x * 364 = i * w + (?x * 364) mod w" "0 \<le> (?x * 364) mod w" "(?x * 364) mod w < w"
    using wc by (simp_all add: i_def)
  have ok: "index_ok w i" "index_ok w (i + 1)" "index_ok w (i + 1 + 1)"
    unfolding index_ok_def distrib_right mult_1_left using e x wc by linarith+
  note est = estimate [of w ?x, folded i_def]
  have w0: "0 < w" "364 \<le> w" using wc by simp_all
  have step: "bound w (i + 1) < bound w (i + 1 + 1)" by (rule bound_step [OF w0(2)])
  show ?thesis
  proof (cases "?x < bound w (i + 1)")
    case True
    then have "t < ?fb (i + 1)" "\<not> t < ?fb i"
      using est(1) w0 by (simp_all add: fixedBoundary_bound [OF w] ok less_time_unix_iff)
    then have "fixedBucketIndex t w = Some i"
      by (simp add: fixedBucketIndex_def fd index_up_stop index_down_stop index_ok_i64 [OF w ok(1)])
    with True est(1) ok w0 show ?thesis by auto
  next
    case False
    with est(2) w0 have x: "?x = bound w (i + 1)" by simp
    have "\<not> t < ?fb (i + 1)"
      unfolding fixedBoundary_bound [OF w ok(2)] less_time_unix_iff using x by simp
    moreover have "t < ?fb (i + 1 + 1)"
      unfolding fixedBoundary_bound [OF w ok(3)] less_time_unix_iff using x step by simp
    ultimately have "fixedBucketIndex t w = Some (i + 1)"
      unfolding fixedBucketIndex_def fd Let_def
      by (simp only: index_up_go index_up_stop index_down_stop index_ok_i64 [OF w ok(1)]
          index_ok_i64 [OF w ok(2)] simp_thms not_False_eq_True Option.bind.bind_lunit)
    with x step ok show ?thesis by auto
  qed
qed

section \<open>Calendar buckets\<close>

text \<open>
  What the calendar needs of the zone: days as in \<open>zone_days\<close>, none longer than two times 24 hours.
\<close>

definition zone_ok :: "zone \<Rightarrow> bool" where
  "zone_ok z \<longleftrightarrow> zone_days z \<and> (\<forall>d. midnight z (d + 1) - midnight z d \<le> 48 * Hour)"

lemma zone_ok_fixed_zone: "zone_ok (fixed_zone off)"
  by (simp add: zone_ok_def zone_days_fixed_zone midnight_fixed_zone time_unix_def)

lemma day_seconds:
  assumes "zone_ok z" and "local_day z t = d"
  obtains s w where "midnight z d = time_unix s" "add_days z (midnight z d) 1 = time_unix (s + w)"
    "midnight z (d + 1) = time_unix (s + w)" "0 < w" "w \<le> 172800" "s \<le> unix t" "unix t < s + w"
proof -
  obtain s e where se: "midnight z d = time_unix s" "midnight z (d + 1) = time_unix e"
    using midnight_unix by meson
  have z: "zone_days z" and long: "midnight z (d + 1) - midnight z d \<le> 48 * Hour"
    using assms(1) by (simp_all add: zone_ok_def)
  have "midnight z d < midnight z (d + 1)" using z by (simp only: zone_days_def)
  then have "s < e" by (simp add: se)
  moreover have "e - s \<le> 172800" using long by (simp add: se time_unix_def)
  moreover have "midnight z d \<le> t" "t < midnight z (d + 1)"
    using midnight_le_day [OF z, of t] day_less_midnight [OF z, of t] by (simp_all add: assms(2))
  then have "s \<le> unix t" "unix t < e" by (simp_all add: se time_unix_le_iff less_time_unix_iff)
  ultimately show ?thesis
    using se add_days_midnight [OF z, of d 1] by (intro that [of s "e - s"]) simp_all
qed

lemma calendarBoundary_bound:
  assumes "- 20000000000000000 \<le> s" "s \<le> 20000000000000000" and "0 < w" "w \<le> 172800" and "0 \<le> i" "i \<le> 364"
  shows "calendarBoundary (time_unix s) w i = time_unix (s + bound w i)"
proof -
  have "i * w \<le> 364 * 172800" using mult_mono [of i 364 w 172800] assms by simp
  moreover have "0 \<le> i * w" using assms by simp
  ultimately have "i64 (i * w)" by (simp add: i64_def)
  moreover have "0 \<le> bound w i" "bound w i \<le> w"
    using bound_mono [of w 0 i] bound_mono [of w i 364] assms by simp_all
  then have "i64 (s + bound w i)" using assms unfolding i64_def by linarith
  ultimately show ?thesis by (simp add: calendarBoundary_def wrap64_id floorDiv_div bound_def)
qed

lemma index_up_calendar:
  assumes B: "\<And>i. 0 \<le> i \<Longrightarrow> i \<le> 364 \<Longrightarrow> B i = time_unix (s + bound w i)"
    and x: "unix t - s < w" and "0 \<le> i" "i < 364" and "bound w i \<le> unix t - s"
  shows "\<exists>j. index_up (\<lambda>i. wrap64 (i + 1) < HeatmapBlocks) B t i = Some j \<and> 0 \<le> j \<and> j < 364 \<and>
    bound w j \<le> unix t - s \<and> unix t - s < bound w (j + 1)"
  using assms(3-5)
proof (induction "nat (364 - i)" arbitrary: i)
  case (Suc n)
  have wr: "wrap64 (i + 1) = i + 1" using Suc.prems by (intro wrap64_id) (simp add: i64_def)
  have Bi: "t < B (i + 1) \<longleftrightarrow> unix t - s < bound w (i + 1)"
    using B [of "i + 1"] Suc.prems by (simp add: less_time_unix_iff less_diff_eq diff_less_eq add.commute)
  show ?case
  proof (cases "unix t - s < bound w (i + 1)")
    case True
    then have "index_up (\<lambda>i. wrap64 (i + 1) < HeatmapBlocks) B t i = Some i"
      by (intro index_up_stop) (simp add: wr Bi)
    then show ?thesis using True Suc.prems by blast
  next
    case False
    have "i + 1 \<noteq> 364"
    proof
      assume "i + 1 = 364"
      then have "bound w (i + 1) = w" by simp
      with False x show False by simp
    qed
    then have lt: "i + 1 < 364" using Suc.prems by linarith
    have "index_up (\<lambda>i. wrap64 (i + 1) < HeatmapBlocks) B t i =
        index_up (\<lambda>i. wrap64 (i + 1) < HeatmapBlocks) B t (i + 1)"
      using index_up_go [of "\<lambda>i. wrap64 (i + 1) < HeatmapBlocks" i t B] False lt by (simp add: wr Bi)
    moreover have "n = nat (364 - (i + 1))" using Suc.hyps(2) by linarith
    ultimately show ?thesis using Suc.hyps(1) [of "i + 1"] Suc.prems lt False by simp
  qed
qed simp

lemma shortBucket_spec:
  assumes z: "zone_ok z" and t: "time_ok t" and d: "local_day z t = d"
    and s: "midnight z d = time_unix s" and w: "midnight z (d + 1) = time_unix (s + w)"
  shows "\<exists>j. shortBucketForTimestamp z t =
      Some (Inr \<lparr>bk_Start = time_unix (s + bound w j), bk_End = time_unix (s + bound w (j + 1))\<rparr>) \<and>
    0 \<le> j \<and> j < 364 \<and> bound w j \<le> unix t - s \<and> unix t - s < bound w (j + 1)"
proof -
  obtain s' w' where sw': "midnight z d = time_unix s'" "add_days z (midnight z d) 1 = time_unix (s' + w')"
    "midnight z (d + 1) = time_unix (s' + w')" "0 < w'" "w' \<le> 172800" "s' \<le> unix t" "unix t < s' + w'"
    by (rule day_seconds [OF z d])
  then have sw: "add_days z (midnight z d) 1 = time_unix (s + w)" "0 < w" "w \<le> 172800" "s \<le> unix t" "unix t < s + w"
    using s w by simp_all
  let ?x = "unix t - s" and ?i = "((unix t - s) * 364) div w"
  have sb: "- 20000000000000000 \<le> s" "s \<le> 20000000000000000"
    using t sw unfolding time_ok_def by linarith+
  have "i64 w" "i64 ?x" "i64 (?x * 364)" using sw by (simp_all add: i64_def)
  then have fd: "floorDiv (wrap64 (wrap64 ?x * HeatmapBlocks)) w = ?i" and w64: "wrap64 w = w"
    using sw by (simp_all add: wrap64_id floorDiv_div)
  note B = calendarBoundary_bound [OF sb sw(2,3)]
  have i: "0 \<le> ?i" "?i < 364"
  proof -
    show "0 \<le> ?i" using sw by (simp add: pos_imp_zdiv_nonneg_iff)
    have "?x * 364 \<le> 364 * w - 1" using sw by simp
    then have "?i \<le> (364 * w - 1) div w" using sw by (intro zdiv_mono1)
    also have "\<dots> = 363" using sw by (intro int_div_pos_eq [of _ _ _ "w - 1"]) simp_all
    finally show "?i < 364" by simp
  qed
  obtain j where j: "index_up (\<lambda>i. wrap64 (i + 1) < HeatmapBlocks) (calendarBoundary (time_unix s) w) t ?i = Some j"
    "0 \<le> j" "j < 364" "bound w j \<le> ?x" "?x < bound w (j + 1)"
    using index_up_calendar [of "calendarBoundary (time_unix s) w" s w t ?i, OF B] i estimate(1) [of w ?x] sw by auto
  have "\<not> t < calendarBoundary (time_unix s) w j"
    using j B [of j] by (simp add: less_time_unix_iff)
  moreover have "wrap64 (j + 1) = j + 1" using j by (intro wrap64_id) (simp add: i64_def)
  ultimately have "shortBucketForTimestamp z t =
      Some (Inr \<lparr>bk_Start = time_unix (s + bound w j), bk_End = time_unix (s + bound w (j + 1))\<rparr>)"
    using j sw by (simp add: shortBucketForTimestamp_def d s sw(1) Let_def fd w64 index_down_stop calendarBucket_def B)
  with j show ?thesis by blast
qed

section \<open>Buckets as a partition of time\<close>

text \<open>
  What every family of buckets promises: an instant of the supported range lies in its bucket, all
  instants of a bucket have that bucket, and no bucket is longer than two days.  The contract alone
  gives that neighbouring buckets meet without gap or overlap.
\<close>

locale bucketing =
  fixes bucket_of :: "'z \<Rightarrow> gtime \<Rightarrow> Bucket option" and ok :: "'z \<Rightarrow> bool"
  assumes bucket_exists: "ok z \<Longrightarrow> time_ok t \<Longrightarrow>
      \<exists>b. bucket_of z t = Some b \<and> bk_Start b \<le> t \<and> t < bk_End b"
    and bucket_shared: "ok z \<Longrightarrow> time_ok t \<Longrightarrow> time_ok t' \<Longrightarrow> bucket_of z t = Some b \<Longrightarrow>
      bk_Start b \<le> t' \<Longrightarrow> t' < bk_End b \<Longrightarrow> bucket_of z t' = Some b"
    and bucket_short: "ok z \<Longrightarrow> time_ok t \<Longrightarrow> bucket_of z t = Some b \<Longrightarrow> bk_End b - bk_Start b \<le> 48 * Hour"
begin

lemma bucket_contains: "ok z \<Longrightarrow> time_ok t \<Longrightarrow> bucket_of z t = Some b \<Longrightarrow> bk_Start b \<le> t \<and> t < bk_End b"
  using bucket_exists by fastforce

lemma starts_after:
  assumes "ok z" and "time_ok c" "time_ok (c - 1)"
    and "bucket_of z c = Some b" "bk_Start b = c" and b': "bucket_of z (c - 1) = Some b'"
  shows "bk_End b' = c"
proof (rule ccontr)
  assume ne: "bk_End b' \<noteq> c"
  note in_b' = bucket_contains [OF assms(1,3) b']
  with ne have "bk_Start b' \<le> c" "c < bk_End b'" by linarith+
  then have "b' = b" using bucket_shared [OF assms(1,3,2) b'] assms(4) by simp
  with in_b' assms(5) show False by simp
qed

lemma ends_before:
  assumes z: "ok z" and t: "time_ok t" and e: "time_ok (bk_End b)"
    and b: "bucket_of z t = Some b" and b': "bucket_of z (bk_End b) = Some b'"
  shows "bk_Start b' = bk_End b"
proof (rule ccontr)
  assume ne: "bk_Start b' \<noteq> bk_End b"
  note in_b = bucket_contains [OF z t b] and in_b' = bucket_contains [OF z e b']
  let ?p = "bk_End b - 1"
  have p: "t \<le> ?p" "bk_Start b' \<le> ?p" using in_b in_b' ne by linarith+
  have "unix t \<le> unix ?p" "unix ?p \<le> unix (bk_End b)" using p by (simp_all add: unix_def zdiv_mono1)
  with t e have ok: "time_ok ?p" unfolding time_ok_def by linarith
  have "bucket_of z ?p = Some b" "bucket_of z ?p = Some b'"
    using bucket_shared [OF z t ok b] bucket_shared [OF z e ok b'] p in_b in_b' by simp_all
  with in_b' show False by simp
qed

end

text \<open>A run of neighbouring buckets, each of them the bucket of its own start.\<close>

definition tiles :: "(gtime \<Rightarrow> Bucket option) \<Rightarrow> Bucket list \<Rightarrow> bool" where
  "tiles f bs \<longleftrightarrow> (\<forall>b \<in> set bs. f (bk_Start b) = Some b) \<and> successively (\<lambda>a b. bk_End a = bk_Start b) bs"

definition bucket_of_grain :: "UsageActivityGrain \<Rightarrow> zone \<Rightarrow> gtime \<Rightarrow> Bucket option" where
  "bucket_of_grain grain z t = (case BucketForTimestamp z grain t of Some (Inr b) \<Rightarrow> Some b | _ \<Rightarrow> None)"

lemma bucket_of_grain_iff: "bucket_of_grain grain z t = Some b \<longleftrightarrow> BucketForTimestamp z grain t = Some (Inr b)"
  by (auto simp: bucket_of_grain_def split: option.splits sum.splits)

lemma bucket_of_fixed:
  "bucket_of_grain UsageActivityGrainMedium =
     (\<lambda>z t. map_option (fixedBucket mediumWindowSeconds) (fixedBucketIndex t mediumWindowSeconds))"
  "bucket_of_grain UsageActivityGrainLong =
     (\<lambda>z t. map_option (fixedBucket longWindowSeconds) (fixedBucketIndex t longWindowSeconds))"
  by (auto simp: fun_eq_iff bucket_of_grain_def BucketForTimestamp_def fixedWindowSeconds_def split: option.split)

lemma fixedBucket_bounds:
  assumes "fixed_window w" "index_ok w i" "index_ok w (i + 1)"
  shows "fixedBucket w i = \<lparr>bk_Start = time_unix (bound w i), bk_End = time_unix (bound w (i + 1))\<rparr>"
  by (simp add: fixedBucket_def index_ok_i64 [OF assms(1,2)] fixedBoundary_bound assms)

lemma fixed_bucketing:
  assumes "fixed_window w"
  shows "bucketing (\<lambda>z t. map_option (fixedBucket w) (fixedBucketIndex t w)) ok"
proof
  have w0: "0 < w" using assms by (auto simp: fixed_window_def)
  fix z :: 'a and t t' b
  assume t: "time_ok t"
  obtain i where i: "fixedBucketIndex t w = Some i" "index_ok w i" "index_ok w (i + 1)"
    "bound w i \<le> unix t" "unix t < bound w (i + 1)"
    using fixedBucketIndex_spec [OF assms t] by blast
  note fb = fixedBucket_bounds [OF assms i(2,3)]
  show "\<exists>b. map_option (fixedBucket w) (fixedBucketIndex t w) = Some b \<and> bk_Start b \<le> t \<and> t < bk_End b"
    using i by (simp add: fb time_unix_le_iff less_time_unix_iff)
  show "map_option (fixedBucket w) (fixedBucketIndex t' w) = Some b"
    if t': "time_ok t'" and b: "map_option (fixedBucket w) (fixedBucketIndex t w) = Some b"
      "bk_Start b \<le> t'" "t' < bk_End b"
  proof -
    obtain j where j: "fixedBucketIndex t' w = Some j" "bound w j \<le> unix t'" "unix t' < bound w (j + 1)"
      using fixedBucketIndex_spec [OF assms t'] by blast
    have "b = fixedBucket w i" using b i by simp
    with b have "bound w i \<le> unix t'" "unix t' < bound w (i + 1)"
      by (simp_all add: fb time_unix_le_iff less_time_unix_iff)
    then have "i = j" using bound_unique [OF w0 _ _ j(2,3)] by blast
    with b i j show ?thesis by simp
  qed
  show "bk_End b - bk_Start b \<le> 48 * Hour"
    if "map_option (fixedBucket w) (fixedBucketIndex t w) = Some b"
  proof -
    have "bound w (i + 1) - bound w i \<le> 172800"
    proof -
      have "bound w (i + 1) \<le> bound w i + 172800"
        unfolding bound_le_iff distrib_right using assms bound_le_iff [of w i "bound w i"]
        by (auto simp: fixed_window_def)
      then show ?thesis by simp
    qed
    with that i show ?thesis by (auto simp: fb time_unix_def)
  qed
qed

lemma short_bucketing: "bucketing (bucket_of_grain UsageActivityGrainShort) zone_ok"
proof
  fix z t t' b
  assume z: "zone_ok z" and t: "time_ok t"
  define d where "d = local_day z t"
  obtain s w where sw: "midnight z d = time_unix s" "midnight z (d + 1) = time_unix (s + w)" "0 < w" "w \<le> 172800"
    using day_seconds [OF z, of t d] d_def by metis
  obtain j where j: "bucket_of_grain UsageActivityGrainShort z t =
      Some \<lparr>bk_Start = time_unix (s + bound w j), bk_End = time_unix (s + bound w (j + 1))\<rparr>"
      "0 \<le> j" "j < 364" "bound w j \<le> unix t - s" "unix t - s < bound w (j + 1)"
    using shortBucket_spec [OF z t d_def [symmetric] sw(1,2)]
    by (auto simp: bucket_of_grain_iff BucketForTimestamp_def)
  show "\<exists>b. bucket_of_grain UsageActivityGrainShort z t = Some b \<and> bk_Start b \<le> t \<and> t < bk_End b"
    using j by (simp add: time_unix_le_iff less_time_unix_iff)
  show "bucket_of_grain UsageActivityGrainShort z t' = Some b"
    if t': "time_ok t'" and b: "bucket_of_grain UsageActivityGrainShort z t = Some b"
      "bk_Start b \<le> t'" "t' < bk_End b"
  proof -
    have x: "bound w j \<le> unix t' - s" "unix t' - s < bound w (j + 1)"
      using b j by (auto simp: time_unix_le_iff less_time_unix_iff)
    have "0 \<le> bound w j" "bound w (j + 1) \<le> w"
      using bound_mono [OF sw(3), of 0 j] bound_mono [OF sw(3), of "j + 1" 364] j by simp_all
    with x have "midnight z d \<le> t'" "t' < midnight z (d + 1)"
      by (simp_all add: sw time_unix_le_iff less_time_unix_iff)
    then have d': "local_day z t' = d" using z by (simp add: zone_ok_def local_dayI)
    obtain k where k: "bucket_of_grain UsageActivityGrainShort z t' =
        Some \<lparr>bk_Start = time_unix (s + bound w k), bk_End = time_unix (s + bound w (k + 1))\<rparr>"
        "bound w k \<le> unix t' - s" "unix t' - s < bound w (k + 1)"
      using shortBucket_spec [OF z t' d' sw(1,2)] by (auto simp: bucket_of_grain_iff BucketForTimestamp_def)
    have "j = k" by (rule bound_unique [OF sw(3) x k(2,3)])
    with b j k show ?thesis by simp
  qed
  show "bk_End b - bk_Start b \<le> 48 * Hour" if "bucket_of_grain UsageActivityGrainShort z t = Some b"
  proof -
    have "0 \<le> bound w j" "bound w (j + 1) \<le> w"
      using bound_mono [OF sw(3), of 0 j] bound_mono [OF sw(3), of "j + 1" 364] j by simp_all
    with that j sw show ?thesis by (auto simp: time_unix_def)
  qed
qed

lemma daily_bucketing: "bucketing (bucket_of_grain UsageActivityGrainDaily) zone_ok"
proof
  fix z t t' b
  assume z: "zone_ok z" and t: "time_ok t"
  then have days: "zone_days z" and long: "\<And>d. midnight z (d + 1) - midnight z d \<le> 48 * Hour"
    by (auto simp: zone_ok_def)
  have daily: "bucket_of_grain UsageActivityGrainDaily z t =
      Some \<lparr>bk_Start = midnight z (local_day z t), bk_End = midnight z (local_day z t + 1)\<rparr>" for t
    by (simp add: bucket_of_grain_iff BucketForTimestamp_def dailyBucket_def add_days_midnight [OF days])
  show "\<exists>b. bucket_of_grain UsageActivityGrainDaily z t = Some b \<and> bk_Start b \<le> t \<and> t < bk_End b"
    by (simp add: daily midnight_le_day [OF days] day_less_midnight [OF days])
  show "bucket_of_grain UsageActivityGrainDaily z t' = Some b"
    if "bucket_of_grain UsageActivityGrainDaily z t = Some b" "bk_Start b \<le> t'" "t' < bk_End b"
    using that local_dayI [OF days, of "local_day z t" t'] by (auto simp: daily)
  show "bk_End b - bk_Start b \<le> 48 * Hour" if "bucket_of_grain UsageActivityGrainDaily z t = Some b"
    using that long [of "local_day z t"] by (auto simp: daily)
qed

interpretation short: bucketing "bucket_of_grain UsageActivityGrainShort" zone_ok
  by (rule short_bucketing)

interpretation daily: bucketing "bucket_of_grain UsageActivityGrainDaily" zone_ok
  by (rule daily_bucketing)

interpretation medium: bucketing "bucket_of_grain UsageActivityGrainMedium" zone_ok
  unfolding bucket_of_fixed by (rule fixed_bucketing) (simp add: fixed_window_def)

interpretation long: bucketing "bucket_of_grain UsageActivityGrainLong" zone_ok
  unfolding bucket_of_fixed by (rule fixed_bucketing) (simp add: fixed_window_def)

definition grain_known :: "UsageActivityGrain \<Rightarrow> bool" where
  "grain_known grain \<longleftrightarrow> (case grain of UsageActivityGrainOther s \<Rightarrow> False | _ \<Rightarrow> True)"

lemma grain_bucketing: "grain_known grain \<Longrightarrow> bucketing (bucket_of_grain grain) zone_ok"
  using short.bucketing_axioms medium.bucketing_axioms long.bucketing_axioms daily.bucketing_axioms
  by (cases grain) (simp_all add: grain_known_def)

text \<open>
  C28: For each of the four grains the buckets partition time.  Every instant (within 300 million years of
  the epoch, in a zone whose civil days start at their midnights) gets a bucket: no loop runs
  forever and nothing panics.  The bucket is half open and contains the instant, and all other
  instants inside it get the very same bucket, so that no event is ever counted under two keys.
\<close>

theorem bucket_partition:
  assumes "grain_known grain" and "zone_ok z" and "time_ok t"
  shows "\<exists>b. BucketForTimestamp z grain t = Some (Inr b) \<and> bk_Start b \<le> t \<and> t < bk_End b \<and>
    (\<forall>t'. time_ok t' \<and> bk_Start b \<le> t' \<and> t' < bk_End b \<longrightarrow> BucketForTimestamp z grain t' = Some (Inr b))"
proof -
  note g = grain_bucketing [OF assms(1)]
  obtain b where b: "bucket_of_grain grain z t = Some b" "bk_Start b \<le> t" "t < bk_End b"
    using bucketing.bucket_exists [OF g, OF assms(2,3)] by blast
  moreover have "bucket_of_grain grain z t' = Some b" if "time_ok t'" "bk_Start b \<le> t'" "t' < bk_End b" for t'
    using bucketing.bucket_shared [OF g, OF assms(2,3) that(1) b(1)] that by simp
  ultimately show ?thesis unfolding bucket_of_grain_iff by blast
qed

theorem bucket_partition_witness:
  "\<exists>b. BucketForTimestamp (fixed_zone 28800) UsageActivityGrainShort (time_unix 1700000000) = Some (Inr b) \<and>
     bk_Start b \<le> time_unix 1700000000"
  using bucket_partition [of UsageActivityGrainShort, OF _ zone_ok_fixed_zone [of 28800], of "time_unix 1700000000"]
  by (auto simp: grain_known_def time_ok_def)

section \<open>Windows\<close>

context bucketing
begin

lemma tiles_Cons:
  assumes "ok z" and "time_ok c" "time_ok (c - 1)"
    and "tiles (bucket_of z) bs" and "if bs = [] then \<exists>b. bucket_of z c = Some b \<and> bk_Start b = c else bk_Start (hd bs) = c"
    and b': "bucket_of z (c - 1) = Some b'" and "time_ok (bk_Start b')"
  shows "tiles (bucket_of z) (b' # bs)" "bk_End b' = c"
proof -
  obtain b where "bucket_of z c = Some b" "bk_Start b = c"
    using assms(4,5) by (cases bs) (auto simp: tiles_def)
  then show "bk_End b' = c" using starts_after assms by blast
  moreover have "bucket_of z (bk_Start b') = Some b'"
    using bucket_shared [OF assms(1,3,7) b'] bucket_contains [OF assms(1,3) b'] by simp
  ultimately show "tiles (bucket_of z) (b' # bs)"
    using assms(4,5) by (cases bs) (auto simp: tiles_def)
qed

end

lemma short_window_loop_spec:
  assumes z: "zone_ok z"
  shows "tiles (bucket_of_grain UsageActivityGrainShort z) acc \<Longrightarrow>
    (if acc = [] then \<exists>b. bucket_of_grain UsageActivityGrainShort z c = Some b \<and> bk_Start b = c
     else bk_Start (hd acc) = c) \<Longrightarrow>
    - 10000000000000000 + 172801 * int n < unix c \<Longrightarrow> unix c \<le> 10000000000000000 \<Longrightarrow>
    \<exists>pre. short_window_loop z n c acc = Some (Inr (pre @ acc)) \<and> length pre = n \<and>
      tiles (bucket_of_grain UsageActivityGrainShort z) (pre @ acc) \<and>
      (pre \<noteq> [] \<longrightarrow> bk_End (last pre) = c \<and> bucket_of_grain UsageActivityGrainShort z (c - 1) = Some (last pre))"
proof (induction n arbitrary: c acc)
  case (Suc n)
  have c1: "unix (c - 1) \<le> unix c" "unix c - 1 \<le> unix (c - 1)" unfolding unix_def by linarith+
  have ok: "time_ok c" "time_ok (c - 1)" using Suc.prems c1 unfolding time_ok_def by linarith+
  obtain b where b: "bucket_of_grain UsageActivityGrainShort z (c - 1) = Some b" "bk_Start b \<le> c - 1" "c - 1 < bk_End b"
    using short.bucket_exists [OF z ok(2)] by blast
  have "bk_End b - bk_Start b \<le> 48 * Hour" by (rule short.bucket_short [OF z ok(2) b(1)])
  then have sb: "unix c - 172800 \<le> unix (bk_Start b)" "unix (bk_Start b) \<le> unix c"
    using b unfolding unix_def by linarith+
  moreover have "172801 * int (Suc n) = 172801 * int n + 172801" "0 \<le> int n" by simp_all
  ultimately have lo: "- 10000000000000000 + 172801 * int n < unix (bk_Start b)"
    and ok': "time_ok (bk_Start b)" using Suc.prems(3,4) unfolding time_ok_def by linarith+
  note t = short.tiles_Cons [OF z ok Suc.prems(1,2) b(1) ok']
  have "short_window_loop z (Suc n) c acc = short_window_loop z n (bk_Start b) (b # acc)"
    using b(1) by (simp add: bucket_of_grain_iff BucketForTimestamp_def t_add_def)
  moreover obtain pre where "short_window_loop z n (bk_Start b) (b # acc) = Some (Inr (pre @ b # acc))"
    "length pre = n" "tiles (bucket_of_grain UsageActivityGrainShort z) (pre @ b # acc)"
    using Suc.IH [of "b # acc" "bk_Start b"] t(1) lo sb Suc.prems(4) by auto
  ultimately show ?case using t(2) b(1) by (intro exI [of _ "pre @ [b]"]) simp
qed simp

text \<open>What a heat map needs of its window: 364 neighbouring buckets, the reference in or at the end of the last.\<close>

definition heat_window :: "(gtime \<Rightarrow> Bucket option) \<Rightarrow> gtime \<Rightarrow> Bucket list \<Rightarrow> bool" where
  "heat_window f t bs \<longleftrightarrow> length bs = 364 \<and> tiles f bs \<and> bk_Start (last bs) < t \<and> t \<le> bk_End (last bs)"

definition reference_ok :: "gtime \<Rightarrow> bool" where
  "reference_ok t \<longleftrightarrow> - 9000000000000000 \<le> unix t \<and> unix t \<le> 9000000000000000"

lemma reference_time_ok: "reference_ok t \<Longrightarrow> time_ok t"
  unfolding reference_ok_def time_ok_def by linarith

lemma successively_upto:
  "(\<And>i. a \<le> i \<Longrightarrow> i < b \<Longrightarrow> P (f i) (f (i + 1))) \<Longrightarrow> successively P (map f [a..b])"
proof (induction "nat (b - a)" arbitrary: b)
  case 0
  then show ?case by (cases "a = b") simp_all
next
  case (Suc n)
  then have "[a..b] = [a..b - 1] @ [b]" by (simp add: upto_rec2)
  moreover have "successively P (map f [a..b - 1])" using Suc by simp
  moreover have "last (map f [a..b - 1]) = f (b - 1)" "a \<le> b - 1" using Suc.hyps(2) by (simp_all add: upto_rec2)
  ultimately show ?case using Suc.prems [of "b - 1"] by (simp add: successively_append_iff)
qed

lemma indexed_window:
  assumes "\<And>i. 0 \<le> i \<Longrightarrow> i \<le> 363 \<Longrightarrow> f (bk_Start (g i)) = Some (g i)"
    and "\<And>i. 0 \<le> i \<Longrightarrow> i < 363 \<Longrightarrow> bk_End (g i) = bk_Start (g (i + 1))"
    and "bk_Start (g 363) < t" "t \<le> bk_End (g 363)"
  shows "heat_window f t (map g [0..HeatmapBlocks - 1])"
proof -
  have "last (map g [0..363]) = g 363" using upto_rec2 [of 0 363] by simp
  moreover have "successively (\<lambda>a b. bk_End a = bk_Start b) (map g [0..363])"
    using assms(2) by (rule successively_upto)
  ultimately show ?thesis using assms by (simp add: heat_window_def tiles_def)
qed

lemma fixed_bucket_of_index:
  assumes "fixed_window w" "index_ok w i" "index_ok w (i + 1)" and "time_ok (time_unix (bound w i))"
  shows "fixedBucketIndex (time_unix (bound w i)) w = Some i"
proof -
  obtain j where j: "fixedBucketIndex (time_unix (bound w i)) w = Some j"
    "bound w j \<le> bound w i" "bound w i < bound w (j + 1)"
    using fixedBucketIndex_spec [OF assms(1,4)] by auto
  have "364 \<le> w" using assms(1) by (auto simp: fixed_window_def)
  then have "i = j" using bound_unique [of w i "bound w i" j] bound_step [of w i] j by simp
  with j show ?thesis by simp
qed

lemma fixed_window_buckets:
  assumes w: "fixed_window w" and t: "reference_ok t" and i: "fixedBucketIndex t w = Some i"
  defines "stop \<equiv> (if t \<noteq> bk_Start (fixedBucket w i) then wrap64 (i + 1) else i)"
  defines "g \<equiv> \<lambda>k. fixedBucket w (wrap64 (wrap64 (stop - HeatmapBlocks) + k))"
  shows "heat_window (\<lambda>t. map_option (fixedBucket w) (fixedBucketIndex t w)) t (map g [0..HeatmapBlocks - 1])"
    and "bk_End (last (map g [0..HeatmapBlocks - 1])) - bk_Start (hd (map g [0..HeatmapBlocks - 1])) = w * Second"
proof -
  have ij: "index_ok w i" "index_ok w (i + 1)" "bound w i \<le> unix t" "unix t < bound w (i + 1)"
    using fixedBucketIndex_spec [OF w reference_time_ok [OF t]] i by auto
  have stop: "stop = i \<and> t = time_unix (bound w i) \<or> stop = i + 1 \<and> t \<noteq> time_unix (bound w i)"
    by (simp add: stop_def fixedBucket_bounds [OF w ij(1,2)] index_ok_i64 [OF w ij(1)])
  have b: "bound w i \<le> unix t" "unix t \<le> bound w i + w"
    using ij(3,4) bound_step [of w] w bound_le_iff [of w "i + 1" "bound w i + w"] bound_le_iff [of w i "bound w i"]
    unfolding distrib_right by (auto simp: fixed_window_def)
  have wc: "604800 \<le> w" "w \<le> 2592000" using w by (auto simp: fixed_window_def)
  have iw: "364 * bound w i \<le> i * w" "i * w < 364 * bound w i + 364"
    using bound_le_iff [of w i "bound w i"] bound_le_iff [of w i "bound w i - 1"] unfolding distrib_right left_diff_distrib
    by linarith+
  have ok: "index_ok w k \<and> time_ok (time_unix (bound w k))" if "i - 364 \<le> k" "k \<le> i + 1" for k
  proof -
    have "(i - 364) * w \<le> k * w" "k * w \<le> (i + 1) * w" using that wc by (simp_all add: mult_right_mono)
    then have kw: "i * w - 364 * w \<le> k * w" "k * w \<le> i * w + w" by (simp_all add: algebra_simps)
    then have "index_ok w k" using iw b t wc unfolding index_ok_def reference_ok_def by linarith
    moreover have "364 * bound w k \<le> k * w" "k * w < 364 * bound w k + 364"
      using bound_le_iff [of w k "bound w k"] bound_le_iff [of w k "bound w k - 1"] unfolding distrib_right left_diff_distrib
      by linarith+
    then have "time_ok (time_unix (bound w k))" unfolding time_ok_def unix_time_unix
      using kw iw b t wc unfolding reference_ok_def by linarith
    ultimately show ?thesis ..
  qed
  have st: "i - 364 \<le> stop - 364" "stop \<le> i + 1" using stop by auto
  have g: "g k = \<lparr>bk_Start = time_unix (bound w (stop - 364 + k)), bk_End = time_unix (bound w (stop - 364 + k + 1))\<rparr>"
    and g_ok: "index_ok w (stop - 364 + k)" "index_ok w (stop - 364 + k + 1)" "time_ok (time_unix (bound w (stop - 364 + k)))"
    if "0 \<le> k" "k \<le> 363" for k
  proof -
    have o1: "index_ok w stop" "index_ok w (stop - 364)" using ok [of stop] ok [of "stop - 364"] st by auto
    show o2: "index_ok w (stop - 364 + k)" "index_ok w (stop - 364 + k + 1)"
      "time_ok (time_unix (bound w (stop - 364 + k)))"
      using ok [of "stop - 364 + k"] ok [of "stop - 364 + k + 1"] st that by auto
    show "g k = \<lparr>bk_Start = time_unix (bound w (stop - 364 + k)), bk_End = time_unix (bound w (stop - 364 + k + 1))\<rparr>"
      unfolding g_def index_ok_i64(4) [OF w o1(1)] index_ok_i64(3) [OF w o2(1)] by (rule fixedBucket_bounds [OF w o2(1,2)])
  qed
  show "heat_window (\<lambda>t. map_option (fixedBucket w) (fixedBucketIndex t w)) t (map g [0..HeatmapBlocks - 1])"
  proof (rule indexed_window)
    show "map_option (fixedBucket w) (fixedBucketIndex (bk_Start (g k)) w) = Some (g k)" if "0 \<le> k" "k \<le> 363" for k
      using fixed_bucket_of_index [OF w g_ok(1,2,3) [OF that]] fixedBucket_bounds [OF w g_ok(1,2) [OF that]]
      by (simp add: g [OF that])
    show "bk_End (g k) = bk_Start (g (k + 1))" if "0 \<le> k" "k < 363" for k
      using that g [of k] g [of "k + 1"] by (simp add: add.assoc)
    have s: "bound w (stop - 1) < bound w (stop - 1 + 1)" using wc by (intro bound_step) simp
    show "bk_Start (g 363) < t" "t \<le> bk_End (g 363)"
      using stop s g [of 363] ij(3,4) [folded time_unix_le_iff less_time_unix_iff] by auto
  qed
  have "[0..363::int] = 0 # [1..363]" by (simp add: upto_rec1)
  moreover have "last (map g [0..363]) = g 363" using upto_rec2 [of 0 363] by simp
  moreover have "bound w stop = bound w (stop - 364) + w"
  proof -
    have "stop * w = (stop - 364) * w + 364 * w" by (simp add: algebra_simps)
    then show ?thesis by (simp only: bound_def div_mult_self2)
  qed
  ultimately show "bk_End (last (map g [0..HeatmapBlocks - 1])) - bk_Start (hd (map g [0..HeatmapBlocks - 1])) = w * Second"
    using g [of 0] g [of 363] by (simp add: time_unix_def algebra_simps)
qed

lemma dailyWindow_spec:
  assumes z: "zone_ok z"
  shows "heat_window (bucket_of_grain UsageActivityGrainDaily z) t (dailyWindow z t)"
proof -
  have days: "zone_days z" using z by (simp add: zone_ok_def)
  let ?d = "local_day z t"
  define D where "D = (if t \<noteq> midnight z ?d then ?d + 1 else ?d)"
  have stop: "(if t \<noteq> midnight z ?d then add_days z (midnight z ?d) 1 else midnight z ?d) = midnight z D"
    by (simp add: D_def add_days_midnight [OF days])
  have w: "dailyWindow z t = map (\<lambda>i. \<lparr>bk_Start = midnight z (D - 364 + i), bk_End = midnight z (D - 364 + i + 1)\<rparr>)
      [0..HeatmapBlocks - 1]"
    by (simp add: dailyWindow_def stop add_days_midnight [OF days] Let_def)
  have "midnight z (D - 1) < t" "t \<le> midnight z D"
    using midnight_le_day [OF days, of t] day_less_midnight [OF days, of t]
      midnight_strict_mono [OF days, of "?d - 1" ?d] by (auto simp: D_def less_le)
  then show ?thesis unfolding w
    by (intro indexed_window)
       (simp_all add: bucket_of_grain_iff BucketForTimestamp_def dailyBucket_def midnight_of_day [OF days]
        add_days_midnight [OF days] add.assoc)
qed

lemma shortWindow_spec:
  assumes z: "zone_ok z" and t: "reference_ok t"
  shows "\<exists>bs. shortWindowEndingAt z t = Some (Inr bs) \<and> heat_window (bucket_of_grain UsageActivityGrainShort z) t bs"
proof -
  let ?f = "bucket_of_grain UsageActivityGrainShort z"
  note tok = reference_time_ok [OF t]
  obtain b0 where b0: "?f t = Some b0" "bk_Start b0 \<le> t" "t < bk_End b0"
    using short.bucket_exists [OF z tok] by blast
  have len: "bk_End b0 - bk_Start b0 \<le> 48 * Hour" by (rule short.bucket_short [OF z tok b0(1)])
  define c where "c = (if t \<noteq> bk_Start b0 then bk_End b0 else bk_Start b0)"
  have c: "unix t \<le> unix c" "unix c \<le> unix t + 172800"
  proof -
    have "t \<le> c" "c \<le> t + 172800 * Second" using b0 len by (auto simp: c_def)
    then show "unix t \<le> unix c" "unix c \<le> unix t + 172800" unfolding unix_def by linarith+
  qed
  have c_ok: "time_ok c" "time_ok (c - 1)"
    using c t unfolding time_ok_def reference_ok_def unix_def by linarith+
  have start: "\<exists>b. ?f c = Some b \<and> bk_Start b = c"
  proof (cases "t = bk_Start b0")
    case False
    then have "c = bk_End b0" by (simp add: c_def)
    moreover obtain b where "?f c = Some b" using short.bucket_exists [OF z c_ok(1)] by blast
    ultimately show ?thesis using short.ends_before [OF z tok _ b0(1)] c_ok(1) by blast
  qed (use b0 in \<open>auto simp: c_def\<close>)
  have lo: "- 10000000000000000 + 172801 * int (nat HeatmapBlocks) < unix c" "unix c \<le> 10000000000000000"
    using c t unfolding reference_ok_def by simp_all
  obtain bs where bs: "short_window_loop z (nat HeatmapBlocks) c [] = Some (Inr bs)" "length bs = 364"
    "tiles ?f bs" "bk_End (last bs) = c" "?f (c - 1) = Some (last bs)"
    using short_window_loop_spec [OF z, of "[]" c "nat HeatmapBlocks", OF _ _ lo] start
    by (auto simp: tiles_def)
  have "shortWindowEndingAt z t = Some (Inr bs)"
    using b0(1) bs(1) by (simp add: shortWindowEndingAt_def bucket_of_grain_iff BucketForTimestamp_def c_def)
  moreover have "bk_Start (last bs) < t \<and> t \<le> bk_End (last bs)"
  proof -
    note l = short.bucket_contains [OF z c_ok(2) bs(5)]
    show ?thesis
    proof (cases "t = bk_Start b0")
      case True
      then have "c = t" by (simp add: c_def)
      with l bs(4) show ?thesis by simp
    next
      case False
      then have "c = bk_End b0" by (simp add: c_def)
      then have "last bs = b0"
        using short.bucket_shared [OF z tok c_ok(2) b0(1)] b0(2,3) bs(5) by simp
      with b0 False show ?thesis by simp
    qed
  qed
  ultimately show ?thesis using bs by (auto simp: heat_window_def)
qed

text \<open>
  A heat map always has its 364 cells.  For each grain the window that ends at a reference time
  is a list of exactly 364 buckets, each the storage bucket of its own start, each beginning where
  the one before ends, and the reference lies in the last bucket or is its end.  So the cells the
  query draws are the cells the aggregation wrote.
\<close>

lemma window_tiles:
  assumes "grain_known grain" and "zone_ok z" and "reference_ok t"
  shows "\<exists>bs. WindowEndingAt z grain t = Some (Inr bs) \<and> length bs = 364 \<and>
    (\<forall>b \<in> set bs. BucketForTimestamp z grain (bk_Start b) = Some (Inr b)) \<and>
    successively (\<lambda>a b. bk_End a = bk_Start b) bs \<and> bk_Start (last bs) < t \<and> t \<le> bk_End (last bs)"
proof -
  have "\<exists>bs. WindowEndingAt z grain t = Some (Inr bs) \<and> heat_window (bucket_of_grain grain z) t bs"
  proof (cases grain)
    case UsageActivityGrainShort
    then show ?thesis using shortWindow_spec [OF assms(2,3)] by (simp add: WindowEndingAt_def)
  next
    case UsageActivityGrainDaily
    then show ?thesis using dailyWindow_spec [OF assms(2)] by (simp add: WindowEndingAt_def)
  next
    case UsageActivityGrainMedium
    have w: "fixed_window mediumWindowSeconds" by (simp add: fixed_window_def)
    obtain i where i: "fixedBucketIndex t mediumWindowSeconds = Some i"
      using fixedBucketIndex_spec [OF w reference_time_ok [OF assms(3)]] by blast
    show ?thesis using UsageActivityGrainMedium fixed_window_buckets(1) [OF w assms(3) i]
      by (simp add: WindowEndingAt_def fixedWindowSeconds_def i Let_def bucket_of_fixed)
  next
    case UsageActivityGrainLong
    have w: "fixed_window longWindowSeconds" by (simp add: fixed_window_def)
    obtain i where i: "fixedBucketIndex t longWindowSeconds = Some i"
      using fixedBucketIndex_spec [OF w reference_time_ok [OF assms(3)]] by blast
    show ?thesis using UsageActivityGrainLong fixed_window_buckets(1) [OF w assms(3) i]
      by (simp add: WindowEndingAt_def fixedWindowSeconds_def i Let_def bucket_of_fixed)
  qed (use assms(1) in \<open>simp add: grain_known_def\<close>)
  then show ?thesis by (auto simp: heat_window_def tiles_def bucket_of_grain_iff)
qed

text \<open>
  The medium and the long window span exactly 7 and 30 days, although neither number of seconds is a
  multiple of 364: the rounding of the boundaries never adds up to a drift.
\<close>

theorem fixed_window_length:
  assumes "grain = UsageActivityGrainMedium \<and> w = mediumWindowSeconds \<or>
           grain = UsageActivityGrainLong \<and> w = longWindowSeconds" and "reference_ok t"
  shows "\<exists>bs. WindowEndingAt z grain t = Some (Inr bs) \<and> bk_End (last bs) - bk_Start (hd bs) = w * Second"
proof -
  have w: "fixed_window w" using assms(1) by (auto simp: fixed_window_def)
  obtain i where i: "fixedBucketIndex t w = Some i"
    using fixedBucketIndex_spec [OF w reference_time_ok [OF assms(2)]] by blast
  have "fixedWindowSeconds grain = Inr w" "grain \<noteq> UsageActivityGrainShort" "grain \<noteq> UsageActivityGrainDaily"
    using assms(1) by (auto simp: fixedWindowSeconds_def)
  then show ?thesis using fixed_window_buckets(2) [OF w assms(2) i]
    by (simp add: WindowEndingAt_def i Let_def)
qed

theorem fixed_window_length_witness:
  "\<exists>bs. WindowEndingAt (fixed_zone 0) UsageActivityGrainLong (time_unix 1700000000) = Some (Inr bs) \<and>
     bk_End (last bs) - bk_Start (hd bs) = 30 * 24 * Hour"
  using fixed_window_length [of UsageActivityGrainLong longWindowSeconds "time_unix 1700000000" "fixed_zone 0"]
  by (simp add: reference_ok_def)

section \<open>Zones whose clock skips midnight\<close>

text \<open>
  The rules of Havana around March 10, 2024: at 05:00 UTC, which is local midnight, the offset changes
  from -5 to -4 hours, so that the clock goes from 23:59:59 to 01:00:00.
\<close>

definition havana_2024 :: zone where
  "havana_2024 s = (if s < 1710046800 then (- 18000, MinInt64, 1710046800) else (- 14400, 1710046800, MaxInt64))"

text \<open>
  Where daylight saving starts at midnight, the daily bucket is wrong for an hour: 23:30 of the
  evening before gets a bucket that ends at 23:00.
\<close>

theorem daily_bucket_misses_event:
  "\<exists>t b. BucketForTimestamp havana_2024 UsageActivityGrainDaily t = Some (Inr b) \<and>
     bk_End b = t - 30 * Minute \<and> \<not> (bk_Start b \<le> t \<and> t < bk_End b)"
proof (intro exI conjI)
  let ?t = "time_unix 1710045000"
  have day: "local_day havana_2024 ?t = 19791"
    by (simp add: local_day_def local_secs_def zone_offset_def havana_2024_def)
  have m: "midnight havana_2024 19791 = time_unix 1709960400"
    by (simp add: midnight_def date_at_def havana_2024_def zone_offset_def Let_def)
  have "add_days havana_2024 (time_unix 1709960400) 1 = time_unix 1710043200"
    by (simp add: add_days_def local_day_def local_secs_def date_at_def havana_2024_def zone_offset_def Let_def,
        simp add: time_unix_def)
  then show "BucketForTimestamp havana_2024 UsageActivityGrainDaily ?t =
      Some (Inr \<lparr>bk_Start = time_unix 1709960400, bk_End = time_unix 1710043200\<rparr>)"
    by (simp add: BucketForTimestamp_def dailyBucket_def day m)
qed (simp_all add: time_unix_def)

text \<open>
  The rules of Apia around December 30, 2011: at 10:00 UTC the offset changes from -10 to +14 hours, so
  that the civil day after December 29 is December 31.
\<close>

definition apia_2011 :: zone where
  "apia_2011 s = (if s < 1325239200 then (- 36000, MinInt64, 1325239200) else (50400, 1325239200, MaxInt64))"

text \<open>
  Where a whole civil day is skipped, the day before it has no seconds, and the short bucket divides by
  zero.
\<close>

theorem short_bucket_panics:
  "\<exists>t. BucketForTimestamp apia_2011 UsageActivityGrainShort t = Some (Inl DivideByZeroPanic)"
proof
  let ?t = "time_unix 1325200000"
  have day: "local_day apia_2011 ?t = 15337"
    by (simp add: local_day_def local_secs_def zone_offset_def apia_2011_def)
  have m: "midnight apia_2011 15337 = time_unix 1325152800"
    by (simp add: midnight_def date_at_def apia_2011_def zone_offset_def Let_def)
  have "add_days apia_2011 (time_unix 1325152800) 1 = time_unix 1325152800"
    by (simp add: add_days_def local_day_def local_secs_def date_at_def apia_2011_def zone_offset_def Let_def,
        simp add: time_unix_def)
  then show "BucketForTimestamp apia_2011 UsageActivityGrainShort ?t = Some (Inl DivideByZeroPanic)"
    by (simp add: BucketForTimestamp_def shortBucketForTimestamp_def day m wrap64_def Let_def)
qed

end
