(* ===== verification/Entities.thy ===== *)
theory Entities
  imports GoTime
begin

text \<open>
  The rows the components exchange: \<open>entities.UsageEvent\<close> (\<open>internal/entities/usage_event.go\<close>), one
  model call as the queue reported it.  Pointers that may be nil are options; the times are instants.
\<close>

record UsageEvent =
  ev_ID :: int
  ev_EventKey :: string
  ev_APIGroupKey :: string
  ev_Provider :: string
  ev_Endpoint :: string
  ev_AuthType :: string
  ev_RequestID :: string
  ev_ClientIP :: "string option"
  ev_XForwardedFor :: "string option"
  ev_UserAgent :: "string option"
  ev_Model :: string
  ev_ModelAlias :: "string option"
  ev_ReasoningEffort :: string
  ev_ServiceTier :: string
  ev_ResponseServiceTier :: string
  ev_ExecutorType :: string
  ev_Timestamp :: gtime
  ev_Source :: string
  ev_AuthIndex :: string
  ev_Failed :: bool
  ev_Generate :: "bool option"
  ev_LatencyMS :: int
  ev_TTFTMS :: "int option"
  ev_InputTokens :: int
  ev_OutputTokens :: int
  ev_ReasoningTokens :: int
  ev_CachedTokens :: int
  ev_CacheReadTokens :: int
  ev_CacheReadPresent :: bool
  ev_CacheCreationTokens :: int
  ev_TotalTokens :: int
  ev_CreatedAt :: gtime

definition sample_event :: UsageEvent where
  "sample_event = \<lparr>ev_ID = 1, ev_EventKey = ''k'', ev_APIGroupKey = ''g'', ev_Provider = ''p'',
     ev_Endpoint = ''/v1'', ev_AuthType = ''oauth'', ev_RequestID = ''r'', ev_ClientIP = None,
     ev_XForwardedFor = None, ev_UserAgent = None, ev_Model = ''m'', ev_ModelAlias = None,
     ev_ReasoningEffort = [], ev_ServiceTier = [], ev_ResponseServiceTier = [],
     ev_ExecutorType = ''ClaudeExecutor'', ev_Timestamp = time_unix 1700000000, ev_Source = ''s'',
     ev_AuthIndex = ''a'', ev_Failed = False, ev_Generate = None, ev_LatencyMS = 1200,
     ev_TTFTMS = Some 200, ev_InputTokens = 10, ev_OutputTokens = 5, ev_ReasoningTokens = 2,
     ev_CachedTokens = 0, ev_CacheReadTokens = 0, ev_CacheReadPresent = False,
     ev_CacheCreationTokens = 0, ev_TotalTokens = 15, ev_CreatedAt = time_unix 1700000001\<rparr>"

end
