(* ===== verification/Grouping.thy ===== *)
theory Grouping
  imports Entities
begin

text \<open>
  Aggregation as the program does it three times: a loop puts every item into a map, under its key, into
  a row that is created on first sight and updated; the rows are then copied out in whatever order
  the runtime iterates the map and sorted.  The locales state what a component has to provide and
  prove once that the result is a function of the multiset of items.
\<close>

definition group_add ::
  "('e \<Rightarrow> 'k) \<Rightarrow> ('e \<Rightarrow> 'r) \<Rightarrow> ('e \<Rightarrow> 'r \<Rightarrow> 'r) \<Rightarrow> 'e \<Rightarrow> ('k, 'r) gomap \<Rightarrow> ('k, 'r) gomap" where
  "group_add key new_row add_item e m =
     mput m (key e) (add_item e (case mget m (key e) of Some row \<Rightarrow> row | None \<Rightarrow> new_row e))"

lemma wf_map_group [intro]: "wf_map m \<Longrightarrow> wf_map (fold (group_add key new_row add_item) es m)"
  by (induction es arbitrary: m) (auto simp: group_add_def)

lemma mget_group:
  "mget (fold (group_add key new_row add_item) es m) k =
    (let ms = filter (\<lambda>e. key e = k) es in
     case mget m k of
       Some row \<Rightarrow> Some (fold add_item ms row)
     | None \<Rightarrow> if ms = [] then None else Some (fold add_item ms (new_row (hd ms))))"
proof (induction es arbitrary: m)
  case (Cons e es)
  show ?case
  proof (cases "key e = k")
    case True
    then show ?thesis
      unfolding fold_simps filter.simps Cons.IH by (simp add: Let_def group_add_def split: option.split)
  next
    case False
    then have "mget (group_add key new_row add_item e m) k = mget m k" by (simp add: group_add_def)
    with False show ?thesis by (simp add: Cons.IH)
  qed
qed (simp split: option.split)

text \<open>
  \<open>item z\<close> says which items can occur in a run with the parameters \<open>z\<close>: the new row only has to be
  a function of the key for those.
\<close>

locale grouping =
  fixes item :: "'z \<Rightarrow> 'e \<Rightarrow> bool"
    and key :: "'e \<Rightarrow> 'k" and new_row :: "'e \<Rightarrow> 'r" and add_item :: "'e \<Rightarrow> 'r \<Rightarrow> 'r"
  assumes new_row_key: "item z e \<Longrightarrow> item z e' \<Longrightarrow> key e = key e' \<Longrightarrow> new_row e = new_row e'"
    and add_commute: "add_item e (add_item e' row) = add_item e' (add_item e row)"
begin

definition row_of :: "'e list \<Rightarrow> 'e \<Rightarrow> 'r" where
  "row_of es e = fold add_item (filter (\<lambda>x. key x = key e) es) (new_row e)"

lemma fold_perm: "mset es = mset es' \<Longrightarrow> fold add_item es row = fold add_item es' row"
  using fold_multiset_equiv [where xs = es and ys = es' and f = add_item] by (simp add: fun_eq_iff add_commute)

lemma row_of_perm: "mset es = mset es' \<Longrightarrow> row_of es e = row_of es' e"
  unfolding row_of_def by (rule fold_perm) (metis mset_filter)

lemma group_lookup:
  assumes items: "list_all (item z) es"
  shows "mget (fold (group_add key new_row add_item) es []) k = Some row \<longleftrightarrow>
     (\<exists>e \<in> set es. key e = k \<and> row = row_of es e)"
proof -
  let ?ms = "filter (\<lambda>e. key e = k) es"
  have l: "mget (fold (group_add key new_row add_item) es []) k =
      (if ?ms = [] then None else Some (fold add_item ?ms (new_row (hd ?ms))))"
    by (simp add: mget_group Let_def)
  show ?thesis
  proof (cases "?ms = []")
    case True
    then show ?thesis unfolding l by (auto simp: filter_empty_conv)
  next
    case False
    then have hd: "hd ?ms \<in> set es" "key (hd ?ms) = k" using hd_in_set [OF False] by auto
    have "row_of es e = fold add_item ?ms (new_row (hd ?ms))" if "e \<in> set es" "key e = k" for e
      using that hd new_row_key [of z e "hd ?ms"] items by (simp add: row_of_def list_all_iff)
    with hd False show ?thesis unfolding l by auto
  qed
qed

end

context row_order
begin

lemma sorted_distinct: "sorted_wrt lt xs \<Longrightarrow> distinct xs"
  by (induction xs) (auto simp: less_irrefl)

end

locale grouped_rows = grouping item key new_row add_item + row_order lt rk
  for item :: "'z \<Rightarrow> 'e \<Rightarrow> bool" and key :: "'e \<Rightarrow> 'k" and new_row :: "'e \<Rightarrow> 'r" and add_item :: "'e \<Rightarrow> 'r \<Rightarrow> 'r"
    and lt :: "'r \<Rightarrow> 'r \<Rightarrow> bool" and rk :: "'r \<Rightarrow> 'k" +
  assumes rk_new: "rk (new_row e) = key e" and rk_add: "rk (add_item e row) = rk row"
begin

definition rows_of :: "(('k, 'r) gomap \<Rightarrow> ('k, 'r) gomap) \<Rightarrow> 'e list \<Rightarrow> 'r list" where
  "rows_of ord es = sort_slice lt (map snd (ord (fold (group_add key new_row add_item) es [])))"

lemma rk_row_of: "rk (row_of es e) = key e"
proof -
  have "rk (fold add_item xs row) = rk row" for xs row
    by (induction xs arbitrary: row) (simp_all add: rk_add)
  then show ?thesis by (simp add: row_of_def rk_new)
qed

lemma group_entries:
  assumes "list_all (item z) es"
  shows "(k, row) \<in> set (fold (group_add key new_row add_item) es []) \<longleftrightarrow> (\<exists>e \<in> set es. key e = k \<and> row = row_of es e)"
  using group_lookup [OF assms] mget_iff [OF wf_map_group [OF wf_map_nil]] by metis

lemma distinct_rows:
  assumes "iteration_order ord" and items: "list_all (item z) es"
  shows "distinct (map rk (map snd (ord (fold (group_add key new_row add_item) es []))))"
proof -
  let ?m = "fold (group_add key new_row add_item) es []"
  have "map rk (map snd (ord ?m)) = map fst (ord ?m)"
    using iteration_order_set [OF assms(1), of ?m] group_entries [OF items] rk_row_of by (auto simp del: group_add_def)
  moreover have "distinct (map fst (ord ?m))"
  proof -
    have "mset (map fst (ord ?m)) = mset (mkeys ?m)"
      using assms by (simp add: iteration_order_def mkeys_def)
    moreover have "distinct (mkeys ?m)" using wf_map_group [OF wf_map_nil] by (simp add: wf_map_def)
    ultimately show ?thesis by (metis mset_eq_imp_distinct_iff)
  qed
  ultimately show ?thesis by (simp only:)
qed

lemma rows_sorted: "iteration_order ord \<Longrightarrow> list_all (item z) es \<Longrightarrow> sorted_wrt lt (rows_of ord es)"
  unfolding rows_of_def by (rule sorted_sort_slice) (rule distinct_rows)

lemma rows_of_iff: "iteration_order ord \<Longrightarrow> list_all (item z) es \<Longrightarrow> row \<in> set (rows_of ord es) \<longleftrightarrow> (\<exists>e \<in> set es. row = row_of es e)"
  unfolding rows_of_def using group_entries [of z es _ row]
  by (simp add: iteration_order_set image_iff) (metis snd_conv prod.collapse)

lemma rows_perm:
  assumes "mset es = mset es'" and o: "iteration_order ord" "iteration_order ord'" and i: "list_all (item z) es"
  shows "rows_of ord es = rows_of ord' es'"
proof (rule sorted_unique)
  have i': "list_all (item z) es'" using i mset_eq_setD [OF assms(1)] by (simp add: list_all_iff)
  show "sorted_wrt lt (rows_of ord es)" "sorted_wrt lt (rows_of ord' es')"
    using o i i' by (simp_all add: rows_sorted)
  have "set (rows_of ord es) = set (rows_of ord' es')"
    by (simp only: set_eq_iff rows_of_iff [OF o(1) i] rows_of_iff [OF o(2) i'] row_of_perm [OF assms(1)]
        mset_eq_setD [OF assms(1)]) simp
  moreover have "distinct (rows_of ord es)" "distinct (rows_of ord' es')"
    using rows_sorted [OF o(1) i] rows_sorted [OF o(2) i'] by (simp_all add: sorted_distinct)
  ultimately show "mset (rows_of ord es) = mset (rows_of ord' es')"
    using o by (simp add: set_eq_iff_mset_eq_distinct)
qed

end

text \<open>A column that adds up with the wrap-around of \<open>int64\<close>.\<close>

lemma wrap64_swap: "wrap64 (wrap64 (x + a) + b) = wrap64 (wrap64 (x + b) + a)"
  by (simp add: wrap64_add_left add.assoc add.commute [of a b])

lemma fold_wrap64:
  assumes "\<And>e row. i64 (f row) \<Longrightarrow> f (add_item e row) = wrap64 (f row + g e)" and "i64 (f row)"
  shows "f (fold add_item es row) = wrap64 (f row + sum_list (map g es))"
  using assms(2)
proof (induction es arbitrary: row)
  case (Cons e es)
  have "f (fold add_item es (add_item e row)) = wrap64 (f (add_item e row) + sum_list (map g es))"
    by (rule Cons.IH) (simp add: assms(1) Cons.prems)
  then show ?case by (simp add: assms(1) Cons.prems wrap64_add_left add.assoc)
qed (simp add: wrap64_id)

lemma fold_keeps: "(\<And>e row. f (add_item e row) = f row) \<Longrightarrow> f (fold add_item es row) = f row"
  by (induction es arbitrary: row) simp_all

text \<open>Summed over all rows, such a column is the sum over all items.\<close>

lemma sum_mput:
  fixes f :: "'r \<Rightarrow> int"
  shows "sum_list (map (f \<circ> snd) (mput m k v)) =
    sum_list (map (f \<circ> snd) m) - (case mget m k of Some old \<Rightarrow> f old | None \<Rightarrow> 0) + f v"
  by (induction m k v rule: mput.induct) auto

lemma group_total:
  fixes f :: "'r \<Rightarrow> int"
  assumes "\<And>e row. f (add_item e row) = wrap64 (f row + g e)" and "\<And>e. f (new_row e) = 0"
  shows "wrap64 (sum_list (map (f \<circ> snd) (fold (group_add key new_row add_item) es m))) =
    wrap64 (sum_list (map (f \<circ> snd) m) + sum_list (map g es))"
proof (induction es arbitrary: m)
  case (Cons e es)
  let ?old = "case mget m (key e) of Some row \<Rightarrow> f row | None \<Rightarrow> 0"
  have "sum_list (map (f \<circ> snd) (group_add key new_row add_item e m)) =
      wrap64 (?old + g e) + (sum_list (map (f \<circ> snd) m) - ?old)"
    by (simp add: group_add_def sum_mput assms split: option.split)
  then have "wrap64 (sum_list (map (f \<circ> snd) (group_add key new_row add_item e m)) + sum_list (map g es)) =
      wrap64 (?old + g e + (sum_list (map (f \<circ> snd) m) - ?old + sum_list (map g es)))"
    by (simp only: add.assoc wrap64_add_left)
  also have "?old + g e + (sum_list (map (f \<circ> snd) m) - ?old + sum_list (map g es)) =
      sum_list (map (f \<circ> snd) m) + sum_list (map g (e # es))"
    by simp
  finally show ?case by (simp only: fold_simps Cons.IH)
qed simp

end
