(* ===== verification/ActivityRows.thy ===== *)
theory ActivityRows
  imports ActivityGrain Grouping
begin

text \<open>
  \<open>internal/activity/aggregate.go\<close>: retention of the grains and \<open>BuildRows\<close>, which turns usage
  events into the sparse rows of the activity table.
\<close>

section \<open>Rows\<close>

text \<open>The row number \<open>ID\<close> is the database's, and no operation reads it; \<open>CreatedAt\<close> and \<open>UpdatedAt\<close> are filled by the store.\<close>

record UsageActivityStat =
  as_Grain :: UsageActivityGrain
  as_BucketStart :: gtime
  as_BucketEnd :: gtime
  as_APIGroupKey :: string
  as_SuccessCount :: int
  as_FailureCount :: int
  as_InputTokens :: int
  as_OutputTokens :: int
  as_ReasoningTokens :: int
  as_CacheReadTokens :: int
  as_CacheCreationTokens :: int
  as_TotalTokens :: int
  as_CreatedAt :: gtime
  as_UpdatedAt :: gtime

text \<open>A grain is a string in the source; the map key and the sort use its text.\<close>

fun grain_text :: "UsageActivityGrain \<Rightarrow> string" where
  "grain_text UsageActivityGrainShort = ''short''"
| "grain_text UsageActivityGrainMedium = ''medium''"
| "grain_text UsageActivityGrainLong = ''long''"
| "grain_text UsageActivityGrainDaily = ''daily''"
| "grain_text (UsageActivityGrainOther s) = s"

type_synonym aggregateKey = "string \<times> gtime \<times> string"

definition NormalizeAPIGroupKey :: "string \<Rightarrow> string" where
  "NormalizeAPIGroupKey v = (let trimmed = go_trim_space v in if trimmed = [] then ''unknown'' else trimmed)"

definition grainRetentions :: "(UsageActivityGrain, duration) gomap" where
  "grainRetentions =
     [(UsageActivityGrainShort, 3 * 24 * Hour), (UsageActivityGrainMedium, 8 * 24 * Hour),
      (UsageActivityGrainLong, 31 * 24 * Hour)]"

definition allGrains :: "UsageActivityGrain list" where
  "allGrains = [UsageActivityGrainShort, UsageActivityGrainMedium, UsageActivityGrainLong, UsageActivityGrainDaily]"

text \<open>\<open>None\<close> stands for \<open>limited = false\<close>.\<close>

definition Retention :: "UsageActivityGrain \<Rightarrow> duration option" where
  "Retention grain = mget grainRetentions grain"

section \<open>BuildRows\<close>

text \<open>The errors of the loop: the bucket error, or that the bucket search did not return.\<close>

datatype activity_error = BucketError grain_error | NoReturn

definition bucket_or_error :: "zone \<Rightarrow> UsageActivityGrain \<Rightarrow> gtime \<Rightarrow> activity_error + Bucket" where
  "bucket_or_error z grain t =
     (case BucketForTimestamp z grain t of
        None \<Rightarrow> Inl NoReturn | Some (Inl e) \<Rightarrow> Inl (BucketError e) | Some (Inr b) \<Rightarrow> Inr b)"

text \<open>One contribution: the grain, its bucket and the event.\<close>

type_synonym contribution = "UsageActivityGrain \<times> Bucket \<times> UsageEvent"

fun activity_key :: "contribution \<Rightarrow> aggregateKey" where
  "activity_key (grain, bucket, event) =
     (grain_text grain, bk_Start bucket, NormalizeAPIGroupKey (ev_APIGroupKey event))"

fun activity_new :: "contribution \<Rightarrow> UsageActivityStat" where
  "activity_new (grain, bucket, event) =
     \<lparr>as_Grain = grain, as_BucketStart = bk_Start bucket, as_BucketEnd = bk_End bucket,
      as_APIGroupKey = NormalizeAPIGroupKey (ev_APIGroupKey event), as_SuccessCount = 0, as_FailureCount = 0,
      as_InputTokens = 0, as_OutputTokens = 0, as_ReasoningTokens = 0, as_CacheReadTokens = 0,
      as_CacheCreationTokens = 0, as_TotalTokens = 0, as_CreatedAt = zero_time, as_UpdatedAt = zero_time\<rparr>"

fun activity_add :: "contribution \<Rightarrow> UsageActivityStat \<Rightarrow> UsageActivityStat" where
  "activity_add (grain, bucket, event) row =
     row\<lparr>as_FailureCount := (if ev_Failed event then wrap64 (as_FailureCount row + 1) else as_FailureCount row),
         as_SuccessCount := (if ev_Failed event then as_SuccessCount row else wrap64 (as_SuccessCount row + 1)),
         as_InputTokens := wrap64 (as_InputTokens row + ev_InputTokens event),
         as_OutputTokens := wrap64 (as_OutputTokens row + ev_OutputTokens event),
         as_ReasoningTokens := wrap64 (as_ReasoningTokens row + ev_ReasoningTokens event),
         as_CacheReadTokens := wrap64 (as_CacheReadTokens row + ev_CacheReadTokens event),
         as_CacheCreationTokens := wrap64 (as_CacheCreationTokens row + ev_CacheCreationTokens event),
         as_TotalTokens := wrap64 (as_TotalTokens row + ev_TotalTokens event)\<rparr>"

type_synonym activity_map = "(aggregateKey, UsageActivityStat) gomap"

definition too_old :: "gtime \<Rightarrow> UsageActivityGrain \<Rightarrow> gtime \<Rightarrow> bool" where
  "too_old now grain t = (case Retention grain of Some retention \<Rightarrow> t < t_add now (- retention) | None \<Rightarrow> False)"

definition add_grain :: "zone \<Rightarrow> gtime \<Rightarrow> UsageEvent \<Rightarrow> UsageActivityGrain \<Rightarrow> activity_map \<Rightarrow> activity_error + activity_map" where
  "add_grain z now event grain m =
     (if too_old now grain (ev_Timestamp event) then Inr m
      else bindE (bucket_or_error z grain (ev_Timestamp event))
             (\<lambda>bucket. Inr (group_add activity_key activity_new activity_add (grain, bucket, event) m)))"

definition activity_less :: "UsageActivityStat \<Rightarrow> UsageActivityStat \<Rightarrow> bool" where
  "activity_less l r =
     (if grain_text (as_Grain l) \<noteq> grain_text (as_Grain r) then grain_text (as_Grain l) < grain_text (as_Grain r)
      else if as_BucketStart l \<noteq> as_BucketStart r then as_BucketStart l < as_BucketStart r
      else as_APIGroupKey l < as_APIGroupKey r)"

type_synonym activity_order = "activity_map \<Rightarrow> activity_map"

definition ActivityBuildRows ::
  "activity_order \<Rightarrow> zone \<Rightarrow> UsageEvent list \<Rightarrow> gtime \<Rightarrow> activity_error + UsageActivityStat list" where
  "ActivityBuildRows ord z events now =
     bindE (foldE (\<lambda>event. foldE (add_grain z now event) allGrains) events [])
       (\<lambda>rowsByKey. Inr (sort_slice activity_less (map snd (ord rowsByKey))))"

section \<open>The contract of a grouping\<close>

definition activity_row_key :: "UsageActivityStat \<Rightarrow> aggregateKey" where
  "activity_row_key row = (grain_text (as_Grain row), as_BucketStart row, as_APIGroupKey row)"

text \<open>
  The items of a run: what \<open>add_grain\<close> adds, for the events and grains in order.
\<close>

definition contributions_of :: "zone \<Rightarrow> gtime \<Rightarrow> UsageEvent \<Rightarrow> contribution list" where
  "contributions_of z now event =
     map (\<lambda>grain. (grain, the (bucket_of_grain grain z (ev_Timestamp event)), event))
       (filter (\<lambda>grain. \<not> too_old now grain (ev_Timestamp event)) allGrains)"

definition contributions :: "zone \<Rightarrow> gtime \<Rightarrow> UsageEvent list \<Rightarrow> contribution list" where
  "contributions z now events = concat (map (contributions_of z now) events)"

definition activity_item :: "zone \<Rightarrow> contribution \<Rightarrow> bool" where
  "activity_item z c \<longleftrightarrow> zone_ok z \<and>
     (case c of (grain, bucket, event) \<Rightarrow>
        grain \<in> set allGrains \<and> time_ok (ev_Timestamp event) \<and>
        bucket_of_grain grain z (ev_Timestamp event) = Some bucket)"

lemma all_grains_known: "grain \<in> set allGrains \<longleftrightarrow> grain_known grain"
  by (cases grain) (simp_all add: allGrains_def grain_known_def)

lemma grain_text_inject:
  "grain_known g \<Longrightarrow> grain_known h \<Longrightarrow> grain_text g = grain_text h \<longleftrightarrow> g = h"
  by (cases g; cases h) (simp_all add: grain_known_def)

text \<open>Two buckets of a grain with the same start are the same bucket.\<close>

lemma bucket_by_start:
  assumes z: "zone_ok z" and g: "grain_known grain" and t: "time_ok t" "time_ok t'"
    and b: "bucket_of_grain grain z t = Some b" "bucket_of_grain grain z t' = Some b'" and s: "bk_Start b = bk_Start b'"
  shows "b = b'"
proof -
  note law = grain_bucketing [OF g]
  have c: "bk_Start b \<le> t" "t < bk_End b" "bk_Start b' \<le> t'" "t' < bk_End b'"
    using bucketing.bucket_contains [OF law, OF z t(1) b(1)] bucketing.bucket_contains [OF law, OF z t(2) b(2)] by auto
  show ?thesis
  proof (cases "t \<le> t'")
    case True
    then have "bucket_of_grain grain z t = Some b'"
      using bucketing.bucket_shared [OF law, OF z t(2,1) b(2)] c s by simp
    with b show ?thesis by simp
  next
    case False
    then have "bucket_of_grain grain z t' = Some b"
      using bucketing.bucket_shared [OF law, OF z t b(1)] c s by simp
    with b show ?thesis by simp
  qed
qed

interpretation activity: grouped_rows activity_item activity_key activity_new activity_add activity_less activity_row_key
proof
  show "activity_new c = activity_new c'"
    if "activity_item z c" "activity_item z c'" "activity_key c = activity_key c'" for z c c'
  proof -
    obtain g b e g' b' e' where c: "c = (g, b, e)" "c' = (g', b', e')" by (metis prod_cases3)
    then have z: "zone_ok z" "grain_known g" "g' = g" "time_ok (ev_Timestamp e)" "time_ok (ev_Timestamp e')"
      "bucket_of_grain g z (ev_Timestamp e) = Some b" "bucket_of_grain g z (ev_Timestamp e') = Some b'"
      "bk_Start b = bk_Start b'"
      using that by (auto simp: activity_item_def all_grains_known grain_text_inject)
    then have "b = b'" by (intro bucket_by_start)
    then show ?thesis using that c z by simp
  qed
  show "activity_add c (activity_add c' row) = activity_add c' (activity_add c row)" for c c' row
    by (cases c; cases c') (simp add: wrap64_swap)
  show "\<not> activity_less x x" for x by (simp add: activity_less_def)
  show "activity_less x z" if "activity_less x y" "activity_less y z" for x y z
    using that by (auto simp: activity_less_def split: if_splits dest: less_trans)
  show "activity_less x y \<or> activity_less y x" if "activity_row_key x \<noteq> activity_row_key y" for x y
    using that by (auto simp: activity_less_def activity_row_key_def)
  show "activity_row_key (activity_new c) = activity_key c" for c
    by (cases c) (simp add: activity_row_key_def)
  show "activity_row_key (activity_add c row) = activity_row_key row" for c row
    by (cases c) (simp add: activity_row_key_def)
qed

section \<open>What the rows say\<close>

lemma add_grain_ok:
  assumes "zone_ok z" and "time_ok (ev_Timestamp e)" and "grain_known grain"
  shows "add_grain z now e grain m =
    Inr (if too_old now grain (ev_Timestamp e) then m
         else group_add activity_key activity_new activity_add
                (grain, the (bucket_of_grain grain z (ev_Timestamp e)), e) m)"
proof -
  obtain b where b: "bucket_of_grain grain z (ev_Timestamp e) = Some b"
    using bucketing.bucket_exists [OF grain_bucketing [OF assms(3)], OF assms(1,2)] by blast
  then have "bucket_or_error z grain (ev_Timestamp e) = Inr b"
    by (simp add: bucket_or_error_def bucket_of_grain_iff)
  with b show ?thesis by (simp add: add_grain_def)
qed

lemma foldE_grains:
  assumes "zone_ok z" and "time_ok (ev_Timestamp e)" and "list_all grain_known gs"
  shows "foldE (add_grain z now e) gs m =
    Inr (fold (group_add activity_key activity_new activity_add)
          (map (\<lambda>grain. (grain, the (bucket_of_grain grain z (ev_Timestamp e)), e))
            (filter (\<lambda>grain. \<not> too_old now grain (ev_Timestamp e)) gs)) m)"
  using assms(3) by (induction gs arbitrary: m) (simp_all add: add_grain_ok assms(1,2))

lemma foldE_events:
  assumes "zone_ok z" and "list_all (\<lambda>e. time_ok (ev_Timestamp e)) events"
  shows "foldE (\<lambda>event. foldE (add_grain z now event) allGrains) events m =
    Inr (fold (group_add activity_key activity_new activity_add) (contributions z now events) m)"
proof -
  have "list_all grain_known allGrains" by (simp add: list_all_iff all_grains_known)
  with assms show ?thesis
    by (induction events arbitrary: m) (simp_all add: foldE_grains contributions_def contributions_of_def)
qed

lemma build_rows:
  assumes "zone_ok z" and "list_all (\<lambda>e. time_ok (ev_Timestamp e)) events"
  shows "ActivityBuildRows ord z events now = Inr (activity.rows_of ord (contributions z now events))"
  by (simp add: ActivityBuildRows_def foldE_events [OF assms] activity.rows_of_def)

lemma contribution_items:
  assumes "zone_ok z" and "list_all (\<lambda>e. time_ok (ev_Timestamp e)) events"
  shows "list_all (activity_item z) (contributions z now events)"
proof -
  have "activity_item z (g, the (bucket_of_grain g z (ev_Timestamp e)), e)"
    if "e \<in> set events" "g \<in> set allGrains" for e g
  proof -
    have "time_ok (ev_Timestamp e)" using that assms(2) by (simp add: list_all_iff)
    then show ?thesis
      using bucketing.bucket_exists [OF grain_bucketing, OF _ assms(1), of g "ev_Timestamp e"] that assms(1)
      by (auto simp: all_grains_known activity_item_def)
  qed
  then show ?thesis by (auto simp: contributions_def contributions_of_def list_all_iff)
qed

lemma contributions_perm: "mset es = mset es' \<Longrightarrow> mset (contributions z now es) = mset (contributions z now es')"
  by (simp add: contributions_def mset_concat flip: sum_mset_sum_list)

text \<open>
  The activity rows do not depend on anything accidental: not on the order in which the events are
  read, nor on the order in which the runtime walks its map.  Migration and runtime write the same rows.
\<close>

lemma activity_rows_deterministic:
  assumes "zone_ok z" and "list_all (\<lambda>e. time_ok (ev_Timestamp e)) events"
    and "mset events = mset events'" and "iteration_order ord" and "iteration_order ord'"
  shows "ActivityBuildRows ord z events now = ActivityBuildRows ord' z events' now"
proof -
  have ok': "list_all (\<lambda>e. time_ok (ev_Timestamp e)) events'"
    using assms(2) mset_eq_setD [OF assms(3)] by (simp add: list_all_iff)
  show ?thesis
    unfolding build_rows [OF assms(1,2)] build_rows [OF assms(1) ok']
    using activity.rows_perm [OF contributions_perm [OF assms(3)] assms(4,5) contribution_items [OF assms(1,2)]]
    by simp
qed

text \<open>The events a row stands for.\<close>

definition counted_in :: "gtime \<Rightarrow> UsageActivityStat \<Rightarrow> UsageEvent \<Rightarrow> bool" where
  "counted_in now row e \<longleftrightarrow> \<not> too_old now (as_Grain row) (ev_Timestamp e) \<and>
     as_BucketStart row \<le> ev_Timestamp e \<and> ev_Timestamp e < as_BucketEnd row \<and>
     as_APIGroupKey row = NormalizeAPIGroupKey (ev_APIGroupKey e)"

lemma filter_one: "distinct xs \<Longrightarrow> x \<in> set xs \<Longrightarrow> filter (\<lambda>y. y = x \<and> P y) xs = (if P x then [x] else [])"
  by (induction xs) (auto simp: filter_empty_conv)

text \<open>The contributions with the key of one of them are the events counted in its row, once each.\<close>

lemma same_key:
  assumes z: "zone_ok z" and ok: "list_all (\<lambda>e. time_ok (ev_Timestamp e)) events"
    and item: "activity_item z (g, b, e0)"
    and row: "as_Grain row = g" "as_BucketStart row = bk_Start b" "as_BucketEnd row = bk_End b"
      "as_APIGroupKey row = NormalizeAPIGroupKey (ev_APIGroupKey e0)"
  shows "filter (\<lambda>c. activity_key c = activity_key (g, b, e0)) (contributions z now events) =
    map (\<lambda>e. (g, the (bucket_of_grain g z (ev_Timestamp e)), e)) (filter (counted_in now row) events)"
proof -
  have g: "g \<in> set allGrains" "grain_known g" "time_ok (ev_Timestamp e0)" "bucket_of_grain g z (ev_Timestamp e0) = Some b"
    using item by (auto simp: activity_item_def all_grains_known)
  note law = grain_bucketing [OF g(2)]
  let ?b = "\<lambda>h e. the (bucket_of_grain h z (ev_Timestamp e))"
  have same: "bk_Start (?b g e) = bk_Start b \<longleftrightarrow> bk_Start b \<le> ev_Timestamp e \<and> ev_Timestamp e < bk_End b"
    if e: "e \<in> set events" for e
  proof -
    have t: "time_ok (ev_Timestamp e)" using ok e by (simp add: list_all_iff)
    then obtain b' where b': "bucket_of_grain g z (ev_Timestamp e) = Some b'"
      using bucketing.bucket_exists [OF law, OF z] by blast
    note c = bucketing.bucket_contains [OF law, OF z t b']
    show ?thesis
      using bucket_by_start [OF z g(2) t g(3) b' g(4)] c b'
        bucketing.bucket_shared [OF law, OF z g(3) t g(4)] by auto
  qed
  have one: "filter (\<lambda>c. activity_key c = activity_key (g, b, e0)) (contributions_of z now e) =
      (if counted_in now row e then [(g, ?b g e, e)] else [])" if e: "e \<in> set events" for e
  proof -
    have "filter (\<lambda>c. activity_key c = activity_key (g, b, e0)) (contributions_of z now e) =
        map (\<lambda>h. (h, ?b h e, e)) (filter (\<lambda>h. h = g \<and> counted_in now row e) allGrains)"
      unfolding contributions_of_def filter_map filter_filter comp_def
      by (rule arg_cong [where f = "map _"], rule filter_cong [OF refl])
         (use same [OF e] g(2) row in \<open>auto simp: all_grains_known grain_text_inject counted_in_def\<close>)
    also have "distinct allGrains" by (simp add: allGrains_def)
    then have "filter (\<lambda>h. h = g \<and> counted_in now row e) allGrains = (if counted_in now row e then [g] else [])"
      using g(1) by (rule filter_one)
    finally show ?thesis by simp
  qed
  have "filter (\<lambda>c. activity_key c = activity_key (g, b, e0)) (concat (map (contributions_of z now) es)) =
      map (\<lambda>e. (g, ?b g e, e)) (filter (counted_in now row) es)" if "set es \<subseteq> set events" for es
    using that by (induction es) (simp_all del: activity_key.simps add: one)
  then show ?thesis by (simp add: contributions_def)
qed

text \<open>The columns of a row after a run of \<open>activity_add\<close>.\<close>

lemma activity_columns:
  fixes cs :: "contribution list"
  assumes "row = activity_new c" and "row' = fold activity_add cs row"
  shows "as_Grain row' = as_Grain row" "as_BucketStart row' = as_BucketStart row" "as_BucketEnd row' = as_BucketEnd row"
    "as_APIGroupKey row' = as_APIGroupKey row"
    "as_SuccessCount row' = wrap64 (\<Sum>(g, b, e)\<leftarrow>cs. of_bool (\<not> ev_Failed e))"
    "as_FailureCount row' = wrap64 (\<Sum>(g, b, e)\<leftarrow>cs. of_bool (ev_Failed e))"
    "as_InputTokens row' = wrap64 (\<Sum>(g, b, e)\<leftarrow>cs. ev_InputTokens e)"
    "as_OutputTokens row' = wrap64 (\<Sum>(g, b, e)\<leftarrow>cs. ev_OutputTokens e)"
    "as_ReasoningTokens row' = wrap64 (\<Sum>(g, b, e)\<leftarrow>cs. ev_ReasoningTokens e)"
    "as_CacheReadTokens row' = wrap64 (\<Sum>(g, b, e)\<leftarrow>cs. ev_CacheReadTokens e)"
    "as_CacheCreationTokens row' = wrap64 (\<Sum>(g, b, e)\<leftarrow>cs. ev_CacheCreationTokens e)"
    "as_TotalTokens row' = wrap64 (\<Sum>(g, b, e)\<leftarrow>cs. ev_TotalTokens e)"
proof -
  have keep: "f row' = f row" if "\<And>c r. f (activity_add c r) = f r" for f :: "UsageActivityStat \<Rightarrow> 'x"
    unfolding assms(2) using that by (rule fold_keeps)
  have wr: "f row' = wrap64 (\<Sum>(g, b, e)\<leftarrow>cs. h e)"
    if "\<And>g b e r. i64 (f r) \<Longrightarrow> f (activity_add (g, b, e) r) = wrap64 (f r + h e)" "f row = 0"
    for f :: "UsageActivityStat \<Rightarrow> int" and h
    unfolding assms(2) using fold_wrap64 [of f activity_add "\<lambda>(g, b, e). h e" row cs] that
    by (auto simp: i64_def)
  show "as_Grain row' = as_Grain row" unfolding assms(2) by (rule fold_keeps) auto
  show "as_BucketStart row' = as_BucketStart row" unfolding assms(2) by (rule fold_keeps) auto
  show "as_BucketEnd row' = as_BucketEnd row" unfolding assms(2) by (rule fold_keeps) auto
  show "as_APIGroupKey row' = as_APIGroupKey row" unfolding assms(2) by (rule fold_keeps) auto
  have zero: "as_SuccessCount row = 0" "as_FailureCount row = 0" "as_InputTokens row = 0" "as_OutputTokens row = 0"
    "as_ReasoningTokens row = 0" "as_CacheReadTokens row = 0" "as_CacheCreationTokens row = 0" "as_TotalTokens row = 0"
    unfolding assms(1) by (cases c; simp)+
  show "as_SuccessCount row' = wrap64 (\<Sum>(g, b, e)\<leftarrow>cs. of_bool (\<not> ev_Failed e))"
    "as_FailureCount row' = wrap64 (\<Sum>(g, b, e)\<leftarrow>cs. of_bool (ev_Failed e))"
    by (rule wr; simp add: wrap64_id zero)+
  show "as_InputTokens row' = wrap64 (\<Sum>(g, b, e)\<leftarrow>cs. ev_InputTokens e)"
    "as_OutputTokens row' = wrap64 (\<Sum>(g, b, e)\<leftarrow>cs. ev_OutputTokens e)"
    "as_ReasoningTokens row' = wrap64 (\<Sum>(g, b, e)\<leftarrow>cs. ev_ReasoningTokens e)"
    "as_CacheReadTokens row' = wrap64 (\<Sum>(g, b, e)\<leftarrow>cs. ev_CacheReadTokens e)"
    "as_CacheCreationTokens row' = wrap64 (\<Sum>(g, b, e)\<leftarrow>cs. ev_CacheCreationTokens e)"
    "as_TotalTokens row' = wrap64 (\<Sum>(g, b, e)\<leftarrow>cs. ev_TotalTokens e)"
    by (rule wr; simp add: zero)+
qed

text \<open>
  A row is right for a list of events when each of its columns is the count or sum over them, up to the
  wrap-around of \<open>int64\<close>.
\<close>

definition row_counts :: "UsageActivityStat \<Rightarrow> UsageEvent list \<Rightarrow> bool" where
  "row_counts row es \<longleftrightarrow>
     as_SuccessCount row = wrap64 (int (length (filter (\<lambda>e. \<not> ev_Failed e) es))) \<and>
     as_FailureCount row = wrap64 (int (length (filter ev_Failed es))) \<and>
     as_InputTokens row = wrap64 (sum_list (map ev_InputTokens es)) \<and>
     as_OutputTokens row = wrap64 (sum_list (map ev_OutputTokens es)) \<and>
     as_ReasoningTokens row = wrap64 (sum_list (map ev_ReasoningTokens es)) \<and>
     as_CacheReadTokens row = wrap64 (sum_list (map ev_CacheReadTokens es)) \<and>
     as_CacheCreationTokens row = wrap64 (sum_list (map ev_CacheCreationTokens es)) \<and>
     as_TotalTokens row = wrap64 (sum_list (map ev_TotalTokens es))"

lemma sum_of_bool: "(\<Sum>e\<leftarrow>es. of_bool (P e)) = int (length (filter P es))"
  by (induction es) simp_all

lemma row_of_counts:
  assumes "zone_ok z" and "list_all (\<lambda>e. time_ok (ev_Timestamp e)) events"
    and item: "activity_item z (g, b, e0)" and row: "row = activity.row_of (contributions z now events) (g, b, e0)"
  shows "as_Grain row = g" "as_BucketStart row = bk_Start b" "as_BucketEnd row = bk_End b"
    "as_APIGroupKey row = NormalizeAPIGroupKey (ev_APIGroupKey e0)"
    "row_counts row (filter (counted_in now row) events)"
proof -
  let ?cs = "filter (\<lambda>c. activity_key c = activity_key (g, b, e0)) (contributions z now events)"
  have r: "row = fold activity_add ?cs (activity_new (g, b, e0))" unfolding row activity.row_of_def ..
  note col = activity_columns [OF refl r]
  show h: "as_Grain row = g" "as_BucketStart row = bk_Start b" "as_BucketEnd row = bk_End b"
    "as_APIGroupKey row = NormalizeAPIGroupKey (ev_APIGroupKey e0)"
    using col(1-4) by simp_all
  note cs = same_key [OF assms(1,2) item h, of now]
  have s: "(\<Sum>(g, b, e)\<leftarrow>?cs. f e) = (\<Sum>e\<leftarrow>filter (counted_in now row) events. f e)" for f :: "UsageEvent \<Rightarrow> int"
    unfolding cs by (simp add: comp_def)
  show "row_counts row (filter (counted_in now row) events)"
    unfolding row_counts_def using col(5-12) unfolding s sum_of_bool by simp
qed

text \<open>The row of a contribution: what it counts, and that no other row of its grain counts the event.\<close>

lemma contribution_row:
  assumes "zone_ok z" and "list_all (\<lambda>e. time_ok (ev_Timestamp e)) events"
    and c: "(g, b, e) \<in> set (contributions z now events)"
    and r: "r = activity.row_of (contributions z now events) (g, b, e)"
  shows "as_Grain r = g \<and> counted_in now r e \<and> row_counts r (filter (counted_in now r) events) \<and> e \<in> set events"
proof -
  have item: "activity_item z (g, b, e)"
    using contribution_items [OF assms(1,2), of now] c by (simp add: list_all_iff)
  then have "bk_Start b \<le> ev_Timestamp e" "ev_Timestamp e < bk_End b"
    using bucketing.bucket_contains [OF grain_bucketing, OF _ assms(1), of g "ev_Timestamp e" b]
    by (auto simp: activity_item_def all_grains_known)
  moreover have "\<not> too_old now g (ev_Timestamp e)" "e \<in> set events"
    using c by (auto simp: contributions_def contributions_of_def)
  ultimately show ?thesis
    using row_of_counts [OF assms(1,2) item refl, of now] by (simp add: counted_in_def r)
qed

lemma contribution_row_unique:
  assumes "zone_ok z" and "list_all (\<lambda>e. time_ok (ev_Timestamp e)) events"
    and c: "(grain, the (bucket_of_grain grain z (ev_Timestamp e)), e) \<in> set (contributions z now events)"
    and e': "(grain, b, e') \<in> set (contributions z now events)"
    and row: "row = activity.row_of (contributions z now events) (grain, b, e')" "counted_in now row e"
  shows "row = activity.row_of (contributions z now events) (grain, the (bucket_of_grain grain z (ev_Timestamp e)), e)"
proof -
  let ?cs = "contributions z now events" and ?c = "(grain, the (bucket_of_grain grain z (ev_Timestamp e)), e)"
  note items = contribution_items [OF assms(1,2), of now]
  have item: "activity_item z (grain, b, e')" using items e' by (simp add: list_all_iff)
  have "e \<in> set events" using c by (auto simp: contributions_def contributions_of_def)
  moreover have "filter (\<lambda>c. activity_key c = activity_key (grain, b, e')) ?cs =
      map (\<lambda>e. (grain, the (bucket_of_grain grain z (ev_Timestamp e)), e)) (filter (counted_in now row) events)"
    using row_of_counts [OF assms(1,2) item row(1)] by (intro same_key [OF assms(1,2) item])
  ultimately have "?c \<in> set (filter (\<lambda>c. activity_key c = activity_key (grain, b, e')) ?cs)"
    using row(2) by simp
  then have "activity_key ?c = activity_key (grain, b, e')" by simp
  then show ?thesis
    using row(1) activity.new_row_key [of z ?c "(grain, b, e')"] item items c
    by (simp add: activity.row_of_def list_all_iff)
qed

text \<open>
  C14: The activity table counts every event exactly once per grain.  When \<open>BuildRows\<close> has run, the rows
  are strictly sorted, so no key occurs twice; each row's columns are the counts and sums over exactly
  the events of its bucket and API group that are within the retention; and for each event and each
  grain that still retains it there is exactly one row it is counted in.
\<close>

theorem activity_rows_complete:
  assumes "zone_ok z" and "list_all (\<lambda>e. time_ok (ev_Timestamp e)) events" and "iteration_order ord"
  shows "\<exists>rows. ActivityBuildRows ord z events now = Inr rows \<and> sorted_wrt activity_less rows \<and>
    (\<forall>row \<in> set rows. row_counts row (filter (counted_in now row) events) \<and>
       filter (counted_in now row) events \<noteq> []) \<and>
    (\<forall>e \<in> set events. \<forall>grain \<in> set allGrains. \<not> too_old now grain (ev_Timestamp e) \<longrightarrow>
       (\<exists>!row. row \<in> set rows \<and> as_Grain row = grain \<and> counted_in now row e))"
proof -
  let ?cs = "contributions z now events"
  define rows where "rows = activity.rows_of ord ?cs"
  note items = contribution_items [OF assms(1,2), of now]
  note counts = contribution_row [OF assms(1,2)]
  have iff: "row \<in> set rows \<longleftrightarrow> (\<exists>c \<in> set ?cs. row = activity.row_of ?cs c)" for row
    unfolding rows_def by (rule activity.rows_of_iff [OF assms(3) items])
  have each: "row_counts row (filter (counted_in now row) events) \<and> filter (counted_in now row) events \<noteq> []"
    if "row \<in> set rows" for row
    using that counts unfolding iff by (fastforce simp: filter_empty_conv)
  have unique: "\<exists>!row. row \<in> set rows \<and> as_Grain row = grain \<and> counted_in now row e"
    if e: "e \<in> set events" "grain \<in> set allGrains" "\<not> too_old now grain (ev_Timestamp e)" for e grain
  proof -
    let ?c = "(grain, the (bucket_of_grain grain z (ev_Timestamp e)), e)"
    have c: "?c \<in> set ?cs" using e by (auto simp: contributions_def contributions_of_def)
    have "row = activity.row_of ?cs ?c"
      if r: "row \<in> set rows" "as_Grain row = grain" "counted_in now row e" for row
    proof -
      obtain g b e' where e': "(g, b, e') \<in> set ?cs" "row = activity.row_of ?cs (g, b, e')"
        using r(1) unfolding iff by (metis prod_cases3)
      with counts r(2) have "g = grain" by metis
      with e' r(3) show ?thesis by (intro contribution_row_unique [OF assms(1,2) c]) simp_all
    qed
    moreover have "activity.row_of ?cs ?c \<in> set rows" using c unfolding iff by blast
    ultimately show ?thesis using counts [OF c refl] by blast
  qed
  show ?thesis
    using build_rows [OF assms(1,2), of ord now] activity.rows_sorted [OF assms(3) items] each unique
    by (intro exI [of _ rows]) (simp add: rows_def [symmetric])
qed

theorem activity_rows_complete_witness:
  "\<exists>rows. ActivityBuildRows (\<lambda>m. m) (fixed_zone 0) [sample_event] (time_unix 1700000000) = Inr rows \<and> length rows \<ge> 1"
proof -
  have z: "zone_ok (fixed_zone 0)" "list_all (\<lambda>e. time_ok (ev_Timestamp e)) [sample_event]"
    by (simp_all add: zone_ok_fixed_zone time_ok_def sample_event_def)
  obtain rows where r: "ActivityBuildRows (\<lambda>m. m) (fixed_zone 0) [sample_event] (time_unix 1700000000) = Inr rows"
    "\<forall>e \<in> set [sample_event]. \<forall>grain \<in> set allGrains. \<not> too_old (time_unix 1700000000) grain (ev_Timestamp e) \<longrightarrow>
       (\<exists>!row. row \<in> set rows \<and> as_Grain row = grain \<and> counted_in (time_unix 1700000000) row e)"
    using activity_rows_complete [OF z iteration_order_id, of "time_unix 1700000000"] by blast
  have "\<not> too_old (time_unix 1700000000) UsageActivityGrainDaily (ev_Timestamp sample_event)"
    "UsageActivityGrainDaily \<in> set allGrains"
    by (simp_all add: too_old_def Retention_def grainRetentions_def allGrains_def)
  then have "rows \<noteq> []" using r(2) by (auto simp del: ex_simps)
  with r(1) show ?thesis by (cases rows) auto
qed

end
