(* ===== verification/Overview.thy ===== *)
theory Overview
  imports Grouping
begin

text \<open>
  \<open>internal/overview/aggregate.go\<close>: \<open>BuildRows\<close> groups usage events into the hourly and the daily rows of
  the overview tables, in one pass.  The two row types have the same columns, so one record models both.
\<close>

section \<open>Dimensions\<close>

record aggregateDimensions =
  dim_APIGroupKey :: string
  dim_Model :: string
  dim_AuthIndex :: string
  dim_ModelAlias :: string
  dim_ServiceTier :: string
  dim_ResponseServiceTier :: string
  dim_ReasoningEffort :: string
  dim_Endpoint :: string
  dim_ExecutorType :: string

type_synonym overviewKey = "gtime \<times> aggregateDimensions"

definition normalizeRequiredDimension :: "string \<Rightarrow> string" where
  "normalizeRequiredDimension v = (let trimmed = go_trim_space v in if trimmed = [] then ''unknown'' else trimmed)"

definition normalizeOptionalDimension :: "string \<Rightarrow> string" where
  "normalizeOptionalDimension v = go_trim_space v"

definition event_dimensions :: "UsageEvent \<Rightarrow> aggregateDimensions" where
  "event_dimensions event =
     \<lparr>dim_APIGroupKey = normalizeRequiredDimension (ev_APIGroupKey event),
      dim_Model = normalizeRequiredDimension (ev_Model event),
      dim_AuthIndex = normalizeOptionalDimension (ev_AuthIndex event),
      dim_ModelAlias = (case ev_ModelAlias event of Some a \<Rightarrow> normalizeOptionalDimension a | None \<Rightarrow> []),
      dim_ServiceTier = normalizeOptionalDimension (ev_ServiceTier event),
      dim_ResponseServiceTier = normalizeOptionalDimension (ev_ResponseServiceTier event),
      dim_ReasoningEffort = normalizeOptionalDimension (ev_ReasoningEffort event),
      dim_Endpoint = normalizeOptionalDimension (ev_Endpoint event),
      dim_ExecutorType = normalizeOptionalDimension (ev_ExecutorType event)\<rparr>"

definition dimension_values :: "aggregateDimensions \<Rightarrow> string list" where
  "dimension_values d =
     [dim_APIGroupKey d, dim_Model d, dim_AuthIndex d, dim_ModelAlias d, dim_ServiceTier d,
      dim_ResponseServiceTier d, dim_ReasoningEffort d, dim_Endpoint d, dim_ExecutorType d]"

fun values_less :: "(string \<times> string) list \<Rightarrow> bool" where
  "values_less [] = False"
| "values_less ((l, r) # rest) = (if l \<noteq> r then l < r else values_less rest)"

definition dimensionsLess :: "overviewKey \<Rightarrow> overviewKey \<Rightarrow> bool" where
  "dimensionsLess l r =
     (if fst l \<noteq> fst r then fst l < fst r
      else values_less (zip (dimension_values (snd l)) (dimension_values (snd r))))"

section \<open>Rows\<close>

record UsageOverviewStat =
  ov_BucketStart :: gtime
  ov_Dimensions :: aggregateDimensions
  ov_RequestCount :: int
  ov_SuccessCount :: int
  ov_FailureCount :: int
  ov_InputTokens :: int
  ov_OutputTokens :: int
  ov_ReasoningTokens :: int
  ov_CachedTokens :: int
  ov_CacheReadTokens :: int
  ov_CacheCreationTokens :: int
  ov_TotalTokens :: int
  ov_CreatedAt :: gtime
  ov_UpdatedAt :: gtime

definition overview_new :: "overviewKey \<times> UsageEvent \<Rightarrow> UsageOverviewStat" where
  "overview_new item =
     \<lparr>ov_BucketStart = fst (fst item), ov_Dimensions = snd (fst item), ov_RequestCount = 0, ov_SuccessCount = 0,
      ov_FailureCount = 0, ov_InputTokens = 0, ov_OutputTokens = 0, ov_ReasoningTokens = 0, ov_CachedTokens = 0,
      ov_CacheReadTokens = 0, ov_CacheCreationTokens = 0, ov_TotalTokens = 0, ov_CreatedAt = zero_time,
      ov_UpdatedAt = zero_time\<rparr>"

definition addEventToRow :: "overviewKey \<times> UsageEvent \<Rightarrow> UsageOverviewStat \<Rightarrow> UsageOverviewStat" where
  "addEventToRow item row =
     (let event = snd item in
      row\<lparr>ov_RequestCount := wrap64 (ov_RequestCount row + 1),
          ov_FailureCount := (if ev_Failed event then wrap64 (ov_FailureCount row + 1) else ov_FailureCount row),
          ov_SuccessCount := (if ev_Failed event then ov_SuccessCount row else wrap64 (ov_SuccessCount row + 1)),
          ov_InputTokens := wrap64 (ov_InputTokens row + ev_InputTokens event),
          ov_OutputTokens := wrap64 (ov_OutputTokens row + ev_OutputTokens event),
          ov_ReasoningTokens := wrap64 (ov_ReasoningTokens row + ev_ReasoningTokens event),
          ov_CachedTokens := wrap64 (ov_CachedTokens row + ev_CachedTokens event),
          ov_CacheReadTokens := wrap64 (ov_CacheReadTokens row + ev_CacheReadTokens event),
          ov_CacheCreationTokens := wrap64 (ov_CacheCreationTokens row + ev_CacheCreationTokens event),
          ov_TotalTokens := wrap64 (ov_TotalTokens row + ev_TotalTokens event)\<rparr>)"

definition overview_row_key :: "UsageOverviewStat \<Rightarrow> overviewKey" where
  "overview_row_key row = (ov_BucketStart row, ov_Dimensions row)"

definition overviewRowLess :: "UsageOverviewStat \<Rightarrow> UsageOverviewStat \<Rightarrow> bool" where
  "overviewRowLess l r = dimensionsLess (overview_row_key l) (overview_row_key r)"

section \<open>BuildRows\<close>

text \<open>\<open>t.Truncate(time.Hour)\<close> counts hours from the zero time.\<close>

definition truncate_hour :: "gtime \<Rightarrow> gtime" where
  "truncate_hour t = t - (t - zero_time) mod Hour"

definition hour_key :: "UsageEvent \<Rightarrow> overviewKey" where
  "hour_key event = (truncate_hour (ev_Timestamp event), event_dimensions event)"

definition day_key :: "zone \<Rightarrow> UsageEvent \<Rightarrow> overviewKey" where
  "day_key z event = (midnight z (local_day z (ev_Timestamp event)), event_dimensions event)"

type_synonym overview_map = "(overviewKey, UsageOverviewStat) gomap"

definition overview_group :: "overviewKey \<times> UsageEvent \<Rightarrow> overview_map \<Rightarrow> overview_map" where
  "overview_group = group_add fst overview_new addEventToRow"

definition overview_step ::
  "zone \<Rightarrow> UsageEvent \<Rightarrow> overview_map \<times> overview_map \<times> int \<Rightarrow> overview_map \<times> overview_map \<times> int" where
  "overview_step z event s =
     (let (hourly, daily, maxEventID) = s in
      (overview_group (hour_key event, event) hourly, overview_group (day_key z event, event) daily,
       if ev_ID event > maxEventID then ev_ID event else maxEventID))"

definition OverviewBuildRows ::
  "(overview_map \<Rightarrow> overview_map) \<Rightarrow> zone \<Rightarrow> UsageEvent list \<Rightarrow>
     UsageOverviewStat list \<times> UsageOverviewStat list \<times> int" where
  "OverviewBuildRows ord z events =
     (let (hourly, daily, maxEventID) = fold (overview_step z) events ([], [], 0) in
      (sort_slice overviewRowLess (map snd (ord hourly)), sort_slice overviewRowLess (map snd (ord daily)), maxEventID))"

section \<open>The order on rows\<close>

lemma values_less_irrefl: "\<not> values_less (zip xs xs)"
  by (induction xs) simp_all

lemma values_less_trans:
  "length xs = length ys \<Longrightarrow> length ys = length zs \<Longrightarrow>
   values_less (zip xs ys) \<Longrightarrow> values_less (zip ys zs) \<Longrightarrow> values_less (zip xs zs)"
  by (induction xs ys zs rule: list_induct3) (auto split: if_splits dest: less_trans)

lemma values_less_total: "length xs = length ys \<Longrightarrow> xs \<noteq> ys \<Longrightarrow> values_less (zip xs ys) \<or> values_less (zip ys xs)"
  by (induction xs ys rule: list_induct2) auto

lemma dimension_values_inject: "dimension_values d = dimension_values e \<longleftrightarrow> d = e"
  by (cases d; cases e) (simp add: dimension_values_def)

lemma length_dimension_values: "length (dimension_values d) = 9"
  by (simp add: dimension_values_def)

interpretation overview: grouped_rows "\<lambda>(_ :: unit) _. True" "fst :: overviewKey \<times> UsageEvent \<Rightarrow> overviewKey"
  overview_new addEventToRow overviewRowLess overview_row_key
proof
  note less = overviewRowLess_def dimensionsLess_def
  show "\<not> overviewRowLess x x" for x by (simp add: less values_less_irrefl)
  show "overviewRowLess x z" if "overviewRowLess x y" "overviewRowLess y z" for x y z
    using that values_less_trans [of "dimension_values (ov_Dimensions x)" "dimension_values (ov_Dimensions y)"
        "dimension_values (ov_Dimensions z)"]
    by (auto simp: less overview_row_key_def length_dimension_values split: if_splits)
  show "overviewRowLess x y \<or> overviewRowLess y x" if "overview_row_key x \<noteq> overview_row_key y" for x y
    using that values_less_total [of "dimension_values (ov_Dimensions x)" "dimension_values (ov_Dimensions y)"]
    by (auto simp: less overview_row_key_def length_dimension_values dimension_values_inject)
  show "addEventToRow e (addEventToRow e' row) = addEventToRow e' (addEventToRow e row)" for e e' row
    by (simp add: addEventToRow_def Let_def wrap64_swap)
qed (simp_all add: overview_new_def addEventToRow_def overview_row_key_def Let_def)

section \<open>The two tables\<close>

definition hourly_items :: "UsageEvent list \<Rightarrow> (overviewKey \<times> UsageEvent) list" where
  "hourly_items events = map (\<lambda>e. (hour_key e, e)) events"

definition daily_items :: "zone \<Rightarrow> UsageEvent list \<Rightarrow> (overviewKey \<times> UsageEvent) list" where
  "daily_items z events = map (\<lambda>e. (day_key z e, e)) events"

lemma overview_fold:
  "fold (overview_step z) events (h, d, m) =
     (fold overview_group (hourly_items events) h, fold overview_group (daily_items z events) d,
      fold (\<lambda>e m. max m (ev_ID e)) events m)"
  by (induction events arbitrary: h d m) (simp_all add: overview_step_def hourly_items_def daily_items_def max_def)

lemma overview_build:
  "OverviewBuildRows ord z events =
     (overview.rows_of ord (hourly_items events), overview.rows_of ord (daily_items z events),
      fold (\<lambda>e m. max m (ev_ID e)) events 0)"
  by (simp add: OverviewBuildRows_def overview_fold overview.rows_of_def overview_group_def)

lemma fold_max: "fold (\<lambda>e m. max m (f e)) es m = Max (insert m (f ` set es))" for f :: "'a \<Rightarrow> int"
proof (induction es arbitrary: m)
  case (Cons e es)
  have "Max (insert (max m (f e)) (f ` set es)) = Max (insert m (insert (f e) (f ` set es)))"
    by (cases "f ` set es = {}") (simp_all add: max.assoc)
  then show ?case by (simp add: Cons.IH)
qed simp

text \<open>A row is right for a list of events when every column is the count or sum over them.\<close>

definition overview_counts :: "UsageOverviewStat \<Rightarrow> UsageEvent list \<Rightarrow> bool" where
  "overview_counts row es \<longleftrightarrow>
     ov_RequestCount row = wrap64 (int (length es)) \<and>
     ov_SuccessCount row = wrap64 (int (length (filter (\<lambda>e. \<not> ev_Failed e) es))) \<and>
     ov_FailureCount row = wrap64 (int (length (filter ev_Failed es))) \<and>
     ov_InputTokens row = wrap64 (sum_list (map ev_InputTokens es)) \<and>
     ov_OutputTokens row = wrap64 (sum_list (map ev_OutputTokens es)) \<and>
     ov_ReasoningTokens row = wrap64 (sum_list (map ev_ReasoningTokens es)) \<and>
     ov_CachedTokens row = wrap64 (sum_list (map ev_CachedTokens es)) \<and>
     ov_CacheReadTokens row = wrap64 (sum_list (map ev_CacheReadTokens es)) \<and>
     ov_CacheCreationTokens row = wrap64 (sum_list (map ev_CacheCreationTokens es)) \<and>
     ov_TotalTokens row = wrap64 (sum_list (map ev_TotalTokens es))"

lemma sum_bools: "(\<Sum>x\<leftarrow>xs. of_bool (P x)) = int (length (filter P xs))"
  by (induction xs) simp_all

lemma overview_columns:
  assumes "row = overview_new item"
  shows "overview_counts (fold addEventToRow items row) (map snd items)"
proof -
  have wr: "f (fold addEventToRow items row) = wrap64 (\<Sum>e\<leftarrow>map snd items. g e)"
    if "\<And>item r. i64 (f r) \<Longrightarrow> f (addEventToRow item r) = wrap64 (f r + g (snd item))" "f row = 0"
    for f :: "UsageOverviewStat \<Rightarrow> int" and g
    using fold_wrap64 [of f addEventToRow "g \<circ> snd" row items] that by (simp add: i64_def comp_def)
  note add = addEventToRow_def Let_def overview_new_def assms
  note add_wr = add wrap64_id
  have counts: "ov_RequestCount (fold addEventToRow items row) = wrap64 (\<Sum>e\<leftarrow>map snd items. of_bool True)"
    "ov_SuccessCount (fold addEventToRow items row) = wrap64 (\<Sum>e\<leftarrow>map snd items. of_bool (\<not> ev_Failed e))"
    "ov_FailureCount (fold addEventToRow items row) = wrap64 (\<Sum>e\<leftarrow>map snd items. of_bool (ev_Failed e))"
    by (rule wr; simp add: add_wr)+
  have sums: "ov_InputTokens (fold addEventToRow items row) = wrap64 (\<Sum>e\<leftarrow>map snd items. ev_InputTokens e)"
    "ov_OutputTokens (fold addEventToRow items row) = wrap64 (\<Sum>e\<leftarrow>map snd items. ev_OutputTokens e)"
    "ov_ReasoningTokens (fold addEventToRow items row) = wrap64 (\<Sum>e\<leftarrow>map snd items. ev_ReasoningTokens e)"
    "ov_CachedTokens (fold addEventToRow items row) = wrap64 (\<Sum>e\<leftarrow>map snd items. ev_CachedTokens e)"
    "ov_CacheReadTokens (fold addEventToRow items row) = wrap64 (\<Sum>e\<leftarrow>map snd items. ev_CacheReadTokens e)"
    "ov_CacheCreationTokens (fold addEventToRow items row) = wrap64 (\<Sum>e\<leftarrow>map snd items. ev_CacheCreationTokens e)"
    "ov_TotalTokens (fold addEventToRow items row) = wrap64 (\<Sum>e\<leftarrow>map snd items. ev_TotalTokens e)"
    by (rule wr; simp add: add)+
  show ?thesis unfolding overview_counts_def using counts sums unfolding sum_bools by simp
qed

text \<open>One table, for a key function: what both tables have in common.\<close>

definition table_right :: "(UsageEvent \<Rightarrow> overviewKey) \<Rightarrow> UsageEvent list \<Rightarrow> UsageOverviewStat list \<Rightarrow> bool" where
  "table_right key events rows \<longleftrightarrow> sorted_wrt overviewRowLess rows \<and>
     (\<forall>row \<in> set rows. overview_counts row (filter (\<lambda>e. key e = overview_row_key row) events)) \<and>
     overview_row_key ` set rows = key ` set events"

lemma table_rows:
  assumes "iteration_order ord"
  shows "table_right key events (overview.rows_of ord (map (\<lambda>e. (key e, e)) events))"
proof -
  let ?is = "map (\<lambda>e. (key e, e)) events"
  have ok: "list_all (\<lambda>_. True) ?is" by (simp add: list_all_iff)
  note iff = overview.rows_of_iff [OF assms ok]
  have counts: "overview_counts (overview.row_of ?is c) (filter (\<lambda>e. key e = overview_row_key (overview.row_of ?is c)) events)"
    for c
  proof -
    have "map snd (filter (\<lambda>x. fst x = fst c) ?is) = filter (\<lambda>e. key e = fst c) events"
      by (simp add: filter_map comp_def)
    then show ?thesis
      using overview_columns [OF refl, of "filter (\<lambda>x. fst x = fst c) ?is" c]
      by (simp add: overview.rk_row_of overview.row_of_def [symmetric])
  qed
  have "overview_counts row (filter (\<lambda>e. key e = overview_row_key row) events)"
    if r: "row \<in> set (overview.rows_of ord ?is)" for row
  proof -
    obtain c where "row = overview.row_of ?is c" using iffD1 [OF iff r] by (elim bexE)
    with counts show ?thesis by simp
  qed
  moreover have "overview_row_key ` set (overview.rows_of ord ?is) = key ` set events"
  proof -
    have rows: "set (overview.rows_of ord ?is) = overview.row_of ?is ` set ?is"
      by (simp only: set_eq_iff iff image_iff) simp
    show ?thesis unfolding rows by (simp only: image_image overview.rk_row_of set_map fst_conv)
  qed
  ultimately show ?thesis
    using overview.rows_sorted [OF assms ok] unfolding table_right_def by blast
qed

lemma overview_rows_built:
  assumes "iteration_order ord" and "OverviewBuildRows ord z events = (hourly, daily, maxEventID)"
  shows "table_right hour_key events hourly \<and> table_right (day_key z) events daily \<and>
    maxEventID = Max (insert 0 (ev_ID ` set events))"
  using assms table_rows [OF assms(1), of _ events]
  by (auto simp: overview_build hourly_items_def daily_items_def fold_max)

text \<open>
  C13: Both overview tables are right.  For any events the hourly and the daily rows are strictly sorted
  by bucket and dimensions, so no key occurs twice; there is a row for exactly the keys that occur;
  each row's columns are the counts and sums over exactly the events with its key; and the checkpoint
  is the largest event identifier of the batch (or zero).
\<close>

theorem overview_rows_right:
  assumes "iteration_order ord" and "OverviewBuildRows ord z events = (hourly, daily, maxEventID)"
  shows "table_right hour_key events hourly \<and> table_right (day_key z) events daily \<and>
    maxEventID = Max (insert 0 (ev_ID ` set events))"
  by (rule overview_rows_built [OF assms])

theorem overview_rows_right_witness:
  "\<exists>hourly daily m. OverviewBuildRows rev (fixed_zone 0) [sample_event] = (hourly, daily, m) \<and> m = 1 \<and>
     table_right hour_key [sample_event] hourly"
proof -
  obtain h d m where b: "OverviewBuildRows rev (fixed_zone 0) [sample_event] = (h, d, m)" by (metis prod_cases3)
  show ?thesis using overview_rows_right [OF iteration_order_rev b] b by (simp add: sample_event_def)
qed

text \<open>
  C34: The two tables never disagree: requests and each kind of tokens add up to the same number (as
  64-bit integers) over the hourly rows, over the daily rows and over the events themselves.
\<close>

theorem overview_tables_agree:
  assumes "iteration_order ord" and "OverviewBuildRows ord z events = (hourly, daily, maxEventID)"
    and "(column, field) \<in> {(ov_RequestCount, \<lambda>_. 1), (ov_InputTokens, ev_InputTokens), (ov_OutputTokens, ev_OutputTokens),
      (ov_ReasoningTokens, ev_ReasoningTokens), (ov_CachedTokens, ev_CachedTokens),
      (ov_CacheReadTokens, ev_CacheReadTokens), (ov_CacheCreationTokens, ev_CacheCreationTokens),
      (ov_TotalTokens, ev_TotalTokens)}"
  shows "wrap64 (sum_list (map column hourly)) = wrap64 (sum_list (map field events)) \<and>
    wrap64 (sum_list (map column daily)) = wrap64 (sum_list (map field events))"
proof -
  have add: "column (addEventToRow item row) = wrap64 (column row + (field \<circ> snd) item)" for item row
    using assms(3) by (auto simp: addEventToRow_def Let_def)
  have zero: "column (overview_new item) = 0" for item
    using assms(3) by (auto simp: overview_new_def)
  have "wrap64 (sum_list (map column (overview.rows_of ord (map (\<lambda>e. (key e, e)) events)))) =
      wrap64 (sum_list (map field events))" for key
  proof -
    let ?m = "fold (group_add fst overview_new addEventToRow) (map (\<lambda>e. (key e, e)) events) []"
    have "mset (map column (overview.rows_of ord (map (\<lambda>e. (key e, e)) events))) = mset (map (column \<circ> snd) ?m)"
      using assms(1) by (simp add: overview.rows_of_def iteration_order_def image_mset.compositionality)
    then have "sum_list (map column (overview.rows_of ord (map (\<lambda>e. (key e, e)) events))) = sum_list (map (column \<circ> snd) ?m)"
      by (simp only: flip: sum_mset_sum_list)
    then show ?thesis
      using group_total [of column addEventToRow "field \<circ> snd" overview_new fst "map (\<lambda>e. (key e, e)) events" "[]", OF add zero]
      by (simp add: comp_def)
  qed
  then show ?thesis using assms(2) by (auto simp: overview_build hourly_items_def daily_items_def)
qed

theorem overview_tables_agree_witness:
  "\<exists>hourly daily m. OverviewBuildRows rev (fixed_zone 0) [sample_event, sample_event] = (hourly, daily, m) \<and>
     wrap64 (sum_list (map ov_TotalTokens hourly)) = 30"
proof -
  obtain h d m where b: "OverviewBuildRows rev (fixed_zone 0) [sample_event, sample_event] = (h, d, m)"
    by (metis prod_cases3)
  show ?thesis using overview_tables_agree [OF iteration_order_rev b, of ov_TotalTokens ev_TotalTokens] b
    by (simp add: sample_event_def wrap64_id i64_def)
qed

text \<open>
  The overview rows depend on neither the order of the events nor the order in which the runtime walks
  its maps: a migration that is run again writes the same rows in the same order.
\<close>

theorem overview_rows_deterministic:
  assumes "mset events = mset events'" and "iteration_order ord" and "iteration_order ord'"
  shows "OverviewBuildRows ord z events = OverviewBuildRows ord' z events'"
proof -
  have "mset (map (\<lambda>e. (key e, e)) events) = mset (map (\<lambda>e. (key e, e)) events')" for key :: "UsageEvent \<Rightarrow> overviewKey"
    using assms(1) by simp
  then have "overview.rows_of ord (map (\<lambda>e. (key e, e)) events) = overview.rows_of ord' (map (\<lambda>e. (key e, e)) events')" for key
    using overview.rows_perm [OF _ assms(2,3)] by (simp add: list_all_iff)
  then show ?thesis
    by (simp add: overview_build hourly_items_def daily_items_def fold_max mset_eq_setD [OF assms(1)])
qed

theorem overview_rows_deterministic_witness:
  "OverviewBuildRows (\<lambda>m. m) (fixed_zone 0) [sample_event, sample_event\<lparr>ev_ID := 2\<rparr>] =
   OverviewBuildRows rev (fixed_zone 0) [sample_event\<lparr>ev_ID := 2\<rparr>, sample_event]"
  by (rule overview_rows_deterministic) (simp_all add: iteration_order_id iteration_order_rev)

end
