(* ===== verification/Varint.thy ===== *)
theory Varint
  imports GoBase "HOL-Library.Word"
begin

unbundle bit_operations_syntax

text \<open>
  The byte level of the latency formats (\<open>internal/latency\<close>): \<open>encoding/binary\<close>'s unsigned varints, the
  zigzag map between \<open>int64\<close> and \<open>uint64\<close>, and the checked readers \<open>readUvarint\<close> and
  \<open>readPositiveInt64\<close>.  A \<open>uint64\<close> is a natural number below \<open>2^64\<close>, a byte an 8-bit word, and the
  reader's offset is threaded as a value.
\<close>

type_synonym byte = "8 word"

section \<open>Unsigned varints\<close>

text \<open>\<open>binary.AppendUvarint(nil, x)\<close> and \<open>binary.Uvarint\<close>, which returns a size of 0 for a truncated and a
  negative size for an overlong number.\<close>

function uvarint_bytes :: "nat \<Rightarrow> byte list" where
  "uvarint_bytes x = (if x \<ge> 128 then of_nat (x mod 128 + 128) # uvarint_bytes (x div 128) else [of_nat x])"
  by pat_completeness auto
termination by (relation "measure id") auto

declare uvarint_bytes.simps [simp del]

fun uvarint_loop :: "byte list \<Rightarrow> nat \<Rightarrow> nat \<Rightarrow> nat \<times> int" where
  "uvarint_loop [] i x = (0, 0)"
| "uvarint_loop (b # bs) i x =
     (if i = 10 then (0, - (int i + 1))
      else if unat b < 128 then
        (if i = 9 \<and> unat b > 1 then (0, - (int i + 1)) else (x + unat b * 2 ^ (7 * i), int i + 1))
      else uvarint_loop bs (i + 1) (x + (unat b - 128) * 2 ^ (7 * i)))"

definition Uvarint :: "byte list \<Rightarrow> nat \<times> int" where
  "Uvarint buf = uvarint_loop buf 0 0"

lemma unat_byte: "x < 256 \<Longrightarrow> unat (of_nat x :: byte) = x"
  by (simp add: unat_of_nat take_bit_eq_mod)

lemma uvarint_loop_bytes:
  assumes "i \<le> 9" and "x < 2 ^ (64 - 7 * i)"
  shows "uvarint_loop (uvarint_bytes x @ rest) i acc = (acc + x * 2 ^ (7 * i), int i + int (length (uvarint_bytes x)))"
  using assms
proof (induction x arbitrary: i acc rule: uvarint_bytes.induct)
  case (1 x)
  show ?case
  proof (cases "x < 128")
    case True
    have "i = 9 \<longrightarrow> x \<le> 1" using 1(3) by auto
    then have "\<not> (i = 9 \<and> 1 < x)" by linarith
    with True 1(2) show ?thesis by (subst (1 2) uvarint_bytes.simps) (simp add: unat_byte)
  next
    case False
    have i: "i < 9"
    proof (rule ccontr)
      assume "\<not> i < 9"
      with 1(2) have "i = 9" by simp
      with 1(3) False show False by simp
    qed
    have split: "(2::nat) ^ (64 - 7 * i) = 128 * 2 ^ (64 - 7 * (i + 1))"
    proof -
      have "64 - 7 * i = 7 + (64 - 7 * (i + 1))" using i by simp
      then show ?thesis by (simp only: power_add) simp
    qed
    have "x div 128 < 2 ^ (64 - 7 * (i + 1))"
      using 1(3) unfolding split by (simp add: less_mult_imp_div_less mult.commute)
    then have ih: "uvarint_loop (uvarint_bytes (x div 128) @ rest) (i + 1) a =
        (a + x div 128 * 2 ^ (7 * (i + 1)), int (i + 1) + int (length (uvarint_bytes (x div 128))))" for a
      using 1(1) False i by simp
    have sum: "x mod 128 * 2 ^ (7 * i) + x div 128 * 2 ^ (7 * (i + 1)) = x * 2 ^ (7 * i)"
    proof -
      have "(2::nat) ^ (7 * (i + 1)) = 128 * 2 ^ (7 * i)" by (simp add: power_add)
      then have "x mod 128 * 2 ^ (7 * i) + x div 128 * 2 ^ (7 * (i + 1)) =
          (x mod 128 + x div 128 * 128) * 2 ^ (7 * i)" by (simp only: distrib_right mult.assoc)
      then show ?thesis by simp
    qed
    have u: "unat (of_nat (x mod 128 + 128) :: byte) = x mod 128 + 128" by (rule unat_byte) simp
    show ?thesis using False i ih sum
      by (subst (1 2) uvarint_bytes.simps) (simp add: u add.assoc del: of_nat_add)
  qed
qed

lemma Uvarint_bytes: "x < 2 ^ 64 \<Longrightarrow> Uvarint (uvarint_bytes x @ rest) = (x, int (length (uvarint_bytes x)))"
  using uvarint_loop_bytes [of 0 x rest 0] by (simp add: Uvarint_def)

lemma uvarint_bytes_nonempty [simp]: "uvarint_bytes x \<noteq> []"
  by (subst uvarint_bytes.simps) simp

lemma length_uvarint_bytes: "x < 128 ^ n \<Longrightarrow> 0 < n \<Longrightarrow> length (uvarint_bytes x) \<le> n"
proof (induction n arbitrary: x)
  case (Suc n)
  show ?case
  proof (cases "x < 128")
    case False
    then have "0 < n" using Suc.prems(1) by (cases n) simp_all
    moreover have "x div 128 < 128 ^ n" using Suc.prems(1) by (simp add: less_mult_imp_div_less mult.commute)
    ultimately have "length (uvarint_bytes (x div 128)) \<le> n" by (rule Suc.IH [rotated])
    then show ?thesis using False by (subst uvarint_bytes.simps) simp
  qed (subst uvarint_bytes.simps, simp)
qed simp

lemma length_uvarint64: "x < 2 ^ 64 \<Longrightarrow> length (uvarint_bytes x) \<le> 10"
  by (rule length_uvarint_bytes) simp_all

text \<open>What \<open>Uvarint\<close> returns is within range: the number fits \<open>uint64\<close>, the size the buffer.\<close>

lemma uvarint_loop_bounds:
  assumes "uvarint_loop bs i acc = (x, n)" and "0 < n" and "i \<le> 10" and "acc < 2 ^ (7 * i)" "i \<le> 9 \<or> acc < 2 ^ 64"
  shows "x < 2 ^ 64 \<and> n \<le> int i + int (length bs)"
  using assms
proof (induction bs i acc rule: uvarint_loop.induct)
  case (2 b bs i acc)
  have i: "i < 10" using 2(2,3,4) by (auto split: if_splits)
  have shift: "acc + y * 2 ^ (7 * i) < 2 ^ (7 * i) * 2 ^ k" if "y < 2 ^ k" for y k
  proof -
    have "acc + y * 2 ^ (7 * i) < (y + 1) * 2 ^ (7 * i)" using 2(5) by simp
    also have "\<dots> \<le> 2 ^ k * 2 ^ (7 * i)" using that by (intro mult_right_mono) simp_all
    finally show ?thesis by (simp add: mult.commute)
  qed
  show ?case
  proof (cases "unat b < 128")
    case True
    then have x: "x = acc + unat b * 2 ^ (7 * i)" "n = int i + 1" "i = 9 \<longrightarrow> unat b \<le> 1"
      using 2(2,3) i by (auto split: if_splits)
    have "x < 2 ^ 64"
    proof (cases "i = 9")
      case True
      then have "unat b < 2 ^ 1" using x(3) by simp
      from shift [OF this] True show ?thesis unfolding x(1) by simp
    next
      case False
      have "unat b < 2 ^ 7" using \<open>unat b < 128\<close> by simp
      from shift [OF this] have "x < 2 ^ (7 * i + 7)" unfolding x(1) by (simp add: power_add)
      also have "\<dots> \<le> (2::nat) ^ 64" using False i by (intro power_increasing) simp_all
      finally show ?thesis .
    qed
    with x show ?thesis by simp
  next
    case False
    have b: "unat b - 128 < 2 ^ 7" using unsigned_less [of b, where ?'a = nat] by simp
    have step: "uvarint_loop bs (i + 1) (acc + (unat b - 128) * 2 ^ (7 * i)) = (x, n)"
      using 2(2) False i by simp
    have small: "acc + (unat b - 128) * 2 ^ (7 * i) < 2 ^ (7 * (i + 1))"
      using shift [OF b] by (simp add: power_add mult.commute)
    have last: "i + 1 \<le> 9 \<or> acc + (unat b - 128) * 2 ^ (7 * i) < 2 ^ 64 \<or> bs = [] \<or> i = 9"
      using i by linarith
    show ?thesis
    proof (cases "i = 9")
      case True
      then have "uvarint_loop bs 10 (acc + (unat b - 128) * 2 ^ (7 * i)) = (x, n)" using step by simp
      then have "n \<le> 0" by (cases bs) auto
      with 2(3) show ?thesis by simp
    next
      case i9: False
      then have "i + 1 \<le> 9" using i by simp
      then show ?thesis using 2(1) [OF _ False step 2(3) _ small] i by simp
    qed
  qed
qed simp

lemma Uvarint_bounds: "Uvarint bs = (x, n) \<Longrightarrow> 0 < n \<Longrightarrow> x < 2 ^ 64 \<and> nat n \<le> length bs"
  using uvarint_loop_bounds [of bs 0 0 x n] by (auto simp: Uvarint_def nat_le_iff)

section \<open>Checked readers\<close>

datatype latency_error =
    Truncated string | Overflows string | NotPositive string
  | DataEmpty | UnsupportedVersion nat | BinKeysNotIncreasing | InvalidBinCount nat | TrailingBytes
  | SketchNil | ValueNotPositive int | CountOverflow | BinOverflow int | ZeroBin int
  | SampleNil | SampleNotPositive int int int | ConflictingSample int | SampleLimit nat
  | PriorityMismatch int | SampleOrder | DuplicateSample int
  | RetentionTimeZero | UnsupportedBucketType string | RowError int latency_error

definition readUvarint :: "byte list \<Rightarrow> nat \<Rightarrow> string \<Rightarrow> latency_error + nat \<times> nat" where
  "readUvarint encoded offset field =
     (if offset \<ge> length encoded then Inl (Truncated field)
      else let (v, size) = Uvarint (drop offset encoded) in
           if size = 0 then Inl (Truncated field)
           else if size < 0 then Inl (Overflows field)
           else Inr (v, offset + nat size))"

definition readPositiveInt64 :: "byte list \<Rightarrow> nat \<Rightarrow> string \<Rightarrow> latency_error + int \<times> nat" where
  "readPositiveInt64 encoded offset field =
     bindE (readUvarint encoded offset field) (\<lambda>(v, offset).
       if v = 0 \<or> int v > MaxInt64 then Inl (NotPositive field) else Inr (int v, offset))"

text \<open>
  A format: how values are written, and a reader at an offset that finds them again between whatever
  precedes and follows.
\<close>

locale codec =
  fixes encode :: "'a \<Rightarrow> byte list" and decode :: "byte list \<Rightarrow> nat \<Rightarrow> 'e + 'a \<times> nat" and valid :: "'a \<Rightarrow> bool"
  assumes decode_encode: "valid x \<Longrightarrow> decode (pre @ encode x @ rest) (length pre) = Inr (x, length pre + length (encode x))"
begin

text \<open>Written values can be told apart, even as prefixes of longer data.\<close>

lemma encode_prefix_free:
  assumes "valid x" "valid y" and "encode x @ r = encode y @ s"
  shows "x = y \<and> r = s"
proof -
  have "decode (encode x @ r) 0 = Inr (x, length (encode x))" "decode (encode y @ s) 0 = Inr (y, length (encode y))"
    using decode_encode [of x "[]" r] decode_encode [of y "[]" s] assms by simp_all
  with assms(3) have "x = y" by simp
  with assms(3) show ?thesis by simp
qed

end

lemma read_uvarint_bytes:
  assumes "x < 2 ^ 64"
  shows "readUvarint (pre @ uvarint_bytes x @ rest) (length pre) field = Inr (x, length pre + length (uvarint_bytes x))"
proof -
  have "length (uvarint_bytes x) \<noteq> 0" using uvarint_bytes_nonempty by simp
  then show ?thesis by (simp add: readUvarint_def Uvarint_bytes [OF assms])
qed

interpretation uvarint: codec uvarint_bytes "\<lambda>encoded offset. readUvarint encoded offset field" "\<lambda>x. x < 2 ^ 64"
  for field
  by unfold_locales (rule read_uvarint_bytes)

interpretation positive: codec "\<lambda>v. uvarint_bytes (nat v)" "\<lambda>encoded offset. readPositiveInt64 encoded offset field"
  "\<lambda>v. 0 < v \<and> i64 v" for field
proof
  fix v :: int and pre rest
  assume v: "0 < v \<and> i64 v"
  then have "nat v < 2 ^ 64" by (simp add: i64_def nat_less_iff)
  then show "readPositiveInt64 (pre @ uvarint_bytes (nat v) @ rest) (length pre) field =
      Inr (v, length pre + length (uvarint_bytes (nat v)))"
    using v by (auto simp: readPositiveInt64_def read_uvarint_bytes i64_def nat_le_iff not_less)
qed

lemma readUvarint_bounds:
  "readUvarint encoded offset field = Inr (x, offset') \<Longrightarrow> x < 2 ^ 64 \<and> offset < offset' \<and> offset' \<le> length encoded"
  by (auto simp: readUvarint_def Let_def split: if_splits prod.splits dest!: Uvarint_bounds)

lemma readPositiveInt64_bounds:
  "readPositiveInt64 encoded offset field = Inr (x, offset') \<Longrightarrow> 0 < x \<and> i64 x"
  by (auto simp: readPositiveInt64_def bindE_Inr i64_def split: if_splits)

section \<open>Zigzag\<close>

definition zigzagEncode :: "64 word \<Rightarrow> 64 word" where
  "zigzagEncode v = push_bit 1 v XOR signed_drop_bit 63 v"

definition zigzagDecode :: "64 word \<Rightarrow> 64 word" where
  "zigzagDecode v = drop_bit 1 v XOR - (v AND 1)"

lemma bit_zigzagEncode:
  assumes "n < 64"
  shows "bit (zigzagEncode v) n \<longleftrightarrow> (n > 0 \<and> bit v (n - 1)) \<noteq> bit v 63"
proof -
  have "bit (push_bit 1 v) n \<longleftrightarrow> n > 0 \<and> bit v (n - 1)"
    using assms by (auto simp: bit_push_bit_iff simp del: push_bit_of_1 push_bit_Suc)
  moreover have "bit (signed_drop_bit 63 v) n \<longleftrightarrow> bit v 63"
    using assms by (cases n) (auto simp: bit_signed_drop_bit_iff)
  ultimately show ?thesis by (simp add: zigzagEncode_def bit_xor_iff)
qed

lemma zigzag_round_trip: "zigzagDecode (zigzagEncode v) = v"
proof (rule bit_eqI)
  fix n assume "possible_bit TYPE(64 word) n"
  then have n: "n < 64" by simp
  have sign: "zigzagEncode v AND 1 = of_bool (bit v 63)"
    by (rule bit_eqI) (auto simp: bit_and_iff bit_zigzagEncode bit_1_iff bit_of_bool_iff)
  have "bit (- (zigzagEncode v AND 1)) n \<longleftrightarrow> bit v 63"
    unfolding sign using n by (simp add: of_bool_def)
  moreover have "\<not> bit (zigzagEncode v) 64" using bit_imp_le_length [of "zigzagEncode v" 64] by auto
  ultimately show "bit (zigzagDecode (zigzagEncode v)) n = bit v n"
    using n by (cases "n = 63") (auto simp: zigzagDecode_def bit_xor_iff bit_drop_bit_eq bit_zigzagEncode)
qed

end

