(* ===== verification/LatencySketch.thy ===== *)
theory LatencySketch
  imports Varint
begin

text \<open>
  \<open>internal/latency/sketch.go\<close>: the logarithmic-bin sketch of a latency distribution, its merge, its
  95th percentile and its binary format.  Two quantities come out of floating-point functions of the C
  and Go runtimes and are parameters: \<open>bin_key v\<close>, the integer
  \<open>int64(math.Ceil(math.Log(float64(v)) / sketchLogGamma))\<close>, and \<open>raw k\<close>, the integral value
  \<open>math.Round(2 * math.Pow(sketchGamma, float64(k)) / (sketchGamma + 1))\<close>.
\<close>

section \<open>The sketch\<close>

record Sketch =
  bins :: "(int, nat) gomap"
  sk_count :: nat

abbreviation FormatVersion :: byte where "FormatVersion \<equiv> 1"
abbreviation MaxU64 :: nat where "MaxU64 \<equiv> 18446744073709551615"

definition NewSketch :: Sketch where
  "NewSketch = \<lparr>bins = [], sk_count = 0\<rparr>"

text \<open>\<open>sketch.bins[key]\<close>, which is zero for a missing key.\<close>

definition bin :: "Sketch \<Rightarrow> int \<Rightarrow> nat" where
  "bin s key = (case mget (bins s) key of Some c \<Rightarrow> c | None \<Rightarrow> 0)"

text \<open>A nil receiver is \<open>None\<close>.  Every check precedes the update, so an error leaves the sketch as it was.\<close>

definition sketch_Add :: "(int \<Rightarrow> int) \<Rightarrow> Sketch option \<Rightarrow> int \<Rightarrow> latency_error + Sketch" where
  "sketch_Add bin_key sketch v =
     (case sketch of
        None \<Rightarrow> Inl SketchNil
      | Some s \<Rightarrow>
          if v \<le> 0 then Inl (ValueNotPositive v)
          else let key = bin_key v in
               if bin s key = MaxU64 \<or> sk_count s = MaxU64 then Inl CountOverflow
               else Inr (s\<lparr>bins := mput (bins s) key (bin s key + 1), sk_count := sk_count s + 1\<rparr>))"

text \<open>
  The loop of \<open>Merge\<close> over the other map, in the order the runtime visits it; an overflow stops it
  with part of the bins already merged.
\<close>

fun merge_bins :: "(int \<times> nat) list \<Rightarrow> Sketch \<Rightarrow> latency_error option \<times> Sketch" where
  "merge_bins [] s = (None, s)"
| "merge_bins ((key, cnt) # rest) s =
     (if bin s key > MaxU64 - cnt then (Some (BinOverflow key), s)
      else merge_bins rest (s\<lparr>bins := mput (bins s) key (bin s key + cnt)\<rparr>))"

type_synonym bin_order = "(int, nat) gomap \<Rightarrow> (int, nat) gomap"

definition sketch_Merge ::
  "bin_order \<Rightarrow> Sketch option \<Rightarrow> Sketch option \<Rightarrow> latency_error option \<times> Sketch option" where
  "sketch_Merge ord sketch other =
     (case (sketch, other) of
        (Some s, Some t) \<Rightarrow>
          if sk_count s > MaxU64 - sk_count t then (Some CountOverflow, Some s)
          else (case merge_bins (ord (bins t)) s of
                  (Some e, s') \<Rightarrow> (Some e, Some s')
                | (None, s') \<Rightarrow> (None, Some (s'\<lparr>sk_count := sk_count s' + sk_count t\<rparr>)))
      | _ \<Rightarrow> (Some SketchNil, sketch))"

definition sketch_Count :: "Sketch option \<Rightarrow> nat" where
  "sketch_Count sketch = (case sketch of None \<Rightarrow> 0 | Some s \<Rightarrow> sk_count s)"

definition sortedKeys :: "bin_order \<Rightarrow> Sketch \<Rightarrow> int list" where
  "sortedKeys ord s = sort_slice (<) (map fst (ord (bins s)))"

text \<open>
  The conversion of a float above the range of \<open>int64\<close> is capped; \<open>float64(math.MaxInt64)\<close> is \<open>2^63\<close>, so
  \<open>2^63\<close> itself is not, and converts to the smallest \<open>int64\<close>.
\<close>

definition sketchRepresentativeValue :: "(int \<Rightarrow> int) \<Rightarrow> int \<Rightarrow> int" where
  "sketchRepresentativeValue raw key =
     (if raw key < 1 then 1 else if raw key > 2 ^ 63 then MaxInt64 else wrap64 (raw key))"

text \<open>The scan of \<open>P95\<close>; \<open>None\<close> when no bin reaches the rank.\<close>

fun p95_scan :: "Sketch \<Rightarrow> nat \<Rightarrow> int list \<Rightarrow> nat \<Rightarrow> int option" where
  "p95_scan s rank [] cumulative = None"
| "p95_scan s rank (key # keys) cumulative =
     (let cumulative = (cumulative + bin s key) mod 2 ^ 64 in
      if cumulative \<ge> rank then Some key else p95_scan s rank keys cumulative)"

text \<open>\<open>None\<close> is the panic of indexing the last of no keys.\<close>

definition sketch_P95 :: "bin_order \<Rightarrow> (int \<Rightarrow> int) \<Rightarrow> Sketch option \<Rightarrow> int option" where
  "sketch_P95 ord raw sketch =
     (case sketch of
        None \<Rightarrow> Some 0
      | Some s \<Rightarrow>
          if sk_count s = 0 then Some 0
          else
            let rank = ((sk_count s * 95) mod 2 ^ 64 + 99) mod 2 ^ 64 div 100;
                keys = sortedKeys ord s
            in case p95_scan s rank keys 0 of
                 Some key \<Rightarrow> Some (sketchRepresentativeValue raw key)
               | None \<Rightarrow> if keys = [] then None else Some (sketchRepresentativeValue raw (last keys)))"

section \<open>The binary format\<close>

definition key_bytes :: "int \<Rightarrow> byte list" where
  "key_bytes key = uvarint_bytes (unat (zigzagEncode (word_of_int key)))"

fun marshal_bins :: "Sketch \<Rightarrow> int list \<Rightarrow> byte list \<Rightarrow> latency_error + byte list" where
  "marshal_bins s [] encoded = Inr encoded"
| "marshal_bins s (key # keys) encoded =
     (let cnt = bin s key in
      if cnt = 0 then Inl (ZeroBin key)
      else marshal_bins s keys (encoded @ key_bytes key @ uvarint_bytes cnt))"

definition sketch_MarshalBinary :: "bin_order \<Rightarrow> Sketch option \<Rightarrow> latency_error + byte list" where
  "sketch_MarshalBinary ord sketch =
     (case sketch of
        None \<Rightarrow> Inl SketchNil
      | Some s \<Rightarrow>
          (let keys = sortedKeys ord s
           in marshal_bins s keys ([FormatVersion] @ uvarint_bytes (length keys))))"

definition read_key :: "byte list \<Rightarrow> nat \<Rightarrow> latency_error + int \<times> nat" where
  "read_key encoded offset =
     bindE (readUvarint encoded offset ''sketch bin key'') (\<lambda>(encodedKey, offset).
       Inr (sint (zigzagDecode (of_nat encodedKey)), offset))"

text \<open>The loop over the remaining bins; \<open>first\<close> is \<open>index = 0\<close>.\<close>

fun unmarshal_bins ::
  "byte list \<Rightarrow> nat \<Rightarrow> bool \<Rightarrow> int \<Rightarrow> nat \<Rightarrow> Sketch \<Rightarrow> latency_error + Sketch \<times> nat" where
  "unmarshal_bins encoded 0 first previousKey offset s = Inr (s, offset)"
| "unmarshal_bins encoded (Suc n) first previousKey offset s =
     bindE (read_key encoded offset) (\<lambda>(key, offset).
       if \<not> first \<and> key \<le> previousKey then Inl BinKeysNotIncreasing
       else bindE (readUvarint encoded offset ''sketch bin count'') (\<lambda>(cnt, offset).
         if cnt = 0 \<or> sk_count s > MaxU64 - cnt then Inl (InvalidBinCount cnt)
         else unmarshal_bins encoded n False key offset
                (s\<lparr>bins := mput (bins s) key cnt, sk_count := sk_count s + cnt\<rparr>)))"

definition UnmarshalSketch :: "byte list \<Rightarrow> latency_error + Sketch" where
  "UnmarshalSketch encoded =
     (if encoded = [] then Inl DataEmpty
      else if hd encoded \<noteq> FormatVersion then Inl (UnsupportedVersion (unat (hd encoded)))
      else bindE (readUvarint encoded 1 ''sketch bin count'') (\<lambda>(binCount, offset).
           bindE (unmarshal_bins encoded binCount True 0 offset NewSketch) (\<lambda>(sketch, offset).
           if offset \<noteq> length encoded then Inl TrailingBytes else Inr sketch)))"

section \<open>Abstraction: the multiset of samples\<close>

text \<open>
  A sketch stands for a list of samples when each bin holds the number of samples with its key.
\<close>

definition in_bin :: "(int \<Rightarrow> int) \<Rightarrow> int list \<Rightarrow> int \<Rightarrow> nat" where
  "in_bin bin_key vs key = length (filter (\<lambda>v. bin_key v = key) vs)"

definition represents :: "(int \<Rightarrow> int) \<Rightarrow> Sketch \<Rightarrow> int list \<Rightarrow> bool" where
  "represents bin_key s vs \<longleftrightarrow> wf_map (bins s) \<and>
     mget (bins s) = (\<lambda>k. if in_bin bin_key vs k = 0 then None else Some (in_bin bin_key vs k)) \<and>
     sk_count s = length vs"

lemma represents_bin: "represents bin_key s vs \<Longrightarrow> bin s k = in_bin bin_key vs k"
  by (simp add: represents_def bin_def)

lemma in_bin_append [simp]: "in_bin bin_key (vs @ ws) k = in_bin bin_key vs k + in_bin bin_key ws k"
  by (simp add: in_bin_def)

lemma in_bin_le: "in_bin bin_key vs k \<le> length vs"
  by (simp add: in_bin_def)

lemma represents_new: "represents bin_key NewSketch []"
  by (simp add: represents_def NewSketch_def in_bin_def)

lemma represents_keys: "represents bin_key s vs \<Longrightarrow> set (map fst (bins s)) = bin_key ` set vs"
proof -
  assume r: "represents bin_key s vs"
  have "k \<in> set (map fst (bins s)) \<longleftrightarrow> in_bin bin_key vs k \<noteq> 0" for k
    using r mget_None_iff [of "bins s" k] by (auto simp: represents_def mkeys_def split: if_splits)
  then show ?thesis by (simp only: set_eq_iff) (auto simp: in_bin_def filter_empty_conv)
qed

lemma represents_add:
  assumes "represents bin_key s vs" and "0 < v" and "length vs < MaxU64"
  shows "\<exists>s'. sketch_Add bin_key (Some s) v = Inr s' \<and> represents bin_key s' (vs @ [v])"
proof -
  have "bin s (bin_key v) < MaxU64" "sk_count s < MaxU64"
    using assms in_bin_le [of bin_key vs "bin_key v"] by (auto simp: represents_bin represents_def)
  moreover have "represents bin_key (s\<lparr>bins := mput (bins s) (bin_key v) (bin s (bin_key v) + 1),
      sk_count := sk_count s + 1\<rparr>) (vs @ [v])"
    using assms(1) represents_bin [OF assms(1), of "bin_key v"]
    by (auto simp: represents_def in_bin_def fun_eq_iff)
  ultimately show ?thesis using assms(2) by (simp add: sketch_Add_def Let_def)
qed

section \<open>Merge\<close>

lemma merge_bins_spec:
  assumes "distinct (map fst rest)" and "wf_map (bins s)"
    and "\<And>k c. (k, c) \<in> set rest \<Longrightarrow> bin s k + c \<le> MaxU64"
  shows "\<exists>s'. merge_bins rest s = (None, s') \<and> wf_map (bins s') \<and> sk_count s' = sk_count s \<and>
    mget (bins s') = (\<lambda>k. case mget rest k of Some c \<Rightarrow> Some (bin s k + c) | None \<Rightarrow> mget (bins s) k)"
  using assms
proof (induction rest arbitrary: s)
  case (Cons kc rest)
  obtain k c where kc: "kc = (k, c)" by (cases kc)
  have new: "mget rest k = None" using Cons.prems(1) kc by (simp add: map_of_eq_None_iff)
  let ?s = "s\<lparr>bins := mput (bins s) k (bin s k + c)\<rparr>"
  have le: "\<not> bin s k > MaxU64 - c" using Cons.prems(3) [of k c] kc by auto
  have bins: "bin ?s j = (if j = k then bin s k + c else bin s j)" for j by (simp add: bin_def)
  obtain s' where s': "merge_bins rest ?s = (None, s')" "wf_map (bins s')" "sk_count s' = sk_count ?s"
    "mget (bins s') = (\<lambda>j. case mget rest j of Some d \<Rightarrow> Some (bin ?s j + d) | None \<Rightarrow> mget (bins ?s) j)"
  proof -
    have "bin ?s j + d \<le> MaxU64" if "(j, d) \<in> set rest" for j d
    proof -
      have "j \<noteq> k" using that Cons.prems(1) kc by force
      then show ?thesis using that Cons.prems(3) [of j d] by (simp add: bins)
    qed
    moreover have "wf_map (bins ?s)" using Cons.prems(2) by auto
    ultimately show ?thesis using Cons.IH [of ?s] Cons.prems(1) kc that by auto
  qed
  have "mget (bins s') = (\<lambda>j. case mget (kc # rest) j of Some d \<Rightarrow> Some (bin s j + d) | None \<Rightarrow> mget (bins s) j)"
    unfolding s'(4) bins using new by (auto simp: kc fun_eq_iff split: option.split)
  then show ?case using s' le by (simp add: kc)
qed simp

lemma represents_merge:
  assumes s: "represents bin_key s vs" and t: "represents bin_key t ws" and o: "iteration_order ord"
    and len: "length vs + length ws \<le> MaxU64"
  shows "\<exists>u. sketch_Merge ord (Some s) (Some t) = (None, Some u) \<and> represents bin_key u (vs @ ws)"
proof -
  have wf: "wf_map (bins s)" "wf_map (bins t)" using s t by (simp_all add: represents_def)
  have same: "mget (ord (bins t)) = mget (bins t)" "distinct (map fst (ord (bins t)))"
  proof -
    have "mset (map fst (ord (bins t))) = mset (map fst (bins t))"
      using o by (simp add: iteration_order_def)
    then show d: "distinct (map fst (ord (bins t)))"
      using wf(2) by (metis mset_eq_imp_distinct_iff mkeys_def wf_map_def)
    show "mget (ord (bins t)) = mget (bins t)"
      using d wf(2) iteration_order_set [OF o, of "bins t"]
      by (intro map_of_eqI) (auto simp: wf_map_def mkeys_def)
  qed
  have le: "bin s k + c \<le> MaxU64" if "(k, c) \<in> set (ord (bins t))" for k c
  proof -
    have "mget (bins t) k = Some c" using that wf(2) o by (simp add: mget_iff iteration_order_set)
    then have "c = in_bin bin_key ws k" using t by (auto simp: represents_def split: if_splits)
    then show ?thesis
      using len represents_bin [OF s, of k] in_bin_le [of bin_key vs k] in_bin_le [of bin_key ws k] by simp
  qed
  obtain u where u: "merge_bins (ord (bins t)) s = (None, u)" "wf_map (bins u)" "sk_count u = sk_count s"
    "mget (bins u) = (\<lambda>k. case mget (bins t) k of Some c \<Rightarrow> Some (bin s k + c) | None \<Rightarrow> mget (bins s) k)"
    using merge_bins_spec [OF same(2) wf(1) le] same(1) by auto
  have "mget (bins u) = (\<lambda>k. if in_bin bin_key (vs @ ws) k = 0 then None else Some (in_bin bin_key (vs @ ws) k))"
    unfolding u(4) using s t represents_bin [OF s] by (auto simp: represents_def fun_eq_iff)
  then have "represents bin_key (u\<lparr>sk_count := sk_count u + sk_count t\<rparr>) (vs @ ws)"
    using u s t by (simp add: represents_def)
  moreover have "\<not> sk_count s > MaxU64 - sk_count t" using len s t by (auto simp: represents_def)
  ultimately show ?thesis using u(1) by (simp add: sketch_Merge_def)
qed

section \<open>Sorted keys and the percentile\<close>

interpretation key_order: row_order "(<) :: int \<Rightarrow> int \<Rightarrow> bool" id
  by unfold_locales auto

lemma sortedKeys_spec:
  assumes "wf_map (bins s)" and "iteration_order ord"
  shows "sorted_wrt (<) (sortedKeys ord s)" "set (sortedKeys ord s) = set (map fst (bins s))"
    "sortedKeys ord s = sortedKeys (\<lambda>m. m) s"
proof -
  have ms: "mset (map fst (ord (bins s))) = mset (map fst (bins s))"
    using assms(2) by (simp add: iteration_order_def)
  have d: "distinct (map fst (bins s))" using assms(1) by (simp add: wf_map_def mkeys_def)
  then have d': "distinct (map fst (ord (bins s)))" by (metis ms mset_eq_imp_distinct_iff)
  show "sorted_wrt (<) (sortedKeys ord s)"
    unfolding sortedKeys_def using d' by (intro key_order.sorted_sort_slice) simp
  show "set (sortedKeys ord s) = set (map fst (bins s))"
    unfolding sortedKeys_def using mset_eq_setD [OF ms] by simp
  show "sortedKeys ord s = sortedKeys (\<lambda>m. m) s"
    unfolding sortedKeys_def using ms d' by (intro key_order.sort_slice_perm) simp_all
qed

lemma sum_in_bin:
  "distinct ks \<Longrightarrow> (\<Sum>k\<leftarrow>ks. in_bin bin_key vs k) = length (filter (\<lambda>v. bin_key v \<in> set ks) vs)"
proof (induction ks)
  case (Cons k ks)
  have "length (filter (\<lambda>v. bin_key v = k \<or> bin_key v \<in> set ks) vs) =
      length (filter (\<lambda>v. bin_key v = k) vs) + length (filter (\<lambda>v. bin_key v \<in> set ks) vs)"
    using Cons.prems by (induction vs) auto
  with Cons show ?case by (simp add: in_bin_def)
qed (simp add: in_bin_def)

lemma p95_scan_spec:
  assumes "cum + (\<Sum>k\<leftarrow>pre @ [key]. bin s k) < 2 ^ 64"
    and "pre \<noteq> [] \<longrightarrow> cum + (\<Sum>k\<leftarrow>pre. bin s k) < rank" and "rank \<le> cum + (\<Sum>k\<leftarrow>pre @ [key]. bin s k)"
  shows "p95_scan s rank (pre @ key # post) cum = Some key"
  using assms
proof (induction pre arbitrary: cum)
  case (Cons k pre)
  let ?c = "cum + bin s k"
  have small: "?c < 18446744073709551616" using Cons.prems(1) by simp
  have "?c < rank" using Cons.prems(2) by simp
  moreover have "p95_scan s rank (pre @ key # post) ?c = Some key"
    by (rule Cons.IH) (use Cons.prems in \<open>simp_all add: add.assoc\<close>)
  ultimately show ?case using small by (simp add: Let_def)
qed (simp add: Let_def)

text \<open>Positions in a sorted list.\<close>

lemma sorted_counts:
  fixes xs :: "int list"
  assumes "sorted xs" and "i < length xs"
  shows "length (filter (\<lambda>x. x < xs ! i) xs) \<le> i" and "i < length (filter (\<lambda>x. x \<le> xs ! i) xs)"
proof -
  have "{j. j < length xs \<and> xs ! j < xs ! i} \<subseteq> {..<i}"
    using assms by (auto simp: not_less[symmetric] dest: sorted_nth_mono)
  then have "card {j. j < length xs \<and> xs ! j < xs ! i} \<le> card {..<i}" by (rule card_mono [OF finite_lessThan])
  then show "length (filter (\<lambda>x. x < xs ! i) xs) \<le> i" by (simp add: length_filter_conv_card)
  have "{..i} \<subseteq> {j. j < length xs \<and> xs ! j \<le> xs ! i}"
    using assms by (auto intro: sorted_nth_mono)
  then have "card {..i} \<le> card {j. j < length xs \<and> xs ! j \<le> xs ! i}" by (intro card_mono) simp_all
  then show "i < length (filter (\<lambda>x. x \<le> xs ! i) xs)" by (simp add: length_filter_conv_card)
qed

text \<open>
  The bin the scan stops at: with keys that grow with the value, the bin of the sample at the rank.
\<close>

lemma p95_scan_rank:
  assumes r: "represents bin_key s vs" and o: "iteration_order ord"
    and mono: "\<And>v w. v \<in> set vs \<Longrightarrow> w \<in> set vs \<Longrightarrow> v \<le> w \<Longrightarrow> bin_key v \<le> bin_key w"
    and rank: "0 < rank" "rank \<le> length vs" and small: "length vs < 2 ^ 64"
  shows "p95_scan s rank (sortedKeys ord s) 0 = Some (bin_key (sort vs ! (rank - 1)))"
proof -
  define w where "w = sort vs ! (rank - 1)"
  have w: "w \<in> set vs" using rank nth_mem [of "rank - 1" "sort vs"] by (simp add: w_def)
  have wf: "wf_map (bins s)" using r by (simp add: represents_def)
  note ks = sortedKeys_spec [OF wf o]
  have set: "set (sortedKeys ord s) = bin_key ` set vs" using ks(2) represents_keys [OF r] by simp
  then obtain pre post where split: "sortedKeys ord s = pre @ bin_key w # post"
    using w by (metis image_eqI in_set_conv_decomp)
  have sorted: "sorted_wrt (<) (pre @ bin_key w # post)" using ks(1) split by simp
  have pre_set: "k \<in> set pre \<longleftrightarrow> k \<in> bin_key ` set vs \<and> k < bin_key w" for k
  proof -
    have i: "bin_key ` set vs = set pre \<union> insert (bin_key w) (set post)" using set split by auto
    show ?thesis unfolding i using sorted by (auto simp: sorted_wrt_append)
  qed
  have distinct: "distinct (pre @ [bin_key w])"
    using sorted by (induction pre) (auto simp: sorted_wrt_append)
  have counts: "(\<Sum>k\<leftarrow>ks. bin s k) = (\<Sum>k\<leftarrow>ks. in_bin bin_key vs k)" for ks
    by (simp add: represents_bin [OF r])
  have lt: "vs ! i < w" if "i < length vs" "bin_key (vs ! i) \<in> set pre" for i
    using that mono [OF w, of "vs ! i"] by (meson linorder_not_less nth_mem pre_set)
  have le: "bin_key (vs ! i) \<in> set (pre @ [bin_key w])" if "i < length vs" "vs ! i \<le> w" for i
    using that mono [of "vs ! i" w] w pre_set [of "bin_key (vs ! i)"] nth_mem [of i vs] by auto
  have below: "(\<Sum>k\<leftarrow>pre. bin s k) < rank"
  proof -
    have "(\<Sum>k\<leftarrow>pre. bin s k) = length (filter (\<lambda>v. bin_key v \<in> set pre) vs)"
      unfolding counts using distinct by (intro sum_in_bin) simp
    also have "\<dots> \<le> length (filter (\<lambda>v. v < w) vs)"
      unfolding length_filter_conv_card
      by (rule card_mono) (use lt in auto)
    also have "\<dots> = length (filter (\<lambda>v. v < w) (sort vs))"
      by (metis mset_filter mset_sort size_mset)
    also have "\<dots> \<le> rank - 1" unfolding w_def using rank by (intro sorted_counts(1)) simp_all
    finally show ?thesis using rank by simp
  qed
  have above: "rank \<le> (\<Sum>k\<leftarrow>pre @ [bin_key w]. bin s k)"
  proof -
    have "rank - 1 < length (filter (\<lambda>v. v \<le> w) (sort vs))"
      unfolding w_def using rank by (intro sorted_counts(2)) simp_all
    also have "\<dots> = length (filter (\<lambda>v. v \<le> w) vs)" by (metis mset_filter mset_sort size_mset)
    also have "\<dots> \<le> length (filter (\<lambda>v. bin_key v \<in> set (pre @ [bin_key w])) vs)"
      unfolding length_filter_conv_card
      by (rule card_mono) (use le in auto)
    also have "\<dots> = (\<Sum>k\<leftarrow>pre @ [bin_key w]. bin s k)"
      unfolding counts using sum_in_bin [OF distinct] by simp
    finally show ?thesis using rank by simp
  qed
  have total: "(\<Sum>k\<leftarrow>pre @ [bin_key w]. bin s k) \<le> length vs"
    unfolding counts sum_in_bin [OF distinct] by simp
  show ?thesis unfolding split w_def [symmetric]
    by (rule p95_scan_spec) (use below above total small in simp_all)
qed

text \<open>
  C32: The percentile is the nearest-rank one.  For a sketch that holds the samples \<open>vs\<close> the answer of \<open>P95\<close> is
  the representative value of the bin of the sample at position \<open>ceil(0.95 n)\<close> of the sorted samples,
  whatever order they were added or merged in and whatever order the runtime walks the map in.  It needs
  that bin keys do not decrease with the value, as the logarithm's do not, and that \<open>95 n + 99\<close>
  fits a \<open>uint64\<close>.
\<close>

theorem p95_nearest_rank:
  assumes "represents bin_key s vs" and "iteration_order ord" and "vs \<noteq> []"
    and "\<And>v w. v \<in> set vs \<Longrightarrow> w \<in> set vs \<Longrightarrow> v \<le> w \<Longrightarrow> bin_key v \<le> bin_key w"
    and "95 * length vs + 99 < 2 ^ 64"
  shows "sketch_P95 ord raw (Some s) =
    Some (sketchRepresentativeValue raw (bin_key (sort vs ! ((95 * length vs + 99) div 100 - 1))))"
proof -
  let ?n = "length vs" and ?rank = "(95 * length vs + 99) div 100"
  have n: "sk_count s = ?n" "0 < ?n" using assms(1,3) by (simp_all add: represents_def)
  have rank: "0 < ?rank" "?rank \<le> ?n" using n by linarith+
  have "((?n * 95) mod 2 ^ 64 + 99) mod 2 ^ 64 div 100 = ?rank"
    using assms(5) by (simp add: mult.commute)
  moreover have "p95_scan s ?rank (sortedKeys ord s) 0 = Some (bin_key (sort vs ! (?rank - 1)))"
    by (rule p95_scan_rank [OF assms(1,2,4) rank]) (use assms(5) in simp_all)
  ultimately show ?thesis using n by (simp only: sketch_P95_def option.case Let_def) simp
qed

theorem p95_nearest_rank_witness:
  "\<exists>s. sketch_Add (\<lambda>v. v) (Some NewSketch) 40 = Inr s \<and> sketch_P95 rev (\<lambda>k. k) (Some s) = Some 40"
proof -
  obtain s where s: "sketch_Add (\<lambda>v. v) (Some NewSketch) 40 = Inr s" "represents (\<lambda>v. v) s ([] @ [40])"
    using represents_add [OF represents_new, of 40 "\<lambda>v. v"] by auto
  show ?thesis
    using p95_nearest_rank [OF s(2) iteration_order_rev, of "\<lambda>k. k"] s(1)
    by (simp add: sketchRepresentativeValue_def wrap64_def)
qed

text \<open>
  Beyond that bound the product \<open>count * 95\<close> wraps around: a sketch of \<open>2^64 - 1\<close> samples, all but
  one of them in bin 2, reports the bin of the single smallest one.
\<close>

theorem p95_wraps:
  "\<exists>s. wf_map (bins s) \<and> sk_count s = (\<Sum>(k, c)\<leftarrow>bins s. c) \<and> bin s 1 = 1 \<and> bin s 2 = 2 ^ 64 - 2 \<and>
     sketch_P95 (\<lambda>m. m) (\<lambda>k. k) (Some s) = Some 1"
proof -
  let ?s = "\<lparr>bins = [(1, 1), (2, 18446744073709551614)], sk_count = MaxU64\<rparr>"
  have "sketch_P95 (\<lambda>m. m) (\<lambda>k. k) (Some ?s) = Some 1"
    by (simp add: sketch_P95_def sortedKeys_def sort_slice_def bin_def sketchRepresentativeValue_def wrap64_def)
  then show ?thesis
    by (intro exI [of _ ?s]) (simp add: wf_map_def mkeys_def bin_def)
qed

text \<open>
  C31: Merging is union of the samples.  As long as the counts fit a \<open>uint64\<close>, merging never fails and the
  result stands for the samples of both sketches together; so merging in any order or grouping gives
  the same bins.
\<close>

theorem sketch_merge_union:
  assumes "represents bin_key s vs" and "represents bin_key t ws" and "iteration_order ord"
    and "length vs + length ws \<le> MaxU64"
  shows "\<exists>u. sketch_Merge ord (Some s) (Some t) = (None, Some u) \<and> represents bin_key u (vs @ ws) \<and>
    (\<exists>u'. sketch_Merge ord (Some t) (Some s) = (None, Some u') \<and> mget (bins u') = mget (bins u) \<and>
       sk_count u' = sk_count u)"
proof -
  obtain u where u: "sketch_Merge ord (Some s) (Some t) = (None, Some u)" "represents bin_key u (vs @ ws)"
    using represents_merge [OF assms] by blast
  obtain u' where u': "sketch_Merge ord (Some t) (Some s) = (None, Some u')" "represents bin_key u' (ws @ vs)"
    using represents_merge [OF assms(2,1,3)] assms(4) by auto
  have "mget (bins u') = mget (bins u)" "sk_count u' = sk_count u"
    using u(2) u'(2) by (auto simp: represents_def add.commute)
  with u u' show ?thesis by blast
qed

theorem sketch_merge_union_witness:
  "\<exists>s u. sketch_Add (\<lambda>v. v) (Some NewSketch) 40 = Inr s \<and> sketch_Merge rev (Some s) (Some s) = (None, Some u) \<and>
     sk_count u = 2"
proof -
  obtain s where s: "sketch_Add (\<lambda>v. v) (Some NewSketch) 40 = Inr s" "represents (\<lambda>v. v) s ([] @ [40])"
    using represents_add [OF represents_new, of 40 "\<lambda>v. v"] by auto
  show ?thesis
    using sketch_merge_union [OF s(2) s(2) iteration_order_rev] s(1) by (auto simp: represents_def)
qed

section \<open>Round trip\<close>

definition sketch_inv :: "Sketch \<Rightarrow> bool" where
  "sketch_inv s \<longleftrightarrow> wf_map (bins s) \<and> (\<forall>(k, c) \<in> set (bins s). 0 < c \<and> i64 k) \<and>
     sk_count s = (\<Sum>(k, c)\<leftarrow>bins s. c) \<and> sk_count s \<le> MaxU64"

lemma sint_i64: "i64 k \<Longrightarrow> sint (word_of_int k :: 64 word) = k"
  by (simp add: i64_def int_word_sint)

lemma i64_sint: "i64 (sint (w :: 64 word))"
  using sint_greater_eq [of w] sint_less [of w] by (simp add: i64_def)

lemma unat_word64: "unat (w :: 64 word) < 2 ^ 64"
  using unsigned_less [of w, where ?'a = nat] by simp

text \<open>Keys and bins are codecs too.\<close>

interpretation key_codec: codec key_bytes read_key i64
proof
  fix k pre rest
  assume k: "i64 k"
  show "read_key (pre @ key_bytes k @ rest) (length pre) = Inr (k, length pre + length (key_bytes k))"
    by (simp add: read_key_def key_bytes_def read_uvarint_bytes [OF unat_word64] zigzag_round_trip sint_i64 [OF k])
qed

definition bin_bytes :: "int \<times> nat \<Rightarrow> byte list" where
  "bin_bytes kc = key_bytes (fst kc) @ uvarint_bytes (snd kc)"

lemma marshal_bins_ok:
  "(\<And>k. k \<in> set keys \<Longrightarrow> bin s k \<noteq> 0) \<Longrightarrow>
   marshal_bins s keys encoded = Inr (encoded @ concat (map (\<lambda>k. bin_bytes (k, bin s k)) keys))"
  by (induction keys arbitrary: encoded) (simp_all add: Let_def bin_bytes_def)

lemma unmarshal_bins_ok:
  assumes "sorted_wrt (<) (map fst kcs)" and "\<And>k c. (k, c) \<in> set kcs \<Longrightarrow> 0 < c \<and> i64 k"
    and "sk_count s + (\<Sum>(k, c)\<leftarrow>kcs. c) \<le> MaxU64"
    and "\<not> first \<Longrightarrow> \<forall>k \<in> fst ` set kcs. prev < k" and "fst ` set kcs \<inter> set (mkeys (bins s)) = {}"
  shows "unmarshal_bins (pre @ concat (map bin_bytes kcs) @ rest) (length kcs) first prev (length pre) s =
    Inr (\<lparr>bins = bins s @ kcs, sk_count = sk_count s + (\<Sum>(k, c)\<leftarrow>kcs. c)\<rparr>,
         length pre + length (concat (map bin_bytes kcs)))"
  using assms
proof (induction kcs arbitrary: pre first prev s)
  case (Cons kc kcs)
  obtain k c where kc: "kc = (k, c)" by (cases kc)
  have c: "0 < c" "i64 k" "c < 2 ^ 64" "sk_count s + c \<le> MaxU64"
    using Cons.prems(2) [of k c] Cons.prems(3) kc by auto
  let ?tail = "concat (map bin_bytes kcs) @ rest"
  have data: "pre @ concat (map bin_bytes (kc # kcs)) @ rest = pre @ key_bytes k @ uvarint_bytes c @ ?tail"
    by (simp add: kc bin_bytes_def)
  have bb: "bin_bytes (k, c) = key_bytes k @ uvarint_bytes c" by (simp add: bin_bytes_def)
  have key: "read_key (pre @ key_bytes k @ uvarint_bytes c @ ?tail) (length pre) =
      Inr (k, length pre + length (key_bytes k))"
    by (rule key_codec.decode_encode [OF c(2)])
  have cnt: "readUvarint (pre @ key_bytes k @ uvarint_bytes c @ ?tail) (length pre + length (key_bytes k)) f =
      Inr (c, length pre + length (key_bytes k) + length (uvarint_bytes c))" for f
    using read_uvarint_bytes [OF c(3), of "pre @ key_bytes k" ?tail f] by simp
  let ?s = "s\<lparr>bins := mput (bins s) k c, sk_count := sk_count s + c\<rparr>"
  have put: "mput (bins s) k c = bins s @ [(k, c)]"
    using Cons.prems(5) kc by (intro mput_new) auto
  have ih: "unmarshal_bins ((pre @ bin_bytes kc) @ ?tail) (length kcs) False k (length (pre @ bin_bytes kc)) ?s =
      Inr (\<lparr>bins = bins ?s @ kcs, sk_count = sk_count ?s + (\<Sum>(k, c)\<leftarrow>kcs. c)\<rparr>,
           length (pre @ bin_bytes kc) + length (concat (map bin_bytes kcs)))"
    using Cons.prems kc by (intro Cons.IH) (auto simp: put mkeys_def)
  have "\<not> (\<not> first \<and> k \<le> prev)" "\<not> sk_count s > MaxU64 - c" "c \<noteq> 0" using Cons.prems(4) kc c by auto
  then have "unmarshal_bins (pre @ concat (map bin_bytes (kc # kcs)) @ rest) (length (kc # kcs)) first prev (length pre) s =
      unmarshal_bins ((pre @ bin_bytes kc) @ ?tail) (length kcs) False k (length (pre @ bin_bytes kc)) ?s"
    unfolding data using key cnt by (cases first) (simp_all add: kc bb add.assoc)
  then show ?case unfolding ih by (simp add: kc put bb)
qed simp

lemma mget_map_keys: "mget (map (\<lambda>k. (k, f k)) ks) k = (if k \<in> set ks then Some (f k) else None)"
  by (induction ks) auto

lemma sum_sorted_keys:
  assumes "wf_map (bins s)" and "iteration_order ord"
  shows "(\<Sum>(k, c)\<leftarrow>map (\<lambda>k. (k, bin s k)) (sortedKeys ord s). c) = (\<Sum>(k, c)\<leftarrow>bins s. c)"
proof -
  have "mset (sortedKeys ord s) = mset (map fst (bins s))"
    using assms(2) by (simp add: sortedKeys_def iteration_order_def)
  then have "mset (map (bin s) (sortedKeys ord s)) = mset (map (bin s) (map fst (bins s)))"
    by (simp only: mset_map)
  then have "(\<Sum>k\<leftarrow>sortedKeys ord s. bin s k) = (\<Sum>k\<leftarrow>map fst (bins s). bin s k)"
    by (simp only: flip: sum_mset_sum_list)
  also have "map (bin s) (map fst (bins s)) = map snd (bins s)"
  proof -
    have "bin s k = c" if "(k, c) \<in> set (bins s)" for k c
      using that assms(1) by (simp add: bin_def mget_iff [THEN iffD2])
    then show ?thesis by auto
  qed
  finally show ?thesis by (simp add: comp_def case_prod_unfold)
qed

lemma sketch_stored:
  assumes "sketch_inv s" and "iteration_order ord" and "length (bins s) < 2 ^ 64"
  shows "\<exists>bytes s'. sketch_MarshalBinary ord (Some s) = Inr bytes \<and>
    sketch_MarshalBinary (\<lambda>m. m) (Some s) = Inr bytes \<and>
    UnmarshalSketch bytes = Inr s' \<and> mget (bins s') = mget (bins s) \<and> sk_count s' = sk_count s"
proof -
  have wf: "wf_map (bins s)" and pos: "\<And>k c. (k, c) \<in> set (bins s) \<Longrightarrow> 0 < c \<and> i64 k"
    and cnt: "sk_count s = (\<Sum>(k, c)\<leftarrow>bins s. c)" "sk_count s \<le> MaxU64"
    using assms(1) by (auto simp: sketch_inv_def)
  note ks = sortedKeys_spec [OF wf assms(2)]
  let ?keys = "sortedKeys ord s"
  let ?kcs = "map (\<lambda>k. (k, bin s k)) ?keys"
  have bin: "mget (bins s) k = (if k \<in> set ?keys then Some (bin s k) else None)" for k
    using mget_None_iff [of "bins s" k] by (auto simp: ks(2) bin_def mkeys_def split: option.split)
  have kc: "0 < bin s k \<and> i64 k" if "k \<in> set ?keys" for k
    using that bin [of k] pos [of k "bin s k"] mget_iff [OF wf, of k "bin s k"] by simp
  have len: "length ?keys < 2 ^ 64" using assms(2,3) by (simp add: sortedKeys_def iteration_order_length)
  have sum: "(\<Sum>(k, c)\<leftarrow>?kcs. c) = sk_count s" using sum_sorted_keys [OF wf assms(2)] cnt by simp
  define bytes where "bytes = [FormatVersion] @ uvarint_bytes (length ?keys) @ concat (map bin_bytes ?kcs) @ []"
  have m: "sketch_MarshalBinary ord (Some s) = Inr bytes"
    using kc by (simp add: sketch_MarshalBinary_def Let_def bytes_def comp_def marshal_bins_ok)
  then have m': "sketch_MarshalBinary (\<lambda>m. m) (Some s) = Inr bytes"
    using ks(3) by (simp add: sketch_MarshalBinary_def)
  let ?pre = "[FormatVersion] @ uvarint_bytes (length ?keys)"
  have "readUvarint bytes 1 ''sketch bin count'' = Inr (length ?keys, length ?pre)"
    using read_uvarint_bytes [OF len, of "[FormatVersion]" "concat (map bin_bytes ?kcs) @ []" "''sketch bin count''"]
    by (simp add: bytes_def)
  moreover have "unmarshal_bins (?pre @ concat (map bin_bytes ?kcs) @ []) (length ?kcs) True 0 (length ?pre) NewSketch =
      Inr (\<lparr>bins = bins NewSketch @ ?kcs, sk_count = sk_count NewSketch + (\<Sum>(k, c)\<leftarrow>?kcs. c)\<rparr>,
           length ?pre + length (concat (map bin_bytes ?kcs)))"
  proof (rule unmarshal_bins_ok)
    show "sorted_wrt (<) (map fst ?kcs)" using ks(1) by (simp add: comp_def)
    show "0 < c \<and> i64 k" if "(k, c) \<in> set ?kcs" for k c using that kc by auto
    show "sk_count NewSketch + (\<Sum>(k, c)\<leftarrow>?kcs. c) \<le> MaxU64" using sum cnt(2) by (simp add: NewSketch_def)
  qed (simp_all add: NewSketch_def mkeys_def)
  then have "unmarshal_bins bytes (length ?keys) True 0 (length ?pre) NewSketch =
      Inr (\<lparr>bins = ?kcs, sk_count = sk_count s\<rparr>, length bytes)"
    using sum by (simp add: bytes_def NewSketch_def)
  ultimately have u: "UnmarshalSketch bytes = Inr \<lparr>bins = ?kcs, sk_count = sk_count s\<rparr>"
    by (simp add: UnmarshalSketch_def bytes_def [symmetric]) (simp add: bytes_def)
  have "mget ?kcs k = mget (bins s) k" for k
    unfolding mget_map_keys bin ..
  then show ?thesis using m m' u by auto
qed

text \<open>
  C29: A sketch survives storage.  What \<open>MarshalBinary\<close> writes is the same bytes in whatever order the
  runtime walks the map, and \<open>UnmarshalSketch\<close> reads back a sketch with the same count and the same
  bins, for every sketch with positive bins that add up to its count.
\<close>

theorem sketch_round_trip:
  assumes "sketch_inv s" and "iteration_order ord" and "length (bins s) < 2 ^ 64"
  shows "\<exists>bytes s'. sketch_MarshalBinary ord (Some s) = Inr bytes \<and>
    sketch_MarshalBinary (\<lambda>m. m) (Some s) = Inr bytes \<and>
    UnmarshalSketch bytes = Inr s' \<and> mget (bins s') = mget (bins s) \<and> sk_count s' = sk_count s"
  using assms by (rule sketch_stored)

theorem sketch_round_trip_witness:
  "\<exists>bytes s'. sketch_MarshalBinary rev (Some \<lparr>bins = [(7, 3), (- 2, 1)], sk_count = 4\<rparr>) = Inr bytes \<and>
     UnmarshalSketch bytes = Inr s' \<and> sk_count s' = 4"
  using sketch_round_trip [of "\<lparr>bins = [(7, 3), (- 2, 1)], sk_count = 4\<rparr>", OF _ iteration_order_rev]
  by (auto simp: sketch_inv_def wf_map_def mkeys_def i64_def)

lemma unmarshal_bins_inv:
  assumes "unmarshal_bins encoded n first prev offset s = Inr (t, offset')" and "sketch_inv s"
    and "\<not> first \<Longrightarrow> \<forall>k \<in> set (mkeys (bins s)). k \<le> prev" and "first \<Longrightarrow> bins s = []"
  shows "sketch_inv t"
  using assms
proof (induction n arbitrary: first prev offset s)
  case (Suc n)
  obtain key o1 c o2 where k: "read_key encoded offset = Inr (key, o1)" "\<not> (\<not> first \<and> key \<le> prev)"
    "readUvarint encoded o1 ''sketch bin count'' = Inr (c, o2)" "c \<noteq> 0" "sk_count s \<le> MaxU64 - c"
    "unmarshal_bins encoded n False key o2 (s\<lparr>bins := mput (bins s) key c, sk_count := sk_count s + c\<rparr>) = Inr (t, offset')"
    using Suc.prems(1) by (auto simp: bindE_Inr split: if_splits)
  let ?s = "s\<lparr>bins := mput (bins s) key c, sk_count := sk_count s + c\<rparr>"
  have new: "key \<notin> set (mkeys (bins s))"
    using Suc.prems(3,4) k(2) by (cases first) (auto simp: mkeys_def)
  have "i64 key" using k(1) i64_sint by (auto simp: read_key_def bindE_Inr)
  moreover have "c \<le> MaxU64" using readUvarint_bounds [OF k(3)] by simp
  ultimately have "sketch_inv ?s"
    using Suc.prems(2) k new by (auto simp: sketch_inv_def mput_new wf_map_def mkeys_def)
  moreover have "\<forall>k \<in> set (mkeys (bins ?s)). k \<le> key"
    using Suc.prems(3,4) k(2) by (cases first) (auto, simp add: mkeys_def)
  ultimately show ?case using Suc.IH [OF k(6)] by simp
qed simp

lemma unmarshal_sketch_inv:
  assumes "UnmarshalSketch encoded = Inr s"
  shows "sketch_inv s"
proof -
  obtain n off off' where "unmarshal_bins encoded n True 0 off NewSketch = Inr (s, off')"
    using assms by (auto simp: UnmarshalSketch_def bindE_Inr split: if_splits)
  then show ?thesis
    by (rule unmarshal_bins_inv) (auto simp: sketch_inv_def NewSketch_def)
qed

text \<open>
  C33: Whatever bytes the database returns, a sketch that \<open>UnmarshalSketch\<close> accepts is well formed: distinct
  \<open>int64\<close> keys, positive bins, a count that is their sum and fits a \<open>uint64\<close>.
\<close>

theorem unmarshal_sketch_valid:
  assumes "UnmarshalSketch encoded = Inr s"
  shows "sketch_inv s"
  using assms by (rule unmarshal_sketch_inv)

theorem unmarshal_sketch_valid_witness:
  "\<exists>s. UnmarshalSketch [1, 1, 2, 3] = Inr s \<and> sketch_inv s \<and> sk_count s = 3"
proof -
  have "UnmarshalSketch [1, 1, 2, 3] = Inr \<lparr>bins = [(1, 3)], sk_count = 3\<rparr>"
    by (simp add: UnmarshalSketch_def readUvarint_def Uvarint_def read_key_def zigzagDecode_def NewSketch_def)
  then show ?thesis using unmarshal_sketch_valid by fastforce
qed

end
