(* ===== verification/LatencySamples.thy ===== *)
theory LatencySamples
  imports Varint
begin

text \<open>
  \<open>internal/latency/sample.go\<close>: the bounded set of paired samples.  A fixed hash of the event identifier
  gives every sample a priority, and a set keeps the 2500 samples of smallest priority, so that what is kept
  does not depend on how the samples arrived.
\<close>

section \<open>Samples\<close>

record SamplePoint =
  EventID :: int
  Priority :: "64 word"
  TTFTMS :: int
  LatencyMS :: int

type_synonym point_map = "(int, SamplePoint) gomap"

record SampleSet =
  points :: point_map

definition MaxSamplePoints :: nat where
  "MaxSamplePoints = 2500"

definition NewSampleSet :: SampleSet where
  "NewSampleSet = \<lparr>points = []\<rparr>"

definition splitMix64 :: "64 word \<Rightarrow> 64 word" where
  "splitMix64 v =
     (let v = v + 0x9e3779b97f4a7c15;
          v = (v XOR drop_bit 30 v) * 0xbf58476d1ce4e5b9;
          v = (v XOR drop_bit 27 v) * 0x94d049bb133111eb
      in v XOR drop_bit 31 v)"

definition samplePointLess :: "SamplePoint \<Rightarrow> SamplePoint \<Rightarrow> bool" where
  "samplePointLess l r = (if Priority l \<noteq> Priority r then Priority l < Priority r else EventID l < EventID r)"

section \<open>Operations\<close>

type_synonym point_order = "point_map \<Rightarrow> point_map"

definition sample_Points :: "point_order \<Rightarrow> SampleSet \<Rightarrow> SamplePoint list" where
  "sample_Points ord s = sort_slice samplePointLess (map snd (ord (points s)))"

definition addPoint :: "SampleSet \<Rightarrow> SamplePoint \<Rightarrow> latency_error + SampleSet" where
  "addPoint s point =
     (case mget (points s) (EventID point) of
        Some existing \<Rightarrow> if existing \<noteq> point then Inl (ConflictingSample (EventID point)) else Inr s
      | None \<Rightarrow> Inr (s\<lparr>points := mput (points s) (EventID point) point\<rparr>))"

definition sample_trim :: "point_order \<Rightarrow> SampleSet \<Rightarrow> SampleSet" where
  "sample_trim ord s =
     (if length (points s) \<le> MaxSamplePoints then s
      else s\<lparr>points := fold (\<lambda>point m. mdel m (EventID point)) (drop MaxSamplePoints (sample_Points ord s)) (points s)\<rparr>)"

definition sample_Add :: "point_order \<Rightarrow> SampleSet option \<Rightarrow> int \<Rightarrow> int \<Rightarrow> int \<Rightarrow> latency_error + SampleSet" where
  "sample_Add ord samples eventID ttftMS latencyMS =
     (case samples of
        None \<Rightarrow> Inl SampleNil
      | Some s \<Rightarrow>
          if eventID \<le> 0 \<or> ttftMS \<le> 0 \<or> latencyMS \<le> 0 then Inl (SampleNotPositive eventID ttftMS latencyMS)
          else bindE (addPoint s \<lparr>EventID = eventID, Priority = splitMix64 (word_of_int eventID),
                                   TTFTMS = ttftMS, LatencyMS = latencyMS\<rparr>)
                 (\<lambda>s. Inr (sample_trim ord s)))"

text \<open>The loop of \<open>Merge\<close>; a conflict leaves the points merged so far in the receiver, untrimmed.\<close>

fun merge_points :: "(int \<times> SamplePoint) list \<Rightarrow> SampleSet \<Rightarrow> latency_error option \<times> SampleSet" where
  "merge_points [] s = (None, s)"
| "merge_points ((k, point) # rest) s =
     (case addPoint s point of Inl e \<Rightarrow> (Some e, s) | Inr s' \<Rightarrow> merge_points rest s')"

definition sample_Merge ::
  "point_order \<Rightarrow> SampleSet option \<Rightarrow> SampleSet option \<Rightarrow> latency_error option \<times> SampleSet option" where
  "sample_Merge ord samples other =
     (case (samples, other) of
        (Some s, Some t) \<Rightarrow>
          (case merge_points (ord (points t)) s of
             (Some e, s') \<Rightarrow> (Some e, Some s')
           | (None, s') \<Rightarrow> (None, Some (sample_trim ord s')))
      | _ \<Rightarrow> (Some SampleNil, samples))"

section \<open>The binary format\<close>

definition point_bytes :: "SamplePoint \<Rightarrow> byte list" where
  "point_bytes point =
     uvarint_bytes (nat (EventID point)) @ uvarint_bytes (unat (Priority point)) @
     uvarint_bytes (nat (TTFTMS point)) @ uvarint_bytes (nat (LatencyMS point))"

definition sample_MarshalBinary :: "point_order \<Rightarrow> SampleSet option \<Rightarrow> latency_error + byte list" where
  "sample_MarshalBinary ord samples =
     (case samples of
        None \<Rightarrow> Inl SampleNil
      | Some s \<Rightarrow>
          (let ps = sample_Points ord s
           in Inr ([1] @ uvarint_bytes (length ps) @ concat (map point_bytes ps))))"

definition read_point :: "byte list \<Rightarrow> nat \<Rightarrow> latency_error + SamplePoint \<times> nat" where
  "read_point encoded offset =
     bindE (readPositiveInt64 encoded offset ''sample event ID'') (\<lambda>(eventID, offset).
     bindE (readUvarint encoded offset ''sample priority'') (\<lambda>(priority, offset).
     bindE (readPositiveInt64 encoded offset ''sample TTFT'') (\<lambda>(ttftMS, offset).
     bindE (readPositiveInt64 encoded offset ''sample latency'') (\<lambda>(latencyMS, offset).
       Inr (\<lparr>EventID = eventID, Priority = of_nat priority, TTFTMS = ttftMS, LatencyMS = latencyMS\<rparr>, offset)))))"

text \<open>The loop over the remaining points; \<open>previous\<close> is \<open>None\<close> while the index is zero.\<close>

fun unmarshal_points ::
  "byte list \<Rightarrow> nat \<Rightarrow> SamplePoint option \<Rightarrow> nat \<Rightarrow> SampleSet \<Rightarrow> latency_error + SampleSet \<times> nat" where
  "unmarshal_points encoded 0 previous offset s = Inr (s, offset)"
| "unmarshal_points encoded (Suc n) previous offset s =
     bindE (read_point encoded offset) (\<lambda>(point, offset).
       if Priority point \<noteq> splitMix64 (word_of_int (EventID point)) then Inl (PriorityMismatch (EventID point))
       else if (case previous of Some p \<Rightarrow> \<not> samplePointLess p point | None \<Rightarrow> False) then Inl SampleOrder
       else if mget (points s) (EventID point) \<noteq> None then Inl (DuplicateSample (EventID point))
       else unmarshal_points encoded n (Some point) offset
              (s\<lparr>points := mput (points s) (EventID point) point\<rparr>))"

definition UnmarshalSampleSet :: "byte list \<Rightarrow> latency_error + SampleSet" where
  "UnmarshalSampleSet encoded =
     (if encoded = [] then Inl DataEmpty
      else if hd encoded \<noteq> 1 then Inl (UnsupportedVersion (unat (hd encoded)))
      else bindE (readUvarint encoded 1 ''sample count'') (\<lambda>(cnt, offset).
           if cnt > MaxSamplePoints then Inl (SampleLimit cnt)
           else bindE (unmarshal_points encoded cnt None offset NewSampleSet) (\<lambda>(samples, offset).
                if offset \<noteq> length encoded then Inl TrailingBytes else Inr samples)))"

section \<open>The first \<open>n\<close> of a set\<close>

interpretation sample_order: row_order samplePointLess "\<lambda>p. (Priority p, EventID p)"
  by unfold_locales (auto simp: samplePointLess_def split: if_splits)

text \<open>Samples of one event do not differ: what the database's unique identifiers guarantee.\<close>

definition consistent :: "SamplePoint set \<Rightarrow> bool" where
  "consistent A \<longleftrightarrow> finite A \<and> inj_on EventID A"

definition bottom :: "nat \<Rightarrow> SamplePoint set \<Rightarrow> SamplePoint set" where
  "bottom n A = {p \<in> A. card {q \<in> A. samplePointLess q p} < n}"

lemma bottom_subset: "bottom n A \<subseteq> A"
  by (auto simp: bottom_def)

lemma consistent_subset: "consistent A \<Longrightarrow> B \<subseteq> A \<Longrightarrow> consistent B"
  by (auto simp: consistent_def inj_on_subset finite_subset)

lemma sample_total: "consistent A \<Longrightarrow> p \<in> A \<Longrightarrow> q \<in> A \<Longrightarrow> p \<noteq> q \<Longrightarrow> samplePointLess p q \<or> samplePointLess q p"
  using sample_order.less_total [of p q] by (auto simp: consistent_def inj_on_def)

lemma bottom_take:
  assumes "sorted_wrt samplePointLess xs"
  shows "bottom n (set xs) = set (take n xs)"
proof -
  have lt: "samplePointLess (xs ! i) (xs ! j) \<longleftrightarrow> i < j" if "i < length xs" "j < length xs" for i j
    using that assms sample_order.less_asym sample_order.less_irrefl
    by (metis linorder_neqE_nat sorted_wrt_nth_less)
  have d: "distinct xs"
    using lt by (auto simp: distinct_conv_nth) (metis nat_neq_iff)
  have below: "card {q \<in> set xs. samplePointLess q (xs ! i)} = i" if i: "i < length xs" for i
  proof -
    have "{q \<in> set xs. samplePointLess q (xs ! i)} = set (take i xs)"
    proof -
      have "{q \<in> set xs. samplePointLess q (xs ! i)} = (!) xs ` {0..<i}"
        using i lt by (auto simp: in_set_conv_nth) (metis less_trans)
      then show ?thesis using i by (simp add: nth_image)
    qed
    then show ?thesis using i d by (simp add: distinct_card)
  qed
  have "p \<in> bottom n (set xs) \<longleftrightarrow> p \<in> set (take n xs)" for p
  proof -
    have "p \<in> bottom n (set xs) \<longleftrightarrow> (\<exists>i < length xs. p = xs ! i \<and> i < n)"
    proof
      assume p: "p \<in> bottom n (set xs)"
      then have "p \<in> set xs" by (simp add: bottom_def)
      then obtain i where i: "i < length xs" "p = xs ! i" by (metis in_set_conv_nth)
      with p below [of i] show "\<exists>i < length xs. p = xs ! i \<and> i < n" by (auto simp: bottom_def)
    next
      assume "\<exists>i < length xs. p = xs ! i \<and> i < n"
      then obtain i where "i < length xs" "p = xs ! i" "i < n" by blast
      with below [of i] show "p \<in> bottom n (set xs)" by (simp add: bottom_def)
    qed
    also have "\<dots> \<longleftrightarrow> p \<in> set (take n xs)" by (auto simp: in_set_conv_nth)
    finally show ?thesis .
  qed
  then show ?thesis by blast
qed

text \<open>A consistent set has a sorted enumeration, so \<open>bottom\<close> keeps as many elements as it can.\<close>

lemma sorted_enumeration:
  assumes "consistent A"
  obtains xs where "sorted_wrt samplePointLess xs" "set xs = A" "distinct xs"
proof -
  obtain ys where ys: "set ys = A" "distinct ys" using assms finite_distinct_list by (auto simp: consistent_def)
  then have "distinct (map (\<lambda>p. (Priority p, EventID p)) ys)"
    using assms by (auto simp: distinct_map consistent_def inj_on_def)
  then have "sorted_wrt samplePointLess (sort_slice samplePointLess ys)" by (rule sample_order.sorted_sort_slice)
  moreover have "distinct (sort_slice samplePointLess ys)"
    using ys(2) by (metis mset_eq_imp_distinct_iff mset_sort_slice)
  ultimately show ?thesis using ys by (intro that) simp_all
qed

lemma card_bottom: "consistent A \<Longrightarrow> card (bottom n A) = min n (card A)"
proof -
  assume "consistent A"
  then obtain xs where xs: "sorted_wrt samplePointLess xs" "set xs = A" "distinct xs" by (rule sorted_enumeration)
  then have "bottom n A = set (take n xs)" using bottom_take by blast
  with xs show ?thesis by (simp add: distinct_card flip: xs(2))
qed

lemma bottom_all: "consistent A \<Longrightarrow> card A \<le> n \<Longrightarrow> bottom n A = A"
  using card_bottom [of A n] card_subset_eq [of A "bottom n A"] bottom_subset by (auto simp: consistent_def)

lemma bottom_below:
  assumes A: "consistent A" and a: "a \<in> A" "a \<notin> bottom n A" and b: "b \<in> bottom n A"
  shows "samplePointLess b a"
proof (rule ccontr)
  assume "\<not> samplePointLess b a"
  moreover have "b \<in> A" "b \<noteq> a" using a b by (auto simp: bottom_def)
  ultimately have "samplePointLess a b" using sample_total [OF A _ a(1)] by blast
  then have "{q \<in> A. samplePointLess q a} \<subseteq> {q \<in> A. samplePointLess q b}"
    using sample_order.less_trans by blast
  then have "card {q \<in> A. samplePointLess q a} \<le> card {q \<in> A. samplePointLess q b}"
    using A by (intro card_mono) (simp_all add: consistent_def)
  with a b show False by (auto simp: bottom_def)
qed

text \<open>Trimming one part early does not change what the whole keeps.\<close>

lemma bottom_union:
  assumes "consistent (A \<union> B)"
  shows "bottom n (bottom n A \<union> B) = bottom n (A \<union> B)"
proof -
  have A: "consistent A" and fin: "finite A" "finite B"
    using assms consistent_subset [of "A \<union> B" A] by (auto simp: consistent_def)
  let ?below = "\<lambda>S p. {q \<in> S. samplePointLess q p}"
  have sub: "bottom n A \<union> B \<subseteq> A \<union> B" using bottom_subset by blast
  have fwd: "p \<in> bottom n (bottom n A \<union> B)" if p: "p \<in> bottom n (A \<union> B)" for p
  proof -
    have c: "card (?below (A \<union> B) p) < n" "p \<in> A \<union> B" using p by (auto simp: bottom_def)
    have "card (?below A p) \<le> card (?below (A \<union> B) p)"
      "card (?below (bottom n A \<union> B) p) \<le> card (?below (A \<union> B) p)"
      using fin sub by (auto intro!: card_mono)
    with c show ?thesis by (auto simp: bottom_def)
  qed
  have bwd: "p \<in> bottom n (A \<union> B)" if p: "p \<in> bottom n (bottom n A \<union> B)" for p
  proof (rule ccontr)
    assume no: "p \<notin> bottom n (A \<union> B)"
    have c: "card (?below (bottom n A \<union> B) p) < n" "p \<in> A \<union> B" using p sub by (auto simp: bottom_def)
    with no have big: "n \<le> card (?below (A \<union> B) p)" by (auto simp: bottom_def)
    have "\<exists>a \<in> A. samplePointLess a p \<and> a \<notin> bottom n A"
    proof (rule ccontr)
      assume "\<not> ?thesis"
      then have "?below (A \<union> B) p = ?below (bottom n A \<union> B) p" using bottom_subset by blast
      with big c show False by simp
    qed
    then obtain a where a: "a \<in> A" "samplePointLess a p" "a \<notin> bottom n A" by blast
    then have "card (bottom n A) = n"
      using card_bottom [OF A, of n] bottom_all [OF A, of n] by (cases "card A \<le> n") auto
    moreover have "bottom n A \<subseteq> ?below (bottom n A \<union> B) p"
      using bottom_below [OF A a(1,3)] a(2) sample_order.less_trans by blast
    then have "card (bottom n A) \<le> card (?below (bottom n A \<union> B) p)"
      using fin bottom_subset [of n A] by (intro card_mono) (auto intro: finite_subset)
    ultimately show False using c by simp
  qed
  show ?thesis using fwd bwd by blast
qed

lemma bottom_union_both:
  assumes "consistent (A \<union> B)"
  shows "bottom n (bottom n A \<union> bottom n B) = bottom n (A \<union> B)"
proof -
  have "consistent (bottom n A \<union> B)" using assms bottom_subset by (rule_tac consistent_subset) blast+
  then have "bottom n (bottom n B \<union> bottom n A) = bottom n (B \<union> bottom n A)"
    by (intro bottom_union) (simp add: Un_commute)
  then show ?thesis using bottom_union [OF assms] by (simp add: Un_commute)
qed

section \<open>Abstraction: what a sample set keeps\<close>

definition valid_point :: "SamplePoint \<Rightarrow> bool" where
  "valid_point p \<longleftrightarrow> 0 < EventID p \<and> i64 (EventID p) \<and> Priority p = splitMix64 (word_of_int (EventID p)) \<and>
     0 < TTFTMS p \<and> i64 (TTFTMS p) \<and> 0 < LatencyMS p \<and> i64 (LatencyMS p)"

definition keyed :: "SampleSet \<Rightarrow> bool" where
  "keyed s \<longleftrightarrow> wf_map (points s) \<and> (\<forall>(k, p) \<in> set (points s). k = EventID p)"

definition contents :: "SampleSet \<Rightarrow> SamplePoint set" where
  "contents s = snd ` set (points s)"

text \<open>The set \<open>s\<close> stands for the samples \<open>A\<close> when it holds the 2500 first of them.\<close>

definition keeps :: "SampleSet \<Rightarrow> SamplePoint set \<Rightarrow> bool" where
  "keeps s A \<longleftrightarrow> keyed s \<and> contents s = bottom MaxSamplePoints A"

lemma keyed_key: "keyed s \<Longrightarrow> (k, p) \<in> set (points s) \<Longrightarrow> k = EventID p"
  by (auto simp: keyed_def)

lemma keyed_entry: "keyed s \<Longrightarrow> mget (points s) k = Some p \<longleftrightarrow> p \<in> contents s \<and> EventID p = k"
  by (force simp: keyed_def contents_def mget_iff)

lemma keyed_consistent: "keyed s \<Longrightarrow> consistent (contents s)"
  unfolding consistent_def inj_on_def
  by (metis List.finite_set contents_def finite_imageI keyed_entry option.inject)

lemma keyed_card: "keyed s \<Longrightarrow> card (contents s) = length (points s)"
proof -
  assume k: "keyed s"
  have "inj_on snd (set (points s))" by (intro inj_onI) (metis keyed_key [OF k] prod.collapse)
  moreover have "distinct (points s)" using k by (simp add: keyed_def wf_map_def mkeys_def distinct_map)
  ultimately show ?thesis by (simp add: contents_def card_image distinct_card)
qed

lemma Points_spec:
  assumes k: "keyed s" and o: "iteration_order ord"
  shows "sorted_wrt samplePointLess (sample_Points ord s)" "set (sample_Points ord s) = contents s"
    "length (sample_Points ord s) = length (points s)" "distinct (sample_Points ord s)"
proof -
  have "map EventID (map snd (points s)) = mkeys (points s)"
    using k by (auto simp: keyed_def mkeys_def)
  then have "distinct (map EventID (map snd (points s)))" using k by (simp add: keyed_def wf_map_def)
  moreover have ms: "mset (map snd (ord (points s))) = mset (map snd (points s))"
    using o by (simp add: iteration_order_def)
  then have "mset (map EventID (map snd (ord (points s)))) = mset (map EventID (map snd (points s)))"
    by (simp only: mset_map)
  ultimately have d: "distinct (map EventID (map snd (ord (points s))))" by (metis mset_eq_imp_distinct_iff)
  then have "distinct (map (\<lambda>p. (Priority p, EventID p)) (map snd (ord (points s))))"
    by (auto simp: distinct_map inj_on_def)
  then show sorted: "sorted_wrt samplePointLess (sample_Points ord s)"
    unfolding sample_Points_def by (rule sample_order.sorted_sort_slice)
  show "set (sample_Points ord s) = contents s"
    using o by (simp add: sample_Points_def contents_def iteration_order_set)
  show "length (sample_Points ord s) = length (points s)"
    using o by (simp add: sample_Points_def iteration_order_length)
  show "distinct (sample_Points ord s)"
    using d by (metis distinct_map mset_eq_imp_distinct_iff mset_sort_slice sample_Points_def)
qed

lemma fold_mdel:
  "fold (\<lambda>point m. mdel m (EventID point)) ps m = filter (\<lambda>kp. fst kp \<notin> EventID ` set ps) m"
  by (induction ps arbitrary: m) (auto simp: mdel_def intro: filter_cong)

lemma trim_spec:
  assumes k: "keyed s" and o: "iteration_order ord"
  shows "keyed (sample_trim ord s)" "contents (sample_trim ord s) = bottom MaxSamplePoints (contents s)"
proof -
  note P = Points_spec [OF k o]
  have bt: "bottom MaxSamplePoints (contents s) = set (take MaxSamplePoints (sample_Points ord s))"
    using bottom_take [OF P(1)] P(2) by simp
  have "keyed (sample_trim ord s) \<and> contents (sample_trim ord s) = bottom MaxSamplePoints (contents s)"
  proof (cases "length (points s) \<le> MaxSamplePoints")
    case True
    then show ?thesis using k bottom_all [OF keyed_consistent [OF k]] keyed_card [OF k] by (simp add: sample_trim_def)
  next
    case False
    let ?dropped = "drop MaxSamplePoints (sample_Points ord s)"
    have t: "points (sample_trim ord s) = filter (\<lambda>kp. fst kp \<notin> EventID ` set ?dropped) (points s)"
      using False by (simp add: sample_trim_def fold_mdel)
    have keyed: "keyed (sample_trim ord s)" using k unfolding keyed_def t by auto
    have inj: "inj_on EventID (contents s)" using keyed_consistent [OF k] by (simp add: consistent_def)
    have split: "contents s = set (take MaxSamplePoints (sample_Points ord s)) \<union> set ?dropped"
      "set (take MaxSamplePoints (sample_Points ord s)) \<inter> set ?dropped = {}"
      using P(2,4) append_take_drop_id [of MaxSamplePoints "sample_Points ord s"]
      by (metis set_append, metis distinct_append)
    have "contents (sample_trim ord s) = {p \<in> contents s. EventID p \<notin> EventID ` set ?dropped}"
      using k unfolding contents_def t keyed_def by force
    also have "\<dots> = set (take MaxSamplePoints (sample_Points ord s))"
      using split inj by (auto simp: inj_on_def)
    finally show ?thesis using keyed bt by simp
  qed
  then show "keyed (sample_trim ord s)" "contents (sample_trim ord s) = bottom MaxSamplePoints (contents s)" by simp_all
qed

section \<open>Adding and merging\<close>

lemma keyed_put:
  assumes "keyed s" and "EventID p \<notin> set (mkeys (points s))"
  shows "keyed (s\<lparr>points := mput (points s) (EventID p) p\<rparr>)"
    "contents (s\<lparr>points := mput (points s) (EventID p) p\<rparr>) = insert p (contents s)"
  using assms by (auto simp: keyed_def contents_def mput_new wf_map_def mkeys_def)

text \<open>\<open>addPoint\<close> without a conflict inserts the point.\<close>

lemma addPoint_spec:
  assumes "keyed s" and c: "consistent (insert p (contents s))"
  shows "\<exists>t. addPoint s p = Inr t \<and> keyed t \<and> contents t = insert p (contents s)"
proof (cases "mget (points s) (EventID p)")
  case None
  then have "EventID p \<notin> set (mkeys (points s))" by (simp add: mget_None_iff)
  then show ?thesis using keyed_put [OF assms(1), of p] by (simp add: addPoint_def None)
next
  case (Some q)
  then have "q \<in> contents s" "EventID q = EventID p" using keyed_entry [OF assms(1)] by auto
  then have "q = p" using c by (auto simp: consistent_def inj_on_def)
  with Some \<open>q \<in> contents s\<close> assms(1) show ?thesis by (auto simp: addPoint_def insert_absorb)
qed

lemma keeps_new: "keeps NewSampleSet {}"
  by (simp add: keeps_def keyed_def contents_def NewSampleSet_def bottom_def)

lemma keeps_add:
  assumes s: "keeps s A" and o: "iteration_order ord" and c: "consistent (insert p A)" and p: "valid_point p"
  shows "\<exists>t. sample_Add ord (Some s) (EventID p) (TTFTMS p) (LatencyMS p) = Inr t \<and> keeps t (insert p A)"
proof -
  have k: "keyed s" and cont: "contents s = bottom MaxSamplePoints A" using s by (simp_all add: keeps_def)
  have "insert p (contents s) \<subseteq> insert p A" using cont bottom_subset by blast
  then have "consistent (insert p (contents s))" by (rule consistent_subset [OF c])
  then obtain t where t: "addPoint s p = Inr t" "keyed t" "contents t = insert p (contents s)"
    using addPoint_spec [OF k] by blast
  have "contents (sample_trim ord t) = bottom MaxSamplePoints (bottom MaxSamplePoints A \<union> {p})"
    using trim_spec(2) [OF t(2) o] t(3) cont by simp
  also have "\<dots> = bottom MaxSamplePoints (insert p A)" using bottom_union [of A "{p}"] c by simp
  finally have "keeps (sample_trim ord t) (insert p A)" using trim_spec(1) [OF t(2) o] by (simp add: keeps_def)
  moreover have pe: "\<lparr>EventID = EventID p, Priority = splitMix64 (word_of_int (EventID p)), TTFTMS = TTFTMS p,
      LatencyMS = LatencyMS p\<rparr> = p" using p by (cases p) (simp add: valid_point_def)
  have "\<not> (EventID p \<le> 0 \<or> TTFTMS p \<le> 0 \<or> LatencyMS p \<le> 0)" using p by (simp add: valid_point_def)
  then have "sample_Add ord (Some s) (EventID p) (TTFTMS p) (LatencyMS p) = Inr (sample_trim ord t)"
    unfolding sample_Add_def pe by (simp add: t(1))
  ultimately show ?thesis by blast
qed

lemma merge_points_spec:
  assumes "keyed s" and "consistent (contents s \<union> snd ` set rest)"
  shows "\<exists>t. merge_points rest s = (None, t) \<and> keyed t \<and> contents t = contents s \<union> snd ` set rest"
  using assms
proof (induction rest arbitrary: s)
  case (Cons kp rest)
  obtain k p where kp: "kp = (k, p)" by (cases kp)
  have "consistent (insert p (contents s))" using Cons.prems(2) by (rule consistent_subset) (auto simp: kp)
  then obtain t where t: "addPoint s p = Inr t" "keyed t" "contents t = insert p (contents s)"
    using addPoint_spec [OF Cons.prems(1)] by blast
  have "consistent (contents t \<union> snd ` set rest)" using Cons.prems(2) t(3) by (simp add: kp)
  then obtain u where "merge_points rest t = (None, u)" "keyed u" "contents u = contents t \<union> snd ` set rest"
    using Cons.IH [OF t(2)] by blast
  then show ?case using t by (simp add: kp)
qed simp

lemma keeps_merge:
  assumes s: "keeps s A" and t: "keeps t B" and o: "iteration_order ord" and c: "consistent (A \<union> B)"
  shows "\<exists>u. sample_Merge ord (Some s) (Some t) = (None, Some u) \<and> keeps u (A \<union> B)"
proof -
  have k: "keyed s" and cont: "contents s = bottom MaxSamplePoints A" "contents t = bottom MaxSamplePoints B"
    using s t by (simp_all add: keeps_def)
  have rest: "snd ` set (ord (points t)) = contents t" using o by (simp add: iteration_order_set contents_def)
  have "contents s \<union> contents t \<subseteq> A \<union> B" using cont bottom_subset by blast
  then have "consistent (contents s \<union> snd ` set (ord (points t)))"
    unfolding rest by (rule consistent_subset [OF c])
  then obtain u where u: "merge_points (ord (points t)) s = (None, u)" "keyed u" "contents u = contents s \<union> contents t"
    using merge_points_spec [OF k, of "ord (points t)"] rest by auto
  have "contents (sample_trim ord u) = bottom MaxSamplePoints (bottom MaxSamplePoints A \<union> bottom MaxSamplePoints B)"
    using trim_spec(2) [OF u(2) o] u(3) cont by simp
  also have "\<dots> = bottom MaxSamplePoints (A \<union> B)" by (rule bottom_union_both [OF c])
  finally have "keeps (sample_trim ord u) (A \<union> B)" using trim_spec(1) [OF u(2) o] by (simp add: keeps_def)
  then show ?thesis using u(1) by (simp add: sample_Merge_def)
qed

text \<open>The points of a set are determined by what it stands for.\<close>

lemma keeps_points:
  assumes "keeps s A" "keeps t A" and "iteration_order ord" "iteration_order ord'"
  shows "sample_Points ord s = sample_Points ord' t"
proof -
  have k: "keyed s" "keyed t" and c: "contents s = contents t" using assms by (simp_all add: keeps_def)
  note P = Points_spec [OF k(1) assms(3)] and Q = Points_spec [OF k(2) assms(4)]
  have "mset (sample_Points ord s) = mset (sample_Points ord' t)"
    using P(2,4) Q(2,4) c by (metis set_eq_iff_mset_eq_distinct)
  then show ?thesis by (rule sample_order.sorted_unique [OF P(1) Q(1)])
qed

text \<open>
  C30: Which samples survive does not depend on history.  For sets that stand for the samples \<open>A\<close> and
  \<open>B\<close> (with one sample per event), merging never fails; in either direction the result stands for \<open>A\<close> and
  \<open>B\<close> together: it holds exactly the 2500 of smallest priority among all of them, although each side
  had already thrown samples away, and lists them in the same order.
\<close>

theorem sample_merge_global:
  assumes "keeps s A" and "keeps t B" and "consistent (A \<union> B)" and "iteration_order ord"
  shows "\<exists>u u'. sample_Merge ord (Some s) (Some t) = (None, Some u) \<and> sample_Merge ord (Some t) (Some s) = (None, Some u') \<and>
    sample_Points ord u = sample_Points ord u' \<and> set (sample_Points ord u) = bottom MaxSamplePoints (A \<union> B) \<and>
    length (sample_Points ord u) = min MaxSamplePoints (card (A \<union> B))"
proof -
  obtain u where u: "sample_Merge ord (Some s) (Some t) = (None, Some u)" "keeps u (A \<union> B)"
    using keeps_merge [OF assms(1,2,4,3)] by blast
  obtain u' where u': "sample_Merge ord (Some t) (Some s) = (None, Some u')" "keeps u' (A \<union> B)"
    using keeps_merge [OF assms(2,1,4)] assms(3) by (auto simp: Un_commute)
  note P = Points_spec [of u ord, OF _ assms(4)]
  have "length (sample_Points ord u) = min MaxSamplePoints (card (A \<union> B))"
    using u(2) P card_bottom [OF assms(3)] by (metis distinct_card keeps_def)
  then show ?thesis
    using u u' keeps_points [OF u(2) u'(2) assms(4,4)] P by (auto simp: keeps_def)
qed

definition point_of :: "int \<Rightarrow> SamplePoint" where
  "point_of n = \<lparr>EventID = n, Priority = splitMix64 (word_of_int n), TTFTMS = 10, LatencyMS = 20\<rparr>"

theorem sample_merge_global_witness:
  "\<exists>s t u. sample_Add rev (Some NewSampleSet) 1 10 20 = Inr s \<and> sample_Add rev (Some NewSampleSet) 2 10 20 = Inr t \<and>
     sample_Merge rev (Some s) (Some t) = (None, Some u) \<and> length (sample_Points rev u) = 2"
proof -
  have p: "valid_point (point_of n)" if "0 < n" "n < 5" for n
    using that by (simp add: valid_point_def point_of_def i64_def)
  have c: "consistent {point_of m, point_of n}" for m n
    by (auto simp: consistent_def point_of_def inj_on_def)
  obtain s where s: "sample_Add rev (Some NewSampleSet) 1 10 20 = Inr s" "keeps s {point_of 1}"
    using keeps_add [OF keeps_new iteration_order_rev _ p [of 1]] c [of 1 1] by (auto simp: point_of_def)
  obtain t where t: "sample_Add rev (Some NewSampleSet) 2 10 20 = Inr t" "keeps t {point_of 2}"
    using keeps_add [OF keeps_new iteration_order_rev _ p [of 2]] c [of 2 2] by (auto simp: point_of_def)
  have "card ({point_of 1} \<union> {point_of 2}) = 2" by (simp add: point_of_def)
  then show ?thesis
    using sample_merge_global [OF s(2) t(2) _ iteration_order_rev] c [of 2 1] s(1) t(1)
    by (auto simp: MaxSamplePoints_def)
qed

section \<open>Round trip\<close>

definition sample_inv :: "SampleSet \<Rightarrow> bool" where
  "sample_inv s \<longleftrightarrow> keyed s \<and> (\<forall>p \<in> contents s. valid_point p) \<and> length (points s) \<le> MaxSamplePoints"

lemma unat_64: "unat (w :: 64 word) < 2 ^ 64"
  using unsigned_less [of w, where ?'a = nat] by simp

interpretation point_codec: codec point_bytes read_point valid_point
proof
  fix p pre rest
  assume p: "valid_point p"
  let ?e = "uvarint_bytes (nat (EventID p))" and ?q = "uvarint_bytes (unat (Priority p))"
    and ?t = "uvarint_bytes (nat (TTFTMS p))" and ?l = "uvarint_bytes (nat (LatencyMS p))"
  have v: "0 < EventID p \<and> i64 (EventID p)" "0 < TTFTMS p \<and> i64 (TTFTMS p)" "0 < LatencyMS p \<and> i64 (LatencyMS p)"
    using p by (simp_all add: valid_point_def)
  have "readPositiveInt64 (pre @ point_bytes p @ rest) (length pre) f = Inr (EventID p, length pre + length ?e)" for f
    using positive.decode_encode [OF v(1), where pre = pre and rest = "?q @ ?t @ ?l @ rest"]
    by (simp add: point_bytes_def)
  moreover have "readUvarint (pre @ point_bytes p @ rest) (length pre + length ?e) f =
      Inr (unat (Priority p), length pre + length ?e + length ?q)" for f
    using uvarint.decode_encode [OF unat_64, where pre = "pre @ ?e" and rest = "?t @ ?l @ rest"]
    by (simp add: point_bytes_def add.assoc)
  moreover have "readPositiveInt64 (pre @ point_bytes p @ rest) (length pre + length ?e + length ?q) f =
      Inr (TTFTMS p, length pre + length ?e + length ?q + length ?t)" for f
    using positive.decode_encode [OF v(2), where pre = "pre @ ?e @ ?q" and rest = "?l @ rest"]
    by (simp add: point_bytes_def add.assoc)
  moreover have "readPositiveInt64 (pre @ point_bytes p @ rest) (length pre + length ?e + length ?q + length ?t) f =
      Inr (LatencyMS p, length pre + length ?e + length ?q + length ?t + length ?l)" for f
    using positive.decode_encode [OF v(3), where pre = "pre @ ?e @ ?q @ ?t" and rest = rest]
    by (simp add: point_bytes_def add.assoc)
  ultimately have "read_point (pre @ point_bytes p @ rest) (length pre) =
      Inr (p, length pre + length ?e + length ?q + length ?t + length ?l)"
    by (simp add: read_point_def)
  then show "read_point (pre @ point_bytes p @ rest) (length pre) = Inr (p, length pre + length (point_bytes p))"
    by (simp add: point_bytes_def add.assoc)
qed

lemma unmarshal_points_ok:
  assumes "sorted_wrt samplePointLess ps" and "\<forall>p \<in> set ps. valid_point p" and "distinct (map EventID ps)"
    and "EventID ` set ps \<inter> set (mkeys (points s)) = {}"
    and "\<And>q. prev = Some q \<Longrightarrow> \<forall>p \<in> set ps. samplePointLess q p"
  shows "unmarshal_points (pre @ concat (map point_bytes ps) @ rest) (length ps) prev (length pre) s =
    Inr (\<lparr>points = points s @ map (\<lambda>p. (EventID p, p)) ps\<rparr>, length pre + length (concat (map point_bytes ps)))"
  using assms
proof (induction ps arbitrary: pre prev s)
  case (Cons p ps)
  let ?tail = "concat (map point_bytes ps) @ rest"
  have v: "valid_point p" using Cons.prems(2) by simp
  have data: "pre @ concat (map point_bytes (p # ps)) @ rest = pre @ point_bytes p @ ?tail" by simp
  have r: "read_point (pre @ point_bytes p @ ?tail) (length pre) = Inr (p, length pre + length (point_bytes p))"
    by (rule point_codec.decode_encode [OF v])
  have new: "EventID p \<notin> set (mkeys (points s))" using Cons.prems(4) by auto
  let ?s = "s\<lparr>points := mput (points s) (EventID p) p\<rparr>"
  have "unmarshal_points ((pre @ point_bytes p) @ ?tail) (length ps) (Some p) (length (pre @ point_bytes p)) ?s =
      Inr (\<lparr>points = points ?s @ map (\<lambda>p. (EventID p, p)) ps\<rparr>,
           length (pre @ point_bytes p) + length (concat (map point_bytes ps)))"
    using Cons.prems by (intro Cons.IH) auto
  then have ih: "unmarshal_points (pre @ point_bytes p @ ?tail) (length ps) (Some p) (length pre + length (point_bytes p)) ?s =
      Inr (\<lparr>points = points s @ map (\<lambda>p. (EventID p, p)) (p # ps)\<rparr>,
           length pre + length (concat (map point_bytes (p # ps))))"
    by (simp add: mput_new [OF new] add.assoc)
  have order: "\<not> (case prev of Some q \<Rightarrow> \<not> samplePointLess q p | None \<Rightarrow> False)"
    using Cons.prems(5) by (auto split: option.split)
  have id: "mget (points s) (EventID p) = None" using new by (simp add: mget_None_iff)
  have prio: "Priority p = splitMix64 (word_of_int (EventID p))" using v by (simp add: valid_point_def)
  show ?case unfolding data
    by (simp only: list.size unmarshal_points.simps add_Suc_right add_0_right r bindE_simps prod.case order id
        ih if_False simp_thms not_True_eq_False) (simp add: prio)
qed simp

lemma samples_stored:
  assumes "sample_inv s" and "iteration_order ord" and "iteration_order ord'"
  shows "\<exists>bytes t. sample_MarshalBinary ord (Some s) = Inr bytes \<and> sample_MarshalBinary ord' (Some s) = Inr bytes \<and>
    length bytes \<le> 100011 \<and> UnmarshalSampleSet bytes = Inr t \<and> sample_inv t \<and>
    sample_Points ord' t = sample_Points ord s"
proof -
  have k: "keyed s" and v: "\<forall>p \<in> contents s. valid_point p" and n: "length (points s) \<le> MaxSamplePoints"
    using assms(1) by (simp_all add: sample_inv_def)
  note P = Points_spec [OF k assms(2)]
  let ?ps = "sample_Points ord s"
  have inj: "inj_on EventID (contents s)" using keyed_consistent [OF k] by (simp add: consistent_def)
  have ids: "distinct (map EventID ?ps)" using P(2,4) inj by (simp add: distinct_map)
  have len: "length ?ps < 2 ^ 64" "length ?ps \<le> MaxSamplePoints" using n P(3) by (simp_all add: MaxSamplePoints_def)
  have perm: "sample_Points ord' s = ?ps"
  proof -
    note Q = Points_spec [OF k assms(3)]
    have "mset (sample_Points ord' s) = mset ?ps" using P(2,4) Q(2,4) by (metis set_eq_iff_mset_eq_distinct)
    then show ?thesis by (rule sample_order.sorted_unique [OF Q(1) P(1)])
  qed
  define bytes where "bytes = ([1] @ uvarint_bytes (length ?ps)) @ concat (map point_bytes ?ps) @ []"
  let ?t = "\<lparr>points = map (\<lambda>p. (EventID p, p)) ?ps\<rparr>"
  have m: "sample_MarshalBinary ord (Some s) = Inr bytes" "sample_MarshalBinary ord' (Some s) = Inr bytes"
    by (simp_all add: sample_MarshalBinary_def bytes_def perm Let_def)
  have size: "length bytes \<le> 100011"
  proof -
    have "length (point_bytes p) \<le> 40" if "p \<in> set ?ps" for p
    proof -
      have "nat (EventID p) < 2 ^ 64" "nat (TTFTMS p) < 2 ^ 64" "nat (LatencyMS p) < 2 ^ 64"
        using that v P(2) by (auto simp: valid_point_def i64_def nat_less_iff)
      from this [THEN length_uvarint64] length_uvarint64 [OF unat_64, of "Priority p"]
      show ?thesis by (simp add: point_bytes_def)
    qed
    then have "length (concat (map point_bytes ps)) \<le> 40 * length ps" if "set ps \<subseteq> set ?ps" for ps
      using that by (induction ps) fastforce+
    then have "length (concat (map point_bytes ?ps)) \<le> 40 * length ?ps" by simp
    then show ?thesis using length_uvarint64 [OF len(1)] len(2) by (simp add: bytes_def MaxSamplePoints_def)
  qed
  have "readUvarint bytes 1 ''sample count'' = Inr (length ?ps, length ([1 :: byte] @ uvarint_bytes (length ?ps)))"
    using read_uvarint_bytes [OF len(1), of "[1]"] by (simp add: bytes_def)
  moreover have "unmarshal_points bytes (length ?ps) None (length ([1 :: byte] @ uvarint_bytes (length ?ps))) NewSampleSet =
      Inr (?t, length bytes)"
    using unmarshal_points_ok [OF P(1) _ ids, of NewSampleSet None "[1] @ uvarint_bytes (length ?ps)" "[]"] v P(2)
    by (simp add: NewSampleSet_def mkeys_def bytes_def)
  ultimately have u: "UnmarshalSampleSet bytes = Inr ?t"
    using len(2) by (simp add: UnmarshalSampleSet_def) (simp add: bytes_def)
  have kt: "keyed ?t" using ids by (auto simp: keyed_def wf_map_def mkeys_def comp_def)
  have ct: "contents ?t = contents s" using P(2) by (force simp: contents_def)
  have "sample_inv ?t" using kt ct v len(2) by (simp add: sample_inv_def)
  moreover have "sample_Points ord' ?t = ?ps"
  proof -
    note Q = Points_spec [OF kt assms(3)]
    have "mset (sample_Points ord' ?t) = mset ?ps" using P(2,4) Q(2,4) ct by (metis set_eq_iff_mset_eq_distinct)
    then show ?thesis by (rule sample_order.sorted_unique [OF Q(1) P(1)])
  qed
  ultimately show ?thesis using m size u by blast
qed

text \<open>
  A sample set survives storage.  \<open>MarshalBinary\<close> writes at most 100011 bytes, the same in whatever order
  the runtime walks the map, and \<open>UnmarshalSampleSet\<close> reads back a set that is valid again and lists the
  same points.
\<close>

theorem sample_round_trip:
  assumes "sample_inv s" and "iteration_order ord" and "iteration_order ord'"
  shows "\<exists>bytes t. sample_MarshalBinary ord (Some s) = Inr bytes \<and> sample_MarshalBinary ord' (Some s) = Inr bytes \<and>
    length bytes \<le> 100011 \<and> UnmarshalSampleSet bytes = Inr t \<and> sample_inv t \<and>
    sample_Points ord' t = sample_Points ord s"
  using assms by (rule samples_stored)

theorem sample_round_trip_witness:
  "\<exists>bytes t. sample_MarshalBinary rev (Some \<lparr>points = [(1, point_of 1), (2, point_of 2)]\<rparr>) = Inr bytes \<and>
     UnmarshalSampleSet bytes = Inr t \<and> sample_inv t"
proof -
  have "sample_inv \<lparr>points = [(1, point_of 1), (2, point_of 2)]\<rparr>"
    by (simp add: sample_inv_def keyed_def wf_map_def mkeys_def contents_def valid_point_def point_of_def i64_def
        MaxSamplePoints_def)
  then show ?thesis using sample_round_trip [OF _ iteration_order_rev iteration_order_rev] by blast
qed

lemma unmarshal_points_inv:
  assumes "unmarshal_points encoded n prev offset s = Inr (t, offset')" and "keyed s" and "\<forall>p \<in> contents s. valid_point p"
  shows "keyed t \<and> (\<forall>p \<in> contents t. valid_point p) \<and> length (points t) = length (points s) + n"
  using assms
proof (induction n arbitrary: prev offset s)
  case (Suc n)
  obtain p o1 where p: "read_point encoded offset = Inr (p, o1)" "Priority p = splitMix64 (word_of_int (EventID p))"
    "mget (points s) (EventID p) = None"
    "unmarshal_points encoded n (Some p) o1 (s\<lparr>points := mput (points s) (EventID p) p\<rparr>) = Inr (t, offset')"
    using Suc.prems(1) by (auto simp: bindE_Inr split: if_splits)
  have new: "EventID p \<notin> set (mkeys (points s))" using p(3) by (simp add: mget_None_iff)
  have "valid_point p"
    using p(1,2) by (auto simp: read_point_def bindE_Inr valid_point_def dest!: readPositiveInt64_bounds)
  with Suc.prems(2,3) have "keyed (s\<lparr>points := mput (points s) (EventID p) p\<rparr>)"
    "\<forall>q \<in> contents (s\<lparr>points := mput (points s) (EventID p) p\<rparr>). valid_point q"
    using keyed_put [OF Suc.prems(2) new] by auto
  from Suc.IH [OF p(4) this] show ?case by (simp add: mput_new [OF new])
qed simp

text \<open>
  Whatever bytes the database returns, a set that \<open>UnmarshalSampleSet\<close> accepts is valid: at most 2500
  points with distinct positive events, positive \<open>int64\<close> times and the priority their event demands.
\<close>

theorem unmarshal_samples_valid:
  assumes "UnmarshalSampleSet encoded = Inr s"
  shows "sample_inv s"
proof -
  obtain n off off' where u: "unmarshal_points encoded n None off NewSampleSet = Inr (s, off')" "n \<le> MaxSamplePoints"
    using assms by (auto simp: UnmarshalSampleSet_def bindE_Inr split: if_splits)
  have "keyed NewSampleSet" "\<forall>p \<in> contents NewSampleSet. valid_point p"
    by (simp_all add: keyed_def contents_def NewSampleSet_def)
  from unmarshal_points_inv [OF u(1) this] u(2) show ?thesis by (simp add: sample_inv_def NewSampleSet_def)
qed

theorem unmarshal_samples_valid_witness:
  "\<exists>s. UnmarshalSampleSet [1, 0] = Inr s \<and> sample_inv s"
proof -
  have "UnmarshalSampleSet [1, 0] = Inr NewSampleSet"
    by (simp add: UnmarshalSampleSet_def readUvarint_def Uvarint_def)
  then show ?thesis using unmarshal_samples_valid by blast
qed

end
