(* ===== verification/LatencyRows.thy ===== *)
theory LatencyRows
  imports LatencySketch LatencySamples ActivityRows
begin

text \<open>
  \<open>internal/latency/aggregate.go\<close>: \<open>BuildRows\<close> turns the usage events that carry a latency into the hourly
  and daily rows of the latency table, each with two encoded sketches and an encoded sample set.
\<close>

section \<open>Keys, rows and builders\<close>

type_synonym UsageLatencyBucketType = string

abbreviation UsageLatencyBucketHour :: UsageLatencyBucketType where "UsageLatencyBucketHour \<equiv> ''hour''"
abbreviation UsageLatencyBucketDay :: UsageLatencyBucketType where "UsageLatencyBucketDay \<equiv> ''day''"

type_synonym latencyKey = "UsageLatencyBucketType \<times> gtime \<times> string"

record aggregateRowBuilder =
  lb_SampleCount :: int
  lb_MaxTTFTMS :: int
  lb_MaxLatencyMS :: int
  lb_TTFTSketch :: Sketch
  lb_LatencySketch :: Sketch
  lb_SamplePoints :: SampleSet

record UsageLatencyStat =
  ls_ID :: int
  ls_BucketType :: UsageLatencyBucketType
  ls_BucketStart :: gtime
  ls_APIGroupKey :: string
  ls_SampleCount :: int
  ls_MaxTTFTMS :: int
  ls_MaxLatencyMS :: int
  ls_FormatVersion :: int
  ls_TTFTSketch :: "byte list"
  ls_LatencySketch :: "byte list"
  ls_SamplePoints :: "byte list"
  ls_CreatedAt :: gtime
  ls_UpdatedAt :: gtime

text \<open>\<open>t.Minute()\<close>, \<open>t.Second()\<close> and \<open>t.Nanosecond()\<close> read the local clock.\<close>

definition localHourStart :: "zone \<Rightarrow> gtime \<Rightarrow> gtime" where
  "localHourStart z t =
     t_add t (- (local_secs z t mod 3600 div 60) * Minute - (local_secs z t mod 60) * Second - t mod Second)"

definition RetentionBucketStartCutoff :: "zone \<Rightarrow> UsageLatencyBucketType \<Rightarrow> gtime \<Rightarrow> latency_error + gtime" where
  "RetentionBucketStartCutoff z bucketType now =
     (if is_zero now then Inl RetentionTimeZero
      else if bucketType = UsageLatencyBucketHour then Inr (localHourStart z (t_add now (- 3 * 24 * Hour)))
      else if bucketType = UsageLatencyBucketDay
      then Inr (add_days z (midnight z (local_day z now)) (- (365 - 1)))
      else Inl (UnsupportedBucketType bucketType))"

text \<open>
  The three parameters of the component: the bin of a value, and the orders in which the runtime walks a
  map of bins and a map of points.
\<close>

record latency_env =
  le_bin_key :: "int \<Rightarrow> int"
  le_bin_order :: bin_order
  le_point_order :: point_order

definition new_builder :: aggregateRowBuilder where
  "new_builder = \<lparr>lb_SampleCount = 0, lb_MaxTTFTMS = 0, lb_MaxLatencyMS = 0, lb_TTFTSketch = NewSketch,
     lb_LatencySketch = NewSketch, lb_SamplePoints = NewSampleSet\<rparr>"

definition builder_add ::
  "latency_env \<Rightarrow> int \<Rightarrow> int \<Rightarrow> int \<Rightarrow> aggregateRowBuilder \<Rightarrow> latency_error + aggregateRowBuilder" where
  "builder_add env eventID ttftMS latencyMS b =
     bindE (sketch_Add (le_bin_key env) (Some (lb_TTFTSketch b)) ttftMS) (\<lambda>ttft.
     bindE (sketch_Add (le_bin_key env) (Some (lb_LatencySketch b)) latencyMS) (\<lambda>latency.
     bindE (sample_Add (le_point_order env) (Some (lb_SamplePoints b)) eventID ttftMS latencyMS) (\<lambda>samples.
       Inr \<lparr>lb_SampleCount = wrap64 (lb_SampleCount b + 1),
            lb_MaxTTFTMS = (if ttftMS > lb_MaxTTFTMS b then ttftMS else lb_MaxTTFTMS b),
            lb_MaxLatencyMS = (if latencyMS > lb_MaxLatencyMS b then latencyMS else lb_MaxLatencyMS b),
            lb_TTFTSketch = ttft, lb_LatencySketch = latency, lb_SamplePoints = samples\<rparr>)))"

section \<open>BuildRows\<close>

type_synonym builder_map = "(latencyKey, aggregateRowBuilder) gomap"

text \<open>Failed, non-generating and untimed events are no latency samples.\<close>

definition skipped :: "UsageEvent \<Rightarrow> bool" where
  "skipped event \<longleftrightarrow> ev_Failed event \<or> ev_Generate event = None \<or> ev_Generate event = Some False \<or>
     ev_TTFTMS event = None \<or> the (ev_TTFTMS event) \<le> 0 \<or> ev_LatencyMS event \<le> 0"

definition event_keys :: "zone \<Rightarrow> UsageEvent \<Rightarrow> latencyKey list" where
  "event_keys z event =
     (let apiGroupKey = NormalizeAPIGroupKey (ev_APIGroupKey event) in
      [(UsageLatencyBucketHour, localHourStart z (ev_Timestamp event), apiGroupKey),
       (UsageLatencyBucketDay, midnight z (local_day z (ev_Timestamp event)), apiGroupKey)])"

definition expired :: "gtime \<Rightarrow> gtime \<Rightarrow> latencyKey \<Rightarrow> bool" where
  "expired hourCutoff dayCutoff key \<longleftrightarrow>
     fst key = UsageLatencyBucketHour \<and> fst (snd key) < hourCutoff \<or>
     fst key = UsageLatencyBucketDay \<and> fst (snd key) < dayCutoff"

definition add_to_builder ::
  "latency_env \<Rightarrow> UsageEvent \<Rightarrow> latencyKey \<Rightarrow> builder_map \<Rightarrow> latency_error + builder_map" where
  "add_to_builder env event key m =
     (let b = (case mget m key of Some b \<Rightarrow> b | None \<Rightarrow> new_builder) in
      case builder_add env (ev_ID event) (the (ev_TTFTMS event)) (ev_LatencyMS event) b of
        Inl e \<Rightarrow> Inl (RowError (ev_ID event) e)
      | Inr b' \<Rightarrow> Inr (mput m key b'))"

definition latency_event ::
  "latency_env \<Rightarrow> zone \<Rightarrow> gtime \<Rightarrow> gtime \<Rightarrow> UsageEvent \<Rightarrow> builder_map \<Rightarrow> latency_error + builder_map" where
  "latency_event env z hourCutoff dayCutoff event m =
     (if skipped event then Inr m
      else foldE (\<lambda>key m. if expired hourCutoff dayCutoff key then Inr m else add_to_builder env event key m)
             (event_keys z event) m)"

definition encode_row :: "latency_env \<Rightarrow> latencyKey \<times> aggregateRowBuilder \<Rightarrow> latency_error + UsageLatencyStat" where
  "encode_row env kb =
     (let (key, b) = kb in
      bindE (sketch_MarshalBinary (le_bin_order env) (Some (lb_TTFTSketch b))) (\<lambda>ttftSketch.
      bindE (sketch_MarshalBinary (le_bin_order env) (Some (lb_LatencySketch b))) (\<lambda>latencySketch.
      bindE (sample_MarshalBinary (le_point_order env) (Some (lb_SamplePoints b))) (\<lambda>samplePoints.
        Inr \<lparr>ls_ID = 0, ls_BucketType = fst key, ls_BucketStart = fst (snd key), ls_APIGroupKey = snd (snd key),
             ls_SampleCount = lb_SampleCount b, ls_MaxTTFTMS = lb_MaxTTFTMS b, ls_MaxLatencyMS = lb_MaxLatencyMS b,
             ls_FormatVersion = 1, ls_TTFTSketch = ttftSketch, ls_LatencySketch = latencySketch,
             ls_SamplePoints = samplePoints, ls_CreatedAt = zero_time, ls_UpdatedAt = zero_time\<rparr>))))"

definition latency_less :: "UsageLatencyStat \<Rightarrow> UsageLatencyStat \<Rightarrow> bool" where
  "latency_less l r =
     (if ls_BucketType l \<noteq> ls_BucketType r then ls_BucketType l < ls_BucketType r
      else if ls_BucketStart l \<noteq> ls_BucketStart r then ls_BucketStart l < ls_BucketStart r
      else ls_APIGroupKey l < ls_APIGroupKey r)"

definition LatencyBuildRows ::
  "latency_env \<Rightarrow> (builder_map \<Rightarrow> builder_map) \<Rightarrow> zone \<Rightarrow> UsageEvent list \<Rightarrow> gtime \<Rightarrow>
     latency_error + UsageLatencyStat list" where
  "LatencyBuildRows env ord z events now =
     bindE (RetentionBucketStartCutoff z UsageLatencyBucketHour now) (\<lambda>hourCutoff.
     bindE (RetentionBucketStartCutoff z UsageLatencyBucketDay now) (\<lambda>dayCutoff.
     bindE (foldE (latency_event env z hourCutoff dayCutoff) events []) (\<lambda>builders.
     bindE (foldE (\<lambda>kb rows. bindE (encode_row env kb) (\<lambda>row. Inr (rows @ [row]))) (ord builders) [])
       (\<lambda>rows. Inr (sort_slice latency_less rows)))))"

section \<open>The order of the rows\<close>

definition latency_row_key :: "UsageLatencyStat \<Rightarrow> latencyKey" where
  "latency_row_key row = (ls_BucketType row, ls_BucketStart row, ls_APIGroupKey row)"

interpretation latency_order: row_order latency_less latency_row_key
proof
  show "\<not> latency_less x x" for x by (simp add: latency_less_def)
  show "latency_less x z" if "latency_less x y" "latency_less y z" for x y z
    using that by (auto simp: latency_less_def split: if_splits dest: less_trans)
  show "latency_less x y \<or> latency_less y x" if "latency_row_key x \<noteq> latency_row_key y" for x y
    using that by (auto simp: latency_less_def latency_row_key_def)
qed

section \<open>What a builder stands for\<close>

definition ttft :: "UsageEvent \<Rightarrow> int" where
  "ttft e = the (ev_TTFTMS e)"

definition event_point :: "UsageEvent \<Rightarrow> SamplePoint" where
  "event_point e = \<lparr>EventID = ev_ID e, Priority = splitMix64 (word_of_int (ev_ID e)), TTFTMS = ttft e,
     LatencyMS = ev_LatencyMS e\<rparr>"

definition event_ok :: "UsageEvent \<Rightarrow> bool" where
  "event_ok e \<longleftrightarrow> \<not> skipped e \<and> 0 < ev_ID e \<and> i64 (ev_ID e) \<and> i64 (ttft e) \<and> i64 (ev_LatencyMS e)"

lemma event_okD: "event_ok e \<Longrightarrow> 0 < ttft e \<and> 0 < ev_LatencyMS e \<and> valid_point (event_point e)"
  by (auto simp: event_ok_def skipped_def ttft_def event_point_def valid_point_def not_le)

text \<open>The largest value the events show, from the zero the builder starts with.\<close>

definition peak :: "(UsageEvent \<Rightarrow> int) \<Rightarrow> UsageEvent list \<Rightarrow> int" where
  "peak f es = Max (insert 0 (f ` set es))"

lemma peak_nil: "peak f [] = 0"
  by (simp add: peak_def)

lemma peak_snoc: "peak f (es @ [e]) = (if f e > peak f es then f e else peak f es)"
proof -
  have "peak f (es @ [e]) = Max (insert (f e) (insert 0 (f ` set es)))"
    unfolding peak_def by (rule arg_cong [where f = Max]) auto
  also have "\<dots> = max (f e) (peak f es)" by (subst Max_insert) (simp_all add: peak_def)
  finally show ?thesis by (auto simp: max_def)
qed

definition builds :: "latency_env \<Rightarrow> aggregateRowBuilder \<Rightarrow> UsageEvent list \<Rightarrow> bool" where
  "builds env b es \<longleftrightarrow>
     represents (le_bin_key env) (lb_TTFTSketch b) (map ttft es) \<and>
     represents (le_bin_key env) (lb_LatencySketch b) (map ev_LatencyMS es) \<and>
     keeps (lb_SamplePoints b) (event_point ` set es) \<and>
     lb_SampleCount b = int (length es) \<and>
     lb_MaxTTFTMS b = peak ttft es \<and>
     lb_MaxLatencyMS b = peak ev_LatencyMS es"

lemma builds_new: "builds env new_builder []"
  by (simp add: builds_def new_builder_def represents_new keeps_new peak_nil)

lemma points_consistent: "distinct (map ev_ID es) \<Longrightarrow> consistent (event_point ` set es)"
proof -
  assume "distinct (map ev_ID es)"
  then have "inj_on (EventID \<circ> event_point) (set es)"
    by (simp add: distinct_map comp_def event_point_def)
  then show ?thesis by (simp add: consistent_def inj_on_imageI)
qed

abbreviation few :: "nat \<Rightarrow> bool" where "few n \<equiv> n \<le> 1000000000000000000"

lemma builds_add:
  assumes b: "builds env b es" and e: "event_ok e" and ids: "distinct (map ev_ID (es @ [e]))" and n: "few (length es)"
    and o: "iteration_order (le_point_order env)"
  shows "\<exists>b'. builder_add env (ev_ID e) (the (ev_TTFTMS e)) (ev_LatencyMS e) b = Inr b' \<and> builds env b' (es @ [e])"
proof -
  note pos = event_okD [OF e]
  have small: "length (map ttft es) < MaxU64" "length (map ev_LatencyMS es) < MaxU64" using n by simp_all
  obtain s1 where s1: "sketch_Add (le_bin_key env) (Some (lb_TTFTSketch b)) (ttft e) = Inr s1"
    "represents (le_bin_key env) s1 (map ttft (es @ [e]))"
    using represents_add [of "le_bin_key env" "lb_TTFTSketch b" "map ttft es" "ttft e"] b pos small
    by (auto simp: builds_def)
  obtain s2 where s2: "sketch_Add (le_bin_key env) (Some (lb_LatencySketch b)) (ev_LatencyMS e) = Inr s2"
    "represents (le_bin_key env) s2 (map ev_LatencyMS (es @ [e]))"
    using represents_add [of "le_bin_key env" "lb_LatencySketch b" "map ev_LatencyMS es" "ev_LatencyMS e"] b pos small
    by (auto simp: builds_def)
  have "consistent (insert (event_point e) (event_point ` set es))"
    using points_consistent [OF ids] by simp
  then obtain t where t: "sample_Add (le_point_order env) (Some (lb_SamplePoints b)) (ev_ID e) (ttft e) (ev_LatencyMS e) = Inr t"
    "keeps t (event_point ` set (es @ [e]))"
    using keeps_add [OF _ o, of "lb_SamplePoints b" "event_point ` set es" "event_point e"] b pos
    by (auto simp: builds_def event_point_def)
  have "wrap64 (lb_SampleCount b + 1) = int (length (es @ [e]))"
    using b n by (simp add: builds_def wrap64_id i64_def)
  then show ?thesis
    using b s1 s2 t peak_snoc [of ttft es e] peak_snoc [of ev_LatencyMS es e]
    by (simp add: builder_add_def ttft_def [symmetric] builds_def)
qed

section \<open>The loop over the events\<close>

definition with_key :: "latencyKey \<Rightarrow> (latencyKey \<times> UsageEvent) list \<Rightarrow> UsageEvent list" where
  "with_key k its = map snd (filter (\<lambda>i. fst i = k) its)"

lemma with_key_append [simp]: "with_key k (xs @ ys) = with_key k xs @ with_key k ys"
  and with_key_one [simp]: "with_key k [(k', e)] = (if k' = k then [e] else [])"
  and with_key_nil [simp]: "with_key k [] = []"
  by (simp_all add: with_key_def)

definition builds_key :: "latency_env \<Rightarrow> aggregateRowBuilder option \<Rightarrow> UsageEvent list \<Rightarrow> bool" where
  "builds_key env r es \<longleftrightarrow> (case r of None \<Rightarrow> es = [] | Some b \<Rightarrow> es \<noteq> [] \<and> builds env b es)"

lemma builds_key_simps [simp]:
  "builds_key env None es \<longleftrightarrow> es = []"
  "builds_key env (Some b) es \<longleftrightarrow> es \<noteq> [] \<and> builds env b es"
  by (simp_all add: builds_key_def)

definition builds_map :: "latency_env \<Rightarrow> builder_map \<Rightarrow> (latencyKey \<times> UsageEvent) list \<Rightarrow> bool" where
  "builds_map env m its \<longleftrightarrow> wf_map m \<and> (\<forall>k. builds_key env (mget m k) (with_key k its))"

lemma builds_mapD: "builds_map env m its \<Longrightarrow> builds_key env (mget m k) (with_key k its)"
  unfolding builds_map_def by blast

definition items_ok :: "(latencyKey \<times> UsageEvent) list \<Rightarrow> bool" where
  "items_ok its \<longleftrightarrow> (\<forall>i \<in> set its. event_ok (snd i)) \<and>
     (\<forall>k. distinct (map ev_ID (with_key k its)) \<and> few (length (with_key k its)))"

lemma items_ok_prefix: "items_ok (xs @ ys) \<Longrightarrow> items_ok xs"
  by (auto simp: items_ok_def) (meson add_leD1)

lemma add_item:
  assumes m: "builds_map env m its" and ok: "items_ok (its @ [(k, e)])" and o: "iteration_order (le_point_order env)"
  shows "\<exists>m'. add_to_builder env e k m = Inr m' \<and> builds_map env m' (its @ [(k, e)])"
proof -
  define b where "b = (case mget m k of Some b \<Rightarrow> b | None \<Rightarrow> new_builder)"
  have b: "builds env b (with_key k its)"
    using builds_mapD [OF m, of k] builds_new by (cases "mget m k") (simp_all add: b_def)
  have "distinct (map ev_ID (with_key k its @ [e]))" "event_ok e" "few (length (with_key k its))"
  proof -
    have "distinct (map ev_ID (with_key k (its @ [(k, e)])))" "few (length (with_key k (its @ [(k, e)])))"
      using ok unfolding items_ok_def by blast+
    then show "distinct (map ev_ID (with_key k its @ [e]))" "few (length (with_key k its))" by simp_all
    show "event_ok e" using ok by (simp add: items_ok_def)
  qed
  from builds_add [OF b this(2,1,3) o] obtain b' where
    b': "builder_add env (ev_ID e) (the (ev_TTFTMS e)) (ev_LatencyMS e) b = Inr b'" "builds env b' (with_key k its @ [e])"
    by blast
  have "add_to_builder env e k m = Inr (mput m k b')"
    using b'(1) by (simp add: add_to_builder_def b_def [symmetric])
  moreover have "builds_map env (mput m k b') (its @ [(k, e)])"
    unfolding builds_map_def
  proof (intro conjI allI)
    show "wf_map (mput m k b')" using m unfolding builds_map_def by (blast intro: wf_map_mput)
    show "builds_key env (mget (mput m k b') k') (with_key k' (its @ [(k, e)]))" for k'
      using builds_mapD [OF m, of k'] b'(2) by (cases "k' = k") simp_all
  qed
  ultimately show ?thesis by blast
qed

lemma add_items:
  assumes "builds_map env m its" and "items_ok (its @ more_its)" and "iteration_order (le_point_order env)"
  shows "\<exists>m'. foldE (\<lambda>(k, e). add_to_builder env e k) more_its m = Inr m' \<and> builds_map env m' (its @ more_its)"
  using assms
proof (induction more_its arbitrary: its m)
  case (Cons i its')
  obtain k e where i: "i = (k, e)" by (cases i)
  have "items_ok (its @ [(k, e)])" using Cons.prems(2) by (simp add: i items_ok_prefix [of _ its'])
  then obtain m' where m': "add_to_builder env e k m = Inr m'" "builds_map env m' (its @ [(k, e)])"
    using add_item [OF Cons.prems(1) _ Cons.prems(3)] by blast
  have "items_ok ((its @ [(k, e)]) @ its')" using Cons.prems(2) by (simp add: i)
  from Cons.IH [OF m'(2) this Cons.prems(3)] show ?case by (simp add: i m'(1))
qed simp

definition event_items :: "zone \<Rightarrow> gtime \<Rightarrow> gtime \<Rightarrow> UsageEvent \<Rightarrow> (latencyKey \<times> UsageEvent) list" where
  "event_items z hourCutoff dayCutoff e =
     (if skipped e then [] else map (\<lambda>k. (k, e)) (filter (\<lambda>k. \<not> expired hourCutoff dayCutoff k) (event_keys z e)))"

lemma foldE_append: "foldE f (xs @ ys) s = bindE (foldE f xs s) (foldE f ys)"
proof (induction xs arbitrary: s)
  case (Cons x xs)
  then show ?case by (cases "f x s") simp_all
qed simp

lemma latency_event_items:
  "latency_event env z hc dc e m = foldE (\<lambda>(k, e). add_to_builder env e k) (event_items z hc dc e) m"
proof -
  have "foldE (\<lambda>key m. if expired hc dc key then Inr m else add_to_builder env e key m) ks m =
      foldE (\<lambda>(k, e). add_to_builder env e k) (map (\<lambda>k. (k, e)) (filter (\<lambda>k. \<not> expired hc dc k) ks)) m" for ks m
    by (induction ks arbitrary: m) (auto simp: bindE_def split: sum.split)
  then show ?thesis by (simp add: latency_event_def event_items_def)
qed

lemma latency_events_items:
  "foldE (latency_event env z hc dc) events m =
     foldE (\<lambda>(k, e). add_to_builder env e k) (concat (map (event_items z hc dc) events)) m"
proof (induction events arbitrary: m)
  case (Cons e events)
  have IH: "foldE (latency_event env z hc dc) events =
      foldE (\<lambda>(k, e). add_to_builder env e k) (concat (map (event_items z hc dc) events))"
    by (rule ext) (rule Cons.IH)
  have "foldE (latency_event env z hc dc) (e # events) m =
      bindE (foldE (\<lambda>(k, e). add_to_builder env e k) (event_items z hc dc e) m)
        (foldE (\<lambda>(k, e). add_to_builder env e k) (concat (map (event_items z hc dc) events)))"
    by (simp only: foldE.simps IH latency_event_items [of env z hc dc e m])
  then show ?case by (simp only: list.map concat.simps foldE_append)
qed simp

text \<open>The events behind a key.\<close>

definition sampled_in :: "zone \<Rightarrow> latencyKey \<Rightarrow> UsageEvent \<Rightarrow> bool" where
  "sampled_in z key e \<longleftrightarrow> \<not> skipped e \<and> key \<in> set (event_keys z e)"

lemma with_key_items:
  "with_key k (concat (map (event_items z hc dc) events)) =
     (if expired hc dc k then [] else filter (sampled_in z k) events)"
proof (induction events)
  case (Cons e events)
  have "with_key k (event_items z hc dc e) = (if \<not> expired hc dc k \<and> sampled_in z k e then [e] else [])"
    by (auto simp: with_key_def event_items_def sampled_in_def event_keys_def Let_def)
  with Cons show ?case by simp
qed simp

lemma event_items_ok:
  assumes "list_all (\<lambda>e. skipped e \<or> event_ok e) events" and "distinct (map ev_ID events)" and "few (length events)"
  shows "items_ok (concat (map (event_items z hc dc) events))"
  unfolding items_ok_def
proof (intro conjI ballI allI)
  fix i assume "i \<in> set (concat (map (event_items z hc dc) events))"
  then obtain e where "e \<in> set events" "\<not> skipped e" "snd i = e" by (auto simp: event_items_def split: if_splits)
  then show "event_ok (snd i)" using assms(1) by (auto simp: list_all_iff)
next
  fix k
  show "distinct (map ev_ID (with_key k (concat (map (event_items z hc dc) events))))"
    using assms(2) by (simp add: with_key_items distinct_map_filter)
  show "few (length (with_key k (concat (map (event_items z hc dc) events))))"
    using assms(3) le_trans [OF length_filter_le assms(3)] by (simp add: with_key_items)
qed

section \<open>Encoding\<close>

lemma represents_inv:
  assumes r: "represents bin_key s vs" and k: "\<forall>v \<in> set vs. i64 (bin_key v)" and n: "few (length vs)"
  shows "sketch_inv s \<and> length (bins s) < 2 ^ 64"
proof -
  have wf: "wf_map (bins s)" and cnt: "sk_count s = length vs" using r by (simp_all add: represents_def)
  have keys: "set (map fst (bins s)) = bin_key ` set vs" by (rule represents_keys [OF r])
  have d: "distinct (map fst (bins s))" using wf by (simp add: wf_map_def mkeys_def)
  have c: "c = in_bin bin_key vs x \<and> 0 < c" if "(x, c) \<in> set (bins s)" for x c
  proof -
    have "mget (bins s) x = Some c" using mget_iff [OF wf] that by blast
    then show ?thesis using r by (auto simp: represents_def split: if_splits)
  qed
  have "(\<Sum>(x, c)\<leftarrow>bins s. c) = (\<Sum>x\<leftarrow>map fst (bins s). in_bin bin_key vs x)"
    using c by (auto simp: comp_def intro!: arg_cong [where f = sum_list])
  also have "\<dots> = length (filter (\<lambda>v. bin_key v \<in> set (map fst (bins s))) vs)" by (rule sum_in_bin [OF d])
  also have "filter (\<lambda>v. bin_key v \<in> set (map fst (bins s))) vs = vs" unfolding keys by (simp add: filter_id_conv)
  finally have "(\<Sum>(x, c)\<leftarrow>bins s. c) = length vs" .
  moreover have "i64 x" if "(x, c) \<in> set (bins s)" for x c
  proof -
    have "x \<in> set (map fst (bins s))" using that by force
    with keys k show ?thesis by auto
  qed
  moreover have "length (bins s) \<le> length vs"
    using distinct_card [OF d] keys card_image_le [of "set vs" bin_key] card_length [of vs] by simp
  ultimately show ?thesis using wf cnt c n by (auto simp: sketch_inv_def)
qed

lemma sketch_written:
  assumes r: "represents bin_key s vs" and k: "\<forall>v \<in> set vs. i64 (bin_key v)" and n: "few (length vs)" and o: "iteration_order ord"
  shows "\<exists>bytes s'. sketch_MarshalBinary ord (Some s) = Inr bytes \<and> UnmarshalSketch bytes = Inr s' \<and> represents bin_key s' vs"
proof -
  have inv: "sketch_inv s" "length (bins s) < 2 ^ 64" using represents_inv [OF r k n] by simp_all
  obtain bytes s' where b: "sketch_MarshalBinary ord (Some s) = Inr bytes" "UnmarshalSketch bytes = Inr s'"
    "mget (bins s') = mget (bins s)" "sk_count s' = sk_count s"
    using sketch_stored [OF inv(1) o inv(2)] by blast
  have "wf_map (bins s')" using unmarshal_sketch_inv [OF b(2)] by (simp add: sketch_inv_def)
  then have "represents bin_key s' vs" using r b(3,4) by (simp add: represents_def)
  with b show ?thesis by blast
qed

lemma samples_written:
  assumes k: "keeps s A" and A: "consistent A" "\<forall>p \<in> A. valid_point p" and o: "iteration_order ord"
  shows "\<exists>bytes t. sample_MarshalBinary ord (Some s) = Inr bytes \<and> UnmarshalSampleSet bytes = Inr t \<and> keeps t A"
proof -
  have s: "keyed s" "contents s = bottom MaxSamplePoints A" using k by (simp_all add: keeps_def)
  have "length (points s) \<le> MaxSamplePoints" using keyed_card [OF s(1)] card_bottom [OF A(1)] s(2) by simp
  then have inv: "sample_inv s" using s A(2) subsetD [OF bottom_subset] by (simp add: sample_inv_def)
  obtain bytes t where b: "sample_MarshalBinary ord (Some s) = Inr bytes" "UnmarshalSampleSet bytes = Inr t"
    "sample_inv t" "sample_Points ord t = sample_Points ord s"
    using samples_stored [OF inv o o] by blast
  have t: "keyed t" using b(3) by (simp add: sample_inv_def)
  have "contents t = contents s" using Points_spec(2) [OF t o] Points_spec(2) [OF s(1) o] b(4) by simp
  then have "keeps t A" using t s(2) by (simp add: keeps_def)
  with b show ?thesis by blast
qed

text \<open>What a stored row says about the events \<open>es\<close> behind it.\<close>

definition row_shows :: "latency_env \<Rightarrow> UsageLatencyStat \<Rightarrow> UsageEvent list \<Rightarrow> bool" where
  "row_shows env row es \<longleftrightarrow> ls_FormatVersion row = 1 \<and>
     ls_SampleCount row = int (length es) \<and> ls_MaxTTFTMS row = peak ttft es \<and> ls_MaxLatencyMS row = peak ev_LatencyMS es \<and>
     (\<exists>s. UnmarshalSketch (ls_TTFTSketch row) = Inr s \<and> represents (le_bin_key env) s (map ttft es)) \<and>
     (\<exists>s. UnmarshalSketch (ls_LatencySketch row) = Inr s \<and> represents (le_bin_key env) s (map ev_LatencyMS es)) \<and>
     (\<exists>t. UnmarshalSampleSet (ls_SamplePoints row) = Inr t \<and> keeps t (event_point ` set es))"

definition env_ok :: "latency_env \<Rightarrow> bool" where
  "env_ok env \<longleftrightarrow> iteration_order (le_bin_order env) \<and> iteration_order (le_point_order env) \<and>
     (\<forall>v. 0 < v \<longrightarrow> i64 v \<longrightarrow> i64 (le_bin_key env v))"

lemma encode_builds:
  assumes env: "env_ok env" and b: "builds env b es" and es: "\<forall>e \<in> set es. event_ok e" and ids: "distinct (map ev_ID es)"
    and n: "few (length es)"
  shows "\<exists>row. encode_row env (key, b) = Inr row \<and> latency_row_key row = key \<and> row_shows env row es"
proof -
  have pos: "0 < ttft e \<and> 0 < ev_LatencyMS e \<and> valid_point (event_point e) \<and> i64 (ttft e) \<and> i64 (ev_LatencyMS e)"
    if "e \<in> set es" for e
    using es event_okD that by (auto simp: event_ok_def)
  have keys: "\<forall>v \<in> set (map ttft es). i64 (le_bin_key env v)" "\<forall>v \<in> set (map ev_LatencyMS es). i64 (le_bin_key env v)"
    using env pos by (auto simp: env_ok_def)
  have o: "iteration_order (le_bin_order env)" "iteration_order (le_point_order env)" using env by (simp_all add: env_ok_def)
  have r: "represents (le_bin_key env) (lb_TTFTSketch b) (map ttft es)"
    "represents (le_bin_key env) (lb_LatencySketch b) (map ev_LatencyMS es)" "keeps (lb_SamplePoints b) (event_point ` set es)"
    using b by (simp_all add: builds_def)
  have n': "few (length (map ttft es))" "few (length (map ev_LatencyMS es))" using n by simp_all
  obtain b1 s1 where s1: "sketch_MarshalBinary (le_bin_order env) (Some (lb_TTFTSketch b)) = Inr b1"
    "UnmarshalSketch b1 = Inr s1" "represents (le_bin_key env) s1 (map ttft es)"
    using sketch_written [OF r(1) keys(1) n'(1) o(1)] by blast
  obtain b2 s2 where s2: "sketch_MarshalBinary (le_bin_order env) (Some (lb_LatencySketch b)) = Inr b2"
    "UnmarshalSketch b2 = Inr s2" "represents (le_bin_key env) s2 (map ev_LatencyMS es)"
    using sketch_written [OF r(2) keys(2) n'(2) o(1)] by blast
  have "\<forall>p \<in> event_point ` set es. valid_point p" using pos by blast
  then obtain b3 t where t: "sample_MarshalBinary (le_point_order env) (Some (lb_SamplePoints b)) = Inr b3"
    "UnmarshalSampleSet b3 = Inr t" "keeps t (event_point ` set es)"
    using samples_written [OF r(3) points_consistent [OF ids] _ o(2)] by blast
  show ?thesis
    using b s1 s2 t by (cases key) (auto simp: encode_row_def builds_def row_shows_def latency_row_key_def)
qed

lemma foldE_collect:
  "(\<And>x. x \<in> set xs \<Longrightarrow> f x = Inr (g x)) \<Longrightarrow>
     foldE (\<lambda>x rows. bindE (f x) (\<lambda>row. Inr (rows @ [row]))) xs rows = Inr (rows @ map g xs)"
  by (induction xs arbitrary: rows) simp_all

section \<open>The rows are the table the events describe\<close>

lemma rows_collect:
  assumes "\<And>kb. kb \<in> set m \<Longrightarrow> \<exists>row. encode_row env kb = Inr row \<and> latency_row_key row = fst kb \<and> row_shows env row (g (fst kb))"
    and "wf_map m" and "iteration_order ord"
  shows "\<exists>rows. foldE (\<lambda>kb rows. bindE (encode_row env kb) (\<lambda>row. Inr (rows @ [row]))) (ord m) [] = Inr rows \<and>
    sorted_wrt latency_less (sort_slice latency_less rows) \<and> latency_row_key ` set rows = set (mkeys m) \<and>
    (\<forall>row \<in> set rows. row_shows env row (g (latency_row_key row)))"
proof -
  define enc where "enc kb = projr (encode_row env kb)" for kb
  have enc: "encode_row env kb = Inr (enc kb) \<and> latency_row_key (enc kb) = fst kb \<and> row_shows env (enc kb) (g (fst kb))"
    if "kb \<in> set m" for kb
    using assms(1) [OF that] by (auto simp: enc_def)
  have sm: "set (ord m) = set m" by (rule iteration_order_set [OF assms(3)])
  let ?rows = "map enc (ord m)"
  have "foldE (\<lambda>kb rows. bindE (encode_row env kb) (\<lambda>row. Inr (rows @ [row]))) (ord m) [] = Inr ([] @ ?rows)"
    using enc sm by (intro foldE_collect) simp
  moreover have keys: "map latency_row_key ?rows = map fst (ord m)" using enc sm by simp
  moreover have "mset (map fst (ord m)) = mset (mkeys m)" using assms(3) by (simp add: iteration_order_def mkeys_def)
  then have "distinct (map fst (ord m))" using assms(2) unfolding wf_map_def by (metis mset_eq_imp_distinct_iff)
  then have "sorted_wrt latency_less (sort_slice latency_less ?rows)"
    by (intro latency_order.sorted_sort_slice) (simp only: keys)
  moreover have "latency_row_key ` set ?rows = set (mkeys m)"
    using enc sm by (auto simp: mkeys_def image_image)
  moreover have "\<forall>row \<in> set ?rows. row_shows env row (g (latency_row_key row))" using enc sm by auto
  ultimately show ?thesis by (intro exI [of _ ?rows]) simp
qed

lemma latency_rows_built:
  assumes "list_all (\<lambda>e. skipped e \<or> event_ok e) events" and "distinct (map ev_ID events)" and "few (length events)"
    and "env_ok env" and "iteration_order ord"
    and "RetentionBucketStartCutoff z UsageLatencyBucketHour now = Inr hc"
    and "RetentionBucketStartCutoff z UsageLatencyBucketDay now = Inr dc"
  shows "\<exists>rows. LatencyBuildRows env ord z events now = Inr rows \<and> sorted_wrt latency_less rows \<and>
    latency_row_key ` set rows = {key. \<not> expired hc dc key \<and> filter (sampled_in z key) events \<noteq> []} \<and>
    (\<forall>row \<in> set rows. row_shows env row (filter (sampled_in z (latency_row_key row)) events))"
proof -
  let ?its = "concat (map (event_items z hc dc) events)"
  have "builds_map env [] []" by (simp add: builds_map_def)
  moreover have ok: "items_ok ([] @ ?its)" using event_items_ok [OF assms(1-3)] by simp
  moreover have po: "iteration_order (le_point_order env)" using assms(4) by (simp add: env_ok_def)
  ultimately obtain m where m: "foldE (latency_event env z hc dc) events [] = Inr m" "builds_map env m ?its"
    using add_items [of env "[]" "[]" ?its] unfolding latency_events_items by auto
  have wf: "wf_map m" using m(2) unfolding builds_map_def by blast
  have key: "k \<in> set (mkeys m) \<longleftrightarrow> \<not> expired hc dc k \<and> filter (sampled_in z k) events \<noteq> []" for k
    using builds_mapD [OF m(2), of k] mget_None_iff [of m k]
    by (cases "mget m k") (simp_all add: with_key_items split: if_splits)
  have "\<exists>row. encode_row env kb = Inr row \<and> latency_row_key row = fst kb \<and> row_shows env row (filter (sampled_in z (fst kb)) events)"
    if kb: "kb \<in> set m" for kb
  proof -
    let ?es = "filter (sampled_in z (fst kb)) events"
    have "mget m (fst kb) = Some (snd kb)" using mget_iff [OF wf, of "fst kb" "snd kb"] kb by simp
    then have b: "builds env (snd kb) ?es"
      using builds_mapD [OF m(2), of "fst kb"] by (simp add: with_key_items split: if_splits)
    have "\<forall>e \<in> set ?es. event_ok e" using assms(1) by (auto simp: list_all_iff sampled_in_def)
    moreover have "distinct (map ev_ID ?es)" "few (length ?es)"
      using assms(2) le_trans [OF length_filter_le assms(3)] by (simp_all add: distinct_map_filter)
    ultimately show ?thesis using encode_builds [OF assms(4) b, of "fst kb"] by simp
  qed
  from rows_collect [where g = "\<lambda>k. filter (sampled_in z k) events", OF this wf assms(5)] obtain rows where
    rows: "foldE (\<lambda>kb rows. bindE (encode_row env kb) (\<lambda>row. Inr (rows @ [row]))) (ord m) [] = Inr rows"
    "sorted_wrt latency_less (sort_slice latency_less rows)" "latency_row_key ` set rows = set (mkeys m)"
    "\<forall>row \<in> set rows. row_shows env row (filter (sampled_in z (latency_row_key row)) events)"
    by blast
  have "LatencyBuildRows env ord z events now = Inr (sort_slice latency_less rows)"
    using m(1) rows(1) assms(6,7) by (simp add: LatencyBuildRows_def)
  moreover have "latency_row_key ` set rows = {key. \<not> expired hc dc key \<and> filter (sampled_in z key) events \<noteq> []}"
    using rows(3) key by blast
  ultimately show ?thesis using rows(2,4) by simp
qed

text \<open>
  C12: From usage events with distinct ids the latency table comes out complete and right.  \<open>BuildRows\<close> returns
  rows sorted by bucket type, start and group, one for every key that some usable, unexpired event falls into; each row's
  sample count and maxima are those of the events of its key, and its three blobs decode to the sketch of their first-token
  times, the sketch of their latencies and the sample set that keeps the 2500 first of their points.
\<close>

theorem latency_rows_faithful:
  assumes "list_all (\<lambda>e. skipped e \<or> event_ok e) events" and "distinct (map ev_ID events)" and "few (length events)"
    and "env_ok env" and "iteration_order ord"
    and "RetentionBucketStartCutoff z UsageLatencyBucketHour now = Inr hc"
    and "RetentionBucketStartCutoff z UsageLatencyBucketDay now = Inr dc"
  shows "\<exists>rows. LatencyBuildRows env ord z events now = Inr rows \<and> sorted_wrt latency_less rows \<and>
    latency_row_key ` set rows = {key. \<not> expired hc dc key \<and> filter (sampled_in z key) events \<noteq> []} \<and>
    (\<forall>row \<in> set rows. row_shows env row (filter (sampled_in z (latency_row_key row)) events))"
  by (rule latency_rows_built [OF assms])

text \<open>A usable event, and the environment the witnesses run in: bins of one millisecond.\<close>

definition timed_event :: UsageEvent where
  "timed_event = sample_event\<lparr>ev_Generate := Some True\<rparr>"

definition plain_env :: latency_env where
  "plain_env = \<lparr>le_bin_key = \<lambda>v. v, le_bin_order = rev, le_point_order = rev\<rparr>"

theorem latency_rows_faithful_witness:
  "\<exists>rows hc dc. LatencyBuildRows plain_env rev (fixed_zone 0) [timed_event] (time_unix 1700003600) = Inr rows \<and>
     latency_row_key ` set rows =
       {key. \<not> expired hc dc key \<and> filter (sampled_in (fixed_zone 0) key) [timed_event] \<noteq> []} \<and>
     (\<forall>row \<in> set rows. row_shows plain_env row (filter (sampled_in (fixed_zone 0) (latency_row_key row)) [timed_event]))"
proof -
  have ev: "list_all (\<lambda>e. skipped e \<or> event_ok e) [timed_event]"
    by (auto simp: event_ok_def skipped_def ttft_def timed_event_def sample_event_def i64_def)
  have few: "distinct (map ev_ID [timed_event])" "few (length [timed_event])" by simp_all
  have env: "env_ok plain_env" by (simp add: env_ok_def plain_env_def iteration_order_rev)
  have now: "\<not> is_zero (time_unix 1700003600)" by (simp add: is_zero_def zero_time_def time_unix_def)
  have "\<exists>c. RetentionBucketStartCutoff (fixed_zone 0) UsageLatencyBucketHour (time_unix 1700003600) = Inr c"
    "\<exists>c. RetentionBucketStartCutoff (fixed_zone 0) UsageLatencyBucketDay (time_unix 1700003600) = Inr c"
    unfolding RetentionBucketStartCutoff_def using now by simp_all
  then obtain hc dc where cut: "RetentionBucketStartCutoff (fixed_zone 0) UsageLatencyBucketHour (time_unix 1700003600) = Inr hc"
    "RetentionBucketStartCutoff (fixed_zone 0) UsageLatencyBucketDay (time_unix 1700003600) = Inr dc" by blast
  from latency_rows_faithful [OF ev few env iteration_order_rev cut] show ?thesis by blast
qed

end
