(* ===== verification/IngestControl.thy ===== *)
theory IngestControl
  imports GoBase
begin

text \<open>
  \<open>internal/poller/control_message.go\<close> and the filter of \<open>redis_inbox_writer.go\<close>: which of the raw
  messages that arrive from the upstream service are control notices, which are empty, and which are usage
  records that have to reach the inbox.  Positions in a message are natural numbers, as the source scans it
  byte by byte.
\<close>

section \<open>Scanning\<close>

abbreviation quote :: char where "quote \<equiv> CHR 0x22"

definition json_space :: "char \<Rightarrow> bool" where
  "json_space c \<longleftrightarrow> c \<in> {CHR 0x20, CHR 0x0A, CHR 0x0D, CHR 0x09}"

function skipJSONWhitespace :: "string \<Rightarrow> nat \<Rightarrow> nat" where
  "skipJSONWhitespace raw i =
     (if i < length raw \<and> json_space (raw ! i) then skipJSONWhitespace raw (i + 1) else i)"
  by pat_completeness auto
termination by (relation "measure (\<lambda>(raw, i). length raw - i)") auto

declare skipJSONWhitespace.simps [simp del]

definition hasLiteralAt :: "string \<Rightarrow> nat \<Rightarrow> string \<Rightarrow> bool" where
  "hasLiteralAt raw i literal \<longleftrightarrow>
     i + length literal \<le> length raw \<and> take (length literal) (drop i raw) = literal"

text \<open>The second result of the source, \<open>ok\<close>, is whether there is a result here.\<close>

definition matchJSONStringLiteral :: "string \<Rightarrow> nat \<Rightarrow> string \<Rightarrow> nat option" where
  "matchJSONStringLiteral raw i val =
     (if i \<ge> length raw \<or> raw ! i \<noteq> quote then None
      else
        let start = i + 1; stop = start + length val in
        if stop \<ge> length raw then None
        else if take (length val) (drop start raw) \<noteq> val then None
        else if raw ! stop \<noteq> quote then None
        else Some (stop + 1))"

datatype control_field = redisControlNone | redisControlSupportRefresh | redisControlRefresh

definition matchControlField :: "string \<Rightarrow> nat \<Rightarrow> control_field \<times> nat" where
  "matchControlField raw i =
     (case matchJSONStringLiteral raw i ''support_refresh'' of
        Some stop \<Rightarrow> (redisControlSupportRefresh, stop)
      | None \<Rightarrow>
          (case matchJSONStringLiteral raw i ''refresh'' of
             Some stop \<Rightarrow> (redisControlRefresh, stop)
           | None \<Rightarrow> (redisControlNone, i)))"

definition parseSingleTrueControlField :: "string \<Rightarrow> control_field" where
  "parseSingleTrueControlField raw =
     (let i = skipJSONWhitespace raw 0 in
      if i \<ge> length raw \<or> raw ! i \<noteq> CHR ''{'' then redisControlNone
      else
        let i = skipJSONWhitespace raw (i + 1);
            (field, stop) = matchControlField raw i in
        if field = redisControlNone then redisControlNone
        else
          let i = skipJSONWhitespace raw stop in
          if i \<ge> length raw \<or> raw ! i \<noteq> CHR '':'' then redisControlNone
          else
            let i = skipJSONWhitespace raw (i + 1) in
            if \<not> hasLiteralAt raw i ''true'' then redisControlNone
            else
              let i = skipJSONWhitespace raw (i + length ''true'') in
              if i \<ge> length raw \<or> raw ! i \<noteq> CHR ''}'' then redisControlNone
              else
                let i = skipJSONWhitespace raw (i + 1) in
                if i \<noteq> length raw then redisControlNone else field)"

record RedisControlMessage =
  cm_IsControl :: bool
  cm_SupportRefresh :: bool
  cm_Refresh :: bool

text \<open>\<open>strings.Contains\<close>.\<close>

fun go_contains :: "string \<Rightarrow> string \<Rightarrow> bool" where
  "go_contains [] sub \<longleftrightarrow> sub = []"
| "go_contains (c # cs) sub \<longleftrightarrow> has_prefix (c # cs) sub \<or> go_contains cs sub"

definition ClassifyRedisControlMessage :: "string \<Rightarrow> RedisControlMessage" where
  "ClassifyRedisControlMessage raw =
     (if go_contains raw ([quote] @ ''request_id'' @ [quote])
      then \<lparr>cm_IsControl = False, cm_SupportRefresh = False, cm_Refresh = False\<rparr>
      else
        case parseSingleTrueControlField raw of
          redisControlSupportRefresh \<Rightarrow> \<lparr>cm_IsControl = True, cm_SupportRefresh = True, cm_Refresh = False\<rparr>
        | redisControlRefresh \<Rightarrow> \<lparr>cm_IsControl = True, cm_SupportRefresh = True, cm_Refresh = True\<rparr>
        | redisControlNone \<Rightarrow> \<lparr>cm_IsControl = False, cm_SupportRefresh = False, cm_Refresh = False\<rparr>)"

definition isIgnorableRawPayload :: "string \<Rightarrow> bool" where
  "isIgnorableRawPayload raw =
     (let i = skipJSONWhitespace raw 0 in
      if i = length raw then True
      else if \<not> hasLiteralAt raw i ''null'' then False
      else skipJSONWhitespace raw (i + length ''null'') = length raw)"

section \<open>The filter of the inbox writer\<close>

datatype notice = MarkRefreshSupported | RequestMetadataRefresh

definition control_notices :: "bool \<Rightarrow> RedisControlMessage \<Rightarrow> notice list" where
  "control_notices observer control =
     (if observer \<and> cm_SupportRefresh control then [MarkRefreshSupported] else []) @
     (if observer \<and> cm_Refresh control then [RequestMetadataRefresh] else [])"

definition cloneUsagePrefix :: "string list \<Rightarrow> nat \<Rightarrow> string list" where
  "cloneUsagePrefix messages stop = take stop messages"

text \<open>
  The loop of \<open>ControlAwareRedisInboxWriter.Insert\<close> from index \<open>i\<close> on: whether anything was filtered, the
  messages kept once something was, and the calls of the observer.
\<close>

fun filter_loop ::
  "bool \<Rightarrow> string list \<Rightarrow> nat \<Rightarrow> string list \<Rightarrow> bool \<Rightarrow> string list \<Rightarrow> notice list \<Rightarrow>
     bool \<times> string list \<times> notice list" where
  "filter_loop observer messages i [] filtered usageMessages notices = (filtered, usageMessages, notices)"
| "filter_loop observer messages i (message # rest) filtered usageMessages notices =
     (if isIgnorableRawPayload message then
        filter_loop observer messages (i + 1) rest True
          (if filtered then usageMessages else cloneUsagePrefix messages i) notices
      else
        let control = ClassifyRedisControlMessage message in
        if \<not> cm_IsControl control then
          filter_loop observer messages (i + 1) rest filtered
            (if filtered then usageMessages @ [message] else usageMessages) notices
        else
          filter_loop observer messages (i + 1) rest True
            (if filtered then usageMessages else cloneUsagePrefix messages i)
            (notices @ control_notices observer control))"

section \<open>What the scanner accepts\<close>

lemma skip_bounds: "i \<le> length raw \<Longrightarrow> i \<le> skipJSONWhitespace raw i \<and> skipJSONWhitespace raw i \<le> length raw"
proof (induction raw i rule: skipJSONWhitespace.induct)
  case (1 raw i)
  then show ?case by (simp add: skipJSONWhitespace.simps [of raw i]) linarith
qed

lemma drop_skip: "drop (skipJSONWhitespace raw i) raw = dropWhile json_space (drop i raw)"
proof (induction raw i rule: skipJSONWhitespace.induct)
  case (1 raw i)
  show ?case
  proof (cases "i < length raw")
    case True
    then have "drop i raw = raw ! i # drop (i + 1) raw" by (simp add: Cons_nth_drop_Suc)
    with True 1 show ?thesis by (simp add: skipJSONWhitespace.simps [of raw i])
  qed (simp add: skipJSONWhitespace.simps [of raw i])
qed

lemma at_position: "(i \<ge> length raw \<or> raw ! i \<noteq> c) \<longleftrightarrow> (\<nexists>r. drop i raw = c # r)"
  by (cases "i < length raw") (auto simp: Cons_nth_drop_Suc [symmetric])

lemma drop_past: "drop i raw = l @ r \<Longrightarrow> drop (i + length l) raw = r"
  by (metis append_eq_conv_conj drop_drop add.commute)

lemma hasLiteralAt_iff: "l \<noteq> [] \<Longrightarrow> hasLiteralAt raw i l \<longleftrightarrow> (\<exists>r. drop i raw = l @ r)"
proof
  assume "hasLiteralAt raw i l"
  then have "drop i raw = l @ drop (length l) (drop i raw)"
    unfolding hasLiteralAt_def by (metis append_take_drop_id)
  then show "\<exists>r. drop i raw = l @ r" ..
next
  assume "l \<noteq> []" and "\<exists>r. drop i raw = l @ r"
  then obtain r where r: "drop i raw = l @ r" by blast
  then have "length raw - i = length l + length r" by (metis length_append length_drop)
  moreover have "0 < length l" using \<open>l \<noteq> []\<close> by simp
  ultimately have "i + length l \<le> length raw" by linarith
  then show "hasLiteralAt raw i l" by (simp add: hasLiteralAt_def r)
qed

lemma matchJSONStringLiteral_iff:
  "matchJSONStringLiteral raw i v = Some j \<longleftrightarrow>
     (\<exists>r. drop i raw = [quote] @ v @ [quote] @ r \<and> drop j raw = r \<and> j = i + length v + 2)"
proof -
  have "take (length v) (drop (i + 1) raw) = v \<and> i + 1 + length v < length raw \<and> raw ! (i + 1 + length v) = quote \<longleftrightarrow>
      (\<exists>r. drop (i + 1) raw = v @ quote # r)"
  proof
    assume a: "take (length v) (drop (i + 1) raw) = v \<and> i + 1 + length v < length raw \<and> raw ! (i + 1 + length v) = quote"
    have "drop (i + 1) raw = v @ drop (length v) (drop (i + 1) raw)"
      using a append_take_drop_id [of "length v" "drop (i + 1) raw"] by simp
    moreover have "drop (length v) (drop (i + 1) raw) = drop (i + 1 + length v) raw" by (simp add: ac_simps)
    moreover have "drop (i + 1 + length v) raw = quote # drop (Suc (i + 1 + length v)) raw"
      using a Cons_nth_drop_Suc [of "i + 1 + length v" raw] by simp
    ultimately show "\<exists>r. drop (i + 1) raw = v @ quote # r" by metis
  next
    assume "\<exists>r. drop (i + 1) raw = v @ quote # r"
    then obtain r where r: "drop (i + 1) raw = v @ quote # r" by blast
    have "length (drop (i + 1) raw) = length v + 1 + length r" unfolding r by simp
    then have len: "i + 1 + length v < length raw" by simp
    have "raw ! (i + 1 + length v) = drop (i + 1) raw ! length v" using len by simp
    with r len show "take (length v) (drop (i + 1) raw) = v \<and> i + 1 + length v < length raw \<and>
        raw ! (i + 1 + length v) = quote" by (simp add: nth_append)
  qed
  moreover have "(i < length raw \<and> raw ! i = quote) \<and> (\<exists>r. drop (i + 1) raw = v @ quote # r) \<longleftrightarrow>
      (\<exists>r. drop i raw = [quote] @ v @ [quote] @ r)"
    by (cases "i < length raw") (auto simp: Cons_nth_drop_Suc [symmetric])
  moreover have "drop (i + length v + 2) raw = r" if "drop i raw = [quote] @ v @ [quote] @ r" for r
    using drop_past [of i raw "[quote] @ v @ [quote]" r] that by simp
  ultimately show ?thesis
    unfolding matchJSONStringLiteral_def Let_def by (auto simp: not_le split: if_splits)
qed

text \<open>The messages the grammar allows: one object with the one field, which is true, and spaces around the tokens.\<close>

definition spaces :: "string \<Rightarrow> bool" where
  "spaces w \<longleftrightarrow> list_all json_space w"

definition control_text :: "string \<Rightarrow> string \<Rightarrow> bool" where
  "control_text field raw \<longleftrightarrow>
     (\<exists>a b c d e f. spaces a \<and> spaces b \<and> spaces c \<and> spaces d \<and> spaces e \<and> spaces f \<and>
        raw = a @ ''{'' @ b @ [quote] @ field @ [quote] @ c @ '':'' @ d @ ''true'' @ e @ ''}'' @ f)"

lemma token: "\<not> json_space x \<Longrightarrow> dropWhile json_space s = x # r \<longleftrightarrow> (\<exists>w. spaces w \<and> s = w @ x # r)"
proof
  assume x: "\<not> json_space x" and "\<exists>w. spaces w \<and> s = w @ x # r"
  then show "dropWhile json_space s = x # r" by (auto simp: spaces_def list_all_iff dropWhile_append2)
next
  assume "dropWhile json_space s = x # r"
  then have "s = takeWhile json_space s @ x # r" using takeWhile_dropWhile_id [of json_space s] by simp
  moreover have "spaces (takeWhile json_space s)" by (auto simp: spaces_def list_all_iff dest: set_takeWhileD)
  ultimately show "\<exists>w. spaces w \<and> s = w @ x # r" by blast
qed

lemma no_token: "dropWhile json_space s = [] \<longleftrightarrow> spaces s"
  by (simp add: spaces_def list_all_iff dropWhile_eq_Nil_conv)

lemma not_space: "\<not> json_space quote" "\<not> json_space CHR ''{''" "\<not> json_space CHR '':''" "\<not> json_space CHR ''t''"
  "\<not> json_space CHR ''}''" "\<not> json_space CHR ''n''"
  by (simp_all add: json_space_def)

fun field_name :: "control_field \<Rightarrow> string" where
  "field_name redisControlNone = []"
| "field_name redisControlSupportRefresh = ''support_refresh''"
| "field_name redisControlRefresh = ''refresh''"

lemma matchControlField_iff:
  assumes "field \<noteq> redisControlNone"
  shows "matchControlField raw i = (field, j) \<longleftrightarrow> matchJSONStringLiteral raw i (field_name field) = Some j"
proof -
  have "matchJSONStringLiteral raw i ''support_refresh'' = None" if "matchJSONStringLiteral raw i ''refresh'' = Some j" for j
  proof (rule ccontr)
    assume "matchJSONStringLiteral raw i ''support_refresh'' \<noteq> None"
    then show False using that by (auto simp: matchJSONStringLiteral_iff)
  qed
  with assms show ?thesis
    by (cases field) (auto simp: matchControlField_def split: option.split)
qed

text \<open>The scanner, read on what is left of the message at each token.\<close>

definition scans :: "control_field \<Rightarrow> string \<Rightarrow> bool" where
  "scans field raw \<longleftrightarrow> (\<exists>r1 r2 r3 r4 r5.
     dropWhile json_space raw = CHR ''{'' # r1 \<and>
     dropWhile json_space r1 = [quote] @ field_name field @ [quote] @ r2 \<and>
     dropWhile json_space r2 = CHR '':'' # r3 \<and>
     dropWhile json_space r3 = ''true'' @ r4 \<and>
     dropWhile json_space r4 = CHR ''}'' # r5 \<and> dropWhile json_space r5 = [])"

lemma scans_control_text: "scans field raw \<longleftrightarrow> control_text (field_name field) raw"
proof -
  have "''true'' @ r4 = CHR ''t'' # ''rue'' @ r4" for r4 by simp
  then show ?thesis
    unfolding scans_def control_text_def by (simp only: append_Cons append_Nil token [OF not_space(1)] token [OF not_space(2)]
      token [OF not_space(3)] token [OF not_space(4)] token [OF not_space(5)] no_token) blast
qed

lemma parse_scans:
  assumes F: "field \<noteq> redisControlNone"
  shows "parseSingleTrueControlField raw = field \<longleftrightarrow> scans field raw"
proof
  assume p: "parseSingleTrueControlField raw = field"
  let ?i1 = "skipJSONWhitespace raw 0" let ?i2 = "skipJSONWhitespace raw (?i1 + 1)"
  obtain r1 where r1: "drop ?i1 raw = CHR ''{'' # r1"
    using p F at_position [of raw ?i1] by (auto simp: parseSingleTrueControlField_def Let_def split: if_splits)
  obtain j where j: "matchControlField raw ?i2 = (field, j)"
    using p F by (auto simp: parseSingleTrueControlField_def Let_def split: if_splits prod.splits)
  then obtain r2 where r2: "drop ?i2 raw = [quote] @ field_name field @ [quote] @ r2" "drop j raw = r2"
    using F by (auto simp: matchControlField_iff matchJSONStringLiteral_iff)
  let ?i3 = "skipJSONWhitespace raw j" let ?i4 = "skipJSONWhitespace raw (?i3 + 1)"
  let ?i5 = "skipJSONWhitespace raw (?i4 + length ''true'')" let ?i6 = "skipJSONWhitespace raw (?i5 + 1)"
  obtain r3 where r3: "drop ?i3 raw = CHR '':'' # r3"
    using p F j at_position [of raw ?i3] by (auto simp: parseSingleTrueControlField_def Let_def split: if_splits)
  obtain r4 where r4: "drop ?i4 raw = ''true'' @ r4"
    using p F j hasLiteralAt_iff [of "''true''" raw ?i4] by (auto simp: parseSingleTrueControlField_def Let_def split: if_splits)
  obtain r5 where r5: "drop ?i5 raw = CHR ''}'' # r5"
    using p F j at_position [of raw ?i5] by (auto simp: parseSingleTrueControlField_def Let_def split: if_splits)
  have r6: "drop ?i6 raw = []"
    using p F j by (auto simp: parseSingleTrueControlField_def Let_def split: if_splits)
  have "drop (?i1 + 1) raw = r1" "drop (?i3 + 1) raw = r3" "drop (?i4 + length ''true'') raw = r4" "drop (?i5 + 1) raw = r5"
    using drop_past [of ?i1 raw "''{''"] drop_past [of ?i3 raw "'':''"] drop_past [of ?i4 raw "''true''"]
      drop_past [of ?i5 raw "''}''"] r1 r3 r4 r5 by simp_all
  then show "scans field raw"
    using r1 r2 r3 r4 r5 r6 unfolding scans_def drop_skip by (metis drop0)
next
  assume "scans field raw"
  then obtain r1 r2 r3 r4 r5 where
    r: "dropWhile json_space raw = CHR ''{'' # r1" "dropWhile json_space r1 = [quote] @ field_name field @ [quote] @ r2"
      "dropWhile json_space r2 = CHR '':'' # r3" "dropWhile json_space r3 = ''true'' @ r4"
      "dropWhile json_space r4 = CHR ''}'' # r5" "dropWhile json_space r5 = []"
    unfolding scans_def by blast
  define i1 where "i1 = skipJSONWhitespace raw 0"
  have i1: "drop i1 raw = CHR ''{'' # r1" "drop (i1 + 1) raw = r1"
    using r(1) drop_past [of i1 raw "''{''"] drop_skip [of raw 0] by (simp_all add: i1_def)
  define i2 where "i2 = skipJSONWhitespace raw (i1 + 1)"
  have i2: "drop i2 raw = [quote] @ field_name field @ [quote] @ r2" by (simp only: i2_def drop_skip i1 r)
  define j where "j = i2 + length (field_name field) + 2"
  have j: "drop j raw = r2" "matchControlField raw i2 = (field, j)"
    using drop_past [of i2 raw "[quote] @ field_name field @ [quote]" r2] i2
    by (simp_all add: matchControlField_iff [OF F] matchJSONStringLiteral_iff j_def)
  define i3 where "i3 = skipJSONWhitespace raw j"
  have i3: "drop i3 raw = CHR '':'' # r3" by (simp only: i3_def drop_skip j r)
  define i4 where "i4 = skipJSONWhitespace raw (i3 + 1)"
  have i4: "drop i4 raw = ''true'' @ r4"
    using drop_past [of i3 raw "'':''" r3] i3 by (simp add: i4_def drop_skip r(4))
  define i5 where "i5 = skipJSONWhitespace raw (i4 + length ''true'')"
  have i5: "drop i5 raw = CHR ''}'' # r5"
    using drop_past [of i4 raw "''true''" r4] i4 unfolding i5_def drop_skip by (simp add: r(5))
  define i6 where "i6 = skipJSONWhitespace raw (i5 + 1)"
  have i5_lt: "i5 + 1 \<le> length raw" using i5 by (metis drop_all list.distinct(1) not_less_eq_eq Suc_eq_plus1)
  have "drop i6 raw = []"
    using drop_past [of i5 raw "''}''" r5] i5 by (simp add: i6_def drop_skip r(6))
  then have i6: "i6 = length raw" using skip_bounds [OF i5_lt] by (simp add: i6_def)
  have ok: "\<not> (i1 \<ge> length raw \<or> raw ! i1 \<noteq> CHR ''{'')" "\<not> (i3 \<ge> length raw \<or> raw ! i3 \<noteq> CHR '':'')"
    "hasLiteralAt raw i4 ''true''" "\<not> (i5 \<ge> length raw \<or> raw ! i5 \<noteq> CHR ''}'')"
    using i1 i3 i4 i5 at_position [of raw i1] at_position [of raw i3] at_position [of raw i5] hasLiteralAt_iff [of "''true''" raw i4]
    by auto
  show "parseSingleTrueControlField raw = field"
    unfolding parseSingleTrueControlField_def Let_def i1_def [symmetric] i2_def [symmetric] j(2) prod.case
      i3_def [symmetric] i4_def [symmetric] i5_def [symmetric] i6_def [symmetric]
    using ok i6 F by (simp only: if_False if_True not_True_eq_False simp_thms)
qed

lemma go_contains_set: "go_contains s sub \<Longrightarrow> set sub \<subseteq> set s"
proof (induction s)
  case (Cons c s)
  show ?case
  proof (cases "has_prefix (c # s) sub")
    case True
    then obtain r where "c # s = sub @ r" by (auto simp: has_prefix_append)
    then have "set (c # s) = set (sub @ r)" by (rule arg_cong)
    then show ?thesis by simp
  next
    case False
    with Cons show ?thesis by auto
  qed
qed simp

lemma control_no_request: "control_text (field_name field) raw \<Longrightarrow> \<not> go_contains raw ([quote] @ ''request_id'' @ [quote])"
proof
  assume c: "control_text (field_name field) raw" and "go_contains raw ([quote] @ ''request_id'' @ [quote])"
  then have "CHR ''q'' \<in> set raw" using go_contains_set by fastforce
  moreover have "CHR ''q'' \<notin> set (field_name field)" by (cases field) simp_all
  moreover have "CHR ''q'' \<notin> set w" if "spaces w" for w
  proof
    assume "CHR ''q'' \<in> set w"
    then have "json_space CHR ''q''" using that by (simp add: spaces_def list_all_iff)
    then show False by (simp add: json_space_def)
  qed
  moreover obtain a b c' d e f where "spaces a" "spaces b" "spaces c'" "spaces d" "spaces e" "spaces f"
    and raw: "raw = a @ ''{'' @ b @ [quote] @ field_name field @ [quote] @ c' @ '':'' @ d @ ''true'' @ e @ ''}'' @ f"
    using c unfolding control_text_def by blast
  ultimately show False unfolding raw by simp
qed

lemma control_text_inject:
  assumes "control_text (field_name f) raw" and "control_text (field_name g) raw" and "f \<noteq> redisControlNone" and "g \<noteq> redisControlNone"
  shows "f = g"
  using assms parse_scans scans_control_text by metis

text \<open>The scanner reads exactly the grammar; a control text never looks like a usage record.\<close>

lemma classify_iff:
  "ClassifyRedisControlMessage raw =
     (if control_text ''support_refresh'' raw then \<lparr>cm_IsControl = True, cm_SupportRefresh = True, cm_Refresh = False\<rparr>
      else if control_text ''refresh'' raw then \<lparr>cm_IsControl = True, cm_SupportRefresh = True, cm_Refresh = True\<rparr>
      else \<lparr>cm_IsControl = False, cm_SupportRefresh = False, cm_Refresh = False\<rparr>)"
proof -
  have "parseSingleTrueControlField raw = field \<longleftrightarrow> control_text (field_name field) raw" if "field \<noteq> redisControlNone" for field
    using parse_scans [OF that] scans_control_text by simp
  from this [of redisControlSupportRefresh] this [of redisControlRefresh]
    control_no_request [of redisControlSupportRefresh raw] control_no_request [of redisControlRefresh raw]
  show ?thesis
    by (cases "parseSingleTrueControlField raw") (simp_all add: ClassifyRedisControlMessage_def)
qed

lemma ignorable_iff: "isIgnorableRawPayload raw \<longleftrightarrow> spaces raw \<or> (\<exists>a b. spaces a \<and> spaces b \<and> raw = a @ ''null'' @ b)"
proof -
  let ?i = "skipJSONWhitespace raw 0"
  have d: "drop ?i raw = dropWhile json_space raw" using drop_skip [of raw 0] by simp
  have le: "?i \<le> length raw" using skip_bounds [of 0 raw] by simp
  have first: "?i = length raw \<longleftrightarrow> spaces raw" using d le no_token [of raw] by (metis drop_eq_Nil order_antisym_conv)
  have lit: "hasLiteralAt raw ?i ''null'' \<longleftrightarrow> (\<exists>a r. spaces a \<and> raw = a @ ''null'' @ r)"
    using hasLiteralAt_iff [of "''null''" raw ?i] token [OF not_space(6), of raw] d by simp blast
  have rest: "skipJSONWhitespace raw (?i + length ''null'') = length raw \<longleftrightarrow> spaces r"
    if "spaces a" "raw = a @ ''null'' @ r" for a r
  proof -
    have n: "drop ?i raw = ''null'' @ r" using d token [OF not_space(6), of raw "''ull'' @ r"] that by auto
    then have "drop (?i + length ''null'') raw = r" by (rule drop_past)
    moreover have "?i + length ''null'' \<le> length raw"
      using hasLiteralAt_iff [of "''null''" raw ?i] n by (auto simp: hasLiteralAt_def)
    ultimately show ?thesis
      using skip_bounds [of "?i + length ''null''" raw] drop_skip [of raw "?i + length ''null''"] no_token [of r]
      by (metis drop_eq_Nil order_antisym_conv)
  qed
  show ?thesis
  proof (cases "spaces raw \<or> \<not> hasLiteralAt raw ?i ''null''")
    case True
    then show ?thesis using lit by (auto simp: isIgnorableRawPayload_def Let_def first)
  next
    case False
    then have i: "isIgnorableRawPayload raw \<longleftrightarrow> skipJSONWhitespace raw (?i + length ''null'') = length raw"
      by (simp only: isIgnorableRawPayload_def Let_def first) simp
    obtain a r where ar: "spaces a" "raw = a @ ''null'' @ r" using False lit by blast
    show ?thesis unfolding i using False ar rest by blast
  qed
qed

text \<open>
  C25: Exactly two shapes of message are taken out of the usage stream as control notices.  The byte scanner, which
  avoids a JSON parser on the hot path, recognises an object whose only field is \<open>support_refresh\<close> or \<open>refresh\<close> with the
  value true, with JSON spaces anywhere between the tokens, and nothing else; it discards a payload that is
  blank or \<open>null\<close>; and the shortcut for texts with a request id never hides a control notice.
\<close>

theorem control_message_grammar:
  "ClassifyRedisControlMessage raw =
     (if control_text ''support_refresh'' raw then \<lparr>cm_IsControl = True, cm_SupportRefresh = True, cm_Refresh = False\<rparr>
      else if control_text ''refresh'' raw then \<lparr>cm_IsControl = True, cm_SupportRefresh = True, cm_Refresh = True\<rparr>
      else \<lparr>cm_IsControl = False, cm_SupportRefresh = False, cm_Refresh = False\<rparr>) \<and>
   (isIgnorableRawPayload raw \<longleftrightarrow> spaces raw \<or> (\<exists>a b. spaces a \<and> spaces b \<and> raw = a @ ''null'' @ b))"
  by (rule conjI [OF classify_iff ignorable_iff])

section \<open>What the filter keeps\<close>

definition is_usage :: "string \<Rightarrow> bool" where
  "is_usage message \<longleftrightarrow> \<not> isIgnorableRawPayload message \<and> \<not> cm_IsControl (ClassifyRedisControlMessage message)"

definition notices_of :: "bool \<Rightarrow> string list \<Rightarrow> notice list" where
  "notices_of observer messages =
     concat (map (\<lambda>m. control_notices observer (ClassifyRedisControlMessage m)) (filter (\<lambda>m. \<not> isIgnorableRawPayload m) messages))"

lemma no_notice: "\<not> cm_IsControl (ClassifyRedisControlMessage m) \<Longrightarrow> control_notices observer (ClassifyRedisControlMessage m) = []"
  by (auto simp: classify_iff control_notices_def split: if_splits)

lemma filter_loop_from:
  assumes "messages = pre @ rest" and "i = length pre"
    and "filtered \<Longrightarrow> usageMessages = filter is_usage pre" and "\<not> filtered \<Longrightarrow> filter is_usage pre = pre"
  shows "\<exists>filtered' kept. filter_loop observer messages i rest filtered usageMessages notices =
      (filtered', kept, notices @ notices_of observer rest) \<and>
    (filtered' \<longrightarrow> kept = filter is_usage messages) \<and> (\<not> filtered' \<longrightarrow> filter is_usage messages = messages)"
  using assms
proof (induction rest arbitrary: pre i filtered usageMessages notices)
  case Nil
  then show ?case by (cases filtered) (auto simp: notices_of_def)
next
  case (Cons m rest)
  have clone: "cloneUsagePrefix messages i = pre" using Cons.prems(1,2) by (simp add: cloneUsagePrefix_def)
  have pre: "messages = (pre @ [m]) @ rest" "i + 1 = length (pre @ [m])" using Cons.prems(1,2) by simp_all
  note IH = Cons.IH [OF pre]
  let ?kept = "if filtered then usageMessages else cloneUsagePrefix messages i"
  have kept: "?kept = filter is_usage pre" using Cons.prems(3,4) clone by simp
  show ?case
  proof (cases "isIgnorableRawPayload m \<or> cm_IsControl (ClassifyRedisControlMessage m)")
    case True
    then have "filter is_usage (pre @ [m]) = filter is_usage pre" by (auto simp: is_usage_def)
    then have "True \<Longrightarrow> ?kept = filter is_usage (pre @ [m])" using kept by simp
    note step = IH [of True ?kept, OF this]
    show ?thesis
    proof (cases "isIgnorableRawPayload m")
      case True
      then show ?thesis using step [of notices] by (simp add: notices_of_def)
    next
      case False
      with \<open>isIgnorableRawPayload m \<or> _\<close> show ?thesis
        using step [of "notices @ control_notices observer (ClassifyRedisControlMessage m)"]
        by (simp add: notices_of_def Let_def)
    qed
  next
    case False
    then have u: "is_usage m" by (simp add: is_usage_def)
    have "filtered \<Longrightarrow> (if filtered then usageMessages @ [m] else usageMessages) = filter is_usage (pre @ [m])"
      "\<not> filtered \<Longrightarrow> filter is_usage (pre @ [m]) = pre @ [m]"
      using Cons.prems(3,4) u by simp_all
    from IH [OF this] show ?thesis
      using False no_notice [of m observer] by (simp add: notices_of_def Let_def)
  qed
qed

text \<open>Whichever slice the writer passes on, it holds the usage records of the batch in their order.\<close>

lemma filter_loop_usage:
  obtains filtered kept where "filter_loop observer messages 0 messages False [] [] = (filtered, kept, notices_of observer messages)"
    and "(if filtered then kept else messages) = filter is_usage messages"
  using filter_loop_from [of messages "[]" messages 0 False "[]" observer "[]"] by auto

end
