(* ===== verification/StateLogic.thy ===== *)
theory StateLogic
  imports Main "HOL-Library.State_Monad"
begin

text \<open>
  Programs that thread a state through many calls are written in the library's state monad.  \<open>holds P c Q\<close> says
  that from a state with \<open>P\<close> the command \<open>c\<close> ends with a result and a state related by \<open>Q\<close>; the rules below take
  such a statement apart along the structure of the command.
\<close>

definition holds :: "('s \<Rightarrow> bool) \<Rightarrow> ('s, 'a) state \<Rightarrow> ('a \<Rightarrow> 's \<Rightarrow> bool) \<Rightarrow> bool" where
  "holds P c Q \<longleftrightarrow> (\<forall>s. P s \<longrightarrow> Q (fst (run_state c s)) (snd (run_state c s)))"

definition reads :: "('s \<Rightarrow> 'a) \<Rightarrow> ('s, 'a) state" where
  "reads f = State (\<lambda>s. (f s, s))"

definition modify :: "('s \<Rightarrow> 's) \<Rightarrow> ('s, unit) state" where
  "modify f = State (\<lambda>s. ((), f s))"

definition only_if :: "bool \<Rightarrow> ('s, unit) state \<Rightarrow> ('s, unit) state" where
  "only_if b c = (if b then c else State_Monad.return ())"

lemma run_reads [simp]: "run_state (reads f) s = (f s, s)"
  by (simp add: reads_def)

lemma run_modify [simp]: "run_state (modify f) s = ((), f s)"
  by (simp add: modify_def)

lemma holdsI: "(\<And>s a t. P s \<Longrightarrow> run_state c s = (a, t) \<Longrightarrow> Q a t) \<Longrightarrow> holds P c Q"
  unfolding holds_def by (metis prod.collapse)

lemma holdsD: "holds P c Q \<Longrightarrow> P s \<Longrightarrow> run_state c s = (a, t) \<Longrightarrow> Q a t"
  unfolding holds_def by (metis fst_conv snd_conv)

lemma holds_post: "holds P c Q \<Longrightarrow> (\<And>a t. Q a t \<Longrightarrow> R a t) \<Longrightarrow> holds P c R"
  by (simp add: holds_def)

lemma holds_pre: "holds P c Q \<Longrightarrow> (\<And>s. R s \<Longrightarrow> P s) \<Longrightarrow> holds R c Q"
  by (simp add: holds_def)

lemma holds_conj:
  "holds P c Q \<Longrightarrow> holds P' c Q' \<Longrightarrow> holds (\<lambda>s. P s \<and> P' s) c (\<lambda>a s. Q a s \<and> Q' a s)"
  by (simp add: holds_def)

lemma holds_return: "(\<And>s. P s \<Longrightarrow> Q x s) \<Longrightarrow> holds P (State_Monad.return x) Q"
  by (simp add: holds_def)

lemma holds_bind: "holds P c R \<Longrightarrow> (\<And>a. holds (R a) (f a) Q) \<Longrightarrow> holds P (State_Monad.bind c f) Q"
  by (simp add: holds_def split_beta)

lemma holds_if: "(b \<Longrightarrow> holds P c Q) \<Longrightarrow> (\<not> b \<Longrightarrow> holds P d Q) \<Longrightarrow> holds P (if b then c else d) Q"
  by simp

lemma holds_sum:
  "(\<And>e. x = Inl e \<Longrightarrow> holds P (f e) Q) \<Longrightarrow> (\<And>y. x = Inr y \<Longrightarrow> holds P (g y) Q) \<Longrightarrow>
     holds P (case x of Inl e \<Rightarrow> f e | Inr y \<Rightarrow> g y) Q"
  by (cases x) simp_all

lemma holds_option:
  "(x = None \<Longrightarrow> holds P c Q) \<Longrightarrow> (\<And>y. x = Some y \<Longrightarrow> holds P (g y) Q) \<Longrightarrow>
     holds P (case x of None \<Rightarrow> c | Some y \<Rightarrow> g y) Q"
  by (cases x) simp_all

lemma holds_reads: "(\<And>s. P s \<Longrightarrow> Q (f s) s) \<Longrightarrow> holds P (reads f) Q"
  by (simp add: holds_def)

lemma holds_modify: "(\<And>s. P s \<Longrightarrow> Q () (f s)) \<Longrightarrow> holds P (modify f) Q"
  by (simp add: holds_def)

lemma holds_only_if: "(b \<Longrightarrow> holds P c (\<lambda>_. Q)) \<Longrightarrow> (\<And>s. P s \<Longrightarrow> \<not> b \<Longrightarrow> Q s) \<Longrightarrow> holds P (only_if b c) (\<lambda>_. Q)"
  by (cases b) (simp_all add: only_if_def holds_def)

lemmas holds_rules = holds_return holds_if holds_sum holds_option holds_reads holds_modify

text \<open>The same rules for an invariant, which leave no intermediate assertion to find.\<close>

lemma keep_return: "holds P (State_Monad.return x) (\<lambda>_. P)"
  and keep_reads: "holds P (reads f) (\<lambda>_. P)"
  by (simp_all add: holds_def)

lemma keep_bind: "holds P c (\<lambda>_. P) \<Longrightarrow> (\<And>a. holds P (f a) (\<lambda>_. P)) \<Longrightarrow> holds P (State_Monad.bind c f) (\<lambda>_. P)"
  by (rule holds_bind)

lemma keep_if: "holds P c (\<lambda>_. P) \<Longrightarrow> holds P d (\<lambda>_. P) \<Longrightarrow> holds P (if b then c else d) (\<lambda>_. P)"
  by simp

lemma keep_only_if: "holds P c (\<lambda>_. P) \<Longrightarrow> holds P (only_if b c) (\<lambda>_. P)"
  by (rule holds_only_if)

lemma keep_sum:
  "(\<And>e. holds P (f e) (\<lambda>_. P)) \<Longrightarrow> (\<And>y. holds P (g y) (\<lambda>_. P)) \<Longrightarrow>
     holds P (case x of Inl e \<Rightarrow> f e | Inr y \<Rightarrow> g y) (\<lambda>_. P)"
  by (cases x) simp_all

lemma keep_option:
  "holds P c (\<lambda>_. P) \<Longrightarrow> (\<And>y. holds P (g y) (\<lambda>_. P)) \<Longrightarrow>
     holds P (case x of None \<Rightarrow> c | Some y \<Rightarrow> g y) (\<lambda>_. P)"
  by (cases x) simp_all

lemmas keep_rules = keep_bind keep_if keep_only_if keep_sum keep_option keep_return keep_reads

section \<open>Programs as steps between locations\<close>

fun iterate :: "('l \<Rightarrow> ('s, 'l) state) \<Rightarrow> nat \<Rightarrow> 'l \<Rightarrow> ('s, 'l) state" where
  "iterate step 0 loc = State_Monad.return loc"
| "iterate step (Suc n) loc = State_Monad.bind (step loc) (iterate step n)"

text \<open>An assertion per location that every step leads from the one to the other.\<close>

locale annotated =
  fixes step :: "'l \<Rightarrow> ('s, 'l) state" and inv :: "'l \<Rightarrow> 's \<Rightarrow> bool"
  assumes step_inv: "holds (inv loc) (step loc) inv"
begin

lemma iterate_inv: "holds (inv loc) (iterate step n loc) inv"
proof (induction n arbitrary: loc)
  case 0
  show ?case by (simp add: holds_def)
next
  case (Suc n)
  show ?case unfolding iterate.simps by (rule holds_bind [OF step_inv Suc.IH])
qed

lemma reached: "inv loc s \<Longrightarrow> run_state (iterate step n loc) s = (loc', t) \<Longrightarrow> inv loc' t"
  using holdsD [OF iterate_inv] .

end

end
