(* ===== verification/IngestRunner.thy ===== *)
theory IngestRunner
  imports GoTime IngestControl StateLogic
begin

text \<open>
  \<open>redis_ingest_runner.go\<close> with its backoff, its states and its inbox writer: the long-running task that takes
  usage messages from the upstream service, by subscription, by Redis pull or by HTTP pull, and puts them into the
  inbox.

  The runner talks to the world through interfaces.  Their answers are a parameter: each is a function of the whole
  history of the run, a list of the calls made so far with their answers, which the model keeps as the field
  \<open>rr_log\<close>.  One iteration of each loop of the source is one step of the model; where the
  program is between two iterations, with the local variables that live there, is a location.
\<close>

section \<open>Backoff\<close>

record RedisIngestBackoff =
  bo_initial :: duration
  bo_max :: duration
  bo_next :: duration

definition NewRedisIngestBackoff :: "duration \<Rightarrow> duration \<Rightarrow> RedisIngestBackoff" where
  "NewRedisIngestBackoff initial maximum = \<lparr>bo_initial = initial, bo_max = maximum, bo_next = initial\<rparr>"

definition NextDelay :: "RedisIngestBackoff option \<Rightarrow> duration \<times> RedisIngestBackoff option" where
  "NextDelay backoff =
     (case backoff of
        None \<Rightarrow> (Second, None)
      | Some b \<Rightarrow>
          let delay = bo_next b;
              delay = (if delay \<le> 0 then bo_initial b else delay);
              delay = (if delay \<le> 0 then Second else delay);
              nxt = wrap64 (delay * 2);
              nxt = (if bo_max b > 0 \<and> nxt > bo_max b then bo_max b else nxt)
          in (delay, Some (b\<lparr>bo_next := nxt\<rparr>)))"

definition ResetBackoff :: "RedisIngestBackoff option \<Rightarrow> RedisIngestBackoff option" where
  "ResetBackoff backoff = map_option (\<lambda>b. b\<lparr>bo_next := bo_initial b\<rparr>) backoff"

section \<open>States, errors and the calls of the runner\<close>

datatype RedisIngestSyncMode =
  RedisIngestSyncModeUnknown | RedisIngestSyncModeSubscribe | RedisIngestSyncModeRedisPull | RedisIngestSyncModeHTTPPull

datatype RedisIngestSubState =
  RedisIngestSubStateStarting | RedisIngestSubStateSubscribeBackfill | RedisIngestSubStateSubscribeReceiving
| RedisIngestSubStateSubscribeDegradedPolling | RedisIngestSubStateRedisPullActive
| RedisIngestSubStateRedisPullDegradedHTTP | RedisIngestSubStateHTTPPullActive

definition redisIngestHealthyState :: "RedisIngestSubState \<Rightarrow> bool" where
  "redisIngestHealthyState subState \<longleftrightarrow>
     subState \<in> {RedisIngestSubStateSubscribeBackfill, RedisIngestSubStateSubscribeReceiving,
       RedisIngestSubStateRedisPullActive, RedisIngestSubStateHTTPPullActive}"

abbreviation RedisIngestSourceSubscribe :: string where "RedisIngestSourceSubscribe \<equiv> ''redis_subscribe:usage''"
abbreviation RedisIngestSourceRedisPull :: string where "RedisIngestSourceRedisPull \<equiv> ''redis_pull:usage''"
abbreviation RedisIngestSourceHTTPPull :: string where "RedisIngestSourceHTTPPull \<equiv> ''http_pull:usage_queue''"
abbreviation RedisIngestAllFailedRetryInitial :: duration where "RedisIngestAllFailedRetryInitial \<equiv> 10 * Second"
abbreviation redisIngestRecoveryRetryInterval :: duration where "redisIngestRecoveryRetryInterval \<equiv> 30 * Second"

text \<open>The errors the runner tells apart; \<open>InboxWrite\<close> wraps \<open>errRedisIngestInboxWrite\<close>.\<close>

datatype go_error =
  Canceled | DeadlineExceeded | SyncAlreadyRunning | SyncCompletedWithWarnings
| InboxWrite string | Failure string | Joined "go_error list"

fun error_is :: "(go_error \<Rightarrow> bool) \<Rightarrow> go_error \<Rightarrow> bool" where
  "error_is P (Joined es) \<longleftrightarrow> list_ex (error_is P) es"
| "error_is P e \<longleftrightarrow> P e"

definition wraps_inbox_write :: "go_error \<Rightarrow> bool" where
  "wraps_inbox_write e \<longleftrightarrow> (case e of InboxWrite m \<Rightarrow> True | _ \<Rightarrow> False)"

lemma wraps_inbox_write_iff [simp]: "wraps_inbox_write e \<longleftrightarrow> (\<exists>m. e = InboxWrite m)"
  by (cases e) (simp_all add: wraps_inbox_write_def)

abbreviation is_canceled :: "go_error \<Rightarrow> bool" where "is_canceled \<equiv> error_is ((=) Canceled)"
abbreviation is_deadline :: "go_error \<Rightarrow> bool" where "is_deadline \<equiv> error_is ((=) DeadlineExceeded)"
abbreviation is_inbox_write :: "go_error \<Rightarrow> bool" where "is_inbox_write \<equiv> error_is wraps_inbox_write"

fun error_text :: "go_error \<Rightarrow> string" where
  "error_text Canceled = ''context canceled''"
| "error_text DeadlineExceeded = ''context deadline exceeded''"
| "error_text SyncAlreadyRunning = ''sync already running''"
| "error_text SyncCompletedWithWarnings = ''sync completed with warnings''"
| "error_text (InboxWrite m) = ''redis ingest inbox write failed: '' @ m"
| "error_text (Failure m) = m"
| "error_text (Joined es) = concat (case map error_text es of [] \<Rightarrow> [] | t # ts \<Rightarrow> t # map ((#) (CHR 0x0A)) ts)"

definition shouldLogSyncError :: "go_error \<Rightarrow> bool" where
  "shouldLogSyncError err \<longleftrightarrow>
     \<not> error_is ((=) SyncCompletedWithWarnings) err \<and> \<not> error_is ((=) SyncAlreadyRunning) err \<and> \<not> is_canceled err"

type_synonym connection = nat

datatype effect =
  Now gtime
| ContextDone bool
| Slept duration bool
| Subscribed "go_error + connection"
| Received connection "go_error + string"
| Closed connection
| Pulled string "go_error + string list"
| Inserted string "string list" "go_error + nat"
| ConnectedNotice
| PollingRequired string
| ControlNotice notice

type_synonym history = "effect list"

record pull_source =
  ps_Pull :: "history \<Rightarrow> go_error + string list"
  ps_SourceName :: "(history \<Rightarrow> string) option"

text \<open>
  What the runner is connected to; \<open>None\<close> is a nil interface or a nil database.  The context is the one of the
  application, which is only ever cancelled; the batch window of a subscription is the flag of \<open>ie_Receive\<close>.
\<close>

record ingest_env =
  ie_now :: "history \<Rightarrow> gtime"
  ie_done :: "history \<Rightarrow> bool"
  ie_sleep :: "duration \<Rightarrow> history \<Rightarrow> bool"
  ie_Subscribe :: "(history \<Rightarrow> go_error + connection) option"
  ie_Receive :: "connection \<Rightarrow> bool \<Rightarrow> history \<Rightarrow> go_error + string"
  ie_redis :: "pull_source option"
  ie_http :: "pull_source option"
  ie_writer :: bool
  ie_delegate :: bool
  ie_writer_observer :: bool
  ie_store :: "(string \<Rightarrow> string list \<Rightarrow> gtime \<Rightarrow> history \<Rightarrow> go_error + nat) option"

record RedisIngestRunner =
  rr_IdleInterval :: duration
  rr_BatchSize :: int
  rr_controlObserver :: bool
  rr_failureBackoff :: "RedisIngestBackoff option"
  rr_startupAllFailedBackoff :: "RedisIngestBackoff option"
  rr_running :: bool
  rr_activeOps :: int
  rr_mode :: RedisIngestSyncMode
  rr_subState :: RedisIngestSubState
  rr_lastRunAt :: gtime
  rr_lastError :: string
  rr_lastWarning :: string
  rr_lastStatus :: string
  rr_log :: history

type_synonym 'a cmd = "(RedisIngestRunner, 'a) state"

abbreviation return :: "'a \<Rightarrow> 'a cmd" where "return \<equiv> State_Monad.return"

definition emit :: "effect \<Rightarrow> unit cmd" where
  "emit e = modify (\<lambda>r. r\<lparr>rr_log := rr_log r @ [e]\<rparr>)"

definition ask :: "(history \<Rightarrow> 'a) \<Rightarrow> ('a \<Rightarrow> effect) \<Rightarrow> 'a cmd" where
  "ask answer call = do { a \<leftarrow> reads (\<lambda>r. answer (rr_log r)); _ \<leftarrow> emit (call a); return a }"

definition the_time :: "ingest_env \<Rightarrow> gtime cmd" where
  "the_time env = ask (ie_now env) Now"

definition context_done :: "ingest_env \<Rightarrow> bool cmd" where
  "context_done env = ask (ie_done env) ContextDone"

definition pause :: "ingest_env \<Rightarrow> duration \<Rightarrow> bool cmd" where
  "pause env d = ask (ie_sleep env d) (Slept d)"

section \<open>The runner and its status\<close>

definition resolvePositiveDuration :: "duration \<Rightarrow> duration \<Rightarrow> duration" where
  "resolvePositiveDuration val fallback = (if val > 0 then val else fallback)"

record RedisIngestRunnerConfig =
  rc_IdleInterval :: duration
  rc_BatchSize :: int
  rc_HTTPBackoffInitial :: duration
  rc_HTTPBackoffMax :: duration

definition NewRedisIngestRunner :: "RedisIngestRunnerConfig \<Rightarrow> RedisIngestRunner" where
  "NewRedisIngestRunner cfg =
     \<lparr>rr_IdleInterval = rc_IdleInterval cfg, rr_BatchSize = rc_BatchSize cfg, rr_controlObserver = False,
      rr_failureBackoff = Some (NewRedisIngestBackoff (resolvePositiveDuration (rc_HTTPBackoffInitial cfg) Second)
         (resolvePositiveDuration (rc_HTTPBackoffMax cfg) (30 * Second))),
      rr_startupAllFailedBackoff = Some (NewRedisIngestBackoff RedisIngestAllFailedRetryInitial (30 * Second)),
      rr_running = False, rr_activeOps = 0, rr_mode = RedisIngestSyncModeUnknown, rr_subState = RedisIngestSubStateStarting,
      rr_lastRunAt = zero_time, rr_lastError = [], rr_lastWarning = [], rr_lastStatus = [], rr_log = []\<rparr>"

definition SetControlMessageObserver :: "bool \<Rightarrow> RedisIngestRunner \<Rightarrow> RedisIngestRunner" where
  "SetControlMessageObserver observer r = r\<lparr>rr_controlObserver := observer\<rparr>"

definition validate :: "ingest_env \<Rightarrow> RedisIngestRunner option \<Rightarrow> string + RedisIngestRunner" where
  "validate env runner =
     (case runner of
        None \<Rightarrow> Inl ''redis ingest runner is nil''
      | Some r \<Rightarrow>
          if ie_Subscribe env = None then Inl ''redis ingest subscribe source is nil''
          else if ie_redis env = None then Inl ''redis ingest redis source is nil''
          else if ie_http env = None then Inl ''redis ingest http source is nil''
          else if \<not> ie_writer env then Inl ''redis ingest writer is nil''
          else Inr (r\<lparr>
            rr_IdleInterval := (if rr_IdleInterval r \<le> 0 then Second else rr_IdleInterval r),
            rr_BatchSize := (if rr_BatchSize r \<le> 0 then 1000 else rr_BatchSize r),
            rr_failureBackoff := (case rr_failureBackoff r of None \<Rightarrow> Some (NewRedisIngestBackoff Second (30 * Second)) | b \<Rightarrow> b),
            rr_startupAllFailedBackoff := (case rr_startupAllFailedBackoff r of
               None \<Rightarrow> Some (NewRedisIngestBackoff RedisIngestAllFailedRetryInitial (30 * Second)) | b \<Rightarrow> b)\<rparr>))"

record Status =
  st_Running :: bool
  st_LastRunAt :: gtime
  st_LastError :: string
  st_LastWarning :: string
  st_LastStatus :: string
  st_SyncRunning :: bool

definition runner_Status :: "RedisIngestRunner \<Rightarrow> Status" where
  "runner_Status r = \<lparr>st_Running = rr_running r, st_LastRunAt = rr_lastRunAt r, st_LastError = rr_lastError r,
     st_LastWarning = rr_lastWarning r, st_LastStatus = rr_lastStatus r,
     st_SyncRunning = (rr_running r \<and> rr_lastError r = [])\<rparr>"

definition setRunning :: "bool \<Rightarrow> unit cmd" where
  "setRunning running = modify (\<lambda>r. r\<lparr>rr_running := running\<rparr>)"

definition setOperationRunning :: "bool \<Rightarrow> unit cmd" where
  "setOperationRunning running =
     modify (\<lambda>r. if running then r\<lparr>rr_activeOps := rr_activeOps r + 1\<rparr>
       else if rr_activeOps r > 0 then r\<lparr>rr_activeOps := rr_activeOps r - 1\<rparr> else r)"

definition pullStatus :: "nat \<Rightarrow> string" where
  "pullStatus cnt = (if cnt > 0 then ''completed'' else ''empty'')"

definition pulledFullBatch :: "nat \<Rightarrow> bool cmd" where
  "pulledFullBatch cnt = reads (\<lambda>r. int cnt \<ge> rr_BatchSize r)"

definition next_failure_delay :: "duration cmd" where
  "next_failure_delay = do {
     b \<leftarrow> reads rr_failureBackoff;
     _ \<leftarrow> modify (\<lambda>r. r\<lparr>rr_failureBackoff := snd (NextDelay b)\<rparr>);
     return (fst (NextDelay b)) }"

definition reset_failure :: "unit cmd" where
  "reset_failure = modify (\<lambda>r. r\<lparr>rr_failureBackoff := ResetBackoff (rr_failureBackoff r)\<rparr>)"

definition next_startup_delay :: "duration cmd" where
  "next_startup_delay = do {
     b \<leftarrow> reads rr_startupAllFailedBackoff;
     _ \<leftarrow> modify (\<lambda>r. r\<lparr>rr_startupAllFailedBackoff := snd (NextDelay b)\<rparr>);
     return (fst (NextDelay b)) }"

definition reset_startup :: "unit cmd" where
  "reset_startup = modify (\<lambda>r. r\<lparr>rr_startupAllFailedBackoff := ResetBackoff (rr_startupAllFailedBackoff r)\<rparr>)"

definition onConnectionEstablished :: "unit cmd" where
  "onConnectionEstablished = do { observer \<leftarrow> reads rr_controlObserver; only_if observer (emit ConnectedNotice) }"

datatype redisIngestConnectionSource = redisIngestConnectionNone | redisIngestConnectionRedis | redisIngestConnectionHTTP

text \<open>The pointer argument of the source is a value that comes back changed.\<close>

definition markConnectionEstablished ::
  "redisIngestConnectionSource \<Rightarrow> redisIngestConnectionSource \<Rightarrow> redisIngestConnectionSource cmd" where
  "markConnectionEstablished current source =
     (if current = source then return current else do { _ \<leftarrow> onConnectionEstablished; return source })"

definition markConnectionUnavailable ::
  "redisIngestConnectionSource \<Rightarrow> redisIngestConnectionSource \<Rightarrow> redisIngestConnectionSource" where
  "markConnectionUnavailable current source = (if current = source then redisIngestConnectionNone else current)"

definition recordState ::
  "ingest_env \<Rightarrow> RedisIngestSyncMode \<Rightarrow> RedisIngestSubState \<Rightarrow> string \<Rightarrow> string \<Rightarrow> string \<Rightarrow> unit cmd" where
  "recordState env mode subState status lastError lastWarning = do {
     r \<leftarrow> reads (\<lambda>r. r);
     let modeChanged = (rr_mode r \<noteq> mode \<or> rr_subState r \<noteq> subState);
         (nextError, nextWarning) =
           (if lastError \<noteq> [] \<or> lastWarning \<noteq> [] then (lastError, lastWarning)
            else if modeChanged \<and> redisIngestHealthyState subState then ([], [])
            else (rr_lastError r, rr_lastWarning r));
         changed = (modeChanged \<or> rr_lastStatus r \<noteq> status \<or> rr_lastError r \<noteq> nextError \<or> rr_lastWarning r \<noteq> nextWarning)
     in only_if changed (do {
       t \<leftarrow> the_time env;
       modify (\<lambda>r. r\<lparr>rr_mode := mode, rr_subState := subState, rr_lastRunAt := t, rr_lastStatus := status,
         rr_lastError := nextError, rr_lastWarning := nextWarning\<rparr>) }) }"

definition markRefreshPollingRequired :: "string \<Rightarrow> unit cmd" where
  "markRefreshPollingRequired reason = do { observer \<leftarrow> reads rr_controlObserver; only_if observer (emit (PollingRequired reason)) }"

definition recordFailure :: "ingest_env \<Rightarrow> string \<Rightarrow> go_error \<Rightarrow> bool \<Rightarrow> unit cmd" where
  "recordFailure env status err final =
     only_if (shouldLogSyncError err) (do {
       _ \<leftarrow> markRefreshPollingRequired status;
       t \<leftarrow> the_time env;
       modify (\<lambda>r. r\<lparr>rr_lastRunAt := t, rr_lastStatus := status,
         rr_lastError := (if final then error_text err else rr_lastError r),
         rr_lastWarning := (if final then [] else error_text err)\<rparr>) })"

definition recordWarning :: "ingest_env \<Rightarrow> string \<Rightarrow> go_error \<Rightarrow> unit cmd" where
  "recordWarning env status err = recordFailure env status err False"

definition recordError :: "ingest_env \<Rightarrow> string \<Rightarrow> go_error \<Rightarrow> unit cmd" where
  "recordError env status err = recordFailure env status err True"

definition recordAvailable :: "ingest_env \<Rightarrow> string \<Rightarrow> unit cmd" where
  "recordAvailable env status = do {
     r \<leftarrow> reads (\<lambda>r. r);
     only_if (rr_lastError r \<noteq> [] \<or> rr_lastWarning r \<noteq> []) (do {
       t \<leftarrow> the_time env;
       modify (\<lambda>r. r\<lparr>rr_lastRunAt := t, rr_lastStatus := status, rr_lastError := [], rr_lastWarning := []\<rparr>) }) }"

definition pauseAfterInboxWriteFailure :: "ingest_env \<Rightarrow> string \<Rightarrow> go_error \<Rightarrow> bool cmd" where
  "pauseAfterInboxWriteFailure env status err = do {
     delay \<leftarrow> next_failure_delay;
     _ \<leftarrow> recordError env status err;
     pause env delay }"

definition sleepUntilRecovery :: "ingest_env \<Rightarrow> duration \<Rightarrow> gtime \<Rightarrow> bool cmd" where
  "sleepUntilRecovery env delay retryAt = do {
     t \<leftarrow> the_time env;
     let remaining = t_sub retryAt t in
     pause env (if remaining > 0 \<and> remaining < delay then remaining else delay) }"

section \<open>Writing and pulling\<close>

text \<open>\<open>RepositoryRedisInboxWriter.Insert\<close>; the history records what was handed over and what came back.\<close>

definition repository_Insert :: "ingest_env \<Rightarrow> string \<Rightarrow> string list \<Rightarrow> gtime \<Rightarrow> (go_error + nat) cmd" where
  "repository_Insert env source messages receivedAt =
     (if messages = [] then return (Inr 0)
      else do {
        res \<leftarrow> (case ie_store env of
          None \<Rightarrow> return (Inl (Failure ''redis inbox writer database is nil''))
        | Some store \<Rightarrow> do {
            done \<leftarrow> context_done env;
            if done then return (Inl Canceled) else reads (\<lambda>r. store source messages receivedAt (rr_log r)) });
        _ \<leftarrow> emit (Inserted source messages res);
        return res })"

definition emit_notices :: "notice list \<Rightarrow> unit cmd" where
  "emit_notices ns = modify (\<lambda>r. r\<lparr>rr_log := rr_log r @ map ControlNotice ns\<rparr>)"

text \<open>\<open>ControlAwareRedisInboxWriter.Insert\<close>.\<close>

definition writer_Insert :: "ingest_env \<Rightarrow> string \<Rightarrow> string list \<Rightarrow> gtime \<Rightarrow> (go_error + nat) cmd" where
  "writer_Insert env source messages receivedAt =
     (if \<not> ie_delegate env then return (Inl (Failure ''redis inbox writer delegate is nil''))
      else if messages = [] then return (Inr 0)
      else
        let (filtered, usageMessages, notices) = filter_loop (ie_writer_observer env) messages 0 messages False [] [] in
        do {
          _ \<leftarrow> emit_notices notices;
          if \<not> filtered then repository_Insert env source messages receivedAt
          else if usageMessages = [] then return (Inr 0)
          else repository_Insert env source usageMessages receivedAt })"

definition write_source_name :: "string \<Rightarrow> pull_source \<Rightarrow> history \<Rightarrow> string" where
  "write_source_name sourceName source h =
     (case ps_SourceName source of
        None \<Rightarrow> sourceName
      | Some name \<Rightarrow> let dynamic = go_trim_space (name h) in if dynamic \<noteq> [] then dynamic else sourceName)"

definition pull_and_write :: "ingest_env \<Rightarrow> string \<Rightarrow> pull_source option \<Rightarrow> (go_error + nat) cmd" where
  "pull_and_write env sourceName source =
     (case source of
        None \<Rightarrow> return (Inl (Failure (sourceName @ '' source is nil'')))
      | Some src \<Rightarrow> do {
          pulled \<leftarrow> ask (ps_Pull src) (Pulled sourceName);
          case pulled of
            Inl err \<Rightarrow> return (Inl err)
          | Inr messages \<Rightarrow> do {
              name \<leftarrow> reads (\<lambda>r. write_source_name sourceName src (rr_log r));
              if messages = [] then return (Inr 0)
              else do {
                t \<leftarrow> the_time env;
                inserted \<leftarrow> writer_Insert env name messages t;
                case inserted of
                  Inl err \<Rightarrow> return (Inl (InboxWrite (error_text err)))
                | Inr _ \<Rightarrow> return (Inr (length messages)) } } })"

definition serialPullAndWrite :: "ingest_env \<Rightarrow> string \<Rightarrow> pull_source option \<Rightarrow> (go_error + nat) cmd" where
  "serialPullAndWrite env sourceName source = do {
     _ \<leftarrow> setOperationRunning True;
     res \<leftarrow> pull_and_write env sourceName source;
     _ \<leftarrow> setOperationRunning False;
     return res }"

abbreviation pull_redis :: "ingest_env \<Rightarrow> (go_error + nat) cmd" where
  "pull_redis env \<equiv> serialPullAndWrite env RedisIngestSourceRedisPull (ie_redis env)"

abbreviation pull_http :: "ingest_env \<Rightarrow> (go_error + nat) cmd" where
  "pull_http env \<equiv> serialPullAndWrite env RedisIngestSourceHTTPPull (ie_http env)"

definition subscribe :: "ingest_env \<Rightarrow> (go_error + connection) cmd" where
  "subscribe env =
     (case ie_Subscribe env of
        None \<Rightarrow> return (Inl (Failure ''nil subscribe source''))
      | Some sub \<Rightarrow> ask sub Subscribed)"

definition write_batch :: "ingest_env \<Rightarrow> string list \<Rightarrow> go_error option cmd" where
  "write_batch env batch = do {
     t \<leftarrow> the_time env;
     inserted \<leftarrow> writer_Insert env RedisIngestSourceSubscribe batch t;
     case inserted of
       Inl err \<Rightarrow> return (Some (InboxWrite (error_text err)))
     | Inr _ \<Rightarrow> return None }"

text \<open>The batch window with \<open>n\<close> places left; \<open>None\<close> is a nil error.\<close>

fun receive_window :: "ingest_env \<Rightarrow> connection \<Rightarrow> nat \<Rightarrow> string list \<Rightarrow> go_error option cmd" where
  "receive_window env sub 0 batch = write_batch env batch"
| "receive_window env sub (Suc n) batch = do {
     received \<leftarrow> ask (ie_Receive env sub True) (Received sub);
     case received of
       Inl err \<Rightarrow> do {
         failed \<leftarrow> write_batch env batch;
         case failed of
           Some e \<Rightarrow> return (Some e)
         | None \<Rightarrow> return (if is_deadline err then None else Some err) }
     | Inr message \<Rightarrow> receive_window env sub n (batch @ [message]) }"

definition receiveSubscribeBatches :: "ingest_env \<Rightarrow> connection \<Rightarrow> go_error option cmd" where
  "receiveSubscribeBatches env sub = do {
     received \<leftarrow> ask (ie_Receive env sub False) (Received sub);
     case received of
       Inl err \<Rightarrow> return (Some err)
     | Inr first \<Rightarrow> do {
         size \<leftarrow> reads rr_BatchSize;
         receive_window env sub (nat (size - 1)) [first] } }"

end
