(* ===== verification/IngestLoops.thy ===== *)
theory IngestLoops
  imports IngestRunner
begin

text \<open>
  The loops of \<open>redis_ingest_runner.go\<close>, one iteration at a time.  A location is the loop the runner is in with
  the local variables of that loop; \<open>ingest_step\<close> performs the next iteration and says where it leads.
\<close>

section \<open>Locations\<close>

datatype location =
  AtStartup
| AtBackfill connection
| AtDrain connection redisIngestConnectionSource
| AtReceive connection
| AtDegraded connection gtime redisIngestConnectionSource
| AtRedisPull bool redisIngestConnectionSource gtime
| AtHTTPPull redisIngestConnectionSource
| Stopped

definition stop_runner :: "location cmd" where
  "stop_runner = do { _ \<leftarrow> setRunning False; return Stopped }"

text \<open>After a full batch the loop goes on at once, otherwise it waits first; a broken wait ends it.\<close>

definition keep_polling :: "nat \<Rightarrow> bool cmd \<Rightarrow> location \<Rightarrow> location cmd \<Rightarrow> location cmd" where
  "keep_polling cnt wait stay leave = do {
     full \<leftarrow> pulledFullBatch cnt;
     if full then return stay
     else do { ok \<leftarrow> wait; if ok then return stay else leave } }"

definition idle_pause :: "ingest_env \<Rightarrow> bool cmd" where
  "idle_pause env = do { idle \<leftarrow> reads rr_IdleInterval; pause env idle }"

definition idle_until_recovery :: "ingest_env \<Rightarrow> gtime \<Rightarrow> bool cmd" where
  "idle_until_recovery env retryAt = do { idle \<leftarrow> reads rr_IdleInterval; sleepUntilRecovery env idle retryAt }"

definition retry_after_inbox_failure ::
  "ingest_env \<Rightarrow> string \<Rightarrow> go_error \<Rightarrow> location \<Rightarrow> location cmd \<Rightarrow> location cmd" where
  "retry_after_inbox_failure env status err stay leave = do {
     ok \<leftarrow> pauseAfterInboxWriteFailure env status err;
     if ok then return stay else leave }"

section \<open>Startup\<close>

text \<open>The third probe of \<open>Run\<close>.\<close>

definition startup_http :: "ingest_env \<Rightarrow> go_error \<Rightarrow> go_error \<Rightarrow> location cmd" where
  "startup_http env subErr redisErr = do {
     pulled \<leftarrow> pull_http env;
     case pulled of
       Inr httpCount \<Rightarrow> do {
         _ \<leftarrow> reset_startup;
         _ \<leftarrow> reset_failure;
         _ \<leftarrow> onConnectionEstablished;
         _ \<leftarrow> recordState env RedisIngestSyncModeHTTPPull RedisIngestSubStateHTTPPullActive (pullStatus httpCount) [] [];
         return (AtHTTPPull redisIngestConnectionHTTP) }
     | Inl httpErr \<Rightarrow>
         if is_inbox_write httpErr
         then retry_after_inbox_failure env ''http_inbox_write_failed'' httpErr AtStartup stop_runner
         else do {
           delay \<leftarrow> next_startup_delay;
           _ \<leftarrow> recordError env ''startup_failed'' (Joined [subErr, redisErr, httpErr]);
           ok \<leftarrow> pause env delay;
           if ok then return AtStartup else stop_runner } }"

definition startup_redis :: "ingest_env \<Rightarrow> go_error \<Rightarrow> location cmd" where
  "startup_redis env subErr = do {
     pulled \<leftarrow> pull_redis env;
     case pulled of
       Inr redisCount \<Rightarrow> do {
         _ \<leftarrow> reset_startup;
         _ \<leftarrow> reset_failure;
         _ \<leftarrow> onConnectionEstablished;
         _ \<leftarrow> recordState env RedisIngestSyncModeRedisPull RedisIngestSubStateRedisPullActive (pullStatus redisCount) [] [];
         return (AtRedisPull False redisIngestConnectionRedis zero_time) }
     | Inl redisErr \<Rightarrow>
         if is_inbox_write redisErr
         then retry_after_inbox_failure env ''redis_inbox_write_failed'' redisErr AtStartup stop_runner
         else do {
           _ \<leftarrow> recordWarning env ''redis_pull_unavailable'' redisErr;
           startup_http env subErr redisErr } }"

definition startup_step :: "ingest_env \<Rightarrow> location cmd" where
  "startup_step env = do {
     done \<leftarrow> context_done env;
     if done then stop_runner
     else do {
       _ \<leftarrow> recordState env RedisIngestSyncModeUnknown RedisIngestSubStateStarting ''starting'' [] [];
       sub \<leftarrow> subscribe env;
       case sub of
         Inr conn \<Rightarrow> do {
           _ \<leftarrow> reset_startup;
           _ \<leftarrow> onConnectionEstablished;
           _ \<leftarrow> recordState env RedisIngestSyncModeSubscribe RedisIngestSubStateSubscribeBackfill ''subscribe_connected'' [] [];
           return (AtBackfill conn) }
       | Inl subErr \<Rightarrow> do {
           _ \<leftarrow> recordWarning env ''subscribe_unavailable'' subErr;
           startup_redis env subErr } } }"

section \<open>Subscription\<close>

text \<open>The return of \<open>runSubscribeMode\<close>: its deferred close, and what \<open>Run\<close> does with the error.\<close>

definition leave_subscribe :: "ingest_env \<Rightarrow> connection \<Rightarrow> go_error option \<Rightarrow> location cmd" where
  "leave_subscribe env conn err = do {
     _ \<leftarrow> emit (Closed conn);
     _ \<leftarrow> (case err of
       None \<Rightarrow> return ()
     | Some e \<Rightarrow> only_if (\<not> is_canceled e) (recordError env ''subscribe_stopped'' e));
     return AtStartup }"

definition subscribe_inbox_failure :: "ingest_env \<Rightarrow> connection \<Rightarrow> go_error \<Rightarrow> location cmd" where
  "subscribe_inbox_failure env conn err = do {
     _ \<leftarrow> emit (Closed conn);
     ok \<leftarrow> pauseAfterInboxWriteFailure env ''redis_inbox_write_failed'' err;
     leave_subscribe env conn (if ok then None else Some Canceled) }"

definition backfill_step :: "ingest_env \<Rightarrow> connection \<Rightarrow> location cmd" where
  "backfill_step env conn = do {
     _ \<leftarrow> recordState env RedisIngestSyncModeSubscribe RedisIngestSubStateSubscribeBackfill ''subscribe_backfill'' [] [];
     return (AtDrain conn redisIngestConnectionRedis) }"

text \<open>One round of \<open>drainBackfillSource\<close> and what \<open>backfillAfterSubscribe\<close> does with its result.\<close>

definition drain_step :: "ingest_env \<Rightarrow> connection \<Rightarrow> redisIngestConnectionSource \<Rightarrow> location cmd" where
  "drain_step env conn source = do {
     pulled \<leftarrow> (if source = redisIngestConnectionRedis then pull_redis env else pull_http env);
     case pulled of
       Inr cnt \<Rightarrow> do {
         full \<leftarrow> pulledFullBatch cnt;
         if cnt \<noteq> 0 \<and> full then return (AtDrain conn source)
         else do { _ \<leftarrow> reset_failure; return (AtReceive conn) } }
     | Inl err \<Rightarrow>
         if is_inbox_write err then subscribe_inbox_failure env conn err
         else if source = redisIngestConnectionRedis then do {
           _ \<leftarrow> recordWarning env ''subscribe_backfill_redis_failed'' err;
           return (AtDrain conn redisIngestConnectionHTTP) }
         else do {
           _ \<leftarrow> recordWarning env ''subscribe_backfill_failed'' err;
           return (AtReceive conn) } }"

definition receive_step :: "ingest_env \<Rightarrow> connection \<Rightarrow> location cmd" where
  "receive_step env conn = do {
     _ \<leftarrow> recordState env RedisIngestSyncModeSubscribe RedisIngestSubStateSubscribeReceiving ''subscribing'' [] [];
     failed \<leftarrow> receiveSubscribeBatches env conn;
     case failed of
       None \<Rightarrow> return (AtReceive conn)
     | Some err \<Rightarrow>
         if is_canceled err then leave_subscribe env conn (Some err)
         else if is_inbox_write err then subscribe_inbox_failure env conn err
         else do {
           _ \<leftarrow> recordError env ''subscribe_disconnected'' err;
           _ \<leftarrow> emit (Closed conn);
           t \<leftarrow> the_time env;
           return (AtDegraded conn (t_add t redisIngestRecoveryRetryInterval) redisIngestConnectionNone) } }"

definition degraded_http ::
  "ingest_env \<Rightarrow> connection \<Rightarrow> gtime \<Rightarrow> redisIngestConnectionSource \<Rightarrow> go_error \<Rightarrow> location cmd" where
  "degraded_http env conn retryAt fallback redisErr = do {
     pulled \<leftarrow> pull_http env;
     case pulled of
       Inr cnt \<Rightarrow> do {
         fallback \<leftarrow> markConnectionEstablished fallback redisIngestConnectionHTTP;
         _ \<leftarrow> recordAvailable env (pullStatus cnt);
         _ \<leftarrow> reset_failure;
         keep_polling cnt (idle_until_recovery env retryAt) (AtDegraded conn retryAt fallback)
           (leave_subscribe env conn (Some Canceled)) }
     | Inl httpErr \<Rightarrow>
         if is_inbox_write httpErr
         then retry_after_inbox_failure env ''redis_inbox_write_failed'' httpErr (AtDegraded conn retryAt fallback)
                (leave_subscribe env conn (Some Canceled))
         else do {
           delay \<leftarrow> next_failure_delay;
           _ \<leftarrow> recordError env ''subscribe_degraded_failed'' (Joined [redisErr, httpErr]);
           ok \<leftarrow> sleepUntilRecovery env delay retryAt;
           if ok then return (AtDegraded conn retryAt (markConnectionUnavailable fallback redisIngestConnectionHTTP))
           else leave_subscribe env conn (Some Canceled) } }"

definition degraded_pull ::
  "ingest_env \<Rightarrow> connection \<Rightarrow> gtime \<Rightarrow> redisIngestConnectionSource \<Rightarrow> location cmd" where
  "degraded_pull env conn retryAt fallback = do {
     pulled \<leftarrow> pull_redis env;
     case pulled of
       Inr cnt \<Rightarrow> do {
         fallback \<leftarrow> markConnectionEstablished fallback redisIngestConnectionRedis;
         _ \<leftarrow> recordAvailable env (pullStatus cnt);
         _ \<leftarrow> reset_failure;
         keep_polling cnt (idle_until_recovery env retryAt) (AtDegraded conn retryAt fallback)
           (leave_subscribe env conn (Some Canceled)) }
     | Inl redisErr \<Rightarrow>
         if is_inbox_write redisErr
         then retry_after_inbox_failure env ''redis_inbox_write_failed'' redisErr (AtDegraded conn retryAt fallback)
                (leave_subscribe env conn (Some Canceled))
         else do {
           _ \<leftarrow> recordWarning env ''subscribe_degraded_redis_failed'' redisErr;
           degraded_http env conn retryAt (markConnectionUnavailable fallback redisIngestConnectionRedis) redisErr } }"

definition degraded_step ::
  "ingest_env \<Rightarrow> connection \<Rightarrow> gtime \<Rightarrow> redisIngestConnectionSource \<Rightarrow> location cmd" where
  "degraded_step env conn retryAt fallback = do {
     done \<leftarrow> context_done env;
     if done then leave_subscribe env conn (Some Canceled)
     else do {
       _ \<leftarrow> recordState env RedisIngestSyncModeSubscribe RedisIngestSubStateSubscribeDegradedPolling
              ''subscribe_degraded_polling'' [] [];
       t \<leftarrow> the_time env;
       if t < retryAt then degraded_pull env conn retryAt fallback
       else do {
         sub \<leftarrow> subscribe env;
         case sub of
           Inr conn' \<Rightarrow> do {
             _ \<leftarrow> recordState env RedisIngestSyncModeSubscribe RedisIngestSubStateSubscribeBackfill ''subscribe_reconnected'' [] [];
             _ \<leftarrow> onConnectionEstablished;
             return (AtBackfill conn') }
         | Inl err \<Rightarrow> do {
             _ \<leftarrow> recordWarning env ''subscribe_reconnect_failed'' err;
             t \<leftarrow> the_time env;
             degraded_pull env conn (t_add t redisIngestRecoveryRetryInterval) fallback } } } }"

section \<open>Redis pull\<close>

text \<open>The return of a pull mode: its error is a cancellation, which \<open>Run\<close> does not record.\<close>

definition leave_pull :: "location cmd" where
  "leave_pull = return AtStartup"

definition redis_fallback_http :: "ingest_env \<Rightarrow> redisIngestConnectionSource \<Rightarrow> gtime \<Rightarrow> location cmd" where
  "redis_fallback_http env source retryAt = do {
     pulled \<leftarrow> pull_http env;
     case pulled of
       Inr cnt \<Rightarrow> do {
         source \<leftarrow> markConnectionEstablished source redisIngestConnectionHTTP;
         _ \<leftarrow> recordAvailable env (pullStatus cnt);
         _ \<leftarrow> reset_failure;
         keep_polling cnt (idle_until_recovery env retryAt) (AtRedisPull True source retryAt) leave_pull }
     | Inl err \<Rightarrow>
         if is_inbox_write err
         then retry_after_inbox_failure env ''redis_inbox_write_failed'' err (AtRedisPull True source retryAt) leave_pull
         else do {
           delay \<leftarrow> next_failure_delay;
           _ \<leftarrow> recordError env ''redis_degraded_http_failed'' err;
           ok \<leftarrow> sleepUntilRecovery env delay retryAt;
           if ok then return (AtRedisPull True (markConnectionUnavailable source redisIngestConnectionHTTP) retryAt)
           else leave_pull } }"

definition redis_degraded_step :: "ingest_env \<Rightarrow> redisIngestConnectionSource \<Rightarrow> gtime \<Rightarrow> location cmd" where
  "redis_degraded_step env source retryAt = do {
     _ \<leftarrow> recordState env RedisIngestSyncModeRedisPull RedisIngestSubStateRedisPullDegradedHTTP ''redis_degraded_http'' [] [];
     t \<leftarrow> the_time env;
     if t < retryAt then redis_fallback_http env source retryAt
     else do {
       pulled \<leftarrow> pull_redis env;
       case pulled of
         Inr cnt \<Rightarrow> do {
           _ \<leftarrow> reset_failure;
           _ \<leftarrow> recordState env RedisIngestSyncModeRedisPull RedisIngestSubStateRedisPullActive (pullStatus cnt) [] [];
           source \<leftarrow> markConnectionEstablished source redisIngestConnectionRedis;
           keep_polling cnt (idle_pause env) (AtRedisPull False source retryAt) leave_pull }
       | Inl err \<Rightarrow>
           if is_inbox_write err
           then retry_after_inbox_failure env ''redis_inbox_write_failed'' err (AtRedisPull True source retryAt) leave_pull
           else do {
             _ \<leftarrow> recordWarning env ''redis_recovery_failed'' err;
             t \<leftarrow> the_time env;
             redis_fallback_http env source (t_add t redisIngestRecoveryRetryInterval) } } }"

text \<open>The rest of an iteration in which Redis has just failed.\<close>

definition redis_failed_http :: "ingest_env \<Rightarrow> redisIngestConnectionSource \<Rightarrow> gtime \<Rightarrow> go_error \<Rightarrow> location cmd" where
  "redis_failed_http env source retryAt redisErr = do {
     pulled \<leftarrow> pull_http env;
     case pulled of
       Inr cnt \<Rightarrow> do {
         source \<leftarrow> markConnectionEstablished source redisIngestConnectionHTTP;
         _ \<leftarrow> reset_failure;
         t \<leftarrow> the_time env;
         let retryAt = t_add t redisIngestRecoveryRetryInterval in do {
           _ \<leftarrow> recordState env RedisIngestSyncModeRedisPull RedisIngestSubStateRedisPullDegradedHTTP (pullStatus cnt) [] [];
           _ \<leftarrow> recordAvailable env (pullStatus cnt);
           keep_polling cnt (idle_until_recovery env retryAt) (AtRedisPull True source retryAt) leave_pull } }
     | Inl err \<Rightarrow>
         if is_inbox_write err
         then retry_after_inbox_failure env ''redis_inbox_write_failed'' err (AtRedisPull False source retryAt) leave_pull
         else do {
           delay \<leftarrow> next_failure_delay;
           _ \<leftarrow> recordError env ''redis_pull_and_http_failed'' (Joined [redisErr, err]);
           ok \<leftarrow> pause env delay;
           if ok then return (AtRedisPull False source retryAt) else leave_pull } }"

definition redis_active_step :: "ingest_env \<Rightarrow> redisIngestConnectionSource \<Rightarrow> gtime \<Rightarrow> location cmd" where
  "redis_active_step env source retryAt = do {
     _ \<leftarrow> recordState env RedisIngestSyncModeRedisPull RedisIngestSubStateRedisPullActive ''redis_pull'' [] [];
     pulled \<leftarrow> pull_redis env;
     case pulled of
       Inr cnt \<Rightarrow> do {
         _ \<leftarrow> recordAvailable env (pullStatus cnt);
         source \<leftarrow> markConnectionEstablished source redisIngestConnectionRedis;
         _ \<leftarrow> reset_failure;
         keep_polling cnt (idle_pause env) (AtRedisPull False source retryAt) leave_pull }
     | Inl err \<Rightarrow>
         if is_inbox_write err
         then retry_after_inbox_failure env ''redis_inbox_write_failed'' err (AtRedisPull False source retryAt) leave_pull
         else do {
           _ \<leftarrow> recordWarning env ''redis_pull_failed'' err;
           redis_failed_http env (markConnectionUnavailable source redisIngestConnectionRedis) retryAt err } }"

definition redis_pull_step :: "ingest_env \<Rightarrow> bool \<Rightarrow> redisIngestConnectionSource \<Rightarrow> gtime \<Rightarrow> location cmd" where
  "redis_pull_step env degraded source retryAt = do {
     done \<leftarrow> context_done env;
     if done then leave_pull
     else if degraded then redis_degraded_step env source retryAt
     else redis_active_step env source retryAt }"

section \<open>HTTP pull\<close>

definition http_pull_step :: "ingest_env \<Rightarrow> redisIngestConnectionSource \<Rightarrow> location cmd" where
  "http_pull_step env source = do {
     done \<leftarrow> context_done env;
     if done then leave_pull
     else do {
       _ \<leftarrow> recordState env RedisIngestSyncModeHTTPPull RedisIngestSubStateHTTPPullActive ''http_pull'' [] [];
       pulled \<leftarrow> pull_http env;
       case pulled of
         Inr cnt \<Rightarrow> do {
           source \<leftarrow> markConnectionEstablished source redisIngestConnectionHTTP;
           _ \<leftarrow> recordAvailable env ''http_pull_recovered'';
           _ \<leftarrow> reset_failure;
           keep_polling cnt (idle_pause env) (AtHTTPPull source) leave_pull }
       | Inl err \<Rightarrow> do {
           delay \<leftarrow> next_failure_delay;
           _ \<leftarrow> recordError env ''http_pull_failed'' err;
           ok \<leftarrow> pause env delay;
           if ok then return (AtHTTPPull (if is_inbox_write err then source
               else markConnectionUnavailable source redisIngestConnectionHTTP))
           else leave_pull } } }"

section \<open>The task\<close>

fun ingest_step :: "ingest_env \<Rightarrow> location \<Rightarrow> location cmd" where
  "ingest_step env AtStartup = startup_step env"
| "ingest_step env (AtBackfill conn) = backfill_step env conn"
| "ingest_step env (AtDrain conn source) = drain_step env conn source"
| "ingest_step env (AtReceive conn) = receive_step env conn"
| "ingest_step env (AtDegraded conn retryAt fallback) = degraded_step env conn retryAt fallback"
| "ingest_step env (AtRedisPull degraded source retryAt) = redis_pull_step env degraded source retryAt"
| "ingest_step env (AtHTTPPull source) = http_pull_step env source"
| "ingest_step env Stopped = return Stopped"

definition ingest_steps :: "ingest_env \<Rightarrow> nat \<Rightarrow> location \<Rightarrow> location cmd" where
  "ingest_steps env n loc = iterate (ingest_step env) n loc"

text \<open>\<open>Run\<close>, observed after \<open>n\<close> steps: the error of a runner that is not wired, or where it is and its state.\<close>

definition Run :: "ingest_env \<Rightarrow> nat \<Rightarrow> RedisIngestRunner option \<Rightarrow> string + location \<times> RedisIngestRunner" where
  "Run env n runner =
     (case validate env runner of
        Inl err \<Rightarrow> Inl err
      | Inr r \<Rightarrow> Inr (run_state (do { _ \<leftarrow> setRunning True; ingest_steps env n AtStartup }) r))"

end
