(* ===== verification/IngestSafety.thy ===== *)
theory IngestSafety
  imports IngestLoops
begin

text \<open>
  What the ingest task guarantees over any run, whatever the upstream service, the database, the clock and the
  shutdown signal do.
\<close>

section \<open>Assertions about the history\<close>

definition on_log :: "(history \<Rightarrow> bool) \<Rightarrow> RedisIngestRunner \<Rightarrow> bool" where
  "on_log I r \<longleftrightarrow> I (rr_log r)"

text \<open>The calls that neither take messages nor hand any over.\<close>

fun bookkeeping :: "effect \<Rightarrow> bool" where
  "bookkeeping (Subscribed res) = False"
| "bookkeeping (Received conn res) = False"
| "bookkeeping (Pulled source res) = False"
| "bookkeeping (Inserted source messages res) = False"
| "bookkeeping e = True"

text \<open>
  Most commands of the runner only keep its books.  Whatever about the history survives bookkeeping survives all of
  them.
\<close>

locale log_invariant =
  fixes I :: "history \<Rightarrow> bool"
  assumes bookkeeping_keeps: "bookkeeping e \<Longrightarrow> I h \<Longrightarrow> I (h @ [e])"
begin

lemma emit_keeps: "bookkeeping e \<Longrightarrow> holds (on_log I) (emit e) (\<lambda>_. on_log I)"
  by (simp add: emit_def holds_def on_log_def bookkeeping_keeps)

lemma ask_keeps: "(\<And>a. bookkeeping (call a)) \<Longrightarrow> holds (on_log I) (ask answer call) (\<lambda>_. on_log I)"
  by (simp add: ask_def emit_def holds_def on_log_def bookkeeping_keeps)

lemma modify_keeps: "(\<And>r. rr_log (f r) = rr_log r) \<Longrightarrow> holds (on_log I) (modify f) (\<lambda>_. on_log I)"
  by (simp add: holds_def on_log_def)

lemma basic_keeps:
  "holds (on_log I) (the_time env) (\<lambda>_. on_log I)" "holds (on_log I) (context_done env) (\<lambda>_. on_log I)"
  "holds (on_log I) (pause env d) (\<lambda>_. on_log I)" "holds (on_log I) (emit (Closed conn)) (\<lambda>_. on_log I)"
  "holds (on_log I) (emit ConnectedNotice) (\<lambda>_. on_log I)" "holds (on_log I) (emit (PollingRequired reason)) (\<lambda>_. on_log I)"
  unfolding the_time_def context_done_def pause_def by (intro ask_keeps emit_keeps; simp)+

lemma notices_keep: "holds (on_log I) (emit_notices ns) (\<lambda>_. on_log I)"
proof -
  have "I h \<Longrightarrow> I (h @ map ControlNotice ns)" for h
  proof (induction ns arbitrary: h)
    case (Cons n ns)
    have "I ((h @ [ControlNotice n]) @ map ControlNotice ns)"
      by (rule Cons.IH) (simp add: bookkeeping_keeps Cons.prems)
    then show ?case by simp
  qed simp
  then show ?thesis by (simp add: emit_notices_def holds_def on_log_def)
qed

lemma settings_keep:
  "holds (on_log I) (setRunning b) (\<lambda>_. on_log I)" "holds (on_log I) (setOperationRunning b) (\<lambda>_. on_log I)"
  "holds (on_log I) next_failure_delay (\<lambda>_. on_log I)" "holds (on_log I) reset_failure (\<lambda>_. on_log I)"
  "holds (on_log I) next_startup_delay (\<lambda>_. on_log I)" "holds (on_log I) reset_startup (\<lambda>_. on_log I)"
  by (simp_all add: holds_def on_log_def setRunning_def setOperationRunning_def next_failure_delay_def reset_failure_def
      next_startup_delay_def reset_startup_def)

lemma connection_keeps: "holds (on_log I) onConnectionEstablished (\<lambda>_. on_log I)"
  unfolding onConnectionEstablished_def by (rule keep_rules basic_keeps)+

lemma mark_keeps: "holds (on_log I) (markConnectionEstablished current source) (\<lambda>_. on_log I)"
  unfolding markConnectionEstablished_def by (rule keep_rules connection_keeps)+

lemma record_keeps:
  "holds (on_log I) (recordState env mode subState status e w) (\<lambda>_. on_log I)"
  "holds (on_log I) (recordFailure env status err final) (\<lambda>_. on_log I)"
  "holds (on_log I) (recordAvailable env status) (\<lambda>_. on_log I)"
  unfolding recordState_def recordFailure_def recordAvailable_def markRefreshPollingRequired_def Let_def case_prod_beta
  by (rule keep_rules basic_keeps | rule modify_keeps, simp)+

lemma failures_keep:
  "holds (on_log I) (recordWarning env status err) (\<lambda>_. on_log I)" "holds (on_log I) (recordError env status err) (\<lambda>_. on_log I)"
  "holds (on_log I) (pauseAfterInboxWriteFailure env status err) (\<lambda>_. on_log I)"
  "holds (on_log I) (sleepUntilRecovery env delay retryAt) (\<lambda>_. on_log I)" "holds (on_log I) (pulledFullBatch cnt) (\<lambda>_. on_log I)"
  unfolding recordWarning_def recordError_def pauseAfterInboxWriteFailure_def sleepUntilRecovery_def pulledFullBatch_def Let_def
  by (rule keep_rules record_keeps settings_keep basic_keeps)+

lemmas bookkeeping_commands = basic_keeps settings_keep connection_keeps mark_keeps record_keeps failures_keep

end

section \<open>Nothing is lost between the source and the inbox\<close>

fun delivered_by :: "effect \<Rightarrow> string list" where
  "delivered_by (Pulled source (Inr messages)) = messages"
| "delivered_by (Received conn (Inr message)) = [message]"
| "delivered_by e = []"

fun handed_by :: "effect \<Rightarrow> string list" where
  "handed_by (Inserted source messages res) = messages"
| "handed_by e = []"

definition delivered :: "history \<Rightarrow> string list" where
  "delivered h = concat (map delivered_by h)"

definition handed :: "history \<Rightarrow> string list" where
  "handed h = concat (map handed_by h)"

lemma delivered_snoc [simp]: "delivered [] = []" "delivered (h @ h') = delivered h @ delivered h'"
  "delivered [e] = delivered_by e"
  and handed_snoc [simp]: "handed [] = []" "handed (h @ h') = handed h @ handed h'" "handed [e] = handed_by e"
  by (simp_all add: delivered_def handed_def)

text \<open>Every usage message is handed over, except the messages \<open>owed\<close> that a batch has collected so far.\<close>

definition balance :: "string list \<Rightarrow> history \<Rightarrow> bool" where
  "balance owed h \<longleftrightarrow> handed h @ filter is_usage owed = filter is_usage (delivered h)"

abbreviation balanced :: "string list \<Rightarrow> RedisIngestRunner \<Rightarrow> bool" where
  "balanced owed \<equiv> on_log (balance owed)"

lemmas balanced_def = on_log_def balance_def

interpretation balance_log: log_invariant "balance owed" for owed
proof
  show "balance owed (h @ [e])" if "bookkeeping e" "balance owed h" for e h
    using that by (cases e) (simp_all add: balance_def)
qed

named_theorems balancing "commands that keep the balance"

declare balance_log.bookkeeping_commands [balancing]

lemma balanced_subscribe [balancing]: "holds (balanced owed) (subscribe env) (\<lambda>_. balanced owed)"
  by (auto simp: subscribe_def ask_def emit_def holds_def balanced_def split: option.split)

lemma balanced_repository:
  assumes "messages = filter is_usage owed"
  shows "holds (balanced owed) (repository_Insert env source messages t) (\<lambda>_. balanced [])"
proof -
  have inserted: "holds (balanced owed) (emit (Inserted source messages res)) (\<lambda>_. balanced [])" for res
    using assms by (simp add: holds_def emit_def balanced_def)
  show ?thesis
  proof (cases "messages = []")
    case True
    then show ?thesis using assms by (simp add: repository_Insert_def holds_def balanced_def)
  next
    case False
    then show ?thesis
      unfolding repository_Insert_def if_not_P [OF False]
      by (intro holds_bind [OF _ holds_bind [OF inserted]]) (rule keep_rules balancing)+
  qed
qed

lemma balanced_writer:
  assumes "ie_delegate env"
  shows "holds (balanced messages) (writer_Insert env source messages t) (\<lambda>_. balanced [])"
proof -
  obtain filtered kept where loop: "filter_loop (ie_writer_observer env) messages 0 messages False [] [] =
      (filtered, kept, notices_of (ie_writer_observer env) messages)"
    and kept: "(if filtered then kept else messages) = filter is_usage messages"
    by (rule filter_loop_usage)
  show ?thesis
  proof (cases "messages = []")
    case True
    then show ?thesis using assms by (simp add: writer_Insert_def holds_def)
  next
    case False
    have "holds (balanced messages) (if \<not> filtered then repository_Insert env source messages t
        else if kept = [] then return (Inr 0) else repository_Insert env source kept t) (\<lambda>_. balanced [])"
      using kept by (auto intro!: balanced_repository holds_return simp: balanced_def split: if_splits)
    then show ?thesis
      using assms False loop by (auto simp: writer_Insert_def intro!: holds_bind [OF balance_log.notices_keep])
  qed
qed

lemma balanced_pull_and_write:
  assumes "ie_delegate env"
  shows "holds (balanced []) (pull_and_write env name source) (\<lambda>_. balanced [])"
proof -
  have pulled: "holds (balanced []) (ask (ps_Pull src) (Pulled name))
      (\<lambda>pulled. balanced (case pulled of Inl err \<Rightarrow> [] | Inr messages \<Rightarrow> messages))" for src
    by (auto simp: holds_def ask_def emit_def balanced_def split: sum.split)
  note written = balanced_writer [OF assms]
  show ?thesis
    unfolding pull_and_write_def
    by (rule holds_option holds_sum holds_if holds_bind [OF pulled] holds_bind [OF keep_reads] holds_bind [OF balance_log.basic_keeps(1)]
        holds_bind [OF written] holds_return | simp)+
qed

lemma balanced_pull [balancing]:
  "ie_delegate env \<Longrightarrow> holds (balanced []) (serialPullAndWrite env name source) (\<lambda>_. balanced [])"
  unfolding serialPullAndWrite_def
  by (rule holds_bind balancing balanced_pull_and_write holds_return | assumption)+

lemma balanced_write_batch:
  assumes "ie_delegate env"
  shows "holds (balanced batch) (write_batch env batch) (\<lambda>_. balanced [])"
  unfolding write_batch_def
  by (rule holds_bind balancing balanced_writer assms holds_sum holds_return | assumption)+

lemma balanced_window:
  assumes "ie_delegate env"
  shows "holds (balanced batch) (receive_window env sub n batch) (\<lambda>_. balanced [])"
proof (induction n arbitrary: batch)
  case 0
  show ?case using balanced_write_batch [OF assms] by simp
next
  case (Suc n)
  have received: "holds (balanced batch) (ask (ie_Receive env sub True) (Received sub))
      (\<lambda>received. balanced (case received of Inl err \<Rightarrow> batch | Inr message \<Rightarrow> batch @ [message]))"
    by (auto simp: holds_def ask_def emit_def balanced_def split: sum.split)
  have lost: "holds (balanced batch) (do { failed \<leftarrow> write_batch env batch;
      case failed of Some e \<Rightarrow> return (Some e) | None \<Rightarrow> return (if is_deadline err then None else Some err) }) (\<lambda>_. balanced [])" for err
    by (rule holds_bind [OF balanced_write_batch [OF assms]] holds_option holds_return | assumption)+
  show ?case
    unfolding receive_window.simps
  proof (rule holds_bind [OF received])
    fix a
    show "holds (balanced (case a of Inl err \<Rightarrow> batch | Inr message \<Rightarrow> batch @ [message])) (case a of
        Inl err \<Rightarrow> do { failed \<leftarrow> write_batch env batch;
          case failed of Some e \<Rightarrow> return (Some e) | None \<Rightarrow> return (if is_deadline err then None else Some err) }
      | Inr message \<Rightarrow> receive_window env sub n (batch @ [message])) (\<lambda>_. balanced [])"
      using lost Suc.IH by (cases a) simp_all
  qed
qed

lemma balanced_receive [balancing]:
  assumes "ie_delegate env"
  shows "holds (balanced []) (receiveSubscribeBatches env sub) (\<lambda>_. balanced [])"
proof -
  have received: "holds (balanced []) (ask (ie_Receive env sub False) (Received sub))
      (\<lambda>received. balanced (case received of Inl err \<Rightarrow> [] | Inr message \<Rightarrow> [message]))"
    by (auto simp: holds_def ask_def emit_def balanced_def split: sum.split)
  show ?thesis
    unfolding receiveSubscribeBatches_def
    by (rule holds_bind [OF received] holds_bind [OF keep_reads] holds_sum holds_return
        | use balanced_window [OF assms] in simp)+
qed

lemmas location_defs = stop_runner_def keep_polling_def idle_pause_def idle_until_recovery_def retry_after_inbox_failure_def
  leave_subscribe_def leave_pull_def subscribe_inbox_failure_def

lemmas step_defs = startup_step_def startup_redis_def startup_http_def backfill_step_def drain_step_def receive_step_def
  degraded_step_def degraded_pull_def degraded_http_def redis_pull_step_def redis_active_step_def redis_failed_http_def
  redis_degraded_step_def redis_fallback_http_def http_pull_step_def

lemma balanced_step:
  assumes "ie_delegate env"
  shows "holds (balanced []) (ingest_step env loc) (\<lambda>_. balanced [])"
  by (cases loc; simp only: ingest_step.simps step_defs location_defs Let_def)
     (rule keep_rules balancing assms)+

interpretation balance_steps: annotated "ingest_step env" "\<lambda>_ r. ie_delegate env \<longrightarrow> balanced [] r" for env
proof
  show "holds (\<lambda>r. ie_delegate env \<longrightarrow> balanced [] r) (ingest_step env loc) (\<lambda>_ r. ie_delegate env \<longrightarrow> balanced [] r)" for loc
    using balanced_step [of env loc] by (cases "ie_delegate env") (simp_all add: holds_def)
qed

text \<open>A run that has started: the runner is wired, and its history begins with the first step.\<close>

definition new_runner :: "bool \<Rightarrow> RedisIngestRunnerConfig \<Rightarrow> RedisIngestRunner" where
  "new_runner observer cfg = SetControlMessageObserver observer (NewRedisIngestRunner cfg)"

text \<open>
  Runs for the witnesses: nothing to subscribe to, a Redis queue that always holds one record, and a database that
  answers every insert with \<open>res\<close>.
\<close>

definition sample_source :: pull_source where
  "sample_source = \<lparr>ps_Pull = (\<lambda>_. Inr [''usage'']), ps_SourceName = None\<rparr>"

definition sample_env :: "go_error + nat \<Rightarrow> ingest_env" where
  "sample_env res = \<lparr>ie_now = (\<lambda>_. zero_time), ie_done = (\<lambda>_. False), ie_sleep = (\<lambda>_ _. True),
     ie_Subscribe = Some (\<lambda>_. Inl (Failure ''no server'')), ie_Receive = (\<lambda>_ _ _. Inl Canceled), ie_redis = Some sample_source,
     ie_http = Some sample_source, ie_writer = True, ie_delegate = True, ie_writer_observer = True,
     ie_store = Some (\<lambda>_ _ _ _. res)\<rparr>"

definition sample_runner :: RedisIngestRunner where
  "sample_runner = new_runner True \<lparr>rc_IdleInterval = Second, rc_BatchSize = 10, rc_HTTPBackoffInitial = Second,
     rc_HTTPBackoffMax = 30 * Second\<rparr>"

lemma Run_start:
  assumes "Run env n (Some (new_runner observer cfg)) = Inr (loc, r)"
  obtains r0 where "run_state (iterate (ingest_step env) n AtStartup) r0 = (loc, r)"
    and "rr_log r0 = []" and "rr_lastError r0 = []" and "rr_IdleInterval r0 = resolvePositiveDuration (rc_IdleInterval cfg) Second"
    and "rr_failureBackoff r0 = rr_failureBackoff (new_runner observer cfg)"
    and "rr_startupAllFailedBackoff r0 = rr_startupAllFailedBackoff (new_runner observer cfg)"
    and "0 < rr_BatchSize r0" and "ie_Subscribe env \<noteq> None" and "ie_redis env \<noteq> None" and "ie_http env \<noteq> None"
  using assms
  by (auto simp: Run_def validate_def ingest_steps_def setRunning_def new_runner_def SetControlMessageObserver_def
      NewRedisIngestRunner_def resolvePositiveDuration_def split: if_splits)

text \<open>
  C5: No usage record gets lost, doubled or reordered between the upstream service and the inbox.  After any number
  of steps of \<open>Run\<close>, through every change of mode, reconnection and failure, the messages handed to the insert of the
  repository are exactly the usage records among those received or pulled, in the order they came; control notices and
  empty payloads are what is missing.  A record that is not stored was in an insert that returned an error.
\<close>

theorem ingest_hands_over_everything:
  assumes "Run env n (Some (new_runner observer cfg)) = Inr (loc, r)" and "ie_delegate env"
  shows "handed (rr_log r) = filter is_usage (delivered (rr_log r))"
proof -
  obtain r0 where r0: "run_state (iterate (ingest_step env) n AtStartup) r0 = (loc, r)" "rr_log r0 = []"
    by (rule Run_start [OF assms(1)])
  have "balanced [] r"
    using balance_steps.reached [OF _ r0(1)] assms(2) r0(2) by (simp add: balanced_def)
  then show ?thesis by (simp add: balanced_def)
qed

lemma ingest_hands_over_everything_witness:
  "case Run (sample_env (Inr 1)) 2 (Some sample_runner) of Inl _ \<Rightarrow> False | Inr (loc, r) \<Rightarrow>
     handed (rr_log r) = [''usage'', ''usage''] \<and> handed (rr_log r) = filter is_usage (delivered (rr_log r))"
proof -
  have "case Run (sample_env (Inr 1)) 2 (Some sample_runner) of Inl _ \<Rightarrow> False | Inr (loc, r) \<Rightarrow>
      handed (rr_log r) = [''usage'', ''usage'']" "ie_delegate (sample_env (Inr 1))"
    by code_simp+
  then show ?thesis
    using ingest_hands_over_everything [of "sample_env (Inr 1)"] unfolding sample_runner_def
    by (auto split: sum.splits prod.splits)
qed

section \<open>A failed insert stops the intake until the task has waited\<close>

text \<open>Whether the last insert failed and no wait has followed.\<close>

fun next_down :: "effect \<Rightarrow> bool \<Rightarrow> bool" where
  "next_down (Inserted source messages (Inl err)) down = True"
| "next_down (Slept d ok) down = False"
| "next_down e down = down"

definition sink_down :: "history \<Rightarrow> bool" where
  "sink_down h = fold next_down h False"

fun takes_messages :: "effect \<Rightarrow> bool" where
  "takes_messages (Subscribed res) = True"
| "takes_messages (Received conn res) = True"
| "takes_messages (Pulled source res) = True"
| "takes_messages e = False"

text \<open>The rule: nothing is taken from the service while the sink is down.\<close>

fun careful_from :: "bool \<Rightarrow> history \<Rightarrow> bool" where
  "careful_from down [] = True"
| "careful_from down (e # h) \<longleftrightarrow> \<not> (down \<and> takes_messages e) \<and> careful_from (next_down e down) h"

definition careful :: "history \<Rightarrow> bool" where
  "careful h = careful_from False h"

lemma careful_from_append: "careful_from down (h @ h') \<longleftrightarrow> careful_from down h \<and> careful_from (fold next_down h down) h'"
  by (induction h arbitrary: down) auto

lemma careful_snoc [simp]: "careful (h @ [e]) \<longleftrightarrow> careful h \<and> \<not> (sink_down h \<and> takes_messages e)"
  "sink_down (h @ [e]) = next_down e (sink_down h)" "careful []" "\<not> sink_down []"
  by (auto simp: careful_def sink_down_def careful_from_append)

text \<open>Careful so far, and the sink is down only if \<open>allowed\<close>.\<close>

definition caution :: "bool \<Rightarrow> history \<Rightarrow> bool" where
  "caution allowed h \<longleftrightarrow> careful h \<and> (sink_down h \<longrightarrow> allowed)"

abbreviation cautious :: "bool \<Rightarrow> RedisIngestRunner \<Rightarrow> bool" where
  "cautious allowed \<equiv> on_log (caution allowed)"

lemmas cautious_def = on_log_def caution_def

interpretation caution_log: log_invariant "caution d" for d
proof
  show "caution d (h @ [e])" if "bookkeeping e" "caution d h" for e h
    using that by (cases e) (auto simp: caution_def)
qed

lemma caution_weaken: "holds (cautious True) c Q \<Longrightarrow> holds (cautious d) c Q"
  by (erule holds_pre) (auto simp: cautious_def)

lemma caution_subscribe: "holds (cautious False) (subscribe env) (\<lambda>_. cautious False)"
  by (auto simp: subscribe_def ask_def emit_def holds_def cautious_def split: option.split)

lemma caution_repository:
  "holds (cautious False) (repository_Insert env source messages t) (\<lambda>res. cautious (\<exists>e. res = Inl e))"
proof -
  have inserted: "holds (cautious False) (do { _ \<leftarrow> emit (Inserted source messages res); return res })
      (\<lambda>res. cautious (\<exists>e. res = Inl e))" for res
    by (cases res) (auto simp: holds_def emit_def cautious_def)
  show ?thesis
    unfolding repository_Insert_def
  proof (rule holds_if)
    show "holds (cautious False) (return (Inr 0)) (\<lambda>res. cautious (\<exists>e. res = Inl e))"
      by (auto simp: holds_def cautious_def)
  qed (rule holds_bind [OF _ inserted], (rule keep_rules caution_log.bookkeeping_commands)+)
qed

lemma caution_writer:
  "holds (cautious False) (writer_Insert env source messages t) (\<lambda>res. cautious (\<exists>e. res = Inl e))"
proof -
  have ret: "holds (cautious False) (return res) (\<lambda>res. cautious (\<exists>e. res = Inl e))" for res :: "go_error + nat"
    by (auto simp: holds_def cautious_def)
  show ?thesis
    unfolding writer_Insert_def Let_def case_prod_beta
    by (rule holds_if holds_bind [OF caution_log.notices_keep] caution_repository ret)+
qed

lemma caution_pull:
  "holds (cautious False) (serialPullAndWrite env name source) (\<lambda>res. cautious (\<exists>e. res = Inl e \<and> is_inbox_write e))"
proof -
  have ret: "holds (cautious False) (return res) (\<lambda>res. cautious (\<exists>e. res = Inl e \<and> is_inbox_write e))" for res :: "go_error + nat"
    by (auto simp: holds_def cautious_def)
  have pulled: "holds (cautious False) (ask (ps_Pull src) (Pulled name)) (\<lambda>_. cautious False)" for src
    by (simp add: ask_def emit_def holds_def cautious_def)
  have written: "holds (cautious (\<exists>e. res = Inl e)) (case res of Inl err \<Rightarrow> return (Inl (InboxWrite (error_text err)))
      | Inr _ \<Rightarrow> return (Inr (length messages))) (\<lambda>res. cautious (\<exists>e. res = Inl e \<and> is_inbox_write e))"
    for res :: "go_error + nat" and messages :: "string list"
    by (cases res) (auto simp: holds_def cautious_def)
  have "holds (cautious False) (pull_and_write env name source) (\<lambda>res. cautious (\<exists>e. res = Inl e \<and> is_inbox_write e))"
    unfolding pull_and_write_def
    by (rule holds_option holds_sum holds_if holds_bind [OF pulled] holds_bind [OF keep_reads]
        holds_bind [OF caution_log.basic_keeps(1)] holds_bind [OF caution_writer written] ret)+
  then show ?thesis
    unfolding serialPullAndWrite_def
    by (intro holds_bind [OF caution_log.settings_keep(2)] holds_bind)
      (assumption, rule caution_log.settings_keep(2), simp add: holds_def)
qed

lemma caution_write_batch:
  "holds (cautious False) (write_batch env batch) (\<lambda>res. cautious (\<exists>m. res = Some (InboxWrite m)))"
proof -
  have "holds (cautious (\<exists>e. res = Inl e)) (case res of Inl err \<Rightarrow> return (Some (InboxWrite (error_text err)))
      | Inr _ \<Rightarrow> return None) (\<lambda>res. cautious (\<exists>m. res = Some (InboxWrite m)))" for res :: "go_error + nat"
    by (cases res) (auto simp: holds_def cautious_def)
  then show ?thesis
    unfolding write_batch_def
    by (intro holds_bind [OF caution_log.basic_keeps(1)] holds_bind [OF caution_writer])
qed

lemma caution_received: "holds (cautious False) (ask (ie_Receive env sub w) (Received sub)) (\<lambda>_. cautious False)"
  by (simp add: ask_def emit_def holds_def cautious_def)

lemma caution_window:
  "holds (cautious False) (receive_window env sub n batch) (\<lambda>res. cautious (\<exists>m. res = Some (InboxWrite m)))"
proof (induction n arbitrary: batch)
  case 0
  show ?case using caution_write_batch by simp
next
  case (Suc n)
  have "holds (cautious (\<exists>m. res = Some (InboxWrite m))) (case res of Some e \<Rightarrow> return (Some e)
      | None \<Rightarrow> return (if is_deadline err then None else Some err)) (\<lambda>res. cautious (\<exists>m. res = Some (InboxWrite m)))"
    for res err
    by (cases res) (auto simp: holds_def cautious_def)
  then show ?case
    unfolding receive_window.simps
    by (intro holds_bind [OF caution_received] holds_sum holds_bind [OF caution_write_batch] Suc.IH)
qed

lemma caution_receive:
  "holds (cautious False) (receiveSubscribeBatches env sub) (\<lambda>res. cautious (\<exists>m. res = Some (InboxWrite m)))"
proof -
  have "holds (cautious False) (return (Some err)) (\<lambda>res. cautious (\<exists>m. res = Some (InboxWrite m)))" for err
    by (auto simp: holds_def cautious_def)
  note ret = this
  show ?thesis
    unfolding receiveSubscribeBatches_def
    by (rule holds_bind [OF caution_received] holds_sum holds_bind [OF keep_reads] caution_window ret)+
qed

lemma caution_pause: "holds (cautious d) (pause env t) (\<lambda>_. cautious False)"
  by (simp add: pause_def ask_def emit_def holds_def cautious_def)

lemma caution_recovery: "holds (cautious d) (sleepUntilRecovery env t retryAt) (\<lambda>_. cautious False)"
  unfolding sleepUntilRecovery_def Let_def
  by (rule holds_bind [OF caution_log.basic_keeps(1)] caution_pause)+

lemma caution_after_failure: "holds (cautious d) (pauseAfterInboxWriteFailure env status err) (\<lambda>_. cautious False)"
  unfolding pauseAfterInboxWriteFailure_def
  by (rule holds_bind [OF caution_log.settings_keep(3)] holds_bind [OF caution_log.failures_keep(2)] caution_pause)+

text \<open>The shape of every iteration: pull, and go on by the result.\<close>

lemma caution_branch:
  assumes "\<And>n. holds (cautious False) (f n) Q" and "\<And>e. is_inbox_write e \<Longrightarrow> holds (cautious True) (g e) Q"
    and "\<And>e. \<not> is_inbox_write e \<Longrightarrow> holds (cautious False) (h e) Q"
  shows "holds (cautious False) (do { res \<leftarrow> serialPullAndWrite env name source;
    case res of Inl e \<Rightarrow> if is_inbox_write e then g e else h e | Inr n \<Rightarrow> f n }) Q"
proof (rule holds_bind [OF caution_pull])
  fix res
  show "holds (cautious (\<exists>e. res = Inl e \<and> is_inbox_write e)) (case res of Inl e \<Rightarrow> if is_inbox_write e then g e else h e | Inr n \<Rightarrow> f n) Q"
    using assms by (cases res) auto
qed

lemma caution_branch_plain:
  assumes "\<And>n. holds (cautious False) (f n) Q" and "\<And>e. holds (cautious True) (g e) Q"
  shows "holds (cautious False) (do { res \<leftarrow> serialPullAndWrite env name source; case res of Inl e \<Rightarrow> g e | Inr n \<Rightarrow> f n }) Q"
proof (rule holds_bind [OF caution_pull])
  fix res
  show "holds (cautious (\<exists>e. res = Inl e \<and> is_inbox_write e)) (case res of Inl e \<Rightarrow> g e | Inr n \<Rightarrow> f n) Q"
    using assms caution_weaken [OF assms(2)] by (cases res) simp_all
qed

lemmas caution_keeps = keep_rules caution_log.bookkeeping_commands

lemma caution_leaves:
  "holds (cautious False) stop_runner (\<lambda>_. cautious False)" "holds (cautious False) leave_pull (\<lambda>_. cautious False)"
  "holds (cautious False) (leave_subscribe env conn err) (\<lambda>_. cautious False)"
  "holds (cautious False) (idle_pause env) (\<lambda>_. cautious False)"
  "holds (cautious False) (idle_until_recovery env retryAt) (\<lambda>_. cautious False)"
  unfolding stop_runner_def leave_pull_def leave_subscribe_def idle_pause_def idle_until_recovery_def
  by (rule caution_keeps)+

lemma caution_retry:
  "holds (cautious False) leave (\<lambda>_. cautious False) \<Longrightarrow>
     holds (cautious d) (retry_after_inbox_failure env status err stay leave) (\<lambda>_. cautious False)"
  unfolding retry_after_inbox_failure_def by (rule holds_bind [OF caution_after_failure] keep_rules | assumption)+

lemma caution_polling:
  "holds (cautious False) wait (\<lambda>_. cautious False) \<Longrightarrow> holds (cautious False) leave (\<lambda>_. cautious False) \<Longrightarrow>
     holds (cautious False) (keep_polling cnt wait stay leave) (\<lambda>_. cautious False)"
  unfolding keep_polling_def pulledFullBatch_def by (rule keep_rules | assumption)+

lemma caution_inbox_failure: "holds (cautious True) (subscribe_inbox_failure env conn err) (\<lambda>_. cautious False)"
  unfolding subscribe_inbox_failure_def
  by (rule holds_bind [OF caution_log.basic_keeps(4)] holds_bind [OF caution_after_failure] caution_leaves)+

lemma caution_receive_branch:
  assumes "holds (cautious False) c Q" and "\<And>e. is_canceled e \<Longrightarrow> holds (cautious False) (f e) Q"
    and "\<And>e. is_inbox_write e \<Longrightarrow> holds (cautious True) (g e) Q" and "\<And>e. \<not> is_inbox_write e \<Longrightarrow> holds (cautious False) (h e) Q"
  shows "holds (cautious False) (do { res \<leftarrow> receiveSubscribeBatches env sub;
    case res of None \<Rightarrow> c | Some e \<Rightarrow> if is_canceled e then f e else if is_inbox_write e then g e else h e }) Q"
proof (rule holds_bind [OF caution_receive])
  fix res
  show "holds (cautious (\<exists>m. res = Some (InboxWrite m)))
    (case res of None \<Rightarrow> c | Some e \<Rightarrow> if is_canceled e then f e else if is_inbox_write e then g e else h e) Q"
  proof (cases res)
    case (Some e)
    show ?thesis
    proof (cases "\<exists>m. e = InboxWrite m")
      case True
      then show ?thesis using Some assms(3) caution_weaken by auto
    next
      case False
      then have "cautious (\<exists>m. res = Some (InboxWrite m)) = cautious False" using Some by simp
      then show ?thesis using Some assms(2,4) caution_weaken [OF assms(3)] by simp
    qed
  qed (simp add: assms(1))
qed

lemma caution_wait:
  assumes "\<And>ok. holds (cautious False) (f ok) Q"
  shows "holds (cautious d) (do { delay \<leftarrow> next_failure_delay; _ \<leftarrow> recordError env status err; ok \<leftarrow> pause env delay; f ok }) Q"
  by (rule holds_bind [OF caution_log.settings_keep(3)] holds_bind [OF caution_log.failures_keep(2)]
      holds_bind [OF caution_pause] assms)+

lemmas caution_rules = caution_branch caution_branch_plain caution_receive_branch caution_wait caution_retry caution_leaves caution_polling caution_inbox_failure
  caution_subscribe caution_keeps

lemma caution_startup: "holds (cautious False) (startup_step env) (\<lambda>_. cautious False)"
  unfolding startup_step_def startup_redis_def startup_http_def by (rule caution_rules)+

lemma caution_degraded: "holds (cautious False) (degraded_step env conn retryAt fallback) (\<lambda>_. cautious False)"
  unfolding degraded_step_def degraded_pull_def degraded_http_def by (rule caution_rules)+

lemma caution_redis_pull: "holds (cautious False) (redis_pull_step env degraded source retryAt) (\<lambda>_. cautious False)"
  unfolding redis_pull_step_def redis_active_step_def redis_failed_http_def redis_degraded_step_def redis_fallback_http_def Let_def
  by (rule caution_rules)+

lemma caution_http_pull: "holds (cautious False) (http_pull_step env source) (\<lambda>_. cautious False)"
  unfolding http_pull_step_def
  by (rule caution_rules)+

lemma caution_receive_step: "holds (cautious False) (receive_step env conn) (\<lambda>_. cautious False)"
  unfolding receive_step_def by (rule caution_rules)+

lemma caution_drain: "holds (cautious False) (drain_step env conn source) (\<lambda>_. cautious False)"
  by (cases "source = redisIngestConnectionRedis"; simp only: drain_step_def if_True if_False simp_thms)
     (rule caution_rules)+

lemma caution_step: "holds (cautious False) (ingest_step env loc) (\<lambda>_. cautious False)"
proof (cases loc)
  case (AtBackfill conn)
  show ?thesis unfolding AtBackfill ingest_step.simps backfill_step_def by (rule caution_rules)+
qed (simp_all add: caution_startup caution_drain caution_receive_step caution_degraded caution_redis_pull caution_http_pull keep_return)

interpretation caution_steps: annotated "ingest_step env" "\<lambda>_. cautious False" for env
  by unfold_locales (rule caution_step)

text \<open>
  C22: While the database refuses inserts, the task takes nothing more from the service.  In the history of any run,
  between an insert that failed and the next subscription, pull or receive there is always a wait.
\<close>

theorem ingest_pauses_when_the_sink_fails:
  assumes "Run env n (Some (new_runner observer cfg)) = Inr (loc, r)"
  shows "careful (rr_log r) \<and> \<not> sink_down (rr_log r)"
proof -
  obtain r0 where r0: "run_state (iterate (ingest_step env) n AtStartup) r0 = (loc, r)" "rr_log r0 = []"
    by (rule Run_start [OF assms(1)])
  then show ?thesis using caution_steps.reached [OF _ r0(1)] by (simp add: cautious_def)
qed

lemma ingest_pauses_when_the_sink_fails_witness:
  "case Run (sample_env (Inl (Failure ''disk full''))) 2 (Some sample_runner) of Inl _ \<Rightarrow> False | Inr (loc, r) \<Rightarrow>
     loc = AtStartup \<and> handed (rr_log r) = [''usage'', ''usage''] \<and> careful (rr_log r) \<and> \<not> sink_down (rr_log r)"
proof -
  have "case Run (sample_env (Inl (Failure ''disk full''))) 2 (Some sample_runner) of Inl _ \<Rightarrow> False | Inr (loc, r) \<Rightarrow>
      loc = AtStartup \<and> handed (rr_log r) = [''usage'', ''usage'']"
    by code_simp
  then show ?thesis
    using ingest_pauses_when_the_sink_fails [of "sample_env (Inl (Failure ''disk full''))"] unfolding sample_runner_def
    by (auto split: sum.splits prod.splits)
qed

end
