(* ===== verification/IngestStatus.thy ===== *)
theory IngestStatus
  imports IngestSafety
begin

text \<open>
  What the ingest task says about itself: the mode and sub-state it publishes are those of the loop it is in, and the
  error it publishes is gone as soon as something works again.
\<close>

section \<open>The last outcome\<close>

fun next_service :: "effect \<Rightarrow> bool \<Rightarrow> bool" where
  "next_service (Subscribed res) failed = (\<exists>e. res = Inl e)"
| "next_service (Received conn res) failed = (\<exists>e. res = Inl e)"
| "next_service (Pulled source res) failed = (\<exists>e. res = Inl e)"
| "next_service e failed = failed"

fun next_sink :: "effect \<Rightarrow> bool \<Rightarrow> bool" where
  "next_sink (Inserted source messages res) failed = (\<exists>e. res = Inl e)"
| "next_sink e failed = failed"

text \<open>Whether the last exchange with the service failed, or the last insert.\<close>

definition last_failed :: "history \<Rightarrow> bool" where
  "last_failed h \<longleftrightarrow> fold next_service h False \<or> fold next_sink h False"

lemma failed_notices [simp]:
  "fold next_service (map ControlNotice ns) failed = failed" "fold next_sink (map ControlNotice ns) failed = failed"
  by (induction ns) simp_all

text \<open>
  \<open>status p c f\<close>: the published state is \<open>p\<close>, if that is known, no error is published, if \<open>c\<close>, and the last
  outcome is a failure, if \<open>f\<close>.
\<close>

type_synonym published = "(RedisIngestSyncMode \<times> RedisIngestSubState) option"

definition status :: "published \<Rightarrow> bool \<Rightarrow> bool \<Rightarrow> RedisIngestRunner \<Rightarrow> bool" where
  "status p c f r \<longleftrightarrow> (\<forall>q. p = Some q \<longrightarrow> (rr_mode r, rr_subState r) = q) \<and> (c \<longrightarrow> rr_lastError r = []) \<and>
     (f \<longrightarrow> last_failed (rr_log r))"

text \<open>The states that belong to a location, and what holds at it between two steps.\<close>

fun published_at :: "location \<Rightarrow> (RedisIngestSyncMode \<times> RedisIngestSubState) \<Rightarrow> bool" where
  "published_at AtStartup p \<longleftrightarrow> True"
| "published_at Stopped p \<longleftrightarrow> True"
| "published_at (AtBackfill conn) p \<longleftrightarrow> p = (RedisIngestSyncModeSubscribe, RedisIngestSubStateSubscribeBackfill)"
| "published_at (AtDrain conn source) p \<longleftrightarrow> p = (RedisIngestSyncModeSubscribe, RedisIngestSubStateSubscribeBackfill)"
| "published_at (AtReceive conn) p \<longleftrightarrow> fst p = RedisIngestSyncModeSubscribe \<and>
     snd p \<in> {RedisIngestSubStateSubscribeBackfill, RedisIngestSubStateSubscribeReceiving}"
| "published_at (AtDegraded conn retryAt fallback) p \<longleftrightarrow> fst p = RedisIngestSyncModeSubscribe \<and>
     snd p \<in> {RedisIngestSubStateSubscribeReceiving, RedisIngestSubStateSubscribeDegradedPolling}"
| "published_at (AtRedisPull degraded source retryAt) p \<longleftrightarrow> p = (RedisIngestSyncModeRedisPull,
     if degraded then RedisIngestSubStateRedisPullDegradedHTTP else RedisIngestSubStateRedisPullActive)"
| "published_at (AtHTTPPull source) p \<longleftrightarrow> p = (RedisIngestSyncModeHTTPPull, RedisIngestSubStateHTTPPullActive)"

fun error_free_at :: "location \<Rightarrow> bool" where
  "error_free_at (AtBackfill conn) = True"
| "error_free_at (AtDrain conn source) = True"
| "error_free_at (AtReceive conn) = True"
| "error_free_at loc = False"

definition truthful :: "location \<Rightarrow> RedisIngestRunner \<Rightarrow> bool" where
  "truthful loc r \<longleftrightarrow> published_at loc (rr_mode r, rr_subState r) \<and>
     (rr_lastError r = [] \<or> \<not> error_free_at loc \<and> last_failed (rr_log r))"

text \<open>
  What a step publishes, by the location it leads from and to: the value is determined but where the task stops or starts
  over, which it also does on seeing at once that the context is done, and then \<open>p\<close>, the state before, is left.  No value
  fits a step that does not exist.
\<close>

abbreviation starting :: "RedisIngestSyncMode \<times> RedisIngestSubState" where
  "starting \<equiv> (RedisIngestSyncModeUnknown, RedisIngestSubStateStarting)"
abbreviation backfilling :: "RedisIngestSyncMode \<times> RedisIngestSubState" where
  "backfilling \<equiv> (RedisIngestSyncModeSubscribe, RedisIngestSubStateSubscribeBackfill)"
abbreviation receiving :: "RedisIngestSyncMode \<times> RedisIngestSubState" where
  "receiving \<equiv> (RedisIngestSyncModeSubscribe, RedisIngestSubStateSubscribeReceiving)"
abbreviation degraded_polling :: "RedisIngestSyncMode \<times> RedisIngestSubState" where
  "degraded_polling \<equiv> (RedisIngestSyncModeSubscribe, RedisIngestSubStateSubscribeDegradedPolling)"
abbreviation redis_pulling :: "bool \<Rightarrow> RedisIngestSyncMode \<times> RedisIngestSubState" where
  "redis_pulling degraded \<equiv> (RedisIngestSyncModeRedisPull,
     if degraded then RedisIngestSubStateRedisPullDegradedHTTP else RedisIngestSubStateRedisPullActive)"
abbreviation http_pulling :: "RedisIngestSyncMode \<times> RedisIngestSubState" where
  "http_pulling \<equiv> (RedisIngestSyncModeHTTPPull, RedisIngestSubStateHTTPPullActive)"

fun publishes :: "location \<Rightarrow> location \<Rightarrow> RedisIngestSyncMode \<times> RedisIngestSubState \<Rightarrow> (RedisIngestSyncMode \<times> RedisIngestSubState) set" where
  "publishes AtStartup AtStartup p = {starting}"
| "publishes AtStartup Stopped p = {p, starting}"
| "publishes AtStartup (AtBackfill conn) p = {backfilling}"
| "publishes AtStartup (AtRedisPull degraded source retryAt) p = (if degraded then {} else {redis_pulling False})"
| "publishes AtStartup (AtHTTPPull source) p = {http_pulling}"
| "publishes (AtBackfill conn) (AtDrain conn' source) p = {backfilling}"
| "publishes (AtDrain conn source) (AtDrain conn' source') p = {backfilling}"
| "publishes (AtDrain conn source) (AtReceive conn') p = {backfilling}"
| "publishes (AtDrain conn source) AtStartup p = {backfilling}"
| "publishes (AtReceive conn) (AtReceive conn') p = {receiving}"
| "publishes (AtReceive conn) (AtDegraded conn' retryAt fallback) p = {receiving}"
| "publishes (AtReceive conn) AtStartup p = {receiving}"
| "publishes (AtDegraded conn retryAt fallback) (AtDegraded conn' retryAt' fallback') p = {degraded_polling}"
| "publishes (AtDegraded conn retryAt fallback) (AtBackfill conn') p = {backfilling}"
| "publishes (AtDegraded conn retryAt fallback) AtStartup p = {p, degraded_polling}"
| "publishes (AtRedisPull degraded source retryAt) (AtRedisPull degraded' source' retryAt') p = {redis_pulling degraded'}"
| "publishes (AtRedisPull degraded source retryAt) AtStartup p = {p, redis_pulling False, redis_pulling True}"
| "publishes (AtHTTPPull source) (AtHTTPPull source') p = {http_pulling}"
| "publishes (AtHTTPPull source) AtStartup p = {p, http_pulling}"
| "publishes Stopped Stopped p = {p}"
| "publishes loc loc' p = {}"

text \<open>A step out of \<open>l\<close>, where \<open>p\<close> was published, leads to \<open>loc\<close>.\<close>

definition tells :: "location \<Rightarrow> RedisIngestSyncMode \<times> RedisIngestSubState \<Rightarrow> location \<Rightarrow> RedisIngestRunner \<Rightarrow> bool" where
  "tells l p loc r \<longleftrightarrow> truthful loc r \<and> (rr_mode r, rr_subState r) \<in> publishes l loc p"

section \<open>What the commands do to the status\<close>

lemmas command_defs = the_time_def context_done_def pause_def setRunning_def setOperationRunning_def next_failure_delay_def
  reset_failure_def next_startup_delay_def reset_startup_def onConnectionEstablished_def markConnectionEstablished_def
  sleepUntilRecovery_def ask_def emit_def only_if_def markRefreshPollingRequired_def

lemma status_keeps:
  "holds (status p c f) (the_time env) (\<lambda>_. status p c f)" "holds (status p c f) (context_done env) (\<lambda>_. status p c f)"
  "holds (status p c f) (pause env d) (\<lambda>_. status p c f)" "holds (status p c f) (emit (Closed conn)) (\<lambda>_. status p c f)"
  "holds (status p c f) (setRunning b) (\<lambda>_. status p c f)"
  "holds (status p c f) (setOperationRunning b) (\<lambda>_. status p c f)" "holds (status p c f) next_failure_delay (\<lambda>_. status p c f)"
  "holds (status p c f) reset_failure (\<lambda>_. status p c f)" "holds (status p c f) next_startup_delay (\<lambda>_. status p c f)"
  "holds (status p c f) reset_startup (\<lambda>_. status p c f)" "holds (status p c f) onConnectionEstablished (\<lambda>_. status p c f)"
  "holds (status p c f) (markConnectionEstablished current source) (\<lambda>_. status p c f)"
  "holds (status p c f) (sleepUntilRecovery env delay retryAt) (\<lambda>_. status p c f)"
  "holds (status p c f) (emit_notices ns) (\<lambda>_. status p c f)"
  "holds (status p c f) (pulledFullBatch cnt) (\<lambda>_. status p c f)"
  "holds (status p c f) (idle_pause env) (\<lambda>_. status p c f)"
  "holds (status p c f) (idle_until_recovery env retryAt) (\<lambda>_. status p c f)"
  by (simp_all add: holds_def status_def command_defs emit_notices_def pulledFullBatch_def idle_pause_def
      idle_until_recovery_def Let_def last_failed_def)

lemma status_warning: "holds (status p c f) (recordWarning env s e) (\<lambda>_. status p c f)"
  by (simp add: holds_def status_def recordWarning_def recordFailure_def command_defs last_failed_def)

lemma status_error: "holds (status p c f) (recordError env s e) (\<lambda>_. status p False f)"
  by (simp add: holds_def status_def recordError_def recordFailure_def command_defs last_failed_def)

lemma status_available: "holds (status p c f) (recordAvailable env s) (\<lambda>_. status p True f)"
  by (simp add: holds_def status_def recordAvailable_def command_defs last_failed_def)

lemma status_state:
  "holds (status p c f) (recordState env m s t [] [])
     (\<lambda>_. status (Some (m, s)) (c \<or> (\<exists>q. p = Some q \<and> q \<noteq> (m, s) \<and> redisIngestHealthyState s)) f)"
  by (auto simp: holds_def status_def recordState_def command_defs Let_def last_failed_def)

text \<open>A runner that is wired up: \<open>validate\<close> checks its sources, the application passes the writer its delegate.\<close>

definition wired :: "ingest_env \<Rightarrow> bool" where
  "wired env \<longleftrightarrow> ie_Subscribe env \<noteq> None \<and> ie_redis env \<noteq> None \<and> ie_http env \<noteq> None \<and> ie_delegate env"

lemma status_subscribe: "wired env \<Longrightarrow> holds (status p c f) (subscribe env) (\<lambda>res. status p c (\<exists>e. res = Inl e))"
  by (auto simp: holds_def status_def subscribe_def command_defs wired_def last_failed_def)

lemma status_outcome:
  "(\<And>a. next_service (call a) = (\<lambda>_. \<exists>e. a = Inl e)) \<Longrightarrow>
     holds (status p c f) (ask answer call) (\<lambda>res. status p c (\<exists>e. res = Inl e))"
  by (simp add: holds_def status_def ask_def emit_def last_failed_def)

lemma status_return: "(\<And>s. status p c f s \<Longrightarrow> status p' c' f' s) \<Longrightarrow> holds (status p c f) (State_Monad.return x) (\<lambda>_. status p' c' f')"
  by (simp add: holds_def)

lemma status_repository:
  assumes "messages \<noteq> []"
  shows "holds (status p c f) (repository_Insert env source messages t) (\<lambda>res. status p c (\<exists>e. res = Inl e))"
  using assms by (auto simp: holds_def status_def repository_Insert_def command_defs last_failed_def split: option.split)

lemma status_writer:
  assumes "ie_delegate env"
  shows "holds (status p c f) (writer_Insert env source messages t) (\<lambda>res. status p c (\<exists>e. res = Inl e))"
proof -
  have ret: "holds (status p c f) (return (Inr 0)) (\<lambda>res. status p c (\<exists>e. res = Inl e))" for f and env :: ingest_env
    by (simp add: holds_def status_def)
  show ?thesis
  proof (cases "messages = []")
    case True
    then show ?thesis using assms ret by (simp add: writer_Insert_def)
  next
    case False
    then show ?thesis
      using assms(1) unfolding writer_Insert_def Let_def case_prod_beta
      by (simp only: if_False simp_thms) (intro holds_bind [OF status_keeps(14)] holds_if ret status_repository; assumption)
  qed
qed

lemma status_pull:
  assumes "wired env" and "source \<noteq> None"
  shows "holds (status p c f) (serialPullAndWrite env name source) (\<lambda>res. status p c (\<exists>e. res = Inl e))"
proof -
  have written: "holds (status p c (\<exists>e. res = Inl e)) (case res of Inl err \<Rightarrow> return (Inl (InboxWrite (error_text err)))
      | Inr _ \<Rightarrow> return (Inr (length messages))) (\<lambda>res. status p c (\<exists>e. res = Inl e))"
    for res :: "go_error + nat" and messages :: "string list"
    by (cases res) (simp_all add: holds_def status_def)
  have insert: "holds (status p c False) (writer_Insert env src messages t) (\<lambda>res. status p c (\<exists>e. res = Inl e))" for src messages t
    using assms(1) by (intro status_writer) (simp add: wired_def)
  have branch: "holds (status p c (\<exists>e. res = Inl e)) (case res of Inl err \<Rightarrow> return (Inl err) | Inr messages \<Rightarrow> do {
              name \<leftarrow> reads (\<lambda>r. write_source_name sourceName src (rr_log r));
              if messages = [] then return (Inr 0)
              else do {
                t \<leftarrow> the_time env;
                inserted \<leftarrow> writer_Insert env name messages t;
                case inserted of
                  Inl err \<Rightarrow> return (Inl (InboxWrite (error_text err)))
                | Inr _ \<Rightarrow> return (Inr (length messages)) } }) (\<lambda>res. status p c (\<exists>e. res = Inl e))" for res src sourceName
  proof (cases res)
    case (Inr messages)
    have "holds (status p c False) (return (Inr 0)) (\<lambda>res :: go_error + nat. status p c (\<exists>e. res = Inl e))"
      by (simp add: holds_def status_def)
    then show ?thesis
      unfolding Inr by (simp only: sum.case simp_thms Inr_Inl_False)
        (intro holds_bind [OF keep_reads] holds_if holds_bind [OF status_keeps(1)] holds_bind [OF insert written])
  qed (simp add: holds_def)
  obtain src where src: "source = Some src" using assms(2) by blast
  have "holds (status p c f) (pull_and_write env name source) (\<lambda>res. status p c (\<exists>e. res = Inl e))"
    unfolding pull_and_write_def src option.case
    by (rule holds_bind [OF _ branch]) (rule status_outcome, simp add: fun_eq_iff)
  then show ?thesis
    unfolding serialPullAndWrite_def
    by (intro holds_bind [OF status_keeps(6)] holds_bind) (assumption, rule status_keeps, simp add: holds_def)
qed

lemma status_write_batch:
  assumes "ie_delegate env"
  shows "holds (status p c f) (write_batch env batch) (\<lambda>res. status p c (\<exists>e. res = Some e))"
proof -
  have "holds (status p c (\<exists>e. res = Inl e)) (case res of Inl err \<Rightarrow> return (Some (InboxWrite (error_text err)))
      | Inr _ \<Rightarrow> return None) (\<lambda>res. status p c (\<exists>e. res = Some e))" for res :: "go_error + nat"
    by (cases res) (simp_all add: holds_def status_def)
  then show ?thesis
    unfolding write_batch_def
    by (intro holds_bind [OF status_keeps(1)] holds_bind [OF status_writer [OF assms]])
qed

text \<open>An insert says nothing about the service: a receive that failed stays the last exchange with it.\<close>

definition service_failed :: "history \<Rightarrow> bool" where
  "service_failed h \<longleftrightarrow> fold next_service h False"

interpretation service_log: log_invariant service_failed
proof
  show "service_failed (h @ [e])" if "bookkeeping e" "service_failed h" for e h
    using that by (cases e) (simp_all add: service_failed_def)
qed

lemma service_write_batch: "holds (on_log service_failed) (write_batch env batch) (\<lambda>_. on_log service_failed)"
proof -
  have inserted: "holds (on_log service_failed) (emit (Inserted source messages res)) (\<lambda>_. on_log service_failed)" for source messages res
    by (simp add: holds_def emit_def on_log_def service_failed_def)
  show ?thesis
    unfolding write_batch_def writer_Insert_def repository_Insert_def Let_def case_prod_beta
    by (rule inserted service_log.notices_keep service_log.bookkeeping_commands keep_rules)+
qed

lemma status_lost:
  assumes "ie_delegate env"
  shows "holds (\<lambda>r. status p c False r \<and> on_log service_failed r) (do { failed \<leftarrow> write_batch env batch;
      case failed of Some e \<Rightarrow> return (Some e) | None \<Rightarrow> return (if is_deadline err then None else Some err) })
    (\<lambda>res. status p c (\<exists>e. res = Some e))"
proof (rule holds_bind [OF holds_conj [OF status_write_batch [OF assms] service_write_batch]])
  fix failed
  show "holds (\<lambda>r. status p c (\<exists>e. failed = Some e) r \<and> on_log service_failed r)
      (case failed of Some e \<Rightarrow> return (Some e) | None \<Rightarrow> return (if is_deadline err then None else Some err))
      (\<lambda>res. status p c (\<exists>e. res = Some e))"
    by (cases failed) (auto simp: holds_def status_def on_log_def service_failed_def last_failed_def)
qed

lemma status_received:
  "holds (status p c f) (ask (ie_Receive env sub w) (Received sub))
     (\<lambda>res r. status p c (\<exists>e. res = Inl e) r \<and> ((\<exists>e. res = Inl e) \<longrightarrow> on_log service_failed r))"
  by (auto simp: holds_def ask_def emit_def status_def last_failed_def on_log_def service_failed_def)

lemma status_window:
  assumes "ie_delegate env"
  shows "holds (status p c False) (receive_window env sub n batch) (\<lambda>res. status p c (\<exists>e. res = Some e))"
proof (induction n arbitrary: batch)
  case 0
  show ?case using status_write_batch [OF assms] by simp
next
  case (Suc n)
  show ?case
    unfolding receive_window.simps
  proof (rule holds_bind [OF status_received])
    fix res
    show "holds (\<lambda>r. status p c (\<exists>e. res = Inl e) r \<and> ((\<exists>e. res = Inl e) \<longrightarrow> on_log service_failed r)) (case res of
        Inl err \<Rightarrow> do { failed \<leftarrow> write_batch env batch;
          case failed of Some e \<Rightarrow> return (Some e) | None \<Rightarrow> return (if is_deadline err then None else Some err) }
      | Inr message \<Rightarrow> receive_window env sub n (batch @ [message])) (\<lambda>res. status p c (\<exists>e. res = Some e))"
    proof (cases res)
      case (Inl err)
      then show ?thesis by (simp only: sum.case) (rule holds_pre [OF status_lost [OF assms]], simp add: status_def)
    next
      case (Inr message)
      then show ?thesis using Suc.IH by simp
    qed
  qed
qed

lemma status_receive:
  assumes "ie_delegate env"
  shows "holds (status p c f) (receiveSubscribeBatches env sub) (\<lambda>res. status p c (\<exists>e. res = Some e))"
  unfolding receiveSubscribeBatches_def
proof (rule holds_bind [OF status_received])
  fix res
  show "holds (\<lambda>r. status p c (\<exists>e. res = Inl e) r \<and> ((\<exists>e. res = Inl e) \<longrightarrow> on_log service_failed r)) (case res of
      Inl err \<Rightarrow> return (Some err)
    | Inr first \<Rightarrow> do { size \<leftarrow> reads rr_BatchSize; receive_window env sub (nat (size - 1)) [first] })
    (\<lambda>res. status p c (\<exists>e. res = Some e))"
  proof (cases res)
    case (Inr first)
    have "holds (status p c False) (do { size \<leftarrow> reads rr_BatchSize; receive_window env sub (nat (size - 1)) [first] })
        (\<lambda>res. status p c (\<exists>e. res = Some e))"
      by (rule holds_bind [OF keep_reads status_window [OF assms]])
    then show ?thesis using Inr by simp
  qed (simp add: holds_def)
qed

section \<open>Every step is truthful\<close>

lemma status_branch:
  assumes "wired env" and "source \<noteq> None"
    and "\<And>n. holds (status p c False) (f n) Q" and "\<And>e. holds (status p c True) (g e) Q"
  shows "holds (status p c d) (do { res \<leftarrow> serialPullAndWrite env name source; case res of Inl e \<Rightarrow> g e | Inr n \<Rightarrow> f n }) Q"
proof (rule holds_bind [OF status_pull [OF assms(1,2)]])
  fix res
  show "holds (status p c (\<exists>e. res = Inl e)) (case res of Inl e \<Rightarrow> g e | Inr n \<Rightarrow> f n) Q"
    using assms(3,4) by (cases res) simp_all
qed

lemma status_subscribe_branch:
  assumes "wired env"
    and "\<And>n. holds (status p c False) (f n) Q" and "\<And>e. holds (status p c True) (g e) Q"
  shows "holds (status p c d) (do { res \<leftarrow> subscribe env; case res of Inl e \<Rightarrow> g e | Inr n \<Rightarrow> f n }) Q"
proof (rule holds_bind [OF status_subscribe [OF assms(1)]])
  fix res
  show "holds (status p c (\<exists>e. res = Inl e)) (case res of Inl e \<Rightarrow> g e | Inr n \<Rightarrow> f n) Q"
    using assms(2,3) by (cases res) simp_all
qed

lemma status_leaves:
  "c \<or> f \<Longrightarrow> q \<in> publishes l Stopped old \<Longrightarrow> holds (status (Some q) c f) stop_runner (tells l old)"
  "c \<or> f \<Longrightarrow> q \<in> publishes l AtStartup old \<Longrightarrow> holds (status (Some q) c f) leave_pull (tells l old)"
  "c \<or> f \<Longrightarrow> (\<And>e. err = Some e \<Longrightarrow> is_canceled e) \<Longrightarrow> q \<in> publishes l AtStartup old \<Longrightarrow>
     holds (status (Some q) c f) (leave_subscribe env conn err) (tells l old)"
  by (auto simp: holds_def status_def tells_def truthful_def stop_runner_def leave_pull_def leave_subscribe_def command_defs
      last_failed_def split: option.split)

lemma status_finish: "(\<And>s. status p c f s \<Longrightarrow> tells l old loc s) \<Longrightarrow> holds (status p c f) (return loc) (tells l old)"
  by (simp add: holds_def)

lemma status_retry:
  assumes "\<And>s. status p False f s \<Longrightarrow> tells l old stay s" and "holds (status p False f) leave (tells l old)"
  shows "holds (status p c f) (retry_after_inbox_failure env status' err stay leave) (tells l old)"
  unfolding retry_after_inbox_failure_def pauseAfterInboxWriteFailure_def bind_assoc
  by (rule holds_bind [OF status_keeps(7)] holds_bind [OF status_error] holds_bind [OF status_keeps(3)] holds_if
      status_finish assms | assumption)+

lemma status_polling:
  assumes "holds (status p c f) wait (\<lambda>_. status p c f)" and "\<And>s. status p c f s \<Longrightarrow> tells l old stay s"
    and "holds (status p c f) leave (tells l old)"
  shows "holds (status p c f) (keep_polling cnt wait stay leave) (tells l old)"
  unfolding keep_polling_def
  by (rule holds_bind [OF status_keeps(15)] holds_bind [OF assms(1)] holds_if status_finish assms(3) | rule assms(2), assumption)+

lemma status_inbox_failure:
  "q \<in> publishes l AtStartup old \<Longrightarrow> holds (status (Some q) c True) (subscribe_inbox_failure env conn err) (tells l old)"
  unfolding subscribe_inbox_failure_def pauseAfterInboxWriteFailure_def bind_assoc
  by (rule holds_bind [OF status_keeps(4)] holds_bind [OF status_keeps(7)] holds_bind [OF status_error] holds_bind [OF status_keeps(3)]
      status_leaves | simp split: if_splits)+

lemmas status_binds = status_keeps [THEN holds_bind] status_warning [THEN holds_bind] status_error [THEN holds_bind]
  status_available [THEN holds_bind] status_state [THEN holds_bind]

lemma status_startup:
  assumes w: "wired env"
  shows "holds (status None False False) (do {
       _ \<leftarrow> recordState env RedisIngestSyncModeUnknown RedisIngestSubStateStarting ''starting'' [] [];
       sub \<leftarrow> subscribe env;
       case sub of
         Inr conn \<Rightarrow> do {
           _ \<leftarrow> reset_startup;
           _ \<leftarrow> onConnectionEstablished;
           _ \<leftarrow> recordState env RedisIngestSyncModeSubscribe RedisIngestSubStateSubscribeBackfill ''subscribe_connected'' [] [];
           return (AtBackfill conn) }
       | Inl subErr \<Rightarrow> do {
           _ \<leftarrow> recordWarning env ''subscribe_unavailable'' subErr;
           startup_redis env subErr } }) (tells (AtStartup) old)"
proof -
  have sources: "ie_redis env \<noteq> None" "ie_http env \<noteq> None" using w by (auto simp: wired_def)
  show ?thesis
    unfolding startup_redis_def startup_http_def
    by (rule status_subscribe_branch [OF w] status_branch [OF w sources(1)] status_branch [OF w sources(2)] status_binds
        status_retry status_leaves status_polling holds_if status_finish
      | simp add: status_def tells_def truthful_def redisIngestHealthyState_def)+
qed

lemma status_degraded:
  assumes w: "wired env"
  shows "holds (status None False False) (do {
       _ \<leftarrow> recordState env RedisIngestSyncModeSubscribe RedisIngestSubStateSubscribeDegradedPolling
              ''subscribe_degraded_polling'' [] [];
       t \<leftarrow> the_time env;
       if t < retryAt then degraded_pull env conn retryAt fallback
       else do {
         sub \<leftarrow> subscribe env;
         case sub of
           Inr conn' \<Rightarrow> do {
             _ \<leftarrow> recordState env RedisIngestSyncModeSubscribe RedisIngestSubStateSubscribeBackfill ''subscribe_reconnected'' [] [];
             _ \<leftarrow> onConnectionEstablished;
             return (AtBackfill conn') }
         | Inl err \<Rightarrow> do {
             _ \<leftarrow> recordWarning env ''subscribe_reconnect_failed'' err;
             t \<leftarrow> the_time env;
             degraded_pull env conn (t_add t redisIngestRecoveryRetryInterval) fallback } } }) (tells (AtDegraded conn retryAt fallback) old)"
proof -
  have sources: "ie_redis env \<noteq> None" "ie_http env \<noteq> None" using w by (auto simp: wired_def)
  show ?thesis
    unfolding degraded_pull_def degraded_http_def
    by (rule status_subscribe_branch [OF w] status_branch [OF w sources(1)] status_branch [OF w sources(2)] holds_if status_keeps(17) status_binds
        status_retry status_leaves status_polling status_finish
      | simp add: status_def tells_def truthful_def redisIngestHealthyState_def)+
qed

text \<open>Pairs of results of a receive, and what the loop does with them.\<close>

lemma status_receive_branch:
  assumes "ie_delegate env" and "holds (status p c False) r Q" and "\<And>e. is_canceled e \<Longrightarrow> holds (status p c True) (f e) Q"
    and "\<And>e. holds (status p c True) (g e) Q" and "\<And>e. holds (status p c True) (h e) Q"
  shows "holds (status p c d) (do { res \<leftarrow> receiveSubscribeBatches env sub;
    case res of None \<Rightarrow> r | Some e \<Rightarrow> if is_canceled e then f e else if is_inbox_write e then g e else h e }) Q"
proof (rule holds_bind [OF status_receive [OF assms(1)]])
  fix res
  show "holds (status p c (\<exists>e. res = Some e))
    (case res of None \<Rightarrow> r | Some e \<Rightarrow> if is_canceled e then f e else if is_inbox_write e then g e else h e) Q"
    using assms(2-) by (cases res) auto
qed

lemma status_receive_step:
  assumes "wired env"
  shows "holds (status None True False) (receive_step env conn) (tells (AtReceive conn) old)"
proof -
  have d: "ie_delegate env" using assms by (simp add: wired_def)
  have canceled: "holds (status p c True) (leave_subscribe env conn (Some err)) (tells (AtReceive conn) old)"
    if "is_canceled err" "p = Some receiving" for p c err
    unfolding that(2) by (rule status_leaves(3)) (use that in auto)
  show ?thesis
    unfolding receive_step_def
    by (rule status_receive_branch [OF d] status_binds canceled status_inbox_failure status_finish
      | assumption | simp add: status_def tells_def truthful_def)+
qed

lemma status_drain:
  assumes w: "wired env"
  shows "holds (status (Some (RedisIngestSyncModeSubscribe, RedisIngestSubStateSubscribeBackfill)) True False)
     (drain_step env conn source) (tells (AtDrain conn source) old)"
proof -
  have sources: "ie_redis env \<noteq> None" "ie_http env \<noteq> None" using w by (auto simp: wired_def)
  show ?thesis
    by (cases "source = redisIngestConnectionRedis"; simp only: drain_step_def if_True if_False simp_thms)
      (rule status_branch [OF w sources(1)] status_branch [OF w sources(2)] status_binds holds_if status_inbox_failure status_finish
        | simp add: status_def tells_def truthful_def)+
qed

lemma status_backfill: "holds (status None True False) (backfill_step env conn) (tells (AtBackfill conn) old)"
  unfolding backfill_step_def
  by (rule status_binds status_finish | simp add: status_def tells_def truthful_def)+

lemma status_redis_degraded:
  assumes w: "wired env"
  shows "holds (status None False False) (redis_degraded_step env source retryAt) (tells (AtRedisPull True source retryAt) old)"
proof -
  have sources: "ie_redis env \<noteq> None" "ie_http env \<noteq> None" using w by (auto simp: wired_def)
  show ?thesis
    unfolding redis_degraded_step_def redis_fallback_http_def
    by (rule status_branch [OF w sources(1)] status_branch [OF w sources(2)] holds_if status_keeps(16,17) status_binds
        status_retry status_leaves status_polling status_finish
      | simp add: status_def tells_def truthful_def redisIngestHealthyState_def)+
qed

lemma status_redis_active:
  assumes w: "wired env"
  shows "holds (status None False False) (redis_active_step env source retryAt) (tells (AtRedisPull False source retryAt) old)"
proof -
  have sources: "ie_redis env \<noteq> None" "ie_http env \<noteq> None" using w by (auto simp: wired_def)
  show ?thesis
    unfolding redis_active_step_def redis_failed_http_def Let_def
    by (rule status_branch [OF w sources(1)] status_branch [OF w sources(2)] holds_if status_keeps(16,17) status_binds
        status_retry status_leaves status_polling status_finish
      | simp add: status_def tells_def truthful_def redisIngestHealthyState_def)+
qed

lemma status_http_pull:
  assumes w: "wired env"
  shows "holds (status None False False) (do {
       _ \<leftarrow> recordState env RedisIngestSyncModeHTTPPull RedisIngestSubStateHTTPPullActive ''http_pull'' [] [];
       pulled \<leftarrow> pull_http env;
       case pulled of
         Inr cnt \<Rightarrow> do {
           source \<leftarrow> markConnectionEstablished source redisIngestConnectionHTTP;
           _ \<leftarrow> recordAvailable env ''http_pull_recovered'';
           _ \<leftarrow> reset_failure;
           keep_polling cnt (idle_pause env) (AtHTTPPull source) leave_pull }
       | Inl err \<Rightarrow> do {
           delay \<leftarrow> next_failure_delay;
           _ \<leftarrow> recordError env ''http_pull_failed'' err;
           ok \<leftarrow> pause env delay;
           if ok then return (AtHTTPPull (if is_inbox_write err then source
               else markConnectionUnavailable source redisIngestConnectionHTTP))
           else leave_pull } }) (tells (AtHTTPPull source0) old)"
proof -
  have sources: "ie_http env \<noteq> None" using w by (auto simp: wired_def)
  show ?thesis
    by (rule status_branch [OF w sources(1)] holds_if status_keeps(16,17) status_binds
        status_retry status_leaves status_polling status_finish
      | simp add: status_def tells_def truthful_def redisIngestHealthyState_def)+
qed

text \<open>A loop that looks at the context first: nothing has changed when it leaves.\<close>

definition honest :: "RedisIngestSyncMode \<times> RedisIngestSubState \<Rightarrow> RedisIngestRunner \<Rightarrow> bool" where
  "honest p r \<longleftrightarrow> (rr_mode r, rr_subState r) = p \<and> (rr_lastError r = [] \<or> last_failed (rr_log r))"

lemma honest_checks:
  assumes "holds (honest old) leave (tells l old)" and "holds (status None False False) body (tells l old)"
  shows "holds (\<lambda>r. truthful loc r \<and> (rr_mode r, rr_subState r) = old) (do { done \<leftarrow> context_done env; if done then leave else body }) (tells l old)"
proof (rule holds_bind [where R = "\<lambda>_. honest old"])
  show "holds (\<lambda>r. truthful loc r \<and> (rr_mode r, rr_subState r) = old) (context_done env) (\<lambda>_. honest old)"
    by (auto simp: holds_def truthful_def honest_def command_defs last_failed_def)
  show "holds (honest old) (if finished then leave else body) (tells l old)" for finished
    by (rule holds_if [OF assms(1) holds_pre [OF assms(2)]]) (simp add: status_def)
qed

lemma honest_leaves:
  "old \<in> publishes l Stopped old \<Longrightarrow> holds (honest old) stop_runner (tells l old)"
  "old \<in> publishes l AtStartup old \<Longrightarrow> holds (honest old) leave_pull (tells l old)"
  "old \<in> publishes l AtStartup old \<Longrightarrow> holds (honest old) (leave_subscribe env conn (Some Canceled)) (tells l old)"
  by (auto simp: holds_def honest_def tells_def truthful_def stop_runner_def leave_pull_def leave_subscribe_def command_defs last_failed_def)

lemma truthful_step:
  assumes w: "wired env"
  shows "holds (\<lambda>r. truthful loc r \<and> (rr_mode r, rr_subState r) = old) (ingest_step env loc) (tells loc old)"
proof (cases loc)
  case AtStartup
  show ?thesis unfolding AtStartup ingest_step.simps startup_step_def
    by (rule honest_checks [OF honest_leaves(1) status_startup [OF w]]) simp
next
  case (AtBackfill conn)
  show ?thesis unfolding AtBackfill ingest_step.simps
    by (rule holds_pre [OF status_backfill]) (simp add: truthful_def status_def)
next
  case (AtDrain conn source)
  show ?thesis unfolding AtDrain ingest_step.simps
    by (rule holds_pre [OF status_drain [OF w]]) (simp add: truthful_def status_def)
next
  case (AtReceive conn)
  show ?thesis unfolding AtReceive ingest_step.simps
    by (rule holds_pre [OF status_receive_step [OF w]]) (simp add: truthful_def status_def)
next
  case (AtDegraded conn retryAt fallback)
  show ?thesis unfolding AtDegraded ingest_step.simps degraded_step_def
    by (rule honest_checks [OF honest_leaves(3) status_degraded [OF w]]) simp
next
  case (AtRedisPull degraded source retryAt)
  have "holds (status None False False) (if degraded then redis_degraded_step env source retryAt else redis_active_step env source retryAt)
      (tells (AtRedisPull degraded source retryAt) old)"
    using status_redis_degraded [OF w] status_redis_active [OF w] by simp
  from honest_checks [OF honest_leaves(2) this] show ?thesis
    unfolding AtRedisPull ingest_step.simps redis_pull_step_def by simp
next
  case (AtHTTPPull source)
  show ?thesis unfolding AtHTTPPull ingest_step.simps http_pull_step_def
    by (rule honest_checks [OF honest_leaves(2) status_http_pull [OF w]]) simp
next
  case Stopped
  show ?thesis unfolding Stopped by (simp add: holds_def tells_def)
qed

interpretation truthful_steps: annotated "ingest_step env" "\<lambda>loc r. wired env \<longrightarrow> truthful loc r" for env
  by unfold_locales (use truthful_step in \<open>auto simp: holds_def tells_def\<close>)

text \<open>
  C23: The status the application shows is true.  After every iteration of every loop of any run, the mode and sub-state
  the runner publishes are those of that iteration: starting after a failed start, back-filling, receiving, degraded
  polling, pulling from Redis or, for it, over HTTP, pulling over HTTP.  An error is published only while the last
  exchange with the service or the last insert has failed, and none is while it subscribes.
\<close>

theorem ingest_status_truthful:
  assumes "Run env n (Some (new_runner observer cfg)) = Inr (loc, r)" and "ie_delegate env"
    and "run_state (ingest_step env loc) r = (loc', r')"
  shows "truthful loc r \<and> truthful loc' r' \<and>
    (rr_mode r', rr_subState r') \<in> publishes loc loc' (rr_mode r, rr_subState r)"
proof -
  obtain r0 where r0: "run_state (iterate (ingest_step env) n AtStartup) r0 = (loc, r)" "rr_lastError r0 = []"
    and w: "wired env"
    using assms(2) by (metis Run_start [OF assms(1)] wired_def)
  have "truthful AtStartup r0" using r0(2) by (simp add: truthful_def)
  then have r: "truthful loc r" using truthful_steps.reached [OF _ r0(1)] w by simp
  from holdsD [OF truthful_step [OF w] conjI [OF this refl] assms(3)]
  have "tells loc (rr_mode r, rr_subState r) loc' r'" .
  with r show ?thesis by (simp add: tells_def)
qed

text \<open>A first iteration that cannot store what it has taken: the task starts over, and says so.\<close>

lemma ingest_status_truthful_witness:
  "case Run (sample_env (Inl (Failure ''disk full''))) 1 (Some sample_runner) of Inl _ \<Rightarrow> False | Inr (loc, r) \<Rightarrow>
     rr_lastError r \<noteq> [] \<and> truthful loc r"
proof -
  have "case Run (sample_env (Inl (Failure ''disk full''))) 1 (Some sample_runner) of Inl _ \<Rightarrow> False | Inr (loc, r) \<Rightarrow>
      rr_lastError r \<noteq> []" "ie_delegate (sample_env (Inl (Failure ''disk full'')))"
    by code_simp+
  then show ?thesis
    using ingest_status_truthful [of "sample_env (Inl (Failure ''disk full''))", OF _ _ prod.collapse [symmetric]] unfolding sample_runner_def
    by (auto split: sum.splits prod.splits)
qed

end
