(* ===== verification/IngestShutdown.thy ===== *)
theory IngestShutdown
  imports IngestSafety
begin

text \<open>
  The end of the ingest task: its backoff, and that it comes to a stop in a few steps once the application is told to
  shut down.
\<close>

section \<open>Backoff\<close>

fun next_delays :: "nat \<Rightarrow> RedisIngestBackoff option \<Rightarrow> duration list" where
  "next_delays 0 b = []"
| "next_delays (Suc n) b = fst (NextDelay b) # next_delays n (snd (NextDelay b))"

definition backoff_delay :: "duration \<Rightarrow> duration \<Rightarrow> nat \<Rightarrow> duration" where
  "backoff_delay initial maximum k = (if k = 0 then initial else min (initial * 2 ^ k) maximum)"

lemma backoff_next:
  assumes "0 < initial" "initial < 2 ^ 62" "0 < maximum" "maximum < 2 ^ 62"
  shows "NextDelay (Some \<lparr>bo_initial = initial, bo_max = maximum, bo_next = backoff_delay initial maximum k\<rparr>) =
    (backoff_delay initial maximum k,
     Some \<lparr>bo_initial = initial, bo_max = maximum, bo_next = backoff_delay initial maximum (Suc k)\<rparr>)"
proof -
  let ?d = "backoff_delay initial maximum k"
  have "0 < initial * 2 ^ k" using assms(1) by simp
  then have pos: "1 \<le> initial * 2 ^ k" by linarith
  then have d: "0 < ?d" "?d < 2 ^ 62"
    using assms by (auto simp: backoff_delay_def min_def)
  then have w: "wrap64 (?d * 2) = ?d * 2"
    by (intro wrap64_id) (simp_all add: i64_def)
  have "(if maximum < ?d * 2 then maximum else ?d * 2) = backoff_delay initial maximum (Suc k)"
    using pos assms(3) by (auto simp: backoff_delay_def min_def)
  then show ?thesis
    using d(1) assms(3) w by (cases "maximum < ?d * 2") (simp_all add: NextDelay_def Let_def)
qed

text \<open>
  Consecutive failures wait twice as long each time, from the initial delay up to the maximum, which no delay but
  the first exceeds; after a success the sequence starts again.
\<close>

lemma backoff_doubles:
  assumes "0 < initial" "initial < 2 ^ 62" "0 < maximum" "maximum < 2 ^ 62"
  shows "next_delays n (Some (NewRedisIngestBackoff initial maximum)) = map (backoff_delay initial maximum) [0..<n] \<and>
    ResetBackoff (Some \<lparr>bo_initial = initial, bo_max = maximum, bo_next = d\<rparr>) = Some (NewRedisIngestBackoff initial maximum)"
proof -
  have "next_delays n (Some \<lparr>bo_initial = initial, bo_max = maximum, bo_next = backoff_delay initial maximum k\<rparr>) =
      map (backoff_delay initial maximum) [k..<k + n]" for k
    by (induction n arbitrary: k) (simp_all add: backoff_next [OF assms] upt_conv_Cons del: upt_Suc)
  from this [of 0] show ?thesis
    by (simp add: NewRedisIngestBackoff_def ResetBackoff_def backoff_delay_def)
qed

section \<open>Shutdown\<close>

lemma holds_fact:
  "holds P c (\<lambda>a s. P s \<and> F a) \<Longrightarrow> (\<And>a. F a \<Longrightarrow> holds P (f a) Q) \<Longrightarrow> holds P (State_Monad.bind c f) Q"
  by (rule holds_bind, assumption) (simp add: holds_def)

text \<open>
  What the task relies on: a cancelled context stays cancelled, breaks every wait, and makes every pull and receive
  return with an error.
\<close>

definition responsive :: "ingest_env \<Rightarrow> bool" where
  "responsive env \<longleftrightarrow> (\<forall>h e. ie_done env h \<longrightarrow> ie_done env (h @ [e]) \<and> (\<forall>d. \<not> ie_sleep env d h) \<and>
     (\<forall>conn w m. ie_Receive env conn w h \<noteq> Inr m) \<and>
     (\<forall>source ms. ie_redis env = Some source \<or> ie_http env = Some source \<longrightarrow> ps_Pull source h \<noteq> Inr ms))"

abbreviation down :: "ingest_env \<Rightarrow> RedisIngestRunner \<Rightarrow> bool" where
  "down env \<equiv> on_log (\<lambda>h. responsive env \<longrightarrow> ie_done env h)"

interpretation down_log: log_invariant "\<lambda>h. responsive env \<longrightarrow> ie_done env h" for env
  by unfold_locales (auto simp: responsive_def)

lemma down_ask: "holds (down env) (ask answer call) (\<lambda>a r. down env r \<and> (\<exists>h. (responsive env \<longrightarrow> ie_done env h) \<and> a = answer h))"
  by (auto simp: holds_def ask_def emit_def on_log_def responsive_def)

lemma down_pause: "responsive env \<Longrightarrow> holds (down env) (pause env d) (\<lambda>ok r. down env r \<and> \<not> ok)"
  unfolding pause_def by (rule holds_post [OF down_ask]) (auto simp: responsive_def)

lemma down_waits:
  assumes "responsive env"
  shows "holds (down env) (idle_pause env) (\<lambda>ok r. down env r \<and> \<not> ok)"
    and "holds (down env) (idle_until_recovery env retryAt) (\<lambda>ok r. down env r \<and> \<not> ok)"
    and "holds (down env) (sleepUntilRecovery env delay retryAt) (\<lambda>ok r. down env r \<and> \<not> ok)"
    and "holds (down env) (pauseAfterInboxWriteFailure env status err) (\<lambda>ok r. down env r \<and> \<not> ok)"
  unfolding idle_pause_def idle_until_recovery_def sleepUntilRecovery_def pauseAfterInboxWriteFailure_def Let_def
  by (rule holds_bind [OF keep_reads] down_log.bookkeeping_commands [THEN holds_bind] down_pause [OF assms])+

lemma down_pull:
  assumes "responsive env" and "source = ie_redis env \<or> source = ie_http env"
  shows "holds (down env) (serialPullAndWrite env name source) (\<lambda>res r. down env r \<and> (\<exists>e. res = Inl e))"
proof -
  have "holds (down env) (pull_and_write env name source) (\<lambda>res r. down env r \<and> (\<exists>e. res = Inl e))"
  proof (cases source)
    case None
    then show ?thesis by (simp add: pull_and_write_def holds_def)
  next
    case (Some src)
    show ?thesis
      unfolding pull_and_write_def Some option.case
    proof (rule holds_bind [OF down_ask])
      fix res
      show "holds (\<lambda>r. down env r \<and> (\<exists>h. (responsive env \<longrightarrow> ie_done env h) \<and> res = ps_Pull src h))
        (case res of Inl err \<Rightarrow> return (Inl err) | Inr messages \<Rightarrow> do {
              name \<leftarrow> reads (\<lambda>r. write_source_name name src (rr_log r));
              if messages = [] then return (Inr 0)
              else do {
                t \<leftarrow> the_time env;
                inserted \<leftarrow> writer_Insert env name messages t;
                case inserted of
                  Inl err \<Rightarrow> return (Inl (InboxWrite (error_text err)))
                | Inr _ \<Rightarrow> return (Inr (length messages)) } }) (\<lambda>res r. down env r \<and> (\<exists>e. res = Inl e))"
      proof (cases res)
        case (Inr messages)
        have "\<not> (\<exists>h. (responsive env \<longrightarrow> ie_done env h) \<and> res = ps_Pull src h)"
          using assms Some Inr unfolding responsive_def by metis
        then show ?thesis unfolding holds_def by blast
      qed (simp add: holds_def)
    qed
  qed
  note pulled = this
  show ?thesis
    unfolding serialPullAndWrite_def
    by (rule holds_bind [OF down_log.settings_keep(2)] holds_fact [OF pulled])+ (auto simp: holds_def setOperationRunning_def on_log_def)
qed

text \<open>What follows a pull, a wait or a look at the context takes the branch of a cancelled context.\<close>

lemma down_branch:
  assumes "responsive env" and "source = ie_redis env \<or> source = ie_http env" and "\<And>e. holds (down env) (g e) Q"
  shows "holds (down env) (do { res \<leftarrow> serialPullAndWrite env name source; case res of Inl e \<Rightarrow> g e | Inr n \<Rightarrow> f n }) Q"
  by (rule holds_fact [OF down_pull [OF assms(1,2)]]) (use assms(3) in auto)

lemma down_checks:
  assumes "responsive env" and "holds (down env) leave Q"
  shows "holds (down env) (do { done \<leftarrow> context_done env; if done then leave else body }) Q"
  unfolding context_done_def
  by (rule holds_bind [OF down_ask])
    (use assms in \<open>auto simp: holds_def\<close>)

lemma down_retry:
  assumes "responsive env" and "holds (down env) leave Q"
  shows "holds (down env) (retry_after_inbox_failure env status err stay leave) Q"
  unfolding retry_after_inbox_failure_def
  by (rule holds_fact [OF down_waits(4) [OF assms(1)]]) (simp add: assms(2))

lemma down_receive:
  assumes "responsive env"
  shows "holds (down env) (receiveSubscribeBatches env sub) (\<lambda>res r. down env r \<and> (\<exists>e. res = Some e))"
  unfolding receiveSubscribeBatches_def
proof (rule holds_bind [OF down_ask])
  fix res
  show "holds (\<lambda>r. down env r \<and> (\<exists>h. (responsive env \<longrightarrow> ie_done env h) \<and> res = ie_Receive env sub False h))
      (case res of Inl err \<Rightarrow> return (Some err)
       | Inr first \<Rightarrow> do { size \<leftarrow> reads rr_BatchSize; receive_window env sub (nat (size - 1)) [first] })
      (\<lambda>res r. down env r \<and> (\<exists>e. res = Some e))"
  proof (cases res)
    case (Inr m)
    have "\<not> (\<exists>h. (responsive env \<longrightarrow> ie_done env h) \<and> res = ie_Receive env sub False h)"
      using assms Inr unfolding responsive_def by metis
    then show ?thesis unfolding holds_def by blast
  qed (simp add: holds_def)
qed

text \<open>How far a location is from the end.\<close>

fun steps_left :: "location \<Rightarrow> nat" where
  "steps_left Stopped = 0"
| "steps_left AtStartup = 1"
| "steps_left (AtDegraded conn retryAt fallback) = 2"
| "steps_left (AtRedisPull degraded source retryAt) = 2"
| "steps_left (AtHTTPPull source) = 2"
| "steps_left (AtReceive conn) = 3"
| "steps_left (AtDrain conn source) = (if source = redisIngestConnectionRedis then 5 else 4)"
| "steps_left (AtBackfill conn) = 6"

definition nearer :: "ingest_env \<Rightarrow> nat \<Rightarrow> location \<Rightarrow> RedisIngestRunner \<Rightarrow> bool" where
  "nearer env n loc r \<longleftrightarrow> down env r \<and> steps_left loc \<le> n \<and> (loc = Stopped \<longrightarrow> \<not> rr_running r)"

lemma nearer_return: "loc \<noteq> Stopped \<Longrightarrow> steps_left loc \<le> n \<Longrightarrow> holds (down env) (return loc) (nearer env n)"
  by (simp add: holds_def nearer_def)

lemma nearer_stop: "holds (down env) stop_runner (nearer env n)"
  by (simp add: holds_def nearer_def stop_runner_def setRunning_def on_log_def)

lemma nearer_leaves:
  assumes "0 < n"
  shows "holds (down env) leave_pull (nearer env n)" and "holds (down env) (leave_subscribe env conn err) (nearer env n)"
  unfolding leave_pull_def leave_subscribe_def
  by (rule nearer_return holds_bind [OF down_log.basic_keeps(4)] holds_bind [OF keep_option] keep_rules down_log.failures_keep
    | use assms in \<open>simp; fail\<close>)+

lemma nearer_inbox_failure:
  "0 < n \<Longrightarrow> holds (down env) (subscribe_inbox_failure env conn err) (nearer env n)"
  unfolding subscribe_inbox_failure_def
  by (rule holds_bind [OF down_log.basic_keeps(4)] holds_bind [OF down_log.failures_keep(3)] nearer_leaves | assumption)+

lemmas nearer_rules = nearer_stop nearer_leaves nearer_inbox_failure nearer_return holds_if
  down_log.bookkeeping_commands [THEN holds_bind]

lemma nearer_step:
  assumes r: "responsive env" and "loc \<noteq> Stopped"
  shows "holds (down env) (ingest_step env loc) (nearer env (steps_left loc - 1))"
proof (cases loc)
  case AtStartup
  show ?thesis
    unfolding AtStartup ingest_step.simps startup_step_def by (rule down_checks [OF r] nearer_rules)+
next
  case (AtBackfill conn)
  show ?thesis
    unfolding AtBackfill ingest_step.simps backfill_step_def by (rule nearer_rules | simp)+
next
  case (AtDrain conn source)
  show ?thesis
    unfolding AtDrain ingest_step.simps
    by (cases "source = redisIngestConnectionRedis"; simp only: drain_step_def if_True if_False simp_thms)
      (rule down_branch [OF r] nearer_rules | simp)+
next
  case (AtReceive conn)
  show ?thesis
    unfolding AtReceive ingest_step.simps receive_step_def
  proof (rule holds_bind [OF down_log.record_keeps(1)] holds_fact [OF down_receive [OF r]])+
    fix res :: "go_error option"
    assume "\<exists>e. res = Some e"
    then obtain e where res: "res = Some e" by blast
    show "holds (down env) (case res of None \<Rightarrow> return (AtReceive conn)
        | Some err \<Rightarrow>
            if is_canceled err then leave_subscribe env conn (Some err)
            else if is_inbox_write err then subscribe_inbox_failure env conn err
            else do {
              _ \<leftarrow> recordError env ''subscribe_disconnected'' err;
              _ \<leftarrow> emit (Closed conn);
              t \<leftarrow> the_time env;
              return (AtDegraded conn (t_add t redisIngestRecoveryRetryInterval) redisIngestConnectionNone) })
        (nearer env (steps_left (AtReceive conn) - 1))"
      unfolding res option.case by (rule nearer_rules | simp)+
  qed
next
  case (AtDegraded conn retryAt fallback)
  show ?thesis
    unfolding AtDegraded ingest_step.simps degraded_step_def by (rule down_checks [OF r] nearer_rules | simp)+
next
  case (AtRedisPull degraded source retryAt)
  show ?thesis
    unfolding AtRedisPull ingest_step.simps redis_pull_step_def by (rule down_checks [OF r] nearer_rules | simp)+
next
  case (AtHTTPPull source)
  show ?thesis
    unfolding AtHTTPPull ingest_step.simps http_pull_step_def by (rule down_checks [OF r] nearer_rules | simp)+
qed (use assms(2) in simp)

lemma iterate_stopped: "run_state (iterate (ingest_step env) k Stopped) r = (Stopped, r)"
  by (induction k) simp_all

lemma iterate_stops:
  assumes "responsive env"
  shows "loc \<noteq> Stopped \<Longrightarrow> steps_left loc \<le> k \<Longrightarrow>
    holds (down env) (iterate (ingest_step env) k loc) (\<lambda>loc r. loc = Stopped \<and> \<not> rr_running r)"
proof (induction k arbitrary: loc)
  case 0
  then show ?case by (cases loc) (simp_all split: if_splits)
next
  case (Suc k)
  show ?case
    unfolding iterate.simps
  proof (rule holds_bind [OF nearer_step [OF assms Suc.prems(1)]])
    fix loc'
    show "holds (nearer env (steps_left loc - 1) loc') (iterate (ingest_step env) k loc') (\<lambda>loc r. loc = Stopped \<and> \<not> rr_running r)"
    proof (cases "loc' \<noteq> Stopped \<and> steps_left loc' \<le> k")
      case True
      then show ?thesis by (intro holds_pre [OF Suc.IH]) (auto simp: nearer_def)
    next
      case False
      then show ?thesis using Suc.prems(2) by (auto simp: holds_def nearer_def iterate_stopped)
    qed
  qed
qed

lemma iterate_add: "iterate step (n + m) = (\<lambda>loc. State_Monad.bind (iterate step n loc) (iterate step m))"
proof (induction n)
  case (Suc n)
  show ?case by (rule ext) (simp add: Suc.IH)
qed simp

text \<open>
  C24: The task ends when it is told to.  Wherever it is when the context is cancelled, it is stopped after at most six
  more steps and no longer reported as running, provided the cancelled context breaks waits and makes pulls and
  receives fail.
\<close>

theorem ingest_stops_on_shutdown:
  assumes "Run env n (Some runner) = Inr (loc, r)" and "loc \<noteq> Stopped" and "ie_done env (rr_log r)" and "responsive env"
  shows "\<exists>r'. Run env (n + 6) (Some runner) = Inr (Stopped, r') \<and> \<not> rr_running r'"
proof -
  obtain r0 where v: "validate env (Some runner) = Inr r0"
    using assms(1) by (cases "validate env (Some runner)") (auto simp: Run_def)
  obtain loc' r' where end': "run_state (iterate (ingest_step env) 6 loc) r = (loc', r')" by fastforce
  have "steps_left loc \<le> 6" by (cases loc) simp_all
  then have "loc' = Stopped \<and> \<not> rr_running r'"
    using holdsD [OF iterate_stops [OF assms(4,2)] _ end'] assms(3) by (simp add: on_log_def)
  moreover have "Run env (n + 6) (Some runner) = Inr (loc', r')"
    using assms(1) end' v by (simp add: Run_def ingest_steps_def iterate_add split_beta prod_eq_iff)
  ultimately show ?thesis by simp
qed

definition sample_shutdown :: ingest_env where
  "sample_shutdown = (sample_env (Inr 1))\<lparr>ie_done := (\<lambda>h. 20 < length h), ie_sleep := (\<lambda>_ h. length h \<le> 20),
     ie_redis := Some \<lparr>ps_Pull = (\<lambda>h. if 20 < length h then Inl Canceled else Inr [''usage'']), ps_SourceName = None\<rparr>,
     ie_http := Some \<lparr>ps_Pull = (\<lambda>h. Inl Canceled), ps_SourceName = None\<rparr>\<rparr>"

lemma ingest_stops_on_shutdown_witness:
  "case Run sample_shutdown 3 (Some sample_runner) of Inl _ \<Rightarrow> False | Inr (loc, r) \<Rightarrow>
     loc \<noteq> Stopped \<and> (\<exists>r'. Run sample_shutdown 9 (Some sample_runner) = Inr (Stopped, r') \<and> \<not> rr_running r')"
proof -
  have "case Run sample_shutdown 3 (Some sample_runner) of Inl _ \<Rightarrow> False | Inr (loc, r) \<Rightarrow>
      loc \<noteq> Stopped \<and> ie_done sample_shutdown (rr_log r)"
    by code_simp
  then obtain loc r where at: "Run sample_shutdown 3 (Some sample_runner) = Inr (loc, r)" "loc \<noteq> Stopped"
      "ie_done sample_shutdown (rr_log r)"
    by (auto split: sum.splits prod.splits)
  have "responsive sample_shutdown"
    by (auto simp: responsive_def sample_shutdown_def sample_env_def)
  then show ?thesis using ingest_stops_on_shutdown [OF at] at by simp
qed

end
