(* ===== verification/StorageTime.thy ===== *)
theory StorageTime
  imports GoTime
begin

text \<open>
  \<open>timeutil/storage.go\<close>: instants as the text the database keeps.  \<open>FormatStorageTime\<close> writes RFC 3339 in the
  local time zone, with as many digits of the second as it needs.
\<close>

section \<open>Calendar and digits\<close>

text \<open>Year, month and day of a civil day number, counted from 1970-01-01.\<close>

definition civil_date :: "int \<Rightarrow> int \<times> int \<times> int" where
  "civil_date d =
     (let z = d + 719468;
          era = z div 146097;
          doe = z mod 146097;
          yoe = (doe - doe div 1460 + doe div 36524 - doe div 146096) div 365;
          doy = doe - (365 * yoe + yoe div 4 - yoe div 100);
          mp = (5 * doy + 2) div 153;
          month = (if mp < 10 then mp + 3 else mp - 9)
      in (yoe + era * 400 + (if month \<le> 2 then 1 else 0), month, doy - (153 * mp + 2) div 5 + 1))"

definition digit :: "int \<Rightarrow> char" where
  "digit n = char_of (48 + nat (n mod 10))"

fun digits :: "nat \<Rightarrow> int \<Rightarrow> string" where
  "digits 0 n = []"
| "digits (Suc k) n = digits k (n div 10) @ [digit n]"

section \<open>RFC 3339\<close>

text \<open>The layout's \<open>.999999999\<close> drops trailing zeros, and the point with them; \<open>Z07:00\<close> is \<open>Z\<close> at offset zero.\<close>

definition format_fraction :: "int \<Rightarrow> string" where
  "format_fraction nanos =
     (if nanos = 0 then [] else CHR ''.'' # rev (dropWhile (\<lambda>c. c = CHR ''0'') (rev (digits 9 nanos))))"

definition format_offset :: "int \<Rightarrow> string" where
  "format_offset offset =
     (if offset = 0 then ''Z''
      else let minutes = \<bar>offset\<bar> div 60 in
        (if offset < 0 then ''-'' else ''+'') @ digits 2 (minutes div 60) @ '':'' @ digits 2 (minutes mod 60))"

definition FormatStorageTime :: "zone \<Rightarrow> gtime \<Rightarrow> string" where
  "FormatStorageTime z t =
     (let (year, month, day) = civil_date (local_day z t);
          sod = local_secs z t mod 86400
      in digits 4 year @ ''-'' @ digits 2 month @ ''-'' @ digits 2 day @ ''T'' @
         digits 2 (sod div 3600) @ '':'' @ digits 2 (sod div 60 mod 60) @ '':'' @ digits 2 (sod mod 60) @
         format_fraction (t mod Second) @ format_offset (zone_offset z (unix t)))"

text \<open>\<open>FormatSortableStorageTime\<close>: UTC, always nine digits.\<close>

definition FormatSortableStorageTime :: "gtime \<Rightarrow> string" where
  "FormatSortableStorageTime t =
     (let (year, month, day) = civil_date (unix t div 86400);
          sod = unix t mod 86400
      in digits 4 year @ ''-'' @ digits 2 month @ ''-'' @ digits 2 day @ ''T'' @
         digits 2 (sod div 3600) @ '':'' @ digits 2 (sod div 60 mod 60) @ '':'' @ digits 2 (sod mod 60) @
         ''.'' @ digits 9 (t mod Second) @ ''Z'')"

text \<open>
  The local text is not in the order of the instants.  At the end of summer time in Berlin, 25 October 2026, the text
  of 02:50 summer time comes after the text of 02:10 winter time, which is twenty minutes later.
\<close>

definition berlin :: zone where
  "berlin s = (if s < 1792890000 then (7200, 1774746000, 1792890000) else (3600, 1792890000, 1806195600))"

lemma storage_text_not_in_order:
  "FormatStorageTime berlin (time_unix 1792889400) = ''2026-10-25T02:50:00+02:00'' \<and>
   FormatStorageTime berlin (time_unix 1792890600) = ''2026-10-25T02:10:00+01:00'' \<and>
   FormatStorageTime berlin (time_unix 1792890600) \<le> FormatStorageTime berlin (time_unix 1792889400)"
  by code_simp

end
