(* ===== verification/Sessions.thy ===== *)
theory Sessions
  imports StorageTime StateLogic
begin

text \<open>
  \<open>internal/auth/session.go\<close>: login sessions, kept in memory and, when there is a store, in the table
  \<open>auth_sessions\<close>.

  Every section that the source runs under the manager's mutex is one operation here; the methods that take the
  mutex more than once are compositions of them.  A store error in a method that cannot return one is a panic, the
  left side of the result: what had been changed by then stays changed.  The clock's readings are arguments, in the
  order of the calls.  The hash of a token (SHA-256, in hex) is a parameter.
\<close>

section \<open>Sessions and rows\<close>

abbreviation RoleAdmin :: string where "RoleAdmin \<equiv> ''admin''"
abbreviation RoleAPIKeyViewer :: string where "RoleAPIKeyViewer \<equiv> ''api_key_viewer''"
abbreviation SessionSourceStandard :: string where "SessionSourceStandard \<equiv> ''standard''"
abbreviation SessionSourceEmbed :: string where "SessionSourceEmbed \<equiv> ''embed''"

definition NormalizeSessionSource :: "string \<Rightarrow> string" where
  "NormalizeSessionSource source = (if source = SessionSourceEmbed then SessionSourceEmbed else SessionSourceStandard)"

record Session =
  ss_Role :: string
  ss_Source :: string
  ss_Alias :: string
  ss_CPAAPIKeyID :: int
  ss_LoginIP :: string
  ss_LastSeenIP :: string
  ss_UserAgent :: string
  ss_LastSeenAt :: gtime
  ss_ExpiresAt :: gtime
  ss_CreatedAt :: gtime

record AuthSession =
  as_TokenHash :: string
  as_Role :: string
  as_Source :: string
  as_Alias :: string
  as_CPAAPIKeyID :: int
  as_LoginIP :: string
  as_LastSeenIP :: string
  as_UserAgent :: string
  as_LastSeenAt :: "gtime option"
  as_ExpiresAt :: gtime
  as_CreatedAt :: gtime
  as_UpdatedAt :: gtime

text \<open>A record of the list has the fields of a session and the hash of its token.\<close>

record SessionRecord =
  sr_TokenHash :: string
  sr_session :: Session

definition sessionTimePointer :: "gtime \<Rightarrow> gtime option" where
  "sessionTimePointer t = (if is_zero t then None else Some t)"

definition authSessionFromRow :: "AuthSession \<Rightarrow> string + Session" where
  "authSessionFromRow row =
     (let source = NormalizeSessionSource (as_Source row);
          lastSeenAt = (case as_LastSeenAt row of Some t \<Rightarrow> if is_zero t then as_CreatedAt row else t | None \<Rightarrow> as_CreatedAt row)
      in if as_Role row = RoleAdmin then
           Inr \<lparr>ss_Role = RoleAdmin, ss_Source = source, ss_Alias = as_Alias row, ss_CPAAPIKeyID = 0,
             ss_LoginIP = as_LoginIP row, ss_LastSeenIP = as_LastSeenIP row, ss_UserAgent = as_UserAgent row,
             ss_LastSeenAt = lastSeenAt, ss_ExpiresAt = as_ExpiresAt row, ss_CreatedAt = as_CreatedAt row\<rparr>
         else if as_Role row = RoleAPIKeyViewer then
           Inr \<lparr>ss_Role = RoleAPIKeyViewer, ss_Source = source, ss_Alias = [], ss_CPAAPIKeyID = as_CPAAPIKeyID row,
             ss_LoginIP = as_LoginIP row, ss_LastSeenIP = as_LastSeenIP row, ss_UserAgent = as_UserAgent row,
             ss_LastSeenAt = lastSeenAt, ss_ExpiresAt = as_ExpiresAt row, ss_CreatedAt = as_CreatedAt row\<rparr>
         else Inl (''unknown auth session role '' @ as_Role row))"

definition authSessionRecordFromRow :: "AuthSession \<Rightarrow> string + SessionRecord" where
  "authSessionRecordFromRow row =
     bindE (authSessionFromRow row) (\<lambda>session. Inr \<lparr>sr_TokenHash = as_TokenHash row, sr_session = session\<rparr>)"

section \<open>The store\<close>

text \<open>
  The table behind gorm is a parameter: its state \<open>'s\<close> and the five statements the store uses.  Inserting replaces
  the row with the same primary key; updates and deletes count the rows they hit; \<open>db_find\<close> is \<open>First\<close>, and
  \<open>db_select\<close> is ordered by creation time and hash.
\<close>

record 's auth_db =
  db_create :: "AuthSession \<Rightarrow> 's \<Rightarrow> (string + unit) \<times> 's"
  db_update :: "(AuthSession \<Rightarrow> bool) \<Rightarrow> (AuthSession \<Rightarrow> AuthSession) \<Rightarrow> 's \<Rightarrow> (string + nat) \<times> 's"
  db_delete :: "(AuthSession \<Rightarrow> bool) \<Rightarrow> 's \<Rightarrow> (string + nat) \<times> 's"
  db_find :: "(AuthSession \<Rightarrow> bool) \<Rightarrow> 's \<Rightarrow> string + AuthSession option"
  db_select :: "(AuthSession \<Rightarrow> bool) \<Rightarrow> 's \<Rightarrow> string + AuthSession list"

text \<open>\<open>se_store\<close>: no store, or a store with or without a database.\<close>

record 's session_env =
  se_store :: "'s auth_db option option"
  se_hash :: "string \<Rightarrow> string"
  se_zone :: zone

abbreviation not_configured :: string where "not_configured \<equiv> ''auth session store is not configured''"

definition store_Save :: "'s session_env \<Rightarrow> 's auth_db option \<Rightarrow> string \<Rightarrow> Session \<Rightarrow> 's \<Rightarrow> (string + unit) \<times> 's" where
  "store_Save env store token session s =
     (case store of
        None \<Rightarrow> (Inl not_configured, s)
      | Some db \<Rightarrow> db_create db
          \<lparr>as_TokenHash = se_hash env token, as_Role = ss_Role session, as_Source = NormalizeSessionSource (ss_Source session),
           as_Alias = ss_Alias session, as_CPAAPIKeyID = ss_CPAAPIKeyID session, as_LoginIP = ss_LoginIP session,
           as_LastSeenIP = ss_LastSeenIP session, as_UserAgent = ss_UserAgent session,
           as_LastSeenAt = sessionTimePointer (ss_LastSeenAt session), as_ExpiresAt = ss_ExpiresAt session,
           as_CreatedAt = ss_CreatedAt session, as_UpdatedAt = ss_CreatedAt session\<rparr> s)"

definition store_UpdateAdminAliasByTokenHash ::
  "'s auth_db option \<Rightarrow> string \<Rightarrow> string \<Rightarrow> gtime \<Rightarrow> 's \<Rightarrow> (string + nat) \<times> 's" where
  "store_UpdateAdminAliasByTokenHash store tokenHash alias updatedAt s =
     (case store of
        None \<Rightarrow> (Inl not_configured, s)
      | Some db \<Rightarrow> db_update db (\<lambda>row. as_TokenHash row = tokenHash \<and> as_Role row = RoleAdmin)
          (\<lambda>row. row\<lparr>as_Alias := alias, as_UpdatedAt := updatedAt\<rparr>) s)"

definition store_UpdateActivity ::
  "'s session_env \<Rightarrow> 's auth_db option \<Rightarrow> string \<Rightarrow> string \<Rightarrow> gtime \<Rightarrow> 's \<Rightarrow> (string + nat) \<times> 's" where
  "store_UpdateActivity env store token lastSeenIP lastSeenAt s =
     (case store of
        None \<Rightarrow> (Inl not_configured, s)
      | Some db \<Rightarrow> db_update db (\<lambda>row. as_TokenHash row = se_hash env token)
          (\<lambda>row. row\<lparr>as_LastSeenIP := lastSeenIP, as_LastSeenAt := Some lastSeenAt, as_UpdatedAt := lastSeenAt\<rparr>) s)"

definition store_Get :: "'s session_env \<Rightarrow> 's auth_db option \<Rightarrow> string \<Rightarrow> 's \<Rightarrow> string + Session option" where
  "store_Get env store token s =
     (case store of
        None \<Rightarrow> Inl not_configured
      | Some db \<Rightarrow> bindE (db_find db (\<lambda>row. as_TokenHash row = se_hash env token) s)
          (\<lambda>found. case found of None \<Rightarrow> Inr None | Some row \<Rightarrow> bindE (authSessionFromRow row) (\<lambda>session. Inr (Some session))))"

text \<open>The times of a statement are compared as text.\<close>

definition store_List :: "'s session_env \<Rightarrow> 's auth_db option \<Rightarrow> gtime \<Rightarrow> 's \<Rightarrow> string + SessionRecord list" where
  "store_List env store now s =
     (case store of
        None \<Rightarrow> Inl not_configured
      | Some db \<Rightarrow> bindE (db_select db (\<lambda>row. FormatStorageTime (se_zone env) (as_ExpiresAt row) > FormatStorageTime (se_zone env) now) s)
          (\<lambda>rows. foldE (\<lambda>row records. bindE (authSessionRecordFromRow row) (\<lambda>r. Inr (records @ [r]))) rows []))"

definition store_Delete :: "'s session_env \<Rightarrow> 's auth_db option \<Rightarrow> string \<Rightarrow> 's \<Rightarrow> (string + nat) \<times> 's" where
  "store_Delete env store token s =
     (case store of
        None \<Rightarrow> (Inl not_configured, s)
      | Some db \<Rightarrow> db_delete db (\<lambda>row. as_TokenHash row = se_hash env token) s)"

definition store_DeleteByTokenHash :: "'s auth_db option \<Rightarrow> string \<Rightarrow> 's \<Rightarrow> (string + nat) \<times> 's" where
  "store_DeleteByTokenHash store tokenHash s =
     (case store of
        None \<Rightarrow> (Inl not_configured, s)
      | Some db \<Rightarrow> db_delete db (\<lambda>row. as_TokenHash row = tokenHash) s)"

definition store_DeleteByRole :: "'s auth_db option \<Rightarrow> string \<Rightarrow> 's \<Rightarrow> (string + nat) \<times> 's" where
  "store_DeleteByRole store role s =
     (case store of
        None \<Rightarrow> (Inl not_configured, s)
      | Some db \<Rightarrow> db_delete db (\<lambda>row. as_Role row = role) s)"

definition store_DeleteExpired :: "'s session_env \<Rightarrow> 's auth_db option \<Rightarrow> gtime \<Rightarrow> 's \<Rightarrow> (string + nat) \<times> 's" where
  "store_DeleteExpired env store now s =
     (case store of
        None \<Rightarrow> (Inl not_configured, s)
      | Some db \<Rightarrow> db_delete db (\<lambda>row. FormatStorageTime (se_zone env) (as_ExpiresAt row) \<le> FormatStorageTime (se_zone env) now) s)"

section \<open>The manager\<close>

record sessionActivityUpdate =
  au_token :: string
  au_lastSeenIP :: string
  au_lastSeenAt :: gtime

text \<open>
  \<open>sm_writers\<close> are the goroutines that run \<open>writePendingActivity\<close>, each with the update it holds in its local variable while
  it writes; the flag \<open>activityWriterRunning\<close> is what the code knows of them.
\<close>

record 's SessionManager =
  sm_ttl :: duration
  sm_sessions :: "(string, Session) gomap"
  sm_pendingActivity :: "(string, sessionActivityUpdate) gomap"
  sm_activityWriterRunning :: bool
  sm_writers :: "sessionActivityUpdate option list"
  sm_db :: 's

type_synonym ('s, 'a) session_op = "('s SessionManager, string + 'a) state"

abbreviation sessionActivityWriteInterval :: duration where "sessionActivityWriteInterval \<equiv> Minute"

record SessionClientMetadata =
  cl_IP :: string
  cl_UserAgent :: string

definition NewPersistentSessionManager :: "duration \<Rightarrow> 's \<Rightarrow> 's SessionManager" where
  "NewPersistentSessionManager ttl s =
     \<lparr>sm_ttl = ttl, sm_sessions = [], sm_pendingActivity = [], sm_activityWriterRunning = False, sm_writers = [], sm_db = s\<rparr>"

definition done_with :: "'a \<Rightarrow> ('s, 'a) session_op" where
  "done_with x = State_Monad.return (Inr x)"

text \<open>A panic unwinds the whole call.\<close>

definition attempt :: "('s, 'a) session_op \<Rightarrow> ('a \<Rightarrow> ('s, 'b) session_op) \<Rightarrow> ('s, 'b) session_op" where
  "attempt c f = do { res \<leftarrow> c; case res of Inl panic \<Rightarrow> State_Monad.return (Inl panic) | Inr x \<Rightarrow> f x }"

definition on_db :: "('s \<Rightarrow> 'r \<times> 's) \<Rightarrow> ('s SessionManager, 'r) state" where
  "on_db call = State (\<lambda>m. case call (sm_db m) of (r, s) \<Rightarrow> (r, m\<lparr>sm_db := s\<rparr>))"

lemma run_on_db [simp]: "run_state (on_db call) m = (fst (call (sm_db m)), m\<lparr>sm_db := snd (call (sm_db m))\<rparr>)"
  by (simp add: on_db_def split_beta)

definition or_panic :: "string \<Rightarrow> ('s SessionManager, string + 'a) state \<Rightarrow> ('s, 'a) session_op" where
  "or_panic what c = do { res \<leftarrow> c; State_Monad.return (map_sum (\<lambda>err. what @ '': '' @ err) (\<lambda>x. x) res) }"

definition set_sessions :: "((string, Session) gomap \<Rightarrow> (string, Session) gomap) \<Rightarrow> ('s SessionManager, unit) state" where
  "set_sessions f = modify (\<lambda>m. m\<lparr>sm_sessions := f (sm_sessions m)\<rparr>)"

definition normalizeSessionIP :: "string \<Rightarrow> string" where
  "normalizeSessionIP val = (let val = go_trim_space val in if length val > 64 then [] else val)"

definition normalizeSessionClientMetadata :: "SessionClientMetadata \<Rightarrow> SessionClientMetadata" where
  "normalizeSessionClientMetadata metadata = metadata\<lparr>cl_IP := normalizeSessionIP (cl_IP metadata)\<rparr>"

definition cleanupExpiredLocked :: "'s session_env \<Rightarrow> gtime \<Rightarrow> ('s, unit) session_op" where
  "cleanupExpiredLocked env now = do {
     _ \<leftarrow> set_sessions (filter (\<lambda>(token, session). ss_ExpiresAt session > now));
     case se_store env of
       None \<Rightarrow> done_with ()
     | Some store \<Rightarrow> attempt (or_panic ''delete expired auth sessions'' (on_db (store_DeleteExpired env store now))) (\<lambda>_. done_with ()) }"

text \<open>The session that \<open>create\<close> fills in.\<close>

definition new_session :: "gtime \<Rightarrow> duration \<Rightarrow> SessionClientMetadata \<Rightarrow> Session \<Rightarrow> Session" where
  "new_session now ttl metadata session =
     (let metadata = normalizeSessionClientMetadata metadata in
      session\<lparr>ss_Source := NormalizeSessionSource (ss_Source session), ss_LoginIP := cl_IP metadata,
        ss_LastSeenIP := cl_IP metadata, ss_UserAgent := cl_UserAgent metadata, ss_LastSeenAt := now,
        ss_ExpiresAt := t_add now ttl, ss_CreatedAt := now\<rparr>)"

text \<open>\<open>generated\<close> is the outcome of the token generator; a returned error is the left side inside.\<close>

definition create ::
  "'s session_env \<Rightarrow> string + string \<Rightarrow> gtime \<Rightarrow> gtime \<Rightarrow> Session \<Rightarrow> SessionClientMetadata \<Rightarrow>
     ('s, string + string \<times> gtime) session_op" where
  "create env generated t0 now session metadata =
     (case generated of
        Inl err \<Rightarrow> done_with (Inl err)
      | Inr token \<Rightarrow> attempt (cleanupExpiredLocked env t0) (\<lambda>_. do {
          ttl \<leftarrow> reads sm_ttl;
          let session = new_session now ttl metadata session in do {
            saved \<leftarrow> (case se_store env of None \<Rightarrow> State_Monad.return (Inr ()) | Some store \<Rightarrow> on_db (store_Save env store token session));
            case saved of
              Inl err \<Rightarrow> done_with (Inl (''save auth session: '' @ err))
            | Inr _ \<Rightarrow> do {
                _ \<leftarrow> set_sessions (\<lambda>sessions. mput sessions token session);
                done_with (Inr (token, ss_ExpiresAt session)) } } }))"

text \<open>What a login asks for: the public \<open>Create\<close> methods differ in the session they pass on.\<close>

datatype login = AdminLogin string | APIKeyViewerLogin int string

fun login_session :: "login \<Rightarrow> Session" where
  "login_session (AdminLogin source) =
     \<lparr>ss_Role = RoleAdmin, ss_Source = NormalizeSessionSource source, ss_Alias = [], ss_CPAAPIKeyID = 0, ss_LoginIP = [],
      ss_LastSeenIP = [], ss_UserAgent = [], ss_LastSeenAt = zero_time, ss_ExpiresAt = zero_time, ss_CreatedAt = zero_time\<rparr>"
| "login_session (APIKeyViewerLogin cpaAPIKeyID source) =
     \<lparr>ss_Role = RoleAPIKeyViewer, ss_Source = NormalizeSessionSource source, ss_Alias = [], ss_CPAAPIKeyID = cpaAPIKeyID,
      ss_LoginIP = [], ss_LastSeenIP = [], ss_UserAgent = [], ss_LastSeenAt = zero_time, ss_ExpiresAt = zero_time,
      ss_CreatedAt = zero_time\<rparr>"

definition create_login ::
  "'s session_env \<Rightarrow> string + string \<Rightarrow> gtime \<Rightarrow> gtime \<Rightarrow> login \<Rightarrow> SessionClientMetadata \<Rightarrow>
     ('s, string + string \<times> gtime) session_op" where
  "create_login env generated t0 now kind metadata = create env generated t0 now (login_session kind) metadata"

definition session_Delete :: "'s session_env \<Rightarrow> string \<Rightarrow> ('s, unit) session_op" where
  "session_Delete env token =
     (if token = [] then done_with ()
      else do {
        _ \<leftarrow> set_sessions (\<lambda>sessions. mdel sessions token);
        case se_store env of
          None \<Rightarrow> done_with ()
        | Some store \<Rightarrow> attempt (or_panic ''delete auth session'' (on_db (store_Delete env store token))) (\<lambda>_. done_with ()) })"

definition getPersisted :: "'s session_env \<Rightarrow> string \<Rightarrow> gtime \<Rightarrow> ('s, Session option) session_op" where
  "getPersisted env token now =
     (case se_store env of
        None \<Rightarrow> done_with None
      | Some store \<Rightarrow> do {
          cached \<leftarrow> reads (\<lambda>m. mget (sm_sessions m) token);
          case cached of
            Some session \<Rightarrow>
              if \<not> ss_ExpiresAt session > now then do {
                _ \<leftarrow> set_sessions (\<lambda>sessions. mdel sessions token);
                attempt (or_panic ''delete auth session'' (on_db (store_Delete env store token))) (\<lambda>_. done_with None) }
              else done_with (Some session)
          | None \<Rightarrow>
              attempt (or_panic ''load auth session'' (reads (\<lambda>m. store_Get env store token (sm_db m)))) (\<lambda>found.
                case found of
                  None \<Rightarrow> done_with None
                | Some session \<Rightarrow>
                    if \<not> ss_ExpiresAt session > now then
                      attempt (or_panic ''delete auth session'' (on_db (store_Delete env store token))) (\<lambda>_. done_with None)
                    else do {
                      _ \<leftarrow> set_sessions (\<lambda>sessions. mput sessions token session);
                      done_with (Some session) }) })"

definition session_Get :: "'s session_env \<Rightarrow> string \<Rightarrow> gtime \<Rightarrow> ('s, Session option) session_op" where
  "session_Get env token now =
     (if token = [] then done_with None
      else do {
        cached \<leftarrow> reads (\<lambda>m. mget (sm_sessions m) token);
        case cached of
          None \<Rightarrow> getPersisted env token now
        | Some session \<Rightarrow>
            if \<not> ss_ExpiresAt session > now then attempt (session_Delete env token) (\<lambda>_. done_with None)
            else done_with (Some session) })"

definition session_Validate :: "'s session_env \<Rightarrow> string \<Rightarrow> gtime \<Rightarrow> ('s, bool) session_op" where
  "session_Validate env token now = attempt (session_Get env token now) (\<lambda>found. done_with (found \<noteq> None))"

section \<open>Activity\<close>

text \<open>\<open>go writePendingActivity()\<close>.\<close>

definition start_writer :: "('s SessionManager, unit) state" where
  "start_writer = modify (\<lambda>m. m\<lparr>sm_writers := sm_writers m @ [None]\<rparr>)"

text \<open>The part of the second section of \<open>Touch\<close> that queues the update; it says whether a writer has to be started.\<close>

definition queue_activity :: "'s session_env \<Rightarrow> sessionActivityUpdate \<Rightarrow> ('s SessionManager, bool) state" where
  "queue_activity env update =
     (if se_store env = None then State_Monad.return False
      else do {
        _ \<leftarrow> modify (\<lambda>m. m\<lparr>sm_pendingActivity := mput (sm_pendingActivity m) (au_token update) update\<rparr>);
        running \<leftarrow> reads sm_activityWriterRunning;
        _ \<leftarrow> only_if (\<not> running) (modify (\<lambda>m. m\<lparr>sm_activityWriterRunning := True\<rparr>));
        State_Monad.return (\<not> running) })"

text \<open>\<open>Touch\<close> from its second section on: the section under the mutex, and the start of the writer after it.\<close>

definition touch_locked :: "'s session_env \<Rightarrow> string \<Rightarrow> string \<Rightarrow> gtime \<Rightarrow> gtime \<Rightarrow> ('s, bool) session_op" where
  "touch_locked env token lastSeenIP t0 now = do {
     cached \<leftarrow> reads (\<lambda>m. mget (sm_sessions m) token);
     case cached of
       None \<Rightarrow> done_with False
     | Some session \<Rightarrow>
         if \<not> ss_ExpiresAt session > t0 then done_with False
         else
           let lastSeenIP = normalizeSessionIP lastSeenIP;
               lastSeenIP = (if lastSeenIP = [] then ss_LastSeenIP session else lastSeenIP)
           in if lastSeenIP = ss_LastSeenIP session \<and> t_add (ss_LastSeenAt session) sessionActivityWriteInterval > now
              then done_with False
              else do {
                _ \<leftarrow> set_sessions (\<lambda>sessions. mput sessions token (session\<lparr>ss_LastSeenIP := lastSeenIP, ss_LastSeenAt := now\<rparr>));
                startWriter \<leftarrow> queue_activity env \<lparr>au_token = token, au_lastSeenIP = lastSeenIP, au_lastSeenAt = now\<rparr>;
                _ \<leftarrow> only_if startWriter start_writer;
                done_with True } }"

definition session_Touch :: "'s session_env \<Rightarrow> string \<Rightarrow> string \<Rightarrow> gtime \<Rightarrow> gtime \<Rightarrow> gtime \<Rightarrow> ('s, bool) session_op" where
  "session_Touch env token lastSeenIP t t0 now =
     (if token = [] then done_with False
      else attempt (session_Get env token t) (\<lambda>found.
        case found of None \<Rightarrow> done_with False | Some _ \<Rightarrow> touch_locked env token lastSeenIP t0 now))"

text \<open>
  One round of \<open>writePendingActivity\<close> is two steps of the goroutine: take an update under the mutex, whichever the map
  yields first, or else clear the flag and end; and write it to the store without the mutex, where a failure is logged.
\<close>

definition writer_step ::
  "'s session_env \<Rightarrow> nat \<Rightarrow> ((string, sessionActivityUpdate) gomap \<Rightarrow> (string, sessionActivityUpdate) gomap) \<Rightarrow>
     ('s SessionManager, unit) state" where
  "writer_step env i ord = do {
     m \<leftarrow> reads (\<lambda>m. m);
     only_if (i < length (sm_writers m))
       (case sm_writers m ! i of
          Some update \<Rightarrow> do {
            _ \<leftarrow> (case se_store env of
                   None \<Rightarrow> State_Monad.return (Inr 0)
                 | Some store \<Rightarrow> on_db (store_UpdateActivity env store (au_token update) (au_lastSeenIP update) (au_lastSeenAt update)));
            modify (\<lambda>m. m\<lparr>sm_writers := (sm_writers m)[i := None]\<rparr>) }
        | None \<Rightarrow>
            (case ord (sm_pendingActivity m) of
               [] \<Rightarrow> modify (\<lambda>m. m\<lparr>sm_activityWriterRunning := False, sm_writers := take i (sm_writers m) @ drop (Suc i) (sm_writers m)\<rparr>)
             | (token, pending) # _ \<Rightarrow>
                 modify (\<lambda>m. m\<lparr>sm_pendingActivity := mdel (sm_pendingActivity m) token, sm_writers := (sm_writers m)[i := Some pending]\<rparr>))) }"

section \<open>Administration\<close>

definition record_of :: "'s session_env \<Rightarrow> string \<times> Session \<Rightarrow> SessionRecord" where
  "record_of env entry =
     \<lparr>sr_TokenHash = se_hash env (fst entry),
      sr_session = (snd entry)\<lparr>ss_Source := NormalizeSessionSource (ss_Source (snd entry))\<rparr>\<rparr>"

definition record_less :: "SessionRecord \<Rightarrow> SessionRecord \<Rightarrow> bool" where
  "record_less l r =
     (if ss_CreatedAt (sr_session l) = ss_CreatedAt (sr_session r) then sr_TokenHash l < sr_TokenHash r
      else ss_CreatedAt (sr_session l) < ss_CreatedAt (sr_session r))"

text \<open>What is in memory is fresher than the row: the activity is written late.\<close>

definition refresh_record :: "(string, Session) gomap \<Rightarrow> SessionRecord \<Rightarrow> SessionRecord" where
  "refresh_record cachedByHash r =
     (case mget cachedByHash (sr_TokenHash r) of
        None \<Rightarrow> r
      | Some session \<Rightarrow> r\<lparr>sr_session := (sr_session r)\<lparr>ss_Alias := ss_Alias session, ss_LoginIP := ss_LoginIP session,
          ss_LastSeenIP := ss_LastSeenIP session, ss_UserAgent := ss_UserAgent session, ss_LastSeenAt := ss_LastSeenAt session\<rparr>\<rparr>)"

definition session_List ::
  "'s session_env \<Rightarrow> ((string, Session) gomap \<Rightarrow> (string, Session) gomap) \<Rightarrow> gtime \<Rightarrow> gtime \<Rightarrow>
     ('s, SessionRecord list) session_op" where
  "session_List env ord t0 now =
     attempt (cleanupExpiredLocked env t0) (\<lambda>_.
       case se_store env of
         Some store \<Rightarrow>
           attempt (or_panic ''list auth sessions'' (reads (\<lambda>m. store_List env store now (sm_db m)))) (\<lambda>records. do {
             cachedByHash \<leftarrow> reads (\<lambda>m. fold (\<lambda>(token, session) cache. mput cache (se_hash env token) session) (ord (sm_sessions m)) []);
             done_with (map (refresh_record cachedByHash) records) })
       | None \<Rightarrow> do {
           sessions \<leftarrow> reads sm_sessions;
           done_with (sort_slice record_less (map (record_of env) (ord sessions))) })"

text \<open>The loop either changes every matching session or, when the store knows none, stops at the first one.\<close>

definition session_UpdateAdminAliasByTokenHash ::
  "'s session_env \<Rightarrow> string \<Rightarrow> string \<Rightarrow> gtime \<Rightarrow> gtime \<Rightarrow> ('s, bool) session_op" where
  "session_UpdateAdminAliasByTokenHash env tokenHash alias t0 now =
     (let tokenHash = go_trim_space tokenHash; alias = go_trim_space alias;
          hit = (\<lambda>(token, session). se_hash env token = tokenHash \<and> ss_Role session = RoleAdmin)
      in if tokenHash = [] then done_with False
         else attempt (cleanupExpiredLocked env t0) (\<lambda>_.
           attempt (case se_store env of
               None \<Rightarrow> done_with False
             | Some store \<Rightarrow> attempt (or_panic ''update admin auth session alias''
                 (on_db (store_UpdateAdminAliasByTokenHash store tokenHash alias now))) (\<lambda>rows. done_with (rows > 0)))
             (\<lambda>updated. do {
               sessions \<leftarrow> reads sm_sessions;
               if list_ex hit sessions
               then if se_store env \<noteq> None \<and> \<not> updated then done_with False
                    else do {
                      _ \<leftarrow> set_sessions (map (\<lambda>(token, session).
                             (token, if hit (token, session) then session\<lparr>ss_Alias := alias\<rparr> else session)));
                      done_with True }
               else done_with updated })))"

definition session_DeleteByTokenHash :: "'s session_env \<Rightarrow> string \<Rightarrow> gtime \<Rightarrow> ('s, nat) session_op" where
  "session_DeleteByTokenHash env tokenHash t0 =
     (let tokenHash = go_trim_space tokenHash in
      if tokenHash = [] then done_with 0
      else attempt (cleanupExpiredLocked env t0) (\<lambda>_. do {
        sessions \<leftarrow> reads sm_sessions;
        let deleted = (if list_ex (\<lambda>(token, session). se_hash env token = tokenHash) sessions then 1 else 0) in do {
          _ \<leftarrow> set_sessions (filter (\<lambda>(token, session). se_hash env token \<noteq> tokenHash));
          case se_store env of
            None \<Rightarrow> done_with deleted
          | Some store \<Rightarrow> attempt (or_panic ''delete auth session by token hash'' (on_db (store_DeleteByTokenHash store tokenHash)))
              (\<lambda>rows. done_with (max deleted rows)) } }))"

definition session_DeleteByRole :: "'s session_env \<Rightarrow> string \<Rightarrow> gtime \<Rightarrow> ('s, nat) session_op" where
  "session_DeleteByRole env role t0 =
     attempt (cleanupExpiredLocked env t0) (\<lambda>_. do {
       sessions \<leftarrow> reads sm_sessions;
       let deleted = length (filter (\<lambda>(token, session). ss_Role session = role) sessions) in do {
         _ \<leftarrow> set_sessions (filter (\<lambda>(token, session). ss_Role session \<noteq> role));
         case se_store env of
           None \<Rightarrow> done_with deleted
         | Some store \<Rightarrow> attempt (or_panic ''delete auth sessions by role'' (on_db (store_DeleteByRole store role)))
             (\<lambda>rows. done_with (max deleted rows)) } })"

section \<open>Histories\<close>

text \<open>
  Calls from several goroutines interleave at the mutex, so a history is any sequence of the locked sections.  The
  methods are made of these: \<open>Get\<close> reads and goes on with \<open>EvGet\<close> or \<open>EvDelete\<close>, \<open>Touch\<close> is \<open>Get\<close> and \<open>EvTouch\<close>.
\<close>

datatype session_event =
  EvCreate "string + string" gtime gtime login SessionClientMetadata
| EvGet string gtime
| EvTouch string string gtime gtime
| EvWriter nat "(string, sessionActivityUpdate) gomap \<Rightarrow> (string, sessionActivityUpdate) gomap"
| EvList "(string, Session) gomap \<Rightarrow> (string, Session) gomap" gtime gtime
| EvAlias string string gtime gtime
| EvDeleteByTokenHash string gtime
| EvDeleteByRole string gtime
| EvDelete string
| EvCleanup gtime

text \<open>An event ends with a session issued to a token, otherwise or in a panic.\<close>

datatype session_outcome = Issued string Session | Panicked string | Done

fun outcome :: "string + 'a \<Rightarrow> session_outcome" where
  "outcome (Inl panic) = Panicked panic"
| "outcome (Inr x) = Done"

fun create_outcome :: "Session \<Rightarrow> string + string + string \<times> gtime \<Rightarrow> session_outcome" where
  "create_outcome session (Inr (Inr (token, expiresAt))) = Issued token session"
| "create_outcome session (Inr (Inl err)) = Done"
| "create_outcome session (Inl panic) = Panicked panic"

definition ending :: "('a \<Rightarrow> session_outcome) \<Rightarrow> ('s, 'a) state \<Rightarrow> ('s, session_outcome) state" where
  "ending f c = do { x \<leftarrow> c; State_Monad.return (f x) }"

fun perform :: "'s session_env \<Rightarrow> session_event \<Rightarrow> ('s SessionManager, session_outcome) state" where
  "perform env (EvCreate generated t0 now kind metadata) = do {
     ttl \<leftarrow> reads sm_ttl;
     ending (create_outcome (new_session now ttl metadata (login_session kind))) (create_login env generated t0 now kind metadata) }"
| "perform env (EvGet token now) = ending outcome (getPersisted env token now)"
| "perform env (EvTouch token lastSeenIP t0 now) = ending outcome (touch_locked env token lastSeenIP t0 now)"
| "perform env (EvWriter i ord) = ending (\<lambda>_. Done) (writer_step env i ord)"
| "perform env (EvList ord t0 now) = ending outcome (session_List env ord t0 now)"
| "perform env (EvAlias tokenHash alias t0 now) = ending outcome (session_UpdateAdminAliasByTokenHash env tokenHash alias t0 now)"
| "perform env (EvDeleteByTokenHash tokenHash t0) = ending outcome (session_DeleteByTokenHash env tokenHash t0)"
| "perform env (EvDeleteByRole role t0) = ending outcome (session_DeleteByRole env role t0)"
| "perform env (EvDelete token) = ending outcome (session_Delete env token)"
| "perform env (EvCleanup now) = ending outcome (cleanupExpiredLocked env now)"

fun performs :: "'s session_env \<Rightarrow> session_event list \<Rightarrow> ('s SessionManager, session_outcome list) state" where
  "performs env [] = State_Monad.return []"
| "performs env (e # es) = do { out \<leftarrow> perform env e; outs \<leftarrow> performs env es; State_Monad.return (out # outs) }"

end
