(* ===== verification/SessionSafety.thy ===== *)
theory SessionSafety
  imports Sessions
begin

text \<open>
  What the session manager guarantees over any history of calls, whatever the clock says, whichever calls of the
  database fail and whatever order maps are visited in.
\<close>

section \<open>The database\<close>

text \<open>
  What the statements promise of the set of rows: a statement that fails changes nothing, one that succeeds does what
  it says.
\<close>

definition auth_db_ok :: "'s auth_db \<Rightarrow> ('s \<Rightarrow> AuthSession set) \<Rightarrow> bool" where
  "auth_db_ok db rows \<longleftrightarrow>
     (\<forall>row s. rows (snd (db_create db row s)) = (case fst (db_create db row s) of Inl _ \<Rightarrow> rows s
        | Inr _ \<Rightarrow> insert row {r \<in> rows s. as_TokenHash r \<noteq> as_TokenHash row})) \<and>
     (\<forall>P f s. rows (snd (db_update db P f s)) = (case fst (db_update db P f s) of Inl _ \<Rightarrow> rows s
        | Inr _ \<Rightarrow> (\<lambda>r. if P r then f r else r) ` rows s)) \<and>
     (\<forall>P s. rows (snd (db_delete db P s)) = (case fst (db_delete db P s) of Inl _ \<Rightarrow> rows s
        | Inr _ \<Rightarrow> {r \<in> rows s. \<not> P r})) \<and>
     (\<forall>P s row. db_find db P s = Inr (Some row) \<longrightarrow> row \<in> rows s \<and> P row)"

lemma auth_db_okD:
  assumes "auth_db_ok db rows"
  shows "rows (snd (db_create db row s)) = (case fst (db_create db row s) of Inl _ \<Rightarrow> rows s
        | Inr _ \<Rightarrow> insert row {r \<in> rows s. as_TokenHash r \<noteq> as_TokenHash row})"
    and "rows (snd (db_update db P f s)) = (case fst (db_update db P f s) of Inl _ \<Rightarrow> rows s
        | Inr _ \<Rightarrow> (\<lambda>r. if P r then f r else r) ` rows s)"
    and "rows (snd (db_delete db P s)) = (case fst (db_delete db P s) of Inl _ \<Rightarrow> rows s | Inr _ \<Rightarrow> {r \<in> rows s. \<not> P r})"
    and "db_find db P s = Inr (Some r) \<Longrightarrow> r \<in> rows s" and "db_find db P s = Inr (Some r) \<Longrightarrow> P r"
  using assms unfolding auth_db_ok_def by blast+

definition store_ok :: "'s session_env \<Rightarrow> ('s \<Rightarrow> AuthSession set) \<Rightarrow> bool" where
  "store_ok env rows \<longleftrightarrow> (\<forall>db. se_store env = Some (Some db) \<longrightarrow> auth_db_ok db rows)"

section \<open>Facts about every session and every row\<close>

definition facts ::
  "(string \<Rightarrow> Session \<Rightarrow> bool) \<Rightarrow> (AuthSession \<Rightarrow> bool) \<Rightarrow> 's session_env \<Rightarrow> ('s \<Rightarrow> AuthSession set) \<Rightarrow> 's SessionManager \<Rightarrow> bool" where
  "facts A B env rows m \<longleftrightarrow> (\<forall>token session. (token, session) \<in> set (sm_sessions m) \<longrightarrow> A token session) \<and>
     ((\<exists>db. se_store env = Some (Some db)) \<longrightarrow> (\<forall>row \<in> rows (sm_db m). B row))"

lemma facts_mono: "facts A B env rows m \<Longrightarrow> (\<And>t s. A t s \<Longrightarrow> A' t s) \<Longrightarrow> (\<And>r. B r \<Longrightarrow> B' r) \<Longrightarrow> facts A' B' env rows m"
  by (auto simp: facts_def)

lemma set_mput: "entry \<in> set (mput m k v) \<Longrightarrow> entry = (k, v) \<or> entry \<in> set m"
  by (induction m k v rule: mput.induct) (auto split: if_splits)

lemma set_mdel: "entry \<in> set (mdel m k) \<Longrightarrow> entry \<in> set m \<and> fst entry \<noteq> k"
  by (auto simp: mdel_def)

lemma keep_attempt: "holds P c (\<lambda>_. P) \<Longrightarrow> (\<And>x. holds P (f x) (\<lambda>_. P)) \<Longrightarrow> holds P (attempt c f) (\<lambda>_. P)"
  unfolding attempt_def by (rule keep_rules | assumption)+

lemma keep_done: "holds P (done_with x) (\<lambda>_. P)"
  by (simp add: done_with_def keep_return)

lemma keep_panic: "holds P c (\<lambda>_. P) \<Longrightarrow> holds P (or_panic what c) (\<lambda>_. P)"
  unfolding or_panic_def by (rule keep_rules | assumption)+

lemmas session_keep_rules = keep_attempt keep_done keep_panic keep_rules

lemma facts_deletes:
  assumes "store_ok env rows"
  shows "se_store env = Some store \<Longrightarrow> holds (facts A B env rows) (on_db (store_DeleteExpired env store now)) (\<lambda>_. facts A B env rows)"
    and "se_store env = Some store \<Longrightarrow> holds (facts A B env rows) (on_db (store_Delete env store token)) (\<lambda>_. facts A B env rows)"
    and "se_store env = Some store \<Longrightarrow> holds (facts A B env rows) (on_db (store_DeleteByTokenHash store h)) (\<lambda>_. facts A B env rows)"
    and "se_store env = Some store \<Longrightarrow> holds (facts A B env rows) (on_db (store_DeleteByRole store role)) (\<lambda>_. facts A B env rows)"
proof -
  have "holds (facts A B env rows) (on_db (\<lambda>s. case store of None \<Rightarrow> (Inl not_configured, s) | Some db \<Rightarrow> db_delete db P s))
      (\<lambda>_. facts A B env rows)" if "se_store env = Some store" for P
  proof (cases store)
    case (Some db)
    then have "auth_db_ok db rows" using assms that by (simp add: store_ok_def)
    from auth_db_okD(3) [OF this, of P] show ?thesis
      using Some by (auto simp: holds_def  facts_def split: sum.splits)
  qed (simp add: holds_def )
  then show "se_store env = Some store \<Longrightarrow> holds (facts A B env rows) (on_db (store_DeleteExpired env store now)) (\<lambda>_. facts A B env rows)"
    and "se_store env = Some store \<Longrightarrow> holds (facts A B env rows) (on_db (store_Delete env store token)) (\<lambda>_. facts A B env rows)"
    and "se_store env = Some store \<Longrightarrow> holds (facts A B env rows) (on_db (store_DeleteByTokenHash store h)) (\<lambda>_. facts A B env rows)"
    and "se_store env = Some store \<Longrightarrow> holds (facts A B env rows) (on_db (store_DeleteByRole store role)) (\<lambda>_. facts A B env rows)"
    unfolding store_DeleteExpired_def [abs_def] store_Delete_def [abs_def] store_DeleteByTokenHash_def [abs_def] store_DeleteByRole_def [abs_def]
    by blast+
qed

lemma facts_removes:
  "holds (facts A B env rows) (set_sessions (filter P)) (\<lambda>_. facts A B env rows)"
  "holds (facts A B env rows) (set_sessions (\<lambda>sessions. mdel sessions token)) (\<lambda>_. facts A B env rows)"
  by (auto simp: holds_def set_sessions_def facts_def mdel_def)

lemma facts_cleanup:
  "store_ok env rows \<Longrightarrow> holds (facts A B env rows) (cleanupExpiredLocked env now) (\<lambda>_. facts A B env rows)"
  unfolding cleanupExpiredLocked_def
  by (rule facts_deletes facts_removes keep_bind holds_option session_keep_rules | assumption)+

lemma map_sum_result: "map_sum f (\<lambda>x. x) r = Inr y \<longleftrightarrow> r = Inr y" "map_sum f (\<lambda>x. x) r = Inl e \<longleftrightarrow> (\<exists>e'. r = Inl e' \<and> e = f e')"
  by (cases r; auto)+

text \<open>
  A fact about sessions and one about rows that agree where the manager copies the one to the other, and that do not
  depend on what changes in a session.
\<close>

locale session_facts =
  fixes hash :: "string \<Rightarrow> string" and A :: "string \<Rightarrow> Session \<Rightarrow> bool" and B :: "AuthSession \<Rightarrow> bool"
  assumes alias_session: "A token session \<Longrightarrow> A token (session\<lparr>ss_Alias := alias\<rparr>)"
    and activity_session: "A token session \<Longrightarrow> A token (session\<lparr>ss_LastSeenIP := ip, ss_LastSeenAt := t\<rparr>)"
    and alias_row: "B row \<Longrightarrow> B (row\<lparr>as_Alias := alias, as_UpdatedAt := t\<rparr>)"
    and activity_row: "B row \<Longrightarrow> B (row\<lparr>as_LastSeenIP := ip, as_LastSeenAt := seen, as_UpdatedAt := t\<rparr>)"
    and load: "B row \<Longrightarrow> as_TokenHash row = hash token \<Longrightarrow> authSessionFromRow row = Inr session \<Longrightarrow> A token session"
begin

lemma updates_keep:
  assumes "store_ok env rows" and "se_store env = Some store"
  shows "holds (facts A B env rows) (on_db (store_UpdateAdminAliasByTokenHash store h alias t)) (\<lambda>_. facts A B env rows)"
    and "holds (facts A B env rows) (on_db (store_UpdateActivity env store token ip t)) (\<lambda>_. facts A B env rows)"
proof -
  have "holds (facts A B env rows) (on_db (\<lambda>s. case store of None \<Rightarrow> (Inl not_configured, s) | Some db \<Rightarrow> db_update db P f s))
      (\<lambda>_. facts A B env rows)" if f: "\<And>row. B row \<Longrightarrow> B (f row)" for P f
  proof (cases store)
    case (Some db)
    then have "auth_db_ok db rows" using assms by (simp add: store_ok_def)
    from auth_db_okD(2) [OF this, of P f] show ?thesis
      using Some f by (auto simp: holds_def  facts_def split: sum.splits)
  qed (simp add: holds_def )
  note update = this
  show "holds (facts A B env rows) (on_db (store_UpdateAdminAliasByTokenHash store h alias t)) (\<lambda>_. facts A B env rows)"
    unfolding store_UpdateAdminAliasByTokenHash_def [abs_def] by (rule update, rule alias_row)
  show "holds (facts A B env rows) (on_db (store_UpdateActivity env store token ip t)) (\<lambda>_. facts A B env rows)"
    unfolding store_UpdateActivity_def [abs_def] by (rule update, rule activity_row)
qed

lemma cached: "facts A B env rows m \<Longrightarrow> mget (sm_sessions m) token = Some session \<Longrightarrow> A token session"
  by (auto simp: facts_def dest: map_of_SomeD)

lemma loaded:
  assumes "store_ok env rows" "se_hash env = hash" "se_store env = Some store"
    and "facts A B env rows m" "store_Get env store token (sm_db m) = Inr (Some session)"
  shows "A token session"
proof -
  obtain db where db: "store = Some db" using assms(5) by (cases store) (auto simp: store_Get_def)
  then obtain row where row: "db_find db (\<lambda>row. as_TokenHash row = se_hash env token) (sm_db m) = Inr (Some row)"
      "authSessionFromRow row = Inr session"
    using assms(5) by (auto simp: store_Get_def bindE_def split: sum.splits option.splits)
  have ok: "auth_db_ok db rows" using assms(1,3) db by (simp add: store_ok_def)
  have "row \<in> rows (sm_db m)" "as_TokenHash row = hash token"
    using auth_db_okD(4,5) [OF ok row(1)] assms(2) by simp_all
  then show ?thesis using load assms(3,4) db row(2) by (auto simp: facts_def)
qed

lemma put_keeps: "holds (\<lambda>m. facts A B env rows m \<and> A token session) (set_sessions (\<lambda>sessions. mput sessions token session))
    (\<lambda>_. facts A B env rows)"
  by (auto simp: holds_def set_sessions_def facts_def dest!: set_mput)

text \<open>What a look-up returns satisfies the fact, and is not expired.\<close>

definition found :: "string \<Rightarrow> gtime \<Rightarrow> string + Session option \<Rightarrow> bool" where
  "found token now res \<longleftrightarrow> (\<forall>session. res = Inr (Some session) \<longrightarrow> A token session \<and> now < ss_ExpiresAt session)"

lemma load_branch:
  assumes "store_ok env rows" "se_hash env = hash" "se_store env = Some store"
    and "holds (facts A B env rows) (f None) (\<lambda>_. facts A B env rows)"
    and "\<And>session. holds (\<lambda>m. facts A B env rows m \<and> A token session) (f (Some session)) (\<lambda>_. facts A B env rows)"
  shows "holds (facts A B env rows) (attempt (or_panic what (reads (\<lambda>m. store_Get env store token (sm_db m)))) f) (\<lambda>_. facts A B env rows)"
  unfolding attempt_def or_panic_def bind_assoc
proof (rule holds_bind [where R = "\<lambda>res m. facts A B env rows m \<and> res = store_Get env store token (sm_db m)"])
  show "holds (facts A B env rows) (reads (\<lambda>m. store_Get env store token (sm_db m)))
      (\<lambda>res m. facts A B env rows m \<and> res = store_Get env store token (sm_db m))"
    by (simp add: holds_def)
next
  fix res
  show "holds (\<lambda>m. facts A B env rows m \<and> res = store_Get env store token (sm_db m))
     (do { x \<leftarrow> State_Monad.return (map_sum (\<lambda>err. what @ '': '' @ err) (\<lambda>x. x) res);
           case x of Inl panic \<Rightarrow> State_Monad.return (Inl panic) | Inr x \<Rightarrow> f x }) (\<lambda>_. facts A B env rows)"
  proof (cases "\<exists>session. res = Inr (Some session)")
    case True
    then obtain session where res: "res = Inr (Some session)" by blast
    show ?thesis
      using loaded [OF assms(1-3)] by (auto simp: res intro!: holds_pre [OF assms(5)])
  next
    case False
    then show ?thesis
      by (cases res) (auto simp: holds_def intro!: assms(4) [unfolded holds_def, rule_format])
  qed
qed

lemma put_branch:
  "holds (\<lambda>m. facts A B env rows m \<and> A token session)
     (do { _ \<leftarrow> set_sessions (\<lambda>sessions. mput sessions token session); done_with x }) (\<lambda>_. facts A B env rows)"
  by (rule holds_bind [OF put_keeps]) (rule keep_done)

lemma expired_branch:
  assumes "store_ok env rows" "se_store env = Some store"
  shows "holds (facts A B env rows) (attempt (or_panic what (on_db (store_Delete env store token))) (\<lambda>_. done_with x)) (\<lambda>_. facts A B env rows)"
  by (rule session_keep_rules facts_deletes assms)+

lemma loaded_branch:
  assumes "store_ok env rows" "se_store env = Some store"
  shows "holds (\<lambda>m. facts A B env rows m \<and> A token session)
      (if \<not> now < ss_ExpiresAt session then attempt (or_panic what (on_db (store_Delete env store token))) (\<lambda>_. done_with None)
       else do { _ \<leftarrow> set_sessions (\<lambda>sessions. mput sessions token session); done_with (Some session) }) (\<lambda>_. facts A B env rows)"
proof (rule holds_if)
  show "holds (\<lambda>m. facts A B env rows m \<and> A token session)
      (attempt (or_panic what (on_db (store_Delete env store token))) (\<lambda>_. done_with None)) (\<lambda>_. facts A B env rows)"
    by (rule holds_pre [OF expired_branch [OF assms]]) simp
qed (rule put_branch)

lemma get_keeps:
  assumes "store_ok env rows" "se_hash env = hash"
  shows "holds (facts A B env rows) (getPersisted env token now) (\<lambda>_. facts A B env rows)"
proof (cases "se_store env")
  case (Some store)
  have "holds (facts A B env rows) (attempt (or_panic what (reads (\<lambda>m. store_Get env store token (sm_db m))))
      (\<lambda>found. case found of None \<Rightarrow> done_with None
        | Some session \<Rightarrow>
            if \<not> ss_ExpiresAt session > now then attempt (or_panic what' (on_db (store_Delete env store token))) (\<lambda>_. done_with None)
            else do { _ \<leftarrow> set_sessions (\<lambda>sessions. mput sessions token session); done_with (Some session) })) (\<lambda>_. facts A B env rows)"
    for what what'
    by (rule load_branch [OF assms Some]; simp only: option.case)
      (rule keep_done loaded_branch [OF assms(1) Some])+
  then show ?thesis
    unfolding getPersisted_def Some option.case
    by (intro keep_bind keep_option keep_reads keep_if keep_done facts_removes expired_branch [OF assms(1) Some])
qed (simp add: getPersisted_def keep_done)

lemma get_found:
  assumes "store_ok env rows" "se_hash env = hash"
  shows "holds (facts A B env rows) (getPersisted env token now) (\<lambda>res _. found token now res)"
  unfolding holds_def getPersisted_def
  by (auto simp: attempt_def or_panic_def done_with_def found_def set_sessions_def  map_sum_result
      split: option.splits sum.splits dest: cached loaded [OF assms])

lemma seen_session: "A token session \<Longrightarrow> A token (session\<lparr>ss_LastSeenAt := t\<rparr>)"
  using activity_session [where ip = "ss_LastSeenIP session" and session = session and t = t] by simp

lemma touch_keeps: "holds (facts A B env rows) (touch_locked env token ip t0 now) (\<lambda>_. facts A B env rows)"
  unfolding holds_def touch_locked_def
  by (auto simp: set_sessions_def queue_activity_def start_writer_def only_if_def done_with_def facts_def Let_def split: option.splits
      dest!: set_mput map_of_SomeD intro: activity_session seen_session)

lemma alias_keeps:
  "holds (facts A B env rows) (set_sessions (map (\<lambda>(token, session). (token, if hit (token, session) then session\<lparr>ss_Alias := alias\<rparr> else session))))
     (\<lambda>_. facts A B env rows)"
proof -
  have "A t s \<Longrightarrow> A t (if hit (t, s) then s\<lparr>ss_Alias := alias\<rparr> else s)" for t s
    by (simp add: alias_session)
  then show ?thesis by (auto simp: holds_def set_sessions_def facts_def)
qed

lemma other_fields:
  "holds (facts A B env rows) (modify (\<lambda>m. m\<lparr>sm_activityWriterRunning := b m, sm_writers := us m\<rparr>)) (\<lambda>_. facts A B env rows)"
  "holds (facts A B env rows) (modify (\<lambda>m. m\<lparr>sm_writers := us m\<rparr>)) (\<lambda>_. facts A B env rows)"
  "holds (facts A B env rows) (modify (\<lambda>m. m\<lparr>sm_pendingActivity := p m, sm_writers := us m\<rparr>)) (\<lambda>_. facts A B env rows)"
  by (simp_all add: holds_def facts_def)

lemma keep_head:
  "holds P c (\<lambda>_. P) \<Longrightarrow> (\<And>k v. holds P (f k v) (\<lambda>_. P)) \<Longrightarrow> holds P (case xs of [] \<Rightarrow> c | (k, v) # _ \<Rightarrow> f k v) (\<lambda>_. P)"
  by (auto split: list.split)

lemma writer_keeps:
  assumes "store_ok env rows"
  shows "holds (facts A B env rows) (writer_step env i ord) (\<lambda>_. facts A B env rows)"
  unfolding writer_step_def
  by (rule updates_keep [OF assms] keep_bind keep_reads keep_only_if other_fields keep_head holds_option keep_return | assumption)+

lemma event_keeps:
  fixes env :: "'s session_env"
  assumes "store_ok env rows" "se_hash env = hash" and "\<And>generated t0 now kind metadata. e \<noteq> EvCreate generated t0 now kind metadata"
  shows "holds (facts A B env rows) (perform env e) (\<lambda>_. facts A B env rows)"
proof -
  have ends: "holds (facts A B env rows) c (\<lambda>_. facts A B env rows) \<Longrightarrow> holds (facts A B env rows) (ending f c) (\<lambda>_. facts A B env rows)"
    for f and c :: "('s SessionManager, 'z) state"
    unfolding ending_def by (rule keep_rules | assumption)+
  note rules = facts_cleanup [OF assms(1)] facts_deletes [OF assms(1)] facts_removes updates_keep [OF assms(1)] keep_attempt keep_panic keep_done keep_bind
    keep_reads keep_if keep_return alias_keeps holds_option
  show ?thesis
  proof (cases e)
    case (EvList ord t0 now)
    show ?thesis
      unfolding EvList perform.simps session_List_def by (rule ends rules | assumption)+
  next
    case (EvAlias h nick t0 now)
    show ?thesis
      unfolding EvAlias perform.simps session_UpdateAdminAliasByTokenHash_def Let_def by (rule ends rules | assumption)+
  next
    case (EvDeleteByTokenHash h t0)
    show ?thesis
      unfolding EvDeleteByTokenHash perform.simps session_DeleteByTokenHash_def Let_def by (rule ends rules | assumption)+
  next
    case (EvDeleteByRole role t0)
    show ?thesis
      unfolding EvDeleteByRole perform.simps session_DeleteByRole_def Let_def by (rule ends rules | assumption)+
  next
    case (EvDelete token)
    show ?thesis
      unfolding EvDelete perform.simps session_Delete_def by (rule ends rules | assumption)+
  qed (use assms(3) in \<open>simp_all add: ends get_keeps [OF assms(1,2)] touch_keeps writer_keeps [OF assms(1)] facts_cleanup [OF assms(1)]\<close>)
qed

lemma Get_found:
  assumes "store_ok env rows" "se_hash env = hash"
  shows "holds (facts A B env rows) (session_Get env token now) (\<lambda>res _. found token now res)"
proof -
  have "found token now (fst (run_state (getPersisted env token now) s))" if "facts A B env rows s" for s
    using get_found [OF assms] that by (auto simp: holds_def)
  moreover have "fst (run_state (attempt (session_Delete env token) (\<lambda>_. done_with None)) s) \<noteq> Inr (Some session)" for s and session :: Session
    by (auto simp: attempt_def done_with_def split: prod.splits sum.splits)
  ultimately show ?thesis
    unfolding holds_def session_Get_def
    by (auto simp: done_with_def found_def split: option.splits dest: cached)
qed

end

text \<open>A login adds one session and one row, or nothing.\<close>

definition row_of :: "(string \<Rightarrow> string) \<Rightarrow> string \<Rightarrow> Session \<Rightarrow> AuthSession" where
  "row_of hash token session =
     \<lparr>as_TokenHash = hash token, as_Role = ss_Role session, as_Source = NormalizeSessionSource (ss_Source session),
      as_Alias = ss_Alias session, as_CPAAPIKeyID = ss_CPAAPIKeyID session, as_LoginIP = ss_LoginIP session,
      as_LastSeenIP = ss_LastSeenIP session, as_UserAgent = ss_UserAgent session,
      as_LastSeenAt = sessionTimePointer (ss_LastSeenAt session), as_ExpiresAt = ss_ExpiresAt session,
      as_CreatedAt = ss_CreatedAt session, as_UpdatedAt = ss_CreatedAt session\<rparr>"

lemma create_effect:
  assumes ok: "store_ok env rows"
  shows "holds (facts A B env rows) (perform env (EvCreate generated t0 now kind metadata))
    (\<lambda>out m. case out of
       Issued token session \<Rightarrow> facts (\<lambda>t s. A t s \<or> t = token \<and> s = session) (\<lambda>r. B r \<or> r = row_of (se_hash env) token session) env rows m
     | _ \<Rightarrow> facts A B env rows m)"
proof (cases generated)
  case (Inl err)
  then show ?thesis by (simp add: holds_def ending_def create_login_def create_def done_with_def)
next
  case (Inr token)
  have cleanup: "facts A B env rows (snd (run_state (cleanupExpiredLocked env t0) s))" if "facts A B env rows s" for s
    using facts_cleanup [OF ok] that by (auto simp: holds_def)
  have ttl: "sm_ttl (snd (run_state (cleanupExpiredLocked env t0) s)) = sm_ttl s" for s
    by (auto simp: cleanupExpiredLocked_def set_sessions_def attempt_def or_panic_def  done_with_def split: option.splits sum.splits)
  have saved: "facts (\<lambda>t s. A t s \<or> t = token \<and> s = session) (\<lambda>r. B r \<or> r = row_of (se_hash env) token session) env rows
        (m\<lparr>sm_db := snd (store_Save env store token session (sm_db m)), sm_sessions := mput (sm_sessions m) token session\<rparr>)"
      if kept: "facts A B env rows m" "se_store env = Some store" "fst (store_Save env store token session (sm_db m)) = Inr x"
    for m store x session
  proof -
    obtain db where db: "store = Some db" using kept(3) by (cases store) (auto simp: store_Save_def)
    then have "auth_db_ok db rows" using ok that(2) by (simp add: store_ok_def)
    from auth_db_okD(1) [OF this, of "row_of (se_hash env) token session" "sm_db m"] show ?thesis
      using that db by (auto simp: facts_def store_Save_def row_of_def dest!: set_mput)
  qed
  have unsaved: "facts A B env rows (m\<lparr>sm_db := snd (store_Save env store token session (sm_db m))\<rparr>)"
      if "facts A B env rows m" "se_store env = Some store" "fst (store_Save env store token session (sm_db m)) = Inl x"
    for m store x session
  proof (cases store)
    case (Some db)
    then have "auth_db_ok db rows" using ok that(2) by (simp add: store_ok_def)
    from auth_db_okD(1) [OF this, of "row_of (se_hash env) token session" "sm_db m"] show ?thesis
      using that Some by (auto simp: facts_def store_Save_def row_of_def)
  qed (use that in \<open>simp add: store_Save_def facts_def\<close>)
  show ?thesis
    unfolding holds_def
  proof (intro allI impI)
    fix s
    assume "facts A B env rows s"
    obtain res m where run: "run_state (cleanupExpiredLocked env t0) s = (res, m)" by fastforce
    have m: "facts A B env rows m" "sm_ttl m = sm_ttl s"
      using cleanup [OF \<open>facts A B env rows s\<close>] ttl [of s] run by simp_all
    have put: "facts (\<lambda>t s. A t s \<or> t = token \<and> s = session) (\<lambda>r. B r \<or> r = row_of (se_hash env) token session) env rows
        (m\<lparr>sm_sessions := mput (sm_sessions m) token session\<rparr>)" if "se_store env = None" for session
      using m(1) that by (auto simp: facts_def dest!: set_mput)
    show "case fst (run_state (perform env (EvCreate generated t0 now kind metadata)) s) of
       Issued token session \<Rightarrow> facts (\<lambda>t s. A t s \<or> t = token \<and> s = session) (\<lambda>r. B r \<or> r = row_of (se_hash env) token session) env rows
         (snd (run_state (perform env (EvCreate generated t0 now kind metadata)) s))
     | _ \<Rightarrow> facts A B env rows (snd (run_state (perform env (EvCreate generated t0 now kind metadata)) s))"
      using m put
      by (auto simp: Inr run ending_def create_login_def create_def attempt_def done_with_def set_sessions_def  Let_def
          split: option.splits sum.splits intro!: saved unsaved)
  qed
qed

end
