(* ===== verification/SessionProps.thy ===== *)
theory SessionProps
  imports SessionSafety
begin

text \<open>
  The guarantees of the session manager over any history: a session is what a login issued, a revoked one never comes
  back, and activity that waits to be written always has a writer.
\<close>

section \<open>A small database\<close>

text \<open>For the witnesses: a table kept as a list, on which every statement succeeds, and two logins.\<close>

definition sample_auth_db :: "AuthSession list auth_db" where
  "sample_auth_db =
     \<lparr>db_create = (\<lambda>row rows. (Inr (), row # filter (\<lambda>r. as_TokenHash r \<noteq> as_TokenHash row) rows)),
      db_update = (\<lambda>P f rows. (Inr (length (filter P rows)), map (\<lambda>r. if P r then f r else r) rows)),
      db_delete = (\<lambda>P rows. (Inr (length (filter P rows)), filter (\<lambda>r. \<not> P r) rows)),
      db_find = (\<lambda>P rows. Inr (List.find P rows)),
      db_select = (\<lambda>P rows. Inr (filter P rows))\<rparr>"

definition sample_sessions :: "AuthSession list session_env" where
  "sample_sessions = \<lparr>se_store = Some (Some sample_auth_db), se_hash = (\<lambda>token. ''hash of '' @ token), se_zone = fixed_zone 0\<rparr>"

definition sample_metadata :: SessionClientMetadata where
  "sample_metadata = \<lparr>cl_IP = ''10.0.0.1'', cl_UserAgent = ''browser''\<rparr>"

definition viewer_login :: session_event where
  "viewer_login = EvCreate (Inr ''first'') 0 0 (APIKeyViewerLogin 7 SessionSourceEmbed) sample_metadata"

definition viewer_session :: Session where
  "viewer_session = new_session 0 Hour sample_metadata (login_session (APIKeyViewerLogin 7 SessionSourceEmbed))"

definition admin_login :: session_event where
  "admin_login = EvCreate (Inr ''second'') 5 5 (AdminLogin SessionSourceStandard) sample_metadata"

definition admin_session :: Session where
  "admin_session = new_session 5 Hour sample_metadata (login_session (AdminLogin SessionSourceStandard))"

abbreviation sample_start :: "AuthSession list SessionManager" where
  "sample_start \<equiv> NewPersistentSessionManager Hour []"

lemma sample_store_ok: "store_ok sample_sessions set"
  by (auto simp: store_ok_def sample_sessions_def auth_db_ok_def sample_auth_db_def find_Some_iff)

lemma sample_store [simp]:
  "se_store sample_sessions = Some (Some sample_auth_db)"
  "db_create sample_auth_db row rows = (Inr (), row # filter (\<lambda>r. as_TokenHash r \<noteq> as_TokenHash row) rows)"
  "db_delete sample_auth_db P rows = (Inr (length (filter P rows)), filter (\<lambda>r. \<not> P r) rows)"
  by (simp_all add: sample_sessions_def sample_auth_db_def)

lemmas sample_run = create_login_def create_def cleanupExpiredLocked_def attempt_def ending_def done_with_def or_panic_def
  set_sessions_def store_DeleteExpired_def store_Save_def NewPersistentSessionManager_def Let_def

lemmas sample_fields = viewer_session_def admin_session_def new_session_def t_add_def Let_def

lemma viewer_state:
  "run_state (performs sample_sessions [viewer_login]) sample_start =
     ([Issued ''first'' viewer_session],
      sample_start\<lparr>sm_sessions := [(''first'', viewer_session)], sm_db := [row_of (se_hash sample_sessions) ''first'' viewer_session]\<rparr>)"
  by (simp add: viewer_login_def viewer_session_def [symmetric] sample_run row_of_def del: login_session.simps)

lemma memory_state:
  "run_state (performs (sample_sessions\<lparr>se_store := None\<rparr>) [viewer_login, admin_login]) sample_start =
     ([Issued ''first'' viewer_session, Issued ''second'' admin_session],
      sample_start\<lparr>sm_sessions := [(''first'', viewer_session), (''second'', admin_session)]\<rparr>)"
proof -
  have "5 < ss_ExpiresAt viewer_session" by (simp add: sample_fields)
  then show ?thesis
    by (simp add: viewer_login_def viewer_session_def [symmetric] admin_login_def admin_session_def [symmetric] sample_run
        del: login_session.simps)
qed

section \<open>A session is what a login issued\<close>

text \<open>What a session entitles to, in memory and in a row.\<close>

definition grant :: "Session \<Rightarrow> string \<times> string \<times> int \<times> string \<times> string \<times> gtime \<times> gtime" where
  "grant s = (ss_Role s, ss_Source s, ss_CPAAPIKeyID s, ss_LoginIP s, ss_UserAgent s, ss_ExpiresAt s, ss_CreatedAt s)"

definition row_grant :: "AuthSession \<Rightarrow> string \<times> string \<times> int \<times> string \<times> string \<times> gtime \<times> gtime" where
  "row_grant r = (as_Role r, NormalizeSessionSource (as_Source r), as_CPAAPIKeyID r, as_LoginIP r, as_UserAgent r,
     as_ExpiresAt r, as_CreatedAt r)"

text \<open>The API key belongs to viewers only, and the source is one of the two.\<close>

definition proper :: "Session \<Rightarrow> bool" where
  "proper s \<longleftrightarrow> NormalizeSessionSource (ss_Source s) = ss_Source s \<and> (ss_Role s = RoleAdmin \<longrightarrow> ss_CPAAPIKeyID s = 0)"

definition issued_session :: "(string \<Rightarrow> string) \<Rightarrow> (string \<times> Session) set \<Rightarrow> string \<Rightarrow> Session \<Rightarrow> bool" where
  "issued_session hash I token s \<longleftrightarrow> (\<exists>(t', s') \<in> I. hash t' = hash token \<and> grant s = grant s')"

definition issued_row :: "(string \<Rightarrow> string) \<Rightarrow> (string \<times> Session) set \<Rightarrow> AuthSession \<Rightarrow> bool" where
  "issued_row hash I r \<longleftrightarrow> (\<exists>(t', s') \<in> I. hash t' = as_TokenHash r \<and> row_grant r = grant s' \<and> proper s')"

interpretation issued: session_facts hash "issued_session hash I" "issued_row hash I" for hash I
proof
  fix row token session
  assume "issued_row hash I row" "as_TokenHash row = hash token" "authSessionFromRow row = Inr session"
  then show "issued_session hash I token session"
    by (fastforce simp: issued_row_def issued_session_def authSessionFromRow_def grant_def row_grant_def proper_def Let_def split: if_splits)
qed (simp_all add: issued_session_def issued_row_def grant_def row_grant_def)

definition issued_in :: "session_outcome list \<Rightarrow> (string \<times> Session) set" where
  "issued_in outs = {(t, s). Issued t s \<in> set outs}"

lemma normalize_source [simp]: "NormalizeSessionSource (NormalizeSessionSource source) = NormalizeSessionSource source"
  by (simp add: NormalizeSessionSource_def)

lemma new_session_proper: "proper (new_session now ttl metadata (login_session kind))"
  by (cases kind) (simp_all add: proper_def new_session_def Let_def)

lemma outcome_iff [simp]: "outcome res \<noteq> Issued t s" "outcome res = Done \<longleftrightarrow> (\<exists>x. res = Inr x)"
  by (cases res; simp)+

lemma create_outcome_iff: "create_outcome s0 res = Issued t s \<longleftrightarrow> s = s0 \<and> (\<exists>expiresAt. res = Inr (Inr (t, expiresAt)))"
  by (cases "(s0, res)" rule: create_outcome.cases) auto

lemma create_issues:
  "holds (\<lambda>_. True) (perform env (EvCreate generated t0 now kind metadata))
     (\<lambda>out _. \<forall>t s. out = Issued t s \<longrightarrow> generated = Inr t \<and> (\<exists>ttl. s = new_session now ttl metadata (login_session kind)))"
  by (auto simp: holds_def ending_def create_outcome_iff create_login_def create_def done_with_def attempt_def Let_def
      split: prod.splits sum.splits option.splits)

lemma other_outcome:
  assumes "\<And>generated t0 now kind metadata. e \<noteq> EvCreate generated t0 now kind metadata"
  shows "fst (run_state (perform env e) m) \<noteq> Issued t s"
proof (cases e)
  case (EvCreate generated t0 now kind metadata)
  then show ?thesis using assms by blast
qed (auto simp: ending_def split: prod.splits)

lemma issued_weaken:
  assumes "I \<subseteq> I'"
  shows "issued_session hash I t s \<Longrightarrow> issued_session hash I' t s" and "issued_row hash I r \<Longrightarrow> issued_row hash I' r"
  using assms unfolding issued_session_def issued_row_def by blast+

lemma issued_new:
  assumes "proper s" and "(t, s) \<in> I"
  shows "issued_session hash I t s" and "issued_row hash I (row_of hash t s)"
proof -
  show "issued_session hash I t s" using assms(2) by (auto simp: issued_session_def)
  have "row_grant (row_of hash t s) = grant s" "as_TokenHash (row_of hash t s) = hash t"
    using assms(1) by (simp_all add: row_grant_def row_of_def grant_def proper_def)
  then show "issued_row hash I (row_of hash t s)"
    unfolding issued_row_def using assms by (intro bexI [of _ "(t, s)"]) simp_all
qed

lemma issued_step:
  assumes "store_ok env rows"
  shows "holds (facts (issued_session (se_hash env) I) (issued_row (se_hash env) I) env rows) (perform env e)
    (\<lambda>out. facts (issued_session (se_hash env) (I \<union> issued_in [out])) (issued_row (se_hash env) (I \<union> issued_in [out])) env rows)"
proof (cases "\<exists>generated t0 now kind metadata. e = EvCreate generated t0 now kind metadata")
  case True
  then obtain generated t0 now kind metadata where e: "e = EvCreate generated t0 now kind metadata" by blast
  show ?thesis
    unfolding e
  proof (rule holds_post [OF holds_pre [OF holds_conj [OF create_effect [OF assms] create_issues]]])
    fix out m
    assume m: "(case out of
         Issued token session \<Rightarrow> facts (\<lambda>t s. issued_session (se_hash env) I t s \<or> t = token \<and> s = session)
           (\<lambda>r. issued_row (se_hash env) I r \<or> r = row_of (se_hash env) token session) env rows m
       | _ \<Rightarrow> facts (issued_session (se_hash env) I) (issued_row (se_hash env) I) env rows m) \<and>
       (\<forall>t s. out = Issued t s \<longrightarrow> generated = Inr t \<and> (\<exists>ttl. s = new_session now ttl metadata (login_session kind)))"
    show "facts (issued_session (se_hash env) (I \<union> issued_in [out])) (issued_row (se_hash env) (I \<union> issued_in [out])) env rows m"
    proof (cases out)
      case (Issued token session)
      then have "proper session" using m new_session_proper by auto
      moreover have "(token, session) \<in> I \<union> issued_in [out]" using Issued by (simp add: issued_in_def)
      ultimately show ?thesis
        using m Issued issued_weaken [OF Un_upper1] issued_new [of session token "I \<union> issued_in [out]" "se_hash env"]
        by (auto elim!: facts_mono)
    qed (use m in \<open>simp_all add: issued_in_def\<close>)
  qed simp
next
  case False
  have "issued_in [fst (run_state (perform env e) s)] = {}" for s
    using other_outcome [of e env s] False by (auto simp: issued_in_def) metis
  then show ?thesis
    using issued.event_keeps [OF assms refl, of e I] False by (auto simp: holds_def)
qed

lemma issued_steps:
  assumes "store_ok env rows"
  shows "holds (facts (issued_session (se_hash env) I) (issued_row (se_hash env) I) env rows) (performs env es)
    (\<lambda>outs. facts (issued_session (se_hash env) (I \<union> issued_in outs)) (issued_row (se_hash env) (I \<union> issued_in outs)) env rows)"
proof (induction es arbitrary: I)
  case Nil
  show ?case by (simp add: holds_def issued_in_def)
next
  case (Cons e es)
  show ?case
    unfolding performs.simps
  proof (rule holds_bind [OF issued_step [OF assms]], rule holds_bind [OF Cons.IH])
    fix out outs
    have "I \<union> issued_in [out] \<union> issued_in outs = I \<union> issued_in (out # outs)" by (auto simp: issued_in_def)
    then show "holds (facts (issued_session (se_hash env) (I \<union> issued_in [out] \<union> issued_in outs))
         (issued_row (se_hash env) (I \<union> issued_in [out] \<union> issued_in outs)) env rows) (State_Monad.return (out # outs))
       (\<lambda>outs. facts (issued_session (se_hash env) (I \<union> issued_in outs)) (issued_row (se_hash env) (I \<union> issued_in outs)) env rows)"
      by (simp add: holds_def)
  qed
qed

text \<open>
  C7: Nobody gets more than a login gave.  Whatever calls have been made, whatever failed in between: a token the
  manager accepts belongs to a login that succeeded, and the session has the role, the API key, the source and the
  expiry of that login, which has not passed.
\<close>

theorem session_is_issued:
  assumes "store_ok env rows" and "rows s0 = {}"
    and "run_state (performs env es) (NewPersistentSessionManager ttl s0) = (outs, m)"
    and "fst (run_state (session_Get env token now) m) = Inr (Some session)"
  shows "now < ss_ExpiresAt session \<and>
    (\<exists>t' s'. Issued t' s' \<in> set outs \<and> se_hash env t' = se_hash env token \<and> grant session = grant s')"
proof -
  have "facts (issued_session (se_hash env) {}) (issued_row (se_hash env) {}) env rows (NewPersistentSessionManager ttl s0)"
    using assms(2) by (simp add: facts_def NewPersistentSessionManager_def)
  from holdsD [OF issued_steps [OF assms(1)] this assms(3)]
  have "facts (issued_session (se_hash env) (issued_in outs)) (issued_row (se_hash env) (issued_in outs)) env rows m" by simp
  with issued.Get_found [OF assms(1) refl, of "issued_in outs" token now]
  have "issued.found (se_hash env) (issued_in outs) token now (fst (run_state (session_Get env token now) m))"
    by (auto simp: holds_def)
  then show ?thesis
    using assms(4) by (auto simp: issued.found_def issued_session_def issued_in_def)
qed

lemma session_is_issued_witness:
  "\<exists>m. run_state (performs sample_sessions [viewer_login]) sample_start = ([Issued ''first'' viewer_session], m) \<and>
     fst (run_state (session_Get sample_sessions ''first'' Minute) m) = Inr (Some viewer_session) \<and>
     Minute < ss_ExpiresAt viewer_session \<and>
     (\<exists>t' s'. Issued t' s' \<in> set [Issued ''first'' viewer_session] \<and>
        se_hash sample_sessions t' = se_hash sample_sessions ''first'' \<and> grant viewer_session = grant s')"
proof -
  let ?m = "sample_start\<lparr>sm_sessions := [(''first'', viewer_session)], sm_db := [row_of (se_hash sample_sessions) ''first'' viewer_session]\<rparr>"
  have got: "fst (run_state (session_Get sample_sessions ''first'' Minute) ?m) = Inr (Some viewer_session)"
    by (simp add: session_Get_def done_with_def sample_fields)
  from session_is_issued [OF sample_store_ok _ viewer_state got] show ?thesis
    using viewer_state got by simp
qed

section \<open>A revoked session never comes back\<close>

text \<open>The sessions and the rows that a logout or a revocation is about.\<close>

fun revoked_session :: "(string \<Rightarrow> string) \<Rightarrow> session_event \<Rightarrow> string \<Rightarrow> string \<Rightarrow> bool" where
  "revoked_session hash (EvDelete t) token role = (token = t)"
| "revoked_session hash (EvDeleteByTokenHash h t0) token role = (hash token = go_trim_space h)"
| "revoked_session hash (EvDeleteByRole r t0) token role = (role = r)"
| "revoked_session hash e token role = False"

fun revoked_row :: "(string \<Rightarrow> string) \<Rightarrow> session_event \<Rightarrow> string \<Rightarrow> string \<Rightarrow> bool" where
  "revoked_row hash (EvDelete t) tokenHash role = (tokenHash = hash t)"
| "revoked_row hash (EvDeleteByTokenHash h t0) tokenHash role = (tokenHash = go_trim_space h)"
| "revoked_row hash (EvDeleteByRole r t0) tokenHash role = (role = r)"
| "revoked_row hash e tokenHash role = False"

text \<open>A call with an empty token or hash does nothing.\<close>

fun effective :: "session_event \<Rightarrow> bool" where
  "effective (EvDelete t) = (t \<noteq> [])"
| "effective (EvDeleteByTokenHash h t0) = (go_trim_space h \<noteq> [])"
| "effective (EvDeleteByRole r t0) = True"
| "effective e = False"

text \<open>A login that is itself what the revocation is about.\<close>

fun revives :: "(string \<Rightarrow> string) \<Rightarrow> session_event \<Rightarrow> session_event \<Rightarrow> bool" where
  "revives hash e (EvCreate (Inr token) t0 now kind metadata) =
     (revoked_session hash e token (ss_Role (login_session kind)) \<or> revoked_row hash e (hash token) (ss_Role (login_session kind)))"
| "revives hash e e' = False"

abbreviation gone :: "session_event \<Rightarrow> 's session_env \<Rightarrow> ('s \<Rightarrow> AuthSession set) \<Rightarrow> 's SessionManager \<Rightarrow> bool" where
  "gone e env \<equiv> facts (\<lambda>token s. \<not> revoked_session (se_hash env) e token (ss_Role s))
     (\<lambda>r. \<not> revoked_row (se_hash env) e (as_TokenHash r) (as_Role r)) env"

interpretation revoked: session_facts hash "\<lambda>token s. \<not> revoked_session hash e token (ss_Role s)"
    "\<lambda>r. \<not> revoked_row hash e (as_TokenHash r) (as_Role r)" for hash e
proof
  fix row token session
  assume "\<not> revoked_row hash e (as_TokenHash row) (as_Role row)" "as_TokenHash row = hash token" "authSessionFromRow row = Inr session"
  then show "\<not> revoked_session hash e token (ss_Role session)"
    by (cases e) (auto simp: authSessionFromRow_def Let_def split: if_splits)
qed simp_all

lemma deletes_rows:
  assumes "store_ok env rows" "se_store env = Some (Some db)" and "fst (db_delete db P s) = Inr n"
  shows "rows (snd (db_delete db P s)) = {r \<in> rows s. \<not> P r}"
  using auth_db_okD(3) [of db rows P s] assms by (simp add: store_ok_def)

lemma revoke_effect:
  assumes "store_ok env rows" and "effective e"
  shows "holds (\<lambda>_. True) (perform env e) (\<lambda>out m. out = Done \<longrightarrow> gone e env rows m)"
proof -
  note simps = holds_def ending_def attempt_def or_panic_def done_with_def set_sessions_def  facts_def Let_def
    map_sum_result
  consider (logout) token where "e = EvDelete token" "token \<noteq> []"
    | (by_hash) h t0 where "e = EvDeleteByTokenHash h t0" "go_trim_space h \<noteq> []" | (by_role) role t0 where "e = EvDeleteByRole role t0"
    using assms(2) by (cases e) auto
  then show ?thesis
  proof cases
    case logout
    then show ?thesis
      by (auto simp: simps session_Delete_def store_Delete_def mdel_def deletes_rows [OF assms(1)] split: option.splits sum.splits)
  next
    case by_hash
    then show ?thesis
      by (auto simp: simps session_DeleteByTokenHash_def store_DeleteByTokenHash_def deletes_rows [OF assms(1)]
          split: option.splits sum.splits prod.splits)
  next
    case by_role
    then show ?thesis
      by (auto simp: simps session_DeleteByRole_def store_DeleteByRole_def deletes_rows [OF assms(1)]
          split: option.splits sum.splits prod.splits)
  qed
qed

lemma gone_step:
  assumes "store_ok env rows" and "\<not> revives (se_hash env) e e'"
  shows "holds (gone e env rows) (perform env e') (\<lambda>_. gone e env rows)"
proof (cases "\<exists>generated t0 now kind metadata. e' = EvCreate generated t0 now kind metadata")
  case True
  then obtain generated t0 now kind metadata where e': "e' = EvCreate generated t0 now kind metadata" by blast
  have role: "ss_Role (new_session now ttl metadata (login_session kind)) = ss_Role (login_session kind)" for ttl
    by (simp add: new_session_def Let_def)
  show ?thesis
    unfolding e'
  proof (rule holds_post [OF holds_pre [OF holds_conj [OF create_effect [OF assms(1)] create_issues]]])
    fix out m
    assume m: "(case out of
         Issued token session \<Rightarrow> facts (\<lambda>t s. \<not> revoked_session (se_hash env) e t (ss_Role s) \<or> t = token \<and> s = session)
           (\<lambda>r. \<not> revoked_row (se_hash env) e (as_TokenHash r) (as_Role r) \<or> r = row_of (se_hash env) token session) env rows m
       | _ \<Rightarrow> gone e env rows m) \<and>
       (\<forall>t s. out = Issued t s \<longrightarrow> generated = Inr t \<and> (\<exists>ttl. s = new_session now ttl metadata (login_session kind)))"
    show "gone e env rows m"
    proof (cases out)
      case (Issued token session)
      then have "generated = Inr token" "ss_Role session = ss_Role (login_session kind)" using m role by auto
      then have "\<not> revoked_session (se_hash env) e token (ss_Role session)" "\<not> revoked_row (se_hash env) e (se_hash env token) (ss_Role session)"
        using assms(2) e' by simp_all
      then show ?thesis using m Issued by (auto simp: row_of_def elim!: facts_mono)
    qed (use m in simp_all)
  qed simp
next
  case False
  then show ?thesis using revoked.event_keeps [OF assms(1) refl] by blast
qed

lemma gone_steps:
  assumes "store_ok env rows"
  shows "\<forall>e' \<in> set es. \<not> revives (se_hash env) e e' \<Longrightarrow> holds (gone e env rows) (performs env es) (\<lambda>_. gone e env rows)"
proof (induction es)
  case Nil
  show ?case by (simp add: keep_return)
next
  case (Cons e' es)
  then show ?case
    unfolding performs.simps by (intro keep_bind gone_step [OF assms] Cons.IH keep_return) simp_all
qed

text \<open>
  C6: A revocation is final.  Once a logout, the revocation of a session or that of a role has returned, no later
  call accepts a session it was about, in memory or from the database, through any history without a new login.
\<close>

theorem revocation_is_final:
  assumes "store_ok env rows" and "effective e" and "run_state (perform env e) m0 = (Done, m1)"
    and "\<forall>e' \<in> set es. \<not> revives (se_hash env) e e'" and "run_state (performs env es) m1 = (outs, m2)"
    and "fst (run_state (session_Get env token now) m2) = Inr (Some session)"
  shows "\<not> revoked_session (se_hash env) e token (ss_Role session)"
proof -
  have "gone e env rows m1" using holdsD [OF revoke_effect [OF assms(1,2)] _ assms(3)] by simp
  then have "gone e env rows m2" using holdsD [OF gone_steps [OF assms(1,4)] _ assms(5)] by simp
  then have "revoked.found (se_hash env) e token now (fst (run_state (session_Get env token now) m2))"
    using revoked.Get_found [OF assms(1) refl, of e token now] by (simp add: holds_def)
  then show ?thesis using assms(6) by (simp add: revoked.found_def)
qed

lemma revocation_is_final_witness:
  "\<exists>m1. run_state (perform (sample_sessions\<lparr>se_store := None\<rparr>) (EvDeleteByRole RoleAdmin 10))
       (snd (run_state (performs (sample_sessions\<lparr>se_store := None\<rparr>) [viewer_login, admin_login]) sample_start)) = (Done, m1) \<and>
     fst (run_state (session_Get (sample_sessions\<lparr>se_store := None\<rparr>) ''second'' 20) m1) = Inr None \<and>
     fst (run_state (session_Get (sample_sessions\<lparr>se_store := None\<rparr>) ''first'' 20) m1) = Inr (Some viewer_session) \<and>
     \<not> revoked_session (se_hash sample_sessions) (EvDeleteByRole RoleAdmin 10) ''first'' (ss_Role viewer_session)"
proof -
  let ?env = "sample_sessions\<lparr>se_store := None\<rparr>"
  let ?m1 = "sample_start\<lparr>sm_sessions := [(''first'', viewer_session)]\<rparr>"
  have ok: "store_ok ?env set" by (simp add: store_ok_def)
  have run: "run_state (perform ?env (EvDeleteByRole RoleAdmin 10)) (snd (run_state (performs ?env [viewer_login, admin_login]) sample_start)) = (Done, ?m1)"
    unfolding memory_state by (simp add: session_DeleteByRole_def sample_run sample_fields)
  have got: "fst (run_state (session_Get ?env ''first'' 20) ?m1) = Inr (Some viewer_session)"
    and none: "fst (run_state (session_Get ?env ''second'' 20) ?m1) = Inr None"
    by (simp_all add: session_Get_def getPersisted_def done_with_def sample_fields)
  have "\<not> revoked_session (se_hash ?env) (EvDeleteByRole RoleAdmin 10) ''first'' (ss_Role viewer_session)"
    by (rule revocation_is_final [OF ok _ run, of "[]" "[]" ?m1, OF _ _ _ got]) simp_all
  then show ?thesis using run none got by simp
qed

section \<open>Activity that waits has a writer\<close>

text \<open>The flag is true of the goroutines: one runs if it is set, and none otherwise.\<close>

definition has_writer :: "'s SessionManager \<Rightarrow> bool" where
  "has_writer m \<longleftrightarrow> wf_map (sm_pendingActivity m) \<and> length (sm_writers m) = (if sm_activityWriterRunning m then 1 else 0) \<and>
     (sm_pendingActivity m \<noteq> [] \<longrightarrow> sm_activityWriterRunning m)"

fun fair_event :: "session_event \<Rightarrow> bool" where
  "fair_event (EvWriter i ord) = iteration_order ord"
| "fair_event e = True"

lemma has_writer_keeps:
  "holds has_writer (on_db call) (\<lambda>_. has_writer)" "holds has_writer (set_sessions f) (\<lambda>_. has_writer)"
  by (simp_all add: holds_def set_sessions_def has_writer_def)

lemmas has_writer_rules = has_writer_keeps session_keep_rules

lemma has_writer_cleanup: "holds has_writer (cleanupExpiredLocked env now) (\<lambda>_. has_writer)"
  unfolding cleanupExpiredLocked_def by (rule has_writer_rules)+

lemma has_writer_queue:
  "holds has_writer (do { startWriter \<leftarrow> queue_activity env update; _ \<leftarrow> only_if startWriter start_writer; done_with b }) (\<lambda>_. has_writer)"
proof -
  have "wf_map [(k, v)]" for k :: string and v :: sessionActivityUpdate by (simp add: wf_map_def mkeys_def)
  then show ?thesis
    by (auto simp: holds_def has_writer_def queue_activity_def start_writer_def only_if_def done_with_def wf_map_mput)
qed

lemma has_writer_touch: "holds has_writer (touch_locked env token ip t0 now) (\<lambda>_. has_writer)"
  unfolding touch_locked_def Let_def by (intro has_writer_queue has_writer_rules)

text \<open>What the writer has left to do: a step to take and one to write each update, and one to stop.\<close>

definition writer_work :: "'s SessionManager \<Rightarrow> nat" where
  "writer_work m = (case sm_writers m of [] \<Rightarrow> 0
     | u # us \<Rightarrow> 2 * length (sm_pendingActivity m) + (if u = None then 0 else 1) + 1)"

lemma the_writer:
  assumes "has_writer m"
  obtains (none) "sm_writers m = []" "\<not> sm_activityWriterRunning m" "sm_pendingActivity m = []"
    | (one) u where "sm_writers m = [u]" "sm_activityWriterRunning m"
  using assms by (cases "sm_writers m") (auto simp: has_writer_def split: if_splits)

lemma writer_progress:
  assumes m: "has_writer m" and "iteration_order ord"
  shows "has_writer (snd (run_state (writer_step env i ord) m)) \<and>
    (i = 0 \<longrightarrow> writer_work (snd (run_state (writer_step env i ord) m)) = writer_work m - 1)"
proof (cases rule: the_writer [OF m, case_names none one])
  case none
  then show ?thesis using m by (simp add: writer_step_def only_if_def writer_work_def)
next
  case (one u)
  show ?thesis
  proof (cases "i = 0")
    case False
    then show ?thesis using m one by (simp add: writer_step_def only_if_def)
  next
    case first: True
    show ?thesis
    proof (cases u)
      case None
      show ?thesis
      proof (cases "ord (sm_pendingActivity m)")
        case Nil
        then have "sm_pendingActivity m = []"
          using iteration_order_length [OF assms(2), of "sm_pendingActivity m"] by simp
        then show ?thesis
          using m one None Nil first by (simp add: writer_step_def only_if_def has_writer_def writer_work_def)
      next
        case (Cons entry rest)
        obtain token v where entry: "entry = (token, v)" by (cases entry)
        have "token \<in> set (mkeys (sm_pendingActivity m))"
          using iteration_order_set [OF assms(2), of "sm_pendingActivity m"] Cons entry by (force simp: mkeys_def)
        then have len: "length (mdel (sm_pendingActivity m) token) = length (sm_pendingActivity m) - 1" "sm_pendingActivity m \<noteq> []"
          using m by (simp_all add: has_writer_def length_mdel) (auto simp: mkeys_def)
        obtain n where n: "length (sm_pendingActivity m) = Suc n" using len(2) by (cases "sm_pendingActivity m") auto
        have "wf_map (mdel (sm_pendingActivity m) token)" using m by (simp add: has_writer_def wf_map_mdel)
        then show ?thesis
          using one None Cons entry len n first
          by (simp add: writer_step_def only_if_def has_writer_def writer_work_def)
      qed
    next
      case (Some v)
      then show ?thesis
        using m one first
        by (cases "se_store env") (simp_all add: writer_step_def only_if_def has_writer_def writer_work_def)
    qed
  qed
qed

lemma has_writer_step:
  assumes "fair_event e"
  shows "holds has_writer (perform env e) (\<lambda>_. has_writer)"
proof -
  have ends: "holds has_writer c (\<lambda>_. has_writer) \<Longrightarrow> holds has_writer (ending f c) (\<lambda>_. has_writer)"
    for f and c :: "('a SessionManager, 'z) state"
    unfolding ending_def by (rule keep_rules | assumption)+
  note rules = ends has_writer_cleanup has_writer_touch has_writer_rules
  show ?thesis
  proof (cases e)
    case (EvWriter i ord)
    then have "holds has_writer (writer_step env i ord) (\<lambda>_. has_writer)"
      using writer_progress assms by (auto simp: holds_def)
    then show ?thesis unfolding EvWriter perform.simps by (rule ends)
  qed (simp only: perform.simps create_login_def create_def getPersisted_def session_List_def session_UpdateAdminAliasByTokenHash_def
      session_DeleteByTokenHash_def session_DeleteByRole_def session_Delete_def Let_def, (rule rules)+)+
qed

lemma has_writer_steps: "list_all fair_event es \<Longrightarrow> holds has_writer (performs env es) (\<lambda>_. has_writer)"
proof (induction es)
  case (Cons e es)
  then show ?case unfolding performs.simps by (intro keep_bind has_writer_step Cons.IH keep_return) simp_all
qed (simp add: keep_return)

lemma writer_drains:
  assumes "has_writer m" and "iteration_order ord"
  shows "writer_work (snd (run_state (performs env (replicate n (EvWriter 0 ord))) m)) = writer_work m - n \<and>
    has_writer (snd (run_state (performs env (replicate n (EvWriter 0 ord))) m))"
  using assms(1)
proof (induction n arbitrary: m)
  case (Suc n)
  obtain m' where step: "run_state (writer_step env 0 ord) m = ((), m')" by (metis old.unit.exhaust surj_pair)
  then have "has_writer m'" "writer_work m' = writer_work m - 1" using writer_progress [OF Suc.prems assms(2), of env 0] by simp_all
  with Suc.IH [of m'] step show ?case by (simp add: ending_def split_beta)
qed simp

text \<open>
  C26: No activity is left behind.  At any moment of any history at most one goroutine writes activity, and updates that
  wait have one, which has been started and has not ended; the flag says whether there is one.  And when it is left alone
  it takes them all and ends, after two steps for each and at most two more.
\<close>

theorem activity_writer_drains:
  assumes "list_all fair_event es" and "run_state (performs env es) (NewPersistentSessionManager ttl s0) = (outs, m)"
    and "iteration_order ord" and "run_state (performs env (replicate (2 * length (sm_pendingActivity m) + 2) (EvWriter 0 ord))) m = (outs', m')"
  shows "length (sm_writers m) \<le> 1 \<and> (sm_pendingActivity m \<noteq> [] \<longrightarrow> sm_writers m \<noteq> []) \<and>
    (sm_activityWriterRunning m \<longleftrightarrow> sm_writers m \<noteq> []) \<and>
    sm_pendingActivity m' = [] \<and> sm_writers m' = [] \<and> \<not> sm_activityWriterRunning m'"
proof -
  have "has_writer (NewPersistentSessionManager ttl s0)" by (simp add: has_writer_def NewPersistentSessionManager_def)
  then have m: "has_writer m" by (rule holdsD [OF has_writer_steps [OF assms(1)] _ assms(2)])
  have "writer_work m' = 0" and m': "has_writer m'"
    using writer_drains [OF m assms(3), of env "2 * length (sm_pendingActivity m) + 2"] assms(4)
    by (auto simp: writer_work_def split: list.splits)
  then have "sm_writers m' = []" by (auto simp: writer_work_def split: list.splits)
  then show ?thesis using m m' by (auto simp: has_writer_def split: if_splits)
qed

lemma activity_writer_drains_witness:
  "let m = snd (run_state (performs sample_sessions ([viewer_login] @ [EvTouch ''first'' ''10.0.0.9'' 10 10])) sample_start);
       m' = snd (run_state (performs sample_sessions (replicate (2 * length (sm_pendingActivity m) + 2) (EvWriter 0 rev))) m)
   in length (sm_pendingActivity m) = 1 \<and> length (sm_writers m) = 1 \<and> sm_pendingActivity m' = [] \<and> sm_writers m' = []"
proof -
  let ?es = "[viewer_login] @ [EvTouch ''first'' ''10.0.0.9'' 10 10]"
  let ?m = "snd (run_state (performs sample_sessions ?es) sample_start)"
  have ip: "normalizeSessionIP ''10.0.0.9'' = ''10.0.0.9''" "normalizeSessionIP ''10.0.0.1'' = ''10.0.0.1''"
    by (simp_all add: normalizeSessionIP_def go_trim_space_visible visible_def)
  have "?m = snd (run_state (performs sample_sessions [EvTouch ''first'' ''10.0.0.9'' 10 10])
      (snd (run_state (performs sample_sessions [viewer_login]) sample_start)))"
    by (simp add: split_beta)
  then have one: "length (sm_pendingActivity ?m) = 1" "length (sm_writers ?m) = 1"
    unfolding viewer_state snd_conv
    by (simp_all add: touch_locked_def queue_activity_def start_writer_def sample_run sample_fields sample_metadata_def
        normalizeSessionClientMetadata_def ip only_if_def)
  have "list_all fair_event ?es" by (simp add: viewer_login_def)
  from activity_writer_drains [OF this prod.collapse [symmetric] iteration_order_rev prod.collapse [symmetric], of sample_sessions Hour "[]"]
  show ?thesis using one by (auto simp: Let_def)
qed

section \<open>The list of sessions\<close>

definition record_key :: "SessionRecord \<Rightarrow> gtime \<times> string" where
  "record_key r = (ss_CreatedAt (sr_session r), sr_TokenHash r)"

interpretation record_order: row_order record_less record_key
  by unfold_locales (auto simp: record_less_def record_key_def split: if_splits)

text \<open>
  Without a database the list shows exactly the sessions that have not expired, the oldest first, and does not
  depend on the order in which the map is visited.
\<close>

lemma session_list_exact:
  assumes "se_store env = None" and "wf_map (sm_sessions m)" and "inj_on (se_hash env) (set (mkeys (sm_sessions m)))"
  shows "\<exists>records. (\<forall>ord. iteration_order ord \<longrightarrow> fst (run_state (session_List env ord t0 now) m) = Inr records) \<and>
    sorted_wrt record_less records \<and>
    mset records = image_mset (record_of env) (mset (filter (\<lambda>(token, s). t0 < ss_ExpiresAt s) (sm_sessions m)))"
proof -
  let ?live = "filter (\<lambda>(token, s). t0 < ss_ExpiresAt s) (sm_sessions m)"
  have result: "fst (run_state (session_List env ord t0 now) m) = Inr (sort_slice record_less (map (record_of env) (ord ?live)))" for ord
    using assms(1) by (simp add: session_List_def cleanupExpiredLocked_def attempt_def set_sessions_def done_with_def)
  have "wf_map ?live" "set (mkeys ?live) \<subseteq> set (mkeys (sm_sessions m))"
    using assms(2) by (auto intro: wf_map_filter simp: mkeys_def)
  then have "distinct (map (se_hash env) (mkeys ?live))"
    using assms(3) by (auto simp: distinct_map wf_map_def intro: inj_on_subset)
  moreover have "map sr_TokenHash (map (record_of env) ?live) = map (se_hash env) (mkeys ?live)"
    by (simp add: record_of_def mkeys_def comp_def)
  ultimately have "distinct (map sr_TokenHash (map (record_of env) ?live))" by simp
  then have distinct: "distinct (map record_key (map (record_of env) ?live))"
    by (auto simp: distinct_map inj_on_def record_key_def)
  have "sort_slice record_less (map (record_of env) (ord ?live)) = sort_slice record_less (map (record_of env) ?live)"
    if "iteration_order ord" for ord
    using that by (intro record_order.sort_slice_perm [symmetric] distinct) (simp add: iteration_order_def)
  then show ?thesis
    using result record_order.sorted_sort_slice [OF distinct]
    by (intro exI [of _ "sort_slice record_less (map (record_of env) ?live)"]) simp
qed

end
