(* ===== verification/InboxRows.thy ===== *)
theory InboxRows
  imports Entities StorageTime StateLogic
begin

text \<open>
  \<open>internal/repository/redis_usage_inbox.go\<close> and \<open>InsertUsageEvents\<close> of \<open>internal/repository/db.go\<close>: the table
  \<open>redis_usage_inboxes\<close>, whose rows carry a raw message through its processing, and the table of usage events.
\<close>

section \<open>Rows\<close>

record RedisUsageInbox =
  ib_ID :: int
  ib_Source :: string
  ib_MessageHash :: string
  ib_RawMessage :: string
  ib_Status :: string
  ib_AttemptCount :: int
  ib_LastError :: string
  ib_UsageEventKey :: string
  ib_PoppedAt :: gtime
  ib_ProcessedAt :: "gtime option"
  ib_CreatedAt :: gtime
  ib_UpdatedAt :: gtime

abbreviation RedisUsageInboxStatusPending :: string where "RedisUsageInboxStatusPending \<equiv> ''pending''"
abbreviation RedisUsageInboxStatusProcessed :: string where "RedisUsageInboxStatusProcessed \<equiv> ''processed''"
abbreviation RedisUsageInboxStatusDecodeFailed :: string where "RedisUsageInboxStatusDecodeFailed \<equiv> ''decode_failed''"
abbreviation RedisUsageInboxStatusProcessFailed :: string where "RedisUsageInboxStatusProcessFailed \<equiv> ''process_failed''"
abbreviation RedisUsageInboxStatusDiscarded :: string where "RedisUsageInboxStatusDiscarded \<equiv> ''discarded''"
abbreviation RedisUsageInboxSourceUnknown :: string where "RedisUsageInboxSourceUnknown \<equiv> ''unknown''"
abbreviation redisUsageInboxMaxErrorLength :: nat where "redisUsageInboxMaxErrorLength \<equiv> 1024"
abbreviation redisUsageInboxMaxProcessAttempts :: int where "redisUsageInboxMaxProcessAttempts \<equiv> 5"
abbreviation redisUsageInboxProcessedBatchSize :: nat where "redisUsageInboxProcessedBatchSize \<equiv> 300"

record RedisInboxInsert =
  in_Source :: string
  in_RawMessage :: string
  in_PoppedAt :: gtime

record RedisUsageInboxProcessedUpdate =
  pu_ID :: int
  pu_EventKey :: string

record RedisUsageInboxCleanupResult =
  cr_ProcessedDeleted :: nat
  cr_FailedDeleted :: nat

text \<open>The columns of \<open>usage_identities\<close> that the processing reads.\<close>

record UsageIdentity =
  ui_AuthType :: int
  ui_Identity :: string
  ui_Type :: string
  ui_IsDeleted :: bool

section \<open>Statements\<close>

text \<open>
  The database behind gorm is a parameter: its state \<open>'s\<close> and the statements the source issues.  A query takes the
  selected columns, the condition and the limit, and is ordered by id; inserting fills in what the database assigns.
  \<open>sql_begin\<close>, \<open>sql_commit\<close> and \<open>sql_rollback\<close> are a transaction's, or inside one a savepoint's; the last two are
  given the state the transaction began in.
\<close>

record 's inbox_db =
  sql_list :: "(RedisUsageInbox \<Rightarrow> RedisUsageInbox) \<Rightarrow> (RedisUsageInbox \<Rightarrow> bool) \<Rightarrow> nat option \<Rightarrow> 's \<Rightarrow> string + RedisUsageInbox list"
  sql_first :: "int \<Rightarrow> 's \<Rightarrow> string + RedisUsageInbox"
  sql_set :: "(RedisUsageInbox \<Rightarrow> bool) \<Rightarrow> (RedisUsageInbox \<Rightarrow> RedisUsageInbox) \<Rightarrow> 's \<Rightarrow> (string + unit) \<times> 's"
  sql_remove :: "(RedisUsageInbox \<Rightarrow> bool) \<Rightarrow> 's \<Rightarrow> (string + nat) \<times> 's"
  sql_insert :: "nat \<Rightarrow> RedisUsageInbox list \<Rightarrow> 's \<Rightarrow> (string + RedisUsageInbox list) \<times> 's"
  sql_insert_events :: "UsageEvent list \<Rightarrow> 's \<Rightarrow> (string + UsageEvent list \<times> nat) \<times> 's"
  sql_identities :: "int \<Rightarrow> string list \<Rightarrow> bool \<Rightarrow> 's \<Rightarrow> string + UsageIdentity list"
  sql_begin :: "'s \<Rightarrow> (string + unit) \<times> 's"
  sql_commit :: "'s \<Rightarrow> 's \<Rightarrow> (string + unit) \<times> 's"
  sql_rollback :: "'s \<Rightarrow> 's \<Rightarrow> 's"
  sql_columns :: nat
  sql_event_columns :: nat

type_synonym ('s, 'a) sql = "('s, string + 'a) state"

definition and_then :: "('s, 'a) sql \<Rightarrow> ('a \<Rightarrow> ('s, 'b) sql) \<Rightarrow> ('s, 'b) sql" where
  "and_then c f = do { res \<leftarrow> c; case res of Inl err \<Rightarrow> State_Monad.return (Inl err) | Inr x \<Rightarrow> f x }"

definition fails :: "string \<Rightarrow> ('s, 'a) sql" where
  "fails err = State_Monad.return (Inl err)"

definition gives :: "'a \<Rightarrow> ('s, 'a) sql" where
  "gives x = State_Monad.return (Inr x)"

definition wrapped :: "string \<Rightarrow> ('s, 'a) sql \<Rightarrow> ('s, 'a) sql" where
  "wrapped what c = do { res \<leftarrow> c; State_Monad.return (map_sum (\<lambda>err. what @ '': '' @ err) (\<lambda>x. x) res) }"

text \<open>\<open>db.Transaction\<close>: an error of the body rolls back, and so does one of the commit.\<close>

definition transaction :: "'s inbox_db \<Rightarrow> ('s, 'a) sql \<Rightarrow> ('s, 'a) sql" where
  "transaction db body = State (\<lambda>s.
     case sql_begin db s of
       (Inl err, t) \<Rightarrow> (Inl err, t)
     | (Inr _, t) \<Rightarrow>
         (case run_state body t of
            (Inl err, u) \<Rightarrow> (Inl err, sql_rollback db t u)
          | (Inr x, u) \<Rightarrow> (case sql_commit db t u of (Inl err, v) \<Rightarrow> (Inl err, v) | (Inr _, v) \<Rightarrow> (Inr x, v))))"

text \<open>\<open>insertBatchSize\<close> of \<open>internal/repository/batch.go\<close>, for a model with so many columns.\<close>

abbreviation maxRepositoryInsertBatchSize :: nat where "maxRepositoryInsertBatchSize \<equiv> 900"
abbreviation sqliteVariableLimit :: nat where "sqliteVariableLimit \<equiv> 999"

definition insertBatchSize :: "nat \<Rightarrow> nat" where
  "insertBatchSize columnCount =
     (if columnCount \<le> 0 then maxRepositoryInsertBatchSize
      else let batchSize = sqliteVariableLimit div columnCount in
        if batchSize \<le> 0 then 1 else min maxRepositoryInsertBatchSize batchSize)"

lemma insertBatchSize_pos: "insertBatchSize n > 0"
  by (simp add: insertBatchSize_def Let_def)

section \<open>Error texts\<close>

text \<open>\<open>utf8.ValidString\<close>.\<close>

definition in_range :: "nat \<Rightarrow> nat \<Rightarrow> char \<Rightarrow> bool" where
  "in_range lo hi c \<longleftrightarrow> lo \<le> of_char c \<and> (of_char c :: nat) \<le> hi"

abbreviation continues :: "char \<Rightarrow> bool" where "continues \<equiv> in_range 128 191"

fun ValidString :: "string \<Rightarrow> bool" where
  "ValidString [] = True"
| "ValidString (a # cs) =
     (if in_range 0 127 a then ValidString cs
      else if in_range 194 223 a then (case cs of b # ds \<Rightarrow> continues b \<and> ValidString ds | _ \<Rightarrow> False)
      else if in_range 224 239 a then
        (case cs of b # c # ds \<Rightarrow>
           in_range (if in_range 224 224 a then 160 else 128) (if in_range 237 237 a then 159 else 191) b \<and> continues c \<and> ValidString ds
         | _ \<Rightarrow> False)
      else if in_range 240 244 a then
        (case cs of b # c # d # ds \<Rightarrow>
           in_range (if in_range 240 240 a then 144 else 128) (if in_range 244 244 a then 143 else 191) b \<and>
           continues c \<and> continues d \<and> ValidString ds
         | _ \<Rightarrow> False)
      else False)"

function until_valid :: "string \<Rightarrow> string" where
  "until_valid message = (if ValidString message then message else until_valid (butlast message))"
  by pat_completeness auto
termination
proof (relation "measure length")
  show "(butlast message, message) \<in> measure length" if "\<not> ValidString message" for message
    using that by (cases message) auto
qed simp

declare until_valid.simps [simp del]

definition boundedRedisUsageInboxError :: "string option \<Rightarrow> string" where
  "boundedRedisUsageInboxError err =
     (case err of
        None \<Rightarrow> []
      | Some message \<Rightarrow>
          if length message \<le> redisUsageInboxMaxErrorLength then message
          else until_valid (take redisUsageInboxMaxErrorLength message))"

section \<open>Operations\<close>

definition processable :: "RedisUsageInbox \<Rightarrow> bool" where
  "processable row \<longleftrightarrow> ib_Status row = RedisUsageInboxStatusPending \<or> ib_Status row = RedisUsageInboxStatusProcessFailed"

definition redisUsageInboxProcessingColumns :: "RedisUsageInbox \<Rightarrow> RedisUsageInbox" where
  "redisUsageInboxProcessingColumns row = row\<lparr>ib_MessageHash := [], ib_LastError := [], ib_ProcessedAt := None,
     ib_CreatedAt := zero_time, ib_UpdatedAt := zero_time\<rparr>"

definition HasProcessableRedisUsageInbox :: "'s inbox_db option \<Rightarrow> ('s, bool) sql" where
  "HasProcessableRedisUsageInbox handle =
     (case handle of
        None \<Rightarrow> fails ''database is nil''
      | Some db \<Rightarrow> reads (\<lambda>s. case sql_list db (\<lambda>row. row) processable (Some 1) s of
          Inl err \<Rightarrow> Inl (''check processable redis usage inbox: '' @ err)
        | Inr rows \<Rightarrow> Inr (rows \<noteq> [])))"

definition redisUsageInboxSource :: "string \<Rightarrow> string" where
  "redisUsageInboxSource val = (let trimmed = go_trim_space val in if trimmed = [] then RedisUsageInboxSourceUnknown else trimmed)"

text \<open>\<open>hash\<close> is SHA-256 in hex.\<close>

definition inbox_row :: "(string \<Rightarrow> string) \<Rightarrow> RedisInboxInsert \<Rightarrow> RedisUsageInbox" where
  "inbox_row hash input =
     \<lparr>ib_ID = 0, ib_Source = redisUsageInboxSource (in_Source input), ib_MessageHash = hash (in_RawMessage input),
      ib_RawMessage = in_RawMessage input, ib_Status = RedisUsageInboxStatusPending, ib_AttemptCount = 0, ib_LastError = [],
      ib_UsageEventKey = [], ib_PoppedAt = in_PoppedAt input, ib_ProcessedAt = None, ib_CreatedAt = zero_time,
      ib_UpdatedAt = zero_time\<rparr>"

definition InsertRedisUsageInboxMessages ::
  "'s inbox_db \<Rightarrow> (string \<Rightarrow> string) \<Rightarrow> RedisInboxInsert list \<Rightarrow> ('s, RedisUsageInbox list) sql" where
  "InsertRedisUsageInboxMessages db hash inputs =
     (if inputs = [] then gives []
      else transaction db (State (sql_insert db (insertBatchSize (sql_columns db)) (map (inbox_row hash) inputs))))"

definition InsertRedisUsageInboxRawMessages ::
  "'s inbox_db \<Rightarrow> (string \<Rightarrow> string) \<Rightarrow> string \<Rightarrow> string list \<Rightarrow> gtime \<Rightarrow> ('s, RedisUsageInbox list) sql" where
  "InsertRedisUsageInboxRawMessages db hash source messages poppedAt =
     InsertRedisUsageInboxMessages db hash
       (map (\<lambda>message. \<lparr>in_Source = source, in_RawMessage = message, in_PoppedAt = poppedAt\<rparr>) messages)"

definition MarkRedisUsageInboxProcessed :: "'s inbox_db \<Rightarrow> int \<Rightarrow> string \<Rightarrow> gtime \<Rightarrow> ('s, unit) sql" where
  "MarkRedisUsageInboxProcessed db i eventKey processedAt =
     State (sql_set db (\<lambda>row. ib_ID row = i)
       (\<lambda>row. row\<lparr>ib_Status := RedisUsageInboxStatusProcessed, ib_UsageEventKey := eventKey,
          ib_ProcessedAt := Some processedAt, ib_LastError := []\<rparr>))"

text \<open>One sub-batch: \<open>CASE id WHEN ... THEN ... ELSE usage_event_key END\<close> takes the first branch that fits.\<close>

definition mark_processed :: "RedisUsageInboxProcessedUpdate list \<Rightarrow> gtime \<Rightarrow> RedisUsageInbox \<Rightarrow> RedisUsageInbox" where
  "mark_processed batch processedAt row =
     row\<lparr>ib_Status := RedisUsageInboxStatusProcessed,
         ib_UsageEventKey := (case map_of (map (\<lambda>u. (pu_ID u, pu_EventKey u)) batch) (ib_ID row) of
            Some eventKey \<Rightarrow> eventKey | None \<Rightarrow> ib_UsageEventKey row),
         ib_ProcessedAt := Some processedAt, ib_LastError := []\<rparr>"

fun decimal :: "nat \<Rightarrow> string" where
  "decimal n = (if n < 10 then [digit (int n)] else decimal (n div 10) @ [digit (int n)])"

declare decimal.simps [simp del]

function mark_batches ::
  "'s inbox_db \<Rightarrow> RedisUsageInboxProcessedUpdate list \<Rightarrow> gtime \<Rightarrow> nat \<Rightarrow> ('s, unit) sql" where
  "mark_batches db updates processedAt start =
     (if start < length updates then
        let stop = min (start + redisUsageInboxProcessedBatchSize) (length updates);
            batch = take (stop - start) (drop start updates)
        in and_then
             (wrapped (''mark redis usage inbox processed batch ['' @ decimal start @ '':'' @ decimal stop @ '']'')
               (State (sql_set db (\<lambda>row. ib_ID row \<in> set (map pu_ID batch)) (mark_processed batch processedAt))))
             (\<lambda>_. mark_batches db updates processedAt (start + redisUsageInboxProcessedBatchSize))
      else gives ())"
  by pat_completeness auto
termination by (relation "measure (\<lambda>(db, updates, processedAt, start). length updates - start)") auto

declare mark_batches.simps [simp del]

definition MarkRedisUsageInboxProcessedBatch ::
  "'s inbox_db \<Rightarrow> RedisUsageInboxProcessedUpdate list \<Rightarrow> gtime \<Rightarrow> ('s, unit) sql" where
  "MarkRedisUsageInboxProcessedBatch db updates processedAt = mark_batches db updates processedAt 0"

definition markRedisUsageInboxFailed :: "'s inbox_db \<Rightarrow> int \<Rightarrow> string \<Rightarrow> string option \<Rightarrow> ('s, unit) sql" where
  "markRedisUsageInboxFailed db i status err =
     State (sql_set db (\<lambda>row. ib_ID row = i)
       (\<lambda>row. row\<lparr>ib_Status := status, ib_AttemptCount := ib_AttemptCount row + 1, ib_LastError := boundedRedisUsageInboxError err\<rparr>))"

definition MarkRedisUsageInboxDecodeFailed :: "'s inbox_db \<Rightarrow> int \<Rightarrow> string option \<Rightarrow> ('s, unit) sql" where
  "MarkRedisUsageInboxDecodeFailed db i decodeErr = markRedisUsageInboxFailed db i RedisUsageInboxStatusDecodeFailed decodeErr"

definition process_failure :: "string option \<Rightarrow> RedisUsageInbox \<Rightarrow> RedisUsageInbox" where
  "process_failure processErr row =
     row\<lparr>ib_Status := (if ib_AttemptCount row + 1 \<ge> redisUsageInboxMaxProcessAttempts then RedisUsageInboxStatusDiscarded
            else RedisUsageInboxStatusProcessFailed),
         ib_AttemptCount := ib_AttemptCount row + 1, ib_LastError := boundedRedisUsageInboxError processErr\<rparr>"

definition MarkRedisUsageInboxProcessFailed :: "'s inbox_db \<Rightarrow> int \<Rightarrow> string option \<Rightarrow> ('s, unit) sql" where
  "MarkRedisUsageInboxProcessFailed db i processErr = State (sql_set db (\<lambda>row. ib_ID row = i) (process_failure processErr))"

definition positive_limit :: "int \<Rightarrow> nat option" where
  "positive_limit limit = (if limit > 0 then Some (nat limit) else None)"

definition ListProcessableRedisUsageInbox :: "'s inbox_db \<Rightarrow> int \<Rightarrow> ('s, RedisUsageInbox list) sql" where
  "ListProcessableRedisUsageInbox db limit =
     reads (sql_list db redisUsageInboxProcessingColumns processable (positive_limit limit))"

definition ListPendingRedisUsageInbox :: "'s inbox_db \<Rightarrow> int \<Rightarrow> ('s, RedisUsageInbox list) sql" where
  "ListPendingRedisUsageInbox db limit =
     reads (sql_list db redisUsageInboxProcessingColumns (\<lambda>row. ib_Status row = RedisUsageInboxStatusPending) (positive_limit limit))"

text \<open>The times of a statement are compared as text.  Each deletion that has run is in the result.\<close>

definition processed_before :: "zone \<Rightarrow> gtime \<Rightarrow> RedisUsageInbox \<Rightarrow> bool" where
  "processed_before z cutoff row \<longleftrightarrow> ib_Status row = RedisUsageInboxStatusProcessed \<and>
     (case ib_ProcessedAt row of None \<Rightarrow> False | Some t \<Rightarrow> FormatStorageTime z t < FormatStorageTime z cutoff)"

definition failed_before :: "zone \<Rightarrow> gtime \<Rightarrow> RedisUsageInbox \<Rightarrow> bool" where
  "failed_before z cutoff row \<longleftrightarrow>
     ib_Status row \<in> {RedisUsageInboxStatusDecodeFailed, RedisUsageInboxStatusProcessFailed, RedisUsageInboxStatusDiscarded} \<and>
     FormatStorageTime z (ib_UpdatedAt row) < FormatStorageTime z cutoff"

definition CleanupRedisUsageInbox ::
  "'s inbox_db \<Rightarrow> zone \<Rightarrow> gtime \<Rightarrow> ('s, RedisUsageInboxCleanupResult \<times> string option) state" where
  "CleanupRedisUsageInbox db z now =
     (let localDayStart = midnight z (local_day z now);
          result = \<lparr>cr_ProcessedDeleted = 0, cr_FailedDeleted = 0\<rparr>
      in do {
        processedDelete \<leftarrow> State (sql_remove db (processed_before z localDayStart));
        case processedDelete of
          Inl err \<Rightarrow> State_Monad.return (result, Some err)
        | Inr n \<Rightarrow> (let result = result\<lparr>cr_ProcessedDeleted := n\<rparr> in do {
            failedDelete \<leftarrow> State (sql_remove db (failed_before z (add_days z now (- 7))));
            case failedDelete of
              Inl err \<Rightarrow> State_Monad.return (result, Some err)
            | Inr m \<Rightarrow> State_Monad.return (result\<lparr>cr_FailedDeleted := m\<rparr>, None) }) })"

section \<open>Usage events\<close>

text \<open>The slice of the caller is written to: the events come back with what the database has assigned to them.\<close>

function insert_event_batches ::
  "'s inbox_db \<Rightarrow> UsageEvent list \<Rightarrow> nat \<Rightarrow> nat \<Rightarrow> UsageEvent list \<Rightarrow> ('s, nat \<times> UsageEvent list) sql" where
  "insert_event_batches db events start inserted stored =
     (if start < length events then
        let batchSize = insertBatchSize (sql_event_columns db);
            stop = min (start + batchSize) (length events);
            batch = take (stop - start) (drop start events)
        in and_then (wrapped ''insert usage events'' (State (sql_insert_events db batch)))
             (\<lambda>(batch', n). insert_event_batches db events (start + batchSize) (inserted + n) (stored @ batch'))
      else gives (inserted, stored))"
  by pat_completeness auto
termination
  by (relation "measure (\<lambda>(db, events, start, inserted, stored). length events - start)")
    (use insertBatchSize_pos in \<open>auto intro!: diff_less_mono2 split: nat_diff_split\<close>)

declare insert_event_batches.simps [simp del]

definition InsertUsageEvents :: "'s inbox_db option \<Rightarrow> UsageEvent list \<Rightarrow> ('s, nat \<times> nat \<times> UsageEvent list) sql" where
  "InsertUsageEvents handle events =
     (case handle of
        None \<Rightarrow> fails ''database is nil''
      | Some db \<Rightarrow>
          if events = [] then gives (0, 0, events)
          else and_then (transaction db (insert_event_batches db events 0 0 []))
                 (\<lambda>(inserted, stored). gives (inserted, 0, stored)))"

end
