(* ===== verification/UsageDecode.thy ===== *)
theory UsageDecode
  imports Entities StorageTime
begin

text \<open>
  \<open>internal/service/redis_usage.go\<close>: from one raw message of the queue to a usage event.

  \<open>encoding/json\<close> is a parameter, one function per type the source decodes into: the left side, or \<open>None\<close>, is the
  error.  Decoding into a string variable takes the variable's value, which JSON's \<open>null\<close> leaves as it is.  So is
  \<open>quota.BuildUsageHeaderSnapshot\<close>, whose result is only passed on.
\<close>

section \<open>The payload\<close>

record TokenStats =
  ts_InputTokens :: int
  ts_OutputTokens :: int
  ts_ReasoningTokens :: int
  ts_CachedTokens :: int
  ts_CacheReadTokens :: int
  ts_CacheReadPresent :: bool
  ts_CacheCreationTokens :: int
  ts_TotalTokens :: int

record queuedUsageDetail =
  qd_Timestamp :: gtime
  qd_LatencyMS :: int
  qd_TTFTMS :: "int option"
  qd_Source :: string
  qd_AuthIndex :: string
  qd_ClientIP :: "string option"
  qd_XForwardedFor :: "string option"
  qd_UserAgent :: "string option"
  qd_Tokens :: TokenStats
  qd_Failed :: bool
  qd_Generate :: "bool option"
  qd_Provider :: string
  qd_Model :: string
  qd_Alias :: "string option"
  qd_ReasoningEffort :: string
  qd_ServiceTier :: string
  qd_ResponseServiceTier :: string
  qd_ExecutorType :: string
  qd_Endpoint :: string
  qd_AuthType :: string
  qd_APIKey :: string
  qd_RequestID :: string
  qd_ResponseHeaders :: string

type_synonym header = "(string, string list) gomap"

record UsageHeaderSnapshotInput =
  si_AuthType :: string
  si_AuthIndex :: string
  si_Provider :: string
  si_ObservedAt :: gtime
  si_Headers :: header

record 'n decode_env =
  js_detail :: "string \<Rightarrow> string + queuedUsageDetail"
  js_header :: "string \<Rightarrow> header option"
  js_raw_map :: "string \<Rightarrow> (string, string) gomap option"
  js_string :: "string \<Rightarrow> string \<Rightarrow> string option"
  js_strings :: "string \<Rightarrow> string list option"
  js_raws :: "string \<Rightarrow> string list option"
  de_order :: "(string, string) gomap \<Rightarrow> (string, string) gomap"
  de_uni :: "string \<Rightarrow> string"
  de_snapshot :: "UsageHeaderSnapshotInput \<Rightarrow> 'n option"

section \<open>Fields\<close>

definition normalizeRedisAuthType :: "(string \<Rightarrow> string) \<Rightarrow> string \<Rightarrow> string" where
  "normalizeRedisAuthType uni val =
     (let trimmed = go_to_lower uni (go_trim_space val) in if trimmed = ''api_key'' then ''apikey'' else trimmed)"

definition trimRedisOptionalString :: "string option \<Rightarrow> string option" where
  "trimRedisOptionalString val =
     (case val of
        None \<Rightarrow> None
      | Some s \<Rightarrow> let trimmed = go_trim_space s in if trimmed = [] then None else Some trimmed)"

definition redisTokenStatsAllZero :: "TokenStats \<Rightarrow> bool" where
  "redisTokenStatsAllZero tokens \<longleftrightarrow>
     ts_InputTokens tokens = 0 \<and> ts_OutputTokens tokens = 0 \<and> ts_ReasoningTokens tokens = 0 \<and>
     ts_CachedTokens tokens = 0 \<and> ts_CacheReadTokens tokens = 0 \<and> ts_CacheCreationTokens tokens = 0 \<and>
     ts_TotalTokens tokens = 0"

definition normalizeRedisGenerate :: "bool option \<Rightarrow> bool \<Rightarrow> string \<Rightarrow> TokenStats \<Rightarrow> bool option" where
  "normalizeRedisGenerate val failed execType tokens =
     (case val of
        Some generate \<Rightarrow> Some generate
      | None \<Rightarrow> Some (\<not> (\<not> failed \<and> go_trim_space execType = ''CodexWebsocketsExecutor'' \<and> redisTokenStatsAllZero tokens)))"

text \<open>\<open>firstNonEmpty\<close> of \<open>internal/service/sync.go\<close>.\<close>

fun firstNonEmpty :: "string list \<Rightarrow> string" where
  "firstNonEmpty [] = []"
| "firstNonEmpty (v # vs) = (let trimmed = go_trim_space v in if trimmed \<noteq> [] then trimmed else firstNonEmpty vs)"

definition toUsageEvent :: "(string \<Rightarrow> string) \<Rightarrow> queuedUsageDetail \<Rightarrow> gtime \<Rightarrow> UsageEvent" where
  "toUsageEvent uni d fetchedAt =
     (let timestamp = (if is_zero (qd_Timestamp d) then fetchedAt else qd_Timestamp d);
          tokens = qd_Tokens d
      in \<lparr>ev_ID = 0, ev_EventKey = go_trim_space (qd_RequestID d),
          ev_APIGroupKey = firstNonEmpty [qd_APIKey d, qd_Provider d, qd_Endpoint d, ''unknown''],
          ev_Provider = go_trim_space (qd_Provider d), ev_Endpoint = go_trim_space (qd_Endpoint d),
          ev_AuthType = normalizeRedisAuthType uni (qd_AuthType d), ev_RequestID = go_trim_space (qd_RequestID d),
          ev_ClientIP = qd_ClientIP d, ev_XForwardedFor = qd_XForwardedFor d, ev_UserAgent = qd_UserAgent d,
          ev_Model = firstNonEmpty [qd_Model d, ''unknown''], ev_ModelAlias = trimRedisOptionalString (qd_Alias d),
          ev_ReasoningEffort = go_trim_space (qd_ReasoningEffort d), ev_ServiceTier = go_trim_space (qd_ServiceTier d),
          ev_ResponseServiceTier = go_trim_space (qd_ResponseServiceTier d),
          ev_ExecutorType = go_trim_space (qd_ExecutorType d), ev_Timestamp = timestamp,
          ev_Source = go_trim_space (qd_Source d), ev_AuthIndex = go_trim_space (qd_AuthIndex d),
          ev_Failed = qd_Failed d,
          ev_Generate = normalizeRedisGenerate (qd_Generate d) (qd_Failed d) (qd_ExecutorType d) tokens,
          ev_LatencyMS = max (qd_LatencyMS d) 0, ev_TTFTMS = qd_TTFTMS d,
          ev_InputTokens = ts_InputTokens tokens, ev_OutputTokens = ts_OutputTokens tokens,
          ev_ReasoningTokens = ts_ReasoningTokens tokens, ev_CachedTokens = ts_CachedTokens tokens,
          ev_CacheReadTokens = ts_CacheReadTokens tokens, ev_CacheReadPresent = ts_CacheReadPresent tokens,
          ev_CacheCreationTokens = ts_CacheCreationTokens tokens, ev_TotalTokens = ts_TotalTokens tokens,
          ev_CreatedAt = zero_time\<rparr>)"

section \<open>Response headers\<close>

text \<open>\<open>bytes.TrimSpace\<close> is \<open>strings.TrimSpace\<close> on the same bytes.\<close>

definition rawJSONMessageIsEmptyOrNull :: "string \<Rightarrow> bool" where
  "rawJSONMessageIsEmptyOrNull raw \<longleftrightarrow> (let trimmed = go_trim_space raw in length trimmed = 0 \<or> trimmed = ''null'')"

definition decodeRedisUsageHeaderValues :: "'n decode_env \<Rightarrow> string \<Rightarrow> string list" where
  "decodeRedisUsageHeaderValues env raw =
     (case js_string env raw [] of
        Some val \<Rightarrow> [val]
      | None \<Rightarrow>
          (case js_strings env raw of
             Some vals \<Rightarrow> vals
           | None \<Rightarrow>
               (case js_raws env raw of
                  None \<Rightarrow> []
                | Some rawValues \<Rightarrow>
                    snd (fold (\<lambda>rawValue (val, vals).
                           case js_string env rawValue val of Some val' \<Rightarrow> (val', vals @ [val']) | None \<Rightarrow> (val, vals))
                         rawValues ([], [])))))"

text \<open>\<open>http.Header.Add\<close> and the canonical form of a header's name.\<close>

definition header_byte :: "char \<Rightarrow> bool" where
  "header_byte c \<longleftrightarrow> (let n = (of_char c :: nat) in
     (65 \<le> n \<and> n \<le> 90) \<or> (97 \<le> n \<and> n \<le> 122) \<or> (48 \<le> n \<and> n \<le> 57) \<or>
     c \<in> set ''!#$%&*+-.^_|~'' \<or> n = 39 \<or> n = 96)"

definition ascii_upper :: "char \<Rightarrow> char" where
  "ascii_upper c = (let n = (of_char c :: nat) in if 97 \<le> n \<and> n \<le> 122 then char_of (n - 32) else c)"

fun canonical_bytes :: "bool \<Rightarrow> string \<Rightarrow> string" where
  "canonical_bytes upper [] = []"
| "canonical_bytes upper (c # cs) = (if upper then ascii_upper c else ascii_lower c) # canonical_bytes (c = CHR ''-'') cs"

definition CanonicalHeaderKey :: "string \<Rightarrow> string" where
  "CanonicalHeaderKey s = (if list_all header_byte s then canonical_bytes True s else s)"

definition header_add :: "string \<Rightarrow> string \<Rightarrow> header \<Rightarrow> header" where
  "header_add key val h =
     (let key = CanonicalHeaderKey key in mput h key ((case mget h key of Some vals \<Rightarrow> vals | None \<Rightarrow> []) @ [val]))"

definition decodeRedisUsageResponseHeaders :: "'n decode_env \<Rightarrow> string \<Rightarrow> header option" where
  "decodeRedisUsageResponseHeaders env raw =
     (if rawJSONMessageIsEmptyOrNull raw then None
      else case js_header env raw of
        Some (h # hs) \<Rightarrow> Some (h # hs)
      | _ \<Rightarrow>
          (case js_raw_map env raw of
             Some (r # rs) \<Rightarrow>
               let headers = fold (\<lambda>(key, rawValue). fold (header_add key) (decodeRedisUsageHeaderValues env rawValue))
                               (de_order env (r # rs)) []
               in if headers = [] then None else Some headers
           | _ \<Rightarrow> None))"

definition toUsageHeaderSnapshot :: "'n decode_env \<Rightarrow> queuedUsageDetail \<Rightarrow> UsageEvent \<Rightarrow> 'n option" where
  "toUsageHeaderSnapshot env d event =
     (case decodeRedisUsageResponseHeaders env (qd_ResponseHeaders d) of
        None \<Rightarrow> None
      | Some headers \<Rightarrow> de_snapshot env \<lparr>si_AuthType = ev_AuthType event, si_AuthIndex = ev_AuthIndex event,
          si_Provider = ev_Provider event, si_ObservedAt = ev_Timestamp event, si_Headers = headers\<rparr>)"

section \<open>Messages\<close>

definition DecodeRedisUsageMessageWithHeaders ::
  "'n decode_env \<Rightarrow> string \<Rightarrow> gtime \<Rightarrow> string + UsageEvent \<times> string \<times> 'n option" where
  "DecodeRedisUsageMessageWithHeaders env message fetchedAt =
     (case js_detail env message of
        Inl err \<Rightarrow> Inl (''decode redis usage message: '' @ err)
      | Inr payload \<Rightarrow>
          if go_trim_space (qd_RequestID payload) = [] then Inl ''decode redis usage message: request_id is required''
          else
            let event = toUsageEvent (de_uni env) payload fetchedAt
            in Inr (event, message, toUsageHeaderSnapshot env payload event))"

definition DecodeRedisUsageMessage :: "'n decode_env \<Rightarrow> string \<Rightarrow> gtime \<Rightarrow> string + UsageEvent \<times> string" where
  "DecodeRedisUsageMessage env message fetchedAt =
     map_sum (\<lambda>err. err) (\<lambda>(event, raw, _). (event, raw)) (DecodeRedisUsageMessageWithHeaders env message fetchedAt)"

section \<open>What a decoded event is\<close>

lemma firstNonEmpty_trimmed: "v \<in> set vs \<Longrightarrow> go_trim_space v \<noteq> [] \<Longrightarrow> firstNonEmpty vs \<noteq> []"
  by (induction vs) (auto simp: Let_def)

lemma firstNonEmpty_unknown: "firstNonEmpty (vs @ [''unknown'']) \<noteq> []"
  by (rule firstNonEmpty_trimmed [of "''unknown''"]) (simp_all add: go_trim_space_visible visible_def)

text \<open>The part of an event that token processing never touches, and that says what happened in the call.\<close>

definition event_complete :: "gtime \<Rightarrow> UsageEvent \<Rightarrow> bool" where
  "event_complete fetchedAt event \<longleftrightarrow>
     ev_EventKey event \<noteq> [] \<and> ev_EventKey event = ev_RequestID event \<and> ev_APIGroupKey event \<noteq> [] \<and>
     ev_Model event \<noteq> [] \<and> ev_ModelAlias event \<noteq> Some [] \<and> ev_LatencyMS event \<ge> 0 \<and> ev_Generate event \<noteq> None \<and>
     (\<not> is_zero fetchedAt \<longrightarrow> \<not> is_zero (ev_Timestamp event))"

lemma decoded_event_complete:
  assumes "DecodeRedisUsageMessageWithHeaders env message fetchedAt = Inr (event, raw, snapshot)"
  shows "event_complete fetchedAt event" and "raw = message"
proof -
  obtain d where d: "js_detail env message = Inr d" "go_trim_space (qd_RequestID d) \<noteq> []"
    "event = toUsageEvent (de_uni env) d fetchedAt" "raw = message"
    using assms by (auto simp: DecodeRedisUsageMessageWithHeaders_def Let_def split: sum.splits if_splits)
  have opt: "trimRedisOptionalString v \<noteq> Some []" for v
    by (auto simp: trimRedisOptionalString_def Let_def split: option.splits)
  have generate: "normalizeRedisGenerate g f x t \<noteq> None" for g f x t
    by (auto simp: normalizeRedisGenerate_def split: option.splits)
  show "event_complete fetchedAt event"
    using d(2) firstNonEmpty_unknown [of "[qd_APIKey d, qd_Provider d, qd_Endpoint d]"]
      firstNonEmpty_unknown [of "[qd_Model d]"] opt generate
    by (simp add: event_complete_def d(3) toUsageEvent_def Let_def del: firstNonEmpty.simps)
  show "raw = message" by (rule d(4))
qed

end
