(* ===== verification/InboxProcess.thy ===== *)
theory InboxProcess
  imports InboxRows UsageDecode TokenRegistry
begin

text \<open>
  \<open>internal/service/sync.go\<close>: the processing of the inbox.  A batch of raw messages is decoded, each event's tokens
  are normalised, and the events are stored in the transaction that marks their rows processed.  Logging is left out,
  and so is the synchronisation of metadata, which is in other files.
\<close>

section \<open>The service\<close>

abbreviation redisInboxProcessLimit :: nat where "redisInboxProcessLimit \<equiv> 1000"
abbreviation redisUsageIdentityTypeLookupBatchSize :: nat where "redisUsageIdentityTypeLookupBatchSize \<equiv> 500"

datatype rollup = OverviewRollup | ActivityRollup | LatencyRollup | IdentityRollup

text \<open>
  The receivers may be absent.  The functions of \<open>internal/repository\<close> that bring the rollups up to date, which only a
  service without notifier calls, are parameters, and so are the iteration order of a map and the text of a registry
  error.
\<close>

record ('s, 'n) sync_service =
  sv_db :: "'s inbox_db option"
  sv_decode :: "'n decode_env"
  sv_recent :: bool
  sv_notifier :: bool
  sv_quota :: bool
  sv_key_order :: "(int, string list) gomap \<Rightarrow> (int, string list) gomap"
  sv_registry_text :: "registry_error \<Rightarrow> string"
  sv_target :: "'s \<Rightarrow> string + int"
  sv_checkpoints :: "'s \<Rightarrow> string + int \<times> int \<times> int"
  sv_pending_identity :: "'s \<Rightarrow> string + bool"
  sv_aggregate :: "rollup \<Rightarrow> gtime \<Rightarrow> 's \<Rightarrow> (string + unit) \<times> 's"

text \<open>The database, and what has been handed to the recent-event cache, the notifier and the quota service.\<close>

record ('s, 'n) sync_world =
  sw_db :: 's
  sw_recent :: "UsageEvent list list"
  sw_notified :: "UsageEvent list list"
  sw_snapshots :: "'n list list"

definition on_sql :: "('s, 'a) state \<Rightarrow> (('s, 'n) sync_world, 'a) state" where
  "on_sql c = State (\<lambda>w. case run_state c (sw_db w) of (x, s) \<Rightarrow> (x, w\<lparr>sw_db := s\<rparr>))"

record RedisBatchSyncResult =
  rb_Empty :: bool
  rb_Status :: string
  rb_InsertedEvents :: nat
  rb_DedupedEvents :: nat
  rb_ProcessedRows :: int
  rb_BatchFull :: bool
  rb_RetryPending :: bool
  rb_DiscardedRows :: nat

record SyncResult =
  sr_Status :: string
  sr_InsertedEvents :: nat
  sr_DedupedEvents :: nat

definition newRedisBatchSyncResult :: "string \<Rightarrow> int \<Rightarrow> RedisBatchSyncResult" where
  "newRedisBatchSyncResult status processedRows =
     (let processedRows = (if processedRows < 0 then 0 else processedRows) in
      \<lparr>rb_Empty = False, rb_Status = status, rb_InsertedEvents = 0, rb_DedupedEvents = 0, rb_ProcessedRows = processedRows,
       rb_BatchFull = (processedRows \<ge> int redisInboxProcessLimit), rb_RetryPending = False, rb_DiscardedRows = 0\<rparr>)"

fun join_texts :: "string list \<Rightarrow> string" where
  "join_texts [] = []"
| "join_texts [m] = m"
| "join_texts (m # n # ms) = m @ ''; '' @ join_texts (n # ms)"

definition joinErrors :: "string option list \<Rightarrow> string option" where
  "joinErrors errs =
     (let messages = map go_trim_space (List.map_filter (\<lambda>err. err) errs) in
      if messages = [] then None else Some (join_texts messages))"

section \<open>The type of an event's credential\<close>

abbreviation UsageIdentityAuthTypeAuthFile :: int where "UsageIdentityAuthTypeAuthFile \<equiv> 1"
abbreviation UsageIdentityAuthTypeAIProvider :: int where "UsageIdentityAuthTypeAIProvider \<equiv> 2"

type_synonym usageEventIdentityKey = "int \<times> string"
type_synonym usageEventTypeResolver = "(usageEventIdentityKey, string) gomap"

definition redisUsageIdentityAuthType :: "(string \<Rightarrow> string) \<Rightarrow> string \<Rightarrow> int option" where
  "redisUsageIdentityAuthType uni authType =
     (let kind = normalizeRedisAuthType uni authType in
      if kind = ''oauth'' then Some UsageIdentityAuthTypeAuthFile
      else if kind = ''apikey'' then Some UsageIdentityAuthTypeAIProvider else None)"

definition redisUsageIdentityKeys :: "(string \<Rightarrow> string) \<Rightarrow> UsageEvent list \<Rightarrow> usageEventIdentityKey list" where
  "redisUsageIdentityKeys uni events =
     fold (\<lambda>event keys.
         let authIndex = go_trim_space (ev_AuthIndex event) in
         if authIndex = [] then keys
         else case redisUsageIdentityAuthType uni (ev_AuthType event) of
           None \<Rightarrow> keys
         | Some authType \<Rightarrow> if (authType, authIndex) \<in> set keys then keys else keys @ [(authType, authIndex)])
       events []"

definition groupRedisUsageIdentityKeysByAuthType :: "usageEventIdentityKey list \<Rightarrow> (int, string list) gomap" where
  "groupRedisUsageIdentityKeysByAuthType keys =
     fold (\<lambda>(authType, identity) grouped.
         mput grouped authType ((case mget grouped authType of Some idents \<Rightarrow> idents | None \<Rightarrow> []) @ [identity])) keys []"

definition missingRedisUsageIdentityKeys :: "usageEventIdentityKey list \<Rightarrow> usageEventTypeResolver \<Rightarrow> usageEventIdentityKey list" where
  "missingRedisUsageIdentityKeys keys byIdentity = filter (\<lambda>key. mget byIdentity key = None) keys"

function lookup_slices :: "'s inbox_db \<Rightarrow> int \<Rightarrow> string list \<Rightarrow> bool \<Rightarrow> nat \<Rightarrow> UsageIdentity list \<Rightarrow> 's \<Rightarrow> string + UsageIdentity list" where
  "lookup_slices db authType idents isDeleted start rows s =
     (if start < length idents then
        let stop = min (start + redisUsageIdentityTypeLookupBatchSize) (length idents) in
        bindE (sql_identities db authType (take (stop - start) (drop start idents)) isDeleted s) (\<lambda>batchRows.
          lookup_slices db authType idents isDeleted (start + redisUsageIdentityTypeLookupBatchSize) (rows @ batchRows) s)
      else Inr rows)"
  by pat_completeness auto
termination by (relation "measure (\<lambda>(db, authType, idents, isDeleted, start, rows, s). length idents - start)") auto

declare lookup_slices.simps [simp del]

definition loadRedisUsageIdentityTypeRows ::
  "('s, 'n) sync_service \<Rightarrow> 's inbox_db \<Rightarrow> usageEventIdentityKey list \<Rightarrow> bool \<Rightarrow> 's \<Rightarrow> string + UsageIdentity list" where
  "loadRedisUsageIdentityTypeRows sv db keys isDeleted s =
     foldE (\<lambda>(authType, idents) rows. lookup_slices db authType idents isDeleted 0 rows s)
       (sv_key_order sv (groupRedisUsageIdentityKeysByAuthType keys)) []"

definition addRedisUsageIdentityTypes :: "UsageIdentity list \<Rightarrow> usageEventTypeResolver \<Rightarrow> usageEventTypeResolver" where
  "addRedisUsageIdentityTypes rows byIdentity =
     fold (\<lambda>row byIdentity.
         let identity = go_trim_space (ui_Identity row); usageType = go_trim_space (ui_Type row) in
         if identity \<noteq> [] \<and> usageType \<noteq> [] then mput byIdentity (ui_AuthType row, identity) usageType else byIdentity)
       rows byIdentity"

text \<open>The handle is never nil here.\<close>

definition buildUsageEventTypeResolver ::
  "('s, 'n) sync_service \<Rightarrow> 's inbox_db \<Rightarrow> UsageEvent list \<Rightarrow> 's \<Rightarrow> string + usageEventTypeResolver" where
  "buildUsageEventTypeResolver sv db events s =
     (let keys = redisUsageIdentityKeys (de_uni (sv_decode sv)) events in
      if keys = [] then Inr []
      else case loadRedisUsageIdentityTypeRows sv db keys False s of
        Inl err \<Rightarrow> Inl (''load active usage identity types for redis usage: '' @ err)
      | Inr activeRows \<Rightarrow>
          let byIdentity = addRedisUsageIdentityTypes activeRows [];
              missing = missingRedisUsageIdentityKeys keys byIdentity
          in if missing = [] then Inr byIdentity
             else case loadRedisUsageIdentityTypeRows sv db missing True s of
               Inl err \<Rightarrow> Inl (''load deleted usage identity types for redis usage: '' @ err)
             | Inr deletedRows \<Rightarrow> Inr (addRedisUsageIdentityTypes deletedRows byIdentity))"

definition resolveUsageEventType :: "(string \<Rightarrow> string) \<Rightarrow> UsageEvent \<Rightarrow> usageEventTypeResolver \<Rightarrow> string" where
  "resolveUsageEventType uni event byIdentity =
     (let kind = normalizeRedisAuthType uni (ev_AuthType event);
          authIndex = go_trim_space (ev_AuthIndex event);
          known = (\<lambda>authType. go_trim_space (case mget byIdentity (authType, authIndex) of Some t \<Rightarrow> t | None \<Rightarrow> []))
      in if kind = ''oauth'' then
           (if authIndex \<noteq> [] \<and> known UsageIdentityAuthTypeAuthFile \<noteq> [] then known UsageIdentityAuthTypeAuthFile
            else go_trim_space (ev_Provider event))
         else if kind = ''apikey'' then known UsageIdentityAuthTypeAIProvider
         else ''default'')"

section \<open>Normalising the events of a batch\<close>

record normalizedUsageEvent =
  ne_event :: UsageEvent
  ne_resolution :: "handlerResolution option"
  ne_result :: "ProcessResult option"
  ne_ready :: bool

definition tokenValuesFromUsageEvent :: "UsageEvent \<Rightarrow> TokenValues" where
  "tokenValuesFromUsageEvent event =
     \<lparr>InputTokens = ev_InputTokens event, OutputTokens = ev_OutputTokens event, ReasoningTokens = ev_ReasoningTokens event,
      CachedTokens = ev_CachedTokens event, CacheReadTokens = ev_CacheReadTokens event,
      CacheReadPresent = ev_CacheReadPresent event, CacheCreationTokens = ev_CacheCreationTokens event,
      TotalTokens = ev_TotalTokens event\<rparr>"

definition applyTokenProcessResult :: "UsageEvent \<Rightarrow> ProcessResult \<Rightarrow> UsageEvent" where
  "applyTokenProcessResult event result =
     event\<lparr>ev_InputTokens := InputTokens (res_Tokens result), ev_OutputTokens := OutputTokens (res_Tokens result),
       ev_ReasoningTokens := ReasoningTokens (res_Tokens result), ev_CachedTokens := CachedTokens (res_Tokens result),
       ev_CacheReadTokens := CacheReadTokens (res_Tokens result),
       ev_CacheCreationTokens := CacheCreationTokens (res_Tokens result), ev_TotalTokens := TotalTokens (res_Tokens result)\<rparr>"

definition processResolvedUsageEvent :: "(string \<Rightarrow> string) \<Rightarrow> UsageEvent \<Rightarrow> handlerResolution \<Rightarrow> normalizedUsageEvent" where
  "processResolvedUsageEvent uni event res =
     (let result = Process uni (tokenValuesFromUsageEvent event) (Some res) in
      \<lparr>ne_event = applyTokenProcessResult event result, ne_resolution = Some res, ne_result = Some result, ne_ready = True\<rparr>)"

text \<open>A slot that the loop has not reached keeps its zero value.\<close>

definition zero_event :: UsageEvent where
  "zero_event = \<lparr>ev_ID = 0, ev_EventKey = [], ev_APIGroupKey = [], ev_Provider = [], ev_Endpoint = [], ev_AuthType = [],
     ev_RequestID = [], ev_ClientIP = None, ev_XForwardedFor = None, ev_UserAgent = None, ev_Model = [], ev_ModelAlias = None,
     ev_ReasoningEffort = [], ev_ServiceTier = [], ev_ResponseServiceTier = [], ev_ExecutorType = [], ev_Timestamp = zero_time,
     ev_Source = [], ev_AuthIndex = [], ev_Failed = False, ev_Generate = None, ev_LatencyMS = 0, ev_TTFTMS = None,
     ev_InputTokens = 0, ev_OutputTokens = 0, ev_ReasoningTokens = 0, ev_CachedTokens = 0, ev_CacheReadTokens = 0,
     ev_CacheReadPresent = False, ev_CacheCreationTokens = 0, ev_TotalTokens = 0, ev_CreatedAt = zero_time\<rparr>"

definition zero_item :: normalizedUsageEvent where
  "zero_item = \<lparr>ne_event = zero_event, ne_resolution = None, ne_result = None, ne_ready = False\<rparr>"

text \<open>The first loop; an error comes with the slots filled so far.\<close>

fun resolve_executors ::
  "(string \<Rightarrow> string) \<Rightarrow> UsageEvent list \<Rightarrow> nat \<Rightarrow> normalizedUsageEvent list \<Rightarrow> (nat \<times> UsageEvent) list \<Rightarrow>
     (registry_error \<times> normalizedUsageEvent list) + normalizedUsageEvent list \<times> (nat \<times> UsageEvent) list" where
  "resolve_executors uni [] index items unresolved = Inr (items, unresolved)"
| "resolve_executors uni (event # events) index items unresolved =
     (case ResolveExecutor uni (ev_ExecutorType event) of
        Inl err \<Rightarrow> Inl (err, items)
      | Inr res \<Rightarrow>
          if needsIdentity res then
            resolve_executors uni events (index + 1)
              (items[index := \<lparr>ne_event = event, ne_resolution = Some res, ne_result = None, ne_ready = False\<rparr>])
              (unresolved @ [(index, event)])
          else
            resolve_executors uni events (index + 1) (items[index := processResolvedUsageEvent uni event res]) unresolved)"

text \<open>The second loop.\<close>

fun resolve_identities ::
  "(string \<Rightarrow> string) \<Rightarrow> usageEventTypeResolver \<Rightarrow> (nat \<times> UsageEvent) list \<Rightarrow> normalizedUsageEvent list \<Rightarrow>
     normalizedUsageEvent list \<times> registry_error option" where
  "resolve_identities uni byIdentity [] items = (items, None)"
| "resolve_identities uni byIdentity ((index, event) # unresolved) items =
     (case ResolveIdentity uni (ev_ExecutorType event) (resolveUsageEventType uni event byIdentity) of
        Inl err \<Rightarrow> (items, Some err)
      | Inr res \<Rightarrow> resolve_identities uni byIdentity unresolved (items[index := processResolvedUsageEvent uni event res]))"

definition normalizeRedisUsageEventsDetailed ::
  "('s, 'n) sync_service \<Rightarrow> 's inbox_db \<Rightarrow> UsageEvent list \<Rightarrow> 's \<Rightarrow> normalizedUsageEvent list \<times> nat list \<times> string option" where
  "normalizeRedisUsageEventsDetailed sv db events s =
     (let uni = de_uni (sv_decode sv) in
      case resolve_executors uni events 0 (replicate (length events) zero_item) [] of
        Inl (err, items) \<Rightarrow> (items, [0..<length events], Some (sv_registry_text sv err))
      | Inr (items, unresolved) \<Rightarrow>
          if unresolved = [] then (items, [], None)
          else case buildUsageEventTypeResolver sv db (map snd unresolved) s of
            Inl err \<Rightarrow> (items, map fst unresolved, Some err)
          | Inr byIdentity \<Rightarrow>
              (case resolve_identities uni byIdentity unresolved items of
                 (items, Some err) \<Rightarrow> (items, map fst unresolved, Some (sv_registry_text sv err))
               | (items, None) \<Rightarrow> (items, [], None)))"

section \<open>Rows that fail\<close>

record redisInboxFailureCounts =
  fc_processFailed :: nat
  fc_discarded :: nat
  fc_statusUncertain :: bool

abbreviation no_failures :: redisInboxFailureCounts where
  "no_failures \<equiv> \<lparr>fc_processFailed = 0, fc_discarded = 0, fc_statusUncertain = False\<rparr>"

definition failures_add :: "redisInboxFailureCounts \<Rightarrow> redisInboxFailureCounts \<Rightarrow> redisInboxFailureCounts" where
  "failures_add counts other =
     \<lparr>fc_processFailed = fc_processFailed counts + fc_processFailed other, fc_discarded = fc_discarded counts + fc_discarded other,
      fc_statusUncertain = (fc_statusUncertain counts \<or> fc_statusUncertain other)\<rparr>"

definition requiresRetryWait :: "redisInboxFailureCounts \<Rightarrow> bool" where
  "requiresRetryWait counts \<longleftrightarrow> fc_processFailed counts > 0 \<or> fc_statusUncertain counts"

fun mark_failed_rows ::
  "'s inbox_db \<Rightarrow> string \<Rightarrow> RedisUsageInbox list \<Rightarrow> redisInboxFailureCounts \<Rightarrow> ('s, redisInboxFailureCounts) state" where
  "mark_failed_rows db err [] counts = State_Monad.return counts"
| "mark_failed_rows db err (row # rows) counts = do {
     marked \<leftarrow> MarkRedisUsageInboxProcessFailed db (ib_ID row) (Some err);
     case marked of
       Inl _ \<Rightarrow> mark_failed_rows db err rows (counts\<lparr>fc_statusUncertain := True\<rparr>)
     | Inr _ \<Rightarrow> do {
         loaded \<leftarrow> reads (sql_first db (ib_ID row));
         case loaded of
           Inl _ \<Rightarrow> mark_failed_rows db err rows (counts\<lparr>fc_statusUncertain := True\<rparr>)
         | Inr stored \<Rightarrow>
             mark_failed_rows db err rows
               (if ib_Status stored = RedisUsageInboxStatusDiscarded then counts\<lparr>fc_discarded := fc_discarded counts + 1\<rparr>
                else if ib_Status stored = RedisUsageInboxStatusProcessFailed then counts\<lparr>fc_processFailed := fc_processFailed counts + 1\<rparr>
                else counts) } }"

definition markRedisInboxRowsProcessFailed ::
  "'s inbox_db \<Rightarrow> RedisUsageInbox list \<Rightarrow> string option \<Rightarrow> ('s, redisInboxFailureCounts) state" where
  "markRedisInboxRowsProcessFailed db rows err =
     (case err of None \<Rightarrow> State_Monad.return no_failures | Some e \<Rightarrow> mark_failed_rows db e rows no_failures)"

section \<open>A batch\<close>

record 'n decoded_batch =
  dc_validRows :: "RedisUsageInbox list"
  dc_events :: "UsageEvent list"
  dc_eventSnapshots :: "'n option list"
  dc_decodeErrs :: "string list"

abbreviation empty_batch :: "'n decoded_batch" where
  "empty_batch \<equiv> \<lparr>dc_validRows = [], dc_events = [], dc_eventSnapshots = [], dc_decodeErrs = []\<rparr>"

fun decode_rows ::
  "'s inbox_db \<Rightarrow> 'n decode_env \<Rightarrow> gtime \<Rightarrow> RedisUsageInbox list \<Rightarrow> 'n decoded_batch \<Rightarrow> ('s, 'n decoded_batch) sql" where
  "decode_rows db env fetchedAt [] batch = gives batch"
| "decode_rows db env fetchedAt (row # rows) batch =
     (case DecodeRedisUsageMessageWithHeaders env (ib_RawMessage row) fetchedAt of
        Inl decodeErr \<Rightarrow>
          and_then (wrapped ''mark redis usage inbox decode failed'' (MarkRedisUsageInboxDecodeFailed db (ib_ID row) (Some decodeErr)))
            (\<lambda>_. decode_rows db env fetchedAt rows (batch\<lparr>dc_decodeErrs := dc_decodeErrs batch @ [decodeErr]\<rparr>))
      | Inr (event, _, snapshot) \<Rightarrow>
          decode_rows db env fetchedAt rows
            (batch\<lparr>dc_validRows := dc_validRows batch @ [row], dc_events := dc_events batch @ [event],
                   dc_eventSnapshots := dc_eventSnapshots batch @ [snapshot]\<rparr>))"

text \<open>The items that are ready, each with its row and its snapshot; all three lists have one index.\<close>

definition ready_items ::
  "normalizedUsageEvent list \<Rightarrow> RedisUsageInbox list \<Rightarrow> 'n option list \<Rightarrow> RedisUsageInbox list \<times> UsageEvent list \<times> 'n list" where
  "ready_items items validRows eventSnapshots =
     (let ready = filter (\<lambda>index. ne_ready (items ! index)) [0..<length items] in
      (map (\<lambda>index. validRows ! index) ready, map (\<lambda>index. ne_event (items ! index)) ready,
       List.map_filter (\<lambda>index. eventSnapshots ! index) ready))"

definition persistRedisUsageEvents :: "'s inbox_db \<Rightarrow> UsageEvent list \<Rightarrow> ('s, SyncResult \<times> UsageEvent list) sql" where
  "persistRedisUsageEvents db events =
     and_then (wrapped ''insert usage events'' (InsertUsageEvents (Some db) events)) (\<lambda>(inserted, deduped, stored).
       gives (\<lparr>sr_Status = ''completed'', sr_InsertedEvents = inserted, sr_DedupedEvents = deduped\<rparr>, stored))"

text \<open>The transaction: the events and the rows' new status.\<close>

definition persist_batch ::
  "'s inbox_db \<Rightarrow> RedisUsageInbox list \<Rightarrow> UsageEvent list \<Rightarrow> gtime \<Rightarrow> ('s, SyncResult \<times> UsageEvent list) sql" where
  "persist_batch db validRows events fetchedAt =
     transaction db
       (and_then (persistRedisUsageEvents db events) (\<lambda>(result, events).
          and_then (wrapped ''mark redis usage inbox processed''
              (MarkRedisUsageInboxProcessedBatch db
                 (map2 (\<lambda>row event. \<lparr>pu_ID = ib_ID row, pu_EventKey = ev_EventKey event\<rparr>) validRows events) fetchedAt))
            (\<lambda>_. gives (result, events))))"

definition aggregate_text :: "rollup \<Rightarrow> string" where
  "aggregate_text kind = ''aggregate usage '' @
     (case kind of OverviewRollup \<Rightarrow> ''overview'' | ActivityRollup \<Rightarrow> ''activity'' | LatencyRollup \<Rightarrow> ''latency''
      | IdentityRollup \<Rightarrow> ''identity'') @ '' stats after redis inbox processing''"

fun aggregate_all :: "('s, 'n) sync_service \<Rightarrow> gtime \<Rightarrow> rollup list \<Rightarrow> string option list \<Rightarrow> ('s, string option list) state" where
  "aggregate_all sv now [] errs = State_Monad.return errs"
| "aggregate_all sv now (kind # kinds) errs = do {
     res \<leftarrow> wrapped (aggregate_text kind) (State (sv_aggregate sv kind now));
     aggregate_all sv now kinds (errs @ (case res of Inl err \<Rightarrow> [Some err] | Inr _ \<Rightarrow> [])) }"

definition aggregateUsageEventStatsFallback :: "('s, 'n) sync_service \<Rightarrow> gtime \<Rightarrow> ('s, string option) state" where
  "aggregateUsageEventStatsFallback sv now = do {
     errs \<leftarrow> aggregate_all sv now [OverviewRollup, ActivityRollup, LatencyRollup, IdentityRollup] [];
     State_Monad.return (joinErrors errs) }"

definition failed_result :: "int \<Rightarrow> redisInboxFailureCounts \<Rightarrow> RedisBatchSyncResult" where
  "failed_result processedRows failureCounts =
     (newRedisBatchSyncResult ''failed'' processedRows)\<lparr>rb_RetryPending := requiresRetryWait failureCounts,
       rb_DiscardedRows := fc_discarded failureCounts\<rparr>"

type_synonym ('s, 'n) batch_op = "(('s, 'n) sync_world, RedisBatchSyncResult \<times> string option) state"

text \<open>What follows the commit; the left side is the error of the fallback.\<close>

definition announce :: "('s, 'n) sync_service \<Rightarrow> gtime \<Rightarrow> UsageEvent list \<Rightarrow> 'n list \<Rightarrow> (('s, 'n) sync_world, string option) state" where
  "announce sv now events headerSnapshots = do {
     _ \<leftarrow> only_if (sv_recent sv) (modify (\<lambda>w. w\<lparr>sw_recent := sw_recent w @ [events]\<rparr>));
     aggregateErr \<leftarrow>
       (if sv_notifier sv then do {
          _ \<leftarrow> modify (\<lambda>w. w\<lparr>sw_notified := sw_notified w @ [events]\<rparr>);
          State_Monad.return None }
        else on_sql (aggregateUsageEventStatsFallback sv now));
     case aggregateErr of
       Some err \<Rightarrow> State_Monad.return (Some err)
     | None \<Rightarrow> do {
         _ \<leftarrow> only_if (sv_quota sv \<and> headerSnapshots \<noteq> []) (modify (\<lambda>w. w\<lparr>sw_snapshots := sw_snapshots w @ [headerSnapshots]\<rparr>));
         State_Monad.return None } }"

text \<open>From the transaction on; \<open>now\<close> is the clock's reading for the fallback.\<close>

definition commit_ready ::
  "('s, 'n) sync_service \<Rightarrow> 's inbox_db \<Rightarrow> gtime \<Rightarrow> gtime \<Rightarrow> int \<Rightarrow> string option \<Rightarrow> string option \<Rightarrow> redisInboxFailureCounts \<Rightarrow>
     RedisUsageInbox list \<Rightarrow> UsageEvent list \<Rightarrow> 'n list \<Rightarrow> ('s, 'n) batch_op" where
  "commit_ready sv db fetchedAt now processedRows decodeErr typeErr failureCounts validRows events headerSnapshots = do {
     persisted \<leftarrow> on_sql (persist_batch db validRows events fetchedAt);
     case persisted of
       Inl err \<Rightarrow> do {
         readyFailures \<leftarrow> on_sql (markRedisInboxRowsProcessFailed db validRows (Some err));
         State_Monad.return (failed_result processedRows (failures_add failureCounts readyFailures), Some err) }
     | Inr (result, events) \<Rightarrow> do {
         aggregateErr \<leftarrow> (if sr_InsertedEvents result > 0 then announce sv now events headerSnapshots else State_Monad.return None);
         case aggregateErr of
           Some err \<Rightarrow> State_Monad.return (failed_result processedRows failureCounts, Some err)
         | None \<Rightarrow>
             let warned = (decodeErr \<noteq> None \<or> typeErr \<noteq> None) in
             State_Monad.return
               (\<lparr>rb_Empty = False, rb_Status = (if warned then ''completed_with_warnings'' else sr_Status result),
                 rb_InsertedEvents = sr_InsertedEvents result, rb_DedupedEvents = sr_DedupedEvents result,
                 rb_ProcessedRows = processedRows, rb_BatchFull = (processedRows \<ge> int redisInboxProcessLimit),
                 rb_RetryPending = requiresRetryWait failureCounts, rb_DiscardedRows = fc_discarded failureCounts\<rparr>,
                if warned then joinErrors [None, decodeErr, typeErr] else None) } }"

text \<open>From the decoded batch on.\<close>

definition normalize_and_commit ::
  "('s, 'n) sync_service \<Rightarrow> 's inbox_db \<Rightarrow> gtime \<Rightarrow> gtime \<Rightarrow> int \<Rightarrow> string option \<Rightarrow> 'n decoded_batch \<Rightarrow> ('s, 'n) batch_op" where
  "normalize_and_commit sv db fetchedAt now processedRows decodeErr batch = do {
     (items, unresolvedIndexes, typeErr) \<leftarrow> on_sql (reads (normalizeRedisUsageEventsDetailed sv db (dc_events batch)));
     let (readyRows, readyEvents, headerSnapshots) = ready_items items (dc_validRows batch) (dc_eventSnapshots batch) in
     case typeErr of
       None \<Rightarrow> commit_ready sv db fetchedAt now processedRows decodeErr None no_failures readyRows readyEvents headerSnapshots
     | Some err \<Rightarrow> do {
         failureCounts \<leftarrow> on_sql (markRedisInboxRowsProcessFailed db (map (\<lambda>index. dc_validRows batch ! index) unresolvedIndexes) (Some err));
         if readyEvents = [] then
           State_Monad.return (failed_result processedRows failureCounts, joinErrors [decodeErr, Some err])
         else
           commit_ready sv db fetchedAt now processedRows decodeErr (Some err) failureCounts readyRows readyEvents headerSnapshots } }"

definition processRedisInboxRows ::
  "('s, 'n) sync_service \<Rightarrow> 's inbox_db \<Rightarrow> RedisUsageInbox list \<Rightarrow> gtime \<Rightarrow> gtime \<Rightarrow> ('s, 'n) batch_op" where
  "processRedisInboxRows sv db inboxRows fetchedAt now = (let processedRows = int (length inboxRows) in do {
     decoded \<leftarrow> on_sql (decode_rows db (sv_decode sv) fetchedAt inboxRows empty_batch);
     case decoded of
       Inl err \<Rightarrow> State_Monad.return (newRedisBatchSyncResult ''failed'' processedRows, Some err)
     | Inr batch \<Rightarrow>
         (let decodeErr = joinErrors (map Some (dc_decodeErrs batch)) in
          if dc_events batch = [] then
            State_Monad.return
              (case decodeErr of
                 Some err \<Rightarrow> (newRedisBatchSyncResult ''completed_with_warnings'' processedRows, decodeErr)
               | None \<Rightarrow> (newRedisBatchSyncResult ''empty'' processedRows, None))
          else normalize_and_commit sv db fetchedAt now processedRows decodeErr batch) })"

section \<open>The entry point\<close>

definition service_validate :: "('s, 'n) sync_service option \<Rightarrow> string + ('s, 'n) sync_service \<times> 's inbox_db" where
  "service_validate s =
     (case s of
        None \<Rightarrow> Inl ''sync service is nil''
      | Some sv \<Rightarrow> (case sv_db sv of None \<Rightarrow> Inl ''sync service database is nil'' | Some db \<Rightarrow> Inr (sv, db)))"

text \<open>The empty batch of a service without notifier catches up on the rollups.\<close>

definition rollups_behind :: "('s, 'n) sync_service \<Rightarrow> 's \<Rightarrow> string + bool" where
  "rollups_behind sv s =
     bindE (sv_target sv s) (\<lambda>targetEventID.
     bindE (sv_checkpoints sv s) (\<lambda>(overviewCursor, activityCursor, latencyCursor).
     bindE (sv_pending_identity sv s) (\<lambda>pendingIdentity.
       Inr ((overviewCursor < targetEventID \<or> activityCursor < targetEventID \<or> latencyCursor < targetEventID) \<or> pendingIdentity))))"

definition empty_failed :: RedisBatchSyncResult where
  "empty_failed = (newRedisBatchSyncResult ''failed'' 0)\<lparr>rb_Empty := True\<rparr>"

definition process_empty :: "('s, 'n) sync_service \<Rightarrow> gtime \<Rightarrow> ('s, 'n) batch_op" where
  "process_empty sv fetchedAt =
     (let finished = ((newRedisBatchSyncResult ''empty'' 0)\<lparr>rb_Empty := True\<rparr>, None) in
      if sv_notifier sv then State_Monad.return finished
      else do {
        behind \<leftarrow> on_sql (reads (rollups_behind sv));
        case behind of
          Inl err \<Rightarrow> State_Monad.return (empty_failed, Some err)
        | Inr pending \<Rightarrow>
            if pending then do {
              aggregateErr \<leftarrow> on_sql (aggregateUsageEventStatsFallback sv fetchedAt);
              State_Monad.return (case aggregateErr of Some err \<Rightarrow> (empty_failed, Some err) | None \<Rightarrow> finished) }
            else State_Monad.return finished })"

text \<open>\<open>fetchedAt\<close> and \<open>now\<close> are the readings of the clock.\<close>

definition ProcessRedisUsageInbox ::
  "('s, 'n) sync_service option \<Rightarrow> gtime \<Rightarrow> gtime \<Rightarrow> (('s, 'n) sync_world, RedisBatchSyncResult option \<times> string option) state" where
  "ProcessRedisUsageInbox s fetchedAt now =
     (case service_validate s of
        Inl err \<Rightarrow> State_Monad.return (None, Some err)
      | Inr (sv, db) \<Rightarrow> do {
          listed \<leftarrow> on_sql (ListProcessableRedisUsageInbox db (int redisInboxProcessLimit));
          (result, err) \<leftarrow>
            (case listed of
               Inl err \<Rightarrow> State_Monad.return (newRedisBatchSyncResult ''failed'' 0, Some (''list processable redis usage inbox: '' @ err))
             | Inr processableRows \<Rightarrow>
                 if processableRows = [] then process_empty sv fetchedAt
                 else processRedisInboxRows sv db processableRows fetchedAt now);
          State_Monad.return (Some result, err) })"

definition service_CleanupRedisUsageInbox :: "('s, 'n) sync_service option \<Rightarrow> zone \<Rightarrow> gtime \<Rightarrow> (('s, 'n) sync_world, string option) state" where
  "service_CleanupRedisUsageInbox s z now =
     (case service_validate s of
        Inl err \<Rightarrow> State_Monad.return (Some err)
      | Inr (sv, db) \<Rightarrow> do {
          (_, err) \<leftarrow> on_sql (CleanupRedisUsageInbox db z now);
          State_Monad.return err })"

end
