(* ===== verification/InboxSafety.thy ===== *)
theory InboxSafety
  imports InboxProcess
begin

text \<open>
  What the processing of the inbox does to the two tables, whichever statements of the database fail.
\<close>

section \<open>The database\<close>

text \<open>
  What gorm and SQLite promise of the rows of the inbox, in the order of their ids, and of the stored events.  An update
  that reports an error may have happened or not; a transaction that does has been rolled back.  The time of a row's last
  update is the database's.
\<close>

definition becomes ::
  "(RedisUsageInbox \<Rightarrow> bool) \<Rightarrow> (RedisUsageInbox \<Rightarrow> RedisUsageInbox) \<Rightarrow> RedisUsageInbox list \<Rightarrow> RedisUsageInbox list \<Rightarrow> bool" where
  "becomes P f rs rs' \<longleftrightarrow> list_all2 (\<lambda>r r'. if P r then \<exists>now. r' = (f r)\<lparr>ib_UpdatedAt := now\<rparr> else r' = r) rs rs'"

definition limited :: "nat option \<Rightarrow> 'a list \<Rightarrow> 'a list" where
  "limited lim xs = (case lim of None \<Rightarrow> xs | Some n \<Rightarrow> take n xs)"

definition stored_row :: "RedisUsageInbox \<Rightarrow> RedisUsageInbox \<Rightarrow> bool" where
  "stored_row r r' \<longleftrightarrow> (\<exists>i now. r' = r\<lparr>ib_ID := i, ib_CreatedAt := now, ib_UpdatedAt := now\<rparr>)"

definition stored_event :: "UsageEvent \<Rightarrow> UsageEvent \<Rightarrow> bool" where
  "stored_event e e' \<longleftrightarrow> (\<exists>i now. e' = e\<lparr>ev_ID := i, ev_CreatedAt := now\<rparr>)"

definition ids :: "RedisUsageInbox list \<Rightarrow> int list" where
  "ids rs = map ib_ID rs"

definition queries_ok :: "'s inbox_db \<Rightarrow> ('s \<Rightarrow> RedisUsageInbox list) \<Rightarrow> bool" where
  "queries_ok db rows \<longleftrightarrow>
     (\<forall>cols P lim s rs. sql_list db cols P lim s = Inr rs \<longrightarrow> rs = map cols (limited lim (filter P (rows s)))) \<and>
     (\<forall>i s r. sql_first db i s = Inr r \<longrightarrow> r \<in> set (rows s) \<and> ib_ID r = i)"

definition updates_ok :: "'s inbox_db \<Rightarrow> ('s \<Rightarrow> RedisUsageInbox list) \<Rightarrow> ('s \<Rightarrow> UsageEvent list) \<Rightarrow> bool" where
  "updates_ok db rows evs \<longleftrightarrow>
     (\<forall>P f s res t. sql_set db P f s = (res, t) \<longrightarrow>
        evs t = evs s \<and> (becomes P f (rows s) (rows t) \<or> (\<exists>err. res = Inl err) \<and> rows t = rows s)) \<and>
     (\<forall>P s res t. sql_remove db P s = (res, t) \<longrightarrow> evs t = evs s \<and>
        rows t = (case res of Inl _ \<Rightarrow> rows s | Inr _ \<Rightarrow> filter (\<lambda>r. \<not> P r) (rows s)))"

definition inserts_ok :: "'s inbox_db \<Rightarrow> ('s \<Rightarrow> RedisUsageInbox list) \<Rightarrow> ('s \<Rightarrow> UsageEvent list) \<Rightarrow> bool" where
  "inserts_ok db rows evs \<longleftrightarrow>
     (\<forall>n rs s res t. sql_insert db n rs s = (res, t) \<longrightarrow> evs t = evs s \<and>
        (case res of
           Inl _ \<Rightarrow> rows t = rows s
         | Inr rs' \<Rightarrow> rows t = rows s @ rs' \<and> list_all2 stored_row rs rs' \<and> (distinct (ids (rows s)) \<longrightarrow> distinct (ids (rows t))))) \<and>
     (\<forall>es s res t. sql_insert_events db es s = (res, t) \<longrightarrow> rows t = rows s \<and>
        (case res of
           Inl _ \<Rightarrow> evs t = evs s
         | Inr (es', n) \<Rightarrow> evs t = evs s @ es' \<and> list_all2 stored_event es es' \<and> n = length es))"

definition transactions_ok :: "'s inbox_db \<Rightarrow> ('s \<Rightarrow> 't) \<Rightarrow> bool" where
  "transactions_ok db tables \<longleftrightarrow>
     (\<forall>s res t. sql_begin db s = (res, t) \<longrightarrow> tables t = tables s) \<and>
     (\<forall>s u. tables (sql_rollback db s u) = tables s) \<and>
     (\<forall>s u res v. sql_commit db s u = (res, v) \<longrightarrow> tables v = (case res of Inl _ \<Rightarrow> tables s | Inr _ \<Rightarrow> tables u))"

text \<open>The two tables.\<close>

type_synonym tables = "RedisUsageInbox list \<times> UsageEvent list"

definition inbox_db_ok :: "'s inbox_db \<Rightarrow> ('s \<Rightarrow> tables) \<Rightarrow> bool" where
  "inbox_db_ok db tables \<longleftrightarrow>
     queries_ok db (\<lambda>s. fst (tables s)) \<and> updates_ok db (\<lambda>s. fst (tables s)) (\<lambda>s. snd (tables s)) \<and>
     inserts_ok db (\<lambda>s. fst (tables s)) (\<lambda>s. snd (tables s)) \<and> transactions_ok db tables"

lemma holds_transaction_of:
  assumes db: "transactions_ok db tables"
    and body: "holds (\<lambda>s. tables s = T) body (\<lambda>res s. \<forall>x. res = Inr x \<longrightarrow> Q x (tables s))"
  shows "holds (\<lambda>s. tables s = T) (transaction db body) (\<lambda>res s. case res of Inl _ \<Rightarrow> tables s = T | Inr x \<Rightarrow> Q x (tables s))"
proof (rule holdsI)
  fix s res t assume s: "tables s = T" and r: "run_state (transaction db body) s = (res, t)"
  have laws: "\<And>s res t. sql_begin db s = (res, t) \<Longrightarrow> tables t = tables s" "\<And>s u. tables (sql_rollback db s u) = tables s"
    "\<And>s u res v. sql_commit db s u = (res, v) \<Longrightarrow> tables v = (case res of Inl _ \<Rightarrow> tables s | Inr _ \<Rightarrow> tables u)"
    using db unfolding transactions_ok_def by blast+
  obtain started t0 where t0: "sql_begin db s = (started, t0)" by fastforce
  have T: "tables t0 = T" using laws(1) [OF t0] s by simp
  obtain outcome u where u: "run_state body t0 = (outcome, u)" by fastforce
  note q = holdsD [OF body T u]
  obtain committed v where v: "sql_commit db t0 u = (committed, v)" by fastforce
  show "case res of Inl _ \<Rightarrow> tables t = T | Inr x \<Rightarrow> Q x (tables t)"
    using r T q laws(2) [of t0 u] laws(3) [OF v]
    by (auto simp: transaction_def t0 u v split: sum.splits)
qed

lemma run_and_then:
  "run_state (and_then c f) s = (Inr y, t) \<longleftrightarrow> (\<exists>x u. run_state c s = (Inr x, u) \<and> run_state (f x) u = (Inr y, t))"
  by (auto simp: and_then_def split: sum.splits prod.splits)

lemma run_wrapped: "run_state (wrapped what c) s = (Inr y, t) \<longleftrightarrow> run_state c s = (Inr y, t)"
  by (cases "run_state c s"; cases "fst (run_state c s)") (auto simp: wrapped_def)

lemma sql_set_effect:
  assumes "inbox_db_ok db tables" and "sql_set db P f s = (res, t)"
  obtains (updated) "becomes P f (fst (tables s)) (fst (tables t))" "snd (tables t) = snd (tables s)"
  | (refused) err where "res = Inl err" "tables t = tables s"
  using assms unfolding inbox_db_ok_def updates_ok_def by (metis prod.expand)

lemma sql_list_result:
  "inbox_db_ok db tables \<Longrightarrow> sql_list db cols P lim s = Inr rs \<Longrightarrow> rs = map cols (limited lim (filter P (fst (tables s))))"
  by (simp add: inbox_db_ok_def queries_ok_def)

lemma sql_first_result:
  "inbox_db_ok db tables \<Longrightarrow> sql_first db i s = Inr r \<Longrightarrow> r \<in> set (fst (tables s)) \<and> ib_ID r = i"
  by (simp add: inbox_db_ok_def queries_ok_def)

lemma becomes_ids: "becomes P f rs rs' \<Longrightarrow> (\<And>r. P r \<Longrightarrow> ib_ID (f r) = ib_ID r) \<Longrightarrow> ids rs' = ids rs"
  unfolding becomes_def ids_def
  by (induction rule: list_all2_induct) (auto split: if_splits)

lemma becomes_in:
  assumes "becomes P f rs rs'" and "r' \<in> set rs'"
  obtains r where "r \<in> set rs" and "if P r then \<exists>now. r' = (f r)\<lparr>ib_UpdatedAt := now\<rparr> else r' = r"
proof -
  obtain i where i: "i < length rs'" "rs' ! i = r'" using assms(2) by (auto simp: in_set_conv_nth)
  show thesis
    by (rule that [of "rs ! i"]) (use assms(1) i in \<open>auto simp: becomes_def list_all2_conv_all_nth\<close>)
qed

lemma becomes_of:
  assumes "becomes P f rs rs'" and "r \<in> set rs"
  obtains r' where "r' \<in> set rs'" and "if P r then \<exists>now. r' = (f r)\<lparr>ib_UpdatedAt := now\<rparr> else r' = r"
proof -
  obtain i where i: "i < length rs" "rs ! i = r" using assms(2) by (auto simp: in_set_conv_nth)
  show thesis
    by (rule that [of "rs' ! i"]) (use assms(1) i in \<open>auto simp: becomes_def list_all2_conv_all_nth\<close>)
qed

lemma same_id: "distinct (ids rs) \<Longrightarrow> q \<in> set rs \<Longrightarrow> r \<in> set rs \<Longrightarrow> ib_ID q = ib_ID r \<Longrightarrow> q = r"
  by (auto simp: ids_def distinct_map inj_on_def)

section \<open>Where an event comes from\<close>

text \<open>The routes of an event: its executor where that is registered, or the type of its credential.\<close>

definition route :: "(string \<Rightarrow> string) \<Rightarrow> string \<Rightarrow> handlerResolution \<Rightarrow> bool" where
  "route uni execType res \<longleftrightarrow>
     (ResolveExecutor uni execType = Inr res \<and> \<not> needsIdentity res) \<or>
     (\<exists>identType. ResolveIdentity uni execType identType = Inr res)"

definition normalized_from :: "(string \<Rightarrow> string) \<Rightarrow> UsageEvent \<Rightarrow> UsageEvent \<Rightarrow> bool" where
  "normalized_from uni e e' \<longleftrightarrow>
     (\<exists>res. route uni (ev_ExecutorType e) res \<and>
        e' = applyTokenProcessResult e (Process uni (tokenValuesFromUsageEvent e) (Some res)))"

definition prepared_from :: "'n decode_env \<Rightarrow> string \<Rightarrow> UsageEvent \<Rightarrow> bool" where
  "prepared_from env message e \<longleftrightarrow>
     (\<exists>fetchedAt decoded raw snapshot.
        DecodeRedisUsageMessageWithHeaders env message fetchedAt = Inr (decoded, raw, snapshot) \<and>
        normalized_from (de_uni env) decoded e)"

definition comes_from :: "'n decode_env \<Rightarrow> string \<Rightarrow> UsageEvent \<Rightarrow> bool" where
  "comes_from env message e \<longleftrightarrow> (\<exists>normal. prepared_from env message normal \<and> stored_event normal e)"

text \<open>Whether a message can be decoded, and the key of its event, do not depend on the time.\<close>

definition message_key :: "'n decode_env \<Rightarrow> string \<Rightarrow> string option" where
  "message_key env message =
     (case js_detail env message of
        Inl err \<Rightarrow> None
      | Inr d \<Rightarrow> if go_trim_space (qd_RequestID d) = [] then None else Some (go_trim_space (qd_RequestID d)))"

lemma decode_key:
  shows "DecodeRedisUsageMessageWithHeaders env m at = Inr (e, raw, snapshot) \<Longrightarrow> message_key env m = Some (ev_EventKey e)"
    and "DecodeRedisUsageMessageWithHeaders env m at = Inl err \<Longrightarrow> message_key env m = None"
  by (auto simp: DecodeRedisUsageMessageWithHeaders_def message_key_def toUsageEvent_def Let_def split: sum.splits if_splits)

lemma normalized_key: "normalized_from uni e e' \<Longrightarrow> ev_EventKey e' = ev_EventKey e"
  by (auto simp: normalized_from_def applyTokenProcessResult_def)

lemma stored_key: "stored_event e e' \<Longrightarrow> ev_EventKey e' = ev_EventKey e"
  by (auto simp: stored_event_def)

lemma comes_from_key: "comes_from env m e \<Longrightarrow> message_key env m = Some (ev_EventKey e)"
  unfolding comes_from_def prepared_from_def by (metis decode_key(1) normalized_key stored_key)

section \<open>The abstract machine\<close>

text \<open>
  What the inbox promises, without the code's loops and errors: the tables change by moves.  A message arrives; a row of
  the batch at hand is found undecodable, or its processing has failed, or its event is stored in the step that marks it
  processed; old rows that are finished, or have failed, are deleted.  Only a row that is pending or to be retried moves.
\<close>

definition undecodable :: "string option \<Rightarrow> RedisUsageInbox \<Rightarrow> RedisUsageInbox" where
  "undecodable err row = row\<lparr>ib_Status := RedisUsageInboxStatusDecodeFailed, ib_AttemptCount := ib_AttemptCount row + 1,
     ib_LastError := boundedRedisUsageInboxError err\<rparr>"

definition at_hand :: "(int \<Rightarrow> string) \<Rightarrow> int set \<Rightarrow> RedisUsageInbox list \<Rightarrow> bool" where
  "at_hand m J rs \<longleftrightarrow> (\<forall>i \<in> J. \<exists>q \<in> set rs. ib_ID q = i \<and> ib_RawMessage q = m i \<and> processable q)"

definition settled :: "int set \<Rightarrow> RedisUsageInbox list \<Rightarrow> bool" where
  "settled K rs \<longleftrightarrow> (\<forall>q \<in> set rs. ib_ID q \<in> K \<longrightarrow> \<not> processable q)"

lemma keeps_id [simp]:
  "ib_ID (undecodable err r) = ib_ID r" "ib_ID (process_failure err r) = ib_ID r" "ib_ID (mark_processed batch at r) = ib_ID r"
  "ib_RawMessage (undecodable err r) = ib_RawMessage r" "ib_RawMessage (process_failure err r) = ib_RawMessage r"
  "ib_RawMessage (mark_processed batch at r) = ib_RawMessage r"
  by (simp_all add: undecodable_def process_failure_def mark_processed_def)

lemma not_processable [simp]: "\<not> processable (undecodable err r)" "\<not> processable (mark_processed batch at r)"
  by (simp_all add: undecodable_def mark_processed_def processable_def)

lemma processable_updated [simp]: "processable (r\<lparr>ib_UpdatedAt := now\<rparr>) = processable r"
  by (simp add: processable_def)

lemma at_hand_becomes:
  assumes "becomes (\<lambda>r. ib_ID r \<in> S) f rs rs'" and "at_hand m J rs" and "J \<inter> S = {}"
  shows "at_hand m J rs'"
  unfolding at_hand_def
proof
  fix i assume i: "i \<in> J"
  then obtain q where q: "q \<in> set rs" "ib_ID q = i" "ib_RawMessage q = m i" "processable q"
    using assms(2) unfolding at_hand_def by blast
  obtain r' where "r' \<in> set rs'" "if ib_ID q \<in> S then \<exists>now. r' = (f q)\<lparr>ib_UpdatedAt := now\<rparr> else r' = q"
    by (rule becomes_of [OF assms(1) q(1)])
  moreover have "ib_ID q \<notin> S" using assms(3) i q(2) by auto
  ultimately show "\<exists>q \<in> set rs'. ib_ID q = i \<and> ib_RawMessage q = m i \<and> processable q" using q by auto
qed

lemma settled_becomes:
  assumes "becomes (\<lambda>r. ib_ID r \<in> S) f rs rs'" and "\<And>r. ib_ID (f r) = ib_ID r"
  shows "settled K rs \<Longrightarrow> K \<inter> S = {} \<Longrightarrow> settled K rs'"
    and "(\<And>r. ib_ID r \<in> S \<Longrightarrow> \<not> processable (f r)) \<Longrightarrow> settled S rs'"
proof -
  show "settled K rs'" if K: "settled K rs" "K \<inter> S = {}"
    unfolding settled_def
  proof (intro ballI impI)
    fix q assume q: "q \<in> set rs'" "ib_ID q \<in> K"
    obtain r where "r \<in> set rs" "if ib_ID r \<in> S then \<exists>now. q = (f r)\<lparr>ib_UpdatedAt := now\<rparr> else q = r"
      by (rule becomes_in [OF assms(1) q(1)])
    then show "\<not> processable q" using K q(2) assms(2) by (auto simp: settled_def split: if_splits)
  qed
  show "settled S rs'" if f: "\<And>r. ib_ID r \<in> S \<Longrightarrow> \<not> processable (f r)"
    unfolding settled_def
  proof (intro ballI impI)
    fix q assume q: "q \<in> set rs'" "ib_ID q \<in> S"
    obtain r where "r \<in> set rs" "if ib_ID r \<in> S then \<exists>now. q = (f r)\<lparr>ib_UpdatedAt := now\<rparr> else q = r"
      by (rule becomes_in [OF assms(1) q(1)])
    then show "\<not> processable q" using f q(2) by (auto split: if_splits)
  qed
qed

lemma settled_Un: "settled (K \<union> L) rs \<longleftrightarrow> settled K rs \<and> settled L rs"
  by (auto simp: settled_def)

text \<open>The moves of a batch, with the ids of its rows.\<close>

inductive move :: "'n decode_env \<Rightarrow> int set \<Rightarrow> tables \<Rightarrow> tables \<Rightarrow> bool" for env :: "'n decode_env" and B :: "int set" where
  decode_failure:
    "distinct (ids rs) \<Longrightarrow> q \<in> set rs \<Longrightarrow> ib_ID q \<in> B \<Longrightarrow> processable q \<Longrightarrow> message_key env (ib_RawMessage q) = None \<Longrightarrow>
     becomes (\<lambda>r. ib_ID r \<in> {ib_ID q}) (undecodable err) rs rs' \<Longrightarrow> move env B (rs, es) (rs', es)"
| processing_failure:
    "distinct (ids rs) \<Longrightarrow> q \<in> set rs \<Longrightarrow> ib_ID q \<in> B \<Longrightarrow> processable q \<Longrightarrow> message_key env (ib_RawMessage q) \<noteq> None \<Longrightarrow>
     becomes (\<lambda>r. ib_ID r \<in> {ib_ID q}) (process_failure err) rs rs' \<Longrightarrow> move env B (rs, es) (rs', es)"
| success:
    "distinct (ids rs) \<Longrightarrow> set qs \<subseteq> set rs \<Longrightarrow> distinct (ids qs) \<Longrightarrow> set (ids qs) \<subseteq> B \<Longrightarrow> list_all processable qs \<Longrightarrow>
     list_all2 (\<lambda>q. comes_from env (ib_RawMessage q)) qs es' \<Longrightarrow>
     becomes (\<lambda>r. ib_ID r \<in> set (ids qs))
       (mark_processed (map2 (\<lambda>q e. \<lparr>pu_ID = ib_ID q, pu_EventKey = ev_EventKey e\<rparr>) qs es') at) rs rs' \<Longrightarrow>
     move env B (rs, es) (rs', es @ es')"

text \<open>
  Between the statements of a batch: the tables have moved from \<open>T\<close>, the rows \<open>J\<close>, with the messages \<open>m\<close>, are still to
  be dealt with, and the rows \<open>K\<close> are done with.
\<close>

definition working :: "'n decode_env \<Rightarrow> int set \<Rightarrow> ('s \<Rightarrow> tables) \<Rightarrow> tables \<Rightarrow> (int \<Rightarrow> string) \<Rightarrow> int set \<Rightarrow> int set \<Rightarrow> 's \<Rightarrow> bool" where
  "working env B tables T m J K s \<longleftrightarrow>
     (move env B)\<^sup>*\<^sup>* T (tables s) \<and> distinct (ids (fst (tables s))) \<and> at_hand m J (fst (tables s)) \<and> settled K (fst (tables s))"

lemma working_pending:
  assumes "working env B tables T m J K s" and "i \<in> J"
  obtains q where "q \<in> set (fst (tables s))" "ib_ID q = i" "ib_RawMessage q = m i" "processable q"
  using assms unfolding working_def at_hand_def by blast

text \<open>A change of rows at hand, to rows that are or are not dealt with by it.\<close>

lemma working_becomes:
  assumes w: "working env B tables T m (J \<union> S) K s" and "J \<inter> S = {}" and "K \<inter> S = {}"
    and b: "becomes (\<lambda>r. ib_ID r \<in> S) f (fst (tables s)) (fst (tables t))" and f: "\<And>r. ib_ID (f r) = ib_ID r"
    and step: "move env B (tables s) (tables t)"
  shows "working env B tables T m J K t"
    and "(\<And>r. ib_ID r \<in> S \<Longrightarrow> \<not> processable (f r)) \<Longrightarrow> working env B tables T m J (K \<union> S) t"
proof -
  have w': "(move env B)\<^sup>*\<^sup>* T (tables s)" "distinct (ids (fst (tables s)))" "at_hand m J (fst (tables s))" "settled K (fst (tables s))"
    using w by (auto simp: working_def at_hand_def)
  have "(move env B)\<^sup>*\<^sup>* T (tables t)" using w'(1) step by simp
  moreover have "distinct (ids (fst (tables t)))" using becomes_ids [OF b f] w'(2) by simp
  moreover have "at_hand m J (fst (tables t))" by (rule at_hand_becomes [OF b w'(3) assms(2)])
  moreover have "settled K (fst (tables t))" by (rule settled_becomes(1) [OF b f w'(4) assms(3)])
  ultimately show keep: "working env B tables T m J K t" by (simp add: working_def)
  show "working env B tables T m J (K \<union> S) t" if "\<And>r. ib_ID r \<in> S \<Longrightarrow> \<not> processable (f r)"
    using keep settled_becomes(2) [OF b f that] by (simp add: working_def settled_Un)
qed

lemma working_same: "working env B tables T m J K s \<Longrightarrow> tables t = tables s \<Longrightarrow> J' \<subseteq> J \<Longrightarrow> working env B tables T m J' K t"
  by (auto simp: working_def at_hand_def)

section \<open>Rows that fail\<close>

lemma mark_decode_failed:
  assumes db: "inbox_db_ok db tables" and i: "i \<in> B" "i \<notin> J" "i \<notin> K" and m: "message_key env (m i) = None"
  shows "holds (working env B tables T m (insert i J) K) (MarkRedisUsageInboxDecodeFailed db i err)
    (\<lambda>res. working env B tables T m J (case res of Inl _ \<Rightarrow> K | Inr _ \<Rightarrow> insert i K))"
proof (rule holdsI)
  fix s res t
  assume w: "working env B tables T m (insert i J) K s" and "run_state (MarkRedisUsageInboxDecodeFailed db i err) s = (res, t)"
  then have set: "sql_set db (\<lambda>r. ib_ID r = i) (undecodable err) s = (res, t)"
    by (simp add: MarkRedisUsageInboxDecodeFailed_def markRedisUsageInboxFailed_def undecodable_def [abs_def])
  show "working env B tables T m J (case res of Inl _ \<Rightarrow> K | Inr _ \<Rightarrow> insert i K) t"
  proof (cases rule: sql_set_effect [OF db set])
    case 1
    obtain q where q: "q \<in> set (fst (tables s))" "ib_ID q = i" "ib_RawMessage q = m i" "processable q"
      using working_pending [OF w, of i] by blast
    have b: "becomes (\<lambda>r. ib_ID r \<in> {i}) (undecodable err) (fst (tables s)) (fst (tables t))" using 1(1) by simp
    have "move env B (fst (tables s), snd (tables s)) (fst (tables t), snd (tables s))"
      by (rule decode_failure [of _ q]) (use w q i m b in \<open>simp_all add: working_def\<close>)
    then have step: "move env B (tables s) (tables t)" using 1(2) by (metis prod.collapse)
    have w': "working env B tables T m (J \<union> {i}) K s" using w by simp
    note after = working_becomes [OF w' _ _ b keeps_id(1) step]
    show ?thesis using after i by (auto split: sum.split)
  next
    case (2 e)
    then show ?thesis using working_same [OF w 2(2)] by auto
  qed
qed

text \<open>A row whose processing has failed is to be retried or discarded, and only the latter is dealt with.\<close>

lemma mark_process_failed:
  assumes db: "inbox_db_ok db tables" and i: "i \<in> B" "i \<notin> J" "i \<notin> K" and m: "message_key env (m i) \<noteq> None"
  shows "holds (working env B tables T m (insert i J) K) (MarkRedisUsageInboxProcessFailed db i err)
    (\<lambda>res s. working env B tables T m J K s \<and>
       (\<forall>x r. res = Inr x \<longrightarrow> r \<in> set (fst (tables s)) \<longrightarrow> ib_ID r = i \<longrightarrow>
          ib_Status r = (if processable r then RedisUsageInboxStatusProcessFailed else RedisUsageInboxStatusDiscarded)))"
proof (rule holdsI)
  fix s res t
  assume w: "working env B tables T m (insert i J) K s" and "run_state (MarkRedisUsageInboxProcessFailed db i err) s = (res, t)"
  then have set: "sql_set db (\<lambda>r. ib_ID r = i) (process_failure err) s = (res, t)"
    by (simp add: MarkRedisUsageInboxProcessFailed_def)
  show "working env B tables T m J K t \<and>
       (\<forall>x r. res = Inr x \<longrightarrow> r \<in> set (fst (tables t)) \<longrightarrow> ib_ID r = i \<longrightarrow>
          ib_Status r = (if processable r then RedisUsageInboxStatusProcessFailed else RedisUsageInboxStatusDiscarded))"
  proof (cases rule: sql_set_effect [OF db set])
    case 1
    obtain q where q: "q \<in> set (fst (tables s))" "ib_ID q = i" "ib_RawMessage q = m i" "processable q"
      using working_pending [OF w, of i] by blast
    have b: "becomes (\<lambda>r. ib_ID r \<in> {i}) (process_failure err) (fst (tables s)) (fst (tables t))" using 1(1) by simp
    have "move env B (fst (tables s), snd (tables s)) (fst (tables t), snd (tables s))"
      by (rule processing_failure [of _ q]) (use w q i m b in \<open>simp_all add: working_def\<close>)
    then have step: "move env B (tables s) (tables t)" using 1(2) by (metis prod.collapse)
    have w': "working env B tables T m (J \<union> {i}) K s" using w by simp
    have "ib_Status r = (if processable r then RedisUsageInboxStatusProcessFailed else RedisUsageInboxStatusDiscarded)"
      if "r \<in> set (fst (tables t))" "ib_ID r = i" for r
      by (rule becomes_in [OF b that(1)]) (use that(2) in \<open>auto simp: process_failure_def processable_def split: if_splits\<close>)
    then show ?thesis using working_becomes(1) [OF w' _ _ b keeps_id(2) step] i by auto
  next
    case (2 e)
    then show ?thesis using working_same [OF w 2(2)] by auto
  qed
qed

lemma holds_and_then:
  assumes "holds P c R" and "\<And>e s. R (Inl e) s \<Longrightarrow> Q (Inl e) s" and "\<And>x. holds (R (Inr x)) (f x) Q"
  shows "holds P (and_then c f) Q"
  unfolding and_then_def
proof (rule holds_bind [OF assms(1)])
  show "holds (R res) (case res of Inl err \<Rightarrow> State_Monad.return (Inl err) | Inr x \<Rightarrow> f x) Q" for res
    using assms(2, 3) by (cases res) (auto intro: holds_return)
qed

lemma holds_wrapped: "holds P c (\<lambda>res. Q (map_sum (\<lambda>err. what @ '': '' @ err) (\<lambda>x. x) res)) \<Longrightarrow> holds P (wrapped what c) Q"
  unfolding wrapped_def by (rule holds_bind) (auto intro: holds_return)

section \<open>Decoding\<close>

text \<open>Rows, events and snapshots of the valid messages stay aligned.\<close>

definition decoded_ok :: "'n decode_env \<Rightarrow> gtime \<Rightarrow> 'n decoded_batch \<Rightarrow> bool" where
  "decoded_ok env at batch \<longleftrightarrow>
     length (dc_eventSnapshots batch) = length (dc_events batch) \<and>
     list_all2 (\<lambda>row (event, snapshot). DecodeRedisUsageMessageWithHeaders env (ib_RawMessage row) at = Inr (event, ib_RawMessage row, snapshot))
       (dc_validRows batch) (zip (dc_events batch) (dc_eventSnapshots batch))"

lemma decoded_ok_append:
  assumes "decoded_ok env at batch"
    and "DecodeRedisUsageMessageWithHeaders env (ib_RawMessage row) at = Inr (event, ib_RawMessage row, snapshot)"
  shows "decoded_ok env at (batch\<lparr>dc_validRows := dc_validRows batch @ [row], dc_events := dc_events batch @ [event],
           dc_eventSnapshots := dc_eventSnapshots batch @ [snapshot]\<rparr>)"
  using assms by (auto simp: decoded_ok_def intro: list_all2_appendI)

text \<open>\<open>A\<close> are the ids of the batch; what is neither valid nor still to be decoded is done with.\<close>

lemma decode_rows_moves:
  assumes db: "inbox_db_ok db tables" and A: "A \<subseteq> B"
  shows "distinct (ids (dc_validRows batch @ rows)) \<Longrightarrow> set (ids (dc_validRows batch @ rows)) \<subseteq> A \<Longrightarrow>
    (\<And>r. r \<in> set rows \<Longrightarrow> m (ib_ID r) = ib_RawMessage r) \<Longrightarrow> decoded_ok env at batch \<Longrightarrow>
    holds (working env B tables T m (set (ids (dc_validRows batch @ rows))) (A - set (ids (dc_validRows batch @ rows))))
      (decode_rows db env at rows batch)
      (\<lambda>res s. case res of
         Inl _ \<Rightarrow> (move env B)\<^sup>*\<^sup>* T (tables s)
       | Inr batch' \<Rightarrow> decoded_ok env at batch' \<and> distinct (ids (dc_validRows batch')) \<and>
           set (dc_validRows batch') \<subseteq> set (dc_validRows batch @ rows) \<and>
           working env B tables T m (set (ids (dc_validRows batch'))) (A - set (ids (dc_validRows batch'))) s)"
proof (induction rows arbitrary: batch)
  case Nil
  then show ?case by (auto simp: gives_def intro: holds_return)
next
  case (Cons row rows)
  show ?case
  proof (cases "DecodeRedisUsageMessageWithHeaders env (ib_RawMessage row) at")
    case (Inl err)
    let ?J = "set (ids (dc_validRows batch @ rows))"
    let ?batch = "batch\<lparr>dc_decodeErrs := dc_decodeErrs batch @ [err]\<rparr>"
    have i: "ib_ID row \<in> B" "ib_ID row \<notin> ?J" "ib_ID row \<notin> A - insert (ib_ID row) ?J"
      using Cons.prems(1, 2) A by (auto simp: ids_def)
    have K: "insert (ib_ID row) (A - insert (ib_ID row) ?J) = A - ?J"
      using Cons.prems(1, 2) by (auto simp: ids_def)
    have key: "message_key env (m (ib_ID row)) = None"
      using Cons.prems(3) [of row] decode_key(2) [OF Inl] by simp
    have others: "holds (working env B tables T m ?J (A - ?J)) (decode_rows db env at rows ?batch)
      (\<lambda>res s. case res of
         Inl _ \<Rightarrow> (move env B)\<^sup>*\<^sup>* T (tables s)
       | Inr batch' \<Rightarrow> decoded_ok env at batch' \<and> distinct (ids (dc_validRows batch')) \<and>
           set (dc_validRows batch') \<subseteq> set (dc_validRows batch @ row # rows) \<and>
           working env B tables T m (set (ids (dc_validRows batch'))) (A - set (ids (dc_validRows batch'))) s)"
      by (rule holds_post [OF Cons.IH [of ?batch, simplified]])
        (use Cons.prems in \<open>auto simp: ids_def decoded_ok_def split: sum.splits\<close>)
    have ids_row: "set (ids (dc_validRows batch @ row # rows)) = insert (ib_ID row) ?J" by (auto simp: ids_def)
    show ?thesis
      unfolding ids_row decode_rows.simps Inl sum.case
    proof (rule holds_and_then)
      show "holds (working env B tables T m (insert (ib_ID row) ?J) (A - insert (ib_ID row) ?J))
        (wrapped ''mark redis usage inbox decode failed'' (MarkRedisUsageInboxDecodeFailed db (ib_ID row) (Some err)))
        (\<lambda>res. case res of Inl _ \<Rightarrow> (\<lambda>s. (move env B)\<^sup>*\<^sup>* T (tables s)) | Inr _ \<Rightarrow> working env B tables T m ?J (A - ?J))"
        by (rule holds_wrapped, rule holds_post [OF mark_decode_failed [where m = m, OF db i key]])
          (auto simp: K working_def split: sum.splits)
    qed (use others in auto)
  next
    case (Inr decoded)
    obtain event snapshot where e: "decoded = (event, ib_RawMessage row, snapshot)"
      using Inr decoded_event_complete(2) by (metis prod_cases3)
    have valid: "DecodeRedisUsageMessageWithHeaders env (ib_RawMessage row) at = Inr (event, ib_RawMessage row, snapshot)"
      using Inr e by simp
    note step = decoded_ok_append [OF Cons.prems(4) valid]
    show ?thesis
      using Cons.IH [OF _ _ _ step] Cons.prems by (simp add: valid cong: sum.case_cong)
  qed
qed

section \<open>Marking failures\<close>

lemma requiresRetryWait_mark:
  "requiresRetryWait counts \<Longrightarrow> holds (\<lambda>_. True) (mark_failed_rows db err rows counts) (\<lambda>c _. requiresRetryWait c)"
proof (induction rows arbitrary: counts)
  case Nil
  then show ?case by (simp add: holds_def)
next
  case (Cons row rows)
  have grows: "requiresRetryWait (counts\<lparr>fc_statusUncertain := True\<rparr>)" "requiresRetryWait (counts\<lparr>fc_discarded := n\<rparr>)"
    "requiresRetryWait (counts\<lparr>fc_processFailed := Suc n\<rparr>)" for n
    using Cons.prems by (auto simp: requiresRetryWait_def)
  show ?case
    unfolding mark_failed_rows.simps
  proof (rule holds_bind [where R = "\<lambda>_ _. True"], simp add: holds_def, rule holds_sum)
    show "holds (\<lambda>_. True) (mark_failed_rows db err rows (counts\<lparr>fc_statusUncertain := True\<rparr>)) (\<lambda>c _. requiresRetryWait c)"
      by (rule Cons.IH [OF grows(1)])
  next
    show "holds (\<lambda>_. True) (reads (sql_first db (ib_ID row)) \<bind> (\<lambda>loaded. case loaded of
         Inl _ \<Rightarrow> mark_failed_rows db err rows (counts\<lparr>fc_statusUncertain := True\<rparr>)
       | Inr stored \<Rightarrow> mark_failed_rows db err rows
           (if ib_Status stored = RedisUsageInboxStatusDiscarded then counts\<lparr>fc_discarded := fc_discarded counts + 1\<rparr>
            else if ib_Status stored = RedisUsageInboxStatusProcessFailed then counts\<lparr>fc_processFailed := fc_processFailed counts + 1\<rparr>
            else counts))) (\<lambda>c _. requiresRetryWait c)"
      by (rule holds_bind [where R = "\<lambda>_ _. True"], simp add: holds_def, rule holds_sum; rule Cons.IH)
        (simp_all add: grows Cons.prems)
  qed
qed

text \<open>Unless the counts ask for a wait, every row is done with.\<close>

lemma mark_failed_moves:
  assumes db: "inbox_db_ok db tables"
  shows "distinct (ids rows) \<Longrightarrow> set (ids rows) \<subseteq> B \<Longrightarrow> J \<inter> set (ids rows) = {} \<Longrightarrow> K \<inter> set (ids rows) = {} \<Longrightarrow>
    (\<And>i. i \<in> set (ids rows) \<Longrightarrow> message_key env (m i) \<noteq> None) \<Longrightarrow>
    holds (working env B tables T m (J \<union> set (ids rows)) K) (mark_failed_rows db err rows counts)
      (\<lambda>c s. working env B tables T m J K s \<and> (\<not> requiresRetryWait c \<longrightarrow> settled (set (ids rows)) (fst (tables s))))"
proof (induction rows arbitrary: counts K)
  case Nil
  then show ?case by (simp add: holds_def ids_def settled_def)
next
  case (Cons row rows)
  let ?i = "ib_ID row" and ?J = "J \<union> set (ids rows)"
  have i: "?i \<in> B" "?i \<notin> ?J" "?i \<notin> K" and key: "message_key env (m ?i) \<noteq> None"
    using Cons.prems by (auto simp: ids_def)
  have disj: "distinct (ids rows)" "set (ids rows) \<subseteq> B" "J \<inter> set (ids rows) = {}" "K \<inter> set (ids rows) = {}"
    "insert ?i K \<inter> set (ids rows) = {}" "\<And>i. i \<in> set (ids rows) \<Longrightarrow> message_key env (m i) \<noteq> None"
    using Cons.prems by (auto simp: ids_def)
  let ?Q = "\<lambda>c s. working env B tables T m J K s \<and> (\<not> requiresRetryWait c \<longrightarrow> settled (set (ids (row # rows))) (fst (tables s)))"
  have wait: "holds (working env B tables T m ?J K) (mark_failed_rows db err rows c) ?Q" if "requiresRetryWait c" for c
    using Cons.IH [OF disj(1-4, 6), of c] requiresRetryWait_mark [OF that, of db err rows]
    by (simp add: holds_def)
  have finished: "holds (working env B tables T m ?J (insert ?i K)) (mark_failed_rows db err rows c) ?Q" for c
    by (rule holds_post [OF Cons.IH [OF disj(1-3, 5-6), of c]]) (auto simp: working_def settled_def ids_def)
  have ids_row: "J \<union> set (ids (row # rows)) = insert ?i ?J" by (auto simp: ids_def)
  show ?case
    unfolding mark_failed_rows.simps ids_row
  proof (rule holds_bind [OF mark_process_failed [where m = m, OF db i key]], rule holds_sum)
    show "holds (\<lambda>s. working env B tables T m ?J K s \<and>
        (\<forall>x r. res = Inr x \<longrightarrow> r \<in> set (fst (tables s)) \<longrightarrow> ib_ID r = ?i \<longrightarrow>
          ib_Status r = (if processable r then RedisUsageInboxStatusProcessFailed else RedisUsageInboxStatusDiscarded)))
      (mark_failed_rows db err rows (counts\<lparr>fc_statusUncertain := True\<rparr>)) ?Q" for res :: "string + unit"
      by (rule holds_pre [OF wait]) (auto simp: requiresRetryWait_def)
  next
    fix res :: "string + unit" and y assume res: "res = Inr y"
    let ?P = "\<lambda>s. working env B tables T m ?J K s \<and>
        (\<forall>x r. res = Inr x \<longrightarrow> r \<in> set (fst (tables s)) \<longrightarrow> ib_ID r = ?i \<longrightarrow>
          ib_Status r = (if processable r then RedisUsageInboxStatusProcessFailed else RedisUsageInboxStatusDiscarded))"
    show "holds ?P (reads (sql_first db ?i) \<bind> (\<lambda>loaded. case loaded of
         Inl _ \<Rightarrow> mark_failed_rows db err rows (counts\<lparr>fc_statusUncertain := True\<rparr>)
       | Inr stored \<Rightarrow> mark_failed_rows db err rows
           (if ib_Status stored = RedisUsageInboxStatusDiscarded then counts\<lparr>fc_discarded := fc_discarded counts + 1\<rparr>
            else if ib_Status stored = RedisUsageInboxStatusProcessFailed then counts\<lparr>fc_processFailed := fc_processFailed counts + 1\<rparr>
            else counts))) ?Q"
    proof (rule holds_bind [where R = "\<lambda>loaded s. ?P s \<and> (\<forall>r. loaded = Inr r \<longrightarrow> r \<in> set (fst (tables s)) \<and> ib_ID r = ?i)"], rule holds_reads,
        use sql_first_result [OF db] in blast, rule holds_sum)
      fix loaded :: "string + RedisUsageInbox" and e
      show "holds (\<lambda>s. ?P s \<and> (\<forall>r. loaded = Inr r \<longrightarrow> r \<in> set (fst (tables s)) \<and> ib_ID r = ?i))
        (mark_failed_rows db err rows (counts\<lparr>fc_statusUncertain := True\<rparr>)) ?Q"
        by (rule holds_pre [OF wait]) (auto simp: requiresRetryWait_def)
    next
      fix loaded :: "string + RedisUsageInbox" and stored assume l: "loaded = Inr stored"
      have case_done: "working env B tables T m ?J (insert ?i K) s"
        if "?P s" "stored \<in> set (fst (tables s))" "ib_ID stored = ?i" "ib_Status stored \<noteq> RedisUsageInboxStatusProcessFailed" for s
      proof -
        have stopped: "\<not> processable stored" using that res by metis
        have dist: "distinct (ids (fst (tables s)))" and w: "working env B tables T m ?J K s"
          using that(1) by (simp_all add: working_def)
        have "\<not> processable q" if "q \<in> set (fst (tables s))" "ib_ID q = ?i" for q
          using same_id [OF dist that(1) \<open>stored \<in> set (fst (tables s))\<close>] that(2) \<open>ib_ID stored = ?i\<close> stopped by simp
        then have "settled {?i} (fst (tables s))" unfolding settled_def by blast
        then show ?thesis using w settled_Un [of "{?i}" K] by (simp add: working_def)
      qed
      show "holds (\<lambda>s. ?P s \<and> (\<forall>r. loaded = Inr r \<longrightarrow> r \<in> set (fst (tables s)) \<and> ib_ID r = ?i))
        (mark_failed_rows db err rows
           (if ib_Status stored = RedisUsageInboxStatusDiscarded then counts\<lparr>fc_discarded := fc_discarded counts + 1\<rparr>
            else if ib_Status stored = RedisUsageInboxStatusProcessFailed then counts\<lparr>fc_processFailed := fc_processFailed counts + 1\<rparr>
            else counts)) ?Q"
      proof (cases "ib_Status stored = RedisUsageInboxStatusProcessFailed")
        case True
        show ?thesis by (rule holds_pre [OF wait]) (use True in \<open>auto simp: requiresRetryWait_def\<close>)
      next
        case False
        show ?thesis by (rule holds_pre [OF finished]) (use case_done False l in blast)
      qed
    qed
  qed
qed

lemma mark_process_failed_rows:
  assumes "inbox_db_ok db tables" and "distinct (ids rows)" and "set (ids rows) \<subseteq> B" and "J \<inter> set (ids rows) = {}"
    and "K \<inter> set (ids rows) = {}" and "\<And>i. i \<in> set (ids rows) \<Longrightarrow> message_key env (m i) \<noteq> None"
  shows "holds (working env B tables T m (J \<union> set (ids rows)) K) (markRedisInboxRowsProcessFailed db rows (Some err))
      (\<lambda>c s. working env B tables T m J (if requiresRetryWait c then K else K \<union> set (ids rows)) s)"
  unfolding markRedisInboxRowsProcessFailed_def option.case
  by (rule holds_post [OF mark_failed_moves [OF assms]]) (auto simp: working_def settled_Un)

end
