(* ===== verification/InboxBatch.thy ===== *)
theory InboxBatch
  imports InboxSafety
begin

text \<open>
  A batch as a whole: the transaction that stores events and marks rows, and the processing of the inbox as a sequence of
  moves of the abstract machine.
\<close>

section \<open>The transaction\<close>

lemma holds_transaction:
  assumes "inbox_db_ok db tables"
    and "holds (\<lambda>s. tables s = T) body (\<lambda>res s. \<forall>x. res = Inr x \<longrightarrow> Q x (tables s))"
  shows "holds (\<lambda>s. tables s = T) (transaction db body) (\<lambda>res s. case res of Inl _ \<Rightarrow> tables s = T | Inr x \<Rightarrow> Q x (tables s))"
  using holds_transaction_of [OF _ assms(2)] assms(1) unfolding inbox_db_ok_def by blast

lemma insert_event_batches_effect:
  assumes db: "inbox_db_ok db tables"
  shows "run_state (insert_event_batches db events start inserted stored) s = (Inr (n, stored'), t) \<Longrightarrow>
    tables s = (rs, es @ stored) \<Longrightarrow> list_all2 stored_event (take start events) stored \<Longrightarrow> inserted = length stored \<Longrightarrow>
    tables t = (rs, es @ stored') \<and> list_all2 stored_event events stored' \<and> n = length stored'"
proof (induction "length events - start" arbitrary: start inserted stored s rule: less_induct)
  case less
  note IH = less(1) and run = less(2) and s = less(3) and stored = less(4) and inserted = less(5)
  let ?size = "insertBatchSize (sql_event_columns db)"
  let ?stop = "min (start + ?size) (length events)"
  let ?batch = "take (?stop - start) (drop start events)"
  show ?case
  proof (cases "start < length events")
    case True
    obtain batch' k u where u: "sql_insert_events db ?batch s = (Inr (batch', k), u)"
      and rest: "run_state (insert_event_batches db events (start + ?size) (inserted + k) (stored @ batch')) u = (Inr (n, stored'), t)"
      using run True by (subst (asm) insert_event_batches.simps) (auto simp: Let_def run_and_then run_wrapped)
    have laws: "fst (tables u) = fst (tables s)" "snd (tables u) = snd (tables s) @ batch'" "list_all2 stored_event ?batch batch'"
      "k = length ?batch"
      using db u unfolding inbox_db_ok_def inserts_ok_def by fastforce+
    have k: "length batch' = k" using laws(3, 4) by (metis list_all2_lengthD)
    have split: "take (start + ?size) events = take start events @ ?batch"
      by (cases "start + ?size \<le> length events") (simp_all add: take_add min_def)
    have less: "length events - (start + ?size) < length events - start"
      using True insertBatchSize_pos [of "sql_event_columns db"] by linarith
    show ?thesis
    proof (rule IH [OF less rest])
      show "tables u = (rs, es @ (stored @ batch'))" using laws(1, 2) s by (simp add: prod_eq_iff)
      show "list_all2 stored_event (take (start + ?size) events) (stored @ batch')"
        unfolding split by (rule list_all2_appendI [OF stored laws(3)])
      show "inserted + k = length (stored @ batch')" using inserted k by simp
    qed
  next
    case False
    then show ?thesis
      using run s stored inserted by (subst (asm) insert_event_batches.simps) (auto simp: gives_def)
  qed
qed

lemma persist_events_effect:
  assumes db: "inbox_db_ok db tables"
  shows "holds (\<lambda>s. tables s = (rs, es)) (persistRedisUsageEvents db events)
    (\<lambda>res s. \<forall>result stored. res = Inr (result, stored) \<longrightarrow>
       tables s = (rs, es @ stored) \<and> list_all2 stored_event events stored \<and> sr_InsertedEvents result = length stored)"
proof (rule holdsI, intro allI impI)
  fix s res t result stored
  assume s: "tables s = (rs, es)" and run: "run_state (persistRedisUsageEvents db events) s = (res, t)" and res: "res = Inr (result, stored)"
  obtain n d where stored: "run_state (InsertUsageEvents (Some db) events) s = (Inr (n, d, stored), t)" and n: "sr_InsertedEvents result = n"
    using run res by (auto simp: persistRedisUsageEvents_def run_and_then run_wrapped gives_def)
  show "tables t = (rs, es @ stored) \<and> list_all2 stored_event events stored \<and> sr_InsertedEvents result = length stored"
  proof (cases "events = []")
    case True
    then show ?thesis using stored s n by (simp add: InsertUsageEvents_def gives_def)
  next
    case False
    have "holds (\<lambda>s. tables s = (rs, es)) (insert_event_batches db events 0 0 []) (\<lambda>res s. \<forall>x. res = Inr x \<longrightarrow>
        (case x of (n, stored) \<Rightarrow> \<lambda>T. T = (rs, es @ stored) \<and> list_all2 stored_event events stored \<and> n = length stored) (tables s))"
      by (rule holdsI) (auto dest: insert_event_batches_effect [OF db])
    note whole = holds_transaction [OF db this]
    obtain x u where u: "run_state (transaction db (insert_event_batches db events 0 0 [])) s = (Inr x, u)"
      and x: "x = (n, stored)" "u = t"
      using stored False by (auto simp: InsertUsageEvents_def run_and_then gives_def)
    show ?thesis using holdsD [OF whole s u] x n by simp
  qed
qed

text \<open>One update after another, of different rows, is one update.\<close>

lemma becomes_compose:
  assumes "becomes (\<lambda>r. ib_ID r \<in> A) f rs rs1" and "becomes (\<lambda>r. ib_ID r \<in> C) g rs1 rs2" and "A \<inter> C = {}"
    and "\<And>r. ib_ID (f r) = ib_ID r" and "\<And>r. ib_ID r \<in> C \<Longrightarrow> g r = f r"
  shows "becomes (\<lambda>r. ib_ID r \<in> A \<union> C) f rs rs2"
  unfolding becomes_def
proof (rule list_all2_trans [OF _ assms(1, 2) [unfolded becomes_def]])
  fix r r1 r2
  assume r1: "if ib_ID r \<in> A then \<exists>now. r1 = (f r)\<lparr>ib_UpdatedAt := now\<rparr> else r1 = r"
    and r2: "if ib_ID r1 \<in> C then \<exists>now. r2 = (g r1)\<lparr>ib_UpdatedAt := now\<rparr> else r2 = r1"
  have "ib_ID r1 = ib_ID r" using r1 assms(4) by (auto split: if_splits)
  then show "if ib_ID r \<in> A \<union> C then \<exists>now. r2 = (f r)\<lparr>ib_UpdatedAt := now\<rparr> else r2 = r"
    using r1 r2 assms(3, 5) by (auto split: if_splits)
qed

text \<open>A sub-batch gives every one of its rows the key that the whole list gives it.\<close>

lemma mark_processed_part:
  assumes "distinct (map pu_ID updates)" and "set part \<subseteq> set updates" and "distinct (map pu_ID part)" and "ib_ID r \<in> set (map pu_ID part)"
  shows "mark_processed part at r = mark_processed updates at r"
proof -
  let ?pairs = "map (\<lambda>u. (pu_ID u, pu_EventKey u))"
  obtain u where u: "u \<in> set part" "pu_ID u = ib_ID r" using assms(4) by auto
  have "map_of (?pairs us) (ib_ID r) = Some (pu_EventKey u)" if "distinct (map pu_ID us)" "u \<in> set us" for us
    using that u(2) by (intro map_of_is_SomeI) (auto simp: comp_def intro: rev_image_eqI)
  then have "map_of (?pairs part) (ib_ID r) = map_of (?pairs updates) (ib_ID r)"
    using assms(1-3) u(1) by auto
  then show ?thesis by (simp add: mark_processed_def)
qed

lemma becomes_none: "becomes (\<lambda>r. ib_ID r \<in> {}) f rs rs"
  by (simp add: becomes_def list_all2_refl)

lemma mark_batches_effect:
  assumes db: "inbox_db_ok db tables" and dist: "distinct (map pu_ID updates)"
  shows "run_state (mark_batches db updates at start) s = (Inr x, t) \<Longrightarrow> snd (tables s) = es \<Longrightarrow>
    becomes (\<lambda>r. ib_ID r \<in> set (map pu_ID (take start updates))) (mark_processed updates at) rs (fst (tables s)) \<Longrightarrow>
    becomes (\<lambda>r. ib_ID r \<in> set (map pu_ID updates)) (mark_processed updates at) rs (fst (tables t)) \<and> snd (tables t) = es"
proof (induction "length updates - start" arbitrary: start s rule: less_induct)
  case less
  note IH = less(1) and run = less(2) and es = less(3) and before = less(4)
  let ?stop = "min (start + redisUsageInboxProcessedBatchSize) (length updates)"
  let ?batch = "take (?stop - start) (drop start updates)"
  show ?case
  proof (cases "start < length updates")
    case True
    obtain y u where u: "sql_set db (\<lambda>row. ib_ID row \<in> set (map pu_ID ?batch)) (mark_processed ?batch at) s = (Inr y, u)"
      and rest: "run_state (mark_batches db updates at (start + redisUsageInboxProcessedBatchSize)) u = (Inr x, t)"
      using run True by (subst (asm) mark_batches.simps) (auto simp: Let_def run_and_then run_wrapped)
    have b: "becomes (\<lambda>r. ib_ID r \<in> set (map pu_ID ?batch)) (mark_processed ?batch at) (fst (tables s)) (fst (tables u))"
      and es': "snd (tables u) = es"
      using sql_set_effect [OF db u] es by blast+
    have split: "take (start + redisUsageInboxProcessedBatchSize) updates = take start updates @ ?batch"
      by (cases "start + redisUsageInboxProcessedBatchSize \<le> length updates") (simp_all add: take_add min_def)
    have part: "distinct (map pu_ID (take start updates @ ?batch))"
      unfolding split [symmetric] take_map [symmetric] by (rule distinct_take [OF dist])
    have sub: "set ?batch \<subseteq> set updates" by (meson set_drop_subset set_take_subset subset_trans)
    show ?thesis
    proof (rule IH [OF _ rest es'])
      show "length updates - (start + redisUsageInboxProcessedBatchSize) < length updates - start" using True by simp
      have "becomes (\<lambda>r. ib_ID r \<in> set (map pu_ID (take start updates)) \<union> set (map pu_ID ?batch)) (mark_processed updates at) rs (fst (tables u))"
        by (rule becomes_compose [OF before b]) (use part mark_processed_part [OF dist sub] in auto)
      then show "becomes (\<lambda>r. ib_ID r \<in> set (map pu_ID (take (start + redisUsageInboxProcessedBatchSize) updates)))
          (mark_processed updates at) rs (fst (tables u))"
        unfolding split map_append set_append .
    qed
  next
    case False
    then show ?thesis using run es before by (subst (asm) mark_batches.simps) (simp add: gives_def)
  qed
qed

text \<open>The transaction stores the events and marks their rows, or does neither.\<close>

abbreviation updates_of :: "RedisUsageInbox list \<Rightarrow> UsageEvent list \<Rightarrow> RedisUsageInboxProcessedUpdate list" where
  "updates_of rows events \<equiv> map2 (\<lambda>row event. \<lparr>pu_ID = ib_ID row, pu_EventKey = ev_EventKey event\<rparr>) rows events"

lemma updates_of_ids: "length rows = length events \<Longrightarrow> map pu_ID (updates_of rows events) = ids rows"
  by (induction rows events rule: list_induct2) (simp_all add: ids_def)

lemma persist_batch_effect:
  assumes db: "inbox_db_ok db tables" and rows: "distinct (ids rows)" "length rows = length events"
  shows "holds (\<lambda>s. tables s = (rs, es)) (persist_batch db rows events at)
    (\<lambda>res s. case res of
       Inl _ \<Rightarrow> tables s = (rs, es)
     | Inr (result, stored) \<Rightarrow> list_all2 stored_event events stored \<and> sr_InsertedEvents result = length stored \<and>
         snd (tables s) = es @ stored \<and>
         becomes (\<lambda>r. ib_ID r \<in> set (ids rows)) (mark_processed (updates_of rows stored) at) rs (fst (tables s)))"
proof -
  let ?Q = "\<lambda>(result, stored) T. list_all2 stored_event events stored \<and> sr_InsertedEvents result = length stored \<and>
         snd T = es @ stored \<and> becomes (\<lambda>r. ib_ID r \<in> set (ids rows)) (mark_processed (updates_of rows stored) at) rs (fst T)"
  have "holds (\<lambda>s. tables s = (rs, es))
     (and_then (persistRedisUsageEvents db events) (\<lambda>(result, events).
        and_then (wrapped ''mark redis usage inbox processed'' (MarkRedisUsageInboxProcessedBatch db (updates_of rows events) at))
          (\<lambda>_. gives (result, events)))) (\<lambda>res s. \<forall>x. res = Inr x \<longrightarrow> ?Q x (tables s))"
  proof (rule holdsI, intro allI impI)
    fix s res t x
    assume s: "tables s = (rs, es)" and res: "res = Inr x"
      and run: "run_state (and_then (persistRedisUsageEvents db events) (\<lambda>(result, events).
        and_then (wrapped ''mark redis usage inbox processed'' (MarkRedisUsageInboxProcessedBatch db (updates_of rows events) at))
          (\<lambda>_. gives (result, events)))) s = (res, t)"
    obtain result stored u where x: "x = (result, stored)"
      and u: "run_state (persistRedisUsageEvents db events) s = (Inr (result, stored), u)"
      and m: "run_state (mark_batches db (updates_of rows stored) at 0) u = (Inr (), t)"
      using run unfolding res by (auto simp: run_and_then run_wrapped gives_def MarkRedisUsageInboxProcessedBatch_def)
    have e: "tables u = (rs, es @ stored)" "list_all2 stored_event events stored" "sr_InsertedEvents result = length stored"
      using holdsD [OF persist_events_effect [OF db] s u] by simp_all
    have len: "length rows = length stored" using rows(2) list_all2_lengthD [OF e(2)] by simp
    have "becomes (\<lambda>r. ib_ID r \<in> set (ids rows)) (mark_processed (updates_of rows stored) at) rs (fst (tables t)) \<and>
        snd (tables t) = es @ stored"
    proof -
      have "becomes (\<lambda>r. ib_ID r \<in> set (map pu_ID (take 0 (updates_of rows stored)))) (mark_processed (updates_of rows stored) at) rs (fst (tables u))"
        using becomes_none by (simp add: e(1))
      from mark_batches_effect [OF db _ m _ this, unfolded updates_of_ids [OF len], OF rows(1)] show ?thesis
        by (simp add: e(1))
    qed
    then show "?Q x (tables t)" using e x by simp
  qed
  from holds_transaction [OF db this] show ?thesis
    unfolding persist_batch_def by (rule holds_post) (auto split: sum.splits)
qed

lemma updates_of_cong: "ids rows = ids rows' \<Longrightarrow> updates_of rows events = updates_of rows' events"
proof -
  have "updates_of rows events = map2 (\<lambda>i event. \<lparr>pu_ID = i, pu_EventKey = ev_EventKey event\<rparr>) (ids rows) events" for rows
    by (simp add: ids_def zip_map1 case_prod_unfold)
  then show "ids rows = ids rows' \<Longrightarrow> updates_of rows events = updates_of rows' events" by simp
qed

lemma persist_batch_moves:
  assumes db: "inbox_db_ok db tables" and rows: "distinct (ids rows)" "set (ids rows) \<subseteq> B"
    and disj: "J \<inter> set (ids rows) = {}" "K \<inter> set (ids rows) = {}"
    and events: "list_all2 (\<lambda>row. prepared_from env (m (ib_ID row))) rows events"
  shows "holds (working env B tables T m (J \<union> set (ids rows)) K) (persist_batch db rows events at)
    (\<lambda>res s. case res of Inl _ \<Rightarrow> working env B tables T m (J \<union> set (ids rows)) K s
       | Inr (result, stored) \<Rightarrow> working env B tables T m J (K \<union> set (ids rows)) s)"
proof (rule holdsI)
  fix s res t
  assume w: "working env B tables T m (J \<union> set (ids rows)) K s" and run: "run_state (persist_batch db rows events at) s = (res, t)"
  have len: "length rows = length events" using events by (rule list_all2_lengthD)
  note effect = holdsD [OF persist_batch_effect [OF db rows(1) len, of "fst (tables s)" "snd (tables s)"] _ run, simplified]
  show "case res of Inl _ \<Rightarrow> working env B tables T m (J \<union> set (ids rows)) K t
       | Inr (result, stored) \<Rightarrow> working env B tables T m J (K \<union> set (ids rows)) t"
  proof (cases res)
    case (Inl err)
    then show ?thesis using effect working_same [OF w, of t "J \<union> set (ids rows)"] by simp
  next
    case (Inr p)
    obtain result stored where p: "p = (result, stored)" by fastforce
    have e: "list_all2 stored_event events stored" "snd (tables t) = snd (tables s) @ stored"
      "becomes (\<lambda>r. ib_ID r \<in> set (ids rows)) (mark_processed (updates_of rows stored) at) (fst (tables s)) (fst (tables t))"
      using effect Inr p by simp_all
    have "\<forall>i \<in> set (ids rows). \<exists>q. q \<in> set (fst (tables s)) \<and> ib_ID q = i \<and> ib_RawMessage q = m i \<and> processable q"
      using w unfolding working_def at_hand_def by blast
    from bchoice [OF this] obtain pick where pick:
      "\<And>i. i \<in> set (ids rows) \<Longrightarrow> pick i \<in> set (fst (tables s)) \<and> ib_ID (pick i) = i \<and> ib_RawMessage (pick i) = m i \<and> processable (pick i)"
      by blast
    let ?qs = "map pick (ids rows)"
    have ids: "ids ?qs = ids rows"
      using pick unfolding ids_def [of ?qs] by (simp add: map_idI)
    have "list_all2 (\<lambda>row. comes_from env (m (ib_ID row))) rows stored"
      by (rule list_all2_trans [OF _ events e(1)]) (auto simp: comes_from_def)
    then have sources: "list_all2 (\<lambda>q. comes_from env (ib_RawMessage q)) ?qs stored"
      using pick by (fastforce simp: ids_def list_all2_conv_all_nth)
    have step: "move env B (fst (tables s), snd (tables s)) (fst (tables t), snd (tables s) @ stored)"
    proof (rule success [OF _ _ _ _ _ sources])
      show "distinct (ids (fst (tables s)))" using w by (simp add: working_def)
      show "set ?qs \<subseteq> set (fst (tables s))" "list_all processable ?qs" using pick by (auto simp: list_all_iff)
      show "distinct (ids ?qs)" "set (ids ?qs) \<subseteq> B" unfolding ids by (rule rows)+
      show "becomes (\<lambda>r. ib_ID r \<in> set (ids ?qs)) (mark_processed (updates_of ?qs stored) at) (fst (tables s)) (fst (tables t))"
        unfolding ids updates_of_cong [OF ids] by (rule e(3))
    qed
    then have "move env B (tables s) (tables t)" using e(2) by (metis prod.collapse)
    from working_becomes(2) [OF w disj e(3) keeps_id(3) this not_processable(2)]
    show ?thesis using Inr p by simp
  qed
qed

section \<open>Normalisation\<close>

text \<open>What the two loops of \<open>normalizeRedisUsageEventsDetailed\<close> leave in the slots.\<close>

definition first_item :: "(string \<Rightarrow> string) \<Rightarrow> UsageEvent \<Rightarrow> normalizedUsageEvent" where
  "first_item uni event =
     (let res = resolveExecutor uni registry (ev_ExecutorType event) in
      if needsIdentity res then \<lparr>ne_event = event, ne_resolution = Some res, ne_result = None, ne_ready = False\<rparr>
      else processResolvedUsageEvent uni event res)"

definition needs_lookup :: "(string \<Rightarrow> string) \<Rightarrow> UsageEvent \<Rightarrow> bool" where
  "needs_lookup uni event \<longleftrightarrow> needsIdentity (resolveExecutor uni registry (ev_ExecutorType event))"

lemma first_item_ready [simp]: "ne_ready (first_item uni event) \<longleftrightarrow> \<not> needs_lookup uni event"
  by (simp add: first_item_def needs_lookup_def processResolvedUsageEvent_def Let_def)

lemma resolve_executors_result:
  "length items = index + length events \<Longrightarrow>
   resolve_executors uni events index items unresolved =
     Inr (take index items @ map (first_item uni) events,
          unresolved @ filter (\<lambda>(i, event). needs_lookup uni event) (enumerate index events))"
proof (induction events arbitrary: index items unresolved)
  case Nil
  then show ?case by simp
next
  case (Cons event events)
  have len: "length (items[index := x]) = Suc index + length events" for x using Cons.prems by simp
  have "take (Suc index) (items[index := x]) = take index items @ [x]" for x
    using Cons.prems by (simp add: take_Suc_conv_app_nth)
  then show ?case
    by (simp add: resolvers Cons.IH [OF len] first_item_def needs_lookup_def Let_def)
qed

lemma resolve_identities_result:
  "distinct (map fst unresolved) \<Longrightarrow> list_all (\<lambda>(i, event). i < length items) unresolved \<Longrightarrow>
   \<exists>items'. resolve_identities uni byIdentity unresolved items = (items', None) \<and> length items' = length items \<and>
     (\<forall>i event. (i, event) \<in> set unresolved \<longrightarrow>
        items' ! i = processResolvedUsageEvent uni event
          (resolve_identity_with uni registry (ev_ExecutorType event) (resolveUsageEventType uni event byIdentity))) \<and>
     (\<forall>i. i \<notin> fst ` set unresolved \<longrightarrow> items' ! i = items ! i)"
proof (induction unresolved arbitrary: items)
  case Nil
  then show ?case by simp
next
  case (Cons p unresolved)
  obtain index event where p: "p = (index, event)" by fastforce
  let ?items = "items[index := processResolvedUsageEvent uni event
      (resolve_identity_with uni registry (ev_ExecutorType event) (resolveUsageEventType uni event byIdentity))]"
  obtain items' where items': "resolve_identities uni byIdentity unresolved ?items = (items', None)" "length items' = length items"
    "\<And>i event. (i, event) \<in> set unresolved \<Longrightarrow> items' ! i = processResolvedUsageEvent uni event
          (resolve_identity_with uni registry (ev_ExecutorType event) (resolveUsageEventType uni event byIdentity))"
    "\<And>i. i \<notin> fst ` set unresolved \<Longrightarrow> items' ! i = ?items ! i"
    using Cons.IH [of ?items] Cons.prems p by auto
  have index: "index \<notin> fst ` set unresolved" "index < length items" using Cons.prems p by auto
  show ?case
    using items'(1-3) items'(4) index by (auto simp: p resolvers)
qed

lemma processed_item:
  assumes "route uni (ev_ExecutorType event) res"
  shows "ne_ready (processResolvedUsageEvent uni event res)"
    and "normalized_from uni event (ne_event (processResolvedUsageEvent uni event res))"
  using assms by (auto simp: processResolvedUsageEvent_def normalized_from_def Let_def)

lemma first_item_source: "\<not> needs_lookup uni event \<Longrightarrow> normalized_from uni event (ne_event (first_item uni event))"
  using processed_item(2) [of uni event "resolveExecutor uni registry (ev_ExecutorType event)"]
  by (simp add: first_item_def needs_lookup_def route_def resolvers Let_def)

text \<open>
  Without an error every slot is ready.  With one, the slots that are not are exactly those whose executor is not
  registered, and they are the indexes that come back.
\<close>

definition lookups :: "(string \<Rightarrow> string) \<Rightarrow> UsageEvent list \<Rightarrow> nat list" where
  "lookups uni events = filter (\<lambda>i. needs_lookup uni (events ! i)) [0..<length events]"

lemma enumerate_lookups:
  "filter (\<lambda>(i, event). needs_lookup uni event) (enumerate 0 events) = map (\<lambda>i. (i, events ! i)) (lookups uni events)"
proof -
  have "enumerate 0 events = map (\<lambda>i. (i, events ! i)) [0..<length events]"
    using enumerate_map_upt [of 0 "\<lambda>i. events ! i" "length events"] by (simp add: map_nth)
  then show ?thesis by (simp add: lookups_def filter_map comp_def)
qed

lemma normalize_result:
  assumes "normalizeRedisUsageEventsDetailed sv db events s = (items, unresolved, err)"
  defines "uni \<equiv> de_uni (sv_decode sv)"
  shows "length items = length events"
    and "i < length events \<Longrightarrow> ne_ready (items ! i) \<Longrightarrow> normalized_from uni (events ! i) (ne_event (items ! i))"
    and "err = None \<Longrightarrow> i < length events \<Longrightarrow> ne_ready (items ! i)"
    and "err \<noteq> None \<Longrightarrow> unresolved = lookups uni events"
    and "err \<noteq> None \<Longrightarrow> i < length events \<Longrightarrow> ne_ready (items ! i) \<longleftrightarrow> \<not> needs_lookup uni (events ! i)"
proof -
  let ?first = "map (first_item uni) events"
  let ?pairs = "map (\<lambda>i. (i, events ! i)) (lookups uni events)"
  have loop: "resolve_executors uni events 0 (replicate (length events) zero_item) [] = Inr (?first, ?pairs)"
    using resolve_executors_result [of "replicate (length events) zero_item" 0 events uni "[]"] by (simp add: enumerate_lookups)
  have none: "\<not> needs_lookup uni (events ! i)" if "lookups uni events = []" "i < length events" for i
    using that by (auto simp: lookups_def filter_empty_conv)
  consider (known) "lookups uni events = []" "items = ?first" "err = None"
    | (stuck) e where "items = ?first" "unresolved = lookups uni events" "err = Some e"
    | (looked) byIdentity where "resolve_identities uni byIdentity ?pairs ?first = (items, None)" "err = None"
  proof (cases "lookups uni events = []")
    case True
    then show thesis using assms loop that(1) by (simp add: normalizeRedisUsageEventsDetailed_def Let_def)
  next
    case False
    show thesis
    proof (cases "buildUsageEventTypeResolver sv db (map snd ?pairs) s")
      case (Inl e)
      then show thesis
        using assms loop False that(2) by (auto simp: normalizeRedisUsageEventsDetailed_def Let_def comp_def)
    next
      case (Inr byIdentity)
      obtain items' where "resolve_identities uni byIdentity ?pairs ?first = (items', None)"
        using resolve_identities_result [of ?pairs ?first uni byIdentity] by (auto simp: comp_def lookups_def list_all_iff)
      then show thesis
        using assms loop False Inr that(3) by (simp add: normalizeRedisUsageEventsDetailed_def Let_def)
    qed
  qed
  then have "length items = length events \<and>
    (\<forall>i < length events. ne_ready (items ! i) \<longrightarrow> normalized_from uni (events ! i) (ne_event (items ! i))) \<and>
    (err = None \<longrightarrow> (\<forall>i < length events. ne_ready (items ! i))) \<and>
    (err \<noteq> None \<longrightarrow> unresolved = lookups uni events \<and> (\<forall>i < length events. ne_ready (items ! i) \<longleftrightarrow> \<not> needs_lookup uni (events ! i)))"
  proof cases
    case known
    then show ?thesis using none by (simp add: first_item_source)
  next
    case (stuck e)
    then show ?thesis by (simp add: first_item_source)
  next
    case (looked byIdentity)
    have routed: "route uni execType (resolve_identity_with uni registry execType identType)" for execType identType
      by (auto simp: route_def resolvers)
    have r: "length items = length events"
      "\<And>i. i \<in> set (lookups uni events) \<Longrightarrow> items ! i = processResolvedUsageEvent uni (events ! i)
         (resolve_identity_with uni registry (ev_ExecutorType (events ! i)) (resolveUsageEventType uni (events ! i) byIdentity))"
      "\<And>i. i \<notin> set (lookups uni events) \<Longrightarrow> items ! i = ?first ! i"
      using resolve_identities_result [of ?pairs ?first uni byIdentity] looked(1)
      by (auto simp: comp_def lookups_def list_all_iff image_image)
    have "ne_ready (items ! i) \<and> normalized_from uni (events ! i) (ne_event (items ! i))" if "i < length events" for i
    proof (cases "needs_lookup uni (events ! i)")
      case True
      then show ?thesis using that r(2) [of i] processed_item [OF routed] by (simp add: lookups_def)
    next
      case False
      then show ?thesis using that r(3) [of i] by (simp add: lookups_def first_item_source)
    qed
    then show ?thesis using r(1) looked(2) by simp
  qed
  then show "length items = length events"
    and "i < length events \<Longrightarrow> ne_ready (items ! i) \<Longrightarrow> normalized_from uni (events ! i) (ne_event (items ! i))"
    and "err = None \<Longrightarrow> i < length events \<Longrightarrow> ne_ready (items ! i)"
    and "err \<noteq> None \<Longrightarrow> unresolved = lookups uni events"
    and "err \<noteq> None \<Longrightarrow> i < length events \<Longrightarrow> ne_ready (items ! i) \<longleftrightarrow> \<not> needs_lookup uni (events ! i)"
    by blast+
qed

end
