(* ===== verification/InboxRun.thy ===== *)
theory InboxRun
  imports InboxBatch
begin

text \<open>
  The processing of the inbox as a whole is a sequence of moves of the abstract machine, of the oldest rows at hand, and
  its result says whether they are done with.
\<close>

section \<open>The service\<close>

text \<open>The functions that bring the rollups up to date do not write the inbox or the events.\<close>

definition service_ok :: "('s, 'n) sync_service \<Rightarrow> ('s \<Rightarrow> tables) \<Rightarrow> bool" where
  "service_ok sv tables \<longleftrightarrow>
     (\<forall>db. sv_db sv = Some db \<longrightarrow> inbox_db_ok db tables) \<and>
     (\<forall>kind now s. tables (snd (sv_aggregate sv kind now s)) = tables s)"

lemma holds_on_sql: "holds P c Q \<Longrightarrow> holds (\<lambda>w. P (sw_db w)) (on_sql c) (\<lambda>a w. Q a (sw_db w))"
  by (simp add: holds_def on_sql_def split_beta)

lemma holds_given: "(X \<Longrightarrow> holds P c Q) \<Longrightarrow> holds (\<lambda>s. P s \<and> X) c Q"
  by (auto simp: holds_def)

lemma keep_fallback:
  assumes "service_ok sv tables"
  shows "holds (\<lambda>s. P (tables s)) (aggregateUsageEventStatsFallback sv now) (\<lambda>_ s. P (tables s))"
proof -
  have one: "holds (\<lambda>s. P (tables s)) (wrapped what (State (sv_aggregate sv kind now))) (\<lambda>_ s. P (tables s))" for what kind
    using assms by (intro holds_wrapped) (simp add: holds_def service_ok_def)
  have "holds (\<lambda>s. P (tables s)) (aggregate_all sv now kinds errs) (\<lambda>_ s. P (tables s))" for kinds errs
    by (induction kinds arbitrary: errs) (auto simp: keep_return intro: keep_bind one)
  then show ?thesis unfolding aggregateUsageEventStatsFallback_def by (intro keep_bind keep_return)
qed

lemma keep_announce:
  assumes "service_ok sv tables"
  shows "holds (\<lambda>w. P (tables (sw_db w))) (announce sv now events snapshots) (\<lambda>_ w. P (tables (sw_db w)))"
proof -
  have log: "holds (\<lambda>w. P (tables (sw_db w))) (modify f) (\<lambda>_ w. P (tables (sw_db w)))" if "\<And>w. sw_db (f w) = sw_db w"
    for f :: "('a, 'b) sync_world \<Rightarrow> ('a, 'b) sync_world"
    using that by (simp add: holds_modify)
  show ?thesis
    unfolding announce_def
    by (rule keep_rules log holds_on_sql [OF keep_fallback [OF assms]] | simp)+
qed

section \<open>Ready rows\<close>

lemma ids_pick:
  assumes "distinct (ids rows)"
  shows "distinct (ids (map (\<lambda>i. rows ! i) (filter P [0..<length rows])))"
    and "set (ids (map (\<lambda>i. rows ! i) (filter P [0..<length rows]))) \<union>
         set (ids (map (\<lambda>i. rows ! i) (filter (\<lambda>i. \<not> P i) [0..<length rows]))) = set (ids rows)"
    and "set (ids (map (\<lambda>i. rows ! i) (filter P [0..<length rows]))) \<inter>
         set (ids (map (\<lambda>i. rows ! i) (filter (\<lambda>i. \<not> P i) [0..<length rows]))) = {}"
proof -
  have pick: "ids (map (\<lambda>i. rows ! i) (filter Q [0..<length rows])) = map (\<lambda>i. ids rows ! i) (filter Q [0..<length rows])" for Q
    by (simp add: ids_def)
  have inj: "inj_on (\<lambda>i. ids rows ! i) {..<length rows}"
    using assms by (simp add: inj_on_nth ids_def)
  show "distinct (ids (map (\<lambda>i. rows ! i) (filter P [0..<length rows])))"
    unfolding pick distinct_map by (auto intro: inj_on_subset [OF inj])
  show "set (ids (map (\<lambda>i. rows ! i) (filter P [0..<length rows]))) \<union>
         set (ids (map (\<lambda>i. rows ! i) (filter (\<lambda>i. \<not> P i) [0..<length rows]))) = set (ids rows)"
    unfolding pick by (auto simp: in_set_conv_nth [of _ "ids rows"]) (auto simp: ids_def)
  show "set (ids (map (\<lambda>i. rows ! i) (filter P [0..<length rows]))) \<inter>
         set (ids (map (\<lambda>i. rows ! i) (filter (\<lambda>i. \<not> P i) [0..<length rows]))) = {}"
    unfolding pick using inj by (auto simp: inj_on_def)
qed

text \<open>The rows that are ready, with their events, and the rows whose lookup has failed.\<close>

lemma ready_rows:
  assumes ok: "decoded_ok env at batch" and dist: "distinct (ids (dc_validRows batch))"
    and norm: "normalizeRedisUsageEventsDetailed sv db (dc_events batch) s = (items, unresolved, err)"
    and env: "env = sv_decode sv"
    and ready: "ready_items items (dc_validRows batch) (dc_eventSnapshots batch) = (rows, events, snapshots)"
  shows "distinct (ids rows)" and "list_all2 (\<lambda>row. prepared_from env (ib_RawMessage row)) rows events"
    and "set rows \<subseteq> set (dc_validRows batch)"
    and "err = None \<Longrightarrow> rows = dc_validRows batch"
    and "err \<noteq> None \<Longrightarrow> distinct (ids (map (\<lambda>i. dc_validRows batch ! i) unresolved)) \<and>
       set (ids rows) \<union> set (ids (map (\<lambda>i. dc_validRows batch ! i) unresolved)) = set (ids (dc_validRows batch)) \<and>
       set (ids rows) \<inter> set (ids (map (\<lambda>i. dc_validRows batch ! i) unresolved)) = {} \<and>
       set (map (\<lambda>i. dc_validRows batch ! i) unresolved) \<subseteq> set (dc_validRows batch)"
proof -
  let ?valid = "dc_validRows batch" and ?P = "\<lambda>i. ne_ready (items ! i)"
  have "length ?valid = length (zip (dc_events batch) (dc_eventSnapshots batch))"
    using ok unfolding decoded_ok_def by (blast dest: list_all2_lengthD)
  then have len: "length ?valid = length (dc_events batch)" using ok by (simp add: decoded_ok_def)
  note n = normalize_result [OF norm, folded env]
  have rows: "rows = map (\<lambda>i. ?valid ! i) (filter ?P [0..<length ?valid])"
    and events: "events = map (\<lambda>i. ne_event (items ! i)) (filter ?P [0..<length ?valid])"
    using ready n(1) len by (simp_all add: ready_items_def Let_def)
  have source: "prepared_from env (ib_RawMessage (?valid ! i)) (ne_event (items ! i))" if "i < length ?valid" "?P i" for i
  proof -
    have "DecodeRedisUsageMessageWithHeaders env (ib_RawMessage (?valid ! i)) at =
        Inr (dc_events batch ! i, ib_RawMessage (?valid ! i), dc_eventSnapshots batch ! i)"
      using ok that(1) len by (auto simp: decoded_ok_def list_all2_conv_all_nth)
    then show ?thesis using n(2) [of i] that len unfolding prepared_from_def by auto
  qed
  show "distinct (ids rows)" unfolding rows by (rule ids_pick(1) [OF dist])
  show "list_all2 (\<lambda>row. prepared_from env (ib_RawMessage row)) rows events"
    unfolding rows events list_all2_map1 list_all2_map2 by (rule list.rel_refl_strong) (auto intro: source)
  show "set rows \<subseteq> set ?valid" unfolding rows by auto
  show "rows = ?valid" if "err = None"
  proof -
    have "filter ?P [0..<length ?valid] = [0..<length ?valid]" using n(3) [OF that] len by (simp add: filter_id_conv)
    then show ?thesis by (simp add: rows map_nth)
  qed
  show "distinct (ids (map (\<lambda>i. ?valid ! i) unresolved)) \<and>
       set (ids rows) \<union> set (ids (map (\<lambda>i. ?valid ! i) unresolved)) = set (ids ?valid) \<and>
       set (ids rows) \<inter> set (ids (map (\<lambda>i. ?valid ! i) unresolved)) = {} \<and>
       set (map (\<lambda>i. ?valid ! i) unresolved) \<subseteq> set ?valid" if err: "err \<noteq> None"
  proof -
    have u: "unresolved = filter (\<lambda>i. \<not> ?P i) [0..<length ?valid]"
      using n(4, 5) [OF err] len by (auto simp: lookups_def intro: filter_cong)
    show ?thesis
      unfolding u rows using ids_pick [OF dist, of ?P] ids_pick(1) [OF dist, of "\<lambda>i. \<not> ?P i"] by auto
  qed
qed

section \<open>The batch\<close>

text \<open>
  What a batch of \<open>n\<close> rows, with the ids \<open>A\<close>, reports: unless it failed or asks for a wait, all its rows are done with.
\<close>

definition reported ::
  "'n decode_env \<Rightarrow> int set \<Rightarrow> ('s \<Rightarrow> tables) \<Rightarrow> tables \<Rightarrow> int set \<Rightarrow> int \<Rightarrow> RedisBatchSyncResult \<times> string option \<Rightarrow>
     ('s, 'n) sync_world \<Rightarrow> bool" where
  "reported env B tables T A n = (\<lambda>(r, err) w.
     (move env B)\<^sup>*\<^sup>* T (tables (sw_db w)) \<and> (rb_BatchFull r \<longleftrightarrow> n \<ge> int redisInboxProcessLimit) \<and>
     (settled A (fst (tables (sw_db w))) \<or> rb_RetryPending r \<or> (rb_Status r = ''failed'' \<and> err \<noteq> None)))"

lemma reported_failed:
  "(move env B)\<^sup>*\<^sup>* T (tables (sw_db w)) \<Longrightarrow> n \<ge> 0 \<Longrightarrow> reported env B tables T A n (failed_result n counts, Some err) w"
  "(move env B)\<^sup>*\<^sup>* T (tables (sw_db w)) \<Longrightarrow> n \<ge> 0 \<Longrightarrow> reported env B tables T A n (newRedisBatchSyncResult ''failed'' n, Some err) w"
  by (simp_all add: reported_def failed_result_def newRedisBatchSyncResult_def)

lemma commit_ready_reports:
  assumes sv: "service_ok sv tables" "sv_db sv = Some db" and rows: "distinct (ids rows)" "set (ids rows) \<subseteq> B"
    and K: "K \<inter> set (ids rows) = {}" and A: "requiresRetryWait counts \<or> A \<subseteq> K \<union> set (ids rows)" and n: "n \<ge> 0"
    and events: "list_all2 (\<lambda>row. prepared_from env (m (ib_ID row))) rows events"
    and keys: "\<And>i. i \<in> set (ids rows) \<Longrightarrow> message_key env (m i) \<noteq> None"
  shows "holds (\<lambda>w. working env B tables T m (set (ids rows)) K (sw_db w))
    (commit_ready sv db at now n decodeErr typeErr counts rows events snapshots) (reported env B tables T A n)"
proof -
  have db: "inbox_db_ok db tables" using sv by (simp add: service_ok_def)
  let ?w = "\<lambda>J K w. working env B tables T m J K (sw_db w)"
  have moved: "(move env B)\<^sup>*\<^sup>* T (tables (sw_db w))" if "?w J K w" for J K and w :: "('a, 'b) sync_world"
    using that by (simp add: working_def)
  have persist: "holds (?w (set (ids rows)) K) (on_sql (persist_batch db rows events at))
      (\<lambda>res w. case res of Inl _ \<Rightarrow> ?w (set (ids rows)) K w | Inr (result, stored) \<Rightarrow> ?w {} (K \<union> set (ids rows)) w)"
    using holds_on_sql [OF persist_batch_moves [where J = "{}" and m = m and T = T, OF db rows _ K events]]
    unfolding Un_empty_left by simp
  have mark: "holds (?w (set (ids rows)) K) (on_sql (markRedisInboxRowsProcessFailed db rows (Some err)))
      (\<lambda>c w. ?w {} (if requiresRetryWait c then K else K \<union> set (ids rows)) w)" for err
    using holds_on_sql [OF mark_process_failed_rows [where J = "{}" and m = m and T = T, OF db rows _ K keys]]
    unfolding Un_empty_left by simp
  show ?thesis
    unfolding commit_ready_def
  proof (rule holds_bind [OF persist], rule holds_sum)
    fix persisted :: "string + SyncResult \<times> UsageEvent list" and err assume p: "persisted = Inl err"
    show "holds (\<lambda>w. case persisted of Inl _ \<Rightarrow> ?w (set (ids rows)) K w
           | Inr (result, stored) \<Rightarrow> ?w {} (K \<union> set (ids rows)) w)
       (on_sql (markRedisInboxRowsProcessFailed db rows (Some err)) \<bind>
         (\<lambda>readyFailures. State_Monad.return (failed_result n (failures_add counts readyFailures), Some err)))
       (reported env B tables T A n)"
      unfolding p sum.case
      by (rule holds_bind [OF mark])
        (auto intro!: holds_return reported_failed(1) [OF _ n] dest: moved)
  next
    fix persisted :: "string + SyncResult \<times> UsageEvent list" and pair assume p: "persisted = Inr pair"
    obtain result stored where pair: "pair = (result, stored)" by fastforce
    let ?settled = "\<lambda>T'. (move env B)\<^sup>*\<^sup>* T T' \<and> settled (K \<union> set (ids rows)) (fst T')"
    have announced: "holds (\<lambda>w. ?settled (tables (sw_db w)))
        (if 0 < sr_InsertedEvents result then announce sv now stored snapshots else State_Monad.return None)
        (\<lambda>_ w. ?settled (tables (sw_db w)))"
      by (rule keep_if keep_return keep_announce [OF sv(1)])+
    have "settled A rs \<or> requiresRetryWait counts" if "settled (K \<union> set (ids rows)) rs" for rs
      using that A by (auto simp: settled_def)
    then show "holds (\<lambda>w. case persisted of Inl _ \<Rightarrow> ?w (set (ids rows)) K w
           | Inr (result, stored) \<Rightarrow> ?w {} (K \<union> set (ids rows)) w)
       (case pair of (result, events) \<Rightarrow>
          (if sr_InsertedEvents result > 0 then announce sv now events snapshots else State_Monad.return None) \<bind>
          (\<lambda>aggregateErr. case aggregateErr of
             Some err \<Rightarrow> State_Monad.return (failed_result n counts, Some err)
           | None \<Rightarrow>
               let warned = (decodeErr \<noteq> None \<or> typeErr \<noteq> None) in
               State_Monad.return
                 (\<lparr>rb_Empty = False, rb_Status = (if warned then ''completed_with_warnings'' else sr_Status result),
                   rb_InsertedEvents = sr_InsertedEvents result, rb_DedupedEvents = sr_DedupedEvents result,
                   rb_ProcessedRows = n, rb_BatchFull = (n \<ge> int redisInboxProcessLimit),
                   rb_RetryPending = requiresRetryWait counts, rb_DiscardedRows = fc_discarded counts\<rparr>,
                  if warned then joinErrors [None, decodeErr, typeErr] else None)))
       (reported env B tables T A n)"
      unfolding p pair sum.case prod.case
      by (intro holds_bind [OF holds_pre [OF announced]] holds_option)
        (auto simp: working_def Let_def reported_def failed_result_def newRedisBatchSyncResult_def n intro!: holds_return)
  qed
qed

lemma prepared_key: "prepared_from env message e \<Longrightarrow> message_key env message \<noteq> None"
  unfolding prepared_from_def by (metis decode_key(1) option.distinct(1))

lemma decoded_keys:
  assumes "decoded_ok env at batch" and "row \<in> set (dc_validRows batch)"
  shows "message_key env (ib_RawMessage row) \<noteq> None"
proof -
  obtain i where i: "i < length (dc_validRows batch)" "row = dc_validRows batch ! i" using assms(2) by (auto simp: in_set_conv_nth)
  obtain event snapshot where "DecodeRedisUsageMessageWithHeaders env (ib_RawMessage row) at = Inr (event, ib_RawMessage row, snapshot)"
    using assms(1) i by (auto simp: decoded_ok_def list_all2_conv_all_nth split: prod.splits)
  then show ?thesis using decode_key(1) by fastforce
qed

lemma ids_cong: "list_all2 (\<lambda>row. P (f row)) rows events \<Longrightarrow> (\<And>r. r \<in> set rows \<Longrightarrow> g r = f r) \<Longrightarrow> list_all2 (\<lambda>row. P (g row)) rows events"
  by (auto simp: list_all2_conv_all_nth)

lemma normalize_and_commit_reports:
  fixes batch :: "'n decoded_batch"
  assumes sv: "service_ok sv tables" "sv_db sv = Some db" and env: "env = sv_decode sv"
    and ok: "decoded_ok env at batch" and dist: "distinct (ids (dc_validRows batch))"
    and valid: "set (ids (dc_validRows batch)) \<subseteq> A" "A \<subseteq> B" and n: "n \<ge> 0"
    and m: "\<And>r. r \<in> set (dc_validRows batch) \<Longrightarrow> m (ib_ID r) = ib_RawMessage r"
  shows "holds (\<lambda>w. working env B tables T m (set (ids (dc_validRows batch))) (A - set (ids (dc_validRows batch))) (sw_db w))
    (normalize_and_commit sv db at now n decodeErr batch) (reported env B tables T A n)"
proof -
  have db: "inbox_db_ok db tables" using sv by (simp add: service_ok_def)
  let ?V = "set (ids (dc_validRows batch))"
  let ?w = "\<lambda>J K w. working env B tables T m J K (sw_db w)"
  have valid_in: "set (ids rows) \<subseteq> ?V" if "set rows \<subseteq> set (dc_validRows batch)" for rows using that by (auto simp: ids_def)
  have keys: "message_key env (m i) \<noteq> None" if "i \<in> set (ids rows)" "set rows \<subseteq> set (dc_validRows batch)" for i rows
    using that m decoded_keys [OF ok] by (auto simp: ids_def)
  have main: "holds (?w ?V (A - ?V))
      (case norm of (items, unresolvedIndexes, typeErr) \<Rightarrow>
         let (readyRows, readyEvents, headerSnapshots) = ready_items items (dc_validRows batch) (dc_eventSnapshots batch) in
         case typeErr of
           None \<Rightarrow> commit_ready sv db at now n decodeErr None no_failures readyRows readyEvents headerSnapshots
         | Some err \<Rightarrow> on_sql (markRedisInboxRowsProcessFailed db (map (\<lambda>index. dc_validRows batch ! index) unresolvedIndexes) (Some err)) \<bind>
             (\<lambda>failureCounts.
               if readyEvents = [] then State_Monad.return (failed_result n failureCounts, joinErrors [decodeErr, Some err])
               else commit_ready sv db at now n decodeErr (Some err) failureCounts readyRows readyEvents headerSnapshots))
      (reported env B tables T A n)"
    if norm: "\<exists>s. norm = normalizeRedisUsageEventsDetailed sv db (dc_events batch) s" for norm
  proof -
    obtain s items unresolved typeErr where norm: "normalizeRedisUsageEventsDetailed sv db (dc_events batch) s = (items, unresolved, typeErr)"
      "norm = (items, unresolved, typeErr)" using norm by (metis prod_cases3)
    obtain rows events snapshots where ready: "ready_items items (dc_validRows batch) (dc_eventSnapshots batch) = (rows, events, snapshots)"
      by (metis prod_cases3)
    note r = ready_rows [OF ok dist norm(1) env ready]
    have in_B: "set (ids rows) \<subseteq> B" and mrows: "\<And>row. row \<in> set rows \<Longrightarrow> m (ib_ID row) = ib_RawMessage row"
      using valid_in [OF r(3)] valid m r(3) by auto
    have sources: "list_all2 (\<lambda>row. prepared_from env (m (ib_ID row))) rows events" by (rule ids_cong [OF r(2) mrows])
    show ?thesis
    proof (cases typeErr)
      case None
      have "holds (?w (set (ids rows)) (A - ?V)) (commit_ready sv db at now n decodeErr None no_failures rows events snapshots)
          (reported env B tables T A n)"
        by (rule commit_ready_reports [OF sv r(1) in_B _ _ n sources]) (use r(4) [OF None] keys [OF _ r(3)] in auto)
      then show ?thesis using r(4) [OF None] by (simp add: norm(2) ready None)
    next
      case (Some err)
      let ?stuck = "map (\<lambda>i. dc_validRows batch ! i) unresolved"
      have u: "distinct (ids ?stuck)" "set (ids rows) \<union> set (ids ?stuck) = ?V" "set (ids rows) \<inter> set (ids ?stuck) = {}"
        "set ?stuck \<subseteq> set (dc_validRows batch)"
        using r(5) Some by blast+
      have "holds (?w (set (ids rows) \<union> set (ids ?stuck)) (A - ?V)) (on_sql (markRedisInboxRowsProcessFailed db ?stuck (Some err)))
          (\<lambda>c. ?w (set (ids rows)) (if requiresRetryWait c then A - ?V else (A - ?V) \<union> set (ids ?stuck)))"
        by (rule holds_on_sql [OF mark_process_failed_rows [OF db u(1)]]) (use u valid keys in auto)
      then have mark: "holds (?w ?V (A - ?V)) (on_sql (markRedisInboxRowsProcessFailed db ?stuck (Some err)))
          (\<lambda>c. ?w (set (ids rows)) (if requiresRetryWait c then A - ?V else (A - ?V) \<union> set (ids ?stuck)))"
        unfolding u(2) .
      have after: "holds (?w (set (ids rows)) (if requiresRetryWait c then A - ?V else (A - ?V) \<union> set (ids ?stuck)))
          (commit_ready sv db at now n decodeErr (Some err) c rows events snapshots) (reported env B tables T A n)" for c
        by (rule commit_ready_reports [OF sv r(1) in_B _ _ n sources]) (use u keys [OF _ r(3)] in \<open>auto split: if_splits\<close>)
      have none: "holds (?w (set (ids rows)) K) (State_Monad.return (failed_result n c, joinErrors [decodeErr, Some err]))
          (reported env B tables T A n)" for c K
        by (rule holds_return) (auto simp: reported_def working_def failed_result_def newRedisBatchSyncResult_def n joinErrors_def
            map_filter_simps Let_def split: option.splits)
      show ?thesis
        unfolding norm(2) prod.case ready Let_def Some option.case
        by (rule holds_bind [OF mark], rule holds_if, rule none, rule after)
    qed
  qed
  show ?thesis
    unfolding normalize_and_commit_def
  proof (rule holds_bind)
    show "holds (?w ?V (A - ?V)) (on_sql (reads (normalizeRedisUsageEventsDetailed sv db (dc_events batch))))
        (\<lambda>norm w. ?w ?V (A - ?V) w \<and> (\<exists>s. norm = normalizeRedisUsageEventsDetailed sv db (dc_events batch) s))"
      by (rule holds_on_sql, rule holds_reads) blast
    show "holds (\<lambda>w. ?w ?V (A - ?V) w \<and> (\<exists>s. norm = normalizeRedisUsageEventsDetailed sv db (dc_events batch) s))
      (case norm of (items, unresolvedIndexes, typeErr) \<Rightarrow>
         let (readyRows, readyEvents, headerSnapshots) = ready_items items (dc_validRows batch) (dc_eventSnapshots batch) in
         case typeErr of
           None \<Rightarrow> commit_ready sv db at now n decodeErr None no_failures readyRows readyEvents headerSnapshots
         | Some err \<Rightarrow> on_sql (markRedisInboxRowsProcessFailed db (map (\<lambda>index. dc_validRows batch ! index) unresolvedIndexes) (Some err)) \<bind>
             (\<lambda>failureCounts.
               if readyEvents = [] then State_Monad.return (failed_result n failureCounts, joinErrors [decodeErr, Some err])
               else commit_ready sv db at now n decodeErr (Some err) failureCounts readyRows readyEvents headerSnapshots))
      (reported env B tables T A n)" for norm
      by (rule holds_given) (rule main)
  qed
qed

lemma process_rows_reports:
  assumes sv: "service_ok sv tables" "sv_db sv = Some db" and env: "env = sv_decode sv"
    and rows: "distinct (ids rows)" "set (ids rows) \<subseteq> B"
    and m: "\<And>r. r \<in> set rows \<Longrightarrow> m (ib_ID r) = ib_RawMessage r"
  shows "holds (\<lambda>w. working env B tables T m (set (ids rows)) {} (sw_db w)) (processRedisInboxRows sv db rows at now)
    (reported env B tables T (set (ids rows)) (int (length rows)))"
proof -
  have db: "inbox_db_ok db tables" using sv by (simp add: service_ok_def)
  let ?A = "set (ids rows)" and ?n = "int (length rows)"
  have decode: "holds (\<lambda>w. working env B tables T m ?A {} (sw_db w)) (on_sql (decode_rows db (sv_decode sv) at rows empty_batch))
      (\<lambda>res w. case res of
         Inl _ \<Rightarrow> (move env B)\<^sup>*\<^sup>* T (tables (sw_db w))
       | Inr batch \<Rightarrow> decoded_ok env at batch \<and> distinct (ids (dc_validRows batch)) \<and> set (dc_validRows batch) \<subseteq> set rows \<and>
           working env B tables T m (set (ids (dc_validRows batch))) (?A - set (ids (dc_validRows batch))) (sw_db w))"
    unfolding env [symmetric]
    by (rule holds_on_sql)
      (use decode_rows_moves [where m = m and batch = empty_batch and rows = rows and at = at and T = T, OF db rows(2)] rows(1) m
       in \<open>simp add: decoded_ok_def cong: sum.case_cong\<close>)
  show ?thesis
    unfolding processRedisInboxRows_def Let_def
  proof (rule holds_bind [OF decode], rule holds_sum)
    fix decoded :: "string + 'b decoded_batch" and err assume "decoded = Inl err"
    then show "holds (\<lambda>w. case decoded of
         Inl _ \<Rightarrow> (move env B)\<^sup>*\<^sup>* T (tables (sw_db w))
       | Inr batch \<Rightarrow> decoded_ok env at batch \<and> distinct (ids (dc_validRows batch)) \<and> set (dc_validRows batch) \<subseteq> set rows \<and>
           working env B tables T m (set (ids (dc_validRows batch))) (?A - set (ids (dc_validRows batch))) (sw_db w))
      (State_Monad.return (newRedisBatchSyncResult ''failed'' ?n, Some err)) (reported env B tables T ?A ?n)"
      by (intro holds_return reported_failed(2)) simp_all
  next
    fix decoded :: "string + 'b decoded_batch" and batch assume decoded: "decoded = Inr batch"
    show "holds (\<lambda>w. case decoded of
         Inl _ \<Rightarrow> (move env B)\<^sup>*\<^sup>* T (tables (sw_db w))
       | Inr batch \<Rightarrow> decoded_ok env at batch \<and> distinct (ids (dc_validRows batch)) \<and> set (dc_validRows batch) \<subseteq> set rows \<and>
           working env B tables T m (set (ids (dc_validRows batch))) (?A - set (ids (dc_validRows batch))) (sw_db w))
      (if dc_events batch = [] then
         State_Monad.return
           (case joinErrors (map Some (dc_decodeErrs batch)) of
              Some err \<Rightarrow> (newRedisBatchSyncResult ''completed_with_warnings'' ?n, joinErrors (map Some (dc_decodeErrs batch)))
            | None \<Rightarrow> (newRedisBatchSyncResult ''empty'' ?n, None))
       else normalize_and_commit sv db at now ?n (joinErrors (map Some (dc_decodeErrs batch))) batch) (reported env B tables T ?A ?n)"
    proof (rule holds_if)
      assume none: "dc_events batch = []"
      have "dc_validRows batch = []" if "decoded_ok env at batch" using that none by (simp add: decoded_ok_def)
      then show "holds (\<lambda>w. case decoded of
           Inl _ \<Rightarrow> (move env B)\<^sup>*\<^sup>* T (tables (sw_db w))
         | Inr batch \<Rightarrow> decoded_ok env at batch \<and> distinct (ids (dc_validRows batch)) \<and> set (dc_validRows batch) \<subseteq> set rows \<and>
             working env B tables T m (set (ids (dc_validRows batch))) (?A - set (ids (dc_validRows batch))) (sw_db w))
        (State_Monad.return
           (case joinErrors (map Some (dc_decodeErrs batch)) of
              Some err \<Rightarrow> (newRedisBatchSyncResult ''completed_with_warnings'' ?n, joinErrors (map Some (dc_decodeErrs batch)))
            | None \<Rightarrow> (newRedisBatchSyncResult ''empty'' ?n, None))) (reported env B tables T ?A ?n)"
        unfolding decoded
        by (intro holds_return) (auto simp: reported_def newRedisBatchSyncResult_def working_def ids_def split: option.splits)
    next
      have each: "holds (\<lambda>w. working env B tables T m (set (ids (dc_validRows batch))) (?A - set (ids (dc_validRows batch))) (sw_db w))
          (normalize_and_commit sv db at now ?n (joinErrors (map Some (dc_decodeErrs batch))) batch) (reported env B tables T ?A ?n)"
        if "decoded_ok env at batch" "distinct (ids (dc_validRows batch))" "set (dc_validRows batch) \<subseteq> set rows"
        by (rule normalize_and_commit_reports [OF sv env that(1, 2) _ rows(2)]) (use that(3) m in \<open>auto simp: ids_def\<close>)
      show "holds (\<lambda>w. case decoded of
           Inl _ \<Rightarrow> (move env B)\<^sup>*\<^sup>* T (tables (sw_db w))
         | Inr batch \<Rightarrow> decoded_ok env at batch \<and> distinct (ids (dc_validRows batch)) \<and> set (dc_validRows batch) \<subseteq> set rows \<and>
             working env B tables T m (set (ids (dc_validRows batch))) (?A - set (ids (dc_validRows batch))) (sw_db w))
        (normalize_and_commit sv db at now ?n (joinErrors (map Some (dc_decodeErrs batch))) batch) (reported env B tables T ?A ?n)"
        unfolding decoded sum.case using each by (auto simp: holds_def)
    qed
  qed
qed

section \<open>The entry point\<close>

text \<open>The rows a call takes: the oldest that are pending or to be retried.\<close>

definition batch_rows :: "tables \<Rightarrow> RedisUsageInbox list" where
  "batch_rows T = take redisInboxProcessLimit (filter processable (fst T))"

definition batch_ids :: "tables \<Rightarrow> int set" where
  "batch_ids T = set (ids (batch_rows T))"

lemma ids_columns [simp]: "ids (map redisUsageInboxProcessingColumns rs) = ids rs"
  by (simp add: ids_def redisUsageInboxProcessingColumns_def)

lemma batch_distinct: "distinct (ids (fst T)) \<Longrightarrow> distinct (ids (batch_rows T))"
  by (auto simp: batch_rows_def ids_def take_map [symmetric] intro: distinct_take distinct_map_filter)

lemma process_reports:
  assumes sv: "service_ok sv tables" and T: "distinct (ids (fst T))"
  shows "holds (\<lambda>w. tables (sw_db w) = T) (ProcessRedisUsageInbox (Some sv) at now)
    (\<lambda>(result, err) w. (move (sv_decode sv) (batch_ids T))\<^sup>*\<^sup>* T (tables (sw_db w)) \<and>
       (\<forall>r. result = Some r \<longrightarrow> rb_BatchFull r \<longrightarrow> length (batch_rows T) = redisInboxProcessLimit \<and>
         (settled (batch_ids T) (fst (tables (sw_db w))) \<or> rb_RetryPending r \<or> (rb_Status r = ''failed'' \<and> err \<noteq> None))))"
proof (cases "sv_db sv")
  case None
  then show ?thesis by (simp add: ProcessRedisUsageInbox_def service_validate_def holds_def)
next
  case (Some db)
  have db: "inbox_db_ok db tables" using sv Some by (simp add: service_ok_def)
  let ?Q = "\<lambda>(r, err) w. (move (sv_decode sv) (batch_ids T))\<^sup>*\<^sup>* T (tables (sw_db w)) \<and>
       (rb_BatchFull r \<longrightarrow> length (batch_rows T) = redisInboxProcessLimit \<and>
         (settled (batch_ids T) (fst (tables (sw_db w))) \<or> rb_RetryPending r \<or> (rb_Status r = ''failed'' \<and> err \<noteq> None)))"
  have listed: "holds (\<lambda>w. tables (sw_db w) = T) (on_sql (ListProcessableRedisUsageInbox db (int redisInboxProcessLimit)))
      (\<lambda>res w. tables (sw_db w) = T \<and> (\<forall>rows. res = Inr rows \<longrightarrow> rows = map redisUsageInboxProcessingColumns (batch_rows T)))"
    unfolding ListProcessableRedisUsageInbox_def
    by (intro holds_on_sql holds_reads)
      (auto dest: sql_list_result [OF db] simp: positive_limit_def limited_def batch_rows_def)
  have empty: "holds (\<lambda>w. tables (sw_db w) = T) (process_empty sv at) ?Q"
  proof -
    have "holds (\<lambda>w. tables (sw_db w) = T) (process_empty sv at) (\<lambda>(r, err) w. tables (sw_db w) = T \<and> \<not> rb_BatchFull r)"
    proof -
      have catch_up: "holds (\<lambda>w. tables (sw_db w) = T) (on_sql (aggregateUsageEventStatsFallback sv at)) (\<lambda>_ w. tables (sw_db w) = T)"
        by (rule holds_on_sql [OF keep_fallback [OF sv]])
      have look: "holds (\<lambda>w. tables (sw_db w) = T) (on_sql (reads f)) (\<lambda>_ w. tables (sw_db w) = T)"
        for f :: "'a \<Rightarrow> string + bool"
        by (rule holds_on_sql, rule holds_reads) simp
      show ?thesis
        unfolding process_empty_def Let_def
        by (rule holds_if holds_return holds_bind [OF look] holds_bind [OF catch_up] holds_sum
            | simp add: newRedisBatchSyncResult_def empty_failed_def split: option.split)+
    qed
    then show ?thesis by (rule holds_post) auto
  qed
  have rows: "holds (\<lambda>w. tables (sw_db w) = T)
      (processRedisInboxRows sv db (map redisUsageInboxProcessingColumns (batch_rows T)) at now) ?Q"
  proof -
    let ?rows = "map redisUsageInboxProcessingColumns (batch_rows T)"
    let ?m = "\<lambda>i. the (map_of (map (\<lambda>r. (ib_ID r, ib_RawMessage r)) (batch_rows T)) i)"
    have dist: "distinct (map ib_ID (batch_rows T))" using batch_distinct [OF T] by (simp add: ids_def)
    have m: "?m (ib_ID r) = ib_RawMessage r" if "r \<in> set (batch_rows T)" for r
    proof -
      have "map_of (map (\<lambda>r. (ib_ID r, ib_RawMessage r)) (batch_rows T)) (ib_ID r) = Some (ib_RawMessage r)"
        by (rule map_of_is_SomeI) (use dist that in \<open>auto simp: comp_def\<close>)
      then show ?thesis by simp
    qed
    have sub: "set (batch_rows T) \<subseteq> set (fst T)" "\<And>r. r \<in> set (batch_rows T) \<Longrightarrow> processable r"
      by (auto simp: batch_rows_def dest: in_set_takeD)
    have start: "working (sv_decode sv) (batch_ids T) tables T ?m (set (ids ?rows)) {} s" if "tables s = T" for s
      using that T sub m by (auto simp: working_def settled_def at_hand_def ids_def redisUsageInboxProcessingColumns_def)
    have "holds (\<lambda>w. working (sv_decode sv) (batch_ids T) tables T ?m (set (ids ?rows)) {} (sw_db w))
        (processRedisInboxRows sv db ?rows at now) (reported (sv_decode sv) (batch_ids T) tables T (set (ids ?rows)) (int (length ?rows)))"
      by (rule process_rows_reports [OF sv Some refl])
        (use batch_distinct [OF T] m in \<open>auto simp: batch_ids_def redisUsageInboxProcessingColumns_def\<close>)
    then have "holds (\<lambda>w. tables (sw_db w) = T) (processRedisInboxRows sv db ?rows at now)
        (reported (sv_decode sv) (batch_ids T) tables T (set (ids ?rows)) (int (length ?rows)))"
      by (rule holds_pre) (rule start)
    then show ?thesis by (rule holds_post) (auto simp: reported_def batch_ids_def batch_rows_def)
  qed
  show ?thesis
    unfolding ProcessRedisUsageInbox_def service_validate_def option.case Some sum.case prod.case
  proof (rule holds_bind [OF listed], rule holds_bind)
    fix res :: "string + RedisUsageInbox list"
    show "holds (\<lambda>w. tables (sw_db w) = T \<and> (\<forall>rows. res = Inr rows \<longrightarrow> rows = map redisUsageInboxProcessingColumns (batch_rows T)))
      (case res of
         Inl err \<Rightarrow> State_Monad.return (newRedisBatchSyncResult ''failed'' 0, Some (''list processable redis usage inbox: '' @ err))
       | Inr processableRows \<Rightarrow>
           if processableRows = [] then process_empty sv at else processRedisInboxRows sv db processableRows at now) ?Q"
    proof (rule holds_given, rule holds_sum)
      fix err
      show "holds (\<lambda>w. tables (sw_db w) = T)
          (State_Monad.return (newRedisBatchSyncResult ''failed'' 0, Some (''list processable redis usage inbox: '' @ err))) ?Q"
        by (rule holds_return) (simp add: newRedisBatchSyncResult_def)
    next
      fix y assume "\<forall>rows. res = Inr rows \<longrightarrow> rows = map redisUsageInboxProcessingColumns (batch_rows T)" "res = Inr y"
      then have y: "y = map redisUsageInboxProcessingColumns (batch_rows T)" by blast
      show "holds (\<lambda>w. tables (sw_db w) = T) (if y = [] then process_empty sv at else processRedisInboxRows sv db y at now) ?Q"
        unfolding y by (rule holds_if [OF empty rows])
    qed
  next
    show "holds (?Q out) (case out of (result, err) \<Rightarrow> State_Monad.return (Some result, err))
      (\<lambda>(result, err) w. (move (sv_decode sv) (batch_ids T))\<^sup>*\<^sup>* T (tables (sw_db w)) \<and>
       (\<forall>r. result = Some r \<longrightarrow> rb_BatchFull r \<longrightarrow> length (batch_rows T) = redisInboxProcessLimit \<and>
         (settled (batch_ids T) (fst (tables (sw_db w))) \<or> rb_RetryPending r \<or> (rb_Status r = ''failed'' \<and> err \<noteq> None))))" for out
      by (cases out) (auto intro: holds_return)
  qed
qed

end
