(* ===== verification/ProcessRunner.thy ===== *)
theory ProcessRunner
  imports InboxProcess IngestRunner
begin

text \<open>
  \<open>internal/poller/redis_process_runner.go\<close>: the background task that processes the inbox batch after batch, and the
  status that the poller shows for both of its tasks.  Logging is left out, but not the decision to log.
\<close>

section \<open>Results\<close>

text \<open>\<open>CompletedWithWarnings\<close> wraps \<open>ErrSyncCompletedWithWarnings\<close>.\<close>

datatype process_error = AlreadyRunning | CompletedWithWarnings string | ProcessError go_error

fun process_error_shown :: "process_error \<Rightarrow> bool" where
  "process_error_shown AlreadyRunning = False"
| "process_error_shown (CompletedWithWarnings m) = False"
| "process_error_shown (ProcessError err) = shouldLogSyncError err"

fun is_warning :: "process_error \<Rightarrow> bool" where
  "is_warning AlreadyRunning = False"
| "is_warning (CompletedWithWarnings m) = True"
| "is_warning (ProcessError err) = error_is ((=) SyncCompletedWithWarnings) err"

definition shouldLogRedisProcessBatchFailure :: "RedisBatchSyncResult option \<Rightarrow> process_error option \<Rightarrow> bool" where
  "shouldLogRedisProcessBatchFailure result err \<longleftrightarrow>
     (case err of None \<Rightarrow> False | Some e \<Rightarrow> process_error_shown e) \<and>
     (case result of None \<Rightarrow> True | Some r \<Rightarrow> \<not> rb_RetryPending r \<and> \<not> rb_DiscardedRows r > 0)"

definition shouldContinueRedisProcessImmediately :: "RedisBatchSyncResult option \<Rightarrow> process_error option \<Rightarrow> bool" where
  "shouldContinueRedisProcessImmediately result err \<longleftrightarrow>
     (case result of
        None \<Rightarrow> False
      | Some r \<Rightarrow> rb_BatchFull r \<and> \<not> rb_RetryPending r \<and> (case err of None \<Rightarrow> True | Some e \<Rightarrow> is_warning e))"

section \<open>The runner\<close>

record RedisProcessRunner =
  rp_running :: bool
  rp_processRunning :: bool
  rp_lastRunAt :: gtime
  rp_lastError :: string
  rp_lastWarning :: string
  rp_lastStatus :: string

text \<open>The runner and what its syncer works on.\<close>

record 'w runner_state =
  pr_runner :: RedisProcessRunner
  pr_world :: 'w

type_synonym 'w syncer = "('w, RedisBatchSyncResult option \<times> go_error option) state"

definition NewRedisProcessRunner :: RedisProcessRunner where
  "NewRedisProcessRunner = \<lparr>rp_running = False, rp_processRunning = False, rp_lastRunAt = zero_time, rp_lastError = [],
     rp_lastWarning = [], rp_lastStatus = []\<rparr>"

definition on_runner :: "(RedisProcessRunner \<Rightarrow> RedisProcessRunner) \<Rightarrow> ('w runner_state, unit) state" where
  "on_runner f = modify (\<lambda>s. s\<lparr>pr_runner := f (pr_runner s)\<rparr>)"

definition call_syncer :: "'w syncer \<Rightarrow> ('w runner_state, RedisBatchSyncResult option \<times> go_error option) state" where
  "call_syncer syncer = State (\<lambda>s. case run_state syncer (pr_world s) of (out, w) \<Rightarrow> (out, s\<lparr>pr_world := w\<rparr>))"

text \<open>An error beside a status that is not \<open>failed\<close> is a warning.\<close>

definition partly_done :: "RedisBatchSyncResult option \<Rightarrow> bool" where
  "partly_done result \<longleftrightarrow> (case result of None \<Rightarrow> False | Some r \<Rightarrow> rb_Status r \<noteq> [] \<and> rb_Status r \<noteq> ''failed'')"

definition recordProcessResult ::
  "RedisBatchSyncResult option \<Rightarrow> go_error option \<Rightarrow> gtime \<Rightarrow> RedisProcessRunner \<Rightarrow> RedisProcessRunner" where
  "recordProcessResult result err now r =
     (let status = (case result of None \<Rightarrow> [] | Some res \<Rightarrow> rb_Status res);
          status = (if status = [] \<and> err = None then ''completed'' else status);
          r = r\<lparr>rp_lastRunAt := now, rp_lastStatus := status, rp_lastError := [], rp_lastWarning := []\<rparr>
      in case err of
           None \<Rightarrow> r
         | Some e \<Rightarrow> if partly_done result then r\<lparr>rp_lastWarning := error_text e\<rparr> else r\<lparr>rp_lastError := error_text e\<rparr>)"

text \<open>\<open>now\<close> is the clock when the result is recorded.\<close>

definition ProcessOnce ::
  "'w syncer option \<Rightarrow> gtime \<Rightarrow> ('w runner_state, RedisBatchSyncResult option \<times> process_error option) state" where
  "ProcessOnce handle now =
     (case handle of
        None \<Rightarrow> State_Monad.return (None, Some (ProcessError (Failure ''redis process syncer is nil'')))
      | Some syncer \<Rightarrow> do {
          busy \<leftarrow> reads (\<lambda>s. rp_processRunning (pr_runner s));
          if busy then State_Monad.return (None, Some AlreadyRunning)
          else do {
            _ \<leftarrow> on_runner (\<lambda>r. r\<lparr>rp_processRunning := True\<rparr>);
            (result, err) \<leftarrow> call_syncer syncer;
            let returnErr = (case err of
                   None \<Rightarrow> None
                 | Some e \<Rightarrow> Some (if partly_done result then CompletedWithWarnings (error_text e) else ProcessError e)) in do {
              _ \<leftarrow> on_runner (recordProcessResult result err now);
              _ \<leftarrow> on_runner (\<lambda>r. r\<lparr>rp_processRunning := False\<rparr>);
              State_Monad.return (result, returnErr) } } })"

text \<open>
  What one round of the loop meets: what the other tasks have done to the world since the round before, whether the context
  is cancelled before it, the clock, and whether the pause after it runs its full second.
\<close>

record 'w round_input =
  ri_others :: "'w \<Rightarrow> 'w"
  ri_cancelled :: bool
  ri_now :: gtime
  ri_slept :: bool

text \<open>How a round ends: the next follows at once, or after the pause, or \<open>Run\<close> returns.\<close>

datatype round_end = Goes_on | Pauses | Returns

definition meanwhile :: "('w \<Rightarrow> 'w) \<Rightarrow> ('w runner_state, unit) state" where
  "meanwhile f = modify (\<lambda>s. s\<lparr>pr_world := f (pr_world s)\<rparr>)"

text \<open>The loop of \<open>Run\<close> over the rounds given, with how each of them ended.  The syncer may differ per round.\<close>

fun run_rounds :: "('w syncer \<times> 'w round_input) list \<Rightarrow> ('w runner_state, round_end list) state" where
  "run_rounds [] = State_Monad.return []"
| "run_rounds ((syncer, input) # rounds) = do {
     _ \<leftarrow> meanwhile (ri_others input);
     if ri_cancelled input then do {
       _ \<leftarrow> on_runner (\<lambda>r. r\<lparr>rp_running := False\<rparr>);
       State_Monad.return [Returns] }
     else do {
       (result, err) \<leftarrow> ProcessOnce (Some syncer) (ri_now input);
       if shouldContinueRedisProcessImmediately result err then do {
         ends \<leftarrow> run_rounds rounds;
         State_Monad.return (Goes_on # ends) }
       else if ri_slept input then do {
         ends \<leftarrow> run_rounds rounds;
         State_Monad.return (Pauses # ends) }
       else do {
         _ \<leftarrow> on_runner (\<lambda>r. r\<lparr>rp_running := False\<rparr>);
         State_Monad.return [Returns] } } }"

definition process_Run :: "('w syncer \<times> 'w round_input) list \<Rightarrow> ('w runner_state, round_end list) state" where
  "process_Run rounds = do {
     _ \<leftarrow> on_runner (\<lambda>r. r\<lparr>rp_running := True\<rparr>);
     run_rounds rounds }"

section \<open>Status\<close>

definition process_Status :: "RedisProcessRunner \<Rightarrow> Status" where
  "process_Status r = \<lparr>st_Running = rp_running r, st_LastRunAt = rp_lastRunAt r, st_LastError = rp_lastError r,
     st_LastWarning = rp_lastWarning r, st_LastStatus = rp_lastStatus r, st_SyncRunning = rp_processRunning r\<rparr>"

abbreviation no_status :: Status where
  "no_status \<equiv> \<lparr>st_Running = False, st_LastRunAt = zero_time, st_LastError = [], st_LastWarning = [], st_LastStatus = [],
     st_SyncRunning = False\<rparr>"

text \<open>\<open>RedisPoller.Status\<close>; the outer \<open>None\<close> is a nil poller.\<close>

definition poller_Status :: "(Status option \<times> Status option) option \<Rightarrow> Status" where
  "poller_Status p =
     (case p of
        None \<Rightarrow> no_status
      | Some (ingest, process) \<Rightarrow>
          let ingestStatus = (case ingest of None \<Rightarrow> no_status | Some s \<Rightarrow> s);
              processStatus = (case process of None \<Rightarrow> no_status | Some s \<Rightarrow> s);
              status = ingestStatus;
              status = (if st_LastRunAt processStatus > st_LastRunAt status
                        then status\<lparr>st_LastRunAt := st_LastRunAt processStatus, st_LastStatus := st_LastStatus processStatus\<rparr> else status);
              status = (if st_LastError status \<noteq> [] \<and> st_LastError processStatus \<noteq> []
                        then status\<lparr>st_LastError := st_LastError status @ ''; '' @ st_LastError processStatus\<rparr>
                        else if st_LastError processStatus \<noteq> [] then status\<lparr>st_LastError := st_LastError processStatus\<rparr> else status);
              status = (if st_LastWarning processStatus \<noteq> [] then status\<lparr>st_LastWarning := st_LastWarning processStatus\<rparr> else status)
          in status\<lparr>st_Running := st_Running ingestStatus \<or> st_Running processStatus,
                    st_SyncRunning := st_SyncRunning ingestStatus \<or> st_SyncRunning processStatus\<rparr>)"

section \<open>The syncer\<close>

text \<open>The service as the runner's syncer.\<close>

definition inbox_syncer :: "('s, 'n) sync_service option \<Rightarrow> gtime \<Rightarrow> gtime \<Rightarrow> ('s, 'n) sync_world syncer" where
  "inbox_syncer s fetchedAt now = do {
     (result, err) \<leftarrow> ProcessRedisUsageInbox s fetchedAt now;
     State_Monad.return (result, map_option Failure err) }"

end
