(* ===== verification/InboxProps.thy ===== *)
theory InboxProps
  imports InboxRun ProcessRunner
begin

text \<open>
  The properties of the inbox: what holds of its tables after any history of arrivals, batches and clean-ups, whichever
  statements of the database fail, and how the background task works a backlog off.
\<close>

section \<open>Moves\<close>

text \<open>A move changes only rows of its batch that are pending or to be retried, and never what they are about.\<close>

definition evolves :: "int set \<Rightarrow> RedisUsageInbox \<Rightarrow> RedisUsageInbox \<Rightarrow> bool" where
  "evolves B r r' \<longleftrightarrow> ib_ID r' = ib_ID r \<and> ib_RawMessage r' = ib_RawMessage r \<and> (ib_ID r \<notin> B \<or> \<not> processable r \<longrightarrow> r' = r)"

lemma becomes_at:
  assumes b: "becomes (\<lambda>r. ib_ID r \<in> S) f rs rs'" and d: "distinct (ids rs)" and qs: "set qs \<subseteq> set rs" "S = set (ids qs)"
    and f: "\<And>r now. r \<in> set qs \<Longrightarrow> P r ((f r)\<lparr>ib_UpdatedAt := now\<rparr>)" and other: "\<And>r. r \<in> set rs \<Longrightarrow> r \<notin> set qs \<Longrightarrow> P r r"
  shows "list_all2 P rs rs'"
proof (rule list.rel_mono_strong [OF b [unfolded becomes_def]])
  fix r r' assume r: "r \<in> set rs" and step: "if ib_ID r \<in> S then \<exists>now. r' = (f r)\<lparr>ib_UpdatedAt := now\<rparr> else r' = r"
  show "P r r'"
  proof (cases "ib_ID r \<in> S")
    case True
    then obtain q where q: "q \<in> set qs" "ib_ID q = ib_ID r" unfolding qs(2) ids_def by auto
    then have "r \<in> set qs" using same_id [OF d _ r] qs(1) by blast
    then show ?thesis using step True f by auto
  next
    case False
    then have "r \<notin> set qs" unfolding qs(2) ids_def by auto
    then show ?thesis using step False other [OF r] by simp
  qed
qed

lemma becomes_one:
  assumes "becomes (\<lambda>r. ib_ID r \<in> {ib_ID q}) f rs rs'" and "distinct (ids rs)" and "q \<in> set rs"
    and "\<And>now. P q ((f q)\<lparr>ib_UpdatedAt := now\<rparr>)" and "\<And>r. r \<in> set rs \<Longrightarrow> r \<noteq> q \<Longrightarrow> P r r"
  shows "list_all2 P rs rs'"
  by (rule becomes_at [OF assms(1, 2), of "[q]"]) (use assms(3-5) in \<open>auto simp: ids_def\<close>)

lemma move_evolves: "move env B T T' \<Longrightarrow> list_all2 (evolves B) (fst T) (fst T') \<and> (distinct (ids (fst T)) \<longrightarrow> distinct (ids (fst T')))"
proof (induction rule: move.induct)
  case (decode_failure rs q err rs' es)
  have "list_all2 (evolves B) rs rs'"
    by (rule becomes_one [OF decode_failure(6, 1, 2)]) (use decode_failure in \<open>auto simp: evolves_def\<close>)
  then show ?case using becomes_ids [OF decode_failure(6)] decode_failure(1) by simp
next
  case (processing_failure rs q err rs' es)
  have "list_all2 (evolves B) rs rs'"
    by (rule becomes_one [OF processing_failure(6, 1, 2)]) (use processing_failure in \<open>auto simp: evolves_def\<close>)
  then show ?case using becomes_ids [OF processing_failure(6)] processing_failure(1) by simp
next
  case (success rs qs es' at rs' es)
  have "list_all2 (evolves B) rs rs'"
    by (rule becomes_at [OF success(7, 1, 2) refl])
      (use success(4, 5) in \<open>auto simp: evolves_def list_all_iff ids_def\<close>)
  then show ?case using becomes_ids [OF success(7)] success(1) by simp
qed

lemma moves_evolve:
  assumes "(move env B)\<^sup>*\<^sup>* T T'"
  shows "list_all2 (evolves B) (fst T) (fst T') \<and> (distinct (ids (fst T)) \<longrightarrow> distinct (ids (fst T')))"
  using assms
proof (induction rule: rtranclp_induct)
  case base
  show ?case by (simp add: list_all2_refl evolves_def)
next
  case (step T1 T2)
  have "list_all2 (evolves B) (fst T) (fst T2)"
    by (rule list_all2_trans [OF _ step.IH [THEN conjunct1] move_evolves [OF step.hyps(2), THEN conjunct1]])
      (auto simp: evolves_def)
  then show ?case using step.IH move_evolves [OF step.hyps(2)] by simp
qed

section \<open>Attempts\<close>

text \<open>What the status of a row says of its attempts.\<close>

definition row_ok :: "RedisUsageInbox \<Rightarrow> bool" where
  "row_ok r \<longleftrightarrow> length (ib_LastError r) \<le> redisUsageInboxMaxErrorLength \<and>
     (ib_Status r = RedisUsageInboxStatusPending \<and> ib_AttemptCount r = 0 \<or>
      ib_Status r = RedisUsageInboxStatusProcessFailed \<and> 1 \<le> ib_AttemptCount r \<and> ib_AttemptCount r < redisUsageInboxMaxProcessAttempts \<or>
      ib_Status r = RedisUsageInboxStatusDiscarded \<and> ib_AttemptCount r = redisUsageInboxMaxProcessAttempts \<or>
      ib_Status r = RedisUsageInboxStatusDecodeFailed \<and> 1 \<le> ib_AttemptCount r \<and> ib_AttemptCount r \<le> redisUsageInboxMaxProcessAttempts \<or>
      ib_Status r = RedisUsageInboxStatusProcessed \<and> 0 \<le> ib_AttemptCount r \<and> ib_AttemptCount r < redisUsageInboxMaxProcessAttempts)"

lemma length_until_valid: "length (until_valid s) \<le> length s"
proof (induction s rule: until_valid.induct)
  case (1 s)
  show ?case
  proof (cases "ValidString s")
    case True
    then show ?thesis by (simp add: until_valid.simps)
  next
    case False
    then show ?thesis using "1.IH" by (subst until_valid.simps) simp
  qed
qed

lemma bounded_error: "length (boundedRedisUsageInboxError err) \<le> redisUsageInboxMaxErrorLength"
proof -
  have "length (until_valid (take redisUsageInboxMaxErrorLength m)) \<le> redisUsageInboxMaxErrorLength" for m
    using length_until_valid [of "take redisUsageInboxMaxErrorLength m"] by simp
  then show ?thesis by (auto simp: boundedRedisUsageInboxError_def split: option.splits)
qed

lemma row_ok_moves:
  assumes "row_ok r" and "processable r"
  shows "row_ok ((undecodable err r)\<lparr>ib_UpdatedAt := now\<rparr>)" and "row_ok ((process_failure err r)\<lparr>ib_UpdatedAt := now\<rparr>)"
    and "row_ok ((mark_processed batch at r)\<lparr>ib_UpdatedAt := now\<rparr>)"
  using assms by (auto simp: row_ok_def processable_def undecodable_def process_failure_def mark_processed_def bounded_error)

lemma list_all2_rowsI: "list_all2 (\<lambda>r r'. P r') rs rs' \<Longrightarrow> list_all P rs'"
  by (induction rule: list_all2_induct) auto

lemma move_rows_ok: "move env B T T' \<Longrightarrow> list_all row_ok (fst T) \<Longrightarrow> list_all row_ok (fst T')"
proof (induction rule: move.induct)
  case (decode_failure rs q err rs' es)
  have "list_all2 (\<lambda>r r'. row_ok r') rs rs'"
    by (rule becomes_one [OF decode_failure(6, 1, 2)]) (use decode_failure row_ok_moves in \<open>auto simp: list_all_iff\<close>)
  then show ?case by (simp add: list_all2_rowsI)
next
  case (processing_failure rs q err rs' es)
  have "list_all2 (\<lambda>r r'. row_ok r') rs rs'"
    by (rule becomes_one [OF processing_failure(6, 1, 2)]) (use processing_failure row_ok_moves in \<open>auto simp: list_all_iff\<close>)
  then show ?case by (simp add: list_all2_rowsI)
next
  case (success rs qs es' at rs' es)
  have "list_all2 (\<lambda>r r'. row_ok r') rs rs'"
    by (rule becomes_at [OF success(7, 1, 2) refl]) (use success row_ok_moves in \<open>auto simp: list_all_iff\<close>)
  then show ?case by (simp add: list_all2_rowsI)
qed

section \<open>Messages\<close>

text \<open>
  Every message that has arrived is exactly one of: the source of one stored event, a row that is not processed, or such a
  row at the time the clean-up removed it.  The removed rows are those a history records, with the time of the clean-up.
\<close>

definition unprocessed :: "RedisUsageInbox \<Rightarrow> bool" where
  "unprocessed r \<longleftrightarrow> ib_Status r \<noteq> RedisUsageInboxStatusProcessed"

definition messages :: "RedisUsageInbox list \<Rightarrow> string multiset" where
  "messages rs = mset (map ib_RawMessage rs)"

lemma messages_append: "messages (xs @ ys) = messages xs + messages ys"
  by (simp add: messages_def)

lemma messages_mset: "mset xs = mset ys \<Longrightarrow> messages xs = messages ys"
  by (simp add: messages_def)

lemma messages_split:
  "messages (filter P rs) = messages (filter (\<lambda>r. P r \<and> Q r) rs) + messages (filter (\<lambda>r. P r \<and> \<not> Q r) rs)"
  by (induction rs) (auto simp: messages_def)

definition conserved :: "'n decode_env \<Rightarrow> string list \<Rightarrow> (gtime \<times> RedisUsageInbox) list \<Rightarrow> tables \<Rightarrow> bool" where
  "conserved env arrived removed T \<longleftrightarrow>
     (\<exists>sources. list_all2 (comes_from env) sources (snd T) \<and>
        mset arrived = mset sources + messages (filter unprocessed (fst T)) + messages (filter unprocessed (map snd removed))) \<and>
     (\<forall>r \<in> set (fst T). \<not> unprocessed r \<longrightarrow> message_key env (ib_RawMessage r) = Some (ib_UsageEventKey r))"

lemma conserved_rows:
  assumes "conserved env arrived removed (rs, es)"
    and "list_all2 (\<lambda>r r'. ib_RawMessage r' = ib_RawMessage r \<and> unprocessed r' = unprocessed r \<and>
           (\<not> unprocessed r' \<longrightarrow> ib_UsageEventKey r' = ib_UsageEventKey r)) rs rs'"
  shows "conserved env arrived removed (rs', es)"
proof -
  have "map ib_RawMessage (filter unprocessed rs') = map ib_RawMessage (filter unprocessed rs)"
    using assms(2) by (induction rule: list_all2_induct) auto
  moreover have "\<forall>r \<in> set rs'. \<not> unprocessed r \<longrightarrow> message_key env (ib_RawMessage r) = Some (ib_UsageEventKey r)"
    using assms unfolding conserved_def by (fastforce simp: list_all2_conv_all_nth in_set_conv_nth)
  ultimately show ?thesis using assms(1) by (simp add: conserved_def messages_def)
qed

lemma mark_processed_key:
  assumes "q \<in> set qs" and "distinct (ids qs)" and "list_all2 (\<lambda>q. comes_from env (ib_RawMessage q)) qs es"
  shows "message_key env (ib_RawMessage q) = Some (ib_UsageEventKey (mark_processed (updates_of qs es) at q))"
proof -
  obtain i where i: "i < length qs" "q = qs ! i" using assms(1) by (auto simp: in_set_conv_nth)
  have len: "length qs = length es" using assms(3) by (rule list_all2_lengthD)
  have "map_of (map (\<lambda>u. (pu_ID u, pu_EventKey u)) (updates_of qs es)) (ib_ID q) = Some (ev_EventKey (es ! i))"
  proof (rule map_of_is_SomeI)
    show "distinct (map fst (map (\<lambda>u. (pu_ID u, pu_EventKey u)) (updates_of qs es)))"
      using assms(2) updates_of_ids [OF len] by (simp add: comp_def)
    show "(ib_ID q, ev_EventKey (es ! i)) \<in> set (map (\<lambda>u. (pu_ID u, pu_EventKey u)) (updates_of qs es))"
    proof -
      have "(qs ! i, es ! i) \<in> set (zip qs es)" using i len by (auto simp: set_zip)
      then show ?thesis using i(2) by (auto intro: rev_image_eqI)
    qed
  qed
  moreover have "comes_from env (ib_RawMessage q) (es ! i)" using assms(3) i by (simp add: list_all2_conv_all_nth)
  ultimately show ?thesis using comes_from_key by (simp add: mark_processed_def)
qed

text \<open>Storing the events of a batch takes its rows from the unprocessed ones.\<close>

lemma messages_processed:
  assumes "distinct (ids rs)" and "set qs \<subseteq> set rs" and "distinct (ids qs)" and "list_all unprocessed qs"
    and b: "becomes (\<lambda>r. ib_ID r \<in> set (ids qs)) (mark_processed batch at) rs rs'"
  shows "messages (filter unprocessed rs) = messages qs + messages (filter unprocessed rs')"
proof -
  let ?in = "\<lambda>r. ib_ID r \<in> set (ids qs)"
  have distinct_rs: "distinct rs" "distinct qs" using assms(1, 3) by (simp_all add: ids_def distinct_map)
  have "set (filter (\<lambda>r. unprocessed r \<and> ?in r) rs) = set qs"
    using assms(2, 4) same_id [OF assms(1)] by (auto simp: ids_def list_all_iff subset_iff)
  then have taken: "messages (filter (\<lambda>r. unprocessed r \<and> ?in r) rs) = messages qs"
    by (intro messages_mset) (metis distinct_rs distinct_filter set_eq_iff_mset_eq_distinct)
  have "map ib_RawMessage (filter unprocessed rs') = map ib_RawMessage (filter (\<lambda>r. unprocessed r \<and> \<not> ?in r) rs)"
    using b unfolding becomes_def
    by (induction rule: list_all2_induct) (auto simp: unprocessed_def mark_processed_def split: if_splits)
  then have kept: "messages (filter unprocessed rs') = messages (filter (\<lambda>r. unprocessed r \<and> \<not> ?in r) rs)"
    by (simp add: messages_def)
  show ?thesis using messages_split [of unprocessed rs ?in] by (simp only: taken kept)
qed

lemma move_conserved: "move env B T T' \<Longrightarrow> conserved env arrived removed T \<Longrightarrow> conserved env arrived removed T'"
proof (induction rule: move.induct)
  case (decode_failure rs q err rs' es)
  show ?case
    by (rule conserved_rows [OF decode_failure(7)], rule becomes_one [OF decode_failure(6, 1, 2)])
      (use decode_failure(4) in \<open>auto simp: undecodable_def unprocessed_def processable_def\<close>)
next
  case (processing_failure rs q err rs' es)
  show ?case
    by (rule conserved_rows [OF processing_failure(7)], rule becomes_one [OF processing_failure(6, 1, 2)])
      (use processing_failure(4) in \<open>auto simp: process_failure_def unprocessed_def processable_def\<close>)
next
  case (success rs qs es' at rs' es)
  obtain sources where c: "list_all2 (comes_from env) sources es"
    "mset arrived = mset sources + messages (filter unprocessed rs) + messages (filter unprocessed (map snd removed))"
    and key: "\<And>r. r \<in> set rs \<Longrightarrow> \<not> unprocessed r \<Longrightarrow> message_key env (ib_RawMessage r) = Some (ib_UsageEventKey r)"
    using success(8) by (auto simp: conserved_def)
  have open_rows: "list_all unprocessed qs"
    using success(5) by (auto simp: list_all_iff processable_def unprocessed_def)
  have moved: "messages (filter unprocessed rs) = messages qs + messages (filter unprocessed rs')"
    by (rule messages_processed [OF success(1, 2, 3) open_rows success(7)])
  have "list_all2 (comes_from env) (sources @ map ib_RawMessage qs) (es @ es')"
    by (rule list_all2_appendI [OF c(1)]) (use success(6) in \<open>simp add: list_all2_map1\<close>)
  moreover have "mset arrived = mset (sources @ map ib_RawMessage qs) + messages (filter unprocessed rs') + messages (filter unprocessed (map snd removed))"
    using c(2) moved by (simp add: messages_def [of qs])
  moreover have "list_all2 (\<lambda>r r'. \<not> unprocessed r' \<longrightarrow> message_key env (ib_RawMessage r') = Some (ib_UsageEventKey r')) rs rs'"
    by (rule becomes_at [OF success(7, 1, 2) refl]) (use mark_processed_key [OF _ success(3, 6)] key in auto)
  then have "\<forall>r' \<in> set rs'. \<not> unprocessed r' \<longrightarrow> message_key env (ib_RawMessage r') = Some (ib_UsageEventKey r')"
    using list_all2_rowsI [of "\<lambda>r'. \<not> unprocessed r' \<longrightarrow> message_key env (ib_RawMessage r') = Some (ib_UsageEventKey r')" rs rs']
    by (simp add: list_all_iff)
  ultimately show ?case unfolding conserved_def fst_conv snd_conv by blast
qed

section \<open>Histories\<close>

text \<open>
  Messages that the poller hands over, batches, and the daily clean-up; with the messages that have arrived and the rows
  that the clean-ups have removed, which are those no longer in the table after one.
\<close>

datatype inbox_event = Arrive string "string list" gtime | ProcessBatch gtime gtime | Clean gtime

record inbox_ledger =
  il_arrived :: "string list"
  il_removed :: "(gtime \<times> RedisUsageInbox) list"

definition removed_between :: "gtime \<Rightarrow> tables \<Rightarrow> tables \<Rightarrow> (gtime \<times> RedisUsageInbox) list" where
  "removed_between now T T' = map (\<lambda>r. (now, r)) (filter (\<lambda>r. r \<notin> set (fst T')) (fst T))"

fun inbox_step ::
  "('s, 'n) sync_service \<Rightarrow> ('s \<Rightarrow> tables) \<Rightarrow> (string \<Rightarrow> string) \<Rightarrow> zone \<Rightarrow> inbox_event \<Rightarrow> ('s, 'n) sync_world \<times> inbox_ledger \<Rightarrow>
     ('s, 'n) sync_world \<times> inbox_ledger" where
  "inbox_step sv tables hash z (Arrive source payloads poppedAt) (w, l) =
     (case sv_db sv of
        None \<Rightarrow> (w, l)
      | Some db \<Rightarrow>
          (case run_state (on_sql (InsertRedisUsageInboxRawMessages db hash source payloads poppedAt)) w of
             (Inl err, w') \<Rightarrow> (w', l)
           | (Inr rows, w') \<Rightarrow> (w', l\<lparr>il_arrived := il_arrived l @ payloads\<rparr>)))"
| "inbox_step sv tables hash z (ProcessBatch fetchedAt now) (w, l) =
     (snd (run_state (ProcessRedisUsageInbox (Some sv) fetchedAt now) w), l)"
| "inbox_step sv tables hash z (Clean now) (w, l) =
     (let w' = snd (run_state (service_CleanupRedisUsageInbox (Some sv) z now) w) in
      (w', l\<lparr>il_removed := il_removed l @ removed_between now (tables (sw_db w)) (tables (sw_db w'))\<rparr>))"

definition inbox_history ::
  "('s, 'n) sync_service \<Rightarrow> ('s \<Rightarrow> tables) \<Rightarrow> (string \<Rightarrow> string) \<Rightarrow> zone \<Rightarrow> inbox_event list \<Rightarrow> ('s, 'n) sync_world \<Rightarrow>
     ('s, 'n) sync_world \<times> inbox_ledger" where
  "inbox_history sv tables hash z events w = fold (inbox_step sv tables hash z) events (w, \<lparr>il_arrived = [], il_removed = []\<rparr>)"

text \<open>
  What a clean-up may remove: a row processed before the day it runs on, or one that failed and has not been touched for
  seven days.
\<close>

definition removable :: "zone \<Rightarrow> gtime \<Rightarrow> RedisUsageInbox \<Rightarrow> bool" where
  "removable z now r \<longleftrightarrow>
     ib_Status r = RedisUsageInboxStatusProcessed \<and>
       (\<exists>at. ib_ProcessedAt r = Some at \<and> FormatStorageTime z at < FormatStorageTime z (midnight z (local_day z now))) \<or>
     (ib_Status r = RedisUsageInboxStatusDecodeFailed \<or> ib_Status r = RedisUsageInboxStatusProcessFailed \<or>
        ib_Status r = RedisUsageInboxStatusDiscarded) \<and>
       FormatStorageTime z (ib_UpdatedAt r) < FormatStorageTime z (add_days z now (- 7))"

definition ledger_ok :: "'n decode_env \<Rightarrow> zone \<Rightarrow> inbox_ledger \<Rightarrow> tables \<Rightarrow> bool" where
  "ledger_ok env z l T \<longleftrightarrow> distinct (ids (fst T)) \<and> conserved env (il_arrived l) (il_removed l) T \<and> list_all row_ok (fst T) \<and>
     list_all (\<lambda>(now, r). removable z now r) (il_removed l)"

lemma moves_ledger:
  assumes "(move env B)\<^sup>*\<^sup>* T T'" and "ledger_ok env z l T"
  shows "ledger_ok env z l T'"
  using assms
proof (induction rule: rtranclp_induct)
  case (step T1 T2)
  then show ?case using move_conserved move_rows_ok move_evolves unfolding ledger_ok_def by blast
qed

lemma conserved_deletion:
  assumes "conserved env arrived removed (rs, es)"
  shows "conserved env arrived (removed @ map (\<lambda>r. (now, r)) (filter P rs)) (filter (\<lambda>r. \<not> P r) rs, es)"
proof -
  obtain sources where c: "list_all2 (comes_from env) sources es"
    "mset arrived = mset sources + messages (filter unprocessed rs) + messages (filter unprocessed (map snd removed))"
    using assms(1) by (auto simp: conserved_def)
  have "filter unprocessed (filter (\<lambda>r. \<not> P r) rs) = filter (\<lambda>r. unprocessed r \<and> \<not> P r) rs"
    "filter unprocessed (filter P rs) = filter (\<lambda>r. unprocessed r \<and> P r) rs" by (auto intro: filter_cong)
  then have "mset arrived = mset sources + messages (filter unprocessed (filter (\<lambda>r. \<not> P r) rs)) +
      messages (filter unprocessed (map snd (removed @ map (\<lambda>r. (now, r)) (filter P rs))))"
    using c(2) messages_split [of unprocessed rs P] by (simp add: messages_append comp_def ac_simps del: filter_filter)
  moreover have "\<forall>r \<in> set (filter (\<lambda>r. \<not> P r) rs). \<not> unprocessed r \<longrightarrow> message_key env (ib_RawMessage r) = Some (ib_UsageEventKey r)"
    using assms(1) by (simp add: conserved_def)
  ultimately show ?thesis unfolding conserved_def fst_conv snd_conv using c(1) by blast
qed

text \<open>A clean-up takes away removable rows and nothing else, as far as its statements succeed.\<close>

definition cleaned :: "zone \<Rightarrow> gtime \<Rightarrow> tables \<Rightarrow> tables \<Rightarrow> bool" where
  "cleaned z now T T' \<longleftrightarrow> (\<exists>P. (\<forall>r. P r \<longrightarrow> removable z now r) \<and> T' = (filter (\<lambda>r. \<not> P r) (fst T), snd T))"

lemma cleaned_refl: "cleaned z now T T"
  unfolding cleaned_def by (rule exI [of _ "\<lambda>_. False"]) simp

lemma cleaned_trans: "cleaned z now T U \<Longrightarrow> cleaned z now U V \<Longrightarrow> cleaned z now T V"
  unfolding cleaned_def
proof clarify
  fix P Q
  assume "\<forall>r. P r \<longrightarrow> removable z now r" "\<forall>r. Q r \<longrightarrow> removable z now r"
  then show "\<exists>R. (\<forall>r. R r \<longrightarrow> removable z now r) \<and>
      (filter (\<lambda>r. \<not> Q r) (fst (filter (\<lambda>r. \<not> P r) (fst T), snd T)), snd (filter (\<lambda>r. \<not> P r) (fst T), snd T)) =
      (filter (\<lambda>r. \<not> R r) (fst T), snd T)"
    by (intro exI [of _ "\<lambda>r. P r \<or> Q r"]) simp
qed

lemma remove_cleans:
  assumes "inbox_db_ok db tables" and "\<And>r. P r \<Longrightarrow> removable z now r"
  shows "holds (\<lambda>s. cleaned z now T (tables s)) (State (sql_remove db P)) (\<lambda>_ s. cleaned z now T (tables s))"
proof (rule holdsI)
  fix s res t
  assume s: "cleaned z now T (tables s)" and "run_state (State (sql_remove db P)) s = (res, t)"
  then have t: "snd (tables t) = snd (tables s)"
    "fst (tables t) = (case res of Inl _ \<Rightarrow> fst (tables s) | Inr _ \<Rightarrow> filter (\<lambda>r. \<not> P r) (fst (tables s)))"
    using assms(1) unfolding inbox_db_ok_def updates_ok_def by fastforce+
  have "cleaned z now (tables s) (tables t)"
  proof (cases res)
    case (Inl err)
    then have "tables t = tables s" using t by (simp add: prod_eq_iff)
    then show ?thesis by (simp add: cleaned_refl)
  next
    case (Inr n)
    then have "tables t = (filter (\<lambda>r. \<not> P r) (fst (tables s)), snd (tables s))" using t by (simp add: prod_eq_iff)
    then show ?thesis using assms(2) unfolding cleaned_def by blast
  qed
  with s show "cleaned z now T (tables t)" by (rule cleaned_trans)
qed

lemma cleanup_cleans:
  assumes db: "inbox_db_ok db tables"
  shows "holds (\<lambda>s. cleaned z now T (tables s)) (CleanupRedisUsageInbox db z now) (\<lambda>_ s. cleaned z now T (tables s))"
proof -
  have "removable z now r" if "processed_before z (midnight z (local_day z now)) r \<or> failed_before z (add_days z now (- 7)) r" for r
    using that by (auto simp: removable_def processed_before_def failed_before_def split: option.splits)
  then show ?thesis
    unfolding CleanupRedisUsageInbox_def Let_def
    by (intro keep_rules remove_cleans [OF db]) blast+
qed

lemma service_cleans:
  assumes sv: "service_ok sv tables"
  shows "holds (\<lambda>w'. cleaned z now T (tables (sw_db w'))) (service_CleanupRedisUsageInbox (Some sv) z now)
    (\<lambda>_ w'. cleaned z now T (tables (sw_db w')))"
proof (cases "sv_db sv")
  case None
  then show ?thesis by (simp add: service_CleanupRedisUsageInbox_def service_validate_def keep_return)
next
  case (Some db)
  then have "inbox_db_ok db tables" using sv by (simp add: service_ok_def)
  from holds_on_sql [OF cleanup_cleans [OF this, where T = T and z = z and now = now]] show ?thesis
    unfolding service_CleanupRedisUsageInbox_def service_validate_def option.case Some sum.case prod.case
    by (intro keep_bind) (auto simp: keep_return split: prod.splits)
qed

lemma ledger_cleaned:
  assumes "ledger_ok env z l T" and "cleaned z now T T'"
  shows "ledger_ok env z (l\<lparr>il_removed := il_removed l @ removed_between now T T'\<rparr>) T'"
proof -
  obtain P where P: "\<forall>r. P r \<longrightarrow> removable z now r" "T' = (filter (\<lambda>r. \<not> P r) (fst T), snd T)"
    using assms(2) by (auto simp: cleaned_def)
  have gone: "removed_between now T T' = map (\<lambda>r. (now, r)) (filter P (fst T))"
  proof -
    have "filter (\<lambda>r. r \<notin> set (fst T')) (fst T) = filter P (fst T)"
      by (rule filter_cong [OF refl]) (simp add: P(2))
    then show ?thesis by (simp add: removed_between_def)
  qed
  have "conserved env (il_arrived l) (il_removed l) (fst T, snd T)" using assms(1) by (simp add: ledger_ok_def)
  from conserved_deletion [OF this, of now P]
  have "conserved env (il_arrived l) (il_removed l @ removed_between now T T') T'" by (simp add: P(2) gone [unfolded P(2)])
  moreover have "list_all (\<lambda>(now, r). removable z now r) (removed_between now T T')"
    unfolding gone using P(1) by (auto simp: list_all_iff)
  ultimately show ?thesis
    using assms(1) by (auto simp: ledger_ok_def list_all_iff P(2) ids_def distinct_map_filter)
qed

lemma inserted_rows:
  assumes "list_all2 stored_row (map (inbox_row hash) inputs) rs"
  shows "map ib_RawMessage rs = map in_RawMessage inputs" and "list_all unprocessed rs" and "list_all row_ok rs"
proof -
  have "map ib_RawMessage rs = map in_RawMessage inputs \<and> list_all unprocessed rs \<and> list_all row_ok rs"
    using assms unfolding list_all2_map1
    by (induction rule: list_all2_induct) (auto simp: stored_row_def inbox_row_def unprocessed_def row_ok_def)
  then show "map ib_RawMessage rs = map in_RawMessage inputs" "list_all unprocessed rs" "list_all row_ok rs" by blast+
qed

lemma ledger_arrive:
  assumes db: "inbox_db_ok db tables"
  shows "holds (\<lambda>s. ledger_ok env z l (tables s)) (InsertRedisUsageInboxRawMessages db hash source payloads poppedAt)
    (\<lambda>res s. ledger_ok env z (case res of Inl _ \<Rightarrow> l | Inr _ \<Rightarrow> l\<lparr>il_arrived := il_arrived l @ payloads\<rparr>) (tables s))"
proof (cases "payloads = []")
  case True
  then show ?thesis
    by (simp add: InsertRedisUsageInboxRawMessages_def InsertRedisUsageInboxMessages_def gives_def holds_def)
next
  case False
  let ?inputs = "map (\<lambda>m. \<lparr>in_Source = source, in_RawMessage = m, in_PoppedAt = poppedAt\<rparr>) payloads"
  let ?rows = "map (inbox_row hash) ?inputs" and ?l = "l\<lparr>il_arrived := il_arrived l @ payloads\<rparr>"
  have raw: "map in_RawMessage ?inputs = payloads" by (simp add: comp_def)
  show ?thesis
  proof (rule holdsI)
    fix s res t
    assume s: "ledger_ok env z l (tables s)"
      and run: "run_state (InsertRedisUsageInboxRawMessages db hash source payloads poppedAt) s = (res, t)"
    have "holds (\<lambda>u. tables u = tables s) (State (sql_insert db (insertBatchSize (sql_columns db)) ?rows))
        (\<lambda>res u. \<forall>x. res = Inr x \<longrightarrow> ledger_ok env z ?l (tables u))"
    proof (rule holdsI, intro allI impI)
      fix u out v x
      assume u: "tables u = tables s" and out: "out = Inr x"
        and run: "run_state (State (sql_insert db (insertBatchSize (sql_columns db)) ?rows)) u = (out, v)"
      have v: "snd (tables v) = snd (tables s)" "fst (tables v) = fst (tables s) @ x" "list_all2 stored_row ?rows x"
        "distinct (ids (fst (tables s))) \<Longrightarrow> distinct (ids (fst (tables v)))"
        using db run out u unfolding inbox_db_ok_def inserts_ok_def by fastforce+
      note new = inserted_rows [OF v(3), unfolded raw]
      have "messages (filter unprocessed (fst (tables v))) = messages (filter unprocessed (fst (tables s))) + mset payloads"
        using new by (simp add: v(2) messages_append list_all_iff filter_id_conv messages_def)
      then have "conserved env (il_arrived ?l) (il_removed ?l) (tables v)"
        using s new v(1, 2) unfolding ledger_ok_def conserved_def by (auto simp: list_all_iff ac_simps)
      then show "ledger_ok env z ?l (tables v)"
        using s new(3) v(2, 4) by (simp add: ledger_ok_def)
    qed
    note whole = holds_transaction [where Q = "\<lambda>_. ledger_ok env z ?l", OF db this]
    from holdsD [OF whole refl]
    show "ledger_ok env z (case res of Inl _ \<Rightarrow> l | Inr _ \<Rightarrow> ?l) (tables t)"
      using run s False by (auto simp: InsertRedisUsageInboxRawMessages_def InsertRedisUsageInboxMessages_def split: sum.splits)
  qed
qed

lemma inbox_step_ledger:
  assumes sv: "service_ok sv tables" and l: "ledger_ok (sv_decode sv) z l (tables (sw_db w))"
    and step: "inbox_step sv tables hash z event (w, l) = (w', l')"
  shows "ledger_ok (sv_decode sv) z l' (tables (sw_db w'))"
proof (cases event)
  case (Arrive source payloads poppedAt)
  show ?thesis
  proof (cases "sv_db sv")
    case None
    then show ?thesis using step l Arrive by simp
  next
    case (Some db)
    have db: "inbox_db_ok db tables" using sv Some by (simp add: service_ok_def)
    obtain res w1 where r: "run_state (on_sql (InsertRedisUsageInboxRawMessages db hash source payloads poppedAt)) w = (res, w1)" by fastforce
    show ?thesis
      using holdsD [OF holds_on_sql [OF ledger_arrive [OF db]] l r] step Some by (auto simp: Arrive r split: sum.splits)
  qed
next
  case (ProcessBatch at now)
  obtain out w1 where r: "run_state (ProcessRedisUsageInbox (Some sv) at now) w = (out, w1)" by fastforce
  have "distinct (ids (fst (tables (sw_db w))))" using l by (simp add: ledger_ok_def)
  from holdsD [OF process_reports [OF sv this] refl r]
  have moves: "(move (sv_decode sv) (batch_ids (tables (sw_db w))))\<^sup>*\<^sup>* (tables (sw_db w)) (tables (sw_db w1))"
    by (auto split: prod.splits)
  show ?thesis using moves_ledger [OF moves l] step by (simp add: ProcessBatch r)
next
  case (Clean now)
  obtain out w1 where r: "run_state (service_CleanupRedisUsageInbox (Some sv) z now) w = (out, w1)" by fastforce
  from ledger_cleaned [OF l holdsD [OF service_cleans [OF sv] cleaned_refl r]] show ?thesis using step by (auto simp: Clean r)
qed

lemma history_ledger:
  assumes sv: "service_ok sv tables" and start: "tables (sw_db w) = ([], [])"
  shows "inbox_history sv tables hash z events w = (w', l) \<Longrightarrow> ledger_ok (sv_decode sv) z l (tables (sw_db w'))"
proof -
  have "ledger_ok (sv_decode sv) z (snd p') (tables (sw_db (fst p')))"
    if "fold (inbox_step sv tables hash z) events p = p'" "ledger_ok (sv_decode sv) z (snd p) (tables (sw_db (fst p)))" for p p'
    using that
  proof (induction events arbitrary: p)
    case (Cons event events)
    obtain w1 l1 where step: "inbox_step sv tables hash z event (fst p, snd p) = (w1, l1)" by fastforce
    show ?case
      by (rule Cons.IH [of "(w1, l1)"]) (use Cons.prems step inbox_step_ledger [OF sv Cons.prems(2) step] in auto)
  qed simp
  moreover have "ledger_ok (sv_decode sv) z \<lparr>il_arrived = [], il_removed = []\<rparr> ([], [])"
    by (simp add: ledger_ok_def conserved_def ids_def messages_def)
  ultimately show "ledger_ok (sv_decode sv) z l (tables (sw_db w'))" if "inbox_history sv tables hash z events w = (w', l)"
    using that start unfolding inbox_history_def by (metis fst_conv snd_conv)
qed

section \<open>The backlog\<close>

definition backlog :: "tables \<Rightarrow> RedisUsageInbox list" where
  "backlog T = filter processable (fst T)"

lemma batch_rows_backlog: "batch_rows T = take redisInboxProcessLimit (backlog T)"
  by (simp add: batch_rows_def backlog_def)

text \<open>Once a batch is done with, what is left of the backlog is the rest of it.\<close>

lemma backlog_rest:
  assumes "list_all2 (evolves (batch_ids T)) (fst T) (fst T')" and "settled (batch_ids T) (fst T')" and "distinct (ids (fst T))"
  shows "backlog T' = drop redisInboxProcessLimit (backlog T)"
proof -
  let ?B = "batch_ids T" and ?n = redisInboxProcessLimit
  have "list_all2 (\<lambda>r r'. ib_ID r' = ib_ID r \<and> (ib_ID r \<in> ?B \<longrightarrow> \<not> processable r') \<and> (ib_ID r \<notin> ?B \<longrightarrow> r' = r)) (fst T) (fst T')"
    by (rule list.rel_mono_strong [OF assms(1)]) (use assms(2) in \<open>auto simp: evolves_def settled_def\<close>)
  then have "filter processable (fst T') = filter (\<lambda>r. processable r \<and> ib_ID r \<notin> ?B) (fst T)"
    by (induction rule: list_all2_induct) auto
  then have "backlog T' = filter (\<lambda>r. ib_ID r \<notin> ?B) (backlog T)" by (simp add: backlog_def conj_commute)
  also have "\<dots> = filter (\<lambda>r. ib_ID r \<notin> ?B) (take ?n (backlog T)) @ filter (\<lambda>r. ib_ID r \<notin> ?B) (drop ?n (backlog T))"
    by (metis append_take_drop_id filter_append)
  also have "filter (\<lambda>r. ib_ID r \<notin> ?B) (take ?n (backlog T)) = []"
    by (auto simp: filter_empty_conv batch_ids_def batch_rows_backlog ids_def)
  also have "filter (\<lambda>r. ib_ID r \<notin> ?B) (drop ?n (backlog T)) = drop ?n (backlog T)"
  proof -
    have "distinct (map ib_ID (take ?n (backlog T) @ drop ?n (backlog T)))"
      using assms(3) by (simp add: backlog_def ids_def distinct_map_filter)
    then have "set (map ib_ID (take ?n (backlog T))) \<inter> set (map ib_ID (drop ?n (backlog T))) = {}"
      unfolding map_append distinct_append by blast
    then show ?thesis by (auto simp: filter_id_conv batch_ids_def batch_rows_backlog ids_def)
  qed
  finally show ?thesis by simp
qed

lemma process_drains:
  assumes sv: "service_ok sv tables" and T: "distinct (ids (fst (tables (sw_db w))))"
    and run: "run_state (inbox_syncer (Some sv) at now) w = ((result, err), w')"
    and go: "shouldContinueRedisProcessImmediately result (map_option (\<lambda>e. if partly_done result then CompletedWithWarnings (error_text e) else ProcessError e) err)"
  shows "length (backlog (tables (sw_db w))) \<ge> redisInboxProcessLimit"
    and "backlog (tables (sw_db w')) = drop redisInboxProcessLimit (backlog (tables (sw_db w)))"
    and "distinct (ids (fst (tables (sw_db w'))))"
proof -
  let ?T = "tables (sw_db w)" and ?T' = "tables (sw_db w')"
  obtain r e where p: "run_state (ProcessRedisUsageInbox (Some sv) at now) w = ((result, e), w')"
    and err: "err = map_option Failure e" and r: "result = Some r"
    using run go by (auto simp: inbox_syncer_def shouldContinueRedisProcessImmediately_def split: prod.splits option.splits)
  have reports: "(move (sv_decode sv) (batch_ids ?T))\<^sup>*\<^sup>* ?T ?T'"
    "rb_BatchFull r \<Longrightarrow> length (batch_rows ?T) = redisInboxProcessLimit"
    "rb_BatchFull r \<Longrightarrow> settled (batch_ids ?T) (fst ?T') \<or> rb_RetryPending r \<or> (rb_Status r = ''failed'' \<and> e \<noteq> None)"
    using holdsD [OF process_reports [OF sv T] refl p] r by auto
  have continues: "rb_BatchFull r" "\<not> rb_RetryPending r" "rb_Status r = ''failed'' \<Longrightarrow> e = None"
    using go by (auto simp: shouldContinueRedisProcessImmediately_def r err partly_done_def split: option.splits if_splits)
  have done_with: "settled (batch_ids ?T) (fst ?T')" using reports(3) continues by blast
  note evolved = moves_evolve [OF reports(1)]
  show "length (backlog ?T) \<ge> redisInboxProcessLimit"
    using reports(2) [OF continues(1)] by (simp add: batch_rows_backlog)
  show "backlog ?T' = drop redisInboxProcessLimit (backlog ?T)"
    using backlog_rest [OF _ done_with T] evolved by blast
  show "distinct (ids (fst ?T'))" using evolved T by blast
qed

text \<open>What \<open>ProcessOnce\<close> returns and leaves behind when the runner is idle.\<close>

lemma run_ProcessOnce:
  assumes "\<not> rp_processRunning (pr_runner s)" and "run_state syncer (pr_world s) = ((result, err), w)"
  shows "run_state (ProcessOnce (Some syncer) now) s =
    ((result, map_option (\<lambda>e. if partly_done result then CompletedWithWarnings (error_text e) else ProcessError e) err),
     \<lparr>pr_runner = (recordProcessResult result err now ((pr_runner s)\<lparr>rp_processRunning := True\<rparr>))\<lparr>rp_processRunning := False\<rparr>,
      pr_world = w\<rparr>)"
  using assms by (cases err) (simp_all add: ProcessOnce_def on_runner_def call_syncer_def Let_def)

text \<open>What other tasks do, between the rounds of the runner, adds to the backlog only what arrives.\<close>

fun arriving :: "inbox_event \<Rightarrow> nat" where
  "arriving (Arrive source payloads poppedAt) = length payloads"
| "arriving (ProcessBatch fetchedAt now) = 0"
| "arriving (Clean now) = 0"

definition grows :: "nat \<Rightarrow> tables \<Rightarrow> tables \<Rightarrow> bool" where
  "grows n T T' \<longleftrightarrow> (distinct (ids (fst T)) \<longrightarrow> distinct (ids (fst T'))) \<and> length (backlog T') \<le> length (backlog T) + n"

lemma grows_trans: "grows m T U \<Longrightarrow> grows n U V \<Longrightarrow> grows (m + n) T V"
  by (auto simp: grows_def)

lemma cleaned_grows: "cleaned z now T T' \<Longrightarrow> grows n T T'"
proof -
  assume "cleaned z now T T'"
  then obtain P where T': "T' = (filter (\<lambda>r. \<not> P r) (fst T), snd T)" by (auto simp: cleaned_def)
  have "length (filter processable (filter (\<lambda>r. \<not> P r) (fst T))) \<le> length (filter processable (fst T))"
    by (induction "fst T" arbitrary: T) (auto split: if_splits)
  then show ?thesis by (simp add: grows_def T' backlog_def ids_def distinct_map_filter)
qed

lemma moves_grow:
  assumes "(move env B)\<^sup>*\<^sup>* T T'"
  shows "grows n T T'"
proof -
  have "list_all2 (evolves B) (fst T) (fst T')" using moves_evolve [OF assms] by blast
  then have "length (filter processable (fst T')) \<le> length (filter processable (fst T))"
    by (induction rule: list_all2_induct) (auto simp: evolves_def)
  then show ?thesis using moves_evolve [OF assms] by (simp add: grows_def backlog_def)
qed

lemma insert_grows:
  assumes db: "inbox_db_ok db tables"
  shows "holds (\<lambda>s. grows 0 T (tables s)) (InsertRedisUsageInboxRawMessages db hash source payloads poppedAt)
    (\<lambda>_ s. grows (length payloads) T (tables s))"
proof (cases "payloads = []")
  case True
  then show ?thesis
    by (simp add: InsertRedisUsageInboxRawMessages_def InsertRedisUsageInboxMessages_def gives_def holds_def)
next
  case False
  let ?inputs = "map (\<lambda>m. \<lparr>in_Source = source, in_RawMessage = m, in_PoppedAt = poppedAt\<rparr>) payloads"
  let ?rows = "map (inbox_row hash) ?inputs"
  show ?thesis
  proof (rule holdsI)
    fix s res t
    assume s: "grows 0 T (tables s)"
      and run: "run_state (InsertRedisUsageInboxRawMessages db hash source payloads poppedAt) s = (res, t)"
    have "holds (\<lambda>u. tables u = tables s) (State (sql_insert db (insertBatchSize (sql_columns db)) ?rows))
        (\<lambda>res u. \<forall>x. res = Inr x \<longrightarrow> grows (length payloads) T (tables u))"
    proof (rule holdsI, intro allI impI)
      fix u out v x
      assume u: "tables u = tables s" and out: "out = Inr x"
        and run: "run_state (State (sql_insert db (insertBatchSize (sql_columns db)) ?rows)) u = (out, v)"
      have v: "fst (tables v) = fst (tables s) @ x" "list_all2 stored_row ?rows x"
        "distinct (ids (fst (tables s))) \<Longrightarrow> distinct (ids (fst (tables v)))"
        using db run out u unfolding inbox_db_ok_def inserts_ok_def by fastforce+
      have "length x = length payloads" using list_all2_lengthD [OF v(2)] by simp
      then have "length (filter processable x) \<le> length payloads" by (metis length_filter_le)
      then show "grows (length payloads) T (tables v)" using s v(3) by (auto simp: grows_def backlog_def v(1))
    qed
    note whole = holds_transaction [where Q = "\<lambda>_ U. grows (length payloads) T U", OF db this]
    have "grows (length payloads) T (tables s)" using s by (auto simp: grows_def)
    then show "grows (length payloads) T (tables t)"
      using holdsD [OF whole refl] run s False
      by (auto simp: InsertRedisUsageInboxRawMessages_def InsertRedisUsageInboxMessages_def split: sum.splits)
  qed
qed

lemma inbox_step_grows:
  assumes sv: "service_ok sv tables" and d: "distinct (ids (fst (tables (sw_db w))))"
    and step: "inbox_step sv tables hash z event (w, l) = (w', l')"
  shows "grows (arriving event) (tables (sw_db w)) (tables (sw_db w'))"
proof (cases event)
  case (Arrive source payloads poppedAt)
  show ?thesis
  proof (cases "sv_db sv")
    case None
    then show ?thesis using step Arrive by (simp add: grows_def)
  next
    case (Some db)
    have db: "inbox_db_ok db tables" using sv Some by (simp add: service_ok_def)
    obtain res w1 where r: "run_state (on_sql (InsertRedisUsageInboxRawMessages db hash source payloads poppedAt)) w = (res, w1)" by fastforce
    have "grows 0 (tables (sw_db w)) (tables (sw_db w))" by (simp add: grows_def)
    from holdsD [OF holds_on_sql [OF insert_grows [OF db]] this r] show ?thesis
      using step Some by (auto simp: Arrive r split: sum.splits)
  qed
next
  case (ProcessBatch at now)
  obtain out w1 where r: "run_state (ProcessRedisUsageInbox (Some sv) at now) w = (out, w1)" by fastforce
  from holdsD [OF process_reports [OF sv d] refl r]
  have moves: "(move (sv_decode sv) (batch_ids (tables (sw_db w))))\<^sup>*\<^sup>* (tables (sw_db w)) (tables (sw_db w1))"
    by (auto split: prod.splits)
  show ?thesis using moves_grow [OF moves] step by (simp add: ProcessBatch r)
next
  case (Clean now)
  obtain out w1 where r: "run_state (service_CleanupRedisUsageInbox (Some sv) z now) w = (out, w1)" by fastforce
  from cleaned_grows [OF holdsD [OF service_cleans [OF sv] cleaned_refl r]] show ?thesis
    using step by (auto simp: Clean r)
qed

definition others ::
  "('s, 'n) sync_service \<Rightarrow> ('s \<Rightarrow> tables) \<Rightarrow> (string \<Rightarrow> string) \<Rightarrow> zone \<Rightarrow> inbox_event list \<Rightarrow> ('s, 'n) sync_world \<Rightarrow>
     ('s, 'n) sync_world" where
  "others sv tables hash z events w = fst (inbox_history sv tables hash z events w)"

lemma others_grow:
  assumes sv: "service_ok sv tables" and d: "distinct (ids (fst (tables (sw_db w))))"
  shows "grows (sum_list (map arriving events)) (tables (sw_db w)) (tables (sw_db (others sv tables hash z events w)))"
proof -
  have "grows (sum_list (map arriving events)) (tables (sw_db (fst p)))
      (tables (sw_db (fst (fold (inbox_step sv tables hash z) events p))))"
    if "distinct (ids (fst (tables (sw_db (fst p)))))" for p
    using that
  proof (induction events arbitrary: p)
    case Nil
    then show ?case by (simp add: grows_def)
  next
    case (Cons event events)
    obtain w1 l1 where step: "inbox_step sv tables hash z event (fst p, snd p) = (w1, l1)" by fastforce
    note one = inbox_step_grows [OF sv Cons.prems step]
    have "distinct (ids (fst (tables (sw_db w1))))" using one Cons.prems by (simp add: grows_def)
    with Cons.IH [of "(w1, l1)"] grows_trans [OF one] show ?case using step by simp
  qed
  from this [of "(w, \<lparr>il_arrived = [], il_removed = []\<rparr>)"] show ?thesis using d by (simp add: others_def inbox_history_def)
qed

text \<open>The rounds of the service: for each, what the other tasks did before it and what it meets.\<close>

record service_round =
  sr_events :: "inbox_event list"
  sr_fetchedAt :: gtime
  sr_now :: gtime
  sr_cancelled :: bool
  sr_recorded :: gtime
  sr_slept :: bool

definition service_rounds ::
  "('s, 'n) sync_service \<Rightarrow> ('s \<Rightarrow> tables) \<Rightarrow> (string \<Rightarrow> string) \<Rightarrow> zone \<Rightarrow> service_round list \<Rightarrow>
     (('s, 'n) sync_world syncer \<times> ('s, 'n) sync_world round_input) list" where
  "service_rounds sv tables hash z rounds = map (\<lambda>r. (inbox_syncer (Some sv) (sr_fetchedAt r) (sr_now r),
     \<lparr>ri_others = others sv tables hash z (sr_events r), ri_cancelled = sr_cancelled r, ri_now = sr_recorded r,
      ri_slept = sr_slept r\<rparr>)) rounds"

definition arrivals :: "service_round list \<Rightarrow> nat" where
  "arrivals rounds = (\<Sum>r \<leftarrow> rounds. sum_list (map arriving (sr_events r)))"

definition at_once :: "round_end list \<Rightarrow> nat" where
  "at_once ends = length (filter ((=) Goes_on) ends)"

lemma syncer_grows:
  assumes sv: "service_ok sv tables" and d: "distinct (ids (fst (tables (sw_db w))))"
    and run: "run_state (inbox_syncer (Some sv) at now) w = (out, w')"
  shows "grows 0 (tables (sw_db w)) (tables (sw_db w'))"
proof -
  obtain out1 w1 where r: "run_state (ProcessRedisUsageInbox (Some sv) at now) w = (out1, w1)" by fastforce
  from holdsD [OF process_reports [OF sv d] refl r]
  have "(move (sv_decode sv) (batch_ids (tables (sw_db w))))\<^sup>*\<^sup>* (tables (sw_db w)) (tables (sw_db w1))"
    by (auto split: prod.splits)
  then show ?thesis using run by (auto simp: inbox_syncer_def r moves_grow split: prod.splits)
qed

lemma rounds_backlog:
  assumes sv: "service_ok sv tables"
  shows "\<not> rp_processRunning (pr_runner s) \<Longrightarrow> distinct (ids (fst (tables (sw_db (pr_world s))))) \<Longrightarrow>
    run_state (run_rounds (service_rounds sv tables hash z rounds)) s = (ends, t) \<Longrightarrow>
    redisInboxProcessLimit * at_once ends + length (backlog (tables (sw_db (pr_world t)))) \<le>
      length (backlog (tables (sw_db (pr_world s)))) + arrivals rounds \<and>
    rp_running (pr_runner t) = (rp_running (pr_runner s) \<and> Returns \<notin> set ends) \<and> Returns \<notin> set (butlast ends) \<and>
    (Returns \<notin> set ends \<longrightarrow> length ends = length rounds)"
proof (induction rounds arbitrary: s ends)
  case Nil
  then show ?case by (simp add: service_rounds_def at_once_def arrivals_def)
next
  case (Cons round rounds)
  let ?open = "\<lambda>w. length (backlog (tables (sw_db w)))"
  let ?in = "sum_list (map arriving (sr_events round))"
  let ?w = "others sv tables hash z (sr_events round) (pr_world s)"
  have before: "?open ?w \<le> ?open (pr_world s) + ?in" "distinct (ids (fst (tables (sw_db ?w))))"
    using others_grow [OF sv Cons.prems(2), where events = "sr_events round" and hash = hash and z = z] Cons.prems(2)
    by (simp_all add: grows_def)
  have arrivals: "arrivals (round # rounds) = ?in + arrivals rounds" by (simp add: arrivals_def)
  obtain result err w where call: "run_state (inbox_syncer (Some sv) (sr_fetchedAt round) (sr_now round)) ?w = ((result, err), w)"
    by (metis prod.collapse)
  note after = syncer_grows [OF sv before(2) call]
  let ?err = "map_option (\<lambda>e. if partly_done result then CompletedWithWarnings (error_text e) else ProcessError e) err"
  let ?s = "\<lparr>pr_runner = (recordProcessResult result err (sr_recorded round) ((pr_runner s)\<lparr>rp_processRunning := True\<rparr>))\<lparr>rp_processRunning := False\<rparr>,
      pr_world = w\<rparr>"
  have running: "rp_running (pr_runner ?s) = rp_running (pr_runner s)"
    by (auto simp: recordProcessResult_def Let_def split: option.splits)
  have once: "run_state (ProcessOnce (Some (inbox_syncer (Some sv) (sr_fetchedAt round) (sr_now round))) (sr_recorded round))
      (s\<lparr>pr_world := ?w\<rparr>) = ((result, ?err), ?s)"
    using run_ProcessOnce [of "s\<lparr>pr_world := ?w\<rparr>"] Cons.prems(1) call by simp
  note loop = Cons.prems(3) [unfolded service_rounds_def list.map run_rounds.simps, folded service_rounds_def]
  show ?case
  proof (cases "sr_cancelled round")
    case True
    then show ?thesis using loop before(1) by (auto simp: meanwhile_def on_runner_def arrivals at_once_def)
  next
    case False
    obtain ends' t' where rest: "run_state (run_rounds (service_rounds sv tables hash z rounds)) ?s = (ends', t')" by fastforce
    have "distinct (ids (fst (tables (sw_db w))))" using after before(2) by (simp add: grows_def)
    with Cons.IH [of ?s ends'] rest running
    have IH: "t' = t \<Longrightarrow> redisInboxProcessLimit * at_once ends' + ?open (pr_world t) \<le> ?open w + arrivals rounds \<and>
      rp_running (pr_runner t) = (rp_running (pr_runner s) \<and> Returns \<notin> set ends') \<and> Returns \<notin> set (butlast ends') \<and>
      (Returns \<notin> set ends' \<longrightarrow> length ends' = length rounds)" by simp
    consider (on) "shouldContinueRedisProcessImmediately result ?err"
      | (pause) "\<not> shouldContinueRedisProcessImmediately result ?err" "sr_slept round"
      | (interrupted) "\<not> shouldContinueRedisProcessImmediately result ?err" "\<not> sr_slept round" by blast
    then show ?thesis
    proof cases
      case on
      note drained = process_drains [OF sv before(2) call on]
      have "ends = Goes_on # ends'" "t' = t" using loop False on once rest by (simp_all add: meanwhile_def)
      then show ?thesis using IH drained(1, 2) before(1) arrivals by (auto simp: at_once_def)
    next
      case pause
      have "ends = Pauses # ends'" "t' = t" using loop False pause once rest by (simp_all add: meanwhile_def)
      then show ?thesis using IH after before(1) arrivals by (auto simp: at_once_def grows_def)
    next
      case interrupted
      have "ends = [Returns]" "t = ?s\<lparr>pr_runner := (pr_runner ?s)\<lparr>rp_running := False\<rparr>\<rparr>"
        using loop False interrupted once by (simp_all add: meanwhile_def on_runner_def)
      then show ?thesis using after before(1) arrivals by (auto simp: at_once_def grows_def)
    qed
  qed
qed

section \<open>A database in memory\<close>

definition memory_row :: "int \<Rightarrow> RedisUsageInbox \<Rightarrow> RedisUsageInbox" where
  "memory_row i r = r\<lparr>ib_ID := i, ib_CreatedAt := zero_time, ib_UpdatedAt := zero_time\<rparr>"

definition memory_inbox_db :: "tables inbox_db" where
  "memory_inbox_db =
     \<lparr>sql_list = (\<lambda>cols P lim s. Inr (map cols (limited lim (filter P (fst s))))),
      sql_first = (\<lambda>i s. case find (\<lambda>r. ib_ID r = i) (fst s) of None \<Rightarrow> Inl ''record not found'' | Some r \<Rightarrow> Inr r),
      sql_set = (\<lambda>P f s. (Inr (), (map (\<lambda>r. if P r then (f r)\<lparr>ib_UpdatedAt := zero_time\<rparr> else r) (fst s), snd s))),
      sql_remove = (\<lambda>P s. (Inr (length (filter P (fst s))), (filter (\<lambda>r. \<not> P r) (fst s), snd s))),
      sql_insert = (\<lambda>n rs s. let new = map2 (\<lambda>k r. memory_row (fold max (ids (fst s)) 0 + 1 + int k) r) [0..<length rs] rs
        in (Inr new, (fst s @ new, snd s))),
      sql_insert_events = (\<lambda>es s. (Inr (es, length es), (fst s, snd s @ es))),
      sql_identities = (\<lambda>authType idents isDeleted s. Inr []),
      sql_begin = (\<lambda>s. (Inr (), s)), sql_commit = (\<lambda>s t. (Inr (), t)), sql_rollback = (\<lambda>s t. s),
      sql_columns = 11, sql_event_columns = 31\<rparr>"

lemma fold_max_start: "y \<le> fold max xs y" for y :: int
  by (induction xs arbitrary: y) (auto intro: order_trans [OF max.cobounded2])

lemma fold_max_ge: "x \<in> set xs \<Longrightarrow> x \<le> fold max xs y" for x :: int
proof (induction xs arbitrary: y)
  case (Cons z xs)
  then show ?case using fold_max_start [of "max z y" xs] by auto
qed simp

lemma stored_event_refl: "stored_event e e"
  unfolding stored_event_def by (intro exI [of _ "ev_ID e"] exI [of _ "ev_CreatedAt e"]) simp

lemma memory_inbox_db_ok: "inbox_db_ok memory_inbox_db (\<lambda>T. T)"
proof -
  have q: "queries_ok memory_inbox_db fst"
    by (auto simp: queries_ok_def memory_inbox_db_def find_Some_iff split: option.splits)
  have u: "updates_ok memory_inbox_db fst snd"
    by (auto simp: updates_ok_def memory_inbox_db_def becomes_def list_all2_map2 intro!: list_all2_refl)
  have rows: "list_all2 stored_row rs (map2 (\<lambda>k r. memory_row (m + 1 + int k) r) [0..<length rs] rs)" for rs m
    by (auto simp: list_all2_conv_all_nth stored_row_def memory_row_def)
  have fresh: "distinct (ids (rs0 @ map2 (\<lambda>k r. memory_row (fold max (ids rs0) 0 + 1 + int k) r) [0..<length rs] rs))"
    if "distinct (ids rs0)" for rs0 rs
  proof -
    have "ids (map2 (\<lambda>k r. memory_row (m + 1 + int k) r) [0..<length rs] rs) = map (\<lambda>k. m + 1 + int k) [0..<length rs]" for m
      by (rule nth_equalityI) (simp_all add: ids_def memory_row_def)
    then show ?thesis
      using that fold_max_ge [of _ "ids rs0" 0] by (fastforce simp: ids_def distinct_map inj_on_def)
  qed
  have i: "inserts_ok memory_inbox_db fst snd"
    using rows fresh by (auto simp: inserts_ok_def memory_inbox_db_def Let_def intro!: list_all2_refl stored_event_refl)
  have "transactions_ok memory_inbox_db (\<lambda>T. T)"
    by (auto simp: transactions_ok_def memory_inbox_db_def)
  then show ?thesis using q u i by (simp add: inbox_db_ok_def)
qed

text \<open>A decoder that knows one message, and the service on the database in memory.\<close>

definition sample_detail :: queuedUsageDetail where
  "sample_detail =
     \<lparr>qd_Timestamp = time_unix 1700000000, qd_LatencyMS = 1200, qd_TTFTMS = None, qd_Source = ''s'', qd_AuthIndex = ''a'',
      qd_ClientIP = None, qd_XForwardedFor = None, qd_UserAgent = None,
      qd_Tokens = \<lparr>ts_InputTokens = 10, ts_OutputTokens = 5, ts_ReasoningTokens = 0, ts_CachedTokens = 0, ts_CacheReadTokens = 0,
        ts_CacheReadPresent = False, ts_CacheCreationTokens = 0, ts_TotalTokens = 15\<rparr>,
      qd_Failed = False, qd_Generate = None, qd_Provider = ''p'', qd_Model = ''m'', qd_Alias = None, qd_ReasoningEffort = [],
      qd_ServiceTier = [], qd_ResponseServiceTier = [], qd_ExecutorType = ''ClaudeExecutor'', qd_Endpoint = ''/v1'',
      qd_AuthType = ''oauth'', qd_APIKey = ''k'', qd_RequestID = ''r1'', qd_ResponseHeaders = []\<rparr>"

definition sample_decode :: "unit decode_env" where
  "sample_decode = \<lparr>js_detail = (\<lambda>m. if m = ''good'' then Inr sample_detail else Inl ''invalid character''),
     js_header = (\<lambda>_. None), js_raw_map = (\<lambda>_. None), js_string = (\<lambda>_ _. None), js_strings = (\<lambda>_. None), js_raws = (\<lambda>_. None),
     de_order = (\<lambda>m. m), de_uni = (\<lambda>s. s), de_snapshot = (\<lambda>_. None)\<rparr>"

definition sample_service :: "(tables, unit) sync_service" where
  "sample_service = \<lparr>sv_db = Some memory_inbox_db, sv_decode = sample_decode, sv_recent = True, sv_notifier = True, sv_quota = True,
     sv_key_order = (\<lambda>m. m), sv_registry_text = (\<lambda>_. ''registry''), sv_target = (\<lambda>_. Inr 0), sv_checkpoints = (\<lambda>_. Inr (0, 0, 0)),
     sv_pending_identity = (\<lambda>_. Inr False), sv_aggregate = (\<lambda>_ _ s. (Inr (), s))\<rparr>"

definition world_of :: "tables \<Rightarrow> (tables, unit) sync_world" where
  "world_of T = \<lparr>sw_db = T, sw_recent = [], sw_notified = [], sw_snapshots = []\<rparr>"

definition sample_row :: "int \<Rightarrow> string \<Rightarrow> RedisUsageInbox" where
  "sample_row i message = \<lparr>ib_ID = i, ib_Source = ''unknown'', ib_MessageHash = [], ib_RawMessage = message,
     ib_Status = RedisUsageInboxStatusPending, ib_AttemptCount = 0, ib_LastError = [], ib_UsageEventKey = [], ib_PoppedAt = 0,
     ib_ProcessedAt = None, ib_CreatedAt = zero_time, ib_UpdatedAt = zero_time\<rparr>"

lemma sample_service_ok: "service_ok sample_service (\<lambda>T. T)"
  by (simp add: service_ok_def sample_service_def memory_inbox_db_ok)

section \<open>Properties\<close>

text \<open>
  C8: The processing of the inbox refines the abstract machine.  Whatever statements fail, a call changes the two tables
  only by moves of rows of its batch, the oldest thousand that are pending or to be retried: a row found undecodable, a
  failure counted, or events stored in one step with the marking of exactly the rows they come from.
\<close>

theorem inbox_refines_moves:
  assumes "service_ok sv tables" and "distinct (ids (fst (tables (sw_db w))))"
    and "run_state (ProcessRedisUsageInbox (Some sv) fetchedAt now) w = (out, w')"
  shows "(move (sv_decode sv) (batch_ids (tables (sw_db w))))\<^sup>*\<^sup>* (tables (sw_db w)) (tables (sw_db w'))"
  using holdsD [OF process_reports [OF assms(1, 2)] refl assms(3)] by (auto split: prod.splits)

lemma inbox_refines_moves_witness:
  "(move sample_decode (batch_ids ([sample_row 1 ''good'', sample_row 2 ''bad''], [])))\<^sup>*\<^sup>*
     ([sample_row 1 ''good'', sample_row 2 ''bad''], [])
     (sw_db (snd (run_state (ProcessRedisUsageInbox (Some sample_service) 5 6) (world_of ([sample_row 1 ''good'', sample_row 2 ''bad''], [])))))"
  using inbox_refines_moves [OF sample_service_ok _ prod.collapse [symmetric], of "world_of ([sample_row 1 ''good'', sample_row 2 ''bad''], [])" 5 6]
  by (simp add: world_of_def ids_def sample_row_def sample_service_def)



text \<open>
  C35: A row is given up at its fifth failure and not before.  After any history, a pending row has no attempts, a row to
  be retried has between one and four, a discarded one has five, and no other status goes beyond; the error kept with a
  row is at most 1024 bytes.
\<close>

theorem inbox_attempts_bounded:
  assumes "service_ok sv tables" and "tables (sw_db w) = ([], [])" and "inbox_history sv tables hash z events w = (w', l)"
  shows "list_all row_ok (fst (tables (sw_db w')))"
  using history_ledger [OF assms] by (simp add: ledger_ok_def)

lemma inbox_attempts_bounded_witness:
  "let (w, l) = inbox_history sample_service (\<lambda>T. T) (\<lambda>m. m) (fixed_zone 0)
       [Arrive ''queue'' [''good'', ''bad''] 3, ProcessBatch 5 6] (world_of ([], []))
   in list_all row_ok (fst (sw_db w))"
  using inbox_attempts_bounded [OF sample_service_ok _ prod.collapse [symmetric], of "world_of ([], [])" "\<lambda>m. m" "fixed_zone 0"
      "[Arrive ''queue'' [''good'', ''bad''] 3, ProcessBatch 5 6]"]
  by (simp add: split_beta Let_def) (simp add: world_of_def sample_service_def)

text \<open>
  C36: The task goes on without a pause only when that makes progress.  After such a round the backlog, the rows pending
  or to be retried, is the old one without its oldest thousand rows.
\<close>

theorem immediate_round_drains:
  assumes "service_ok sv tables" and "distinct (ids (fst (tables (sw_db (pr_world s)))))" and "\<not> rp_processRunning (pr_runner s)"
    and "run_state (ProcessOnce (Some (inbox_syncer (Some sv) fetchedAt now)) recorded) s = ((result, err), t)"
    and "shouldContinueRedisProcessImmediately result err"
  shows "length (backlog (tables (sw_db (pr_world s)))) \<ge> redisInboxProcessLimit \<and>
    backlog (tables (sw_db (pr_world t))) = drop redisInboxProcessLimit (backlog (tables (sw_db (pr_world s))))"
proof -
  obtain result' err' w where call: "run_state (inbox_syncer (Some sv) fetchedAt now) (pr_world s) = ((result', err'), w)"
    by (metis prod.collapse)
  have eqs: "result = result'" "err = map_option (\<lambda>e. if partly_done result' then CompletedWithWarnings (error_text e) else ProcessError e) err'"
    "pr_world t = w"
    using assms(4) unfolding run_ProcessOnce [OF assms(3) call] by auto
  show ?thesis using process_drains [OF assms(1, 2) call] assms(5) by (simp add: eqs)
qed

text \<open>A thousand messages that cannot be decoded are one full batch.\<close>

lemma decode_rows_bad:
  "list_all (\<lambda>r. ib_RawMessage r \<noteq> ''good'') rows \<Longrightarrow>
   \<exists>T'. run_state (decode_rows memory_inbox_db sample_decode at rows batch) T =
     (Inr (batch\<lparr>dc_decodeErrs := dc_decodeErrs batch @ replicate (length rows) ''decode redis usage message: invalid character''\<rparr>), T')"
proof (induction rows arbitrary: batch T)
  case Nil
  then show ?case by (simp add: gives_def)
next
  case (Cons row rows)
  have bad: "DecodeRedisUsageMessageWithHeaders sample_decode (ib_RawMessage row) at = Inl ''decode redis usage message: invalid character''"
    using Cons.prems by (simp add: DecodeRedisUsageMessageWithHeaders_def sample_decode_def)
  show ?case
    using Cons.IH [of "batch\<lparr>dc_decodeErrs := dc_decodeErrs batch @ [''decode redis usage message: invalid character'']\<rparr>"] Cons.prems
    by (simp add: bad and_then_def wrapped_def MarkRedisUsageInboxDecodeFailed_def markRedisUsageInboxFailed_def memory_inbox_db_def)
qed

definition bad_rows :: "RedisUsageInbox list" where
  "bad_rows = map (\<lambda>i. sample_row (int i) ''bad'') [0..<1000]"

definition bad_state :: "(tables, unit) sync_world runner_state" where
  "bad_state = \<lparr>pr_runner = NewRedisProcessRunner, pr_world = world_of (bad_rows, [])\<rparr>"

lemma bad_backlog: "distinct (ids bad_rows)" "backlog (bad_rows, []) = bad_rows" "length bad_rows = 1000"
  by (auto simp: bad_rows_def ids_def distinct_map inj_on_def sample_row_def backlog_def filter_id_conv processable_def)

lemma bad_round:
  obtains r err w where "run_state (inbox_syncer (Some sample_service) 5 6) (world_of (bad_rows, [])) = ((Some r, Some err), w)"
    "rb_BatchFull r" "\<not> rb_RetryPending r" "rb_Status r = ''completed_with_warnings''"
proof -
  let ?rows = "map redisUsageInboxProcessingColumns bad_rows"
  have bad: "list_all (\<lambda>r. ib_RawMessage r \<noteq> ''good'') ?rows"
    by (simp add: list_all_iff bad_rows_def sample_row_def redisUsageInboxProcessingColumns_def)
  obtain T' where decode: "run_state (decode_rows memory_inbox_db sample_decode 5 ?rows empty_batch) (bad_rows, []) =
      (Inr (empty_batch\<lparr>dc_decodeErrs := replicate 1000 ''decode redis usage message: invalid character''\<rparr>), T')"
    using decode_rows_bad [OF bad, of 5 empty_batch "(bad_rows, [])"] bad_backlog(3) by auto
  have listed: "sql_list memory_inbox_db redisUsageInboxProcessingColumns processable (positive_limit (int redisInboxProcessLimit)) (bad_rows, []) =
      Inr ?rows"
    using bad_backlog(2, 3) by (simp add: memory_inbox_db_def positive_limit_def limited_def backlog_def)
  have nonempty: "?rows \<noteq> []" using bad_backlog(3) by auto
  obtain e where e: "joinErrors (map Some (replicate 1000 ''decode redis usage message: invalid character'')) = Some e"
    by (simp add: joinErrors_def Let_def map_filter_def)
  show thesis
  proof (rule that)
    show "run_state (inbox_syncer (Some sample_service) 5 6) (world_of (bad_rows, [])) =
      ((Some (newRedisBatchSyncResult ''completed_with_warnings'' 1000), Some (Failure e)), world_of T')"
      using decode nonempty listed bad_backlog(3) e
      by (simp add: inbox_syncer_def ProcessRedisUsageInbox_def service_validate_def sample_service_def world_of_def on_sql_def
          ListProcessableRedisUsageInbox_def processRedisInboxRows_def Let_def)
  qed (simp_all add: newRedisBatchSyncResult_def)
qed

lemma immediate_round_drains_witness:
  "\<exists>result err t. run_state (ProcessOnce (Some (inbox_syncer (Some sample_service) 5 6)) 7) bad_state = ((result, err), t) \<and>
     shouldContinueRedisProcessImmediately result err \<and> backlog (sw_db (pr_world bad_state)) = bad_rows \<and> backlog (sw_db (pr_world t)) = []"
proof -
  obtain r e w where round: "run_state (inbox_syncer (Some sample_service) 5 6) (world_of (bad_rows, [])) = ((Some r, Some e), w)"
    "rb_BatchFull r" "\<not> rb_RetryPending r" "rb_Status r = ''completed_with_warnings''"
    by (rule bad_round)
  have idle: "\<not> rp_processRunning (pr_runner bad_state)" "pr_world bad_state = world_of (bad_rows, [])"
    by (simp_all add: bad_state_def NewRedisProcessRunner_def)
  let ?err = "map_option (\<lambda>e. if partly_done (Some r) then CompletedWithWarnings (error_text e) else ProcessError e) (Some e)"
  obtain t where once: "run_state (ProcessOnce (Some (inbox_syncer (Some sample_service) 5 6)) 7) bad_state = ((Some r, ?err), t)"
    using run_ProcessOnce [OF idle(1), of "inbox_syncer (Some sample_service) 5 6" "Some r" "Some e" w 7] round(1) idle(2) by auto
  have go: "shouldContinueRedisProcessImmediately (Some r) ?err"
    using round(2-4) by (simp add: shouldContinueRedisProcessImmediately_def partly_done_def)
  have "distinct (ids (fst (sw_db (pr_world bad_state))))" using bad_backlog(1) idle(2) by (simp add: world_of_def)
  from immediate_round_drains [OF sample_service_ok this idle(1) once go]
  have "backlog (sw_db (pr_world t)) = []" using bad_backlog(2, 3) idle(2) by (simp add: world_of_def)
  then show ?thesis using once go bad_backlog(2) idle(2) by (auto simp: world_of_def)
qed

text \<open>
  C37: Working off a backlog ends.  Over any run of the task, with whatever the other tasks do between its rounds, each
  round that is followed by the next without a pause takes a thousand rows from the backlog, which only arriving messages
  make longer.  So the pauses that pace the retries, and let the task stop, always come; and the task shows itself running
  exactly as long as it has not returned.
\<close>

theorem drain_is_bounded:
  assumes "service_ok sv tables" and "distinct (ids (fst (tables (sw_db (pr_world s)))))" and "\<not> rp_processRunning (pr_runner s)"
    and "run_state (process_Run (service_rounds sv tables hash z rounds)) s = (ends, t)"
  shows "redisInboxProcessLimit * at_once ends + length (backlog (tables (sw_db (pr_world t)))) \<le>
      length (backlog (tables (sw_db (pr_world s)))) + arrivals rounds \<and>
    rp_running (pr_runner t) = (Returns \<notin> set ends) \<and> Returns \<notin> set (butlast ends) \<and>
    (Returns \<notin> set ends \<longrightarrow> length ends = length rounds)"
proof -
  have "run_state (run_rounds (service_rounds sv tables hash z rounds)) (s\<lparr>pr_runner := (pr_runner s)\<lparr>rp_running := True\<rparr>\<rparr>) = (ends, t)"
    using assms(4) by (simp add: process_Run_def on_runner_def)
  from rounds_backlog [OF assms(1) _ _ this] show ?thesis using assms(2, 3) by simp
qed

definition two_rounds :: "service_round list" where
  "two_rounds = [\<lparr>sr_events = [Arrive ''queue'' [''good''] 3], sr_fetchedAt = 5, sr_now = 6, sr_cancelled = False, sr_recorded = 7, sr_slept = True\<rparr>,
     \<lparr>sr_events = [Clean 7], sr_fetchedAt = 8, sr_now = 9, sr_cancelled = False, sr_recorded = 10, sr_slept = False\<rparr>]"

lemma drain_is_bounded_witness:
  "at_once (fst (run_state (process_Run (service_rounds sample_service (\<lambda>T. T) (\<lambda>m. m) (fixed_zone 0) two_rounds)) bad_state)) \<le> 1"
proof -
  have "distinct (ids (fst (sw_db (pr_world bad_state))))" "\<not> rp_processRunning (pr_runner bad_state)"
    "length (backlog (sw_db (pr_world bad_state))) = 1000"
    using bad_backlog by (simp_all add: bad_state_def world_of_def NewRedisProcessRunner_def)
  with drain_is_bounded [OF sample_service_ok _ _ prod.collapse [symmetric], of bad_state "\<lambda>m. m" "fixed_zone 0" two_rounds]
  show ?thesis by (simp add: arrivals_def two_rounds_def)
qed

end
