(* ===== verification/StorageOrder.thy ===== *)
theory StorageOrder
  imports StorageTime
begin

text \<open>
  \<open>FormatSortableStorageTime\<close> is there so that SQLite, which compares the stored texts, compares the instants.  It
  does for the years that four digits can show.
\<close>

section \<open>Texts of equal length\<close>

lemma append_less_iff:
  "length xs = length ys \<Longrightarrow> xs @ us < ys @ vs \<longleftrightarrow> xs < ys \<or> xs = ys \<and> us < vs" for xs ys us vs :: "'a :: linorder list"
  by (induction xs ys rule: list_induct2) auto

lemma of_char_digit: "of_char (digit n) = nat (48 + n mod 10)"
proof -
  have "nat (n mod 10) < 208" by simp
  then show ?thesis by (simp add: digit_def nat_add_distrib)
qed

lemma digit_less_iff: "digit m < digit n \<longleftrightarrow> m mod 10 < n mod 10"
proof -
  have "0 \<le> n mod 10" by simp
  then have "0 < 48 + n mod 10" by linarith
  then show ?thesis by (simp add: less_char_def of_char_digit)
qed

lemma digit_eq_iff: "digit m = digit n \<longleftrightarrow> m mod 10 = n mod 10"
  using digit_less_iff [of m n] digit_less_iff [of n m] by (metis less_irrefl linorder_neqE)

lemma length_digits [simp]: "length (digits k n) = k"
  by (induction k arbitrary: n) simp_all

lemma digits_order:
  "0 \<le> m \<Longrightarrow> m < 10 ^ k \<Longrightarrow> 0 \<le> n \<Longrightarrow> n < 10 ^ k \<Longrightarrow> (digits k m < digits k n \<longleftrightarrow> m < n) \<and> (digits k m = digits k n \<longleftrightarrow> m = n)"
proof (induction k arbitrary: m n)
  case (Suc k)
  have "m div 10 < 10 ^ k" "n div 10 < 10 ^ k" using Suc.prems by (simp_all add: div_less_iff_less_mult)
  then have ih: "digits k (m div 10) < digits k (n div 10) \<longleftrightarrow> m div 10 < n div 10"
    "digits k (m div 10) = digits k (n div 10) \<longleftrightarrow> m div 10 = n div 10"
    using Suc.IH [of "m div 10" "n div 10"] Suc.prems by simp_all
  moreover have "m = 10 * (m div 10) + m mod 10" "n = 10 * (n div 10) + n mod 10" by simp_all
  moreover have "m mod 10 < 10" "n mod 10 < 10" "0 \<le> m mod 10" "0 \<le> n mod 10" by simp_all
  ultimately have "(m div 10 < n div 10 \<or> m div 10 = n div 10 \<and> m mod 10 < n mod 10) = (m < n)"
    "(m div 10 = n div 10 \<and> m mod 10 = n mod 10) = (m = n)"
    by linarith+
  with ih show ?case by (simp add: append_less_iff digit_less_iff digit_eq_iff)
qed simp

section \<open>The order of the calendar\<close>

text \<open>Days before a year of the era of 400 years, which begins in March, and before a month of the year.\<close>

definition year_start :: "int \<Rightarrow> int" where
  "year_start y = 365 * y + y div 4 - y div 100 + y div 400"

definition month_start :: "int \<Rightarrow> int" where
  "month_start mp = (153 * mp + 2) div 5"

definition year_of_era :: "int \<Rightarrow> int" where
  "year_of_era doe = (doe - doe div 1460 + doe div 36524 - doe div 146096) div 365"

lemma div_is: "0 < k \<Longrightarrow> q * k \<le> x \<Longrightarrow> x < q * k + k \<Longrightarrow> x div k = q" for x k q :: int
  by (rule int_div_pos_eq [where r = "x - q * k"]) (simp_all add: mult.commute)

lemma div_next: "x + 1 = q * k + k \<Longrightarrow> 0 < k \<Longrightarrow> (x + 1) div k = q + 1" for x k q :: int
  by (simp add: distrib_right)

lemma div_bounds: "0 < k \<Longrightarrow> k * (x div k) \<le> x \<and> x < k * (x div k) + k" for x k :: int
  using mult_div_mod_eq [of k x] pos_mod_bound [of k x] pos_mod_sign [of k x] by linarith

lemma year_div_100: "y div 100 = y div 4 div 25" for y :: int
  by (simp add: zdiv_zmult2_eq [symmetric])

lemma year_of_day:
  assumes y: "0 \<le> y" "y \<le> 399" and d: "year_start y \<le> doe" "doe < year_start (y + 1)"
  shows "year_of_era doe = y"
proof -
  define a b c where abc: "a = y div 4" "b = y mod 4" "c = a div 25"
  define t where "t = doe - year_start y"
  have ys: "y = 4 * a + b" "0 \<le> b" "b \<le> 3" "25 * c \<le> a" "a \<le> 25 * c + 24" unfolding abc by simp_all
  then have "0 \<le> a" "a \<le> 99" using y by linarith+
  with ys have c: "0 \<le> c" "c \<le> 3" by linarith+
  have start: "year_start y = 1461 * a + 365 * b - c"
  proof -
    have "y div 4 = a" "y div 100 = c" "y div 400 = 0" using y by (simp_all add: abc year_div_100)
    then show ?thesis using ys(1) by (simp add: year_start_def)
  qed
  have t: "0 \<le> t" "doe = 1461 * a + 365 * b - c + t" using d start by (simp_all add: t_def)
  have short: "t \<le> 365 \<and> (b < 3 \<longrightarrow> t \<le> 364) \<and> (a = 25 * c + 24 \<longrightarrow> b = 3 \<longrightarrow> c < 3 \<longrightarrow> t \<le> 364)"
  proof (cases "b = 3")
    case False
    then have qa: "(y + 1) div 4 = a" using ys by (intro div_is) linarith+
    have q0: "(y + 1) div 400 = 0" using ys False y \<open>a \<le> 99\<close> by (intro div_pos_pos_trivial) linarith+
    have "a div 25 = c" by (simp only: abc(3))
    then have "year_start (y + 1) = 365 * (y + 1) + a - c" by (simp add: year_start_def year_div_100 qa q0)
    moreover have "365 * (y + 1) + a - c = 1461 * a + 365 * (b + 1) - c" using ys(1) by simp
    ultimately have "year_start (y + 1) = 1461 * a + 365 * (b + 1) - c" by simp
    with d(2) have "doe < 1461 * a + 365 * (b + 1) - c" by simp
    then have "t \<le> 364" using t(2) by simp
    with False show ?thesis by simp
  next
    case True
    then have q: "(y + 1) div 4 = a + 1" using ys by (intro div_next) simp_all
    have e: "(a + 1) div 25 = (if a = 25 * c + 24 then c + 1 else c)"
    proof (cases "a = 25 * c + 24")
      case True
      then show ?thesis using div_next [of a c 25] by simp
    next
      case False
      then show ?thesis using ys by (simp add: div_is)
    qed
    have h: "(y + 1) div 400 = (if a = 99 then 1 else 0)"
      using ys(1) True y \<open>a \<le> 99\<close> \<open>0 \<le> a\<close> by (cases "a = 99") simp_all
    have "365 * (y + 1) = 1460 * (a + 1)" using ys(1) True by simp
    with h have "year_start (y + 1) = 1461 * (a + 1) - (if a = 25 * c + 24 then c + 1 else c) + (if a = 99 then 1 else 0)"
      using q e by (simp add: year_start_def year_div_100)
    with d(2) t(2) True have "t < 366 - (if a = 25 * c + 24 then 1 else 0) + (if a = 99 then 1 else 0)" by (simp split: if_splits)
    moreover have "a = 99 \<Longrightarrow> c = 3" using ys(5) c by linarith
    ultimately show ?thesis using True by (cases "a = 99") (auto split: if_splits)
  qed
  define n where "n = (if b = 3 \<and> t \<ge> 365 - (a - c) then a + 1 else a)"
  have n: "doe div 1460 = n"
    using ys t short c \<open>a \<le> 99\<close> unfolding n_def by (intro div_is) auto
  have m: "doe div 36524 - doe div 146096 = c"
  proof (cases "doe = 146096")
    case True
    with t ys c short have "c = 3" by auto
    with True show ?thesis by simp
  next
    case False
    then have "doe div 36524 = c" using ys t short c by (intro div_is) auto
    moreover have "doe div 146096 = 0" using False ys t short c by (intro div_pos_pos_trivial) auto
    ultimately show ?thesis by simp
  qed
  have "doe - doe div 1460 + doe div 36524 - doe div 146096 = doe - n + c" using n m by simp
  moreover have "(doe - n + c) div 365 = y"
    using ys t short c unfolding n_def by (intro div_is) (auto split: if_splits)
  ultimately show ?thesis by (simp add: year_of_era_def)
qed

lemma year_start_mono: "a \<le> b \<Longrightarrow> year_start a \<le> year_start b"
proof -
  assume "a \<le> b"
  then have "a div 4 \<le> b div 4" "a div 400 \<le> b div 400" "b div 100 \<le> a div 100 + (b - a)"
    by (auto intro: zdiv_mono1)
  then show ?thesis using \<open>a \<le> b\<close> by (simp add: year_start_def)
qed

lemma year_exists: "0 \<le> doe \<Longrightarrow> doe < year_start (int n) \<Longrightarrow> \<exists>y. 0 \<le> y \<and> y < int n \<and> year_start y \<le> doe \<and> doe < year_start (y + 1)"
proof (induction n)
  case (Suc n)
  show ?case
  proof (cases "doe < year_start (int n)")
    case True
    with Suc obtain y where "0 \<le> y" "y < int n" "year_start y \<le> doe" "doe < year_start (y + 1)" by blast
    then show ?thesis by (intro exI [of _ y]) simp
  next
    case False
    with Suc.prems show ?thesis by (intro exI [of _ "int n"]) (simp add: add.commute)
  qed
qed (simp add: year_start_def)

lemma year_of_era:
  assumes "0 \<le> doe" and "doe < 146097"
  shows "0 \<le> year_of_era doe \<and> year_of_era doe \<le> 399 \<and> year_start (year_of_era doe) \<le> doe \<and> doe < year_start (year_of_era doe + 1)"
proof -
  have "doe < year_start (int 400)" using assms by (simp add: year_start_def)
  with assms year_exists obtain y where y: "0 \<le> y" "y < int 400" "year_start y \<le> doe" "doe < year_start (y + 1)" by blast
  then have "year_of_era doe = y" by (intro year_of_day) auto
  with y show ?thesis by simp
qed

section \<open>Dates\<close>

definition date_less :: "int \<times> int \<times> int \<Rightarrow> int \<times> int \<times> int \<Rightarrow> bool" where
  "date_less p q \<longleftrightarrow> (case p of (y, m, d) \<Rightarrow> case q of (y', m', d') \<Rightarrow> y < y' \<or> y = y' \<and> (m < m' \<or> m = m' \<and> d < d'))"

text \<open>The parts of the computation, with the year and the month of the era as one number.\<close>

lemma civil_parts:
  assumes "civil_date n = (y, m, d)"
  obtains era yoe doy mp where "n + 719468 = era * 146097 + year_start yoe + doy" "0 \<le> yoe" "yoe \<le> 399"
    "0 \<le> doy" "doy < year_start (yoe + 1) - year_start yoe" "mp = (5 * doy + 2) div 153" "0 \<le> mp" "mp \<le> 11"
    "doy = month_start mp + d - 1" "1 \<le> d" "d \<le> 31" "1 \<le> m" "m \<le> 12" "12 * y + m = 4800 * era + 12 * yoe + mp + 3"
proof -
  define era doe where "era = (n + 719468) div 146097" "doe = (n + 719468) mod 146097"
  then have doe: "0 \<le> doe" "doe < 146097" "n + 719468 = era * 146097 + doe" by simp_all
  define yoe where "yoe = year_of_era doe"
  note yr = year_of_era [OF doe(1, 2), folded yoe_def]
  define doy where "doy = doe - year_start yoe"
  have len: "year_start (yoe + 1) - year_start yoe \<le> 366"
  proof (cases "yoe = 399")
    case False
    then have "yoe div 400 = 0" "(yoe + 1) div 400 = 0" using yr by auto
    moreover have "(yoe + 1) div 4 \<le> yoe div 4 + 1" using zdiv_mono1 [of "yoe + 1" "yoe + 4" 4] by simp
    moreover have "yoe div 100 \<le> (yoe + 1) div 100" by (rule zdiv_mono1) simp_all
    moreover have "365 * (y + 1) + p' - q' + 0 - (365 * y + p - q + 0) \<le> 366" if "p' \<le> p + 1" "q \<le> q'" for y p p' q q' :: int
      using that by simp
    ultimately show ?thesis unfolding year_start_def by metis
  qed (simp add: year_start_def)
  have doy: "0 \<le> doy" "doy < year_start (yoe + 1) - year_start yoe" "doy \<le> 365"
    using yr len by (auto simp: doy_def)
  define mp where "mp = (5 * doy + 2) div 153"
  have mp: "0 \<le> mp" "mp \<le> 11" "153 * mp \<le> 5 * doy + 2" "5 * doy + 2 < 153 * mp + 153"
  proof -
    show b: "153 * mp \<le> 5 * doy + 2" "5 * doy + 2 < 153 * mp + 153"
      using div_bounds [of 153 "5 * doy + 2"] unfolding mp_def by simp_all
    show "0 \<le> mp" "mp \<le> 11" using b doy(1, 3) by linarith+
  qed
  have "yoe div 400 = 0" using yr by simp
  then have doe_eq: "doe - (365 * yoe + yoe div 4 - yoe div 100) = doy" by (simp add: doy_def year_start_def)
  have c: "civil_date n = (yoe + era * 400 + (if (if mp < 10 then mp + 3 else mp - 9) \<le> 2 then 1 else 0),
      if mp < 10 then mp + 3 else mp - 9, doy - month_start mp + 1)"
    unfolding civil_date_def Let_def era_doe_def [symmetric] year_of_era_def [symmetric] yoe_def [symmetric] doe_eq
      mp_def [symmetric] month_start_def by simp
  have d: "d = doy - month_start mp + 1" and m: "m = (if mp < 10 then mp + 3 else mp - 9)"
    and y: "y = yoe + era * 400 + (if m \<le> 2 then 1 else 0)"
    using c assms by simp_all
  have ms: "5 * month_start mp \<le> 153 * mp + 2" "153 * mp + 2 < 5 * month_start mp + 5"
    using div_bounds [of 5 "153 * mp + 2"] unfolding month_start_def by simp_all
  show thesis
  proof (rule that [of era yoe doy mp])
    show "1 \<le> d" "d \<le> 31" using mp ms unfolding d by linarith+
    show "12 * y + m = 4800 * era + 12 * yoe + mp + 3" using mp m y by (auto split: if_splits)
    show "1 \<le> m" "m \<le> 12" using mp m by auto
    show "doy = month_start mp + d - 1" by (simp add: d)
  qed (use doe yr doy mp in \<open>simp_all add: doy_def mp_def\<close>)
qed

lemma civil_date_mono:
  assumes "n < n'"
  shows "date_less (civil_date n) (civil_date n')"
proof -
  obtain y m d where c: "civil_date n = (y, m, d)" by (metis prod_cases3)
  obtain y' m' d' where c': "civil_date n' = (y', m', d')" by (metis prod_cases3)
  from c obtain era yoe doy mp where p: "n + 719468 = era * 146097 + year_start yoe + doy" "0 \<le> yoe" "yoe \<le> 399"
    "0 \<le> doy" "doy < year_start (yoe + 1) - year_start yoe" "mp = (5 * doy + 2) div 153" "0 \<le> mp" "mp \<le> 11"
    "doy = month_start mp + d - 1" "1 \<le> m" "m \<le> 12" "12 * y + m = 4800 * era + 12 * yoe + mp + 3"
    by (rule civil_parts) blast
  from c' obtain era' yoe' doy' mp' where p': "n' + 719468 = era' * 146097 + year_start yoe' + doy'" "0 \<le> yoe'" "yoe' \<le> 399"
    "0 \<le> doy'" "doy' < year_start (yoe' + 1) - year_start yoe'" "mp' = (5 * doy' + 2) div 153" "0 \<le> mp'" "mp' \<le> 11"
    "doy' = month_start mp' + d' - 1" "1 \<le> m'" "m' \<le> 12" "12 * y' + m' = 4800 * era' + 12 * yoe' + mp' + 3"
    by (rule civil_parts) blast
  have whole: "year_start 400 = 146097" "year_start 0 = 0" by (simp_all add: year_start_def)
  have in_era: "0 \<le> year_start u + v \<and> year_start u + v < 146097"
    if "0 \<le> u" "u \<le> 399" "0 \<le> v" "v < year_start (u + 1) - year_start u" for u v
    using year_start_mono [of 0 u] year_start_mono [of "u + 1" 400] that unfolding whole by linarith
  note in_era = in_era [OF p(2-5)] in_era [OF p'(2-5)]
  have lex: "12 * y + m < 12 * y' + m' \<or> 12 * y + m = 12 * y' + m' \<and> d < d'"
  proof (cases "era = era'")
    case False
    then have "era < era'" using assms p(1) p'(1) in_era by linarith
    then have "12 * y + m < 12 * y' + m'" using p(2, 3, 7, 8, 12) p'(2, 3, 7, 8, 12) by linarith
    then show ?thesis ..
  next
    case same: True
    show ?thesis
    proof (cases "yoe = yoe'")
      case False
      have "\<not> yoe' < yoe"
        using year_start_mono [of "yoe' + 1" yoe] assms same p(1, 4) p'(1, 5) by linarith
      then have "yoe < yoe'" using False by simp
      then have "12 * y + m < 12 * y' + m'" using same p(7, 8, 12) p'(7, 8, 12) by linarith
      then show ?thesis ..
    next
      case True
      then have "doy < doy'" using assms same p(1) p'(1) by simp
      then have "mp \<le> mp'" using p(6) p'(6) by (simp add: zdiv_mono1)
      then show ?thesis using \<open>doy < doy'\<close> True same p(9, 12) p'(9, 12) by (cases "mp = mp'") auto
    qed
  qed
  then have "y < y' \<or> y = y' \<and> (m < m' \<or> m = m' \<and> d < d')"
  proof
    assume "12 * y + m < 12 * y' + m'"
    then have "y \<le> y'" "y = y' \<Longrightarrow> m < m'" using p(10, 11) p'(10, 11) by linarith+
    then show ?thesis by (cases "y = y'") auto
  next
    assume e: "12 * y + m = 12 * y' + m' \<and> d < d'"
    then have "y = y'" using p(10, 11) p'(10, 11) by linarith
    with e show ?thesis by simp
  qed
  then show ?thesis by (simp add: date_less_def c c')
qed

section \<open>The sortable text\<close>

definition date_text :: "int \<times> int \<times> int \<Rightarrow> string" where
  "date_text date = (case date of (year, month, day) \<Rightarrow> digits 4 year @ ''-'' @ digits 2 month @ ''-'' @ digits 2 day)"

definition clock_text :: "int \<Rightarrow> string" where
  "clock_text sod = digits 2 (sod div 3600) @ '':'' @ digits 2 (sod div 60 mod 60) @ '':'' @ digits 2 (sod mod 60)"

lemma sortable_text:
  "FormatSortableStorageTime t = date_text (civil_date (unix t div 86400)) @ ''T'' @ clock_text (unix t mod 86400) @ ''.'' @ digits 9 (t mod Second) @ ''Z''"
  by (simp add: FormatSortableStorageTime_def Let_def date_text_def clock_text_def split: prod.split)

lemma length_texts: "length (date_text date) = 10" "length (clock_text sod) = 8"
  by (simp_all add: date_text_def clock_text_def split: prod.split)

definition in_digits :: "nat \<Rightarrow> int \<Rightarrow> bool" where
  "in_digits k n \<longleftrightarrow> 0 \<le> n \<and> n < 10 ^ k"

lemma fields_less:
  assumes "h < h' \<or> h = h' \<and> (m < m' \<or> m = m' \<and> s < s')"
    and "in_digits k h" "in_digits k h'" "in_digits 2 m" "in_digits 2 m'" "in_digits 2 s" "in_digits 2 s'"
  shows "digits k h @ c # digits 2 m @ c # digits 2 s < digits k h' @ c # digits 2 m' @ c # digits 2 s'"
  using assms digits_order [of h k h'] digits_order [of m 2 m'] digits_order [of s 2 s']
  by (auto simp: in_digits_def append_less_iff simp del: digits.simps)

lemma civil_month_day: "civil_date n = (y, m, d) \<Longrightarrow> 1 \<le> m \<and> m \<le> 12 \<and> 1 \<le> d \<and> d \<le> 31"
  by (erule civil_parts) (intro conjI)

lemma date_text_less:
  assumes "n < n'" and y: "0 \<le> fst (civil_date n)" "fst (civil_date n) < 10000" "0 \<le> fst (civil_date n')" "fst (civil_date n') < 10000"
  shows "date_text (civil_date n) < date_text (civil_date n')"
proof -
  obtain y m d where c: "civil_date n = (y, m, d)" by (metis prod_cases3)
  obtain y' m' d' where c': "civil_date n' = (y', m', d')" by (metis prod_cases3)
  have "y < y' \<or> y = y' \<and> (m < m' \<or> m = m' \<and> d < d')"
    using civil_date_mono [OF assms(1)] by (simp add: c c' date_less_def)
  moreover have "in_digits 4 y" "in_digits 4 y'" using y by (simp_all add: c c' in_digits_def)
  moreover have "in_digits 2 m" "in_digits 2 m'" "in_digits 2 d" "in_digits 2 d'"
    using civil_month_day [OF c] civil_month_day [OF c'] by (simp_all add: in_digits_def)
  ultimately show ?thesis using fields_less [of y y' m m' d d' 4 "CHR ''-''"] by (simp add: c c' date_text_def del: digits.simps)
qed

lemma clock_order:
  fixes h m s :: int
  assumes "3600 * h + 60 * m + s < 3600 * h' + 60 * m' + s'"
    and r: "0 \<le> m" "m < 60" "0 \<le> s" "s < 60" "0 \<le> m'" "m' < 60" "0 \<le> s'" "s' < 60"
  shows "h < h' \<or> h = h' \<and> (m < m' \<or> m = m' \<and> s < s')"
proof -
  have "h \<le> h'" using assms by linarith
  moreover have "m \<le> m'" if "h = h'" using assms(1) r that by linarith
  ultimately show ?thesis using assms(1) by (cases "h = h'"; cases "m = m'") auto
qed

lemma clock_text_less:
  assumes "0 \<le> s" and "s < s'" and "s' < 86400"
  shows "clock_text s < clock_text s'"
proof -
  have hours: "in_digits 2 (u div 3600)" if "0 \<le> u" "u < 86400" for u :: int
    using that by (simp add: in_digits_def pos_imp_zdiv_nonneg_iff div_less_iff_less_mult)
  have sixty: "in_digits 2 (u mod 60)" for u :: int
    unfolding in_digits_def by (auto intro: less_trans [OF pos_mod_bound])
  have split: "u = 3600 * (u div 3600) + 60 * (u div 60 mod 60) + u mod 60" for u :: int
  proof -
    have "u div 60 = 60 * (u div 3600) + u div 60 mod 60"
      using mult_div_mod_eq [of 60 "u div 60"] by (simp add: zdiv_zmult2_eq [symmetric])
    then have "60 * (u div 60) = 3600 * (u div 3600) + 60 * (u div 60 mod 60)" by simp
    then show ?thesis using mult_div_mod_eq [of 60 u] by linarith
  qed
  have range: "0 \<le> u div 60 mod 60" "u div 60 mod 60 < 60" "0 \<le> u mod 60" "u mod 60 < 60" for u :: int by simp_all
  have "s div 3600 < s' div 3600 \<or> s div 3600 = s' div 3600 \<and>
      (s div 60 mod 60 < s' div 60 mod 60 \<or> s div 60 mod 60 = s' div 60 mod 60 \<and> s mod 60 < s' mod 60)"
  proof (rule clock_order)
    show "3600 * (s div 3600) + 60 * (s div 60 mod 60) + s mod 60 < 3600 * (s' div 3600) + 60 * (s' div 60 mod 60) + s' mod 60"
      using assms(2) unfolding split [symmetric] .
  qed (rule range)+
  moreover have "in_digits 2 (s div 3600)" "in_digits 2 (s' div 3600)" using assms by (simp_all add: hours)
  ultimately show ?thesis
    using fields_less [OF _ _ _ sixty sixty sixty sixty, of "s div 3600" "s' div 3600" _ _ _ _ 2 "CHR '':''"]
    by (simp add: clock_text_def del: digits.simps)
qed

definition year_shown :: "gtime \<Rightarrow> bool" where
  "year_shown t \<longleftrightarrow> 0 \<le> fst (civil_date (unix t div 86400)) \<and> fst (civil_date (unix t div 86400)) < 10000"

lemma sortable_less:
  assumes "a < b" and "year_shown a" "year_shown b"
  shows "FormatSortableStorageTime a < FormatSortableStorageTime b"
proof -
  let ?d = "\<lambda>t. unix t div 86400" and ?s = "\<lambda>t. unix t mod 86400" and ?n = "\<lambda>t. t mod Second"
  have parts: "0 \<le> ?s t" "?s t < 86400" "0 \<le> ?n t" "?n t < Second" for t
    by (simp_all add: unix_def)
  have "unix a \<le> unix b" using assms(1) by (simp add: unix_def zdiv_mono1)
  then consider "?d a < ?d b" | "?d a = ?d b" "?s a < ?s b" | "unix a = unix b"
    using zdiv_mono1 [of "unix a" "unix b" 86400] mult_div_mod_eq [of 86400 "unix a"] mult_div_mod_eq [of 86400 "unix b"]
    by linarith
  then show ?thesis
  proof cases
    case 1
    with assms(2, 3) have "date_text (civil_date (?d a)) < date_text (civil_date (?d b))"
      by (intro date_text_less) (simp_all add: year_shown_def)
    then show ?thesis by (simp add: sortable_text append_less_iff length_texts)
  next
    case 2
    then have "clock_text (?s a) < clock_text (?s b)" using parts by (intro clock_text_less)
    then show ?thesis using 2 by (simp add: sortable_text append_less_iff length_texts)
  next
    case 3
    have "?n t = t - Second * unix t" for t by (simp add: unix_def minus_mult_div_eq_mod)
    then have "?n a < ?n b" using assms(1) 3 by simp
    then have "digits 9 (?n a) < digits 9 (?n b)"
      by (intro digits_order [THEN conjunct1, THEN iffD2]) (simp_all add: pos_mod_bound)
    then show ?thesis using 3 by (simp add: sortable_text append_less_iff length_texts)
  qed
qed

lemma sortable_order:
  assumes "year_shown a" "year_shown b"
  shows "FormatSortableStorageTime a < FormatSortableStorageTime b \<longleftrightarrow> a < b"
    and "FormatSortableStorageTime a = FormatSortableStorageTime b \<longleftrightarrow> a = b"
  using sortable_less [of a b] sortable_less [of b a] assms by (cases a b rule: linorder_cases; force)+

text \<open>The years from 0 to 9999 in seconds, with some days to spare at both ends.\<close>

definition dated :: "gtime \<Rightarrow> bool" where
  "dated t \<longleftrightarrow> - 62164000000 \<le> unix t \<and> unix t \<le> 253401000000"

lemma civil_year_mono: "n \<le> n' \<Longrightarrow> fst (civil_date n) \<le> fst (civil_date n')"
  using civil_date_mono [of n n'] by (cases "n = n'") (auto simp: date_less_def split: prod.splits)

lemma year_shownI:
  assumes "- 62167219200 \<le> unix t" and "unix t < 253402300800"
  shows "year_shown t"
proof -
  have "- 719528 \<le> unix t div 86400" "unix t div 86400 \<le> 2932896"
    using zdiv_mono1 [OF assms(1), of 86400] zdiv_mono1 [of "unix t" 253402300799 86400] assms(2) by simp_all
  then have "fst (civil_date (- 719528)) \<le> fst (civil_date (unix t div 86400))"
    "fst (civil_date (unix t div 86400)) \<le> fst (civil_date 2932896)"
    by (simp_all add: civil_year_mono)
  moreover have "fst (civil_date (- 719528)) = 0" "fst (civil_date 2932896) = 9999" by code_simp+
  ultimately show ?thesis by (simp add: year_shown_def)
qed

lemma near_dated:
  assumes "dated t" and "t - 32 * 24 * Hour \<le> u" and "u \<le> t + 2 * 24 * Hour"
  shows "year_shown u"
proof (rule year_shownI)
  have "(t + (- 2764800) * Second) div Second \<le> u div Second" "u div Second \<le> (t + 172800 * Second) div Second"
    using assms(2, 3) by (intro zdiv_mono1; simp)+
  then have "unix t - 2764800 \<le> unix u" "unix u \<le> unix t + 172800"
    unfolding unix_def by simp_all
  then show "- 62167219200 \<le> unix u" "unix u < 253402300800" using assms(1) unfolding dated_def by linarith+
qed

section \<open>The property\<close>

text \<open>
  C27: In the sortable format, comparing the stored texts is comparing the instants, for all times whose year has
  at most four digits: the columns that are ordered and searched by text are ordered and searched by time.
\<close>
theorem sortable_text_orders_instants:
  assumes "year_shown a" and "year_shown b"
  shows "(FormatSortableStorageTime a < FormatSortableStorageTime b \<longleftrightarrow> a < b) \<and>
    (FormatSortableStorageTime a = FormatSortableStorageTime b \<longleftrightarrow> a = b)"
  using sortable_order [OF assms] by simp

theorem sortable_text_orders_instants_witness:
  "FormatSortableStorageTime 999999999 < FormatSortableStorageTime 1000000000"
proof -
  have "year_shown 999999999" "year_shown 1000000000" by code_simp+
  from sortable_text_orders_instants [OF this] show ?thesis by simp
qed

end
