(* ===== verification/RollupStore.thy ===== *)
theory RollupStore
  imports Overview LatencyRows InboxSafety StorageOrder
begin

text \<open>
  The stored rollups: \<open>repository/usage_aggregation_checkpoint.go\<close>, \<open>usage_aggregation_page.go\<close>,
  \<open>overviewstore/store.go\<close> and \<open>activitystore/store.go\<close>.  A checkpoint says up to which event a kind of rollup has
  counted; a page is the next events after it; the stores add the rows of a page to the tables.
\<close>

section \<open>Tables and statements\<close>

type_synonym UsageAggregationCheckpointName = string

abbreviation UsageAggregationCheckpointOverview :: UsageAggregationCheckpointName where
  "UsageAggregationCheckpointOverview \<equiv> ''overview''"
abbreviation UsageAggregationCheckpointActivity :: UsageAggregationCheckpointName where
  "UsageAggregationCheckpointActivity \<equiv> ''activity''"
abbreviation UsageAggregationCheckpointLatency :: UsageAggregationCheckpointName where
  "UsageAggregationCheckpointLatency \<equiv> ''latency''"

record UsageAggregationCheckpoint =
  cp_Name :: UsageAggregationCheckpointName
  cp_LastAggregatedUsageEventID :: int
  cp_StatsUpdatedAt :: "gtime option"
  cp_CreatedAt :: gtime
  cp_UpdatedAt :: gtime

text \<open>
  The statements on one table, with the condition of each as a predicate on rows.  An update tells how many rows it
  found; SQL adds to a column, so an update is a function of the row.
\<close>

record ('s, 'r) sql_table =
  tb_list :: "('r \<Rightarrow> bool) \<Rightarrow> 's \<Rightarrow> string + 'r list"
  tb_update :: "('r \<Rightarrow> bool) \<Rightarrow> ('r \<Rightarrow> 'r) \<Rightarrow> 's \<Rightarrow> (string + nat) \<times> 's"
  tb_create :: "'r \<Rightarrow> 's \<Rightarrow> (string + unit) \<times> 's"
  tb_delete :: "('r \<Rightarrow> bool) \<Rightarrow> 's \<Rightarrow> (string + unit) \<times> 's"

text \<open>
  The database: the tables of the rollups beside those of the inbox, the queries on usage events (the largest id; a
  page in the order of the ids), \<open>INSERT ... ON CONFLICT DO NOTHING\<close> on the checkpoints, and the statements of the
  archive: the ids of some events, copying events to the archive, counting them there, deleting them, and whether some
  identity has events left to count.
\<close>

record 's rollup_db =
  ru_inbox :: "'s inbox_db"
  ru_target :: "'s \<Rightarrow> string + int"
  ru_events :: "(UsageEvent \<Rightarrow> UsageEvent) \<Rightarrow> (UsageEvent \<Rightarrow> bool) \<Rightarrow> nat \<Rightarrow> 's \<Rightarrow> string + UsageEvent list"
  ru_ensure :: "UsageAggregationCheckpoint \<Rightarrow> 's \<Rightarrow> (string + unit) \<times> 's"
  ru_checkpoints :: "('s, UsageAggregationCheckpoint) sql_table"
  ru_hourly :: "('s, UsageOverviewStat) sql_table"
  ru_daily :: "('s, UsageOverviewStat) sql_table"
  ru_activity :: "('s, UsageActivityStat) sql_table"
  ru_latency :: "('s, UsageLatencyStat) sql_table"
  ru_expired :: "(UsageEvent \<Rightarrow> bool) \<Rightarrow> nat \<Rightarrow> 's \<Rightarrow> string + int list"
  ru_archive :: "int list \<Rightarrow> 's \<Rightarrow> (string + nat) \<times> 's"
  ru_archived :: "int list \<Rightarrow> 's \<Rightarrow> string + nat"
  ru_delete_events :: "int list \<Rightarrow> 's \<Rightarrow> (string + nat) \<times> 's"
  ru_pending_identity :: "'s \<Rightarrow> string + bool"

fun for_each :: "('a \<Rightarrow> ('s, unit) sql) \<Rightarrow> 'a list \<Rightarrow> ('s, unit) sql" where
  "for_each f [] = gives ()"
| "for_each f (x # xs) = and_then (f x) (\<lambda>_. for_each f xs)"

section \<open>Texts\<close>

text \<open>\<open>%d\<close>, and \<open>%q\<close> for texts of printable characters.\<close>

definition int_text :: "int \<Rightarrow> string" where
  "int_text i = (if i < 0 then ''-'' else []) @ decimal (nat \<bar>i\<bar>)"

definition quoted :: "string \<Rightarrow> string" where
  "quoted s = ''\"'' @ concat (map (\<lambda>c. if c = CHR ''\"'' \<or> c = CHR 0x5C then [CHR 0x5C, c] else [c]) s) @ ''\"''"

section \<open>Checkpoints\<close>

record UsageAggregationCheckpointSnapshot =
  sn_OverviewCursor :: int
  sn_ActivityCursor :: int
  sn_LatencyCursor :: int

definition snapshot_Equal :: "UsageAggregationCheckpointSnapshot \<Rightarrow> bool" where
  "snapshot_Equal snapshot \<longleftrightarrow>
     sn_OverviewCursor snapshot = sn_ActivityCursor snapshot \<and> sn_ActivityCursor snapshot = sn_LatencyCursor snapshot"

definition checkpoint_names :: "UsageAggregationCheckpointName list" where
  "checkpoint_names =
     [UsageAggregationCheckpointOverview, UsageAggregationCheckpointActivity, UsageAggregationCheckpointLatency]"

definition snapshot_add :: "UsageAggregationCheckpoint \<Rightarrow> UsageAggregationCheckpointSnapshot \<Rightarrow> UsageAggregationCheckpointSnapshot" where
  "snapshot_add checkpoint snapshot =
     (let i = cp_LastAggregatedUsageEventID checkpoint in
      if cp_Name checkpoint = UsageAggregationCheckpointOverview then snapshot\<lparr>sn_OverviewCursor := i\<rparr>
      else if cp_Name checkpoint = UsageAggregationCheckpointActivity then snapshot\<lparr>sn_ActivityCursor := i\<rparr>
      else if cp_Name checkpoint = UsageAggregationCheckpointLatency then snapshot\<lparr>sn_LatencyCursor := i\<rparr>
      else snapshot)"

definition LoadUsageAggregationCheckpointSnapshot ::
  "'s rollup_db option \<Rightarrow> ('s, UsageAggregationCheckpointSnapshot) sql" where
  "LoadUsageAggregationCheckpointSnapshot handle =
     (case handle of
        None \<Rightarrow> fails ''database is nil''
      | Some db \<Rightarrow> reads (\<lambda>s.
          case tb_list (ru_checkpoints db) (\<lambda>c. cp_Name c \<in> set checkpoint_names) s of
            Inl err \<Rightarrow> Inl (''load usage aggregation checkpoints: '' @ err)
          | Inr checkpoints \<Rightarrow> Inr (fold snapshot_add checkpoints
              \<lparr>sn_OverviewCursor = 0, sn_ActivityCursor = 0, sn_LatencyCursor = 0\<rparr>)))"

definition AdvanceUsageAggregationCheckpoint ::
  "'s rollup_db option \<Rightarrow> UsageAggregationCheckpointName \<Rightarrow> int \<Rightarrow> int \<Rightarrow> gtime \<Rightarrow> ('s, unit) sql" where
  "AdvanceUsageAggregationCheckpoint handle name expectedCursor nextCursor now =
     (case handle of
        None \<Rightarrow> fails ''database is nil''
      | Some db \<Rightarrow>
          if name \<notin> set checkpoint_names then fails (''unsupported usage aggregation checkpoint '' @ quoted name)
          else if expectedCursor < 0 \<or> nextCursor \<le> expectedCursor
          then fails (''invalid usage aggregation checkpoint advance '' @ quoted name @ '': '' @ int_text expectedCursor @
            '' -> '' @ int_text nextCursor)
          else and_then
            (wrapped (''ensure usage aggregation checkpoint '' @ quoted name)
              (State (ru_ensure db \<lparr>cp_Name = name, cp_LastAggregatedUsageEventID = 0, cp_StatsUpdatedAt = None,
                 cp_CreatedAt = now, cp_UpdatedAt = now\<rparr>)))
            (\<lambda>_. and_then
              (wrapped (''advance usage aggregation checkpoint '' @ quoted name)
                (State (tb_update (ru_checkpoints db)
                  (\<lambda>c. cp_Name c = name \<and> cp_LastAggregatedUsageEventID c = expectedCursor)
                  (\<lambda>c. c\<lparr>cp_LastAggregatedUsageEventID := nextCursor, cp_StatsUpdatedAt := Some now, cp_UpdatedAt := now\<rparr>))))
              (\<lambda>affected. if affected \<noteq> 1
                 then fails (''usage aggregation checkpoint '' @ quoted name @ '' conflict: expected cursor '' @ int_text expectedCursor)
                 else gives ())))"

section \<open>Pages\<close>

abbreviation usageAggregationEventPageLimit :: int where "usageAggregationEventPageLimit \<equiv> 1000"

definition LoadUsageAggregationTargetEventID :: "'s rollup_db option \<Rightarrow> ('s, int) sql" where
  "LoadUsageAggregationTargetEventID handle =
     (case handle of
        None \<Rightarrow> fails ''database is nil''
      | Some db \<Rightarrow> wrapped ''load usage aggregation target event id'' (reads (ru_target db)))"

text \<open>The columns a page selects.  The others are left at their zero values.\<close>

definition UsageAggregationEventProjectionColumns :: "UsageEvent \<Rightarrow> UsageEvent" where
  "UsageAggregationEventProjectionColumns e =
     e\<lparr>ev_EventKey := [], ev_Provider := [], ev_AuthType := [], ev_RequestID := [], ev_Source := [], ev_ClientIP := None, ev_XForwardedFor := None,
       ev_UserAgent := None, ev_CacheReadPresent := False, ev_CreatedAt := zero_time\<rparr>"

definition LoadUsageAggregationEventPage ::
  "'s rollup_db option \<Rightarrow> int \<Rightarrow> int \<Rightarrow> int \<Rightarrow> ('s, UsageEvent list) sql" where
  "LoadUsageAggregationEventPage handle afterID targetID limit =
     (case handle of
        None \<Rightarrow> fails ''database is nil''
      | Some db \<Rightarrow>
          if targetID \<le> afterID then gives []
          else if afterID < 0 \<or> targetID < 0
          then fails (''usage aggregation event bounds must be non-negative: after='' @ int_text afterID @ '' target='' @ int_text targetID)
          else if limit \<le> 0 then fails ''usage aggregation event page limit must be positive''
          else wrapped ''load usage aggregation event page''
            (reads (ru_events db UsageAggregationEventProjectionColumns (\<lambda>e. ev_ID e > afterID \<and> ev_ID e \<le> targetID)
              (nat (min limit usageAggregationEventPageLimit)))))"

section \<open>The overview tables\<close>

text \<open>The rows of the same bucket, as text, and the same nine dimensions.\<close>

definition overviewDimensionsPredicate :: "zone \<Rightarrow> UsageOverviewStat \<Rightarrow> UsageOverviewStat \<Rightarrow> bool" where
  "overviewDimensionsPredicate z row r \<longleftrightarrow>
     FormatStorageTime z (ov_BucketStart r) = FormatStorageTime z (ov_BucketStart row) \<and> ov_Dimensions r = ov_Dimensions row"

definition tokenStatUpdates :: "UsageOverviewStat \<Rightarrow> gtime \<Rightarrow> UsageOverviewStat \<Rightarrow> UsageOverviewStat" where
  "tokenStatUpdates row now r =
     r\<lparr>ov_RequestCount := ov_RequestCount r + ov_RequestCount row, ov_SuccessCount := ov_SuccessCount r + ov_SuccessCount row,
       ov_FailureCount := ov_FailureCount r + ov_FailureCount row, ov_InputTokens := ov_InputTokens r + ov_InputTokens row,
       ov_OutputTokens := ov_OutputTokens r + ov_OutputTokens row,
       ov_ReasoningTokens := ov_ReasoningTokens r + ov_ReasoningTokens row,
       ov_CachedTokens := ov_CachedTokens r + ov_CachedTokens row,
       ov_CacheReadTokens := ov_CacheReadTokens r + ov_CacheReadTokens row,
       ov_CacheCreationTokens := ov_CacheCreationTokens r + ov_CacheCreationTokens row,
       ov_TotalTokens := ov_TotalTokens r + ov_TotalTokens row, ov_UpdatedAt := now\<rparr>"

text \<open>A row that is not there yet is inserted; if that fails the update is tried once more.\<close>

definition insert_overview_row ::
  "zone \<Rightarrow> ('s, UsageOverviewStat) sql_table \<Rightarrow> string \<Rightarrow> gtime \<Rightarrow> UsageOverviewStat \<Rightarrow> ('s, unit) sql" where
  "insert_overview_row z tb name now row = do {
     created \<leftarrow> State (tb_create tb (row\<lparr>ov_CreatedAt := now, ov_UpdatedAt := now\<rparr>));
     case created of
       Inr _ \<Rightarrow> gives ()
     | Inl insertErr \<Rightarrow> do {
         retried \<leftarrow> State (tb_update tb (overviewDimensionsPredicate z row) (tokenStatUpdates row now));
         case retried of
           Inl err \<Rightarrow> fails (''insert usage overview '' @ name @ '' stat: '' @ insertErr @ ''; retry update: '' @ err)
         | Inr n \<Rightarrow>
             if n = 0 then fails (''insert usage overview '' @ name @ '' stat: '' @ insertErr @ ''; retry update matched no existing row'')
             else gives () } }"

text \<open>The two functions differ in the table and the name in their errors.\<close>

definition apply_overview_row ::
  "zone \<Rightarrow> ('s, UsageOverviewStat) sql_table \<Rightarrow> string \<Rightarrow> gtime \<Rightarrow> UsageOverviewStat \<Rightarrow> ('s, unit) sql" where
  "apply_overview_row z tb name now row =
     and_then (wrapped (''update usage overview '' @ name @ '' stat'')
         (State (tb_update tb (overviewDimensionsPredicate z row) (tokenStatUpdates row now))))
       (\<lambda>affected. if affected > 0 then gives () else insert_overview_row z tb name now row)"

definition applyHourlyRow :: "zone \<Rightarrow> 's rollup_db \<Rightarrow> gtime \<Rightarrow> UsageOverviewStat \<Rightarrow> ('s, unit) sql" where
  "applyHourlyRow z db = apply_overview_row z (ru_hourly db) ''hourly''"

definition applyDailyRow :: "zone \<Rightarrow> 's rollup_db \<Rightarrow> gtime \<Rightarrow> UsageOverviewStat \<Rightarrow> ('s, unit) sql" where
  "applyDailyRow z db = apply_overview_row z (ru_daily db) ''daily''"

definition overview_ApplyRows ::
  "zone \<Rightarrow> 's rollup_db \<Rightarrow> UsageOverviewStat list \<Rightarrow> UsageOverviewStat list \<Rightarrow> gtime \<Rightarrow> ('s, unit) sql" where
  "overview_ApplyRows z db hourlyRows dailyRows now =
     and_then (for_each (applyHourlyRow z db now) hourlyRows) (\<lambda>_. for_each (applyDailyRow z db now) dailyRows)"

section \<open>The activity table\<close>

definition activity_key_predicate :: "UsageActivityStat \<Rightarrow> UsageActivityStat \<Rightarrow> bool" where
  "activity_key_predicate row r \<longleftrightarrow> grain_text (as_Grain r) = grain_text (as_Grain row) \<and>
     FormatSortableStorageTime (as_BucketStart r) = FormatSortableStorageTime (as_BucketStart row) \<and>
     as_APIGroupKey r = as_APIGroupKey row"

definition activity_updates :: "UsageActivityStat \<Rightarrow> gtime \<Rightarrow> UsageActivityStat \<Rightarrow> UsageActivityStat" where
  "activity_updates row now r =
     r\<lparr>as_BucketEnd := as_BucketEnd row, as_SuccessCount := as_SuccessCount r + as_SuccessCount row,
       as_FailureCount := as_FailureCount r + as_FailureCount row, as_InputTokens := as_InputTokens r + as_InputTokens row,
       as_OutputTokens := as_OutputTokens r + as_OutputTokens row,
       as_ReasoningTokens := as_ReasoningTokens r + as_ReasoningTokens row,
       as_CacheReadTokens := as_CacheReadTokens r + as_CacheReadTokens row,
       as_CacheCreationTokens := as_CacheCreationTokens r + as_CacheCreationTokens row,
       as_TotalTokens := as_TotalTokens r + as_TotalTokens row, as_UpdatedAt := now\<rparr>"

definition activity_applyRow :: "'s rollup_db \<Rightarrow> gtime \<Rightarrow> UsageActivityStat \<Rightarrow> ('s, unit) sql" where
  "activity_applyRow db now row =
     and_then (wrapped ''update usage activity row''
         (State (tb_update (ru_activity db) (activity_key_predicate row) (activity_updates row now))))
       (\<lambda>affected.
          if affected > 0 then gives ()
          else wrapped ''insert usage activity row''
            (State (tb_create (ru_activity db) (row\<lparr>as_CreatedAt := now, as_UpdatedAt := now\<rparr>))))"

definition activity_ApplyRows :: "'s rollup_db \<Rightarrow> UsageActivityStat list \<Rightarrow> gtime \<Rightarrow> ('s, unit) sql" where
  "activity_ApplyRows db rows now = for_each (activity_applyRow db now) rows"

end
