(* ===== verification/LatencyStore.thy ===== *)
theory LatencyStore
  imports RollupStore
begin

text \<open>
  \<open>repository/latencystore/store.go\<close>: merging stored latency rows.  A page's rows are merged with the stored ones
  outside the transaction, and written in it.  Errors are values whose text is a parameter.
\<close>

section \<open>Keys and decoded rows\<close>

abbreviation loadKeyBatchSize :: nat where "loadKeyBatchSize \<equiv> 200"

type_synonym rowKey = "UsageLatencyBucketType \<times> string \<times> string"

record decodedRow =
  dr_TTFTSketch :: Sketch
  dr_LatencySketch :: Sketch
  dr_SamplePoints :: SampleSet

record DiagnosticsAggregate =
  da_SampleCount :: int
  da_MaxTTFTMS :: int
  da_MaxLatencyMS :: int
  da_TTFTSketch :: Sketch
  da_LatencySketch :: Sketch
  da_SamplePoints :: SampleSet

datatype store_error =
    UnsupportedFormat int | InvalidCounters | DecodeTTFT latency_error | DecodeLatency latency_error | DecodeSamples latency_error
  | CountMismatch int | SampleCountOverflow | MergedCountMismatch int | Plain latency_error
  | DiagnosticsRow nat store_error | MergeTTFT nat latency_error | MergeLatency nat latency_error | MergeSamples nat latency_error
  | DuplicateKey rowKey | DecodeIncoming rowKey store_error | MergeRow rowKey store_error | DecodePrepared rowKey store_error

definition latencyRowKey :: "zone \<Rightarrow> UsageLatencyStat \<Rightarrow> rowKey" where
  "latencyRowKey z row = (ls_BucketType row, FormatStorageTime z (ls_BucketStart row), ls_APIGroupKey row)"

definition map_error :: "('e \<Rightarrow> 'f) \<Rightarrow> 'e + 'a \<Rightarrow> 'f + 'a" where
  "map_error f = map_sum f (\<lambda>x. x)"

lemma map_error_simps [simp]:
  "map_error f (Inl e) = Inl (f e)" "map_error f (Inr x) = Inr x" "map_error f r = Inr x \<longleftrightarrow> r = Inr x"
  by (cases r; simp add: map_error_def)+

definition decodeLatencyRow :: "latency_env \<Rightarrow> UsageLatencyStat \<Rightarrow> store_error + decodedRow" where
  "decodeLatencyRow env row =
     (if ls_FormatVersion row \<noteq> 1 then Inl (UnsupportedFormat (ls_FormatVersion row))
      else if ls_SampleCount row < 0 \<or> ls_MaxTTFTMS row \<le> 0 \<or> ls_MaxLatencyMS row \<le> 0 then Inl InvalidCounters
      else bindE (map_error DecodeTTFT (UnmarshalSketch (ls_TTFTSketch row))) (\<lambda>ttftSketch.
           bindE (map_error DecodeLatency (UnmarshalSketch (ls_LatencySketch row))) (\<lambda>latencySketch.
           bindE (map_error DecodeSamples (UnmarshalSampleSet (ls_SamplePoints row))) (\<lambda>samplePoints.
             if sk_count ttftSketch \<noteq> nat (ls_SampleCount row) \<or> sk_count latencySketch \<noteq> nat (ls_SampleCount row) \<or>
                int (length (sample_Points (le_point_order env) samplePoints)) > ls_SampleCount row
             then Inl (CountMismatch (ls_SampleCount row))
             else Inr \<lparr>dr_TTFTSketch = ttftSketch, dr_LatencySketch = latencySketch, dr_SamplePoints = samplePoints\<rparr>))))"

text \<open>The three \<open>Merge\<close> calls, whose receiver is there.\<close>

definition merged :: "latency_error option \<times> 'a option \<Rightarrow> latency_error + 'a" where
  "merged r = (case fst r of Some e \<Rightarrow> Inl e | None \<Rightarrow> Inr (the (snd r)))"

definition merge_sketches :: "latency_env \<Rightarrow> Sketch \<Rightarrow> Sketch \<Rightarrow> latency_error + Sketch" where
  "merge_sketches env s t = merged (sketch_Merge (le_bin_order env) (Some s) (Some t))"

definition merge_samples :: "latency_env \<Rightarrow> SampleSet \<Rightarrow> SampleSet \<Rightarrow> latency_error + SampleSet" where
  "merge_samples env s t = merged (sample_Merge (le_point_order env) (Some s) (Some t))"

definition mergeLatencyRows ::
  "latency_env \<Rightarrow> UsageLatencyStat option \<Rightarrow> UsageLatencyStat \<Rightarrow> gtime \<Rightarrow> store_error + UsageLatencyStat" where
  "mergeLatencyRows env stored incoming now =
     bindE (decodeLatencyRow env incoming) (\<lambda>incomingDecoded.
     (case stored of
        None \<Rightarrow> Inr (incoming\<lparr>ls_CreatedAt := now, ls_UpdatedAt := now\<rparr>)
      | Some existing \<Rightarrow>
          bindE (decodeLatencyRow env existing) (\<lambda>existingDecoded.
          if ls_SampleCount existing > MaxInt64 - ls_SampleCount incoming then Inl SampleCountOverflow
          else
            bindE (map_error Plain (merge_sketches env (dr_TTFTSketch existingDecoded) (dr_TTFTSketch incomingDecoded))) (\<lambda>ttft.
            bindE (map_error Plain (merge_sketches env (dr_LatencySketch existingDecoded) (dr_LatencySketch incomingDecoded))) (\<lambda>latency.
            bindE (map_error Plain (merge_samples env (dr_SamplePoints existingDecoded) (dr_SamplePoints incomingDecoded))) (\<lambda>samples.
            bindE (map_error Plain (sketch_MarshalBinary (le_bin_order env) (Some ttft))) (\<lambda>ttftSketch.
            bindE (map_error Plain (sketch_MarshalBinary (le_bin_order env) (Some latency))) (\<lambda>latencySketch.
            bindE (map_error Plain (sample_MarshalBinary (le_point_order env) (Some samples))) (\<lambda>samplePoints.
              Inr (existing\<lparr>ls_SampleCount := ls_SampleCount existing + ls_SampleCount incoming,
                     ls_MaxTTFTMS := max (ls_MaxTTFTMS existing) (ls_MaxTTFTMS incoming),
                     ls_MaxLatencyMS := max (ls_MaxLatencyMS existing) (ls_MaxLatencyMS incoming),
                     ls_FormatVersion := 1, ls_TTFTSketch := ttftSketch, ls_LatencySketch := latencySketch,
                     ls_SamplePoints := samplePoints, ls_UpdatedAt := now\<rparr>))))))))))"

section \<open>Diagnostics\<close>

definition merge_diagnostics_row ::
  "latency_env \<Rightarrow> nat \<times> UsageLatencyStat \<Rightarrow> DiagnosticsAggregate \<Rightarrow> store_error + DiagnosticsAggregate" where
  "merge_diagnostics_row env ir a =
     (let (index, row) = ir in
      bindE (map_error (DiagnosticsRow index) (decodeLatencyRow env row)) (\<lambda>decoded.
      if da_SampleCount a > MaxInt64 - ls_SampleCount row then Inl SampleCountOverflow
      else
        bindE (map_error (MergeTTFT index) (merge_sketches env (da_TTFTSketch a) (dr_TTFTSketch decoded))) (\<lambda>ttft.
        bindE (map_error (MergeLatency index) (merge_sketches env (da_LatencySketch a) (dr_LatencySketch decoded))) (\<lambda>latency.
        bindE (map_error (MergeSamples index) (merge_samples env (da_SamplePoints a) (dr_SamplePoints decoded))) (\<lambda>samples.
          Inr \<lparr>da_SampleCount = da_SampleCount a + ls_SampleCount row,
               da_MaxTTFTMS = max (da_MaxTTFTMS a) (ls_MaxTTFTMS row),
               da_MaxLatencyMS = max (da_MaxLatencyMS a) (ls_MaxLatencyMS row),
               da_TTFTSketch = ttft, da_LatencySketch = latency, da_SamplePoints = samples\<rparr>)))))"

definition MergeDiagnosticsRows :: "latency_env \<Rightarrow> UsageLatencyStat list \<Rightarrow> store_error + DiagnosticsAggregate" where
  "MergeDiagnosticsRows env rows =
     bindE (foldE (merge_diagnostics_row env) (enumerate 0 rows)
       \<lparr>da_SampleCount = 0, da_MaxTTFTMS = 0, da_MaxLatencyMS = 0, da_TTFTSketch = NewSketch, da_LatencySketch = NewSketch,
        da_SamplePoints = NewSampleSet\<rparr>)
       (\<lambda>a. if sk_count (da_TTFTSketch a) \<noteq> nat (da_SampleCount a) \<or> sk_count (da_LatencySketch a) \<noteq> nat (da_SampleCount a)
            then Inl (MergedCountMismatch (da_SampleCount a)) else Inr a)"

section \<open>Preparing and writing a page\<close>

definition collect_row ::
  "latency_env \<Rightarrow> zone \<Rightarrow> UsageLatencyStat \<Rightarrow> rowKey list \<times> (rowKey, UsageLatencyStat) gomap \<Rightarrow>
     store_error + rowKey list \<times> (rowKey, UsageLatencyStat) gomap" where
  "collect_row env z row km =
     (let (keys, m) = km; key = latencyRowKey z row in
      if mget m key \<noteq> None then Inl (DuplicateKey key)
      else bindE (map_error (DecodeIncoming key) (decodeLatencyRow env row)) (\<lambda>_. Inr (keys @ [key], mput m key row)))"

definition merge_key ::
  "latency_env \<Rightarrow> (rowKey, UsageLatencyStat) gomap \<Rightarrow> (rowKey, UsageLatencyStat) gomap \<Rightarrow> gtime \<Rightarrow> rowKey \<Rightarrow> UsageLatencyStat list \<Rightarrow>
     store_error + UsageLatencyStat list" where
  "merge_key env existingByKey rowByKey now key prepared =
     bindE (map_error (MergeRow key) (mergeLatencyRows env (mget existingByKey key) (the (mget rowByKey key)) now))
       (\<lambda>row. Inr (prepared @ [row]))"

function prepare_chunks ::
  "latency_env \<Rightarrow> (store_error \<Rightarrow> string) \<Rightarrow> zone \<Rightarrow> 's rollup_db \<Rightarrow> gtime \<Rightarrow> (rowKey, UsageLatencyStat) gomap \<Rightarrow> rowKey list \<Rightarrow>
     nat \<Rightarrow> UsageLatencyStat list \<Rightarrow> ('s, UsageLatencyStat list) sql" where
  "prepare_chunks env text z db now rowByKey keys start prepared =
     (if start < length keys then
        let stop = min (start + loadKeyBatchSize) (length keys);
            chunk = take (stop - start) (drop start keys)
        in and_then
             (wrapped (''load latency rows ['' @ decimal start @ '':'' @ decimal stop @ '']'')
               (reads (tb_list (ru_latency db) (\<lambda>row. latencyRowKey z row \<in> set chunk))))
             (\<lambda>found. let existingByKey = fold (\<lambda>row m. mput m (latencyRowKey z row) row) found [] in
                case foldE (merge_key env existingByKey rowByKey now) chunk prepared of
                  Inl e \<Rightarrow> fails (text e)
                | Inr rows \<Rightarrow> prepare_chunks env text z db now rowByKey keys (start + loadKeyBatchSize) rows)
      else gives prepared)"
  by pat_completeness auto
termination by (relation "measure (\<lambda>(env, text, z, db, now, rowByKey, keys, start, prepared). length keys - start)") auto

declare prepare_chunks.simps [simp del]

definition PrepareRows ::
  "latency_env \<Rightarrow> (store_error \<Rightarrow> string) \<Rightarrow> zone \<Rightarrow> 's rollup_db option \<Rightarrow> UsageLatencyStat list \<Rightarrow> gtime \<Rightarrow>
     ('s, UsageLatencyStat list) sql" where
  "PrepareRows env text z handle rows now =
     (case handle of
        None \<Rightarrow> fails ''database is nil''
      | Some db \<Rightarrow>
          if rows = [] then gives []
          else (case foldE (collect_row env z) rows ([], []) of
                  Inl e \<Rightarrow> fails (text e)
                | Inr (keys, rowByKey) \<Rightarrow> prepare_chunks env text z db now rowByKey keys 0 []))"

definition latency_updates :: "UsageLatencyStat \<Rightarrow> UsageLatencyStat \<Rightarrow> UsageLatencyStat" where
  "latency_updates row r =
     r\<lparr>ls_SampleCount := ls_SampleCount row, ls_MaxTTFTMS := ls_MaxTTFTMS row, ls_MaxLatencyMS := ls_MaxLatencyMS row,
       ls_FormatVersion := ls_FormatVersion row, ls_TTFTSketch := ls_TTFTSketch row, ls_LatencySketch := ls_LatencySketch row,
       ls_SamplePoints := ls_SamplePoints row, ls_UpdatedAt := ls_UpdatedAt row\<rparr>"

definition write_row :: "'s rollup_db \<Rightarrow> UsageLatencyStat \<Rightarrow> ('s, unit) sql" where
  "write_row db row =
     (if ls_ID row > 0 then
        and_then (wrapped (''update latency row '' @ int_text (ls_ID row))
            (State (tb_update (ru_latency db) (\<lambda>r. ls_ID r = ls_ID row) (latency_updates row))))
          (\<lambda>affected. if affected \<noteq> 1
             then fails (''update latency row '' @ int_text (ls_ID row) @ '' affected '' @ decimal affected @ '' rows'')
             else gives ())
      else wrapped ''insert latency row'' (State (tb_create (ru_latency db) row)))"

fun write_rows ::
  "latency_env \<Rightarrow> (store_error \<Rightarrow> string) \<Rightarrow> zone \<Rightarrow> 's rollup_db \<Rightarrow> rowKey list \<Rightarrow> UsageLatencyStat list \<Rightarrow> ('s, unit) sql" where
  "write_rows env text z db seen [] = gives ()"
| "write_rows env text z db seen (row # rows) =
     (let key = latencyRowKey z row in
      if key \<in> set seen then fails (text (DuplicateKey key))
      else (case decodeLatencyRow env row of
              Inl e \<Rightarrow> fails (text (DecodePrepared key e))
            | Inr _ \<Rightarrow> and_then (write_row db row) (\<lambda>_. write_rows env text z db (key # seen) rows)))"

definition WritePreparedRows ::
  "latency_env \<Rightarrow> (store_error \<Rightarrow> string) \<Rightarrow> zone \<Rightarrow> 's rollup_db option \<Rightarrow> UsageLatencyStat list \<Rightarrow> ('s, unit) sql" where
  "WritePreparedRows env text z handle rows =
     (case handle of None \<Rightarrow> fails ''database is nil'' | Some db \<Rightarrow> write_rows env text z db [] rows)"

definition latency_ApplyRows ::
  "latency_env \<Rightarrow> (store_error \<Rightarrow> string) \<Rightarrow> zone \<Rightarrow> 's rollup_db option \<Rightarrow> UsageLatencyStat list \<Rightarrow> gtime \<Rightarrow> ('s, unit) sql" where
  "latency_ApplyRows env text z handle rows now =
     and_then (PrepareRows env text z handle rows now) (WritePreparedRows env text z handle)"

end
