(* ===== verification/RollupPages.thy ===== *)
theory RollupPages
  imports LatencyStore
begin

text \<open>
  \<open>repository/usage_overview_stats.go\<close>, \<open>usage_activity_stats.go\<close> and \<open>usage_latency_stats.go\<close>: one page of events
  goes into the tables together with the checkpoint that says so, and the loops that repeat this until a page is not full.
\<close>

text \<open>What the functions take from outside: the zone, the orders of map iteration, and the texts of errors.\<close>

record rollup_env =
  re_zone :: zone
  re_overview_order :: "overview_map \<Rightarrow> overview_map"
  re_activity_order :: activity_order
  re_latency :: latency_env
  re_latency_order :: "builder_map \<Rightarrow> builder_map"
  re_store_text :: "store_error \<Rightarrow> string"
  re_activity_text :: "activity_error \<Rightarrow> string"
  re_latency_text :: "latency_error \<Rightarrow> string"

definition or_fail :: "('e \<Rightarrow> string) \<Rightarrow> 'e + 'a \<Rightarrow> ('s, 'a) sql" where
  "or_fail text r = (case r of Inl e \<Rightarrow> fails (text e) | Inr x \<Rightarrow> gives x)"

text \<open>
  \<open>for { processed, err := batch(); if err != nil { return err }; if processed < size { return nil } }\<close>, with fuel;
  \<open>None\<close> when that runs out.
\<close>

fun until_short_page :: "nat \<Rightarrow> nat \<Rightarrow> ('s, nat) sql \<Rightarrow> ('s, (string + unit) option) state" where
  "until_short_page 0 full batch = State_Monad.return None"
| "until_short_page (Suc fuel) full batch = do {
     res \<leftarrow> batch;
     case res of
       Inl err \<Rightarrow> State_Monad.return (Some (Inl err))
     | Inr processed \<Rightarrow> if processed < full then State_Monad.return (Some (Inr ())) else until_short_page fuel full batch }"

section \<open>Overview\<close>

abbreviation usageOverviewAggregationBatchSize :: nat where "usageOverviewAggregationBatchSize \<equiv> 1000"

definition ApplyUsageOverviewAggregationPage ::
  "rollup_env \<Rightarrow> 's rollup_db option \<Rightarrow> int \<Rightarrow> int \<Rightarrow> UsageOverviewStat list \<Rightarrow> UsageOverviewStat list \<Rightarrow> gtime \<Rightarrow> ('s, unit) sql" where
  "ApplyUsageOverviewAggregationPage env handle expectedCursor nextCursor hourly daily now =
     (case handle of
        None \<Rightarrow> fails ''database is nil''
      | Some db \<Rightarrow> transaction (ru_inbox db)
          (and_then (overview_ApplyRows (re_zone env) db hourly daily now) (\<lambda>_.
             AdvanceUsageAggregationCheckpoint handle UsageAggregationCheckpointOverview expectedCursor nextCursor now)))"

definition aggregateUsageOverviewStatsBatch ::
  "rollup_env \<Rightarrow> 's rollup_db option \<Rightarrow> gtime \<Rightarrow> int \<Rightarrow> ('s, nat) sql" where
  "aggregateUsageOverviewStatsBatch env handle now limit =
     and_then (LoadUsageAggregationTargetEventID handle) (\<lambda>targetEventID.
     and_then (LoadUsageAggregationCheckpointSnapshot handle) (\<lambda>snapshot.
     and_then (LoadUsageAggregationEventPage handle (sn_OverviewCursor snapshot) targetEventID limit) (\<lambda>events.
       if events = [] then gives 0
       else
         let (hourlyRows, dailyRows, maxEventID) = OverviewBuildRows (re_overview_order env) (re_zone env) events in
         and_then (ApplyUsageOverviewAggregationPage env handle (sn_OverviewCursor snapshot) maxEventID hourlyRows dailyRows now)
           (\<lambda>_. gives (length events)))))"

definition AggregateUsageOverviewStatsBatch :: "rollup_env \<Rightarrow> 's rollup_db option \<Rightarrow> gtime \<Rightarrow> ('s, nat) sql" where
  "AggregateUsageOverviewStatsBatch env handle now =
     (case handle of
        None \<Rightarrow> fails ''database is nil''
      | Some _ \<Rightarrow> aggregateUsageOverviewStatsBatch env handle now (int usageOverviewAggregationBatchSize))"

definition AggregateUsageOverviewStats ::
  "nat \<Rightarrow> rollup_env \<Rightarrow> 's rollup_db option \<Rightarrow> gtime \<Rightarrow> ('s, (string + unit) option) state" where
  "AggregateUsageOverviewStats fuel env handle now =
     (case handle of
        None \<Rightarrow> State_Monad.return (Some (Inl ''database is nil''))
      | Some _ \<Rightarrow> until_short_page fuel usageOverviewAggregationBatchSize (AggregateUsageOverviewStatsBatch env handle now))"

definition UsageOverviewAggregationCursor :: "'s rollup_db option \<Rightarrow> ('s, int) sql" where
  "UsageOverviewAggregationCursor handle =
     and_then (LoadUsageAggregationCheckpointSnapshot handle) (\<lambda>snapshot. gives (sn_OverviewCursor snapshot))"

definition pending_after ::
  "(UsageAggregationCheckpointSnapshot \<Rightarrow> int) \<Rightarrow> 's rollup_db option \<Rightarrow> ('s, bool) sql" where
  "pending_after cursor handle =
     and_then (LoadUsageAggregationTargetEventID handle) (\<lambda>targetEventID.
       if targetEventID = 0 then gives False
       else and_then (LoadUsageAggregationCheckpointSnapshot handle) (\<lambda>snapshot. gives (cursor snapshot < targetEventID)))"

definition HasPendingUsageOverviewAggregation :: "'s rollup_db option \<Rightarrow> ('s, bool) sql" where
  "HasPendingUsageOverviewAggregation = pending_after sn_OverviewCursor"

section \<open>Activity\<close>

abbreviation usageActivityAggregationBatchSize :: nat where "usageActivityAggregationBatchSize \<equiv> 1000"

definition ApplyUsageActivityAggregationPage ::
  "rollup_env \<Rightarrow> 's rollup_db option \<Rightarrow> int \<Rightarrow> int \<Rightarrow> UsageActivityStat list \<Rightarrow> gtime \<Rightarrow> ('s, unit) sql" where
  "ApplyUsageActivityAggregationPage env handle expectedCursor nextCursor rows now =
     (case handle of
        None \<Rightarrow> fails ''database is nil''
      | Some db \<Rightarrow> transaction (ru_inbox db)
          (and_then (activity_ApplyRows db rows now) (\<lambda>_.
             AdvanceUsageAggregationCheckpoint handle UsageAggregationCheckpointActivity expectedCursor nextCursor now)))"

definition AggregateUsageActivityStatsBatch :: "rollup_env \<Rightarrow> 's rollup_db option \<Rightarrow> gtime \<Rightarrow> ('s, nat) sql" where
  "AggregateUsageActivityStatsBatch env handle now =
     (case handle of
        None \<Rightarrow> fails ''database is nil''
      | Some _ \<Rightarrow>
          and_then (LoadUsageAggregationTargetEventID handle) (\<lambda>targetEventID.
          and_then (LoadUsageAggregationCheckpointSnapshot handle) (\<lambda>snapshot.
          and_then (LoadUsageAggregationEventPage handle (sn_ActivityCursor snapshot) targetEventID (int usageActivityAggregationBatchSize)) (\<lambda>events.
            if events = [] then gives 0
            else
              and_then (or_fail (re_activity_text env) (ActivityBuildRows (re_activity_order env) (re_zone env) events now)) (\<lambda>rows.
              and_then (ApplyUsageActivityAggregationPage env handle (sn_ActivityCursor snapshot) (ev_ID (last events)) rows now)
                (\<lambda>_. gives (length events)))))))"

definition AggregateUsageActivityStats ::
  "nat \<Rightarrow> rollup_env \<Rightarrow> 's rollup_db option \<Rightarrow> gtime \<Rightarrow> ('s, (string + unit) option) state" where
  "AggregateUsageActivityStats fuel env handle now =
     (case handle of
        None \<Rightarrow> State_Monad.return (Some (Inl ''database is nil''))
      | Some _ \<Rightarrow> until_short_page fuel usageActivityAggregationBatchSize (AggregateUsageActivityStatsBatch env handle now))"

definition HasPendingUsageActivityAggregation :: "'s rollup_db option \<Rightarrow> ('s, bool) sql" where
  "HasPendingUsageActivityAggregation = pending_after sn_ActivityCursor"

text \<open>The stored end is compared as text, in the sortable format.\<close>

definition cleanup_grain :: "'s rollup_db \<Rightarrow> gtime \<Rightarrow> UsageActivityGrain \<Rightarrow> ('s, unit) sql" where
  "cleanup_grain db now grain =
     (case Retention grain of
        None \<Rightarrow> gives ()
      | Some retention \<Rightarrow>
          let cutoff = t_add now (- retention) in
          wrapped (''cleanup usage activity '' @ grain_text grain @ '' stats'')
            (State (tb_delete (ru_activity db) (\<lambda>r. grain_text (as_Grain r) = grain_text grain \<and>
               FormatSortableStorageTime (as_BucketEnd r) < FormatSortableStorageTime cutoff))))"

definition CleanupUsageActivityStats :: "'s rollup_db option \<Rightarrow> gtime \<Rightarrow> ('s, unit) sql" where
  "CleanupUsageActivityStats handle now =
     (case handle of
        None \<Rightarrow> fails ''database is nil''
      | Some db \<Rightarrow> for_each (cleanup_grain db now)
          [UsageActivityGrainShort, UsageActivityGrainMedium, UsageActivityGrainLong])"

section \<open>Latency\<close>

abbreviation usageLatencyAggregationBatchSize :: nat where "usageLatencyAggregationBatchSize \<equiv> 1000"

text \<open>The stored rows are read and merged before the transaction begins.\<close>

definition ApplyUsageLatencyAggregationPage ::
  "rollup_env \<Rightarrow> 's rollup_db option \<Rightarrow> int \<Rightarrow> int \<Rightarrow> UsageLatencyStat list \<Rightarrow> gtime \<Rightarrow> ('s, unit) sql" where
  "ApplyUsageLatencyAggregationPage env handle expectedCursor nextCursor rows now =
     (case handle of
        None \<Rightarrow> fails ''database is nil''
      | Some db \<Rightarrow>
          and_then (PrepareRows (re_latency env) (re_store_text env) (re_zone env) handle rows now) (\<lambda>preparedRows.
            transaction (ru_inbox db)
              (and_then (WritePreparedRows (re_latency env) (re_store_text env) (re_zone env) handle preparedRows) (\<lambda>_.
                 AdvanceUsageAggregationCheckpoint handle UsageAggregationCheckpointLatency expectedCursor nextCursor now))))"

definition AggregateUsageLatencyStatsBatch :: "rollup_env \<Rightarrow> 's rollup_db option \<Rightarrow> gtime \<Rightarrow> ('s, nat) sql" where
  "AggregateUsageLatencyStatsBatch env handle now =
     (case handle of
        None \<Rightarrow> fails ''database is nil''
      | Some _ \<Rightarrow>
          and_then (LoadUsageAggregationTargetEventID handle) (\<lambda>targetEventID.
          and_then (LoadUsageAggregationCheckpointSnapshot handle) (\<lambda>snapshot.
          and_then (LoadUsageAggregationEventPage handle (sn_LatencyCursor snapshot) targetEventID (int usageLatencyAggregationBatchSize)) (\<lambda>events.
            if events = [] then gives 0
            else
              and_then (or_fail (re_latency_text env) (LatencyBuildRows (re_latency env) (re_latency_order env) (re_zone env) events now)) (\<lambda>rows.
              and_then (ApplyUsageLatencyAggregationPage env handle (sn_LatencyCursor snapshot) (ev_ID (last events)) rows now)
                (\<lambda>_. gives (length events)))))))"

definition AggregateUsageLatencyStats ::
  "nat \<Rightarrow> rollup_env \<Rightarrow> 's rollup_db option \<Rightarrow> gtime \<Rightarrow> ('s, (string + unit) option) state" where
  "AggregateUsageLatencyStats fuel env handle now =
     (case handle of
        None \<Rightarrow> State_Monad.return (Some (Inl ''database is nil''))
      | Some _ \<Rightarrow> until_short_page fuel usageLatencyAggregationBatchSize (AggregateUsageLatencyStatsBatch env handle now))"

text \<open>Here the stored start is compared in the local text.\<close>

definition cleanup_bucket_type ::
  "rollup_env \<Rightarrow> 's rollup_db \<Rightarrow> gtime \<Rightarrow> UsageLatencyBucketType \<Rightarrow> ('s, unit) sql" where
  "cleanup_bucket_type env db now bucketType =
     and_then (or_fail (re_latency_text env) (RetentionBucketStartCutoff (re_zone env) bucketType now)) (\<lambda>cutoff.
       wrapped (''cleanup usage latency '' @ bucketType @ '' stats'')
         (State (tb_delete (ru_latency db) (\<lambda>r. ls_BucketType r = bucketType \<and>
            FormatStorageTime (re_zone env) (ls_BucketStart r) < FormatStorageTime (re_zone env) cutoff))))"

definition CleanupUsageLatencyStats :: "rollup_env \<Rightarrow> 's rollup_db option \<Rightarrow> gtime \<Rightarrow> ('s, unit) sql" where
  "CleanupUsageLatencyStats env handle now =
     (case handle of
        None \<Rightarrow> fails ''database is nil''
      | Some db \<Rightarrow> for_each (cleanup_bucket_type env db now) [UsageLatencyBucketHour, UsageLatencyBucketDay])"

end
