(* ===== verification/RollupArchive.thy ===== *)
theory RollupArchive
  imports RollupPages
begin

text \<open>
  \<open>repository/usage_event_archive.go\<close> and the daily maintenance of \<open>repository/db.go\<close>: events older than ninety days
  move to a cold table, but only when every rollup has counted every event there is.
\<close>

type_synonym UsageEventArchiveStatus = string

abbreviation UsageEventArchiveStatusArchived :: UsageEventArchiveStatus where
  "UsageEventArchiveStatusArchived \<equiv> ''archived''"
abbreviation UsageEventArchiveStatusEmpty :: UsageEventArchiveStatus where
  "UsageEventArchiveStatusEmpty \<equiv> ''empty''"
abbreviation UsageEventArchiveStatusAggregationLagging :: UsageEventArchiveStatus where
  "UsageEventArchiveStatusAggregationLagging \<equiv> ''aggregation_lagging''"

record UsageEventArchiveResult =
  ar_Archived :: nat
  ar_Status :: UsageEventArchiveStatus

abbreviation usageEventArchiveBatchSize :: nat where "usageEventArchiveBatchSize \<equiv> sqliteVariableLimit"
abbreviation usageEventsRetentionDays :: int where "usageEventsRetentionDays \<equiv> 90"

definition usageEventsArchiveCutoff :: "zone \<Rightarrow> gtime \<Rightarrow> gtime" where
  "usageEventsArchiveCutoff z now = add_days z (midnight z (local_day z now)) (- usageEventsRetentionDays)"

text \<open>The map of the names that are ready; a missing name is not.\<close>

definition usageEventAggregationsCaughtUp :: "'s rollup_db \<Rightarrow> ('s, bool) sql" where
  "usageEventAggregationsCaughtUp db =
     and_then (wrapped ''load usage event archive watermark'' (reads (ru_target db))) (\<lambda>maxEventID.
       if maxEventID = 0 then gives True
       else
         and_then (wrapped ''load usage aggregation archive watermarks''
             (reads (tb_list (ru_checkpoints db) (\<lambda>c. cp_Name c \<in> set checkpoint_names)))) (\<lambda>checkpoints.
           let ready = fold (\<lambda>c m. mput m (cp_Name c) (cp_LastAggregatedUsageEventID c \<ge> maxEventID)) checkpoints [] in
           if \<exists>name \<in> set checkpoint_names. mget ready name \<noteq> Some True then gives False
           else
             and_then (wrapped ''check identity archive watermark'' (reads (ru_pending_identity db)))
               (\<lambda>pendingIdentity. gives (\<not> pendingIdentity))))"

definition move_events :: "'s rollup_db \<Rightarrow> int list \<Rightarrow> ('s, nat \<times> UsageEventArchiveStatus) sql" where
  "move_events db eventIDs =
     and_then (wrapped ''archive usage events'' (State (ru_archive db eventIDs))) (\<lambda>inserted.
     if inserted \<noteq> length eventIDs
     then fails (''archive usage events: expected '' @ decimal (length eventIDs) @ '' inserted rows, got '' @ decimal inserted)
     else
       and_then (wrapped ''verify archived usage events'' (reads (ru_archived db eventIDs))) (\<lambda>archivedCount.
       if archivedCount \<noteq> length eventIDs
       then fails (''verify archived usage events: expected '' @ decimal (length eventIDs) @ '' rows, got '' @ decimal archivedCount)
       else
         and_then (wrapped ''delete archived usage events from hot table'' (State (ru_delete_events db eventIDs))) (\<lambda>deleted.
         if deleted \<noteq> length eventIDs
         then fails (''delete archived usage events from hot table: expected '' @ decimal (length eventIDs) @ '' rows, got '' @ decimal deleted)
         else gives (length eventIDs, UsageEventArchiveStatusArchived))))"

definition archiveExpiredUsageEventsBatch ::
  "zone \<Rightarrow> 's rollup_db \<Rightarrow> gtime \<Rightarrow> ('s, nat \<times> UsageEventArchiveStatus) sql" where
  "archiveExpiredUsageEventsBatch z db now =
     transaction (ru_inbox db)
       (and_then (wrapped ''load usage events archive batch''
           (reads (ru_expired db (\<lambda>e. FormatStorageTime z (ev_Timestamp e) < FormatStorageTime z (usageEventsArchiveCutoff z now))
             usageEventArchiveBatchSize))) (\<lambda>ids.
         if ids = [] then gives (0, UsageEventArchiveStatusEmpty)
         else
           and_then (usageEventAggregationsCaughtUp db) (\<lambda>safe.
             if \<not> safe then gives (0, UsageEventArchiveStatusAggregationLagging)
             else move_events db ids)))"

text \<open>The loop, with fuel; \<open>ctx\<close> says whether the context has ended.  The result comes with an error, if there is one.\<close>

fun archive_rounds ::
  "nat \<Rightarrow> ('s \<Rightarrow> string option) \<Rightarrow> zone \<Rightarrow> 's rollup_db \<Rightarrow> gtime \<Rightarrow> UsageEventArchiveResult \<Rightarrow>
     ('s, (UsageEventArchiveResult \<times> string option) option) state" where
  "archive_rounds 0 ctx z db now result = State_Monad.return None"
| "archive_rounds (Suc fuel) ctx z db now result = do {
     ended \<leftarrow> reads ctx;
     case ended of
       Some err \<Rightarrow> State_Monad.return (Some (result, Some err))
     | None \<Rightarrow> do {
         res \<leftarrow> archiveExpiredUsageEventsBatch z db now;
         case res of
           Inl err \<Rightarrow> State_Monad.return (Some (result, Some err))
         | Inr (archived, status) \<Rightarrow>
             (let result = result\<lparr>ar_Archived := ar_Archived result + archived\<rparr> in
              if status = UsageEventArchiveStatusAggregationLagging
              then State_Monad.return (Some (result\<lparr>ar_Status := status\<rparr>, None))
              else if archived = 0 then State_Monad.return (Some (result, None))
              else archive_rounds fuel ctx z db now (result\<lparr>ar_Status := UsageEventArchiveStatusArchived\<rparr>)) } }"

definition ArchiveExpiredUsageEvents ::
  "nat \<Rightarrow> ('s \<Rightarrow> string option) \<Rightarrow> zone \<Rightarrow> 's rollup_db option \<Rightarrow> gtime \<Rightarrow>
     ('s, (UsageEventArchiveResult \<times> string option) option) state" where
  "ArchiveExpiredUsageEvents fuel ctx z handle now =
     (case handle of
        None \<Rightarrow> State_Monad.return (Some (\<lparr>ar_Archived = 0, ar_Status = []\<rparr>, Some ''database is nil''))
      | Some db \<Rightarrow> archive_rounds fuel ctx z db now \<lparr>ar_Archived = 0, ar_Status = UsageEventArchiveStatusEmpty\<rparr>)"

section \<open>Daily maintenance\<close>

text \<open>
  \<open>CleanupStorage\<close> stops at the first error; the result is what has been done by then.  Compacting the database file at
  the end is a parameter.
\<close>

record 'v StorageCleanupResult =
  sc_RedisInbox :: RedisUsageInboxCleanupResult
  sc_UsageEventsArchived :: nat
  sc_UsageEventsArchiveStatus :: UsageEventArchiveStatus
  sc_Vacuum :: "'v option"

definition CleanupStorage ::
  "nat \<Rightarrow> ('s \<Rightarrow> string option) \<Rightarrow> rollup_env \<Rightarrow> ('s \<Rightarrow> ('v option \<times> string option) \<times> 's) \<Rightarrow> 's rollup_db \<Rightarrow> gtime \<Rightarrow>
     ('s, ('v StorageCleanupResult \<times> string option) option) state" where
  "CleanupStorage fuel ctx env maybeVacuumStorage db now = do {
     (redisResult, inboxErr) \<leftarrow> CleanupRedisUsageInbox (ru_inbox db) (re_zone env) now;
     let result = \<lparr>sc_RedisInbox = redisResult, sc_UsageEventsArchived = 0, sc_UsageEventsArchiveStatus = [], sc_Vacuum = None\<rparr>;
     case inboxErr of
       Some err \<Rightarrow> State_Monad.return (Some (result, Some err))
     | None \<Rightarrow> do {
         outcome \<leftarrow> ArchiveExpiredUsageEvents fuel ctx (re_zone env) (Some db) now;
         case outcome of
           None \<Rightarrow> State_Monad.return None
         | Some (archive, archiveErr) \<Rightarrow>
             (let result = result\<lparr>sc_UsageEventsArchived := ar_Archived archive, sc_UsageEventsArchiveStatus := ar_Status archive\<rparr> in
              case archiveErr of
                Some err \<Rightarrow> State_Monad.return (Some (result, Some err))
              | None \<Rightarrow> do {
                  activity \<leftarrow> CleanupUsageActivityStats (Some db) now;
                  case activity of
                    Inl err \<Rightarrow> State_Monad.return (Some (result, Some err))
                  | Inr _ \<Rightarrow> do {
                      latency \<leftarrow> CleanupUsageLatencyStats env (Some db) now;
                      case latency of
                        Inl err \<Rightarrow> State_Monad.return (Some (result, Some err))
                      | Inr _ \<Rightarrow> do {
                          (vacuum, vacuumErr) \<leftarrow> State maybeVacuumStorage;
                          State_Monad.return (Some (result\<lparr>sc_Vacuum := vacuum\<rparr>, vacuumErr)) } } }) } }"

end
