(* ===== verification/IdentityStats.thy ===== *)
theory IdentityStats
  imports RollupStore
begin

text \<open>
  \<open>repository/usage_identities.go\<close>: the totals kept with each credential.  Every row has its own cursor; a pass over the
  table takes pages of 25 rows, each in a transaction of its own.
\<close>

section \<open>Rows and statements\<close>

text \<open>The columns the aggregation reads and writes.\<close>

record IdentityTotals =
  it_ID :: int
  it_AuthType :: int
  it_Identity :: string
  it_TotalRequests :: int
  it_SuccessCount :: int
  it_FailureCount :: int
  it_InputTokens :: int
  it_OutputTokens :: int
  it_ReasoningTokens :: int
  it_CachedTokens :: int
  it_CacheReadTokens :: int
  it_TotalTokens :: int
  it_LastAggregatedUsageEventID :: int
  it_FirstUsedAt :: "gtime option"
  it_LastUsedAt :: "gtime option"
  it_StatsUpdatedAt :: "gtime option"

text \<open>
  The statements: a page of rows behind an id in ascending order, the events a condition selects (of which the SQL takes the
  sums), the time of the first of them in ascending or descending order, and the update of the row with an id.
\<close>

record 's identity_db =
  id_inbox :: "'s inbox_db"
  id_page :: "int \<Rightarrow> nat \<Rightarrow> 's \<Rightarrow> string + IdentityTotals list"
  id_events :: "(UsageEvent \<Rightarrow> bool) \<Rightarrow> 's \<Rightarrow> string + UsageEvent list"
  id_first :: "bool \<Rightarrow> (UsageEvent \<Rightarrow> bool) \<Rightarrow> 's \<Rightarrow> string + gtime"
  id_update :: "int \<Rightarrow> (IdentityTotals \<Rightarrow> IdentityTotals) \<Rightarrow> 's \<Rightarrow> (string + unit) \<times> 's"

record UsageIdentityStatsDelta =
  sd_TotalRequests :: int
  sd_SuccessCount :: int
  sd_FailureCount :: int
  sd_InputTokens :: int
  sd_OutputTokens :: int
  sd_ReasoningTokens :: int
  sd_CachedTokens :: int
  sd_CacheReadTokens :: int
  sd_TotalTokens :: int
  sd_FirstUsedAt :: "gtime option"
  sd_LastUsedAt :: "gtime option"
  sd_MaxUsageEventID :: int

record UsageIdentityAggregationBatchResult =
  ub_ProcessedIdentities :: nat
  ub_LastIdentityID :: int
  ub_ReachedEnd :: bool

abbreviation UsageIdentityAggregationBatchSize :: nat where "UsageIdentityAggregationBatchSize \<equiv> 25"

section \<open>The events of a credential\<close>

text \<open>\<open>None\<close>: the kind of credential has no events.\<close>

definition usageIdentityEventsQuery :: "IdentityTotals \<Rightarrow> (UsageEvent \<Rightarrow> bool) option" where
  "usageIdentityEventsQuery identity =
     (if it_AuthType identity = UsageIdentityAuthTypeAuthFile
      then Some (\<lambda>e. ev_AuthType e = ''oauth'' \<and> ev_AuthIndex e = it_Identity identity)
      else if it_AuthType identity = UsageIdentityAuthTypeAIProvider
      then Some (\<lambda>e. ev_AuthType e = ''apikey'' \<and> ev_AuthIndex e = it_Identity identity)
      else None)"

definition no_delta :: UsageIdentityStatsDelta where
  "no_delta = \<lparr>sd_TotalRequests = 0, sd_SuccessCount = 0, sd_FailureCount = 0, sd_InputTokens = 0, sd_OutputTokens = 0,
     sd_ReasoningTokens = 0, sd_CachedTokens = 0, sd_CacheReadTokens = 0, sd_TotalTokens = 0, sd_FirstUsedAt = None,
     sd_LastUsedAt = None, sd_MaxUsageEventID = 0\<rparr>"

definition delta_of_events :: "UsageEvent list \<Rightarrow> UsageIdentityStatsDelta" where
  "delta_of_events es =
     no_delta\<lparr>sd_TotalRequests := int (length es), sd_SuccessCount := (\<Sum>e\<leftarrow>es. if ev_Failed e then 0 else 1),
       sd_FailureCount := (\<Sum>e\<leftarrow>es. if ev_Failed e then 1 else 0), sd_InputTokens := sum_list (map ev_InputTokens es),
       sd_OutputTokens := sum_list (map ev_OutputTokens es), sd_ReasoningTokens := sum_list (map ev_ReasoningTokens es),
       sd_CachedTokens := sum_list (map ev_CachedTokens es), sd_CacheReadTokens := sum_list (map ev_CacheReadTokens es),
       sd_TotalTokens := sum_list (map ev_TotalTokens es), sd_MaxUsageEventID := fold max (map ev_ID es) 0\<rparr>"

definition aggregateUsageIdentityDelta :: "'s identity_db \<Rightarrow> IdentityTotals \<Rightarrow> ('s, UsageIdentityStatsDelta) sql" where
  "aggregateUsageIdentityDelta db identity =
     (case usageIdentityEventsQuery identity of
        None \<Rightarrow> gives no_delta
      | Some belongs \<Rightarrow>
          let newer = (\<lambda>e. belongs e \<and> ev_ID e > it_LastAggregatedUsageEventID identity) in
          and_then (wrapped (''aggregate usage identity stats for '' @ quoted (it_Identity identity)) (reads (id_events db newer))) (\<lambda>es.
            let delta = delta_of_events es in
            if sd_TotalRequests delta = 0 then gives delta
            else
              and_then (wrapped (''find first usage identity event for '' @ quoted (it_Identity identity)) (reads (id_first db False newer))) (\<lambda>firstUsedAt.
              and_then (wrapped (''find last usage identity event for '' @ quoted (it_Identity identity)) (reads (id_first db True newer))) (\<lambda>lastUsedAt.
                gives (delta\<lparr>sd_FirstUsedAt := Some firstUsedAt, sd_LastUsedAt := Some lastUsedAt\<rparr>)))))"

section \<open>Pages\<close>

definition first_used :: "gtime option \<Rightarrow> gtime option \<Rightarrow> gtime option" where
  "first_used known found =
     (case found of None \<Rightarrow> known | Some t \<Rightarrow> (case known of None \<Rightarrow> Some t | Some u \<Rightarrow> if t < u then Some t else Some u))"

definition last_used :: "gtime option \<Rightarrow> gtime option \<Rightarrow> gtime option" where
  "last_used known found =
     (case found of None \<Rightarrow> known | Some t \<Rightarrow> (case known of None \<Rightarrow> Some t | Some u \<Rightarrow> if t > u then Some t else Some u))"

text \<open>The new totals are computed from the row as it was read, in 64 bits.\<close>

definition identity_updates :: "IdentityTotals \<Rightarrow> UsageIdentityStatsDelta \<Rightarrow> gtime \<Rightarrow> IdentityTotals \<Rightarrow> IdentityTotals" where
  "identity_updates identity delta now r =
     r\<lparr>it_TotalRequests := wrap64 (it_TotalRequests identity + sd_TotalRequests delta),
       it_SuccessCount := wrap64 (it_SuccessCount identity + sd_SuccessCount delta),
       it_FailureCount := wrap64 (it_FailureCount identity + sd_FailureCount delta),
       it_InputTokens := wrap64 (it_InputTokens identity + sd_InputTokens delta),
       it_OutputTokens := wrap64 (it_OutputTokens identity + sd_OutputTokens delta),
       it_ReasoningTokens := wrap64 (it_ReasoningTokens identity + sd_ReasoningTokens delta),
       it_CachedTokens := wrap64 (it_CachedTokens identity + sd_CachedTokens delta),
       it_CacheReadTokens := wrap64 (it_CacheReadTokens identity + sd_CacheReadTokens delta),
       it_TotalTokens := wrap64 (it_TotalTokens identity + sd_TotalTokens delta),
       it_FirstUsedAt := first_used (it_FirstUsedAt identity) (sd_FirstUsedAt delta),
       it_LastUsedAt := last_used (it_LastUsedAt identity) (sd_LastUsedAt delta),
       it_StatsUpdatedAt := Some now, it_LastAggregatedUsageEventID := sd_MaxUsageEventID delta\<rparr>"

definition aggregate_identity_row :: "'s identity_db \<Rightarrow> gtime \<Rightarrow> IdentityTotals \<Rightarrow> ('s, nat) sql" where
  "aggregate_identity_row db now identity =
     and_then (aggregateUsageIdentityDelta db identity) (\<lambda>delta.
       if sd_TotalRequests delta = 0 then gives 0
       else and_then (wrapped (''update usage identity stats for '' @ quoted (it_Identity identity))
           (State (id_update db (it_ID identity) (identity_updates identity delta now)))) (\<lambda>_. gives 1))"

fun aggregateUsageIdentityRows :: "'s identity_db \<Rightarrow> gtime \<Rightarrow> IdentityTotals list \<Rightarrow> ('s, nat) sql" where
  "aggregateUsageIdentityRows db now [] = gives 0"
| "aggregateUsageIdentityRows db now (identity # rows) =
     and_then (aggregate_identity_row db now identity) (\<lambda>k.
     and_then (aggregateUsageIdentityRows db now rows) (\<lambda>n. gives (k + n)))"

definition AggregateUsageIdentityStatsBatch ::
  "'s identity_db option \<Rightarrow> gtime \<Rightarrow> int \<Rightarrow> ('s, UsageIdentityAggregationBatchResult) sql" where
  "AggregateUsageIdentityStatsBatch handle now afterIdentityID =
     (case handle of
        None \<Rightarrow> fails ''database is nil''
      | Some db \<Rightarrow>
          if afterIdentityID < 0 then fails ''usage identity aggregation cursor is negative''
          else transaction (id_inbox db)
            (and_then (wrapped ''list usage identities for aggregation batch''
                (reads (id_page db afterIdentityID UsageIdentityAggregationBatchSize))) (\<lambda>page.
               if page = [] then gives \<lparr>ub_ProcessedIdentities = 0, ub_LastIdentityID = afterIdentityID, ub_ReachedEnd = True\<rparr>
               else and_then (aggregateUsageIdentityRows db now page) (\<lambda>processed.
                 gives \<lparr>ub_ProcessedIdentities = processed, ub_LastIdentityID = it_ID (last page),
                   ub_ReachedEnd = length page < UsageIdentityAggregationBatchSize\<rparr>))))"

text \<open>The loop over all pages, with fuel.\<close>

fun identity_pages :: "nat \<Rightarrow> 's identity_db \<Rightarrow> gtime \<Rightarrow> int \<Rightarrow> ('s, (string + unit) option) state" where
  "identity_pages 0 db now afterIdentityID = State_Monad.return None"
| "identity_pages (Suc fuel) db now afterIdentityID = do {
     res \<leftarrow> AggregateUsageIdentityStatsBatch (Some db) now afterIdentityID;
     case res of
       Inl err \<Rightarrow> State_Monad.return (Some (Inl err))
     | Inr result \<Rightarrow>
         if ub_ReachedEnd result then State_Monad.return (Some (Inr ()))
         else identity_pages fuel db now (ub_LastIdentityID result) }"

definition AggregateUsageIdentityStats :: "nat \<Rightarrow> 's identity_db option \<Rightarrow> gtime \<Rightarrow> ('s, (string + unit) option) state" where
  "AggregateUsageIdentityStats fuel handle now =
     (case handle of
        None \<Rightarrow> State_Monad.return (Some (Inl ''database is nil''))
      | Some db \<Rightarrow> identity_pages fuel db now 0)"

end
