(* ===== verification/AggregationRunner.thy ===== *)
theory AggregationRunner
  imports RollupArchive IdentityStats
begin

text \<open>
  \<open>poller/usage_aggregation_runner.go\<close>: the task that decides when the rollups and the totals of credentials are brought up to
  date.  Commits of events only raise a target in memory; after a short window the target is frozen and the rollups are
  taken to it page by page, in turns with the credentials, giving way to the inbox.
\<close>

section \<open>The runner\<close>

type_synonym UsageAggregationKind = string

abbreviation UsageAggregationKindRollups :: UsageAggregationKind where "UsageAggregationKindRollups \<equiv> ''rollups''"
abbreviation UsageAggregationKindIdentity :: UsageAggregationKind where "UsageAggregationKindIdentity \<equiv> ''identity''"

abbreviation usageAggregationDefaultDebounceInterval :: duration where "usageAggregationDefaultDebounceInterval \<equiv> 5 * Second"
abbreviation usageAggregationInboxRetryInterval :: duration where "usageAggregationInboxRetryInterval \<equiv> 100000000"
abbreviation usageAggregationErrorBackoffInitial :: duration where "usageAggregationErrorBackoffInitial \<equiv> 100000000"
abbreviation usageAggregationErrorBackoffMax :: duration where "usageAggregationErrorBackoffMax \<equiv> 2 * Second"
abbreviation usageAggregationEventPageSize :: int where "usageAggregationEventPageSize \<equiv> 1000"

record UsageAggregationRunResult =
  rr_Kind :: UsageAggregationKind
  rr_Processed :: bool
  rr_DeferredForInbox :: bool

text \<open>The fields \<open>mu\<close> guards, and whether the channel \<open>wake\<close> holds a signal.  Generations are \<open>uint64\<close>.\<close>

record aggregation_runner =
  ag_debounceInterval :: duration
  ag_nextKind :: UsageAggregationKind
  ag_startupTargetLoaded :: bool
  ag_activeRound :: bool
  ag_activeTargetEventID :: int
  ag_rollupsReachedTarget :: bool
  ag_pendingTargetEventID :: int
  ag_identityAfterID :: int
  ag_identityTargetGeneration :: int
  ag_identityScanGeneration :: int
  ag_wake :: bool

definition NewUsageAggregationRunnerWithOptions :: "duration \<Rightarrow> aggregation_runner" where
  "NewUsageAggregationRunnerWithOptions debounceInterval =
     \<lparr>ag_debounceInterval = (if debounceInterval \<le> 0 then usageAggregationDefaultDebounceInterval else debounceInterval),
      ag_nextKind = UsageAggregationKindRollups, ag_startupTargetLoaded = False, ag_activeRound = False,
      ag_activeTargetEventID = 0, ag_rollupsReachedTarget = False, ag_pendingTargetEventID = 0, ag_identityAfterID = 0,
      ag_identityTargetGeneration = 1, ag_identityScanGeneration = 0, ag_wake = False\<rparr>"

section \<open>Notifications\<close>

definition signalWake :: "aggregation_runner \<Rightarrow> aggregation_runner" where
  "signalWake r = r\<lparr>ag_wake := True\<rparr>"

definition next_generation :: "int \<Rightarrow> int" where
  "next_generation g = (g + 1) mod 2 ^ 64"

definition NotifyUsageEventsCommitted :: "UsageEvent list \<Rightarrow> aggregation_runner \<Rightarrow> aggregation_runner" where
  "NotifyUsageEventsCommitted events r =
     (let maxEventID = fold (\<lambda>e m. if ev_ID e > m then ev_ID e else m) events 0 in
      if maxEventID \<le> 0 then r
      else
        let r = (if maxEventID > ag_pendingTargetEventID r then r\<lparr>ag_pendingTargetEventID := maxEventID\<rparr> else r)
        in signalWake (r\<lparr>ag_identityTargetGeneration := next_generation (ag_identityTargetGeneration r)\<rparr>))"

definition NotifyUsageIdentitiesChanged :: "aggregation_runner \<Rightarrow> aggregation_runner" where
  "NotifyUsageIdentitiesChanged r = signalWake (r\<lparr>ag_identityTargetGeneration := next_generation (ag_identityTargetGeneration r)\<rparr>)"

section \<open>Targets\<close>

text \<open>The part of \<open>ensureStartupTarget\<close> after the query.\<close>

definition set_startup_target :: "int \<Rightarrow> aggregation_runner \<Rightarrow> aggregation_runner" where
  "set_startup_target targetEventID r =
     (if ag_startupTargetLoaded r then r
      else
        let r = r\<lparr>ag_startupTargetLoaded := True, ag_activeRound := True, ag_activeTargetEventID := targetEventID,
                  ag_rollupsReachedTarget := (targetEventID = 0)\<rparr>
        in if ag_pendingTargetEventID r \<le> targetEventID then r\<lparr>ag_pendingTargetEventID := 0\<rparr> else r)"

definition freezePendingTarget :: "aggregation_runner \<Rightarrow> aggregation_runner" where
  "freezePendingTarget r =
     (if ag_pendingTargetEventID r \<le> 0 then r
      else if ag_activeRound r \<and> ag_pendingTargetEventID r \<le> ag_activeTargetEventID r then r\<lparr>ag_pendingTargetEventID := 0\<rparr>
      else r\<lparr>ag_activeRound := True, ag_activeTargetEventID := ag_pendingTargetEventID r, ag_pendingTargetEventID := 0,
             ag_rollupsReachedTarget := False\<rparr>)"

definition identityWorkPendingLocked :: "aggregation_runner \<Rightarrow> bool" where
  "identityWorkPendingLocked r \<longleftrightarrow> ag_identityAfterID r \<noteq> 0 \<or> ag_identityScanGeneration r < ag_identityTargetGeneration r"

definition hasRunnableWorkLocked :: "aggregation_runner \<Rightarrow> bool" where
  "hasRunnableWorkLocked r \<longleftrightarrow> ag_activeRound r \<or> identityWorkPendingLocked r"

definition nextRunnableKindLocked :: "aggregation_runner \<Rightarrow> UsageAggregationKind \<times> bool" where
  "nextRunnableKindLocked r =
     (if ag_activeRound r \<and> identityWorkPendingLocked r then (ag_nextKind r, True)
      else if ag_activeRound r then (UsageAggregationKindRollups, True)
      else if identityWorkPendingLocked r then (UsageAggregationKindIdentity, True)
      else (ag_nextKind r, False))"

definition completeRollupRoundIfReadyLocked :: "aggregation_runner \<Rightarrow> aggregation_runner" where
  "completeRollupRoundIfReadyLocked r =
     (if \<not> ag_activeRound r \<or> \<not> ag_rollupsReachedTarget r then r
      else
        let completedTarget = ag_activeTargetEventID r;
            r = r\<lparr>ag_activeRound := False, ag_activeTargetEventID := 0, ag_rollupsReachedTarget := False\<rparr>
        in if ag_pendingTargetEventID r \<le> completedTarget then r\<lparr>ag_pendingTargetEventID := 0\<rparr> else r)"

definition advanceAfterFailure :: "UsageAggregationKind \<Rightarrow> aggregation_runner \<Rightarrow> aggregation_runner" where
  "advanceAfterFailure kind r =
     (if kind = UsageAggregationKindRollups then r\<lparr>ag_nextKind := UsageAggregationKindIdentity\<rparr>
      else if kind = UsageAggregationKindIdentity then r\<lparr>ag_nextKind := UsageAggregationKindRollups\<rparr>
      else r)"

section \<open>Work that others may come between\<close>

text \<open>
  The work of a turn is no single step: between its statements and transactions other tasks can write.  A program is either
  over, or has a next access of the database, or a look at the clock, that happens at once.
\<close>

datatype ('s, 'a) prog = Finished 'a | Atomic "gtime \<Rightarrow> 's \<Rightarrow> ('s, 'a) prog \<times> 's"

primrec bindP :: "('s, 'a) prog \<Rightarrow> ('a \<Rightarrow> ('s, 'b) prog) \<Rightarrow> ('s, 'b) prog" where
  "bindP (Finished x) = (\<lambda>k. k x)"
| "bindP (Atomic f) = (\<lambda>k. Atomic (\<lambda>now s. case map_prod bindP id (f now s) of (p, t) \<Rightarrow> (p k, t)))"

definition atomically :: "('s, 'a) state \<Rightarrow> ('s, 'a) prog" where
  "atomically c = Atomic (\<lambda>now s. case run_state c s of (x, t) \<Rightarrow> (Finished x, t))"

definition clock :: "('s, gtime) prog" where
  "clock = Atomic (\<lambda>now s. (Finished now, s))"

text \<open>A program that runs alone, with the clock standing still.\<close>

primrec run_prog :: "('s, 'a) prog \<Rightarrow> gtime \<Rightarrow> 's \<Rightarrow> 'a \<times> 's" where
  "run_prog (Finished x) = (\<lambda>now s. (x, s))"
| "run_prog (Atomic f) = (\<lambda>now s. case map_prod run_prog id (f now s) of (p, t) \<Rightarrow> p now t)"

section \<open>A turn of the rollups\<close>

text \<open>\<open>errors.Join\<close>.\<close>

definition errors_Join :: "string list \<Rightarrow> string option" where
  "errors_Join errs = (if errs = [] then None else Some (concat (butlast (map (\<lambda>e. e @ ''\<newline>'') errs)) @ last errs))"

text \<open>What a turn returns: whether a page was processed, whether it gave way, whether the target was reached, an error.\<close>

type_synonym turn_result = "bool \<times> bool \<times> bool \<times> string option"

definition deferForInbox :: "'s rollup_db \<Rightarrow> ('s, bool) sql" where
  "deferForInbox db = HasProcessableRedisUsageInbox (Some (ru_inbox db))"

text \<open>Before each write the inbox is looked at; an error or a waiting message ends the turn.\<close>

definition unless_deferred :: "'s rollup_db \<Rightarrow> bool \<Rightarrow> string list \<Rightarrow> ('s, turn_result) prog \<Rightarrow> ('s, turn_result) prog" where
  "unless_deferred db processed pageErrors k =
     bindP (atomically (deferForInbox db)) (\<lambda>res. case res of
       Inl err \<Rightarrow> Finished (processed, False, False, errors_Join (pageErrors @ [err]))
     | Inr deferred \<Rightarrow> if deferred then Finished (processed, True, False, errors_Join pageErrors) else k)"

text \<open>One page of each rollup: the last id it reaches and the transaction that applies it, or why it cannot be built.\<close>

definition overview_page :: "rollup_env \<Rightarrow> 's rollup_db \<Rightarrow> int \<Rightarrow> gtime \<Rightarrow> UsageEvent list \<Rightarrow> string + int \<times> ('s, unit) sql" where
  "overview_page env db cursor now events =
     (let (hourly, daily, nextCursor) = OverviewBuildRows (re_overview_order env) (re_zone env) events in
      Inr (nextCursor, ApplyUsageOverviewAggregationPage env (Some db) cursor nextCursor hourly daily now))"

definition activity_page :: "rollup_env \<Rightarrow> 's rollup_db \<Rightarrow> int \<Rightarrow> int \<Rightarrow> gtime \<Rightarrow> UsageEvent list \<Rightarrow> string + int \<times> ('s, unit) sql" where
  "activity_page env db cursor nextCursor now events =
     (case ActivityBuildRows (re_activity_order env) (re_zone env) events now of
        Inl err \<Rightarrow> Inl (re_activity_text env err)
      | Inr rows \<Rightarrow> Inr (nextCursor, ApplyUsageActivityAggregationPage env (Some db) cursor nextCursor rows now))"

definition latency_page :: "rollup_env \<Rightarrow> 's rollup_db \<Rightarrow> int \<Rightarrow> int \<Rightarrow> gtime \<Rightarrow> UsageEvent list \<Rightarrow> string + int \<times> ('s, unit) sql" where
  "latency_page env db cursor nextCursor now events =
     (case LatencyBuildRows (re_latency env) (re_latency_order env) (re_zone env) events now of
        Inl err \<Rightarrow> Inl (re_latency_text env err)
      | Inr rows \<Rightarrow> Inr (nextCursor, ApplyUsageLatencyAggregationPage env (Some db) cursor nextCursor rows now))"

definition apply_page :: "string + int \<times> ('s, unit) sql \<Rightarrow> bool \<Rightarrow> string list \<Rightarrow> ('s, bool \<times> string list) prog" where
  "apply_page page processed pageErrors =
     (case page of
        Inl err \<Rightarrow> Finished (processed, pageErrors @ [err])
      | Inr (nextCursor, apply_rows) \<Rightarrow> bindP (atomically apply_rows) (\<lambda>res. case res of
            Inl err \<Rightarrow> Finished (processed, pageErrors @ [err])
          | Inr _ \<Rightarrow> Finished (True, pageErrors)))"

text \<open>All three cursors stand at the same place: one page of events serves the three.\<close>

definition apply_shared_page ::
  "rollup_env \<Rightarrow> 's rollup_db \<Rightarrow> int \<Rightarrow> int \<Rightarrow> gtime \<Rightarrow> UsageEvent list \<Rightarrow> ('s, turn_result) prog" where
  "apply_shared_page env db cursor targetEventID now events =
     (let (hourly, daily, nextCursor) = OverviewBuildRows (re_overview_order env) (re_zone env) events in
      unless_deferred db False [] (
        bindP (apply_page (overview_page env db cursor now events) False []) (\<lambda>(processed, pageErrors).
        unless_deferred db processed pageErrors (
          bindP (apply_page (activity_page env db cursor nextCursor now events) processed pageErrors) (\<lambda>(processed, pageErrors).
          unless_deferred db processed pageErrors (
            bindP (apply_page (latency_page env db cursor nextCursor now events) processed pageErrors) (\<lambda>(processed, pageErrors).
            Finished (case errors_Join pageErrors of
                Some err \<Rightarrow> (processed, False, False, Some err)
              | None \<Rightarrow> (processed, False, nextCursor \<ge> targetEventID, None)))))))))"

definition runSharedRollupsPage :: "rollup_env \<Rightarrow> 's rollup_db \<Rightarrow> int \<Rightarrow> int \<Rightarrow> gtime \<Rightarrow> ('s, turn_result) prog" where
  "runSharedRollupsPage env db cursor targetEventID now =
     bindP (atomically (LoadUsageAggregationEventPage (Some db) cursor targetEventID usageAggregationEventPageSize)) (\<lambda>res. case res of
       Inl err \<Rightarrow> Finished (False, False, False, Some err)
     | Inr events \<Rightarrow>
         if events = []
         then Finished (False, False, False, Some (''shared usage aggregation page is empty before target '' @
           int_text targetEventID @ '' from cursor '' @ int_text cursor))
         else apply_shared_page env db cursor targetEventID now events)"

text \<open>A rollup that is behind has its own page; \<open>k\<close> goes on with the cursor this one has reached.\<close>

definition fallback_page ::
  "'s rollup_db \<Rightarrow> string \<Rightarrow> int \<Rightarrow> int \<Rightarrow> (UsageEvent list \<Rightarrow> string + int \<times> ('s, unit) sql) \<Rightarrow> bool \<Rightarrow> string list \<Rightarrow>
     (bool \<Rightarrow> string list \<Rightarrow> int \<Rightarrow> ('s, turn_result) prog) \<Rightarrow> ('s, turn_result) prog" where
  "fallback_page db name cursor targetEventID build processed pageErrors k =
     (if cursor < targetEventID then
        bindP (atomically (LoadUsageAggregationEventPage (Some db) cursor targetEventID usageAggregationEventPageSize)) (\<lambda>res. case res of
          Inl err \<Rightarrow> k processed (pageErrors @ [err]) cursor
        | Inr events \<Rightarrow>
            if events = [] then k processed (pageErrors @ [name @ '' fallback page is empty before target '' @ int_text targetEventID]) cursor
            else (case build events of
                Inl buildErr \<Rightarrow> k processed (pageErrors @ [buildErr]) cursor
              | Inr (nextCursor, apply_rows) \<Rightarrow> unless_deferred db processed pageErrors (
                  bindP (atomically apply_rows) (\<lambda>applied. case applied of
                    Inl applyErr \<Rightarrow> k processed (pageErrors @ [applyErr]) cursor
                  | Inr _ \<Rightarrow> k True pageErrors nextCursor))))
      else k processed pageErrors cursor)"

definition runFallbackRollupsPages ::
  "rollup_env \<Rightarrow> 's rollup_db \<Rightarrow> UsageAggregationCheckpointSnapshot \<Rightarrow> int \<Rightarrow> gtime \<Rightarrow> ('s, turn_result) prog" where
  "runFallbackRollupsPages env db snapshot targetEventID now =
     fallback_page db ''overview'' (sn_OverviewCursor snapshot) targetEventID (overview_page env db (sn_OverviewCursor snapshot) now) False []
       (\<lambda>processed pageErrors overviewCursor.
     fallback_page db ''activity'' (sn_ActivityCursor snapshot) targetEventID
       (\<lambda>events. activity_page env db (sn_ActivityCursor snapshot) (ev_ID (last events)) now events) processed pageErrors
       (\<lambda>processed pageErrors activityCursor.
     fallback_page db ''latency'' (sn_LatencyCursor snapshot) targetEventID
       (\<lambda>events. latency_page env db (sn_LatencyCursor snapshot) (ev_ID (last events)) now events) processed pageErrors
       (\<lambda>processed pageErrors latencyCursor.
          Finished (processed, False,
            overviewCursor \<ge> targetEventID \<and> activityCursor \<ge> targetEventID \<and> latencyCursor \<ge> targetEventID,
            errors_Join pageErrors))))"

definition runRollupsTurn :: "rollup_env \<Rightarrow> 's rollup_db \<Rightarrow> bool \<Rightarrow> int \<Rightarrow> gtime \<Rightarrow> ('s, turn_result) prog" where
  "runRollupsTurn env db activeRound targetEventID now =
     (if \<not> activeRound then Finished (False, False, True, None)
      else bindP (atomically (LoadUsageAggregationCheckpointSnapshot (Some db))) (\<lambda>res. case res of
          Inl err \<Rightarrow> Finished (False, False, False, Some err)
        | Inr snapshot \<Rightarrow>
            if sn_OverviewCursor snapshot \<ge> targetEventID \<and> sn_ActivityCursor snapshot \<ge> targetEventID \<and>
               sn_LatencyCursor snapshot \<ge> targetEventID
            then Finished (False, False, True, None)
            else if snapshot_Equal snapshot
            then runSharedRollupsPage env db (sn_OverviewCursor snapshot) targetEventID now
            else runFallbackRollupsPages env db snapshot targetEventID now))"

section \<open>A turn\<close>

text \<open>What \<open>runPreparedOnce\<close> takes from the runner in its first critical section.\<close>

record prepared_turn =
  pt_kind :: UsageAggregationKind
  pt_runnable :: bool
  pt_targetEventID :: int
  pt_activeRound :: bool
  pt_identityPending :: bool
  pt_identityAfterID :: int
  pt_identityPassGeneration :: int

definition prepare_turn :: "aggregation_runner \<Rightarrow> prepared_turn" where
  "prepare_turn r =
     (let (kind, runnable) = nextRunnableKindLocked r; identityPending = identityWorkPendingLocked r in
      \<lparr>pt_kind = kind, pt_runnable = runnable, pt_targetEventID = ag_activeTargetEventID r, pt_activeRound = ag_activeRound r,
       pt_identityPending = identityPending, pt_identityAfterID = ag_identityAfterID r,
       pt_identityPassGeneration =
         (if kind = UsageAggregationKindIdentity \<and> identityPending \<and> ag_identityAfterID r = 0
          then ag_identityTargetGeneration r else ag_identityScanGeneration r)\<rparr>)"

text \<open>What its work on the database comes to.\<close>

datatype turn_outcome =
    Nothing_to_run
  | Failed string bool bool
  | Deferred_for_inbox
  | Rollups_ran bool bool bool
  | No_identity_work
  | Identities_ran UsageIdentityAggregationBatchResult

definition turn_work :: "rollup_env \<Rightarrow> 's rollup_db \<Rightarrow> 's identity_db \<Rightarrow> prepared_turn \<Rightarrow> ('s, turn_outcome) prog" where
  "turn_work env db idb p =
     (if \<not> pt_runnable p then Finished Nothing_to_run
      else bindP (atomically (deferForInbox db)) (\<lambda>hasInbox. case hasInbox of
          Inl err \<Rightarrow> Finished (Failed err False False)
        | Inr waiting \<Rightarrow>
            if waiting then Finished Deferred_for_inbox
            else bindP clock (\<lambda>now.
              if pt_kind p = UsageAggregationKindRollups then
                bindP (runRollupsTurn env db (pt_activeRound p) (pt_targetEventID p) now)
                  (\<lambda>(processed, deferred, reachedTarget, runErr). Finished (case runErr of
                     Some err \<Rightarrow> Failed err processed deferred
                   | None \<Rightarrow> Rollups_ran processed deferred reachedTarget))
              else if pt_kind p = UsageAggregationKindIdentity then
                (if \<not> pt_identityPending p then Finished No_identity_work
                 else bindP (atomically (AggregateUsageIdentityStatsBatch (Some idb) now (pt_identityAfterID p))) (\<lambda>batch. case batch of
                     Inl err \<Rightarrow> Finished (Failed err False False)
                   | Inr b \<Rightarrow> Finished (Identities_ran b)))
              else Finished (Failed (''unknown usage aggregation kind '' @ quoted (pt_kind p)) False False))))"

text \<open>Its second critical section, and what it returns.\<close>

definition finish_turn ::
  "prepared_turn \<Rightarrow> turn_outcome \<Rightarrow> aggregation_runner \<Rightarrow> (UsageAggregationRunResult \<times> string option) \<times> aggregation_runner" where
  "finish_turn p out r =
     (let result = \<lparr>rr_Kind = pt_kind p, rr_Processed = False, rr_DeferredForInbox = False\<rparr> in
      case out of
        Nothing_to_run \<Rightarrow> ((result, None), r)
      | Failed err processed deferred \<Rightarrow> ((result\<lparr>rr_Processed := processed, rr_DeferredForInbox := deferred\<rparr>, Some err), r)
      | Deferred_for_inbox \<Rightarrow> ((result\<lparr>rr_DeferredForInbox := True\<rparr>, None), r)
      | Rollups_ran processed deferred reachedTarget \<Rightarrow>
          let r = r\<lparr>ag_nextKind := UsageAggregationKindIdentity\<rparr>;
              r = (if pt_activeRound p \<and> ag_activeRound r \<and> ag_activeTargetEventID r = pt_targetEventID p \<and> reachedTarget
                   then r\<lparr>ag_rollupsReachedTarget := True\<rparr> else r)
          in ((result\<lparr>rr_Processed := processed, rr_DeferredForInbox := deferred\<rparr>, None), completeRollupRoundIfReadyLocked r)
      | No_identity_work \<Rightarrow> ((result, None), r\<lparr>ag_nextKind := UsageAggregationKindRollups\<rparr>)
      | Identities_ran batch \<Rightarrow>
          let r = r\<lparr>ag_nextKind := UsageAggregationKindRollups, ag_identityScanGeneration := pt_identityPassGeneration p,
                    ag_identityAfterID := (if ub_ReachedEnd batch then 0 else ub_LastIdentityID batch)\<rparr>
          in ((result\<lparr>rr_Processed := (ub_ProcessedIdentities batch > 0 \<or> \<not> ub_ReachedEnd batch \<or> identityWorkPendingLocked r)\<rparr>, None), r))"

text \<open>The whole, when nothing comes between.\<close>

definition runPreparedOnce ::
  "rollup_env \<Rightarrow> 's rollup_db \<Rightarrow> 's identity_db \<Rightarrow> gtime \<Rightarrow> aggregation_runner \<times> 's \<Rightarrow>
     (UsageAggregationRunResult \<times> string option) \<times> aggregation_runner \<times> 's" where
  "runPreparedOnce env db idb now w =
     (case w of (r, s) \<Rightarrow>
        let p = prepare_turn r; (out, s') = run_prog (turn_work env db idb p) now s; (result, r') = finish_turn p out r
        in (result, r', s'))"

text \<open>\<open>ensureStartupTarget\<close> as a whole, and the entry that does one turn without waiting.\<close>

definition ensureStartupTarget :: "'s rollup_db \<Rightarrow> aggregation_runner \<times> 's \<Rightarrow> string option \<times> aggregation_runner \<times> 's" where
  "ensureStartupTarget db w =
     (case w of (r, s) \<Rightarrow>
        if ag_startupTargetLoaded r then (None, r, s)
        else (case run_state (LoadUsageAggregationTargetEventID (Some db)) s of
            (Inl err, s') \<Rightarrow> (Some err, r, s')
          | (Inr targetEventID, s') \<Rightarrow> (None, set_startup_target targetEventID r, s')))"

definition RunOnce ::
  "rollup_env \<Rightarrow> 's rollup_db option \<Rightarrow> 's identity_db \<Rightarrow> gtime \<Rightarrow> aggregation_runner option \<times> 's \<Rightarrow>
     (UsageAggregationRunResult \<times> string option) \<times> aggregation_runner option \<times> 's" where
  "RunOnce env handle idb now w =
     (case w of
        (None, s) \<Rightarrow> ((\<lparr>rr_Kind = [], rr_Processed = False, rr_DeferredForInbox = False\<rparr>, Some ''usage aggregation runner is nil''), None, s)
      | (Some r, s) \<Rightarrow>
          (case handle of
             None \<Rightarrow> ((\<lparr>rr_Kind = [], rr_Processed = False, rr_DeferredForInbox = False\<rparr>, Some ''database is nil''), Some r, s)
           | Some db \<Rightarrow>
               (case ensureStartupTarget db (r, s) of
                  (Some err, r', s') \<Rightarrow>
                    ((\<lparr>rr_Kind = UsageAggregationKindRollups, rr_Processed = False, rr_DeferredForInbox = False\<rparr>, Some err), Some r', s')
                | (None, r', s') \<Rightarrow>
                    (case runPreparedOnce env db idb now (freezePendingTarget r', s') of (result, r'', s'') \<Rightarrow> (result, Some r'', s'')))))"

section \<open>The task\<close>

text \<open>
  Where \<open>Run\<close> is: about to make the startup query, holding its answer, in the wait after a failure of it (with the backoff
  that comes next), at the top of its loop, after its look at what there is to do, in a turn with what is left of its work,
  in a wait before the next round, blocked without work, or over.
\<close>

datatype 's run_phase =
    Starting duration
  | Startup_loaded int
  | Startup_pausing duration duration
  | Loop_top
  | Looked bool
  | In_turn prepared_turn "('s, turn_outcome) prog"
  | Pausing duration
  | Blocked
  | Stopped

record 's aggregation_task =
  at_runner :: aggregation_runner
  at_db :: 's
  at_phase :: "'s run_phase"
  at_timer :: bool
  at_backoffs :: "(UsageAggregationKind, duration) gomap"

definition pendingRollupWindow :: "aggregation_runner \<Rightarrow> bool" where
  "pendingRollupWindow r \<longleftrightarrow> ag_pendingTargetEventID r > 0 \<and>
     (\<not> ag_activeRound r \<or> ag_pendingTargetEventID r > ag_activeTargetEventID r)"

text \<open>The critical section at the top of the loop.\<close>

definition look :: "'s aggregation_task \<Rightarrow> 's aggregation_task" where
  "look t = t\<lparr>at_timer := at_timer t \<or> pendingRollupWindow (at_runner t), at_phase := Looked (hasRunnableWorkLocked (at_runner t))\<rparr>"

text \<open>The timer has run out.\<close>

definition freeze :: "'s aggregation_task \<Rightarrow> 's aggregation_task" where
  "freeze t = t\<lparr>at_timer := False, at_runner := freezePendingTarget (at_runner t), at_phase := Loop_top\<rparr>"

text \<open>After a turn: an error makes the other kind next and pauses, longer each time; giving way pauses shortly.\<close>

definition after_turn :: "prepared_turn \<Rightarrow> turn_outcome \<Rightarrow> 's aggregation_task \<Rightarrow> 's aggregation_task" where
  "after_turn p out t =
     (case finish_turn p out (at_runner t) of
        ((result, Some err), r) \<Rightarrow>
          let backoff = (case mget (at_backoffs t) (rr_Kind result) of
              None \<Rightarrow> usageAggregationErrorBackoffInitial
            | Some b \<Rightarrow> if b = 0 then usageAggregationErrorBackoffInitial else b)
          in t\<lparr>at_runner := advanceAfterFailure (rr_Kind result) r, at_phase := Pausing backoff,
               at_backoffs := mput (at_backoffs t) (rr_Kind result) (min (backoff * 2) usageAggregationErrorBackoffMax)\<rparr>
      | ((result, None), r) \<Rightarrow>
          t\<lparr>at_runner := r, at_backoffs := mdel (at_backoffs t) (rr_Kind result),
            at_phase := (if rr_DeferredForInbox result then Pausing usageAggregationInboxRetryInterval else Loop_top)\<rparr>)"

text \<open>
  The steps of \<open>Run\<close>: its critical sections and the accesses of the database, one by one.  The end of the context is the
  only way out.
\<close>

inductive run_step :: "rollup_env \<Rightarrow> 's rollup_db \<Rightarrow> 's identity_db \<Rightarrow> gtime \<Rightarrow> 's aggregation_task \<Rightarrow> 's aggregation_task \<Rightarrow> bool"
  for env :: rollup_env and db :: "'s rollup_db" and idb :: "'s identity_db" and now :: gtime
where
  startup_known: "at_phase t = Starting d \<Longrightarrow> ag_startupTargetLoaded (at_runner t) \<Longrightarrow> run_step env db idb now t (t\<lparr>at_phase := Loop_top\<rparr>)"
| startup_query: "at_phase t = Starting d \<Longrightarrow> \<not> ag_startupTargetLoaded (at_runner t) \<Longrightarrow>
    run_state (LoadUsageAggregationTargetEventID (Some db)) (at_db t) = (Inr target, s) \<Longrightarrow>
    run_step env db idb now t (t\<lparr>at_db := s, at_phase := Startup_loaded target\<rparr>)"
| startup_failed: "at_phase t = Starting d \<Longrightarrow> \<not> ag_startupTargetLoaded (at_runner t) \<Longrightarrow>
    run_state (LoadUsageAggregationTargetEventID (Some db)) (at_db t) = (Inl err, s) \<Longrightarrow>
    run_step env db idb now t (t\<lparr>at_db := s, at_phase := Startup_pausing d (min (d * 2) usageAggregationErrorBackoffMax)\<rparr>)"
| startup_again: "at_phase t = Startup_pausing d d' \<Longrightarrow> run_step env db idb now t (t\<lparr>at_phase := Starting d'\<rparr>)"
| startup_woken: "at_phase t = Startup_pausing d d' \<Longrightarrow> ag_wake (at_runner t) \<Longrightarrow>
    run_step env db idb now t (t\<lparr>at_runner := (at_runner t)\<lparr>ag_wake := False\<rparr>, at_phase := Starting d'\<rparr>)"
| startup_set: "at_phase t = Startup_loaded target \<Longrightarrow>
    run_step env db idb now t (t\<lparr>at_runner := set_startup_target target (at_runner t), at_phase := Loop_top\<rparr>)"
| looks: "at_phase t = Loop_top \<Longrightarrow> run_step env db idb now t (look t)"
| fired: "at_phase t = Looked runnable \<Longrightarrow> at_timer t \<Longrightarrow> run_step env db idb now t (freeze t)"
| prepares: "at_phase t = Looked True \<Longrightarrow>
    run_step env db idb now t (t\<lparr>at_phase := (let p = prepare_turn (at_runner t) in In_turn p (turn_work env db idb p))\<rparr>)"
| idles: "at_phase t = Looked False \<Longrightarrow> run_step env db idb now t (t\<lparr>at_phase := Blocked\<rparr>)"
| works: "at_phase t = In_turn p (Atomic f) \<Longrightarrow> f now (at_db t) = (rest, s) \<Longrightarrow>
    run_step env db idb now t (t\<lparr>at_db := s, at_phase := In_turn p rest\<rparr>)"
| over: "at_phase t = In_turn p (Finished out) \<Longrightarrow> run_step env db idb now t (after_turn p out t)"
| resume: "at_phase t = Pausing d \<Longrightarrow> run_step env db idb now t (t\<lparr>at_phase := Loop_top\<rparr>)"
| resume_woken: "at_phase t = Pausing d \<Longrightarrow> ag_wake (at_runner t) \<Longrightarrow>
    run_step env db idb now t (t\<lparr>at_runner := (at_runner t)\<lparr>ag_wake := False\<rparr>, at_phase := Loop_top\<rparr>)"
| woken: "at_phase t = Blocked \<Longrightarrow> ag_wake (at_runner t) \<Longrightarrow>
    run_step env db idb now t (t\<lparr>at_runner := (at_runner t)\<lparr>ag_wake := False\<rparr>, at_phase := Loop_top\<rparr>)"
| window_over: "at_phase t = Blocked \<Longrightarrow> at_timer t \<Longrightarrow> run_step env db idb now t (freeze t)"
| cancelled: "run_step env db idb now t (t\<lparr>at_phase := Stopped\<rparr>)"

end
