(* ===== verification/RollupCount.thy ===== *)
theory RollupCount
  imports RollupPages
begin

text \<open>
  Tables that count.  A row has a key and columns that are sums over the items of that key; a page's row is added to the
  stored one, or stored when there is none.  The locale proves once that adding the rows of a page adds its items; the
  interpretations are the overview tables and the activity table.
\<close>

section \<open>Adding rows to a table that counts\<close>

locale counted =
  fixes rk :: "'r \<Rightarrow> 'k" and key :: "'e \<Rightarrow> 'k" and columns :: "(('r \<Rightarrow> int) \<times> ('e \<Rightarrow> int)) set"
    and bump :: "'r \<Rightarrow> 'r \<Rightarrow> 'r" and fresh :: "'r \<Rightarrow> 'r"
  assumes bump_column: "(c, a) \<in> columns \<Longrightarrow> c (bump p r) = c r + c p"
    and bump_key: "rk (bump p r) = rk r"
    and fresh_column: "(c, a) \<in> columns \<Longrightarrow> c (fresh p) = c p"
    and fresh_key: "rk (fresh p) = rk p"
begin

definition upsert :: "'r \<Rightarrow> 'r list \<Rightarrow> 'r list" where
  "upsert p rows =
     (if \<exists>r \<in> set rows. rk r = rk p then map (\<lambda>r. if rk r = rk p then bump p r else r) rows else rows @ [fresh p])"

text \<open>The columns of a row are the sums over a list of items.\<close>

definition adds_up :: "'r \<Rightarrow> 'e list \<Rightarrow> bool" where
  "adds_up r es \<longleftrightarrow> (\<forall>(c, a) \<in> columns. c r = sum_list (map a es))"

text \<open>A table is exact for items, as far as the keys in \<open>good\<close> are concerned.\<close>

definition exact :: "('k \<Rightarrow> bool) \<Rightarrow> 'e list \<Rightarrow> 'r list \<Rightarrow> bool" where
  "exact good es rows \<longleftrightarrow> distinct (map rk rows) \<and>
     (\<forall>k. good k \<longrightarrow> (k \<in> rk ` set rows \<longleftrightarrow> k \<in> key ` set es)) \<and>
     (\<forall>r \<in> set rows. good (rk r) \<longrightarrow> adds_up r (filter (\<lambda>e. key e = rk r) es))"

lemma adds_up_bump: "adds_up r es \<Longrightarrow> adds_up p es' \<Longrightarrow> adds_up (bump p r) (es @ es')"
  unfolding adds_up_def
proof (intro ballI; clarify)
  fix c a assume es: "\<forall>(c, a) \<in> columns. c r = sum_list (map a es)" "\<forall>(c, a) \<in> columns. c p = sum_list (map a es')"
    and c: "(c, a) \<in> columns"
  have "c r = sum_list (map a es)" "c p = sum_list (map a es')" using es c by blast+
  then show "c (bump p r) = sum_list (map a (es @ es'))" by (simp add: bump_column [OF c])
qed

lemma adds_up_fresh: "adds_up (fresh p) es \<longleftrightarrow> adds_up p es"
  unfolding adds_up_def by (auto simp: fresh_column)

lemma adds_up_cong: "mset es = mset es' \<Longrightarrow> adds_up r es \<longleftrightarrow> adds_up r es'"
proof -
  assume "mset es = mset es'"
  then have "sum_list (map a es) = sum_list (map a es')" for a :: "'e \<Rightarrow> int"
    by (metis mset_map sum_mset_sum_list)
  then show ?thesis by (simp add: adds_up_def)
qed

lemma exact_nil: "exact good [] []"
  by (simp add: exact_def)

lemma exact_cong:
  assumes "exact good es rows" and "\<And>k. good k \<Longrightarrow> mset (filter (\<lambda>e. key e = k) es) = mset (filter (\<lambda>e. key e = k) es')"
  shows "exact good es' rows"
proof -
  have "k \<in> key ` set es \<longleftrightarrow> k \<in> key ` set es'" if "good k" for k
  proof -
    have "k \<in> key ` set xs \<longleftrightarrow> filter (\<lambda>e. key e = k) xs \<noteq> []" for xs by (auto simp: filter_empty_conv)
    moreover have "filter (\<lambda>e. key e = k) es = [] \<longleftrightarrow> filter (\<lambda>e. key e = k) es' = []"
      using assms(2) [OF that] by (metis mset_zero_iff)
    ultimately show ?thesis by simp
  qed
  then show ?thesis using assms(1) adds_up_cong [OF assms(2)] by (auto simp: exact_def)
qed

lemma exact_weaken: "exact good es rows \<Longrightarrow> (\<And>k. good' k \<Longrightarrow> good k) \<Longrightarrow> exact good' es rows"
  unfolding exact_def by blast

text \<open>Items that differ only in what is not counted.\<close>

lemma exact_map:
  assumes "\<And>e. e \<in> set es \<Longrightarrow> key (f e) = key e" and "\<And>c a e. (c, a) \<in> columns \<Longrightarrow> a (f e) = a e"
  shows "exact good (map f es) rows \<longleftrightarrow> exact good es rows"
proof -
  have "key ` set (map f es) = key ` set es" using assms(1) by (force simp: image_iff)
  moreover have "adds_up r (filter (\<lambda>e. key e = k) (map f es)) \<longleftrightarrow> adds_up r (filter (\<lambda>e. key e = k) es)" for r k
  proof -
    have "filter (\<lambda>e. key e = k) (map f es) = map f (filter (\<lambda>e. key e = k) es)"
      unfolding filter_map comp_def using assms(1) by (auto intro!: arg_cong [where f = "map f"] filter_cong)
    moreover have "a \<circ> f = a" if "(c, a) \<in> columns" for c a using assms(2) [OF that] by (intro ext) simp
    then have "adds_up r (map f xs) \<longleftrightarrow> adds_up r xs" for xs unfolding adds_up_def by (intro ball_cong [OF refl]) auto
    ultimately show ?thesis by simp
  qed
  ultimately show ?thesis unfolding exact_def by simp
qed

text \<open>Deleting rows outside the good keys.\<close>

lemma exact_delete:
  assumes "exact good es rows" and "\<And>r. r \<in> set rows \<Longrightarrow> good (rk r) \<Longrightarrow> P r"
  shows "exact good es (filter P rows)"
  unfolding exact_def
proof (intro conjI allI impI ballI)
  show "distinct (map rk (filter P rows))" using assms(1) by (simp add: exact_def distinct_map_filter)
  show "k \<in> rk ` set (filter P rows) \<longleftrightarrow> k \<in> key ` set es" if "good k" for k
  proof -
    have "k \<in> rk ` set (filter P rows) \<longleftrightarrow> k \<in> rk ` set rows" using assms(2) that by auto
    with assms(1) that show ?thesis unfolding exact_def by blast
  qed
  show "adds_up r (filter (\<lambda>e. key e = rk r) es)" if "r \<in> set (filter P rows)" "good (rk r)" for r
    using assms(1) that by (simp add: exact_def)
qed

lemma keys_upsert: "rk ` set (upsert p rows) = insert (rk p) (rk ` set rows)"
proof -
  have "rk ` (\<lambda>r. if rk r = rk p then bump p r else r) ` set rows = rk ` set rows"
    unfolding image_image by (rule image_cong [OF refl]) (simp add: bump_key)
  moreover have "rk p \<in> rk ` set rows" if "r \<in> set rows" "rk r = rk p" for r
    using that by (metis imageI)
  ultimately show ?thesis
    by (cases "\<exists>r \<in> set rows. rk r = rk p")
      (simp_all only: upsert_def if_True if_False set_map set_append list.set image_Un fresh_key image_insert, auto simp: fresh_key)
qed

lemma upsert_rows:
  assumes "distinct (map rk rows)" and "r' \<in> set (upsert p rows)"
  obtains (same) "r' \<in> set rows" "rk r' \<noteq> rk p"
    | (bumped) r where "r \<in> set rows" "rk r = rk p" "r' = bump p r"
    | (added) "rk p \<notin> rk ` set rows" "r' = fresh p"
proof (cases "\<exists>r \<in> set rows. rk r = rk p")
  case True
  then obtain r where "r \<in> set rows" "r' = (if rk r = rk p then bump p r else r)" using assms(2) by (auto simp: upsert_def)
  then show thesis using same bumped by (cases "rk r = rk p") simp_all
next
  case False
  then have "r' \<in> set rows \<or> r' = fresh p" using assms(2) by (auto simp: upsert_def)
  then show thesis
  proof
    assume "r' \<in> set rows"
    with False show thesis by (intro same) auto
  next
    assume "r' = fresh p"
    with False show thesis by (intro added) auto
  qed
qed

lemma exact_upsert:
  assumes e: "exact good es rows"
    and good: "good (rk p) \<Longrightarrow> E \<noteq> [] \<and> (\<forall>x \<in> set E. key x = rk p) \<and> adds_up p E"
    and bad: "\<not> good (rk p) \<Longrightarrow> E = []"
  shows "exact good (es @ E) (upsert p rows)"
  unfolding exact_def
proof (intro conjI allI impI ballI)
  have d: "distinct (map rk rows)" using e by (simp add: exact_def)
  have "map rk (map (\<lambda>r. if rk r = rk p then bump p r else r) rows) = map rk rows"
    by (induction rows) (simp_all add: bump_key)
  then show "distinct (map rk (upsert p rows))"
    using d by (auto simp: upsert_def fresh_key image_iff simp del: map_map)
  show "k \<in> rk ` set (upsert p rows) \<longleftrightarrow> k \<in> key ` set (es @ E)" if "good k" for k
  proof (cases "k = rk p")
    case True
    then have "E \<noteq> []" "\<forall>x \<in> set E. key x = k" using good that by auto
    then have "k \<in> key ` set E" by (cases E) auto
    with True show ?thesis unfolding keys_upsert set_append image_Un by blast
  next
    case False
    then have "k \<notin> key ` set E" using good bad by (cases "good (rk p)") auto
    moreover have "k \<in> rk ` set rows \<longleftrightarrow> k \<in> key ` set es" using e that by (simp add: exact_def)
    ultimately show ?thesis using False unfolding keys_upsert set_append image_Un by simp
  qed
  fix r' assume r': "r' \<in> set (upsert p rows)" and g: "good (rk r')"
  show "adds_up r' (filter (\<lambda>x. key x = rk r') (es @ E))"
    using d r'
  proof (cases rule: upsert_rows)
    case same
    then have "filter (\<lambda>x. key x = rk r') E = []" using good bad by (cases "good (rk p)") (auto simp: filter_empty_conv)
    with same e g show ?thesis by (simp add: exact_def)
  next
    case (bumped r)
    then have "good (rk p)" using g by (simp add: bump_key)
    then have E: "filter (\<lambda>x. key x = rk p) E = E" "adds_up p E" using good by (auto simp: filter_id_conv)
    have "good (rk r)" using \<open>good (rk p)\<close> bumped(2) by simp
    then have "adds_up r (filter (\<lambda>x. key x = rk r) es)" using e bumped(1) unfolding exact_def by blast
    then have "adds_up r (filter (\<lambda>x. key x = rk p) es)" unfolding bumped(2) .
    with E bumped show ?thesis by (simp add: bump_key adds_up_bump)
  next
    case added
    then have "good (rk p)" using g by (simp add: fresh_key)
    then have E: "filter (\<lambda>x. key x = rk p) E = E" "adds_up p E" using good by (auto simp: filter_id_conv)
    have "rk p \<notin> key ` set es" using e added(1) \<open>good (rk p)\<close> by (simp add: exact_def)
    then have "filter (\<lambda>x. key x = rk p) es = []" unfolding filter_empty_conv by (metis imageI)
    with E added show ?thesis by (simp add: fresh_key adds_up_fresh)
  qed
qed

text \<open>All the rows of a page.\<close>

lemma exact_page:
  assumes "exact good es rows"
    and "\<And>p. p \<in> set ps \<Longrightarrow> good (rk p) \<Longrightarrow> E p \<noteq> [] \<and> (\<forall>x \<in> set (E p). key x = rk p) \<and> adds_up p (E p)"
    and "\<And>p. p \<in> set ps \<Longrightarrow> \<not> good (rk p) \<Longrightarrow> E p = []"
  shows "exact good (es @ concat (map E ps)) (fold upsert ps rows)"
  using assms
proof (induction ps arbitrary: es rows)
  case (Cons p ps)
  have "exact good (es @ E p) (upsert p rows)" using Cons.prems by (intro exact_upsert) simp_all
  then have "exact good ((es @ E p) @ concat (map E ps)) (fold upsert ps (upsert p rows))"
    using Cons.prems by (intro Cons.IH) simp_all
  then show ?case by simp
qed simp

end

text \<open>The items of a page, sorted by the rows they went into, are the items of the page.\<close>

lemma items_by_row:
  assumes "distinct (map rk ps)" and "key ` set es \<subseteq> rk ` set ps"
  shows "mset (concat (map (\<lambda>p. filter (\<lambda>e. key e = rk p) es) ps)) = mset es"
  using assms
proof (induction ps arbitrary: es)
  case (Cons p ps)
  let ?rest = "filter (\<lambda>e. key e \<noteq> rk p) es"
  have "filter (\<lambda>e. key e = rk q) es = filter (\<lambda>e. key e = rk q) ?rest" if "q \<in> set ps" for q
  proof -
    have "rk q \<noteq> rk p" using Cons.prems(1) that by (metis distinct.simps(2) image_eqI list.set_map list.simps(9))
    then show ?thesis by (auto intro: filter_cong)
  qed
  then have same: "map (\<lambda>q. filter (\<lambda>e. key e = rk q) es) ps = map (\<lambda>q. filter (\<lambda>e. key e = rk q) ?rest) ps" by simp
  have "mset (concat (map (\<lambda>q. filter (\<lambda>e. key e = rk q) ?rest) ps)) = mset ?rest"
    using Cons.prems by (intro Cons.IH) auto
  then have "mset (concat (map (\<lambda>p. filter (\<lambda>e. key e = rk p) es) (p # ps))) = mset (filter (\<lambda>e. key e = rk p) es) + mset ?rest"
    unfolding same [symmetric] by (simp only: list.map concat.simps mset_append)
  also have "\<dots> = mset es" unfolding mset_filter by (rule multiset_partition [symmetric])
  finally show ?case .
qed simp

section \<open>Sums within 64 bits\<close>

definition token_columns :: "(UsageEvent \<Rightarrow> int) set" where
  "token_columns = {ev_InputTokens, ev_OutputTokens, ev_ReasoningTokens, ev_CachedTokens, ev_CacheReadTokens,
     ev_CacheCreationTokens, ev_TotalTokens}"

definition fits :: "UsageEvent list \<Rightarrow> bool" where
  "fits es \<longleftrightarrow> int (length es) \<le> MaxInt64 \<and>
     (\<forall>f \<in> token_columns. (\<forall>e \<in> set es. 0 \<le> f e) \<and> sum_list (map f es) \<le> MaxInt64)"

lemma sum_filter_le: "(\<And>e. e \<in> set es \<Longrightarrow> 0 \<le> f e) \<Longrightarrow> sum_list (map f (filter P es)) \<le> sum_list (map f es)"
  for f :: "'a \<Rightarrow> int"
  by (induction es) (auto intro: add_increasing)

lemma fits_filter:
  assumes "fits es"
  shows "fits (filter P es)"
  unfolding fits_def
proof (intro conjI ballI)
  show "int (length (filter P es)) \<le> MaxInt64" using assms length_filter_le [of P es] unfolding fits_def by linarith
  fix f e assume f: "f \<in> token_columns"
  show "0 \<le> f e" if "e \<in> set (filter P es)" using assms f that by (simp add: fits_def)
  show "sum_list (map f (filter P es)) \<le> MaxInt64"
    using sum_filter_le [of es f P] assms f by (fastforce simp: fits_def)
qed

lemma fits_cong: "mset es = mset es' \<Longrightarrow> fits es \<longleftrightarrow> fits es'"
proof -
  assume m: "mset es = mset es'"
  then have "sum_list (map f es) = sum_list (map f es')" for f :: "UsageEvent \<Rightarrow> int" by (metis mset_map sum_mset_sum_list)
  with mset_eq_length [OF m] mset_eq_setD [OF m] show ?thesis by (simp add: fits_def)
qed

lemma fits_sum: "fits es \<Longrightarrow> f \<in> token_columns \<Longrightarrow> wrap64 (sum_list (map f es)) = sum_list (map f es)"
  by (rule wrap64_id) (auto simp: fits_def i64_def intro!: order_trans [OF _ sum_list_nonneg])

lemma fits_length: "fits es \<Longrightarrow> wrap64 (int (length (filter P es))) = int (length (filter P es))"
  using length_filter_le [of P es] unfolding fits_def i64_def by (intro wrap64_id [unfolded i64_def]) linarith

section \<open>The overview tables\<close>

definition text_key :: "zone \<Rightarrow> overviewKey \<Rightarrow> string \<times> aggregateDimensions" where
  "text_key z key = (FormatStorageTime z (fst key), snd key)"

definition overview_columns :: "((UsageOverviewStat \<Rightarrow> int) \<times> (UsageEvent \<Rightarrow> int)) set" where
  "overview_columns =
     {(ov_RequestCount, \<lambda>_. 1), (ov_SuccessCount, \<lambda>e. of_bool (\<not> ev_Failed e)), (ov_FailureCount, \<lambda>e. of_bool (ev_Failed e)),
      (ov_InputTokens, ev_InputTokens), (ov_OutputTokens, ev_OutputTokens), (ov_ReasoningTokens, ev_ReasoningTokens),
      (ov_CachedTokens, ev_CachedTokens), (ov_CacheReadTokens, ev_CacheReadTokens),
      (ov_CacheCreationTokens, ev_CacheCreationTokens), (ov_TotalTokens, ev_TotalTokens)}"

interpretation overview_count: counted "\<lambda>row. text_key z (overview_row_key row)" key overview_columns
  "\<lambda>row. tokenStatUpdates row now" "\<lambda>row. row\<lparr>ov_CreatedAt := now, ov_UpdatedAt := now\<rparr>"
  for z :: zone and key :: "UsageEvent \<Rightarrow> string \<times> aggregateDimensions" and now :: gtime
  by unfold_locales (auto simp: overview_columns_def tokenStatUpdates_def overview_row_key_def)

lemma overview_keys_distinct: "sorted_wrt overviewRowLess rows \<Longrightarrow> distinct (map overview_row_key rows)"
proof (induction rows)
  case (Cons r rows)
  have "overview_row_key r \<noteq> overview_row_key q" if "q \<in> set rows" for q
    using Cons.prems that overview.less_irrefl [of r] by (auto simp: overviewRowLess_def)
  with Cons show ?case by auto
qed simp

lemma counts_add_up:
  assumes "overview_counts row es" and "fits es"
  shows "overview_count.adds_up row es"
proof -
  note sums = fits_sum [OF assms(2)] and lens = fits_length [OF assms(2)]
  have "wrap64 (int (length es)) = int (length es)" using lens [of "\<lambda>_. True"] by simp
  then show ?thesis
    using assms(1) sums lens unfolding overview_count.adds_up_def unfolding overview_columns_def overview_counts_def token_columns_def
    by (simp add: sum_bools sum_list_triv)
qed

lemma overview_page_exact:
  assumes rows: "table_right key page rows" and fits: "fits page"
    and tbl: "overview_count.exact z (\<lambda>e. text_key z (key e)) (\<lambda>_. True) es tbl"
  shows "overview_count.exact z (\<lambda>e. text_key z (key e)) (\<lambda>_. True) (es @ page) (fold (overview_count.upsert z now) rows tbl)"
proof -
  let ?E = "\<lambda>p. filter (\<lambda>e. key e = overview_row_key p) page"
  have keys: "overview_row_key ` set rows = key ` set page" and d: "distinct (map overview_row_key rows)"
    using rows overview_keys_distinct by (simp_all add: table_right_def)
  have "overview_count.exact z (\<lambda>e. text_key z (key e)) (\<lambda>_. True) (es @ concat (map ?E rows)) (fold (overview_count.upsert z now) rows tbl)"
  proof (rule overview_count.exact_page [OF tbl])
    fix p assume p: "p \<in> set rows"
    then have "overview_row_key p \<in> key ` set page" unfolding keys [symmetric] by simp
    then have "?E p \<noteq> []" by (auto simp: filter_empty_conv)
    moreover have "overview_count.adds_up p (?E p)"
      using rows p fits_filter [OF fits] by (intro counts_add_up) (auto simp: table_right_def)
    ultimately show "?E p \<noteq> [] \<and> (\<forall>x \<in> set (?E p). text_key z (key x) = text_key z (overview_row_key p)) \<and> overview_count.adds_up p (?E p)"
      by simp
  qed simp
  moreover have "mset (concat (map ?E rows)) = mset page" using d keys by (intro items_by_row) simp_all
  ultimately show ?thesis by (elim overview_count.exact_cong) simp
qed

section \<open>The activity table\<close>

type_synonym activity_slot = "UsageActivityGrain \<times> UsageEvent"

definition slots :: "UsageEvent list \<Rightarrow> activity_slot list" where
  "slots es = concat (map (\<lambda>e. map (\<lambda>g. (g, e)) allGrains) es)"

definition slot_bucket :: "zone \<Rightarrow> activity_slot \<Rightarrow> Bucket" where
  "slot_bucket z s = the (bucket_of_grain (fst s) z (ev_Timestamp (snd s)))"

definition slot_key :: "zone \<Rightarrow> activity_slot \<Rightarrow> aggregateKey" where
  "slot_key z s = (grain_text (fst s), bk_Start (slot_bucket z s), NormalizeAPIGroupKey (ev_APIGroupKey (snd s)))"

definition activity_columns_of :: "((UsageActivityStat \<Rightarrow> int) \<times> (activity_slot \<Rightarrow> int)) set" where
  "activity_columns_of =
     {(as_SuccessCount, \<lambda>s. of_bool (\<not> ev_Failed (snd s))), (as_FailureCount, \<lambda>s. of_bool (ev_Failed (snd s))),
      (as_InputTokens, \<lambda>s. ev_InputTokens (snd s)), (as_OutputTokens, \<lambda>s. ev_OutputTokens (snd s)),
      (as_ReasoningTokens, \<lambda>s. ev_ReasoningTokens (snd s)), (as_CacheReadTokens, \<lambda>s. ev_CacheReadTokens (snd s)),
      (as_CacheCreationTokens, \<lambda>s. ev_CacheCreationTokens (snd s)), (as_TotalTokens, \<lambda>s. ev_TotalTokens (snd s))}"

interpretation activity_count: counted activity_row_key "slot_key z" activity_columns_of
  "\<lambda>row. activity_updates row now" "\<lambda>row. row\<lparr>as_CreatedAt := now, as_UpdatedAt := now\<rparr>"
  for z :: zone and now :: gtime
  by unfold_locales (auto simp: activity_columns_of_def activity_updates_def activity_row_key_def)

text \<open>
  The keys that are still retained at a time: the buckets that begin no earlier than the retention of their grain allows,
  and all the days.
\<close>

definition retained :: "gtime \<Rightarrow> aggregateKey \<Rightarrow> bool" where
  "retained horizon k \<longleftrightarrow>
     (\<forall>g ret. grain_known g \<longrightarrow> fst k = grain_text g \<longrightarrow> Retention g = Some ret \<longrightarrow> t_add horizon (- ret) \<le> fst (snd k))"

lemma contributions_slots:
  "contributions z now es =
     map (\<lambda>s. (fst s, slot_bucket z s, snd s)) (filter (\<lambda>s. \<not> too_old now (fst s) (ev_Timestamp (snd s))) (slots es))"
  by (induction es) (simp_all add: contributions_def contributions_of_def slots_def slot_bucket_def filter_map comp_def)

lemma slot_times:
  assumes "zone_ok z" and "time_ok (ev_Timestamp e)" and "g \<in> set allGrains"
  shows "bk_Start (slot_bucket z (g, e)) \<le> ev_Timestamp e \<and> ev_Timestamp e < bk_End (slot_bucket z (g, e)) \<and>
    bk_End (slot_bucket z (g, e)) - bk_Start (slot_bucket z (g, e)) \<le> 48 * Hour \<and> activity_item z (g, slot_bucket z (g, e), e)"
proof -
  have g: "grain_known g" using assms(3) by (simp add: all_grains_known)
  note law = grain_bucketing [OF g]
  obtain b where b: "bucket_of_grain g z (ev_Timestamp e) = Some b"
    using bucketing.bucket_exists [OF law, OF assms(1,2)] by blast
  show ?thesis
    using bucketing.bucket_contains [OF law, OF assms(1,2) b] bucketing.bucket_short [OF law, OF assms(1,2) b] b assms
    by (simp add: slot_bucket_def activity_item_def)
qed

text \<open>An event of a retained bucket is not too old.\<close>

lemma retained_slot:
  assumes "zone_ok z" and "time_ok (ev_Timestamp e)" and g: "g \<in> set allGrains" and "retained now (slot_key z (g, e))"
  shows "\<not> too_old now g (ev_Timestamp e)"
proof (cases "Retention g")
  case (Some ret)
  then have "t_add now (- ret) \<le> bk_Start (slot_bucket z (g, e))"
    using assms(4) g by (auto simp: retained_def slot_key_def all_grains_known)
  also have "\<dots> \<le> ev_Timestamp e" using slot_times [OF assms(1-3)] by simp
  finally show ?thesis by (simp add: too_old_def Some)
qed (simp add: too_old_def)

definition shown_row :: "UsageActivityStat \<Rightarrow> bool" where
  "shown_row r \<longleftrightarrow> as_Grain r \<in> set allGrains \<and> year_shown (as_BucketStart r) \<and> year_shown (as_BucketEnd r) \<and>
     as_BucketStart r < as_BucketEnd r"

lemma activity_predicate: "shown_row p \<Longrightarrow> shown_row r \<Longrightarrow> activity_key_predicate p r \<longleftrightarrow> activity_row_key r = activity_row_key p"
  by (auto simp: activity_key_predicate_def activity_row_key_def shown_row_def sortable_order)

lemma activity_keys_distinct: "sorted_wrt activity_less rows \<Longrightarrow> distinct (map activity_row_key rows)"
proof (induction rows)
  case (Cons r rows)
  have "activity_row_key r \<noteq> activity_row_key q" if "q \<in> set rows" for q
    using Cons.prems that by (auto simp: activity_less_def activity_row_key_def split: if_splits)
  with Cons show ?case by auto
qed simp

lemma row_counts_add_up:
  assumes "row_counts p (map snd ss)" and "fits (map snd ss)"
  shows "activity_count.adds_up p ss"
proof -
  note sums = fits_sum [OF assms(2)] and lens = fits_length [OF assms(2)]
  show ?thesis
    using assms(1) sums lens unfolding activity_count.adds_up_def
    unfolding activity_columns_of_def row_counts_def token_columns_def by (simp add: comp_def sum_of_bool filter_map)
qed

text \<open>The rows of a page, with the slots behind each.\<close>

lemma activity_page_row:
  assumes z: "zone_ok z" and t: "list_all (\<lambda>e. time_ok (ev_Timestamp e)) page"
    and r: "p \<in> set (activity.rows_of ord (contributions z now page))" and o: "iteration_order ord"
  shows "\<exists>g e. (g, e) \<in> set (slots page) \<and> activity_row_key p = slot_key z (g, e) \<and> as_Grain p = g \<and>
    as_BucketStart p = bk_Start (slot_bucket z (g, e)) \<and> as_BucketEnd p = bk_End (slot_bucket z (g, e)) \<and>
    (retained now (activity_row_key p) \<longrightarrow>
       row_counts p (map snd (filter (\<lambda>s. slot_key z s = activity_row_key p) (slots page))) \<and>
       (\<exists>P. map snd (filter (\<lambda>s. slot_key z s = activity_row_key p) (slots page)) = filter P page))"
proof -
  let ?cs = "contributions z now page" and ?f = "\<lambda>s. (fst s, slot_bucket z s, snd s)"
  note items = contribution_items [OF z t, of now]
  from r obtain c where c: "c \<in> set ?cs" "p = activity.row_of ?cs c"
    unfolding activity.rows_of_iff [OF o items] by blast
  then obtain g e where s: "(g, e) \<in> set (slots page)" "c = (g, slot_bucket z (g, e), e)"
    unfolding contributions_slots by auto
  define b where "b = slot_bucket z (g, e)"
  have item: "activity_item z (g, b, e)" using c(1) items s(2) by (auto simp: list_all_iff b_def)
  have p: "p = activity.row_of ?cs (g, b, e)" using c(2) s(2) by (simp add: b_def)
  note cols = row_of_counts [OF z t item p]
  have key: "activity_row_key p = slot_key z (g, e)"
    using cols(1-4) by (simp add: activity_row_key_def slot_key_def b_def)
  have "row_counts p (map snd (filter (\<lambda>s. slot_key z s = activity_row_key p) (slots page))) \<and>
      (\<exists>P. map snd (filter (\<lambda>s. slot_key z s = activity_row_key p) (slots page)) = filter P page)"
    if ret: "retained now (activity_row_key p)"
  proof -
    have fresh: "\<not> too_old now (fst s) (ev_Timestamp (snd s))" if s: "s \<in> set (slots page)" "slot_key z s = activity_row_key p" for s
    proof -
      have "snd s \<in> set page" "fst s \<in> set allGrains" using s(1) by (auto simp: slots_def)
      then show ?thesis
        using retained_slot [OF z, of "snd s" "fst s" now] t ret s(2) by (simp add: list_all_iff)
    qed
    have "map ?f (filter (\<lambda>s. slot_key z s = activity_row_key p) (slots page)) =
        filter (\<lambda>c. activity_key c = activity_key (g, b, e)) ?cs"
      unfolding contributions_slots filter_map filter_filter
      by (rule arg_cong [where f = "map _"], rule filter_cong [OF refl])
        (use fresh in \<open>auto simp: key slot_key_def b_def\<close>)
    also have "\<dots> = map (\<lambda>e. (g, the (bucket_of_grain g z (ev_Timestamp e)), e)) (filter (counted_in now p) page)"
      by (rule same_key [OF z t item cols(1-4)])
    finally have "map (snd \<circ> snd) (map ?f (filter (\<lambda>s. slot_key z s = activity_row_key p) (slots page))) =
        map (snd \<circ> snd) (map (\<lambda>e. (g, the (bucket_of_grain g z (ev_Timestamp e)), e)) (filter (counted_in now p) page))"
      by (simp only:)
    then have "map snd (filter (\<lambda>s. slot_key z s = activity_row_key p) (slots page)) = filter (counted_in now p) page"
      by (simp add: comp_def)
    with cols(5) show ?thesis by (intro conjI exI [of _ "counted_in now p"]) simp_all
  qed
  with s(1) key cols(1-3) show ?thesis unfolding b_def by blast
qed

lemma activity_page_exact:
  assumes z: "zone_ok z" and dates: "\<forall>e \<in> set page. dated (ev_Timestamp e)" and o: "iteration_order ord" and fits: "fits page"
    and now: "\<And>k. good k \<Longrightarrow> retained now k"
    and tbl: "activity_count.exact z good (slots es) tbl"
    and shown: "\<forall>r \<in> set tbl. shown_row r"
  shows "\<exists>rows. ActivityBuildRows ord z page now = Inr rows \<and> (\<forall>r \<in> set rows. shown_row r) \<and>
    activity_count.exact z good (slots (es @ page)) (fold (activity_count.upsert now) rows tbl)"
proof -
  have t: "list_all (\<lambda>e. time_ok (ev_Timestamp e)) page"
    using dates by (auto simp: list_all_iff dated_def time_ok_def)
  define rows where "rows = activity.rows_of ord (contributions z now page)"
  let ?good = good and ?key = "slot_key z"
  let ?its = "filter (\<lambda>s. ?good (?key s)) (slots page)"
  note row = activity_page_row [where now = now, OF z t _ o, folded rows_def]
  have items: "list_all (activity_item z) (contributions z now page)" by (rule contribution_items [OF z t])
  have built: "ActivityBuildRows ord z page now = Inr rows" using build_rows [OF z t] by (simp add: rows_def)
  have d: "distinct (map activity_row_key rows)"
    unfolding rows_def by (rule activity_keys_distinct) (rule activity.rows_sorted [OF o items])
  have in_rows: "?key s \<in> activity_row_key ` set rows" if "s \<in> set ?its" for s
  proof -
    obtain g e where s: "s = (g, e)" by (cases s)
    have "e \<in> set page" "g \<in> set allGrains" using that s by (auto simp: slots_def)
    then have "\<not> too_old now g (ev_Timestamp e)"
      using retained_slot [OF z, of e g now] now that s t by (simp add: list_all_iff)
    then have c: "(g, slot_bucket z s, e) \<in> set (contributions z now page)" 
      using that s \<open>\<not> too_old now g (ev_Timestamp e)\<close> by (auto simp: contributions_slots intro!: image_eqI [where x = "(g, e)"])
    then have "activity.row_of (contributions z now page) (g, slot_bucket z s, e) \<in> set rows"
      unfolding rows_def activity.rows_of_iff [OF o items] by blast
    moreover have "activity_row_key (activity.row_of (contributions z now page) (g, slot_bucket z s, e)) = ?key s"
      unfolding activity.rk_row_of by (simp add: slot_key_def s)
    ultimately show ?thesis by (metis imageI)
  qed
  define E where "E p = filter (\<lambda>s. ?key s = activity_row_key p) ?its" for p
  have "activity_count.exact z ?good (slots es @ concat (map E rows)) (fold (activity_count.upsert now) rows tbl)"
  proof (rule activity_count.exact_page [OF tbl])
    fix p assume p: "p \<in> set rows"
    show "E p = []" if "\<not> ?good (activity_row_key p)"
      using that by (auto simp: E_def filter_empty_conv)
    assume good: "?good (activity_row_key p)"
    then have E: "E p = filter (\<lambda>s. ?key s = activity_row_key p) (slots page)" unfolding E_def by (auto intro: filter_cong)
    from row [OF p] obtain g e where s: "(g, e) \<in> set (slots page)" "activity_row_key p = ?key (g, e)"
      and counts: "row_counts p (map snd (E p))" "\<exists>P. map snd (E p) = filter P page"
      unfolding E using now [OF good] by blast
    have "E p \<noteq> []" using s unfolding E by (auto simp: filter_empty_conv)
    moreover have "activity_count.adds_up p (E p)"
      using counts fits_filter [OF fits] by (intro row_counts_add_up) auto
    ultimately show "E p \<noteq> [] \<and> (\<forall>x \<in> set (E p). ?key x = activity_row_key p) \<and> activity_count.adds_up p (E p)"
      by (simp add: E)
  qed
  moreover have "mset (filter (\<lambda>s. ?key s = k) (slots es @ concat (map E rows))) = mset (filter (\<lambda>s. ?key s = k) (slots (es @ page)))"
    if "?good k" for k
  proof -
    have "mset (concat (map E rows)) = mset ?its" unfolding E_def using d in_rows by (intro items_by_row) auto
    then have "mset (filter (\<lambda>s. ?key s = k) (concat (map E rows))) = mset (filter (\<lambda>s. ?key s = k) ?its)"
      by (simp only: mset_filter)
    also have "filter (\<lambda>s. ?key s = k) ?its = filter (\<lambda>s. ?key s = k) (slots page)"
      unfolding filter_filter using that by (auto intro: filter_cong)
    finally show ?thesis by (simp add: slots_def)
  qed
  ultimately have "activity_count.exact z ?good (slots (es @ page)) (fold (activity_count.upsert now) rows tbl)"
    by (rule activity_count.exact_cong)
  moreover have "shown_row p" if "p \<in> set rows" for p
  proof -
    from row [OF that] obtain g e where s: "(g, e) \<in> set (slots page)" and p: "as_Grain p = g"
      "as_BucketStart p = bk_Start (slot_bucket z (g, e))" "as_BucketEnd p = bk_End (slot_bucket z (g, e))" by blast
    have e: "e \<in> set page" "g \<in> set allGrains" using s by (auto simp: slots_def)
    then have "time_ok (ev_Timestamp e)" using t by (simp add: list_all_iff)
    from slot_times [OF z this e(2)] show ?thesis
      using near_dated [of "ev_Timestamp e"] dates e p by (auto simp: shown_row_def)
  qed
  ultimately show ?thesis using built by blast
qed

end
