(* ===== verification/RollupLatency.thy ===== *)
theory RollupLatency
  imports RollupCount
begin

text \<open>
  Merging latency rows: a row that shows some events, merged with one that shows others, shows all of them.
\<close>

section \<open>Decoding a row that shows events\<close>

definition latency_events_ok :: "UsageEvent list \<Rightarrow> bool" where
  "latency_events_ok es \<longleftrightarrow> (\<forall>e \<in> set es. event_ok e) \<and> distinct (map ev_ID es) \<and> few (length es)"

lemma latency_events_okD:
  assumes "latency_events_ok es"
  shows "e \<in> set es \<Longrightarrow> 0 < ttft e \<and> 0 < ev_LatencyMS e \<and> i64 (ttft e) \<and> i64 (ev_LatencyMS e) \<and> valid_point (event_point e)"
    and "consistent (event_point ` set es)" and "few (length es)"
  using assms event_okD [of e] points_consistent [of es] by (auto simp: latency_events_ok_def event_ok_def)

lemma latency_events_ok_sub: "latency_events_ok (es @ es') \<Longrightarrow> latency_events_ok es \<and> latency_events_ok es'"
  by (auto simp: latency_events_ok_def)

lemma peak_pos: "es \<noteq> [] \<Longrightarrow> (\<And>e. e \<in> set es \<Longrightarrow> 0 < f e) \<Longrightarrow> 0 < peak f es"
  by (cases es) (auto simp: peak_def Max_gr_iff)

lemma peak_append: "peak f (es @ es') = max (peak f es) (peak f es')"
proof -
  have "insert 0 (f ` set (es @ es')) = insert 0 (f ` set es) \<union> insert 0 (f ` set es')" by auto
  then show ?thesis using Max_Un [of "insert 0 (f ` set es)" "insert 0 (f ` set es')"] unfolding peak_def by simp
qed

definition decoded_shows :: "latency_env \<Rightarrow> decodedRow \<Rightarrow> UsageEvent list \<Rightarrow> bool" where
  "decoded_shows env d es \<longleftrightarrow>
     represents (le_bin_key env) (dr_TTFTSketch d) (map ttft es) \<and>
     represents (le_bin_key env) (dr_LatencySketch d) (map ev_LatencyMS es) \<and>
     keeps (dr_SamplePoints d) (event_point ` set es)"

lemma decode_shown:
  assumes env: "env_ok env" and row: "row_shows env row es" and es: "latency_events_ok es" "es \<noteq> []"
  shows "\<exists>d. decodeLatencyRow env row = Inr d \<and> decoded_shows env d es"
proof -
  from row obtain s1 s2 t where s: "UnmarshalSketch (ls_TTFTSketch row) = Inr s1" "represents (le_bin_key env) s1 (map ttft es)"
    "UnmarshalSketch (ls_LatencySketch row) = Inr s2" "represents (le_bin_key env) s2 (map ev_LatencyMS es)"
    "UnmarshalSampleSet (ls_SamplePoints row) = Inr t" "keeps t (event_point ` set es)"
    by (auto simp: row_shows_def)
  note ok = latency_events_okD [OF es(1)]
  have o: "iteration_order (le_point_order env)" using env by (simp add: env_ok_def)
  have "length (sample_Points (le_point_order env) t) = card (bottom MaxSamplePoints (event_point ` set es))"
    using s(6) Points_spec(3) [OF _ o] keyed_card [of t] by (simp add: keeps_def)
  also have "\<dots> \<le> card (event_point ` set es)" using card_bottom [OF ok(2)] by simp
  also have "\<dots> \<le> length es" using card_image_le [of "set es" event_point] card_length [of es] by simp
  finally have pts: "int (length (sample_Points (le_point_order env) t)) \<le> int (length es)" by simp
  have "0 < peak ttft es" "0 < peak ev_LatencyMS es" using peak_pos [OF es(2)] ok(1) by blast+
  moreover have "sk_count s1 = length es" "sk_count s2 = length es" using s(2, 4) by (simp_all add: represents_def)
  ultimately have "decodeLatencyRow env row = Inr \<lparr>dr_TTFTSketch = s1, dr_LatencySketch = s2, dr_SamplePoints = t\<rparr>"
    using row s(1, 3, 5) pts by (simp add: decodeLatencyRow_def row_shows_def)
  then show ?thesis using s by (simp add: decoded_shows_def)
qed

section \<open>Merging\<close>

lemma merge_sketches_shown:
  assumes "env_ok env" and "represents (le_bin_key env) s vs" and "represents (le_bin_key env) t ws" and "few (length vs + length ws)"
  shows "\<exists>u. merge_sketches env s t = Inr u \<and> represents (le_bin_key env) u (vs @ ws)"
proof -
  have "iteration_order (le_bin_order env)" using assms(1) by (simp add: env_ok_def)
  from represents_merge [OF assms(2, 3) this] assms(4) show ?thesis by (auto simp: merge_sketches_def merged_def)
qed

lemma merge_samples_shown:
  assumes "env_ok env" and "keeps s A" and "keeps t B" and "consistent (A \<union> B)"
  shows "\<exists>u. merge_samples env s t = Inr u \<and> keeps u (A \<union> B)"
proof -
  have "iteration_order (le_point_order env)" using assms(1) by (simp add: env_ok_def)
  from keeps_merge [OF assms(2, 3) this assms(4)] show ?thesis by (auto simp: merge_samples_def merged_def)
qed

lemma merge_shown:
  assumes env: "env_ok env" and r: "row_shows env existing es" "row_shows env incoming es'"
    and es: "latency_events_ok (es @ es')" "es \<noteq> []" "es' \<noteq> []"
  shows "\<exists>m. mergeLatencyRows env (Some existing) incoming now = Inr m \<and> row_shows env m (es @ es') \<and>
    latency_row_key m = latency_row_key existing \<and> ls_ID m = ls_ID existing"
proof -
  note ok = latency_events_ok_sub [OF es(1)]
  note okD = latency_events_okD [OF es(1)]
  have n: "few (length es + length es')" using okD(3) by simp
  have o: "iteration_order (le_bin_order env)" "iteration_order (le_point_order env)" using env by (simp_all add: env_ok_def)
  obtain d d' where d: "decodeLatencyRow env existing = Inr d" "decoded_shows env d es"
    "decodeLatencyRow env incoming = Inr d'" "decoded_shows env d' es'"
    using decode_shown [OF env r(1)] decode_shown [OF env r(2)] ok es by blast
  obtain u where u: "merge_sketches env (dr_TTFTSketch d) (dr_TTFTSketch d') = Inr u" "represents (le_bin_key env) u (map ttft (es @ es'))"
    using merge_sketches_shown [OF env, of _ "map ttft es" _ "map ttft es'"] d(2, 4) n by (auto simp: decoded_shows_def)
  obtain v where v: "merge_sketches env (dr_LatencySketch d) (dr_LatencySketch d') = Inr v"
    "represents (le_bin_key env) v (map ev_LatencyMS (es @ es'))"
    using merge_sketches_shown [OF env, of _ "map ev_LatencyMS es" _ "map ev_LatencyMS es'"] d(2, 4) n by (auto simp: decoded_shows_def)
  have "consistent (event_point ` set es \<union> event_point ` set es')" using okD(2) by (simp add: image_Un)
  then obtain w where w: "merge_samples env (dr_SamplePoints d) (dr_SamplePoints d') = Inr w" "keeps w (event_point ` set (es @ es'))"
    using merge_samples_shown [OF env] d(2, 4) by (fastforce simp: decoded_shows_def image_Un)
  have keys: "\<forall>x \<in> set (map ttft (es @ es')). i64 (le_bin_key env x)" "\<forall>x \<in> set (map ev_LatencyMS (es @ es')). i64 (le_bin_key env x)"
    using okD(1) env by (auto simp: env_ok_def)
  have few: "few (length (map ttft (es @ es')))" "few (length (map ev_LatencyMS (es @ es')))" using n by simp_all
  obtain b1 s1 where b1: "sketch_MarshalBinary (le_bin_order env) (Some u) = Inr b1" "UnmarshalSketch b1 = Inr s1"
    "represents (le_bin_key env) s1 (map ttft (es @ es'))"
    using sketch_written [OF u(2) keys(1) few(1) o(1)] by blast
  obtain b2 s2 where b2: "sketch_MarshalBinary (le_bin_order env) (Some v) = Inr b2" "UnmarshalSketch b2 = Inr s2"
    "represents (le_bin_key env) s2 (map ev_LatencyMS (es @ es'))"
    using sketch_written [OF v(2) keys(2) few(2) o(1)] by blast
  have "\<forall>p \<in> event_point ` set (es @ es'). valid_point p" using okD(1) by blast
  then obtain b3 t where b3: "sample_MarshalBinary (le_point_order env) (Some w) = Inr b3" "UnmarshalSampleSet b3 = Inr t"
    "keeps t (event_point ` set (es @ es'))"
    using samples_written [OF w(2) okD(2) _ o(2)] by blast
  have "\<not> ls_SampleCount existing > MaxInt64 - ls_SampleCount incoming" using r n by (simp add: row_shows_def)
  then show ?thesis
    using d u v w b1 b2 b3 r
    by (auto simp: mergeLatencyRows_def row_shows_def latency_row_key_def peak_append)
qed

end
