(* ===== verification/RollupEffects.thy ===== *)
theory RollupEffects
  imports RollupLatency InboxBatch
begin

text \<open>
  What the operations on the rollups do to the tables, whichever statements fail: a page is added as a whole together
  with its checkpoint, or nothing changes.
\<close>

section \<open>The database\<close>

text \<open>
  The tables as they stand, and what gorm and SQLite promise of the statements on them: an error of a statement leaves
  the tables alone, except that a deletion may have happened; new events get ascending ids beyond
  those of all events there have been (\<open>AUTOINCREMENT\<close>), for which the largest id is kept; checkpoints have one row per name.
\<close>

record rollup_view =
  rv_events :: "UsageEvent list"
  rv_sequence :: int
  rv_archive :: "UsageEvent list"
  rv_checkpoints :: "UsageAggregationCheckpoint list"
  rv_hourly :: "UsageOverviewStat list"
  rv_daily :: "UsageOverviewStat list"
  rv_activity :: "UsageActivityStat list"
  rv_latency :: "UsageLatencyStat list"

text \<open>One table: how it is read from the view and put back, and what storing a row makes of it.\<close>

definition table_ok ::
  "('r list \<Rightarrow> 'r \<Rightarrow> 'r \<Rightarrow> bool) \<Rightarrow> ('s, 'r) sql_table \<Rightarrow> ('s \<Rightarrow> 'v) \<Rightarrow> ('v \<Rightarrow> 'r list) \<Rightarrow> ('r list \<Rightarrow> 'v \<Rightarrow> 'v) \<Rightarrow> bool" where
  "table_ok stored tb view get put \<longleftrightarrow>
     (\<forall>P s rs. tb_list tb P s = Inr rs \<longrightarrow> mset rs = mset (filter P (get (view s)))) \<and>
     (\<forall>P f s res t. tb_update tb P f s = (res, t) \<longrightarrow>
        (case res of
           Inl _ \<Rightarrow> view t = view s
         | Inr n \<Rightarrow> n = length (filter P (get (view s))) \<and> view t = put (map (\<lambda>r. if P r then f r else r) (get (view s))) (view s))) \<and>
     (\<forall>r s res t. tb_create tb r s = (res, t) \<longrightarrow>
        (case res of
           Inl _ \<Rightarrow> view t = view s
         | Inr _ \<Rightarrow> \<exists>r'. stored (get (view s)) r r' \<and> view t = put (get (view s) @ [r']) (view s))) \<and>
     (\<forall>P s res t. tb_delete tb P s = (res, t) \<longrightarrow>
        view t = put (filter (\<lambda>r. \<not> P r) (get (view s))) (view s) \<or> (\<exists>err. res = Inl err) \<and> view t = view s)"

definition as_given :: "'r list \<Rightarrow> 'r \<Rightarrow> 'r \<Rightarrow> bool" where
  "as_given rs r r' \<longleftrightarrow> r' = r"

definition with_new_id :: "UsageLatencyStat list \<Rightarrow> UsageLatencyStat \<Rightarrow> UsageLatencyStat \<Rightarrow> bool" where
  "with_new_id rs r r' \<longleftrightarrow> (\<exists>i. 0 < i \<and> i \<notin> ls_ID ` set rs \<and> r' = r\<lparr>ls_ID := i\<rparr>)"

definition ensured :: "UsageAggregationCheckpoint \<Rightarrow> UsageAggregationCheckpoint list \<Rightarrow> UsageAggregationCheckpoint list" where
  "ensured c cs = (if cp_Name c \<in> cp_Name ` set cs then cs else cs @ [c])"

definition checkpoints_ok :: "'s rollup_db \<Rightarrow> ('s \<Rightarrow> rollup_view) \<Rightarrow> bool" where
  "checkpoints_ok db view \<longleftrightarrow>
     table_ok as_given (ru_checkpoints db) view rv_checkpoints (\<lambda>cs v. v\<lparr>rv_checkpoints := cs\<rparr>) \<and>
     (\<forall>c s res t. ru_ensure db c s = (res, t) \<longrightarrow>
        (case res of Inl _ \<Rightarrow> view t = view s | Inr _ \<Rightarrow> view t = (view s)\<lparr>rv_checkpoints := ensured c (rv_checkpoints (view s))\<rparr>)) \<and>
     (\<forall>s. distinct (map cp_Name (rv_checkpoints (view s))))"

text \<open>New events get ascending ids beyond all that were given before.\<close>

definition new_events :: "UsageEvent list \<Rightarrow> UsageEvent list \<Rightarrow> rollup_view \<Rightarrow> rollup_view \<Rightarrow> bool" where
  "new_events es es' V V' \<longleftrightarrow> list_all2 stored_event es es' \<and> sorted_wrt (<) (rv_sequence V # map ev_ID es') \<and>
     V' = V\<lparr>rv_events := rv_events V @ es', rv_sequence := last (rv_sequence V # map ev_ID es')\<rparr>"

definition events_ok :: "'s rollup_db \<Rightarrow> ('s \<Rightarrow> rollup_view) \<Rightarrow> bool" where
  "events_ok db view \<longleftrightarrow>
     (\<forall>s n. ru_target db s = Inr n \<longrightarrow> n = Max (insert 0 (ev_ID ` set (rv_events (view s))))) \<and>
     (\<forall>cols P n s es. ru_events db cols P n s = Inr es \<longrightarrow> es = map cols (take n (filter P (rv_events (view s))))) \<and>
     (\<forall>es s res t. sql_insert_events (ru_inbox db) es s = (res, t) \<longrightarrow>
        (case res of Inl _ \<Rightarrow> view t = view s | Inr (es', _) \<Rightarrow> new_events es es' (view s) (view t)))"

text \<open>The statements of the archive.\<close>

definition of_ids :: "int list \<Rightarrow> UsageEvent list \<Rightarrow> UsageEvent list" where
  "of_ids js es = filter (\<lambda>e. ev_ID e \<in> set js) es"

definition archive_ok :: "'s rollup_db \<Rightarrow> ('s \<Rightarrow> rollup_view) \<Rightarrow> bool" where
  "archive_ok db view \<longleftrightarrow>
     (\<forall>P n s js. ru_expired db P n s = Inr js \<longrightarrow> distinct js \<and> set js \<subseteq> ev_ID ` {e \<in> set (rv_events (view s)). P e} \<and>
        length js = min n (length (filter P (rv_events (view s))))) \<and>
     (\<forall>js s res t. ru_archive db js s = (res, t) \<longrightarrow>
        (case res of
           Inl _ \<Rightarrow> view t = view s
         | Inr n \<Rightarrow> n = length (of_ids js (rv_events (view s))) \<and>
             view t = (view s)\<lparr>rv_archive := rv_archive (view s) @ of_ids js (rv_events (view s))\<rparr>)) \<and>
     (\<forall>js s n. ru_archived db js s = Inr n \<longrightarrow> n = length (of_ids js (rv_archive (view s)))) \<and>
     (\<forall>js s res t. ru_delete_events db js s = (res, t) \<longrightarrow>
        (case res of
           Inl _ \<Rightarrow> view t = view s
         | Inr n \<Rightarrow> n = length (of_ids js (rv_events (view s))) \<and>
             view t = (view s)\<lparr>rv_events := filter (\<lambda>e. ev_ID e \<notin> set js) (rv_events (view s))\<rparr>))"

definition rollup_db_ok :: "'s rollup_db \<Rightarrow> ('s \<Rightarrow> rollup_view) \<Rightarrow> bool" where
  "rollup_db_ok db view \<longleftrightarrow>
     transactions_ok (ru_inbox db) view \<and> checkpoints_ok db view \<and> events_ok db view \<and> archive_ok db view \<and>
     table_ok as_given (ru_hourly db) view rv_hourly (\<lambda>rs v. v\<lparr>rv_hourly := rs\<rparr>) \<and>
     table_ok as_given (ru_daily db) view rv_daily (\<lambda>rs v. v\<lparr>rv_daily := rs\<rparr>) \<and>
     table_ok as_given (ru_activity db) view rv_activity (\<lambda>rs v. v\<lparr>rv_activity := rs\<rparr>) \<and>
     table_ok with_new_id (ru_latency db) view rv_latency (\<lambda>rs v. v\<lparr>rv_latency := rs\<rparr>)"

section \<open>Statements in a transaction\<close>

text \<open>
  In a transaction only the outcome without error matters: \<open>does view c V Q\<close> says that when \<open>c\<close> ends without one, from
  tables \<open>V\<close>, then \<open>Q\<close> relates its value and the tables.
\<close>

definition succeeds_with :: "('s \<Rightarrow> 'v) \<Rightarrow> ('s, 'a) sql \<Rightarrow> 'v \<Rightarrow> ('a \<Rightarrow> 'v \<Rightarrow> bool) \<Rightarrow> bool" where
  "succeeds_with view c V Q \<longleftrightarrow> (\<forall>s x t. view s = V \<longrightarrow> run_state c s = (Inr x, t) \<longrightarrow> Q x (view t))"

lemma succeeds_withD: "succeeds_with view c (view s) Q \<Longrightarrow> run_state c s = (Inr x, t) \<Longrightarrow> Q x (view t)"
  by (simp add: succeeds_with_def)

lemma succeeds_and_then:
  "succeeds_with view c V R \<Longrightarrow> (\<And>x V'. R x V' \<Longrightarrow> succeeds_with view (f x) V' Q) \<Longrightarrow> succeeds_with view (and_then c f) V Q"
  unfolding succeeds_with_def run_and_then by blast

lemma succeeds_gives: "Q x V \<Longrightarrow> succeeds_with view (gives x) V Q"
  by (simp add: succeeds_with_def gives_def)

lemma succeeds_fails: "succeeds_with view (fails e) V Q"
  by (simp add: succeeds_with_def fails_def)

lemma succeeds_wrapped: "succeeds_with view c V Q \<Longrightarrow> succeeds_with view (wrapped what c) V Q"
  unfolding succeeds_with_def run_wrapped by blast

lemma succeeds_post: "succeeds_with view c V Q \<Longrightarrow> (\<And>x V'. Q x V' \<Longrightarrow> R x V') \<Longrightarrow> succeeds_with view c V R"
  unfolding succeeds_with_def by blast

lemma succeeds_for_each:
  assumes "\<And>x V. succeeds_with view (f x) V (\<lambda>_ V'. V' = g x V)"
  shows "succeeds_with view (for_each f xs) V (\<lambda>_ V'. V' = fold g xs V)"
proof (induction xs arbitrary: V)
  case Nil
  show ?case by (simp add: succeeds_gives)
next
  case (Cons x xs)
  show ?case unfolding for_each.simps
    by (rule succeeds_and_then [OF assms]) (use Cons.IH in simp)
qed

lemma succeeds_update:
  assumes "table_ok stored tb view get put"
  shows "succeeds_with view (State (tb_update tb P f)) V
    (\<lambda>n V'. n = length (filter P (get V)) \<and> V' = put (map (\<lambda>r. if P r then f r else r) (get V)) V)"
  using assms unfolding table_ok_def succeeds_with_def by fastforce

lemma succeeds_create:
  assumes "table_ok stored tb view get put"
  shows "succeeds_with view (State (tb_create tb r)) V (\<lambda>_ V'. \<exists>r'. stored (get V) r r' \<and> V' = put (get V @ [r']) V)"
  using assms unfolding table_ok_def succeeds_with_def by fastforce

text \<open>
  Outside a transaction an error counts as well: \<open>attempts view c V Q\<close> says that from tables \<open>V\<close> either \<open>c\<close> ends with
  an error and the tables are still \<open>V\<close>, or \<open>Q\<close> holds.
\<close>

definition attempts :: "('s \<Rightarrow> 'v) \<Rightarrow> ('s, 'a) sql \<Rightarrow> 'v \<Rightarrow> ('a \<Rightarrow> 'v \<Rightarrow> bool) \<Rightarrow> bool" where
  "attempts view c V Q \<longleftrightarrow> (\<forall>s res t. view s = V \<longrightarrow> run_state c s = (res, t) \<longrightarrow>
     (case res of Inl _ \<Rightarrow> view t = V | Inr x \<Rightarrow> Q x (view t)))"

lemma attemptsD: "attempts view c V Q \<Longrightarrow> view s = V \<Longrightarrow> run_state c s = (res, t) \<Longrightarrow>
    (case res of Inl _ \<Rightarrow> view t = V | Inr x \<Rightarrow> Q x (view t))"
  by (simp add: attempts_def)

lemma attempts_holds: "attempts view c V Q \<Longrightarrow>
    holds (\<lambda>s. view s = V) c (\<lambda>res s. case res of Inl _ \<Rightarrow> view s = V | Inr x \<Rightarrow> Q x (view s))"
  by (rule holdsI) (auto simp: attempts_def)

lemma attempts_and_then:
  assumes "attempts view c V (\<lambda>x V'. V' = V \<and> R x)" and "\<And>x. R x \<Longrightarrow> attempts view (f x) V Q"
  shows "attempts view (and_then c f) V Q"
  unfolding attempts_def
proof (intro allI impI)
  fix s res t assume s: "view s = V" and r: "run_state (and_then c f) s = (res, t)"
  obtain out u where u: "run_state c s = (out, u)" by fastforce
  note c = attemptsD [OF assms(1) s u]
  show "case res of Inl _ \<Rightarrow> view t = V | Inr x \<Rightarrow> Q x (view t)"
  proof (cases out)
    case (Inl e)
    then show ?thesis using r u c by (auto simp: and_then_def)
  next
    case (Inr x)
    then have "view u = V" "R x" "run_state (f x) u = (res, t)" using r u c by (simp_all add: and_then_def)
    then show ?thesis using attemptsD [OF assms(2)] by blast
  qed
qed

lemma attempts_gives: "Q x V \<Longrightarrow> attempts view (gives x) V Q"
  by (auto simp: attempts_def gives_def)

lemma attempts_fails: "attempts view (fails e) V Q"
  by (auto simp: attempts_def fails_def)

lemma attempts_wrapped: "attempts view c V Q \<Longrightarrow> attempts view (wrapped what c) V Q"
  unfolding attempts_def
proof (intro allI impI)
  fix s res t assume c: "\<forall>s res t. view s = V \<longrightarrow> run_state c s = (res, t) \<longrightarrow> (case res of Inl _ \<Rightarrow> view t = V | Inr x \<Rightarrow> Q x (view t))"
    and s: "view s = V" and r: "run_state (wrapped what c) s = (res, t)"
  obtain out u where u: "run_state c s = (out, u)" by fastforce
  then have "res = map_sum (\<lambda>err. what @ '': '' @ err) (\<lambda>x. x) out" "t = u" using r by (simp_all add: wrapped_def)
  moreover have "case out of Inl _ \<Rightarrow> view u = V | Inr x \<Rightarrow> Q x (view u)" using c s u by blast
  ultimately show "case res of Inl _ \<Rightarrow> view t = V | Inr x \<Rightarrow> Q x (view t)" by (cases out) simp_all
qed

lemma attempts_reads: "(\<And>s x. view s = V \<Longrightarrow> f s = Inr x \<Longrightarrow> Q x) \<Longrightarrow> attempts view (reads f) V (\<lambda>x V'. V' = V \<and> Q x)"
  by (auto simp: attempts_def reads_def split: sum.splits)

lemma attempts_post: "attempts view c V Q \<Longrightarrow> (\<And>x V'. Q x V' \<Longrightarrow> R x V') \<Longrightarrow> attempts view c V R"
  unfolding attempts_def by (metis (mono_tags, lifting) sum.case sum.exhaust)

lemma attempts_if: "(b \<Longrightarrow> attempts view c V Q) \<Longrightarrow> (\<not> b \<Longrightarrow> attempts view d V Q) \<Longrightarrow> attempts view (if b then c else d) V Q"
  by simp

lemma attempts_then_gives:
  assumes "attempts view c V R" and "\<And>x V'. R x V' \<Longrightarrow> Q k V'"
  shows "attempts view (and_then c (\<lambda>_. gives k)) V Q"
  unfolding attempts_def
proof (intro allI impI)
  fix s res t assume s: "view s = V" and r: "run_state (and_then c (\<lambda>_. gives k)) s = (res, t)"
  obtain out u where u: "run_state c s = (out, u)" by fastforce
  show "case res of Inl _ \<Rightarrow> view t = V | Inr x \<Rightarrow> Q x (view t)"
    using attemptsD [OF assms(1) s u] assms(2) r u by (cases out) (auto simp: and_then_def gives_def)
qed

lemma attempts_or_fail: "attempts view (or_fail text r) V (\<lambda>x V'. V' = V \<and> r = Inr x)"
  by (cases r) (simp_all add: or_fail_def attempts_fails attempts_gives)

text \<open>A transaction: all that its body did, or nothing.\<close>

lemma attempts_transaction:
  assumes "transactions_ok db view" and "succeeds_with view body V Q"
  shows "attempts view (transaction db body) V Q"
proof -
  have "holds (\<lambda>s. view s = V) (transaction db body) (\<lambda>res s. case res of Inl _ \<Rightarrow> view s = V | Inr x \<Rightarrow> Q x (view s))"
  proof (rule holds_transaction_of [OF assms(1)])
    show "holds (\<lambda>s. view s = V) body (\<lambda>res s. \<forall>x. res = Inr x \<longrightarrow> Q x (view s))"
      using assms(2) by (auto simp: succeeds_with_def intro!: holdsI)
  qed
  then show ?thesis by (auto simp: attempts_def dest: holdsD)
qed

section \<open>Adding rows\<close>

definition upserted :: "('r \<Rightarrow> bool) \<Rightarrow> ('r \<Rightarrow> 'r) \<Rightarrow> 'r \<Rightarrow> 'r list \<Rightarrow> 'r list" where
  "upserted P f r rows = (if \<exists>q \<in> set rows. P q then map (\<lambda>q. if P q then f q else q) rows else rows @ [r])"

lemma no_match: "length (filter P rows) = 0 \<longleftrightarrow> \<not> (\<exists>q \<in> set rows. P q)"
  by (auto simp: filter_empty_conv)

lemma map_unmatched: "\<not> (\<exists>q \<in> set rows. P q) \<Longrightarrow> map (\<lambda>q. if P q then f q else q) rows = rows"
  by (rule map_idI) auto

text \<open>How a table lies in the view.\<close>

definition lens :: "('v \<Rightarrow> 'r list) \<Rightarrow> ('r list \<Rightarrow> 'v \<Rightarrow> 'v) \<Rightarrow> bool" where
  "lens get put \<longleftrightarrow> (\<forall>x v. get (put x v) = x) \<and> (\<forall>x y v. put x (put y v) = put x v) \<and> (\<forall>v. put (get v) v = v)"

lemma lens_view:
  "lens rv_hourly (\<lambda>rs v. v\<lparr>rv_hourly := rs\<rparr>)" "lens rv_daily (\<lambda>rs v. v\<lparr>rv_daily := rs\<rparr>)"
  "lens rv_activity (\<lambda>rs v. v\<lparr>rv_activity := rs\<rparr>)" "lens rv_latency (\<lambda>rs v. v\<lparr>rv_latency := rs\<rparr>)"
  "lens rv_checkpoints (\<lambda>rs v. v\<lparr>rv_checkpoints := rs\<rparr>)"
  by (simp_all add: lens_def)

lemma fold_lens: "lens get put \<Longrightarrow> fold (\<lambda>x v. put (h x (get v)) v) xs v = put (fold h xs (get v)) v"
  by (induction xs arbitrary: v) (simp_all add: lens_def)

lemma insert_overview_effect:
  assumes tb: "table_ok as_given tb view get put" and none: "\<not> (\<exists>q \<in> set (get V). overviewDimensionsPredicate z row q)"
  shows "succeeds_with view (insert_overview_row z tb name now row) V
    (\<lambda>_ V'. V' = put (get V @ [row\<lparr>ov_CreatedAt := now, ov_UpdatedAt := now\<rparr>]) V)"
  unfolding succeeds_with_def
proof (intro allI impI)
  let ?P = "overviewDimensionsPredicate z row" and ?row = "row\<lparr>ov_CreatedAt := now, ov_UpdatedAt := now\<rparr>"
  fix s x t assume s: "view s = V" and run: "run_state (insert_overview_row z tb name now row) s = (Inr x, t)"
  obtain created u where c: "tb_create tb ?row s = (created, u)" by fastforce
  obtain retried w where w: "tb_update tb ?P (tokenStatUpdates row now) u = (retried, w)" by fastforce
  show "view t = put (get V @ [?row]) V"
  proof (cases created)
    case (Inr y)
    then have "t = u" using run by (simp add: insert_overview_row_def c gives_def)
    with tb c Inr s show ?thesis unfolding table_ok_def as_given_def by fastforce
  next
    case (Inl e)
    then have "view u = V" using tb c s unfolding table_ok_def by fastforce
    moreover have "n = length (filter ?P (get (view u)))" if "retried = Inr n" for n
      using tb w that unfolding table_ok_def by fastforce
    ultimately have "retried = Inr 0 \<or> (\<exists>err. retried = Inl err)" using none by (cases retried) (auto simp: no_match)
    then have False using run by (auto simp: insert_overview_row_def c w Inl fails_def gives_def)
    then show ?thesis ..
  qed
qed

lemma overview_row_effect:
  assumes tb: "table_ok as_given tb view get put" and l: "lens get put"
  shows "succeeds_with view (apply_overview_row z tb name now row) V
    (\<lambda>_ V'. V' = put (upserted (overviewDimensionsPredicate z row) (tokenStatUpdates row now)
       (row\<lparr>ov_CreatedAt := now, ov_UpdatedAt := now\<rparr>) (get V)) V)"
  unfolding apply_overview_row_def
proof (rule succeeds_and_then [OF succeeds_wrapped [OF succeeds_update [OF tb]]])
  let ?P = "overviewDimensionsPredicate z row"
  fix n V' assume n: "n = length (filter ?P (get V)) \<and> V' = put (map (\<lambda>r. if ?P r then tokenStatUpdates row now r else r) (get V)) V"
  show "succeeds_with view (if n > 0 then gives () else insert_overview_row z tb name now row) V'
    (\<lambda>_ V'. V' = put (upserted ?P (tokenStatUpdates row now) (row\<lparr>ov_CreatedAt := now, ov_UpdatedAt := now\<rparr>) (get V)) V)"
  proof (cases "\<exists>q \<in> set (get V). ?P q")
    case True
    then have "n > 0" using n no_match [of ?P "get V"] by auto
    with True n show ?thesis by (simp add: upserted_def succeeds_gives)
  next
    case False
    then have "n = 0" "V' = V" using n l by (simp_all add: no_match map_unmatched lens_def)
    with False show ?thesis using insert_overview_effect [where view = view, OF tb False] by (simp add: upserted_def)
  qed
qed

lemma activity_row_effect:
  assumes tb: "table_ok as_given (ru_activity db) view get put" and l: "lens get put"
  shows "succeeds_with view (activity_applyRow db now row) V
    (\<lambda>_ V'. V' = put (upserted (activity_key_predicate row) (activity_updates row now)
       (row\<lparr>as_CreatedAt := now, as_UpdatedAt := now\<rparr>) (get V)) V)"
  unfolding activity_applyRow_def
proof (rule succeeds_and_then [OF succeeds_wrapped [OF succeeds_update [OF tb]]])
  let ?P = "activity_key_predicate row"
  fix n V' assume n: "n = length (filter ?P (get V)) \<and> V' = put (map (\<lambda>r. if ?P r then activity_updates row now r else r) (get V)) V"
  show "succeeds_with view (if n > 0 then gives () else wrapped ''insert usage activity row''
      (State (tb_create (ru_activity db) (row\<lparr>as_CreatedAt := now, as_UpdatedAt := now\<rparr>)))) V'
    (\<lambda>_ V'. V' = put (upserted ?P (activity_updates row now) (row\<lparr>as_CreatedAt := now, as_UpdatedAt := now\<rparr>) (get V)) V)"
  proof (cases "\<exists>q \<in> set (get V). ?P q")
    case True
    then have "n > 0" using n no_match [of ?P "get V"] by auto
    with True n show ?thesis by (simp add: upserted_def succeeds_gives)
  next
    case False
    then have "n = 0" "V' = V" using n l by (simp_all add: no_match map_unmatched lens_def)
    with False show ?thesis
      using succeeds_post [OF succeeds_wrapped [OF succeeds_create [OF tb]]] by (simp add: upserted_def as_given_def)
  qed
qed

section \<open>The rows of a page\<close>

text \<open>The updates find their rows by text; where texts tell keys apart that is the counting table's own operation.\<close>

lemma overview_upserted:
  "upserted (overviewDimensionsPredicate z row) (tokenStatUpdates row now) (row\<lparr>ov_CreatedAt := now, ov_UpdatedAt := now\<rparr>) rows =
     overview_count.upsert z now row rows"
proof -
  have "overviewDimensionsPredicate z row = (\<lambda>q. text_key z (overview_row_key q) = text_key z (overview_row_key row))"
    by (rule ext) (simp add: overviewDimensionsPredicate_def text_key_def overview_row_key_def)
  then show ?thesis by (simp add: upserted_def overview_count.upsert_def)
qed

lemma activity_upserted:
  assumes "shown_row row" and "\<forall>r \<in> set rows. shown_row r"
  shows "upserted (activity_key_predicate row) (activity_updates row now) (row\<lparr>as_CreatedAt := now, as_UpdatedAt := now\<rparr>) rows =
     activity_count.upsert now row rows"
proof -
  have "activity_key_predicate row q \<longleftrightarrow> activity_row_key q = activity_row_key row" if "q \<in> set rows" for q
    using activity_predicate assms that by blast
  then show ?thesis unfolding upserted_def activity_count.upsert_def by (auto intro!: map_cong)
qed

lemma overview_ApplyRows_effect:
  assumes "rollup_db_ok db view"
  shows "succeeds_with view (overview_ApplyRows z db hourly daily now) V
    (\<lambda>_ V'. V' = V\<lparr>rv_hourly := fold (overview_count.upsert z now) hourly (rv_hourly V),
       rv_daily := fold (overview_count.upsert z now) daily (rv_daily V)\<rparr>)"
proof -
  have tb: "table_ok as_given (ru_hourly db) view rv_hourly (\<lambda>rs v. v\<lparr>rv_hourly := rs\<rparr>)"
    "table_ok as_given (ru_daily db) view rv_daily (\<lambda>rs v. v\<lparr>rv_daily := rs\<rparr>)"
    using assms by (simp_all add: rollup_db_ok_def)
  note effect = overview_row_effect [where z = z and now = now, unfolded overview_upserted]
  have h: "succeeds_with view (for_each (applyHourlyRow z db now) hourly) V
      (\<lambda>_ V'. V' = fold (\<lambda>row v. v\<lparr>rv_hourly := overview_count.upsert z now row (rv_hourly v)\<rparr>) hourly V)" for V
    unfolding applyHourlyRow_def by (rule succeeds_for_each) (rule effect [OF tb(1) lens_view(1)])
  have d: "succeeds_with view (for_each (applyDailyRow z db now) daily) V
      (\<lambda>_ V'. V' = fold (\<lambda>row v. v\<lparr>rv_daily := overview_count.upsert z now row (rv_daily v)\<rparr>) daily V)" for V
    unfolding applyDailyRow_def by (rule succeeds_for_each) (rule effect [OF tb(2) lens_view(2)])
  show ?thesis
    unfolding overview_ApplyRows_def
    by (rule succeeds_and_then [OF h], rule succeeds_post [OF d])
      (simp add: fold_lens [OF lens_view(1)] fold_lens [OF lens_view(2)])
qed

lemma activity_ApplyRows_effect:
  assumes db: "rollup_db_ok db view"
  shows "(\<forall>r \<in> set rows. shown_row r) \<Longrightarrow> (\<forall>r \<in> set (rv_activity V). shown_row r) \<Longrightarrow>
    succeeds_with view (activity_ApplyRows db rows now) V
      (\<lambda>_ V'. V' = V\<lparr>rv_activity := fold (activity_count.upsert now) rows (rv_activity V)\<rparr> \<and> (\<forall>r \<in> set (rv_activity V'). shown_row r))"
proof (induction rows arbitrary: V)
  case Nil
  then show ?case by (simp add: activity_ApplyRows_def succeeds_gives)
next
  case (Cons row rows)
  have tb: "table_ok as_given (ru_activity db) view rv_activity (\<lambda>rs v. v\<lparr>rv_activity := rs\<rparr>)"
    using db by (simp add: rollup_db_ok_def)
  note effect = activity_row_effect [where row = row and now = now and V = V, OF tb lens_view(3)]
  have "shown_row r" if "r \<in> set (activity_count.upsert now row (rv_activity V))" for r
    using that Cons.prems unfolding activity_count.upsert_def
    by (auto simp: shown_row_def activity_updates_def activity_row_key_def split: if_splits)
  then have shown: "\<forall>r \<in> set (activity_count.upsert now row (rv_activity V)). shown_row r" by blast
  show ?case
    unfolding activity_ApplyRows_def for_each.simps
  proof (rule succeeds_and_then [OF effect])
    fix x V' assume "V' = V\<lparr>rv_activity := upserted (activity_key_predicate row) (activity_updates row now)
      (row\<lparr>as_CreatedAt := now, as_UpdatedAt := now\<rparr>) (rv_activity V)\<rparr>"
    then have V': "V' = V\<lparr>rv_activity := activity_count.upsert now row (rv_activity V)\<rparr>"
      using activity_upserted Cons.prems by simp
    from Cons.IH [of V'] show "succeeds_with view (for_each (activity_applyRow db now) rows) V'
      (\<lambda>_ V'. V' = V\<lparr>rv_activity := fold (activity_count.upsert now) (row # rows) (rv_activity V)\<rparr> \<and> (\<forall>r \<in> set (rv_activity V'). shown_row r))"
      using Cons.prems shown unfolding activity_ApplyRows_def by (simp add: V')
  qed
qed

end
