(* ===== verification/RollupCursors.thy ===== *)
theory RollupCursors
  imports RollupEffects RollupArchive
begin

text \<open>
  The checkpoints and the pages of events: what the functions of \<open>usage_aggregation_checkpoint.go\<close> and
  \<open>usage_aggregation_page.go\<close> read from the tables, and what they do to them.
\<close>

section \<open>Checkpoints\<close>

definition cursor_in :: "rollup_view \<Rightarrow> UsageAggregationCheckpointName \<Rightarrow> int" where
  "cursor_in V name =
     (case filter (\<lambda>c. cp_Name c = name) (rv_checkpoints V) of [] \<Rightarrow> 0 | c # _ \<Rightarrow> cp_LastAggregatedUsageEventID c)"

definition named_once :: "rollup_view \<Rightarrow> bool" where
  "named_once V \<longleftrightarrow> distinct (map cp_Name (rv_checkpoints V))"

lemma db_named_once: "rollup_db_ok db view \<Longrightarrow> named_once (view s)"
  by (simp add: rollup_db_ok_def checkpoints_ok_def named_once_def)

lemma filter_name:
  assumes "distinct (map cp_Name cs)" and "c \<in> set cs"
  shows "filter (\<lambda>d. cp_Name d = cp_Name c) cs = [c]"
  using assms by (induction cs) (auto simp: filter_empty_conv image_iff)

lemma cursor_of_row: "named_once V \<Longrightarrow> c \<in> set (rv_checkpoints V) \<Longrightarrow> cursor_in V (cp_Name c) = cp_LastAggregatedUsageEventID c"
  by (simp add: cursor_in_def named_once_def filter_name)

lemma cursor_absent: "name \<notin> cp_Name ` set (rv_checkpoints V) \<Longrightarrow> cursor_in V name = 0"
  unfolding cursor_in_def by (subst filter_False) (auto split: list.split)

text \<open>Nothing but the cursor of that name is another.\<close>

definition advanced :: "rollup_view \<Rightarrow> UsageAggregationCheckpointName \<Rightarrow> int \<Rightarrow> rollup_view \<Rightarrow> bool" where
  "advanced V name n V' \<longleftrightarrow> cursor_in V' = (cursor_in V)(name := n) \<and> V'\<lparr>rv_checkpoints := rv_checkpoints V\<rparr> = V"

lemma cursor_ensured:
  assumes "cp_LastAggregatedUsageEventID c = 0"
  shows "cursor_in (V\<lparr>rv_checkpoints := ensured c (rv_checkpoints V)\<rparr>) = cursor_in V"
proof
  fix name
  show "cursor_in (V\<lparr>rv_checkpoints := ensured c (rv_checkpoints V)\<rparr>) name = cursor_in V name"
  proof (cases "cp_Name c \<in> cp_Name ` set (rv_checkpoints V) \<or> cp_Name c \<noteq> name")
    case True
    then show ?thesis by (auto simp: cursor_in_def ensured_def)
  next
    case False
    then show ?thesis using cursor_absent [of name V] assms
      by (auto simp: cursor_in_def ensured_def filter_empty_conv split: list.splits)
  qed
qed

lemma cursor_updated:
  assumes "distinct (map cp_Name cs)"
    and P: "P = (\<lambda>c. cp_Name c = name \<and> cp_LastAggregatedUsageEventID c = expected)" and one: "length (filter P cs) = 1"
    and f: "\<And>c. cp_Name (f c) = cp_Name c" "\<And>c. cp_LastAggregatedUsageEventID (f c) = n"
  shows "cursor_in (V\<lparr>rv_checkpoints := cs\<rparr>) name = expected"
    and "cursor_in (V\<lparr>rv_checkpoints := map (\<lambda>c. if P c then f c else c) cs\<rparr>) = (cursor_in (V\<lparr>rv_checkpoints := cs\<rparr>))(name := n)"
proof -
  obtain c where c: "filter P cs = [c]" using one by (auto simp: length_Suc_conv)
  then have "c \<in> set (filter P cs)" by simp
  then have in_cs: "c \<in> set cs" "P c" "cp_Name c = name" "cp_LastAggregatedUsageEventID c = expected" by (simp_all add: P)
  have named: "filter (\<lambda>d. cp_Name d = name) cs = [c]" using filter_name [OF assms(1) in_cs(1)] in_cs(3) by simp
  then show "cursor_in (V\<lparr>rv_checkpoints := cs\<rparr>) name = expected" using in_cs by (simp add: cursor_in_def)
  have name: "cp_Name (if P d then f d else d) = cp_Name d" for d by (simp add: f)
  have filter: "filter (\<lambda>d. cp_Name d = m) (map (\<lambda>c. if P c then f c else c) cs) =
      map (\<lambda>c. if P c then f c else c) (filter (\<lambda>d. cp_Name d = m) cs)" for m
    by (simp add: filter_map comp_def name)
  show "cursor_in (V\<lparr>rv_checkpoints := map (\<lambda>c. if P c then f c else c) cs\<rparr>) = (cursor_in (V\<lparr>rv_checkpoints := cs\<rparr>))(name := n)"
  proof
    fix m
    show "cursor_in (V\<lparr>rv_checkpoints := map (\<lambda>c. if P c then f c else c) cs\<rparr>) m = ((cursor_in (V\<lparr>rv_checkpoints := cs\<rparr>))(name := n)) m"
    proof (cases "m = name")
      case True
      then show ?thesis using named in_cs f by (simp add: cursor_in_def filter)
    next
      case False
      then have "\<not> P d" if "cp_Name d = m" for d using that by (simp add: P)
      then have "map (\<lambda>c. if P c then f c else c) (filter (\<lambda>d. cp_Name d = m) cs) = filter (\<lambda>d. cp_Name d = m) cs"
        by (intro map_idI) auto
      with False show ?thesis by (simp add: cursor_in_def filter)
    qed
  qed
qed

lemma Advance_effect:
  assumes db: "rollup_db_ok db view"
  shows "succeeds_with view (AdvanceUsageAggregationCheckpoint (Some db) name expected n now) V
    (\<lambda>_ V'. cursor_in V name = expected \<and> 0 \<le> expected \<and> expected < n \<and> advanced V name n V')"
proof (cases "name \<notin> set checkpoint_names \<or> expected < 0 \<or> n \<le> expected")
  case True
  then show ?thesis by (auto simp: AdvanceUsageAggregationCheckpoint_def succeeds_fails)
next
  case False
  let ?c = "\<lparr>cp_Name = name, cp_LastAggregatedUsageEventID = 0, cp_StatsUpdatedAt = None, cp_CreatedAt = now, cp_UpdatedAt = now\<rparr>"
  let ?P = "\<lambda>c. cp_Name c = name \<and> cp_LastAggregatedUsageEventID c = expected"
  let ?f = "\<lambda>c. c\<lparr>cp_LastAggregatedUsageEventID := n, cp_StatsUpdatedAt := Some now, cp_UpdatedAt := now\<rparr>"
  have tb: "table_ok as_given (ru_checkpoints db) view rv_checkpoints (\<lambda>cs v. v\<lparr>rv_checkpoints := cs\<rparr>)"
    using db by (simp add: rollup_db_ok_def checkpoints_ok_def)
  have ensure: "succeeds_with view (State (ru_ensure db ?c)) V
      (\<lambda>_ V'. V' = V\<lparr>rv_checkpoints := ensured ?c (rv_checkpoints V)\<rparr> \<and> named_once V')"
    unfolding succeeds_with_def
  proof (intro allI impI)
    fix s x t assume s: "view s = V" and r: "run_state (State (ru_ensure db ?c)) s = (Inr x, t)"
    then have "view t = V\<lparr>rv_checkpoints := ensured ?c (rv_checkpoints V)\<rparr>"
      using db by (fastforce simp: rollup_db_ok_def checkpoints_ok_def)
    moreover have "named_once (view t)" by (rule db_named_once [OF db])
    ultimately show "view t = V\<lparr>rv_checkpoints := ensured ?c (rv_checkpoints V)\<rparr> \<and> named_once (view t)" by simp
  qed
  have "succeeds_with view (and_then (wrapped (''ensure usage aggregation checkpoint '' @ quoted name) (State (ru_ensure db ?c)))
      (\<lambda>_. and_then (wrapped (''advance usage aggregation checkpoint '' @ quoted name) (State (tb_update (ru_checkpoints db) ?P ?f)))
        (\<lambda>affected. if affected \<noteq> 1
           then fails (''usage aggregation checkpoint '' @ quoted name @ '' conflict: expected cursor '' @ int_text expected)
           else gives ()))) V (\<lambda>_ V'. cursor_in V name = expected \<and> advanced V name n V')"
  proof (rule succeeds_and_then [OF succeeds_wrapped [OF ensure]], rule succeeds_and_then [OF succeeds_wrapped [OF succeeds_update [OF tb]]])
    fix x W k U assume W: "W = V\<lparr>rv_checkpoints := ensured ?c (rv_checkpoints V)\<rparr> \<and> named_once W"
      and k: "k = length (filter ?P (rv_checkpoints W)) \<and> U = W\<lparr>rv_checkpoints := map (\<lambda>r. if ?P r then ?f r else r) (rv_checkpoints W)\<rparr>"
    have "cursor_in V name = expected \<and> advanced V name n U" if "k = 1"
    proof -
      have d: "distinct (map cp_Name (rv_checkpoints W))" using W [THEN conjunct2] by (simp only: named_once_def)
      have one: "length (filter ?P (rv_checkpoints W)) = 1" using k that by simp
      have same: "cursor_in W = cursor_in V" using W cursor_ensured [of ?c V] by simp
      have WW: "W\<lparr>rv_checkpoints := rv_checkpoints W\<rparr> = W" by simp
      from cursor_updated [OF d refl one, of ?f n W] show ?thesis
        using k W unfolding WW same advanced_def by simp
    qed
    then show "succeeds_with view (if k \<noteq> 1
          then fails (''usage aggregation checkpoint '' @ quoted name @ '' conflict: expected cursor '' @ int_text expected)
          else gives ()) U (\<lambda>_ V'. cursor_in V name = expected \<and> advanced V name n V')"
      by (simp add: succeeds_fails succeeds_gives)
  qed
  with False show ?thesis by (simp add: AdvanceUsageAggregationCheckpoint_def)
qed

section \<open>Reading\<close>

definition snapshot_in :: "rollup_view \<Rightarrow> UsageAggregationCheckpointSnapshot" where
  "snapshot_in V = \<lparr>sn_OverviewCursor = cursor_in V UsageAggregationCheckpointOverview,
     sn_ActivityCursor = cursor_in V UsageAggregationCheckpointActivity,
     sn_LatencyCursor = cursor_in V UsageAggregationCheckpointLatency\<rparr>"

lemma snapshot_add_get:
  "sn_OverviewCursor (snapshot_add c sn) =
     (if cp_Name c = UsageAggregationCheckpointOverview then cp_LastAggregatedUsageEventID c else sn_OverviewCursor sn)"
  "sn_ActivityCursor (snapshot_add c sn) =
     (if cp_Name c = UsageAggregationCheckpointActivity then cp_LastAggregatedUsageEventID c else sn_ActivityCursor sn)"
  "sn_LatencyCursor (snapshot_add c sn) =
     (if cp_Name c = UsageAggregationCheckpointLatency then cp_LastAggregatedUsageEventID c else sn_LatencyCursor sn)"
  by (simp_all add: snapshot_add_def Let_def)

lemma fold_snapshot:
  "distinct (map cp_Name cs) \<Longrightarrow>
    sn_OverviewCursor (fold snapshot_add cs sn) = (case filter (\<lambda>c. cp_Name c = UsageAggregationCheckpointOverview) cs of
       [] \<Rightarrow> sn_OverviewCursor sn | c # _ \<Rightarrow> cp_LastAggregatedUsageEventID c) \<and>
    sn_ActivityCursor (fold snapshot_add cs sn) = (case filter (\<lambda>c. cp_Name c = UsageAggregationCheckpointActivity) cs of
       [] \<Rightarrow> sn_ActivityCursor sn | c # _ \<Rightarrow> cp_LastAggregatedUsageEventID c) \<and>
    sn_LatencyCursor (fold snapshot_add cs sn) = (case filter (\<lambda>c. cp_Name c = UsageAggregationCheckpointLatency) cs of
       [] \<Rightarrow> sn_LatencyCursor sn | c # _ \<Rightarrow> cp_LastAggregatedUsageEventID c)"
proof (induction cs arbitrary: sn)
  case (Cons c cs)
  have "filter (\<lambda>d. cp_Name d = cp_Name c) cs = []"
    using Cons.prems by (simp add: filter_empty_conv) (metis imageI)
  then show ?case using Cons.IH [of "snapshot_add c sn"] Cons.prems by (auto simp: snapshot_add_get split: list.splits)
qed simp

lemma perm_short: "mset xs = mset ys \<Longrightarrow> length ys \<le> 1 \<Longrightarrow> xs = ys"
  by (cases ys) auto

lemma filter_single_perm:
  assumes "mset rs = mset (filter Q cs)" and "distinct (map f cs)" and "\<And>c. f c = k \<Longrightarrow> Q c"
  shows "filter (\<lambda>c. f c = k) rs = filter (\<lambda>c. f c = k) cs"
proof -
  have "mset (filter (\<lambda>c. f c = k) rs) = mset (filter (\<lambda>c. f c = k) (filter Q cs))" using assms(1) by (simp only: mset_filter)
  also have "filter (\<lambda>c. f c = k) (filter Q cs) = filter (\<lambda>c. f c = k) cs" using assms(3) by (auto intro: filter_cong)
  finally have m: "mset (filter (\<lambda>c. f c = k) rs) = mset (filter (\<lambda>c. f c = k) cs)" .
  have "length (filter (\<lambda>c. f c = k) cs) \<le> 1" using assms(2)
    by (induction cs) (auto simp: filter_empty_conv image_iff)
  with m show ?thesis by (rule perm_short)
qed

lemma snapshot_loaded:
  assumes "rollup_db_ok db view"
  shows "attempts view (LoadUsageAggregationCheckpointSnapshot (Some db)) V (\<lambda>sn V'. V' = V \<and> sn = snapshot_in V)"
  unfolding LoadUsageAggregationCheckpointSnapshot_def option.case
proof (rule attempts_reads)
  fix s sn assume s: "view s = V" and r: "(case tb_list (ru_checkpoints db) (\<lambda>c. cp_Name c \<in> set checkpoint_names) s of
      Inl err \<Rightarrow> Inl (''load usage aggregation checkpoints: '' @ err)
    | Inr checkpoints \<Rightarrow> Inr (fold snapshot_add checkpoints
        \<lparr>sn_OverviewCursor = 0, sn_ActivityCursor = 0, sn_LatencyCursor = 0\<rparr>)) = Inr sn"
  obtain cs where cs: "tb_list (ru_checkpoints db) (\<lambda>c. cp_Name c \<in> set checkpoint_names) s = Inr cs"
    "sn = fold snapshot_add cs \<lparr>sn_OverviewCursor = 0, sn_ActivityCursor = 0, sn_LatencyCursor = 0\<rparr>"
    using r by (auto split: sum.splits)
  have m: "mset cs = mset (filter (\<lambda>c. cp_Name c \<in> set checkpoint_names) (rv_checkpoints V))"
    using assms cs(1) s by (auto simp: rollup_db_ok_def checkpoints_ok_def table_ok_def)
  have d: "distinct (map cp_Name (rv_checkpoints V))" using db_named_once [OF assms, of s] s by (simp add: named_once_def)
  have "mset (map cp_Name cs) = mset (map cp_Name (filter (\<lambda>c. cp_Name c \<in> set checkpoint_names) (rv_checkpoints V)))"
    using m by (simp only: mset_map)
  then have dc: "distinct (map cp_Name cs)" using d by (metis distinct_map_filter mset_eq_imp_distinct_iff)
  have f: "filter (\<lambda>c. cp_Name c = k) cs = filter (\<lambda>c. cp_Name c = k) (rv_checkpoints V)" if "k \<in> set checkpoint_names" for k
    using filter_single_perm [OF m d, of k] that by simp
  show "sn = snapshot_in V"
    by (rule UsageAggregationCheckpointSnapshot.equality)
      (simp_all add: cs(2) fold_snapshot [OF dc] f snapshot_in_def cursor_in_def checkpoint_names_def split: list.splits)
qed

end
