(* ===== verification/RollupState.thy ===== *)
theory RollupState
  imports RollupCursors
begin

text \<open>
  What the tables must say: which events each checkpoint stands for, and that the overview and activity tables are exact
  for them; and that adding a page keeps this.
\<close>

section \<open>The events a checkpoint stands for\<close>

text \<open>The events there are, archived or not; those up to an id; and a page of them, as it is loaded.\<close>

definition all_events :: "rollup_view \<Rightarrow> UsageEvent list" where
  "all_events V = rv_archive V @ rv_events V"

definition up_to :: "int \<Rightarrow> UsageEvent list \<Rightarrow> UsageEvent list" where
  "up_to n es = filter (\<lambda>e. ev_ID e \<le> n) es"

definition page_of :: "rollup_view \<Rightarrow> int \<Rightarrow> int \<Rightarrow> nat \<Rightarrow> UsageEvent list \<Rightarrow> bool" where
  "page_of V cursor target n page \<longleftrightarrow>
     page = map UsageAggregationEventProjectionColumns (take n (filter (\<lambda>e. ev_ID e > cursor \<and> ev_ID e \<le> target) (rv_events V)))"

definition events_in_order :: "rollup_view \<Rightarrow> bool" where
  "events_in_order V \<longleftrightarrow> sorted_wrt (<) (map ev_ID (rv_events V)) \<and> distinct (map ev_ID (all_events V)) \<and>
     (\<forall>e \<in> set (all_events V). 0 < ev_ID e \<and> ev_ID e \<le> rv_sequence V) \<and> 0 \<le> rv_sequence V \<and>
     (\<forall>name \<in> set checkpoint_names. 0 \<le> cursor_in V name \<and> cursor_in V name \<le> rv_sequence V \<and>
        (\<forall>e \<in> set (rv_archive V). ev_ID e \<le> cursor_in V name))"

lemma up_to_append: "up_to n (xs @ ys) = up_to n xs @ up_to n ys"
  by (simp add: up_to_def)

lemma prefix_below:
  fixes f :: "'a \<Rightarrow> int"
  assumes "sorted_wrt (<) (map f xs)" and "take n xs \<noteq> []"
  shows "take n xs = filter (\<lambda>x. f x \<le> f (last (take n xs))) xs"
proof -
  let ?m = "last (take n xs)"
  have s: "sorted_wrt (\<lambda>x y. f x < f y) (take n xs @ drop n xs)" using assms(1) by (simp add: sorted_wrt_map)
  have "f x \<le> f ?m" if "x \<in> set (take n xs)" for x
  proof -
    have "sorted_wrt (\<lambda>x y. f x < f y) (take n xs)" using s unfolding sorted_wrt_append by blast
    then have "sorted_wrt (\<lambda>x y. f x < f y) (butlast (take n xs) @ [?m])" by (simp only: append_butlast_last_id [OF assms(2)])
    moreover have "x \<in> set (butlast (take n xs)) \<or> x = ?m"
      using that append_butlast_last_id [OF assms(2)] by (metis Un_iff set_append set_ConsD empty_iff list.set(1))
    ultimately show ?thesis by (auto simp: sorted_wrt_append)
  qed
  moreover have "\<not> f x \<le> f ?m" if "x \<in> set (drop n xs)" for x
    using s that last_in_set [OF assms(2)] unfolding sorted_wrt_append by force
  ultimately have "filter (\<lambda>x. f x \<le> f ?m) (take n xs @ drop n xs) = take n xs"
    by (simp only: filter_append) (simp add: filter_id_conv filter_empty_conv)
  then show ?thesis by simp
qed

lemma page_filter:
  assumes "sorted_wrt (<) (map ev_ID (rv_events V))" and "page_of V c target k page" and "page \<noteq> []"
  defines "n \<equiv> ev_ID (last page)"
  shows "c < n \<and> n \<le> target \<and> n \<in> ev_ID ` set (rv_events V) \<and>
    page = map UsageAggregationEventProjectionColumns (filter (\<lambda>e. c < ev_ID e \<and> ev_ID e \<le> n) (rv_events V))"
proof -
  let ?hot = "filter (\<lambda>e. ev_ID e > c \<and> ev_ID e \<le> target) (rv_events V)"
  have page: "page = map UsageAggregationEventProjectionColumns (take k ?hot)" "take k ?hot \<noteq> []" using assms(2, 3) by (simp_all add: page_of_def)
  then have n: "n = ev_ID (last (take k ?hot))" by (simp add: n_def last_map UsageAggregationEventProjectionColumns_def)
  have "sorted_wrt (<) (map ev_ID ?hot)" using assms(1) by (simp add: sorted_wrt_map sorted_wrt_filter)
  from prefix_below [OF this page(2)] have t: "take k ?hot = filter (\<lambda>e. ev_ID e \<le> n) ?hot" by (simp add: n)
  have "last (take k ?hot) \<in> set ?hot" using last_in_set [OF page(2)] by (meson in_set_takeD)
  then have b: "c < n" "n \<le> target" "n \<in> ev_ID ` set (rv_events V)" using n by auto
  then have "filter (\<lambda>e. ev_ID e \<le> n) ?hot = filter (\<lambda>e. c < ev_ID e \<and> ev_ID e \<le> n) (rv_events V)"
    unfolding filter_filter by (auto intro: filter_cong)
  with page(1) t b show ?thesis by simp
qed

text \<open>A page is what lies between the checkpoint and its last event.\<close>

lemma page_counts:
  assumes V: "events_in_order V" and name: "name \<in> set checkpoint_names"
    and page: "page_of V (cursor_in V name) target k page" "page \<noteq> []"
  defines "n \<equiv> ev_ID (last page)"
  obtains es where "page = map UsageAggregationEventProjectionColumns es" "sorted_wrt (<) (map ev_ID es)"
    "\<exists>P. es = filter P (rv_events V)" "mset (up_to n (all_events V)) = mset (up_to (cursor_in V name) (all_events V) @ es)"
    "cursor_in V name < n" "n \<le> rv_sequence V" "n \<le> target" "\<forall>e \<in> set es. cursor_in V name < ev_ID e \<and> ev_ID e \<le> n"
proof
  let ?c = "cursor_in V name" and ?es = "filter (\<lambda>e. cursor_in V name < ev_ID e \<and> ev_ID e \<le> n) (rv_events V)"
  have sorted: "sorted_wrt (<) (map ev_ID (rv_events V))" using V by (simp add: events_in_order_def)
  note p = page_filter [OF sorted page, folded n_def]
  show "page = map UsageAggregationEventProjectionColumns ?es" "?c < n" "n \<le> target" using p by blast+
  show "n \<le> rv_sequence V" using p V by (auto simp: events_in_order_def all_events_def)
  show "sorted_wrt (<) (map ev_ID ?es)" using sorted by (simp add: sorted_wrt_map sorted_wrt_filter)
  show "\<exists>P. ?es = filter P (rv_events V)" by blast
  have arch: "up_to m (rv_archive V) = rv_archive V" if "?c \<le> m" for m
    using V name that unfolding up_to_def filter_id_conv by (fastforce simp: events_in_order_def)
  have low: "filter (\<lambda>e. ev_ID e \<le> ?c) (filter (\<lambda>e. ev_ID e \<le> n) (rv_events V)) = up_to ?c (rv_events V)"
    unfolding filter_filter up_to_def using p by (auto intro: filter_cong)
  have high: "filter (\<lambda>e. \<not> ev_ID e \<le> ?c) (filter (\<lambda>e. ev_ID e \<le> n) (rv_events V)) = ?es"
    unfolding filter_filter by (auto intro: filter_cong)
  have "mset (up_to n (rv_events V)) = mset (up_to ?c (rv_events V)) + mset ?es"
    unfolding low [symmetric] high [symmetric] up_to_def [of n] mset_filter by (rule multiset_partition)
  then show "mset (up_to n (all_events V)) = mset (up_to ?c (all_events V) @ ?es)"
    using arch [of n] arch [of ?c] p unfolding all_events_def up_to_append by simp
qed simp

text \<open>The last event of a page has the largest id.\<close>

lemma sorted_last_Max:
  fixes f :: "'a \<Rightarrow> int"
  assumes "sorted_wrt (<) (map f xs)" and "xs \<noteq> []" and "\<forall>x \<in> set xs. 0 < f x"
  shows "Max (insert 0 (f ` set xs)) = f (last xs)"
proof (rule Max_eqI)
  have "take (length xs) xs = filter (\<lambda>x. f x \<le> f (last (take (length xs) xs))) xs"
    by (rule prefix_below) (use assms in simp_all)
  then have "xs = filter (\<lambda>x. f x \<le> f (last xs)) xs" by simp
  then have "\<forall>x \<in> set xs. f x \<le> f (last xs)" by (metis filter_id_conv)
  moreover have "0 < f (last xs)" using assms by simp
  ultimately show "y \<le> f (last xs)" if "y \<in> insert 0 (f ` set xs)" for y using that by auto
  show "f (last xs) \<in> insert 0 (f ` set xs)" using assms(2) by simp
qed simp

section \<open>What the columns can hold\<close>

text \<open>
  Sums stay within 64 bits, times within the years 0 to 9999, and a timed event has an id and times a sample can keep.
\<close>

definition load_ok :: "UsageEvent list \<Rightarrow> bool" where
  "load_ok es \<longleftrightarrow> fits es \<and> few (length es) \<and> (\<forall>e \<in> set es. dated (ev_Timestamp e) \<and> (skipped e \<or> event_ok e))"

lemma load_ok_cong: "mset es = mset es' \<Longrightarrow> load_ok es \<longleftrightarrow> load_ok es'"
  using fits_cong [of es es'] mset_eq_length [of es es'] mset_eq_setD [of es es'] by (simp add: load_ok_def)

lemma load_ok_filter: "load_ok es \<Longrightarrow> load_ok (filter P es)"
  using fits_filter [of es P] length_filter_le [of P es] by (auto simp: load_ok_def intro: le_trans [OF length_filter_le])

lemma load_ok_left: "load_ok (xs @ ys) \<Longrightarrow> load_ok xs"
proof -
  assume a: "load_ok (xs @ ys)"
  have "fits xs" unfolding fits_def
  proof (intro conjI ballI)
    show "int (length xs) \<le> MaxInt64" using a by (simp add: load_ok_def fits_def)
    fix f e assume f: "f \<in> token_columns"
    then have all: "\<forall>e \<in> set (xs @ ys). 0 \<le> f e" "sum_list (map f (xs @ ys)) \<le> MaxInt64"
      using a unfolding load_ok_def fits_def by blast+
    then have "0 \<le> sum_list (map f ys)" by (intro sum_list_nonneg) auto
    then show "sum_list (map f xs) \<le> MaxInt64" using all(2) by simp
    show "0 \<le> f e" if "e \<in> set xs" using all(1) that by simp
  qed
  then show ?thesis using a by (simp add: load_ok_def)
qed

section \<open>Exact tables\<close>

definition overview_exact :: "zone \<Rightarrow> UsageEvent list \<Rightarrow> rollup_view \<Rightarrow> bool" where
  "overview_exact z es V \<longleftrightarrow>
     overview_count.exact z (\<lambda>e. text_key z (hour_key e)) (\<lambda>_. True) es (rv_hourly V) \<and>
     overview_count.exact z (\<lambda>e. text_key z (day_key z e)) (\<lambda>_. True) es (rv_daily V)"

definition retained_at :: "gtime set \<Rightarrow> aggregateKey \<Rightarrow> bool" where
  "retained_at T k \<longleftrightarrow> (\<forall>now \<in> T. retained now k)"

definition activity_exact :: "zone \<Rightarrow> gtime set \<Rightarrow> UsageEvent list \<Rightarrow> rollup_view \<Rightarrow> bool" where
  "activity_exact z T es V \<longleftrightarrow>
     activity_count.exact z (retained_at T) (slots es) (rv_activity V) \<and> (\<forall>r \<in> set (rv_activity V). shown_row r)"

lemma proj_simps [simp]:
  "ev_ID (UsageAggregationEventProjectionColumns e) = ev_ID e" "ev_Timestamp (UsageAggregationEventProjectionColumns e) = ev_Timestamp e"
  "ev_APIGroupKey (UsageAggregationEventProjectionColumns e) = ev_APIGroupKey e" "ev_Failed (UsageAggregationEventProjectionColumns e) = ev_Failed e"
  "ev_Generate (UsageAggregationEventProjectionColumns e) = ev_Generate e" "ev_TTFTMS (UsageAggregationEventProjectionColumns e) = ev_TTFTMS e"
  "ev_LatencyMS (UsageAggregationEventProjectionColumns e) = ev_LatencyMS e"
  "hour_key (UsageAggregationEventProjectionColumns e) = hour_key e" "day_key z (UsageAggregationEventProjectionColumns e) = day_key z e"
  by (simp_all add: UsageAggregationEventProjectionColumns_def hour_key_def day_key_def event_dimensions_def)

lemma token_columns_proj: "f \<in> token_columns \<Longrightarrow> f (UsageAggregationEventProjectionColumns e) = f e"
  by (auto simp: token_columns_def UsageAggregationEventProjectionColumns_def)

lemma overview_columns_proj: "(c, a) \<in> overview_columns \<Longrightarrow> a (UsageAggregationEventProjectionColumns e) = a e"
  by (auto simp: overview_columns_def UsageAggregationEventProjectionColumns_def)

lemma fits_proj: "fits (map UsageAggregationEventProjectionColumns es) \<longleftrightarrow> fits es"
  unfolding fits_def by (simp add: comp_def token_columns_proj cong: map_cong ball_cong)

lemma overview_exact_proj:
  assumes "\<And>e. key (UsageAggregationEventProjectionColumns e) = key e"
  shows "overview_count.exact z (\<lambda>e. text_key z (key e)) good (map UsageAggregationEventProjectionColumns es) rows \<longleftrightarrow>
    overview_count.exact z (\<lambda>e. text_key z (key e)) good es rows"
  by (rule overview_count.exact_map) (simp_all add: assms overview_columns_proj)

lemma overview_key_exact:
  assumes key: "\<And>e. key (UsageAggregationEventProjectionColumns e) = key e"
    and rows: "table_right key (map UsageAggregationEventProjectionColumns es) rows" and fits: "fits es"
    and tbl: "overview_count.exact z (\<lambda>e. text_key z (key e)) (\<lambda>_. True) old tbl"
  shows "overview_count.exact z (\<lambda>e. text_key z (key e)) (\<lambda>_. True) (old @ es) (fold (overview_count.upsert z now) rows tbl)"
proof -
  note proj = overview_exact_proj [where key = key, OF key]
  have "fits (map UsageAggregationEventProjectionColumns es)" using fits by (simp add: fits_proj)
  moreover have "overview_count.exact z (\<lambda>e. text_key z (key e)) (\<lambda>_. True) (map UsageAggregationEventProjectionColumns old) tbl"
    unfolding proj by (rule tbl)
  ultimately have "overview_count.exact z (\<lambda>e. text_key z (key e)) (\<lambda>_. True) (map UsageAggregationEventProjectionColumns (old @ es))
      (fold (overview_count.upsert z now) rows tbl)"
    unfolding map_append by (rule overview_page_exact [OF rows])
  then show ?thesis unfolding proj .
qed

text \<open>Adding the rows of a page to the overview tables.\<close>

definition page_counted :: "rollup_view \<Rightarrow> UsageAggregationCheckpointName \<Rightarrow> UsageEvent list \<Rightarrow> int \<Rightarrow> bool" where
  "page_counted V name es n \<longleftrightarrow> mset (up_to n (all_events V)) = mset (up_to (cursor_in V name) (all_events V) @ es)"

lemma overview_exact_cong: "mset es = mset es' \<Longrightarrow> overview_exact z es V \<Longrightarrow> overview_exact z es' V"
  unfolding overview_exact_def by (auto elim!: overview_count.exact_cong)

lemma activity_exact_cong:
  assumes "mset es = mset es'" and "activity_exact z T es V"
  shows "activity_exact z T es' V"
proof -
  have "mset (slots es) = mset (slots es')"
  proof -
    have "mset (slots xs) = sum_mset (image_mset (\<lambda>e. mset (map (\<lambda>g. (g, e)) allGrains)) (mset xs))" for xs
      by (induction xs) (simp_all add: slots_def)
    then show ?thesis using assms(1) by simp
  qed
  then have "mset (filter (\<lambda>s. slot_key z s = k) (slots es)) = mset (filter (\<lambda>s. slot_key z s = k) (slots es'))" for k
    by (simp only: mset_filter)
  then show ?thesis using assms(2) unfolding activity_exact_def by (auto elim!: activity_count.exact_cong)
qed

lemma overview_page_added:
  assumes V: "overview_exact z old V" and fits: "fits es" and ord: "iteration_order ord"
    and built: "OverviewBuildRows ord z (map UsageAggregationEventProjectionColumns es) = (hourly, daily, n)"
    and W: "rv_hourly W = fold (overview_count.upsert z now) hourly (rv_hourly V)"
      "rv_daily W = fold (overview_count.upsert z now) daily (rv_daily V)"
  shows "overview_exact z (old @ es) W"
proof -
  have rows: "table_right hour_key (map UsageAggregationEventProjectionColumns es) hourly"
    "table_right (day_key z) (map UsageAggregationEventProjectionColumns es) daily"
    using overview_rows_built [OF ord built] by simp_all
  show ?thesis
    using V overview_key_exact [where key = hour_key, OF _ rows(1) fits] overview_key_exact [where key = "day_key z", OF _ rows(2) fits]
    by (simp add: overview_exact_def W)
qed

lemma activity_page_added:
  assumes V: "activity_exact z T old V" and load: "load_ok es" and z: "zone_ok z" and ord: "iteration_order ord"
  obtains rows where "ActivityBuildRows ord z (map UsageAggregationEventProjectionColumns es) now = Inr rows" "\<forall>r \<in> set rows. shown_row r"
    "\<And>W. rv_activity W = fold (activity_count.upsert now) rows (rv_activity V) \<Longrightarrow> \<forall>r \<in> set (rv_activity W). shown_row r \<Longrightarrow>
       activity_exact z (insert now T) (old @ es) W"
proof -
  let ?p = UsageAggregationEventProjectionColumns
  have proj: "activity_count.exact z good (slots (map ?p xs)) rows \<longleftrightarrow> activity_count.exact z good (slots xs) rows" for good xs rows
  proof -
    have "slots (map ?p xs) = map (map_prod id ?p) (slots xs)"
      by (induction xs) (simp_all add: slots_def comp_def)
    moreover have "slot_key z (map_prod id ?p s) = slot_key z s" for s
      by (cases s) (simp add: slot_key_def slot_bucket_def)
    moreover have "a (map_prod id ?p s) = a s" if "(c, a) \<in> activity_columns_of" for c a s
      using that by (cases s) (auto simp: activity_columns_of_def UsageAggregationEventProjectionColumns_def)
    ultimately show ?thesis using activity_count.exact_map [where es = "slots xs" and z = z and f = "map_prod id ?p"] by simp
  qed
  have now: "retained now k" if "retained_at (insert now T) k" for k using that by (simp add: retained_at_def)
  have "activity_count.exact z (retained_at (insert now T)) (slots old) (rv_activity V)"
    using V activity_count.exact_weaken by (fastforce simp: activity_exact_def retained_at_def)
  moreover have "\<forall>e \<in> set (map ?p es). dated (ev_Timestamp e)" "fits (map ?p es)" using load by (simp_all add: load_ok_def fits_proj)
  moreover have "\<forall>r \<in> set (rv_activity V). shown_row r" using V by (simp add: activity_exact_def)
  ultimately obtain rows where rows: "ActivityBuildRows ord z (map ?p es) now = Inr rows" "\<forall>r \<in> set rows. shown_row r"
    "activity_count.exact z (retained_at (insert now T)) (slots (map ?p old @ map ?p es)) (fold (activity_count.upsert now) rows (rv_activity V))"
    using activity_page_exact [where page = "map ?p es" and es = "map ?p old" and tbl = "rv_activity V" and z = z and ord = ord and now = now
        and good = "retained_at (insert now T)"] z ord now by (auto simp: proj)
  from that [OF rows(1, 2)] show thesis using rows(3) by (simp add: activity_exact_def proj flip: map_append)
qed

end
