(* ===== verification/RollupLatencyPage.thy ===== *)
theory RollupLatencyPage
  imports RollupState
begin

text \<open>
  The latency table: a page's rows are merged with the stored rows of their keys and written back, and every row goes on
  showing the events of its key.
\<close>

section \<open>A table that shows events\<close>

definition stored_latency_key :: "zone \<Rightarrow> latencyKey \<Rightarrow> rowKey" where
  "stored_latency_key z k = (fst k, FormatStorageTime z (fst (snd k)), snd (snd k))"

lemma latencyRowKey_stored: "latencyRowKey z row = stored_latency_key z (latency_row_key row)"
  by (simp add: latencyRowKey_def stored_latency_key_def latency_row_key_def)

text \<open>The events a row of a stored key is about, and the keys that no clean-up and no reading of the clock has dropped.\<close>

definition latency_of :: "zone \<Rightarrow> rowKey \<Rightarrow> UsageEvent list \<Rightarrow> UsageEvent list" where
  "latency_of z k es = filter (\<lambda>e. \<not> skipped e \<and> k \<in> stored_latency_key z ` set (event_keys z e)) es"

definition latency_retained :: "zone \<Rightarrow> gtime set \<Rightarrow> rowKey \<Rightarrow> bool" where
  "latency_retained z T k \<longleftrightarrow> (\<forall>now \<in> T. \<forall>cutoff. RetentionBucketStartCutoff z (fst k) now = Inr cutoff \<longrightarrow>
     FormatStorageTime z cutoff \<le> fst (snd k) \<and> (\<forall>start. FormatStorageTime z start = fst (snd k) \<longrightarrow> cutoff \<le> start))"

definition shows_some :: "latency_env \<Rightarrow> UsageLatencyStat \<Rightarrow> UsageEvent list \<Rightarrow> bool" where
  "shows_some env row es \<longleftrightarrow> es \<noteq> [] \<and> latency_events_ok es \<and> row_shows env row es"

text \<open>Each row shows events of its key, and all of them if the key is a good one.\<close>

definition latency_table ::
  "latency_env \<Rightarrow> zone \<Rightarrow> (rowKey \<Rightarrow> bool) \<Rightarrow> (rowKey \<Rightarrow> UsageEvent list) \<Rightarrow> UsageLatencyStat list \<Rightarrow> bool" where
  "latency_table env z good ev rows \<longleftrightarrow>
     distinct (map (latencyRowKey z) rows) \<and> distinct (map ls_ID rows) \<and> (\<forall>r \<in> set rows. 0 < ls_ID r) \<and>
     (\<forall>k. good k \<longrightarrow> (k \<in> latencyRowKey z ` set rows \<longleftrightarrow> ev k \<noteq> [])) \<and>
     (\<forall>r \<in> set rows. \<exists>es. shows_some env r es \<and> mset es \<subseteq># mset (ev (latencyRowKey z r)) \<and>
        (good (latencyRowKey z r) \<longrightarrow> mset es = mset (ev (latencyRowKey z r))))"

lemma latency_table_weaken:
  assumes "latency_table env z good ev rows"
    and "\<And>k. good' k \<Longrightarrow> good k \<and> mset (ev k) = mset (ev' k)" and "\<And>k. mset (ev k) \<subseteq># mset (ev' k)"
  shows "latency_table env z good' ev' rows"
  unfolding latency_table_def
proof (intro conjI allI impI ballI)
  show "distinct (map (latencyRowKey z) rows)" "distinct (map ls_ID rows)" using assms(1) unfolding latency_table_def by blast+
  show "0 < ls_ID r" if "r \<in> set rows" for r using assms(1) that unfolding latency_table_def by blast
  show "k \<in> latencyRowKey z ` set rows \<longleftrightarrow> ev' k \<noteq> []" if "good' k" for k
  proof -
    have "ev k = [] \<longleftrightarrow> ev' k = []" using assms(2) [OF that] by (metis mset_zero_iff)
    moreover have "k \<in> latencyRowKey z ` set rows \<longleftrightarrow> ev k \<noteq> []"
      using assms(1) assms(2) [OF that] unfolding latency_table_def by blast
    ultimately show ?thesis by simp
  qed
  fix r assume r: "r \<in> set rows"
  then obtain es where es: "shows_some env r es" "mset es \<subseteq># mset (ev (latencyRowKey z r))"
    "good (latencyRowKey z r) \<longrightarrow> mset es = mset (ev (latencyRowKey z r))"
    using assms(1) unfolding latency_table_def by blast
  show "\<exists>es. shows_some env r es \<and> mset es \<subseteq># mset (ev' (latencyRowKey z r)) \<and>
      (good' (latencyRowKey z r) \<longrightarrow> mset es = mset (ev' (latencyRowKey z r)))"
    using es assms(2) [of "latencyRowKey z r"] subset_mset.order_trans [OF es(2) assms(3)] by auto
qed

lemma latency_table_delete:
  assumes "latency_table env z good ev rows" and "\<And>r. r \<in> set rows \<Longrightarrow> good (latencyRowKey z r) \<Longrightarrow> P r"
  shows "latency_table env z good ev (filter P rows)"
proof -
  have "k \<in> latencyRowKey z ` set (filter P rows) \<longleftrightarrow> k \<in> latencyRowKey z ` set rows" if "good k" for k
    using assms(2) that by auto
  then show ?thesis using assms(1) by (simp add: latency_table_def distinct_map_filter)
qed

section \<open>Writing one row\<close>

definition stored_row_of :: "zone \<Rightarrow> UsageLatencyStat list \<Rightarrow> rowKey \<Rightarrow> UsageLatencyStat option" where
  "stored_row_of z rows k = (case filter (\<lambda>r. latencyRowKey z r = k) rows of [] \<Rightarrow> None | r # _ \<Rightarrow> Some r)"

definition written :: "UsageLatencyStat \<Rightarrow> UsageLatencyStat list \<Rightarrow> UsageLatencyStat list \<Rightarrow> bool" where
  "written p rows rows' \<longleftrightarrow>
     (if ls_ID p > 0 then rows' = map (\<lambda>r. if ls_ID r = ls_ID p then latency_updates p r else r) rows
      else \<exists>i. 0 < i \<and> i \<notin> ls_ID ` set rows \<and> rows' = rows @ [p\<lparr>ls_ID := i\<rparr>])"

lemma latency_updates_simps [simp]:
  "latencyRowKey z (latency_updates p r) = latencyRowKey z r" "ls_ID (latency_updates p r) = ls_ID r"
  "row_shows env (latency_updates p r) es \<longleftrightarrow> row_shows env p es"
  by (simp_all add: latency_updates_def latencyRowKey_def row_shows_def)

lemma latency_id_simps [simp]:
  "latencyRowKey z (p\<lparr>ls_ID := i\<rparr>) = latencyRowKey z p" "row_shows env (p\<lparr>ls_ID := i\<rparr>) es \<longleftrightarrow> row_shows env p es"
  by (simp_all add: latencyRowKey_def row_shows_def)

lemma stored_None: "stored_row_of z rows k = None \<longleftrightarrow> k \<notin> latencyRowKey z ` set rows"
proof -
  have "stored_row_of z rows k = None \<longleftrightarrow> filter (\<lambda>r. latencyRowKey z r = k) rows = []"
    by (simp add: stored_row_of_def split: list.splits)
  then show ?thesis by (auto simp: filter_empty_conv)
qed

lemma stored_Some: "stored_row_of z rows k = Some r \<Longrightarrow> r \<in> set rows \<and> latencyRowKey z r = k"
proof -
  assume "stored_row_of z rows k = Some r"
  then have "r \<in> set (filter (\<lambda>r. latencyRowKey z r = k) rows)"
    by (cases "filter (\<lambda>r. latencyRowKey z r = k) rows") (simp_all add: stored_row_of_def del: set_filter)
  then show ?thesis by simp
qed

text \<open>The prepared row shows the events of the stored one and those of the page.\<close>

definition prepared_row ::
  "latency_env \<Rightarrow> zone \<Rightarrow> (rowKey \<Rightarrow> bool) \<Rightarrow> (rowKey \<Rightarrow> UsageEvent list) \<Rightarrow> UsageEvent list \<Rightarrow> UsageLatencyStat list \<Rightarrow>
     rowKey \<Rightarrow> UsageLatencyStat \<Rightarrow> bool" where
  "prepared_row env z good ev E rows k p \<longleftrightarrow> latencyRowKey z p = k \<and>
     (case stored_row_of z rows k of
        None \<Rightarrow> ls_ID p = 0 \<and> shows_some env p E
      | Some r \<Rightarrow> ls_ID p = ls_ID r \<and> (\<exists>es. shows_some env p (es @ E) \<and> mset es \<subseteq># mset (ev k) \<and> (good k \<longrightarrow> mset es = mset (ev k))))"

lemma distinct_sub:
  assumes "mset xs \<subseteq># mset ys" and "distinct ys"
  shows "distinct xs"
proof -
  have "count (mset xs) a = (if a \<in> set xs then 1 else 0)" for a
  proof -
    have "count (mset xs) a \<le> count (mset ys) a" by (rule mset_subset_eq_count [OF assms(1)])
    moreover have "count (mset ys) a \<le> 1" using assms(2) by (simp add: distinct_count_atmost_1)
    ultimately have le: "count (mset xs) a \<le> 1" by simp
    show ?thesis
    proof (cases "a \<in> set xs")
      case True
      then have "0 < count (mset xs) a" by simp
      with le have "count (mset xs) a = 1" by linarith
      with True show ?thesis by (simp only: if_True)
    next
      case False
      then show ?thesis by (simp only: count_mset_0_iff if_False not_False_eq_True)
    qed
  qed
  then show ?thesis by (simp add: distinct_count_atmost_1)
qed

lemma latency_events_ok_mset:
  assumes "latency_events_ok es" and "mset es' \<subseteq># mset es"
  shows "latency_events_ok es'"
proof -
  have "length es' \<le> length es" using assms(2) size_mset_mono by fastforce
  moreover have "set es' \<subseteq> set es" using assms(2) by (metis set_mset_mono set_mset_mset)
  moreover have "mset (map ev_ID es') \<subseteq># mset (map ev_ID es)" using assms(2) by (simp add: image_mset_subseteq_mono)
  then have "distinct (map ev_ID es')" using assms(1) distinct_sub unfolding latency_events_ok_def by blast
  ultimately show ?thesis using assms(1) by (auto simp: latency_events_ok_def intro: order_trans)
qed

lemma merged_row:
  assumes env: "env_ok env" and tbl: "latency_table env z good ev rows"
    and inc: "shows_some env row E" "ls_ID row = 0" and k: "latencyRowKey z row = k" and ok: "latency_events_ok (ev k @ E)"
  shows "\<exists>p. mergeLatencyRows env (stored_row_of z rows k) row now = Inr p \<and> prepared_row env z good ev E rows k p"
proof (cases "stored_row_of z rows k")
  case None
  obtain d where "decodeLatencyRow env row = Inr d" using decode_shown [OF env] inc by (auto simp: shows_some_def)
  then show ?thesis using None inc k
    by (simp add: mergeLatencyRows_def prepared_row_def shows_some_def latencyRowKey_def row_shows_def)
next
  case (Some r)
  from stored_Some [OF this] tbl k obtain es where r: "r \<in> set rows" "latencyRowKey z r = k"
    and es: "shows_some env r es" "mset es \<subseteq># mset (ev k)" "good k \<longrightarrow> mset es = mset (ev k)"
    unfolding latency_table_def by blast
  have "mset (es @ E) \<subseteq># mset (ev k @ E)" using es(2) by simp
  from latency_events_ok_mset [OF ok this] have ok': "latency_events_ok (es @ E)" .
  from merge_shown [OF env _ _ ok', of r row now] es inc obtain p where
    p: "mergeLatencyRows env (Some r) row now = Inr p" "row_shows env p (es @ E)" "latency_row_key p = latency_row_key r" "ls_ID p = ls_ID r"
    by (auto simp: shows_some_def)
  then show ?thesis using Some r es inc ok' by (auto simp: prepared_row_def latencyRowKey_stored shows_some_def)
qed

lemma row_written:
  assumes tbl: "latency_table env z good ev rows" and p: "prepared_row env z good ev E rows k p" and E: "E \<noteq> []"
    and w: "written p rows rows'"
  shows "latency_table env z good (ev(k := ev k @ E)) rows'"
    and "k' \<noteq> k \<Longrightarrow> stored_row_of z rows' k' = stored_row_of z rows k'"
proof -
  have d: "distinct (map (latencyRowKey z) rows)" "distinct (map ls_ID rows)" "\<forall>r \<in> set rows. 0 < ls_ID r"
    and good: "\<And>k. good k \<Longrightarrow> k \<in> latencyRowKey z ` set rows \<longleftrightarrow> ev k \<noteq> []"
    and old: "\<And>r. r \<in> set rows \<Longrightarrow> \<exists>es. shows_some env r es \<and> mset es \<subseteq># mset (ev (latencyRowKey z r)) \<and>
        (good (latencyRowKey z r) \<longrightarrow> mset es = mset (ev (latencyRowKey z r)))"
    using tbl unfolding latency_table_def by blast+
  have "latency_table env z good (ev(k := ev k @ E)) rows' \<and> (k' \<noteq> k \<longrightarrow> stored_row_of z rows' k' = stored_row_of z rows k')"
  proof (cases "stored_row_of z rows k")
    case None
    with p have pk: "latencyRowKey z p = k" "ls_ID p = 0" "shows_some env p E" by (simp_all add: prepared_row_def)
    have new: "k \<notin> latencyRowKey z ` set rows" using None by (simp add: stored_None)
    obtain i where i: "0 < i" "i \<notin> ls_ID ` set rows" "rows' = rows @ [p\<lparr>ls_ID := i\<rparr>]" using w pk(2) by (auto simp: written_def)
    have "\<exists>es. shows_some env r es \<and> mset es \<subseteq># mset ((ev(k := ev k @ E)) (latencyRowKey z r)) \<and>
        (good (latencyRowKey z r) \<longrightarrow> mset es = mset ((ev(k := ev k @ E)) (latencyRowKey z r)))" if r: "r \<in> set rows'" for r
    proof (cases "r \<in> set rows")
      case True
      with new have "latencyRowKey z r \<noteq> k" by blast
      then show ?thesis using old [OF True] by simp
    next
      case False
      then have "r = p\<lparr>ls_ID := i\<rparr>" using r i(3) by simp
      moreover have "ev k = []" if "good k" using good [OF that] new by simp
      ultimately show ?thesis using pk by (intro exI [of _ E]) (auto simp: shows_some_def)
    qed
    moreover have "k' \<in> latencyRowKey z ` set rows' \<longleftrightarrow> (ev(k := ev k @ E)) k' \<noteq> []" if "good k'" for k'
      using good [OF that] E i(3) pk(1) by auto
    ultimately have "latency_table env z good (ev(k := ev k @ E)) rows'"
      using d i pk(1) new unfolding latency_table_def by auto
    moreover have "stored_row_of z rows' k' = stored_row_of z rows k'" if "k' \<noteq> k"
      using that i(3) pk(1) by (simp add: stored_row_of_def)
    ultimately show ?thesis by blast
  next
    case (Some r)
    from stored_Some [OF this] have r: "r \<in> set rows" "latencyRowKey z r = k" by simp_all
    from p Some obtain es where pk: "latencyRowKey z p = k" "ls_ID p = ls_ID r" "shows_some env p (es @ E)" "mset es \<subseteq># mset (ev k)"
      "good k \<longrightarrow> mset es = mset (ev k)" by (auto simp: prepared_row_def)
    let ?f = "\<lambda>q. if ls_ID q = ls_ID p then latency_updates p q else q"
    have rows': "rows' = map ?f rows" using w d(3) r(1) pk(2) by (simp add: written_def)
    have same: "map (latencyRowKey z) rows' = map (latencyRowKey z) rows" "map ls_ID rows' = map ls_ID rows"
      unfolding rows' by (simp_all add: if_distrib [of "latencyRowKey z"] if_distrib [of ls_ID] cong: if_cong)
    have id: "q = r" if "q \<in> set rows" "ls_ID q = ls_ID p" for q
      using d(2) r(1) that pk(2) by (simp add: distinct_map inj_on_def)
    have key: "latencyRowKey z q = k \<longleftrightarrow> q = r" if "q \<in> set rows" for q
      using d(1) r that by (auto simp: distinct_map inj_on_def)
    have "\<exists>es. shows_some env q es \<and> mset es \<subseteq># mset ((ev(k := ev k @ E)) (latencyRowKey z q)) \<and>
        (good (latencyRowKey z q) \<longrightarrow> mset es = mset ((ev(k := ev k @ E)) (latencyRowKey z q)))" if "q \<in> set rows'" for q
    proof -
      have "q \<in> ?f ` set rows" using that unfolding rows' by (simp only: set_map)
      then obtain q0 where q0: "q0 \<in> set rows" "q = ?f q0" by (rule imageE) blast
      show ?thesis
      proof (cases "q0 = r")
        case True
        then have "q = latency_updates p r" using q0(2) pk(2) by simp
        then show ?thesis using pk r by (intro exI [of _ "es @ E"]) (auto simp: shows_some_def)
      next
        case False
        then have "q = q0" "latencyRowKey z q0 \<noteq> k" using q0 id key by auto
        then show ?thesis using old [OF q0(1)] by simp
      qed
    qed
    moreover have "k' \<in> latencyRowKey z ` set rows' \<longleftrightarrow> (ev(k := ev k @ E)) k' \<noteq> []" if "good k'" for k'
    proof -
      have "latencyRowKey z ` set rows' = latencyRowKey z ` set rows" using same(1) by (metis set_map)
      then show ?thesis using good [OF that] r E by auto
    qed
    moreover have "\<forall>q \<in> set rows'. 0 < ls_ID q" using same(2) d(3) by (metis (mono_tags, lifting) imageE image_eqI set_map)
    ultimately have "latency_table env z good (ev(k := ev k @ E)) rows'" using same d unfolding latency_table_def by auto
    moreover have "stored_row_of z rows' k' = stored_row_of z rows k'" if "k' \<noteq> k"
    proof -
      have "filter (\<lambda>q. latencyRowKey z q = k') rows' = map ?f (filter (\<lambda>q. latencyRowKey z q = k') rows)"
        unfolding rows' by (simp add: filter_map comp_def if_distrib [of "latencyRowKey z"] cong: if_cong)
      also have "\<dots> = filter (\<lambda>q. latencyRowKey z q = k') rows"
        using id r(2) that by (intro map_idI) (auto)
      finally show ?thesis by (simp add: stored_row_of_def)
    qed
    ultimately show ?thesis by blast
  qed
  then show "latency_table env z good (ev(k := ev k @ E)) rows'"
    "k' \<noteq> k \<Longrightarrow> stored_row_of z rows' k' = stored_row_of z rows k'" by blast+
qed

section \<open>Writing all the rows\<close>

fun all_written :: "UsageLatencyStat list \<Rightarrow> UsageLatencyStat list \<Rightarrow> UsageLatencyStat list \<Rightarrow> bool" where
  "all_written [] rows rows' \<longleftrightarrow> rows' = rows"
| "all_written (p # ps) rows rows' \<longleftrightarrow> (\<exists>mid. written p rows mid \<and> all_written ps mid rows')"

lemma all_rows_written:
  assumes "env_ok env" and "latency_table env z good ev rows" and "distinct (map (latencyRowKey z) incs)"
    and "list_all2 (\<lambda>inc p. mergeLatencyRows env (stored_row_of z rows (latencyRowKey z inc)) inc now = Inr p) incs ps"
    and "\<And>inc. inc \<in> set incs \<Longrightarrow> shows_some env inc (E (latencyRowKey z inc)) \<and> ls_ID inc = 0 \<and>
       latency_events_ok (ev (latencyRowKey z inc) @ E (latencyRowKey z inc))"
    and "all_written ps rows rows'"
  shows "latency_table env z good (\<lambda>k. if k \<in> latencyRowKey z ` set incs then ev k @ E k else ev k) rows'"
  using assms(2-)
proof (induction incs arbitrary: ps rows ev)
  case (Cons inc incs)
  let ?k = "latencyRowKey z inc"
  from Cons.prems(3) obtain p qs where ps: "ps = p # qs" "mergeLatencyRows env (stored_row_of z rows ?k) inc now = Inr p"
    "list_all2 (\<lambda>inc p. mergeLatencyRows env (stored_row_of z rows (latencyRowKey z inc)) inc now = Inr p) incs qs"
    by (auto simp: list_all2_Cons1)
  with Cons.prems(5) obtain mid where mid: "written p rows mid" "all_written qs mid rows'" by auto
  have inc: "shows_some env inc (E ?k)" "ls_ID inc = 0" "latency_events_ok (ev ?k @ E ?k)" using Cons.prems(4) by auto
  from merged_row [OF assms(1) Cons.prems(1) inc(1, 2) refl inc(3), of now] ps(2)
  have p: "prepared_row env z good ev (E ?k) rows ?k p" by simp
  have E: "E ?k \<noteq> []" using inc(1) by (simp add: shows_some_def)
  note step = row_written [OF Cons.prems(1) p E mid(1)]
  have other: "latencyRowKey z q \<noteq> ?k" if "q \<in> set incs" for q using Cons.prems(2) that by (auto simp: image_iff)
  have "latency_table env z good (\<lambda>k. if k \<in> latencyRowKey z ` set incs then (ev(?k := ev ?k @ E ?k)) k @ E k else (ev(?k := ev ?k @ E ?k)) k) rows'"
  proof (rule Cons.IH [OF step(1) _ _ _ mid(2)])
    show "distinct (map (latencyRowKey z) incs)" using Cons.prems(2) by simp
    show "list_all2 (\<lambda>inc p. mergeLatencyRows env (stored_row_of z mid (latencyRowKey z inc)) inc now = Inr p) incs qs"
      by (rule list.rel_mono_strong [OF ps(3)]) (simp add: step(2) other)
    show "shows_some env q (E (latencyRowKey z q)) \<and> ls_ID q = 0 \<and>
        latency_events_ok ((ev(?k := ev ?k @ E ?k)) (latencyRowKey z q) @ E (latencyRowKey z q))" if "q \<in> set incs" for q
      using Cons.prems(4) [of q] other [OF that] that by simp
  qed
  moreover have "(\<lambda>k. if k \<in> latencyRowKey z ` set incs then (ev(?k := ev ?k @ E ?k)) k @ E k else (ev(?k := ev ?k @ E ?k)) k) =
      (\<lambda>k. if k \<in> latencyRowKey z ` set (inc # incs) then ev k @ E k else ev k)"
  proof
    fix k
    have "k \<notin> latencyRowKey z ` set incs" if "k = ?k" using other that by blast
    then show "(if k \<in> latencyRowKey z ` set incs then (ev(?k := ev ?k @ E ?k)) k @ E k else (ev(?k := ev ?k @ E ?k)) k) =
        (if k \<in> latencyRowKey z ` set (inc # incs) then ev k @ E k else ev k)"
      by (cases "k = ?k") simp_all
  qed
  ultimately show ?case by (simp only:)
qed simp

section \<open>What the functions do\<close>

lemma mget_fold_mput:
  "distinct (map f rows) \<Longrightarrow> mget (fold (\<lambda>row m. mput m (f row) (g row)) rows m) k =
     (case filter (\<lambda>r. f r = k) rows of [] \<Rightarrow> mget m k | r # _ \<Rightarrow> Some (g r))"
proof (induction rows arbitrary: m)
  case (Cons r rows)
  have "filter (\<lambda>q. f q = f r) rows = []" using Cons.prems by (simp add: filter_empty_conv) (metis imageI)
  then show ?case using Cons.IH [of "mput m (f r) (g r)"] Cons.prems by (auto split: list.splits)
qed simp

lemma merge_keys:
  "foldE (merge_key env old inc now) ks acc = Inr rows \<Longrightarrow>
     \<exists>qs. rows = acc @ qs \<and> list_all2 (\<lambda>k p. mergeLatencyRows env (mget old k) (the (mget inc k)) now = Inr p) ks qs"
proof (induction ks arbitrary: acc)
  case (Cons k ks)
  obtain acc' where acc': "merge_key env old inc now k acc = Inr acc'" "foldE (merge_key env old inc now) ks acc' = Inr rows"
    using Cons.prems by (auto simp: bindE_def split: sum.splits)
  then obtain p where p: "mergeLatencyRows env (mget old k) (the (mget inc k)) now = Inr p"
    "foldE (merge_key env old inc now) ks (acc @ [p]) = Inr rows"
    by (auto simp: merge_key_def [of env old inc now k acc] bindE_def split: sum.splits)
  from Cons.IH [OF p(2)] obtain qs where "rows = (acc @ [p]) @ qs"
    "list_all2 (\<lambda>k p. mergeLatencyRows env (mget old k) (the (mget inc k)) now = Inr p) ks qs" by blast
  with p(1) show ?case by (intro exI [of _ "p # qs"]) simp
qed simp

lemma rows_collected:
  "foldE (collect_row env z) rows (ks, m) = Inr (ks', m') \<Longrightarrow> (\<And>k. mget m k \<noteq> None \<longleftrightarrow> k \<in> set ks) \<Longrightarrow> distinct ks \<Longrightarrow>
     ks' = ks @ map (latencyRowKey z) rows \<and> distinct ks' \<and> (\<forall>r \<in> set rows. mget m' (latencyRowKey z r) = Some r) \<and>
     (\<forall>k \<in> set ks. mget m' k = mget m k)"
proof (induction rows arbitrary: ks m)
  case (Cons r rows)
  let ?k = "latencyRowKey z r"
  obtain km where km: "collect_row env z r (ks, m) = Inr km" "foldE (collect_row env z) rows km = Inr (ks', m')"
    using Cons.prems(1) by (auto simp: bindE_def split: sum.splits)
  then have new: "mget m ?k = None" and rest: "foldE (collect_row env z) rows (ks @ [?k], mput m ?k r) = Inr (ks', m')"
    by (auto simp: collect_row_def [of env z r] Let_def bindE_def split: if_splits sum.splits)
  have "?k \<notin> set ks" using new Cons.prems(2) by blast
  have all: "ks' = (ks @ [?k]) @ map (latencyRowKey z) rows \<and> distinct ks' \<and> (\<forall>r \<in> set rows. mget m' (latencyRowKey z r) = Some r) \<and>
      (\<forall>k \<in> set (ks @ [?k]). mget m' k = mget (mput m ?k r) k)"
  proof (rule Cons.IH [OF rest])
    show "mget (mput m ?k r) k \<noteq> None \<longleftrightarrow> k \<in> set (ks @ [?k])" for k using Cons.prems(2) [of k] by (cases "k = ?k") simp_all
    show "distinct (ks @ [?k])" using Cons.prems(3) \<open>?k \<notin> set ks\<close> by simp
  qed
  have old: "mget (mput m ?k r) k = mget m k" if "k \<in> set ks" for k using that \<open>?k \<notin> set ks\<close> by (cases "k = ?k") simp_all
  show ?case
  proof (intro conjI)
    show "ks' = ks @ map (latencyRowKey z) (r # rows)" using all by simp
    show "distinct ks'" using all by blast
    show "\<forall>q \<in> set (r # rows). mget m' (latencyRowKey z q) = Some q" "\<forall>k \<in> set ks. mget m' k = mget m k"
      using all old by simp_all
  qed
qed simp

lemma found_stored:
  assumes "mset found = mset (filter (\<lambda>r. latencyRowKey z r \<in> K) rows)" and "distinct (map (latencyRowKey z) rows)" and "k \<in> K"
  shows "mget (fold (\<lambda>row m. mput m (latencyRowKey z row) row) found []) k = stored_row_of z rows k"
proof -
  have "mset (map (latencyRowKey z) found) = mset (map (latencyRowKey z) (filter (\<lambda>r. latencyRowKey z r \<in> K) rows))"
    using assms(1) by (simp only: mset_map)
  then have "distinct (map (latencyRowKey z) found)" using assms(2) by (metis distinct_map_filter mset_eq_imp_distinct_iff)
  moreover have "filter (\<lambda>r. latencyRowKey z r = k) found = filter (\<lambda>r. latencyRowKey z r = k) rows"
    using filter_single_perm [OF assms(1, 2), of k] assms(3) by simp
  ultimately show ?thesis by (simp add: mget_fold_mput stored_row_of_def split: list.splits)
qed

lemma chunks_prepared:
  assumes db: "rollup_db_ok db view" and V: "distinct (map (latencyRowKey z) (rv_latency V))"
  shows "attempts view (prepare_chunks env text z db now m ks start acc) V
    (\<lambda>ps V'. V' = V \<and> (\<exists>qs. ps = acc @ qs \<and>
       list_all2 (\<lambda>k p. mergeLatencyRows env (stored_row_of z (rv_latency V) k) (the (mget m k)) now = Inr p) (drop start ks) qs))"
proof (induction "length ks - start" arbitrary: start acc rule: less_induct)
  case less
  let ?ok = "\<lambda>k p. mergeLatencyRows env (stored_row_of z (rv_latency V) k) (the (mget m k)) now = Inr p"
  let ?chunk = "take (min (start + loadKeyBatchSize) (length ks) - start) (drop start ks)"
  show ?case
  proof (cases "start < length ks")
    case False
    then show ?thesis by (subst prepare_chunks.simps) (simp add: attempts_gives)
  next
    case True
    have split: "drop start ks = ?chunk @ drop (start + loadKeyBatchSize) ks"
      using append_take_drop_id [of loadKeyBatchSize "drop start ks"] by (simp add: min_def add.commute)
    have tb: "table_ok with_new_id (ru_latency db) view rv_latency (\<lambda>rs v. v\<lparr>rv_latency := rs\<rparr>)"
      using db by (simp add: rollup_db_ok_def)
    have list: "attempts view (wrapped w (reads (tb_list (ru_latency db) P))) V
        (\<lambda>found V'. V' = V \<and> mset found = mset (filter P (rv_latency V)))" for w P
      by (rule attempts_wrapped, rule attempts_reads) (use tb in \<open>auto simp: table_ok_def\<close>)
    have rest: "attempts view (case foldE (merge_key env (fold (\<lambda>row m. mput m (latencyRowKey z row) row) found []) m now) ?chunk acc of
          Inl e \<Rightarrow> fails (text e) | Inr rows \<Rightarrow> prepare_chunks env text z db now m ks (start + loadKeyBatchSize) rows) V
        (\<lambda>ps V'. V' = V \<and> (\<exists>qs. ps = acc @ qs \<and> list_all2 ?ok (drop start ks) qs))"
      if found: "mset found = mset (filter (\<lambda>row. latencyRowKey z row \<in> set ?chunk) (rv_latency V))" for found
    proof (cases "foldE (merge_key env (fold (\<lambda>row m. mput m (latencyRowKey z row) row) found []) m now) ?chunk acc")
      case (Inr rows)
      from merge_keys [OF Inr] obtain qs where qs: "rows = acc @ qs" "list_all2 (\<lambda>k p. mergeLatencyRows env
          (mget (fold (\<lambda>row m. mput m (latencyRowKey z row) row) found []) k) (the (mget m k)) now = Inr p) ?chunk qs" by blast
      then have chunk: "list_all2 ?ok ?chunk qs"
        by (elim list.rel_mono_strong) (simp only: found_stored [OF found V])
      have "attempts view (prepare_chunks env text z db now m ks (start + loadKeyBatchSize) rows) V
          (\<lambda>ps V'. V' = V \<and> (\<exists>qs. ps = rows @ qs \<and> list_all2 ?ok (drop (start + loadKeyBatchSize) ks) qs))"
        by (rule less) (use True in simp)
      then have "attempts view (prepare_chunks env text z db now m ks (start + loadKeyBatchSize) rows) V
          (\<lambda>ps V'. V' = V \<and> (\<exists>qs. ps = acc @ qs \<and> list_all2 ?ok (drop start ks) qs))"
      proof (rule attempts_post, elim conjE exE)
        fix ps V' qs' assume "V' = V" "ps = rows @ qs'" "list_all2 ?ok (drop (start + loadKeyBatchSize) ks) qs'"
        moreover from this have "list_all2 ?ok (?chunk @ drop (start + loadKeyBatchSize) ks) (qs @ qs')"
          by (intro list_all2_appendI [OF chunk])
        then have "list_all2 ?ok (drop start ks) (qs @ qs')" by (simp only: split [symmetric])
        ultimately show "V' = V \<and> (\<exists>qs. ps = acc @ qs \<and> list_all2 ?ok (drop start ks) qs)" using qs(1) by simp
      qed
      then show ?thesis by (simp add: Inr)
    qed (simp add: attempts_fails)
    show ?thesis
      by (subst prepare_chunks.simps)
        (use True in \<open>auto simp: Let_def intro!: attempts_and_then [OF list] rest simp del: drop_drop\<close>)
  qed
qed

lemma PrepareRows_effect:
  assumes db: "rollup_db_ok db view" and V: "distinct (map (latencyRowKey z) (rv_latency V))"
  shows "attempts view (PrepareRows env text z (Some db) rows now) V
    (\<lambda>ps V'. V' = V \<and> distinct (map (latencyRowKey z) rows) \<and>
       list_all2 (\<lambda>r p. mergeLatencyRows env (stored_row_of z (rv_latency V) (latencyRowKey z r)) r now = Inr p) rows ps)"
proof (cases "rows = []")
  case True
  then show ?thesis by (simp add: PrepareRows_def attempts_gives)
next
  case False
  show ?thesis
  proof (cases "foldE (collect_row env z) rows ([], [])")
    case (Inl e)
    with False show ?thesis by (simp add: PrepareRows_def attempts_fails)
  next
    case (Inr km)
    then obtain ks m where km: "foldE (collect_row env z) rows ([], []) = Inr (ks, m)" by (cases km) simp
    have "ks = [] @ map (latencyRowKey z) rows \<and> distinct ks \<and> (\<forall>r \<in> set rows. mget m (latencyRowKey z r) = Some r) \<and>
      (\<forall>k \<in> set []. mget m k = mget [] k)" by (rule rows_collected [OF km]) simp_all
    then have ks: "ks = map (latencyRowKey z) rows" "distinct ks"
      "\<forall>r \<in> set rows. mget m (latencyRowKey z r) = Some r" by auto
    from chunks_prepared [OF db V, where env = env and now = now and m = m and ks = ks and start = 0 and acc = "[]"]
    have "attempts view (prepare_chunks env text z db now m ks 0 []) V
      (\<lambda>ps V'. V' = V \<and> distinct (map (latencyRowKey z) rows) \<and>
         list_all2 (\<lambda>r p. mergeLatencyRows env (stored_row_of z (rv_latency V) (latencyRowKey z r)) r now = Inr p) rows ps)"
      by (rule attempts_post) (use ks in \<open>auto simp: list_all2_map1 list_all2_conv_all_nth\<close>)
    with False km show ?thesis by (simp add: PrepareRows_def)
  qed
qed

lemma write_row_effect:
  assumes "rollup_db_ok db view"
  shows "succeeds_with view (write_row db p) V (\<lambda>_ V'. \<exists>rows'. written p (rv_latency V) rows' \<and> V' = V\<lparr>rv_latency := rows'\<rparr>)"
proof -
  have tb: "table_ok with_new_id (ru_latency db) view rv_latency (\<lambda>rs v. v\<lparr>rv_latency := rs\<rparr>)"
    using assms by (simp add: rollup_db_ok_def)
  show ?thesis
  proof (cases "ls_ID p > 0")
    case True
    have "succeeds_with view (write_row db p) V (\<lambda>_ V'. V' = V\<lparr>rv_latency :=
        map (\<lambda>r. if ls_ID r = ls_ID p then latency_updates p r else r) (rv_latency V)\<rparr>)"
      unfolding write_row_def if_P [OF True]
      by (rule succeeds_and_then [OF succeeds_wrapped [OF succeeds_update [OF tb]]]) (simp add: succeeds_fails succeeds_gives)
    then show ?thesis by (rule succeeds_post) (use True in \<open>auto simp: written_def\<close>)
  next
    case False
    have "succeeds_with view (write_row db p) V (\<lambda>_ V'. \<exists>r'. with_new_id (rv_latency V) p r' \<and> V' = V\<lparr>rv_latency := rv_latency V @ [r']\<rparr>)"
      unfolding write_row_def if_not_P [OF False] by (rule succeeds_wrapped [OF succeeds_create [OF tb]])
    then show ?thesis by (rule succeeds_post) (use False in \<open>auto simp: written_def with_new_id_def\<close>)
  qed
qed

lemma WritePreparedRows_effect:
  assumes db: "rollup_db_ok db view"
  shows "succeeds_with view (WritePreparedRows env text z (Some db) ps) V
    (\<lambda>_ V'. \<exists>rows'. all_written ps (rv_latency V) rows' \<and> V' = V\<lparr>rv_latency := rows'\<rparr>)"
proof -
  have "succeeds_with view (write_rows env text z db seen ps) V
      (\<lambda>_ V'. \<exists>rows'. all_written ps (rv_latency V) rows' \<and> V' = V\<lparr>rv_latency := rows'\<rparr>)" for seen
  proof (induction ps arbitrary: seen V)
    case Nil
    show ?case by (simp add: succeeds_gives)
  next
    case (Cons p ps)
    have "succeeds_with view (and_then (write_row db p) (\<lambda>_. write_rows env text z db (latencyRowKey z p # seen) ps)) V
        (\<lambda>_ V'. \<exists>rows'. all_written (p # ps) (rv_latency V) rows' \<and> V' = V\<lparr>rv_latency := rows'\<rparr>)"
    proof (rule succeeds_and_then [OF write_row_effect [OF db]], elim exE conjE)
      fix W mid assume mid: "written p (rv_latency V) mid" and W: "W = V\<lparr>rv_latency := mid\<rparr>"
      show "succeeds_with view (write_rows env text z db (latencyRowKey z p # seen) ps) W
          (\<lambda>_ V'. \<exists>rows'. all_written (p # ps) (rv_latency V) rows' \<and> V' = V\<lparr>rv_latency := rows'\<rparr>)"
        by (rule succeeds_post [OF Cons.IH]) (use mid W in auto)
    qed
    then show ?case by (auto simp: Let_def succeeds_fails split: sum.split)
  qed
  then show ?thesis by (simp add: WritePreparedRows_def)
qed

end
