(* ===== verification/RollupSafety.thy ===== *)
theory RollupSafety
  imports RollupLatencyPage
begin

text \<open>
  The invariant of the rollups: every event up to a checkpoint is counted in the tables of that checkpoint, exactly once, and
  no other is; and adding a page, of any kind, keeps it.
\<close>

section \<open>A page of latency rows\<close>

lemma sampled_proj [simp]:
  "skipped (UsageAggregationEventProjectionColumns e) = skipped e" "event_ok (UsageAggregationEventProjectionColumns e) = event_ok e"
  "event_keys z (UsageAggregationEventProjectionColumns e) = event_keys z e"
  "sampled_in z k (UsageAggregationEventProjectionColumns e) = sampled_in z k e"
  "ttft (UsageAggregationEventProjectionColumns e) = ttft e" "event_point (UsageAggregationEventProjectionColumns e) = event_point e"
  by (simp_all add: skipped_def event_ok_def event_keys_def sampled_in_def ttft_def event_point_def)

lemma row_shows_proj: "row_shows env row (map UsageAggregationEventProjectionColumns es) \<longleftrightarrow> row_shows env row es"
  by (simp add: row_shows_def peak_def comp_def image_image)

lemma latency_of_append: "latency_of z k (xs @ ys) = latency_of z k xs @ latency_of z k ys"
  by (simp add: latency_of_def)

lemma filter_mset_mono: "(\<And>e. e \<in> set es \<Longrightarrow> P e \<Longrightarrow> Q e) \<Longrightarrow> mset (filter P es) \<subseteq># mset (filter Q es)"
proof -
  assume "\<And>e. e \<in> set es \<Longrightarrow> P e \<Longrightarrow> Q e"
  then have "filter P es = filter P (filter Q es)" unfolding filter_filter by (auto intro: filter_cong)
  then show ?thesis by (metis mset_filter multiset_filter_subset)
qed

text \<open>The events of a page behind the row of a stored key.\<close>

definition row_events :: "zone \<Rightarrow> UsageEvent list \<Rightarrow> UsageLatencyStat list \<Rightarrow> rowKey \<Rightarrow> UsageEvent list" where
  "row_events z es incs k = (case stored_row_of z incs k of None \<Rightarrow> [] | Some inc \<Rightarrow> filter (sampled_in z (latency_row_key inc)) es)"

lemma row_events_of:
  assumes "distinct (map (latencyRowKey z) incs)" and "inc \<in> set incs"
  shows "row_events z es incs (latencyRowKey z inc) = filter (sampled_in z (latency_row_key inc)) es"
proof -
  have "filter (\<lambda>r. latencyRowKey z r = latencyRowKey z inc) incs = [inc]"
    using assms by (induction incs) (auto simp: filter_empty_conv image_iff)
  then show ?thesis by (simp add: row_events_def stored_row_of_def)
qed

lemma sampled_latency: "sampled_in z q e \<Longrightarrow> \<not> skipped e \<and> stored_latency_key z q \<in> stored_latency_key z ` set (event_keys z e)"
  by (auto simp: sampled_in_def)

lemma row_events_sub: "mset (row_events z es incs k) \<subseteq># mset (latency_of z k es)"
proof (cases "stored_row_of z incs k")
  case (Some inc)
  from stored_Some [OF this] have "stored_latency_key z (latency_row_key inc) = k" by (simp add: latencyRowKey_stored)
  then show ?thesis
    unfolding row_events_def Some option.case latency_of_def by (intro filter_mset_mono) (use sampled_latency in blast)
qed (simp add: row_events_def)

text \<open>When no key of that text has expired, these are all the events of the text.\<close>

lemma row_events_all:
  assumes d: "distinct (map (latencyRowKey z) incs)"
    and keys: "latency_row_key ` set incs = {key. \<not> expired hc dc key \<and> filter (sampled_in z key) es \<noteq> []}"
    and live: "\<And>q. stored_latency_key z q = k \<Longrightarrow> \<not> expired hc dc q"
  shows "row_events z es incs k = latency_of z k es"
proof -
  have one: "\<exists>inc \<in> set incs. latency_row_key inc = q" if "e \<in> set es" "sampled_in z q e" "stored_latency_key z q = k" for q e
  proof -
    have "q \<in> latency_row_key ` set incs" unfolding keys using that live by (auto simp: filter_empty_conv)
    then show ?thesis by blast
  qed
  show ?thesis
  proof (cases "stored_row_of z incs k")
    case None
    then have "k \<notin> latencyRowKey z ` set incs" by (simp add: stored_None)
    then have no: "\<not> (\<exists>inc \<in> set incs. stored_latency_key z (latency_row_key inc) = k)" by (auto simp: latencyRowKey_stored)
    have "\<not> sampled_in z q e" if "e \<in> set es" "stored_latency_key z q = k" for q e
      using one [OF that(1) _ that(2)] that(2) no by blast
    then have "latency_of z k es = []" unfolding latency_of_def filter_empty_conv sampled_in_def by blast
    then show ?thesis by (simp add: row_events_def None)
  next
    case (Some inc)
    from stored_Some [OF this] have inc: "inc \<in> set incs" "stored_latency_key z (latency_row_key inc) = k"
      by (simp_all add: latencyRowKey_stored)
    have "sampled_in z (latency_row_key inc) e \<longleftrightarrow> \<not> skipped e \<and> k \<in> stored_latency_key z ` set (event_keys z e)"
      if e: "e \<in> set es" for e
    proof
      assume "\<not> skipped e \<and> k \<in> stored_latency_key z ` set (event_keys z e)"
      then obtain q where q: "sampled_in z q e" "stored_latency_key z q = k" by (auto simp: sampled_in_def)
      from one [OF e this] obtain inc' where inc': "inc' \<in> set incs" "latency_row_key inc' = q" by blast
      then have "latencyRowKey z inc' = latencyRowKey z inc" using q(2) inc(2) by (simp add: latencyRowKey_stored)
      then have "inc' = inc" using d inc' inc(1) by (simp add: distinct_map inj_on_def)
      then show "sampled_in z (latency_row_key inc) e" using q(1) inc'(2) by simp
    qed (use sampled_latency inc(2) in blast)
    then show ?thesis unfolding row_events_def Some option.case latency_of_def by (auto intro: filter_cong)
  qed
qed

lemma latency_events:
  assumes "load_ok es" and "distinct (map ev_ID es)" and "\<And>e. P e \<Longrightarrow> \<not> skipped e"
  shows "latency_events_ok (filter P es)"
  using assms load_ok_filter [of es P] by (auto simp: latency_events_ok_def load_ok_def distinct_map_filter)

text \<open>New rows have no id yet.\<close>

lemma latency_rows_new:
  assumes "LatencyBuildRows env ord z es now = Inr rows"
  shows "\<forall>row \<in> set rows. ls_ID row = 0"
proof -
  obtain m rows0 where r: "foldE (\<lambda>kb rows. bindE (encode_row env kb) (\<lambda>row. Inr (rows @ [row]))) m [] = Inr rows0"
    "rows = sort_slice latency_less rows0"
    using assms by (auto simp: LatencyBuildRows_def bindE_def split: sum.splits)
  have "\<forall>row \<in> set rows0. ls_ID row = 0"
    by (rule foldE_invariant [OF r(1)]) (auto simp: bindE_def encode_row_def Let_def split: sum.splits prod.splits)
  then show ?thesis by (simp add: r(2))
qed

lemma retained_live:
  assumes "latency_retained z (insert now T) k" and "stored_latency_key z q = k"
    and "RetentionBucketStartCutoff z UsageLatencyBucketHour now = Inr hc" "RetentionBucketStartCutoff z UsageLatencyBucketDay now = Inr dc"
  shows "\<not> expired hc dc q"
  using assms by (auto simp: expired_def latency_retained_def stored_latency_key_def not_less)

lemma latency_page_added:
  assumes env: "env_ok env" and tbl: "latency_table env z (latency_retained z T) (\<lambda>k. latency_of z k old) rows"
    and load: "load_ok (old @ es)" "distinct (map ev_ID (old @ es))" and ord: "iteration_order ord"
    and built: "LatencyBuildRows env ord z (map UsageAggregationEventProjectionColumns es) now = Inr incs"
    and prepared: "distinct (map (latencyRowKey z) incs)"
      "list_all2 (\<lambda>inc p. mergeLatencyRows env (stored_row_of z rows (latencyRowKey z inc)) inc now = Inr p) incs ps"
    and w: "all_written ps rows rows'"
  shows "latency_table env z (latency_retained z (insert now T)) (\<lambda>k. latency_of z k (old @ es)) rows'"
proof -
  let ?p = UsageAggregationEventProjectionColumns
  obtain hc dc where cut: "RetentionBucketStartCutoff z UsageLatencyBucketHour now = Inr hc"
    "RetentionBucketStartCutoff z UsageLatencyBucketDay now = Inr dc"
    using built by (auto simp: LatencyBuildRows_def bindE_def split: sum.splits)
  have page: "list_all (\<lambda>e. skipped e \<or> event_ok e) (map ?p es)" "distinct (map ev_ID (map ?p es))" "few (length (map ?p es))"
    using load by (auto simp: load_ok_def list_all_iff comp_def)
  obtain rows0 where rows0: "LatencyBuildRows env ord z (map ?p es) now = Inr rows0"
    "latency_row_key ` set rows0 = {key. \<not> expired hc dc key \<and> filter (sampled_in z key) (map ?p es) \<noteq> []}"
    "\<forall>row \<in> set rows0. row_shows env row (filter (sampled_in z (latency_row_key row)) (map ?p es))"
    and ids: "\<forall>row \<in> set rows0. ls_ID row = 0"
    using latency_rows_built [OF page env ord cut] latency_rows_new [of env ord z "map ?p es" now] by blast
  then have same: "rows0 = incs" using built by simp
  have proj: "filter (sampled_in z key) (map ?p es) = map ?p (filter (sampled_in z key) es)" for key
    unfolding filter_map comp_def sampled_proj ..
  have keys: "latency_row_key ` set incs = {key. \<not> expired hc dc key \<and> filter (sampled_in z key) es \<noteq> []}"
    using rows0(2) unfolding same proj by simp
  have shown: "row_shows env inc (filter (sampled_in z (latency_row_key inc)) es)" if "inc \<in> set incs" for inc
    using rows0(3) that unfolding same proj row_shows_proj by blast
  let ?E = "row_events z es incs"
  have tbl': "latency_table env z (latency_retained z T)
      (\<lambda>k. if k \<in> latencyRowKey z ` set incs then latency_of z k old @ ?E k else latency_of z k old) rows'"
  proof (rule all_rows_written [OF env tbl prepared _ w])
    fix inc assume inc: "inc \<in> set incs"
    note E = row_events_of [OF prepared(1) inc, of es]
    have "latency_row_key inc \<in> latency_row_key ` set incs" using inc by blast
    then have ne: "?E (latencyRowKey z inc) \<noteq> []" unfolding E keys by blast
    have "latency_events_ok (filter (sampled_in z (latency_row_key inc)) es)"
    proof (rule latency_events)
      show "load_ok es" using load(1) load_ok_cong [of "old @ es" "es @ old"] load_ok_left by (metis mset_append add.commute)
      show "distinct (map ev_ID es)" using load(2) by simp
    qed (simp add: sampled_in_def)
    with ne shown [OF inc] E have "shows_some env inc (?E (latencyRowKey z inc))" by (simp add: shows_some_def)
    moreover have "latency_events_ok (latency_of z (latencyRowKey z inc) old @ ?E (latencyRowKey z inc))"
    proof (rule latency_events_ok_mset)
      show "latency_events_ok (latency_of z (latencyRowKey z inc) (old @ es))"
        unfolding latency_of_def by (rule latency_events [OF load]) simp
      show "mset (latency_of z (latencyRowKey z inc) old @ ?E (latencyRowKey z inc)) \<subseteq># mset (latency_of z (latencyRowKey z inc) (old @ es))"
        using row_events_sub by (simp add: latency_of_append)
    qed
    ultimately show "shows_some env inc (?E (latencyRowKey z inc)) \<and> ls_ID inc = 0 \<and>
        latency_events_ok (latency_of z (latencyRowKey z inc) old @ ?E (latencyRowKey z inc))"
      using ids inc same by blast
  qed
  show ?thesis
  proof (rule latency_table_weaken [OF tbl'])
    fix k assume good: "latency_retained z (insert now T) k"
    then have "latency_retained z T k" by (simp add: latency_retained_def)
    moreover have all: "?E k = latency_of z k es"
      by (rule row_events_all [OF prepared(1) keys]) (rule retained_live [OF good _ cut])
    moreover have "?E k = []" if "k \<notin> latencyRowKey z ` set incs"
      using that stored_None [of z incs k] by (simp add: row_events_def)
    ultimately show "latency_retained z T k \<and>
        mset (if k \<in> latencyRowKey z ` set incs then latency_of z k old @ ?E k else latency_of z k old) = mset (latency_of z k (old @ es))"
      by (auto simp: latency_of_append)
  next
    fix k
    show "mset (if k \<in> latencyRowKey z ` set incs then latency_of z k old @ ?E k else latency_of z k old) \<subseteq># mset (latency_of z k (old @ es))"
      using row_events_sub [of z es incs k] by (simp add: latency_of_append)
  qed
qed

end
