(* ===== verification/RollupInvariant.thy ===== *)
theory RollupInvariant
  imports RollupSafety
begin

text \<open>
  The invariant of the rollups, and that applying a page of any kind keeps it.
\<close>

section \<open>The invariant\<close>

definition env_fine :: "rollup_env \<Rightarrow> bool" where
  "env_fine env \<longleftrightarrow> zone_ok (re_zone env) \<and> iteration_order (re_overview_order env) \<and> iteration_order (re_activity_order env) \<and>
     env_ok (re_latency env) \<and> iteration_order (re_latency_order env)"

text \<open>The events a checkpoint has counted.\<close>

definition counted_events :: "rollup_view \<Rightarrow> UsageAggregationCheckpointName \<Rightarrow> UsageEvent list" where
  "counted_events V name = up_to (cursor_in V name) (all_events V)"

definition latency_exact :: "rollup_env \<Rightarrow> gtime set \<Rightarrow> UsageEvent list \<Rightarrow> rollup_view \<Rightarrow> bool" where
  "latency_exact env T es V \<longleftrightarrow>
     latency_table (re_latency env) (re_zone env) (latency_retained (re_zone env) T) (\<lambda>k. latency_of (re_zone env) k es) (rv_latency V)"

definition rollups_exact :: "rollup_env \<Rightarrow> gtime set \<Rightarrow> rollup_view \<Rightarrow> bool" where
  "rollups_exact env T V \<longleftrightarrow>
     overview_exact (re_zone env) (counted_events V UsageAggregationCheckpointOverview) V \<and>
     activity_exact (re_zone env) T (counted_events V UsageAggregationCheckpointActivity) V \<and>
     latency_exact env T (counted_events V UsageAggregationCheckpointLatency) V"

text \<open>\<open>T\<close> is the set of clock readings so far, which decides what has been dropped.\<close>

definition rollups_inv :: "rollup_env \<Rightarrow> gtime set \<Rightarrow> rollup_view \<Rightarrow> bool" where
  "rollups_inv env T V \<longleftrightarrow> events_in_order V \<and> (load_ok (all_events V) \<longrightarrow> rollups_exact env T V)"

lemma activity_exact_mono: "activity_exact z T es V \<Longrightarrow> T \<subseteq> T' \<Longrightarrow> activity_exact z T' es V"
  unfolding activity_exact_def by (elim conjE, intro conjI, erule activity_count.exact_weaken) (auto simp: retained_at_def)

lemma latency_exact_mono: "latency_exact env T es V \<Longrightarrow> T \<subseteq> T' \<Longrightarrow> latency_exact env T' es V"
  unfolding latency_exact_def by (erule latency_table_weaken) (auto simp: latency_retained_def)

lemma rollups_inv_mono: "rollups_inv env T V \<Longrightarrow> T \<subseteq> T' \<Longrightarrow> rollups_inv env T' V"
  unfolding rollups_inv_def rollups_exact_def using activity_exact_mono latency_exact_mono by blast

lemma latency_exact_cong:
  assumes "mset es = mset es'" and "latency_exact env T es V"
  shows "latency_exact env T es' V"
proof -
  have "mset (latency_of z k es) = mset (latency_of z k es')" for z k
    unfolding latency_of_def mset_filter assms(1) ..
  then show ?thesis using assms(2) unfolding latency_exact_def by (elim latency_table_weaken) simp_all
qed

section \<open>A checkpoint has moved\<close>

lemma advanced_frame:
  assumes "advanced W name n V'"
  shows "rv_events V' = rv_events W" "rv_sequence V' = rv_sequence W" "rv_archive V' = rv_archive W" "rv_hourly V' = rv_hourly W"
    "rv_daily V' = rv_daily W" "rv_activity V' = rv_activity W" "rv_latency V' = rv_latency W"
    "cursor_in V' = (cursor_in W)(name := n)"
  using assms by (cases V'; cases W; simp add: advanced_def)+

lemma cursor_in_frame [simp]:
  "cursor_in (V\<lparr>rv_hourly := h\<rparr>) = cursor_in V" "cursor_in (V\<lparr>rv_daily := d\<rparr>) = cursor_in V"
  "cursor_in (V\<lparr>rv_activity := a\<rparr>) = cursor_in V" "cursor_in (V\<lparr>rv_latency := l\<rparr>) = cursor_in V"
  "cursor_in (V\<lparr>rv_events := es\<rparr>) = cursor_in V" "cursor_in (V\<lparr>rv_archive := es\<rparr>) = cursor_in V"
  "cursor_in (V\<lparr>rv_sequence := s\<rparr>) = cursor_in V"
  by (simp_all add: cursor_in_def fun_eq_iff)

text \<open>The events stay, and one cursor moves forward to an id that was given out.\<close>

definition moved :: "rollup_view \<Rightarrow> UsageAggregationCheckpointName \<Rightarrow> int \<Rightarrow> rollup_view \<Rightarrow> bool" where
  "moved V name n V' \<longleftrightarrow> rv_events V' = rv_events V \<and> rv_archive V' = rv_archive V \<and> rv_sequence V' = rv_sequence V \<and>
     cursor_in V' = (cursor_in V)(name := n)"

lemma moved_all_events: "moved V name n V' \<Longrightarrow> all_events V' = all_events V"
  by (simp add: moved_def all_events_def)

lemma moved_in_order:
  assumes "events_in_order V" and "moved V name n V'" and "cursor_in V name \<le> n" and "n \<le> rv_sequence V"
  shows "events_in_order V'"
  using assms unfolding events_in_order_def moved_all_events [OF assms(2)] by (fastforce simp: moved_def)

lemma moved_counted:
  assumes "moved V name n V'"
  shows "counted_events V' name = up_to n (all_events V)" and "m \<noteq> name \<Longrightarrow> counted_events V' m = counted_events V m"
  using assms by (simp_all add: counted_events_def moved_all_events [OF assms] moved_def)

section \<open>Applying a page\<close>

lemma Apply_overview_effect:
  assumes db: "rollup_db_ok db view"
  shows "attempts view (ApplyUsageOverviewAggregationPage env (Some db) c n hourly daily now) V
    (\<lambda>_ V'. cursor_in V UsageAggregationCheckpointOverview = c \<and>
       advanced (V\<lparr>rv_hourly := fold (overview_count.upsert (re_zone env) now) hourly (rv_hourly V),
         rv_daily := fold (overview_count.upsert (re_zone env) now) daily (rv_daily V)\<rparr>) UsageAggregationCheckpointOverview n V')"
proof -
  have t: "transactions_ok (ru_inbox db) view" using db by (simp add: rollup_db_ok_def)
  show ?thesis
    unfolding ApplyUsageOverviewAggregationPage_def option.case
    by (rule attempts_transaction [OF t], rule succeeds_and_then [OF overview_ApplyRows_effect [OF db]])
      (auto intro: succeeds_post [OF Advance_effect [OF db]])
qed

lemma Apply_activity_effect:
  assumes db: "rollup_db_ok db view" and shown: "\<forall>r \<in> set rows. shown_row r" "\<forall>r \<in> set (rv_activity V). shown_row r"
  shows "attempts view (ApplyUsageActivityAggregationPage env (Some db) c n rows now) V
    (\<lambda>_ V'. cursor_in V UsageAggregationCheckpointActivity = c \<and> (\<forall>r \<in> set (rv_activity V'). shown_row r) \<and>
       advanced (V\<lparr>rv_activity := fold (activity_count.upsert now) rows (rv_activity V)\<rparr>) UsageAggregationCheckpointActivity n V')"
proof -
  have t: "transactions_ok (ru_inbox db) view" using db by (simp add: rollup_db_ok_def)
  show ?thesis
    unfolding ApplyUsageActivityAggregationPage_def option.case
    by (rule attempts_transaction [OF t], rule succeeds_and_then [OF activity_ApplyRows_effect [OF db shown]])
      (auto intro!: succeeds_post [OF Advance_effect [OF db]] simp: advanced_frame(6))
qed

text \<open>Without a promise about the rows, the events and the other tables still stay.\<close>

lemma for_each_frame:
  assumes "\<And>x V. succeeds_with view (f x) V (\<lambda>_ V'. R V V')" and "\<And>V. R V V" and "\<And>U V W. R U V \<Longrightarrow> R V W \<Longrightarrow> R U W"
  shows "succeeds_with view (for_each f xs) V (\<lambda>_ V'. R V V')"
proof (induction xs arbitrary: V)
  case Nil
  show ?case by (simp add: succeeds_gives assms(2))
next
  case (Cons x xs)
  show ?case unfolding for_each.simps
  proof (rule succeeds_and_then [OF assms(1)])
    fix y W assume "R V W"
    then show "succeeds_with view (for_each f xs) W (\<lambda>_ V'. R V V')" by (intro succeeds_post [OF Cons.IH]) (rule assms(3))
  qed
qed

lemma activity_ApplyRows_frame:
  assumes db: "rollup_db_ok db view"
  shows "succeeds_with view (activity_ApplyRows db rows now) V (\<lambda>_ V'. \<exists>rs. V' = V\<lparr>rv_activity := rs\<rparr>)"
proof -
  have tb: "table_ok as_given (ru_activity db) view rv_activity (\<lambda>rs v. v\<lparr>rv_activity := rs\<rparr>)"
    using db by (simp add: rollup_db_ok_def)
  show ?thesis unfolding activity_ApplyRows_def
  proof (rule for_each_frame)
    show "succeeds_with view (activity_applyRow db now row) V (\<lambda>_ V'. \<exists>rs. V' = V\<lparr>rv_activity := rs\<rparr>)" for row V
      by (rule succeeds_post [OF activity_row_effect [OF tb lens_view(3)]]) blast
    show "\<exists>rs. V = V\<lparr>rv_activity := rs\<rparr>" for V by (rule exI [of _ "rv_activity V"]) simp
  qed auto
qed

lemma Apply_activity_frame:
  assumes db: "rollup_db_ok db view"
  shows "attempts view (ApplyUsageActivityAggregationPage env (Some db) c n rows now) V
    (\<lambda>_ V'. cursor_in V UsageAggregationCheckpointActivity = c \<and>
       (\<exists>rs. advanced (V\<lparr>rv_activity := rs\<rparr>) UsageAggregationCheckpointActivity n V'))"
proof -
  have t: "transactions_ok (ru_inbox db) view" using db by (simp add: rollup_db_ok_def)
  show ?thesis
    unfolding ApplyUsageActivityAggregationPage_def option.case
    by (rule attempts_transaction [OF t], rule succeeds_and_then [OF activity_ApplyRows_frame [OF db]])
      (auto intro!: succeeds_post [OF Advance_effect [OF db]])
qed

lemma chunks_frame:
  assumes db: "rollup_db_ok db view"
  shows "attempts view (prepare_chunks env text z db now m ks start acc) V (\<lambda>ps V'. V' = V \<and> True)"
proof (induction "length ks - start" arbitrary: start acc rule: less_induct)
  case less
  show ?case
  proof (cases "start < length ks")
    case False
    then show ?thesis by (subst prepare_chunks.simps) (simp add: attempts_gives)
  next
    case True
    have list: "attempts view (wrapped w (reads (tb_list (ru_latency db) P))) V (\<lambda>found V'. V' = V \<and> True)" for w P
      by (rule attempts_wrapped, rule attempts_reads) simp
    have rest: "attempts view (prepare_chunks env text z db now m ks (start + loadKeyBatchSize) rows) V (\<lambda>ps V'. V' = V \<and> True)" for rows
      by (rule less) (use True in simp)
    show ?thesis
      by (subst prepare_chunks.simps, subst if_P [OF True], unfold Let_def)
        (rule attempts_and_then [OF list], use rest in \<open>auto simp: attempts_fails split: sum.split\<close>)
  qed
qed

lemma PrepareRows_frame:
  assumes "rollup_db_ok db view"
  shows "attempts view (PrepareRows env text z (Some db) rows now) V (\<lambda>ps V'. V' = V \<and> True)"
  using chunks_frame [OF assms] by (auto simp: PrepareRows_def attempts_gives attempts_fails split: sum.split)

lemma Apply_latency_with:
  assumes db: "rollup_db_ok db view"
    and prep: "attempts view (PrepareRows (re_latency env) (re_store_text env) (re_zone env) (Some db) rows now) V (\<lambda>ps V'. V' = V \<and> R ps)"
  shows "attempts view (ApplyUsageLatencyAggregationPage env (Some db) c n rows now) V
    (\<lambda>_ V'. cursor_in V UsageAggregationCheckpointLatency = c \<and>
       (\<exists>ps rs. R ps \<and> all_written ps (rv_latency V) rs \<and> advanced (V\<lparr>rv_latency := rs\<rparr>) UsageAggregationCheckpointLatency n V'))"
proof -
  have t: "transactions_ok (ru_inbox db) view" using db by (simp add: rollup_db_ok_def)
  show ?thesis
    unfolding ApplyUsageLatencyAggregationPage_def option.case
  proof (rule attempts_and_then [OF prep])
    fix ps assume R: "R ps"
    show "attempts view (transaction (ru_inbox db)
        (and_then (WritePreparedRows (re_latency env) (re_store_text env) (re_zone env) (Some db) ps) (\<lambda>_.
           AdvanceUsageAggregationCheckpoint (Some db) UsageAggregationCheckpointLatency c n now))) V
      (\<lambda>_ V'. cursor_in V UsageAggregationCheckpointLatency = c \<and>
         (\<exists>ps rs. R ps \<and> all_written ps (rv_latency V) rs \<and> advanced (V\<lparr>rv_latency := rs\<rparr>) UsageAggregationCheckpointLatency n V'))"
      by (rule attempts_transaction [OF t], rule succeeds_and_then [OF WritePreparedRows_effect [OF db]])
        (use R in \<open>auto intro!: succeeds_post [OF Advance_effect [OF db]]\<close>)
  qed
qed

section \<open>Counting a page\<close>

text \<open>A page whose first event comes right after the checkpoint.\<close>

definition next_page :: "rollup_view \<Rightarrow> UsageAggregationCheckpointName \<Rightarrow> UsageEvent list \<Rightarrow> bool" where
  "next_page V name page \<longleftrightarrow> page \<noteq> [] \<and> (\<exists>target k. page_of V (cursor_in V name) target k page)"

lemma moved_by_page:
  assumes V: "events_in_order V" and name: "name \<in> set checkpoint_names" and page: "next_page V name page"
    and moved: "moved V name (ev_ID (last page)) V'"
  obtains es where "page = map UsageAggregationEventProjectionColumns es" "events_in_order V'"
    "mset (counted_events V' name) = mset (counted_events V name @ es)" "sorted_wrt (<) (map ev_ID es)"
    "\<And>e. e \<in> set es \<Longrightarrow> e \<in> set (rv_events V)"
proof -
  obtain target k where p: "page_of V (cursor_in V name) target k page" "page \<noteq> []" using page by (auto simp: next_page_def)
  obtain es where es: "page = map UsageAggregationEventProjectionColumns es" "sorted_wrt (<) (map ev_ID es)"
    "\<exists>P. es = filter P (rv_events V)"
    "mset (up_to (ev_ID (last page)) (all_events V)) = mset (up_to (cursor_in V name) (all_events V) @ es)"
    "cursor_in V name < ev_ID (last page)" "ev_ID (last page) \<le> rv_sequence V"
    by (rule page_counts [OF V name p])
  have "events_in_order V'" by (rule moved_in_order [OF V moved]) (use es in simp_all)
  then show thesis using that [OF es(1)] es moved_counted(1) [OF moved] by (auto simp: counted_events_def)
qed

lemma page_load:
  assumes "load_ok (all_events V)" and "mset (counted_events V' name) = mset (counted_events V name @ es)"
    and "all_events V' = all_events V" and "events_in_order V"
  shows "load_ok (counted_events V name @ es)" and "distinct (map ev_ID (counted_events V name @ es))"
proof -
  have "load_ok (counted_events V' name)" using assms(1, 3) by (simp add: counted_events_def up_to_def load_ok_filter)
  then show "load_ok (counted_events V name @ es)" using load_ok_cong [OF assms(2)] by simp
  have "distinct (map ev_ID (counted_events V' name))"
    using assms(3, 4) by (simp add: counted_events_def up_to_def events_in_order_def distinct_map_filter)
  moreover have "mset (map ev_ID (counted_events V' name)) = mset (map ev_ID (counted_events V name @ es))"
    using assms(2) by (simp only: mset_map)
  ultimately show "distinct (map ev_ID (counted_events V name @ es))" by (metis mset_eq_imp_distinct_iff)
qed

lemma load_ok_right: "load_ok (xs @ ys) \<Longrightarrow> load_ok ys"
  using load_ok_cong [of "xs @ ys" "ys @ xs"] load_ok_left by (metis mset_append add.commute)

lemmas checkpoints_differ = checkpoint_names_def

lemma overview_last_id:
  assumes env: "env_fine env" and V: "events_in_order V" and page: "next_page V UsageAggregationCheckpointOverview page"
    and built: "OverviewBuildRows (re_overview_order env) (re_zone env) page = (hourly, daily, n)"
  shows "n = ev_ID (last page)"
proof -
  let ?name = UsageAggregationCheckpointOverview
  obtain target k where p: "page_of V (cursor_in V ?name) target k page" "page \<noteq> []" using page by (auto simp: next_page_def)
  have ord: "iteration_order (re_overview_order env)" using env by (simp add: env_fine_def)
  obtain es where es: "page = map UsageAggregationEventProjectionColumns es" "sorted_wrt (<) (map ev_ID es)" "\<exists>P. es = filter P (rv_events V)"
    by (rule page_counts [OF V _ p]) (simp_all add: checkpoint_names_def)
  have "sorted_wrt (<) (map ev_ID page)" using es(1, 2) by (simp add: comp_def)
  moreover have "\<forall>e \<in> set page. 0 < ev_ID e" using es V by (auto simp: events_in_order_def all_events_def)
  ultimately show ?thesis using overview_rows_built [OF ord built] sorted_last_Max p(2) by metis
qed

lemma overview_page_keeps:
  assumes env: "env_fine env" and inv: "rollups_inv env T V" and page: "next_page V UsageAggregationCheckpointOverview page"
    and built: "OverviewBuildRows (re_overview_order env) (re_zone env) page = (hourly, daily, n)"
    and adv: "advanced (V\<lparr>rv_hourly := fold (overview_count.upsert (re_zone env) now) hourly (rv_hourly V),
       rv_daily := fold (overview_count.upsert (re_zone env) now) daily (rv_daily V)\<rparr>) UsageAggregationCheckpointOverview n V'"
  shows "rollups_inv env T V' \<and> n = ev_ID (last page) \<and> moved V UsageAggregationCheckpointOverview n V'"
proof -
  let ?name = UsageAggregationCheckpointOverview
  have V: "events_in_order V" using inv by (simp add: rollups_inv_def)
  have moved: "moved V ?name n V'" using advanced_frame [OF adv] by (simp add: moved_def)
  have ord: "iteration_order (re_overview_order env)" using env by (simp add: env_fine_def)
  have n: "n = ev_ID (last page)" by (rule overview_last_id [OF env V page built])
  have name: "?name \<in> set checkpoint_names" by (simp add: checkpoint_names_def)
  obtain es where es: "page = map UsageAggregationEventProjectionColumns es" "events_in_order V'"
    "mset (counted_events V' ?name) = mset (counted_events V ?name @ es)"
    by (rule moved_by_page [OF V name page moved [unfolded n]])
  have "rollups_exact env T V'" if load: "load_ok (all_events V')"
  proof -
    have all: "all_events V' = all_events V" by (rule moved_all_events [OF moved])
    have old: "rollups_exact env T V" using inv load all by (simp add: rollups_inv_def)
    note page_ok = page_load [OF _ es(3) all V]
    have "overview_exact (re_zone env) (counted_events V ?name @ es) V'"
      using old built load page_ok(1) load_ok_right [OF page_ok(1)] advanced_frame [OF adv] unfolding es(1) all
      by (intro overview_page_added [where V = V, OF _ _ ord]) (auto simp: rollups_exact_def load_ok_def)
    then have "overview_exact (re_zone env) (counted_events V' ?name) V'" by (rule overview_exact_cong [OF es(3) [symmetric]])
    then show ?thesis using old moved_counted(2) [OF moved] advanced_frame [OF adv]
      by (simp add: rollups_exact_def activity_exact_def latency_exact_def)
  qed
  with es(2) n moved show ?thesis by (simp add: rollups_inv_def)
qed

text \<open>Activity: what the rows become is known as long as their times can be shown.\<close>

definition activity_applied ::
  "rollup_view \<Rightarrow> UsageActivityStat list \<Rightarrow> gtime \<Rightarrow> int \<Rightarrow> rollup_view \<Rightarrow> bool" where
  "activity_applied V rows now n V' \<longleftrightarrow>
     (\<exists>rs. advanced (V\<lparr>rv_activity := rs\<rparr>) UsageAggregationCheckpointActivity n V' \<and>
        ((\<forall>r \<in> set rows. shown_row r) \<longrightarrow> (\<forall>r \<in> set (rv_activity V). shown_row r) \<longrightarrow>
           rs = fold (activity_count.upsert now) rows (rv_activity V) \<and> (\<forall>r \<in> set rs. shown_row r)))"

lemma Apply_activity:
  assumes db: "rollup_db_ok db view"
  shows "attempts view (ApplyUsageActivityAggregationPage env (Some db) c n rows now) V
    (\<lambda>_ V'. cursor_in V UsageAggregationCheckpointActivity = c \<and> activity_applied V rows now n V')"
proof (cases "(\<forall>r \<in> set rows. shown_row r) \<and> (\<forall>r \<in> set (rv_activity V). shown_row r)")
  case True
  then have shown: "\<forall>r \<in> set rows. shown_row r" "\<forall>r \<in> set (rv_activity V). shown_row r" by simp_all
  show ?thesis
  proof (rule attempts_post [OF Apply_activity_effect [OF db shown]], elim conjE)
    fix x :: unit and V' assume c: "cursor_in V UsageAggregationCheckpointActivity = c" and sh: "\<forall>r \<in> set (rv_activity V'). shown_row r"
      and adv: "advanced (V\<lparr>rv_activity := fold (activity_count.upsert now) rows (rv_activity V)\<rparr>) UsageAggregationCheckpointActivity n V'"
    from advanced_frame(6) [OF adv] sh have "\<forall>r \<in> set (fold (activity_count.upsert now) rows (rv_activity V)). shown_row r" by simp
    with c adv show "cursor_in V UsageAggregationCheckpointActivity = c \<and> activity_applied V rows now n V'"
      unfolding activity_applied_def by blast
  qed
next
  case False
  then show ?thesis by (intro attempts_post [OF Apply_activity_frame [OF db]]) (auto simp: activity_applied_def)
qed

lemma activity_page_keeps:
  assumes env: "env_fine env" and inv: "rollups_inv env T V" and page: "next_page V UsageAggregationCheckpointActivity page"
    and built: "ActivityBuildRows (re_activity_order env) (re_zone env) page now = Inr rows"
    and applied: "activity_applied V rows now (ev_ID (last page)) V'"
  shows "rollups_inv env (insert now T) V' \<and> moved V UsageAggregationCheckpointActivity (ev_ID (last page)) V'"
proof -
  let ?name = UsageAggregationCheckpointActivity and ?n = "ev_ID (last page)"
  obtain rs where adv: "advanced (V\<lparr>rv_activity := rs\<rparr>) ?name ?n V'"
    and rs: "\<forall>r \<in> set rows. shown_row r \<Longrightarrow> \<forall>r \<in> set (rv_activity V). shown_row r \<Longrightarrow>
      rs = fold (activity_count.upsert now) rows (rv_activity V) \<and> (\<forall>r \<in> set rs. shown_row r)"
    using applied by (auto simp: activity_applied_def)
  have V: "events_in_order V" using inv by (simp add: rollups_inv_def)
  have moved: "moved V ?name ?n V'" using advanced_frame [OF adv] by (simp add: moved_def)
  have name: "?name \<in> set checkpoint_names" by (simp add: checkpoint_names_def)
  obtain es where es: "page = map UsageAggregationEventProjectionColumns es" "events_in_order V'"
    "mset (counted_events V' ?name) = mset (counted_events V ?name @ es)"
    by (rule moved_by_page [OF V name page moved])
  have "rollups_exact env (insert now T) V'" if load: "load_ok (all_events V')"
  proof -
    have all: "all_events V' = all_events V" by (rule moved_all_events [OF moved])
    have old: "rollups_exact env T V" using inv load all by (simp add: rollups_inv_def)
    then have act: "activity_exact (re_zone env) T (counted_events V ?name) V" by (simp add: rollups_exact_def)
    note page_ok = page_load [OF _ es(3) all V]
    have load': "load_ok es" using load_ok_right [OF page_ok(1)] load unfolding all by simp
    have z: "zone_ok (re_zone env)" "iteration_order (re_activity_order env)" using env by (simp_all add: env_fine_def)
    obtain rows' where rows': "ActivityBuildRows (re_activity_order env) (re_zone env) page now = Inr rows'" "\<forall>r \<in> set rows'. shown_row r"
      "\<And>W. rv_activity W = fold (activity_count.upsert now) rows' (rv_activity V) \<Longrightarrow> \<forall>r \<in> set (rv_activity W). shown_row r \<Longrightarrow>
         activity_exact (re_zone env) (insert now T) (counted_events V ?name @ es) W"
      unfolding es(1) by (rule activity_page_added [OF act load' z]) blast
    have "rows' = rows" using rows'(1) built by simp
    moreover have "\<forall>r \<in> set (rv_activity V). shown_row r" using act by (simp add: activity_exact_def)
    ultimately have "activity_exact (re_zone env) (insert now T) (counted_events V ?name @ es) V'"
      using rows'(2, 3) rs advanced_frame(6) [OF adv] by simp
    then have "activity_exact (re_zone env) (insert now T) (counted_events V' ?name) V'" by (rule activity_exact_cong [OF es(3) [symmetric]])
    moreover have "latency_exact env (insert now T) es' V'" if "latency_exact env T es' V" for es'
      using latency_exact_mono [OF that, of "insert now T"] advanced_frame [OF adv] by (simp add: latency_exact_def subset_insertI)
    ultimately show ?thesis using old moved_counted(2) [OF moved] advanced_frame [OF adv]
      by (simp add: rollups_exact_def overview_exact_def)
  qed
  with es(2) moved show ?thesis by (simp add: rollups_inv_def)
qed

text \<open>Latency: the prepared rows are the merged ones as long as no two stored rows have the same key.\<close>

definition latency_applied ::
  "rollup_env \<Rightarrow> rollup_view \<Rightarrow> UsageLatencyStat list \<Rightarrow> gtime \<Rightarrow> int \<Rightarrow> rollup_view \<Rightarrow> bool" where
  "latency_applied env V rows now n V' \<longleftrightarrow>
     (\<exists>ps rs. (distinct (map (latencyRowKey (re_zone env)) (rv_latency V)) \<longrightarrow>
          distinct (map (latencyRowKey (re_zone env)) rows) \<and>
          list_all2 (\<lambda>r p. mergeLatencyRows (re_latency env) (stored_row_of (re_zone env) (rv_latency V) (latencyRowKey (re_zone env) r)) r now = Inr p) rows ps) \<and>
        all_written ps (rv_latency V) rs \<and> advanced (V\<lparr>rv_latency := rs\<rparr>) UsageAggregationCheckpointLatency n V')"

lemma Apply_latency:
  assumes db: "rollup_db_ok db view"
  shows "attempts view (ApplyUsageLatencyAggregationPage env (Some db) c n rows now) V
    (\<lambda>_ V'. cursor_in V UsageAggregationCheckpointLatency = c \<and> latency_applied env V rows now n V')"
proof (cases "distinct (map (latencyRowKey (re_zone env)) (rv_latency V))")
  case True
  show ?thesis
    by (rule attempts_post [OF Apply_latency_with [OF db PrepareRows_effect [OF db True]]]) (auto simp: latency_applied_def)
next
  case False
  then show ?thesis
    by (intro attempts_post [OF Apply_latency_with [OF db PrepareRows_frame [OF db]]]) (auto simp: latency_applied_def)
qed

lemma latency_page_keeps:
  assumes env: "env_fine env" and inv: "rollups_inv env T V" and page: "next_page V UsageAggregationCheckpointLatency page"
    and built: "LatencyBuildRows (re_latency env) (re_latency_order env) (re_zone env) page now = Inr rows"
    and applied: "latency_applied env V rows now (ev_ID (last page)) V'"
  shows "rollups_inv env (insert now T) V' \<and> moved V UsageAggregationCheckpointLatency (ev_ID (last page)) V'"
proof -
  let ?name = UsageAggregationCheckpointLatency and ?n = "ev_ID (last page)" and ?z = "re_zone env" and ?le = "re_latency env"
  obtain ps rs where adv: "advanced (V\<lparr>rv_latency := rs\<rparr>) ?name ?n V'" and w: "all_written ps (rv_latency V) rs"
    and prep: "distinct (map (latencyRowKey ?z) (rv_latency V)) \<Longrightarrow> distinct (map (latencyRowKey ?z) rows) \<and>
      list_all2 (\<lambda>r p. mergeLatencyRows ?le (stored_row_of ?z (rv_latency V) (latencyRowKey ?z r)) r now = Inr p) rows ps"
    using applied by (auto simp: latency_applied_def)
  have V: "events_in_order V" using inv by (simp add: rollups_inv_def)
  have moved: "moved V ?name ?n V'" using advanced_frame [OF adv] by (simp add: moved_def)
  have name: "?name \<in> set checkpoint_names" by (simp add: checkpoint_names_def)
  obtain es where es: "page = map UsageAggregationEventProjectionColumns es" "events_in_order V'"
    "mset (counted_events V' ?name) = mset (counted_events V ?name @ es)"
    by (rule moved_by_page [OF V name page moved])
  have "rollups_exact env (insert now T) V'" if load: "load_ok (all_events V')"
  proof -
    have all: "all_events V' = all_events V" by (rule moved_all_events [OF moved])
    have old: "rollups_exact env T V" using inv load all by (simp add: rollups_inv_def)
    then have tbl: "latency_table ?le ?z (latency_retained ?z T) (\<lambda>k. latency_of ?z k (counted_events V ?name)) (rv_latency V)"
      by (simp add: rollups_exact_def latency_exact_def)
    then have d: "distinct (map (latencyRowKey ?z) (rv_latency V))" by (simp add: latency_table_def)
    have page_ok: "load_ok (counted_events V ?name @ es)" "distinct (map ev_ID (counted_events V ?name @ es))"
      using page_load [OF _ es(3) all V] load unfolding all by simp_all
    have le: "env_ok ?le" "iteration_order (re_latency_order env)" using env by (simp_all add: env_fine_def)
    have "latency_table ?le ?z (latency_retained ?z (insert now T)) (\<lambda>k. latency_of ?z k (counted_events V ?name @ es)) rs"
      using prep [OF d] by (intro latency_page_added [OF le(1) tbl page_ok le(2) built [unfolded es(1)] _ _ w]) simp_all
    then have "latency_exact env (insert now T) (counted_events V ?name @ es) V'"
      using advanced_frame(7) [OF adv] by (simp add: latency_exact_def)
    then have "latency_exact env (insert now T) (counted_events V' ?name) V'" by (rule latency_exact_cong [OF es(3) [symmetric]])
    moreover have "activity_exact ?z (insert now T) es' V'" if "activity_exact ?z T es' V" for es'
      using activity_exact_mono [OF that, of "insert now T"] advanced_frame [OF adv] by (simp add: activity_exact_def subset_insertI)
    ultimately show ?thesis using old moved_counted(2) [OF moved] advanced_frame [OF adv]
      by (simp add: rollups_exact_def overview_exact_def)
  qed
  with es(2) moved show ?thesis by (simp add: rollups_inv_def)
qed

end
