(* ===== verification/RollupBatches.thy ===== *)
theory RollupBatches
  imports RollupInvariant
begin

text \<open>
  The functions that bring a rollup up to date, as a whole: each keeps the invariant, whatever fails, and goes on until nothing
  is left.
\<close>

section \<open>Loading\<close>

lemma target_loaded:
  assumes "rollup_db_ok db view"
  shows "attempts view (LoadUsageAggregationTargetEventID (Some db)) V (\<lambda>t V'. V' = V \<and> t = Max (insert 0 (ev_ID ` set (rv_events V))))"
  unfolding LoadUsageAggregationTargetEventID_def option.case
  by (rule attempts_wrapped, rule attempts_reads) (use assms in \<open>auto simp: rollup_db_ok_def events_ok_def\<close>)

lemma page_loaded:
  assumes "rollup_db_ok db view"
  shows "attempts view (LoadUsageAggregationEventPage (Some db) c t l) V (\<lambda>page V'. V' = V \<and> page_of V c t (nat (min l usageAggregationEventPageLimit)) page)"
proof (cases "t \<le> c")
  case True
  then have "filter (\<lambda>e. ev_ID e > c \<and> ev_ID e \<le> t) (rv_events V) = []" by (auto simp: filter_empty_conv)
  then show ?thesis using True by (simp add: LoadUsageAggregationEventPage_def attempts_gives page_of_def)
next
  case False
  have "attempts view (wrapped ''load usage aggregation event page''
      (reads (ru_events db UsageAggregationEventProjectionColumns (\<lambda>e. ev_ID e > c \<and> ev_ID e \<le> t) (nat (min l usageAggregationEventPageLimit))))) V
    (\<lambda>page V'. V' = V \<and> page_of V c t (nat (min l usageAggregationEventPageLimit)) page)"
    by (rule attempts_wrapped, rule attempts_reads) (use assms in \<open>auto simp: rollup_db_ok_def events_ok_def page_of_def\<close>)
  then show ?thesis using False by (simp add: LoadUsageAggregationEventPage_def attempts_fails)
qed

section \<open>What is left to count\<close>

definition remaining :: "rollup_view \<Rightarrow> UsageAggregationCheckpointName \<Rightarrow> nat" where
  "remaining V name = length (filter (\<lambda>e. cursor_in V name < ev_ID e) (rv_events V))"

definition caught_up :: "rollup_view \<Rightarrow> UsageAggregationCheckpointName \<Rightarrow> bool" where
  "caught_up V name \<longleftrightarrow> (\<forall>e \<in> set (rv_events V). ev_ID e \<le> cursor_in V name)"

lemma remaining_0: "remaining V name = 0 \<longleftrightarrow> caught_up V name"
  by (auto simp: remaining_def caught_up_def filter_empty_conv not_less)

text \<open>The events stay, and of the cursors only one may move, and only forward.\<close>

definition one_cursor_moves :: "UsageAggregationCheckpointName \<Rightarrow> rollup_view \<Rightarrow> rollup_view \<Rightarrow> bool" where
  "one_cursor_moves name V V' \<longleftrightarrow> rv_events V' = rv_events V \<and> rv_archive V' = rv_archive V \<and> rv_sequence V' = rv_sequence V \<and>
     (\<forall>m. m \<noteq> name \<longrightarrow> cursor_in V' m = cursor_in V m) \<and> cursor_in V name \<le> cursor_in V' name"

lemma one_cursor_refl: "one_cursor_moves name V V"
  by (simp add: one_cursor_moves_def)

lemma one_cursor_trans: "one_cursor_moves name U V \<Longrightarrow> one_cursor_moves name V W \<Longrightarrow> one_cursor_moves name U W"
  by (auto simp: one_cursor_moves_def)

text \<open>What a batch does besides keeping the tables exact.\<close>

definition batch_done :: "rollup_view \<Rightarrow> UsageAggregationCheckpointName \<Rightarrow> nat \<Rightarrow> rollup_view \<Rightarrow> bool" where
  "batch_done V name k V' \<longleftrightarrow> k = min 1000 (remaining V name) \<and> remaining V' name = remaining V name - k \<and>
     one_cursor_moves name V V'"

lemma page_length:
  assumes "page_of V (cursor_in V name) (Max (insert 0 (ev_ID ` set (rv_events V)))) 1000 page"
  shows "length page = min 1000 (remaining V name)"
proof -
  have "ev_ID e \<le> Max (insert 0 (ev_ID ` set (rv_events V)))" if "e \<in> set (rv_events V)" for e using that by simp
  then have "filter (\<lambda>e. ev_ID e > cursor_in V name \<and> ev_ID e \<le> Max (insert 0 (ev_ID ` set (rv_events V)))) (rv_events V) =
      filter (\<lambda>e. cursor_in V name < ev_ID e) (rv_events V)"
    by (intro filter_cong refl) blast
  then show ?thesis using assms by (simp add: page_of_def remaining_def min.commute)
qed

lemma empty_page_done:
  assumes "page_of V (cursor_in V name) (Max (insert 0 (ev_ID ` set (rv_events V)))) 1000 []"
  shows "batch_done V name 0 V"
  using page_length [OF assms] by (simp add: batch_done_def one_cursor_refl)

lemma page_done:
  assumes V: "events_in_order V" and page: "page_of V (cursor_in V name) (Max (insert 0 (ev_ID ` set (rv_events V)))) 1000 page" "page \<noteq> []"
    and moved: "moved V name (ev_ID (last page)) V'"
  shows "batch_done V name (length page) V'"
proof -
  let ?c = "cursor_in V name" and ?n = "ev_ID (last page)"
  have sorted: "sorted_wrt (<) (map ev_ID (rv_events V))" using V by (simp add: events_in_order_def)
  note p = page_filter [OF sorted page]
  have "length (filter (\<lambda>e. ?c < ev_ID e) es) = length (filter (\<lambda>e. ?c < ev_ID e \<and> ev_ID e \<le> ?n) es) + length (filter (\<lambda>e. ?n < ev_ID e) es)" for es
    using p by (induction es) auto
  from this [of "rv_events V"] have "remaining V name = length page + length (filter (\<lambda>e. ?n < ev_ID e) (rv_events V))"
    using arg_cong [where f = length, OF p [THEN conjunct2, THEN conjunct2, THEN conjunct2]] by (simp add: remaining_def)
  then have "remaining V' name = remaining V name - length page" using moved by (simp add: remaining_def moved_def)
  then show ?thesis using page_length [OF page(1)] moved p by (auto simp: batch_done_def one_cursor_moves_def moved_def)
qed

section \<open>One batch\<close>

text \<open>The three batches differ in the cursor and in what they make of the page.\<close>

definition batch_keeps :: "rollup_env \<Rightarrow> gtime set \<Rightarrow> rollup_view \<Rightarrow> UsageAggregationCheckpointName \<Rightarrow> nat \<Rightarrow> rollup_view \<Rightarrow> bool" where
  "batch_keeps env T V name k V' \<longleftrightarrow> rollups_inv env T V' \<and> batch_done V name k V'"

lemma next_page_attempt:
  assumes db: "rollup_db_ok db view" and inv: "rollups_inv env T V"
    and cur: "cur (snapshot_in V) = cursor_in V name" and l: "nat (min l usageAggregationEventPageLimit) = 1000"
    and body: "\<And>page. page_of V (cursor_in V name) (Max (insert 0 (ev_ID ` set (rv_events V)))) 1000 page \<Longrightarrow> page \<noteq> [] \<Longrightarrow>
      attempts view (body (snapshot_in V) page) V (batch_keeps env (insert now T) V name)"
  shows "attempts view
    (and_then (LoadUsageAggregationTargetEventID (Some db)) (\<lambda>t.
     and_then (LoadUsageAggregationCheckpointSnapshot (Some db)) (\<lambda>sn.
     and_then (LoadUsageAggregationEventPage (Some db) (cur sn) t l) (\<lambda>page.
       if page = [] then gives 0 else body sn page)))) V (batch_keeps env (insert now T) V name)"
proof (rule attempts_and_then [OF target_loaded [OF db]], rule attempts_and_then [OF snapshot_loaded [OF db]],
    rule attempts_and_then [OF page_loaded [OF db]])
  fix t sn page assume "t = Max (insert 0 (ev_ID ` set (rv_events V)))" and sn: "sn = snapshot_in V"
    and "page_of V (cur sn) t (nat (min l usageAggregationEventPageLimit)) page"
  then have page: "page_of V (cursor_in V name) (Max (insert 0 (ev_ID ` set (rv_events V)))) 1000 page" by (simp add: cur l)
  have "rollups_inv env (insert now T) V" by (rule rollups_inv_mono [OF inv]) blast
  with page have "batch_keeps env (insert now T) V name 0 V" if "page = []"
    using empty_page_done that by (simp add: batch_keeps_def)
  then show "attempts view (if page = [] then gives 0 else body sn page) V (batch_keeps env (insert now T) V name)"
    using body [OF page] by (simp add: sn attempts_gives)
qed

lemma page_keeps:
  assumes "events_in_order V" and "page_of V (cursor_in V name) (Max (insert 0 (ev_ID ` set (rv_events V)))) 1000 page" "page \<noteq> []"
    and "rollups_inv env T V' \<and> moved V name (ev_ID (last page)) V'"
  shows "batch_keeps env T V name (length page) V'"
  using assms page_done by (simp add: batch_keeps_def)

lemma page_of_next: "page_of V (cursor_in V name) t k page \<Longrightarrow> page \<noteq> [] \<Longrightarrow> next_page V name page"
  by (auto simp: next_page_def)

lemma overview_batch:
  assumes env: "env_fine env" and db: "rollup_db_ok db view" and inv: "rollups_inv env T V"
  shows "attempts view (AggregateUsageOverviewStatsBatch env (Some db) now) V
    (batch_keeps env (insert now T) V UsageAggregationCheckpointOverview)"
  unfolding AggregateUsageOverviewStatsBatch_def aggregateUsageOverviewStatsBatch_def option.case
proof (rule next_page_attempt [OF db inv, where cur = sn_OverviewCursor])
  let ?name = UsageAggregationCheckpointOverview
  fix page assume page: "page_of V (cursor_in V ?name) (Max (insert 0 (ev_ID ` set (rv_events V)))) 1000 page" "page \<noteq> []"
  obtain hourly daily n where built: "OverviewBuildRows (re_overview_order env) (re_zone env) page = (hourly, daily, n)"
    by (metis prod_cases3)
  have "attempts view (and_then (ApplyUsageOverviewAggregationPage env (Some db) (cursor_in V ?name) n hourly daily now) (\<lambda>_. gives (length page))) V
      (batch_keeps env (insert now T) V ?name)"
  proof (rule attempts_then_gives [OF Apply_overview_effect [OF db]], elim conjE)
    fix x :: unit and V' assume adv: "advanced (V\<lparr>rv_hourly := fold (overview_count.upsert (re_zone env) now) hourly (rv_hourly V),
       rv_daily := fold (overview_count.upsert (re_zone env) now) daily (rv_daily V)\<rparr>) ?name n V'"
    have "rollups_inv env (insert now T) V" by (rule rollups_inv_mono [OF inv]) blast
    from overview_page_keeps [OF env this page_of_next [OF page] built adv] show "batch_keeps env (insert now T) V ?name (length page) V'"
      using page_keeps [OF _ page] inv unfolding rollups_inv_def by blast
  qed
  then show "attempts view (let (hourlyRows, dailyRows, maxEventID) = OverviewBuildRows (re_overview_order env) (re_zone env) page in
      and_then (ApplyUsageOverviewAggregationPage env (Some db) (sn_OverviewCursor (snapshot_in V)) maxEventID hourlyRows dailyRows now)
        (\<lambda>_. gives (length page))) V (batch_keeps env (insert now T) V ?name)"
    by (simp add: built snapshot_in_def)
qed (simp_all add: snapshot_in_def)

lemma activity_batch:
  assumes env: "env_fine env" and db: "rollup_db_ok db view" and inv: "rollups_inv env T V"
  shows "attempts view (AggregateUsageActivityStatsBatch env (Some db) now) V
    (batch_keeps env (insert now T) V UsageAggregationCheckpointActivity)"
  unfolding AggregateUsageActivityStatsBatch_def option.case
proof (rule next_page_attempt [OF db inv, where cur = sn_ActivityCursor])
  let ?name = UsageAggregationCheckpointActivity
  fix page assume page: "page_of V (cursor_in V ?name) (Max (insert 0 (ev_ID ` set (rv_events V)))) 1000 page" "page \<noteq> []"
  show "attempts view (and_then (or_fail (re_activity_text env) (ActivityBuildRows (re_activity_order env) (re_zone env) page now)) (\<lambda>rows.
      and_then (ApplyUsageActivityAggregationPage env (Some db) (sn_ActivityCursor (snapshot_in V)) (ev_ID (last page)) rows now)
        (\<lambda>_. gives (length page)))) V (batch_keeps env (insert now T) V ?name)"
  proof (rule attempts_and_then [OF attempts_or_fail], rule attempts_then_gives [OF Apply_activity [OF db]], elim conjE)
    fix rows V' assume built: "ActivityBuildRows (re_activity_order env) (re_zone env) page now = Inr rows"
      and applied: "activity_applied V rows now (ev_ID (last page)) V'"
    from activity_page_keeps [OF env inv page_of_next [OF page] built applied] show "batch_keeps env (insert now T) V ?name (length page) V'"
      using page_keeps [OF _ page] inv unfolding rollups_inv_def by blast
  qed
qed (simp_all add: snapshot_in_def)

lemma latency_batch:
  assumes env: "env_fine env" and db: "rollup_db_ok db view" and inv: "rollups_inv env T V"
  shows "attempts view (AggregateUsageLatencyStatsBatch env (Some db) now) V
    (batch_keeps env (insert now T) V UsageAggregationCheckpointLatency)"
  unfolding AggregateUsageLatencyStatsBatch_def option.case
proof (rule next_page_attempt [OF db inv, where cur = sn_LatencyCursor])
  let ?name = UsageAggregationCheckpointLatency
  fix page assume page: "page_of V (cursor_in V ?name) (Max (insert 0 (ev_ID ` set (rv_events V)))) 1000 page" "page \<noteq> []"
  show "attempts view (and_then (or_fail (re_latency_text env) (LatencyBuildRows (re_latency env) (re_latency_order env) (re_zone env) page now)) (\<lambda>rows.
      and_then (ApplyUsageLatencyAggregationPage env (Some db) (sn_LatencyCursor (snapshot_in V)) (ev_ID (last page)) rows now)
        (\<lambda>_. gives (length page)))) V (batch_keeps env (insert now T) V ?name)"
  proof (rule attempts_and_then [OF attempts_or_fail], rule attempts_then_gives [OF Apply_latency [OF db]], elim conjE)
    fix rows V' assume built: "LatencyBuildRows (re_latency env) (re_latency_order env) (re_zone env) page now = Inr rows"
      and applied: "latency_applied env V rows now (ev_ID (last page)) V'"
    from latency_page_keeps [OF env inv page_of_next [OF page] built applied] show "batch_keeps env (insert now T) V ?name (length page) V'"
      using page_keeps [OF _ page] inv unfolding rollups_inv_def by blast
  qed
qed (simp_all add: snapshot_in_def)

section \<open>Until a page is not full\<close>

lemma until_short_page_ends:
  assumes step: "\<And>V. I V \<Longrightarrow> attempts view batch V (\<lambda>k V'. I V' \<and> k = min full (m V) \<and> m V' = m V - k)" and full: "0 < full"
  shows "I (view s) \<Longrightarrow> run_state (until_short_page fuel full batch) s = (res, t) \<Longrightarrow>
    I (view t) \<and> (m (view s) div full < fuel \<longrightarrow> res \<noteq> None) \<and> (res = Some (Inr ()) \<longrightarrow> m (view t) = 0)"
proof (induction fuel arbitrary: s)
  case 0
  then show ?case by simp
next
  case (Suc fuel)
  obtain out u where u: "run_state batch s = (out, u)" by fastforce
  note b = attemptsD [OF step [OF Suc.prems(1)] refl u]
  show ?case
  proof (cases out)
    case (Inl e)
    then show ?thesis using Suc.prems b u by auto
  next
    case (Inr k)
    then have k: "I (view u)" "k = min full (m (view s))" "m (view u) = m (view s) - k" using b by simp_all
    show ?thesis
    proof (cases "k < full")
      case True
      then have "res = Some (Inr ())" "t = u" using Suc.prems(2) u Inr by auto
      moreover have "m (view u) = 0" using k True by (simp add: min_def split: if_splits)
      ultimately show ?thesis using k(1) by simp
    next
      case False
      then have full_page: "k = full" "full \<le> m (view s)" using k(2) by auto
      have run: "run_state (until_short_page fuel full batch) u = (res, t)" using Suc.prems(2) u Inr False by simp
      have "m (view s) div full = Suc (m (view u) div full)"
        using k(3) full_page full by (simp add: le_div_geq)
      then show ?thesis using Suc.IH [OF k(1) run] by simp
    qed
  qed
qed

lemma batches_end:
  assumes batch: "\<And>T V. rollups_inv env T V \<Longrightarrow> attempts view batch V (batch_keeps env (insert now T) V name)"
    and inv: "rollups_inv env T (view s)" and run: "run_state (until_short_page fuel 1000 batch) s = (res, t)"
  shows "rollups_inv env (insert now T) (view t) \<and> one_cursor_moves name (view s) (view t) \<and>
    (remaining (view s) name div 1000 < fuel \<longrightarrow> res \<noteq> None) \<and> (res = Some (Inr ()) \<longrightarrow> caught_up (view t) name)"
proof -
  let ?I = "\<lambda>V. rollups_inv env (insert now T) V \<and> one_cursor_moves name (view s) V"
  have "?I (view t) \<and> (remaining (view s) name div 1000 < fuel \<longrightarrow> res \<noteq> None) \<and> (res = Some (Inr ()) \<longrightarrow> remaining (view t) name = 0)"
  proof (rule until_short_page_ends [where I = ?I and m = "\<lambda>V. remaining V name", OF _ _ _ run])
    show "attempts view batch V (\<lambda>k V'. ?I V' \<and> k = min 1000 (remaining V name) \<and> remaining V' name = remaining V name - k)" if "?I V" for V
      using that by (intro attempts_post [OF batch [of "insert now T" V]])
        (auto simp: batch_keeps_def batch_done_def intro: one_cursor_trans)
    show "?I (view s)" using rollups_inv_mono [OF inv] one_cursor_refl by blast
  qed simp
  then show ?thesis by (simp add: remaining_0)
qed

end
