(* ===== verification/RollupUpkeep.thy ===== *)
theory RollupUpkeep
  imports RollupBatches
begin

text \<open>
  New events, the daily clean-up and the archive: none of them changes what the rollups say of any event.
\<close>

section \<open>New events\<close>

definition grown :: "UsageEvent list \<Rightarrow> rollup_view \<Rightarrow> rollup_view \<Rightarrow> bool" where
  "grown es V V' \<longleftrightarrow> sorted_wrt (<) (rv_sequence V # map ev_ID es) \<and>
     V' = V\<lparr>rv_events := rv_events V @ es, rv_sequence := last (rv_sequence V # map ev_ID es)\<rparr>"

lemma new_events_grown: "new_events es es' V V' \<longleftrightarrow> list_all2 stored_event es es' \<and> grown es' V V'"
  by (auto simp: new_events_def grown_def)

lemma grown_nil: "grown [] V V"
  by (simp add: grown_def)

lemma sorted_last: "sorted_wrt (<) xs \<Longrightarrow> y \<in> set xs \<Longrightarrow> y \<le> last xs" for xs :: "int list"
proof (induction xs)
  case (Cons x xs)
  show ?case
  proof (cases "xs = []")
    case False
    then have "x < last xs" using Cons.prems(1) by simp
    then show ?thesis using Cons.prems Cons.IH False by (auto intro: less_imp_le)
  qed (use Cons.prems in simp)
qed simp

lemma grown_trans:
  assumes "grown xs U V" and "grown ys V W"
  shows "grown (xs @ ys) U W"
proof -
  let ?u = "rv_sequence U" and ?v = "last (rv_sequence U # map ev_ID xs)"
  have s: "sorted_wrt (<) (?u # map ev_ID xs)" "sorted_wrt (<) (?v # map ev_ID ys)" using assms by (auto simp: grown_def)
  have "x < y" if "x \<in> set (?u # map ev_ID xs)" "y \<in> set (map ev_ID ys)" for x y
  proof -
    have "x \<le> ?v" by (rule sorted_last [OF s(1) that(1)])
    also have "?v < y" using s(2) that(2) by auto
    finally show ?thesis .
  qed
  then have "sorted_wrt (<) ((?u # map ev_ID xs) @ map ev_ID ys)" unfolding sorted_wrt_append using s by auto
  then show ?thesis using assms by (auto simp: grown_def)
qed

lemma grown_keeps:
  assumes inv: "rollups_inv env T V" and g: "grown es V V'"
  shows "rollups_inv env T V'"
proof -
  have s: "sorted_wrt (<) (rv_sequence V # map ev_ID es)" using g by (simp add: grown_def)
  have V': "rv_events V' = rv_events V @ es" "rv_sequence V' = last (rv_sequence V # map ev_ID es)" "rv_archive V' = rv_archive V"
    "cursor_in V' = cursor_in V" "rv_hourly V' = rv_hourly V" "rv_daily V' = rv_daily V" "rv_activity V' = rv_activity V" "rv_latency V' = rv_latency V"
    using g by (auto simp: grown_def)
  have all: "all_events V' = all_events V @ es" by (simp add: all_events_def V')
  have V: "events_in_order V" using inv by (simp add: rollups_inv_def)
  have seq: "rv_sequence V \<le> rv_sequence V'" "\<And>e. e \<in> set es \<Longrightarrow> rv_sequence V < ev_ID e \<and> ev_ID e \<le> rv_sequence V'"
    using sorted_last [OF s] s unfolding V' by auto
  have "events_in_order V'"
    unfolding events_in_order_def
  proof (intro conjI ballI)
    have "sorted_wrt (<) (map ev_ID (rv_events V))" "\<forall>e \<in> set (rv_events V). ev_ID e \<le> rv_sequence V"
      using V by (auto simp: events_in_order_def all_events_def)
    then show "sorted_wrt (<) (map ev_ID (rv_events V'))"
      using s seq(2) unfolding V' map_append sorted_wrt_append by force
    have "distinct (map ev_ID es)" using s by (simp add: strict_sorted_iff)
    moreover have "ev_ID ` set (all_events V) \<inter> ev_ID ` set es = {}" using V seq(2) by (force simp: events_in_order_def)
    ultimately show "distinct (map ev_ID (all_events V'))" using V by (simp add: all events_in_order_def)
    show "0 \<le> rv_sequence V'" using V seq(1) by (auto simp: events_in_order_def)
    show "0 < ev_ID e" "ev_ID e \<le> rv_sequence V'" if "e \<in> set (all_events V')" for e
      using that V seq by (auto simp: events_in_order_def all intro: order_trans order.strict_trans1)
    show "0 \<le> cursor_in V' name" "cursor_in V' name \<le> rv_sequence V'" if "name \<in> set checkpoint_names" for name
      using V that seq(1) by (auto simp: events_in_order_def V' intro: order_trans)
    show "ev_ID e \<le> cursor_in V' name" if "name \<in> set checkpoint_names" "e \<in> set (rv_archive V')" for name e
      using V that by (simp add: events_in_order_def V')
  qed
  moreover have "counted_events V' name = counted_events V name" if "name \<in> set checkpoint_names" for name
  proof -
    have "cursor_in V name \<le> rv_sequence V" using V that by (simp add: events_in_order_def)
    then have "up_to (cursor_in V name) es = []" using seq(2) by (force simp: up_to_def filter_empty_conv)
    then show ?thesis by (simp add: counted_events_def all up_to_append V')
  qed
  then have "rollups_exact env T V'" if "rollups_exact env T V"
    using that by (simp add: rollups_exact_def overview_exact_def activity_exact_def latency_exact_def V' checkpoint_names_def)
  moreover have "load_ok (all_events V)" if "load_ok (all_events V')" using that load_ok_left unfolding all by blast
  ultimately show ?thesis using inv by (auto simp: rollups_inv_def)
qed

section \<open>Clean-up\<close>

text \<open>Deleting rows whose keys have not been retained.\<close>

lemma delete_effect:
  assumes tb: "table_ok stored tb view get put" and l: "lens get put"
  shows "holds (\<lambda>s. view s = V) (wrapped what (State (tb_delete tb P)))
    (\<lambda>_ s. \<exists>Q. (\<forall>r. \<not> P r \<longrightarrow> Q r) \<and> view s = put (filter Q (get V)) V)"
proof (rule holdsI)
  fix s res t assume s: "view s = V" and r: "run_state (wrapped what (State (tb_delete tb P))) s = (res, t)"
  obtain out where out: "tb_delete tb P s = (out, t)" using r by (auto simp: wrapped_def split: prod.splits)
  have "view t = put (filter (\<lambda>r. \<not> P r) (get (view s))) (view s) \<or> view t = view s" using tb out unfolding table_ok_def by blast
  then show "\<exists>Q. (\<forall>r. \<not> P r \<longrightarrow> Q r) \<and> view t = put (filter Q (get V)) V"
  proof
    assume "view t = view s"
    then show ?thesis using s l by (intro exI [of _ "\<lambda>_. True"]) (simp add: lens_def)
  next
    assume "view t = put (filter (\<lambda>r. \<not> P r) (get (view s))) (view s)"
    then show ?thesis unfolding s by (intro exI [of _ "\<lambda>r. \<not> P r"] conjI allI impI)
  qed
qed

lemma cutoff_shown: "dated now \<Longrightarrow> Retention g = Some ret \<Longrightarrow> year_shown (t_add now (- ret))"
  by (rule near_dated) (auto simp: Retention_def grainRetentions_def t_add_def split: if_splits)

lemma activity_deleted_keeps:
  assumes inv: "rollups_inv env (insert now T) V" and dated: "dated now" and g: "Retention g = Some ret" "grain_known g"
    and Q: "\<And>r. \<not> (grain_text (as_Grain r) = grain_text g \<and> FormatSortableStorageTime (as_BucketEnd r) < FormatSortableStorageTime (t_add now (- ret))) \<Longrightarrow> Q r"
  shows "rollups_inv env (insert now T) (V\<lparr>rv_activity := filter Q (rv_activity V)\<rparr>)"
proof -
  let ?W = "V\<lparr>rv_activity := filter Q (rv_activity V)\<rparr>"
  have "activity_exact z (insert now T) es ?W" if a: "activity_exact z (insert now T) es V" for z es
  proof -
    have "Q r" if r: "r \<in> set (rv_activity V)" "retained_at (insert now T) (activity_row_key r)" for r
    proof (rule Q, rule notI, elim conjE)
      assume t: "grain_text (as_Grain r) = grain_text g"
        and lt: "FormatSortableStorageTime (as_BucketEnd r) < FormatSortableStorageTime (t_add now (- ret))"
      have sh: "shown_row r" using a r(1) by (simp add: activity_exact_def)
      have "year_shown (t_add now (- ret))" by (rule cutoff_shown [OF dated g(1)])
      then have "as_BucketEnd r < t_add now (- ret)" using lt sh sortable_order(1) by (simp add: shown_row_def)
      moreover have "t_add now (- ret) \<le> as_BucketStart r"
        using r(2) t g by (auto simp: retained_at_def retained_def activity_row_key_def)
      ultimately show False using sh by (simp add: shown_row_def)
    qed
    then show ?thesis using a activity_count.exact_delete [of z "retained_at (insert now T)" "slots es" "rv_activity V" Q]
      by (simp add: activity_exact_def)
  qed
  moreover have "all_events ?W = all_events V" "events_in_order ?W = events_in_order V"
    by (simp_all add: all_events_def events_in_order_def)
  ultimately show ?thesis using inv
    by (simp add: rollups_inv_def rollups_exact_def counted_events_def overview_exact_def latency_exact_def)
qed

lemma latency_deleted_keeps:
  assumes inv: "rollups_inv env (insert now T) V" and cut: "RetentionBucketStartCutoff (re_zone env) bucketType now = Inr cutoff"
    and Q: "\<And>r. \<not> (ls_BucketType r = bucketType \<and> FormatStorageTime (re_zone env) (ls_BucketStart r) < FormatStorageTime (re_zone env) cutoff) \<Longrightarrow> Q r"
  shows "rollups_inv env (insert now T) (V\<lparr>rv_latency := filter Q (rv_latency V)\<rparr>)"
proof -
  let ?W = "V\<lparr>rv_latency := filter Q (rv_latency V)\<rparr>" and ?z = "re_zone env"
  have "latency_exact env (insert now T) es ?W" if a: "latency_exact env (insert now T) es V" for es
  proof -
    have "Q r" if "latency_retained ?z (insert now T) (latencyRowKey ?z r)" for r
    proof (rule Q, rule notI, elim conjE)
      assume t: "ls_BucketType r = bucketType" and lt: "FormatStorageTime ?z (ls_BucketStart r) < FormatStorageTime ?z cutoff"
      have "FormatStorageTime ?z cutoff \<le> fst (snd (latencyRowKey ?z r))"
        using that cut t by (auto simp: latency_retained_def latencyRowKey_def)
      with lt show False by (simp add: latencyRowKey_def)
    qed
    then show ?thesis using a latency_table_delete [of "re_latency env" ?z "latency_retained ?z (insert now T)" _ "rv_latency V" Q]
      by (simp add: latency_exact_def)
  qed
  moreover have "all_events ?W = all_events V" "events_in_order ?W = events_in_order V"
    by (simp_all add: all_events_def events_in_order_def)
  ultimately show ?thesis using inv
    by (simp add: rollups_inv_def rollups_exact_def counted_events_def overview_exact_def activity_exact_def)
qed

lemma delete_keeps:
  assumes tb: "table_ok stored tb view get put" and l: "lens get put"
    and keeps: "\<And>V Q. I V \<Longrightarrow> (\<And>r. \<not> P r \<Longrightarrow> Q r) \<Longrightarrow> I (put (filter Q (get V)) V)"
  shows "holds (\<lambda>s. I (view s)) (wrapped what (State (tb_delete tb P))) (\<lambda>_ s. I (view s))"
proof (rule holdsI)
  fix s res t assume I: "I (view s)" and r: "run_state (wrapped what (State (tb_delete tb P))) s = (res, t)"
  from holdsD [OF delete_effect [OF tb l] refl r] show "I (view t)" using keeps [OF I] by metis
qed

lemma for_each_keeps:
  assumes "\<And>x. x \<in> set xs \<Longrightarrow> holds P (f x) (\<lambda>_. P)"
  shows "holds P (for_each f xs) (\<lambda>_. P)"
  using assms
proof (induction xs)
  case Nil
  show ?case by (simp add: gives_def keep_return)
next
  case (Cons x xs)
  show ?case unfolding for_each.simps
    by (rule holds_and_then [where R = "\<lambda>_. P"]) (use Cons in simp_all)
qed

lemma CleanupUsageActivityStats_keeps:
  assumes db: "rollup_db_ok db view" and dated: "dated now"
  shows "holds (\<lambda>s. rollups_inv env (insert now T) (view s)) (CleanupUsageActivityStats (Some db) now)
    (\<lambda>_ s. rollups_inv env (insert now T) (view s))"
  unfolding CleanupUsageActivityStats_def option.case
proof (rule for_each_keeps)
  have tb: "table_ok as_given (ru_activity db) view rv_activity (\<lambda>rs v. v\<lparr>rv_activity := rs\<rparr>)"
    using db by (simp add: rollup_db_ok_def)
  fix g assume g: "g \<in> set [UsageActivityGrainShort, UsageActivityGrainMedium, UsageActivityGrainLong]"
  show "holds (\<lambda>s. rollups_inv env (insert now T) (view s)) (cleanup_grain db now g) (\<lambda>_ s. rollups_inv env (insert now T) (view s))"
  proof (cases "Retention g")
    case None
    then show ?thesis by (simp add: cleanup_grain_def gives_def keep_return)
  next
    case (Some ret)
    have known: "grain_known g" using g by (auto simp: grain_known_def)
    show ?thesis
      unfolding cleanup_grain_def Some option.case Let_def
      by (rule delete_keeps [OF tb lens_view(3)]) (rule activity_deleted_keeps [OF _ dated Some known])
  qed
qed

lemma CleanupUsageLatencyStats_keeps:
  assumes db: "rollup_db_ok db view"
  shows "holds (\<lambda>s. rollups_inv env (insert now T) (view s)) (CleanupUsageLatencyStats env (Some db) now)
    (\<lambda>_ s. rollups_inv env (insert now T) (view s))"
  unfolding CleanupUsageLatencyStats_def option.case
proof (rule for_each_keeps)
  have tb: "table_ok with_new_id (ru_latency db) view rv_latency (\<lambda>rs v. v\<lparr>rv_latency := rs\<rparr>)"
    using db by (simp add: rollup_db_ok_def)
  fix b
  show "holds (\<lambda>s. rollups_inv env (insert now T) (view s)) (cleanup_bucket_type env db now b) (\<lambda>_ s. rollups_inv env (insert now T) (view s))"
  proof (cases "RetentionBucketStartCutoff (re_zone env) b now")
    case (Inl e)
    then show ?thesis by (simp add: cleanup_bucket_type_def or_fail_def fails_def and_then_def keep_return)
  next
    case (Inr cutoff)
    have "holds (\<lambda>s. rollups_inv env (insert now T) (view s))
        (wrapped (''cleanup usage latency '' @ b @ '' stats'') (State (tb_delete (ru_latency db) (\<lambda>r. ls_BucketType r = b \<and>
           FormatStorageTime (re_zone env) (ls_BucketStart r) < FormatStorageTime (re_zone env) cutoff))))
        (\<lambda>_ s. rollups_inv env (insert now T) (view s))"
      by (rule delete_keeps [OF tb lens_view(4)]) (rule latency_deleted_keeps [OF _ Inr])
    then show ?thesis by (simp add: cleanup_bucket_type_def Inr or_fail_def gives_def and_then_def)
  qed
qed

section \<open>The archive\<close>

text \<open>Events that every checkpoint has counted have moved.\<close>

definition archived_some :: "int list \<Rightarrow> rollup_view \<Rightarrow> rollup_view \<Rightarrow> bool" where
  "archived_some js V V' \<longleftrightarrow> (\<forall>name \<in> set checkpoint_names. caught_up V name) \<and>
     V' = V\<lparr>rv_archive := rv_archive V @ of_ids js (rv_events V), rv_events := filter (\<lambda>e. ev_ID e \<notin> set js) (rv_events V)\<rparr>"

lemma archived_keeps:
  assumes inv: "rollups_inv env T V" and a: "archived_some js V V'"
  shows "rollups_inv env T V' \<and> mset (all_events V') = mset (all_events V)"
proof -
  have V': "rv_events V' = filter (\<lambda>e. ev_ID e \<notin> set js) (rv_events V)" "rv_archive V' = rv_archive V @ of_ids js (rv_events V)"
    "rv_sequence V' = rv_sequence V" "cursor_in V' = cursor_in V" "rv_hourly V' = rv_hourly V" "rv_daily V' = rv_daily V"
    "rv_activity V' = rv_activity V" "rv_latency V' = rv_latency V"
    using a by (auto simp: archived_some_def)
  have V: "events_in_order V" using inv by (simp add: rollups_inv_def)
  have all: "mset (all_events V') = mset (all_events V)"
    unfolding all_events_def V' of_ids_def mset_append mset_filter by (simp add: add.assoc multiset_partition [symmetric])
  then have sets: "set (all_events V') = set (all_events V)" by (rule mset_eq_setD)
  have "mset (map ev_ID (all_events V')) = mset (map ev_ID (all_events V))" using all by (simp only: mset_map)
  then have d: "distinct (map ev_ID (all_events V'))" using V by (metis events_in_order_def mset_eq_imp_distinct_iff)
  have cut: "ev_ID e \<le> cursor_in V name" if "e \<in> set (rv_archive V')" "name \<in> set checkpoint_names" for e name
    using that V a by (auto simp: V' of_ids_def events_in_order_def archived_some_def caught_up_def)
  have order: "events_in_order V'"
    using V d cut sets by (auto simp: events_in_order_def V' sorted_wrt_map sorted_wrt_filter)
  have counted: "mset (counted_events V name) = mset (counted_events V' name)" for name
    unfolding counted_events_def up_to_def mset_filter all V' ..
  have "rollups_exact env T V'" if ex: "rollups_exact env T V"
  proof -
    have "overview_exact (re_zone env) (counted_events V' n) V" if "overview_exact (re_zone env) (counted_events V n) V" for n
      by (rule overview_exact_cong [OF counted that])
    moreover have "activity_exact (re_zone env) T (counted_events V' n) V" if "activity_exact (re_zone env) T (counted_events V n) V" for n
      by (rule activity_exact_cong [OF counted that])
    moreover have "latency_exact env T (counted_events V' n) V" if "latency_exact env T (counted_events V n) V" for n
      by (rule latency_exact_cong [OF counted that])
    ultimately show ?thesis using ex unfolding rollups_exact_def
      by (simp add: overview_exact_def activity_exact_def latency_exact_def V')
  qed
  then show ?thesis using inv order all load_ok_cong [OF all] by (simp add: rollups_inv_def)
qed

lemma ready_caught_up:
  assumes V: "named_once V" and cs: "mset cs = mset (filter (\<lambda>c. cp_Name c \<in> set checkpoint_names) (rv_checkpoints V))"
    and ready: "mget (fold (\<lambda>c m. mput m (cp_Name c) (cp_LastAggregatedUsageEventID c \<ge> n)) cs []) name = Some True"
    and n: "\<forall>e \<in> set (rv_events V). ev_ID e \<le> n"
  shows "caught_up V name"
proof -
  have d: "distinct (map cp_Name cs)"
    using V cs by (metis distinct_map_filter mset_eq_imp_distinct_iff mset_map named_once_def)
  obtain c more_cs where f: "filter (\<lambda>c. cp_Name c = name) cs = c # more_cs" and "cp_LastAggregatedUsageEventID c \<ge> n"
    using ready unfolding mget_fold_mput [OF d] by (cases "filter (\<lambda>c. cp_Name c = name) cs") simp_all
  moreover from f have "c \<in> set (filter (\<lambda>c. cp_Name c = name) cs)" by simp
  ultimately have c: "c \<in> set (filter (\<lambda>c. cp_Name c = name) cs)" "cp_LastAggregatedUsageEventID c \<ge> n" by simp_all
  then have "c \<in> set (rv_checkpoints V)" using mset_eq_setD [OF cs] by auto
  then have "cursor_in V name \<ge> n" using cursor_of_row [OF V, of c] c by simp
  with n show ?thesis by (auto simp: caught_up_def)
qed

lemma caught_up_checked:
  assumes db: "rollup_db_ok db view" and V: "events_in_order V"
  shows "succeeds_with view (usageEventAggregationsCaughtUp db) V
    (\<lambda>safe V'. V' = V \<and> (safe \<longrightarrow> (\<forall>name \<in> set checkpoint_names. caught_up V name)))"
proof -
  let ?Q = "\<lambda>safe V'. V' = V \<and> (safe \<longrightarrow> (\<forall>name \<in> set checkpoint_names. caught_up V name))"
  have reads: "succeeds_with view (wrapped what (reads f)) V (\<lambda>x V'. V' = V \<and> Q x)"
    if "\<And>s x. view s = V \<Longrightarrow> f s = Inr x \<Longrightarrow> Q x" for what f and Q :: "'b \<Rightarrow> bool"
    by (rule succeeds_wrapped) (use that in \<open>auto simp: succeeds_with_def reads_def\<close>)
  let ?max = "Max (insert 0 (ev_ID ` set (rv_events V)))"
  have target: "succeeds_with view (wrapped w (reads (ru_target db))) V (\<lambda>n V'. V' = V \<and> n = ?max)" for w
    by (rule reads) (use db in \<open>auto simp: rollup_db_ok_def events_ok_def\<close>)
  have list: "succeeds_with view (wrapped w (reads (tb_list (ru_checkpoints db) P))) V
      (\<lambda>cs V'. V' = V \<and> named_once V \<and> mset cs = mset (filter P (rv_checkpoints V)))" for w P
    by (rule reads) (use db db_named_once [OF db] in \<open>auto simp: rollup_db_ok_def checkpoints_ok_def table_ok_def\<close>)
  have pending: "succeeds_with view (wrapped w (reads (ru_pending_identity db))) V (\<lambda>_ V'. V' = V \<and> True)" for w
    by (rule reads) simp
  have bound: "\<forall>e \<in> set (rv_events V). ev_ID e \<le> ?max" by simp
  have found: "succeeds_with view (if \<exists>name \<in> set checkpoint_names.
        mget (fold (\<lambda>c m. mput m (cp_Name c) (cp_LastAggregatedUsageEventID c \<ge> ?max)) cs []) name \<noteq> Some True then gives False
      else and_then (wrapped ''check identity archive watermark'' (reads (ru_pending_identity db))) (\<lambda>pendingIdentity. gives (\<not> pendingIdentity))) V ?Q"
    if "named_once V" "mset cs = mset (filter (\<lambda>c. cp_Name c \<in> set checkpoint_names) (rv_checkpoints V))" for cs
  proof (cases "\<exists>name \<in> set checkpoint_names. mget (fold (\<lambda>c m. mput m (cp_Name c) (cp_LastAggregatedUsageEventID c \<ge> ?max)) cs []) name \<noteq> Some True")
    case True
    then show ?thesis by (simp add: succeeds_gives)
  next
    case False
    then have "\<forall>name \<in> set checkpoint_names. caught_up V name" using ready_caught_up [OF that _ bound] by blast
    then show ?thesis unfolding if_not_P [OF False]
      by (intro succeeds_and_then [OF pending]) (auto intro: succeeds_gives)
  qed
  show ?thesis
    unfolding usageEventAggregationsCaughtUp_def
  proof (rule succeeds_and_then [OF target], elim conjE)
    fix n W assume W: "W = V" and n: "n = ?max"
    show "succeeds_with view (if n = 0 then gives True else
        and_then (wrapped ''load usage aggregation archive watermarks'' (reads (tb_list (ru_checkpoints db) (\<lambda>c. cp_Name c \<in> set checkpoint_names)))) (\<lambda>checkpoints.
          let ready = fold (\<lambda>c m. mput m (cp_Name c) (cp_LastAggregatedUsageEventID c \<ge> n)) checkpoints [] in
          if \<exists>name \<in> set checkpoint_names. mget ready name \<noteq> Some True then gives False
          else and_then (wrapped ''check identity archive watermark'' (reads (ru_pending_identity db))) (\<lambda>pendingIdentity. gives (\<not> pendingIdentity)))) W ?Q"
    proof (cases "n = 0")
      case True
      have "rv_events V = []"
      proof (rule ccontr)
        assume "rv_events V \<noteq> []"
        then obtain e where "e \<in> set (rv_events V)" by (cases "rv_events V") auto
        moreover from this have "0 < ev_ID e" using V by (simp add: events_in_order_def all_events_def)
        ultimately show False using bound n True by fastforce
      qed
      then show ?thesis using True W by (simp add: succeeds_gives caught_up_def)
    next
      case False
      show ?thesis unfolding W Let_def n if_not_P [OF False [unfolded n]]
        by (intro succeeds_and_then [OF list]) (use found in auto)
    qed
  qed
qed

definition expired_at :: "zone \<Rightarrow> gtime \<Rightarrow> UsageEvent \<Rightarrow> bool" where
  "expired_at z now e \<longleftrightarrow> FormatStorageTime z (ev_Timestamp e) < FormatStorageTime z (usageEventsArchiveCutoff z now)"

definition archive_done :: "(UsageEvent \<Rightarrow> bool) \<Rightarrow> rollup_view \<Rightarrow> nat \<times> UsageEventArchiveStatus \<Rightarrow> rollup_view \<Rightarrow> bool" where
  "archive_done old V r V' \<longleftrightarrow>
     (if snd r = UsageEventArchiveStatusArchived
      then 0 < fst r \<and> fst r = min usageEventArchiveBatchSize (length (filter old (rv_events V))) \<and>
        (\<exists>js. archived_some js V V' \<and> distinct js \<and> fst r = length js \<and> set js \<subseteq> ev_ID ` {e \<in> set (rv_events V). old e})
      else fst r = 0 \<and> V' = V \<and> snd r \<in> {UsageEventArchiveStatusEmpty, UsageEventArchiveStatusAggregationLagging} \<and>
        (snd r = UsageEventArchiveStatusEmpty \<longrightarrow> filter old (rv_events V) = []))"

lemma archive_batch:
  fixes z :: zone and now :: gtime
  assumes db: "rollup_db_ok db view" and V: "events_in_order V"
  shows "attempts view (archiveExpiredUsageEventsBatch z db now) V (archive_done (expired_at z now) V)"
proof -
  let ?old = "expired_at z now" and ?Q = "archive_done (expired_at z now) V"
  have t: "transactions_ok (ru_inbox db) view" and arch: "archive_ok db view" using db by (simp_all add: rollup_db_ok_def)
  have ids: "succeeds_with view (wrapped w (reads (ru_expired db ?old usageEventArchiveBatchSize))) V
      (\<lambda>js V'. V' = V \<and> distinct js \<and> set js \<subseteq> ev_ID ` {e \<in> set (rv_events V). ?old e} \<and>
         length js = min usageEventArchiveBatchSize (length (filter ?old (rv_events V))))" for w
  proof (rule succeeds_wrapped)
    have "distinct js \<and> set js \<subseteq> ev_ID ` {e \<in> set (rv_events (view s)). ?old e} \<and>
        length js = min usageEventArchiveBatchSize (length (filter ?old (rv_events (view s))))"
      if "ru_expired db ?old usageEventArchiveBatchSize s = Inr js" for s js
      using arch that unfolding archive_ok_def by blast
    then show "succeeds_with view (reads (ru_expired db ?old usageEventArchiveBatchSize)) V
      (\<lambda>js V'. V' = V \<and> distinct js \<and> set js \<subseteq> ev_ID ` {e \<in> set (rv_events V). ?old e} \<and>
         length js = min usageEventArchiveBatchSize (length (filter ?old (rv_events V))))"
      unfolding succeeds_with_def reads_def by fastforce
  qed
  have move: "succeeds_with view (move_events db js) V (\<lambda>r V'. r = (length js, UsageEventArchiveStatusArchived) \<and>
      V' = V\<lparr>rv_archive := rv_archive V @ of_ids js (rv_events V), rv_events := filter (\<lambda>e. ev_ID e \<notin> set js) (rv_events V)\<rparr>)" for js
    unfolding succeeds_with_def
  proof (intro allI impI)
    fix s x u assume s: "view s = V" and r: "run_state (move_events db js) s = (Inr x, u)"
    obtain n s1 where s1: "ru_archive db js s = (Inr n, s1)" and n: "n = length js"
      and r1: "\<exists>k. ru_archived db js s1 = Inr k \<and> k = length js"
      and r2: "ru_delete_events db js s1 = (Inr (length js), u)" and x: "x = (length js, UsageEventArchiveStatusArchived)"
      using r by (auto simp: move_events_def run_and_then run_wrapped reads_def fails_def gives_def split: if_splits)
    have v1: "view s1 = V\<lparr>rv_archive := rv_archive V @ of_ids js (rv_events V)\<rparr>"
      using arch s1 s unfolding archive_ok_def by fastforce
    have "view u = (view s1)\<lparr>rv_events := filter (\<lambda>e. ev_ID e \<notin> set js) (rv_events (view s1))\<rparr>"
      using arch r2 unfolding archive_ok_def by fastforce
    then show "x = (length js, UsageEventArchiveStatusArchived) \<and>
        view u = V\<lparr>rv_archive := rv_archive V @ of_ids js (rv_events V), rv_events := filter (\<lambda>e. ev_ID e \<notin> set js) (rv_events V)\<rparr>"
      by (simp add: x v1)
  qed
  have rest: "succeeds_with view (and_then (usageEventAggregationsCaughtUp db) (\<lambda>safe.
      if \<not> safe then gives (0, UsageEventArchiveStatusAggregationLagging) else move_events db js)) V ?Q"
    if js: "distinct js" "set js \<subseteq> ev_ID ` {e \<in> set (rv_events V). ?old e}"
      "length js = min usageEventArchiveBatchSize (length (filter ?old (rv_events V)))" "js \<noteq> []" for js
  proof (rule succeeds_and_then [OF caught_up_checked [OF db V]], elim conjE)
    fix safe W assume W: "W = V" "safe \<longrightarrow> (\<forall>name \<in> set checkpoint_names. caught_up V name)"
    show "succeeds_with view (if \<not> safe then gives (0, UsageEventArchiveStatusAggregationLagging) else move_events db js) W ?Q"
    proof (cases safe)
      case True
      have "0 < length js" using js(4) by simp
      have "?Q r V'" if "r = (length js, UsageEventArchiveStatusArchived) \<and>
          V' = V\<lparr>rv_archive := rv_archive V @ of_ids js (rv_events V), rv_events := filter (\<lambda>e. ev_ID e \<notin> set js) (rv_events V)\<rparr>" for r V'
      proof -
        have "archived_some js V V'" using that True W(2) by (simp add: archived_some_def)
        then show ?thesis using that js \<open>0 < length js\<close> unfolding archive_done_def by auto
      qed
      then show ?thesis using True W(1) by (auto intro!: succeeds_post [OF move])
    next
      case False
      then show ?thesis using W by (simp add: succeeds_gives archive_done_def)
    qed
  qed
  show ?thesis
    unfolding archiveExpiredUsageEventsBatch_def expired_at_def [symmetric]
  proof (rule attempts_transaction [OF t], rule succeeds_and_then [OF ids], elim conjE)
    fix js W assume W: "W = V" and js: "distinct js" "set js \<subseteq> ev_ID ` {e \<in> set (rv_events V). ?old e}"
      "length js = min usageEventArchiveBatchSize (length (filter ?old (rv_events V)))"
    show "succeeds_with view (if js = [] then gives (0, UsageEventArchiveStatusEmpty) else
        and_then (usageEventAggregationsCaughtUp db) (\<lambda>safe.
          if \<not> safe then gives (0, UsageEventArchiveStatusAggregationLagging) else move_events db js)) W ?Q"
    proof (cases "js = []")
      case True
      then have "filter ?old (rv_events V) = []" using js(3) by (simp add: min_def split: if_splits)
      then show ?thesis using True W by (simp add: succeeds_gives archive_done_def)
    next
      case False
      then show ?thesis using rest [OF js] W by simp
    qed
  qed
qed

lemma expired_left:
  assumes V: "events_in_order V" and a: "archived_some js V V'" and js: "distinct js" "set js \<subseteq> ev_ID ` {e \<in> set (rv_events V). P e}"
  shows "length (filter P (rv_events V')) + length js = length (filter P (rv_events V))"
proof -
  have d: "distinct (map ev_ID (rv_events V))" using V by (simp add: events_in_order_def strict_sorted_iff)
  have same: "P e" if "e \<in> set (rv_events V)" "ev_ID e \<in> set js" for e
  proof -
    have e: "e \<in> set (rv_events V)" "ev_ID e \<in> set js" using that by simp_all
    then obtain e' where e': "e' \<in> set (rv_events V)" "P e'" "ev_ID e' = ev_ID e" using js(2) by auto
    then have "e' = e" using d e(1) by (simp add: distinct_map inj_on_def)
    then show ?thesis using e'(2) by simp
  qed
  have "length (filter P (rv_events V)) = length (filter (\<lambda>e. ev_ID e \<in> set js) (filter P (rv_events V))) +
      length (filter (\<lambda>e. \<not> ev_ID e \<in> set js) (filter P (rv_events V)))"
    by (rule sum_length_filter_compl [symmetric])
  also have "filter (\<lambda>e. ev_ID e \<in> set js) (filter P (rv_events V)) = filter (\<lambda>e. ev_ID e \<in> set js) (rv_events V)"
    unfolding filter_filter using same by (intro filter_cong refl) blast
  also have "length (filter (\<lambda>e. ev_ID e \<in> set js) (rv_events V)) = length js"
  proof -
    let ?ids = "map ev_ID (filter (\<lambda>e. ev_ID e \<in> set js) (rv_events V))"
    have "distinct ?ids" using d by (simp add: distinct_map_filter)
    moreover have "set ?ids = set js" using js(2) by auto
    ultimately have "length ?ids = length js" using js(1) by (metis distinct_card)
    then show ?thesis by simp
  qed
  also have "filter (\<lambda>e. \<not> ev_ID e \<in> set js) (filter P (rv_events V)) = filter P (rv_events V')"
    using a by (simp add: archived_some_def conj_commute)
  finally show ?thesis by simp
qed

text \<open>Everything that has moved had been counted.\<close>

definition only_archives :: "(UsageEvent \<Rightarrow> bool) \<Rightarrow> rollup_view \<Rightarrow> rollup_view \<Rightarrow> bool" where
  "only_archives P V V' \<longleftrightarrow> mset (all_events V') = mset (all_events V) \<and> set (rv_archive V) \<subseteq> set (rv_archive V') \<and>
     (\<forall>e \<in> set (rv_archive V') - set (rv_archive V). P e \<and> (\<forall>name \<in> set checkpoint_names. ev_ID e \<le> cursor_in V name)) \<and>
     cursor_in V' = cursor_in V \<and> rv_sequence V' = rv_sequence V \<and> rv_hourly V' = rv_hourly V \<and> rv_daily V' = rv_daily V \<and>
     rv_activity V' = rv_activity V \<and> rv_latency V' = rv_latency V"

lemma only_archives_refl: "only_archives P V V"
  by (simp add: only_archives_def)

lemma only_archives_trans: "only_archives P U V \<Longrightarrow> only_archives P V W \<Longrightarrow> only_archives P U W"
  unfolding only_archives_def by auto

lemma archived_only:
  assumes V: "events_in_order V" and a: "archived_some js V V'" and js: "set js \<subseteq> ev_ID ` {e \<in> set (rv_events V). P e}"
  shows "only_archives P V V'"
proof -
  have d: "distinct (map ev_ID (rv_events V))" using V by (simp add: events_in_order_def strict_sorted_iff)
  have V': "rv_events V' = filter (\<lambda>e. ev_ID e \<notin> set js) (rv_events V)" "rv_archive V' = rv_archive V @ of_ids js (rv_events V)"
    using a by (auto simp: archived_some_def)
  have "P e \<and> (\<forall>name \<in> set checkpoint_names. ev_ID e \<le> cursor_in V name)" if "e \<in> set (of_ids js (rv_events V))" for e
  proof -
    have e: "e \<in> set (rv_events V)" "ev_ID e \<in> set js" using that by (auto simp: of_ids_def)
    then obtain e' where e': "e' \<in> set (rv_events V)" "P e'" "ev_ID e' = ev_ID e" using js by auto
    then have "e' = e" using d e(1) by (simp add: distinct_map inj_on_def)
    then show ?thesis using e e'(2) a by (simp add: archived_some_def caught_up_def)
  qed
  moreover have "mset (all_events V') = mset (all_events V)"
    unfolding all_events_def V' of_ids_def mset_append mset_filter by (simp add: add.assoc multiset_partition [symmetric])
  ultimately show ?thesis using a by (auto simp: only_archives_def archived_some_def)
qed

lemma archive_rounds_end:
  fixes z :: zone
  assumes db: "rollup_db_ok db view"
  shows "rollups_inv env T (view s) \<Longrightarrow> run_state (archive_rounds fuel ctx z db now result) s = (res, t) \<Longrightarrow>
    rollups_inv env T (view t) \<and> only_archives (expired_at z now) (view s) (view t) \<and>
    (length (filter (expired_at z now) (rv_events (view s))) < fuel \<longrightarrow> res \<noteq> None)"
proof (induction fuel arbitrary: s result)
  case 0
  then show ?case by (auto simp: only_archives_refl)
next
  case (Suc fuel)
  have V: "events_in_order (view s)" using Suc.prems(1) by (simp add: rollups_inv_def)
  obtain out u where u: "run_state (archiveExpiredUsageEventsBatch z db now) s = (out, u)" by fastforce
  note b = attemptsD [OF archive_batch [OF db V] refl u]
  show ?case
  proof (cases "ctx s")
    case (Some err)
    then show ?thesis using Suc.prems by (auto simp: reads_def only_archives_refl)
  next
    case None
    show ?thesis
    proof (cases out)
      case (Inl e)
      then show ?thesis using Suc.prems None u b by (auto simp: reads_def only_archives_refl)
    next
      case (Inr r)
      then have batch: "archive_done (expired_at z now) (view s) r (view u)" using b by simp
      obtain k status where r: "r = (k, status)" by (cases r)
      show ?thesis
      proof (cases "status = UsageEventArchiveStatusArchived")
        case False
        then have "view u = view s" "k = 0" using batch by (simp_all add: archive_done_def r)
        then show ?thesis using Suc.prems None u Inr by (auto simp: reads_def r Let_def only_archives_refl split: if_splits)
      next
        case True
        with batch obtain js where js: "0 < k" "archived_some js (view s) (view u)" "distinct js" "k = length js"
          "set js \<subseteq> ev_ID ` {e \<in> set (rv_events (view s)). expired_at z now e}"
          by (auto simp: archive_done_def r)
        have run: "run_state (archive_rounds fuel ctx z db now
            (result\<lparr>ar_Archived := ar_Archived result + k, ar_Status := UsageEventArchiveStatusArchived\<rparr>)) u = (res, t)"
          using Suc.prems(2) None u Inr True js(1) by (simp add: reads_def r Let_def)
        have inv: "rollups_inv env T (view u)" using archived_keeps [OF Suc.prems(1) js(2)] by simp
        have "length (filter (expired_at z now) (rv_events (view u))) < length (filter (expired_at z now) (rv_events (view s)))"
          using expired_left [OF V js(2, 3, 5)] js(1) unfolding js(4) by linarith
        then show ?thesis
          using Suc.IH [OF inv run] only_archives_trans [OF archived_only [OF V js(2, 5)]] by auto
      qed
    qed
  qed
qed

end
