(* ===== verification/RollupHistory.thy ===== *)
theory RollupHistory
  imports RollupUpkeep
begin

text \<open>
  The rollups over time: events arrive, pages are counted, old rows are dropped and old events archived, in any order and
  however often the database refuses a statement.
\<close>

section \<open>Inserting events\<close>

lemma attempts_then_value:
  assumes "attempts view c V (\<lambda>_. Q)"
  shows "attempts view (and_then c (\<lambda>x. gives (f x))) V (\<lambda>_. Q)"
  unfolding attempts_def
proof (intro allI impI)
  fix s res t assume s: "view s = V" and r: "run_state (and_then c (\<lambda>x. gives (f x))) s = (res, t)"
  obtain out u where u: "run_state c s = (out, u)" by fastforce
  show "case res of Inl _ \<Rightarrow> view t = V | Inr x \<Rightarrow> Q (view t)"
    using attemptsD [OF assms s u] r u by (cases out) (auto simp: and_then_def gives_def)
qed

lemma event_batches_grow:
  assumes db: "rollup_db_ok db view"
  shows "succeeds_with view (insert_event_batches (ru_inbox db) events start inserted stored) V
    (\<lambda>_ V'. \<exists>es. list_all2 stored_event (drop start events) es \<and> grown es V V')"
proof (induction "length events - start" arbitrary: start inserted stored V rule: less_induct)
  case less
  let ?Q = "\<lambda>_ V'. \<exists>es. list_all2 stored_event (drop start events) es \<and> grown es V V'"
  let ?size = "insertBatchSize (sql_event_columns (ru_inbox db))"
  let ?stop = "min (start + ?size) (length events)"
  let ?batch = "take (?stop - start) (drop start events)"
  show ?case
  proof (cases "start < length events")
    case False
    then show ?thesis
      by (subst insert_event_batches.simps) (auto simp: succeeds_gives grown_nil)
  next
    case True
    have smaller: "length events - (start + ?size) < length events - start"
      using True insertBatchSize_pos [of "sql_event_columns (ru_inbox db)"] by linarith
    have split: "drop start events = ?batch @ drop (start + ?size) events"
      using append_take_drop_id [of ?size "drop start events"]
      by (cases "start + ?size \<le> length events") (simp_all add: min_def add.commute [of _ start])
    have "succeeds_with view (State (sql_insert_events (ru_inbox db) ?batch)) V
        (\<lambda>r V'. list_all2 stored_event ?batch (fst r) \<and> grown (fst r) V V')"
      using db unfolding succeeds_with_def rollup_db_ok_def events_ok_def new_events_grown by fastforce
    note first = succeeds_wrapped [OF this]
    have unfolded: "insert_event_batches (ru_inbox db) events start inserted stored =
        and_then (wrapped ''insert usage events'' (State (sql_insert_events (ru_inbox db) ?batch)))
          (\<lambda>(batch', n). insert_event_batches (ru_inbox db) events (start + ?size) (inserted + n) (stored @ batch'))"
      by (subst insert_event_batches.simps) (simp only: Let_def True if_True)
    show ?thesis
      unfolding unfolded
    proof (rule succeeds_and_then [OF first])
      fix r :: "UsageEvent list \<times> nat" and V1 assume added: "list_all2 stored_event ?batch (fst r) \<and> grown (fst r) V V1"
      have "succeeds_with view (insert_event_batches (ru_inbox db) events (start + ?size) (inserted + snd r) (stored @ fst r)) V1 ?Q"
      proof (rule succeeds_post [OF less [OF smaller]], elim exE conjE)
        fix x V2 es assume "list_all2 stored_event (drop (start + ?size) events) es" "grown es V1 V2"
        then have "list_all2 stored_event (?batch @ drop (start + ?size) events) (fst r @ es)" "grown (fst r @ es) V V2"
          using added grown_trans by (blast intro: list_all2_appendI)+
        then have "list_all2 stored_event (drop start events) (fst r @ es) \<and> grown (fst r @ es) V V2"
          by (simp only: split [symmetric])
        then show "?Q x V2" by blast
      qed
      then show "succeeds_with view (case r of (batch', n) \<Rightarrow>
          insert_event_batches (ru_inbox db) events (start + ?size) (inserted + n) (stored @ batch')) V1 ?Q"
        by (simp add: case_prod_beta)
    qed
  qed
qed

lemma InsertUsageEvents_grows:
  assumes db: "rollup_db_ok db view"
  shows "attempts view (InsertUsageEvents (Some (ru_inbox db)) events) V
    (\<lambda>_ V'. \<exists>es. list_all2 stored_event events es \<and> grown es V V')"
proof (cases "events = []")
  case True
  then show ?thesis by (auto simp: InsertUsageEvents_def attempts_gives grown_nil)
next
  case False
  have "attempts view (transaction (ru_inbox db) (insert_event_batches (ru_inbox db) events 0 0 [])) V
      (\<lambda>_ V'. \<exists>es. list_all2 stored_event events es \<and> grown es V V')"
    using attempts_transaction [OF _ event_batches_grow [OF db, where start = 0 and events = events]] db
    by (simp add: rollup_db_ok_def)
  then have "attempts view (and_then (transaction (ru_inbox db) (insert_event_batches (ru_inbox db) events 0 0 []))
      (\<lambda>r. gives (fst r, 0, snd r))) V (\<lambda>_ V'. \<exists>es. list_all2 stored_event events es \<and> grown es V V')"
    by (rule attempts_then_value)
  then show ?thesis using False by (simp add: InsertUsageEvents_def case_prod_unfold)
qed

section \<open>What happens to the database\<close>

datatype rollup_step =
    Insert "UsageEvent list"
  | AggregateOverview nat gtime
  | AggregateActivity nat gtime
  | AggregateLatency nat gtime
  | DropActivity gtime
  | DropLatency gtime
  | Archive nat gtime

text \<open>The clock readings of a step that decide what a rollup still holds.\<close>

fun step_readings :: "rollup_step \<Rightarrow> gtime set" where
  "step_readings (Insert es) = {}"
| "step_readings (AggregateOverview fuel now) = {now}"
| "step_readings (AggregateActivity fuel now) = {now}"
| "step_readings (AggregateLatency fuel now) = {now}"
| "step_readings (DropActivity now) = {now}"
| "step_readings (DropLatency now) = {now}"
| "step_readings (Archive fuel now) = {}"

definition step_readings_of :: "rollup_step list \<Rightarrow> gtime set" where
  "step_readings_of steps = \<Union> (step_readings ` set steps)"

fun take_step :: "rollup_env \<Rightarrow> ('s \<Rightarrow> string option) \<Rightarrow> 's rollup_db \<Rightarrow> rollup_step \<Rightarrow> 's \<Rightarrow> 's" where
  "take_step env ctx db (Insert es) s = snd (run_state (InsertUsageEvents (Some (ru_inbox db)) es) s)"
| "take_step env ctx db (AggregateOverview fuel now) s = snd (run_state (AggregateUsageOverviewStats fuel env (Some db) now) s)"
| "take_step env ctx db (AggregateActivity fuel now) s = snd (run_state (AggregateUsageActivityStats fuel env (Some db) now) s)"
| "take_step env ctx db (AggregateLatency fuel now) s = snd (run_state (AggregateUsageLatencyStats fuel env (Some db) now) s)"
| "take_step env ctx db (DropActivity now) s = snd (run_state (CleanupUsageActivityStats (Some db) now) s)"
| "take_step env ctx db (DropLatency now) s = snd (run_state (CleanupUsageLatencyStats env (Some db) now) s)"
| "take_step env ctx db (Archive fuel now) s = snd (run_state (ArchiveExpiredUsageEvents fuel ctx (re_zone env) (Some db) now) s)"

definition take_steps :: "rollup_env \<Rightarrow> ('s \<Rightarrow> string option) \<Rightarrow> 's rollup_db \<Rightarrow> rollup_step list \<Rightarrow> 's \<Rightarrow> 's" where
  "take_steps env ctx db steps s = fold (take_step env ctx db) steps s"

lemma overview_ends:
  assumes "env_fine env" and "rollup_db_ok db view" and "rollups_inv env T (view s)"
    and "run_state (AggregateUsageOverviewStats fuel env (Some db) now) s = (res, t)"
  shows "rollups_inv env (insert now T) (view t) \<and> one_cursor_moves UsageAggregationCheckpointOverview (view s) (view t) \<and>
    (remaining (view s) UsageAggregationCheckpointOverview div 1000 < fuel \<longrightarrow> res \<noteq> None) \<and>
    (res = Some (Inr ()) \<longrightarrow> caught_up (view t) UsageAggregationCheckpointOverview)"
  by (rule batches_end [OF overview_batch [OF assms(1, 2)] assms(3)])
    (use assms(4) in \<open>simp_all add: AggregateUsageOverviewStats_def\<close>)

lemma activity_ends:
  assumes "env_fine env" and "rollup_db_ok db view" and "rollups_inv env T (view s)"
    and "run_state (AggregateUsageActivityStats fuel env (Some db) now) s = (res, t)"
  shows "rollups_inv env (insert now T) (view t) \<and> one_cursor_moves UsageAggregationCheckpointActivity (view s) (view t) \<and>
    (remaining (view s) UsageAggregationCheckpointActivity div 1000 < fuel \<longrightarrow> res \<noteq> None) \<and>
    (res = Some (Inr ()) \<longrightarrow> caught_up (view t) UsageAggregationCheckpointActivity)"
  by (rule batches_end [OF activity_batch [OF assms(1, 2)] assms(3)])
    (use assms(4) in \<open>simp_all add: AggregateUsageActivityStats_def\<close>)

lemma latency_ends:
  assumes "env_fine env" and "rollup_db_ok db view" and "rollups_inv env T (view s)"
    and "run_state (AggregateUsageLatencyStats fuel env (Some db) now) s = (res, t)"
  shows "rollups_inv env (insert now T) (view t) \<and> one_cursor_moves UsageAggregationCheckpointLatency (view s) (view t) \<and>
    (remaining (view s) UsageAggregationCheckpointLatency div 1000 < fuel \<longrightarrow> res \<noteq> None) \<and>
    (res = Some (Inr ()) \<longrightarrow> caught_up (view t) UsageAggregationCheckpointLatency)"
  by (rule batches_end [OF latency_batch [OF assms(1, 2)] assms(3)])
    (use assms(4) in \<open>simp_all add: AggregateUsageLatencyStats_def\<close>)

lemma step_keeps:
  assumes env: "env_fine env" and db: "rollup_db_ok db view" and inv: "rollups_inv env T (view s)"
    and dated: "\<forall>now \<in> step_readings st. dated now"
  shows "rollups_inv env (step_readings st \<union> T) (view (take_step env ctx db st s))"
proof (cases st)
  case (Insert es)
  obtain res t where r: "run_state (InsertUsageEvents (Some (ru_inbox db)) es) s = (res, t)" by fastforce
  have "rollups_inv env T (view t)"
    using attemptsD [OF InsertUsageEvents_grows [OF db] refl r] inv grown_keeps by (cases res) auto
  then show ?thesis using r by (simp add: Insert)
next
  case (AggregateOverview fuel now)
  obtain res t where r: "run_state (AggregateUsageOverviewStats fuel env (Some db) now) s = (res, t)" by fastforce
  show ?thesis using overview_ends [OF env db inv r] r by (simp add: AggregateOverview)
next
  case (AggregateActivity fuel now)
  obtain res t where r: "run_state (AggregateUsageActivityStats fuel env (Some db) now) s = (res, t)" by fastforce
  show ?thesis using activity_ends [OF env db inv r] r by (simp add: AggregateActivity)
next
  case (AggregateLatency fuel now)
  obtain res t where r: "run_state (AggregateUsageLatencyStats fuel env (Some db) now) s = (res, t)" by fastforce
  show ?thesis using latency_ends [OF env db inv r] r by (simp add: AggregateLatency)
next
  case (DropActivity now)
  obtain res t where r: "run_state (CleanupUsageActivityStats (Some db) now) s = (res, t)" by fastforce
  have "rollups_inv env (insert now T) (view s)" by (rule rollups_inv_mono [OF inv]) blast
  then show ?thesis using holdsD [OF CleanupUsageActivityStats_keeps [OF db] _ r] r dated by (simp add: DropActivity)
next
  case (DropLatency now)
  obtain res t where r: "run_state (CleanupUsageLatencyStats env (Some db) now) s = (res, t)" by fastforce
  have "rollups_inv env (insert now T) (view s)" by (rule rollups_inv_mono [OF inv]) blast
  then show ?thesis using holdsD [OF CleanupUsageLatencyStats_keeps [OF db] _ r] r by (simp add: DropLatency)
next
  case (Archive fuel now)
  obtain res t where r: "run_state (ArchiveExpiredUsageEvents fuel ctx (re_zone env) (Some db) now) s = (res, t)" by fastforce
  then show ?thesis using archive_rounds_end [OF db inv] by (simp add: ArchiveExpiredUsageEvents_def Archive)
qed

lemma steps_keep:
  assumes env: "env_fine env" and db: "rollup_db_ok db view"
  shows "rollups_inv env T (view s) \<Longrightarrow> \<forall>now \<in> step_readings_of steps. dated now \<Longrightarrow>
    rollups_inv env (step_readings_of steps \<union> T) (view (take_steps env ctx db steps s))"
proof (induction steps arbitrary: T s)
  case Nil
  then show ?case by (simp add: take_steps_def step_readings_of_def)
next
  case (Cons st steps)
  have "rollups_inv env (step_readings st \<union> T) (view (take_step env ctx db st s))"
    using step_keeps [OF env db Cons.prems(1)] Cons.prems(2) by (simp add: step_readings_of_def)
  from Cons.IH [OF this] Cons.prems(2)
  have "rollups_inv env (step_readings_of steps \<union> (step_readings st \<union> T)) (view (take_steps env ctx db (st # steps) s))"
    by (simp add: step_readings_of_def take_steps_def)
  then show ?case by (simp add: step_readings_of_def Un_assoc Un_left_commute)
qed

end
