(* ===== verification/RollupMemory.thy ===== *)
theory RollupMemory
  imports RollupHistory
begin

text \<open>
  A database in memory that keeps the promises made of gorm and SQLite: the state is the tables themselves, and a statement
  that would give a checkpoint a second row is refused.
\<close>

definition tidy :: "rollup_view \<Rightarrow> rollup_view" where
  "tidy V = (if named_once V then V else V\<lparr>rv_checkpoints := []\<rparr>)"

definition keep_unique :: "'a \<Rightarrow> rollup_view \<Rightarrow> rollup_view \<Rightarrow> (string + 'a) \<times> rollup_view" where
  "keep_unique x V V' = (if named_once V' then (Inr x, V') else (Inl ''UNIQUE constraint failed'', V))"

definition memory_table ::
  "(rollup_view \<Rightarrow> 'r list) \<Rightarrow> ('r list \<Rightarrow> rollup_view \<Rightarrow> rollup_view) \<Rightarrow> ('r list \<Rightarrow> 'r \<Rightarrow> 'r) \<Rightarrow> (rollup_view, 'r) sql_table" where
  "memory_table get put store =
     \<lparr>tb_list = (\<lambda>P V. Inr (filter P (get (tidy V)))),
      tb_update = (\<lambda>P f V. keep_unique (length (filter P (get (tidy V)))) V
        (put (map (\<lambda>r. if P r then f r else r) (get (tidy V))) (tidy V))),
      tb_create = (\<lambda>r V. keep_unique () V (put (get (tidy V) @ [store (get (tidy V)) r]) (tidy V))),
      tb_delete = (\<lambda>P V. keep_unique () V (put (filter (\<lambda>r. \<not> P r) (get (tidy V))) (tidy V)))\<rparr>"

lemma keep_unique_tidy: "keep_unique x V V' = (res, t) \<Longrightarrow>
    (case res of Inl _ \<Rightarrow> tidy t = tidy V | Inr y \<Rightarrow> y = x \<and> tidy t = V')"
  by (auto simp: keep_unique_def tidy_def split: if_splits)

lemma memory_table_ok:
  assumes "\<And>rs r. stored rs r (store rs r)"
  shows "table_ok stored (memory_table get put store) tidy get put"
  unfolding table_ok_def
proof (intro conjI allI impI)
  fix P and f :: "'a \<Rightarrow> 'a" and s res t assume "tb_update (memory_table get put store) P f s = (res, t)"
  then show "case res of Inl _ \<Rightarrow> tidy t = tidy s
    | Inr n \<Rightarrow> n = length (filter P (get (tidy s))) \<and> tidy t = put (map (\<lambda>r. if P r then f r else r) (get (tidy s))) (tidy s)"
    using keep_unique_tidy by (simp add: memory_table_def)
next
  fix r s res t assume "tb_create (memory_table get put store) r s = (res, t)"
  then show "case res of Inl _ \<Rightarrow> tidy t = tidy s | Inr _ \<Rightarrow> \<exists>r'. stored (get (tidy s)) r r' \<and> tidy t = put (get (tidy s) @ [r']) (tidy s)"
    using keep_unique_tidy assms by (fastforce simp: memory_table_def split: sum.splits)
next
  fix P s res t assume "tb_delete (memory_table get put store) P s = (res, t)"
  then show "tidy t = put (filter (\<lambda>r. \<not> P r) (get (tidy s))) (tidy s) \<or> (\<exists>err. res = Inl err) \<and> tidy t = tidy s"
    using keep_unique_tidy by (cases res) (fastforce simp: memory_table_def)+
qed (simp add: memory_table_def)

definition numbered :: "int \<Rightarrow> UsageEvent list \<Rightarrow> UsageEvent list" where
  "numbered n es = map2 (\<lambda>k e. e\<lparr>ev_ID := n + 1 + int k\<rparr>) [0..<length es] es"

lemma numbered_ids: "map ev_ID (numbered n es) = map (\<lambda>k. n + 1 + int k) [0..<length es]"
  by (rule nth_equalityI) (simp_all add: numbered_def)

lemma numbered_stored: "list_all2 stored_event es (numbered n es)"
  unfolding list_all2_conv_all_nth
proof (intro conjI allI impI)
  fix k assume k: "k < length es"
  have "numbered n es ! k = (es ! k)\<lparr>ev_ID := n + 1 + int k, ev_CreatedAt := ev_CreatedAt (es ! k)\<rparr>" using k by (simp add: numbered_def)
  then show "stored_event (es ! k) (numbered n es ! k)" unfolding stored_event_def by blast
qed (simp add: numbered_def)

definition append_events :: "UsageEvent list \<Rightarrow> rollup_view \<Rightarrow> rollup_view" where
  "append_events es V = V\<lparr>rv_events := rv_events V @ es, rv_sequence := last (rv_sequence V # map ev_ID es)\<rparr>"

definition on_tidy :: "(rollup_view \<Rightarrow> rollup_view) \<Rightarrow> 'a \<Rightarrow> rollup_view \<Rightarrow> (string + 'a) \<times> rollup_view" where
  "on_tidy f x V = (Inr x, f (tidy V))"

definition memory_events_db :: "rollup_view inbox_db" where
  "memory_events_db =
     \<lparr>sql_list = (\<lambda>cols P lim V. Inr []), sql_first = (\<lambda>i V. Inl ''record not found''), sql_set = (\<lambda>P f V. (Inr (), V)),
      sql_remove = (\<lambda>P V. (Inr 0, V)), sql_insert = (\<lambda>n rs V. (Inl ''no such table'', V)),
      sql_insert_events = (\<lambda>es V. let new = numbered (rv_sequence (tidy V)) es in on_tidy (append_events new) (new, length es) V),
      sql_identities = (\<lambda>authType idents isDeleted V. Inr []),
      sql_begin = (\<lambda>V. (Inr (), V)), sql_commit = (\<lambda>V W. (Inr (), W)), sql_rollback = (\<lambda>V W. V),
      sql_columns = 11, sql_event_columns = 31\<rparr>"

definition fresh_row :: "UsageLatencyStat list \<Rightarrow> UsageLatencyStat \<Rightarrow> UsageLatencyStat" where
  "fresh_row rs r = r\<lparr>ls_ID := fold max (map ls_ID rs) 0 + 1\<rparr>"

definition memory_rollup_db :: "rollup_view rollup_db" where
  "memory_rollup_db =
     \<lparr>ru_inbox = memory_events_db,
      ru_target = (\<lambda>V. Inr (Max (insert 0 (ev_ID ` set (rv_events (tidy V)))))),
      ru_events = (\<lambda>cols P n V. Inr (map cols (take n (filter P (rv_events (tidy V)))))),
      ru_ensure = (\<lambda>c. on_tidy (\<lambda>V. V\<lparr>rv_checkpoints := ensured c (rv_checkpoints V)\<rparr>) ()),
      ru_checkpoints = memory_table rv_checkpoints (\<lambda>cs v. v\<lparr>rv_checkpoints := cs\<rparr>) (\<lambda>rs r. r),
      ru_hourly = memory_table rv_hourly (\<lambda>rs v. v\<lparr>rv_hourly := rs\<rparr>) (\<lambda>rs r. r),
      ru_daily = memory_table rv_daily (\<lambda>rs v. v\<lparr>rv_daily := rs\<rparr>) (\<lambda>rs r. r),
      ru_activity = memory_table rv_activity (\<lambda>rs v. v\<lparr>rv_activity := rs\<rparr>) (\<lambda>rs r. r),
      ru_latency = memory_table rv_latency (\<lambda>rs v. v\<lparr>rv_latency := rs\<rparr>) fresh_row,
      ru_expired = (\<lambda>P n V. if distinct (map ev_ID (rv_events (tidy V))) then Inr (take n (map ev_ID (filter P (rv_events (tidy V)))))
        else Inl ''database disk image is malformed''),
      ru_archive = (\<lambda>js V. on_tidy (\<lambda>V. V\<lparr>rv_archive := rv_archive V @ of_ids js (rv_events V)\<rparr>)
        (length (of_ids js (rv_events (tidy V)))) V),
      ru_archived = (\<lambda>js V. Inr (length (of_ids js (rv_archive (tidy V))))),
      ru_delete_events = (\<lambda>js V. on_tidy (\<lambda>V. V\<lparr>rv_events := filter (\<lambda>e. ev_ID e \<notin> set js) (rv_events V)\<rparr>)
        (length (of_ids js (rv_events (tidy V)))) V),
      ru_pending_identity = (\<lambda>V. Inr False)\<rparr>"

lemma tidy_named: "named_once (tidy V)"
  by (simp add: tidy_def named_once_def)

lemma tidy_again: "rv_checkpoints V = rv_checkpoints (tidy W) \<Longrightarrow> tidy V = V"
  using tidy_named [of W] by (simp add: tidy_def named_once_def)

lemma ensured_named: "distinct (map cp_Name cs) \<Longrightarrow> distinct (map cp_Name (ensured c cs))"
  by (simp add: ensured_def)

lemma memory_checkpoints_ok: "checkpoints_ok memory_rollup_db tidy"
proof -
  have t: "table_ok as_given (ru_checkpoints memory_rollup_db) tidy rv_checkpoints (\<lambda>cs v. v\<lparr>rv_checkpoints := cs\<rparr>)"
    by (simp add: memory_rollup_db_def memory_table_ok as_given_def)
  have "tidy ((tidy s)\<lparr>rv_checkpoints := ensured c (rv_checkpoints (tidy s))\<rparr>) = (tidy s)\<lparr>rv_checkpoints := ensured c (rv_checkpoints (tidy s))\<rparr>" for c s
    using ensured_named [of "rv_checkpoints (tidy s)" c] tidy_named [of s] by (simp add: tidy_def [of "_\<lparr>rv_checkpoints := _\<rparr>"] named_once_def)
  then show ?thesis unfolding checkpoints_ok_def using t tidy_named
    by (auto simp: memory_rollup_db_def on_tidy_def named_once_def)
qed

lemma memory_events_ok: "events_ok memory_rollup_db tidy"
proof -
  have "new_events es (numbered (rv_sequence V) es) V (append_events (numbered (rv_sequence V) es) V)" for es V
    unfolding new_events_def append_events_def
    by (simp add: numbered_stored numbered_ids sorted_wrt_map)
  moreover have "tidy (append_events es (tidy V)) = append_events es (tidy V)" for es V
    by (rule tidy_again [of _ V]) (simp add: append_events_def)
  ultimately show ?thesis
    unfolding events_ok_def by (auto simp: memory_rollup_db_def memory_events_db_def on_tidy_def Let_def)
qed

lemma memory_archive_ok: "archive_ok memory_rollup_db tidy"
proof -
  have a: "tidy ((tidy s)\<lparr>rv_archive := xs\<rparr>) = (tidy s)\<lparr>rv_archive := xs\<rparr>" for s xs
    by (rule tidy_again [of _ s]) simp
  have e: "tidy ((tidy s)\<lparr>rv_events := xs\<rparr>) = (tidy s)\<lparr>rv_events := xs\<rparr>" for s xs
    by (rule tidy_again [of _ s]) simp
  have d1: "distinct (take n (map ev_ID (filter P es)))" if "distinct (map ev_ID es)" for n P and es :: "UsageEvent list"
    using that by (intro distinct_take) (simp add: distinct_map_filter)
  show ?thesis
    unfolding archive_ok_def
  proof (intro conjI allI impI)
    fix P n s js assume d: "ru_expired memory_rollup_db P n s = Inr js"
    then have js: "js = take n (map ev_ID (filter P (rv_events (tidy s))))" "distinct (map ev_ID (rv_events (tidy s)))"
      by (simp_all add: memory_rollup_db_def split: if_splits)
    with d1 show "distinct js" by blast
    show "length js = min n (length (filter P (rv_events (tidy s))))" by (simp add: js(1) min.commute)
    show "set js \<subseteq> ev_ID ` {e \<in> set (rv_events (tidy s)). P e}" unfolding js(1) by (auto dest: in_set_takeD)
  qed (auto simp: memory_rollup_db_def on_tidy_def a e)
qed

lemma fold_max_bound: "y \<le> fold max xs y \<and> (\<forall>x \<in> set xs. x \<le> fold max xs y)" for y :: int
proof (induction xs arbitrary: y)
  case (Cons x xs)
  have "max x y \<le> fold max xs (max x y)" using Cons.IH [of "max x y"] by (rule conjunct1)
  then show ?case using Cons.IH [of "max x y"] by simp
qed simp

lemma fresh_row_stored: "with_new_id rs r (fresh_row rs r)"
proof -
  let ?i = "fold max (map ls_ID rs) 0 + 1"
  have "0 < ?i" using fold_max_bound [of 0 "map ls_ID rs"] by linarith
  moreover have "?i \<notin> ls_ID ` set rs" using fold_max_bound [of 0 "map ls_ID rs"] by fastforce
  ultimately show ?thesis unfolding with_new_id_def fresh_row_def by blast
qed

lemma memory_rollup_db_ok: "rollup_db_ok memory_rollup_db tidy"
proof -
  have "transactions_ok (ru_inbox memory_rollup_db) tidy"
    by (auto simp: transactions_ok_def memory_rollup_db_def memory_events_db_def)
  moreover have "table_ok as_given (ru_hourly memory_rollup_db) tidy rv_hourly (\<lambda>rs v. v\<lparr>rv_hourly := rs\<rparr>)"
    "table_ok as_given (ru_daily memory_rollup_db) tidy rv_daily (\<lambda>rs v. v\<lparr>rv_daily := rs\<rparr>)"
    "table_ok as_given (ru_activity memory_rollup_db) tidy rv_activity (\<lambda>rs v. v\<lparr>rv_activity := rs\<rparr>)"
    "table_ok with_new_id (ru_latency memory_rollup_db) tidy rv_latency (\<lambda>rs v. v\<lparr>rv_latency := rs\<rparr>)"
    by (simp_all add: memory_rollup_db_def memory_table_ok as_given_def fresh_row_stored)
  ultimately show ?thesis
    by (simp add: rollup_db_ok_def memory_checkpoints_ok memory_events_ok memory_archive_ok)
qed

end
