(* ===== verification/RollupProps.thy ===== *)
theory RollupProps
  imports RollupMemory
begin

text \<open>The properties of the rollups as a whole.\<close>

section \<open>Exact for ever\<close>

text \<open>A database to which nothing has happened yet.\<close>

definition nothing_yet :: rollup_view where
  "nothing_yet = \<lparr>rv_events = [], rv_sequence = 0, rv_archive = [], rv_checkpoints = [], rv_hourly = [], rv_daily = [],
     rv_activity = [], rv_latency = []\<rparr>"

lemma nothing_inv: "rollups_inv env {} nothing_yet"
proof -
  have v: "rv_events nothing_yet = []" "rv_sequence nothing_yet = 0" "rv_archive nothing_yet = []" "rv_checkpoints nothing_yet = []"
    "rv_hourly nothing_yet = []" "rv_daily nothing_yet = []" "rv_activity nothing_yet = []" "rv_latency nothing_yet = []"
    by (simp_all add: nothing_yet_def)
  then have "all_events nothing_yet = []" "cursor_in nothing_yet name = 0" for name
    by (simp_all add: all_events_def cursor_in_def)
  then have "events_in_order nothing_yet" "counted_events nothing_yet name = []" for name
    by (simp_all add: events_in_order_def v counted_events_def up_to_def)
  then show ?thesis
    by (simp add: rollups_inv_def rollups_exact_def overview_exact_def activity_exact_def latency_exact_def v
        overview_count.exact_nil activity_count.exact_nil slots_def latency_table_def latency_of_def)
qed

text \<open>
  C1: Whatever events arrive and however aggregation, clean-up and archiving follow each other, with any statement failing
  at any time, every event that a rollup's checkpoint has passed, hot or archived, is counted in that rollup exactly once
  and no other event is: each overview row, and each activity and latency row that no clean-up could have dropped, adds up
  the events of its key up to the checkpoint.  (As long as the sums of all events fit their columns.)
\<close>

theorem rollups_count_once:
  assumes "env_fine env" and "rollup_db_ok db view" and "view s = nothing_yet"
    and "\<forall>now \<in> step_readings_of steps. dated now"
  shows "events_in_order (view (take_steps env ctx db steps s)) \<and>
    (load_ok (all_events (view (take_steps env ctx db steps s))) \<longrightarrow>
       rollups_exact env (step_readings_of steps) (view (take_steps env ctx db steps s)))"
proof -
  have "rollups_inv env (step_readings_of steps \<union> {}) (view (take_steps env ctx db steps s))"
    by (rule steps_keep [OF assms(1, 2) _ assms(4)]) (simp add: assms(3) nothing_inv)
  then show ?thesis by (simp add: rollups_inv_def)
qed

definition plain_rollup_env :: rollup_env where
  "plain_rollup_env = \<lparr>re_zone = fixed_zone 0, re_overview_order = rev, re_activity_order = rev, re_latency = plain_env,
     re_latency_order = rev, re_store_text = (\<lambda>_. []), re_activity_text = (\<lambda>_. []), re_latency_text = (\<lambda>_. [])\<rparr>"

lemma plain_env_fine: "env_fine plain_rollup_env"
  by (simp add: env_fine_def plain_rollup_env_def zone_ok_fixed_zone iteration_order_rev env_ok_def plain_env_def)

definition one_day :: "rollup_step list" where
  "one_day = [Insert [timed_event], AggregateOverview 1 (time_unix 1700003600), AggregateActivity 1 (time_unix 1700003600),
     AggregateLatency 1 (time_unix 1700003600), Archive 2 (time_unix 1710003600), DropActivity (time_unix 1710003600)]"

lemma one_day_dated: "\<forall>now \<in> step_readings_of one_day. dated now"
  by (simp add: one_day_def step_readings_of_def dated_def time_unix_def unix_def)

theorem rollups_count_once_witness:
  "let V = tidy (take_steps plain_rollup_env (\<lambda>_. None) memory_rollup_db one_day nothing_yet) in
     events_in_order V \<and> (load_ok (all_events V) \<longrightarrow> rollups_exact plain_rollup_env (step_readings_of one_day) V)"
  unfolding Let_def
  by (rule rollups_count_once [OF plain_env_fine memory_rollup_db_ok _ one_day_dated])
    (simp add: tidy_def named_once_def nothing_yet_def)

section \<open>Catching up\<close>

definition bring_up_to_date ::
  "UsageAggregationCheckpointName \<Rightarrow> nat \<Rightarrow> rollup_env \<Rightarrow> 's rollup_db option \<Rightarrow> gtime \<Rightarrow> ('s, (string + unit) option) state" where
  "bring_up_to_date name =
     (if name = UsageAggregationCheckpointOverview then AggregateUsageOverviewStats
      else if name = UsageAggregationCheckpointActivity then AggregateUsageActivityStats
      else AggregateUsageLatencyStats)"

lemma brought_up_to_date:
  assumes "env_fine env" and "rollup_db_ok db view" and "rollups_inv env T (view s)" and "name \<in> set checkpoint_names"
    and "run_state (bring_up_to_date name fuel env (Some db) now) s = (res, t)"
  shows "rollups_inv env (insert now T) (view t) \<and> one_cursor_moves name (view s) (view t) \<and>
    (remaining (view s) name div 1000 < fuel \<longrightarrow> res \<noteq> None) \<and> (res = Some (Inr ()) \<longrightarrow> caught_up (view t) name)"
  using assms overview_ends [OF assms(1-3)] activity_ends [OF assms(1-3)] latency_ends [OF assms(1-3)]
  by (auto simp: bring_up_to_date_def checkpoint_names_def)

text \<open>
  C9: Bringing a rollup up to date ends: one round per thousand events that are left, and one more, suffices.  When it ends
  without an error the checkpoint has passed every event there is; in any case the events and the other checkpoints stay
  as they are and this one does not go back.
\<close>

theorem rollup_catches_up:
  assumes "env_fine env" and "rollup_db_ok db view" and "rollups_inv env T (view s)" and "name \<in> set checkpoint_names"
    and "remaining (view s) name div 1000 < fuel"
    and "run_state (bring_up_to_date name fuel env (Some db) now) s = (res, t)"
  shows "(res = Some (Inr ()) \<and> caught_up (view t) name \<or> (\<exists>err. res = Some (Inl err))) \<and> one_cursor_moves name (view s) (view t)"
proof -
  have "res \<noteq> None" "one_cursor_moves name (view s) (view t)" "res = Some (Inr ()) \<longrightarrow> caught_up (view t) name"
    using brought_up_to_date [OF assms(1-4, 6)] assms(5) by simp_all
  moreover have "res = None \<or> res = Some (Inr ()) \<or> (\<exists>err. res = Some (Inl err))"
    by (cases res) (auto, metis sum.exhaust old.unit.exhaust)
  ultimately show ?thesis by blast
qed

definition one_event :: rollup_view where
  "one_event = append_events [timed_event\<lparr>ev_ID := 1\<rparr>] nothing_yet"

lemma one_event_inv: "rollups_inv env {} (tidy one_event)"
proof -
  have "tidy one_event = one_event" by (simp add: tidy_def named_once_def one_event_def append_events_def nothing_yet_def)
  moreover have "grown [timed_event\<lparr>ev_ID := 1\<rparr>] nothing_yet one_event"
    by (simp add: grown_def one_event_def append_events_def nothing_yet_def)
  ultimately show ?thesis using grown_keeps [OF nothing_inv] by simp
qed

lemma one_event_left: "length (filter P (rv_events (tidy one_event))) \<le> 1"
  by (simp add: tidy_def one_event_def append_events_def nothing_yet_def)

theorem rollup_catches_up_witness:
  "\<exists>res t. run_state (bring_up_to_date UsageAggregationCheckpointActivity 1 plain_rollup_env (Some memory_rollup_db) (time_unix 1700003600))
       one_event = (res, t) \<and>
     (res = Some (Inr ()) \<and> caught_up (tidy t) UsageAggregationCheckpointActivity \<or> (\<exists>err. res = Some (Inl err))) \<and>
     one_cursor_moves UsageAggregationCheckpointActivity (tidy one_event) (tidy t)"
proof -
  obtain res t where r: "run_state (bring_up_to_date UsageAggregationCheckpointActivity 1 plain_rollup_env (Some memory_rollup_db)
      (time_unix 1700003600)) one_event = (res, t)" by fastforce
  have "remaining (tidy one_event) UsageAggregationCheckpointActivity \<le> 1" unfolding remaining_def by (rule one_event_left)
  then have "remaining (tidy one_event) UsageAggregationCheckpointActivity div 1000 < 1" by simp
  from rollup_catches_up [OF plain_env_fine memory_rollup_db_ok one_event_inv _ this r] r show ?thesis
    by (simp add: checkpoint_names_def)
qed

section \<open>The archive\<close>

text \<open>
  C4: The archive ends (one round per expired event, and one more, suffices), loses no event and doubles none, moves only
  events that are older than ninety days and that every rollup had counted, and touches no rollup; whatever fails on the
  way, and wherever it is cancelled.
\<close>

theorem archive_moves_counted:
  assumes "rollup_db_ok db view" and "rollups_inv env T (view s)"
    and "run_state (ArchiveExpiredUsageEvents fuel ctx z (Some db) now) s = (res, t)"
  shows "only_archives (expired_at z now) (view s) (view t) \<and> rollups_inv env T (view t) \<and>
    (length (filter (expired_at z now) (rv_events (view s))) < fuel \<longrightarrow> res \<noteq> None)"
  using archive_rounds_end [OF assms(1, 2)] assms(3) by (simp add: ArchiveExpiredUsageEvents_def)

theorem archive_moves_counted_witness:
  "\<exists>res t. run_state (ArchiveExpiredUsageEvents 2 (\<lambda>_. None) (fixed_zone 0) (Some memory_rollup_db) (time_unix 1710003600)) one_event = (res, t) \<and>
     only_archives (expired_at (fixed_zone 0) (time_unix 1710003600)) (tidy one_event) (tidy t) \<and>
     rollups_inv plain_rollup_env {} (tidy t) \<and> res \<noteq> None"
proof -
  obtain res t where r: "run_state (ArchiveExpiredUsageEvents 2 (\<lambda>_. None) (fixed_zone 0) (Some memory_rollup_db) (time_unix 1710003600))
      one_event = (res, t)" by fastforce
  show ?thesis
    using archive_moves_counted [OF memory_rollup_db_ok one_event_inv r] one_event_left [of "expired_at (fixed_zone 0) (time_unix 1710003600)"] r
    by fastforce
qed

end
