(* ===== verification/IdentitySafety.thy ===== *)
theory IdentitySafety
  imports IdentityStats RollupState
begin

text \<open>A pass over the credentials leaves every total exact, and ends.\<close>

section \<open>The tables\<close>

text \<open>The rows in the order of their ids, which are positive and unique, and the events.\<close>

type_synonym identity_view = "IdentityTotals list \<times> UsageEvent list"

definition identity_db_ok :: "'s identity_db \<Rightarrow> ('s \<Rightarrow> identity_view) \<Rightarrow> bool" where
  "identity_db_ok db view \<longleftrightarrow>
     transactions_ok (id_inbox db) view \<and>
     (\<forall>s. sorted_wrt (<) (map it_ID (fst (view s))) \<and> (\<forall>r \<in> set (fst (view s)). 0 < it_ID r)) \<and>
     (\<forall>a n s page. id_page db a n s = Inr page \<longrightarrow> page = take n (filter (\<lambda>r. a < it_ID r) (fst (view s)))) \<and>
     (\<forall>P s es. id_events db P s = Inr es \<longrightarrow> mset es = mset (filter P (snd (view s)))) \<and>
     (\<forall>i f s res t. id_update db i f s = (res, t) \<longrightarrow> (\<forall>r. it_ID (f r) = it_ID r) \<longrightarrow>
        (case res of
           Inl _ \<Rightarrow> view t = view s
         | Inr _ \<Rightarrow> view t = (map (\<lambda>r. if it_ID r = i then f r else r) (fst (view s)), snd (view s))))"

section \<open>Exact totals\<close>

definition belongs :: "IdentityTotals \<Rightarrow> UsageEvent \<Rightarrow> bool" where
  "belongs r e \<longleftrightarrow> (case usageIdentityEventsQuery r of None \<Rightarrow> False | Some P \<Rightarrow> P e)"

definition identity_columns :: "((IdentityTotals \<Rightarrow> int) \<times> (UsageEvent \<Rightarrow> int)) list" where
  "identity_columns =
     [(it_TotalRequests, \<lambda>e. 1), (it_SuccessCount, \<lambda>e. if ev_Failed e then 0 else 1),
      (it_FailureCount, \<lambda>e. if ev_Failed e then 1 else 0), (it_InputTokens, ev_InputTokens), (it_OutputTokens, ev_OutputTokens),
      (it_ReasoningTokens, ev_ReasoningTokens), (it_CachedTokens, ev_CachedTokens), (it_CacheReadTokens, ev_CacheReadTokens),
      (it_TotalTokens, ev_TotalTokens)]"

definition totals_of :: "IdentityTotals \<Rightarrow> UsageEvent list \<Rightarrow> bool" where
  "totals_of r es \<longleftrightarrow> (\<forall>(c, a) \<in> set identity_columns. c r = sum_list (map a es))"

definition counted_for :: "IdentityTotals \<Rightarrow> UsageEvent list \<Rightarrow> UsageEvent list" where
  "counted_for r es = filter (\<lambda>e. belongs r e \<and> ev_ID e \<le> it_LastAggregatedUsageEventID r) es"

definition totals_right :: "UsageEvent list \<Rightarrow> IdentityTotals \<Rightarrow> bool" where
  "totals_right es r \<longleftrightarrow> totals_of r (counted_for r es)"

definition identity_caught_up :: "UsageEvent list \<Rightarrow> IdentityTotals \<Rightarrow> bool" where
  "identity_caught_up es r \<longleftrightarrow> (\<forall>e \<in> set es. belongs r e \<longrightarrow> ev_ID e \<le> it_LastAggregatedUsageEventID r)"

text \<open>What the columns can hold.\<close>

definition identity_load_ok :: "UsageEvent list \<Rightarrow> bool" where
  "identity_load_ok es \<longleftrightarrow> (\<forall>(c, a) \<in> set identity_columns. (\<forall>e \<in> set es. 0 \<le> a e) \<and> sum_list (map a es) \<le> MaxInt64)"

lemma sum_filter_bounds:
  fixes a :: "'e \<Rightarrow> int"
  assumes "\<forall>e \<in> set es. 0 \<le> a e"
  shows "0 \<le> sum_list (map a (filter P es))" and "sum_list (map a (filter P es)) \<le> sum_list (map a es)"
  using assms by (induction es) (auto intro: add_increasing)

lemma wrap64_small: "0 \<le> x \<Longrightarrow> x \<le> MaxInt64 \<Longrightarrow> wrap64 x = x"
  by (simp add: wrap64_def)

definition brought_up :: "UsageEvent list \<Rightarrow> IdentityTotals \<Rightarrow> IdentityTotals \<Rightarrow> bool" where
  "brought_up es r r' \<longleftrightarrow> it_ID r' = it_ID r \<and> it_AuthType r' = it_AuthType r \<and> it_Identity r' = it_Identity r \<and>
     (totals_right es r \<longrightarrow> identity_load_ok es \<longrightarrow> totals_right es r') \<and> identity_caught_up es r'"

lemma belongs_cong: "it_AuthType r' = it_AuthType r \<Longrightarrow> it_Identity r' = it_Identity r \<Longrightarrow> belongs r' = belongs r"
  by (rule ext) (simp add: belongs_def usageIdentityEventsQuery_def)

lemma fold_max_in: "fold max xs y \<in> set (y # xs) \<and> (\<forall>x \<in> set (y # xs). x \<le> fold max xs y)" for y :: int
proof (induction xs arbitrary: y)
  case (Cons x xs)
  have "fold max xs (max x y) \<in> insert (max x y) (set xs)" "max x y \<le> fold max xs (max x y)"
    "\<forall>z \<in> set xs. z \<le> fold max xs (max x y)"
    using Cons.IH [of "max x y"] by simp_all
  moreover have "max x y \<in> {x, y}" by (simp add: max_def)
  ultimately show ?case by auto
qed simp

lemma delta_brings_up:
  assumes newer: "mset new = mset (filter (\<lambda>e. belongs r e \<and> ev_ID e > it_LastAggregatedUsageEventID r) es)" and some: "new \<noteq> []"
    and pos: "\<forall>e \<in> set es. 0 < ev_ID e"
    and delta: "delta = (delta_of_events new)\<lparr>sd_FirstUsedAt := x, sd_LastUsedAt := y\<rparr>"
  shows "brought_up es r (identity_updates r delta now r)"
proof -
  let ?r = "identity_updates r delta now r" and ?old = "it_LastAggregatedUsageEventID r"
  let ?new = "filter (\<lambda>e. belongs r e \<and> ev_ID e > ?old) es"
  have same: "it_ID ?r = it_ID r" "it_AuthType ?r = it_AuthType r" "it_Identity ?r = it_Identity r"
    by (simp_all add: identity_updates_def)
  have b: "belongs ?r = belongs r" by (rule belongs_cong) (rule same)+
  have set_new: "set new = set ?new" by (rule mset_eq_setD [OF newer])
  let ?m = "fold max (map ev_ID new) 0"
  have m: "it_LastAggregatedUsageEventID ?r = ?m" by (simp add: identity_updates_def delta delta_of_events_def)
  have upper: "\<forall>e \<in> set ?new. ev_ID e \<le> ?m" using fold_max_in [where xs = "map ev_ID new" and y = 0] set_new by auto
  obtain e where e: "e \<in> set ?new" using some set_new by (metis ex_in_conv set_empty)
  have "?old < ?m" using e upper by force
  have caught: "identity_caught_up es ?r"
    unfolding identity_caught_up_def b m using upper \<open>?old < ?m\<close> by fastforce
  have counted: "mset (counted_for ?r es) = mset (counted_for r es) + mset ?new"
  proof -
    have "counted_for ?r es = filter (belongs r) es"
      unfolding counted_for_def b m using caught by (intro filter_cong refl) (auto simp: identity_caught_up_def b m)
    moreover have "mset (filter (belongs r) es) = mset (filter (\<lambda>e. ev_ID e \<le> ?old) (filter (belongs r) es)) +
        mset (filter (\<lambda>e. \<not> ev_ID e \<le> ?old) (filter (belongs r) es))"
      unfolding mset_filter by (rule multiset_partition)
    ultimately show ?thesis by (simp add: counted_for_def conj_commute not_le)
  qed
  have "totals_right es ?r" if old: "totals_right es r" and load: "identity_load_ok es"
  proof -
    have sum: "sum_list (map a (counted_for ?r es)) = sum_list (map a (counted_for r es)) + sum_list (map a new)" for a :: "UsageEvent \<Rightarrow> int"
    proof -
      have "mset (map a (counted_for ?r es)) = mset (map a (counted_for r es @ new))" using counted newer by (simp only: mset_map mset_append)
      then show ?thesis by (metis sum_mset_sum_list map_append sum_list_append)
    qed
    have plain: "wrap64 (c r + sum_list (map a new)) = sum_list (map a (counted_for ?r es))" if "(c, a) \<in> set identity_columns" for c a
    proof -
      have "c r = sum_list (map a (counted_for r es))" using old that unfolding totals_right_def totals_of_def by blast
      moreover have "\<forall>e \<in> set es. 0 \<le> a e" "sum_list (map a es) \<le> MaxInt64" using load that unfolding identity_load_ok_def by blast+
      then have "0 \<le> sum_list (map a (counted_for ?r es))" "sum_list (map a (counted_for ?r es)) \<le> MaxInt64"
        using sum_filter_bounds [of es a] unfolding counted_for_def by (blast intro: order_trans)+
      ultimately show ?thesis using wrap64_small sum by simp
    qed
    have "int (length new) = sum_list (map (\<lambda>e. 1) new)" by (induction new) simp_all
    then have "\<forall>(c, a) \<in> set identity_columns. c ?r = wrap64 (c r + sum_list (map a new))"
      by (simp add: identity_columns_def identity_updates_def delta delta_of_events_def no_delta_def)
    with plain show ?thesis unfolding totals_right_def totals_of_def by fastforce
  qed
  with same caught show ?thesis by (simp add: brought_up_def)
qed

section \<open>One row, one page\<close>

lemma read_events:
  assumes "identity_db_ok db view"
  shows "succeeds_with view (wrapped what (reads (id_events db P))) V (\<lambda>es V'. V' = V \<and> mset es = mset (filter P (snd V)))"
  by (rule succeeds_wrapped) (use assms in \<open>auto simp: succeeds_with_def reads_def identity_db_ok_def\<close>)

lemma read_only: "succeeds_with view (wrapped what (reads f)) V (\<lambda>x V'. V' = V)"
  by (rule succeeds_wrapped) (auto simp: succeeds_with_def reads_def)

lemma delta_effect:
  assumes db: "identity_db_ok db view"
  shows "succeeds_with view (aggregateUsageIdentityDelta db r) V
    (\<lambda>delta V'. V' = V \<and> (\<exists>new x y. mset new = mset (filter (\<lambda>e. belongs r e \<and> ev_ID e > it_LastAggregatedUsageEventID r) (snd V)) \<and>
       delta = (delta_of_events new)\<lparr>sd_FirstUsedAt := x, sd_LastUsedAt := y\<rparr> \<and> sd_TotalRequests delta = int (length new)))"
    (is "succeeds_with _ _ _ ?Q")
proof (cases "usageIdentityEventsQuery r")
  case None
  have "no_delta = (delta_of_events [])\<lparr>sd_FirstUsedAt := None, sd_LastUsedAt := None\<rparr>"
    by (simp add: delta_of_events_def no_delta_def)
  moreover have "\<not> belongs r e" for e by (simp add: belongs_def None)
  moreover have "sd_TotalRequests no_delta = int (length ([] :: UsageEvent list))" by (simp add: no_delta_def)
  ultimately have "?Q no_delta V" by (intro conjI refl exI [of _ "[]"] exI [of _ None]) simp_all
  then show ?thesis by (simp add: aggregateUsageIdentityDelta_def None succeeds_gives)
next
  case (Some P)
  have b: "belongs r e = P e" for e by (simp add: belongs_def Some)
  have total: "sd_TotalRequests (delta_of_events new) = int (length new)" for new by (simp add: delta_of_events_def)
  show ?thesis
    unfolding aggregateUsageIdentityDelta_def Some option.case Let_def
  proof (rule succeeds_and_then [OF read_events [OF db]], elim conjE)
    fix new V1 assume V1: "V1 = V" and new: "mset new = mset (filter (\<lambda>e. P e \<and> ev_ID e > it_LastAggregatedUsageEventID r) (snd V))"
    have fits_in: "?Q ((delta_of_events new)\<lparr>sd_FirstUsedAt := x, sd_LastUsedAt := y\<rparr>) V" for x y
      using new total [of new] unfolding b by auto
    have "delta_of_events new = (delta_of_events new)\<lparr>sd_FirstUsedAt := None, sd_LastUsedAt := None\<rparr>"
      by (simp add: delta_of_events_def no_delta_def)
    then have plain: "?Q (delta_of_events new) V" using fits_in [of None None] by metis
    show "succeeds_with view (if sd_TotalRequests (delta_of_events new) = 0 then gives (delta_of_events new)
        else and_then (wrapped (''find first usage identity event for '' @ quoted (it_Identity r))
               (reads (id_first db False (\<lambda>e. P e \<and> ev_ID e > it_LastAggregatedUsageEventID r)))) (\<lambda>firstUsedAt.
             and_then (wrapped (''find last usage identity event for '' @ quoted (it_Identity r))
               (reads (id_first db True (\<lambda>e. P e \<and> ev_ID e > it_LastAggregatedUsageEventID r)))) (\<lambda>lastUsedAt.
               gives ((delta_of_events new)\<lparr>sd_FirstUsedAt := Some firstUsedAt, sd_LastUsedAt := Some lastUsedAt\<rparr>)))) V1 ?Q"
    proof (cases "sd_TotalRequests (delta_of_events new) = 0")
      case True
      then show ?thesis using plain by (simp add: V1 succeeds_gives)
    next
      case False
      then show ?thesis
        unfolding V1 if_not_P [OF False]
        by (intro succeeds_and_then [OF read_only] succeeds_gives) (use fits_in in simp)
    qed
  qed
qed

lemma identity_caught_up_same: "(\<forall>e \<in> set es. belongs r e \<longrightarrow> \<not> ev_ID e > it_LastAggregatedUsageEventID r) \<Longrightarrow> brought_up es r r"
  by (auto simp: brought_up_def identity_caught_up_def)

text \<open>Rows have changed as \<open>g\<close> says, by id.\<close>

definition rows_with :: "(int \<Rightarrow> IdentityTotals) \<Rightarrow> IdentityTotals list \<Rightarrow> IdentityTotals list \<Rightarrow> IdentityTotals list" where
  "rows_with g page rows = map (\<lambda>r. if it_ID r \<in> it_ID ` set page then g (it_ID r) else r) rows"

lemma distinct_row: "sorted_wrt (<) (map it_ID rows) \<Longrightarrow> r \<in> set rows \<Longrightarrow> q \<in> set rows \<Longrightarrow> it_ID q = it_ID r \<Longrightarrow> q = r"
  by (metis distinct_map inj_onD strict_sorted_iff)

lemma identity_update_law:
  assumes "identity_db_ok db view" and "id_update db i f s = (res, t)" and "\<forall>r. it_ID (f r) = it_ID r"
  shows "case res of Inl _ \<Rightarrow> view t = view s
    | Inr _ \<Rightarrow> view t = (map (\<lambda>r. if it_ID r = i then f r else r) (fst (view s)), snd (view s))"
  using assms unfolding identity_db_ok_def by blast

lemma row_effect:
  assumes db: "identity_db_ok db view" and V: "V = (rows, es)" "\<forall>e \<in> set es. 0 < ev_ID e" "r \<in> set rows"
    and sorted: "sorted_wrt (<) (map it_ID rows)"
  shows "succeeds_with view (aggregate_identity_row db now r) V
    (\<lambda>_ V'. \<exists>r'. brought_up es r r' \<and> V' = (rows_with (\<lambda>_. r') [r] rows, es))"
  unfolding aggregate_identity_row_def
proof (rule succeeds_and_then [OF delta_effect [OF db]], elim exE conjE)
  let ?Q = "\<lambda>_ V'. \<exists>r'. brought_up es r r' \<and> V' = (rows_with (\<lambda>_. r') [r] rows, es)"
  fix delta V1 new x y assume V1: "V1 = V"
    and new: "mset new = mset (filter (\<lambda>e. belongs r e \<and> ev_ID e > it_LastAggregatedUsageEventID r) (snd V))"
    and delta: "delta = (delta_of_events new)\<lparr>sd_FirstUsedAt := x, sd_LastUsedAt := y\<rparr>" and total: "sd_TotalRequests delta = int (length new)"
  have new': "mset new = mset (filter (\<lambda>e. belongs r e \<and> ev_ID e > it_LastAggregatedUsageEventID r) es)" using new by (simp add: V)
  show "succeeds_with view (if sd_TotalRequests delta = 0 then gives 0
      else and_then (wrapped (''update usage identity stats for '' @ quoted (it_Identity r))
        (State (id_update db (it_ID r) (identity_updates r delta now)))) (\<lambda>_. gives 1)) V1 ?Q"
  proof (cases "new = []")
    case True
    then have "\<forall>e \<in> set es. belongs r e \<longrightarrow> \<not> ev_ID e > it_LastAggregatedUsageEventID r"
      using new' by (simp add: filter_empty_conv)
    then have "brought_up es r r" by (rule identity_caught_up_same)
    moreover have "rows_with (\<lambda>_. r) [r] rows = rows"
      unfolding rows_with_def using distinct_row [OF sorted V(3)] by (intro map_idI) auto
    ultimately have "?Q 0 V" using V(1) by metis
    then show ?thesis using True total by (simp add: V1 succeeds_gives)
  next
    case False
    let ?r = "identity_updates r delta now r"
    have up: "brought_up es r ?r" by (rule delta_brings_up [OF new' False V(2) delta])
    have "succeeds_with view (State (id_update db (it_ID r) (identity_updates r delta now))) V (\<lambda>_ V'.
        V' = (map (\<lambda>q. if it_ID q = it_ID r then identity_updates r delta now q else q) rows, es))"
      unfolding succeeds_with_def
    proof (intro allI impI)
      fix s u t assume s: "view s = V" and run: "run_state (State (id_update db (it_ID r) (identity_updates r delta now))) s = (Inr u, t)"
      have keeps: "\<forall>q. it_ID (identity_updates r delta now q) = it_ID q" by (simp add: identity_updates_def)
      from run have "id_update db (it_ID r) (identity_updates r delta now) s = (Inr u, t)" by simp
      from identity_update_law [OF db this keeps]
      have "view t = (map (\<lambda>q. if it_ID q = it_ID r then identity_updates r delta now q else q) (fst (view s)), snd (view s))"
        by simp
      then show "view t = (map (\<lambda>q. if it_ID q = it_ID r then identity_updates r delta now q else q) rows, es)" by (simp add: s V)
    qed
    moreover have "map (\<lambda>q. if it_ID q = it_ID r then identity_updates r delta now q else q) rows = rows_with (\<lambda>_. ?r) [r] rows"
      unfolding rows_with_def using distinct_row [OF sorted V(3)] by (intro map_cong refl) auto
    ultimately have "succeeds_with view (State (id_update db (it_ID r) (identity_updates r delta now))) V ?Q"
      using up by (auto elim: succeeds_post)
    then have "succeeds_with view (and_then (wrapped (''update usage identity stats for '' @ quoted (it_Identity r))
        (State (id_update db (it_ID r) (identity_updates r delta now)))) (\<lambda>_. gives 1)) V ?Q"
      by (rule succeeds_and_then [OF succeeds_wrapped]) (rule succeeds_gives)
    then show ?thesis using False total by (simp add: V1)
  qed
qed

lemma rows_effect:
  assumes db: "identity_db_ok db view" and pos: "\<forall>e \<in> set es. 0 < ev_ID e"
  shows "sorted_wrt (<) (map it_ID rows) \<Longrightarrow> set page \<subseteq> set rows \<Longrightarrow> distinct (map it_ID page) \<Longrightarrow>
    succeeds_with view (aggregateUsageIdentityRows db now page) (rows, es)
    (\<lambda>_ V'. \<exists>g. (\<forall>p \<in> set page. brought_up es p (g (it_ID p))) \<and> V' = (rows_with g page rows, es))"
proof (induction page arbitrary: rows)
  case Nil
  then show ?case by (simp add: succeeds_gives rows_with_def)
next
  case (Cons r page)
  have "r \<in> set rows" using Cons.prems(2) by simp
  show ?case
    unfolding aggregateUsageIdentityRows.simps
  proof (rule succeeds_and_then [OF row_effect [OF db refl pos \<open>r \<in> set rows\<close> Cons.prems(1)]], elim exE conjE)
    fix k V1 r' assume r': "brought_up es r r'" and V1: "V1 = (rows_with (\<lambda>_. r') [r] rows, es)"
    let ?rows = "rows_with (\<lambda>_. r') [r] rows"
    have ids: "map it_ID ?rows = map it_ID rows" using r' by (auto simp: rows_with_def brought_up_def)
    have "set page \<subseteq> set ?rows"
    proof
      fix q assume q: "q \<in> set page"
      then have "it_ID q \<in> it_ID ` set page" "it_ID r \<notin> it_ID ` set page" using Cons.prems(3) by simp_all
      then have "q \<in> set rows" "it_ID q \<noteq> it_ID r" using Cons.prems(2) q by (auto, metis)
      then show "q \<in> set ?rows" by (force simp: rows_with_def)
    qed
    then have rest: "succeeds_with view (aggregateUsageIdentityRows db now page) (?rows, es)
        (\<lambda>_ V'. \<exists>g. (\<forall>p \<in> set page. brought_up es p (g (it_ID p))) \<and> V' = (rows_with g page ?rows, es))"
      using Cons.IH [of ?rows] Cons.prems by (simp add: ids)
    show "succeeds_with view (and_then (aggregateUsageIdentityRows db now page) (\<lambda>n. gives (k + n))) V1
        (\<lambda>_ V'. \<exists>g. (\<forall>p \<in> set (r # page). brought_up es p (g (it_ID p))) \<and> V' = (rows_with g (r # page) rows, es))"
      unfolding V1
    proof (rule succeeds_and_then [OF rest], elim exE conjE, rule succeeds_gives)
      fix n V2 g assume g: "\<forall>p \<in> set page. brought_up es p (g (it_ID p))" and V2: "V2 = (rows_with g page ?rows, es)"
      let ?g = "g(it_ID r := r')"
      have out: "it_ID r \<notin> it_ID ` set page" using Cons.prems(3) by auto
      have "it_ID p \<noteq> it_ID r" if "p \<in> set page" for p using out that by (metis imageI)
      then have "\<forall>p \<in> set (r # page). brought_up es p (?g (it_ID p))" using g r' by simp
      moreover have "rows_with g page ?rows = rows_with ?g (r # page) rows"
        using out r' by (auto simp: rows_with_def brought_up_def)
      ultimately show "\<exists>g. (\<forall>p \<in> set (r # page). brought_up es p (g (it_ID p))) \<and> V2 = (rows_with g (r # page) rows, es)"
        unfolding V2 by blast
    qed
  qed
qed

section \<open>A pass\<close>

text \<open>Behind the cursor every row has all its events.\<close>

definition pass_at :: "UsageEvent list \<Rightarrow> int list \<Rightarrow> int \<Rightarrow> identity_view \<Rightarrow> bool" where
  "pass_at es js a V \<longleftrightarrow> snd V = es \<and> map it_ID (fst V) = js \<and> (\<forall>r \<in> set (fst V). it_ID r \<le> a \<longrightarrow> identity_caught_up es r) \<and>
     (identity_load_ok es \<longrightarrow> (\<forall>r \<in> set (fst V). totals_right es r))"

lemma page_brings_up:
  assumes V: "pass_at es js a (rows, es)" and page: "page = take n (filter (\<lambda>r. a < it_ID r) rows)" "page \<noteq> []"
    and sorted: "sorted_wrt (<) (map it_ID rows)" and g: "\<forall>p \<in> set page. brought_up es p (g (it_ID p))"
  shows "pass_at es js (it_ID (last page)) (rows_with g page rows, es)"
proof -
  let ?hot = "filter (\<lambda>r. a < it_ID r) rows"
  define m where "m = it_ID (last page)"
  have ids: "map it_ID (rows_with g page rows) = map it_ID rows"
  proof -
    have "it_ID (g (it_ID r)) = it_ID r" if "it_ID r \<in> it_ID ` set page" for r using g that by (auto simp: brought_up_def)
    then show ?thesis by (auto simp: rows_with_def)
  qed
  have "sorted_wrt (<) (map it_ID ?hot)" using sorted by (simp add: sorted_wrt_map sorted_wrt_filter)
  from prefix_below [OF this] have t: "page = filter (\<lambda>r. it_ID r \<le> m) ?hot" using page by (simp add: m_def)
  have "g (it_ID r) = g (it_ID r) \<and> brought_up es r (g (it_ID r))" if "r \<in> set rows" "it_ID r \<in> it_ID ` set page" for r
  proof -
    note r = that(1) and i = that(2)
    obtain p where p: "p \<in> set page" "it_ID p = it_ID r" using i by auto
    then have "p \<in> set rows" unfolding t by simp
    then have "p = r" using distinct_row [OF sorted r] p(2) by simp
    then show ?thesis using g p by auto
  qed
  then have up: "brought_up es r (g (it_ID r))" if "r \<in> set rows" "it_ID r \<in> it_ID ` set page" for r using that by blast
  have caught: "identity_caught_up es q" if "q \<in> set (rows_with g page rows)" "it_ID q \<le> m" for q
  proof -
    note q = that(1) and low = that(2)
    obtain r where r: "r \<in> set rows" "q = (if it_ID r \<in> it_ID ` set page then g (it_ID r) else r)"
      using q by (auto simp: rows_with_def)
    show ?thesis
    proof (cases "it_ID r \<in> it_ID ` set page")
      case True
      then show ?thesis using up [OF r(1)] r(2) by (simp add: brought_up_def)
    next
      case False
      then have "r \<notin> set page" "q = r" using r(2) by auto
      then have "it_ID r \<le> a" using r(1) low unfolding t by auto
      then show ?thesis using V r(1) \<open>q = r\<close> by (simp add: pass_at_def)
    qed
  qed
  moreover have "totals_right es q" if load: "identity_load_ok es" and q: "q \<in> set (rows_with g page rows)" for q
  proof -
    obtain r where r: "r \<in> set rows" "q = (if it_ID r \<in> it_ID ` set page then g (it_ID r) else r)" using q by (auto simp: rows_with_def)
    then show ?thesis using V load up [OF r(1)] by (auto simp: pass_at_def brought_up_def)
  qed
  ultimately show ?thesis using V ids by (simp add: pass_at_def m_def)
qed

text \<open>Rows behind the cursor; a page takes 25 of them.\<close>

definition rows_left :: "int \<Rightarrow> int list \<Rightarrow> nat" where
  "rows_left a js = length (filter (\<lambda>i. a < i) js)"

definition batch_right :: "UsageEvent list \<Rightarrow> int list \<Rightarrow> int \<Rightarrow> UsageIdentityAggregationBatchResult \<Rightarrow> identity_view \<Rightarrow> bool" where
  "batch_right es js a b V \<longleftrightarrow> pass_at es js (ub_LastIdentityID b) V \<and> 0 \<le> ub_LastIdentityID b \<and>
     (if ub_ReachedEnd b then rows_left (ub_LastIdentityID b) js = 0 else rows_left (ub_LastIdentityID b) js + 25 = rows_left a js)"

lemma page_leaves:
  assumes sorted: "sorted_wrt (<) js" and page: "take n (filter (\<lambda>i. a < i) js) \<noteq> []"
  shows "rows_left (last (take n (filter (\<lambda>i. a < i) js))) js + min n (rows_left a js) = rows_left a js"
proof -
  let ?hot = "filter (\<lambda>i. a < i) js"
  define m where "m = last (take n ?hot)"
  have "sorted_wrt (<) (map (\<lambda>i. i) ?hot)" using sorted by (simp add: sorted_wrt_filter)
  from prefix_below [OF this page] have t: "take n ?hot = filter (\<lambda>i. i \<le> m) ?hot" unfolding m_def .
  have "m \<in> set (take n ?hot)" unfolding m_def by (rule last_in_set [OF page])
  then have "a < m" by (auto dest: in_set_takeD)
  then have "filter (\<lambda>i. \<not> i \<le> m) ?hot = filter (\<lambda>i. m < i) js" unfolding filter_filter by (intro filter_cong refl) auto
  then have "length (filter (\<lambda>i. i \<le> m) ?hot) + rows_left m js = length ?hot"
    using sum_length_filter_compl [of "\<lambda>i. i \<le> m" ?hot] by (simp add: rows_left_def)
  moreover have "length (filter (\<lambda>i. i \<le> m) ?hot) = min n (rows_left a js)" unfolding t [symmetric] by (simp add: rows_left_def min.commute)
  ultimately show ?thesis by (simp add: rows_left_def m_def)
qed

lemma identity_page_law:
  "identity_db_ok db view \<Longrightarrow> id_page db a n s = Inr page \<Longrightarrow> page = take n (filter (\<lambda>r. a < it_ID r) (fst (view s)))"
  unfolding identity_db_ok_def by blast

lemma batch_effect:
  assumes db: "identity_db_ok db view" and V: "pass_at es js a V" and pos: "\<forall>e \<in> set es. 0 < ev_ID e" and a: "0 \<le> a"
    and sorted: "sorted_wrt (<) js" "\<forall>i \<in> set js. 0 < i"
  shows "attempts view (AggregateUsageIdentityStatsBatch (Some db) now a) V (batch_right es js a)"
proof -
  obtain rows where rows: "V = (rows, es)" "map it_ID rows = js" using V by (cases V) (simp add: pass_at_def)
  have ids: "map it_ID (take n (filter (\<lambda>r. b < it_ID r) rows)) = take n (filter (\<lambda>i. b < i) js)" for n b
    by (simp add: rows(2) [symmetric] take_map filter_map comp_def)
  have left: "length (filter (\<lambda>r. b < it_ID r) rows) = rows_left b js" for b
    by (simp add: rows_left_def rows(2) [symmetric] filter_map comp_def)
  have list: "succeeds_with view (wrapped what (reads (id_page db a UsageIdentityAggregationBatchSize))) V
      (\<lambda>page V'. V' = V \<and> page = take UsageIdentityAggregationBatchSize (filter (\<lambda>r. a < it_ID r) rows))" for what
    by (rule succeeds_wrapped) (use identity_page_law [OF db] rows(1) in \<open>fastforce simp: succeeds_with_def reads_def\<close>)
  have "succeeds_with view
     (and_then (wrapped ''list usage identities for aggregation batch'' (reads (id_page db a UsageIdentityAggregationBatchSize))) (\<lambda>page.
        if page = [] then gives \<lparr>ub_ProcessedIdentities = 0, ub_LastIdentityID = a, ub_ReachedEnd = True\<rparr>
        else and_then (aggregateUsageIdentityRows db now page) (\<lambda>processed.
          gives \<lparr>ub_ProcessedIdentities = processed, ub_LastIdentityID = it_ID (last page),
            ub_ReachedEnd = length page < UsageIdentityAggregationBatchSize\<rparr>))) V (batch_right es js a)"
  proof (rule succeeds_and_then [OF list], elim conjE)
    fix page V1 assume V1: "V1 = V" and page: "page = take UsageIdentityAggregationBatchSize (filter (\<lambda>r. a < it_ID r) rows)"
    show "succeeds_with view (if page = [] then gives \<lparr>ub_ProcessedIdentities = 0, ub_LastIdentityID = a, ub_ReachedEnd = True\<rparr>
        else and_then (aggregateUsageIdentityRows db now page) (\<lambda>processed.
          gives \<lparr>ub_ProcessedIdentities = processed, ub_LastIdentityID = it_ID (last page),
            ub_ReachedEnd = length page < UsageIdentityAggregationBatchSize\<rparr>)) V1 (batch_right es js a)"
    proof (cases "page = []")
      case True
      then have "rows_left a js = 0" using page left [of a] by simp
      then show ?thesis using True V a by (auto simp: V1 batch_right_def intro!: succeeds_gives)
    next
      case False
      have sorted_rows: "sorted_wrt (<) (map it_ID rows)" using sorted rows by simp
      have "distinct (map it_ID page)" unfolding page ids using sorted by (simp add: strict_sorted_iff)
      moreover have "set page \<subseteq> set rows" unfolding page by (auto dest: in_set_takeD)
      ultimately have eff: "succeeds_with view (aggregateUsageIdentityRows db now page) V
          (\<lambda>_ V'. \<exists>g. (\<forall>p \<in> set page. brought_up es p (g (it_ID p))) \<and> V' = (rows_with g page rows, es))"
        using rows_effect [OF db pos sorted_rows, of page now] by (simp add: rows(1))
      have last_id: "it_ID (last page) = last (take UsageIdentityAggregationBatchSize (filter (\<lambda>i. a < i) js))"
        unfolding ids [symmetric] page [symmetric] using False by (simp add: last_map)
      have nonempty: "take UsageIdentityAggregationBatchSize (filter (\<lambda>i. a < i) js) \<noteq> []"
        unfolding ids [symmetric] page [symmetric] using False by simp
      note leaves = page_leaves [OF sorted(1) nonempty, folded last_id]
      have len: "length page = min UsageIdentityAggregationBatchSize (rows_left a js)" by (simp add: page left min.commute)
      have "it_ID (last page) \<in> set js" using last_in_set [OF False] \<open>set page \<subseteq> set rows\<close> rows(2) by auto
      then have "0 \<le> it_ID (last page)" using sorted(2) by (simp add: less_imp_le)
      then have "batch_right es js a \<lparr>ub_ProcessedIdentities = k, ub_LastIdentityID = it_ID (last page),
          ub_ReachedEnd = length page < UsageIdentityAggregationBatchSize\<rparr> (rows_with g page rows, es)"
        if "\<forall>p \<in> set page. brought_up es p (g (it_ID p))" for g k
        using page_brings_up [OF _ page False sorted_rows that, where js = js] V rows leaves len
        by (auto simp: batch_right_def min_def split: if_splits)
      then show ?thesis
        unfolding V1 if_not_P [OF False] by (intro succeeds_and_then [OF eff] succeeds_gives) auto
    qed
  qed
  then have "attempts view (transaction (id_inbox db)
     (and_then (wrapped ''list usage identities for aggregation batch'' (reads (id_page db a UsageIdentityAggregationBatchSize))) (\<lambda>page.
        if page = [] then gives \<lparr>ub_ProcessedIdentities = 0, ub_LastIdentityID = a, ub_ReachedEnd = True\<rparr>
        else and_then (aggregateUsageIdentityRows db now page) (\<lambda>processed.
          gives \<lparr>ub_ProcessedIdentities = processed, ub_LastIdentityID = it_ID (last page),
            ub_ReachedEnd = length page < UsageIdentityAggregationBatchSize\<rparr>)))) V (batch_right es js a)"
    using db by (intro attempts_transaction) (simp_all add: identity_db_ok_def)
  then show ?thesis using a by (simp add: AggregateUsageIdentityStatsBatch_def)
qed

lemma pages_end:
  assumes db: "identity_db_ok db view" and pos: "\<forall>e \<in> set es. 0 < ev_ID e" and js: "sorted_wrt (<) js" "\<forall>i \<in> set js. 0 < i"
  shows "pass_at es js a (view s) \<Longrightarrow> 0 \<le> a \<Longrightarrow> run_state (identity_pages fuel db now a) s = (res, t) \<Longrightarrow>
    (\<exists>b. pass_at es js b (view t) \<and> (res = Some (Inr ()) \<longrightarrow> rows_left b js = 0)) \<and> (rows_left a js div 25 < fuel \<longrightarrow> res \<noteq> None)"
proof (induction fuel arbitrary: a s)
  case 0
  then show ?case by auto
next
  case (Suc fuel)
  obtain out u where u: "run_state (AggregateUsageIdentityStatsBatch (Some db) now a) s = (out, u)" by fastforce
  note b = attemptsD [OF batch_effect [OF db Suc.prems(1) pos Suc.prems(2) js] refl u]
  show ?case
  proof (cases out)
    case (Inl err)
    then show ?thesis using Suc.prems u b by auto
  next
    case (Inr r)
    then have right: "batch_right es js a r (view u)" using b by simp
    show ?thesis
    proof (cases "ub_ReachedEnd r")
      case True
      then show ?thesis using Suc.prems u Inr right by (auto simp: batch_right_def)
    next
      case False
      then have run: "run_state (identity_pages fuel db now (ub_LastIdentityID r)) u = (res, t)" using Suc.prems u Inr by simp
      have "pass_at es js (ub_LastIdentityID r) (view u)" "0 \<le> ub_LastIdentityID r" "rows_left (ub_LastIdentityID r) js + 25 = rows_left a js"
        using right False by (simp_all add: batch_right_def)
      moreover from this have "rows_left a js div 25 = Suc (rows_left (ub_LastIdentityID r) js div 25)" by simp
      ultimately show ?thesis using Suc.IH [OF _ _ run] by simp
    qed
  qed
qed

end
