(* ===== verification/AggregationSafety.thy ===== *)
theory AggregationSafety
  imports AggregationRunner RollupProps IdentitySafety
begin

text \<open>
  The work of a turn while other tasks write: what the others can do between two accesses of the database, what the work
  can rely on, and why its pages are still the right ones when they are applied.
\<close>

section \<open>What others can do\<close>

definition cursors_grow :: "rollup_view \<Rightarrow> rollup_view \<Rightarrow> bool" where
  "cursors_grow V V' \<longleftrightarrow> (\<forall>name \<in> set checkpoint_names. cursor_in V name \<le> cursor_in V' name)"

definition counted_to :: "int \<Rightarrow> rollup_view \<Rightarrow> bool" where
  "counted_to n V \<longleftrightarrow> (\<forall>name \<in> set checkpoint_names. n \<le> cursor_in V name)"

definition beyond :: "int \<Rightarrow> rollup_view \<Rightarrow> UsageEvent list" where
  "beyond c V = filter (\<lambda>e. c < ev_ID e) (rv_events V)"

text \<open>
  Cursors never go back; and as long as one stands, the events beyond it stay where they are, and new ones follow them.
\<close>

definition meddle :: "rollup_view \<Rightarrow> rollup_view \<Rightarrow> bool" where
  "meddle V V' \<longleftrightarrow> cursors_grow V V' \<and> (\<forall>name \<in> set checkpoint_names.
     cursor_in V' name = cursor_in V name \<longrightarrow> (\<exists>es. beyond (cursor_in V name) V' = beyond (cursor_in V name) V @ es))"

lemma cursors_grow_refl: "cursors_grow V V"
  by (simp add: cursors_grow_def)

lemma cursors_grow_trans: "cursors_grow U V \<Longrightarrow> cursors_grow V W \<Longrightarrow> cursors_grow U W"
  by (fastforce simp: cursors_grow_def)

lemma counted_to_grow: "counted_to n V \<Longrightarrow> cursors_grow V V' \<Longrightarrow> counted_to n V'"
  by (fastforce simp: cursors_grow_def counted_to_def)

lemma meddle_grow: "meddle V V' \<Longrightarrow> cursors_grow V V'"
  by (simp add: meddle_def)

lemma meddle_refl: "meddle V V"
  by (simp add: meddle_def cursors_grow_refl)

lemma meddle_trans:
  assumes "meddle U V" and "meddle V W"
  shows "meddle U W"
proof -
  have "\<exists>es. beyond (cursor_in U name) W = beyond (cursor_in U name) U @ es"
    if name: "name \<in> set checkpoint_names" and same: "cursor_in W name = cursor_in U name" for name
  proof -
    have mid: "cursor_in V name = cursor_in U name"
      using assms name same by (metis cursors_grow_def meddle_def order_antisym)
    then obtain es fs where "beyond (cursor_in U name) V = beyond (cursor_in U name) U @ es"
      "beyond (cursor_in U name) W = beyond (cursor_in U name) V @ fs"
      using assms name same unfolding meddle_def by metis
    then show ?thesis by simp
  qed
  then show ?thesis using assms cursors_grow_trans unfolding meddle_def by blast
qed

lemma beyond_filter: "filter (\<lambda>e. c < ev_ID e \<and> ev_ID e \<le> target) (rv_events V) = filter (\<lambda>e. ev_ID e \<le> target) (beyond c V)"
  by (simp add: beyond_def conj_commute)

text \<open>A page beyond a cursor that still stands is still the next one.\<close>

lemma page_meddled:
  assumes page: "next_page V name page" and name: "name \<in> set checkpoint_names" and m: "meddle V V'"
    and same: "cursor_in V' name = cursor_in V name"
  shows "next_page V' name page"
proof -
  let ?c = "cursor_in V name"
  obtain target k where p: "page_of V ?c target k page" "page \<noteq> []" using page by (auto simp: next_page_def)
  obtain es where "beyond ?c V' = beyond ?c V @ es" using m name same unfolding meddle_def by blast
  then have "filter (\<lambda>e. ev_ID e \<le> target) (beyond ?c V') = filter (\<lambda>e. ev_ID e \<le> target) (beyond ?c V) @ filter (\<lambda>e. ev_ID e \<le> target) es"
    by simp
  then have "page_of V' ?c target (length page) page"
    using p(1) by (simp add: page_of_def beyond_filter min_def)
  then show ?thesis using p(2) same by (auto simp: next_page_def)
qed

lemma page_last_id:
  assumes env: "env_fine env" and V: "events_in_order V" and page: "page_of V c target k page" "page \<noteq> []"
    and built: "OverviewBuildRows (re_overview_order env) (re_zone env) page = (hourly, daily, n)"
  shows "n = ev_ID (last page)"
proof -
  let ?es = "take k (filter (\<lambda>e. ev_ID e > c \<and> ev_ID e \<le> target) (rv_events V))"
  have ord: "iteration_order (re_overview_order env)" using env by (simp add: env_fine_def)
  have "sorted_wrt (<) (map ev_ID (rv_events V))" using V by (simp add: events_in_order_def)
  then have "sorted_wrt (<) (map ev_ID ?es)" by (simp add: sorted_wrt_map sorted_wrt_filter sorted_wrt_take)
  then have "sorted_wrt (<) (map ev_ID page)" using page(1) by (simp add: page_of_def comp_def)
  moreover have "\<forall>e \<in> set page. 0 < ev_ID e"
    using page(1) V by (auto simp: page_of_def events_in_order_def all_events_def dest: in_set_takeD)
  ultimately show ?thesis using overview_rows_built [OF ord built] sorted_last_Max page(2) by metis
qed

section \<open>Programs among others\<close>

text \<open>
  \<open>safe \<dots> Q p T V\<close>: from a view of which \<open>V\<close> held when the clock had shown \<open>T\<close>, whatever others do between the accesses
  of \<open>p\<close>, each access keeps the rollups exact and lets no cursor go back, and when \<open>p\<close> is over \<open>Q\<close> holds, and stays.
\<close>

primrec safe ::
  "('s \<Rightarrow> rollup_view) \<Rightarrow> rollup_env \<Rightarrow> ('a \<Rightarrow> rollup_view \<Rightarrow> bool) \<Rightarrow> ('s, 'a) prog \<Rightarrow> gtime set \<Rightarrow> rollup_view \<Rightarrow> bool" where
  "safe view env Q (Finished x) = (\<lambda>T V. \<forall>V'. meddle V V' \<longrightarrow> Q x V')"
| "safe view env Q (Atomic f) = (\<lambda>T V. \<forall>T' V' now s. T \<subseteq> T' \<longrightarrow> now \<in> T' \<longrightarrow> meddle V V' \<longrightarrow> rollups_inv env T' V' \<longrightarrow> view s = V' \<longrightarrow>
     (case map_prod (safe view env Q) id (f now s) of (p, t) \<Rightarrow> rollups_inv env T' (view t) \<and> cursors_grow V' (view t) \<and> p T' (view t)))"

lemma safe_access:
  assumes "safe view env Q (Atomic f) T V" and "T \<subseteq> T'" and "now \<in> T'" and "meddle V (view s)" and "rollups_inv env T' (view s)"
    and "f now s = (p, t)"
  shows "rollups_inv env T' (view t) \<and> cursors_grow (view s) (view t) \<and> safe view env Q p T' (view t)"
  using assms(1) [unfolded safe.simps, rule_format, OF assms(2-5) refl] assms(6) by simp

lemma safe_meddle:
  assumes "safe view env Q p T V" and "meddle V V'" and "T \<subseteq> T'"
  shows "safe view env Q p T' V'"
proof (cases p)
  case (Finished x)
  then show ?thesis using assms meddle_trans by auto
next
  case (Atomic f)
  show ?thesis
    unfolding Atomic safe.simps
  proof (intro allI impI)
    fix T2 V2 now s assume a: "T' \<subseteq> T2" "now \<in> T2" "meddle V' V2" "rollups_inv env T2 V2" "view s = V2"
    obtain q t where q: "f now s = (q, t)" by fastforce
    have "meddle V (view s)" "rollups_inv env T2 (view s)" using meddle_trans [OF assms(2) a(3)] a(4, 5) by simp_all
    from safe_access [OF assms(1) [unfolded Atomic] subset_trans [OF assms(3) a(1)] a(2) this q] a(5)
    show "case map_prod (safe view env Q) id (f now s) of (p, t) \<Rightarrow> rollups_inv env T2 (view t) \<and> cursors_grow V2 (view t) \<and> p T2 (view t)"
      by (simp add: q)
  qed
qed

lemma safe_finished: "(\<And>V'. meddle V V' \<Longrightarrow> Q x V') \<Longrightarrow> safe view env Q (Finished x) T V"
  by simp

lemma safe_bind:
  "safe view env R p T V \<Longrightarrow> (\<And>x T' V'. T \<subseteq> T' \<Longrightarrow> R x V' \<Longrightarrow> safe view env Q (k x) T' V') \<Longrightarrow> safe view env Q (bindP p k) T V"
proof (induction p arbitrary: T V)
  case (Finished x)
  then show ?case using meddle_refl by simp
next
  case (Atomic f)
  show ?case
    unfolding bindP.simps safe.simps
  proof (intro allI impI)
    fix T' V' now s assume a: "T \<subseteq> T'" "now \<in> T'" "meddle V V'" "rollups_inv env T' V'" "view s = V'"
    obtain q t where q: "f now s = (q, t)" by fastforce
    have "meddle V (view s)" "rollups_inv env T' (view s)" using a(3-5) by simp_all
    from safe_access [OF Atomic.prems(1) a(1, 2) this q] a(5)
    have step: "rollups_inv env T' (view t) \<and> cursors_grow V' (view t)" "safe view env R q T' (view t)" by simp_all
    have "q \<in> Basic_BNFs.fsts (f now s)" by (simp add: q)
    from Atomic.IH [OF _ _ this step(2)] Atomic.prems(2) a(1)
    have "safe view env Q (bindP q k) T' (view t)" by (meson rangeI subset_trans)
    with step(1) show "case map_prod (safe view env Q) id (case map_prod bindP id (f now s) of (p, t) \<Rightarrow> (p k, t)) of
        (p, t) \<Rightarrow> rollups_inv env T' (view t) \<and> cursors_grow V' (view t) \<and> p T' (view t)"
      by (simp add: q)
  qed
qed

lemma bindP_assoc: "bindP (bindP p f) g = bindP p (\<lambda>x. bindP (f x) g)"
proof (induction p)
  case (Atomic h)
  have "bindP (bindP (fst (h now s)) f) g = bindP (fst (h now s)) (\<lambda>x. bindP (f x) g)" for now s
    by (rule Atomic) (auto intro: Basic_BNFs.fsts.intros)
  then show ?case by (simp add: fun_eq_iff split_beta)
qed simp

text \<open>A statement that may fail, and then leaves the view alone.\<close>

lemma safe_sql:
  assumes step: "\<And>T' V'. T \<subseteq> T' \<Longrightarrow> meddle V V' \<Longrightarrow> rollups_inv env T' V' \<Longrightarrow> attempts view c V' (R T' V')"
    and bad: "\<And>err. safe view env Q (g err) T V"
    and good: "\<And>T' V' x V''. T \<subseteq> T' \<Longrightarrow> meddle V V' \<Longrightarrow> rollups_inv env T' V' \<Longrightarrow> R T' V' x V'' \<Longrightarrow>
      rollups_inv env T' V'' \<and> cursors_grow V' V'' \<and> safe view env Q (h x) T' V''"
  shows "safe view env Q (bindP (atomically c) (\<lambda>res. case res of Inl err \<Rightarrow> g err | Inr x \<Rightarrow> h x)) T V"
proof -
  have "rollups_inv env T' (view t) \<and> cursors_grow V' (view t) \<and> safe view env Q (case res of Inl err \<Rightarrow> g err | Inr x \<Rightarrow> h x) T' (view t)"
    if a: "T \<subseteq> T'" "meddle V V'" "rollups_inv env T' V'" "view s = V'" and r: "run_state c s = (res, t)" for T' V' s res t
    using attemptsD [OF step [OF a(1-3)] a(4) r] good [OF a(1-3)] safe_meddle [OF bad a(2, 1)] a(3)
    by (cases res) (simp_all add: cursors_grow_refl)
  then show ?thesis by (auto simp: atomically_def split: prod.splits)
qed

lemma safe_read:
  assumes "\<And>T' V'. T \<subseteq> T' \<Longrightarrow> meddle V V' \<Longrightarrow> rollups_inv env T' V' \<Longrightarrow> attempts view c V' (\<lambda>x V''. V'' = V' \<and> P V' x)"
    and "\<And>err. safe view env Q (g err) T V"
    and "\<And>T' V' x. T \<subseteq> T' \<Longrightarrow> meddle V V' \<Longrightarrow> rollups_inv env T' V' \<Longrightarrow> P V' x \<Longrightarrow> safe view env Q (h x) T' V'"
  shows "safe view env Q (bindP (atomically c) (\<lambda>res. case res of Inl err \<Rightarrow> g err | Inr x \<Rightarrow> h x)) T V"
  by (rule safe_sql [where R = "\<lambda>T' V' x V''. V'' = V' \<and> P V' x", OF assms(1, 2)]) (use assms(3) cursors_grow_refl in blast)+

lemma attempts_defer: "attempts view (deferForInbox db) V (\<lambda>_ V'. V' = V)"
  unfolding deferForInbox_def HasProcessableRedisUsageInbox_def option.case
  by (rule attempts_post [OF attempts_reads [where Q = "\<lambda>_. True"]]) simp_all

lemma safe_defer:
  assumes "\<And>err. safe view env Q (g err) T V" and "\<And>b. safe view env Q (h b) T V"
  shows "safe view env Q (bindP (atomically (deferForInbox db)) (\<lambda>res. case res of Inl err \<Rightarrow> g err | Inr b \<Rightarrow> h b)) T V"
  by (rule safe_read [where P = "\<lambda>_ _. True"]) (use assms attempts_defer safe_meddle [OF assms(2)] in auto)

section \<open>Pages\<close>

text \<open>
  What applying a page does: only if the cursor still stands where the page begins, and then the rollups stay exact and
  this cursor moves to the end of the page.
\<close>

definition page_applied :: "rollup_env \<Rightarrow> gtime set \<Rightarrow> UsageAggregationCheckpointName \<Rightarrow> int \<Rightarrow> int \<Rightarrow> rollup_view \<Rightarrow> rollup_view \<Rightarrow> bool" where
  "page_applied env T name c n V V' \<longleftrightarrow> cursor_in V name = c \<and> rollups_inv env T V' \<and> moved V name n V' \<and> c < n"

lemma page_applied_grow: "page_applied env T name c n V V' \<Longrightarrow> cursors_grow V V'"
  by (simp add: page_applied_def cursors_grow_def moved_def)

lemma next_page_beyond:
  assumes V: "events_in_order V" and page: "next_page V name page"
  shows "cursor_in V name < ev_ID (last page)"
proof -
  obtain target k where p: "page_of V (cursor_in V name) target k page" "page \<noteq> []" using page by (auto simp: next_page_def)
  have sorted: "sorted_wrt (<) (map ev_ID (rv_events V))" using V by (simp add: events_in_order_def)
  from page_filter [OF sorted p] show ?thesis by simp
qed

lemma overview_page_applies:
  assumes env: "env_fine env" and db: "rollup_db_ok db view" and inv: "rollups_inv env T V"
    and page: "cursor_in V UsageAggregationCheckpointOverview = c \<Longrightarrow> next_page V UsageAggregationCheckpointOverview page"
    and built: "overview_page env db c now page = Inr (n, op)"
  shows "attempts view op V (\<lambda>_. page_applied env T UsageAggregationCheckpointOverview c n V)"
proof -
  obtain hourly daily m where rows: "OverviewBuildRows (re_overview_order env) (re_zone env) page = (hourly, daily, m)" by (metis prod_cases3)
  have op: "m = n" "op = ApplyUsageOverviewAggregationPage env (Some db) c n hourly daily now"
    using built by (auto simp: overview_page_def rows)
  have V: "events_in_order V" using inv by (simp add: rollups_inv_def)
  note rows = rows [unfolded op(1)]
  show ?thesis
    unfolding op(2)
  proof (rule attempts_post [OF Apply_overview_effect [OF db]], elim conjE)
    fix x :: unit and V' assume c: "cursor_in V UsageAggregationCheckpointOverview = c"
      and "advanced (V\<lparr>rv_hourly := fold (overview_count.upsert (re_zone env) now) hourly (rv_hourly V),
       rv_daily := fold (overview_count.upsert (re_zone env) now) daily (rv_daily V)\<rparr>) UsageAggregationCheckpointOverview n V'"
    from overview_page_keeps [OF env inv page [OF c] rows this(2)] next_page_beyond [OF V page [OF c]] c
    show "page_applied env T UsageAggregationCheckpointOverview c n V V'" by (auto simp: page_applied_def)
  qed
qed

lemma activity_page_applies:
  assumes env: "env_fine env" and db: "rollup_db_ok db view" and inv: "rollups_inv env T V" and now: "now \<in> T"
    and page: "cursor_in V UsageAggregationCheckpointActivity = c \<Longrightarrow> next_page V UsageAggregationCheckpointActivity page"
    and built: "activity_page env db c (ev_ID (last page)) now page = Inr (n, op)"
  shows "attempts view op V (\<lambda>_. page_applied env T UsageAggregationCheckpointActivity c n V)"
proof -
  obtain rows where rows: "ActivityBuildRows (re_activity_order env) (re_zone env) page now = Inr rows"
    and op: "n = ev_ID (last page)" "op = ApplyUsageActivityAggregationPage env (Some db) c n rows now"
    using built by (auto simp: activity_page_def split: sum.splits)
  have V: "events_in_order V" using inv by (simp add: rollups_inv_def)
  show ?thesis
    unfolding op(2)
  proof (rule attempts_post [OF Apply_activity [OF db]], elim conjE)
    fix x :: unit and V' assume c: "cursor_in V UsageAggregationCheckpointActivity = c" and "activity_applied V rows now n V'"
    from activity_page_keeps [OF env inv page [OF c] rows this(2) [unfolded op(1)]] next_page_beyond [OF V page [OF c]] now c
    show "page_applied env T UsageAggregationCheckpointActivity c n V V'" by (simp add: page_applied_def op(1) insert_absorb)
  qed
qed

lemma latency_page_applies:
  assumes env: "env_fine env" and db: "rollup_db_ok db view" and inv: "rollups_inv env T V" and now: "now \<in> T"
    and page: "cursor_in V UsageAggregationCheckpointLatency = c \<Longrightarrow> next_page V UsageAggregationCheckpointLatency page"
    and built: "latency_page env db c (ev_ID (last page)) now page = Inr (n, op)"
  shows "attempts view op V (\<lambda>_. page_applied env T UsageAggregationCheckpointLatency c n V)"
proof -
  obtain rows where rows: "LatencyBuildRows (re_latency env) (re_latency_order env) (re_zone env) page now = Inr rows"
    and op: "n = ev_ID (last page)" "op = ApplyUsageLatencyAggregationPage env (Some db) c n rows now"
    using built by (auto simp: latency_page_def split: sum.splits)
  have V: "events_in_order V" using inv by (simp add: rollups_inv_def)
  show ?thesis
    unfolding op(2)
  proof (rule attempts_post [OF Apply_latency [OF db]], elim conjE)
    fix x :: unit and V' assume c: "cursor_in V UsageAggregationCheckpointLatency = c" and "latency_applied env V rows now n V'"
    from latency_page_keeps [OF env inv page [OF c] rows this(2) [unfolded op(1)]] next_page_beyond [OF V page [OF c]] now c
    show "page_applied env T UsageAggregationCheckpointLatency c n V V'" by (simp add: page_applied_def op(1) insert_absorb)
  qed
qed

text \<open>Each page with its cursor and the end it is told.\<close>

lemmas page_applies = overview_page_applies activity_page_applies latency_page_applies

section \<open>A turn of the rollups\<close>

text \<open>A turn that says without an error that the target is reached tells the truth.\<close>

definition turn_true :: "int \<Rightarrow> turn_result \<Rightarrow> rollup_view \<Rightarrow> bool" where
  "turn_true target r V \<longleftrightarrow> (case r of (processed, deferred, reached, err) \<Rightarrow> reached \<and> err = None \<longrightarrow> counted_to target V)"

lemma turn_stops: "safe view env (turn_true target) (Finished (p, d, False, e)) T V"
  by (simp add: turn_true_def)

lemma safe_unless:
  "safe view env (turn_true target) k T V \<Longrightarrow> safe view env (turn_true target) (unless_deferred db processed errs k) T V"
  unfolding unless_deferred_def by (rule safe_defer [OF turn_stops]) (simp add: turn_true_def)

text \<open>After some of the three pages of a shared turn: cursors that have not moved have the page before them.\<close>

definition so_far :: "int \<Rightarrow> int \<Rightarrow> UsageEvent list \<Rightarrow> UsageAggregationCheckpointName set \<Rightarrow> string list \<Rightarrow> rollup_view \<Rightarrow> bool" where
  "so_far c n events A errs V \<longleftrightarrow> A \<subseteq> set checkpoint_names \<and>
     (\<forall>name \<in> set checkpoint_names. c \<le> cursor_in V name \<and> (cursor_in V name = c \<longrightarrow> next_page V name events)) \<and>
     (errs = [] \<longrightarrow> (\<forall>name \<in> A. n \<le> cursor_in V name))"

lemma so_far_meddled:
  assumes "so_far c n events A errs V" and "meddle V V'"
  shows "so_far c n events A errs V'"
proof -
  have grow: "cursor_in V name \<le> cursor_in V' name" if "name \<in> set checkpoint_names" for name
    using meddle_grow [OF assms(2)] that by (simp add: cursors_grow_def)
  have "next_page V' name events" if "name \<in> set checkpoint_names" "cursor_in V' name = c" for name
  proof -
    have "cursor_in V name = c" using assms(1) grow [OF that(1)] that by (force simp: so_far_def)
    with page_meddled [OF _ that(1) assms(2)] assms(1) that show ?thesis by (simp add: so_far_def)
  qed
  then show ?thesis using assms(1) grow unfolding so_far_def by (metis order_trans subsetD)
qed

lemma so_far_moves:
  assumes "so_far c n events A errs V" and name: "name \<in> set checkpoint_names" and "page_applied env T name c n V V'"
  shows "so_far c n events (insert name A) errs V'"
proof -
  have m: "rv_events V' = rv_events V" "cursor_in V' = (cursor_in V)(name := n)" "c < n"
    using assms(3) by (simp_all add: page_applied_def moved_def)
  have "next_page V' m events = next_page V m events" if "m \<noteq> name" for m
    using that by (simp add: next_page_def page_of_def m(1, 2))
  then show ?thesis using assms(1) name m(3) by (auto simp: so_far_def m(2))
qed

lemma so_far_fails: "so_far c n events A errs V \<Longrightarrow> name \<in> set checkpoint_names \<Longrightarrow> so_far c n events (insert name A) (errs @ [err]) V"
  by (auto simp: so_far_def)

lemma safe_apply:
  assumes V: "so_far c n events A errs V" and name: "name \<in> set checkpoint_names"
    and page: "\<And>m op. page = Inr (m, op) \<Longrightarrow> m = n"
      "\<And>m op T' V'. page = Inr (m, op) \<Longrightarrow> T \<subseteq> T' \<Longrightarrow> rollups_inv env T' V' \<Longrightarrow> (cursor_in V' name = c \<Longrightarrow> next_page V' name events) \<Longrightarrow>
        attempts view op V' (\<lambda>_. page_applied env T' name c m V')"
    and k: "\<And>p errs T' V'. T \<subseteq> T' \<Longrightarrow> so_far c n events (insert name A) errs V' \<Longrightarrow> safe view env Q (k p errs) T' V'"
  shows "safe view env Q (bindP (apply_page page processed errs) (\<lambda>(p, errs). k p errs)) T V"
proof (cases page)
  case (Inl err)
  then show ?thesis using k [OF subset_refl so_far_fails [OF V name]] by (simp add: apply_page_def)
next
  case (Inr x)
  obtain m op where x: "x = (m, op)" by (cases x)
  have p: "page = Inr (m, op)" using Inr x by simp
  have eq: "bindP (apply_page page processed errs) (\<lambda>(p, errs). k p errs) =
      bindP (atomically op) (\<lambda>res. case res of Inl err \<Rightarrow> k processed (errs @ [err]) | Inr _ \<Rightarrow> k True errs)"
    unfolding apply_page_def p sum.case prod.case bindP_assoc
    by (rule arg_cong [where f = "bindP (atomically op)"]) (auto simp: fun_eq_iff split: sum.splits)
  show ?thesis
    unfolding eq
  proof (rule safe_sql [where R = "\<lambda>T' V' _. page_applied env T' name c m V'"])
    fix T' V' assume a: "T \<subseteq> T'" "meddle V V'" "rollups_inv env T' V'"
    have V': "so_far c n events A errs V'" by (rule so_far_meddled [OF V a(2)])
    then show "attempts view op V' (\<lambda>_. page_applied env T' name c m V')"
      by (intro page(2) [OF p a(1, 3)]) (use name in \<open>simp add: so_far_def\<close>)
    fix u :: unit and V'' assume ap: "page_applied env T' name c m V' V''"
    then have "so_far c n events (insert name A) errs V''"
      using so_far_moves [OF V' name] by (simp add: page(1) [OF p])
    with ap k [OF a(1)] page_applied_grow [OF ap]
    show "rollups_inv env T' V'' \<and> cursors_grow V' V'' \<and> safe view env Q (k True errs) T' V''"
      by (simp add: page_applied_def)
  qed (rule k [OF subset_refl so_far_fails [OF V name]])
qed

lemma errors_Join_None: "errors_Join errs = None \<longleftrightarrow> errs = []"
  by (simp add: errors_Join_def)

lemma all_names: "UsageAggregationCheckpointOverview \<in> set checkpoint_names" "UsageAggregationCheckpointActivity \<in> set checkpoint_names"
  "UsageAggregationCheckpointLatency \<in> set checkpoint_names"
  by (simp_all add: checkpoint_names_def)

lemma shared_turn:
  assumes env: "env_fine env" and db: "rollup_db_ok db view" and V: "events_in_order V" and now: "now \<in> T"
    and cursors: "\<forall>name \<in> set checkpoint_names. c \<le> cursor_in V name" and page: "page_of V c target k events" "events \<noteq> []"
  shows "safe view env (turn_true target) (apply_shared_page env db c target now events) T V"
proof -
  obtain hourly daily n where rows: "OverviewBuildRows (re_overview_order env) (re_zone env) events = (hourly, daily, n)" by (metis prod_cases3)
  have n: "n = ev_ID (last events)" by (rule page_last_id [OF env V page rows])
  have start: "so_far c n events {} [] V" using cursors page by (auto simp: so_far_def next_page_def)
  have ends: "m = n" if "overview_page env db c now events = Inr (m, op) \<or> activity_page env db c n now events = Inr (m, op) \<or>
      latency_page env db c n now events = Inr (m, op)" for m op
    using that by (auto simp: overview_page_def rows activity_page_def latency_page_def split: sum.splits)
  have over: "safe view env (turn_true target) (Finished (case errors_Join errs of Some err \<Rightarrow> (p, False, False, Some err)
      | None \<Rightarrow> (p, False, target \<le> n, None))) T' V'"
    if so: "so_far c n events {UsageAggregationCheckpointLatency, UsageAggregationCheckpointActivity, UsageAggregationCheckpointOverview} errs V'"
    for p errs T' V'
  proof (rule safe_finished)
    fix V2 assume "meddle V' V2"
    from so_far_meddled [OF so this] have "errs = [] \<longrightarrow> target \<le> n \<longrightarrow> counted_to target V2"
      by (auto simp: so_far_def counted_to_def checkpoint_names_def)
    then show "turn_true target (case errors_Join errs of Some err \<Rightarrow> (p, False, False, Some err) | None \<Rightarrow> (p, False, target \<le> n, None)) V2"
      using errors_Join_None [of errs] by (cases "errors_Join errs") (auto simp: turn_true_def)
  qed
  show ?thesis
    unfolding apply_shared_page_def rows Let_def prod.case
  proof (rule safe_unless, rule safe_apply [OF start all_names(1)])
    show "m = n" if "overview_page env db c now events = Inr (m, op)" for m op using ends that by blast
    show "attempts view op V' (\<lambda>_. page_applied env T' UsageAggregationCheckpointOverview c m V')"
      if "overview_page env db c now events = Inr (m, op)" "T \<subseteq> T'" "rollups_inv env T' V'"
        "cursor_in V' UsageAggregationCheckpointOverview = c \<Longrightarrow> next_page V' UsageAggregationCheckpointOverview events" for m op T' V'
      by (rule overview_page_applies [OF env db that(3) that(4) that(1)])
    fix p errs T1 V1 assume T1: "T \<subseteq> T1" and V1: "so_far c n events {UsageAggregationCheckpointOverview} errs V1"
    show "safe view env (turn_true target) (unless_deferred db p errs
          (bindP (apply_page (activity_page env db c n now events) p errs) (\<lambda>(p, errs).
            unless_deferred db p errs (bindP (apply_page (latency_page env db c n now events) p errs) (\<lambda>(p, errs).
              Finished (case errors_Join errs of Some err \<Rightarrow> (p, False, False, Some err) | None \<Rightarrow> (p, False, target \<le> n, None))))))) T1 V1"
    proof (rule safe_unless, rule safe_apply [OF V1 all_names(2)])
      show "m = n" if "activity_page env db c n now events = Inr (m, op)" for m op using ends that by blast
      show "attempts view op V' (\<lambda>_. page_applied env T' UsageAggregationCheckpointActivity c m V')"
        if "activity_page env db c n now events = Inr (m, op)" "T1 \<subseteq> T'" "rollups_inv env T' V'"
          "cursor_in V' UsageAggregationCheckpointActivity = c \<Longrightarrow> next_page V' UsageAggregationCheckpointActivity events" for m op T' V'
        by (rule activity_page_applies [OF env db that(3) _ that(4) that(1) [unfolded n]]) (use now T1 that(2) in blast)
      fix p errs T2 V2 assume T2: "T1 \<subseteq> T2" and V2: "so_far c n events {UsageAggregationCheckpointActivity, UsageAggregationCheckpointOverview} errs V2"
      show "safe view env (turn_true target) (unless_deferred db p errs (bindP (apply_page (latency_page env db c n now events) p errs) (\<lambda>(p, errs).
              Finished (case errors_Join errs of Some err \<Rightarrow> (p, False, False, Some err) | None \<Rightarrow> (p, False, target \<le> n, None))))) T2 V2"
      proof (rule safe_unless, rule safe_apply [OF V2 all_names(3)])
        show "m = n" if "latency_page env db c n now events = Inr (m, op)" for m op using ends that by blast
        show "attempts view op V' (\<lambda>_. page_applied env T' UsageAggregationCheckpointLatency c m V')"
          if "latency_page env db c n now events = Inr (m, op)" "T2 \<subseteq> T'" "rollups_inv env T' V'"
            "cursor_in V' UsageAggregationCheckpointLatency = c \<Longrightarrow> next_page V' UsageAggregationCheckpointLatency events" for m op T' V'
          by (rule latency_page_applies [OF env db that(3) _ that(4) that(1) [unfolded n]]) (use now T1 T2 that(2) in blast)
      qed (rule over)
    qed
  qed
qed

text \<open>A page of one rollup that is behind.\<close>

lemma fallback_safe:
  assumes db: "rollup_db_ok db view" and name: "name \<in> set checkpoint_names" and c: "c \<le> cursor_in V name"
    and build: "\<And>T' V' page n op. T \<subseteq> T' \<Longrightarrow> rollups_inv env T' V' \<Longrightarrow> (cursor_in V' name = c \<Longrightarrow> next_page V' name page) \<Longrightarrow>
      build page = Inr (n, op) \<Longrightarrow> attempts view op V' (\<lambda>_. page_applied env T' name c n V')"
    and k: "\<And>p errs c' T' V'. T \<subseteq> T' \<Longrightarrow> cursors_grow V V' \<Longrightarrow> c' \<le> cursor_in V' name \<Longrightarrow> safe view env (turn_true target) (k p errs c') T' V'"
  shows "safe view env (turn_true target) (fallback_page db what c target build p errs k) T V"
proof -
  have c': "c \<le> cursor_in V' name" if "cursors_grow V V'" for V' using c that name by (force simp: cursors_grow_def)
  have stay: "safe view env (turn_true target) (k p errs c) T' V'" if "T \<subseteq> T'" "cursors_grow V V'" for p errs T' V'
    by (rule k [OF that c' [OF that(2)]])
  have behind: "safe view env (turn_true target) (case build events of Inl buildErr \<Rightarrow> k p (errs @ [buildErr]) c
      | Inr (nextCursor, op) \<Rightarrow> unless_deferred db p errs (bindP (atomically op) (\<lambda>applied. case applied of
            Inl applyErr \<Rightarrow> k p (errs @ [applyErr]) c | Inr _ \<Rightarrow> k True errs nextCursor))) T1 V1"
    if a: "T \<subseteq> T1" "meddle V V1" and page: "page_of V1 c target m events" "events \<noteq> []" for m events T1 V1
  proof (cases "build events")
    case (Inl e)
    then show ?thesis using stay [OF a(1) meddle_grow [OF a(2)]] by simp
  next
    case (Inr x)
    obtain n op where x: "x = (n, op)" by (cases x)
    have next_one: "next_page V' name events" if "meddle V1 V'" "cursor_in V' name = c" for V'
    proof -
      have "c \<le> cursor_in V1 name" "cursor_in V1 name \<le> cursor_in V' name"
        using c' [OF meddle_grow [OF a(2)]] meddle_grow [OF that(1)] name by (simp_all add: cursors_grow_def)
      then have same: "cursor_in V1 name = c" using that(2) by simp
      then have "next_page V1 name events" using page by (auto simp: next_page_def)
      from page_meddled [OF this name that(1)] same that(2) show ?thesis by simp
    qed
    have "safe view env (turn_true target) (bindP (atomically op) (\<lambda>applied. case applied of
        Inl applyErr \<Rightarrow> k p (errs @ [applyErr]) c | Inr _ \<Rightarrow> k True errs n)) T1 V1"
    proof (rule safe_sql [where R = "\<lambda>T' V' _. page_applied env T' name c n V'"])
      show "attempts view op V' (\<lambda>_. page_applied env T' name c n V')" if "T1 \<subseteq> T'" "meddle V1 V'" "rollups_inv env T' V'" for T' V'
        by (rule build [OF subset_trans [OF a(1) that(1)] that(3) next_one [OF that(2)] Inr [unfolded x]])
      fix T' V' V'' and u :: unit
      assume b: "T1 \<subseteq> T'" "meddle V1 V'" and ap: "page_applied env T' name c n V' V''"
      have "cursors_grow V V''"
        using meddle_grow [OF a(2)] meddle_grow [OF b(2)] page_applied_grow [OF ap] by (blast intro: cursors_grow_trans)
      moreover have "n \<le> cursor_in V'' name" using ap by (simp add: page_applied_def moved_def)
      ultimately show "rollups_inv env T' V'' \<and> cursors_grow V' V'' \<and> safe view env (turn_true target) (k True errs n) T' V''"
        using k [OF subset_trans [OF a(1) b(1)]] ap page_applied_grow [OF ap] by (simp add: page_applied_def)
    qed (rule stay [OF a(1) meddle_grow [OF a(2)]])
    from safe_unless [OF this] show ?thesis by (simp add: Inr x)
  qed
  show ?thesis
  proof (cases "c < target")
    case True
    show ?thesis
      unfolding fallback_page_def if_P [OF True]
    proof (rule safe_read [OF page_loaded [OF db] stay [OF subset_refl cursors_grow_refl]])
      fix T1 V1 events
      assume a: "T \<subseteq> T1" "meddle V V1"
        and page: "page_of V1 c target (nat (min usageAggregationEventPageSize usageAggregationEventPageLimit)) events"
      show "safe view env (turn_true target) (if events = [] then k p (errs @ [what @ '' fallback page is empty before target '' @ int_text target]) c
        else case build events of Inl buildErr \<Rightarrow> k p (errs @ [buildErr]) c
          | Inr (nextCursor, op) \<Rightarrow> unless_deferred db p errs (bindP (atomically op) (\<lambda>applied. case applied of
                Inl applyErr \<Rightarrow> k p (errs @ [applyErr]) c | Inr _ \<Rightarrow> k True errs nextCursor))) T1 V1"
        using stay [OF a(1) meddle_grow [OF a(2)]] behind [OF a page] by (cases "events = []") simp_all
    qed
  next
    case False
    then show ?thesis using stay [OF subset_refl cursors_grow_refl] by (simp add: fallback_page_def)
  qed
qed

lemma fallback_turn:
  assumes env: "env_fine env" and db: "rollup_db_ok db view" and now: "now \<in> T"
  shows "safe view env (turn_true target) (runFallbackRollupsPages env db (snapshot_in V) target now) T V"
proof -
  let ?sn = "snapshot_in V"
  have sn: "sn_OverviewCursor ?sn = cursor_in V UsageAggregationCheckpointOverview"
    "sn_ActivityCursor ?sn = cursor_in V UsageAggregationCheckpointActivity"
    "sn_LatencyCursor ?sn = cursor_in V UsageAggregationCheckpointLatency" by (simp_all add: snapshot_in_def)
  have over: "safe view env (turn_true target) (Finished (p, False, o1 \<ge> target \<and> a1 \<ge> target \<and> l1 \<ge> target, e)) T' V'"
    if "o1 \<le> cursor_in V' UsageAggregationCheckpointOverview" "a1 \<le> cursor_in V' UsageAggregationCheckpointActivity"
      "l1 \<le> cursor_in V' UsageAggregationCheckpointLatency" for p o1 a1 l1 e T' V'
  proof (rule safe_finished)
    fix V2 assume "meddle V' V2"
    from meddle_grow [OF this] that
    show "turn_true target (p, False, o1 \<ge> target \<and> a1 \<ge> target \<and> l1 \<ge> target, e) V2"
      by (auto simp: turn_true_def counted_to_def checkpoint_names_def cursors_grow_def)
  qed
  show ?thesis
    unfolding runFallbackRollupsPages_def sn
  proof (rule fallback_safe [OF db all_names(1) order_refl])
    show "attempts view op V' (\<lambda>_. page_applied env T' UsageAggregationCheckpointOverview (cursor_in V UsageAggregationCheckpointOverview) n V')"
      if "T \<subseteq> T'" "rollups_inv env T' V'"
        "cursor_in V' UsageAggregationCheckpointOverview = cursor_in V UsageAggregationCheckpointOverview \<Longrightarrow> next_page V' UsageAggregationCheckpointOverview page"
        "overview_page env db (cursor_in V UsageAggregationCheckpointOverview) now page = Inr (n, op)" for T' V' page n op
      by (rule overview_page_applies [OF env db that(2-4)])
    fix p1 errs1 o1 T1 V1 assume T1: "T \<subseteq> T1" and V1: "cursors_grow V V1" "o1 \<le> cursor_in V1 UsageAggregationCheckpointOverview"
    show "safe view env (turn_true target) (fallback_page db ''activity'' (cursor_in V UsageAggregationCheckpointActivity) target
         (\<lambda>events. activity_page env db (cursor_in V UsageAggregationCheckpointActivity) (ev_ID (last events)) now events) p1 errs1
         (\<lambda>processed pageErrors activityCursor.
            fallback_page db ''latency'' (cursor_in V UsageAggregationCheckpointLatency) target
              (\<lambda>events. latency_page env db (cursor_in V UsageAggregationCheckpointLatency) (ev_ID (last events)) now events) processed pageErrors
              (\<lambda>processed pageErrors latencyCursor.
                 Finished (processed, False, o1 \<ge> target \<and> activityCursor \<ge> target \<and> latencyCursor \<ge> target, errors_Join pageErrors)))) T1 V1"
    proof (rule fallback_safe [OF db all_names(2)])
      show "cursor_in V UsageAggregationCheckpointActivity \<le> cursor_in V1 UsageAggregationCheckpointActivity"
        using V1(1) all_names by (simp add: cursors_grow_def)
      show "attempts view op V' (\<lambda>_. page_applied env T' UsageAggregationCheckpointActivity (cursor_in V UsageAggregationCheckpointActivity) n V')"
        if "T1 \<subseteq> T'" "rollups_inv env T' V'"
          "cursor_in V' UsageAggregationCheckpointActivity = cursor_in V UsageAggregationCheckpointActivity \<Longrightarrow> next_page V' UsageAggregationCheckpointActivity page"
          "activity_page env db (cursor_in V UsageAggregationCheckpointActivity) (ev_ID (last page)) now page = Inr (n, op)" for T' V' page n op
        by (rule activity_page_applies [OF env db that(2) _ that(3, 4)]) (use now T1 that(1) in blast)
      fix p2 errs2 a1 T2 V2 assume T2: "T1 \<subseteq> T2" and V2: "cursors_grow V1 V2" "a1 \<le> cursor_in V2 UsageAggregationCheckpointActivity"
      show "safe view env (turn_true target) (fallback_page db ''latency'' (cursor_in V UsageAggregationCheckpointLatency) target
              (\<lambda>events. latency_page env db (cursor_in V UsageAggregationCheckpointLatency) (ev_ID (last events)) now events) p2 errs2
              (\<lambda>processed pageErrors latencyCursor.
                 Finished (processed, False, o1 \<ge> target \<and> a1 \<ge> target \<and> latencyCursor \<ge> target, errors_Join pageErrors))) T2 V2"
      proof (rule fallback_safe [OF db all_names(3)])
        show "cursor_in V UsageAggregationCheckpointLatency \<le> cursor_in V2 UsageAggregationCheckpointLatency"
          using cursors_grow_trans [OF V1(1) V2(1)] all_names by (simp add: cursors_grow_def)
        show "attempts view op V' (\<lambda>_. page_applied env T' UsageAggregationCheckpointLatency (cursor_in V UsageAggregationCheckpointLatency) n V')"
          if "T2 \<subseteq> T'" "rollups_inv env T' V'"
            "cursor_in V' UsageAggregationCheckpointLatency = cursor_in V UsageAggregationCheckpointLatency \<Longrightarrow> next_page V' UsageAggregationCheckpointLatency page"
            "latency_page env db (cursor_in V UsageAggregationCheckpointLatency) (ev_ID (last page)) now page = Inr (n, op)" for T' V' page n op
          by (rule latency_page_applies [OF env db that(2) _ that(3, 4)]) (use now T1 T2 that(1) in blast)
        fix p3 errs3 l1 T3 V3 assume V3: "cursors_grow V2 V3" "l1 \<le> cursor_in V3 UsageAggregationCheckpointLatency"
        have "o1 \<le> cursor_in V3 UsageAggregationCheckpointOverview"
          using V1(2) cursors_grow_trans [OF V2(1) V3(1)] all_names(1) by (force simp: cursors_grow_def)
        moreover have "a1 \<le> cursor_in V3 UsageAggregationCheckpointActivity"
          using V2(2) V3(1) all_names(2) by (force simp: cursors_grow_def)
        ultimately show "safe view env (turn_true target) (Finished (p3, False, o1 \<ge> target \<and> a1 \<ge> target \<and> l1 \<ge> target, errors_Join errs3)) T3 V3"
          by (rule over [OF _ _ V3(2)])
      qed
    qed
  qed
qed

lemma rollups_turn:
  assumes env: "env_fine env" and db: "rollup_db_ok db view" and now: "now \<in> T"
  shows "safe view env (turn_true target) (runRollupsTurn env db True target now) T V"
  unfolding runRollupsTurn_def not_True_eq_False if_False
proof (rule safe_read [where P = "\<lambda>V' sn. sn = snapshot_in V'", OF snapshot_loaded [OF db] turn_stops])
  fix T1 V1 sn assume T1: "T \<subseteq> T1" and sn: "sn = snapshot_in V1"
  have cursors: "sn_OverviewCursor sn = cursor_in V1 UsageAggregationCheckpointOverview"
    "sn_ActivityCursor sn = cursor_in V1 UsageAggregationCheckpointActivity"
    "sn_LatencyCursor sn = cursor_in V1 UsageAggregationCheckpointLatency" by (simp_all add: sn snapshot_in_def)
  have now1: "now \<in> T1" using now T1 by blast
  have reached: "safe view env (turn_true target) (Finished (False, False, True, None)) T1 V1"
    if "target \<le> sn_OverviewCursor sn \<and> target \<le> sn_ActivityCursor sn \<and> target \<le> sn_LatencyCursor sn"
  proof (rule safe_finished)
    fix V2 assume "meddle V1 V2"
    moreover have "counted_to target V1" using that by (simp add: cursors counted_to_def checkpoint_names_def)
    ultimately show "turn_true target (False, False, True, None) V2"
      using counted_to_grow [OF _ meddle_grow] by (simp add: turn_true_def)
  qed
  have shared: "safe view env (turn_true target) (runSharedRollupsPage env db (sn_OverviewCursor sn) target now) T1 V1"
    if same: "snapshot_Equal sn"
    unfolding runSharedRollupsPage_def
  proof (rule safe_read [OF page_loaded [OF db] turn_stops])
    fix T2 V2 events
    assume T2: "T1 \<subseteq> T2" and V2: "meddle V1 V2" and inv: "rollups_inv env T2 V2"
      and page: "page_of V2 (sn_OverviewCursor sn) target (nat (min usageAggregationEventPageSize usageAggregationEventPageLimit)) events"
    have V: "events_in_order V2" using inv by (simp add: rollups_inv_def)
    have now2: "now \<in> T2" using now1 T2 by blast
    have "cursor_in V1 name = sn_OverviewCursor sn" if "name \<in> set checkpoint_names" for name
      using same that by (auto simp: snapshot_Equal_def cursors checkpoint_names_def)
    then have cs: "\<forall>name \<in> set checkpoint_names. sn_OverviewCursor sn \<le> cursor_in V2 name"
      using meddle_grow [OF V2] by (simp add: cursors_grow_def)
    show "safe view env (turn_true target) (if events = [] then Finished (False, False, False, Some (''shared usage aggregation page is empty before target '' @
           int_text target @ '' from cursor '' @ int_text (sn_OverviewCursor sn)))
        else apply_shared_page env db (sn_OverviewCursor sn) target now events) T2 V2"
      using turn_stops shared_turn [OF env db V now2 cs page] by (cases "events = []") simp_all
  qed
  show "safe view env (turn_true target) (if target \<le> sn_OverviewCursor sn \<and> target \<le> sn_ActivityCursor sn \<and> target \<le> sn_LatencyCursor sn
      then Finished (False, False, True, None)
      else if snapshot_Equal sn then runSharedRollupsPage env db (sn_OverviewCursor sn) target now
      else runFallbackRollupsPages env db sn target now) T1 V1"
    using reached shared fallback_turn [OF env db now1, of target V1] sn by simp
qed

section \<open>A turn\<close>

text \<open>The statements on credentials leave the events, the checkpoints and the rollups alone.\<close>

definition identity_apart :: "'s identity_db \<Rightarrow> ('s \<Rightarrow> rollup_view) \<Rightarrow> bool" where
  "identity_apart idb view \<longleftrightarrow> transactions_ok (id_inbox idb) view \<and>
     (\<forall>i f s res t. id_update idb i f s = (res, t) \<longrightarrow> view t = view s)"

lemma frame_then_gives:
  assumes "succeeds_with view c V (\<lambda>_ V'. V' = V)"
  shows "succeeds_with view (and_then c (\<lambda>x. gives (f x))) V (\<lambda>_ V'. V' = V)"
  by (rule succeeds_and_then [OF assms]) (simp add: succeeds_gives)

lemma delta_apart: "succeeds_with view (aggregateUsageIdentityDelta idb r) V (\<lambda>_ V'. V' = V)"
  unfolding aggregateUsageIdentityDelta_def
  by (cases "usageIdentityEventsQuery r")
    (auto simp: Let_def intro!: succeeds_gives succeeds_and_then [OF read_only] split: if_splits)

lemma row_apart:
  assumes "identity_apart idb view"
  shows "succeeds_with view (aggregate_identity_row idb now r) V (\<lambda>_ V'. V' = V)"
  unfolding aggregate_identity_row_def
proof (rule succeeds_and_then [OF delta_apart])
  fix delta V1 assume V1: "V1 = V"
  have "succeeds_with view (State (id_update idb i f)) V (\<lambda>_ V'. V' = V)" for i f
    using assms by (auto simp: succeeds_with_def identity_apart_def)
  note update = frame_then_gives [OF succeeds_wrapped [OF this]]
  show "succeeds_with view (if sd_TotalRequests delta = 0 then gives 0
      else and_then (wrapped (''update usage identity stats for '' @ quoted (it_Identity r))
        (State (id_update idb (it_ID r) (identity_updates r delta now)))) (\<lambda>_. gives 1)) V1 (\<lambda>_ V'. V' = V)"
  proof (cases "sd_TotalRequests delta = 0")
    case True
    then show ?thesis by (simp add: V1 succeeds_gives)
  next
    case False
    show ?thesis unfolding V1 if_not_P [OF False] by (rule update)
  qed
qed

lemma rows_apart:
  assumes "identity_apart idb view"
  shows "succeeds_with view (aggregateUsageIdentityRows idb now rows) V (\<lambda>_ V'. V' = V)"
proof (induction rows arbitrary: V)
  case Nil
  show ?case by (simp add: succeeds_gives)
next
  case (Cons r rows)
  show ?case unfolding aggregateUsageIdentityRows.simps
    by (rule succeeds_and_then [OF row_apart [OF assms]]) (simp add: frame_then_gives [OF Cons.IH])
qed

lemma batch_apart:
  assumes "identity_apart idb view"
  shows "attempts view (AggregateUsageIdentityStatsBatch (Some idb) now a) V (\<lambda>_ V'. V' = V)"
proof -
  have t: "transactions_ok (id_inbox idb) view" using assms by (simp add: identity_apart_def)
  show ?thesis
    unfolding AggregateUsageIdentityStatsBatch_def option.case
  proof (rule attempts_if [OF attempts_fails attempts_transaction [OF t succeeds_and_then [OF read_only]]])
    fix page V1 assume "V1 = V"
    with frame_then_gives [OF rows_apart [OF assms]]
    show "succeeds_with view (if page = [] then gives \<lparr>ub_ProcessedIdentities = 0, ub_LastIdentityID = a, ub_ReachedEnd = True\<rparr>
        else and_then (aggregateUsageIdentityRows idb now page) (\<lambda>processed.
          gives \<lparr>ub_ProcessedIdentities = processed, ub_LastIdentityID = it_ID (last page),
            ub_ReachedEnd = length page < UsageIdentityAggregationBatchSize\<rparr>)) V1 (\<lambda>_ V'. V' = V)"
      by (cases "page = []") (simp_all only: if_True if_False succeeds_gives simp_thms)
  qed
qed

definition out_reached :: "prepared_turn \<Rightarrow> turn_outcome \<Rightarrow> bool" where
  "out_reached p out \<longleftrightarrow> pt_activeRound p \<and> (case out of Rollups_ran _ _ reached \<Rightarrow> reached | _ \<Rightarrow> False)"

definition work_true :: "prepared_turn \<Rightarrow> turn_outcome \<Rightarrow> rollup_view \<Rightarrow> bool" where
  "work_true p out V \<longleftrightarrow> (out_reached p out \<longrightarrow> counted_to (pt_targetEventID p) V)"

lemma turn_work_safe:
  assumes env: "env_fine env" and db: "rollup_db_ok db view" and idb: "identity_apart idb view"
  shows "safe view env (work_true p) (turn_work env db idb p) T V"
proof -
  have stay: "safe view env (work_true p) (Finished out) T' V'" if "\<not> out_reached p out" for out T' V'
    using that by (simp add: work_true_def)
  have rollups: "safe view env (work_true p) (bindP (runRollupsTurn env db (pt_activeRound p) (pt_targetEventID p) now)
      (\<lambda>(processed, deferred, reachedTarget, runErr). Finished (case runErr of
          Some err \<Rightarrow> Failed err processed deferred | None \<Rightarrow> Rollups_ran processed deferred reachedTarget))) T' V'"
    if now: "now \<in> T'" for now T' V'
  proof (cases "pt_activeRound p")
    case True
    then have active: "pt_activeRound p = True" by simp
    show ?thesis unfolding active
    proof (rule safe_bind [OF rollups_turn [OF env db now]], clarify, rule safe_finished)
      fix T2 V2 V3 and processed deferred reached :: bool and err :: "string option"
      assume "turn_true (pt_targetEventID p) (processed, deferred, reached, err) V2" "meddle V2 V3"
      then show "work_true p (case err of Some e \<Rightarrow> Failed e processed deferred | None \<Rightarrow> Rollups_ran processed deferred reached) V3"
        using counted_to_grow [OF _ meddle_grow] by (auto simp: turn_true_def work_true_def out_reached_def split: option.splits)
    qed
  next
    case False
    then show ?thesis by (simp add: runRollupsTurn_def work_true_def out_reached_def)
  qed
  have identities: "safe view env (work_true p) (bindP (atomically (AggregateUsageIdentityStatsBatch (Some idb) now (pt_identityAfterID p)))
      (\<lambda>batch. case batch of Inl err \<Rightarrow> Finished (Failed err False False) | Inr b \<Rightarrow> Finished (Identities_ran b))) T' V'" for now T' V'
  proof (rule safe_read [where P = "\<lambda>_ _. True"])
    show "attempts view (AggregateUsageIdentityStatsBatch (Some idb) now (pt_identityAfterID p)) V2 (\<lambda>x V''. V'' = V2 \<and> True)" for V2
      using batch_apart [OF idb] by simp
  qed (rule stay, simp add: out_reached_def)+
  show ?thesis
    unfolding turn_work_def
  proof (cases "pt_runnable p"; simp only: if_True if_False not_True_eq_False not_False_eq_True)
    show "safe view env (work_true p) (Finished Nothing_to_run) T V" by (rule stay) (simp add: out_reached_def)
    show "safe view env (work_true p) (bindP (atomically (deferForInbox db)) (\<lambda>hasInbox. case hasInbox of
          Inl err \<Rightarrow> Finished (Failed err False False)
        | Inr waiting \<Rightarrow> if waiting then Finished Deferred_for_inbox
            else bindP clock (\<lambda>now.
              if pt_kind p = UsageAggregationKindRollups then
                bindP (runRollupsTurn env db (pt_activeRound p) (pt_targetEventID p) now)
                  (\<lambda>(processed, deferred, reachedTarget, runErr). Finished (case runErr of
                     Some err \<Rightarrow> Failed err processed deferred | None \<Rightarrow> Rollups_ran processed deferred reachedTarget))
              else if pt_kind p = UsageAggregationKindIdentity then
                (if \<not> pt_identityPending p then Finished No_identity_work
                 else bindP (atomically (AggregateUsageIdentityStatsBatch (Some idb) now (pt_identityAfterID p))) (\<lambda>batch. case batch of
                     Inl err \<Rightarrow> Finished (Failed err False False) | Inr b \<Rightarrow> Finished (Identities_ran b)))
              else Finished (Failed (''unknown usage aggregation kind '' @ quoted (pt_kind p)) False False)))) T V"
    proof (rule safe_defer)
      show "safe view env (work_true p) (Finished (Failed err False False)) T V" for err by (rule stay) (simp add: out_reached_def)
      have kinds: "safe view env (work_true p) (if pt_kind p = UsageAggregationKindRollups then
                bindP (runRollupsTurn env db (pt_activeRound p) (pt_targetEventID p) now)
                  (\<lambda>(processed, deferred, reachedTarget, runErr). Finished (case runErr of
                     Some err \<Rightarrow> Failed err processed deferred | None \<Rightarrow> Rollups_ran processed deferred reachedTarget))
              else if pt_kind p = UsageAggregationKindIdentity then
                (if \<not> pt_identityPending p then Finished No_identity_work
                 else bindP (atomically (AggregateUsageIdentityStatsBatch (Some idb) now (pt_identityAfterID p))) (\<lambda>batch. case batch of
                     Inl err \<Rightarrow> Finished (Failed err False False) | Inr b \<Rightarrow> Finished (Identities_ran b)))
              else Finished (Failed (''unknown usage aggregation kind '' @ quoted (pt_kind p)) False False)) T' V'"
        if "now \<in> T'" for now T' V'
        using rollups [OF that] identities stay by (simp add: out_reached_def)
      show "safe view env (work_true p) (if waiting then Finished Deferred_for_inbox
            else bindP clock (\<lambda>now.
              if pt_kind p = UsageAggregationKindRollups then
                bindP (runRollupsTurn env db (pt_activeRound p) (pt_targetEventID p) now)
                  (\<lambda>(processed, deferred, reachedTarget, runErr). Finished (case runErr of
                     Some err \<Rightarrow> Failed err processed deferred | None \<Rightarrow> Rollups_ran processed deferred reachedTarget))
              else if pt_kind p = UsageAggregationKindIdentity then
                (if \<not> pt_identityPending p then Finished No_identity_work
                 else bindP (atomically (AggregateUsageIdentityStatsBatch (Some idb) now (pt_identityAfterID p))) (\<lambda>batch. case batch of
                     Inl err \<Rightarrow> Finished (Failed err False False) | Inr b \<Rightarrow> Finished (Identities_ran b)))
              else Finished (Failed (''unknown usage aggregation kind '' @ quoted (pt_kind p)) False False))) T V" for waiting
      proof (cases waiting)
        case True
        then show ?thesis using stay by (simp add: out_reached_def)
      next
        case False
        then show ?thesis using kinds by (simp add: clock_def cursors_grow_refl)
      qed
    qed
  qed
qed

end
