(* ===== verification/AggregationHistory.thy ===== *)
theory AggregationHistory
  imports AggregationSafety
begin

text \<open>
  The runner among the other tasks: notifications, other writers and its own steps in any order, the others also between
  two accesses of the database within a turn.
\<close>

section \<open>Other writers\<close>

lemma one_cursor_meddles: "one_cursor_moves name V V' \<Longrightarrow> meddle V V'"
  unfolding one_cursor_moves_def meddle_def cursors_grow_def beyond_def by (metis append_Nil2 order_refl)

text \<open>The clean-ups of old rows touch neither cursors nor events.\<close>

definition beside :: "rollup_view \<Rightarrow> (UsageAggregationCheckpointName \<Rightarrow> int) \<times> UsageEvent list" where
  "beside V = (cursor_in V, rv_events V)"

lemma cleanup_beside:
  assumes db: "rollup_db_ok db view"
  shows "holds (\<lambda>s. beside (view s) = c) (CleanupUsageActivityStats (Some db) now) (\<lambda>_ s. beside (view s) = c)"
    and "holds (\<lambda>s. beside (view s) = c) (CleanupUsageLatencyStats env (Some db) now) (\<lambda>_ s. beside (view s) = c)"
proof -
  have tb: "table_ok as_given (ru_activity db) view rv_activity (\<lambda>rs v. v\<lparr>rv_activity := rs\<rparr>)"
    "table_ok with_new_id (ru_latency db) view rv_latency (\<lambda>rs v. v\<lparr>rv_latency := rs\<rparr>)"
    using db by (simp_all add: rollup_db_ok_def)
  have gone: "holds (\<lambda>s. beside (view s) = c) (wrapped what (State (tb_delete (ru_activity db) P))) (\<lambda>_ s. beside (view s) = c)"
    "holds (\<lambda>s. beside (view s) = c) (wrapped what (State (tb_delete (ru_latency db) P'))) (\<lambda>_ s. beside (view s) = c)" for what P P'
    by (rule delete_keeps [OF tb(1) lens_view(3)], simp add: beside_def cursor_in_def fun_eq_iff)
      (rule delete_keeps [OF tb(2) lens_view(4)], simp add: beside_def cursor_in_def fun_eq_iff)
  show "holds (\<lambda>s. beside (view s) = c) (CleanupUsageActivityStats (Some db) now) (\<lambda>_ s. beside (view s) = c)"
    unfolding CleanupUsageActivityStats_def option.case
    by (rule for_each_keeps) (auto simp: cleanup_grain_def gives_def keep_return gone split: option.splits)
  show "holds (\<lambda>s. beside (view s) = c) (CleanupUsageLatencyStats env (Some db) now) (\<lambda>_ s. beside (view s) = c)"
    unfolding CleanupUsageLatencyStats_def option.case
    by (rule for_each_keeps)
      (auto simp: cleanup_bucket_type_def or_fail_def fails_def gives_def and_then_def keep_return gone split: sum.splits)
qed

lemma beside_meddles: "beside V' = beside V \<Longrightarrow> meddle V V'"
  by (simp add: beside_def meddle_def cursors_grow_def beyond_def)

lemma grown_meddles: "grown es V V' \<Longrightarrow> meddle V V'"
  by (auto simp: grown_def meddle_def cursors_grow_def beyond_def cursor_in_def)

text \<open>Archiving takes away only events that no cursor has before it.\<close>

lemma archive_meddles:
  assumes a: "only_archives P V V'" and V: "events_in_order V" and V': "events_in_order V'"
  shows "meddle V V'"
proof -
  have cursors: "cursor_in V' = cursor_in V" using a by (simp add: only_archives_def)
  have "beyond (cursor_in V name) V' = beyond (cursor_in V name) V" if name: "name \<in> set checkpoint_names" for name
  proof -
    let ?P = "\<lambda>e. cursor_in V name < ev_ID e"
    have none: "filter ?P (rv_archive V) = []" "filter ?P (rv_archive V') = []"
      using V V' name by (simp_all add: filter_empty_conv events_in_order_def cursors not_less)
    have "mset (filter ?P (all_events V')) = mset (filter ?P (all_events V))"
      using a by (simp add: only_archives_def mset_filter)
    then have same: "mset (beyond (cursor_in V name) V') = mset (beyond (cursor_in V name) V)"
      by (simp add: all_events_def none beyond_def)
    have sorted: "sorted_wrt (<) (map ev_ID (beyond (cursor_in V name) V))" "sorted_wrt (<) (map ev_ID (beyond (cursor_in V name) V'))"
      using V V' by (simp_all add: beyond_def events_in_order_def sorted_wrt_map sorted_wrt_filter)
    then have inj: "inj_on ev_ID (set (beyond (cursor_in V name) V))"
      and up: "sorted (map ev_ID (beyond (cursor_in V name) V))" "sorted (map ev_ID (beyond (cursor_in V name) V'))"
      by (simp_all add: strict_sorted_iff distinct_map)
    show ?thesis
      using sort_key_inj_key_eq [OF same [symmetric] inj up(2)] sort_key_inj_key_eq [OF refl inj up(1)] by simp
  qed
  then show ?thesis by (simp add: meddle_def cursors_grow_def cursors)
qed

lemma step_meddles:
  assumes env: "env_fine env" and db: "rollup_db_ok db view" and inv: "rollups_inv env T (view s)"
    and readings: "\<forall>now \<in> step_readings st. dated now"
  shows "meddle (view s) (view (take_step env ctx db st s))"
proof (cases st)
  case (Insert es)
  obtain res t where r: "run_state (InsertUsageEvents (Some (ru_inbox db)) es) s = (res, t)" by fastforce
  show ?thesis
    using attemptsD [OF InsertUsageEvents_grows [OF db] refl r] r by (cases res) (auto simp: Insert meddle_refl grown_meddles)
next
  case (AggregateOverview fuel now)
  obtain res t where r: "run_state (AggregateUsageOverviewStats fuel env (Some db) now) s = (res, t)" by fastforce
  show ?thesis using overview_ends [OF env db inv r] r by (auto simp: AggregateOverview intro: one_cursor_meddles)
next
  case (AggregateActivity fuel now)
  obtain res t where r: "run_state (AggregateUsageActivityStats fuel env (Some db) now) s = (res, t)" by fastforce
  show ?thesis using activity_ends [OF env db inv r] r by (auto simp: AggregateActivity intro: one_cursor_meddles)
next
  case (AggregateLatency fuel now)
  obtain res t where r: "run_state (AggregateUsageLatencyStats fuel env (Some db) now) s = (res, t)" by fastforce
  show ?thesis using latency_ends [OF env db inv r] r by (auto simp: AggregateLatency intro: one_cursor_meddles)
next
  case (DropActivity now)
  obtain res t where r: "run_state (CleanupUsageActivityStats (Some db) now) s = (res, t)" by fastforce
  show ?thesis using holdsD [OF cleanup_beside(1) [OF db] refl r] r by (simp add: DropActivity beside_meddles)
next
  case (DropLatency now)
  obtain res t where r: "run_state (CleanupUsageLatencyStats env (Some db) now) s = (res, t)" by fastforce
  show ?thesis using holdsD [OF cleanup_beside(2) [OF db] refl r] r by (simp add: DropLatency beside_meddles)
next
  case (Archive fuel now)
  obtain res t where r: "run_state (ArchiveExpiredUsageEvents fuel ctx (re_zone env) (Some db) now) s = (res, t)" by fastforce
  then have "only_archives (expired_at (re_zone env) now) (view s) (view t)" "rollups_inv env T (view t)"
    using archive_rounds_end [OF db inv] by (simp_all add: ArchiveExpiredUsageEvents_def)
  then have "meddle (view s) (view t)" using inv by (intro archive_meddles) (simp_all add: rollups_inv_def)
  then show ?thesis using r by (simp add: Archive)
qed

section \<open>What can happen\<close>

text \<open>
  \<open>reaches \<dots> t N S T\<close>: the task may come to be \<open>t\<close> when it has been notified of the ids \<open>N\<close>, \<open>S\<close> are the ids of the events
  that the database held when the startup query was answered, and the clock has shown \<open>T\<close>.
\<close>

definition stored_at_start :: "('s \<Rightarrow> rollup_view) \<Rightarrow> 's aggregation_task \<Rightarrow> 's aggregation_task \<Rightarrow> int set" where
  "stored_at_start view t t' =
     (case (at_phase t, at_phase t') of (Starting _, Startup_loaded _) \<Rightarrow> ev_ID ` set (rv_events (view (at_db t))) | _ \<Rightarrow> {})"

inductive reaches ::
  "rollup_env \<Rightarrow> ('s \<Rightarrow> string option) \<Rightarrow> 's rollup_db \<Rightarrow> 's identity_db \<Rightarrow> ('s \<Rightarrow> rollup_view) \<Rightarrow> 's aggregation_task \<Rightarrow>
     's aggregation_task \<Rightarrow> int set \<Rightarrow> int set \<Rightarrow> gtime set \<Rightarrow> bool"
  for env :: rollup_env and ctx :: "'s \<Rightarrow> string option" and db :: "'s rollup_db" and idb :: "'s identity_db"
    and view :: "'s \<Rightarrow> rollup_view" and t0 :: "'s aggregation_task"
where
  begin_here: "reaches env ctx db idb view t0 t0 {} {} {}"
| runs: "reaches env ctx db idb view t0 t N S T \<Longrightarrow> run_step env db idb now t t' \<Longrightarrow>
    reaches env ctx db idb view t0 t' N (S \<union> stored_at_start view t t') (insert now T)"
| events_committed: "reaches env ctx db idb view t0 t N S T \<Longrightarrow>
    reaches env ctx db idb view t0 (t\<lparr>at_runner := NotifyUsageEventsCommitted es (at_runner t)\<rparr>) (N \<union> {i \<in> ev_ID ` set es. 0 < i}) S T"
| identities_changed: "reaches env ctx db idb view t0 t N S T \<Longrightarrow>
    reaches env ctx db idb view t0 (t\<lparr>at_runner := NotifyUsageIdentitiesChanged (at_runner t)\<rparr>) N S T"
| others_write: "reaches env ctx db idb view t0 t N S T \<Longrightarrow> \<forall>now \<in> step_readings st. dated now \<Longrightarrow>
    reaches env ctx db idb view t0 (t\<lparr>at_db := take_step env ctx db st (at_db t)\<rparr>) N S (step_readings st \<union> T)"

section \<open>The invariant\<close>

definition known :: "aggregation_runner \<Rightarrow> rollup_view \<Rightarrow> int \<Rightarrow> bool" where
  "known r V n \<longleftrightarrow> n \<le> ag_pendingTargetEventID r \<or> ag_activeRound r \<and> n \<le> ag_activeTargetEventID r \<or> counted_to n V"

definition starting :: "'s run_phase \<Rightarrow> bool" where
  "starting ph \<longleftrightarrow> (case ph of Starting _ \<Rightarrow> True | Startup_loaded _ \<Rightarrow> True | Startup_pausing _ _ \<Rightarrow> True | Stopped \<Rightarrow> True | _ \<Rightarrow> False)"

definition reached_ok :: "aggregation_runner \<Rightarrow> rollup_view \<Rightarrow> bool" where
  "reached_ok r V \<longleftrightarrow> (ag_activeRound r \<and> ag_rollupsReachedTarget r \<longrightarrow> counted_to (ag_activeTargetEventID r) V)"

text \<open>What is left of a turn is safe; an answer of the startup query covers what was stored.\<close>

definition phase_ok ::
  "rollup_env \<Rightarrow> ('s \<Rightarrow> rollup_view) \<Rightarrow> int set \<Rightarrow> gtime set \<Rightarrow> aggregation_runner \<Rightarrow> rollup_view \<Rightarrow> 's run_phase \<Rightarrow> bool" where
  "phase_ok env view S T r V ph \<longleftrightarrow>
     (\<not> ag_startupTargetLoaded r \<longrightarrow> \<not> ag_activeRound r \<and> starting ph) \<and>
     (case ph of
        Starting _ \<Rightarrow> ag_startupTargetLoaded r \<or> S = {}
      | Startup_pausing _ _ \<Rightarrow> ag_startupTargetLoaded r \<or> S = {}
      | Startup_loaded target \<Rightarrow> \<not> ag_startupTargetLoaded r \<and> (\<forall>n \<in> S. n \<le> target)
      | In_turn p rest \<Rightarrow> safe view env (work_true p) rest T V
      | _ \<Rightarrow> True)"

definition task_inv :: "rollup_env \<Rightarrow> ('s \<Rightarrow> rollup_view) \<Rightarrow> 's aggregation_task \<Rightarrow> int set \<Rightarrow> int set \<Rightarrow> gtime set \<Rightarrow> bool" where
  "task_inv env view t N S T \<longleftrightarrow> rollups_inv env T (view (at_db t)) \<and> reached_ok (at_runner t) (view (at_db t)) \<and>
     phase_ok env view S T (at_runner t) (view (at_db t)) (at_phase t) \<and> (\<forall>n \<in> N. known (at_runner t) (view (at_db t)) n) \<and>
     (ag_startupTargetLoaded (at_runner t) \<longrightarrow> (\<forall>n \<in> S. known (at_runner t) (view (at_db t)) n))"

lemma counted_to_less: "counted_to n V \<Longrightarrow> m \<le> n \<Longrightarrow> counted_to m V"
  by (force simp: counted_to_def)

text \<open>The critical sections.\<close>

lemma freeze_ok:
  "known r V n \<Longrightarrow> known (freezePendingTarget r) V n"
  "reached_ok r V \<Longrightarrow> reached_ok (freezePendingTarget r) V"
  "ag_startupTargetLoaded (freezePendingTarget r) = ag_startupTargetLoaded r"
  by (auto simp: known_def reached_ok_def freezePendingTarget_def)

lemma startup_ok:
  assumes "\<not> ag_activeRound r" and "\<not> ag_startupTargetLoaded r" and "counted_to 0 V"
  shows "known r V n \<Longrightarrow> known (set_startup_target target r) V n"
    and "n \<le> target \<Longrightarrow> known (set_startup_target target r) V n"
    and "reached_ok (set_startup_target target r) V" and "ag_startupTargetLoaded (set_startup_target target r)"
  using assms by (auto simp: known_def reached_ok_def set_startup_target_def Let_def)

lemma complete_ok:
  assumes "reached_ok r V"
  shows "known r V n \<Longrightarrow> known (completeRollupRoundIfReadyLocked r) V n"
    and "reached_ok (completeRollupRoundIfReadyLocked r) V"
    and "ag_startupTargetLoaded (completeRollupRoundIfReadyLocked r) = ag_startupTargetLoaded r"
  using assms by (auto simp: known_def reached_ok_def completeRollupRoundIfReadyLocked_def Let_def intro: counted_to_less)

lemma known_same: "ag_pendingTargetEventID r' = ag_pendingTargetEventID r \<Longrightarrow> ag_activeRound r' = ag_activeRound r \<Longrightarrow>
    ag_activeTargetEventID r' = ag_activeTargetEventID r \<Longrightarrow> known r' V n = known r V n"
  by (simp add: known_def)

lemma reached_same: "ag_activeRound r' = ag_activeRound r \<Longrightarrow> ag_rollupsReachedTarget r' = ag_rollupsReachedTarget r \<Longrightarrow>
    ag_activeTargetEventID r' = ag_activeTargetEventID r \<Longrightarrow> reached_ok r' V = reached_ok r V"
  by (simp add: reached_ok_def)

lemma finish_ok:
  assumes r: "reached_ok r V" and out: "work_true p out V"
  shows "known r V n \<Longrightarrow> known (snd (finish_turn p out r)) V n" and "reached_ok (snd (finish_turn p out r)) V"
    and "ag_startupTargetLoaded (snd (finish_turn p out r)) = ag_startupTargetLoaded r"
proof -
  have "(known r V n \<longrightarrow> known (snd (finish_turn p out r)) V n) \<and> reached_ok (snd (finish_turn p out r)) V \<and>
    ag_startupTargetLoaded (snd (finish_turn p out r)) = ag_startupTargetLoaded r"
  proof (cases out)
    case (Rollups_ran processed deferred reachedTarget)
    let ?r = "if pt_activeRound p \<and> ag_activeRound r \<and> ag_activeTargetEventID r = pt_targetEventID p \<and> reachedTarget
      then r\<lparr>ag_nextKind := UsageAggregationKindIdentity, ag_rollupsReachedTarget := True\<rparr> else r\<lparr>ag_nextKind := UsageAggregationKindIdentity\<rparr>"
    have finish: "snd (finish_turn p out r) = completeRollupRoundIfReadyLocked ?r" by (simp add: finish_turn_def Rollups_ran Let_def)
    have k: "known ?r V n = known r V n" by (simp add: known_def)
    have ok: "reached_ok ?r V" using r out by (auto simp: reached_ok_def work_true_def out_reached_def Rollups_ran)
    show ?thesis unfolding finish using complete_ok [OF ok] k by simp
  qed (use r in \<open>auto simp: finish_turn_def known_def reached_ok_def Let_def\<close>)
  then show "known r V n \<Longrightarrow> known (snd (finish_turn p out r)) V n" "reached_ok (snd (finish_turn p out r)) V"
    "ag_startupTargetLoaded (snd (finish_turn p out r)) = ag_startupTargetLoaded r" by simp_all
qed

lemma after_turn_fields:
  "at_db (after_turn p out t) = at_db t" "at_phase (after_turn p out t) = Loop_top \<or> (\<exists>d. at_phase (after_turn p out t) = Pausing d)"
  "\<exists>k. at_runner (after_turn p out t) = (snd (finish_turn p out (at_runner t)))\<lparr>ag_nextKind := k\<rparr>"
proof -
  obtain result err r where f: "finish_turn p out (at_runner t) = ((result, err), r)" by (metis prod.exhaust)
  have same: "r = r\<lparr>ag_nextKind := ag_nextKind r\<rparr>" by simp
  show "at_db (after_turn p out t) = at_db t" "at_phase (after_turn p out t) = Loop_top \<or> (\<exists>d. at_phase (after_turn p out t) = Pausing d)"
    by (cases err; simp add: after_turn_def f Let_def)+
  show "\<exists>k. at_runner (after_turn p out t) = (snd (finish_turn p out (at_runner t)))\<lparr>ag_nextKind := k\<rparr>"
    using same by (cases err) (auto simp: after_turn_def f Let_def advanceAfterFailure_def simp del: aggregation_runner.surjective intro: exI [of _ "ag_nextKind r"])
qed

lemma notify_fields:
  "ag_activeRound (NotifyUsageEventsCommitted es r) = ag_activeRound r"
  "ag_activeTargetEventID (NotifyUsageEventsCommitted es r) = ag_activeTargetEventID r"
  "ag_rollupsReachedTarget (NotifyUsageEventsCommitted es r) = ag_rollupsReachedTarget r"
  "ag_startupTargetLoaded (NotifyUsageEventsCommitted es r) = ag_startupTargetLoaded r"
  "ag_pendingTargetEventID r \<le> ag_pendingTargetEventID (NotifyUsageEventsCommitted es r)"
  by (simp_all add: NotifyUsageEventsCommitted_def signalWake_def Let_def)

lemma phase_same: "ag_startupTargetLoaded r' = ag_startupTargetLoaded r \<Longrightarrow> ag_activeRound r' = ag_activeRound r \<Longrightarrow>
    phase_ok env view S T r' V ph = phase_ok env view S T r V ph"
  by (cases ph) (simp_all add: phase_ok_def)

lemma notified_ok:
  "known r V n \<Longrightarrow> known (NotifyUsageEventsCommitted es r) V n"
  "reached_ok (NotifyUsageEventsCommitted es r) V = reached_ok r V"
  "phase_ok env view S T (NotifyUsageEventsCommitted es r) V ph = phase_ok env view S T r V ph"
proof -
  show "known r V n \<Longrightarrow> known (NotifyUsageEventsCommitted es r) V n"
    unfolding known_def notify_fields(1, 2) using notify_fields(5) [of r es] by linarith
  show "reached_ok (NotifyUsageEventsCommitted es r) V = reached_ok r V" by (simp only: reached_ok_def notify_fields)
  show "phase_ok env view S T (NotifyUsageEventsCommitted es r) V ph = phase_ok env view S T r V ph"
    by (rule phase_same [OF notify_fields(4, 1)])
qed

lemma fold_ids_max: "m \<le> fold (\<lambda>e m. if ev_ID e > m then ev_ID e else m) es m \<and>
    (\<forall>e \<in> set es. ev_ID e \<le> fold (\<lambda>e m. if ev_ID e > m then ev_ID e else m) es m)"
proof (induction es arbitrary: m)
  case (Cons e es)
  let ?m = "if ev_ID e > m then ev_ID e else m"
  have "?m \<le> fold (\<lambda>e m. if ev_ID e > m then ev_ID e else m) es ?m" using Cons.IH [of ?m] by (rule conjunct1)
  then show ?case using Cons.IH [of ?m] by (auto split: if_splits)
qed simp

lemma notified_known:
  assumes "e \<in> set es" and "0 < ev_ID e"
  shows "known (NotifyUsageEventsCommitted es r) V (ev_ID e)"
proof -
  have "ev_ID e \<le> fold (\<lambda>e m. if ev_ID e > m then ev_ID e else m) es 0" using fold_ids_max [of 0 es] assms(1) by blast
  then show ?thesis using assms(2) by (auto simp: known_def NotifyUsageEventsCommitted_def signalWake_def Let_def)
qed

section \<open>It is kept\<close>

lemma known_grow: "known r V n \<Longrightarrow> cursors_grow V V' \<Longrightarrow> known r V' n"
  by (auto simp: known_def intro: counted_to_grow)

lemma reached_grow: "reached_ok r V \<Longrightarrow> cursors_grow V V' \<Longrightarrow> reached_ok r V'"
  by (auto simp: reached_ok_def intro: counted_to_grow)

lemma phase_meddle: "phase_ok env view S T r V ph \<Longrightarrow> meddle V V' \<Longrightarrow> T \<subseteq> T' \<Longrightarrow> phase_ok env view S T' r V' ph"
  by (auto simp: phase_ok_def split: run_phase.splits intro: safe_meddle)

text \<open>Others write.\<close>

lemma inv_others:
  assumes "task_inv env view t N S T" and "rollups_inv env T' (view s)" and "meddle (view (at_db t)) (view s)" and "T \<subseteq> T'"
  shows "task_inv env view (t\<lparr>at_db := s\<rparr>) N S T'"
  using assms known_grow reached_grow phase_meddle meddle_grow unfolding task_inv_def by fastforce

text \<open>A step of the runner that leaves the database alone.\<close>

lemma inv_runner_changes:
  assumes t: "task_inv env view t N S T" and db: "at_db t' = at_db t"
    and r: "\<And>n. known (at_runner t) (view (at_db t)) n \<Longrightarrow> known (at_runner t') (view (at_db t)) n"
      "reached_ok (at_runner t') (view (at_db t))" "phase_ok env view S T (at_runner t') (view (at_db t)) (at_phase t')"
    and l: "ag_startupTargetLoaded (at_runner t') = ag_startupTargetLoaded (at_runner t)"
  shows "task_inv env view t' N S T"
  using assms by (simp add: task_inv_def)

lemma cursors_from_0: "rollups_inv env T V \<Longrightarrow> counted_to 0 V"
  by (simp add: rollups_inv_def events_in_order_def counted_to_def)

lemma freeze_phase: "phase_ok env view S T r V ph \<Longrightarrow> \<not> starting ph \<Longrightarrow> phase_ok env view S T (freezePendingTarget r) V Loop_top"
  by (simp add: phase_ok_def freeze_ok)

lemma run_step_keeps:
  assumes env: "env_fine env" and db: "rollup_db_ok db view" and idb: "identity_apart idb view"
    and step: "run_step env db idb now t t'" and t: "task_inv env view t N S T"
  shows "task_inv env view t' N (S \<union> stored_at_start view t t') (insert now T)"
proof -
  let ?V = "view (at_db t)" and ?T = "insert now T"
  have inv: "rollups_inv env ?T ?V" using t rollups_inv_mono [of env T ?V ?T] by (auto simp: task_inv_def)
  have t1: "task_inv env view t N S ?T"
    using inv_others [OF t, of ?T "at_db t"] inv meddle_refl by (simp add: subset_insertI)
  have r: "reached_ok (at_runner t) ?V" and ph: "phase_ok env view S ?T (at_runner t) ?V (at_phase t)"
    using t1 by (simp_all add: task_inv_def)
  from step show ?thesis
  proof cases
    case (startup_known d)
    then show ?thesis using inv_runner_changes [OF t1, of t'] r by (simp add: phase_ok_def stored_at_start_def)
  next
    case (startup_query d target s)
    have q: "view s = ?V" "target = Max (insert 0 (ev_ID ` set (rv_events ?V)))"
      using attemptsD [OF target_loaded [OF db] refl startup_query(4)] by simp_all
    have S: "S = {}" using ph startup_query(2, 3) by (simp add: phase_ok_def)
    have "\<forall>n \<in> ev_ID ` set (rv_events ?V). n \<le> target" unfolding q(2) by (simp add: max_def)
    then have "phase_ok env view (stored_at_start view t t') ?T (at_runner t) ?V (Startup_loaded target)"
      using ph startup_query by (simp add: phase_ok_def starting_def stored_at_start_def)
    then show ?thesis using t1 startup_query(1-3) q(1) by (simp add: task_inv_def S)
  next
    case (startup_failed d err s)
    have q: "view s = ?V" using attemptsD [OF target_loaded [OF db] refl startup_failed(4)] by simp
    have S: "S = {}" using ph startup_failed(2, 3) by (simp add: phase_ok_def)
    then show ?thesis using t1 startup_failed(1-3) q by (simp add: task_inv_def phase_ok_def starting_def stored_at_start_def)
  next
    case (startup_again d d')
    then show ?thesis using inv_runner_changes [OF t1, of t'] r ph by (simp add: phase_ok_def starting_def stored_at_start_def)
  next
    case (startup_woken d d')
    then show ?thesis using inv_runner_changes [OF t1, of t'] r ph
      by (simp add: phase_ok_def starting_def known_def reached_ok_def stored_at_start_def)
  next
    case (startup_set target)
    have fresh: "\<not> ag_activeRound (at_runner t)" "\<not> ag_startupTargetLoaded (at_runner t)" and S: "\<forall>n \<in> S. n \<le> target"
      using ph startup_set(2) by (simp_all add: phase_ok_def)
    note s = startup_ok [OF fresh cursors_from_0 [OF inv]]
    show ?thesis
      using t1 s S startup_set by (simp add: task_inv_def phase_ok_def stored_at_start_def)
  next
    case looks
    then show ?thesis using inv_runner_changes [OF t1, of t'] r ph by (auto simp: look_def phase_ok_def starting_def stored_at_start_def)
  next
    case (fired runnable)
    then show ?thesis using inv_runner_changes [OF t1, of t'] r ph freeze_ok
      by (simp add: freeze_def phase_ok_def starting_def stored_at_start_def)
  next
    case prepares
    then show ?thesis using inv_runner_changes [OF t1, of t'] r ph turn_work_safe [OF env db idb]
      by (simp add: Let_def phase_ok_def starting_def stored_at_start_def)
  next
    case idles
    then show ?thesis using inv_runner_changes [OF t1, of t'] r ph by (simp add: phase_ok_def starting_def stored_at_start_def)
  next
    case (works p f rest s)
    have "safe view env (work_true p) (Atomic f) ?T ?V" using ph works(2) by (simp add: phase_ok_def)
    from safe_access [OF this subset_refl insertI1 meddle_refl inv works(3)]
    have new: "rollups_inv env ?T (view s)" "cursors_grow ?V (view s)" "safe view env (work_true p) rest ?T (view s)" by simp_all
    then show ?thesis
      using t1 ph works(1, 2) known_grow [OF _ new(2)] reached_grow [OF r new(2)]
      by (auto simp: task_inv_def phase_ok_def starting_def stored_at_start_def)
  next
    case (over p out)
    have out: "work_true p out ?V" and l: "ag_startupTargetLoaded (at_runner t)"
      using ph over(2) meddle_refl by (auto simp: phase_ok_def starting_def)
    note f = finish_ok [OF r out]
    obtain k where k: "at_runner t' = (snd (finish_turn p out (at_runner t)))\<lparr>ag_nextKind := k\<rparr>"
      using after_turn_fields(3) [of p out t] over(1) by auto
    have "task_inv env view t' N S ?T"
    proof (rule inv_runner_changes [OF t1])
      show "at_db t' = at_db t" by (simp add: over after_turn_fields)
      show "known (at_runner t') ?V n" if "known (at_runner t) ?V n" for n using f(1) [OF that] by (simp add: k known_def)
      show "reached_ok (at_runner t') ?V" using f(2) by (simp add: k reached_ok_def)
      show same: "ag_startupTargetLoaded (at_runner t') = ag_startupTargetLoaded (at_runner t)" using f(3) by (simp add: k)
      show "phase_ok env view S ?T (at_runner t') ?V (at_phase t')"
        using after_turn_fields(2) [of p out t] same l by (auto simp: over(1) phase_ok_def)
    qed
    then show ?thesis by (simp add: over(2) stored_at_start_def)
  next
    case (resume d)
    then show ?thesis using inv_runner_changes [OF t1, of t'] r ph by (simp add: phase_ok_def starting_def stored_at_start_def)
  next
    case (resume_woken d)
    then show ?thesis using inv_runner_changes [OF t1, of t'] r ph
      by (simp add: phase_ok_def starting_def known_def reached_ok_def stored_at_start_def)
  next
    case woken
    then show ?thesis using inv_runner_changes [OF t1, of t'] r ph
      by (simp add: phase_ok_def starting_def known_def reached_ok_def stored_at_start_def)
  next
    case window_over
    then show ?thesis using inv_runner_changes [OF t1, of t'] r ph freeze_ok
      by (simp add: freeze_def phase_ok_def starting_def stored_at_start_def)
  next
    case cancelled
    have "task_inv env view t' N S ?T"
      by (rule inv_runner_changes [OF t1]) (use r ph cancelled in \<open>auto simp: phase_ok_def starting_def\<close>)
    then show ?thesis using cancelled by (simp add: stored_at_start_def split: run_phase.splits)
  qed
qed

definition new_task :: "duration \<Rightarrow> 's \<Rightarrow> 's aggregation_task" where
  "new_task debounceInterval s = \<lparr>at_runner = NewUsageAggregationRunnerWithOptions debounceInterval, at_db = s,
     at_phase = Starting usageAggregationErrorBackoffInitial, at_timer = False, at_backoffs = []\<rparr>"

lemma new_task_inv: "rollups_inv env T (view s) \<Longrightarrow> task_inv env view (new_task d s) {} {} T"
  by (simp add: task_inv_def new_task_def NewUsageAggregationRunnerWithOptions_def reached_ok_def phase_ok_def starting_def)

lemma reaches_inv:
  assumes env: "env_fine env" and db: "rollup_db_ok db view" and idb: "identity_apart idb view" and start: "task_inv env view t0 {} {} {}"
  shows "reaches env ctx db idb view t0 t N S T \<Longrightarrow> task_inv env view t N S T"
proof (induction rule: reaches.induct)
  case begin_here
  then show ?case by (rule start)
next
  case (runs t N S T now t')
  then show ?case using run_step_keeps [OF env db idb] by blast
next
  case (events_committed t N S T es)
  have inv: "task_inv env view (t\<lparr>at_runner := NotifyUsageEventsCommitted es (at_runner t)\<rparr>) N S T"
    by (rule inv_runner_changes [OF events_committed.IH])
      (use events_committed.IH in \<open>simp_all add: task_inv_def notified_ok notify_fields(4)\<close>)
  have new: "known (NotifyUsageEventsCommitted es (at_runner t)) (view (at_db t)) n" if "n \<in> {i \<in> ev_ID ` set es. 0 < i}" for n
    using notified_known that by blast
  show ?case using inv new unfolding task_inv_def by (simp add: ball_Un)
next
  case (identities_changed t N S T)
  let ?r = "NotifyUsageIdentitiesChanged (at_runner t)"
  have r: "known ?r V n = known (at_runner t) V n" "reached_ok ?r V = reached_ok (at_runner t) V"
    "phase_ok env view S T ?r V ph = phase_ok env view S T (at_runner t) V ph"
    "ag_startupTargetLoaded ?r = ag_startupTargetLoaded (at_runner t)" for V n ph
    by ((rule known_same reached_same phase_same)?; simp add: NotifyUsageIdentitiesChanged_def signalWake_def)+
  show ?case using identities_changed.IH by (simp add: task_inv_def r)
next
  case (others_write t N S T st)
  have inv: "rollups_inv env T (view (at_db t))" using others_write.IH by (simp add: task_inv_def)
  show ?case
    by (rule inv_others [OF others_write.IH step_keeps [OF env db inv others_write.hyps(2)]
          step_meddles [OF env db inv others_write.hyps(2)] Un_upper2])
qed

text \<open>
  C2: Whatever the order of commits, notifications, the runner's own accesses of the database and critical sections, the
  other writers, also in the middle of a turn, and whichever statements fail: an event the runner has been notified of
  waits for the next target, lies below the target it is working on, or has been counted by all three rollups; so does
  every event that was stored when its startup query was answered, once it has taken the answer.  So when it has no target
  left, every one of them has been counted.  And the rollups stay exact.
\<close>

theorem aggregation_loses_nothing:
  assumes "env_fine env" and "rollup_db_ok db view" and "identity_apart idb view" and "rollups_inv env {} (view s)"
    and "reaches env ctx db idb view (new_task d s) t N S T"
  shows "rollups_inv env T (view (at_db t)) \<and>
    (\<forall>n \<in> N \<union> (if ag_startupTargetLoaded (at_runner t) then S else {}). n \<le> ag_pendingTargetEventID (at_runner t) \<or>
       ag_activeRound (at_runner t) \<and> n \<le> ag_activeTargetEventID (at_runner t) \<or> counted_to n (view (at_db t)))"
proof -
  have "task_inv env view t N S T" by (rule reaches_inv [OF assms(1-3) new_task_inv [where view = view and s = s, OF assms(4)] assms(5)])
  then show ?thesis by (auto simp: task_inv_def known_def)
qed

definition memory_credentials :: "rollup_view identity_db" where
  "memory_credentials =
     \<lparr>id_inbox = memory_events_db, id_page = (\<lambda>a n V. Inr []), id_events = (\<lambda>P V. Inr (filter P (rv_events (tidy V)))),
      id_first = (\<lambda>newest P V. Inl ''record not found''), id_update = (\<lambda>i f V. (Inr (), V))\<rparr>"

lemma memory_credentials_apart: "identity_apart memory_credentials tidy"
  by (auto simp: identity_apart_def memory_credentials_def transactions_ok_def memory_events_db_def)

text \<open>Event 1 is stored before the start, event 2 committed while the startup query runs: both are taken on.\<close>

lemma startup_answer: "run_state (LoadUsageAggregationTargetEventID (Some memory_rollup_db)) one_event = (Inr 1, one_event)"
  by (simp add: LoadUsageAggregationTargetEventID_def wrapped_def reads_def memory_rollup_db_def tidy_def named_once_def
      one_event_def append_events_def nothing_yet_def)

lemma both_taken_on:
  "\<exists>t T. reaches plain_rollup_env (\<lambda>_. None) memory_rollup_db memory_credentials tidy (new_task 0 one_event) t {2} {1} T \<and>
     ag_startupTargetLoaded (at_runner t)"
proof -
  let ?reaches = "reaches plain_rollup_env (\<lambda>_. None) memory_rollup_db memory_credentials tidy (new_task 0 one_event)"
  let ?t0 = "new_task 0 one_event"
  let ?t1 = "?t0\<lparr>at_db := one_event, at_phase := Startup_loaded 1\<rparr>"
  let ?t2 = "?t1\<lparr>at_runner := NotifyUsageEventsCommitted [timed_event\<lparr>ev_ID := 2\<rparr>] (at_runner ?t1)\<rparr>"
  let ?t3 = "?t2\<lparr>at_runner := set_startup_target 1 (at_runner ?t2), at_phase := Loop_top\<rparr>"
  have "run_step plain_rollup_env memory_rollup_db memory_credentials 0 ?t0 ?t1"
    by (rule run_step.startup_query [of _ usageAggregationErrorBackoffInitial])
      (simp_all add: new_task_def NewUsageAggregationRunnerWithOptions_def startup_answer)
  then have "?reaches ?t1 {} ({} \<union> stored_at_start tidy ?t0 ?t1) {0}" by (rule reaches.runs [OF reaches.begin_here])
  moreover have "stored_at_start tidy ?t0 ?t1 = {1}"
    by (simp add: stored_at_start_def new_task_def one_event_def append_events_def nothing_yet_def tidy_def named_once_def)
  ultimately have "?reaches ?t1 {} {1} {0}" by simp
  then have "?reaches ?t2 ({} \<union> {i \<in> ev_ID ` set [timed_event\<lparr>ev_ID := 2\<rparr>]. 0 < i}) {1} {0}" by (rule reaches.events_committed)
  moreover have "{} \<union> {i \<in> ev_ID ` set [timed_event\<lparr>ev_ID := 2\<rparr>]. 0 < i} = {2}" by auto
  ultimately have two: "?reaches ?t2 {2} {1} {0}" by simp
  have "run_step plain_rollup_env memory_rollup_db memory_credentials 0 ?t2 ?t3" by (rule run_step.startup_set) simp
  from reaches.runs [OF two this] have "?reaches ?t3 {2} {1} {0}" by (simp add: stored_at_start_def new_task_def)
  moreover have "ag_startupTargetLoaded (at_runner ?t3)"
    by (simp add: set_startup_target_def Let_def)
  ultimately show ?thesis by blast
qed

theorem aggregation_loses_nothing_witness:
  "\<exists>t T. reaches plain_rollup_env (\<lambda>_. None) memory_rollup_db memory_credentials tidy (new_task 0 one_event) t {2} {1} T \<and>
     rollups_inv plain_rollup_env T (tidy (at_db t)) \<and>
     (\<forall>n \<in> {2, 1}. n \<le> ag_pendingTargetEventID (at_runner t) \<or>
        ag_activeRound (at_runner t) \<and> n \<le> ag_activeTargetEventID (at_runner t) \<or> counted_to n (tidy (at_db t)))"
proof -
  obtain t T where t: "reaches plain_rollup_env (\<lambda>_. None) memory_rollup_db memory_credentials tidy (new_task 0 one_event) t {2} {1} T"
    and l: "ag_startupTargetLoaded (at_runner t)"
    using both_taken_on by blast
  show ?thesis
    using aggregation_loses_nothing [OF plain_env_fine memory_rollup_db_ok memory_credentials_apart one_event_inv t] t l by auto
qed

end
