(* ===== verification/IdentityProps.thy ===== *)
theory IdentityProps
  imports IdentitySafety
begin

text \<open>The property of the totals kept with each credential, and a database in memory to which it applies.\<close>

lemma caught_up_counts: "identity_caught_up es r \<Longrightarrow> counted_for r es = filter (belongs r) es"
  unfolding counted_for_def identity_caught_up_def by (intro filter_cong refl) blast

lemma pass_starts:
  assumes "identity_db_ok db view" and "\<forall>r \<in> set (fst (view s)). totals_right (snd (view s)) r"
  shows "pass_at (snd (view s)) (map it_ID (fst (view s))) 0 (view s)"
proof -
  have "\<forall>r \<in> set (fst (view s)). 0 < it_ID r" using assms(1) unfolding identity_db_ok_def by blast
  then show ?thesis using assms(2) by (auto simp: pass_at_def)
qed

lemma identity_rows_sorted:
  assumes "identity_db_ok db view"
  shows "sorted_wrt (<) (map it_ID (fst (view s)))" and "\<forall>i \<in> set (map it_ID (fst (view s))). 0 < i"
  using assms unfolding identity_db_ok_def by (blast, auto)

text \<open>
  C38: A pass over the credentials ends (one round per 25 rows, and one more, suffices).  If every row's totals are exactly
  those of its events up to its cursor, this is so afterwards, whatever statement failed; and if the pass ends without an
  error, the totals of every row, requests, successes, failures and each kind of token, are those of all its events: those
  of its kind of credential with its name.
\<close>

theorem identity_totals_complete:
  assumes "identity_db_ok db view" and "\<forall>e \<in> set (snd (view s)). 0 < ev_ID e" and "identity_load_ok (snd (view s))"
    and "\<forall>r \<in> set (fst (view s)). totals_right (snd (view s)) r" and "length (fst (view s)) div 25 < fuel"
    and "run_state (AggregateUsageIdentityStats fuel (Some db) now) s = (res, t)"
  shows "res \<noteq> None \<and> snd (view t) = snd (view s) \<and> map it_ID (fst (view t)) = map it_ID (fst (view s)) \<and>
    (\<forall>r \<in> set (fst (view t)). totals_right (snd (view t)) r) \<and>
    (res = Some (Inr ()) \<longrightarrow> (\<forall>r \<in> set (fst (view t)). totals_of r (filter (belongs r) (snd (view t)))))"
proof -
  let ?es = "snd (view s)" and ?js = "map it_ID (fst (view s))"
  have "run_state (identity_pages fuel db now 0) s = (res, t)" using assms(6) by (simp add: AggregateUsageIdentityStats_def)
  note ends = pages_end [OF assms(1, 2) identity_rows_sorted [OF assms(1)] pass_starts [OF assms(1, 4)] _ this]
  obtain b where b: "pass_at ?es ?js b (view t)" "res = Some (Inr ()) \<longrightarrow> rows_left b ?js = 0" using ends by blast
  have "rows_left 0 ?js \<le> length (fst (view s))" unfolding rows_left_def by (metis length_filter_le length_map)
  then have "rows_left 0 ?js div 25 < fuel" using assms(5) div_le_mono order.strict_trans1 by blast
  then have "res \<noteq> None" using ends by simp
  moreover have "totals_of r (filter (belongs r) ?es)" if "res = Some (Inr ())" "r \<in> set (fst (view t))" for r
  proof -
    have "it_ID r \<in> set ?js" using b(1) that(2) by (metis pass_at_def image_eqI list.set_map)
    moreover have "\<forall>i \<in> set ?js. i \<le> b" using b(2) that(1) by (simp add: rows_left_def filter_empty_conv not_less)
    ultimately have "it_ID r \<le> b" by blast
    then have "identity_caught_up ?es r" "totals_right ?es r" using b(1) that(2) assms(3) by (simp_all add: pass_at_def)
    then show ?thesis by (simp add: totals_right_def caught_up_counts)
  qed
  ultimately show ?thesis using b(1) assms(3) by (simp add: pass_at_def)
qed

section \<open>A database in memory\<close>

definition tidy_rows :: "identity_view \<Rightarrow> identity_view" where
  "tidy_rows V = (if sorted_wrt (<) (map it_ID (fst V)) \<and> (\<forall>r \<in> set (fst V). 0 < it_ID r) then V else ([], snd V))"

definition plain_transactions :: "'s inbox_db" where
  "plain_transactions =
     \<lparr>sql_list = (\<lambda>cols P lim s. Inr []), sql_first = (\<lambda>i s. Inl ''record not found''), sql_set = (\<lambda>P f s. (Inr (), s)),
      sql_remove = (\<lambda>P s. (Inr 0, s)), sql_insert = (\<lambda>n rs s. (Inl ''no such table'', s)),
      sql_insert_events = (\<lambda>es s. (Inl ''no such table'', s)), sql_identities = (\<lambda>authType idents isDeleted s. Inr []),
      sql_begin = (\<lambda>s. (Inr (), s)), sql_commit = (\<lambda>s t. (Inr (), t)), sql_rollback = (\<lambda>s t. s),
      sql_columns = 11, sql_event_columns = 31\<rparr>"

definition memory_identity_db :: "identity_view identity_db" where
  "memory_identity_db =
     \<lparr>id_inbox = plain_transactions,
      id_page = (\<lambda>a n V. Inr (take n (filter (\<lambda>r. a < it_ID r) (fst (tidy_rows V))))),
      id_events = (\<lambda>P V. Inr (filter P (snd (tidy_rows V)))),
      id_first = (\<lambda>newest P V. case filter P (snd (tidy_rows V)) of [] \<Rightarrow> Inl ''record not found''
        | e # es \<Rightarrow> Inr ((if newest then fold max else fold min) (map ev_Timestamp es) (ev_Timestamp e))),
      id_update = (\<lambda>i f V. (Inr (), (map (\<lambda>r. if it_ID r = i then (f r)\<lparr>it_ID := i\<rparr> else r) (fst (tidy_rows V)), snd (tidy_rows V))))\<rparr>"

lemma tidy_rows_sorted: "sorted_wrt (<) (map it_ID (fst (tidy_rows V)))" "r \<in> set (fst (tidy_rows V)) \<Longrightarrow> 0 < it_ID r"
  by (auto simp: tidy_rows_def split: if_splits)

lemma tidy_rows_id: "sorted_wrt (<) (map it_ID rows) \<Longrightarrow> \<forall>r \<in> set rows. 0 < it_ID r \<Longrightarrow> tidy_rows (rows, es) = (rows, es)"
  by (simp add: tidy_rows_def)

lemma memory_identity_db_ok: "identity_db_ok memory_identity_db tidy_rows"
  unfolding identity_db_ok_def
proof (intro conjI allI impI ballI)
  show "transactions_ok (id_inbox memory_identity_db) tidy_rows"
    by (auto simp: transactions_ok_def memory_identity_db_def plain_transactions_def)
  fix i f s t and res :: "string + unit"
  assume run: "id_update memory_identity_db i f s = (res, t)" and f: "\<forall>r. it_ID (f r) = it_ID r"
  let ?rows = "map (\<lambda>r. if it_ID r = i then f r else r) (fst (tidy_rows s))"
  have t: "res = Inr ()" "t = (?rows, snd (tidy_rows s))"
    using run f by (auto simp: memory_identity_db_def)
  have "map it_ID ?rows = map it_ID (fst (tidy_rows s))" using f by simp
  then have "sorted_wrt (<) (map it_ID ?rows)" by (simp only: tidy_rows_sorted(1))
  moreover have "\<forall>r \<in> set ?rows. 0 < it_ID r" using tidy_rows_sorted(2) [of _ s] f by (auto simp del: split_paired_All)
  ultimately have "tidy_rows t = t" unfolding t by (rule tidy_rows_id)
  then show "case res of Inl _ \<Rightarrow> tidy_rows t = tidy_rows s | Inr _ \<Rightarrow> tidy_rows t = (?rows, snd (tidy_rows s))" by (simp add: t)
qed (use tidy_rows_sorted in \<open>auto simp: memory_identity_db_def\<close>)

definition new_identity :: IdentityTotals where
  "new_identity = \<lparr>it_ID = 1, it_AuthType = UsageIdentityAuthTypeAuthFile, it_Identity = ''a'', it_TotalRequests = 0,
     it_SuccessCount = 0, it_FailureCount = 0, it_InputTokens = 0, it_OutputTokens = 0, it_ReasoningTokens = 0,
     it_CachedTokens = 0, it_CacheReadTokens = 0, it_TotalTokens = 0, it_LastAggregatedUsageEventID = 0,
     it_FirstUsedAt = None, it_LastUsedAt = None, it_StatsUpdatedAt = None\<rparr>"

definition identity_event :: UsageEvent where
  "identity_event = timed_event\<lparr>ev_ID := 7, ev_AuthType := ''oauth'', ev_AuthIndex := ''a''\<rparr>"

theorem identity_totals_complete_witness:
  "\<exists>res t. run_state (AggregateUsageIdentityStats 1 (Some memory_identity_db) 0) ([new_identity], [identity_event]) = (res, t) \<and>
     res \<noteq> None \<and> (res = Some (Inr ()) \<longrightarrow> (\<forall>r \<in> set (fst (tidy_rows t)). totals_of r (filter (belongs r) (snd (tidy_rows t)))))"
proof -
  let ?s = "([new_identity], [identity_event])"
  obtain res t where r: "run_state (AggregateUsageIdentityStats 1 (Some memory_identity_db) 0) ?s = (res, t)" by (metis surj_pair)
  have s: "tidy_rows ?s = ?s" by (simp add: tidy_rows_def new_identity_def)
  have "\<forall>e \<in> set (snd (tidy_rows ?s)). 0 < ev_ID e" unfolding s by (simp add: identity_event_def)
  moreover have "identity_load_ok (snd (tidy_rows ?s))"
    unfolding s by (simp add: identity_load_ok_def identity_columns_def identity_event_def timed_event_def sample_event_def)
  moreover have "\<forall>r \<in> set (fst (tidy_rows ?s)). totals_right (snd (tidy_rows ?s)) r"
    unfolding s by (simp add: totals_right_def totals_of_def identity_columns_def counted_for_def new_identity_def identity_event_def)
  moreover have "length (fst (tidy_rows ?s)) div 25 < 1" by (simp add: s)
  ultimately show ?thesis using identity_totals_complete [OF memory_identity_db_ok _ _ _ _ r] r by blast
qed

end
