(* ===== verification/RecentCache.thy ===== *)
theory RecentCache
  imports StorageTime InboxRows
begin

text \<open>
  \<open>repository/usage_recent_event_cache.go\<close> and \<open>usage_credential_health_cache.go\<close>: the events of the last seventy minutes kept in
  memory, with their repeated texts shared by a pool that counts references, and per credential the successes and failures
  of the last five hours in buckets of ten minutes.
\<close>

section \<open>Events\<close>

abbreviation usageRecentEventCacheDefaultWindow :: duration where "usageRecentEventCacheDefaultWindow \<equiv> 70 * Minute"
abbreviation usageRecentEventCacheDefaultQueueSize :: nat where "usageRecentEventCacheDefaultQueueSize \<equiv> 100"

datatype RecentUsageIdentityKind = RecentUsageIdentityUnknown | RecentUsageIdentityAuthFile | RecentUsageIdentityAIProvider

record RecentUsageEvent =
  rc_Timestamp :: gtime
  rc_APIGroupKey :: string
  rc_Model :: string
  rc_ModelAlias :: string
  rc_AuthIndex :: string
  rc_ServiceTier :: string
  rc_ResponseServiceTier :: string
  rc_ReasoningEffort :: string
  rc_Endpoint :: string
  rc_ExecutorType :: string
  rc_IdentityFallbackKind :: RecentUsageIdentityKind
  rc_IdentityFallbackLabel :: string
  rc_Failed :: bool
  rc_Generate :: bool
  rc_LatencyMS :: int
  rc_TTFTMS :: "int option"
  rc_InputTokens :: int
  rc_OutputTokens :: int
  rc_ReasoningTokens :: int
  rc_CachedTokens :: int
  rc_CacheReadTokens :: int
  rc_CacheCreationTokens :: int
  rc_TotalTokens :: int

record recentUsageEventLoadRow =
  lr_APIGroupKey :: string
  lr_Provider :: string
  lr_AuthType :: string
  lr_Model :: string
  lr_ModelAlias :: string
  lr_Timestamp :: gtime
  lr_Source :: string
  lr_AuthIndex :: string
  lr_ServiceTier :: string
  lr_ResponseServiceTier :: string
  lr_ReasoningEffort :: string
  lr_Endpoint :: string
  lr_ExecutorType :: string
  lr_Failed :: bool
  lr_Generate :: bool
  lr_LatencyMS :: int
  lr_TTFTMS :: "int option"
  lr_InputTokens :: int
  lr_OutputTokens :: int
  lr_ReasoningTokens :: int
  lr_CachedTokens :: int
  lr_CacheReadTokens :: int
  lr_CacheCreationTokens :: int
  lr_TotalTokens :: int

definition usageEventGenerateEnabled :: "bool option \<Rightarrow> bool" where
  "usageEventGenerateEnabled generate = (case generate of None \<Rightarrow> True | Some b \<Rightarrow> b)"

definition load_row_of_event :: "UsageEvent \<Rightarrow> recentUsageEventLoadRow" where
  "load_row_of_event e =
     \<lparr>lr_APIGroupKey = ev_APIGroupKey e, lr_Provider = ev_Provider e, lr_AuthType = ev_AuthType e, lr_Model = ev_Model e,
      lr_ModelAlias = (case ev_ModelAlias e of None \<Rightarrow> [] | Some a \<Rightarrow> a), lr_Timestamp = ev_Timestamp e, lr_Source = ev_Source e,
      lr_AuthIndex = ev_AuthIndex e, lr_ServiceTier = ev_ServiceTier e, lr_ResponseServiceTier = ev_ResponseServiceTier e,
      lr_ReasoningEffort = ev_ReasoningEffort e, lr_Endpoint = ev_Endpoint e, lr_ExecutorType = ev_ExecutorType e,
      lr_Failed = ev_Failed e, lr_Generate = usageEventGenerateEnabled (ev_Generate e), lr_LatencyMS = ev_LatencyMS e,
      lr_TTFTMS = ev_TTFTMS e, lr_InputTokens = ev_InputTokens e, lr_OutputTokens = ev_OutputTokens e,
      lr_ReasoningTokens = ev_ReasoningTokens e, lr_CachedTokens = ev_CachedTokens e, lr_CacheReadTokens = ev_CacheReadTokens e,
      lr_CacheCreationTokens = ev_CacheCreationTokens e, lr_TotalTokens = ev_TotalTokens e\<rparr>"

definition recentUsageEventToEntity :: "RecentUsageEvent \<Rightarrow> UsageEvent \<Rightarrow> UsageEvent" where
  "recentUsageEventToEntity event zero =
     zero\<lparr>ev_APIGroupKey := rc_APIGroupKey event, ev_Model := rc_Model event, ev_Timestamp := rc_Timestamp event,
       ev_AuthIndex := rc_AuthIndex event, ev_ServiceTier := rc_ServiceTier event,
       ev_ResponseServiceTier := rc_ResponseServiceTier event, ev_ReasoningEffort := rc_ReasoningEffort event,
       ev_Endpoint := rc_Endpoint event, ev_ExecutorType := rc_ExecutorType event, ev_Failed := rc_Failed event,
       ev_Generate := Some (rc_Generate event), ev_LatencyMS := rc_LatencyMS event, ev_TTFTMS := rc_TTFTMS event,
       ev_InputTokens := rc_InputTokens event, ev_OutputTokens := rc_OutputTokens event,
       ev_ReasoningTokens := rc_ReasoningTokens event, ev_CachedTokens := rc_CachedTokens event,
       ev_CacheReadTokens := rc_CacheReadTokens event, ev_CacheCreationTokens := rc_CacheCreationTokens event,
       ev_TotalTokens := rc_TotalTokens event,
       ev_ModelAlias := (let modelAlias = go_trim_space (rc_ModelAlias event) in if modelAlias = [] then ev_ModelAlias zero else Some modelAlias)\<rparr>"

definition normalizeRecentUsageAuthType :: "(string \<Rightarrow> string) \<Rightarrow> string \<Rightarrow> string" where
  "normalizeRecentUsageAuthType uni v =
     (let t = go_to_lower uni (go_trim_space v) in
      if t = ''oauth'' then ''oauth'' else if t = ''apikey'' \<or> t = ''api_key'' then ''apikey'' else [])"

definition usageRecentIdentityFallback :: "(string \<Rightarrow> string) \<Rightarrow> string \<Rightarrow> string \<Rightarrow> string \<Rightarrow> RecentUsageIdentityKind \<times> string" where
  "usageRecentIdentityFallback uni authType source provider =
     (let t = normalizeRecentUsageAuthType uni authType in
      if t = ''oauth'' then (RecentUsageIdentityAuthFile, go_trim_space source)
      else if t = ''apikey'' then (RecentUsageIdentityAIProvider, go_trim_space provider)
      else (RecentUsageIdentityUnknown, []))"

section \<open>The pool of texts\<close>

text \<open>The map from a text to its entry; the entry's own copy of the text is equal to it.\<close>

type_synonym recentUsageStringPool = "(string, int) gomap"

definition pool_intern :: "string \<Rightarrow> recentUsageStringPool \<Rightarrow> string \<times> recentUsageStringPool" where
  "pool_intern v pool =
     (if v = [] then ([], pool)
      else case mget pool v of
        Some refs \<Rightarrow> (v, mput pool v (refs + 1))
      | None \<Rightarrow> (v, mput pool v 1))"

definition pool_release :: "string \<Rightarrow> recentUsageStringPool \<Rightarrow> recentUsageStringPool" where
  "pool_release v pool =
     (if v = [] then pool
      else case mget pool v of
        None \<Rightarrow> pool
      | Some refs \<Rightarrow> if refs - 1 \<le> 0 then mdel pool v else mput pool v (refs - 1))"

text \<open>The fields are interned in the order of the composite literal.\<close>

definition recentEventFromRowLocked ::
  "(string \<Rightarrow> string) \<Rightarrow> recentUsageEventLoadRow \<Rightarrow> recentUsageStringPool \<Rightarrow> RecentUsageEvent \<times> recentUsageStringPool" where
  "recentEventFromRowLocked uni row p0 =
     (let (identityKind, fallbackLabel) = usageRecentIdentityFallback uni (lr_AuthType row) (lr_Source row) (lr_Provider row);
          (apiGroupKey, p1) = pool_intern (go_trim_space (lr_APIGroupKey row)) p0;
          (model, p2) = pool_intern (go_trim_space (lr_Model row)) p1;
          (modelAlias, p3) = pool_intern (go_trim_space (lr_ModelAlias row)) p2;
          (authIndex, p4) = pool_intern (go_trim_space (lr_AuthIndex row)) p3;
          (serviceTier, p5) = pool_intern (go_trim_space (lr_ServiceTier row)) p4;
          (responseServiceTier, p6) = pool_intern (go_trim_space (lr_ResponseServiceTier row)) p5;
          (reasoningEffort, p7) = pool_intern (go_trim_space (lr_ReasoningEffort row)) p6;
          (endpoint, p8) = pool_intern (go_trim_space (lr_Endpoint row)) p7;
          (executorType, p9) = pool_intern (go_trim_space (lr_ExecutorType row)) p8;
          (identityLabel, p10) = pool_intern fallbackLabel p9
      in (\<lparr>rc_Timestamp = lr_Timestamp row, rc_APIGroupKey = apiGroupKey, rc_Model = model, rc_ModelAlias = modelAlias,
           rc_AuthIndex = authIndex, rc_ServiceTier = serviceTier, rc_ResponseServiceTier = responseServiceTier,
           rc_ReasoningEffort = reasoningEffort, rc_Endpoint = endpoint, rc_ExecutorType = executorType,
           rc_IdentityFallbackKind = identityKind, rc_IdentityFallbackLabel = identityLabel, rc_Failed = lr_Failed row,
           rc_Generate = lr_Generate row, rc_LatencyMS = lr_LatencyMS row, rc_TTFTMS = lr_TTFTMS row,
           rc_InputTokens = lr_InputTokens row, rc_OutputTokens = lr_OutputTokens row, rc_ReasoningTokens = lr_ReasoningTokens row,
           rc_CachedTokens = lr_CachedTokens row, rc_CacheReadTokens = lr_CacheReadTokens row,
           rc_CacheCreationTokens = lr_CacheCreationTokens row, rc_TotalTokens = lr_TotalTokens row\<rparr>, p10))"

definition releaseEventStringsLocked :: "RecentUsageEvent \<Rightarrow> recentUsageStringPool \<Rightarrow> recentUsageStringPool" where
  "releaseEventStringsLocked event pool =
     pool_release (rc_IdentityFallbackLabel event) (pool_release (rc_ExecutorType event) (pool_release (rc_Endpoint event)
       (pool_release (rc_ReasoningEffort event) (pool_release (rc_ResponseServiceTier event) (pool_release (rc_ServiceTier event)
       (pool_release (rc_AuthIndex event) (pool_release (rc_ModelAlias event) (pool_release (rc_Model event)
       (pool_release (rc_APIGroupKey event) pool)))))))))"

section \<open>Health of a credential\<close>

abbreviation credentialHealthWindow :: duration where "credentialHealthWindow \<equiv> 5 * Hour"
abbreviation credentialHealthBucketSpan :: duration where "credentialHealthBucketSpan \<equiv> 10 * Minute"
abbreviation credentialHealthStartupBatchSize :: nat where "credentialHealthStartupBatchSize \<equiv> 10000"

type_synonym credentialHealthKey = "string \<times> string"

record credentialHealthBucketCounts =
  hc_success :: int
  hc_failure :: int
  hc_inputTokens :: int
  hc_cacheReadTokens :: int

definition no_counts :: credentialHealthBucketCounts where
  "no_counts = \<lparr>hc_success = 0, hc_failure = 0, hc_inputTokens = 0, hc_cacheReadTokens = 0\<rparr>"

record credentialHealthCache =
  hh_bucketsByCredential :: "(credentialHealthKey, (int, credentialHealthBucketCounts) gomap) gomap"
  hh_lastFullPruneUnix :: int

record credentialHealthLoadRow =
  hr_AuthType :: string
  hr_AuthIndex :: string
  hr_Timestamp :: gtime
  hr_Failed :: bool
  hr_InputTokens :: int
  hr_CacheReadTokens :: int

definition credentialHealthRowsFromUsageEvents :: "UsageEvent list \<Rightarrow> credentialHealthLoadRow list" where
  "credentialHealthRowsFromUsageEvents events =
     map (\<lambda>e. \<lparr>hr_AuthType = ev_AuthType e, hr_AuthIndex = ev_AuthIndex e, hr_Timestamp = ev_Timestamp e, hr_Failed = ev_Failed e,
       hr_InputTokens = ev_InputTokens e, hr_CacheReadTokens = ev_CacheReadTokens e\<rparr>) events"

definition newCredentialHealthKey :: "string \<Rightarrow> string \<Rightarrow> credentialHealthKey \<times> bool" where
  "newCredentialHealthKey authType authIndex = ((authType, authIndex), authType \<noteq> [] \<and> authIndex \<noteq> [])"

text \<open>\<open>t.Truncate(d)\<close> rounds down to a multiple of \<open>d\<close> since the zero time.\<close>

definition t_truncate :: "gtime \<Rightarrow> duration \<Rightarrow> gtime" where
  "t_truncate t d = (if d \<le> 0 then t else t - (t - zero_time) mod d)"

definition credentialHealthBucketUnix :: "gtime \<Rightarrow> int" where
  "credentialHealthBucketUnix timestamp = unix (t_truncate timestamp credentialHealthBucketSpan)"

definition credentialHealthWindowEnd :: "gtime \<Rightarrow> gtime" where
  "credentialHealthWindowEnd now = t_add (t_truncate now credentialHealthBucketSpan) credentialHealthBucketSpan"

definition credentialHealthWindowStart :: "gtime \<Rightarrow> gtime" where
  "credentialHealthWindowStart now = t_add (credentialHealthWindowEnd now) (- credentialHealthWindow)"

definition saturatingAddCredentialHealthTokens :: "int \<Rightarrow> int \<Rightarrow> int" where
  "saturatingAddCredentialHealthTokens acc v =
     (if v \<le> 0 then acc else if acc > MaxInt64 - v then MaxInt64 else acc + v)"

definition add_health_row :: "credentialHealthLoadRow \<Rightarrow> credentialHealthBucketCounts \<Rightarrow> credentialHealthBucketCounts" where
  "add_health_row row counts =
     (let counts = (if hr_Failed row then counts\<lparr>hc_failure := wrap64 (hc_failure counts + 1)\<rparr>
                    else counts\<lparr>hc_success := wrap64 (hc_success counts + 1)\<rparr>)
      in counts\<lparr>hc_inputTokens := saturatingAddCredentialHealthTokens (hc_inputTokens counts) (max (hr_InputTokens row) 0),
                hc_cacheReadTokens := saturatingAddCredentialHealthTokens (hc_cacheReadTokens counts) (max (hr_CacheReadTokens row) 0)\<rparr>)"

definition get_or :: "'v \<Rightarrow> ('k, 'v) gomap \<Rightarrow> 'k \<Rightarrow> 'v" where
  "get_or d m k = (case mget m k of None \<Rightarrow> d | Some v \<Rightarrow> v)"

text \<open>The keys come back as a set, as a list without repetitions.\<close>

fun appendCredentialHealthRowsLocked ::
  "credentialHealthLoadRow list \<Rightarrow> credentialHealthCache \<Rightarrow> credentialHealthKey list \<Rightarrow> credentialHealthKey list \<times> credentialHealthCache" where
  "appendCredentialHealthRowsLocked [] cache touched = (touched, cache)"
| "appendCredentialHealthRowsLocked (row # rows) cache touched =
     (let (key, ok) = newCredentialHealthKey (hr_AuthType row) (hr_AuthIndex row) in
      if \<not> ok then appendCredentialHealthRowsLocked rows cache touched
      else
        let bucketUnix = credentialHealthBucketUnix (hr_Timestamp row);
            buckets = get_or [] (hh_bucketsByCredential cache) key;
            counts = add_health_row row (get_or no_counts buckets bucketUnix)
        in appendCredentialHealthRowsLocked rows
             (cache\<lparr>hh_bucketsByCredential := mput (hh_bucketsByCredential cache) key (mput buckets bucketUnix counts)\<rparr>)
             (List.insert key touched))"

definition pruneCredentialHealthKeyLocked :: "credentialHealthKey \<Rightarrow> int \<Rightarrow> credentialHealthCache \<Rightarrow> credentialHealthCache" where
  "pruneCredentialHealthKeyLocked key cutoff cache =
     (let buckets = filter (\<lambda>(bucketUnix, counts). \<not> bucketUnix < cutoff) (get_or [] (hh_bucketsByCredential cache) key) in
      cache\<lparr>hh_bucketsByCredential :=
        (if buckets = [] then mdel (hh_bucketsByCredential cache) key
         else mput (hh_bucketsByCredential cache) key buckets)\<rparr>)"

definition shouldFullPruneCredentialHealthLocked :: "int \<Rightarrow> credentialHealthCache \<Rightarrow> bool" where
  "shouldFullPruneCredentialHealthLocked fullPruneUnix cache \<longleftrightarrow> hh_lastFullPruneUnix cache = 0 \<or>
     wrap64 (fullPruneUnix - hh_lastFullPruneUnix cache) \<ge> credentialHealthBucketSpan div Second"

text \<open>\<open>touched\<close> is nil when the cache is loaded; the maps are visited in some order \<open>ord\<close>.\<close>

definition pruneCredentialHealthLocked ::
  "(credentialHealthKey list \<Rightarrow> credentialHealthKey list) \<Rightarrow> gtime \<Rightarrow> credentialHealthKey list option \<Rightarrow> credentialHealthCache \<Rightarrow> credentialHealthCache" where
  "pruneCredentialHealthLocked ord now touched cache =
     (let fullPruneUnix = unix (credentialHealthWindowEnd now) in
      if hh_bucketsByCredential cache = [] then cache\<lparr>hh_lastFullPruneUnix := fullPruneUnix\<rparr>
      else
        let cutoff = unix (credentialHealthWindowStart now) in
        if touched = None \<or> shouldFullPruneCredentialHealthLocked fullPruneUnix cache
        then (fold (\<lambda>key. pruneCredentialHealthKeyLocked key cutoff) (ord (mkeys (hh_bucketsByCredential cache))) cache)
               \<lparr>hh_lastFullPruneUnix := fullPruneUnix\<rparr>
        else fold (\<lambda>key. pruneCredentialHealthKeyLocked key cutoff) (ord (the touched)) cache)"

text \<open>
  A rate \<open>(n, d, k)\<close> is the float of \<open>n\<close> over the float of \<open>d\<close>, times \<open>k\<close>; it is \<open>None\<close>, the code's 0.0, when there is
  nothing to divide.
\<close>

type_synonym rate = "int \<times> int \<times> int"

record CredentialHealthBucket =
  hb_StartTime :: gtime
  hb_EndTime :: gtime
  hb_Success :: int
  hb_Failure :: int
  hb_Rate :: "rate option"

record CredentialHealthSnapshot =
  hs_WindowSeconds :: int
  hs_BucketSeconds :: int
  hs_WindowStart :: gtime
  hs_WindowEnd :: gtime
  hs_TotalSuccess :: int
  hs_TotalFailure :: int
  hs_SuccessRate :: "rate option"
  hs_InputTokens :: int
  hs_CacheReadTokens :: int
  hs_Buckets :: "CredentialHealthBucket list"

definition rate_of :: "int \<Rightarrow> int \<Rightarrow> int \<Rightarrow> rate option" where
  "rate_of factor success outOf = (if outOf > 0 then Some (success, outOf, factor) else None)"

function window_starts :: "gtime \<Rightarrow> gtime \<Rightarrow> gtime list" where
  "window_starts bucketStart windowEnd =
     (if bucketStart < windowEnd then bucketStart # window_starts (t_add bucketStart credentialHealthBucketSpan) windowEnd else [])"
  by pat_completeness auto
termination
  by (relation "measure (\<lambda>(s, e). nat (e - s))") (auto simp: t_add_def)

declare window_starts.simps [simp del]

definition health_bucket :: "(int, credentialHealthBucketCounts) gomap \<Rightarrow> gtime \<Rightarrow> CredentialHealthBucket" where
  "health_bucket countsByUnix bucketStart =
     (let counts = get_or no_counts countsByUnix (unix bucketStart) in
      \<lparr>hb_StartTime = bucketStart, hb_EndTime = t_add bucketStart credentialHealthBucketSpan, hb_Success = hc_success counts,
       hb_Failure = hc_failure counts, hb_Rate = rate_of 1 (hc_success counts) (wrap64 (hc_success counts + hc_failure counts))\<rparr>)"

definition buildCredentialHealthSnapshot :: "(int, credentialHealthBucketCounts) gomap \<Rightarrow> gtime \<Rightarrow> CredentialHealthSnapshot" where
  "buildCredentialHealthSnapshot countsByUnix now =
     (let windowEnd = credentialHealthWindowEnd now;
          windowStart = t_add windowEnd (- credentialHealthWindow);
          starts = window_starts windowStart windowEnd;
          counts = map (\<lambda>s. get_or no_counts countsByUnix (unix s)) starts;
          totalSuccess = fold (\<lambda>c n. wrap64 (n + hc_success c)) counts 0;
          totalFailure = fold (\<lambda>c n. wrap64 (n + hc_failure c)) counts 0
      in \<lparr>hs_WindowSeconds = credentialHealthWindow div Second, hs_BucketSeconds = credentialHealthBucketSpan div Second,
          hs_WindowStart = windowStart, hs_WindowEnd = windowEnd, hs_TotalSuccess = totalSuccess, hs_TotalFailure = totalFailure,
          hs_SuccessRate = rate_of 100 totalSuccess (wrap64 (totalSuccess + totalFailure)),
          hs_InputTokens = fold (\<lambda>c n. saturatingAddCredentialHealthTokens n (hc_inputTokens c)) counts 0,
          hs_CacheReadTokens = fold (\<lambda>c n. saturatingAddCredentialHealthTokens n (hc_cacheReadTokens c)) counts 0,
          hs_Buckets = map (health_bucket countsByUnix) starts\<rparr>)"

definition EmptyCredentialHealthSnapshot :: "gtime \<Rightarrow> CredentialHealthSnapshot" where
  "EmptyCredentialHealthSnapshot now = buildCredentialHealthSnapshot [] now"

section \<open>The cache\<close>

text \<open>What \<open>mu\<close> guards, and the window.\<close>

record UsageRecentEventCache =
  uc_events :: "RecentUsageEvent list"
  uc_pool :: recentUsageStringPool
  uc_credentialHealth :: credentialHealthCache
  uc_window :: duration

definition newEmptyUsageRecentEventCache :: "duration \<Rightarrow> UsageRecentEventCache" where
  "newEmptyUsageRecentEventCache window =
     \<lparr>uc_events = [], uc_pool = [], uc_credentialHealth = \<lparr>hh_bucketsByCredential = [], hh_lastFullPruneUnix = 0\<rparr>,
      uc_window = (if window \<le> 0 then usageRecentEventCacheDefaultWindow else window)\<rparr>"

fun appendRecentEventsLocked ::
  "(string \<Rightarrow> string) \<Rightarrow> recentUsageEventLoadRow list \<Rightarrow> UsageRecentEventCache \<Rightarrow> UsageRecentEventCache" where
  "appendRecentEventsLocked uni [] c = c"
| "appendRecentEventsLocked uni (row # rows) c =
     (let (event, pool) = recentEventFromRowLocked uni row (uc_pool c) in
      appendRecentEventsLocked uni rows (c\<lparr>uc_events := uc_events c @ [event], uc_pool := pool\<rparr>))"

definition pruneLocked :: "gtime \<Rightarrow> UsageRecentEventCache \<Rightarrow> UsageRecentEventCache" where
  "pruneLocked now c =
     (let cutoff = t_add now (- uc_window c) in
      c\<lparr>uc_events := filter (\<lambda>e. \<not> rc_Timestamp e < cutoff) (uc_events c),
        uc_pool := fold releaseEventStringsLocked (filter (\<lambda>e. rc_Timestamp e < cutoff) (uc_events c)) (uc_pool c)\<rparr>)"

definition on_health :: "(credentialHealthCache \<Rightarrow> credentialHealthCache) \<Rightarrow> UsageRecentEventCache \<Rightarrow> UsageRecentEventCache" where
  "on_health f c = c\<lparr>uc_credentialHealth := f (uc_credentialHealth c)\<rparr>"

text \<open>The critical section of \<open>appendEvents\<close>.\<close>

definition appendEvents ::
  "(string \<Rightarrow> string) \<Rightarrow> (credentialHealthKey list \<Rightarrow> credentialHealthKey list) \<Rightarrow> gtime \<Rightarrow> UsageEvent list \<Rightarrow> UsageRecentEventCache \<Rightarrow> UsageRecentEventCache" where
  "appendEvents uni ord now events c =
     (if events = [] then c
      else
        let c = appendRecentEventsLocked uni (map load_row_of_event events) c;
            (touched, health) = appendCredentialHealthRowsLocked (credentialHealthRowsFromUsageEvents events) (uc_credentialHealth c) [];
            c = pruneLocked now (c\<lparr>uc_credentialHealth := health\<rparr>)
        in on_health (pruneCredentialHealthLocked ord now (Some touched)) c)"

definition cache_Events ::
  "UsageRecentEventCache option \<Rightarrow> gtime \<Rightarrow> gtime \<Rightarrow> bool \<Rightarrow> string \<Rightarrow> RecentUsageEvent list \<times> bool" where
  "cache_Events cache start end_time includeEnd apiGroupKey =
     (case cache of
        None \<Rightarrow> ([], False)
      | Some c \<Rightarrow>
          if end_time < start \<or> \<not> includeEnd \<and> end_time = start then ([], True)
          else
            let apiGroupKey = go_trim_space apiGroupKey in
            (filter (\<lambda>e. \<not> rc_Timestamp e < start \<and> (if includeEnd then \<not> end_time < rc_Timestamp e else rc_Timestamp e < end_time) \<and>
               (apiGroupKey = [] \<or> rc_APIGroupKey e = apiGroupKey)) (uc_events c), True))"

definition EventsSince :: "UsageRecentEventCache option \<Rightarrow> gtime \<Rightarrow> string \<Rightarrow> RecentUsageEvent list \<times> bool" where
  "EventsSince cache start apiGroupKey =
     (case cache of
        None \<Rightarrow> ([], False)
      | Some c \<Rightarrow>
          let apiGroupKey = go_trim_space apiGroupKey in
          (filter (\<lambda>e. \<not> rc_Timestamp e < start \<and> (apiGroupKey = [] \<or> rc_APIGroupKey e = apiGroupKey)) (uc_events c), True))"

definition CredentialHealth :: "UsageRecentEventCache option \<Rightarrow> string \<Rightarrow> string \<Rightarrow> gtime \<Rightarrow> (CredentialHealthSnapshot \<times> bool) option" where
  "CredentialHealth cache authType authIndex now =
     (case cache of
        None \<Rightarrow> None
      | Some c \<Rightarrow>
          let (key, ok) = newCredentialHealthKey authType authIndex in
          if \<not> ok then Some (buildCredentialHealthSnapshot [] now, True)
          else Some (buildCredentialHealthSnapshot (get_or [] (hh_bucketsByCredential (uc_credentialHealth c)) key) now, True))"

section \<open>Starting\<close>

text \<open>
  The queries are parameters: the rows of the window in the order of their stored times, and the rows the cursor of the
  health query scans, with the error that ends the scan.  Batches of the latter are added one after another.
\<close>

function health_batches :: "nat \<Rightarrow> credentialHealthLoadRow list \<Rightarrow> credentialHealthLoadRow list list" where
  "health_batches n rows = (if rows = [] \<or> n = 0 then [] else take n rows # health_batches n (drop n rows))"
  by pat_completeness auto
termination
  by (relation "measure (\<lambda>(n, rows). length rows)") auto

declare health_batches.simps [simp del]

definition load_health :: "nat \<Rightarrow> credentialHealthLoadRow list \<Rightarrow> UsageRecentEventCache \<Rightarrow> UsageRecentEventCache" where
  "load_health batchSize rows c =
     fold (\<lambda>batch. on_health (\<lambda>h. snd (appendCredentialHealthRowsLocked batch h [])))
       (health_batches (if batchSize = 0 then credentialHealthStartupBatchSize else batchSize) rows) c"

definition NewUsageRecentEventCache ::
  "(string \<Rightarrow> string) \<Rightarrow> (credentialHealthKey list \<Rightarrow> credentialHealthKey list) \<Rightarrow> zone \<Rightarrow> (string \<Rightarrow> string + recentUsageEventLoadRow list) \<Rightarrow>
     (string \<Rightarrow> credentialHealthLoadRow list \<times> string option) \<Rightarrow> gtime \<Rightarrow> duration \<Rightarrow> string + UsageRecentEventCache" where
  "NewUsageRecentEventCache uni ord z load_rows scan_health now window =
     (let c = newEmptyUsageRecentEventCache window; start = t_add now (- uc_window c) in
      case load_rows (FormatStorageTime z start) of
        Inl err \<Rightarrow> Inl (''load usage recent event cache rows: '' @ err)
      | Inr rows \<Rightarrow>
          let c = pruneLocked now (appendRecentEventsLocked uni rows c) in
          case scan_health (FormatStorageTime z (t_add now (- credentialHealthWindow))) of
            (scanned, Some err) \<Rightarrow> Inl err
          | (scanned, None) \<Rightarrow>
              Inr (on_health (pruneCredentialHealthLocked ord now None) (load_health credentialHealthStartupBatchSize scanned c)))"

section \<open>The queue\<close>

text \<open>
  \<open>TryAppend\<close> may be called by many; one goroutine takes batches off the channel.  A slot is a token that a caller holds from
  before it sends until the batch has been taken.  The state: free slots, batches whose callers hold a slot and have not sent
  yet, the channel, the batch being taken and whether its slot was given back, the batches handed to \<open>appendEvents\<close>, whether
  \<open>Close\<close> was called and whether the goroutine has ended.
\<close>

record append_queue =
  aq_size :: nat
  aq_slots :: nat
  aq_sending :: "UsageEvent list list"
  aq_channel :: "UsageEvent list list"
  aq_taken :: "(UsageEvent list \<times> bool) option"
  aq_handled :: "UsageEvent list list"
  aq_stopped :: bool
  aq_ended :: bool

definition new_append_queue :: "nat \<Rightarrow> append_queue" where
  "new_append_queue queueSize =
     (let n = (if queueSize = 0 then usageRecentEventCacheDefaultQueueSize else queueSize) in
      \<lparr>aq_size = n, aq_slots = n, aq_sending = [], aq_channel = [], aq_taken = None, aq_handled = [], aq_stopped = False, aq_ended = False\<rparr>)"

definition releaseAppendSlot :: "append_queue \<Rightarrow> append_queue" where
  "releaseAppendSlot q = (if aq_slots q < aq_size q then q\<lparr>aq_slots := aq_slots q + 1\<rparr> else q)"

text \<open>
  The steps of callers and of \<open>run\<close>; the label is the batch a call accepts or refuses.  A caller that found \<open>stopCh\<close> open may
  still take a slot after \<open>Close\<close>, and a send and the stop that are both ready are chosen between freely.
\<close>

datatype queue_label = Accepts "UsageEvent list" | Refuses "UsageEvent list" | Internal

inductive queue_step :: "append_queue \<Rightarrow> queue_label \<Rightarrow> append_queue \<Rightarrow> bool" where
  no_slot: "events \<noteq> [] \<Longrightarrow> aq_stopped q \<or> aq_slots q = 0 \<Longrightarrow> queue_step q (Refuses events) q"
| acquireAppendSlot: "events \<noteq> [] \<Longrightarrow> aq_slots q > 0 \<Longrightarrow>
    queue_step q Internal (q\<lparr>aq_slots := aq_slots q - 1, aq_sending := events # aq_sending q\<rparr>)"
| sends: "aq_sending q = xs @ events # ys \<Longrightarrow> length (aq_channel q) < aq_size q \<Longrightarrow>
    queue_step q (Accepts events) (q\<lparr>aq_sending := xs @ ys, aq_channel := aq_channel q @ [events]\<rparr>)"
| gives_up: "aq_sending q = xs @ events # ys \<Longrightarrow> aq_stopped q \<or> aq_size q \<le> length (aq_channel q) \<Longrightarrow>
    queue_step q (Refuses events) (releaseAppendSlot (q\<lparr>aq_sending := xs @ ys\<rparr>))"
| takes: "\<not> aq_ended q \<Longrightarrow> aq_taken q = None \<Longrightarrow> aq_channel q = events # rest \<Longrightarrow>
    queue_step q Internal (q\<lparr>aq_channel := rest, aq_taken := Some (events, False)\<rparr>)"
| releases: "aq_taken q = Some (events, False) \<Longrightarrow>
    queue_step q Internal (releaseAppendSlot (q\<lparr>aq_taken := Some (events, True)\<rparr>))"
| appends: "aq_taken q = Some (events, True) \<Longrightarrow>
    queue_step q Internal (q\<lparr>aq_taken := None, aq_handled := aq_handled q @ [events]\<rparr>)"
| closes: "queue_step q Internal (q\<lparr>aq_stopped := True\<rparr>)"
| ends: "aq_stopped q \<Longrightarrow> aq_taken q = None \<Longrightarrow> queue_step q Internal (q\<lparr>aq_ended := True\<rparr>)"

inductive_cases queue_step_cases: "queue_step q l q'"

text \<open>The calls of \<open>TryAppend\<close> that were accepted, in order, along a run.\<close>

inductive queue_run :: "append_queue \<Rightarrow> queue_label list \<Rightarrow> append_queue \<Rightarrow> bool" where
  start: "queue_run q [] q"
| step: "queue_run q ls q' \<Longrightarrow> queue_step q' l q'' \<Longrightarrow> queue_run q (ls @ [l]) q''"

definition accepted :: "queue_label list \<Rightarrow> UsageEvent list list" where
  "accepted ls = List.map_filter (\<lambda>l. case l of Accepts events \<Rightarrow> Some events | _ \<Rightarrow> None) ls"

end
