(* ===== verification/RecentCacheSafety.thy ===== *)
theory RecentCacheSafety
  imports RecentCache
begin

text \<open>
  What the cache of recent events keeps: every text of the pool is counted once for every field of a cached event that
  holds it; a query that starts no earlier than any cutoff used so far returns exactly the events loaded and appended; a
  batch accepted by the queue is handled exactly once and in order.
\<close>

section \<open>The pool\<close>

text \<open>The texts an event holds.\<close>

definition event_texts :: "RecentUsageEvent \<Rightarrow> string list" where
  "event_texts e =
     [rc_APIGroupKey e, rc_Model e, rc_ModelAlias e, rc_AuthIndex e, rc_ServiceTier e, rc_ResponseServiceTier e,
      rc_ReasoningEffort e, rc_Endpoint e, rc_ExecutorType e, rc_IdentityFallbackLabel e]"

definition refs_in :: "string list \<Rightarrow> string \<Rightarrow> int option" where
  "refs_in texts v = (if v = [] \<or> v \<notin> set texts then None else Some (int (count_list texts v)))"

definition pool_counts :: "recentUsageStringPool \<Rightarrow> string list \<Rightarrow> bool" where
  "pool_counts pool texts \<longleftrightarrow> mget pool = refs_in texts"

definition pool_exact :: "UsageRecentEventCache \<Rightarrow> bool" where
  "pool_exact c \<longleftrightarrow> pool_counts (uc_pool c) (concat (map event_texts (uc_events c)))"

lemma count_list_zero: "v \<notin> set texts \<Longrightarrow> count_list texts v = 0"
  by (induction texts) auto

lemma intern_value [simp]: "fst (pool_intern v pool) = v"
  by (auto simp: pool_intern_def split: option.splits)

lemma intern_counts:
  assumes "pool_counts pool texts"
  shows "pool_counts (snd (pool_intern v pool)) (texts @ [v])"
proof -
  have held: "mget pool = refs_in texts" using assms by (simp add: pool_counts_def)
  show ?thesis
    by (rule ext [of _ _, THEN pool_counts_def [THEN iffD2]])
      (auto simp: pool_intern_def held refs_in_def count_list_zero split: option.splits if_splits)
qed

lemma release_counts:
  assumes "pool_counts pool texts" "mset texts = add_mset v (mset rest)"
  shows "pool_counts (pool_release v pool) rest"
proof -
  have held: "mget pool = refs_in texts" using assms(1) by (simp add: pool_counts_def)
  have counts: "count_list texts w = (if w = v then 1 else 0) + count_list rest w" for w
    using arg_cong [OF assms(2), of "\<lambda>m. Multiset.count m w"] by (simp add: count_mset)
  have members: "set texts = insert v (set rest)"
    using arg_cong [OF assms(2), of set_mset] by simp
  have absent: "count_list rest w = 0 \<longleftrightarrow> w \<notin> set rest" for w
    by (simp add: count_list_0_iff)
  show ?thesis
    by (rule ext [of _ _, THEN pool_counts_def [THEN iffD2]])
      (auto simp: pool_release_def held refs_in_def counts members absent split: option.splits if_splits)
qed

lemma interns_count:
  "pool_counts pool texts \<Longrightarrow> pool_counts (fold (\<lambda>v p. snd (pool_intern v p)) vs pool) (texts @ vs)"
proof (induction vs arbitrary: pool texts)
  case (Cons v vs)
  from Cons.IH [OF intern_counts [OF Cons.prems, of v]] show ?case by simp
qed simp

lemma releases_count:
  "pool_counts pool texts \<Longrightarrow> mset texts = mset vs + mset rest \<Longrightarrow> pool_counts (fold pool_release vs pool) rest"
proof (induction vs arbitrary: pool texts)
  case Nil
  then have "set texts = set rest" "\<And>w. count_list texts w = count_list rest w"
    by (auto dest: mset_eq_setD simp flip: count_mset)
  with Nil(1) show ?case by (simp add: pool_counts_def refs_in_def fun_eq_iff)
next
  case (Cons v vs)
  have "pool_counts (pool_release v pool) (vs @ rest)"
    by (rule release_counts [OF Cons.prems(1)]) (simp add: Cons.prems(2))
  from Cons.IH [OF this] show ?case by simp
qed

section \<open>Rows and events\<close>

text \<open>
  What an event of the cache is to say of a row and of an event: its texts trimmed, its identity that of the file for
  \<open>oauth\<close> and that of the provider for an API key, all other fields as they are.
\<close>

definition fallback_of :: "(string \<Rightarrow> string) \<Rightarrow> string \<Rightarrow> string \<Rightarrow> string \<Rightarrow> RecentUsageIdentityKind \<times> string" where
  "fallback_of uni authType source provider =
     (if go_to_lower uni (go_trim_space authType) = ''oauth'' then (RecentUsageIdentityAuthFile, go_trim_space source)
      else if go_to_lower uni (go_trim_space authType) \<in> {''apikey'', ''api_key''} then (RecentUsageIdentityAIProvider, go_trim_space provider)
      else (RecentUsageIdentityUnknown, []))"

definition project_row :: "(string \<Rightarrow> string) \<Rightarrow> recentUsageEventLoadRow \<Rightarrow> RecentUsageEvent" where
  "project_row uni row =
     \<lparr>rc_Timestamp = lr_Timestamp row, rc_APIGroupKey = go_trim_space (lr_APIGroupKey row),
       rc_Model = go_trim_space (lr_Model row), rc_ModelAlias = go_trim_space (lr_ModelAlias row),
       rc_AuthIndex = go_trim_space (lr_AuthIndex row), rc_ServiceTier = go_trim_space (lr_ServiceTier row),
       rc_ResponseServiceTier = go_trim_space (lr_ResponseServiceTier row),
       rc_ReasoningEffort = go_trim_space (lr_ReasoningEffort row), rc_Endpoint = go_trim_space (lr_Endpoint row),
       rc_ExecutorType = go_trim_space (lr_ExecutorType row),
       rc_IdentityFallbackKind = fst (fallback_of uni (lr_AuthType row) (lr_Source row) (lr_Provider row)),
       rc_IdentityFallbackLabel = snd (fallback_of uni (lr_AuthType row) (lr_Source row) (lr_Provider row)),
       rc_Failed = lr_Failed row, rc_Generate = lr_Generate row, rc_LatencyMS = lr_LatencyMS row,
       rc_TTFTMS = lr_TTFTMS row, rc_InputTokens = lr_InputTokens row, rc_OutputTokens = lr_OutputTokens row,
       rc_ReasoningTokens = lr_ReasoningTokens row, rc_CachedTokens = lr_CachedTokens row,
       rc_CacheReadTokens = lr_CacheReadTokens row, rc_CacheCreationTokens = lr_CacheCreationTokens row,
       rc_TotalTokens = lr_TotalTokens row\<rparr>"

definition project_event :: "(string \<Rightarrow> string) \<Rightarrow> UsageEvent \<Rightarrow> RecentUsageEvent" where
  "project_event uni e =
     \<lparr>rc_Timestamp = ev_Timestamp e, rc_APIGroupKey = go_trim_space (ev_APIGroupKey e),
       rc_Model = go_trim_space (ev_Model e),
       rc_ModelAlias = (case ev_ModelAlias e of None \<Rightarrow> [] | Some a \<Rightarrow> go_trim_space a),
       rc_AuthIndex = go_trim_space (ev_AuthIndex e), rc_ServiceTier = go_trim_space (ev_ServiceTier e),
       rc_ResponseServiceTier = go_trim_space (ev_ResponseServiceTier e),
       rc_ReasoningEffort = go_trim_space (ev_ReasoningEffort e), rc_Endpoint = go_trim_space (ev_Endpoint e),
       rc_ExecutorType = go_trim_space (ev_ExecutorType e),
       rc_IdentityFallbackKind = fst (fallback_of uni (ev_AuthType e) (ev_Source e) (ev_Provider e)),
       rc_IdentityFallbackLabel = snd (fallback_of uni (ev_AuthType e) (ev_Source e) (ev_Provider e)),
       rc_Failed = ev_Failed e, rc_Generate = (ev_Generate e \<noteq> Some False), rc_LatencyMS = ev_LatencyMS e,
       rc_TTFTMS = ev_TTFTMS e, rc_InputTokens = ev_InputTokens e, rc_OutputTokens = ev_OutputTokens e,
       rc_ReasoningTokens = ev_ReasoningTokens e, rc_CachedTokens = ev_CachedTokens e,
       rc_CacheReadTokens = ev_CacheReadTokens e, rc_CacheCreationTokens = ev_CacheCreationTokens e,
       rc_TotalTokens = ev_TotalTokens e\<rparr>"

lemma fallback_meant: "usageRecentIdentityFallback uni authType source provider = fallback_of uni authType source provider"
  by (simp add: usageRecentIdentityFallback_def normalizeRecentUsageAuthType_def fallback_of_def Let_def)

lemma event_loaded:
  "project_row uni (load_row_of_event e) = project_event uni e"
  "project_row uni \<circ> load_row_of_event = project_event uni"
  by (auto simp: fun_eq_iff project_row_def project_event_def load_row_of_event_def usageEventGenerateEnabled_def
      go_trim_space_visible split: option.splits)

text \<open>The event of a row does not depend on the pool.\<close>

lemma event_of_row:
  "recentEventFromRowLocked uni row pool =
     (project_row uni row, fold (\<lambda>v p. snd (pool_intern v p)) (event_texts (project_row uni row)) pool)"
  by (simp add: project_row_def recentEventFromRowLocked_def event_texts_def split_def fallback_meant Let_def)

lemma releases_texts: "releaseEventStringsLocked e pool = fold pool_release (event_texts e) pool"
  by (simp add: releaseEventStringsLocked_def event_texts_def)

lemma append_rows:
  "appendRecentEventsLocked uni rows c =
     c\<lparr>uc_events := uc_events c @ map (project_row uni) rows,
       uc_pool := fold (\<lambda>v p. snd (pool_intern v p)) (concat (map (event_texts \<circ> project_row uni) rows)) (uc_pool c)\<rparr>"
  by (induction rows arbitrary: c) (simp_all add: event_of_row)

lemma append_exact: "pool_exact c \<Longrightarrow> pool_exact (appendRecentEventsLocked uni rows c)"
  unfolding pool_exact_def append_rows by (simp add: interns_count)

lemma fold_releases: "fold releaseEventStringsLocked es pool = fold pool_release (concat (map event_texts es)) pool"
  by (induction es arbitrary: pool) (simp_all add: releases_texts)

lemma mset_kept:
  "mset (concat (map f xs)) = mset (concat (map f (filter P xs))) + mset (concat (map f (filter (\<lambda>x. \<not> P x) xs)))"
  by (induction xs) (auto simp: ac_simps)

lemma prune_exact: "pool_exact c \<Longrightarrow> pool_exact (pruneLocked now c)"
  unfolding pool_exact_def pruneLocked_def Let_def fold_releases
  by (simp, erule releases_count, rule mset_kept)

lemma on_health_exact [simp]: "pool_exact (on_health f c) = pool_exact c"
  by (simp add: pool_exact_def on_health_def)

lemma appendEvents_exact:
  assumes "pool_exact c"
  shows "pool_exact (appendEvents uni ord now events c)"
proof -
  have "pool_exact (c'\<lparr>uc_credentialHealth := h\<rparr>) = pool_exact c'" for c' h
    by (simp add: pool_exact_def)
  then show ?thesis
    by (simp add: appendEvents_def Let_def split_def assms append_exact prune_exact)
qed

lemma empty_exact: "pool_exact (newEmptyUsageRecentEventCache window)"
  by (simp add: pool_exact_def newEmptyUsageRecentEventCache_def pool_counts_def refs_in_def fun_eq_iff)

section \<open>What a query returns\<close>

text \<open>The batches the goroutine hands to \<open>appendEvents\<close>, each with the time its clock shows.\<close>

definition append_all ::
  "(string \<Rightarrow> string) \<Rightarrow> (credentialHealthKey list \<Rightarrow> credentialHealthKey list) \<Rightarrow> (gtime \<times> UsageEvent list) list \<Rightarrow> UsageRecentEventCache \<Rightarrow> UsageRecentEventCache" where
  "append_all uni ord steps c = fold (\<lambda>(now, events). appendEvents uni ord now events) steps c"

definition appended :: "(gtime \<times> UsageEvent list) list \<Rightarrow> UsageEvent list" where
  "appended steps = concat (map snd steps)"

lemma append_all_Cons [simp]:
  "append_all uni ord [] c = c"
  "append_all uni ord ((now, events) # steps) c = append_all uni ord steps (appendEvents uni ord now events c)"
  by (simp_all add: append_all_def)

lemma appended_Cons [simp]: "appended [] = []" "appended ((now, events) # steps) = events @ appended steps"
  by (simp_all add: appended_def)

lemma append_all_exact: "pool_exact c \<Longrightarrow> pool_exact (append_all uni ord steps c)"
  by (induction steps arbitrary: c) (auto simp: appendEvents_exact)

lemma on_health_simps [simp]:
  "uc_events (on_health f c) = uc_events c" "uc_window (on_health f c) = uc_window c"
  "uc_credentialHealth (on_health f c) = f (uc_credentialHealth c)"
  by (simp_all add: on_health_def)

text \<open>The events a cache holds from a time on.\<close>

definition recent :: "gtime \<Rightarrow> RecentUsageEvent list \<Rightarrow> RecentUsageEvent list" where
  "recent start es = filter (\<lambda>e. start \<le> rc_Timestamp e) es"

lemma recent_append [simp]: "recent start [] = []" "recent start (es @ fs) = recent start es @ recent start fs"
  by (simp_all add: recent_def)

lemma prune_recent:
  assumes "t_add now (- uc_window c) \<le> start"
  shows "recent start (uc_events (pruneLocked now c)) = recent start (uc_events c)"
  using assms unfolding recent_def pruneLocked_def by (auto simp: Let_def intro!: filter_cong)

lemma appendEvents_window [simp]: "uc_window (appendEvents uni ord now events c) = uc_window c"
  by (simp add: appendEvents_def pruneLocked_def append_rows Let_def split_def)

lemma appendEvents_recent:
  assumes "t_add now (- uc_window c) \<le> start"
  shows "recent start (uc_events (appendEvents uni ord now events c)) =
    recent start (uc_events c @ map (project_event uni) events)"
  using assms by (simp add: appendEvents_def Let_def split_def prune_recent append_rows event_loaded)

lemma append_all_recent:
  "\<forall>(now, events) \<in> set steps. t_add now (- uc_window c) \<le> start \<Longrightarrow>
   recent start (uc_events (append_all uni ord steps c)) =
     recent start (uc_events c @ map (project_event uni) (appended steps))"
  by (induction steps arbitrary: c) (auto simp: appendEvents_recent)

text \<open>The rows added to the health of the credentials, whatever keys were touched before.\<close>

definition add_rows :: "credentialHealthLoadRow list \<Rightarrow> credentialHealthCache \<Rightarrow> credentialHealthCache" where
  "add_rows rows h = snd (appendCredentialHealthRowsLocked rows h [])"

definition add_row :: "credentialHealthLoadRow \<Rightarrow> credentialHealthCache \<Rightarrow> credentialHealthCache" where
  "add_row row h =
     (if hr_AuthType row = [] \<or> hr_AuthIndex row = [] then h
      else let key = (hr_AuthType row, hr_AuthIndex row); buckets = get_or [] (hh_bucketsByCredential h) key;
               u = credentialHealthBucketUnix (hr_Timestamp row) in
           h\<lparr>hh_bucketsByCredential := mput (hh_bucketsByCredential h) key
             (mput buckets u (add_health_row row (get_or no_counts buckets u)))\<rparr>)"

lemma touched_irrelevant: "snd (appendCredentialHealthRowsLocked rows h touched) = fold add_row rows h"
proof (induction rows arbitrary: h touched)
  case (Cons row rows)
  show ?case
  proof (cases "hr_AuthType row = [] \<or> hr_AuthIndex row = []")
    case True
    then show ?thesis by (auto simp: newCredentialHealthKey_def add_row_def Cons.IH)
  next
    case False
    then show ?thesis by (simp add: newCredentialHealthKey_def add_row_def Let_def Cons.IH)
  qed
qed simp

lemma add_rows_fold: "add_rows rows h = fold add_row rows h"
  by (simp add: add_rows_def touched_irrelevant)

lemma add_rows_append: "add_rows (xs @ ys) h = add_rows ys (add_rows xs h)"
  by (simp add: add_rows_fold)

lemma concat_health_batches: "n > 0 \<Longrightarrow> concat (health_batches n rows) = rows"
  by (induction n rows rule: health_batches.induct) (subst health_batches.simps, auto)

lemma load_health_adds: "load_health n rows c = on_health (add_rows rows) c"
proof -
  have folded: "fold (\<lambda>batch. on_health (\<lambda>h. snd (appendCredentialHealthRowsLocked batch h []))) batches c =
    on_health (add_rows (concat batches)) c" for batches
    by (induction batches arbitrary: c)
      (simp_all add: on_health_def touched_irrelevant add_rows_fold)
  show ?thesis by (simp add: load_health_def folded concat_health_batches)
qed

lemma started:
  assumes "NewUsageRecentEventCache uni ord z load_rows scan_health now window = Inr c"
  obtains rows scanned c0 where
    "load_rows (FormatStorageTime z (t_add now (- uc_window c))) = Inr rows"
    "scan_health (FormatStorageTime z (t_add now (- credentialHealthWindow))) = (scanned, None)"
    "c0 = newEmptyUsageRecentEventCache window"
    "c = on_health (\<lambda>h. pruneCredentialHealthLocked ord now None (add_rows scanned h)) (pruneLocked now (appendRecentEventsLocked uni rows c0))"
    "uc_window c = uc_window c0"
  using assms
  by (auto simp: NewUsageRecentEventCache_def Let_def load_health_adds on_health_def pruneLocked_def append_rows
      split: sum.splits prod.splits option.splits)

lemma started_exact:
  assumes "NewUsageRecentEventCache uni ord z load_rows scan_health now window = Inr c"
  shows "pool_exact c"
  using assms by (rule started) (simp add: prune_exact append_exact empty_exact)

lemma started_recent:
  assumes "NewUsageRecentEventCache uni ord z load_rows scan_health now window = Inr c"
    and "load_rows (FormatStorageTime z (t_add now (- uc_window c))) = Inr rows"
    and "t_add now (- uc_window c) \<le> start"
  shows "recent start (uc_events c) = recent start (map (project_row uni) rows)"
  using assms(1)
proof (rule started)
  fix rows' scanned c0
  assume at_start: "load_rows (FormatStorageTime z (t_add now (- uc_window c))) = Inr rows'"
    "c0 = newEmptyUsageRecentEventCache window"
    "c = on_health (\<lambda>h. pruneCredentialHealthLocked ord now None (add_rows scanned h)) (pruneLocked now (appendRecentEventsLocked uni rows' c0))"
    "uc_window c = uc_window c0"
  have "recent start (uc_events c) = recent start (uc_events (pruneLocked now (appendRecentEventsLocked uni rows' c0)))"
    by (simp add: at_start(3))
  also have "\<dots> = recent start (uc_events (appendRecentEventsLocked uni rows' c0))"
    by (rule prune_recent) (use assms(3) at_start(4) in \<open>simp add: append_rows\<close>)
  finally show ?thesis
    using at_start(1,2) assms(2) by (simp add: append_rows newEmptyUsageRecentEventCache_def)
qed

section \<open>The queue\<close>

definition being_taken :: "append_queue \<Rightarrow> UsageEvent list list" where
  "being_taken q = (case aq_taken q of None \<Rightarrow> [] | Some (events, _) \<Rightarrow> [events])"

definition slots_counted :: "append_queue \<Rightarrow> bool" where
  "slots_counted q \<longleftrightarrow>
     aq_slots q + length (aq_sending q) + length (aq_channel q) +
       (case aq_taken q of Some (_, False) \<Rightarrow> 1 | _ \<Rightarrow> 0) = aq_size q"

definition queue_inv :: "append_queue \<Rightarrow> queue_label list \<Rightarrow> bool" where
  "queue_inv q ls \<longleftrightarrow> slots_counted q \<and> accepted ls = aq_handled q @ being_taken q @ aq_channel q"

lemma accepted_append [simp]:
  "accepted [] = []" "accepted (ls @ ks) = accepted ls @ accepted ks"
  "accepted [Accepts events] = [events]" "accepted [Refuses events] = []" "accepted [Internal] = []"
  by (simp_all add: accepted_def map_filter_def)

lemma queue_inv_step:
  assumes "queue_inv q ls" "queue_step q l q'"
  shows "queue_inv q' (ls @ [l])"
  using assms(2,1)
  by (cases rule: queue_step.cases)
    (auto simp: queue_inv_def slots_counted_def being_taken_def releaseAppendSlot_def split: option.splits)

lemma queue_inv_run: "queue_run q0 ls q \<Longrightarrow> q0 = new_append_queue n \<Longrightarrow> queue_inv q ls"
proof (induction rule: queue_run.induct)
  case (start q)
  then show ?case by (simp add: queue_inv_def slots_counted_def being_taken_def new_append_queue_def Let_def)
next
  case (step q ls q' l q'')
  then show ?case using queue_inv_step by blast
qed

lemma queue_size: "queue_run q0 ls q \<Longrightarrow> aq_size q = aq_size q0"
  by (induction rule: queue_run.induct) (auto elim!: queue_step_cases simp: releaseAppendSlot_def)

lemma slot_finds_room:
  assumes "queue_inv q ls" "aq_sending q \<noteq> []"
  shows "length (aq_channel q) < aq_size q"
proof -
  have "length (aq_sending q) > 0" using assms(2) by simp
  then show ?thesis using assms(1) unfolding queue_inv_def slots_counted_def by linarith
qed

end
