(* ===== verification/CredentialHealth.thy ===== *)
theory CredentialHealth
  imports RecentCacheSafety
begin

text \<open>
  What the health of a credential shows: thirty buckets of ten minutes whose counts are those of the requests of the
  credential, loaded at the start or appended since, that fall into them.
\<close>

section \<open>Buckets\<close>

definition health_get :: "credentialHealthCache \<Rightarrow> credentialHealthKey \<Rightarrow> int \<Rightarrow> credentialHealthBucketCounts" where
  "health_get h key u = get_or no_counts (get_or [] (hh_bucketsByCredential h) key) u"

lemma get_or_simps [simp]:
  "get_or d [] k = d"
  "get_or d (mput m k v) k' = (if k' = k then v else get_or d m k')"
  "get_or d (mdel m k) k' = (if k' = k then d else get_or d m k')"
  by (simp_all add: get_or_def)

lemma get_or_filter: "P u \<Longrightarrow> get_or d (filter (\<lambda>(u, c). P u) m) u = get_or d m u"
  by (induction m) (auto simp: get_or_def)

definition row_key :: "credentialHealthLoadRow \<Rightarrow> credentialHealthKey" where
  "row_key row = (hr_AuthType row, hr_AuthIndex row)"

definition in_bucket :: "credentialHealthKey \<Rightarrow> int \<Rightarrow> credentialHealthLoadRow \<Rightarrow> bool" where
  "in_bucket key u row \<longleftrightarrow> row_key row = key \<and> credentialHealthBucketUnix (hr_Timestamp row) = u"

lemma health_add_row:
  assumes "fst key \<noteq> []" "snd key \<noteq> []"
  shows "health_get (add_row row h) key u = (if in_bucket key u row then add_health_row row (health_get h key u) else health_get h key u)"
  using assms by (auto simp: health_get_def add_row_def in_bucket_def row_key_def Let_def)

lemma health_add_rows:
  assumes "fst key \<noteq> []" "snd key \<noteq> []"
  shows "health_get (add_rows rows h) key u = fold add_health_row (filter (in_bucket key u) rows) (health_get h key u)"
  by (induction rows arbitrary: h) (simp_all add: add_rows_fold health_add_row [OF assms])

lemma health_prune_key:
  assumes "cutoff \<le> u"
  shows "health_get (pruneCredentialHealthKeyLocked k cutoff h) key u = health_get h key u"
proof -
  let ?kept = "filter (\<lambda>(bucketUnix, counts). \<not> bucketUnix < cutoff) (get_or [] (hh_bucketsByCredential h) k)"
  have "get_or no_counts ?kept u = get_or no_counts (get_or [] (hh_bucketsByCredential h) k) u"
    by (rule get_or_filter) (use assms in simp)
  then show ?thesis
    by (auto simp: health_get_def pruneCredentialHealthKeyLocked_def Let_def)
qed

lemma health_prune:
  assumes "unix (credentialHealthWindowStart now) \<le> u"
  shows "health_get (pruneCredentialHealthLocked ord now touched h) key u = health_get h key u"
proof -
  have "health_get (fold (\<lambda>k. pruneCredentialHealthKeyLocked k (unix (credentialHealthWindowStart now))) ks h) key u = health_get h key u" for ks h
    by (induction ks arbitrary: h) (simp_all add: health_prune_key assms)
  then show ?thesis
    by (simp add: pruneCredentialHealthLocked_def Let_def health_get_def)
qed

lemma other_parts [simp]:
  "uc_credentialHealth (pruneLocked now c) = uc_credentialHealth c"
  "uc_credentialHealth (appendRecentEventsLocked uni rows c) = uc_credentialHealth c"
  "health_get (uc_credentialHealth (newEmptyUsageRecentEventCache window)) key u = no_counts"
  by (simp_all add: pruneLocked_def append_rows newEmptyUsageRecentEventCache_def health_get_def Let_def)

lemma health_appendEvents:
  assumes "fst key \<noteq> []" "snd key \<noteq> []" "unix (credentialHealthWindowStart now) \<le> u"
  shows "health_get (uc_credentialHealth (appendEvents uni ord now events c)) key u =
    fold add_health_row (filter (in_bucket key u) (credentialHealthRowsFromUsageEvents events)) (health_get (uc_credentialHealth c) key u)"
  using health_add_rows [OF assms(1,2)]
  by (simp add: appendEvents_def Let_def split_def health_prune [OF assms(3)] touched_irrelevant
      add_rows_fold [symmetric] credentialHealthRowsFromUsageEvents_def)

lemma health_append_all:
  assumes "fst key \<noteq> []" "snd key \<noteq> []" "\<forall>(now, events) \<in> set steps. unix (credentialHealthWindowStart now) \<le> u"
  shows "health_get (uc_credentialHealth (append_all uni ord steps c)) key u =
    fold add_health_row (filter (in_bucket key u) (credentialHealthRowsFromUsageEvents (appended steps))) (health_get (uc_credentialHealth c) key u)"
  using assms(3)
proof (induction steps arbitrary: c)
  case Nil
  then show ?case by (simp add: credentialHealthRowsFromUsageEvents_def)
next
  case (Cons s steps)
  obtain now events where s: "s = (now, events)" by (cases s)
  with Cons.prems have later: "unix (credentialHealthWindowStart now) \<le> u" by simp
  show ?case using Cons
    by (simp add: s health_appendEvents [OF assms(1,2) later] credentialHealthRowsFromUsageEvents_def)
qed

lemma health_started:
  assumes "NewUsageRecentEventCache uni ord z load_rows scan_health now window = Inr c"
    and "scan_health (FormatStorageTime z (t_add now (- credentialHealthWindow))) = (scanned, None)"
    and "fst key \<noteq> []" "snd key \<noteq> []" "unix (credentialHealthWindowStart now) \<le> u"
  shows "health_get (uc_credentialHealth c) key u = fold add_health_row (filter (in_bucket key u) scanned) no_counts"
  using assms(1)
proof (rule started)
  fix rows scanned' c0
  assume at_start: "scan_health (FormatStorageTime z (t_add now (- credentialHealthWindow))) = (scanned', None)"
    "c0 = newEmptyUsageRecentEventCache window"
    "c = on_health (\<lambda>h. pruneCredentialHealthLocked ord now None (add_rows scanned' h)) (pruneLocked now (appendRecentEventsLocked uni rows c0))"
  then show ?thesis
    using assms(2) by (simp add: health_prune [OF assms(5)] health_add_rows [OF assms(3,4)])
qed

section \<open>Counts\<close>

definition tokens_of :: "(credentialHealthLoadRow \<Rightarrow> int) \<Rightarrow> credentialHealthLoadRow list \<Rightarrow> int" where
  "tokens_of f rows = sum_list (map (\<lambda>row. max (f row) 0) rows)"

lemma tokens_of_simps [simp]:
  "tokens_of f [] = 0" "tokens_of f (row # rows) = max (f row) 0 + tokens_of f rows" "tokens_of f rows \<ge> 0"
  by (simp_all add: tokens_of_def) (rule sum_list_nonneg, auto)

lemma saturating_min:
  assumes "0 \<le> a" "0 \<le> v"
  shows "saturatingAddCredentialHealthTokens (min MaxInt64 a) v = min MaxInt64 (a + v)"
  using assms by (auto simp: saturatingAddCredentialHealthTokens_def min_def)

lemma counts_of_rows:
  assumes "i64 (int (length rows))"
  shows "fold add_health_row rows no_counts =
    \<lparr>hc_success = int (length (filter (\<lambda>row. \<not> hr_Failed row) rows)), hc_failure = int (length (filter hr_Failed rows)),
     hc_inputTokens = min MaxInt64 (tokens_of hr_InputTokens rows), hc_cacheReadTokens = min MaxInt64 (tokens_of hr_CacheReadTokens rows)\<rparr>"
  using assms
proof (induction rows rule: rev_induct)
  case Nil
  show ?case by (simp add: no_counts_def)
next
  case (snoc row rows)
  have fits: "i64 (int (length rows))" using snoc.prems by (auto simp: i64_def)
  have small: "length (filter P rows) \<le> length rows" for P by simp
  have counts: "i64 (int (length (filter P rows)) + 1)" for P
    using snoc.prems small [of P] unfolding i64_def by (simp del: length_filter_le)
  have tokens: "tokens_of f (rows @ [row]) = tokens_of f rows + max (f row) 0" for f
    by (simp add: tokens_of_def)
  have "fold add_health_row (rows @ [row]) no_counts = add_health_row row (fold add_health_row rows no_counts)" by simp
  also have "\<dots> = add_health_row row
    \<lparr>hc_success = int (length (filter (\<lambda>row. \<not> hr_Failed row) rows)), hc_failure = int (length (filter hr_Failed rows)),
     hc_inputTokens = min MaxInt64 (tokens_of hr_InputTokens rows), hc_cacheReadTokens = min MaxInt64 (tokens_of hr_CacheReadTokens rows)\<rparr>"
    by (simp only: snoc.IH [OF fits])
  also have "\<dots> =
    \<lparr>hc_success = int (length (filter (\<lambda>row. \<not> hr_Failed row) (rows @ [row]))), hc_failure = int (length (filter hr_Failed (rows @ [row]))),
     hc_inputTokens = min MaxInt64 (tokens_of hr_InputTokens (rows @ [row])),
     hc_cacheReadTokens = min MaxInt64 (tokens_of hr_CacheReadTokens (rows @ [row]))\<rparr>"
    by (simp add: add_health_row_def Let_def wrap64_id [OF counts] saturating_min tokens)
  finally show ?case .
qed

section \<open>The window\<close>

definition aligned :: "gtime \<Rightarrow> bool" where
  "aligned s \<longleftrightarrow> credentialHealthBucketSpan dvd s - zero_time"

definition within :: "gtime \<Rightarrow> gtime \<Rightarrow> credentialHealthLoadRow \<Rightarrow> bool" where
  "within s e row \<longleftrightarrow> s \<le> hr_Timestamp row \<and> hr_Timestamp row < e"

lemma truncated:
  obtains j where "t_truncate t credentialHealthBucketSpan = zero_time + credentialHealthBucketSpan * j"
    "zero_time + credentialHealthBucketSpan * j \<le> t" "t < zero_time + credentialHealthBucketSpan * j + credentialHealthBucketSpan"
proof
  let ?j = "(t - zero_time) div credentialHealthBucketSpan" and ?r = "(t - zero_time) mod credentialHealthBucketSpan"
  have split: "t - zero_time = credentialHealthBucketSpan * ?j + ?r" by simp
  have r: "0 \<le> ?r" "?r < credentialHealthBucketSpan" by simp_all
  show "t_truncate t credentialHealthBucketSpan = zero_time + credentialHealthBucketSpan * ?j"
  proof -
    have "t_truncate t credentialHealthBucketSpan = t - ?r" by (simp add: t_truncate_def)
    with split show ?thesis by linarith
  qed
  show "zero_time + credentialHealthBucketSpan * ?j \<le> t" using split r by linarith
  show "t < zero_time + credentialHealthBucketSpan * ?j + credentialHealthBucketSpan" using split r by linarith
qed

lemma window_end_aligned: "aligned (credentialHealthWindowEnd now)"
proof -
  obtain j where "t_truncate now credentialHealthBucketSpan = zero_time + credentialHealthBucketSpan * j" by (rule truncated)
  then have "credentialHealthWindowEnd now - zero_time = credentialHealthBucketSpan * (j + 1)"
    by (simp add: credentialHealthWindowEnd_def t_add_def)
  then show ?thesis unfolding aligned_def by (metis dvd_triv_left)
qed

lemma unix_aligned: "unix (zero_time + credentialHealthBucketSpan * i) = - 62135596800 + 600 * i"
proof -
  have "zero_time + credentialHealthBucketSpan * i = time_unix (- 62135596800 + 600 * i)"
    by (simp add: zero_time_def time_unix_def)
  then show ?thesis by simp
qed

lemma bucket_unix:
  assumes "aligned s"
  shows "credentialHealthBucketUnix t = unix s \<longleftrightarrow> s \<le> t \<and> t < s + credentialHealthBucketSpan"
proof -
  obtain k where "s - zero_time = credentialHealthBucketSpan * k" using assms unfolding aligned_def by (rule dvdE)
  then have s: "s = zero_time + credentialHealthBucketSpan * k" by simp
  obtain j where j: "t_truncate t credentialHealthBucketSpan = zero_time + credentialHealthBucketSpan * j"
    "zero_time + credentialHealthBucketSpan * j \<le> t" "t < zero_time + credentialHealthBucketSpan * j + credentialHealthBucketSpan"
    by (rule truncated)
  have "credentialHealthBucketUnix t = unix s \<longleftrightarrow> j = k"
    unfolding credentialHealthBucketUnix_def j(1) s unix_aligned by simp
  also have "\<dots> \<longleftrightarrow> s \<le> t \<and> t < s + credentialHealthBucketSpan"
    unfolding s using j(2,3) by linarith
  finally show ?thesis .
qed

lemma window_starts_step:
  "window_starts s (s + int n * credentialHealthBucketSpan) = map (\<lambda>i. s + int i * credentialHealthBucketSpan) [0..<n]"
proof (induction n arbitrary: s)
  case 0
  show ?case by (subst window_starts.simps) simp
next
  case (Suc n)
  have "window_starts s (s + int (Suc n) * credentialHealthBucketSpan) =
      s # window_starts (s + credentialHealthBucketSpan) ((s + credentialHealthBucketSpan) + int n * credentialHealthBucketSpan)"
    by (subst window_starts.simps) (simp add: t_add_def algebra_simps)
  also have "\<dots> = s # map (\<lambda>i. s + int (Suc i) * credentialHealthBucketSpan) [0..<n]"
    unfolding Suc.IH by (simp add: algebra_simps)
  also have "\<dots> = map (\<lambda>i. s + int i * credentialHealthBucketSpan) [0..<Suc n]"
    by (simp add: upt_conv_Cons map_Suc_upt [symmetric] del: upt_Suc map_Suc_upt)
  finally show ?case .
qed

lemma buckets_cover:
  "(\<Sum>i\<leftarrow>[0..<n]. sum_list (map f (filter (within (s + int i * credentialHealthBucketSpan) (s + int i * credentialHealthBucketSpan + credentialHealthBucketSpan)) rows))) =
     (sum_list (map f (filter (within s (s + int n * credentialHealthBucketSpan)) rows)) :: int)"
proof (induction n)
  case 0
  have "filter (within s s) rows = []" by (auto simp: filter_empty_conv within_def)
  then show ?case by simp
next
  case (Suc n)
  have "sum_list (map f (filter (within s (s + int (Suc n) * credentialHealthBucketSpan)) rows)) =
      sum_list (map f (filter (within s (s + int n * credentialHealthBucketSpan)) rows)) +
      sum_list (map f (filter (within (s + int n * credentialHealthBucketSpan) (s + int n * credentialHealthBucketSpan + credentialHealthBucketSpan)) rows))"
    by (induction rows) (auto simp: within_def algebra_simps)
  with Suc show ?case by simp
qed

section \<open>The snapshot\<close>

lemma unix_mono: "s \<le> t \<Longrightarrow> unix s \<le> unix t"
  unfolding unix_def by (simp add: zdiv_mono1)

lemma window_end_mono: "s \<le> t \<Longrightarrow> credentialHealthWindowEnd s \<le> credentialHealthWindowEnd t"
proof -
  assume "s \<le> t"
  obtain i where i: "t_truncate s credentialHealthBucketSpan = zero_time + credentialHealthBucketSpan * i"
    "zero_time + credentialHealthBucketSpan * i \<le> s" by (rule truncated)
  obtain j where j: "t_truncate t credentialHealthBucketSpan = zero_time + credentialHealthBucketSpan * j"
    "t < zero_time + credentialHealthBucketSpan * j + credentialHealthBucketSpan" by (rule truncated)
  have "i \<le> j" using \<open>s \<le> t\<close> i(2) j(2) by linarith
  then show ?thesis unfolding credentialHealthWindowEnd_def t_add_def i(1) j(1) by simp
qed

lemma sum_counts:
  assumes "\<forall>x \<in> set xs. 0 \<le> f x" "i64 (sum_list (map f xs))"
  shows "fold (\<lambda>x n. wrap64 (n + f x)) xs 0 = sum_list (map f xs)"
  using assms
proof (induction xs rule: rev_induct)
  case (snoc x xs)
  have "sum_list (map f xs) \<ge> 0" using snoc.prems(1) by (intro sum_list_nonneg) auto
  then have "i64 (sum_list (map f xs))" using snoc.prems by (auto simp: i64_def)
  with snoc show ?case by (simp add: wrap64_id)
qed simp

lemma sum_tokens:
  assumes "\<forall>x \<in> set xs. 0 \<le> f x"
  shows "fold (\<lambda>x n. saturatingAddCredentialHealthTokens n (min MaxInt64 (f x))) xs 0 = min MaxInt64 (sum_list (map f xs))"
  using assms
proof (induction xs rule: rev_induct)
  case (snoc x xs)
  have nonneg: "sum_list (map f xs) \<ge> 0" using snoc.prems by (intro sum_list_nonneg) auto
  have "saturatingAddCredentialHealthTokens (min MaxInt64 a) (min MaxInt64 v) = min MaxInt64 (a + v)" if "0 \<le> a" "0 \<le> v" for a v
    using that by (auto simp: saturatingAddCredentialHealthTokens_def min_def)
  with snoc nonneg show ?case by simp
qed simp

text \<open>The requests of a credential between two times, and the counts of some requests.\<close>

definition requests_of :: "credentialHealthKey \<Rightarrow> gtime \<Rightarrow> gtime \<Rightarrow> credentialHealthLoadRow list \<Rightarrow> credentialHealthLoadRow list" where
  "requests_of key start end_time rows = filter (\<lambda>row. row_key row = key \<and> within start end_time row) rows"

definition successes :: "credentialHealthLoadRow list \<Rightarrow> int" where
  "successes rows = int (length (filter (\<lambda>row. \<not> hr_Failed row) rows))"

definition failures :: "credentialHealthLoadRow list \<Rightarrow> int" where
  "failures rows = int (length (filter hr_Failed rows))"

lemma counts_as_sums:
  "successes rows = sum_list (map (\<lambda>row. if hr_Failed row then 0 else 1) rows)"
  "failures rows = sum_list (map (\<lambda>row. if hr_Failed row then 1 else 0) rows)"
  by (induction rows) (simp_all add: successes_def failures_def)

lemma counts_bounded: "successes rows + failures rows = int (length rows)" "successes rows \<ge> 0" "failures rows \<ge> 0"
proof -
  show "successes rows + failures rows = int (length rows)"
    by (induction rows) (simp_all add: successes_def failures_def)
qed (simp_all add: successes_def failures_def)

lemma requests_length: "length (requests_of key s e rows) \<le> length rows"
  by (simp add: requests_of_def)

lemma requests_cover:
  "(\<Sum>i\<leftarrow>[0..<n]. sum_list (map f (requests_of key (s + int i * credentialHealthBucketSpan) (s + int i * credentialHealthBucketSpan + credentialHealthBucketSpan) rows))) =
     (sum_list (map f (requests_of key s (s + int n * credentialHealthBucketSpan) rows)) :: int)"
proof -
  have "requests_of key a b rows = filter (within a b) (filter (\<lambda>row. row_key row = key) rows)" for a b
    by (simp add: requests_of_def conj_commute)
  then show ?thesis using buckets_cover [of f s "filter (\<lambda>row. row_key row = key) rows" n] by simp
qed

definition health_counts :: "credentialHealthLoadRow list \<Rightarrow> credentialHealthBucketCounts" where
  "health_counts rows = \<lparr>hc_success = successes rows, hc_failure = failures rows,
     hc_inputTokens = min MaxInt64 (tokens_of hr_InputTokens rows), hc_cacheReadTokens = min MaxInt64 (tokens_of hr_CacheReadTokens rows)\<rparr>"

definition bucket_starts :: "gtime \<Rightarrow> gtime list" where
  "bucket_starts now = map (\<lambda>i. credentialHealthWindowStart now + int i * credentialHealthBucketSpan) [0..<30]"

text \<open>What the buckets of a credential hold when they count \<open>rows\<close>, at least from the start of the window on.\<close>

definition holds_rows :: "(int, credentialHealthBucketCounts) gomap \<Rightarrow> credentialHealthKey \<Rightarrow> gtime \<Rightarrow> credentialHealthLoadRow list \<Rightarrow> bool" where
  "holds_rows buckets key now rows \<longleftrightarrow>
     (\<forall>u \<ge> unix (credentialHealthWindowStart now). get_or no_counts buckets u = fold add_health_row (filter (in_bucket key u) rows) no_counts)"

lemma window_start_aligned: "aligned (credentialHealthWindowStart now + int i * credentialHealthBucketSpan)"
proof -
  have "credentialHealthWindowStart now + int i * credentialHealthBucketSpan - zero_time =
      credentialHealthWindowEnd now - zero_time + credentialHealthBucketSpan * (int i - 30)"
    by (simp add: credentialHealthWindowStart_def t_add_def algebra_simps)
  moreover have "credentialHealthBucketSpan dvd credentialHealthWindowEnd now - zero_time"
    using window_end_aligned [of now] by (simp only: aligned_def)
  ultimately show ?thesis unfolding aligned_def by (metis dvd_add dvd_triv_left)
qed

lemma starts_of_window:
  "window_starts (credentialHealthWindowStart now) (credentialHealthWindowEnd now) = bucket_starts now"
  "credentialHealthWindowEnd now = credentialHealthWindowStart now + int 30 * credentialHealthBucketSpan"
proof -
  show ends: "credentialHealthWindowEnd now = credentialHealthWindowStart now + int 30 * credentialHealthBucketSpan"
    by (simp add: credentialHealthWindowStart_def t_add_def)
  show "window_starts (credentialHealthWindowStart now) (credentialHealthWindowEnd now) = bucket_starts now"
    unfolding ends window_starts_step bucket_starts_def ..
qed

lemma bucket_holds:
  assumes "holds_rows buckets key now rows" "i64 (int (length rows))" "s \<in> set (bucket_starts now)"
  shows "get_or no_counts buckets (unix s) = health_counts (requests_of key s (s + credentialHealthBucketSpan) rows)"
proof -
  from assms(3) obtain i where s: "s = credentialHealthWindowStart now + int i * credentialHealthBucketSpan"
    by (auto simp: bucket_starts_def)
  then have "unix (credentialHealthWindowStart now) \<le> unix s" by (intro unix_mono) simp
  with assms(1) have "get_or no_counts buckets (unix s) = fold add_health_row (filter (in_bucket key (unix s)) rows) no_counts"
    by (simp add: holds_rows_def)
  also have "filter (in_bucket key (unix s)) rows = requests_of key s (s + credentialHealthBucketSpan) rows"
    unfolding requests_of_def in_bucket_def within_def
    by (rule filter_cong [OF refl]) (simp only: bucket_unix [OF window_start_aligned [of now i, folded s]])
  finally have "get_or no_counts buckets (unix s) = fold add_health_row (requests_of key s (s + credentialHealthBucketSpan) rows) no_counts" .
  moreover have "i64 (int (length (requests_of key s (s + credentialHealthBucketSpan) rows)))"
    using assms(2) requests_length [of key s "s + credentialHealthBucketSpan" rows] unfolding i64_def by linarith
  ultimately show ?thesis
    by (simp only: counts_of_rows health_counts_def successes_def failures_def)
qed

lemma bucket_sum:
  assumes "\<And>rows. g rows = sum_list (map f rows)"
  shows "sum_list (map (\<lambda>s. g (requests_of key s (s + credentialHealthBucketSpan) rows)) (bucket_starts now)) =
    (g (requests_of key (credentialHealthWindowStart now) (credentialHealthWindowEnd now) rows) :: int)"
  unfolding assms bucket_starts_def map_map comp_def starts_of_window(2) requests_cover ..

lemma health_selectors:
  "hc_success (health_counts rows) = successes rows" "hc_failure (health_counts rows) = failures rows"
  "hc_inputTokens (health_counts rows) = min MaxInt64 (tokens_of hr_InputTokens rows)"
  "hc_cacheReadTokens (health_counts rows) = min MaxInt64 (tokens_of hr_CacheReadTokens rows)"
  by (simp_all add: health_counts_def)

lemma window_count:
  assumes "\<And>rows. g rows = sum_list (map f rows)" "\<And>rows. 0 \<le> g rows"
    and "i64 (g (requests_of key (credentialHealthWindowStart now) (credentialHealthWindowEnd now) rows))"
  shows "fold (\<lambda>s n. wrap64 (n + g (requests_of key s (s + credentialHealthBucketSpan) rows))) (bucket_starts now) 0 =
    g (requests_of key (credentialHealthWindowStart now) (credentialHealthWindowEnd now) rows)"
proof -
  have "sum_list (map (\<lambda>s. g (requests_of key s (s + credentialHealthBucketSpan) rows)) (bucket_starts now)) =
      g (requests_of key (credentialHealthWindowStart now) (credentialHealthWindowEnd now) rows)"
    by (rule bucket_sum [OF assms(1)])
  with assms(2,3) show ?thesis
    using sum_counts [of "bucket_starts now" "\<lambda>s. g (requests_of key s (s + credentialHealthBucketSpan) rows)"] by simp
qed

lemma window_tokens:
  "fold (\<lambda>s n. saturatingAddCredentialHealthTokens n (min MaxInt64 (tokens_of f (requests_of key s (s + credentialHealthBucketSpan) rows)))) (bucket_starts now) 0 =
    min MaxInt64 (tokens_of f (requests_of key (credentialHealthWindowStart now) (credentialHealthWindowEnd now) rows))"
proof -
  have "sum_list (map (\<lambda>s. tokens_of f (requests_of key s (s + credentialHealthBucketSpan) rows)) (bucket_starts now)) =
      tokens_of f (requests_of key (credentialHealthWindowStart now) (credentialHealthWindowEnd now) rows)"
    by (rule bucket_sum [OF tokens_of_def])
  then show ?thesis
    using sum_tokens [of "bucket_starts now" "\<lambda>s. tokens_of f (requests_of key s (s + credentialHealthBucketSpan) rows)"] by simp
qed

lemma requests_fit:
  assumes "i64 (int (length rows))"
  shows "i64 (successes (requests_of key a b rows))" "i64 (failures (requests_of key a b rows))"
    "wrap64 (successes (requests_of key a b rows) + failures (requests_of key a b rows)) = int (length (requests_of key a b rows))"
proof -
  have "0 \<le> x \<Longrightarrow> x \<le> int (length (requests_of key a b rows)) \<Longrightarrow> i64 x" for x
    using assms requests_length [of key a b rows] unfolding i64_def by linarith
  then show "i64 (successes (requests_of key a b rows))" "i64 (failures (requests_of key a b rows))"
    "wrap64 (successes (requests_of key a b rows) + failures (requests_of key a b rows)) = int (length (requests_of key a b rows))"
    using counts_bounded [of "requests_of key a b rows"] by (simp_all add: wrap64_id)
qed

definition expected_snapshot :: "credentialHealthKey \<Rightarrow> gtime \<Rightarrow> credentialHealthLoadRow list \<Rightarrow> CredentialHealthSnapshot" where
  "expected_snapshot key now rows =
     (let mine = (\<lambda>start end_time. requests_of key start end_time rows);
          all = mine (credentialHealthWindowStart now) (credentialHealthWindowEnd now)
      in \<lparr>hs_WindowSeconds = 18000, hs_BucketSeconds = 600,
          hs_WindowStart = credentialHealthWindowStart now, hs_WindowEnd = credentialHealthWindowEnd now,
          hs_TotalSuccess = successes all, hs_TotalFailure = failures all, hs_SuccessRate = rate_of 100 (successes all) (int (length all)),
          hs_InputTokens = min MaxInt64 (tokens_of hr_InputTokens all),
          hs_CacheReadTokens = min MaxInt64 (tokens_of hr_CacheReadTokens all),
          hs_Buckets = map (\<lambda>s. let here = mine s (s + credentialHealthBucketSpan) in
            \<lparr>hb_StartTime = s, hb_EndTime = s + credentialHealthBucketSpan, hb_Success = successes here, hb_Failure = failures here,
             hb_Rate = rate_of 1 (successes here) (int (length here))\<rparr>) (bucket_starts now)\<rparr>)"

lemma snapshot_expected:
  assumes "holds_rows buckets key now rows" "i64 (int (length rows))"
  shows "buildCredentialHealthSnapshot buckets now = expected_snapshot key now rows"
proof -
  let ?here = "\<lambda>s. requests_of key s (s + credentialHealthBucketSpan) rows"
  have counts: "map (\<lambda>s. get_or no_counts buckets (unix s)) (bucket_starts now) = map (\<lambda>s. health_counts (?here s)) (bucket_starts now)"
    using bucket_holds [OF assms] by simp
  have folded: "fold g (map h xs) a = fold (\<lambda>x. g (h x)) xs a" for g h a and xs :: "gtime list"
    by (simp add: fold_map comp_def)
  have buckets: "map (health_bucket buckets) (bucket_starts now) =
      map (\<lambda>s. \<lparr>hb_StartTime = s, hb_EndTime = s + credentialHealthBucketSpan, hb_Success = successes (?here s), hb_Failure = failures (?here s),
        hb_Rate = rate_of 1 (successes (?here s)) (int (length (?here s)))\<rparr>) (bucket_starts now)"
    using bucket_holds [OF assms] by (simp only: health_bucket_def Let_def t_add_def requests_fit(3) [OF assms(2)] health_selectors cong: map_cong)
  note totals = window_count [OF counts_as_sums(1) counts_bounded(2) requests_fit(1) [OF assms(2)]]
    window_count [OF counts_as_sums(2) counts_bounded(3) requests_fit(2) [OF assms(2)]]
  show ?thesis
    unfolding buildCredentialHealthSnapshot_def Let_def expected_snapshot_def
      credentialHealthWindowStart_def [symmetric] starts_of_window(1) counts
    unfolding folded health_selectors totals window_tokens buckets requests_fit(3) [OF assms(2)]
    by simp
qed

end
