(* ===== verification/RecentCacheProps.thy ===== *)
theory RecentCacheProps
  imports CredentialHealth
begin

text \<open>The properties of the cache of recent events and of the health of credentials.\<close>

definition since :: "gtime \<Rightarrow> string \<Rightarrow> RecentUsageEvent \<Rightarrow> bool" where
  "since start apiGroupKey e \<longleftrightarrow> start \<le> rc_Timestamp e \<and> (go_trim_space apiGroupKey = [] \<or> rc_APIGroupKey e = go_trim_space apiGroupKey)"

text \<open>A query from \<open>start\<close> on sees the cache only through its events from \<open>start\<close> on.\<close>

lemma queries_recent:
  "EventsSince (Some c) start key = (filter (since start key) (recent start (uc_events c)), True)"
  "cache_Events (Some c) start end_time inc key =
     (filter (\<lambda>e. since start key e \<and> (if inc then rc_Timestamp e \<le> end_time else rc_Timestamp e < end_time))
       (recent start (uc_events c)), True)"
  by (auto simp: EventsSince_def cache_Events_def since_def recent_def Let_def not_less filter_empty_conv intro!: filter_cong)

lemma filter_recent:
  assumes "\<And>e. P e \<Longrightarrow> start \<le> rc_Timestamp e"
  shows "filter P (recent start es) = filter P es"
  using assms by (auto simp: recent_def intro!: filter_cong)

lemma since_recent:
  "filter (since start key) (recent start es) = filter (since start key) es"
  "filter (\<lambda>e. since start key e \<and> Q e) (recent start es) = filter (\<lambda>e. since start key e \<and> Q e) es"
  by (rule filter_recent, simp add: since_def)+

lemma served:
  assumes "NewUsageRecentEventCache uni ord z load_rows scan_health t0 window = Inr c"
    and "load_rows (FormatStorageTime z (t_add t0 (- uc_window c))) = Inr rows"
    and "t_add t0 (- uc_window c) \<le> start"
    and "\<forall>(now, events) \<in> set steps. t_add now (- uc_window c) \<le> start"
  shows "recent start (uc_events (append_all uni ord steps c)) =
    recent start (map (project_row uni) rows @ map (project_event uni) (appended steps))"
  using append_all_recent [OF assms(4)] started_recent [OF assms(1-3)] by simp

lemma health_holds:
  assumes "NewUsageRecentEventCache uni ord z load_rows scan_health t0 window = Inr c"
    and "scan_health (FormatStorageTime z (t_add t0 (- credentialHealthWindow))) = (rows, None)"
    and "fst key \<noteq> []" "snd key \<noteq> []" "t0 \<le> now" "\<forall>(t, events) \<in> set steps. t \<le> now"
  shows "holds_rows (get_or [] (hh_bucketsByCredential (uc_credentialHealth (append_all uni ord steps c))) key) key now
    (rows @ credentialHealthRowsFromUsageEvents (appended steps))"
proof -
  have starts: "unix (credentialHealthWindowStart t) \<le> unix (credentialHealthWindowStart now)" if "t \<le> now" for t
    by (rule unix_mono) (use window_end_mono [OF that] in \<open>simp add: credentialHealthWindowStart_def t_add_def\<close>)
  show ?thesis
    unfolding holds_rows_def health_get_def [symmetric]
  proof (intro allI impI)
    fix u
    assume u: "unix (credentialHealthWindowStart now) \<le> u"
    have "\<forall>(t, events) \<in> set steps. unix (credentialHealthWindowStart t) \<le> u" "unix (credentialHealthWindowStart t0) \<le> u"
      using assms(5,6) starts u by (blast intro: order_trans)+
    then show "health_get (uc_credentialHealth (append_all uni ord steps c)) key u =
        fold add_health_row (filter (in_bucket key u) (rows @ credentialHealthRowsFromUsageEvents (appended steps))) no_counts"
      by (simp add: health_append_all [OF assms(3,4)] health_started [OF assms(1-4)])
  qed
qed

lemma health_counted:
  assumes "NewUsageRecentEventCache uni ord z load_rows scan_health t0 window = Inr c"
    and "scan_health (FormatStorageTime z (t_add t0 (- credentialHealthWindow))) = (rows, None)"
    and "authType \<noteq> []" "authIndex \<noteq> []" "t0 \<le> now" "\<forall>(t, events) \<in> set steps. t \<le> now"
    and "i64 (int (length rows + length (appended steps)))"
  shows "CredentialHealth (Some (append_all uni ord steps c)) authType authIndex now =
    Some (expected_snapshot (authType, authIndex) now (rows @ credentialHealthRowsFromUsageEvents (appended steps)), True)"
proof -
  have "holds_rows (get_or [] (hh_bucketsByCredential (uc_credentialHealth (append_all uni ord steps c))) (authType, authIndex))
      (authType, authIndex) now (rows @ credentialHealthRowsFromUsageEvents (appended steps))"
    by (rule health_holds [OF assms(1,2)]) (use assms(3-6) in simp_all)
  moreover have "i64 (int (length (rows @ credentialHealthRowsFromUsageEvents (appended steps))))"
    using assms(7) by (simp add: credentialHealthRowsFromUsageEvents_def)
  ultimately show ?thesis
    using assms(3,4) by (simp add: CredentialHealth_def newCredentialHealthKey_def snapshot_expected)
qed

text \<open>A cache loaded with one event to which two more are appended.\<close>

abbreviation sample_now :: gtime where "sample_now \<equiv> time_unix 1700000000"

definition sample_rows :: "string \<Rightarrow> string + recentUsageEventLoadRow list" where
  "sample_rows start = Inr [load_row_of_event sample_event]"

definition sample_health :: "string \<Rightarrow> credentialHealthLoadRow list \<times> string option" where
  "sample_health start = (credentialHealthRowsFromUsageEvents [sample_event], None)"

definition sample_steps :: "(gtime \<times> UsageEvent list) list" where
  "sample_steps = [(sample_now, [sample_event, sample_event\<lparr>ev_Failed := True\<rparr>])]"

definition sample_cache :: UsageRecentEventCache where
  "sample_cache = (case NewUsageRecentEventCache id id berlin sample_rows sample_health sample_now 0 of Inl _ \<Rightarrow> undefined | Inr c \<Rightarrow> c)"

lemma sample_started: "NewUsageRecentEventCache id id berlin sample_rows sample_health sample_now 0 = Inr sample_cache"
  by (simp add: sample_cache_def NewUsageRecentEventCache_def sample_rows_def sample_health_def Let_def)

lemma sample_holds:
  "uc_window sample_cache = 70 * Minute"
  "appended sample_steps = [sample_event, sample_event\<lparr>ev_Failed := True\<rparr>]"
  "\<forall>(now, events) \<in> set sample_steps. now = sample_now"
proof -
  show "uc_window sample_cache = 70 * Minute"
    by (simp add: sample_cache_def NewUsageRecentEventCache_def sample_rows_def sample_health_def Let_def
        load_health_adds newEmptyUsageRecentEventCache_def pruneLocked_def append_rows)
qed (simp_all add: sample_steps_def)

lemma sample_since:
  "since (t_add sample_now (- Minute)) ''g'' (project_event id sample_event)"
  "since (t_add sample_now (- Minute)) ''g'' (project_event id (sample_event\<lparr>ev_Failed := True\<rparr>))"
proof -
  have "go_trim_space ''g'' = ''g''" by code_simp
  then show "since (t_add sample_now (- Minute)) ''g'' (project_event id sample_event)"
    "since (t_add sample_now (- Minute)) ''g'' (project_event id (sample_event\<lparr>ev_Failed := True\<rparr>))"
    by (simp_all add: since_def project_event_def sample_event_def t_add_def)
qed

lemma sample_counts:
  "hs_TotalSuccess (expected_snapshot (''oauth'', ''a'') sample_now
     (credentialHealthRowsFromUsageEvents [sample_event, sample_event, sample_event\<lparr>ev_Failed := True\<rparr>])) = 2"
  "hs_InputTokens (expected_snapshot (''oauth'', ''a'') sample_now
     (credentialHealthRowsFromUsageEvents [sample_event, sample_event, sample_event\<lparr>ev_Failed := True\<rparr>])) = 30"
proof -
  let ?rows = "credentialHealthRowsFromUsageEvents [sample_event, sample_event, sample_event\<lparr>ev_Failed := True\<rparr>]"
  have "requests_of (''oauth'', ''a'') (credentialHealthWindowStart sample_now) (credentialHealthWindowEnd sample_now) ?rows = ?rows"
    by (simp add: requests_of_def row_key_def within_def credentialHealthRowsFromUsageEvents_def sample_event_def
        credentialHealthWindowStart_def credentialHealthWindowEnd_def t_truncate_def t_add_def zero_time_def time_unix_def)
  then show "hs_TotalSuccess (expected_snapshot (''oauth'', ''a'') sample_now ?rows) = 2"
    "hs_InputTokens (expected_snapshot (''oauth'', ''a'') sample_now ?rows) = 30"
    by (simp_all add: expected_snapshot_def Let_def successes_def) (simp_all add: credentialHealthRowsFromUsageEvents_def sample_event_def)
qed

section \<open>Properties\<close>

text \<open>
  C10: A query of the cache that starts no earlier than any cutoff used so far misses nothing and repeats nothing: it
  returns exactly the rows loaded at the start and the events appended since, in that order, that lie in the window asked
  for and belong to the key, each with the fields that \<open>project_row\<close> and \<open>project_event\<close> spell out.
\<close>

theorem recent_events_served:
  assumes "NewUsageRecentEventCache uni ord z load_rows scan_health t0 window = Inr c"
    and "load_rows (FormatStorageTime z (t_add t0 (- uc_window c))) = Inr rows"
    and "t_add t0 (- uc_window c) \<le> start"
    and "\<forall>(now, events) \<in> set steps. t_add now (- uc_window c) \<le> start"
  shows "EventsSince (Some (append_all uni ord steps c)) start key =
      (filter (since start key) (map (project_row uni) rows @ map (project_event uni) (appended steps)), True) \<and>
    cache_Events (Some (append_all uni ord steps c)) start end_time inc key =
      (filter (\<lambda>e. since start key e \<and> (if inc then rc_Timestamp e \<le> end_time else rc_Timestamp e < end_time))
         (map (project_row uni) rows @ map (project_event uni) (appended steps)), True)"
  unfolding queries_recent served [OF assms] since_recent by simp

theorem recent_events_served_witness:
  "NewUsageRecentEventCache id id berlin sample_rows sample_health sample_now 0 = Inr sample_cache \<and>
   EventsSince (Some (append_all id id sample_steps sample_cache)) (t_add sample_now (- Minute)) ''g'' =
     (map (project_event id) [sample_event, sample_event, sample_event\<lparr>ev_Failed := True\<rparr>], True)"
  using recent_events_served [OF sample_started, of "[load_row_of_event sample_event]" "t_add sample_now (- Minute)" sample_steps "''g''" sample_now True]
    sample_since sample_holds(3)
  by (simp add: sample_started sample_holds(1,2) sample_rows_def t_add_def split_def event_loaded)

text \<open>
  C39: The pool of texts neither leaks nor frees too early: after the start and any appends, whatever the clock shows, a
  text is in the pool exactly when a cached event holds it, with the number of fields that hold it as its count.
\<close>

theorem pool_counts_holders:
  assumes "NewUsageRecentEventCache uni ord z load_rows scan_health t0 window = Inr c"
  shows "mget (uc_pool (append_all uni ord steps c)) v =
    (let held = concat (map event_texts (uc_events (append_all uni ord steps c))) in
     if v = [] \<or> v \<notin> set held then None else Some (int (count_list held v)))"
  using append_all_exact [OF started_exact [OF assms], of uni ord steps]
  by (simp add: pool_exact_def pool_counts_def refs_in_def)

theorem pool_counts_holders_witness:
  "mget (uc_pool (append_all id id sample_steps sample_cache)) ''m'' =
    (let held = concat (map event_texts (uc_events (append_all id id sample_steps sample_cache))) in
     if ''m'' = [] \<or> ''m'' \<notin> set held then None else Some (int (count_list held ''m'')))"
  by (rule pool_counts_holders [OF sample_started])

text \<open>
  C11: The health of a credential shows the requests of its last five hours, each once: the totals, the tokens (held at the
  largest integer instead of overflowing) and each of the thirty buckets are those of the requests, loaded at the start or
  appended since, that fall into them, although buckets are pruned with every append.
\<close>

theorem credential_health_counts:
  assumes "NewUsageRecentEventCache uni ord z load_rows scan_health t0 window = Inr c"
    and "scan_health (FormatStorageTime z (t_add t0 (- credentialHealthWindow))) = (rows, None)"
    and "authType \<noteq> []" and "authIndex \<noteq> []" and "t0 \<le> now" and "\<forall>(t, events) \<in> set steps. t \<le> now"
    and "i64 (int (length rows + length (appended steps)))"
  shows "CredentialHealth (Some (append_all uni ord steps c)) authType authIndex now =
    Some (expected_snapshot (authType, authIndex) now (rows @ credentialHealthRowsFromUsageEvents (appended steps)), True)"
  by (rule health_counted [OF assms])

theorem credential_health_counts_witness:
  "\<exists>snapshot. CredentialHealth (Some (append_all id id sample_steps sample_cache)) ''oauth'' ''a'' sample_now = Some (snapshot, True) \<and>
    hs_TotalSuccess snapshot = 2 \<and> hs_InputTokens snapshot = 30"
  using credential_health_counts [OF sample_started, of "credentialHealthRowsFromUsageEvents [sample_event]" "''oauth''" "''a''" sample_now sample_steps]
    sample_counts sample_holds(3)
  by (simp add: sample_holds(2) sample_health_def credentialHealthRowsFromUsageEvents_def i64_def split_def)

text \<open>
  C40: The queue in front of the cache loses and reorders nothing it accepted: the accepted batches are those handled, the
  one being taken and those in the channel, in order.  A caller that holds a slot always finds room, so that it is refused
  only because the cache was closed.
\<close>

theorem append_queue_in_order:
  assumes "queue_run (new_append_queue queueSize) ls q"
  shows "accepted ls = aq_handled q @ being_taken q @ aq_channel q \<and> length (aq_channel q) \<le> aq_size q \<and>
    (aq_sending q \<noteq> [] \<longrightarrow> length (aq_channel q) < aq_size q)"
proof -
  have "queue_inv q ls" using queue_inv_run [OF assms refl] .
  then show ?thesis
    using slot_finds_room [of q ls] by (auto simp: queue_inv_def slots_counted_def)
qed

theorem append_queue_in_order_witness:
  "\<exists>q. queue_run (new_append_queue 1) [Internal, Accepts [sample_event]] q \<and>
    accepted [Internal, Accepts [sample_event]] = aq_handled q @ being_taken q @ aq_channel q \<and> aq_channel q = [[sample_event]]"
proof -
  let ?q = "new_append_queue 1\<lparr>aq_slots := 0, aq_channel := [[sample_event]]\<rparr>"
  have "queue_step (new_append_queue 1) Internal (new_append_queue 1\<lparr>aq_slots := 0, aq_sending := [[sample_event]]\<rparr>)"
    using acquireAppendSlot [of "[sample_event]" "new_append_queue 1"] by (simp add: new_append_queue_def)
  moreover have "queue_step (new_append_queue 1\<lparr>aq_slots := 0, aq_sending := [[sample_event]]\<rparr>) (Accepts [sample_event]) ?q"
    using sends [of "new_append_queue 1\<lparr>aq_slots := 0, aq_sending := [[sample_event]]\<rparr>" "[]" "[sample_event]" "[]"]
    by (simp add: new_append_queue_def)
  ultimately have run: "queue_run (new_append_queue 1) [Internal, Accepts [sample_event]] ?q"
    using queue_run.step [OF queue_run.step [OF queue_run.start]] by fastforce
  show ?thesis using append_queue_in_order [OF run] run by (intro exI [of _ ?q]) simp
qed

end
