(* ===== verification/Spec2Isabelle.thy ===== *)
theory Spec2Isabelle
  imports LoginLimiter TokenRegistry ActivityRows Overview LatencyRows IngestStatus IngestShutdown SessionProps InboxProps
    AggregationHistory IdentityProps RecentCacheProps
begin

text \<open>
  CPA Usage Keeper, a Go service that keeps the usage records of a CPA gateway.  This development models the path a
  usage record takes through the program, and the logins to its pages, and proves what makes them correct.

  \<^bold>\<open>The way of a record.\<close>  A background task takes raw messages from the gateway's queue (by subscription, or by pulling) and
  stores them in an inbox table.  A second task works the inbox off: it decodes each message, reconciles the token counts of
  the event by the rules of its protocol, and stores the event and the marking of its row in one transaction.  A third
  brings three rollups, and the totals kept with each credential, up to date with the events: overview rows per hour and per day, activity rows in four grains of
  time, and latency rows that hold mergeable sketches and samples.  Each rollup has a checkpoint, the id up to which it has
  counted, that moves in the transaction that adds the rows.  Once a day old rows are cleaned away and events that all the
  rollups have counted move to an archive.

  \<^bold>\<open>Theories and sources\<close> (under \<open>src/internal\<close>):

  \<^item> \<open>GoBase\<close>, \<open>GoTime\<close>, \<open>StateLogic\<close>: the prelude.  Go's integers, strings, maps and slices (a map is an association
    list; the order in which the runtime visits it is a parameter \<open>ord\<close>, of which only \<open>iteration_order ord\<close> is
    assumed), instants and time zones (a zone is the lookup function of its \<open>Location\<close>), and the rules \<open>holds P c Q\<close> for
    programs of the state monad.
  \<^item> \<open>Entities\<close> (\<open>entities\<close>), \<open>Grouping\<close>: the rows, and the locales for grouping items into rows that three components use.
  \<^item> \<open>TokenTypes\<close>, \<open>TokenHandlers\<close>, \<open>TokenProcess\<close>, \<open>TokenRegistry\<close> (\<open>service/tokenprocessor\<close>): token values, the handlers of the
    protocols, the reconciliation of the total, and the resolution of an executor or identity to a handler.  The indexes of the
    registry are built from any tables of packages and handlers, with the checks the code makes; the service's own tables
    pass them.
  \<^item> \<open>UsageDecode\<close> (\<open>service/redis_usage.go\<close>), \<open>InboxRows\<close> (\<open>repository/redis_usage_inbox.go\<close>, \<open>InsertUsageEvents\<close> of
    \<open>repository/db.go\<close>), \<open>InboxProcess\<close> (\<open>service/sync.go\<close>), \<open>ProcessRunner\<close> (\<open>poller/redis_process_runner.go\<close>): decoding,
    the inbox table, its processing, and the task around it.  \<open>InboxSafety\<close>, \<open>InboxBatch\<close>, \<open>InboxRun\<close> and \<open>InboxProps\<close> prove that
    whatever statement fails, processing changes the tables only by the moves of an abstract machine; a ledger of the
    messages that arrived and of the rows that were removed shows that no message is lost or counted twice, and a removed row
    is one that was processed before that day, or that failed and was not touched for seven days.  The rounds the task does
    without a pause are bounded by the backlog and by what arrives between them.
  \<^item> \<open>IngestControl\<close>, \<open>IngestRunner\<close>, \<open>IngestLoops\<close> (\<open>poller/control_message.go\<close>, \<open>redis_inbox_writer.go\<close>,
    \<open>redis_ingest_runner.go\<close>, \<open>redis_ingest_state.go\<close>, \<open>redis_ingest_backoff.go\<close>): the ingest task, one iteration of a loop at a time.
    \<open>IngestSafety\<close>, \<open>IngestStatus\<close> and \<open>IngestShutdown\<close> prove that it hands over everything it takes, publishes in every
    iteration the state it is in, and stops.
  \<^item> \<open>StorageTime\<close>, \<open>StorageOrder\<close> (\<open>timeutil/storage.go\<close>): instants as stored text, and when comparing texts is comparing instants.
  \<^item> \<open>ActivityGrain\<close>, \<open>ActivityRows\<close> (\<open>activity\<close>), \<open>Overview\<close> (\<open>overview\<close>), \<open>Varint\<close>, \<open>LatencySketch\<close>, \<open>LatencySamples\<close>,
    \<open>LatencyRows\<close> (\<open>latency\<close>): the rows of a page of events, for each rollup.
  \<^item> \<open>RollupStore\<close> (\<open>repository/usage_aggregation_checkpoint.go\<close>, \<open>usage_aggregation_page.go\<close>, \<open>overviewstore\<close>, \<open>activitystore\<close>),
    \<open>LatencyStore\<close> (\<open>latencystore\<close>), \<open>RollupPages\<close> (\<open>usage_overview_stats.go\<close>, \<open>usage_activity_stats.go\<close>,
    \<open>usage_latency_stats.go\<close>), \<open>RollupArchive\<close> (\<open>usage_event_archive.go\<close>, \<open>CleanupStorage\<close> of \<open>db.go\<close>): the tables of the
    rollups and everything that writes them.  \<open>RollupCount\<close> proves once, in the locale \<open>counted\<close>, that adding the rows of a page
    to a table adds its events; \<open>RollupLatency\<close> that merging latency rows does; \<open>RollupEffects\<close> states what the database promises and what the writes do.
    \<open>RollupCursors\<close>, \<open>RollupState\<close>, \<open>RollupLatencyPage\<close>, \<open>RollupSafety\<close> and \<open>RollupInvariant\<close> define when the tables are exact for
    the events up to the checkpoints and prove that applying a page keeps it so; \<open>RollupBatches\<close> that the aggregation of a
    rollup ends; \<open>RollupUpkeep\<close> that clean-up and archive keep it; \<open>RollupHistory\<close> and \<open>RollupProps\<close> put the steps in any order;
    \<open>RollupMemory\<close> is a database in memory that keeps the promises, for the witnesses.
  \<^item> \<open>IdentityStats\<close> (\<open>repository/usage_identities.go\<close>): the totals kept with each credential; \<open>IdentitySafety\<close> and
    \<open>IdentityProps\<close> prove that a pass over them makes every total that of all events.
  \<^item> \<open>AggregationRunner\<close> (\<open>poller/usage_aggregation_runner.go\<close>): the task that decides when the rollups and the totals are brought
    up to date, as a step relation.  The work of a turn is a program of single accesses of the database (\<open>prog\<close>), one step each, so
    that the other tasks come between them.  \<open>AggregationSafety\<close> says what the others can do in between (\<open>meddle\<close>) and proves the
    work of a turn \<open>safe\<close> among them; \<open>AggregationHistory\<close> that no notification, and no event stored before the start, is lost.
  \<^item> \<open>RecentCache\<close> (\<open>repository/usage_recent_event_cache.go\<close>, \<open>usage_credential_health_cache.go\<close>): the events of the last seventy
    minutes in memory, the pool of their texts, the queue in front of them and the health of credentials.
    \<open>RecentCacheSafety\<close> proves what a query sees, the counts of the pool and the order of the queue, \<open>CredentialHealth\<close> what a
    snapshot counts; \<open>RecentCacheProps\<close> states the properties.
  \<^item> \<open>Sessions\<close>, \<open>SessionSafety\<close>, \<open>SessionProps\<close> (\<open>auth/session.go\<close>), \<open>LoginLimiter\<close> (\<open>auth/login_limiter.go\<close>): logins.  The
    goroutines that write the activity of sessions are kept as a list, one entry for each that runs.

  \<^bold>\<open>Parameters.\<close>  The database is a record of the statements the code issues, over an unknown state \<open>'s\<close>.  Any statement may
  fail at any time; the laws (\<open>inbox_db_ok\<close>, \<open>rollup_db_ok\<close>, the laws of the session store) say what a statement that succeeds
  does, and that a transaction that does not commit leaves the tables alone.  The gateway, the clock, the order of map
  iteration, JSON decoding, hashes and the floating-point bin of a latency are parameters as well.

  \<^bold>\<open>Fuel and bounds.\<close>  Loops that move an index or scan bytes are shown to end.  The loops over pages and rounds carry fuel and
  give \<open>None\<close> when it runs out; the properties say how much is enough.  Integers of the program are \<open>int\<close> with the
  wrap-around of 64 bits written out; sums that SQL makes are unbounded, and the properties assume that they fit (\<open>fits\<close>).

  \<^bold>\<open>Not modelled.\<close>  HTTP routing and rendering, configuration, logging, the client of the gateway, quota and ranking services
  (exchanges with outside services), migrations, backups and benchmarks, the read queries of the pages, and the web front end; the
  manifest lists them one by one.  Goroutines are modelled by their atomic sections, in any order; in the
  aggregation task a section is a critical section or one access of the database, while each operation of the other writers
  (and the batch of credentials, which touches no rollup) is one section.
\<close>

end
